(* ===== verification/Prelude.thy ===== *)
theory Prelude imports Main "HOL-Library.Word" begin

text \<open>
  Shared vocabulary of the development: the widths of the C integer types, block copies into
  byte buffers, bounded counting loops, and the generic lemmas on words and lists that several
  components use.  The collections \<open>word_conv\<close> and \<open>buf_simps\<close> gather the rewrite rules that
  move machine words to natural numbers and that evaluate reads and writes of buffers.
\<close>

unbundle bit_operations_syntax

named_theorems word_conv \<open>rules reading machine words as natural numbers\<close>
named_theorems buf_simps \<open>rules for block reads and writes of buffers\<close>

type_synonym u8 = "8 word"
type_synonym u16 = "16 word"
type_synonym u32 = "32 word"
type_synonym u64 = "64 word"

section \<open>Words\<close>

lemma unat_u8_lt [simp]: "unat (x :: u8) < 256"
  by (rule order_less_le_trans [OF unsigned_less]) simp

lemma unat_u8_le [simp]: "unat (x :: u8) \<le> 255"
  using unat_u8_lt [of x] by linarith

lemma unat_u16_lt [simp]: "unat (x :: u16) < 65536"
  by (rule order_less_le_trans [OF unsigned_less]) simp

lemma unat_u32_lt [simp]: "unat (x :: u32) < 4294967296"
  by (rule order_less_le_trans [OF unsigned_less]) simp

lemma unat_add_small [word_conv]:
  fixes x y :: "'a::len word"
  assumes "unat x + unat y < 2 ^ LENGTH('a)"
  shows "unat (x + y) = unat x + unat y"
  using assms by (simp add: unat_word_ariths)

lemma unat_sub_small [word_conv]:
  fixes x y :: "'a::len word"
  assumes "unat y \<le> unat x"
  shows "unat (x - y) = unat x - unat y"
  using assms by (simp add: unat_sub word_le_nat_alt)

lemma unat_inc_small:
  fixes x :: "'a::len word"
  assumes "unat x + 1 < 2 ^ LENGTH('a)"
  shows "unat (x + 1) = unat x + 1"
proof (cases "LENGTH('a) = 1")
  case True
  with assms have "unat x = 0" by simp
  then have "x = 0" by (simp add: unat_eq_zero)
  then show ?thesis by simp
next
  case False
  then have "1 < LENGTH('a)" using len_gt_0 [where 'a = 'a] by linarith
  then have "unat (1 :: 'a word) = 1" by simp
  with assms show ?thesis by (simp add: unat_add_small)
qed

lemma word_less_nat_eq [word_conv]: "(x :: 'a::len word) < y \<longleftrightarrow> unat x < unat y"
  by (rule word_less_nat_alt)

lemma word_le_nat_eq [word_conv]: "(x :: 'a::len word) \<le> y \<longleftrightarrow> unat x \<le> unat y"
  by (rule word_le_nat_alt)

lemma unat_ucast_up [word_conv]:
  fixes x :: "'a::len word"
  assumes "LENGTH('a) \<le> LENGTH('b::len)"
  shows "unat (ucast x :: 'b word) = unat x"
proof -
  have "unat x < 2 ^ LENGTH('a)" by (rule unsigned_less)
  also have "\<dots> \<le> (2 :: nat) ^ LENGTH('b)" using assms by (rule power_increasing) simp
  finally show ?thesis by (simp add: unsigned_ucast_eq take_bit_nat_eq_self)
qed

lemma xor_cancel_left:
  fixes a b :: "'a::len word"
  shows "a XOR (a XOR b) = b"
  by (simp flip: xor.assoc)

lemma xor_eq_zero_iff:
  fixes a b :: "'a::len word"
  shows "a XOR b = 0 \<longleftrightarrow> a = b"
proof
  assume "a XOR b = 0"
  then have "a XOR (a XOR b) = a" by simp
  then show "a = b" by (simp add: xor_cancel_left)
qed simp

section \<open>Buffers\<close>

text \<open>
  \<open>memcpy_at off d buf\<close> is the buffer after the bytes \<open>d\<close> have been stored from offset \<open>off\<close> on,
  and \<open>slice off n buf\<close> the \<open>n\<close> bytes read from offset \<open>off\<close>.  Both are used where the source
  stays inside the buffer.
\<close>

definition memcpy_at :: "nat \<Rightarrow> 'a list \<Rightarrow> 'a list \<Rightarrow> 'a list" where
  "memcpy_at off d buf = take off buf @ d @ drop (off + length d) buf"

definition slice :: "nat \<Rightarrow> nat \<Rightarrow> 'a list \<Rightarrow> 'a list" where
  "slice off n buf = take n (drop off buf)"

lemma length_memcpy_at [simp]:
  "off + length d \<le> length buf \<Longrightarrow> length (memcpy_at off d buf) = length buf"
  by (simp add: memcpy_at_def)

lemma nth_memcpy_at [buf_simps]:
  assumes "off + length d \<le> length buf" and "i < length buf"
  shows "memcpy_at off d buf ! i =
    (if off \<le> i \<and> i < off + length d then d ! (i - off) else buf ! i)"
  using assms by (auto simp: memcpy_at_def nth_append)

lemma slice_memcpy_at [buf_simps]:
  "off + length d \<le> length buf \<Longrightarrow> slice off (length d) (memcpy_at off d buf) = d"
  by (simp add: slice_def memcpy_at_def)

lemma length_slice [simp]: "off + n \<le> length buf \<Longrightarrow> length (slice off n buf) = n"
  by (simp add: slice_def)

lemma nth_slice [buf_simps]: "off + n \<le> length buf \<Longrightarrow> i < n \<Longrightarrow> slice off n buf ! i = buf ! (off + i)"
  by (simp add: slice_def)

lemma replicate_4: "replicate 4 x = [x, x, x, x]"
  by (simp add: numeral_eq_Suc)

lemma memcpy_at_Nil [simp]: "memcpy_at off [] buf = buf"
  by (simp add: memcpy_at_def)

lemma memcpy_at_Cons:
  "i < length buf \<Longrightarrow> memcpy_at (Suc i) d (buf[i := b]) = memcpy_at i (b # d) buf"
  by (simp add: memcpy_at_def upd_conv_take_nth_drop take_Suc_conv_app_nth add.commute)

lemma slice_memcpy_other [buf_simps]:
  assumes "off' + length d \<le> length buf" "off + n \<le> length buf"
    and "off + n \<le> off' \<or> off' + length d \<le> off"
  shows "slice off n (memcpy_at off' d buf) = slice off n buf"
  by (rule nth_equalityI) (use assms in \<open>auto simp: nth_slice nth_memcpy_at\<close>)

lemma slice_update_other [buf_simps]:
  assumes "off + n \<le> length buf" "i < off \<or> off + n \<le> i"
  shows "slice off n (buf[i := x]) = slice off n buf"
  by (rule nth_equalityI) (use assms in \<open>auto simp: nth_slice nth_list_update\<close>)

lemma slice_concat:
  assumes "\<forall>x \<in> set xs. length x = k" "i < length xs"
  shows "slice (i * k) k (concat xs) = xs ! i"
  using assms
proof (induction xs arbitrary: i)
  case (Cons x xs)
  then show ?case by (cases i) (simp_all add: slice_def)
qed simp

lemma slice_append_right: "length xs \<le> off \<Longrightarrow> slice off n (xs @ ys) = slice (off - length xs) n ys"
  by (simp add: slice_def)

lemma slice_append_left: "off + n \<le> length xs \<Longrightarrow> slice off n (xs @ ys) = slice off n xs"
  by (simp add: slice_def)

lemma take_memcpy_at_0: "length d \<le> length buf \<Longrightarrow> take (length d) (memcpy_at 0 d buf) = d"
  by (simp add: memcpy_at_def)

end
