(* ===== verification/Clock.thy ===== *)
theory Clock imports Prelude begin

text \<open>
  The system clock (services/clock/clock.c, services/clock/clock.h): seconds since 1970 kept by a
  timer tick or a crystal interrupt, disciplined by a synchronisation source, and converted to and
  from calendar dates.  The build flags of the source are a record.  \<open>clock_datetime\<close> and
  \<open>clock_utc2timestamp\<close> read the month table without a bounds check; the model returns \<open>None\<close>
  where such a read would leave the table.
\<close>

section \<open>State\<close>

record clock_cfg =
  CLOCK_CRYSTAL_SUPPORT :: bool
  NTP_SUPPORT :: bool
  DCF77_SUPPORT :: bool
  WHM_SUPPORT :: bool
  CLOCK_NTP_ADJUST_SUPPORT :: bool
  TIMEZONE_CEST :: bool

text \<open>\<open>OCR1A\<close> is the timer's compare register; \<open>ntp_requests\<close> counts the calls of \<open>ntp_send_packet\<close>.\<close>

record clock_state =
  timestamp :: u32
  ticks :: u8
  sync_timestamp :: u32
  ntp_timer :: u16
  startup_timestamp :: u32
  OCR1A :: u16
  ntp_requests :: nat

record clock_datetime_t =
  sec :: u8
  minute :: u8
  hour :: u8
  day :: u8
  month :: u8
  dow :: u8
  year :: u8

definition NTP_RESYNC_PERIOD :: int where "NTP_RESYNC_PERIOD = 1800"
definition EPOCH_YEAR :: nat where "EPOCH_YEAR = 1970"
definition EPOCH_DOW :: nat where "EPOCH_DOW = 4"

definition months :: "nat list" where
  "months = [31, 28, 31, 30, 31, 30, 31, 31, 30, 31, 30, 31]"

definition is_leap_year :: "nat \<Rightarrow> bool" where
  "is_leap_year y \<longleftrightarrow> y mod 4 = 0 \<and> (y mod 100 \<noteq> 0 \<or> y mod 400 = 0)"

section \<open>Ticking and synchronisation\<close>

text \<open>The body shared by the timer tick and the crystal interrupt.\<close>

definition clock_second :: "clock_cfg \<Rightarrow> clock_state \<Rightarrow> clock_state" where
  "clock_second c s =
    (let ts = (if (NTP_SUPPORT c \<or> DCF77_SUPPORT c) \<and>
                  \<not> (sync_timestamp s = 0 \<or> sync_timestamp s = timestamp s)
               then timestamp s else timestamp s + 1);
         sy = (if sync_timestamp s \<noteq> 0 then sync_timestamp s + 1 else sync_timestamp s)
     in s\<lparr>timestamp := ts, sync_timestamp := sy\<rparr>)"

definition SIG_OVERFLOW2 :: "clock_cfg \<Rightarrow> clock_state \<Rightarrow> clock_state" where
  "SIG_OVERFLOW2 c s = (if CLOCK_CRYSTAL_SUPPORT c then clock_second c s else s)"

definition clock_tick :: "clock_cfg \<Rightarrow> clock_state \<Rightarrow> clock_state" where
  "clock_tick c s =
    (let s1 = s\<lparr>ticks := ticks s + 1\<rparr>
     in if ticks s1 > 50
        then (if CLOCK_CRYSTAL_SUPPORT c then s1 else clock_second c s1)\<lparr>ticks := 0\<rparr>
        else s1)"

definition clock_periodic :: "clock_cfg \<Rightarrow> clock_state \<Rightarrow> clock_state" where
  "clock_periodic c s =
    (if NTP_SUPPORT c
     then if ntp_timer s \<noteq> 0 then s\<lparr>ntp_timer := ntp_timer s - 1\<rparr>
          else s\<lparr>ntp_timer := 10, ntp_requests := ntp_requests s + 1\<rparr>
     else s)"

text \<open>The drift correction; \<open>delta\<close> is the difference cut to a signed 16-bit integer.\<close>

definition ntp_adjust :: "clock_state \<Rightarrow> u32 \<Rightarrow> clock_state" where
  "ntp_adjust s new_sync =
    (if sync_timestamp s = 0 then s
     else let delta = sint (ucast (new_sync - sync_timestamp s) :: 16 word) in
       if delta < -300 \<or> delta > 300 then s
       else if sync_timestamp s \<noteq> timestamp s then s
       else if NTP_RESYNC_PERIOD = - delta then s
       else s\<lparr>OCR1A := ucast ((ucast (OCR1A s) :: u32) * word_of_int NTP_RESYNC_PERIOD
                div word_of_int (NTP_RESYNC_PERIOD + delta))\<rparr>)"

definition clock_set_time :: "clock_cfg \<Rightarrow> clock_state \<Rightarrow> u32 \<Rightarrow> clock_state" where
  "clock_set_time c s0 new_sync =
    (let s1 = (if CLOCK_NTP_ADJUST_SUPPORT c then ntp_adjust s0 new_sync else s0);
         s2 = s1\<lparr>sync_timestamp := new_sync\<rparr>;
         s3 = (if sync_timestamp s2 > timestamp s2 \<or> timestamp s2 - sync_timestamp s2 > 300
               then s2\<lparr>timestamp := sync_timestamp s2\<rparr> else s2);
         s4 = (if WHM_SUPPORT c \<and> startup_timestamp s3 = 0
               then s3\<lparr>startup_timestamp := sync_timestamp s3\<rparr> else s3)
     in if NTP_SUPPORT c then s4\<lparr>ntp_timer := word_of_int NTP_RESYNC_PERIOD\<rparr> else s4)"

definition clock_get_time :: "clock_state \<Rightarrow> u32" where
  "clock_get_time s = timestamp s"

definition clock_last_sync :: "clock_state \<Rightarrow> u32" where
  "clock_last_sync s = sync_timestamp s"

definition clock_get_startup :: "clock_state \<Rightarrow> u32" where
  "clock_get_startup s = startup_timestamp s"

section \<open>Dates from timestamps\<close>

text \<open>\<open>days\<close> and \<open>year\<close> are 16 bits wide; the loop never leaves that range.\<close>

function datetime_year :: "nat \<Rightarrow> nat \<Rightarrow> nat \<times> nat" where
  "datetime_year days yr =
    (if days \<ge> 365
     then if is_leap_year yr
          then if days = 365 then (days, yr)
               else datetime_year (days - 1 - 365) ((yr + 1) mod 65536)
          else datetime_year (days - 365) ((yr + 1) mod 65536)
     else (days, yr))"
  by pat_completeness auto
termination by (relation "measure fst") auto

text \<open>\<open>month\<close> counts from 0; a read at index 12 or above leaves the table.\<close>

function datetime_month :: "nat \<Rightarrow> nat \<Rightarrow> nat \<Rightarrow> (nat \<times> nat) option" where
  "datetime_month days yr mon =
    (if mon \<ge> length months then None
     else let monthdays = months ! mon + (if mon = 2 \<and> is_leap_year yr then 1 else 0)
          in if days < monthdays then Some (days, mon)
             else datetime_month (days - monthdays) yr (mon + 1))"
  by pat_completeness auto
termination by (relation "measure (\<lambda>(d, y, m). length months - m)") (auto simp: Let_def)

declare datetime_year.simps [simp del] datetime_month.simps [simp del]

definition clock_datetime :: "u32 \<Rightarrow> clock_datetime_t option" where
  "clock_datetime ts =
    (let t = unat ts;
         s = t mod 60; t1 = t div 60;
         mi = t1 mod 60; t2 = t1 div 60;
         h = t2 mod 24; t3 = t2 div 24;
         days = t3 mod 65536;
         dw = (days + EPOCH_DOW) mod 7;
         (days1, yr) = datetime_year days EPOCH_YEAR
     in case datetime_month days1 yr 0 of
          None \<Rightarrow> None
        | Some (days2, mon) \<Rightarrow>
            Some \<lparr>sec = of_nat s, minute = of_nat mi, hour = of_nat h,
                  day = of_nat days2 + 1, month = of_nat mon + 1, dow = of_nat dw,
                  year = of_nat (yr - 1900)\<rparr>)"

section \<open>Timestamps from dates\<close>

text \<open>The first argument after the year is \<open>d->month\<close> after the decrement at the loop's head.\<close>

fun utc_months :: "nat \<Rightarrow> nat \<Rightarrow> u32 \<Rightarrow> u32 option" where
  "utc_months yr 0 ts = Some ts"
| "utc_months yr (Suc i) ts =
    (if i \<ge> length months then None
     else utc_months yr i
       (ts + of_nat (months ! i + (if Suc i = 2 \<and> is_leap_year yr then 1 else 0)) * 86400))"

function utc_years :: "nat \<Rightarrow> nat \<Rightarrow> u32 \<Rightarrow> u32" where
  "utc_years yr stop ts =
    (if yr < stop
     then utc_years (yr + 1) stop (ts + (if is_leap_year yr then 31622400 else 31536000))
     else ts)"
  by pat_completeness auto
termination by (relation "measure (\<lambda>(y, e, t). e - y)") auto

declare utc_years.simps [simp del]

text \<open>The result is the timestamp and the date, whose month the loop has counted down to 0.\<close>

definition clock_utc2timestamp ::
    "clock_datetime_t \<Rightarrow> u8 \<Rightarrow> (u32 \<times> clock_datetime_t) option" where
  "clock_utc2timestamp d cest =
    (let t0 = (ucast (sec d) :: u32);
         t1 = t0 + ucast (minute d) * 60;
         t2 = t1 + ucast (hour d) * 3600;
         t3 = t2 + (ucast (day d) * 86400 - 86400)
     in case utc_months (unat (year d)) (unat (month d - 1)) t3 of
          None \<Rightarrow> None
        | Some t4 \<Rightarrow>
            let t5 = utc_years EPOCH_YEAR (unat (year d) + 2000) t4
            in Some (if cest = 0 then t5 - 3600 else t5 - 7200, d\<lparr>month := 0\<rparr>))"

section \<open>Local time\<close>

definition last_sunday_in_month :: "u8 \<Rightarrow> u8 \<Rightarrow> int" where
  "last_sunday_in_month d w =
    (let last_sunday = (if d > w then d - (w + 1) else d)
     in if 31 - int (unat last_sunday) \<le> 7
        then if w mod 7 = 0 then 0 else 1
        else -1)"

definition clock_localtime :: "clock_cfg \<Rightarrow> u32 \<Rightarrow> clock_datetime_t option" where
  "clock_localtime c ts =
    (if TIMEZONE_CEST c
     then case clock_datetime ts of
            None \<Rightarrow> None
          | Some d \<Rightarrow>
              let last_sunday = last_sunday_in_month (day d) (dow d);
                  ts' = (if month d < 3 \<or> month d > 10 then ts + 3600
                    else if month d = 3 \<and> (last_sunday = -1 \<or> last_sunday = 0 \<and> hour d < 1)
                      then ts + 3600
                    else if month d = 10 \<and> (last_sunday = 1 \<or> last_sunday = 0 \<and> hour d > 1)
                      then ts + 3600
                    else ts + 7200)
              in clock_datetime ts'
     else clock_datetime ts)"


section \<open>The reference calendar\<close>

text \<open>
  The proleptic Gregorian calendar, against which the conversions are stated: lengths of years
  and months, and the number of days from 1970-01-01 to a date.
\<close>

definition year_length :: "nat \<Rightarrow> nat" where
  "year_length y = (if is_leap_year y then 366 else 365)"

definition year_start :: "nat \<Rightarrow> nat" where
  "year_start y = sum_list (map year_length [1970..<y])"

definition month_length :: "nat \<Rightarrow> nat \<Rightarrow> nat" where
  "month_length y m = (if m = 2 \<and> is_leap_year y then 29 else months ! (m - 1))"

definition month_start :: "nat \<Rightarrow> nat \<Rightarrow> nat" where
  "month_start y m = sum_list (map (month_length y) [1..<m])"

definition valid_date :: "nat \<Rightarrow> nat \<Rightarrow> nat \<Rightarrow> bool" where
  "valid_date y m d \<longleftrightarrow> 1970 \<le> y \<and> 1 \<le> m \<and> m \<le> 12 \<and> 1 \<le> d \<and> d \<le> month_length y m"

definition civil_days :: "nat \<Rightarrow> nat \<Rightarrow> nat \<Rightarrow> nat" where
  "civil_days y m d = year_start y + month_start y m + (d - 1)"

definition civil_seconds :: "nat \<Rightarrow> nat \<Rightarrow> nat \<Rightarrow> nat \<Rightarrow> nat \<Rightarrow> nat \<Rightarrow> nat" where
  "civil_seconds y m d h mi s = civil_days y m d * 86400 + h * 3600 + mi * 60 + s"

lemma sum_upt_Cons:
  "a < b \<Longrightarrow> sum_list (map f [a..<b]) = (f a :: nat) + sum_list (map f [Suc a..<b])"
  by (simp add: upt_conv_Cons)

lemma year_length_pos [simp]: "0 < year_length y"
  by (simp add: year_length_def)

lemma datetime_year_base:
  assumes "r < year_length y"
  shows "datetime_year r y = (r, y)"
  using assms by (subst datetime_year.simps) (auto simp: year_length_def split: if_splits)

lemma datetime_year_step:
  assumes "y < 65535"
  shows "datetime_year (year_length y + r) y = datetime_year r (y + 1)"
  using assms by (subst datetime_year.simps) (auto simp: year_length_def)

lemma datetime_year_sum:
  assumes "y0 \<le> y" "y < 65536" "r < year_length y"
  shows "datetime_year (sum_list (map year_length [y0..<y]) + r) y0 = (r, y)"
  using assms
proof (induction "y - y0" arbitrary: y0)
  case 0
  then show ?case by (simp add: datetime_year_base)
next
  case (Suc n)
  then have lt: "y0 < y" by simp
  then have "datetime_year (sum_list (map year_length [y0..<y]) + r) y0 =
      datetime_year (year_length y0 + (sum_list (map year_length [Suc y0..<y]) + r)) y0"
    by (simp add: sum_upt_Cons add.assoc)
  also have "\<dots> = datetime_year (sum_list (map year_length [Suc y0..<y]) + r) (y0 + 1)"
    using lt Suc.prems by (intro datetime_year_step) simp
  also have "\<dots> = (r, y)"
    using Suc.hyps(1) [of "Suc y0"] Suc.hyps(2) Suc.prems lt by simp
  finally show ?case .
qed

text \<open>The month lengths the code's loop uses; its \<open>month\<close> counts from 0.\<close>

definition code_monthdays :: "nat \<Rightarrow> nat \<Rightarrow> nat" where
  "code_monthdays y m = months ! m + (if m = 2 \<and> is_leap_year y then 1 else 0)"

lemma datetime_month_sum:
  assumes "m0 \<le> m" "m < 12" "r < code_monthdays y m"
  shows "datetime_month (sum_list (map (code_monthdays y) [m0..<m]) + r) y m0 = Some (r, m)"
  using assms
proof (induction "m - m0" arbitrary: m0)
  case 0
  then show ?case
    by (subst datetime_month.simps) (simp add: code_monthdays_def months_def Let_def)
next
  case (Suc n)
  then have lt: "m0 < m" by simp
  let ?rest = "sum_list (map (code_monthdays y) [Suc m0..<m]) + r"
  have "datetime_month (sum_list (map (code_monthdays y) [m0..<m]) + r) y m0 =
      datetime_month (code_monthdays y m0 + ?rest) y m0"
    using lt by (simp add: sum_upt_Cons add.assoc)
  also have "\<dots> = datetime_month ?rest y (m0 + 1)"
    using lt Suc.prems(2)
    by (subst datetime_month.simps) (simp add: code_monthdays_def months_def Let_def)
  also have "\<dots> = Some (r, m)"
    using Suc.hyps(1) [of "Suc m0"] Suc.hyps(2) Suc.prems lt by simp
  finally show ?case .
qed


lemma year_start_Suc: "1970 \<le> y \<Longrightarrow> year_start (Suc y) = year_start y + year_length y"
  by (simp add: year_start_def)

lemma year_start_ge: "1970 \<le> y \<Longrightarrow> 365 * (y - 1970) \<le> year_start y"
proof (induction y rule: dec_induct)
  case (step n)
  moreover have "365 \<le> year_length n" by (simp add: year_length_def)
  ultimately show ?case by (simp add: year_start_Suc)
qed simp

lemma year_start_le: "1970 \<le> y \<Longrightarrow> year_start y \<le> year_start 1970 + 366 * (y - 1970)"
proof (induction y rule: dec_induct)
  case (step n)
  moreover have "year_length n \<le> 366" by (simp add: year_length_def)
  ultimately show ?case by (simp add: year_start_Suc)
qed simp

text \<open>
  What the conversion makes of a date: the loop adds the leap day to its month 2, which is March
  as the months count from 0 there.
\<close>

definition code_date :: "nat \<Rightarrow> nat \<Rightarrow> nat \<Rightarrow> nat \<times> nat" where
  "code_date y m d =
    (if is_leap_year y \<and> m = 2 \<and> d = 29 then (3, 1)
     else if is_leap_year y \<and> m = 3 then (3, d + 1) else (m, d))"

lemma month_cases:
  assumes "1 \<le> m" "m \<le> (12 :: nat)"
  obtains "m = 1" | "m = 2" | "m = 3" | "m = 4" | "m = 5" | "m = 6"
    | "m = 7" | "m = 8" | "m = 9" | "m = 10" | "m = 11" | "m = 12"
proof -
  from assms have "m \<in> {1..<13}" by simp
  then have "m \<in> set [1, 2, 3, 4, 5, 6, 7, 8, 9, 10, 11, 12]"
    by (simp only: set_upt [symmetric]) (simp add: upt_rec numeral_eq_Suc)
  then show thesis using that by auto
qed

lemma month_start_code:
  assumes "valid_date y m d"
  shows "month_start y m + (d - 1) =
    sum_list (map (code_monthdays y) [0..<fst (code_date y m d) - 1]) + (snd (code_date y m d) - 1)"
proof -
  from assms have "1 \<le> m" "m \<le> 12" and d: "1 \<le> d" "d \<le> month_length y m"
    by (auto simp: valid_date_def)
  then show ?thesis
    using d
    by (cases rule: month_cases)
      (simp_all add: month_start_def month_length_def code_monthdays_def code_date_def months_def
        upt_rec numeral_eq_Suc)
qed

lemma code_date_bounds:
  assumes "valid_date y m d"
  shows "1 \<le> fst (code_date y m d)" "fst (code_date y m d) \<le> 12" "1 \<le> snd (code_date y m d)"
    "snd (code_date y m d) - 1 < code_monthdays y (fst (code_date y m d) - 1)"
    "snd (code_date y m d) \<le> 32"
proof -
  from assms have m: "1 \<le> m" "m \<le> 12" and d: "1 \<le> d" "d \<le> month_length y m"
    by (auto simp: valid_date_def)
  then show "1 \<le> fst (code_date y m d)" "fst (code_date y m d) \<le> 12" "1 \<le> snd (code_date y m d)"
    by (auto simp: code_date_def)
  from m show "snd (code_date y m d) - 1 < code_monthdays y (fst (code_date y m d) - 1)"
    "snd (code_date y m d) \<le> 32"
    using d by (cases rule: month_cases;
      auto simp: month_length_def code_monthdays_def code_date_def months_def numeral_eq_Suc
        split: if_splits)+
qed

lemma datetime_month_civil:
  assumes "valid_date y m d"
  shows "datetime_month (month_start y m + (d - 1)) y 0 =
    Some (snd (code_date y m d) - 1, fst (code_date y m d) - 1)"
  unfolding month_start_code [OF assms]
  using code_date_bounds [OF assms] by (intro datetime_month_sum) auto

lemma month_day_lt_year:
  assumes "valid_date y m d"
  shows "month_start y m + (d - 1) < year_length y"
proof -
  from assms have m: "1 \<le> m" "m \<le> 12" and d: "1 \<le> d" "d \<le> month_length y m"
    by (auto simp: valid_date_def)
  from m show ?thesis
    using d by (cases rule: month_cases)
      (auto simp: month_start_def month_length_def months_def upt_rec numeral_eq_Suc year_length_def
        split: if_splits)
qed

lemma datetime_year_civil:
  assumes "valid_date y m d" "y < 65536"
  shows "datetime_year (civil_days y m d) EPOCH_YEAR = (month_start y m + (d - 1), y)"
  unfolding civil_days_def year_start_def EPOCH_YEAR_def add.assoc
  using assms month_day_lt_year [OF assms(1)]
  by (intro datetime_year_sum) (auto simp: valid_date_def)

text \<open>Division peels a mixed-radix number.\<close>

lemma radix_digit:
  fixes x r k :: nat
  assumes "r < k"
  shows "(x * k + r) mod k = r" "(x * k + r) div k = x"
  using assms by simp_all

lemma civil_digits:
  fixes D h mi s :: nat
  assumes "h < 24" "mi < 60" "s < 60"
  defines "t \<equiv> D * 86400 + h * 3600 + mi * 60 + s"
  shows "t mod 60 = s" "t div 60 mod 60 = mi" "t div 60 div 60 mod 24 = h"
    "t div 60 div 60 div 24 = (D :: nat)"
proof -
  have t: "t = ((D * 24 + h) * 60 + mi) * 60 + s" by (simp add: t_def)
  have a: "t mod 60 = s" "t div 60 = (D * 24 + h) * 60 + mi"
    unfolding t by (simp_all only: radix_digit [OF assms(3)])
  have b: "t div 60 mod 60 = mi" "t div 60 div 60 = D * 24 + h"
    unfolding a by (simp_all only: radix_digit [OF assms(2)])
  show "t mod 60 = s" "t div 60 mod 60 = mi" by (fact a b)+
  show "t div 60 div 60 mod 24 = h" "t div 60 div 60 div 24 = D"
    unfolding b by (simp_all only: radix_digit [OF assms(1)])
qed

lemma year_from_seconds:
  assumes "civil_seconds y m d h mi s < 2 ^ 32" "valid_date y m d"
  shows "y \<le> 2106" "civil_days y m d < 65536"
proof -
  have days: "civil_days y m d * 86400 < 4294967296"
    using assms(1) unfolding civil_seconds_def by simp
  then show "civil_days y m d < 65536" by linarith
  show "y \<le> 2106"
  proof (rule ccontr)
    assume "\<not> y \<le> 2106"
    then have "365 * 137 \<le> year_start y"
      using year_start_ge [of y] by linarith
    then have "50005 \<le> civil_days y m d" by (simp add: civil_days_def)
    with days show False by linarith
  qed
qed

lemma clock_datetime_civil:
  assumes v: "valid_date y m d" and hms: "h < 24" "mi < 60" "s < 60"
    and fits: "civil_seconds y m d h mi s < 2 ^ 32"
  shows "clock_datetime (of_nat (civil_seconds y m d h mi s)) =
    Some \<lparr>sec = of_nat s, minute = of_nat mi, hour = of_nat h,
      day = of_nat (snd (code_date y m d)), month = of_nat (fst (code_date y m d)),
      dow = of_nat ((civil_days y m d + EPOCH_DOW) mod 7), year = of_nat (y - 1900)\<rparr>"
proof -
  let ?t = "civil_seconds y m d h mi s" and ?c = "code_date y m d"
  have t: "unat (of_nat ?t :: u32) = ?t"
    using fits by (simp add: unsigned_of_nat take_bit_nat_eq_self)
  note digits = civil_digits [OF hms, of "civil_days y m d", folded civil_seconds_def]
  have "datetime_month (fst (month_start y m + (d - 1), y)) y 0 = Some (snd ?c - 1, fst ?c - 1)"
    by (simp add: datetime_month_civil [OF v] del: One_nat_def)
  moreover have "y < 65536" and "civil_days y m d < 65536"
    using year_from_seconds [OF fits v] by auto
  moreover have "of_nat (snd ?c - 1) + 1 = (of_nat (snd ?c) :: u8)"
    "of_nat (fst ?c - 1) + 1 = (of_nat (fst ?c) :: u8)"
    using code_date_bounds [OF v] by (simp_all add: of_nat_diff)
  ultimately show ?thesis
    unfolding clock_datetime_def Let_def t digits
    using datetime_year_civil [OF v] by (simp del: One_nat_def)
qed


text \<open>The conversion never leaves the month table, whatever the timestamp.\<close>

lemma datetime_year_rest: "datetime_year d y = (r, y') \<Longrightarrow> r < year_length y'"
proof (induction d y arbitrary: r y' rule: datetime_year.induct)
  case step: (1 d y)
  consider "d < 365" | "d = 365" "is_leap_year y" | "365 < d" "is_leap_year y"
    | "365 \<le> d" "\<not> is_leap_year y" by linarith
  then show ?case
  proof cases
    case 1
    then have "datetime_year d y = (d, y)" by (subst datetime_year.simps) simp
    then show ?thesis using 1 step(3) by (simp add: year_length_def)
  next
    case 2
    then have "datetime_year d y = (d, y)" by (subst datetime_year.simps) simp
    then show ?thesis using 2 step(3) by (simp add: year_length_def)
  next
    case 3
    then have "datetime_year d y = datetime_year (d - 1 - 365) ((y + 1) mod 65536)"
      by (subst datetime_year.simps) simp
    then show ?thesis using step(1) [of r y'] step(3) 3 by simp
  next
    case 4
    then have "datetime_year d y = datetime_year (d - 365) ((y + 1) mod 65536)"
      by (subst datetime_year.simps) simp
    then show ?thesis using step(2) [of r y'] step(3) 4 by simp
  qed
qed

lemma datetime_month_total:
  "m \<le> 12 \<Longrightarrow> r < sum_list (map (code_monthdays y) [m..<12]) \<Longrightarrow> datetime_month r y m \<noteq> None"
proof (induction "12 - m" arbitrary: m r)
  case (Suc n)
  then have m: "m < 12" by simp
  show ?case
  proof (cases "r < code_monthdays y m")
    case True
    then show ?thesis using datetime_month_sum [of m m r y] m by simp
  next
    case False
    then have "r - code_monthdays y m < sum_list (map (code_monthdays y) [Suc m..<12])"
      using Suc.prems(2) m by (simp add: sum_upt_Cons)
    then have "datetime_month (r - code_monthdays y m) y (Suc m) \<noteq> None"
      using Suc.hyps(1) [of "Suc m"] Suc.hyps(2) m by simp
    then show ?thesis
      using m False by (subst datetime_month.simps) (simp add: code_monthdays_def months_def Let_def)
  qed
qed simp

lemma code_monthdays_sum: "sum_list (map (code_monthdays y) [0..<12]) = year_length y"
  by (simp add: code_monthdays_def months_def year_length_def upt_rec numeral_eq_Suc)

lemma clock_datetime_total:
  "\<exists>d. clock_datetime ts = Some d \<and> unat (sec d) = unat ts mod 60"
proof -
  obtain r y where dy: "datetime_year (unat ts div 60 div 60 div 24 mod 65536) EPOCH_YEAR = (r, y)"
    by fastforce
  then have "datetime_month r y 0 \<noteq> None"
    using datetime_month_total [of 0 r y] datetime_year_rest [OF dy] code_monthdays_sum [of y] by simp
  moreover have "unat (of_nat (unat ts mod 60) :: u8) = unat ts mod 60"
    by (simp add: unsigned_of_nat take_bit_nat_eq_self)
  ultimately show ?thesis
    by (auto simp: clock_datetime_def Let_def dy)
qed

lemma clock_localtime_total:
  assumes "unat ts + 7200 < 2 ^ 32"
  shows "\<exists>d. clock_localtime c ts = Some d \<and> unat (sec d) = unat ts mod 60"
proof -
  have shift: "\<exists>d. clock_datetime (ts + k) = Some d \<and> unat (sec d) = unat ts mod 60"
    if "k = 3600 \<or> k = 7200" for k :: u32
  proof -
    have "unat k mod 60 = 0" "unat k \<le> 7200" using that by auto
    moreover from this have "unat (ts + k) = unat ts + unat k"
      using assms by (simp add: unat_add_small)
    ultimately show ?thesis
      using clock_datetime_total [of "ts + k"] by (metis add.right_neutral mod_add_right_eq)
  qed
  show ?thesis
  proof (cases "TIMEZONE_CEST c")
    case True
    obtain d where "clock_datetime ts = Some d" using clock_datetime_total by blast
    then show ?thesis
      using True shift [of 3600] shift [of 7200] by (auto simp: clock_localtime_def Let_def)
  qed (simp add: clock_localtime_def clock_datetime_total)
qed

section \<open>Timestamps of dates\<close>

lemma utc_months_sum:
  "m \<le> 12 \<Longrightarrow> utc_months yr m ts =
     Some (ts + of_nat (\<Sum>i\<leftarrow>[0..<m]. months ! i + (if Suc i = 2 \<and> is_leap_year yr then 1 else 0)) * 86400)"
  by (induction m arbitrary: ts) (simp_all add: months_def algebra_simps)

lemma is_leap_year_2000: "is_leap_year (y + 2000) = is_leap_year y"
  using mod_mult_self1 [of y 500 4] mod_mult_self1 [of y 20 100] mod_mult_self1 [of y 5 400]
  by (simp add: is_leap_year_def)

lemma month_start_code_sum:
  assumes "1 \<le> m" "m \<le> 12"
  shows "month_start y m =
    (\<Sum>i\<leftarrow>[0..<m - 1]. months ! i + (if Suc i = 2 \<and> is_leap_year y then 1 else 0))"
  using assms
  by (cases rule: month_cases)
    (simp_all add: month_start_def month_length_def months_def upt_rec numeral_eq_Suc)

lemma utc_months_start:
  assumes "1 \<le> m" "m \<le> 12"
  shows "utc_months yr (m - 1) ts = Some (ts + of_nat (month_start (yr + 2000) m) * 86400)"
  using assms by (simp add: utc_months_sum month_start_code_sum is_leap_year_2000 del: One_nat_def)

lemma utc_years_sum:
  "y0 \<le> y \<Longrightarrow> utc_years y0 y ts = ts + of_nat (sum_list (map year_length [y0..<y])) * 86400"
proof (induction "y - y0" arbitrary: y0 ts)
  case 0
  then show ?case by (subst utc_years.simps) simp
next
  case (Suc n)
  then have lt: "y0 < y" by simp
  have "utc_years y0 y ts = utc_years (y0 + 1) y (ts + of_nat (year_length y0) * 86400)"
    using lt by (subst utc_years.simps) (simp add: year_length_def)
  also have "\<dots> = ts + of_nat (year_length y0) * 86400 +
      of_nat (sum_list (map year_length [Suc y0..<y])) * 86400"
    using Suc.hyps(1) [of "Suc y0"] Suc.hyps(2) lt by simp
  also have "\<dots> = ts + of_nat (sum_list (map year_length [y0..<y])) * 86400"
    using lt by (simp add: sum_upt_Cons algebra_simps)
  finally show ?case .
qed

text \<open>The date of a record whose year counts from 2000, as \<open>clock_utc2timestamp\<close> reads it.\<close>

definition record_seconds :: "clock_datetime_t \<Rightarrow> nat" where
  "record_seconds d = civil_seconds (unat (year d) + 2000) (unat (month d)) (unat (day d))
     (unat (hour d)) (unat (minute d)) (unat (sec d))"

lemma clock_utc2timestamp_civil:
  assumes "1 \<le> unat (month d)" "unat (month d) \<le> 12" "1 \<le> unat (day d)"
  shows "clock_utc2timestamp d cest =
    Some (of_nat (record_seconds d) - (if cest = 0 then 3600 else 7200), d\<lparr>month := 0\<rparr>)"
proof -
  have m1: "unat (month d - 1) = unat (month d) - 1"
    using assms(1) by (simp add: unat_sub_small)
  have d: "(of_nat (unat (day d) - 1) :: u32) = ucast (day d) - 1"
    using assms(3) by (simp add: of_nat_diff)
  let ?Y = "unat (year d) + 2000"
  have months: "utc_months (unat (year d)) (unat (month d - 1)) ts =
      Some (ts + of_nat (month_start ?Y (unat (month d))) * 86400)" for ts
    unfolding m1 by (rule utc_months_start [OF assms(1,2)])
  have years: "utc_years EPOCH_YEAR ?Y ts = ts + of_nat (year_start ?Y) * 86400" for ts
    unfolding EPOCH_YEAR_def year_start_def by (rule utc_years_sum) simp
  show ?thesis
    unfolding clock_utc2timestamp_def Let_def months option.case years record_seconds_def
      civil_seconds_def civil_days_def of_nat_add of_nat_mult d
    by (simp add: algebra_simps)
qed


section \<open>Reachable states\<close>

text \<open>
  The events that change the clock: the 20 ms timer, the crystal's interrupt, the one-second
  timer, and a new time from a synchronisation source.
\<close>

inductive clock_step :: "clock_cfg \<Rightarrow> clock_state \<Rightarrow> clock_state \<Rightarrow> bool" for c where
  timer: "clock_step c s (clock_tick c s)"
| crystal: "clock_step c s (SIG_OVERFLOW2 c s)"
| periodic: "clock_step c s (clock_periodic c s)"
| sync: "clock_step c s (clock_set_time c s new)"

definition clock_init_state :: "u16 \<Rightarrow> clock_state" where
  "clock_init_state ocr = \<lparr>timestamp = 0, ticks = 0, sync_timestamp = 0, ntp_timer = 1,
     startup_timestamp = 0, OCR1A = ocr, ntp_requests = 0\<rparr>"

inductive clock_reachable :: "clock_cfg \<Rightarrow> clock_state \<Rightarrow> bool" for c where
  start: "clock_reachable c (clock_init_state ocr)"
| step: "clock_reachable c s \<Longrightarrow> clock_step c s s' \<Longrightarrow> clock_reachable c s'"

inductive_cases clock_stepE: "clock_step c s s'"

definition clock_inv :: "clock_state \<Rightarrow> bool" where
  "clock_inv s \<longleftrightarrow> (sync_timestamp s = 0 \<or> sync_timestamp s \<le> timestamp s) \<and>
     ticks s \<le> 50 \<and> ntp_timer s \<le> 1800"

lemma ntp_adjust_same [simp]:
  "timestamp (ntp_adjust s n) = timestamp s" "sync_timestamp (ntp_adjust s n) = sync_timestamp s"
  "ticks (ntp_adjust s n) = ticks s" "ntp_timer (ntp_adjust s n) = ntp_timer s"
  by (simp_all add: ntp_adjust_def Let_def)

lemma clock_set_time_times:
  "sync_timestamp (clock_set_time c s new) = new"
  "timestamp (clock_set_time c s new) =
     (if new > timestamp s \<or> timestamp s - new > 300 then new else timestamp s)"
  "ticks (clock_set_time c s new) = ticks s"
  by (auto simp: clock_set_time_def Let_def)

lemma clock_second_times:
  assumes "NTP_SUPPORT c \<or> DCF77_SUPPORT c"
  shows "timestamp (clock_second c s) =
      (if sync_timestamp s = 0 \<or> sync_timestamp s = timestamp s then timestamp s + 1 else timestamp s)"
    "sync_timestamp (clock_second c s) = (if sync_timestamp s = 0 then 0 else sync_timestamp s + 1)"
    "ticks (clock_second c s) = ticks s" "ntp_timer (clock_second c s) = ntp_timer s"
  using assms by (auto simp: clock_second_def Let_def)

lemma clock_second_inv:
  assumes "NTP_SUPPORT c \<or> DCF77_SUPPORT c" "clock_inv s"
  shows "clock_inv (clock_second c s)"
proof -
  have "sync_timestamp s \<le> timestamp s \<Longrightarrow> sync_timestamp s \<noteq> timestamp s \<Longrightarrow>
      sync_timestamp s + 1 \<le> timestamp s"
    by (rule inc_le) simp
  then show ?thesis
    using assms by (auto simp: clock_inv_def clock_second_times)
qed

lemma clock_tick_inv:
  assumes "NTP_SUPPORT c \<or> DCF77_SUPPORT c" "clock_inv s"
  shows "clock_inv (clock_tick c s)"
proof -
  have inv: "clock_inv (s\<lparr>ticks := t\<rparr>)" if "t \<le> 50" for t
    using assms(2) that by (simp add: clock_inv_def)
  have set: "ticks_update f (clock_second c (ticks_update g s)) =
      clock_second c (s\<lparr>ticks := f (g (ticks s))\<rparr>)" for f g
    by (simp add: clock_second_def Let_def)
  show ?thesis
    unfolding clock_tick_def Let_def
    using clock_second_inv [OF assms(1) inv [of 0]]
    by (auto simp: set inv not_less)
qed

lemma clock_periodic_inv:
  assumes "clock_inv s" shows "clock_inv (clock_periodic c s)"
proof -
  have "unat (ntp_timer s - 1) \<le> unat (ntp_timer s)" if "ntp_timer s \<noteq> 0"
  proof -
    from that have "1 \<le> unat (ntp_timer s)" by (simp add: unat_gt_0 Suc_le_eq)
    then show ?thesis by (simp add: unat_sub_small)
  qed
  then have "ntp_timer s \<noteq> 0 \<Longrightarrow> ntp_timer s - 1 \<le> ntp_timer s"
    by (simp add: word_le_nat_alt)
  then show ?thesis
    using assms by (auto simp: clock_inv_def clock_periodic_def)
qed

lemma clock_set_time_inv:
  assumes "clock_inv s" shows "clock_inv (clock_set_time c s new)"
proof -
  have "ntp_timer (clock_set_time c s new) \<le> 1800"
    using assms by (auto simp: clock_set_time_def clock_inv_def Let_def NTP_RESYNC_PERIOD_def)
  then show ?thesis
    using assms unfolding clock_inv_def clock_set_time_times by auto
qed

lemma clock_step_inv:
  assumes "NTP_SUPPORT c \<or> DCF77_SUPPORT c" "clock_step c s s'" "clock_inv s"
  shows "clock_inv s'"
  by (rule clock_stepE [OF assms(2)])
    (simp_all add: clock_tick_inv clock_periodic_inv clock_set_time_inv clock_second_inv
      SIG_OVERFLOW2_def assms)

lemma clock_seconds_follow:
  assumes "NTP_SUPPORT c \<or> DCF77_SUPPORT c"
    and "sync_timestamp s \<noteq> 0" "sync_timestamp s \<le> timestamp s"
    and "unat (sync_timestamp s) + k < 2 ^ 32"
  shows "unat (sync_timestamp ((clock_second c ^^ k) s)) = unat (sync_timestamp s) + k \<and>
    unat (timestamp ((clock_second c ^^ k) s)) = max (unat (timestamp s)) (unat (sync_timestamp s) + k)"
  using assms(4)
proof (induction k)
  case 0
  then show ?case using assms(3) by (simp add: word_le_nat_alt)
next
  case (Suc k)
  let ?s = "(clock_second c ^^ k) s"
  have IH: "unat (sync_timestamp ?s) = unat (sync_timestamp s) + k"
    "unat (timestamp ?s) = max (unat (timestamp s)) (unat (sync_timestamp s) + k)"
    using Suc by auto
  have pos: "sync_timestamp ?s \<noteq> 0"
    using assms(2) IH(1) by (metis add_is_0 unat_eq_zero unsigned_0)
  have inc: "unat (sync_timestamp ?s + 1) = unat (sync_timestamp s) + Suc k"
    using Suc.prems IH(1) by (subst unat_inc_small) auto
  show ?case
  proof (cases "sync_timestamp ?s = timestamp ?s")
    case True
    then show ?thesis
      using pos inc IH by (simp add: clock_second_times [OF assms(1)])
  next
    case False
    then have "unat (sync_timestamp ?s) \<noteq> unat (timestamp ?s)"
      by (simp only: word_unat_eq_iff not_False_eq_True)
    with IH have "unat (sync_timestamp s) + k < unat (timestamp s)" by simp
    then show ?thesis
      using pos inc IH False by (simp add: clock_second_times [OF assms(1)])
  qed
qed


section \<open>The rule for summer time\<close>

text \<open>
  Summer time in the European Union: from the last Sunday of March, 01:00 UTC, to the last
  Sunday of October, 01:00 UTC.  Day 0 of the week is Sunday.
\<close>

definition day_of_week :: "nat \<Rightarrow> nat \<Rightarrow> nat \<Rightarrow> nat" where
  "day_of_week y m d = (civil_days y m d + EPOCH_DOW) mod 7"

definition last_sunday :: "nat \<Rightarrow> nat \<Rightarrow> nat" where
  "last_sunday y m = 31 - day_of_week y m 31"

definition eu_summer_time :: "nat \<Rightarrow> nat \<Rightarrow> nat \<Rightarrow> nat \<Rightarrow> bool" where
  "eu_summer_time y m d h \<longleftrightarrow>
     3 < m \<and> m < 10 \<or>
     m = 3 \<and> (d > last_sunday y m \<or> d = last_sunday y m \<and> h \<ge> 1) \<or>
     m = 10 \<and> (d < last_sunday y m \<or> d = last_sunday y m \<and> h < 1)"

definition sunday_sign :: "nat \<Rightarrow> nat \<Rightarrow> int" where
  "sunday_sign d l = (if d < l then -1 else if d = l then 0 else 1)"

lemma last_sunday_table:
  "\<forall>d \<in> set [1..<32]. \<forall>w \<in> set [0..<7].
     last_sunday_in_month (of_nat d) (of_nat w) = sunday_sign d (31 - (w + 31 - d) mod 7)"
  by code_simp

lemma last_sunday_in_month_eq:
  assumes "1 \<le> d" "d \<le> 31"
  shows "last_sunday_in_month (of_nat d) (of_nat (day_of_week y m d)) = sunday_sign d (last_sunday y m)"
proof -
  let ?w = "day_of_week y m d"
  have "(?w + 31 - d) mod 7 = (?w + (31 - d)) mod 7" using assms by simp
  also have "\<dots> = (civil_days y m d + EPOCH_DOW + (31 - d)) mod 7"
    unfolding day_of_week_def by (rule mod_add_left_eq)
  also have "civil_days y m d + EPOCH_DOW + (31 - d) = civil_days y m 31 + EPOCH_DOW"
    using assms by (simp add: civil_days_def)
  finally have "31 - (?w + 31 - d) mod 7 = last_sunday y m"
    by (simp add: last_sunday_def day_of_week_def)
  moreover have "d \<in> set [1..<32]" "?w \<in> set [0..<7]"
    using assms by (auto simp: day_of_week_def)
  ultimately show ?thesis using last_sunday_table by metis
qed

text \<open>
  The rule the code applies: summer time ends on the last Sunday of October at 02:00 UTC only for
  the hour after 01:59, and the repeated hour 01:00-01:59 UTC still counts as summer time.
\<close>

lemma clock_localtime_offset:
  assumes cest: "TIMEZONE_CEST c" and v: "valid_date y m d" and hms: "h < 24" "mi < 60" "s < 60"
    and fits: "civil_seconds y m d h mi s < 2 ^ 32" and march: "is_leap_year y \<Longrightarrow> m \<noteq> 3"
  shows "clock_localtime c (of_nat (civil_seconds y m d h mi s)) =
    clock_datetime (of_nat (civil_seconds y m d h mi s) +
      (if eu_summer_time y m d h \<or> m = 10 \<and> d = last_sunday y m \<and> h = 1 then 7200 else 3600))"
proof -
  let ?cd = "code_date y m d"
  have m: "1 \<le> m" "m \<le> 12" and d: "1 \<le> d" "d \<le> 31"
    using v by (auto simp: valid_date_def month_length_def months_def nth_Cons
        split: if_splits nat.splits)
  have h8: "(of_nat h :: u8) < 1 \<longleftrightarrow> h < 1" "(of_nat h :: u8) > 1 \<longleftrightarrow> h > 1"
    "(of_nat h :: u8) = 0 \<longleftrightarrow> h = 0"
    using hms(1)
    by (simp_all add: word_less_nat_alt word_unat_eq_iff unsigned_of_nat take_bit_nat_eq_self)
  have m8: "(of_nat m :: u8) < 3 \<longleftrightarrow> m < 3" "(of_nat m :: u8) > 10 \<longleftrightarrow> m > 10"
    "(of_nat m :: u8) = 3 \<longleftrightarrow> m = 3" "(of_nat m :: u8) = 10 \<longleftrightarrow> m = 10"
    using m by (simp_all add: word_less_nat_alt word_unat_eq_iff unsigned_of_nat take_bit_nat_eq_self)
  show ?thesis
  proof (cases "is_leap_year y \<and> m = 2 \<and> d = 29")
    case True
    have one: "last_sunday_in_month (of_nat 1) (of_nat w) = -1" if "w < 7" for w
    proof -
      have "w \<in> set [0..<7]" using that by simp
      moreover have "\<forall>w \<in> set [0..<7]. last_sunday_in_month (of_nat 1) (of_nat w) = -1" by code_simp
      ultimately show ?thesis by blast
    qed
    have cd: "?cd = (3, 1)" and m2: "m = 2" using True by (auto simp: code_date_def)
    have "last_sunday_in_month (of_nat 1) (of_nat ((civil_days y m d + EPOCH_DOW) mod 7)) = -1"
      by (rule one) simp
    then show ?thesis
      unfolding clock_localtime_def clock_datetime_civil [OF v hms fits] cd
      using cest m2 by (simp add: eu_summer_time_def Let_def)
  next
    case False
    then have cd: "?cd = (m, d)" using march by (auto simp: code_date_def)
    define w where "w = (civil_days y m d + EPOCH_DOW) mod 7"
    define L where "L = last_sunday y m"
    define t :: u32 where "t = of_nat (civil_seconds y m d h mi s)"
    define g where "g = sunday_sign d L"
    have sign: "last_sunday_in_month (of_nat d) (of_nat w) = g"
      using last_sunday_in_month_eq [OF d] by (simp add: day_of_week_def w_def L_def g_def)
    have g: "d < L \<longleftrightarrow> g = -1" "d = L \<longleftrightarrow> g = 0" "L < d \<longleftrightarrow> g = 1"
      by (auto simp: g_def sunday_sign_def)
    have dt: "clock_datetime t = Some \<lparr>sec = of_nat s, minute = of_nat mi, hour = of_nat h,
        day = of_nat d, month = of_nat m, dow = of_nat w, year = of_nat (y - 1900)\<rparr>"
      unfolding t_def clock_datetime_civil [OF v hms fits] cd w_def by simp
    have range: "g = -1 \<or> g = 0 \<or> g = 1" by (simp add: g_def sunday_sign_def)
    let ?winter = "m < 3 \<or> m > 10 \<or> m = 3 \<and> (g = -1 \<or> g = 0 \<and> h < 1) \<or> m = 10 \<and> (g = 1 \<or> g = 0 \<and> h > 1)"
    have code: "clock_localtime c t = clock_datetime (if ?winter then t + 3600 else t + 7200)"
      using cest by (simp add: clock_localtime_def dt h8 m8 sign Let_def cong: conj_cong)
    have rule: "?winter \<longleftrightarrow> \<not> (eu_summer_time y m d h \<or> m = 10 \<and> d = last_sunday y m \<and> h = 1)"
      unfolding eu_summer_time_def L_def [symmetric] g
      using range by (cases "m = 3"; cases "m = 10"; force)
    show ?thesis
      unfolding t_def [symmetric] code rule by simp
qed
qed


section \<open>Properties\<close>

text \<open>
  C0. Synchronisation: with a time source compiled in, \<open>k\<close> seconds after \<open>clock_set_time\<close> the
  synchronised time is \<open>new + k\<close>, and the clock shows that time too when \<open>new\<close> was ahead of it or
  more than five minutes behind; when \<open>new\<close> was at most five minutes behind, the clock stands
  still until \<open>new + k\<close> has caught up, and never runs backwards.  After 300 seconds both agree.
\<close>

theorem clock_converges:
  assumes "NTP_SUPPORT c \<or> DCF77_SUPPORT c" and "new \<noteq> 0" and "unat new + k < 2 ^ 32"
  shows "let s' = (clock_second c ^^ k) (clock_set_time c s new) in
    unat (clock_last_sync s') = unat new + k \<and>
    unat (clock_get_time s') =
      (if new > timestamp s \<or> timestamp s - new > 300 then unat new + k
       else max (unat (timestamp s)) (unat new + k)) \<and>
    (k \<ge> 300 \<longrightarrow> clock_get_time s' = clock_last_sync s')"
proof -
  let ?u = "clock_set_time c s new"
  let ?s = "(clock_second c ^^ k) ?u"
  have le: "sync_timestamp ?u \<le> timestamp ?u"
    by (simp add: clock_set_time_times not_less)
  have follow: "unat (sync_timestamp ?s) = unat new + k"
    "unat (timestamp ?s) = max (unat (timestamp ?u)) (unat new + k)"
    using clock_seconds_follow [OF assms(1) _ le, of k] assms(2,3)
    by (simp_all add: clock_set_time_times)
  have near: "unat (timestamp s) \<le> unat new + 300" if "\<not> (new > timestamp s \<or> timestamp s - new > 300)"
  proof -
    from that have "new \<le> timestamp s" "timestamp s - new \<le> 300" by auto
    then show ?thesis by (simp add: word_le_nat_alt unat_sub_small)
  qed
  then have "k \<ge> 300 \<Longrightarrow> timestamp ?s = sync_timestamp ?s"
    using follow by (auto simp: word_unat_eq_iff clock_set_time_times)
  then show ?thesis
    using follow by (simp add: clock_get_time_def clock_last_sync_def clock_set_time_times)
qed

definition ntp_cfg :: clock_cfg where
  "ntp_cfg = \<lparr>CLOCK_CRYSTAL_SUPPORT = False, NTP_SUPPORT = True, DCF77_SUPPORT = False,
     WHM_SUPPORT = False, CLOCK_NTP_ADJUST_SUPPORT = True, TIMEZONE_CEST = True\<rparr>"

theorem clock_converges_witness:
  "clock_get_time ((clock_second ntp_cfg ^^ 300)
     (clock_set_time ntp_cfg (clock_init_state 0 \<lparr>timestamp := 1000\<rparr>) 900)) = 1200"
  using clock_converges [of ntp_cfg 900 300 "clock_init_state 0 \<lparr>timestamp := 1000\<rparr>"]
  by (simp add: Let_def ntp_cfg_def word_unat_eq_iff)

text \<open>
  In every reachable state of a clock with a time source, whatever the order of timer ticks,
  interrupts and synchronisations, the synchronised time is 0 (never synchronised) or not ahead of
  the displayed time, the tick counter stays below 51 and the resynchronisation timer within its
  period.
\<close>

theorem clock_reachable_inv:
  assumes "NTP_SUPPORT c \<or> DCF77_SUPPORT c" and "clock_reachable c s"
  shows "clock_inv s"
  using assms(2)
proof induction
  case (start ocr)
  then show ?case by (simp add: clock_inv_def clock_init_state_def)
next
  case (step s s')
  then show ?case using clock_step_inv [OF assms(1)] by blast
qed

theorem clock_reachable_inv_witness:
  "clock_inv (clock_tick ntp_cfg (clock_set_time ntp_cfg (clock_init_state 7) 5000))"
  by (rule clock_reachable_inv [of ntp_cfg],
      simp add: ntp_cfg_def,
      rule clock_reachable.step [OF clock_reachable.step [OF clock_reachable.start
        clock_step.sync] clock_step.timer])

text \<open>
  C0. \<open>clock_datetime\<close> inverts the Gregorian calendar from 1970 on: it never reads past the month
  table, and for the timestamp of a date and time of day it returns exactly these, with the day of
  the week counted from Sunday and the year from 1900.  The exception are two months of leap
  years: 29 February is returned as 1 March and every day of March as the following day.
\<close>

theorem clock_datetime_correct:
  assumes "valid_date y m d" "h < 24" "mi < 60" "s < 60" "civil_seconds y m d h mi s < 2 ^ 32"
  shows "clock_datetime (of_nat (civil_seconds y m d h mi s)) =
    Some \<lparr>sec = of_nat s, minute = of_nat mi, hour = of_nat h,
      day = (if is_leap_year y \<and> m = 2 \<and> d = 29 then 1
             else if is_leap_year y \<and> m = 3 then of_nat d + 1 else of_nat d),
      month = (if is_leap_year y \<and> m = 2 \<and> d = 29 then 3 else of_nat m),
      dow = of_nat (day_of_week y m d), year = of_nat (y - 1900)\<rparr>"
  by (simp add: clock_datetime_civil [OF assms] code_date_def day_of_week_def)

text \<open>The millennium's first leap day, 951782400 seconds after the epoch.\<close>

lemma year_start_2000: "year_start 2000 = 10957"
  by (simp add: year_start_def year_length_def is_leap_year_def upt_rec)

theorem clock_datetime_correct_witness:
  "clock_datetime 951786061 = Some \<lparr>sec = 1, minute = 1, hour = 1, day = 1, month = 3, dow = 2, year = 100\<rparr>"
proof -
  have leap: "is_leap_year 2000" by (simp add: is_leap_year_def)
  have "civil_days 2000 2 29 = 11016"
    by (simp add: civil_days_def year_start_2000 month_start_def month_length_def months_def upt_rec)
  then have "civil_seconds 2000 2 29 1 1 1 = 951786061" "day_of_week 2000 2 29 = 2"
    by (simp_all add: civil_seconds_def day_of_week_def EPOCH_DOW_def)
  moreover have "valid_date 2000 2 29" using leap by (simp add: valid_date_def month_length_def)
  ultimately show ?thesis
    using clock_datetime_correct [of 2000 2 29 1 1 1] leap by simp
qed

text \<open>
  C0. \<open>clock_utc2timestamp\<close> and \<open>clock_datetime\<close> round trip: the timestamp computed for a date of
  the years 2000 to 2099 (read as Central European time: one hour ahead of UTC, two in summer)
  converts back to that date, its year then counted from 1900.  29 February and March of leap
  years are excepted.
\<close>

theorem utc2timestamp_roundtrip:
  assumes "unat (year d) < 100" "valid_date (unat (year d) + 2000) (unat (month d)) (unat (day d))"
    and "hour d < 24" "minute d < 60" "sec d < 60"
    and "is_leap_year (unat (year d)) \<Longrightarrow> month d \<noteq> 3 \<and> \<not> (month d = 2 \<and> day d = 29)"
  shows "\<exists>ts d'. clock_utc2timestamp d cest = Some (ts, d') \<and>
    (\<exists>w. clock_datetime (ts + (if cest = 0 then 3600 else 7200)) =
       Some (d\<lparr>dow := w, year := year d + 100\<rparr>))"
proof -
  let ?Y = "unat (year d) + 2000"
  have md: "1 \<le> unat (month d)" "unat (month d) \<le> 12" "1 \<le> unat (day d)"
    using assms(2) by (auto simp: valid_date_def)
  have hms: "unat (hour d) < 24" "unat (minute d) < 60" "unat (sec d) < 60"
    using assms(3-5) by (simp_all add: word_less_nat_alt)
  have "month_start ?Y (unat (month d)) + (unat (day d) - 1) < 366"
    using month_day_lt_year [OF assms(2)] by (simp add: year_length_def split: if_splits)
  moreover have "year_start ?Y \<le> year_start 1970 + 366 * (?Y - 1970)"
    by (rule year_start_le) simp
  ultimately have "civil_days ?Y (unat (month d)) (unat (day d)) < 366 + 366 * 129"
    using assms(1) by (simp add: civil_days_def year_start_def)
  then have fits: "record_seconds d < 2 ^ 32"
    using hms by (simp add: record_seconds_def civil_seconds_def)
  have cd: "code_date ?Y (unat (month d)) (unat (day d)) = (unat (month d), unat (day d))"
    using assms(6) by (auto simp: code_date_def is_leap_year_2000 word_unat_eq_iff)
  have y: "(of_nat (?Y - 1900) :: u8) = year d + 100" by simp
  have "clock_datetime (of_nat (record_seconds d)) =
      Some (d\<lparr>dow := of_nat ((civil_days ?Y (unat (month d)) (unat (day d)) + EPOCH_DOW) mod 7),
        year := year d + 100\<rparr>)"
    using clock_datetime_civil [OF assms(2) hms fits [unfolded record_seconds_def]]
    unfolding cd y record_seconds_def by simp
  then show ?thesis
    using clock_utc2timestamp_civil [OF md, of cest] by (auto)
qed


theorem utc2timestamp_roundtrip_witness:
  "\<exists>ts d'. clock_utc2timestamp \<lparr>sec = 59, minute = 58, hour = 23, day = 31, month = 12, dow = 0, year = 9\<rparr> 0 =
     Some (ts, d') \<and> (\<exists>w. clock_datetime (ts + 3600) =
       Some \<lparr>sec = 59, minute = 58, hour = 23, day = 31, month = 12, dow = w, year = 109\<rparr>)"
  using utc2timestamp_roundtrip
    [of "\<lparr>sec = 59, minute = 58, hour = 23, day = 31, month = 12, dow = 0, year = 9\<rparr>" 0]
  by (simp add: valid_date_def month_length_def months_def is_leap_year_def)

text \<open>
  C0. \<open>clock_localtime\<close> with the European time zone: local time is UTC plus two hours in summer
  time and plus one hour outside it, where summer time follows the rule of the European Union
  except for its last hour: on the last Sunday of October the hour from 01:00 UTC is still taken
  for summer time.  March of leap years is excepted, since its days are off by one.
\<close>

theorem clock_localtime_rule:
  assumes "TIMEZONE_CEST c" "valid_date y m d" "h < 24" "mi < 60" "s < 60"
    and "civil_seconds y m d h mi s < 2 ^ 32" and "is_leap_year y \<Longrightarrow> m \<noteq> 3"
  shows "clock_localtime c (of_nat (civil_seconds y m d h mi s)) =
    clock_datetime (of_nat (civil_seconds y m d h mi s) +
      (if eu_summer_time y m d h \<or> m = 10 \<and> d = last_sunday y m \<and> h = 1 then 7200 else 3600))"
  using assms by (rule clock_localtime_offset)

text \<open>25 October 2009, a Sunday, 01:30 UTC: shown as 03:30 although summer time is over.\<close>

theorem clock_localtime_rule_witness:
  "map_option hour (clock_localtime ntp_cfg 1256434200) = Some 3 \<and> \<not> eu_summer_time 2009 10 25 1"
proof -
  have start: "year_start 2009 = 14245"
    by (simp add: year_start_def year_length_def is_leap_year_def upt_rec)
  have days: "civil_days 2009 10 25 = 14542" "civil_days 2009 10 31 = 14548"
    by (simp_all add: civil_days_def start month_start_def month_length_def months_def upt_rec
        is_leap_year_def)
  then have ts: "civil_seconds 2009 10 25 1 30 0 = 1256434200" "civil_seconds 2009 10 25 3 30 0 = 1256441400"
    by (simp_all add: civil_seconds_def)
  have sunday: "last_sunday 2009 10 = 25"
    by (simp add: last_sunday_def day_of_week_def days EPOCH_DOW_def)
  have v: "valid_date 2009 10 25" by (simp add: valid_date_def month_length_def months_def)
  have "clock_localtime ntp_cfg 1256434200 = clock_datetime 1256441400"
    using clock_localtime_rule [of ntp_cfg 2009 10 25 1 30 0] v ts sunday by (simp add: ntp_cfg_def)
  moreover have "clock_datetime 1256441400 = Some \<lparr>sec = 0, minute = 30, hour = 3, day = 25,
      month = 10, dow = of_nat ((civil_days 2009 10 25 + EPOCH_DOW) mod 7), year = 109\<rparr>"
    using clock_datetime_civil [OF v, of 3 30 0] ts by (simp add: code_date_def)
  ultimately show ?thesis by (simp add: eu_summer_time_def sunday)
qed

end
