(* ===== verification/Cron.thy ===== *)
theory Cron imports Clock "HOL-Library.Monad_Syntax" begin

text \<open>
  The job scheduler (services/cron/cron.c, cron.h, cron_ecmd.c) and its static variant
  (services/cron/cron_static.c).  The jobs form a doubly linked list on the heap; the heap is a map
  from addresses to nodes, address 0 is the null pointer, and reading or writing through a pointer
  to no node has no defined result (\<open>None\<close>).  \<open>malloc\<close>, the job handlers and the command
  parser are parameters.  The traversals are \<open>partial_function\<close>s: a traversal of a corrupt or
  cyclic list has the result \<open>None\<close>.
\<close>

section \<open>State\<close>

text \<open>The tag \<open>cmd\<close> (\<open>CRON_JUMP\<close>, \<open>CRON_ECMD\<close>) and the union of the payloads are one datatype.\<close>

datatype cron_cmd = CRON_JUMP (handler: nat) (extradata: "u8 list") | CRON_ECMD (ecmddata: "u8 list")

record cron_event =
  ev_fields :: "8 word list"
  repeat :: u8
  cmd :: cron_cmd

record cron_event_linkedlist =
  nxt :: nat
  prv :: nat
  event :: cron_event

record cron_state =
  last_check :: u32
  head :: nat
  tail :: nat
  cron_use_utc :: bool
  heap :: "nat \<Rightarrow> cron_event_linkedlist option"

definition deref :: "cron_state \<Rightarrow> nat \<Rightarrow> cron_event_linkedlist option" where
  "deref s p = (if p = 0 then None else heap s p)"

definition modify :: "cron_state \<Rightarrow> nat \<Rightarrow> (cron_event_linkedlist \<Rightarrow> cron_event_linkedlist) \<Rightarrow> cron_state option" where
  "modify s p f = do { n \<leftarrow> deref s p; Some (s\<lparr>heap := (heap s)(p \<mapsto> f n)\<rparr>) }"

section \<open>Operations\<close>

definition cron_init :: "bool \<Rightarrow> cron_state \<Rightarrow> cron_state" where
  "cron_init default_utc s = s\<lparr>head := 0, tail := 0, cron_use_utc := default_utc\<rparr>"

text \<open>The walk to a position; \<open>n\<close> is \<open>position - ss\<close>, the steps left.\<close>

fun cron_seek :: "cron_state \<Rightarrow> nat \<Rightarrow> nat \<Rightarrow> nat option" where
  "cron_seek s job 0 = Some job"
| "cron_seek s job (Suc n) =
    (if job = 0 then Some 0 else do { nd \<leftarrow> deref s job; cron_seek s (nxt nd) n })"

definition cron_insert :: "cron_state \<Rightarrow> nat \<Rightarrow> 8 word \<Rightarrow> cron_state option" where
  "cron_insert s newone position =
    (if head s = 0 then do {
       s \<leftarrow> modify s newone (\<lambda>n. n\<lparr>prv := 0\<rparr>);
       s \<leftarrow> modify s newone (\<lambda>n. n\<lparr>nxt := 0\<rparr>);
       Some (s\<lparr>head := newone, tail := newone\<rparr>) }
     else if sint position > 0 then do {
       job \<leftarrow> cron_seek s (head s) (nat (sint position));
       j \<leftarrow> deref s job;
       s \<leftarrow> modify s newone (\<lambda>n. n\<lparr>prv := prv j\<rparr>);
       s \<leftarrow> modify s job (\<lambda>n. n\<lparr>prv := newone\<rparr>);
       s \<leftarrow> modify s newone (\<lambda>n. n\<lparr>nxt := job\<rparr>);
       Some (if job = head s then s\<lparr>head := newone\<rparr> else s) }
     else do {
       s \<leftarrow> modify s newone (\<lambda>n. n\<lparr>nxt := 0\<rparr>);
       s \<leftarrow> modify s newone (\<lambda>n. n\<lparr>prv := tail s\<rparr>);
       s \<leftarrow> modify s (tail s) (\<lambda>n. n\<lparr>nxt := newone\<rparr>);
       Some (s\<lparr>tail := newone\<rparr>) })"

text \<open>\<open>strncpy\<close>: the source up to its terminator, padded with zeros.\<close>

definition strncpy :: "u8 list \<Rightarrow> nat \<Rightarrow> u8 list" where
  "strncpy src n = (let p = takeWhile (\<lambda>b. b \<noteq> 0) (take n src) in p @ replicate (n - length p) 0)"

text \<open>
  The allocated node's links are not initialised by \<open>malloc\<close>; \<open>cron_insert\<close> sets both, so the
  model may start them at 0.
\<close>

definition alloc_node :: "cron_state \<Rightarrow> nat \<Rightarrow> cron_event \<Rightarrow> cron_state" where
  "alloc_node s p e = s\<lparr>heap := (heap s)(p \<mapsto> \<lparr>nxt = 0, prv = 0, event = e\<rparr>)\<rparr>"

type_synonym malloc = "(nat \<Rightarrow> cron_event_linkedlist option) \<Rightarrow> nat \<Rightarrow> nat"

definition cron_jobinsert_callback ::
    "malloc \<Rightarrow> cron_state \<Rightarrow> 8 word list \<Rightarrow> u8 \<Rightarrow> 8 word \<Rightarrow> nat \<Rightarrow> u8 \<Rightarrow> u8 list option \<Rightarrow> cron_state option" where
  "cron_jobinsert_callback malloc s flds rep position hdl extrasize extra =
    (if hdl = 0 \<or> extrasize = 0 \<and> extra \<noteq> None then Some s
     else let newone = malloc (heap s) (unat extrasize) in
       if newone = 0 then Some s
       else if extrasize \<noteq> 0 \<and> extra = None then None
       else let bytes = (case extra of None \<Rightarrow> [] | Some b \<Rightarrow> strncpy b (unat extrasize))
         in cron_insert (alloc_node s newone
              \<lparr>ev_fields = flds, repeat = rep, cmd = CRON_JUMP hdl bytes\<rparr>) newone position)"

text \<open>The command's length is kept in 8 bits.\<close>

definition cron_jobinsert_ecmd ::
    "malloc \<Rightarrow> cron_state \<Rightarrow> 8 word list \<Rightarrow> u8 \<Rightarrow> 8 word \<Rightarrow> u8 list \<Rightarrow> cron_state option" where
  "cron_jobinsert_ecmd malloc s flds rep position ecmd =
    (let ecmdsize = (of_nat (length ecmd) :: u8) in
     if ecmdsize = 0 then Some s
     else let newone = malloc (heap s) (unat ecmdsize) in
       if newone = 0 then Some s
       else cron_insert (alloc_node s newone
              \<lparr>ev_fields = flds, repeat = rep, cmd = CRON_ECMD (strncpy (ecmd @ [0]) (unat ecmdsize + 1))\<rparr>)
              newone position)"

definition cron_jobrm :: "cron_state \<Rightarrow> nat \<Rightarrow> cron_state option" where
  "cron_jobrm s job =
    (if job = 0 then Some s else do {
       j \<leftarrow> deref s job;
       let s = (if job = head s then s\<lparr>head := nxt j\<rparr> else s);
       s \<leftarrow> (if prv j \<noteq> 0 then modify s (prv j) (\<lambda>n. n\<lparr>nxt := nxt j\<rparr>) else Some s);
       j \<leftarrow> deref s job;
       let s = (if job = tail s then s\<lparr>tail := prv j\<rparr> else s);
       s \<leftarrow> (if nxt j \<noteq> 0 then modify s (nxt j) (\<lambda>n. n\<lparr>prv := prv j\<rparr>) else Some s);
       Some (s\<lparr>heap := (heap s)(job := None)\<rparr>) })"

partial_function (option) cron_jobs_loop :: "cron_state \<Rightarrow> nat \<Rightarrow> u8 \<Rightarrow> u8 option" where
  "cron_jobs_loop s job ss =
    (if job = 0 then Some ss
     else do { j \<leftarrow> deref s job; cron_jobs_loop s (nxt j) (ss + 1) })"

definition cron_jobs :: "cron_state \<Rightarrow> u8 option" where
  "cron_jobs s = cron_jobs_loop s (head s) 0"

partial_function (option) cron_getjob_loop :: "cron_state \<Rightarrow> nat \<Rightarrow> u8 \<Rightarrow> (nat \<times> u8) option" where
  "cron_getjob_loop s job pos =
    (if job = 0 then Some (job, pos)
     else if pos = 0 then Some (job, pos)
     else do { j \<leftarrow> deref s job; cron_getjob_loop s (nxt j) (pos - 1) })"

definition cron_getjob :: "cron_state \<Rightarrow> u8 \<Rightarrow> nat option" where
  "cron_getjob s pos = do { (job, pos) \<leftarrow> cron_getjob_loop s (head s) pos;
     Some (if pos \<noteq> 0 then 0 else job) }"

text \<open>The command \<open>cron_rm\<close>; its argument as \<open>sscanf\<close> has parsed it.\<close>

partial_function (option) cron_rm_all :: "cron_state \<Rightarrow> cron_state option" where
  "cron_rm_all s = (if head s = 0 then Some s else do { s \<leftarrow> cron_jobrm s (head s); cron_rm_all s })"

definition parse_cmd_cron_rm :: "cron_state \<Rightarrow> u8 option \<Rightarrow> cron_state option" where
  "parse_cmd_cron_rm s arg =
    (case arg of
       Some jobposition \<Rightarrow> do { job \<leftarrow> cron_getjob s jobposition; cron_jobrm s job }
     | None \<Rightarrow> cron_rm_all s)"

section \<open>Matching and running\<close>

text \<open>\<open>cron_fields\<close>: the union of the date record.\<close>

definition cron_fields :: "clock_datetime_t \<Rightarrow> u8 list" where
  "cron_fields d = [minute d, hour d, day d, month d, dow d]"

definition field_fails :: "8 word \<Rightarrow> u8 \<Rightarrow> bool" where
  "field_fails f v \<longleftrightarrow>
    (if sint f = -1 then False
     else sint f \<ge> 0 \<and> sint f \<noteq> int (unat v) \<or> sint f < 0 \<and> int (unat v) mod (- sint f) \<noteq> 0)"

text \<open>The loop over the five conditions; it leaves at the first that fails.\<close>

fun match_loop :: "8 word list \<Rightarrow> u8 list \<Rightarrow> nat \<Rightarrow> nat" where
  "match_loop (f # fs) (v # vs) condition =
    (if field_fails f v then condition else match_loop fs vs (condition + 1))"
| "match_loop _ _ condition = condition"

definition cron_match :: "cron_event \<Rightarrow> clock_datetime_t \<Rightarrow> bool" where
  "cron_match e d \<longleftrightarrow> match_loop (ev_fields e) (cron_fields d) 0 = 5"

text \<open>
  One round of the loop after \<open>current\<close> has been advanced.  \<open>run\<close> is the handler or the command
  parser on the event's payload: code outside this file, which may change the scheduler's state
  and that of the rest of the system.
\<close>

type_synonym 'w run = "cron_cmd \<Rightarrow> cron_state \<times> 'w \<Rightarrow> cron_state \<times> 'w"

definition cron_exec :: "'w run \<Rightarrow> clock_datetime_t \<Rightarrow> nat \<Rightarrow> cron_state \<times> 'w \<Rightarrow> (cron_state \<times> 'w) option" where
  "cron_exec run d exec sw = do {
     nd \<leftarrow> deref (fst sw) exec;
     if cron_match (event nd) d then do {
       let (s, w) = run (cmd (event nd)) sw;
       nd \<leftarrow> deref s exec;
       if repeat (event nd) > 0 then do {
         let left = repeat (event nd) - 1;
         s \<leftarrow> modify s exec (\<lambda>n. n\<lparr>event := (event n)\<lparr>repeat := left\<rparr>\<rparr>);
         s \<leftarrow> (if left = 0 then cron_jobrm s exec else Some s);
         Some (s, w) }
       else Some (s, w) }
     else Some sw }"

partial_function (option) cron_loop ::
    "'w run \<Rightarrow> clock_datetime_t \<Rightarrow> nat \<Rightarrow> cron_state \<times> 'w \<Rightarrow> (cron_state \<times> 'w) option" where
  "cron_loop run d current sw =
    (if current = 0 then Some sw
     else do {
       nd \<leftarrow> deref (fst sw) current;
       sw \<leftarrow> cron_exec run d current sw;
       cron_loop run d (nxt nd) sw })"

definition cron_periodic ::
    "clock_cfg \<Rightarrow> 'w run \<Rightarrow> u32 \<Rightarrow> cron_state \<times> 'w \<Rightarrow> (cron_state \<times> 'w) option" where
  "cron_periodic c run ts sw =
    (if head (fst sw) = 0 \<or> ts - last_check (fst sw) < 60 then Some sw
     else do {
       d \<leftarrow> (if cron_use_utc (fst sw) then clock_datetime ts else clock_localtime c ts);
       (s, w) \<leftarrow> cron_loop run d (head (fst sw)) sw;
       Some (s\<lparr>last_check := ts - ucast (sec d)\<rparr>, w) })"

section \<open>The static table\<close>

fun check_fields :: "8 word list \<Rightarrow> u8 list \<Rightarrow> bool" where
  "check_fields (f # fs) (v # vs) =
    (if sint f = -1 then check_fields fs vs
     else if sint f \<ge> 0 \<and> sint f \<noteq> int (unat v) then False
     else if sint f < 0 then
       (let step = (word_of_int (- sint f) :: u8)
        in if v mod step \<noteq> 0 then False else check_fields fs vs)
     else check_fields fs vs)"
| "check_fields _ _ = True"

record cron_static_event_t =
  static_fields :: "8 word list"
  static_handler :: nat
  use_utc :: bool

definition cron_check_event :: "8 word list \<Rightarrow> clock_datetime_t \<Rightarrow> bool" where
  "cron_check_event fs d = check_fields fs (cron_fields d)"

text \<open>The table up to its end marker, which is the first entry without a handler.\<close>

fun cron_static_loop ::
    "(nat \<Rightarrow> 'w \<Rightarrow> 'w) \<Rightarrow> clock_datetime_t \<Rightarrow> clock_datetime_t \<Rightarrow> cron_static_event_t list \<Rightarrow> 'w \<Rightarrow> 'w" where
  "cron_static_loop run d ld [] w = w"
| "cron_static_loop run d ld (e # es) w =
    (if static_handler e = 0 then w
     else cron_static_loop run d ld es
       (if cron_check_event (static_fields e) (if use_utc e then d else ld)
        then run (static_handler e) w else w))"

definition cron_static_periodic ::
    "clock_cfg \<Rightarrow> (nat \<Rightarrow> 'w \<Rightarrow> 'w) \<Rightarrow> cron_static_event_t list \<Rightarrow> u32 \<Rightarrow> u32 \<times> 'w \<Rightarrow> (u32 \<times> 'w) option" where
  "cron_static_periodic c run events ts = (\<lambda>(last, w).
    if ts - last < 60 then Some (last, w)
    else do {
      d \<leftarrow> clock_datetime ts;
      ld \<leftarrow> clock_localtime c ts;
      Some (ts - ucast (sec d), cron_static_loop run d ld events w) })"


section \<open>The list as a sequence of jobs\<close>

text \<open>
  \<open>lseg h pr p js q\<close>: from \<open>p\<close> the heap holds the jobs \<open>js\<close>, each an address and its event,
  linked forward up to \<open>q\<close> and backward down to \<open>pr\<close>.
\<close>

fun lseg :: "(nat \<Rightarrow> cron_event_linkedlist option) \<Rightarrow> nat \<Rightarrow> nat \<Rightarrow> (nat \<times> cron_event) list \<Rightarrow> nat \<Rightarrow> bool" where
  "lseg h pr p [] q \<longleftrightarrow> p = q"
| "lseg h pr p ((a, e) # js) q \<longleftrightarrow> p = a \<and> a \<noteq> 0 \<and>
     (\<exists>n. h a = Some \<lparr>nxt = n, prv = pr, event = e\<rparr> \<and> lseg h a n js q)"

abbreviation addrs :: "(nat \<times> cron_event) list \<Rightarrow> nat list" where
  "addrs js \<equiv> map fst js"

definition cron_rep :: "cron_state \<Rightarrow> (nat \<times> cron_event) list \<Rightarrow> bool" where
  "cron_rep s js \<longleftrightarrow> lseg (heap s) 0 (head s) js 0 \<and> tail s = last (0 # addrs js) \<and> distinct (addrs js)"

lemma lseg_first: "lseg h pr p js q \<Longrightarrow> p = hd (addrs js @ [q])"
  by (cases js) auto

lemma lseg_append:
  "lseg h pr p (xs @ ys) q \<longleftrightarrow>
     (\<exists>m. lseg h pr p xs m \<and> lseg h (last (pr # addrs xs)) m ys q)"
proof (induction xs arbitrary: pr p)
  case (Cons x xs)
  then show ?case by (cases x) (simp, blast)
qed simp

lemma lseg_frame [simp]: "a \<notin> set (addrs js) \<Longrightarrow> lseg (h(a := x)) pr p js q = lseg h pr p js q"
  by (induction js arbitrary: pr p) (auto simp: image_iff)

lemma lseg_nonzero: "lseg h pr p js q \<Longrightarrow> 0 \<notin> set (addrs js)"
proof (induction js arbitrary: pr p)
  case (Cons x js)
  then show ?case by (cases x) (simp, blast)
qed simp

lemma lseg_set_end:
  assumes "lseg h pr p (xs @ [(a, e)]) q" "a \<notin> set (addrs xs)" "h a = Some nd"
  shows "lseg (h(a \<mapsto> nd\<lparr>nxt := q'\<rparr>)) pr p (xs @ [(a, e)]) q'"
  using assms by (auto simp: lseg_append)

lemma lseg_set_start:
  assumes "lseg h pr p ((a, e) # ys) q" "a \<notin> set (addrs ys)" "h a = Some nd"
  shows "lseg (h(a \<mapsto> nd\<lparr>prv := pr'\<rparr>)) pr' p ((a, e) # ys) q"
  using assms by auto

lemma cron_rep_Nil: "cron_rep s [] \<longleftrightarrow> head s = 0 \<and> tail s = 0"
  by (auto simp: cron_rep_def)

lemma cron_rep_head: "cron_rep s js \<Longrightarrow> head s = hd (addrs js @ [0])"
  unfolding cron_rep_def by (blast dest: lseg_first)

lemma cron_rep_nonzero: "cron_rep s js \<Longrightarrow> a \<in> set (addrs js) \<Longrightarrow> a \<noteq> 0"
  unfolding cron_rep_def using lseg_nonzero by metis

lemma cron_rep_deref:
  assumes "cron_rep s (xs @ (a, e) # ys)"
  shows "deref s a = Some \<lparr>nxt = hd (addrs ys @ [0]), prv = last (0 # addrs xs), event = e\<rparr>"
  using assms unfolding cron_rep_def lseg_append deref_def by (auto dest: lseg_first)

text \<open>Changing the event of a job.\<close>

lemma cron_rep_set_event:
  assumes "cron_rep s (xs @ (a, e) # ys)"
  shows "\<exists>s'. modify s a (\<lambda>n. n\<lparr>event := f (event n)\<rparr>) = Some s' \<and> cron_rep s' (xs @ (a, f e) # ys) \<and>
    head s' = head s \<and> last_check s' = last_check s \<and> cron_use_utc s' = cron_use_utc s"
proof -
  obtain n where n: "heap s a = Some \<lparr>nxt = n, prv = last (0 # addrs xs), event = e\<rparr>"
      "lseg (heap s) a n ys 0"
    using assms unfolding cron_rep_def lseg_append by auto
  have "deref s a = Some \<lparr>nxt = n, prv = last (0 # addrs xs), event = e\<rparr>"
    using cron_rep_deref [OF assms] n by (auto simp: deref_def split: if_splits)
  then show ?thesis
    using assms n by (auto simp: modify_def cron_rep_def lseg_append)
qed

text \<open>Removing a job.\<close>

lemma cron_rep_jobrm:
  assumes rep: "cron_rep s (xs @ (a, e) # ys)"
  shows "\<exists>s'. cron_jobrm s a = Some s' \<and> cron_rep s' (xs @ ys) \<and> heap s' a = None \<and>
    last_check s' = last_check s \<and> cron_use_utc s' = cron_use_utc s"
proof -
  have head: "head s = hd (addrs xs @ [a])"
    using cron_rep_head [OF rep] by (cases xs) auto
  have distinct: "distinct (addrs (xs @ (a, e) # ys))"
    using rep by (simp add: cron_rep_def)
  have tail: "tail s = last (a # addrs ys)"
    using rep by (simp add: cron_rep_def)
  have segs: "lseg (heap s) 0 (head s) xs a" "a \<noteq> 0"
    "heap s a = Some \<lparr>nxt = hd (addrs ys @ [0]), prv = last (0 # addrs xs), event = e\<rparr>"
    "lseg (heap s) a (hd (addrs ys @ [0])) ys 0"
  proof -
    obtain m n where m: "lseg (heap s) 0 (head s) xs m" "m = a" "a \<noteq> 0"
      and n: "heap s a = Some \<lparr>nxt = n, prv = last (0 # addrs xs), event = e\<rparr>" "lseg (heap s) a n ys 0"
      using rep unfolding cron_rep_def lseg_append by auto
    have "n = hd (addrs ys @ [0])" using n(2) by (rule lseg_first)
    with m n show "lseg (heap s) 0 (head s) xs a" "a \<noteq> 0"
      "heap s a = Some \<lparr>nxt = hd (addrs ys @ [0]), prv = last (0 # addrs xs), event = e\<rparr>"
      "lseg (heap s) a (hd (addrs ys @ [0])) ys 0" by simp_all
  qed
  have zero: "0 \<notin> set (addrs (xs @ (a, e) # ys))"
    using rep unfolding cron_rep_def by (blast dest: lseg_nonzero)
  have at_head: "a = head s \<longleftrightarrow> xs = []" using head distinct by (cases xs) auto
  have at_tail: "a = tail s \<longleftrightarrow> ys = []" using tail distinct by (cases ys rule: rev_cases) auto
  show ?thesis
  proof (cases xs rule: rev_cases)
    case Nil
    then show ?thesis
      using segs distinct at_head at_tail zero tail
      by (cases ys) (auto simp: cron_rep_def cron_jobrm_def deref_def modify_def Let_def)
  next
    case (snoc xs' b)
    then show ?thesis
      using segs distinct at_head at_tail zero tail
      by (cases ys; cases b)
        (auto simp: cron_rep_def cron_jobrm_def deref_def modify_def Let_def lseg_append)
  qed
qed

text \<open>Appending a job.\<close>

lemma cron_rep_append:
  assumes rep: "cron_rep s js" and "p \<noteq> 0" "p \<notin> set (addrs js)" "sint pos \<le> 0 \<or> js = []"
  shows "\<exists>s'. cron_insert (alloc_node s p e) p pos = Some s' \<and> cron_rep s' (js @ [(p, e)]) \<and>
    last_check s' = last_check s \<and> cron_use_utc s' = cron_use_utc s"
proof (cases js rule: rev_cases)
  case Nil
  then show ?thesis
    using assms by (auto simp: cron_rep_def cron_insert_def alloc_node_def modify_def deref_def)
next
  case (snoc xs x)
  obtain b eb where x: "x = (b, eb)" by fastforce
  have ne: "head s \<noteq> 0" "b \<noteq> 0"
    using cron_rep_head [OF rep] cron_rep_nonzero [OF rep] snoc x
    by (cases xs; auto)+
  then show ?thesis
    using assms snoc x
    by (auto simp: cron_rep_def cron_insert_def alloc_node_def modify_def deref_def lseg_append)
qed


section \<open>Counting and finding jobs\<close>

text \<open>The traversals follow the forward links only.\<close>

fun fseg :: "(nat \<Rightarrow> cron_event_linkedlist option) \<Rightarrow> nat \<Rightarrow> nat list \<Rightarrow> bool" where
  "fseg h p [] \<longleftrightarrow> p = 0"
| "fseg h p (a # as) \<longleftrightarrow> p = a \<and> a \<noteq> 0 \<and> (\<exists>n. h a = Some n \<and> fseg h (nxt n) as)"

lemma lseg_fseg: "lseg h pr p js 0 \<Longrightarrow> fseg h p (addrs js)"
  by (induction js arbitrary: pr p) fastforce+

lemma cron_rep_fseg: "cron_rep s js \<Longrightarrow> fseg (heap s) (head s) (addrs js)"
  unfolding cron_rep_def by (blast intro: lseg_fseg)

lemma fseg_same_links:
  assumes "fseg h p as" "\<And>a. a \<in> set as \<Longrightarrow> map_option nxt (h' a) = map_option nxt (h a)"
  shows "fseg h' p as"
  using assms by (induction as arbitrary: p) (auto, metis option.map_disc_iff option.map_sel option.sel not_None_eq)

lemma cron_jobs_loop_fseg:
  "fseg (heap s) p as \<Longrightarrow> cron_jobs_loop s p ss = Some (ss + of_nat (length as))"
proof (induction as arbitrary: p ss)
  case Nil
  then show ?case by (subst cron_jobs_loop.simps) simp
next
  case (Cons a as)
  then show ?case by (subst cron_jobs_loop.simps) (auto simp: deref_def)
qed

lemma cron_jobs_fseg: "fseg (heap s) (head s) as \<Longrightarrow> cron_jobs s = Some (of_nat (length as))"
  unfolding cron_jobs_def by (simp add: cron_jobs_loop_fseg)

lemma cron_getjob_loop_fseg:
  "fseg (heap s) p as \<Longrightarrow> cron_getjob_loop s p pos =
     Some (hd (drop (unat pos) as @ [0]), pos - of_nat (length (take (unat pos) as)))"
proof (induction as arbitrary: p pos)
  case Nil
  then show ?case by (subst cron_getjob_loop.simps) simp
next
  case (Cons a as)
  then obtain n where n: "p = a" "a \<noteq> 0" "heap s a = Some n" "fseg (heap s) (nxt n) as" by auto
  show ?case
  proof (cases "pos = 0")
    case True
    then show ?thesis using n by (subst cron_getjob_loop.simps) simp
  next
    case False
    then have pos: "unat pos = Suc (unat (pos - 1))"
      by (simp add: unat_minus_one unat_gt_0)
    show ?thesis
      using Cons.IH [OF n(4), of "pos - 1"] n False
      by (subst cron_getjob_loop.simps) (simp add: deref_def pos)
  qed
qed

lemma cron_getjob_fseg:
  assumes "fseg (heap s) (head s) as"
  shows "cron_getjob s pos = Some (if unat pos < length as then as ! unat pos else 0)"
proof -
  have loop: "cron_getjob_loop s (head s) pos =
      Some (hd (drop (unat pos) as @ [0]), pos - of_nat (min (length as) (unat pos)))"
    using cron_getjob_loop_fseg [OF assms] by simp
  show ?thesis
  proof (cases "unat pos < length as")
    case True
    then have "min (length as) (unat pos) = unat pos" by simp
    then show ?thesis
      using True by (simp add: cron_getjob_def loop hd_append hd_drop_conv_nth)
  next
    case False
    then show ?thesis by (simp add: cron_getjob_def loop)
  qed
qed

lemmas cron_jobs_rep = cron_rep_fseg [THEN cron_jobs_fseg]
lemmas cron_getjob_rep = cron_rep_fseg [THEN cron_getjob_fseg]

lemma cron_seek_fseg:
  "fseg (heap s) p as \<Longrightarrow> cron_seek s p n = Some (hd (drop n as @ [0]))"
proof (induction n arbitrary: p as)
  case 0
  then show ?case by (cases as) auto
next
  case (Suc n)
  then show ?case by (cases as) (auto simp: deref_def)
qed

text \<open>
  Inserting at a position greater than 0 makes the new node the predecessor of the job found there,
  but the job before it keeps its forward link; past the end the walk yields the null pointer.
\<close>

lemma cron_insert_position:
  assumes rep: "cron_rep s js" and p: "p \<noteq> 0" "p \<notin> set (addrs js)" and "js \<noteq> []" "sint pos > 0"
  shows "nat (sint pos) < length js \<Longrightarrow>
      \<exists>s'. cron_insert (alloc_node s p e) p pos = Some s' \<and> fseg (heap s') (head s') (addrs js)"
    and "length js \<le> nat (sint pos) \<Longrightarrow> cron_insert (alloc_node s p e) p pos = None"
proof -
  let ?s = "alloc_node s p e"
  have ne: "head s \<noteq> 0"
    using cron_rep_head [OF rep] cron_rep_nonzero [OF rep] assms(4) by (cases js) auto
  have f: "fseg (heap ?s) (head ?s) (addrs js)"
  proof -
    have "fseg ((heap s)(p \<mapsto> \<lparr>nxt = 0, prv = 0, event = e\<rparr>)) (head s) (addrs js)"
      using cron_rep_fseg [OF rep] by (rule fseg_same_links) (use p in auto)
    then show ?thesis by (simp add: alloc_node_def)
  qed
  have seek: "cron_seek ?s (head s) (nat (sint pos)) = Some (hd (drop (nat (sint pos)) (addrs js) @ [0]))"
    using cron_seek_fseg [OF f] by (simp add: alloc_node_def)
  show "cron_insert ?s p pos = None" if "length js \<le> nat (sint pos)"
    using that seek ne assms(5) by (simp add: cron_insert_def alloc_node_def deref_def)
  assume lt: "nat (sint pos) < length js"
  define k where "k = nat (sint pos)"
  define a where "a = addrs js ! k"
  have k: "0 < k" "k < length js" using lt assms(5) by (simp_all add: k_def)
  have seek': "cron_seek ?s (head s) k = Some a"
    using seek k(2) by (simp add: k_def [symmetric] a_def hd_append hd_drop_conv_nth)
  have "js = take k js @ js ! k # drop (Suc k) js" using k(2) by (rule id_take_nth_drop)
  then have split: "js = take k js @ (a, snd (js ! k)) # drop (Suc k) js"
    using k(2) by (simp add: a_def)
  then have rep': "cron_rep s (take k js @ (a, snd (js ! k)) # drop (Suc k) js)" using rep by simp
  obtain nd where nd: "heap s a = Some nd" "a \<noteq> 0"
    using cron_rep_deref [OF rep'] by (auto simp: deref_def split: if_splits)
  have "head s = addrs js ! 0"
    using cron_rep_head [OF rep] assms(4) by (cases js) auto
  then have not_head: "a \<noteq> head s"
    using k rep assms(4) nth_eq_iff_index_eq [of "addrs js" k 0] by (simp add: cron_rep_def a_def del: nth_map)
  have a: "a \<noteq> p" using p(2) k(2) by (auto simp: a_def)
  define h where "h = (heap s)(p \<mapsto> \<lparr>nxt = a, prv = prv nd, event = e\<rparr>, a \<mapsto> nd\<lparr>prv := p\<rparr>)"
  have "cron_insert ?s p pos = Some (s\<lparr>heap := h\<rparr>)"
    using seek' ne assms(5) nd a p(1) not_head
    by (simp add: cron_insert_def k_def [symmetric] alloc_node_def modify_def deref_def h_def)
      (simp add: fun_upd_twist)
  moreover have "fseg h (head s) (addrs js)"
    using cron_rep_fseg [OF rep] by (rule fseg_same_links) (use p nd in \<open>auto simp: h_def\<close>)
  ultimately show "\<exists>s'. cron_insert ?s p pos = Some s' \<and> fseg (heap s') (head s') (addrs js)"
    by auto
qed

lemma cron_rm_all_rep:
  "cron_rep s js \<Longrightarrow> \<exists>s'. cron_rm_all s = Some s' \<and> cron_rep s' []"
proof (induction js arbitrary: s)
  case Nil
  then show ?case by (subst cron_rm_all.simps) (simp add: cron_rep_Nil)
next
  case (Cons x js)
  obtain a e where x: "x = (a, e)" by fastforce
  then have a: "head s = a" "a \<noteq> 0"
    using cron_rep_head [OF Cons.prems] cron_rep_nonzero [OF Cons.prems] by auto
  obtain s' where "cron_jobrm s a = Some s'" "cron_rep s' js"
    using cron_rep_jobrm [of s "[]" a e js] Cons.prems x by auto
  then show ?case
    using Cons.IH a by (subst cron_rm_all.simps) simp
qed

section \<open>Running the jobs\<close>

text \<open>What a round does to a job: jobs with a repeat count leave the list when it reaches 0.\<close>

definition job_step :: "clock_datetime_t \<Rightarrow> nat \<times> cron_event \<Rightarrow> (nat \<times> cron_event) list" where
  "job_step d = (\<lambda>(a, e).
     if \<not> cron_match e d \<or> repeat e = 0 then [(a, e)]
     else if repeat e = 1 then []
     else [(a, e\<lparr>repeat := repeat e - 1\<rparr>)])"

definition run_job :: "(cron_cmd \<Rightarrow> 'w \<Rightarrow> 'w) \<Rightarrow> clock_datetime_t \<Rightarrow> nat \<times> cron_event \<Rightarrow> 'w \<Rightarrow> 'w" where
  "run_job eff d = (\<lambda>(a, e) w. if cron_match e d then eff (cmd e) w else w)"

text \<open>A handler that leaves the scheduler's state alone.\<close>

definition leaves_jobs :: "'w run \<Rightarrow> (cron_cmd \<Rightarrow> 'w \<Rightarrow> 'w) \<Rightarrow> bool" where
  "leaves_jobs run eff \<longleftrightarrow> (\<forall>c s w. run c (s, w) = (s, eff c w))"

lemma cron_exec_rep:
  assumes rep: "cron_rep s (xs @ (a, e) # ys)" and run: "leaves_jobs run eff"
  shows "\<exists>s'. cron_exec run d a (s, w) = Some (s', run_job eff d (a, e) w) \<and>
    cron_rep s' (xs @ job_step d (a, e) @ ys) \<and>
    last_check s' = last_check s \<and> cron_use_utc s' = cron_use_utc s"
proof (cases "cron_match e d \<and> repeat e \<noteq> 0")
  case False
  then show ?thesis
    using rep cron_rep_deref [OF rep] run
    by (auto simp: cron_exec_def run_job_def job_step_def leaves_jobs_def word_gt_0)
next
  case True
  obtain s1 where s1: "modify s a (\<lambda>n. n\<lparr>event := (event n)\<lparr>repeat := repeat e - 1\<rparr>\<rparr>) = Some s1"
    "cron_rep s1 (xs @ (a, e\<lparr>repeat := repeat e - 1\<rparr>) # ys)"
    "last_check s1 = last_check s" "cron_use_utc s1 = cron_use_utc s"
    using cron_rep_set_event [OF rep, of "\<lambda>e'. e'\<lparr>repeat := repeat e - 1\<rparr>"] by auto
  have exec: "cron_exec run d a (s, w) =
      map_option (\<lambda>s'. (s', eff (cmd e) w)) (if repeat e - 1 = 0 then cron_jobrm s1 a else Some s1)"
    using True cron_rep_deref [OF rep] run s1(1)
    by (cases "cron_jobrm s1 a") (simp_all add: cron_exec_def leaves_jobs_def word_gt_0 Let_def)
  have job: "run_job eff d (a, e) w = eff (cmd e) w" using True by (simp add: run_job_def)
  show ?thesis
  proof (cases "repeat e = 1")
    case one: True
    then obtain s2 where "cron_jobrm s1 a = Some s2" "cron_rep s2 (xs @ ys)"
      "last_check s2 = last_check s" "cron_use_utc s2 = cron_use_utc s"
      using cron_rep_jobrm [OF s1(2)] s1 by auto
    then show ?thesis
      using True one by (simp add: exec job job_step_def)
  next
    case False
    then have "repeat e - 1 \<noteq> 0" by simp
    then show ?thesis
      using True False s1 by (simp add: exec job job_step_def)
  qed
qed

lemma job_step_hd:
  "cron_rep s (xs @ (a, e) # ys) \<Longrightarrow> deref s a = Some nd \<Longrightarrow> nxt nd = hd (addrs ys @ [0])"
  using cron_rep_deref by fastforce

lemma cron_loop_rep:
  assumes run: "leaves_jobs run eff"
  shows "cron_rep s (xs @ ys) \<Longrightarrow>
    \<exists>s'. cron_loop run d (hd (addrs ys @ [0])) (s, w) = Some (s', fold (run_job eff d) ys w) \<and>
      cron_rep s' (xs @ concat (map (job_step d) ys)) \<and>
      last_check s' = last_check s \<and> cron_use_utc s' = cron_use_utc s"
proof (induction ys arbitrary: xs s w)
  case Nil
  then show ?case by (subst cron_loop.simps) simp
next
  case (Cons y ys)
  obtain a e where y: "y = (a, e)" by fastforce
  with Cons.prems have rep: "cron_rep s (xs @ (a, e) # ys)" by simp
  have a: "a \<noteq> 0" using cron_rep_nonzero [OF rep] by auto
  obtain s1 where s1: "cron_exec run d a (s, w) = Some (s1, run_job eff d y w)"
    "cron_rep s1 ((xs @ job_step d y) @ ys)"
    "last_check s1 = last_check s" "cron_use_utc s1 = cron_use_utc s"
    using cron_exec_rep [OF rep run, of d w] y by auto
  have "cron_loop run d a (s, w) = cron_loop run d (hd (addrs ys @ [0])) (s1, run_job eff d y w)"
    using a s1(1) cron_rep_deref [OF rep] by (subst cron_loop.simps) simp
  then show ?case
    using Cons.IH [OF s1(2), of "run_job eff d y w"] s1(3,4) y by auto
qed


section \<open>The time base\<close>

text \<open>
  What the scheduler needs of the clock: a conversion that always succeeds and whose seconds are
  those of the timestamp.
\<close>

locale time_source =
  fixes conv :: "u32 \<Rightarrow> clock_datetime_t option" and ok :: "u32 \<Rightarrow> bool"
  assumes conv_sec: "ok ts \<Longrightarrow> \<exists>d. conv ts = Some d \<and> unat (sec d) = unat ts mod 60"
begin

text \<open>The saved time is the start of the minute of the check.\<close>

lemma minute_start:
  assumes "ok ts" "conv ts = Some d"
  shows "unat (ts - ucast (sec d)) = unat ts - unat ts mod 60"
proof -
  have sec: "unat (ucast (sec d) :: u32) = unat ts mod 60"
    using conv_sec [OF assms(1)] assms(2) by (auto simp: unat_ucast_up)
  then show ?thesis
    by (simp add: unat_sub_small)
qed

text \<open>A later check is due exactly when its minute is a later one.\<close>

lemma due_iff_later_minute:
  assumes "ok ts" "conv ts = Some d" "ts \<le> ts'"
  shows "ts' - (ts - ucast (sec d)) < 60 \<longleftrightarrow> unat ts' div 60 = unat ts div 60"
proof -
  have le: "unat ts \<le> unat ts'" using assms(3) by (simp add: word_le_nat_alt)
  have start: "unat (ts - ucast (sec d)) = unat ts div 60 * 60"
    by (simp add: minute_start [OF assms(1,2)] minus_mod_eq_div_mult)
  moreover have "unat ts div 60 * 60 \<le> unat ts" by simp
  ultimately have "unat (ts' - (ts - ucast (sec d))) = unat ts' - unat ts div 60 * 60"
    using le by (subst unat_sub_small) simp_all
  moreover have "unat ts' - unat ts div 60 * 60 < 60 \<longleftrightarrow> unat ts' div 60 = unat ts div 60"
  proof -
    have "unat ts div 60 \<le> unat ts' div 60" using le by (rule div_le_mono)
    moreover have "unat ts' = unat ts' div 60 * 60 + unat ts' mod 60" by simp
    moreover have "unat ts' mod 60 < 60" by simp
    ultimately show ?thesis by linarith
  qed
  ultimately show ?thesis by (simp add: word_less_nat_alt)
qed

end

interpretation utc: time_source clock_datetime "\<lambda>_. True"
  by unfold_locales (rule clock_datetime_total)

interpretation local_time: time_source "clock_localtime c" "\<lambda>ts. unat ts + 7200 < 2 ^ 32" for c
  by unfold_locales (rule clock_localtime_total)

definition cron_convert :: "clock_cfg \<Rightarrow> bool \<Rightarrow> u32 \<Rightarrow> clock_datetime_t option" where
  "cron_convert c u ts = (if u then clock_datetime ts else clock_localtime c ts)"

interpretation cron_time: time_source "cron_convert c u" "\<lambda>ts. unat ts + 7200 < 2 ^ 32" for c u
  by unfold_locales (cases u; simp add: cron_convert_def clock_datetime_total clock_localtime_total)

section \<open>A round\<close>

lemma cron_periodic_rep:
  assumes rep: "cron_rep s js" and run: "leaves_jobs run eff" and "js \<noteq> []"
    and due: "ts - last_check s \<ge> 60" and ts: "unat ts + 7200 < 2 ^ 32"
  shows "\<exists>s' d. cron_convert c (cron_use_utc s) ts = Some d \<and>
    cron_periodic c run ts (s, w) = Some (s', fold (run_job eff d) js w) \<and>
    cron_rep s' (concat (map (job_step d) js)) \<and> last_check s' = ts - ucast (sec d) \<and>
    cron_use_utc s' = cron_use_utc s"
proof -
  obtain d where d: "cron_convert c (cron_use_utc s) ts = Some d"
    using cron_time.conv_sec [OF ts] by blast
  obtain a e js' where js: "js = (a, e) # js'" using assms(3) by (cases js) auto
  then have head: "head s = a" "a \<noteq> 0"
    using cron_rep_head [OF rep] cron_rep_nonzero [OF rep, of a] by auto
  obtain s' where s': "cron_loop run d a (s, w) = Some (s', fold (run_job eff d) js w)"
    "cron_rep s' (concat (map (job_step d) js))"
    "last_check s' = last_check s" "cron_use_utc s' = cron_use_utc s"
    using cron_loop_rep [OF run, of s "[]" js d w] rep js by auto
  have "cron_periodic c run ts (s, w) = Some (s'\<lparr>last_check := ts - ucast (sec d)\<rparr>, fold (run_job eff d) js w)"
  proof -
    have "\<not> ts - last_check s < 60" using due by (rule leD)
    then show ?thesis
      using d head s'(1) by (simp only: cron_periodic_def cron_convert_def fst_conv) simp
  qed
  then show ?thesis
    using d s' by (auto simp: cron_rep_def)
qed


section \<open>Matching\<close>

text \<open>What a field of a job asks of the date: any value, one value, or a multiple.\<close>

definition field_ok :: "8 word \<Rightarrow> u8 \<Rightarrow> bool" where
  "field_ok f v \<longleftrightarrow> sint f = -1 \<or> sint f \<ge> 0 \<and> int (unat v) = sint f \<or>
     sint f < -1 \<and> (- sint f) dvd int (unat v)"

lemma field_fails_ok: "field_fails f v \<longleftrightarrow> \<not> field_ok f v"
  by (auto simp: field_fails_def field_ok_def dvd_eq_mod_eq_0)

lemma match_loop_le: "match_loop fs vs n \<le> n + length fs"
  by (induction fs vs n rule: match_loop.induct) auto

lemma match_loop_ok:
  "length fs = length vs \<Longrightarrow> match_loop fs vs n = n + length fs \<longleftrightarrow> list_all2 field_ok fs vs"
proof (induction fs vs n rule: match_loop.induct)
  case (1 f fs v vs n)
  then show ?case by (auto simp: field_fails_ok)
qed auto

lemma cron_match_ok:
  assumes "length (ev_fields e) = 5"
  shows "cron_match e d \<longleftrightarrow> list_all2 field_ok (ev_fields e) (cron_fields d)"
  using match_loop_ok [of "ev_fields e" "cron_fields d" 0] assms
  by (simp add: cron_match_def cron_fields_def)

lemma step_bound: "sint (f :: 8 word) < 0 \<Longrightarrow> 0 < - sint f \<and> - sint f \<le> 128"
  using sint_greater_eq [of f] by simp

lemma word_mod_zero_iff:
  assumes "0 < i" "i \<le> 128"
  shows "v mod (word_of_int i :: u8) = 0 \<longleftrightarrow> i dvd int (unat v)"
proof -
  have "uint (word_of_int i :: u8) = i" using assms by (simp add: uint_word_of_int)
  then have "uint (v mod (word_of_int i :: u8)) = int (unat v) mod i"
    by (simp add: uint_mod_distrib)
  then show ?thesis
    by (simp add: dvd_eq_mod_eq_0 word_uint_eq_iff)
qed

lemma step_mod: "sint f < 0 \<Longrightarrow> v mod (- f) = 0 \<longleftrightarrow> (- sint f) dvd int (unat (v :: u8))"
  using word_mod_zero_iff [of "- sint f" v] step_bound [of f] by simp

lemma check_fields_ok: "length fs = length vs \<Longrightarrow> check_fields fs vs \<longleftrightarrow> list_all2 field_ok fs vs"
proof (induction fs vs rule: list_induct2)
  case (Cons f fs v vs)
  consider "sint f = -1" | "sint f \<ge> 0" | "sint f < -1" by linarith
  then show ?case
  proof cases
    case 3
    then have "v mod (- f) = 0 \<longleftrightarrow> field_ok f v"
      using step_mod [of f v] by (auto simp: field_ok_def)
    then show ?thesis using 3 Cons by (simp add: Let_def)
  qed (use Cons in \<open>auto simp: field_ok_def\<close>)
qed simp

section \<open>Properties\<close>

text \<open>
  C1. A scheduler round that is due runs exactly the jobs that match the local or UTC time, each
  once and in list order, and leaves the list well-formed: jobs without a repeat count stay, the
  count of a job that ran goes down by one, and a job whose count reaches zero is taken out (while
  the list is being walked); the check time becomes the start of the minute.  Handlers are taken
  not to touch the job list themselves.
\<close>

theorem cron_periodic_runs_matching_jobs:
  assumes "cron_rep s js" "leaves_jobs run eff" "js \<noteq> []" "ts - last_check s \<ge> 60"
    and "unat ts + 7200 < 2 ^ 32"
  shows "\<exists>s' d. cron_convert c (cron_use_utc s) ts = Some d \<and>
    cron_periodic c run ts (s, w) =
      Some (s', fold (\<lambda>(a, e). eff (cmd e)) (filter (\<lambda>(a, e). cron_match e d) js) w) \<and>
    cron_rep s' (concat (map (job_step d) js)) \<and>
    unat (last_check s') = unat ts - unat ts mod 60"
proof -
  have "fold (run_job eff d) js w =
      fold (\<lambda>(a, e). eff (cmd e)) (filter (\<lambda>(a, e). cron_match e d) js) w" for d
    by (induction js arbitrary: w) (auto simp: run_job_def)
  then show ?thesis
    using cron_periodic_rep [OF assms, of c w] cron_time.minute_start [OF assms(5)] by fastforce
qed

definition example_jobs :: "(nat \<times> cron_event) list" where
  "example_jobs = [(7, \<lparr>ev_fields = replicate 5 (-1), repeat = 1, cmd = CRON_JUMP 99 []\<rparr>),
     (9, \<lparr>ev_fields = replicate 5 (-1), repeat = 0, cmd = CRON_JUMP 98 []\<rparr>)]"

definition example_cron :: cron_state where
  "example_cron = \<lparr>last_check = 0, head = 7, tail = 9, cron_use_utc = True,
     heap = [7 \<mapsto> \<lparr>nxt = 9, prv = 0, event = snd (example_jobs ! 0)\<rparr>,
       9 \<mapsto> \<lparr>nxt = 0, prv = 7, event = snd (example_jobs ! 1)\<rparr>]\<rparr>"

definition log_run :: "nat list run" where
  "log_run c = (\<lambda>(s, w). (s, handler c # w))"

lemma example_cron_rep: "cron_rep example_cron example_jobs"
  by (simp add: cron_rep_def example_cron_def example_jobs_def)

lemma log_run_leaves: "leaves_jobs log_run (\<lambda>c w. handler c # w)"
  by (simp add: leaves_jobs_def log_run_def)

theorem cron_periodic_runs_matching_jobs_witness:
  "map_option snd (cron_periodic ntp_cfg log_run 1256434200 (example_cron, [])) = Some [98, 99]"
proof -
  have match: "cron_match e d" if "e \<in> snd ` set example_jobs" for e d
    using that by (auto simp: cron_match_ok example_jobs_def cron_fields_def field_ok_def numeral_eq_Suc)
  then have "filter (\<lambda>(a, e). cron_match e d) example_jobs = example_jobs" for d
    by (auto simp: filter_id_conv image_iff Bex_def)
  moreover have "fold (\<lambda>(a, e). (#) (handler (cmd e))) example_jobs [] = [98, 99]"
    by (simp add: example_jobs_def)
  ultimately show ?thesis
    using cron_periodic_runs_matching_jobs [OF example_cron_rep log_run_leaves, of 1256434200 ntp_cfg "[]"]
    by (auto simp: example_cron_def example_jobs_def)
qed


text \<open>
  C0. Jobs are checked at most once a minute: after a round at time \<open>ts\<close>, a call in the same
  minute changes nothing and runs nothing, and a call in any later minute is due again.
\<close>

theorem cron_once_per_minute:
  assumes "cron_rep s js" "leaves_jobs run eff" "js \<noteq> []" "ts - last_check s \<ge> 60"
    and "unat ts + 7200 < 2 ^ 32" "ts \<le> ts'"
    and "cron_periodic c run ts (s, w) = Some (s', w')"
  shows "(unat ts' div 60 = unat ts div 60 \<longrightarrow> cron_periodic c run ts' (s', w'') = Some (s', w'')) \<and>
    (unat ts' div 60 > unat ts div 60 \<longrightarrow> ts' - last_check s' \<ge> 60)"
proof -
  obtain d where d: "cron_convert c (cron_use_utc s) ts = Some d" "last_check s' = ts - ucast (sec d)"
    using cron_periodic_rep [OF assms(1-5), of c w] assms(7) by auto
  have "ts' - last_check s' < 60 \<longleftrightarrow> unat ts' div 60 = unat ts div 60"
    unfolding d(2) by (rule cron_time.due_iff_later_minute [OF assms(5) d(1) assms(6)])
  then show ?thesis
    by (auto simp: cron_periodic_def not_less)
qed

theorem cron_once_per_minute_witness:
  "\<exists>s' w'. cron_periodic ntp_cfg log_run 1256434200 (example_cron, []) = Some (s', w') \<and>
     cron_periodic ntp_cfg log_run 1256434259 (s', w') = Some (s', w')"
proof -
  obtain s' w' where run: "cron_periodic ntp_cfg log_run 1256434200 (example_cron, []) = Some (s', w')"
    using cron_periodic_rep [OF example_cron_rep log_run_leaves, of 1256434200 ntp_cfg "[]"]
    by (auto simp: example_cron_def example_jobs_def)
  then show ?thesis
    using cron_once_per_minute [OF example_cron_rep log_run_leaves _ _ _ _ run, of 1256434259 w']
    by (auto simp: example_cron_def example_jobs_def)
qed

text \<open>
  C30. The operations on the list of jobs: counting (in 8 bits), looking a job up by position,
  appending a command (with its terminator) and removing a job by position or all jobs are those
  of the sequence of jobs the list represents, and keep the double linking intact.
\<close>

theorem cron_list_operations:
  assumes "cron_rep s js" "length js \<le> 255" "ecmd \<noteq> []" "length ecmd \<le> 255" "0 \<notin> set ecmd"
    and "malloc (heap s) (length ecmd) \<noteq> 0" "heap s (malloc (heap s) (length ecmd)) = None"
  shows "cron_jobs s = Some (of_nat (length js)) \<and>
    cron_getjob s i = Some (if unat i < length js then addrs js ! unat i else 0) \<and>
    (\<exists>s'. parse_cmd_cron_rm s (Some i) = Some s' \<and>
       cron_rep s' (take (unat i) js @ drop (Suc (unat i)) js)) \<and>
    (\<exists>s'. parse_cmd_cron_rm s None = Some s' \<and> cron_rep s' []) \<and>
    (\<exists>s' p. cron_jobinsert_ecmd malloc s flds rep (-1) ecmd = Some s' \<and>
       cron_rep s' (js @ [(p, \<lparr>ev_fields = flds, repeat = rep, cmd = CRON_ECMD (ecmd @ [0])\<rparr>)]))"
proof (intro conjI)
  show "cron_jobs s = Some (of_nat (length js))"
    using cron_jobs_rep [OF assms(1)] by simp
  show get: "cron_getjob s i = Some (if unat i < length js then addrs js ! unat i else 0)"
    using cron_getjob_rep [OF assms(1)] by simp
  show "\<exists>s'. parse_cmd_cron_rm s None = Some s' \<and> cron_rep s' []"
    using cron_rm_all_rep [OF assms(1)] by (simp add: parse_cmd_cron_rm_def)
  show "\<exists>s'. parse_cmd_cron_rm s (Some i) = Some s' \<and>
      cron_rep s' (take (unat i) js @ drop (Suc (unat i)) js)"
  proof (cases "unat i < length js")
    case True
    obtain a e where ae: "js ! unat i = (a, e)" by fastforce
    have "js = take (unat i) js @ (a, e) # drop (Suc (unat i)) js"
      using id_take_nth_drop [OF True] ae by simp
    then show ?thesis
      using cron_rep_jobrm [of s "take (unat i) js" a e "drop (Suc (unat i)) js"] assms(1) get True ae
      by (auto simp: parse_cmd_cron_rm_def)
  next
    case False
    then show ?thesis using get assms(1) by (simp add: parse_cmd_cron_rm_def cron_jobrm_def)
  qed
  let ?p = "malloc (heap s) (length ecmd)"
  have size: "unat (of_nat (length ecmd) :: u8) = length ecmd"
    using assms(4) by (simp add: unsigned_of_nat take_bit_nat_eq_self)
  then have pos: "(of_nat (length ecmd) :: u8) \<noteq> 0" using assms(3) by auto
  have "takeWhile (\<lambda>b. b \<noteq> 0) (ecmd @ [0]) = ecmd" using assms(5) by (subst takeWhile_append2) auto
  then have copy: "strncpy (ecmd @ [0]) (length ecmd + 1) = ecmd @ [0]"
    by (simp add: strncpy_def)
  have fresh: "?p \<notin> set (addrs js)"
  proof
    assume "?p \<in> set (addrs js)"
    then obtain e where "(?p, e) \<in> set js" by auto
    then obtain xs ys where "js = xs @ (?p, e) # ys" by (metis split_list)
    then have "deref s ?p \<noteq> None" using cron_rep_deref [of s xs ?p e ys] assms(1) by simp
    then show False using assms(7) by (simp add: deref_def split: if_splits)
  qed
  show "\<exists>s' p. cron_jobinsert_ecmd malloc s flds rep (-1) ecmd = Some s' \<and>
      cron_rep s' (js @ [(p, \<lparr>ev_fields = flds, repeat = rep, cmd = CRON_ECMD (ecmd @ [0])\<rparr>)])"
    using cron_rep_append [OF assms(1) _ fresh, of "-1"
        "\<lparr>ev_fields = flds, repeat = rep, cmd = CRON_ECMD (ecmd @ [0])\<rparr>"] assms(6,7) pos
    by (auto simp: cron_jobinsert_ecmd_def size copy [simplified] Let_def)
qed


theorem cron_list_operations_witness:
  "\<exists>s' p. cron_jobinsert_ecmd (\<lambda>_ _. 11) example_cron [0, 8, -1, -1, 1] 0 (-1) [112, 111] = Some s' \<and>
     cron_rep s' (example_jobs @
       [(p, \<lparr>ev_fields = [0, 8, -1, -1, 1], repeat = 0, cmd = CRON_ECMD [112, 111, 0]\<rparr>)])"
  using cron_list_operations [OF example_cron_rep, of "[112, 111]" "\<lambda>_ _. 11" 0 "[0, 8, -1, -1, 1]" 0]
  by (simp add: example_jobs_def example_cron_def)

text \<open>
  Inserting at a position greater than 0 does not insert: below the length of the list the new
  node is linked backward only, so the number of jobs and every job found by position stay as they
  were and the new job is never run or freed; from the length of the list on, the operation writes
  through the null pointer.
\<close>

theorem cron_insert_at_position_is_lost:
  assumes "cron_rep s js" "js \<noteq> []" "p \<noteq> 0" "p \<notin> set (addrs js)" "sint pos > 0"
  shows "if nat (sint pos) < length js
    then \<exists>s'. cron_insert (alloc_node s p e) p pos = Some s' \<and> cron_jobs s' = cron_jobs s \<and>
      (\<forall>i. cron_getjob s' i = cron_getjob s i \<and> cron_getjob s' i \<noteq> Some p)
    else cron_insert (alloc_node s p e) p pos = None"
proof (cases "nat (sint pos) < length js")
  case True
  then obtain s' where s': "cron_insert (alloc_node s p e) p pos = Some s'"
    "fseg (heap s') (head s') (addrs js)"
    using cron_insert_position(1) [OF assms(1,3,4,2,5)] by blast
  have "cron_getjob s' i \<noteq> Some p" for i
    using cron_getjob_fseg [OF s'(2), of i] assms(3,4) nth_mem [of "unat i" "addrs js"]
    by (auto simp del: nth_map)
  then show ?thesis
    using True s'(1) cron_jobs_fseg [OF s'(2)] cron_jobs_rep [OF assms(1)]
      cron_getjob_fseg [OF s'(2)] cron_getjob_rep [OF assms(1)] by auto
next
  case False
  then show ?thesis using cron_insert_position(2) [OF assms(1,3,4,2,5)] by simp
qed

theorem cron_insert_at_position_is_lost_witness:
  "\<exists>s'. cron_insert (alloc_node example_cron 11 (snd (example_jobs ! 0))) 11 1 = Some s' \<and>
     (\<forall>i. cron_getjob s' i \<noteq> Some 11)"
  using cron_insert_at_position_is_lost [OF example_cron_rep, of 11 1 "snd (example_jobs ! 0)"]
  by (auto simp: example_jobs_def)

text \<open>
  C0. The static scheduler's \<open>cron_check_event\<close> and the dynamic scheduler's inlined check agree,
  and both mean that each of the five fields is -1, equals the date's field, or is the negative of
  a divisor of it; the static table then runs the matching entries before its end marker in order.
\<close>

theorem cron_checks_agree:
  assumes "length fs = 5" "\<And>e. e \<in> set es \<Longrightarrow> length (static_fields e) = 5"
  shows "cron_check_event fs d = cron_match \<lparr>ev_fields = fs, repeat = r, cmd = c\<rparr> d \<and>
    (cron_check_event fs d \<longleftrightarrow> (\<forall>i<5. field_ok (fs ! i) (cron_fields d ! i))) \<and>
    cron_static_loop run d ld es w =
      fold (\<lambda>e. if cron_match \<lparr>ev_fields = static_fields e, repeat = r, cmd = c\<rparr>
                   (if use_utc e then d else ld)
                then run (static_handler e) else id)
        (takeWhile (\<lambda>e. static_handler e \<noteq> 0) es) w"
proof -
  have agree: "cron_check_event fs d = cron_match \<lparr>ev_fields = fs, repeat = r, cmd = c\<rparr> d"
    if "length fs = 5" for fs d
    using that by (simp add: cron_check_event_def check_fields_ok cron_match_ok cron_fields_def)
  have "cron_check_event fs d \<longleftrightarrow> list_all2 field_ok fs (cron_fields d)"
    using assms(1) by (simp add: cron_check_event_def check_fields_ok cron_fields_def)
  also have "\<dots> \<longleftrightarrow> (\<forall>i<5. field_ok (fs ! i) (cron_fields d ! i))"
    using assms(1) by (simp add: list_all2_conv_all_nth cron_fields_def)
  finally have fields: "cron_check_event fs d \<longleftrightarrow> (\<forall>i<5. field_ok (fs ! i) (cron_fields d ! i))" .
  have "cron_static_loop run d ld es w =
      fold (\<lambda>e. if cron_match \<lparr>ev_fields = static_fields e, repeat = r, cmd = c\<rparr>
                   (if use_utc e then d else ld)
                then run (static_handler e) else id)
        (takeWhile (\<lambda>e. static_handler e \<noteq> 0) es) w"
    using assms(2) by (induction es arbitrary: w) (simp_all add: agree)
  then show ?thesis using agree [OF assms(1)] fields by blast
qed

theorem cron_checks_agree_witness:
  "cron_check_event [-5, -1, 10, -1, -1]
     \<lparr>sec = 0, minute = 35, hour = 3, day = 10, month = 2, dow = 1, year = 109\<rparr>"
  using cron_checks_agree [of "[-5, -1, 10, -1, -1]" "[]"
      "\<lparr>sec = 0, minute = 35, hour = 3, day = 10, month = 2, dow = 1, year = 109\<rparr>"]
  by (simp add: cron_match_ok cron_fields_def field_ok_def)

end
