(* ===== verification/Zbus.thy ===== *)
theory Zbus imports Prelude begin

text \<open>
  The Z-Bus serial link (protocols/zbus/zbus.c, zbus.h, process.c): frames on a half-duplex line,
  delimited by two-byte escapes and transmitted and received by interrupt handlers that share one
  buffer, the uIP buffer, and its lock (\<open>uip_buf_lock\<close> and \<open>uip_buf_unlock\<close> of
  protocols/uip/uip.h).  The USART is reduced to what the code sees of it: which direction is
  enabled and the bytes written to its data register.  The model is that of a build without
  \<open>TEENSY_SUPPORT\<close>, in which \<open>zbus_index_t\<close> has 16 bits.
\<close>

section \<open>State\<close>

text \<open>
  \<open>line\<close> logs the bytes written to the data register; \<open>rx_on\<close> and \<open>tx_on\<close> are the enable bits of
  the control register and \<open>rxtx_pin\<close> the direction pin.  \<open>other_tx\<close> tells whether one of the other
  network interfaces (rfm12, USB) is transmitting from the shared buffer.  The length of
  \<open>zbus_buf\<close> is \<open>ZBUS_BUFFER_LEN\<close>.
\<close>

record zbus_state =
  send_escape_data :: u8
  recv_escape_data :: u8
  bus_blocked :: u8
  zbus_index :: u16
  zbus_txlen :: u16
  zbus_rxlen :: u16
  zbus_buf :: "u8 list"
  uip_lock :: u8
  other_tx :: bool
  rx_on :: bool
  tx_on :: bool
  rxtx_pin :: bool
  line :: "u8 list"

definition ZBUS_START :: u8 where "ZBUS_START = 0x30"
definition ZBUS_STOP :: u8 where "ZBUS_STOP = 0x31"

text \<open>The escape character, a backslash.\<close>

definition ZBUS_ESC :: u8 where "ZBUS_ESC = 0x5C"

section \<open>The buffer's lock\<close>

text \<open>The result is True when the buffer was locked already.\<close>

definition uip_buf_lock :: "zbus_state \<Rightarrow> bool \<times> zbus_state" where
  "uip_buf_lock s = (if uip_lock s \<noteq> 0 then (True, s) else (False, s\<lparr>uip_lock := 8\<rparr>))"

definition uip_buf_unlock :: "zbus_state \<Rightarrow> zbus_state" where
  "uip_buf_unlock s = (if other_tx s \<or> zbus_txlen s > 0 then s else s\<lparr>uip_lock := 0\<rparr>)"

section \<open>Starting and stopping\<close>

text \<open>Writing the USART's data register.\<close>

definition put :: "u8 \<Rightarrow> zbus_state \<Rightarrow> zbus_state" where
  "put b s = s\<lparr>line := line s @ [b]\<rparr>"

text \<open>\<open>__zbus_txstart\<close>\<close>

definition zbus_txstart_line :: "zbus_state \<Rightarrow> zbus_state" where
  "zbus_txstart_line s = put ZBUS_ESC
     (s\<lparr>bus_blocked := 3, tx_on := True, rx_on := False, rxtx_pin := True,
        send_escape_data := ZBUS_START\<rparr>)"

definition zbus_txstart :: "u16 \<Rightarrow> zbus_state \<Rightarrow> zbus_state" where
  "zbus_txstart sz s =
    (if zbus_txlen s \<noteq> 0 \<or> zbus_rxlen s \<noteq> 0 \<or> bus_blocked s \<noteq> 0 then s
     else let s = s\<lparr>zbus_index := 0, zbus_txlen := sz\<rparr>
          in if bus_blocked s \<noteq> 0 then s else zbus_txstart_line s)"

definition zbus_rxstart :: "zbus_state \<Rightarrow> zbus_state" where
  "zbus_rxstart s =
    (if zbus_txlen s > 0 then s
     else s\<lparr>zbus_rxlen := 0, rx_on := True, tx_on := False, rxtx_pin := False\<rparr>)"

definition zbus_rxstop :: "zbus_state \<Rightarrow> zbus_state" where
  "zbus_rxstop s = s\<lparr>rx_on := False, tx_on := False\<rparr>"

definition zbus_rxfinish :: "zbus_state \<Rightarrow> u16" where
  "zbus_rxfinish s = zbus_rxlen s"

definition zbus_core_init :: "zbus_state \<Rightarrow> zbus_state" where
  "zbus_core_init s =
    zbus_rxstart (s\<lparr>tx_on := True, rx_on := True, zbus_txlen := 0, zbus_rxlen := 0, zbus_index := 0\<rparr>)"

definition zbus_core_periodic :: "zbus_state \<Rightarrow> zbus_state" where
  "zbus_core_periodic s =
    (if bus_blocked s \<noteq> 0
     then let s = s\<lparr>bus_blocked := bus_blocked s - 1\<rparr>
          in if bus_blocked s = 0 \<and> zbus_txlen s > 0 then zbus_txstart_line s else s
     else s)"

section \<open>The interrupt handlers\<close>

text \<open>\<open>zbus_index\<close> stays below \<open>zbus_txlen\<close> at the read, so that the read is inside the buffer.\<close>

definition USART_TX_vect :: "zbus_state \<Rightarrow> zbus_state" where
  "USART_TX_vect s =
    (if send_escape_data s \<noteq> 0 then
       (put (send_escape_data s) s)\<lparr>send_escape_data := 0\<rparr>
     else if zbus_txlen s \<noteq> 0 \<and> zbus_index s < zbus_txlen s then
       let b = zbus_buf s ! unat (zbus_index s);
           s = (if b = ZBUS_ESC then put ZBUS_ESC (s\<lparr>send_escape_data := b\<rparr>) else put b s)
       in s\<lparr>zbus_index := zbus_index s + 1, bus_blocked := 3\<rparr>
     else if zbus_txlen s \<noteq> 0 then
       put ZBUS_ESC ((uip_buf_unlock (s\<lparr>zbus_txlen := 0\<rparr>))\<lparr>send_escape_data := ZBUS_STOP\<rparr>)
     else zbus_rxstart (s\<lparr>bus_blocked := 0, zbus_txlen := 0\<rparr>))"

definition append_data :: "u8 \<Rightarrow> zbus_state \<Rightarrow> zbus_state" where
  "append_data data s =
    (if unat (zbus_index s) \<ge> length (zbus_buf s) then s
     else if bus_blocked s = 0 then s
     else s\<lparr>bus_blocked := 3, zbus_buf := (zbus_buf s)[unat (zbus_index s) := data],
            zbus_index := zbus_index s + 1\<rparr>)"

text \<open>\<open>err\<close>: the data overrun or the frame error flag is set.\<close>

definition USART_RX_vect :: "bool \<Rightarrow> u8 \<Rightarrow> zbus_state \<Rightarrow> zbus_state" where
  "USART_RX_vect err data s =
    (if err then s
     else if zbus_rxlen s \<noteq> 0 then s
     else if zbus_txlen s \<noteq> 0 then s
     else if recv_escape_data s \<noteq> 0 then
       let s = s\<lparr>recv_escape_data := 0\<rparr> in
       if data = ZBUS_START then
         (case uip_buf_lock s of
            (True, s) \<Rightarrow> s
          | (False, s) \<Rightarrow> s\<lparr>zbus_index := 0, bus_blocked := 3\<rparr>)
       else if data = ZBUS_STOP then
         let s = (if bus_blocked s \<noteq> 0 then (zbus_rxstop s)\<lparr>zbus_rxlen := zbus_index s\<rparr> else s);
             s = s\<lparr>bus_blocked := 0\<rparr>
         in if zbus_txlen s > 0 then zbus_txstart_line s else s
       else if data = ZBUS_ESC then append_data data s
       else s
     else if data = ZBUS_ESC then s\<lparr>recv_escape_data := 1\<rparr>
     else append_data data s)"

section \<open>The main loop\<close>

text \<open>
  \<open>zbus_process\<close> in a build whose only network interface is the Z-Bus: \<open>router_input\<close>, the IP stack,
  is a parameter that turns the received bytes into an answer (empty when there is none), and
  \<open>router_output\<close> is \<open>zbus_txstart\<close>.
\<close>

definition zbus_process :: "(u8 list \<Rightarrow> u8 list) \<Rightarrow> zbus_state \<Rightarrow> zbus_state" where
  "zbus_process router_input s =
    (let recv_len = zbus_rxfinish s in
     if recv_len = 0 then s
     else let s = zbus_rxstart s;
              answer = router_input (take (unat recv_len) (zbus_buf s));
              s = s\<lparr>zbus_buf := memcpy_at 0 answer (zbus_buf s)\<rparr>
          in if answer = [] then uip_buf_unlock s
             else zbus_txstart (of_nat (length answer)) s)"

section \<open>Frames\<close>

definition quote :: "u8 \<Rightarrow> u8 list" where
  "quote b = (if b = ZBUS_ESC then [ZBUS_ESC, ZBUS_ESC] else [b])"

definition frame :: "u8 list \<Rightarrow> u8 list" where
  "frame data = [ZBUS_ESC, ZBUS_START] @ concat (map quote data) @ [ZBUS_ESC, ZBUS_STOP]"

lemma escapes [simp]: "ZBUS_START \<noteq> 0" "ZBUS_STOP \<noteq> 0" "ZBUS_ESC \<noteq> 0" "ZBUS_START \<noteq> ZBUS_STOP"
  "ZBUS_ESC \<noteq> ZBUS_START" "ZBUS_ESC \<noteq> ZBUS_STOP" "ZBUS_STOP \<noteq> ZBUS_START"
  by (simp_all add: ZBUS_START_def ZBUS_STOP_def ZBUS_ESC_def)

section \<open>Transmission\<close>

text \<open>One byte of the buffer takes as many interrupts as its quoted form has bytes.\<close>

lemma transmit_byte:
  assumes "send_escape_data s = 0" "zbus_index s < zbus_txlen s" "bus_blocked s = 3"
  defines "b \<equiv> zbus_buf s ! unat (zbus_index s)"
  shows "(USART_TX_vect ^^ length (quote b)) s =
    s\<lparr>zbus_index := zbus_index s + 1, line := line s @ quote b\<rparr>"
proof -
  have "zbus_txlen s \<noteq> 0" using assms(2) by auto
  then show ?thesis
    using assms by (simp add: quote_def USART_TX_vect_def put_def Let_def numeral_2_eq_2)
qed

lemma transmit_bytes:
  assumes "send_escape_data s = 0" "bus_blocked s = 3"
    and "unat (zbus_index s) + length data = unat (zbus_txlen s)"
    and "data = drop (unat (zbus_index s)) (take (unat (zbus_txlen s)) (zbus_buf s))"
  shows "(USART_TX_vect ^^ length (concat (map quote data))) s =
    s\<lparr>zbus_index := zbus_txlen s, line := line s @ concat (map quote data)\<rparr>"
  using assms
proof (induction data arbitrary: s)
  case Nil
  then have "zbus_index s = zbus_txlen s" by (simp add: word_unat_eq_iff)
  then show ?case by simp
next
  case (Cons b data)
  let ?i = "unat (zbus_index s)"
  let ?s = "s\<lparr>zbus_index := zbus_index s + 1, line := line s @ quote b\<rparr>"
  have lt: "zbus_index s < zbus_txlen s"
    using Cons.prems(3) by (simp add: word_less_nat_alt)
  have inc: "unat (zbus_index s + 1) = Suc ?i"
  proof -
    have "unat (zbus_txlen s) < 65536" by (rule unat_u16_lt)
    moreover have "?i + 1 \<le> unat (zbus_txlen s)" using Cons.prems(3) by simp
    ultimately have "?i + 1 < 65536" by linarith
    then show ?thesis by (subst unat_inc_small) simp_all
  qed
  have "?i < length (take (unat (zbus_txlen s)) (zbus_buf s))"
    using Cons.prems(4) by (metis drop_all list.distinct(1) not_le)
  then have b: "zbus_buf s ! ?i = b" "data = drop (Suc ?i) (take (unat (zbus_txlen s)) (zbus_buf s))"
    using Cons.prems(4) by (auto simp: Cons_nth_drop_Suc [symmetric])
  have "(USART_TX_vect ^^ length (concat (map quote (b # data)))) s =
      (USART_TX_vect ^^ length (concat (map quote data))) ((USART_TX_vect ^^ length (quote b)) s)"
    by (simp add: add.commute [of "length (quote b)"] funpow_add)
  also have "(USART_TX_vect ^^ length (quote b)) s = ?s"
    using transmit_byte [OF Cons.prems(1) lt Cons.prems(2)] b(1) by simp
  also have "(USART_TX_vect ^^ length (concat (map quote data))) ?s =
      ?s\<lparr>zbus_index := zbus_txlen ?s, line := line ?s @ concat (map quote data)\<rparr>"
    using Cons.prems inc b(2) by (intro Cons.IH) simp_all
  finally show ?case by simp
qed


lemma zbus_transmits:
  assumes idle: "zbus_txlen s = 0" "zbus_rxlen s = 0" "bus_blocked s = 0" "\<not> other_tx s"
    and n: "n \<noteq> 0" "unat n \<le> length (zbus_buf s)"
  defines "data \<equiv> take (unat n) (zbus_buf s)"
  shows "(USART_TX_vect ^^ length (frame data)) (zbus_txstart n s) =
    s\<lparr>send_escape_data := 0, bus_blocked := 0, zbus_index := n, zbus_txlen := 0, zbus_rxlen := 0,
      uip_lock := 0, rx_on := True, tx_on := False, rxtx_pin := False, line := line s @ frame data\<rparr>"
proof -
  let ?q = "concat (map quote data)"
  define s1 where "s1 = zbus_txstart n s"
  have s1: "s1 = s\<lparr>zbus_index := 0, zbus_txlen := n, bus_blocked := 3, tx_on := True, rx_on := False,
      rxtx_pin := True, send_escape_data := ZBUS_START, line := line s @ [ZBUS_ESC]\<rparr>"
    using idle by (simp add: s1_def zbus_txstart_def zbus_txstart_line_def put_def Let_def)
  define s2 where "s2 = s1\<lparr>send_escape_data := 0, line := line s1 @ [ZBUS_START]\<rparr>"
  have step1: "USART_TX_vect s1 = s2"
    by (simp add: s1 s2_def USART_TX_vect_def put_def)
  define s3 where "s3 = s2\<lparr>zbus_index := n, line := line s2 @ ?q\<rparr>"
  have step2: "(USART_TX_vect ^^ length ?q) s2 = s3"
    using transmit_bytes [of s2 data] n by (simp add: s1 s2_def s3_def data_def)
  have step3: "(USART_TX_vect ^^ 3) s3 = s\<lparr>send_escape_data := 0, bus_blocked := 0, zbus_index := n,
      zbus_txlen := 0, zbus_rxlen := 0, uip_lock := 0, rx_on := True, tx_on := False,
      rxtx_pin := False, line := line s @ frame data\<rparr>"
    using idle n
    by (simp add: s1 s2_def s3_def USART_TX_vect_def put_def uip_buf_unlock_def zbus_rxstart_def
        numeral_3_eq_3 frame_def)
  have "length (frame data) = 3 + (length ?q + 1)" by (simp add: frame_def)
  then have "(USART_TX_vect ^^ length (frame data)) s1 =
      (USART_TX_vect ^^ 3) ((USART_TX_vect ^^ length ?q) (USART_TX_vect s1))"
    by (simp only: funpow_add o_apply) simp
  then show ?thesis
    unfolding s1_def [symmetric] step1 step2 step3 .
qed

section \<open>Reception\<close>

text \<open>
  What reaches a station: bytes, each possibly preceded by a tick of the 200 ms timer.  A byte is
  lost when the receiver is off.
\<close>

definition receive :: "bool \<times> u8 \<Rightarrow> zbus_state \<Rightarrow> zbus_state" where
  "receive = (\<lambda>(tick, b) s.
     let s = (if tick then zbus_core_periodic s else s)
     in if rx_on s then USART_RX_vect False b s else s)"

text \<open>A receiver inside a frame that has got its last byte or its start just now.\<close>

definition receiving :: "zbus_state \<Rightarrow> bool" where
  "receiving s \<longleftrightarrow> rx_on s \<and> zbus_txlen s = 0 \<and> zbus_rxlen s = 0 \<and> recv_escape_data s = 0 \<and>
     bus_blocked s = 3 \<and> length (zbus_buf s) < 65536"

lemma receive_plain:
  assumes "receiving s" "b \<noteq> ZBUS_ESC" "unat (zbus_index s) < length (zbus_buf s)"
  shows "receive (t, b) s =
    s\<lparr>zbus_buf := (zbus_buf s)[unat (zbus_index s) := b], zbus_index := zbus_index s + 1\<rparr>"
  using assms
  by (simp add: receiving_def receive_def zbus_core_periodic_def USART_RX_vect_def append_data_def
      Let_def)

lemma receive_escape:
  assumes "receiving s"
  shows "receive (t, ZBUS_ESC) s = s\<lparr>bus_blocked := (if t then 2 else 3), recv_escape_data := 1\<rparr>"
  using assms
  by (simp add: receiving_def receive_def zbus_core_periodic_def USART_RX_vect_def Let_def)

lemma receive_quoted:
  assumes "receiving s" "unat (zbus_index s) < length (zbus_buf s)"
  shows "receive (t', ZBUS_ESC) (receive (t, ZBUS_ESC) s) =
    s\<lparr>zbus_buf := (zbus_buf s)[unat (zbus_index s) := ZBUS_ESC], zbus_index := zbus_index s + 1\<rparr>"
  using assms unfolding receive_escape [OF assms(1)]
  by (simp add: receiving_def receive_def zbus_core_periodic_def USART_RX_vect_def append_data_def
      Let_def)

lemma receive_stop:
  assumes "receiving s"
  shows "receive (t', ZBUS_STOP) (receive (t, ZBUS_ESC) s) =
    s\<lparr>bus_blocked := 0, recv_escape_data := 0, rx_on := False, tx_on := False,
      zbus_rxlen := zbus_index s\<rparr>"
  using assms unfolding receive_escape [OF assms(1)]
  by (simp add: receiving_def receive_def zbus_core_periodic_def USART_RX_vect_def zbus_rxstop_def
      Let_def)


lemma receive_bytes:
  assumes "receiving s" "unat (zbus_index s) + length data \<le> length (zbus_buf s)"
    and "map snd evs = concat (map quote data)"
  shows "fold receive evs s = s\<lparr>zbus_buf := memcpy_at (unat (zbus_index s)) data (zbus_buf s),
    zbus_index := zbus_index s + of_nat (length data)\<rparr>"
  using assms
proof (induction data arbitrary: s evs)
  case (Cons b data)
  let ?i = "unat (zbus_index s)"
  let ?s = "s\<lparr>zbus_buf := (zbus_buf s)[?i := b], zbus_index := zbus_index s + 1\<rparr>"
  have i: "?i < length (zbus_buf s)" using Cons.prems(2) by simp
  have small: "?i + 1 < 65536" using Cons.prems(1) i by (simp add: receiving_def)
  then have inc: "unat (zbus_index s + 1) = Suc ?i" by (subst unat_inc_small) simp_all
  obtain evs1 evs2 where evs: "evs = evs1 @ evs2" "map snd evs1 = quote b"
    "map snd evs2 = concat (map quote data)"
    using Cons.prems(3) by (auto simp: map_eq_append_conv)
  have "fold receive evs1 s = ?s"
  proof (cases "b = ZBUS_ESC")
    case True
    then obtain t t' where "evs1 = [(t, ZBUS_ESC), (t', ZBUS_ESC)]"
      using evs(2) by (auto simp: quote_def map_eq_Cons_conv)
    then show ?thesis using receive_quoted [OF Cons.prems(1) i] True by simp
  next
    case False
    then obtain t where "evs1 = [(t, b)]" using evs(2) by (auto simp: quote_def map_eq_Cons_conv)
    then show ?thesis using receive_plain [OF Cons.prems(1) False i] by simp
  qed
  then have "fold receive evs s = fold receive evs2 ?s" by (simp add: evs(1))
  also have "\<dots> = ?s\<lparr>zbus_buf := memcpy_at (unat (zbus_index ?s)) data (zbus_buf ?s),
      zbus_index := zbus_index ?s + of_nat (length data)\<rparr>"
    using Cons.prems(1,2) evs(3) inc by (intro Cons.IH) (simp_all add: receiving_def)
  also have "memcpy_at (unat (zbus_index ?s)) data (zbus_buf ?s) = memcpy_at ?i (b # data) (zbus_buf s)"
    using i by (simp add: inc memcpy_at_Cons)
  finally show ?case by (simp add: add.assoc)
qed simp

text \<open>A whole frame, arriving at a station that waits for one.\<close>

definition waiting :: "zbus_state \<Rightarrow> bool" where
  "waiting s \<longleftrightarrow> rx_on s \<and> zbus_txlen s = 0 \<and> zbus_rxlen s = 0 \<and> recv_escape_data s = 0 \<and>
     uip_lock s = 0 \<and> length (zbus_buf s) < 65536"

lemma receive_start:
  assumes "waiting s"
  shows "receive (t', ZBUS_START) (receive (t, ZBUS_ESC) s) =
    s\<lparr>bus_blocked := 3, zbus_index := 0, uip_lock := 8\<rparr>"
  using assms
  by (simp add: waiting_def receive_def zbus_core_periodic_def USART_RX_vect_def uip_buf_lock_def Let_def)

lemma receive_frame:
  assumes s: "waiting s" and fits: "length data \<le> length (zbus_buf s)"
    and evs: "map snd evs = frame data"
  shows "fold receive evs s =
    s\<lparr>bus_blocked := 0, zbus_index := of_nat (length data), zbus_rxlen := of_nat (length data),
      zbus_buf := memcpy_at 0 data (zbus_buf s), uip_lock := 8, rx_on := False, tx_on := False\<rparr>"
proof -
  obtain t1 t2 evs' t3 t4 where e: "evs = [(t1, ZBUS_ESC), (t2, ZBUS_START)] @ evs' @
      [(t3, ZBUS_ESC), (t4, ZBUS_STOP)]" "map snd evs' = concat (map quote data)"
    using evs by (auto simp: frame_def map_eq_append_conv map_eq_Cons_conv)
  define s1 where "s1 = s\<lparr>bus_blocked := 3, zbus_index := 0, uip_lock := 8\<rparr>"
  have start: "receive (t2, ZBUS_START) (receive (t1, ZBUS_ESC) s) = s1"
    using receive_start [OF s] by (simp add: s1_def)
  have r1: "receiving s1" using s by (simp add: s1_def waiting_def receiving_def)
  define s2 where "s2 = s1\<lparr>zbus_buf := memcpy_at 0 data (zbus_buf s1), zbus_index := of_nat (length data)\<rparr>"
  have data: "fold receive evs' s1 = s2"
    using receive_bytes [OF r1 _ e(2)] fits by (simp add: s1_def s2_def)
  have r2: "receiving s2" using r1 fits by (simp add: s2_def receiving_def s1_def)
  have rec: "recv_escape_data s = 0" using s by (simp add: waiting_def)
  have "fold receive evs s = receive (t4, ZBUS_STOP) (receive (t3, ZBUS_ESC) s2)"
    by (simp add: e(1) start data)
  also have "\<dots> = s2\<lparr>bus_blocked := 0, recv_escape_data := 0, rx_on := False, tx_on := False,
      zbus_rxlen := zbus_index s2\<rparr>"
    by (rule receive_stop [OF r2])
  finally show ?thesis
    using rec by (simp add: s2_def s1_def)
qed


section \<open>Reachable states\<close>

inductive zbus_step :: "zbus_state \<Rightarrow> zbus_state \<Rightarrow> bool" where
  tx_interrupt: "zbus_step s (USART_TX_vect s)"
| rx_interrupt: "zbus_step s (USART_RX_vect err b s)"
| timer: "zbus_step s (zbus_core_periodic s)"
| send: "unat n \<le> length (zbus_buf s) \<Longrightarrow> zbus_step s (zbus_txstart n s)"
| main_loop: "(\<And>d. length (f d) \<le> length (zbus_buf s)) \<Longrightarrow> zbus_step s (zbus_process f s)"

inductive_cases zbus_stepE: "zbus_step s s'"

inductive zbus_reachable :: "zbus_state \<Rightarrow> zbus_state \<Rightarrow> bool" for s0 where
  init: "bus_blocked s0 = 0 \<Longrightarrow> zbus_reachable s0 (zbus_core_init s0)"
| step: "zbus_reachable s0 s \<Longrightarrow> zbus_step s s' \<Longrightarrow> zbus_reachable s0 s'"

text \<open>Indices stay inside the buffer, and the line is driven in one direction only.\<close>

definition zbus_inv :: "nat \<Rightarrow> zbus_state \<Rightarrow> bool" where
  "zbus_inv L s \<longleftrightarrow> length (zbus_buf s) = L \<and> unat (zbus_index s) \<le> L \<and> unat (zbus_txlen s) \<le> L \<and>
     unat (zbus_rxlen s) \<le> L \<and> bus_blocked s \<le> 3 \<and>
     \<not> (rx_on s \<and> tx_on s) \<and> (tx_on s \<longrightarrow> rxtx_pin s) \<and> (rx_on s \<longrightarrow> \<not> rxtx_pin s)"

named_theorems zbus_ops \<open>unfolding of the small operations\<close>

lemmas [zbus_ops] = put_def zbus_txstart_line_def zbus_rxstart_def zbus_rxstop_def
  uip_buf_unlock_def uip_buf_lock_def

lemma txstart_line_inv: "zbus_inv L s \<Longrightarrow> zbus_inv L (zbus_txstart_line s)"
  by (simp add: zbus_inv_def zbus_ops)

lemma rxstart_inv: "zbus_inv L s \<Longrightarrow> zbus_inv L (zbus_rxstart s)"
  by (simp add: zbus_inv_def zbus_ops)

lemma txstart_inv: "zbus_inv L s \<Longrightarrow> unat n \<le> L \<Longrightarrow> zbus_inv L (zbus_txstart n s)"
  unfolding zbus_txstart_def Let_def by (auto simp: zbus_inv_def zbus_ops)

lemma periodic_inv: "zbus_inv L s \<Longrightarrow> zbus_inv L (zbus_core_periodic s)"
proof -
  assume inv: "zbus_inv L s"
  have "bus_blocked s - 1 \<le> 3" if "bus_blocked s \<noteq> 0"
  proof -
    have "unat (bus_blocked s) \<noteq> 0" using that by (simp add: unat_eq_zero)
    moreover have "unat (bus_blocked s) \<le> 3" using inv by (simp add: zbus_inv_def word_le_nat_alt)
    ultimately have "unat (bus_blocked s - 1) \<le> 3" by (subst unat_sub_small) simp_all
    then show ?thesis by (simp add: word_le_nat_alt)
  qed
  then have "zbus_inv L (s\<lparr>bus_blocked := bus_blocked s - 1\<rparr>)" if "bus_blocked s \<noteq> 0"
    using inv that by (simp add: zbus_inv_def)
  then show ?thesis
    using inv txstart_line_inv [of L "s\<lparr>bus_blocked := bus_blocked s - 1\<rparr>"]
    by (auto simp: zbus_core_periodic_def Let_def)
qed

lemma index_inc:
  assumes "unat (i :: u16) < k" "k < 65536" shows "unat (i + 1) \<le> k"
  using assms by (subst unat_inc_small) simp_all

lemma tx_inv:
  assumes "zbus_inv L s" "L < 65536" shows "zbus_inv L (USART_TX_vect s)"
proof -
  have "unat (zbus_index s + 1) \<le> L" if "zbus_index s < zbus_txlen s"
  proof -
    have "unat (zbus_index s) < unat (zbus_txlen s)" using that by (simp add: word_less_nat_alt)
    then have "unat (zbus_index s) < L" using assms(1) by (simp add: zbus_inv_def)
    then show ?thesis using assms(2) by (rule index_inc)
  qed
  then show ?thesis
    using assms by (auto simp: USART_TX_vect_def zbus_inv_def zbus_ops Let_def)
qed

lemma append_inv:
  assumes "zbus_inv L s" "L < 65536" shows "zbus_inv L (append_data b s)"
proof -
  have "unat (zbus_index s) < L \<Longrightarrow> unat (zbus_index s + 1) \<le> L"
    using index_inc assms(2) by blast
  then show ?thesis using assms by (auto simp: append_data_def zbus_inv_def not_le)
qed

lemma rx_inv:
  assumes "zbus_inv L s" "L < 65536" shows "zbus_inv L (USART_RX_vect err b s)"
proof -
  have esc: "zbus_inv L (s\<lparr>recv_escape_data := r\<rparr>)" for r
    using assms(1) by (simp add: zbus_inv_def)
  have start: "zbus_inv L (s\<lparr>recv_escape_data := 0, uip_lock := 8, zbus_index := 0, bus_blocked := 3\<rparr>)"
    and stop: "zbus_inv L (s\<lparr>recv_escape_data := 0, rx_on := False, tx_on := False,
      zbus_rxlen := zbus_index s, bus_blocked := 0\<rparr>)" "zbus_inv L (s\<lparr>recv_escape_data := 0, bus_blocked := 0\<rparr>)"
    using assms(1) by (simp_all add: zbus_inv_def)
  show ?thesis
    using append_inv [OF assms] append_inv [OF esc assms(2)] esc start stop assms(1)
    by (simp add: USART_RX_vect_def Let_def uip_buf_lock_def zbus_rxstop_def txstart_line_inv)
qed

lemma process_inv:
  assumes "zbus_inv L s" "L < 65536" "\<And>d. length (f d) \<le> length (zbus_buf s)"
  shows "zbus_inv L (zbus_process f s)"
proof -
  let ?a = "f (take (unat (zbus_rxlen s)) (zbus_buf (zbus_rxstart s)))"
  let ?s = "(zbus_rxstart s)\<lparr>zbus_buf := memcpy_at 0 ?a (zbus_buf (zbus_rxstart s))\<rparr>"
  have buf: "zbus_buf (zbus_rxstart s) = zbus_buf s" by (simp add: zbus_rxstart_def)
  have L: "length ?a \<le> L" using assms by (simp add: zbus_inv_def)
  have inv: "zbus_inv L ?s"
    using rxstart_inv [OF assms(1)] assms(3) by (simp add: zbus_inv_def buf)
  have "unat (of_nat (length ?a) :: u16) \<le> L"
    using L assms(2) by (simp add: unsigned_of_nat take_bit_nat_eq_self)
  then have "zbus_inv L (zbus_txstart (of_nat (length ?a)) ?s)" using inv by (rule txstart_inv [rotated])
  moreover have "zbus_inv L (uip_buf_unlock ?s)" using inv by (simp add: zbus_inv_def zbus_ops)
  ultimately show ?thesis
    using assms(1) by (cases "?a = []") (simp_all add: zbus_process_def zbus_rxfinish_def Let_def)
qed

lemma zbus_step_inv:
  assumes "zbus_step s s'" "zbus_inv L s" "L < 65536"
  shows "zbus_inv L s'"
proof (rule zbus_stepE [OF assms(1)])
  fix n assume "s' = zbus_txstart n s" "unat n \<le> length (zbus_buf s)"
  moreover have "length (zbus_buf s) = L" using assms(2) by (simp add: zbus_inv_def)
  ultimately show ?thesis using txstart_inv [OF assms(2)] by simp
next
  fix f :: "u8 list \<Rightarrow> u8 list"
  assume "s' = zbus_process f s" "\<And>d. length (f d) \<le> length (zbus_buf s)"
  then show ?thesis using process_inv [OF assms(2,3)] by simp
qed (simp_all add: tx_inv rx_inv periodic_inv assms)

section \<open>Properties\<close>

text \<open>
  C0. A frame sent by one station is received by another: after \<open>zbus_txstart\<close> the transmit
  interrupt sends the buffer's first \<open>n\<close> bytes, quoted and delimited, in as many interrupts as the
  frame has bytes, then returns to reception with the buffer's lock released; a station waiting for
  a frame ends with exactly these bytes and their number, whatever bytes they are, also when its
  200 ms timer ticks between any two bytes.
\<close>

theorem zbus_roundtrip:
  assumes "zbus_txlen s = 0" "zbus_rxlen s = 0" "bus_blocked s = 0" "\<not> other_tx s"
    and "n \<noteq> 0" "unat n \<le> length (zbus_buf s)"
    and "waiting r" "unat n \<le> length (zbus_buf r)"
    and "line s' = line s @ map snd evs"
    and "s' = (USART_TX_vect ^^ length (frame (take (unat n) (zbus_buf s)))) (zbus_txstart n s)"
  shows "rx_on s' \<and> zbus_txlen s' = 0 \<and> uip_lock s' = 0 \<and>
    length (frame (take (unat n) (zbus_buf s))) \<le> 2 * unat n + 4 \<and>
    zbus_rxfinish (fold receive evs r) = n \<and>
    take (unat n) (zbus_buf (fold receive evs r)) = take (unat n) (zbus_buf s)"
proof -
  let ?data = "take (unat n) (zbus_buf s)"
  note sent = zbus_transmits [OF assms(1-6), folded assms(10)]
  have "map snd evs = frame ?data" using assms(9) sent by simp
  then have got: "fold receive evs r = r\<lparr>bus_blocked := 0, zbus_index := of_nat (length ?data),
      zbus_rxlen := of_nat (length ?data), zbus_buf := memcpy_at 0 ?data (zbus_buf r), uip_lock := 8,
      rx_on := False, tx_on := False\<rparr>"
    using receive_frame [OF assms(7), of ?data evs] assms(6,8) by simp
  have "length (concat (map quote d)) \<le> 2 * length d" for d
    by (induction d) (simp_all add: quote_def)
  from this [of ?data] have "length (frame ?data) \<le> 2 * unat n + 4"
    using assms(6) by (simp add: frame_def)
  then show ?thesis
    using sent got assms(6,8) take_memcpy_at_0 [of ?data "zbus_buf r"] by (simp add: zbus_rxfinish_def)
qed

definition station :: "u8 list \<Rightarrow> zbus_state" where
  "station buf = \<lparr>send_escape_data = 0, recv_escape_data = 0, bus_blocked = 0, zbus_index = 0,
     zbus_txlen = 0, zbus_rxlen = 0, zbus_buf = buf, uip_lock = 0, other_tx = False,
     rx_on = True, tx_on = False, rxtx_pin = False, line = []\<rparr>"

theorem zbus_roundtrip_witness:
  "take 3 (zbus_buf (fold receive (map (Pair True) [0x5C, 0x30, 1, 0x5C, 0x5C, 2, 0x5C, 0x31])
     (station (replicate 5 0)))) = [1, 0x5C, 2]"
proof -
  have frame: "frame [1, 0x5C, 2] = [0x5C, 0x30, 1, 0x5C, 0x5C, 2, 0x5C, 0x31]"
    by (simp add: frame_def quote_def ZBUS_ESC_def ZBUS_START_def ZBUS_STOP_def)
  let ?s = "station [1, 0x5C, 2]"
  let ?s' = "(USART_TX_vect ^^ length (frame (take (unat (3 :: u16)) (zbus_buf ?s)))) (zbus_txstart 3 ?s)"
  have "line ?s' = frame [1, 0x5C, 2]"
    using zbus_transmits [of ?s 3] by (simp add: station_def)
  then have "line ?s' = line ?s @ map snd (map (Pair True) [0x5C, 0x30, 1, 0x5C, 0x5C, 2, 0x5C, 0x31])"
    by (simp add: frame station_def)
  moreover have "waiting (station (replicate 5 0))" by (simp add: waiting_def station_def)
  ultimately show ?thesis
    using zbus_roundtrip [of ?s 3 "station (replicate 5 0)" ?s'
      "map (Pair True) [0x5C, 0x30, 1, 0x5C, 0x5C, 2, 0x5C, 0x31]"]
    by (simp add: station_def)
qed

text \<open>
  C33. Whatever interrupts, timer ticks, transmissions and main-loop rounds occur in whatever order,
  all indices and lengths stay within the shared buffer, so that no handler writes or reads outside
  it, the bus timeout stays at most 3, receiver and transmitter are never enabled together, and the
  direction pin follows the enabled one.
\<close>

theorem zbus_reachable_inv:
  assumes "zbus_reachable s0 s" "length (zbus_buf s0) < 65536"
  shows "zbus_inv (length (zbus_buf s0)) s"
  using assms(1)
proof induction
  case init
  then show ?case by (simp add: zbus_core_init_def zbus_rxstart_def zbus_inv_def)
next
  case (step s s')
  then show ?case using zbus_step_inv assms(2) by blast
qed

theorem zbus_reachable_inv_witness:
  "zbus_inv 5 (USART_RX_vect False 0x5C (zbus_core_init (station (replicate 5 0))))"
proof -
  have "zbus_reachable (station (replicate 5 0)) (USART_RX_vect False 0x5C (zbus_core_init (station (replicate 5 0))))"
    by (rule zbus_reachable.step [OF zbus_reachable.init zbus_step.rx_interrupt]) (simp add: station_def)
  from zbus_reachable_inv [OF this] show ?thesis by (simp add: station_def)
qed

text \<open>
  A frame without content makes a station deaf: its stop condition turns the receiver off with
  a received length of 0, so the main loop sees no frame and never turns it on again, the buffer
  stays locked, and neither the timer nor further traffic on the line changes anything.
\<close>

theorem zbus_empty_frame_deafens:
  assumes "waiting s" "map snd evs = frame []"
  shows "let s' = fold receive evs s in
    \<not> rx_on s' \<and> uip_lock s' = 8 \<and> zbus_rxfinish s' = 0 \<and>
    zbus_process f s' = s' \<and> zbus_core_periodic s' = s' \<and> fold receive later s' = s'"
proof -
  let ?s = "s\<lparr>bus_blocked := 0, zbus_index := 0, zbus_rxlen := 0, uip_lock := 8, rx_on := False,
    tx_on := False\<rparr>"
  have got: "fold receive evs s = ?s"
    using receive_frame [OF assms(1) _ assms(2)] by simp
  have stuck: "receive e ?s = ?s" for e
    by (cases e) (simp add: receive_def zbus_core_periodic_def Let_def)
  have "fold receive later ?s = ?s"
    by (induction later) (simp_all only: fold_simps stuck)
  then show ?thesis
    unfolding got by (simp add: zbus_rxfinish_def zbus_process_def zbus_core_periodic_def Let_def)
qed

theorem zbus_empty_frame_deafens_witness:
  "\<not> rx_on (fold receive (map (Pair False) (frame [])) (station [0, 0]))"
  using zbus_empty_frame_deafens [of "station [0, 0]" "map (Pair False) (frame [])" id "[]"]
  by (simp add: Let_def waiting_def station_def comp_def)


text \<open>
  A lost stop condition merges two frames: the start of the second frame fails to take the
  buffer's lock, which the receiver itself still holds, and although the source's comment says that
  the packet is ignored, its bytes are appended to those of the first frame.
\<close>

theorem zbus_lost_stop_merges:
  assumes "waiting s" "length d1 + length d2 \<le> length (zbus_buf s)"
  shows "let s' = fold receive (map (Pair False)
      ([ZBUS_ESC, ZBUS_START] @ concat (map quote d1) @ frame d2)) s in
    zbus_rxfinish s' = of_nat (length d1 + length d2) \<and>
    take (length d1 + length d2) (zbus_buf s') = d1 @ d2"
proof -
  let ?ev = "map (Pair False) :: u8 list \<Rightarrow> (bool \<times> u8) list"
  define s1 where "s1 = s\<lparr>bus_blocked := 3, zbus_index := 0, uip_lock := 8\<rparr>"
  have "receive (False, ZBUS_START) (receive (False, ZBUS_ESC) s) = s1"
    using receive_start [OF assms(1)] by (simp add: s1_def)
  then have e1: "fold receive (?ev [ZBUS_ESC, ZBUS_START]) s = s1" by simp
  have r1: "receiving s1" using assms(1) by (simp add: s1_def waiting_def receiving_def)
  define s2 where "s2 = s1\<lparr>zbus_buf := memcpy_at 0 d1 (zbus_buf s1), zbus_index := of_nat (length d1)\<rparr>"
  have e2: "fold receive (?ev (concat (map quote d1))) s1 = s2"
    using receive_bytes [OF r1, of d1 "?ev (concat (map quote d1))"] assms(2)
    by (simp add: s1_def s2_def comp_def)
  have r2: "receiving s2" using r1 assms(2) by (simp add: s2_def receiving_def s1_def)
  have "receive (False, ZBUS_START) (receive (False, ZBUS_ESC) s2) = s2"
    using r2 by (simp add: receiving_def receive_def USART_RX_vect_def uip_buf_lock_def s2_def s1_def)
  then have e3: "fold receive (?ev [ZBUS_ESC, ZBUS_START]) s2 = s2" by simp
  have small: "unat (of_nat (length d1) :: u16) = length d1"
    using assms by (simp add: waiting_def unsigned_of_nat take_bit_nat_eq_self)
  define s3 where "s3 = s2\<lparr>zbus_buf := memcpy_at (length d1) d2 (zbus_buf s2),
    zbus_index := of_nat (length d1) + of_nat (length d2)\<rparr>"
  have len: "length (zbus_buf s2) = length (zbus_buf s)"
    using assms(2) by (simp add: s2_def s1_def)
  have e4: "fold receive (?ev (concat (map quote d2))) s2 = s3"
    using receive_bytes [OF r2, of d2 "?ev (concat (map quote d2))"] assms(2) len small
    by (simp add: s2_def s3_def comp_def)
  have r3: "receiving s3" using r2 assms(2) len by (simp add: s3_def receiving_def)
  have e5: "fold receive (?ev [ZBUS_ESC, ZBUS_STOP]) s3 = s3\<lparr>bus_blocked := 0, recv_escape_data := 0,
      rx_on := False, tx_on := False, zbus_rxlen := zbus_index s3\<rparr>"
    using receive_stop [OF r3, of False False] by simp
  have "take (length d1 + length d2) (memcpy_at (length d1) d2 (memcpy_at 0 d1 (zbus_buf s))) = d1 @ d2"
    using assms(2) by (simp add: memcpy_at_def)
  then show ?thesis
    unfolding frame_def map_append fold_append o_apply e1 e2 e3 e4 e5 Let_def zbus_rxfinish_def
    by (simp add: s3_def s2_def s1_def)
qed

theorem zbus_lost_stop_merges_witness:
  "zbus_rxfinish (fold receive (map (Pair False) ([ZBUS_ESC, ZBUS_START] @ concat (map quote [1, 2]) @ frame [3]))
     (station (replicate 5 0))) = 3"
  using zbus_lost_stop_merges [of "station (replicate 5 0)" "[1, 2]" "[3]"]
  by (simp add: Let_def waiting_def station_def)

end
