(* ===== verification/Cast5_Sbox.thy ===== *)
theory Cast5_Sbox imports Prelude begin

text \<open>
  The substitution boxes of the CAST5 cipher (core/crypto/cast5-sbox.h), as compiled when
  \<open>BIG_ENDIAN\<close> is not defined: \<open>s1\<close> to \<open>s4\<close> hold the words of RFC 2144, \<open>s5\<close> to \<open>s8\<close>
  hold them with their bytes swapped.  The tables are lists of integers; \<open>pgm_read_dword\<close> reads
  an entry as a 32-bit word.
\<close>

definition pgm_read_dword :: "int list \<Rightarrow> u8 \<Rightarrow> u32" where
  "pgm_read_dword s x = word_of_int (s ! unat x)"

definition s1 :: "int list" where
  "s1 = [
    0x30fb40d4, 0x9fa0ff0b, 0x6beccd2f, 0x3f258c7a, 0x1e213f2f, 0x9c004dd3,
    0x6003e540, 0xcf9fc949, 0xbfd4af27, 0x88bbbdb5, 0xe2034090, 0x98d09675,
    0x6e63a0e0, 0x15c361d2, 0xc2e7661d, 0x22d4ff8e, 0x28683b6f, 0xc07fd059,
    0xff2379c8, 0x775f50e2, 0x43c340d3, 0xdf2f8656, 0x887ca41a, 0xa2d2bd2d,
    0xa1c9e0d6, 0x346c4819, 0x61b76d87, 0x22540f2f, 0x2abe32e1, 0xaa54166b,
    0x22568e3a, 0xa2d341d0, 0x66db40c8, 0xa784392f, 0x004dff2f, 0x2db9d2de,
    0x97943fac, 0x4a97c1d8, 0x527644b7, 0xb5f437a7, 0xb82cbaef, 0xd751d159,
    0x6ff7f0ed, 0x5a097a1f, 0x827b68d0, 0x90ecf52e, 0x22b0c054, 0xbc8e5935,
    0x4b6d2f7f, 0x50bb64a2, 0xd2664910, 0xbee5812d, 0xb7332290, 0xe93b159f,
    0xb48ee411, 0x4bff345d, 0xfd45c240, 0xad31973f, 0xc4f6d02e, 0x55fc8165,
    0xd5b1caad, 0xa1ac2dae, 0xa2d4b76d, 0xc19b0c50, 0x882240f2, 0x0c6e4f38,
    0xa4e4bfd7, 0x4f5ba272, 0x564c1d2f, 0xc59c5319, 0xb949e354, 0xb04669fe,
    0xb1b6ab8a, 0xc71358dd, 0x6385c545, 0x110f935d, 0x57538ad5, 0x6a390493,
    0xe63d37e0, 0x2a54f6b3, 0x3a787d5f, 0x6276a0b5, 0x19a6fcdf, 0x7a42206a,
    0x29f9d4d5, 0xf61b1891, 0xbb72275e, 0xaa508167, 0x38901091, 0xc6b505eb,
    0x84c7cb8c, 0x2ad75a0f, 0x874a1427, 0xa2d1936b, 0x2ad286af, 0xaa56d291,
    0xd7894360, 0x425c750d, 0x93b39e26, 0x187184c9, 0x6c00b32d, 0x73e2bb14,
    0xa0bebc3c, 0x54623779, 0x64459eab, 0x3f328b82, 0x7718cf82, 0x59a2cea6,
    0x04ee002e, 0x89fe78e6, 0x3fab0950, 0x325ff6c2, 0x81383f05, 0x6963c5c8,
    0x76cb5ad6, 0xd49974c9, 0xca180dcf, 0x380782d5, 0xc7fa5cf6, 0x8ac31511,
    0x35e79e13, 0x47da91d0, 0xf40f9086, 0xa7e2419e, 0x31366241, 0x051ef495,
    0xaa573b04, 0x4a805d8d, 0x548300d0, 0x00322a3c, 0xbf64cddf, 0xba57a68e,
    0x75c6372b, 0x50afd341, 0xa7c13275, 0x915a0bf5, 0x6b54bfab, 0x2b0b1426,
    0xab4cc9d7, 0x449ccd82, 0xf7fbf265, 0xab85c5f3, 0x1b55db94, 0xaad4e324,
    0xcfa4bd3f, 0x2deaa3e2, 0x9e204d02, 0xc8bd25ac, 0xeadf55b3, 0xd5bd9e98,
    0xe31231b2, 0x2ad5ad6c, 0x954329de, 0xadbe4528, 0xd8710f69, 0xaa51c90f,
    0xaa786bf6, 0x22513f1e, 0xaa51a79b, 0x2ad344cc, 0x7b5a41f0, 0xd37cfbad,
    0x1b069505, 0x41ece491, 0xb4c332e6, 0x032268d4, 0xc9600acc, 0xce387e6d,
    0xbf6bb16c, 0x6a70fb78, 0x0d03d9c9, 0xd4df39de, 0xe01063da, 0x4736f464,
    0x5ad328d8, 0xb347cc96, 0x75bb0fc3, 0x98511bfb, 0x4ffbcc35, 0xb58bcf6a,
    0xe11f0abc, 0xbfc5fe4a, 0xa70aec10, 0xac39570a, 0x3f04442f, 0x6188b153,
    0xe0397a2e, 0x5727cb79, 0x9ceb418f, 0x1cacd68d, 0x2ad37c96, 0x0175cb9d,
    0xc69dff09, 0xc75b65f0, 0xd9db40d8, 0xec0e7779, 0x4744ead4, 0xb11c3274,
    0xdd24cb9e, 0x7e1c54bd, 0xf01144f9, 0xd2240eb1, 0x9675b3fd, 0xa3ac3755,
    0xd47c27af, 0x51c85f4d, 0x56907596, 0xa5bb15e6, 0x580304f0, 0xca042cf1,
    0x011a37ea, 0x8dbfaadb, 0x35ba3e4a, 0x3526ffa0, 0xc37b4d09, 0xbc306ed9,
    0x98a52666, 0x5648f725, 0xff5e569d, 0x0ced63d0, 0x7c63b2cf, 0x700b45e1,
    0xd5ea50f1, 0x85a92872, 0xaf1fbda7, 0xd4234870, 0xa7870bf3, 0x2d3b4d79,
    0x42e04198, 0x0cd0ede7, 0x26470db8, 0xf881814c, 0x474d6ad7, 0x7c0c5e5c,
    0xd1231959, 0x381b7298, 0xf5d2f4db, 0xab838653, 0x6e2f1e23, 0x83719c9e,
    0xbd91e046, 0x9a56456e, 0xdc39200c, 0x20c8c571, 0x962bda1c, 0xe1e696ff,
    0xb141ab08, 0x7cca89b9, 0x1a69e783, 0x02cc4843, 0xa2f7c579, 0x429ef47d,
    0x427b169c, 0x5ac9f049, 0xdd8f0f00, 0x5c8165bf]"

definition s2 :: "int list" where
  "s2 = [
    0x1f201094, 0xef0ba75b, 0x69e3cf7e, 0x393f4380, 0xfe61cf7a, 0xeec5207a,
    0x55889c94, 0x72fc0651, 0xada7ef79, 0x4e1d7235, 0xd55a63ce, 0xde0436ba,
    0x99c430ef, 0x5f0c0794, 0x18dcdb7d, 0xa1d6eff3, 0xa0b52f7b, 0x59e83605,
    0xee15b094, 0xe9ffd909, 0xdc440086, 0xef944459, 0xba83ccb3, 0xe0c3cdfb,
    0xd1da4181, 0x3b092ab1, 0xf997f1c1, 0xa5e6cf7b, 0x01420ddb, 0xe4e7ef5b,
    0x25a1ff41, 0xe180f806, 0x1fc41080, 0x179bee7a, 0xd37ac6a9, 0xfe5830a4,
    0x98de8b7f, 0x77e83f4e, 0x79929269, 0x24fa9f7b, 0xe113c85b, 0xacc40083,
    0xd7503525, 0xf7ea615f, 0x62143154, 0x0d554b63, 0x5d681121, 0xc866c359,
    0x3d63cf73, 0xcee234c0, 0xd4d87e87, 0x5c672b21, 0x071f6181, 0x39f7627f,
    0x361e3084, 0xe4eb573b, 0x602f64a4, 0xd63acd9c, 0x1bbc4635, 0x9e81032d,
    0x2701f50c, 0x99847ab4, 0xa0e3df79, 0xba6cf38c, 0x10843094, 0x2537a95e,
    0xf46f6ffe, 0xa1ff3b1f, 0x208cfb6a, 0x8f458c74, 0xd9e0a227, 0x4ec73a34,
    0xfc884f69, 0x3e4de8df, 0xef0e0088, 0x3559648d, 0x8a45388c, 0x1d804366,
    0x721d9bfd, 0xa58684bb, 0xe8256333, 0x844e8212, 0x128d8098, 0xfed33fb4,
    0xce280ae1, 0x27e19ba5, 0xd5a6c252, 0xe49754bd, 0xc5d655dd, 0xeb667064,
    0x77840b4d, 0xa1b6a801, 0x84db26a9, 0xe0b56714, 0x21f043b7, 0xe5d05860,
    0x54f03084, 0x066ff472, 0xa31aa153, 0xdadc4755, 0xb5625dbf, 0x68561be6,
    0x83ca6b94, 0x2d6ed23b, 0xeccf01db, 0xa6d3d0ba, 0xb6803d5c, 0xaf77a709,
    0x33b4a34c, 0x397bc8d6, 0x5ee22b95, 0x5f0e5304, 0x81ed6f61, 0x20e74364,
    0xb45e1378, 0xde18639b, 0x881ca122, 0xb96726d1, 0x8049a7e8, 0x22b7da7b,
    0x5e552d25, 0x5272d237, 0x79d2951c, 0xc60d894c, 0x488cb402, 0x1ba4fe5b,
    0xa4b09f6b, 0x1ca815cf, 0xa20c3005, 0x8871df63, 0xb9de2fcb, 0x0cc6c9e9,
    0x0beeff53, 0xe3214517, 0xb4542835, 0x9f63293c, 0xee41e729, 0x6e1d2d7c,
    0x50045286, 0x1e6685f3, 0xf33401c6, 0x30a22c95, 0x31a70850, 0x60930f13,
    0x73f98417, 0xa1269859, 0xec645c44, 0x52c877a9, 0xcdff33a6, 0xa02b1741,
    0x7cbad9a2, 0x2180036f, 0x50d99c08, 0xcb3f4861, 0xc26bd765, 0x64a3f6ab,
    0x80342676, 0x25a75e7b, 0xe4e6d1fc, 0x20c710e6, 0xcdf0b680, 0x17844d3b,
    0x31eef84d, 0x7e0824e4, 0x2ccb49eb, 0x846a3bae, 0x8ff77888, 0xee5d60f6,
    0x7af75673, 0x2fdd5cdb, 0xa11631c1, 0x30f66f43, 0xb3faec54, 0x157fd7fa,
    0xef8579cc, 0xd152de58, 0xdb2ffd5e, 0x8f32ce19, 0x306af97a, 0x02f03ef8,
    0x99319ad5, 0xc242fa0f, 0xa7e3ebb0, 0xc68e4906, 0xb8da230c, 0x80823028,
    0xdcdef3c8, 0xd35fb171, 0x088a1bc8, 0xbec0c560, 0x61a3c9e8, 0xbca8f54d,
    0xc72feffa, 0x22822e99, 0x82c570b4, 0xd8d94e89, 0x8b1c34bc, 0x301e16e6,
    0x273be979, 0xb0ffeaa6, 0x61d9b8c6, 0x00b24869, 0xb7ffce3f, 0x08dc283b,
    0x43daf65a, 0xf7e19798, 0x7619b72f, 0x8f1c9ba4, 0xdc8637a0, 0x16a7d3b1,
    0x9fc393b7, 0xa7136eeb, 0xc6bcc63e, 0x1a513742, 0xef6828bc, 0x520365d6,
    0x2d6a77ab, 0x3527ed4b, 0x821fd216, 0x095c6e2e, 0xdb92f2fb, 0x5eea29cb,
    0x145892f5, 0x91584f7f, 0x5483697b, 0x2667a8cc, 0x85196048, 0x8c4bacea,
    0x833860d4, 0x0d23e0f9, 0x6c387e8a, 0x0ae6d249, 0xb284600c, 0xd835731d,
    0xdcb1c647, 0xac4c56ea, 0x3ebd81b3, 0x230eabb0, 0x6438bc87, 0xf0b5b1fa,
    0x8f5ea2b3, 0xfc184642, 0x0a036b7a, 0x4fb089bd, 0x649da589, 0xa345415e,
    0x5c038323, 0x3e5d3bb9, 0x43d79572, 0x7e6dd07c, 0x06dfdf1e, 0x6c6cc4ef,
    0x7160a539, 0x73bfbe70, 0x83877605, 0x4523ecf1]"

definition s3 :: "int list" where
  "s3 = [
    0x8defc240, 0x25fa5d9f, 0xeb903dbf, 0xe810c907, 0x47607fff, 0x369fe44b,
    0x8c1fc644, 0xaececa90, 0xbeb1f9bf, 0xeefbcaea, 0xe8cf1950, 0x51df07ae,
    0x920e8806, 0xf0ad0548, 0xe13c8d83, 0x927010d5, 0x11107d9f, 0x07647db9,
    0xb2e3e4d4, 0x3d4f285e, 0xb9afa820, 0xfade82e0, 0xa067268b, 0x8272792e,
    0x553fb2c0, 0x489ae22b, 0xd4ef9794, 0x125e3fbc, 0x21fffcee, 0x825b1bfd,
    0x9255c5ed, 0x1257a240, 0x4e1a8302, 0xbae07fff, 0x528246e7, 0x8e57140e,
    0x3373f7bf, 0x8c9f8188, 0xa6fc4ee8, 0xc982b5a5, 0xa8c01db7, 0x579fc264,
    0x67094f31, 0xf2bd3f5f, 0x40fff7c1, 0x1fb78dfc, 0x8e6bd2c1, 0x437be59b,
    0x99b03dbf, 0xb5dbc64b, 0x638dc0e6, 0x55819d99, 0xa197c81c, 0x4a012d6e,
    0xc5884a28, 0xccc36f71, 0xb843c213, 0x6c0743f1, 0x8309893c, 0x0feddd5f,
    0x2f7fe850, 0xd7c07f7e, 0x02507fbf, 0x5afb9a04, 0xa747d2d0, 0x1651192e,
    0xaf70bf3e, 0x58c31380, 0x5f98302e, 0x727cc3c4, 0x0a0fb402, 0x0f7fef82,
    0x8c96fdad, 0x5d2c2aae, 0x8ee99a49, 0x50da88b8, 0x8427f4a0, 0x1eac5790,
    0x796fb449, 0x8252dc15, 0xefbd7d9b, 0xa672597d, 0xada840d8, 0x45f54504,
    0xfa5d7403, 0xe83ec305, 0x4f91751a, 0x925669c2, 0x23efe941, 0xa903f12e,
    0x60270df2, 0x0276e4b6, 0x94fd6574, 0x927985b2, 0x8276dbcb, 0x02778176,
    0xf8af918d, 0x4e48f79e, 0x8f616ddf, 0xe29d840e, 0x842f7d83, 0x340ce5c8,
    0x96bbb682, 0x93b4b148, 0xef303cab, 0x984faf28, 0x779faf9b, 0x92dc560d,
    0x224d1e20, 0x8437aa88, 0x7d29dc96, 0x2756d3dc, 0x8b907cee, 0xb51fd240,
    0xe7c07ce3, 0xe566b4a1, 0xc3e9615e, 0x3cf8209d, 0x6094d1e3, 0xcd9ca341,
    0x5c76460e, 0x00ea983b, 0xd4d67881, 0xfd47572c, 0xf76cedd9, 0xbda8229c,
    0x127dadaa, 0x438a074e, 0x1f97c090, 0x081bdb8a, 0x93a07ebe, 0xb938ca15,
    0x97b03cff, 0x3dc2c0f8, 0x8d1ab2ec, 0x64380e51, 0x68cc7bfb, 0xd90f2788,
    0x12490181, 0x5de5ffd4, 0xdd7ef86a, 0x76a2e214, 0xb9a40368, 0x925d958f,
    0x4b39fffa, 0xba39aee9, 0xa4ffd30b, 0xfaf7933b, 0x6d498623, 0x193cbcfa,
    0x27627545, 0x825cf47a, 0x61bd8ba0, 0xd11e42d1, 0xcead04f4, 0x127ea392,
    0x10428db7, 0x8272a972, 0x9270c4a8, 0x127de50b, 0x285ba1c8, 0x3c62f44f,
    0x35c0eaa5, 0xe805d231, 0x428929fb, 0xb4fcdf82, 0x4fb66a53, 0x0e7dc15b,
    0x1f081fab, 0x108618ae, 0xfcfd086d, 0xf9ff2889, 0x694bcc11, 0x236a5cae,
    0x12deca4d, 0x2c3f8cc5, 0xd2d02dfe, 0xf8ef5896, 0xe4cf52da, 0x95155b67,
    0x494a488c, 0xb9b6a80c, 0x5c8f82bc, 0x89d36b45, 0x3a609437, 0xec00c9a9,
    0x44715253, 0x0a874b49, 0xd773bc40, 0x7c34671c, 0x02717ef6, 0x4feb5536,
    0xa2d02fff, 0xd2bf60c4, 0xd43f03c0, 0x50b4ef6d, 0x07478cd1, 0x006e1888,
    0xa2e53f55, 0xb9e6d4bc, 0xa2048016, 0x97573833, 0xd7207d67, 0xde0f8f3d,
    0x72f87b33, 0xabcc4f33, 0x7688c55d, 0x7b00a6b0, 0x947b0001, 0x570075d2,
    0xf9bb88f8, 0x8942019e, 0x4264a5ff, 0x856302e0, 0x72dbd92b, 0xee971b69,
    0x6ea22fde, 0x5f08ae2b, 0xaf7a616d, 0xe5c98767, 0xcf1febd2, 0x61efc8c2,
    0xf1ac2571, 0xcc8239c2, 0x67214cb8, 0xb1e583d1, 0xb7dc3e62, 0x7f10bdce,
    0xf90a5c38, 0x0ff0443d, 0x606e6dc6, 0x60543a49, 0x5727c148, 0x2be98a1d,
    0x8ab41738, 0x20e1be24, 0xaf96da0f, 0x68458425, 0x99833be5, 0x600d457d,
    0x282f9350, 0x8334b362, 0xd91d1120, 0x2b6d8da0, 0x642b1e31, 0x9c305a00,
    0x52bce688, 0x1b03588a, 0xf7baefd5, 0x4142ed9c, 0xa4315c11, 0x83323ec5,
    0xdfef4636, 0xa133c501, 0xe9d3531c, 0xee353783]"

definition s4 :: "int list" where
  "s4 = [
    0x9db30420, 0x1fb6e9de, 0xa7be7bef, 0xd273a298, 0x4a4f7bdb, 0x64ad8c57,
    0x85510443, 0xfa020ed1, 0x7e287aff, 0xe60fb663, 0x095f35a1, 0x79ebf120,
    0xfd059d43, 0x6497b7b1, 0xf3641f63, 0x241e4adf, 0x28147f5f, 0x4fa2b8cd,
    0xc9430040, 0x0cc32220, 0xfdd30b30, 0xc0a5374f, 0x1d2d00d9, 0x24147b15,
    0xee4d111a, 0x0fca5167, 0x71ff904c, 0x2d195ffe, 0x1a05645f, 0x0c13fefe,
    0x081b08ca, 0x05170121, 0x80530100, 0xe83e5efe, 0xac9af4f8, 0x7fe72701,
    0xd2b8ee5f, 0x06df4261, 0xbb9e9b8a, 0x7293ea25, 0xce84ffdf, 0xf5718801,
    0x3dd64b04, 0xa26f263b, 0x7ed48400, 0x547eebe6, 0x446d4ca0, 0x6cf3d6f5,
    0x2649abdf, 0xaea0c7f5, 0x36338cc1, 0x503f7e93, 0xd3772061, 0x11b638e1,
    0x72500e03, 0xf80eb2bb, 0xabe0502e, 0xec8d77de, 0x57971e81, 0xe14f6746,
    0xc9335400, 0x6920318f, 0x081dbb99, 0xffc304a5, 0x4d351805, 0x7f3d5ce3,
    0xa6c866c6, 0x5d5bcca9, 0xdaec6fea, 0x9f926f91, 0x9f46222f, 0x3991467d,
    0xa5bf6d8e, 0x1143c44f, 0x43958302, 0xd0214eeb, 0x022083b8, 0x3fb6180c,
    0x18f8931e, 0x281658e6, 0x26486e3e, 0x8bd78a70, 0x7477e4c1, 0xb506e07c,
    0xf32d0a25, 0x79098b02, 0xe4eabb81, 0x28123b23, 0x69dead38, 0x1574ca16,
    0xdf871b62, 0x211c40b7, 0xa51a9ef9, 0x0014377b, 0x041e8ac8, 0x09114003,
    0xbd59e4d2, 0xe3d156d5, 0x4fe876d5, 0x2f91a340, 0x557be8de, 0x00eae4a7,
    0x0ce5c2ec, 0x4db4bba6, 0xe756bdff, 0xdd3369ac, 0xec17b035, 0x06572327,
    0x99afc8b0, 0x56c8c391, 0x6b65811c, 0x5e146119, 0x6e85cb75, 0xbe07c002,
    0xc2325577, 0x893ff4ec, 0x5bbfc92d, 0xd0ec3b25, 0xb7801ab7, 0x8d6d3b24,
    0x20c763ef, 0xc366a5fc, 0x9c382880, 0x0ace3205, 0xaac9548a, 0xeca1d7c7,
    0x041afa32, 0x1d16625a, 0x6701902c, 0x9b757a54, 0x31d477f7, 0x9126b031,
    0x36cc6fdb, 0xc70b8b46, 0xd9e66a48, 0x56e55a79, 0x026a4ceb, 0x52437eff,
    0x2f8f76b4, 0x0df980a5, 0x8674cde3, 0xedda04eb, 0x17a9be04, 0x2c18f4df,
    0xb7747f9d, 0xab2af7b4, 0xefc34d20, 0x2e096b7c, 0x1741a254, 0xe5b6a035,
    0x213d42f6, 0x2c1c7c26, 0x61c2f50f, 0x6552daf9, 0xd2c231f8, 0x25130f69,
    0xd8167fa2, 0x0418f2c8, 0x001a96a6, 0x0d1526ab, 0x63315c21, 0x5e0a72ec,
    0x49bafefd, 0x187908d9, 0x8d0dbd86, 0x311170a7, 0x3e9b640c, 0xcc3e10d7,
    0xd5cad3b6, 0x0caec388, 0xf73001e1, 0x6c728aff, 0x71eae2a1, 0x1f9af36e,
    0xcfcbd12f, 0xc1de8417, 0xac07be6b, 0xcb44a1d8, 0x8b9b0f56, 0x013988c3,
    0xb1c52fca, 0xb4be31cd, 0xd8782806, 0x12a3a4e2, 0x6f7de532, 0x58fd7eb6,
    0xd01ee900, 0x24adffc2, 0xf4990fc5, 0x9711aac5, 0x001d7b95, 0x82e5e7d2,
    0x109873f6, 0x00613096, 0xc32d9521, 0xada121ff, 0x29908415, 0x7fbb977f,
    0xaf9eb3db, 0x29c9ed2a, 0x5ce2a465, 0xa730f32c, 0xd0aa3fe8, 0x8a5cc091,
    0xd49e2ce7, 0x0ce454a9, 0xd60acd86, 0x015f1919, 0x77079103, 0xdea03af6,
    0x78a8565e, 0xdee356df, 0x21f05cbe, 0x8b75e387, 0xb3c50651, 0xb8a5c3ef,
    0xd8eeb6d2, 0xe523be77, 0xc2154529, 0x2f69efdf, 0xafe67afb, 0xf470c4b2,
    0xf3e0eb5b, 0xd6cc9876, 0x39e4460c, 0x1fda8538, 0x1987832f, 0xca007367,
    0xa99144f8, 0x296b299e, 0x492fc295, 0x9266beab, 0xb5676e69, 0x9bd3ddda,
    0xdf7e052f, 0xdb25701c, 0x1b5e51ee, 0xf65324e6, 0x6afce36c, 0x0316cc04,
    0x8644213e, 0xb7dc59d0, 0x7965291f, 0xccd6fd43, 0x41823979, 0x932bcdf6,
    0xb657c34d, 0x4edfd282, 0x7ae5290c, 0x3cb9536b, 0x851e20fe, 0x9833557e,
    0x13ecf0b0, 0xd3ffb372, 0x3f85c5c1, 0x0aef7ed2]"

definition s5 :: "int list" where
  "s5 = [
    0x040cc97e, 0xb9746e2c, 0xdf660e9b, 0x117933a6, 0xff7f6ab8, 0xf558d31d,
    0x449ddd44, 0x7f163117, 0xfaf1fb08, 0xcc11f5e7, 0x001b05d2, 0x00ba5a73,
    0xd822b72a, 0xcb816338, 0x3a24f6ac, 0x7afdbe69, 0x7fe7a2e6, 0xcd20c7f0,
    0x164849c4, 0x80c1f5cc, 0x40168538, 0x48a8b015, 0xcb188be6, 0xffdeaa4c,
    0x010a485f, 0xaab21204, 0xfc149825, 0xe2efd041, 0x8db4404e, 0xfbb68e24,
    0xfe1cba8d, 0x029ba941, 0x040a551a, 0xcb658fba, 0xe7f45172, 0x2517a595,
    0xd7ec06c1, 0x0a98a597, 0xaab939c5, 0x6afe794d, 0x63f7f3f2, 0x4080af68,
    0x569e0ced, 0x8b95b411, 0x885aebe1, 0xb0e60987, 0x5671e0d7, 0xa7fe294e,
    0x2de56663, 0x00c0d102, 0x058eacc4, 0x71f57793, 0x2a37050c, 0xf2358557,
    0x02be6122, 0xc9a042d6, 0x80a213df, 0xd25bb574, 0xc0992168, 0xece521d4,
    0xe83cfb53, 0xb3edadc8, 0xc97fa828, 0x8199953d, 0x00f91f5c, 0x99d338fe,
    0x0bff4e0c, 0xea072406, 0xb14f2faa, 0x7669b94f, 0x0595c790, 0x74a7a8b0,
    0xffa155ef, 0xc2a29ce5, 0x272db6a6, 0x63426ae6, 0x1f0065df, 0x6609c50e,
    0xbc55dddf, 0x5506de29, 0x9a731e91, 0x7589af17, 0x1c91c732, 0x6894f889,
    0x80e9010d, 0xf4554752, 0xc93cb603, 0xb244c80c, 0xaaf0f3bc, 0xe936ac87,
    0x26743ae5, 0x2bd8b301, 0x49749e1a, 0x7e2dee64, 0xdab1dbcd, 0x1049c901,
    0x80bf68b8, 0xfdf3260d, 0xe7ed4293, 0x84c2a504, 0xb6376763, 0x16b6f550,
    0xe36647f2, 0xc136ca8e, 0xdb056e13, 0x9183f1fe, 0x377a88fb, 0xd4f7e7d6,
    0xc97dfbc7, 0xdffc6330, 0xde89f5b6, 0xda4129ec, 0x9566e426, 0x196456b7,
    0xc5ef54f6, 0xb7588dd0, 0x01549248, 0x7fcbbac1, 0x0f55ffe5, 0x493008b6,
    0xe8d0b55b, 0x5a2ed787, 0xe16e6aab, 0xce663a22, 0xcdf32bc6, 0xf985089e,
    0x473ecb68, 0x0f016c08, 0x20e81da2, 0xde698bd1, 0x7757f6f3, 0xf6c302fa,
    0xc3da7e40, 0x50d5b3cb, 0x4d089317, 0xba0ed7b0, 0xd578b30a, 0x0cfb51d9,
    0x56dad7de, 0xe4bb2441, 0x560bca94, 0xd155570f, 0x6ee5e1e0, 0xbeb58461,
    0x9f240a58, 0xc04bf794, 0x8e8827e3, 0x61557b9f, 0x8002dcc3, 0x15776805,
    0xd76b6c64, 0xb34d9044, 0xa3f0b466, 0x8a64f1c0, 0xafd57e69, 0xf62fe949,
    0x4f379e30, 0x6a35b62c, 0x73858085, 0x40f89149, 0x02aef076, 0x4de83b08,
    0x9a1c4228, 0x06944844, 0xb84c6e73, 0x102909c1, 0xc65fc98b, 0xf49c867d,
    0x6f614f13, 0x8d11772e, 0xe12b1bb3, 0x72b490aa, 0x17d7a53c, 0xba1b167d,
    0x1090ad9c, 0xa22b46af, 0xd259e49f, 0x5945d345, 0x13daf2d9, 0x8754c6db,
    0x4ef9e4f3, 0x6f486d17, 0xea137c09, 0xc7a51d63, 0x82735f44, 0xf4835617,
    0x976ac6cd, 0x8802be70, 0x72cfcdb3, 0xf3d25d6e, 0x79609320, 0xa5809b45,
    0xdbe260be, 0x0131c2a9, 0x5c31a5eb, 0xf2424e22, 0x72155c1c, 0x2c1b72f6,
    0xf3ffd21a, 0x4e40258c, 0x2fd74e32, 0xfdb76740, 0x8e132305, 0x78bca35c,
    0x6ed60fdc, 0x83229275, 0x176b4d78, 0x6eb1eb58, 0x854f0944, 0x871d483f,
    0x7baefefc, 0x76ffb577, 0xbf02238c, 0x5675f4aa, 0x2ab0465f, 0x0128092b,
    0xf7f5383d, 0x361fa80c, 0x8a4aaf52, 0xc0e7d566, 0x74083bdf, 0x10510595,
    0xa8d75a1b, 0xadd51ef6, 0x79e4f66c, 0x84817520, 0x65faced0, 0x58bef788,
    0x2668044a, 0xf3f8f60f, 0x707f9ca0, 0xa0ab4653, 0x286ce95c, 0xa3ed76e1,
    0x7f30ac6b, 0xd2296837, 0xa90f3685, 0x2afee317, 0x6797b724, 0x206ba9f5,
    0x9525cdd6, 0xbf1eff68, 0x2c445575, 0xbe069ff1, 0x9a65e0f9, 0x1d49b9ee,
    0x18070134, 0xb8ca30bb, 0x15fe22e8, 0x83095788, 0x49620e75, 0x557e62da,
    0xa8ff765e, 0x464553b1, 0x08de476d, 0xd4e7e9ef]"

definition s6 :: "int list" where
  "s6 = [
    0x9d8ffaf6, 0xe16cac2c, 0x6748a34c, 0x7c7f33e2, 0xe708db95, 0xb4436801,
    0xbc5cedec, 0xac535532, 0x60099fbf, 0xede2a1df, 0x9d57f083, 0xb986ed63,
    0xb8a6b61a, 0x39be5ede, 0x32f78ff3, 0x38b18989, 0x6149f133, 0xbd3719c0,
    0xdac606f5, 0x7e5e62e4, 0x99ea08a3, 0x3ce3234e, 0xccd7cb79, 0x6743a148,
    0x199614a3, 0xd54bc9fe, 0x4a1714a1, 0x6618a0ea, 0x2ddb84a0, 0x6f48a809,
    0x4a6188a8, 0x98af0029, 0x91596601, 0x632899e1, 0x600cf3c8, 0x3cef782e,
    0x3219d5d0, 0x14ec0fcf, 0xd207caf7, 0x7220a8d0, 0x7e1941fd, 0xb0a60593,
    0xdae36be8, 0xcdd3be74, 0x3ca52d37, 0x48447f4c, 0x40d4b5da, 0xc30eba6d,
    0xa7193908, 0xd9eeba9f, 0xb0cfdb49, 0x530c674e, 0x019c3d5c, 0x41b9bd64,
    0x6a630e2c, 0xcdd97dba, 0x88736fea, 0x62c70be7, 0xdb9af235, 0x8ddd4c5c,
    0x8c8dd4f0, 0xe25381b8, 0x6698a108, 0xc8eae21a, 0x89af4c28, 0x238292aa,
    0x53be3493, 0xbf213a3b, 0xe34b4316, 0x0639ea9a, 0x6ec3e8ef, 0xd9cd90f8,
    0xae6d2280, 0xa3a440c3, 0x099c7edf, 0x07a894a6, 0xcc5e7c5b, 0xa6b31d22,
    0x2fa0699a, 0x548a8168, 0x6f29b2ce, 0x3a84c053, 0x553689fe, 0x8ae6bf25,
    0xbc8a62b4, 0xbf2e22cf, 0x486fac25, 0x8793a9a9, 0x65dbbd53, 0xe7fb6fe7,
    0x78fd67e9, 0x6335a90b, 0xc12b348e, 0xe91ba1e8, 0x0d748049, 0xfc7d08c8,
    0x99bfe48d, 0xa00111a1, 0x7579d37f, 0xc0265ada, 0x4f991fe8, 0x89cd2895,
    0xed9f33fd, 0xbf3478b8, 0x6d45045f, 0x98862522, 0x3bc8c4c9, 0xbe56c12d,
    0xaa8d624f, 0xc55ef557, 0xbe0a22e2, 0xbf6e91d2, 0x955bc74e, 0xc0c3f224,
    0x995dd142, 0xa07f0dcd, 0xff276e7b, 0xf08adca8, 0x06c14573, 0x2f231ef4,
    0x86231635, 0x2689eae6, 0x94b03333, 0xf2c67e15, 0xaf742b37, 0xe4732569,
    0x48d8a9e9, 0x890216f3, 0x1def623a, 0x38e287a7, 0x76f6a5f3, 0x53483674,
    0x63109520, 0x8d697645, 0x07d4fab6, 0x50f92a59, 0x2335f736, 0x876efb4c,
    0xc0cea47d, 0xaa2d156c, 0xa89603cb, 0x5dfe0dc5, 0xab07d7fc, 0x2fc42109,
    0xbbf0df89, 0x78bee25f, 0x334f8f44, 0xc9134675, 0x8dd0052b, 0x85d5b948,
    0x419404dc, 0x9b8f09c8, 0x86e7ed7d, 0x73339ac3, 0x05004142, 0x5117096a,
    0xa6c8f30e, 0xd6720089, 0x82762028, 0xbef7a9a9, 0x9d6732bf, 0x755b5bd4,
    0x00fd53b3, 0x58e3b0cb, 0x0a220f83, 0x14b28f1f, 0x08cf72d3, 0x134a3ccc,
    0x6631f68c, 0xbe871c06, 0x888fc988, 0x97e36260, 0x7a8ecf47, 0x8352c8b6,
    0xfbacc23c, 0x7669c03f, 0x52028f4e, 0x4d31d864, 0xe37038da, 0x5954661e,
    0xf00809c1, 0xa5213051, 0xb7685b6c, 0xa08a2f82, 0x3ecd0730, 0xef9e7174,
    0x812687dc, 0xd4403307, 0xd92f437e, 0x41c25e0c, 0x6c280988, 0x91d892f5,
    0xf630a908, 0x05f37e95, 0xbdfffbb7, 0x6fe966c2, 0x98ace46f, 0xc0ec73b1,
    0x2ab460bc, 0xda983495, 0x12aea1fb, 0x36d74b2d, 0xabfa250f, 0xebfcf3a4,
    0x239196e2, 0x3d0c7f25, 0x49af4893, 0xbc001436, 0x4a6f81e8, 0x00f21438,
    0x4340f9a3, 0xc2547a9c, 0x574f70bc, 0xf9e741da, 0x3ad35ac2, 0x84a0f454,
    0x05557fb1, 0xbe7c3559, 0xc815bded, 0xabc5977f, 0xb5c75aba, 0xafdef6b6,
    0x3a9c473a, 0x25da0253, 0x6a7e3d65, 0x498d2654, 0xea77a451, 0x5bd51750,
    0x885dd2d7, 0x766c1344, 0xc8a80404, 0x21a1e5b8, 0x8a921ab8, 0x6958ed60,
    0x965bc597, 0x1b99ecea, 0x13599329, 0xf1b7fd01, 0xfa8d8e08, 0xf5f6b69a,
    0x9fbf4c3b, 0xabe35d4a, 0x351d05e6, 0x55d8e1a0, 0xf14c6bd3, 0xebed44f5,
    0x2435e9b0, 0xbd8fbbbe, 0xcf62d7a2, 0x542fc949, 0x31f3b538, 0x54a42871,
    0x05293948, 0xb81d5ba6, 0xbd971c85, 0x2fcf75d6]"

definition s7 :: "int list" where
  "s7 = [
    0x1940e085, 0x67f52b33, 0xffbf2d66, 0x9356c6cf, 0x6f7f8d2a, 0x12c99bab,
    0xa10860de, 0x1fda2820, 0xe7bc2702, 0x1629644d, 0x00c3fa18, 0x828bf150,
    0x11cbb22c, 0x5ce732b2, 0xf295364b, 0xde0787b2, 0xf6bc5fa0, 0xe98141cd,
    0x0c2150e1, 0xbdf14ee2, 0x81c368b1, 0x89e7e4fd, 0xd8b0795c, 0x43fd8b1e,
    0x0150494d, 0x4143be38, 0x1dee3c91, 0x3f9ca792, 0xbe669708, 0xf4adeeba,
    0xcfbe8612, 0x19cbeab6, 0x00c26026, 0xe4bd6575, 0x7a1f2464, 0xa9dc4882,
    0x66adb3c3, 0x86601328, 0xa8dfd80b, 0xf21c6d35, 0xbe897710, 0xcee9b2b3,
    0x8faa0205, 0x1e35c00b, 0x2af56b16, 0x82ff12eb, 0x116948e3, 0x16754dd3,
    0xff3a7b4e, 0x1b67435f, 0x37e0f69c, 0x83ac8149, 0xce664233, 0xb741938c,
    0xc054d8d0, 0x886c3acb, 0x2928bc47, 0x37ba2547, 0x2bd26aa6, 0x1e1fd67a,
    0xfaba5c0c, 0x07f13744, 0x6299e7b6, 0x16d8d242, 0x8812960a, 0x6ec0a5e1,
    0x679e7413, 0x1a08fc72, 0xf739d1b1, 0x453758f9, 0x58df19cf, 0x56f7c3be,
    0x30ba6ec0, 0x241b2107, 0x2988c245, 0x7f315ec9, 0x11c58ebc, 0xe946bc38,
    0x14fae6c6, 0x4a58e8ba, 0x46bc4ead, 0x8b508f46, 0x5f432978, 0x3b1824f1,
    0x9fba1d82, 0xf40ff6af, 0x6d4e2cea, 0x6492e316, 0x8b4a5492, 0xc34f9b00,
    0xed8ca6ab, 0x786fc99a, 0x9ab7a506, 0x6e6e85b2, 0xa93cec1a, 0x888683be,
    0xe904080e, 0x56bef155, 0x3b36e5e7, 0x5df2a1b3, 0x85bbdef7, 0x3c03fe61,
    0x33627416, 0x284c033c, 0x740c6dda, 0x6cc5aa79, 0xade1e43c, 0x02c8f051,
    0x5af3f898, 0x9fa42616, 0x292bd8ee, 0xe32f381d, 0x9ab94f0c, 0x785732bb,
    0x7bd9c63e, 0xa9a6776e, 0x5c8b65cb, 0xc73052d4, 0x8b40d12b, 0xb73ec060,
    0x788d06b9, 0xf45437a3, 0x7dc830f4, 0x0213a7c8, 0x328c6db9, 0xbee7d4eb,
    0x2d9d8bbe, 0x06fb7979, 0x085322e7, 0x77cf758b, 0xa48def11, 0x58c883e0,
    0x6f786b8d, 0xa617635a, 0xa0f75cfa, 0x3300da5d, 0xb0bf8ef2, 0x10c3b9f5,
    0x80c2eaa0, 0x7a76b908, 0xb0d2d9a3, 0x1742d379, 0x8d711a02, 0x6a33c69a,
    0x60fd1127, 0xe3508043, 0xa8089906, 0xc4ed7f3d, 0xef2b6d82, 0x7684eb4e,
    0x25cf8d48, 0x66d5c936, 0x414ee728, 0xca0a61c2, 0xcfa9493d, 0xdfb9e3ba,
    0xe68d5fb6, 0x64afae92, 0xe6d5c73a, 0x0905a89e, 0x7d012bf2, 0x703f17a4,
    0xc3161edd, 0xf9d7e015, 0x87b8b150, 0xd54f9f2b, 0x82ba5a62, 0x6279016a,
    0x9c1bc02e, 0xa98a4815, 0x40e716d7, 0x2c5a0540, 0x229ad293, 0x9abf2de3,
    0xb9458705, 0x1edc5334, 0x6e2999d6, 0x6fff6c49, 0x86499f1c, 0x07ede2df,
    0xd14272b8, 0xae7ede19, 0x1a563e05, 0x8c6fad15, 0x1c6c6266, 0x4cc25471,
    0x2a2b08ea, 0x3929eb93, 0xf0b0dc17, 0xaef2d458, 0xfb94a29e, 0x4c56cf52,
    0x66fe8398, 0x8105c42e, 0xc3533976, 0x2e69d601, 0x08c1a0d3, 0x0e16e7a1,
    0xa6dff2e4, 0x85d23e69, 0x98469074, 0xdd0e2b4c, 0x5676754f, 0x7833395d,
    0x4f2332a1, 0x5d1c323d, 0x94e1f5c3, 0x0193264b, 0x2f029fc7, 0x7e7e993c,
    0x04954f5e, 0xbdfbfa3f, 0x0eadf776, 0xf4936629, 0x6fce1f3d, 0xbe451ec6,
    0x34abb5d3, 0xb7f92bf7, 0xc034041b, 0x67b5724e, 0x3da39255, 0x019322b5,
    0x7fa8d2cf, 0x67b7ae60, 0x6b381418, 0x3dc3bc30, 0x7dc0a038, 0xf20616fd,
    0x9b5163c3, 0x90d39d58, 0xe6f87954, 0x47d6b81c, 0xa961fd97, 0xf45977ea,
    0x9d53572d, 0xcf589a56, 0xad634ee8, 0x781b2e46, 0x7ef88065, 0x147981f3,
    0xf455da91, 0xf330a240, 0x358f98d1, 0xd218e3b6, 0xbc50fa3f, 0x21f0403d,
    0xaebdc0c3, 0x4cc25849, 0xb2368f51, 0x70d3b184, 0x83ceed0f, 0xdada8d87,
    0xc779a2f2, 0xe81be094, 0x4b6f7190, 0xa38a4b95]"

definition s8 :: "int list" where
  "s8 = [
    0x0d3016e2, 0xfcffddbb, 0xbddaeba7, 0x95806435, 0xb7f88977, 0x1b12c1e6,
    0x0016240e, 0xb5e82c05, 0xb0cfa911, 0x112f95e5, 0x0a99e7ec, 0x74d18693,
    0x1c93422a, 0x1181e376, 0x3aef2db1, 0xfcdddd37, 0xb1de9ade, 0x2cc30c0a,
    0x297019be, 0x4009a084, 0x0f3a24bb, 0xcf37d1b4, 0xf0794eb4, 0xfded9e04,
    0x5da1150b, 0x68310d48, 0x5adebb8b, 0x42ed9d66, 0x31e8ecc7, 0xe7958f3f,
    0x1b19df72, 0x0d338075, 0x51420794, 0xfacd7d5c, 0x636dbeab, 0x642140aa,
    0x0ad401b3, 0xcad1e702, 0xae1d5753, 0xa282317a, 0xecdda812, 0x5d33aafd,
    0xe8436f17, 0xd446fb71, 0x22901238, 0xd49a94ce, 0xad6947b8, 0x62d85b96,
    0x55d0f382, 0x6797fb66, 0x4e0bb815, 0xa0475b1d, 0x6fe0fd4c, 0xb8c48ec2,
    0x6e72e857, 0xfc787a64, 0x445d8699, 0x93d58b60, 0x030e206c, 0xf65fdc39,
    0xa3000b5d, 0xf2af63ae, 0x32d68b7e, 0x0c8c1070, 0x4950d3bb, 0x04df9829,
    0x2af40c98, 0x91f46d9b, 0x53dd7e9e, 0x48859106, 0x077ecb58, 0x2eef743b,
    0xb1ff2f52, 0xcc0847d2, 0xcd277e1c, 0x5b21eba4, 0xe2d2f13c, 0x387ab419,
    0x18764f42, 0x39608535, 0xe7de179d, 0xe635eb27, 0x7bf6afc9, 0xb8f5ba36,
    0xcd67c409, 0xb11089c1, 0x7bbf1de1, 0xf81acd06, 0x08c67071, 0x54335e2d,
    0x5a49ded4, 0x06d0c664, 0x2cc6c0bc, 0xb30dd03d, 0x348f8f70, 0x421bd577,
    0x0f624f26, 0xbfd2b824, 0x9eb7c115, 0x6425a546, 0x4ee5d7f8, 0x6081373e,
    0xa5cd9578, 0xa5159c85, 0x889745e6, 0x5fc77bc3, 0x0cba07db, 0xaba37606,
    0x1e9b227f, 0x7b2e8431, 0xd79f2524, 0x72f4bef8, 0xb8fc5f83, 0xf2c1f46d,
    0x95b1f596, 0xfcf00afd, 0x4c13feb0, 0x3d6d50e2, 0xea129b4f, 0x25f215f2,
    0x6f7323a2, 0x28c4b49f, 0x7949d025, 0xf813c734, 0x878161c4, 0x986e7aea,
    0xfc6ed17c, 0x6c873614, 0x074154f1, 0x14eedebe, 0x27afe956, 0x41a44aa0,
    0x99c8f73c, 0xe6baec92, 0x6d0167dd, 0xeb821615, 0xdfee42a8, 0xb460bafd,
    0x757b90f1, 0x0f03e320, 0x9ec2d824, 0x3b6739e1, 0xb83fa6ef, 0x54308771,
    0x3bcff2b6, 0x4264329f, 0xcca415cb, 0x04451ab0, 0x8d7de4f1, 0xe51b4a84,
    0xdcdfe7ba, 0x70dacb42, 0x0aae7dcd, 0x7a5be857, 0xf65a3fd5, 0x8c4dcf20,
    0x28d4a4ce, 0xa430d179, 0xfbeb8634, 0xdccdd333, 0x533b8577, 0xb5fcef37,
    0x788706c5, 0xe6b380e5, 0xf4b8684e, 0x7eb3c8c5, 0xa29e800d, 0x7ceb8f39,
    0x944f2a13, 0x0e95b743, 0x1c7dee2f, 0xbd133622, 0xa2ca06dd, 0x2b93df37,
    0x898224c4, 0xc3ebf3ac, 0xb7f61557, 0xdd7834ef, 0x6f6167f2, 0xe4cb48c1,
    0x5e815290, 0xab0f415e, 0x65248ab4, 0xa47fda2e, 0xe4407be8, 0x84a08ee9,
    0xe1e98958, 0xfc90d3ef, 0x5bd307dd, 0x945648db, 0xb2e5d738, 0x01017257,
    0xbcde0e73, 0x1331645b, 0x4f7e9194, 0xba2f3c50, 0x82126f64, 0x4ad22375,
    0x959677e0, 0x8f7ac1f9, 0x21215b7a, 0x96b887d1, 0x4d3a2629, 0xdf0c51ba,
    0x9f7cf481, 0xed6311ad, 0x65597bea, 0x6e72001a, 0x92304011, 0x776dda00,
    0x61dd0c4a, 0x03461fad, 0xb0df5b60, 0x64c3ed9e, 0xa8e6eb22, 0x8ad2e7ce,
    0xa036e7a0, 0xb9a66455, 0x09328510, 0x378febc7, 0xca05e72d, 0x0f575189,
    0x2b8209df, 0x6c1a69bd, 0xf2e412aa, 0x0f1c4587, 0x7aa2f6e0, 0x1948da3a,
    0x4f76f14c, 0x2b1c770d, 0x56b1cd67, 0x84830d35, 0x0ffa3859, 0xf39e3942,
    0x077b9936, 0x3d09840e, 0x613ea94a, 0x7bd86083, 0x0c8ba91f, 0x2c384911,
    0xa52576e9, 0xb7d11406, 0x4b24250e, 0x4783760c, 0x828d9e58, 0xd159200d,
    0x1ebb66a4, 0x820adaf8, 0x3091f104, 0xc04e6eba, 0x64512699, 0x0d23e71e,
    0x80adb250, 0x0168eeea, 0x83a2b28d, 0x9ef58bea]"

lemma length_sboxes [simp]:
  "length s1 = 256" "length s2 = 256" "length s3 = 256" "length s4 = 256"
  "length s5 = 256" "length s6 = 256" "length s7 = 256" "length s8 = 256"
  by (simp_all only: s1_def s2_def s3_def s4_def s5_def s6_def s7_def s8_def list.size)

end
