(* ===== verification/Cast5.thy ===== *)
theory Cast5 imports Cast5_Sbox begin

text \<open>
  The CAST5 cipher (core/crypto/cast5.c, cast5.h) on a little-endian machine, in the build without
  \<open>DEBUG\<close>.  The casts between \<open>uint8_t*\<close> and \<open>uint32_t*\<close> are the reads and writes of little-endian
  words in byte buffers; the context and the blocks are records and byte lists.
\<close>

section \<open>Words in byte buffers\<close>

definition bytes32 :: "u32 \<Rightarrow> u8 list" where
  "bytes32 w = [ucast w, ucast (drop_bit 8 w), ucast (drop_bit 16 w), ucast (drop_bit 24 w)]"

definition word32 :: "u8 \<Rightarrow> u8 \<Rightarrow> u8 \<Rightarrow> u8 \<Rightarrow> u32" where
  "word32 a b c d = ucast a OR push_bit 8 (ucast b) OR push_bit 16 (ucast c) OR push_bit 24 (ucast d)"

definition get32 :: "u8 list \<Rightarrow> nat \<Rightarrow> u32" where
  "get32 b i = word32 (b ! i) (b ! (i + 1)) (b ! (i + 2)) (b ! (i + 3))"

definition S5 :: "u8 \<Rightarrow> u32" where "S5 x = pgm_read_dword s5 x"
definition S6 :: "u8 \<Rightarrow> u32" where "S6 x = pgm_read_dword s6 x"
definition S7 :: "u8 \<Rightarrow> u32" where "S7 x = pgm_read_dword s7 x"
definition S8 :: "u8 \<Rightarrow> u32" where "S8 x = pgm_read_dword s8 x"

section \<open>Key schedule\<close>

record cast5_ctx_t =
  mask :: "u32 list"
  rotl :: "u8 list"
  roth :: "u8 list"
  shortkey :: bool

definition cast5_init_A :: "u8 list \<Rightarrow> bool \<Rightarrow> u8 list" where
  "cast5_init_A src bmode =
    (let mask = (if bmode then 8 else 0);
         sr = (\<lambda>i. src ! (i XOR mask));
         d0 = get32 src (0 XOR mask) XOR S5 (sr 13) XOR S6 (sr 15) XOR S7 (sr 12) XOR S8 (sr 14) XOR S7 (sr 8);
         b0 = bytes32 d0;
         d4 = get32 src (8 XOR mask) XOR S5 (b0 ! 0) XOR S6 (b0 ! 2) XOR S7 (b0 ! 1) XOR S8 (b0 ! 3) XOR S8 (sr 10);
         b4 = bytes32 d4;
         d8 = get32 src (12 XOR mask) XOR S5 (b4 ! 3) XOR S6 (b4 ! 2) XOR S7 (b4 ! 1) XOR S8 (b4 ! 0) XOR S5 (sr 9);
         b8 = bytes32 d8;
         dC = get32 src (4 XOR mask) XOR S5 (b8 ! 2) XOR S6 (b8 ! 1) XOR S7 (b8 ! 3) XOR S8 (b8 ! 0) XOR S6 (sr 11)
     in b0 @ b4 @ b8 @ bytes32 dC)"

definition nmt :: "nat list" where
  "nmt = [11, 10, 9, 8, 15, 14, 13, 12, 3, 2, 1, 0, 7, 6, 5, 4]"

definition xmt :: "nat list list" where
  "xmt = [[2, 6, 9, 12], [8, 13, 3, 7], [3, 7, 8, 13], [9, 12, 2, 6]]"

definition NMT :: "u8 list \<Rightarrow> bool \<Rightarrow> nat \<Rightarrow> u8" where
  "NMT src nmode x = src ! (if nmode then nmt ! x else x)"

definition XMT :: "u8 list \<Rightarrow> bool \<Rightarrow> bool \<Rightarrow> nat \<Rightarrow> u8" where
  "XMT src nmode xmode x = src ! (xmt ! ((if xmode then 2 else 0) + (if nmode then 1 else 0)) ! x)"

text \<open>The four words that \<open>cast5_init_M\<close> stores.\<close>

definition cast5_init_M :: "u8 list \<Rightarrow> bool \<Rightarrow> bool \<Rightarrow> u32 list" where
  "cast5_init_M src nmode xmode =
    (let N = NMT src nmode; X = XMT src nmode xmode in
     [S5 (N 8) XOR S6 (N 9) XOR S7 (N 7) XOR S8 (N 6) XOR S5 (X 0),
      S5 (N 10) XOR S6 (N 11) XOR S7 (N 5) XOR S8 (N 4) XOR S6 (X 1),
      S5 (N 12) XOR S6 (N 13) XOR S7 (N 3) XOR S8 (N 2) XOR S7 (X 2),
      S5 (N 14) XOR S6 (N 15) XOR S7 (N 1) XOR S8 (N 0) XOR S8 (X 3)])"

text \<open>Byte 3 of the stored words.\<close>

definition S5B :: "u8 \<Rightarrow> u8" where "S5B x = bytes32 (pgm_read_dword s5 x) ! 3"
definition S6B :: "u8 \<Rightarrow> u8" where "S6B x = bytes32 (pgm_read_dword s6 x) ! 3"
definition S7B :: "u8 \<Rightarrow> u8" where "S7B x = bytes32 (pgm_read_dword s7 x) ! 3"
definition S8B :: "u8 \<Rightarrow> u8" where "S8B x = bytes32 (pgm_read_dword s8 x) ! 3"

text \<open>
  Four rotation amounts of five bits: the low nibbles go to two bytes of \<open>rotl\<close>, the high bits to
  a nibble of \<open>roth\<close>.
\<close>

definition cast5_init_rM :: "u8 list \<times> u8 list \<Rightarrow> nat \<Rightarrow> u8 list \<Rightarrow> bool \<Rightarrow> bool \<Rightarrow> u8 list \<times> u8 list" where
  "cast5_init_rM = (\<lambda>(klo, khi) offset src nmode xmode.
    (let N = NMT src nmode; X = XMT src nmode xmode;
         t = S5B (N 8) XOR S6B (N 9) XOR S7B (N 7) XOR S8B (N 6) XOR S5B (X 0);
         klo = klo[offset * 2 := klo ! (offset * 2) OR (t AND 0x0F)];
         h = t AND 0x10; h = drop_bit 1 h;
         t = S5B (N 10) XOR S6B (N 11) XOR S7B (N 5) XOR S8B (N 4) XOR S6B (X 1);
         klo = klo[offset * 2 := klo ! (offset * 2) OR (push_bit 4 t AND 0xF0)];
         h = h OR (t AND 0x10); h = drop_bit 1 h;
         t = S5B (N 12) XOR S6B (N 13) XOR S7B (N 3) XOR S8B (N 2) XOR S7B (X 2);
         klo = klo[offset * 2 + 1 := klo ! (offset * 2 + 1) OR (t AND 0x0F)];
         h = h OR (t AND 0x10); h = drop_bit 1 h;
         t = S5B (N 14) XOR S6B (N 15) XOR S7B (N 1) XOR S8B (N 0) XOR S8B (X 3);
         klo = klo[offset * 2 + 1 := klo ! (offset * 2 + 1) OR push_bit 4 t];
         h = h OR (t AND 0x10); h = drop_bit 1 h
     in (klo, khi[offset div 2 := khi ! (offset div 2) OR push_bit (if odd offset then 4 else 0) h])))"

definition cast5_init :: "u8 list \<Rightarrow> nat \<Rightarrow> cast5_ctx_t" where
  "cast5_init key keylength =
    (let x = take (keylength div 8) key @ replicate (16 - keylength div 8) 0;
         z = cast5_init_A x False; m0 = cast5_init_M z False False;
         x = cast5_init_A z True; m1 = cast5_init_M x True False;
         z = cast5_init_A x False; m2 = cast5_init_M z True True;
         x = cast5_init_A z True; m3 = cast5_init_M x False True;
         r = (replicate 8 0, replicate 2 0);
         z = cast5_init_A x False; r = cast5_init_rM r 0 z False False;
         x = cast5_init_A z True; r = cast5_init_rM r 1 x True False;
         z = cast5_init_A x False; r = cast5_init_rM r 2 z True True;
         x = cast5_init_A z True; r = cast5_init_rM r 3 x False True
     in \<lparr>mask = m0 @ m1 @ m2 @ m3, rotl = fst r, roth = snd r, shortkey = keylength \<le> 80\<rparr>)"

section \<open>Rounds\<close>

definition ROTL32 :: "u32 \<Rightarrow> nat \<Rightarrow> u32" where
  "ROTL32 a n = push_bit n a OR drop_bit (32 - n) a"

definition CHANGE_ENDIAN32 :: "u32 \<Rightarrow> u32" where
  "CHANGE_ENDIAN32 x = push_bit 24 x OR drop_bit 24 x OR push_bit 8 (x AND 0xFF00) OR
     drop_bit 8 (x AND 0xFF0000)"

text \<open>The byte \<open>i\<close> of \<open>t\<close> selects the substitution: \<open>IA\<close> = 3, \<open>IB\<close> = 2, \<open>IC\<close> = 1, \<open>ID\<close> = 0.\<close>

definition sub :: "int list \<Rightarrow> u32 \<Rightarrow> nat \<Rightarrow> u32" where
  "sub s t i = pgm_read_dword s (bytes32 t ! i)"

definition cast5_f1 :: "u32 \<Rightarrow> u32 \<Rightarrow> u8 \<Rightarrow> u32" where
  "cast5_f1 d m r = (let t = ROTL32 (d + m) (unat r) in
     ((sub s1 t 3 XOR sub s2 t 2) - sub s3 t 1) + sub s4 t 0)"

definition cast5_f2 :: "u32 \<Rightarrow> u32 \<Rightarrow> u8 \<Rightarrow> u32" where
  "cast5_f2 d m r = (let t = ROTL32 (d XOR m) (unat r) in
     ((sub s1 t 3 - sub s2 t 2) + sub s3 t 1) XOR sub s4 t 0)"

definition cast5_f3 :: "u32 \<Rightarrow> u32 \<Rightarrow> u8 \<Rightarrow> u32" where
  "cast5_f3 d m r = (let t = ROTL32 (m - d) (unat r) in
     ((sub s1 t 3 + sub s2 t 2) XOR sub s3 t 1) - sub s4 t 0)"

text \<open>The rotation amount of a round, put together from the two arrays.\<close>

definition rotation :: "cast5_ctx_t \<Rightarrow> nat \<Rightarrow> u8" where
  "rotation s i =
    (if roth s ! (i div 8) AND push_bit (i mod 8) 1 \<noteq> 0 then 0x10 else 0) +
    (drop_bit (if odd i then 4 else 0) (rotl s ! (i div 2)) AND 0x0F)"

definition round_word :: "cast5_ctx_t \<Rightarrow> nat \<Rightarrow> u32 \<Rightarrow> u32" where
  "round_word s i r = CHANGE_ENDIAN32
    ((if i mod 3 = 0 then cast5_f1 else if i mod 3 = 1 then cast5_f2 else cast5_f3)
      (CHANGE_ENDIAN32 r) (CHANGE_ENDIAN32 (mask s ! i)) (rotation s i))"

definition rounds :: "cast5_ctx_t \<Rightarrow> nat" where
  "rounds s = (if shortkey s then 12 else 16)"

text \<open>The loops of both directions run over a list of round numbers.\<close>

fun cast5_rounds :: "cast5_ctx_t \<Rightarrow> nat list \<Rightarrow> u32 \<times> u32 \<Rightarrow> u32 \<times> u32" where
  "cast5_rounds s [] lr = lr"
| "cast5_rounds s (i # is) (l, r) = cast5_rounds s is (r, l XOR round_word s i r)"

definition cast5_enc :: "cast5_ctx_t \<Rightarrow> u8 list \<Rightarrow> u8 list" where
  "cast5_enc s block =
    (let (l, r) = cast5_rounds s [0..<rounds s] (get32 block 0, get32 block 4)
     in bytes32 r @ bytes32 l)"

definition cast5_dec :: "cast5_ctx_t \<Rightarrow> u8 list \<Rightarrow> u8 list" where
  "cast5_dec s block =
    (let (l, r) = cast5_rounds s (rev [0..<rounds s]) (get32 block 0, get32 block 4)
     in bytes32 r @ bytes32 l)"


section \<open>Feistel networks\<close>

text \<open>
  The contract of the round loop: each round replaces the pair by its right half and the left half
  masked with a function of the right half.  Running the rounds backward on the exchanged halves
  undoes them, whatever the round function.
\<close>

locale feistel =
  fixes f :: "nat \<Rightarrow> 'a::len word \<Rightarrow> 'a word"
    and run :: "nat list \<Rightarrow> 'a word \<times> 'a word \<Rightarrow> 'a word \<times> 'a word"
  assumes run_Nil: "run [] lr = lr"
    and run_Cons: "run (i # is) (l, r) = run is (r, l XOR f i r)"
begin

lemma run_append: "run (is @ js) lr = run js (run is lr)"
proof (induction "is" arbitrary: lr)
  case (Cons i "is")
  then show ?case by (cases lr) (simp add: run_Cons)
qed (simp add: run_Nil)

lemma run_back: "prod.swap (run (rev is) (prod.swap (run is lr))) = lr"
proof (induction "is" arbitrary: lr rule: rev_induct)
  case (snoc j js)
  obtain l r where lr: "run js lr = (l, r)" by fastforce
  have "run (rev (js @ [j])) (prod.swap (run (js @ [j]) lr)) = run (rev js) (r, l)"
    by (simp add: run_append lr run_Cons run_Nil xor.assoc)
  then show ?case using snoc.IH [of lr] lr by simp
qed (simp add: run_Nil)

lemma run_forth: "prod.swap (run is (prod.swap (run (rev is) lr))) = lr"
  using run_back [of "rev is" lr] by simp

end

interpretation cast5: feistel "round_word s" "cast5_rounds s" for s
  by unfold_locales simp_all

section \<open>Bytes and words\<close>

lemma bit_u8_bound: "bit (x :: u8) n \<Longrightarrow> n < 8"
  using bit_imp_le_length [of x n] by simp

lemma word32_bytes32: "word32 (ucast w) (ucast (drop_bit 8 w)) (ucast (drop_bit 16 w)) (ucast (drop_bit 24 w)) = (w :: u32)"
proof (rule bit_word_eqI)
  fix n assume "n < LENGTH(32)"
  then have n: "n < 32" by simp
  then consider "n < 8" | "8 \<le> n" "n < 16" | "16 \<le> n" "n < 24" | "24 \<le> n" by linarith
  then show "bit (word32 (ucast w) (ucast (drop_bit 8 w)) (ucast (drop_bit 16 w)) (ucast (drop_bit 24 w))) n \<longleftrightarrow> bit w n"
    by cases (use n in \<open>auto simp: word32_def bit_or_iff bit_push_bit_iff bit_ucast_iff bit_drop_bit_eq\<close>)
qed

lemma length_bytes32 [simp]: "length (bytes32 w) = 4"
  by (simp add: bytes32_def)

lemma get32_bytes32:
  "get32 (bytes32 w @ bs) 0 = w" "get32 (bytes32 v @ bytes32 w) 4 = w"
  by (simp_all add: get32_def bytes32_def word32_bytes32)

lemma bytes32_word32: "bytes32 (word32 a b c d) = [a, b, c, d]"
proof -
  have bits: "bit (word32 a b c d) n \<longleftrightarrow>
      bit a n \<or> 8 \<le> n \<and> bit b (n - 8) \<or> 16 \<le> n \<and> bit c (n - 16) \<or> 24 \<le> n \<and> bit d (n - 24)"
    if "n < 32" for n
    using that by (auto simp: word32_def bit_or_iff bit_push_bit_iff bit_ucast_iff dest: bit_u8_bound)
  have "ucast (word32 a b c d) = a"
    by (rule bit_word_eqI) (auto simp: bit_ucast_iff bits)
  moreover have "ucast (drop_bit 8 (word32 a b c d)) = b"
    by (rule bit_word_eqI) (auto simp: bit_ucast_iff bit_drop_bit_eq bits dest: bit_u8_bound)
  moreover have "ucast (drop_bit 16 (word32 a b c d)) = c"
    by (rule bit_word_eqI) (auto simp: bit_ucast_iff bit_drop_bit_eq bits dest: bit_u8_bound)
  moreover have "ucast (drop_bit 24 (word32 a b c d)) = d"
    by (rule bit_word_eqI) (auto simp: bit_ucast_iff bit_drop_bit_eq bits dest: bit_u8_bound)
  ultimately show ?thesis by (simp add: bytes32_def)
qed

lemma bytes32_get32:
  assumes "length b = 8"
  shows "bytes32 (get32 b 0) @ bytes32 (get32 b 4) = b"
proof -
  obtain b0 b1 b2 b3 b4 b5 b6 b7 where "b = [b0, b1, b2, b3, b4, b5, b6, b7]"
    using assms by (auto simp: numeral_eq_Suc length_Suc_conv)
  then show ?thesis by (simp add: get32_def bytes32_word32 numeral_eq_Suc)
qed

text \<open>Both directions as one loop and an exchange of the halves.\<close>

lemma cast5_enc_swap:
  "cast5_enc s b = (let (l, r) = prod.swap (cast5_rounds s [0..<rounds s] (get32 b 0, get32 b 4))
     in bytes32 l @ bytes32 r)"
  by (simp add: cast5_enc_def split_beta Let_def)

lemma cast5_dec_swap:
  "cast5_dec s b = (let (l, r) = prod.swap (cast5_rounds s (rev [0..<rounds s]) (get32 b 0, get32 b 4))
     in bytes32 l @ bytes32 r)"
  by (simp add: cast5_dec_def split_beta Let_def)

section \<open>The packed rotation amounts\<close>

fun schedule_block :: "u8 list \<Rightarrow> nat \<Rightarrow> u8 list" where
  "schedule_block b 0 = b"
| "schedule_block b (Suc n) = cast5_init_A (schedule_block b n) (odd n)"

definition key_block :: "u8 list \<Rightarrow> nat \<Rightarrow> u8 list" where
  "key_block key keylength = take (keylength div 8) key @ replicate (16 - keylength div 8) 0"

text \<open>The words of the schedule in the order of RFC 2144: 16 for masking and 16 for rotation.\<close>

definition schedule_words :: "u8 list \<Rightarrow> nat \<Rightarrow> nat \<Rightarrow> u32 list" where
  "schedule_words key keylength k = (let B = schedule_block (key_block key keylength) in
     cast5_init_M (B (k + 1)) False False @ cast5_init_M (B (k + 2)) True False @
     cast5_init_M (B (k + 3)) True True @ cast5_init_M (B (k + 4)) False True)"

lemma u8_masks: "(0x0F :: u8) = semiring_bit_operations_class.mask 4" "(0xF0 :: u8) = push_bit 4 (semiring_bit_operations_class.mask 4)" "(0x10 :: u8) = push_bit 4 1"
  by (simp_all add: mask_eq_exp_minus_1)

lemma nibbles:
  fixes a b :: u8
  shows "(a AND 0x0F OR push_bit 4 b AND 0xF0) AND 0x0F = a AND 0x0F"
    "drop_bit 4 (a AND 0x0F OR push_bit 4 b AND 0xF0) AND 0x0F = b AND 0x0F"
    "drop_bit 4 (push_bit 4 b) AND 0x0F = b AND 0x0F"
    "(a AND 0x0F OR push_bit 4 b) AND 0x0F = a AND 0x0F"
    "drop_bit 4 (a AND 0x0F OR push_bit 4 b) AND 0x0F = b AND 0x0F"
  unfolding u8_masks
  by (rule bit_word_eqI; auto simp: bit_and_iff bit_or_iff bit_push_bit_iff bit_drop_bit_eq bit_mask_iff)+

definition high_bits :: "u8 \<Rightarrow> u8 \<Rightarrow> u8 \<Rightarrow> u8 \<Rightarrow> u8" where
  "high_bits a b c d = drop_bit 1 (drop_bit 1 (drop_bit 1 (drop_bit 1 (a AND 0x10) OR b AND 0x10)
     OR c AND 0x10) OR d AND 0x10)"

lemma bit_high_bits:
  "bit (high_bits a b c d) n \<longleftrightarrow>
     n = 0 \<and> bit a 4 \<or> n = 1 \<and> bit b 4 \<or> n = 2 \<and> bit c 4 \<or> n = 3 \<and> bit d 4"
proof -
  define M :: u8 where "M = 0x10"
  have 16: "bit M k \<longleftrightarrow> k = 4" for k
    unfolding M_def using bit_exp_iff [where 'a = "8 word", of 4 k] by auto
  consider "n = 0" | "n = 1" | "n = 2" | "n = 3" | "3 < n" by linarith
  then show ?thesis
    unfolding high_bits_def M_def [symmetric]
    by cases (auto simp: bit_and_iff bit_or_iff bit_drop_bit_eq 16 numeral_eq_Suc)
qed

lemma five_bits: "(if bit t 4 then 0x10 else 0) + (t AND 0x0F) = (t AND 0x1F :: u8)"
proof -
  have "\<forall>n \<in> set [0..<256]. (if bit (of_nat n :: u8) 4 then 0x10 else 0) + (of_nat n AND 0x0F) = (of_nat n AND 0x1F :: u8)"
    by code_simp
  moreover have "unat t \<in> set [0..<256]" by simp
  ultimately show ?thesis by fastforce
qed

text \<open>One call packs the third bytes of four schedule words.\<close>

lemma bytes32_xor: "bytes32 (v XOR w) ! 3 = bytes32 v ! 3 XOR bytes32 w ! 3"
proof -
  have "(ucast (drop_bit 24 (v XOR w)) :: u8) = ucast (drop_bit 24 v) XOR ucast (drop_bit 24 w)"
    by (rule bit_word_eqI) (simp add: bit_ucast_iff bit_xor_iff bit_drop_bit_eq)
  then show ?thesis by (simp add: bytes32_def)
qed

lemma cast5_init_rM_words:
  assumes "cast5_init_M src n x = [w0, w1, w2, w3]"
  shows "cast5_init_rM (klo, khi) k src n x =
    (let lo = klo[k * 2 := klo ! (k * 2) OR (bytes32 w0 ! 3 AND 0x0F)];
         lo = lo[k * 2 := lo ! (k * 2) OR (push_bit 4 (bytes32 w1 ! 3) AND 0xF0)];
         lo = lo[k * 2 + 1 := lo ! (k * 2 + 1) OR (bytes32 w2 ! 3 AND 0x0F)]
     in (lo[k * 2 + 1 := lo ! (k * 2 + 1) OR push_bit 4 (bytes32 w3 ! 3)],
         khi[k div 2 := khi ! (k div 2) OR push_bit (if odd k then 4 else 0)
           (high_bits (bytes32 w0 ! 3) (bytes32 w1 ! 3) (bytes32 w2 ! 3) (bytes32 w3 ! 3))]))"
  using assms
  unfolding cast5_init_rM_def cast5_init_M_def Let_def list.inject
  by (elim conjE, hypsubst)
    (simp add: bytes32_xor S5B_def S6B_def S7B_def S8B_def S5_def S6_def S7_def S8_def high_bits_def)


lemma cast5_init_M_words: "\<exists>w0 w1 w2 w3. cast5_init_M src n x = [w0, w1, w2, w3]"
  by (simp add: cast5_init_M_def Let_def)

text \<open>The amount put together from nibble and bit.\<close>

lemma rotation_bits:
  assumes "roth s ! (i div 8) = h" "rotl s ! (i div 2) = l"
    and "bit h (i mod 8) \<longleftrightarrow> bit t 4" "drop_bit (if odd i then 4 else 0) l AND 0x0F = t AND 0x0F"
  shows "rotation s i = t AND 0x1F"
proof -
  have "roth s ! (i div 8) AND push_bit (i mod 8) 1 \<noteq> 0 \<longleftrightarrow> bit t 4"
    using assms(1,3) bit_iff_and_push_bit_not_eq_0 [of h "i mod 8"] by simp
  then show ?thesis
    using assms(2,4) five_bits [of t] by (simp add: rotation_def)
qed

lemma nth_upto_16:
  assumes "i < 16"
    and "P 0" "P 1" "P 2" "P 3" "P 4" "P 5" "P 6" "P 7"
    and "P 8" "P 9" "P 10" "P 11" "P 12" "P 13" "P 14" "P (15 :: nat)"
  shows "P i"
proof -
  have "i \<in> set [0..<16]" using assms(1) by simp
  moreover have "[0..<16] = [0, 1, 2, 3, 4, 5, 6, 7, 8, 9, 10, 11, 12, 13, 14, 15]" by (simp add: upt_rec)
  ultimately show ?thesis using assms(2-) by auto
qed

text \<open>The third byte of a word, and the result of the four packing calls.\<close>

definition byte3 :: "u32 \<Rightarrow> u8" where
  "byte3 w = bytes32 w ! 3"

definition packed_rotl :: "u32 list \<Rightarrow> u8 list" where
  "packed_rotl ws = concat (map (\<lambda>k.
     [byte3 (ws ! (4 * k)) AND 0x0F OR push_bit 4 (byte3 (ws ! (4 * k + 1))) AND 0xF0,
      byte3 (ws ! (4 * k + 2)) AND 0x0F OR push_bit 4 (byte3 (ws ! (4 * k + 3)))]) [0..<4])"

definition packed_high :: "u32 list \<Rightarrow> nat \<Rightarrow> u8" where
  "packed_high ws k = high_bits (byte3 (ws ! (4 * k))) (byte3 (ws ! (4 * k + 1)))
     (byte3 (ws ! (4 * k + 2))) (byte3 (ws ! (4 * k + 3)))"

lemma pack_rotations:
  fixes a0 a1 a2 a3 b0 b1 b2 b3 c0 c1 c2 c3 d0 d1 d2 d3
  assumes "cast5_init_M A False False = [a0, a1, a2, a3]" "cast5_init_M B True False = [b0, b1, b2, b3]"
    "cast5_init_M C True True = [c0, c1, c2, c3]" "cast5_init_M D False True = [d0, d1, d2, d3]"
  defines "ws \<equiv> [a0, a1, a2, a3, b0, b1, b2, b3, c0, c1, c2, c3, d0, d1, d2, d3]"
  shows "cast5_init_rM (cast5_init_rM (cast5_init_rM (cast5_init_rM (replicate 8 0, replicate 2 0)
      0 A False False) 1 B True False) 2 C True True) 3 D False True =
    (packed_rotl ws, [packed_high ws 0 OR push_bit 4 (packed_high ws 1),
       packed_high ws 2 OR push_bit 4 (packed_high ws 3)])"
proof -
  have zeros: "replicate 8 (0 :: u8) = [0, 0, 0, 0, 0, 0, 0, 0]" "replicate 2 (0 :: u8) = [0, 0]"
    by (simp_all add: numeral_eq_Suc)
  let ?lo = "\<lambda>v w. byte3 v AND 0x0F OR push_bit 4 (byte3 w) AND 0xF0"
  let ?hi = "\<lambda>v w. byte3 v AND 0x0F OR push_bit 4 (byte3 w)"
  let ?h = "\<lambda>v w x y. high_bits (byte3 v) (byte3 w) (byte3 x) (byte3 y)"
  let ?r1 = "cast5_init_rM (replicate 8 0, replicate 2 0) 0 A False False"
  let ?r2 = "cast5_init_rM ?r1 1 B True False"
  let ?r3 = "cast5_init_rM ?r2 2 C True True"
  note words = assms(1-4) [THEN cast5_init_rM_words] and pack = byte3_def [symmetric] Let_def
  have r1: "?r1 = ([?lo a0 a1, ?hi a2 a3, 0, 0, 0, 0, 0, 0], [?h a0 a1 a2 a3, 0])"
    unfolding zeros words(1) pack by simp
  have r2: "?r2 = ([?lo a0 a1, ?hi a2 a3, ?lo b0 b1, ?hi b2 b3, 0, 0, 0, 0],
      [?h a0 a1 a2 a3 OR push_bit 4 (?h b0 b1 b2 b3), 0])"
    unfolding r1 words(2) pack by simp
  have r3: "?r3 = ([?lo a0 a1, ?hi a2 a3, ?lo b0 b1, ?hi b2 b3, ?lo c0 c1, ?hi c2 c3, 0, 0],
      [?h a0 a1 a2 a3 OR push_bit 4 (?h b0 b1 b2 b3), ?h c0 c1 c2 c3])"
    unfolding r2 words(3) pack by simp
  show ?thesis
    unfolding r3 words(4) pack packed_rotl_def packed_high_def ws_def by (simp add: upt_rec)
qed

text \<open>The eight blocks of the schedule, and the rotation amounts read back from the context.\<close>

lemma cast5_init_blocks:
  fixes key kl
  defines "B \<equiv> schedule_block (key_block key kl)"
  shows "cast5_init key kl = (let r = cast5_init_rM (cast5_init_rM (cast5_init_rM (cast5_init_rM
        (replicate 8 0, replicate 2 0) 0 (B 5) False False) 1 (B 6) True False) 2 (B 7) True True)
        3 (B 8) False True
     in \<lparr>mask = schedule_words key kl 0, rotl = fst r, roth = snd r, shortkey = kl \<le> 80\<rparr>)"
proof -
  have B: "B 0 = key_block key kl" "cast5_init_A (B n) (odd n) = B (Suc n)" for n
    by (simp_all add: B_def)
  have steps: "cast5_init_A (key_block key kl) False = B 1" "cast5_init_A (B 1) True = B 2"
    "cast5_init_A (B 2) False = B 3" "cast5_init_A (B 3) True = B 4" "cast5_init_A (B 4) False = B 5"
    "cast5_init_A (B 5) True = B 6" "cast5_init_A (B 6) False = B 7" "cast5_init_A (B 7) True = B 8"
    using B(2) [of 0] B(2) [of 1] B(2) [of 2] B(2) [of 3] B(2) [of 4] B(2) [of 5] B(2) [of 6]
      B(2) [of 7] B(1)
    by (simp_all add: numeral_2_eq_2 [symmetric])
  show ?thesis
    unfolding cast5_init_def Let_def key_block_def [symmetric] steps schedule_words_def
      B_def [symmetric]
    by (simp add: numeral_2_eq_2 [symmetric])
qed

lemma cast5_init_rotation:
  assumes "i < 16"
  shows "rotation (cast5_init key kl) i = byte3 (schedule_words key kl 4 ! i) AND 0x1F"
proof -
  let ?B = "schedule_block (key_block key kl)"
  obtain a0 a1 a2 a3 where a: "cast5_init_M (?B 5) False False = [a0, a1, a2, a3]"
    using cast5_init_M_words by blast
  obtain b0 b1 b2 b3 where b: "cast5_init_M (?B 6) True False = [b0, b1, b2, b3]"
    using cast5_init_M_words by blast
  obtain c0 c1 c2 c3 where c: "cast5_init_M (?B 7) True True = [c0, c1, c2, c3]"
    using cast5_init_M_words by blast
  obtain d0 d1 d2 d3 where d: "cast5_init_M (?B 8) False True = [d0, d1, d2, d3]"
    using cast5_init_M_words by blast
  let ?ws = "[a0, a1, a2, a3, b0, b1, b2, b3, c0, c1, c2, c3, d0, d1, d2, d3]"
  have words: "schedule_words key kl 4 = ?ws"
    by (simp add: schedule_words_def a b c d)
  let ?s = "cast5_init key kl"
  have ctx: "rotl ?s = packed_rotl ?ws" "roth ?s = [packed_high ?ws 0 OR push_bit 4 (packed_high ?ws 1),
      packed_high ?ws 2 OR push_bit 4 (packed_high ?ws 3)]"
    unfolding cast5_init_blocks pack_rotations [OF a b c d] by simp_all
  have high: "bit (roth ?s ! (i div 8)) (i mod 8) \<longleftrightarrow> bit (byte3 (?ws ! i)) 4"
    unfolding ctx packed_high_def using assms
    by (rule nth_upto_16) (simp_all add: bit_or_iff bit_push_bit_iff bit_high_bits)
  have low: "drop_bit (if odd i then 4 else 0) (rotl ?s ! (i div 2)) AND 0x0F = byte3 (?ws ! i) AND 0x0F"
    unfolding ctx packed_rotl_def using assms
    by (rule nth_upto_16) (simp_all add: nibbles upt_rec)
  have "rotation ?s i = byte3 (?ws ! i) AND 0x1F"
    by (rule rotation_bits [OF refl refl high low])
  then show ?thesis unfolding words .
qed

lemma ROTL32_rotl: "n < 32 \<Longrightarrow> ROTL32 a n = word_rotl n a"
proof (rule bit_word_eqI)
  fix k assume n: "n < 32" and "k < LENGTH(32)"
  then have k: "k < 32" by simp
  show "bit (ROTL32 a n) k \<longleftrightarrow> bit (word_rotl n a) k"
  proof (cases "n \<le> k")
    case True
    then have "(k + (32 - n)) mod 32 = k - n" using n k by (simp add: mod_if)
    moreover have "\<not> bit a (32 - n + k)" using True k bit_imp_le_length [of a "32 - n + k"] by auto
    ultimately show ?thesis
      using True n k by (simp add: ROTL32_def bit_or_iff bit_push_bit_iff bit_drop_bit_eq bit_word_rotl_iff)
  next
    case False
    then have "(k + (32 - n)) mod 32 = 32 - n + k" using n k by simp
    then show ?thesis
      using False n k by (simp add: ROTL32_def bit_or_iff bit_push_bit_iff bit_drop_bit_eq bit_word_rotl_iff)
  qed
qed

lemma cast5_dec_enc_block:
  assumes "length b = 8" shows "cast5_dec s (cast5_enc s b) = b"
proof -
  let ?p = "(get32 b 0, get32 b 4)"
  obtain l r where e: "prod.swap (cast5_rounds s [0..<rounds s] ?p) = (l, r)" by fastforce
  have "prod.swap (cast5_rounds s (rev [0..<rounds s]) (l, r)) = ?p"
    using cast5.run_back [of s "[0..<rounds s]" ?p] e by simp
  then show ?thesis
    using bytes32_get32 [OF assms] by (simp add: cast5_enc_swap cast5_dec_swap e get32_bytes32)
qed

lemma cast5_enc_dec_block:
  assumes "length b = 8" shows "cast5_enc s (cast5_dec s b) = b"
proof -
  let ?p = "(get32 b 0, get32 b 4)"
  obtain l r where d: "prod.swap (cast5_rounds s (rev [0..<rounds s]) ?p) = (l, r)" by fastforce
  have "prod.swap (cast5_rounds s [0..<rounds s] (l, r)) = ?p"
    using cast5.run_forth [of s "[0..<rounds s]" ?p] d by simp
  then show ?thesis
    using bytes32_get32 [OF assms] by (simp add: cast5_enc_swap cast5_dec_swap d get32_bytes32)
qed

section \<open>Properties\<close>

text \<open>
  C0. Decryption inverts encryption and encryption inverts decryption, for every context, be it
  made by \<open>cast5_init\<close> or not, and every block of eight bytes.
\<close>

theorem cast5_dec_enc:
  assumes "length b = 8"
  shows "cast5_dec s (cast5_enc s b) = b \<and> cast5_enc s (cast5_dec s b) = b"
  using cast5_dec_enc_block [OF assms] cast5_enc_dec_block [OF assms] by simp

theorem cast5_dec_enc_witness:
  "cast5_dec (cast5_init [1, 2, 3, 4, 5] 40) (cast5_enc (cast5_init [1, 2, 3, 4, 5] 40) [1, 2, 3, 4, 5, 6, 7, 8]) =
     [1, 2, 3, 4, 5, 6, 7, 8]"
  by (rule cast5_dec_enc [THEN conjunct1]) simp

text \<open>
  C0. The key schedule packs without loss: the masking keys of a context are the first sixteen
  words of the schedule, and the rotation amount read back for a round from the nibbles of \<open>rotl\<close>
  and the bits of \<open>roth\<close> is the low five bits of the last byte of its word among the next sixteen,
  so that \<open>ROTL32\<close> is applied to amounts below 32 only, where it is a rotation.
\<close>

theorem cast5_init_schedule:
  assumes "i < 16"
  shows "mask (cast5_init key kl) ! i = schedule_words key kl 0 ! i \<and>
    rotation (cast5_init key kl) i = byte3 (schedule_words key kl 4 ! i) AND 0x1F \<and>
    ROTL32 a (unat (rotation (cast5_init key kl) i)) = word_rotl (unat (rotation (cast5_init key kl) i)) a"
proof -
  have "unat (t AND 0x1F) < 32" for t :: u8
  proof -
    have "t AND 0x1F \<le> 0x1F" by (rule word_and_le1)
    then show ?thesis by (simp add: word_le_nat_alt)
  qed
  then show ?thesis
    using cast5_init_rotation [OF assms]
    by (simp add: ROTL32_rotl) (simp add: cast5_init_blocks Let_def)
qed

theorem cast5_init_schedule_witness:
  "rotation (cast5_init [1, 2, 3, 4, 5] 40) 15 = byte3 (schedule_words [1, 2, 3, 4, 5] 40 4 ! 15) AND 0x1F"
  by (rule cast5_init_schedule [THEN conjunct2, THEN conjunct1]) simp

end
