(* ===== verification/Cast5_Rfc.thy ===== *)
theory Cast5_Rfc imports Cast5 begin

text \<open>
  The 128-bit test vector of RFC 2144, appendix B.1, evaluated step by step: the eight blocks of
  the key schedule, the masking words, the packed rotation amounts, and the sixteen rounds.
\<close>

definition rfc_key :: "u8 list" where
  "rfc_key = [0x01, 0x23, 0x45, 0x67, 0x12, 0x34, 0x56, 0x78, 0x23, 0x45, 0x67, 0x89, 0x34, 0x56, 0x78, 0x9A]"

definition rfc_ctx :: cast5_ctx_t where
  "rfc_ctx = \<lparr>mask = [
      0x263e17bc, 0xef07a278, 0xf5a7e0ec, 0x6bfbb07c, 0x36d6d2a5, 0x07948bd7, 0xd369c056,
        0x0c24e882, 0x49375433, 0xc7d51388, 0x32d7fcb9, 0x366b1059, 0xa9f16a49, 0x43dcf818,
        0x0fef9d8d, 0x84a3ed83],
    rotl = [181, 81, 243, 207, 240, 18, 157, 241], roth = [227, 55], shortkey = False\<rparr>"

lemma rfc_init_A_1:
  "cast5_init_A [1, 35, 69, 103, 18, 52, 86, 120, 35, 69, 103, 137, 52, 86, 120, 154] False =
      [83, 253, 176, 163, 16, 206, 76, 24, 98, 180, 122, 4, 11, 224, 150, 31]"
  "cast5_init_A [83, 253, 176, 163, 16, 206, 76, 24, 98, 180, 122, 4, 11, 224, 150, 31] True =
      [212, 103, 241, 37, 252, 114, 58, 226, 42, 213, 29, 27, 187, 87, 251, 146]"
  by code_simp+

lemma rfc_init_A_2:
  "cast5_init_A [212, 103, 241, 37, 252, 114, 58, 226, 42, 213, 29, 27, 187, 87, 251, 146] False
      = [20, 46, 90, 31, 82, 112, 57, 216, 14, 112, 243, 176, 206, 62, 185, 251]"
  "cast5_init_A [20, 46, 90, 31, 82, 112, 57, 216, 14, 112, 243, 176, 206, 62, 185, 251] True =
      [48, 33, 149, 109, 175, 206, 176, 114, 82, 77, 175, 78, 101, 44, 130, 8]"
  by code_simp+

lemma rfc_init_A_3:
  "cast5_init_A [48, 33, 149, 109, 175, 206, 176, 114, 82, 77, 175, 78, 101, 44, 130, 8] False =
      [33, 107, 41, 193, 221, 160, 126, 231, 170, 124, 174, 244, 142, 53, 217, 66]"
  "cast5_init_A [33, 107, 41, 193, 221, 160, 126, 231, 170, 124, 174, 244, 142, 53, 217, 66]
      True = [216, 255, 225, 206, 202, 239, 177, 228, 255, 60, 147, 1, 173, 68, 242, 83]"
  by code_simp+

lemma rfc_init_A_4:
  "cast5_init_A [216, 255, 225, 206, 202, 239, 177, 228, 255, 60, 147, 1, 173, 68, 242, 83]
      False = [47, 44, 89, 135, 229, 29, 164, 132, 138, 87, 135, 173, 237, 128, 132, 215]"
  "cast5_init_A [47, 44, 89, 135, 229, 29, 164, 132, 138, 87, 135, 173, 237, 128, 132, 215] True
      = [75, 244, 63, 71, 250, 116, 125, 234, 84, 60, 103, 175, 247, 35, 125, 25]"
  by code_simp+

lemmas rfc_init_A = rfc_init_A_1 rfc_init_A_2 rfc_init_A_3 rfc_init_A_4

lemma rfc_init_M_1:
  "cast5_init_M [83, 253, 176, 163, 16, 206, 76, 24, 98, 180, 122, 4, 11, 224, 150, 31] False
      False = [0x263e17bc, 0xef07a278, 0xf5a7e0ec, 0x6bfbb07c]"
  "cast5_init_M [212, 103, 241, 37, 252, 114, 58, 226, 42, 213, 29, 27, 187, 87, 251, 146] True
      False = [0x36d6d2a5, 0x07948bd7, 0xd369c056, 0x0c24e882]"
  by code_simp+

lemma rfc_init_M_2:
  "cast5_init_M [20, 46, 90, 31, 82, 112, 57, 216, 14, 112, 243, 176, 206, 62, 185, 251] True
      True = [0x49375433, 0xc7d51388, 0x32d7fcb9, 0x366b1059]"
  "cast5_init_M [48, 33, 149, 109, 175, 206, 176, 114, 82, 77, 175, 78, 101, 44, 130, 8] False
      True = [0xa9f16a49, 0x43dcf818, 0x0fef9d8d, 0x84a3ed83]"
  by code_simp+

lemmas rfc_init_M = rfc_init_M_1 rfc_init_M_2

lemma rfc_init_rM_1:
  "cast5_init_rM ([0, 0, 0, 0, 0, 0, 0, 0], [0, 0]) 0 [33, 107, 41, 193, 221, 160, 126, 231,
      170, 124, 174, 244, 142, 53, 217, 66] False False = ([181, 81, 0, 0, 0, 0, 0, 0], [3, 0])"
  "cast5_init_rM ([181, 81, 0, 0, 0, 0, 0, 0], [3, 0]) 1 [216, 255, 225, 206, 202, 239, 177,
      228, 255, 60, 147, 1, 173, 68, 242, 83] True False = ([181, 81, 243, 207, 0, 0, 0, 0],
      [227, 0])"
  by code_simp+

lemma rfc_init_rM_2:
  "cast5_init_rM ([181, 81, 243, 207, 0, 0, 0, 0], [227, 0]) 2 [47, 44, 89, 135, 229, 29, 164,
      132, 138, 87, 135, 173, 237, 128, 132, 215] True True = ([181, 81, 243, 207, 240, 18, 0,
      0], [227, 7])"
  "cast5_init_rM ([181, 81, 243, 207, 240, 18, 0, 0], [227, 7]) 3 [75, 244, 63, 71, 250, 116,
      125, 234, 84, 60, 103, 175, 247, 35, 125, 25] False True = ([181, 81, 243, 207, 240, 18,
      157, 241], [227, 55])"
  by code_simp+

lemmas rfc_init_rM = rfc_init_rM_1 rfc_init_rM_2

lemma rfc_rounds_1:
  "round_word rfc_ctx 0 0xefcdab89 = 0x4a5e046f"
  "round_word rfc_ctx 1 0x2d1b276e = 0xc47cd97e"
  "round_word rfc_ctx 2 0x2bb172f7 = 0x6d6383cc"
  "round_word rfc_ctx 3 0x4078a4a2 = 0x38e33f31"
  by code_simp+

lemma rfc_rounds_2:
  "round_word rfc_ctx 4 0x13524dc6 = 0x9c2b51d6"
  "round_word rfc_ctx 5 0xdc53f574 = 0x3bcc0ac3"
  "round_word rfc_ctx 6 0x289e4705 = 0x0dd2a190"
  "round_word rfc_ctx 7 0xd18154e4 = 0x1c1430eb"
  by code_simp+

lemma rfc_rounds_3:
  "round_word rfc_ctx 8 0x348a77ee = 0x988d6cb9"
  "round_word rfc_ctx 9 0x490c385d = 0x152995ed"
  "round_word rfc_ctx 10 0x21a3e203 = 0xc78f6bfe"
  "round_word rfc_ctx 11 0x8e8353a3 = 0xfd7b3d4b"
  by code_simp+

lemma rfc_rounds_4:
  "round_word rfc_ctx 12 0xdcd8df48 = 0xfaa1faee"
  "round_word rfc_ctx 13 0x7422a94d = 0x70597695"
  "round_word rfc_ctx 14 0xac81a9dd = 0xc666d7c9"
  "round_word rfc_ctx 15 0xb2447e84 = 0x49ce22fe"
  by code_simp+

lemmas rfc_rounds = rfc_rounds_1 rfc_rounds_2 rfc_rounds_3 rfc_rounds_4

lemma rfc_key_block: "take (128 div 8) rfc_key @ replicate (16 - 128 div 8) 0 = [1, 35, 69, 103, 18, 52, 86, 120, 35, 69, 103, 137, 52, 86, 120, 154]"
  "(replicate 8 0, replicate 2 0) = ([0, 0, 0, 0, 0, 0, 0, 0] :: u8 list, [0, 0] :: u8 list)"
  by code_simp+

lemma rfc_init: "cast5_init rfc_key 128 = rfc_ctx"
  unfolding cast5_init_def Let_def rfc_key_block rfc_init_A rfc_init_M rfc_init_rM rfc_ctx_def
  by simp

text \<open>
  C10. The implementation meets the 128-bit test vector of RFC 2144, appendix B.1: with the key
  01 23 45 67 12 34 56 78 23 45 67 89 34 56 78 9A the block 01 23 45 67 89 AB CD EF is encrypted to
  23 8B 4F E5 84 7E 44 B2 and decrypted again.  The vector exercises the substitution boxes, the key
  schedule, the byte orders and the round functions together.
\<close>

theorem cast5_rfc2144_vector:
  "cast5_enc (cast5_init rfc_key 128) [0x01, 0x23, 0x45, 0x67, 0x89, 0xAB, 0xCD, 0xEF] =
     [0x23, 0x8B, 0x4F, 0xE5, 0x84, 0x7E, 0x44, 0xB2] \<and>
   cast5_dec (cast5_init rfc_key 128) [0x23, 0x8B, 0x4F, 0xE5, 0x84, 0x7E, 0x44, 0xB2] =
     [0x01, 0x23, 0x45, 0x67, 0x89, 0xAB, 0xCD, 0xEF]"
proof -
  have words: "get32 [0x01, 0x23, 0x45, 0x67, 0x89, 0xAB, 0xCD, 0xEF] 0 = 0x67452301"
    "get32 [0x01, 0x23, 0x45, 0x67, 0x89, 0xAB, 0xCD, 0xEF] 4 = 0xEFCDAB89"
    "bytes32 0xE54F8B23 = [0x23, 0x8B, 0x4F, 0xE5]" "bytes32 0xB2447E84 = [0x84, 0x7E, 0x44, 0xB2]"
    by code_simp+
  have "rounds rfc_ctx = 16" by (simp add: rounds_def rfc_ctx_def)
  then have run: "[0..<rounds rfc_ctx] = [0, 1, 2, 3, 4, 5, 6, 7, 8, 9, 10, 11, 12, 13, 14, 15]"
    by (simp add: upt_rec)
  have enc: "cast5_enc rfc_ctx [0x01, 0x23, 0x45, 0x67, 0x89, 0xAB, 0xCD, 0xEF] =
      [0x23, 0x8B, 0x4F, 0xE5, 0x84, 0x7E, 0x44, 0xB2]"
    unfolding cast5_enc_def run words
    by (simp add: rfc_rounds rfc_rounds(2) [unfolded One_nat_def] words)
  have "cast5_dec rfc_ctx (cast5_enc rfc_ctx [0x01, 0x23, 0x45, 0x67, 0x89, 0xAB, 0xCD, 0xEF]) =
      [0x01, 0x23, 0x45, 0x67, 0x89, 0xAB, 0xCD, 0xEF]"
    by (rule cast5_dec_enc_block) simp
  then show ?thesis unfolding rfc_init enc by simp
qed

end
