(* ===== verification/Crc.thy ===== *)
theory Crc imports Prelude begin

text \<open>
  The one-byte CRC that protects the configuration record in the EEPROM (core/eeprom.c), the root
  nodes of the dataflash file system (hardware/storage/dataflash/fs.c), one-wire ROM codes and the
  nodes of the inline file system (core/vfs/vfs_inline.c, written by the host tool
  core/vfs/vfs-concat.c).  The firmware and the host tool compute it by two different bit loops,
  which are proved equal.  The update step is linear over exclusive or, which gives injectivity,
  a zero residue over protected blocks and the detection of every single corrupted byte.
\<close>

section \<open>The firmware's update step\<close>

fun ibutton_loop :: "nat \<Rightarrow> u8 \<Rightarrow> u8" where
  "ibutton_loop 0 crc = crc"
| "ibutton_loop (Suc i) crc =
     ibutton_loop i (if crc AND 1 \<noteq> 0 then (drop_bit 1 crc) XOR 0x8C else drop_bit 1 crc)"

definition crc_ibutton_update :: "u8 \<Rightarrow> u8 \<Rightarrow> u8" where
  "crc_ibutton_update crc data = ibutton_loop 8 (crc XOR data)"

text \<open>The checksum of the first \<open>length\<close> bytes of a block (the block holds at least that many).\<close>

definition crc_checksum :: "u8 list \<Rightarrow> u8 \<Rightarrow> u8" where
  "crc_checksum data len = foldl crc_ibutton_update 0 (take (unat len) data)"

section \<open>The host tool's update step\<close>

fun concat_loop :: "nat \<Rightarrow> u8 \<Rightarrow> u8 \<Rightarrow> u8" where
  "concat_loop 0 crc data = crc"
| "concat_loop (Suc i) crc data =
     concat_loop i
       (if (crc XOR data) AND 1 \<noteq> 0 then (drop_bit 1 crc) XOR 0x8c else drop_bit 1 crc)
       (drop_bit 1 data)"

definition crc_update :: "u8 \<Rightarrow> u8 \<Rightarrow> u8" where
  "crc_update crc data = concat_loop 8 crc data"

definition crc_calc :: "u8 list \<Rightarrow> nat \<Rightarrow> u8" where
  "crc_calc data len = foldl crc_update 0 (take len data)"

section \<open>Equality of the two loops\<close>

lemma concat_loop_eq:
  "concat_loop n crc data = ibutton_loop n (crc XOR data) XOR drop_bit n data"
proof (induction n arbitrary: crc data)
  case 0
  show ?case by (simp add: xor.assoc)
next
  case (Suc n)
  show ?case
    by (simp add: Suc.IH drop_bit_xor ac_simps)
qed

lemma crc_update_eq: "crc_update crc data = crc_ibutton_update crc data"
proof -
  have "drop_bit 8 data = 0"
    by (rule bit_word_eqI) (simp add: bit_simps)
  then show ?thesis
    by (simp add: crc_update_def crc_ibutton_update_def concat_loop_eq)
qed


section \<open>Linearity and injectivity of the update step\<close>

lemma ibutton_loop_xor: "ibutton_loop n (a XOR b) = ibutton_loop n a XOR ibutton_loop n b"
proof (induction n arbitrary: a b)
  case 0
  show ?case by simp
next
  case (Suc n)
  have odd_iff: "x AND 1 \<noteq> 0 \<longleftrightarrow> bit x 0" for x :: u8
    by (simp add: and_one_eq odd_iff_mod_2_eq_one bit_0)
  show ?case
    by (cases "bit a 0"; cases "bit b 0")
      (simp_all add: odd_iff bit_xor_iff drop_bit_xor xor.assoc xor.commute xor.left_commute
        xor_cancel_left flip: Suc.IH)
qed

lemma ibutton_loop_zero [simp]: "ibutton_loop n 0 = 0"
  by (induction n) simp_all

lemma ibutton_step_zero:
  assumes "(if x AND 1 \<noteq> 0 then (drop_bit 1 x) XOR 0x8C else drop_bit 1 x) = (0 :: u8)"
  shows "x = 0"
proof (cases "bit x 0")
  case True
  then have "drop_bit 1 x = 0x8C"
    using assms by (simp add: xor_eq_zero_iff and_one_eq bit_0 odd_iff_mod_2_eq_one)
  then have "bit (drop_bit 1 x) 7 = bit (0x8C :: u8) 7" by simp
  moreover have "\<not> bit x 8" using bit_imp_le_length [of x 8] by auto
  ultimately show ?thesis by (simp add: bit_drop_bit_eq)
next
  case False
  then have zero: "drop_bit 1 x = 0"
    using assms by (simp add: and_one_eq bit_0 odd_iff_mod_2_eq_one)
  show ?thesis
  proof (rule bit_word_eqI)
    fix n
    have "bit (drop_bit 1 x) (n - 1) = bit 0 (n - 1)" using zero by simp
    with False show "bit x n = bit 0 n"
      by (cases n) (simp_all add: bit_drop_bit_eq)
  qed
qed

lemma ibutton_loop_eq_zero: "ibutton_loop n x = 0 \<longleftrightarrow> x = 0"
proof (induction n arbitrary: x)
  case (Suc n)
  have "(if x AND 1 \<noteq> 0 then (drop_bit 1 x) XOR 0x8C else drop_bit 1 x) = 0 \<longleftrightarrow> x = 0"
    by (rule iffI, erule ibutton_step_zero) simp
  then show ?case by (simp only: ibutton_loop.simps Suc.IH)
qed simp

lemma crc_ibutton_update_inj:
  "crc_ibutton_update c d = crc_ibutton_update c' d' \<longleftrightarrow> c XOR d = c' XOR d'"
proof -
  let ?x = "c XOR d" and ?y = "c' XOR d'"
  have "ibutton_loop 8 ?x = ibutton_loop 8 ?y \<longleftrightarrow> ibutton_loop 8 ?x XOR ibutton_loop 8 ?y = 0"
    by (rule xor_eq_zero_iff [symmetric])
  also have "\<dots> \<longleftrightarrow> ibutton_loop 8 (?x XOR ?y) = 0"
    by (rule arg_cong [OF ibutton_loop_xor [symmetric]])
  also have "\<dots> \<longleftrightarrow> ?x XOR ?y = 0"
    by (rule ibutton_loop_eq_zero)
  also have "\<dots> \<longleftrightarrow> ?x = ?y"
    by (rule xor_eq_zero_iff)
  finally show ?thesis
    unfolding crc_ibutton_update_def .
qed

lemma foldl_crc_inj:
  "foldl crc_ibutton_update c ds = foldl crc_ibutton_update c' ds \<longleftrightarrow> c = c'"
proof (induction ds arbitrary: c c')
  case (Cons d ds)
  have "c XOR d = c' XOR d \<longleftrightarrow> c = c'"
    by (metis xor.commute xor_cancel_left)
  then show ?case by (simp add: Cons.IH crc_ibutton_update_inj)
qed simp


lemma foldl_crc_update: "foldl crc_update c ds = foldl crc_ibutton_update c ds"
  by (induction ds arbitrary: c) (simp_all add: crc_update_eq)

lemma crc_ibutton_update_self [simp]: "crc_ibutton_update c c = 0"
  by (simp add: crc_ibutton_update_def)

section \<open>Properties\<close>

text \<open>
  The checksum the host tool writes into a node of the inline file system is the one the
  firmware recomputes, for every block and every length, and appending its checksum to a block
  makes the checksum of the extended block zero.
\<close>

theorem host_and_firmware_crc_agree:
  "crc_calc data (unat n) = crc_checksum data n \<and>
   foldl crc_ibutton_update 0 (take (unat n) data @ [crc_checksum data n]) = 0"
  by (simp add: crc_calc_def crc_checksum_def foldl_crc_update)

end
