(* ===== verification/Eeprom.thy ===== *)
theory Eeprom imports Crc begin

text \<open>
  The configuration record in the EEPROM (core/eeprom.c, core/eeprom.h, the start-up check of
  network.c).  The layout of \<open>struct eeprom_config_t\<close> depends on the features compiled in; a
  record of build flags stands for the preprocessor symbols.  The EEPROM itself is a map from
  addresses to bytes, read and written by avr-libc's \<open>eeprom_read_byte\<close>, \<open>eeprom_write_byte\<close> and
  \<open>eeprom_read_block\<close>.  The locale \<open>field_store\<close> is the interface the other components use:
  saving a field, restoring it, and fields that do not disturb each other.
\<close>

section \<open>Layout\<close>

record eeprom_cfg =
  ENC28J60_SUPPORT :: bool
  BOOTP_SUPPORT :: bool
  IPV4_SUPPORT :: bool
  IPV6_STATIC_SUPPORT :: bool
  DNS_SUPPORT :: bool
  NTP_SUPPORT :: bool
  HTTPD_AUTH_SUPPORT :: bool
  KTY_SUPPORT :: bool
  STELLA_SUPPORT :: bool
  STELLA_EEPROM :: bool
  IPADDR_LEN :: nat

datatype eeprom_field =
    F_mac | F_ip | F_netmask | F_gateway | F_dns_server | F_ntp_server
  | F_httpd_auth_password | F_httpd_auth_null_byte | F_kty_calibration
  | F_stella_channel_values | F_stella_fadefunc | F_stella_fadestep | F_crc

fun field_present :: "eeprom_cfg \<Rightarrow> eeprom_field \<Rightarrow> bool" where
  "field_present c F_mac = ENC28J60_SUPPORT c"
| "field_present c F_ip = (\<not> BOOTP_SUPPORT c \<or> IPV6_STATIC_SUPPORT c)"
| "field_present c F_netmask = IPV4_SUPPORT c"
| "field_present c F_gateway = True"
| "field_present c F_dns_server = DNS_SUPPORT c"
| "field_present c F_ntp_server = NTP_SUPPORT c"
| "field_present c F_httpd_auth_password = HTTPD_AUTH_SUPPORT c"
| "field_present c F_httpd_auth_null_byte = HTTPD_AUTH_SUPPORT c"
| "field_present c F_kty_calibration = KTY_SUPPORT c"
| "field_present c F_stella_channel_values = STELLA_SUPPORT c"
| "field_present c F_stella_fadefunc = STELLA_SUPPORT c"
| "field_present c F_stella_fadestep = STELLA_SUPPORT c"
| "field_present c F_crc = True"

fun field_width :: "eeprom_cfg \<Rightarrow> eeprom_field \<Rightarrow> nat" where
  "field_width c F_mac = 6"
| "field_width c F_httpd_auth_password = 8"
| "field_width c F_httpd_auth_null_byte = 1"
| "field_width c F_kty_calibration = 1"
| "field_width c F_stella_channel_values = 8"
| "field_width c F_stella_fadefunc = 1"
| "field_width c F_stella_fadestep = 1"
| "field_width c F_crc = 1"
| "field_width c _ = IPADDR_LEN c"

definition field_order :: "eeprom_field list" where
  "field_order = [F_mac, F_ip, F_netmask, F_gateway, F_dns_server, F_ntp_server,
     F_httpd_auth_password, F_httpd_auth_null_byte, F_kty_calibration,
     F_stella_channel_values, F_stella_fadefunc, F_stella_fadestep, F_crc]"

text \<open>\<open>struct eeprom_config_t\<close>: the present members in declaration order; AVR structs are packed.\<close>

definition eeprom_config_t :: "eeprom_cfg \<Rightarrow> eeprom_field list" where
  "eeprom_config_t c = filter (field_present c) field_order"

fun offset_in :: "('f \<Rightarrow> nat) \<Rightarrow> 'f list \<Rightarrow> 'f \<Rightarrow> nat" where
  "offset_in w [] f = 0"
| "offset_in w (g # gs) f = (if g = f then 0 else w g + offset_in w gs f)"

definition eeprom_offsetof :: "eeprom_cfg \<Rightarrow> eeprom_field \<Rightarrow> nat" where
  "eeprom_offsetof c f = offset_in (field_width c) (eeprom_config_t c) f"

definition sizeof_eeprom_config :: "eeprom_cfg \<Rightarrow> nat" where
  "sizeof_eeprom_config c = sum_list (map (field_width c) (eeprom_config_t c))"

section \<open>Operations\<close>

type_synonym eeprom = "nat \<Rightarrow> u8"

text \<open>The bytes are written from the last to the first.\<close>

fun eeprom_write_block_hack :: "eeprom \<Rightarrow> nat \<Rightarrow> u8 list \<Rightarrow> nat \<Rightarrow> eeprom" where
  "eeprom_write_block_hack ee dst src 0 = ee"
| "eeprom_write_block_hack ee dst src (Suc n) =
     eeprom_write_block_hack (ee(dst + n := src ! n)) dst src n"

definition eeprom_save :: "eeprom_cfg \<Rightarrow> eeprom \<Rightarrow> eeprom_field \<Rightarrow> u8 list \<Rightarrow> nat \<Rightarrow> eeprom" where
  "eeprom_save c ee f data n = eeprom_write_block_hack ee (eeprom_offsetof c f) data n"

definition eeprom_save_char :: "eeprom_cfg \<Rightarrow> eeprom \<Rightarrow> eeprom_field \<Rightarrow> u8 \<Rightarrow> eeprom" where
  "eeprom_save_char c ee f d = eeprom_save c ee f [d] 1"

definition eeprom_restore :: "eeprom_cfg \<Rightarrow> eeprom \<Rightarrow> eeprom_field \<Rightarrow> nat \<Rightarrow> u8 list" where
  "eeprom_restore c ee f n = map (\<lambda>i. ee (eeprom_offsetof c f + i)) [0..<n]"

text \<open>The loop runs over all bytes of the record but its last one, the checksum.\<close>

definition eeprom_get_chksum :: "eeprom_cfg \<Rightarrow> eeprom \<Rightarrow> u8" where
  "eeprom_get_chksum c ee =
     foldl crc_ibutton_update 0 (map ee [0..<sizeof_eeprom_config c - 1])"

definition eeprom_update_chksum :: "eeprom_cfg \<Rightarrow> eeprom \<Rightarrow> eeprom" where
  "eeprom_update_chksum c ee = eeprom_save_char c ee F_crc (eeprom_get_chksum c ee)"

text \<open>The compiled-in defaults (\<open>CONF_*\<close> and the generated \<open>set_CONF_*\<close> macros).\<close>

record eeprom_defaults =
  CONF_ETHERRAPE_MAC :: "u8 list"
  CONF_ETHERRAPE_IP :: "u8 list"
  CONF_ETHERRAPE_GATEWAY :: "u8 list"
  CONF_ETHERRAPE_IP4_NETMASK :: "u8 list"
  CONF_DNS_SERVER :: "u8 list"
  CONF_HTTPD_PASSWORD :: "u8 list"

text \<open>A save compiled in when the build flag \<open>b\<close> is set.\<close>

definition eeprom_save_if ::
    "bool \<Rightarrow> eeprom_cfg \<Rightarrow> eeprom \<Rightarrow> eeprom_field \<Rightarrow> u8 list \<Rightarrow> nat \<Rightarrow> eeprom" where
  "eeprom_save_if b c ee f data n = (if b then eeprom_save c ee f data n else ee)"

definition eeprom_init :: "eeprom_cfg \<Rightarrow> eeprom_defaults \<Rightarrow> eeprom \<Rightarrow> eeprom" where
  "eeprom_init c d ee0 =
    (let l = IPADDR_LEN c;
         ip_block = (IPV4_SUPPORT c \<and> \<not> BOOTP_SUPPORT c \<or> IPV6_STATIC_SUPPORT c);
         ee1 = eeprom_save_if (ENC28J60_SUPPORT c) c ee0 F_mac (CONF_ETHERRAPE_MAC d) 6;
         ee2 = eeprom_save_if ip_block c ee1 F_ip (CONF_ETHERRAPE_IP d) l;
         ee3 = eeprom_save_if ip_block c ee2 F_gateway (CONF_ETHERRAPE_GATEWAY d) l;
         ee4 = eeprom_save_if (ip_block \<and> IPV4_SUPPORT c) c ee3
                 F_netmask (CONF_ETHERRAPE_IP4_NETMASK d) l;
         ee5 = eeprom_save_if (DNS_SUPPORT c) c ee4 F_dns_server (CONF_DNS_SERVER d) l;
         ee6 = eeprom_save_if (HTTPD_AUTH_SUPPORT c) c ee5
                 F_httpd_auth_password (CONF_HTTPD_PASSWORD d) 8;
         ee7 = eeprom_save_if (HTTPD_AUTH_SUPPORT c) c ee6 F_httpd_auth_null_byte [0] 1;
         ee8 = eeprom_save_if (KTY_SUPPORT c) c ee7 F_kty_calibration [0] 1;
         ee9 = eeprom_save_if (STELLA_EEPROM c) c ee8 F_stella_channel_values (replicate 10 0) 10
     in eeprom_update_chksum c ee9)"

text \<open>The start-up check of network.c: an invalid checksum resets the record to the defaults.\<close>

definition network_check_config :: "eeprom_cfg \<Rightarrow> eeprom_defaults \<Rightarrow> eeprom \<Rightarrow> eeprom" where
  "network_check_config c d ee =
    (if [eeprom_get_chksum c ee] \<noteq> eeprom_restore c ee F_crc 1 then eeprom_init c d ee else ee)"


section \<open>Reads after writes\<close>

lemma eeprom_write_block_hack_apply [buf_simps]:
  "eeprom_write_block_hack ee dst src n a =
     (if dst \<le> a \<and> a < dst + n then src ! (a - dst) else ee a)"
  by (induction n arbitrary: ee) auto

lemma offset_in_bound: "f \<in> set gs \<Longrightarrow> offset_in w gs f + w f \<le> sum_list (map w gs)"
  by (induction gs) auto

lemma offset_in_disjoint:
  assumes "f \<in> set gs" "g \<in> set gs" "f \<noteq> g"
  shows "offset_in w gs f + w f \<le> offset_in w gs g \<or> offset_in w gs g + w g \<le> offset_in w gs f"
  using assms by (induction gs) auto

lemma offset_in_append:
  "f \<notin> set as \<Longrightarrow> offset_in w (as @ bs) f = sum_list (map w as) + offset_in w bs f"
  by (induction as) auto

lemma offset_in_append1: "f \<in> set as \<Longrightarrow> offset_in w (as @ bs) f = offset_in w as f"
  by (induction as) auto

lemma in_eeprom_config [simp]: "f \<in> set (eeprom_config_t c) \<longleftrightarrow> field_present c f"
  by (cases f) (simp_all add: eeprom_config_t_def field_order_def)

lemma offsetof_crc: "eeprom_offsetof c F_crc + 1 = sizeof_eeprom_config c"
proof -
  have "eeprom_config_t c = filter (field_present c) (butlast field_order) @ [F_crc]"
    by (simp add: eeprom_config_t_def field_order_def)
  moreover have "F_crc \<notin> set (filter (field_present c) (butlast field_order))"
    by (simp add: field_order_def)
  ultimately show ?thesis
    by (simp add: eeprom_offsetof_def sizeof_eeprom_config_def offset_in_append)
qed

text \<open>The interface: fields of fixed width that are saved and restored independently.\<close>

locale field_store =
  fixes save :: "'m \<Rightarrow> 'f \<Rightarrow> u8 list \<Rightarrow> nat \<Rightarrow> 'm"
    and restore :: "'m \<Rightarrow> 'f \<Rightarrow> nat \<Rightarrow> u8 list"
    and present :: "'f \<Rightarrow> bool"
    and width :: "'f \<Rightarrow> nat"
  assumes restore_save: "present f \<Longrightarrow> length d = n \<Longrightarrow> restore (save m f d n) f n = d"
    and restore_other: "present f \<Longrightarrow> present g \<Longrightarrow> f \<noteq> g \<Longrightarrow> n \<le> width f \<Longrightarrow> k \<le> width g \<Longrightarrow>
      restore (save m f d n) g k = restore m g k"
begin

definition save_all :: "'m \<Rightarrow> ('f \<times> u8 list) list \<Rightarrow> 'm" where
  "save_all m fs = foldl (\<lambda>m (f, d). save m f d (length d)) m fs"

definition fits :: "('f \<times> u8 list) list \<Rightarrow> bool" where
  "fits fs \<longleftrightarrow> distinct (map fst fs) \<and> (\<forall>(f, d) \<in> set fs. present f \<and> length d \<le> width f)"

lemma restore_save_all_other:
  "fits fs \<Longrightarrow> g \<notin> fst ` set fs \<Longrightarrow> present g \<Longrightarrow> k \<le> width g \<Longrightarrow>
     restore (save_all m fs) g k = restore m g k"
proof (induction fs arbitrary: m)
  case (Cons x fs)
  then show ?case
    by (cases x) (auto simp: save_all_def fits_def restore_other)
qed (simp add: save_all_def)

text \<open>A batch of saves to distinct fields can be read back field by field.\<close>

lemma restore_save_all:
  "fits fs \<Longrightarrow> (f, d) \<in> set fs \<Longrightarrow> restore (save_all m fs) f (length d) = d"
proof (induction fs arbitrary: m)
  case (Cons x fs)
  obtain g e where x: "x = (g, e)" by fastforce
  have fits: "fits fs" using Cons.prems(1) by (simp add: fits_def)
  have step: "save_all m ((g, e) # fs) = save_all (save m g e (length e)) fs"
    by (simp add: save_all_def)
  show ?case
  proof (cases "(f, d) = x")
    case True
    then have "f \<notin> fst ` set fs" "present f" "length d \<le> width f"
      using Cons.prems(1) x by (auto simp: fits_def image_iff)
    then show ?thesis
      using True x fits by (simp add: step restore_save_all_other restore_save)
  next
    case False
    then show ?thesis using Cons.IH [OF fits] Cons.prems(2) x by (auto simp: step)
  qed
qed simp

end

lemma eeprom_restore_save:
  "length d = n \<Longrightarrow> eeprom_restore c (eeprom_save c ee f d n) f n = d"
  by (rule nth_equalityI) (auto simp: eeprom_restore_def eeprom_save_def buf_simps)

lemma eeprom_restore_other:
  assumes "field_present c f" "field_present c g" "f \<noteq> g"
    and "n \<le> field_width c f" "k \<le> field_width c g"
  shows "eeprom_restore c (eeprom_save c ee f d n) g k = eeprom_restore c ee g k"
  using offset_in_disjoint [of f "eeprom_config_t c" g "field_width c"] assms
  by (auto simp: eeprom_restore_def eeprom_save_def eeprom_offsetof_def buf_simps)

interpretation ee: field_store "eeprom_save c" "eeprom_restore c" "field_present c" "field_width c"
  for c
  by unfold_locales (simp_all add: eeprom_restore_save eeprom_restore_other)


section \<open>The checksum\<close>

lemma eeprom_get_chksum_cong:
  "(\<And>a. a + 1 < sizeof_eeprom_config c \<Longrightarrow> ee a = ee' a) \<Longrightarrow>
     eeprom_get_chksum c ee = eeprom_get_chksum c ee'"
  unfolding eeprom_get_chksum_def by (rule arg_cong [of _ _ "foldl _ _"], rule map_cong) auto

lemma eeprom_restore_crc: "eeprom_restore c ee F_crc 1 = [ee (sizeof_eeprom_config c - 1)]"
  by (simp add: eeprom_restore_def flip: offsetof_crc)

lemma eeprom_update_chksum_apply:
  "eeprom_update_chksum c ee = ee (sizeof_eeprom_config c - 1 := eeprom_get_chksum c ee)"
  by (rule ext) (auto simp: eeprom_update_chksum_def eeprom_save_char_def eeprom_save_def
      buf_simps simp flip: offsetof_crc)

definition config_valid :: "eeprom_cfg \<Rightarrow> eeprom \<Rightarrow> bool" where
  "config_valid c ee \<longleftrightarrow> ee (sizeof_eeprom_config c - 1) = eeprom_get_chksum c ee"

lemma config_valid_update [simp]: "config_valid c (eeprom_update_chksum c ee)"
proof -
  let ?ee = "eeprom_update_chksum c ee"
  have "eeprom_get_chksum c ?ee = eeprom_get_chksum c ee"
    by (rule eeprom_get_chksum_cong) (auto simp: eeprom_update_chksum_apply)
  then show ?thesis
    by (simp add: config_valid_def eeprom_update_chksum_apply [of c ee])
qed

lemma config_valid_init [simp]: "config_valid c (eeprom_init c d ee)"
  by (simp add: eeprom_init_def Let_def)

lemma network_check_config_alt:
  "network_check_config c d ee = (if config_valid c ee then ee else eeprom_init c d ee)"
  unfolding network_check_config_def eeprom_restore_crc config_valid_def by auto

lemma foldl_crc_single_byte:
  assumes "d \<noteq> d'"
  shows "foldl crc_ibutton_update c (as @ d # bs) \<noteq> foldl crc_ibutton_update c (as @ d' # bs)"
proof -
  let ?c = "foldl crc_ibutton_update c as"
  have "?c XOR d \<noteq> ?c XOR d'"
    using assms by (metis xor_cancel_left)
  then show ?thesis by (simp add: foldl_crc_inj crc_ibutton_update_inj)
qed

lemma config_valid_corrupt:
  assumes valid: "config_valid c ee" and a: "a < sizeof_eeprom_config c" and x: "x \<noteq> ee a"
  shows "\<not> config_valid c (ee(a := x))"
proof (cases "a + 1 = sizeof_eeprom_config c")
  case True
  then have "eeprom_get_chksum c (ee(a := x)) = eeprom_get_chksum c ee"
    by (intro eeprom_get_chksum_cong) auto
  with valid x True show ?thesis by (auto simp: config_valid_def)
next
  case False
  define n where "n = sizeof_eeprom_config c - 1"
  have n: "a < n" using a False by (simp add: n_def)
  have split: "[0..<n] = [0..<a] @ a # [Suc a..<n]"
    using n upt_add_eq_append [of 0 a "n - a"] by (simp add: upt_conv_Cons)
  have chk: "eeprom_get_chksum c e = foldl crc_ibutton_update 0 (map e [0..<a] @ e a # map e [Suc a..<n])"
    for e unfolding eeprom_get_chksum_def n_def [symmetric] split by simp
  have same: "map (ee(a := x)) [0..<a] = map ee [0..<a]"
    "map (ee(a := x)) [Suc a..<n] = map ee [Suc a..<n]"
    by auto
  have "eeprom_get_chksum c (ee(a := x)) =
      foldl crc_ibutton_update 0 (map ee [0..<a] @ x # map ee [Suc a..<n])"
    unfolding chk same by simp
  also have "\<dots> \<noteq> eeprom_get_chksum c ee"
    unfolding chk using x by (rule foldl_crc_single_byte)
  finally have "eeprom_get_chksum c (ee(a := x)) \<noteq> eeprom_get_chksum c ee" .
  moreover have "(ee(a := x)) n = ee n" using n by simp
  ultimately show ?thesis
    using valid unfolding config_valid_def n_def [symmetric] by metis
qed


section \<open>Properties\<close>

lemma restore_save_if_other:
  assumes "b \<Longrightarrow> field_present c f" "field_present c g" "f \<noteq> g"
    and "b \<Longrightarrow> n \<le> field_width c f" "k \<le> field_width c g"
  shows "eeprom_restore c (eeprom_save_if b c ee f d n) g k = eeprom_restore c ee g k"
  using assms by (simp add: eeprom_save_if_def ee.restore_other)

lemma restore_update_chksum:
  "field_present c g \<Longrightarrow> g \<noteq> F_crc \<Longrightarrow> k \<le> field_width c g \<Longrightarrow>
     eeprom_restore c (eeprom_update_chksum c ee) g k = eeprom_restore c ee g k"
  by (simp add: eeprom_update_chksum_def eeprom_save_char_def ee.restore_other)

text \<open>
  A configuration record whose checksum is valid loses its validity as soon as one of its
  bytes, the checksum included, changes to another value; the start-up check then replaces the
  record by the defaults, with a valid checksum.
\<close>

theorem corrupted_config_is_reset:
  assumes "config_valid c ee" and "a < sizeof_eeprom_config c" and "x \<noteq> ee a"
  shows "network_check_config c d (ee(a := x)) = eeprom_init c d (ee(a := x)) \<and>
    config_valid c (network_check_config c d (ee(a := x)))"
  using config_valid_corrupt [OF assms] by (simp add: network_check_config_alt)

definition example_cfg :: eeprom_cfg where
  "example_cfg = \<lparr>ENC28J60_SUPPORT = True, BOOTP_SUPPORT = False, IPV4_SUPPORT = True,
     IPV6_STATIC_SUPPORT = False, DNS_SUPPORT = True, NTP_SUPPORT = False,
     HTTPD_AUTH_SUPPORT = True, KTY_SUPPORT = False, STELLA_SUPPORT = False,
     STELLA_EEPROM = False, IPADDR_LEN = 4\<rparr>"

definition example_defaults :: eeprom_defaults where
  "example_defaults = \<lparr>CONF_ETHERRAPE_MAC = [2, 0, 0, 0, 0, 1], CONF_ETHERRAPE_IP = [10, 0, 0, 2],
     CONF_ETHERRAPE_GATEWAY = [10, 0, 0, 1], CONF_ETHERRAPE_IP4_NETMASK = [255, 255, 255, 0],
     CONF_DNS_SERVER = [10, 0, 0, 1], CONF_HTTPD_PASSWORD = [101, 120, 0, 0, 0, 0, 0, 0]\<rparr>"

theorem corrupted_config_is_reset_witness:
  "network_check_config example_cfg example_defaults ((\<lambda>_. 0)(0 := 1)) =
     eeprom_init example_cfg example_defaults ((\<lambda>_. 0)(0 := 1))"
proof -
  have size: "sizeof_eeprom_config example_cfg = 32"
    by (simp add: sizeof_eeprom_config_def eeprom_config_t_def field_order_def example_cfg_def)
  have zeros: "foldl crc_ibutton_update 0 (map (\<lambda>_. 0) ns) = 0" for ns :: "nat list"
    by (induction ns) (simp_all add: crc_ibutton_update_def)
  have "config_valid example_cfg (\<lambda>_. 0)"
    unfolding config_valid_def eeprom_get_chksum_def by (simp only: zeros)
  then show ?thesis
    using corrupted_config_is_reset [of example_cfg "\<lambda>_. 0" 0 1 example_defaults] size by simp
qed


text \<open>
  C0. The start-up check always leaves a record with a valid checksum, a second check changes
  nothing, and the defaults written by \<open>eeprom_init\<close> can be restored: the MAC address, the IP
  address, gateway and netmask, the DNS server and the HTTP password each read back as configured,
  whatever the EEPROM held before (for a build without BOOTP in which the defaults have the widths
  of their fields).
\<close>

theorem eeprom_init_restores:
  assumes "ENC28J60_SUPPORT c" "IPV4_SUPPORT c" "\<not> BOOTP_SUPPORT c" "DNS_SUPPORT c"
    "HTTPD_AUTH_SUPPORT c" "\<not> STELLA_EEPROM c"
    and "length (CONF_ETHERRAPE_MAC d) = 6" "length (CONF_ETHERRAPE_IP d) = IPADDR_LEN c"
    "length (CONF_ETHERRAPE_GATEWAY d) = IPADDR_LEN c"
    "length (CONF_ETHERRAPE_IP4_NETMASK d) = IPADDR_LEN c"
    "length (CONF_DNS_SERVER d) = IPADDR_LEN c" "length (CONF_HTTPD_PASSWORD d) = 8"
  shows "config_valid c (network_check_config c d ee) \<and>
    network_check_config c d (network_check_config c d ee) = network_check_config c d ee \<and>
    eeprom_restore c (eeprom_init c d ee) F_mac 6 = CONF_ETHERRAPE_MAC d \<and>
    eeprom_restore c (eeprom_init c d ee) F_ip (IPADDR_LEN c) = CONF_ETHERRAPE_IP d \<and>
    eeprom_restore c (eeprom_init c d ee) F_gateway (IPADDR_LEN c) = CONF_ETHERRAPE_GATEWAY d \<and>
    eeprom_restore c (eeprom_init c d ee) F_netmask (IPADDR_LEN c) = CONF_ETHERRAPE_IP4_NETMASK d \<and>
    eeprom_restore c (eeprom_init c d ee) F_dns_server (IPADDR_LEN c) = CONF_DNS_SERVER d \<and>
    eeprom_restore c (eeprom_init c d ee) F_httpd_auth_password 8 = CONF_HTTPD_PASSWORD d \<and>
    eeprom_restore c (eeprom_init c d ee) F_httpd_auth_null_byte 1 = [0]"
proof -
  have same: "eeprom_restore c (eeprom_save_if True c e f x n) f n = x" if "length x = n" for e f x n
    using that by (simp add: eeprom_save_if_def eeprom_restore_save)
  note rules = restore_save_if_other restore_update_chksum same
  have "config_valid c (network_check_config c d ee)"
    and "network_check_config c d (network_check_config c d ee) = network_check_config c d ee"
    by (simp_all add: network_check_config_alt)
  then show ?thesis
    using assms unfolding eeprom_init_def Let_def by (simp add: rules)
qed

theorem eeprom_init_restores_witness:
  "eeprom_restore example_cfg (eeprom_init example_cfg example_defaults (\<lambda>_. 255)) F_mac 6 =
     [2, 0, 0, 0, 0, 1]"
proof -
  have "eeprom_restore example_cfg (eeprom_init example_cfg example_defaults (\<lambda>_. 255)) F_mac 6 =
      CONF_ETHERRAPE_MAC example_defaults"
    by (rule eeprom_init_restores [THEN conjunct2, THEN conjunct2, THEN conjunct1])
      (simp_all add: example_cfg_def example_defaults_def)
  then show ?thesis by (simp add: example_defaults_def)
qed

end
