(* ===== verification/Stella.thy ===== *)
theory Stella imports Eeprom begin

text \<open>
  Stella, the pulse-width modulation of lamps (services/stella/stella.c, stella.h,
  stella_fading_functions.h and the interrupt handlers of stella_pwm.c).  The main loop sorts the
  channels by brightness into a timetable, an index-linked list inside an array; the interrupts
  walk a second timetable and switch the pins on.  The two tables are exchanged by the overflow
  interrupt, by way of \<open>stella_sync\<close>.  The model is that of a build without gamma correction;
  \<open>STELLA_PINS\<close> is the number of channels of the state and \<open>STELLA_OFFSET\<close> a parameter.
\<close>

section \<open>State\<close>

datatype stella_update_sync = NOTHING_NEW | NEW_VALUES | UPDATE_VALUES

datatype stella_set_function =
  STELLA_SET_IMMEDIATELY | STELLA_SET_FADE | STELLA_SET_FLASHY | STELLA_SET_IMMEDIATELY_RELATIVE

text \<open>Pointers to entries are indices into the table's own array, \<open>None\<close> the null pointer.\<close>

record stella_timetable_entry =
  e_portmask :: u8
  e_value :: u8
  e_next :: "nat option"

record stella_timetable =
  channel :: "stella_timetable_entry list"
  head :: "nat option"
  portmask :: u8

text \<open>
  \<open>int_table\<close> and \<open>cal_table\<close> are the tables the two pointers of the source point to; \<open>current\<close> is
  an entry of \<open>int_table\<close>.
\<close>

record stella_state =
  stella_brightness :: "u8 list"
  stella_fade :: "u8 list"
  stella_fade_func :: nat
  stella_fade_step :: u8
  stella_fade_counter :: u8
  stella_sync :: stella_update_sync
  stella_portmask_neg :: u8
  int_table :: stella_timetable
  cal_table :: stella_timetable
  current :: "nat option"
  STELLA_PORT :: u8
  OUTPUT_COMPARE :: u8

definition STELLA_PINS :: "stella_state \<Rightarrow> nat" where
  "STELLA_PINS s = length (stella_brightness s)"

definition BV :: "nat \<Rightarrow> u8" where "BV n = push_bit n 1"

section \<open>Setting channels\<close>

definition stella_setValue ::
    "stella_set_function \<Rightarrow> nat \<Rightarrow> u8 \<Rightarrow> stella_state \<Rightarrow> stella_state" where
  "stella_setValue func ch val s =
    (if ch \<ge> STELLA_PINS s then s
     else case func of
       STELLA_SET_IMMEDIATELY \<Rightarrow>
         s\<lparr>stella_brightness := (stella_brightness s)[ch := val],
           stella_fade := (stella_fade s)[ch := val], stella_sync := UPDATE_VALUES\<rparr>
     | STELLA_SET_FADE \<Rightarrow> s\<lparr>stella_fade := (stella_fade s)[ch := val]\<rparr>
     | STELLA_SET_FLASHY \<Rightarrow>
         s\<lparr>stella_brightness := (stella_brightness s)[ch := val],
           stella_fade := (stella_fade s)[ch := 0], stella_sync := UPDATE_VALUES\<rparr>
     | STELLA_SET_IMMEDIATELY_RELATIVE \<Rightarrow>
         s\<lparr>stella_brightness := (stella_brightness s)[ch := stella_brightness s ! ch + val],
           stella_fade := (stella_fade s)[ch := stella_fade s ! ch + val],
           stella_sync := UPDATE_VALUES\<rparr>)"

definition stella_getValue :: "stella_state \<Rightarrow> nat \<Rightarrow> u8" where
  "stella_getValue s ch = stella_brightness s ! ch"

text \<open>The first byte of the data selects the function; other values than those of the enumeration
  fall through the \<open>switch\<close>.\<close>

definition set_function :: "u8 \<Rightarrow> stella_set_function option" where
  "set_function b =
    (if b = 0 then Some STELLA_SET_IMMEDIATELY
     else if b = 1 then Some STELLA_SET_FADE
     else if b = 2 then Some STELLA_SET_FLASHY
     else if b = 3 then Some STELLA_SET_IMMEDIATELY_RELATIVE
     else None)"

definition stella_dmx :: "u8 list \<Rightarrow> nat \<Rightarrow> stella_state \<Rightarrow> stella_state" where
  "stella_dmx dmx_data len s =
    (if len < 2 then s
     else let len = len - 1;
              len = (if STELLA_PINS s < len then STELLA_PINS s else len)
       in fold (\<lambda>i s. case set_function (dmx_data ! 0) of
                  Some func \<Rightarrow> stella_setValue func i (dmx_data ! (i + 1)) s
                | None \<Rightarrow> s) [0..<len] s)"

section \<open>Fading\<close>

definition stella_fade_normal :: "nat \<Rightarrow> stella_state \<Rightarrow> stella_state" where
  "stella_fade_normal i s =
    s\<lparr>stella_brightness := (stella_brightness s)[i :=
        (if stella_brightness s ! i > stella_fade s ! i
         then stella_brightness s ! i - 1 else stella_brightness s ! i + 1)]\<rparr>"

definition stella_fade_flashy :: "nat \<Rightarrow> stella_state \<Rightarrow> stella_state" where
  "stella_fade_flashy i s =
    (let cur = stella_brightness s ! i;
         target = stella_fade s ! i;
         target = (if cur > target then push_bit 1 target else target);
         cur = (if cur < target then target else cur)
     in s\<lparr>stella_brightness := (stella_brightness s)[i := cur]\<rparr>)"

definition stella_fade_funcs :: "(nat \<Rightarrow> stella_state \<Rightarrow> stella_state) list" where
  "stella_fade_funcs = [stella_fade_normal, stella_fade_flashy]"

text \<open>The body of the loop over the channels in \<open>stella_process\<close>.\<close>

definition fade_channel :: "nat \<Rightarrow> stella_state \<Rightarrow> stella_state" where
  "fade_channel i s =
    (if stella_brightness s ! i = stella_fade s ! i then s
     else ((stella_fade_funcs ! stella_fade_func s) i s)\<lparr>stella_fade_counter := 1\<rparr>)"

section \<open>Sorting\<close>

definition update_entry ::
    "nat \<Rightarrow> (stella_timetable_entry \<Rightarrow> stella_timetable_entry) \<Rightarrow> stella_timetable \<Rightarrow> stella_timetable" where
  "update_entry c f t = t\<lparr>channel := (channel t)[c := f (channel t ! c)]\<rparr>"

text \<open>The search for the place of channel \<open>i\<close>; \<open>pin\<close> is its pin.\<close>

partial_function (option) insert_loop ::
    "u8 \<Rightarrow> nat \<Rightarrow> nat option \<Rightarrow> nat option \<Rightarrow> stella_timetable \<Rightarrow> stella_timetable option" where
  "insert_loop pin i cur lst t =
    (case cur of
       None \<Rightarrow> Some t
     | Some c \<Rightarrow>
         if e_value (channel t ! c) = e_value (channel t ! i) then
           Some (update_entry c (\<lambda>e. e\<lparr>e_portmask := e_portmask e OR pin\<rparr>) t)
         else if lst = None \<and> e_value (channel t ! c) > e_value (channel t ! i) then
           Some ((update_entry i (\<lambda>e. e\<lparr>e_next := head t\<rparr>) t)\<lparr>head := Some i\<rparr>)
         else if e_value (channel t ! c) > e_value (channel t ! i) then
           (case lst of
              None \<Rightarrow> None
            | Some l \<Rightarrow> Some (update_entry l (\<lambda>e. e\<lparr>e_next := Some i\<rparr>)
                (update_entry i (\<lambda>e. e\<lparr>e_next := e_next (channel t ! l)\<rparr>) t)))
         else if e_next (channel t ! c) = None then
           Some (update_entry c (\<lambda>e. e\<lparr>e_next := Some i\<rparr>) t)
         else insert_loop pin i (e_next (channel t ! c)) (Some c) t)"

text \<open>The loop body of \<open>stella_sort\<close>.\<close>

definition sort_channel :: "nat \<Rightarrow> u8 list \<Rightarrow> nat \<Rightarrow> stella_timetable \<Rightarrow> stella_timetable option" where
  "sort_channel off bright i t =
    (let t = t\<lparr>channel := (channel t)[i :=
           \<lparr>e_portmask = BV (i + off), e_value = 255 - bright ! i, e_next = None\<rparr>]\<rparr>
     in if bright ! i = 0 then Some t
        else if bright ! i = 255 then Some (t\<lparr>portmask := portmask t OR BV (i + off)\<rparr>)
        else if head t = None then Some (t\<lparr>head := Some i\<rparr>)
        else insert_loop (BV (i + off)) i (head t) None t)"

fun sort_channels :: "nat \<Rightarrow> u8 list \<Rightarrow> nat list \<Rightarrow> stella_timetable \<Rightarrow> stella_timetable option" where
  "sort_channels off bright [] t = Some t"
| "sort_channels off bright (i # is) t =
     (case sort_channel off bright i t of
        None \<Rightarrow> None
      | Some t \<Rightarrow> sort_channels off bright is t)"

definition stella_sort :: "nat \<Rightarrow> stella_state \<Rightarrow> stella_state option" where
  "stella_sort off s =
    (case sort_channels off (stella_brightness s) [0..<STELLA_PINS s]
            ((cal_table s)\<lparr>portmask := 0, head := None\<rparr>) of
       None \<Rightarrow> None
     | Some t \<Rightarrow> Some (s\<lparr>cal_table := t, stella_sync := NEW_VALUES\<rparr>))"

definition stella_process :: "nat \<Rightarrow> stella_state \<Rightarrow> stella_state option" where
  "stella_process off s =
    (let s = (if stella_fade_counter s = 0
              then let s = fold fade_channel [0..<STELLA_PINS s] s;
                       s = (if stella_fade_counter s \<noteq> 0 then s\<lparr>stella_sync := UPDATE_VALUES\<rparr> else s)
                   in s\<lparr>stella_fade_counter := stella_fade_step s\<rparr>
              else s)
     in if stella_sync s = UPDATE_VALUES then stella_sort off s else Some s)"

section \<open>Initialisation and storage\<close>

datatype stella_start = START_NOTHING | START_EEPROM | START_ALL

definition stella_loadFromEEROMFading :: "eeprom_cfg \<Rightarrow> eeprom \<Rightarrow> stella_state \<Rightarrow> stella_state" where
  "stella_loadFromEEROMFading c ee s =
    s\<lparr>stella_fade := eeprom_restore c ee F_stella_channel_values 8\<rparr>"

definition stella_loadFromEEROM :: "eeprom_cfg \<Rightarrow> eeprom \<Rightarrow> stella_state \<Rightarrow> stella_state" where
  "stella_loadFromEEROM c ee s =
    (let s = s\<lparr>stella_fade := eeprom_restore c ee F_stella_channel_values 8\<rparr>
     in s\<lparr>stella_brightness := take 8 (stella_fade s), stella_sync := UPDATE_VALUES\<rparr>)"

definition stella_storeToEEROM :: "eeprom_cfg \<Rightarrow> stella_state \<Rightarrow> eeprom \<Rightarrow> eeprom" where
  "stella_storeToEEROM c s ee = eeprom_save c ee F_stella_channel_values (stella_brightness s) 8"

definition stella_init ::
    "stella_start \<Rightarrow> eeprom_cfg \<Rightarrow> eeprom \<Rightarrow> nat \<Rightarrow> stella_state \<Rightarrow> stella_state option" where
  "stella_init start c ee off s =
    (let pins = push_bit off (of_nat (2 ^ STELLA_PINS s - 1) :: u8);
         s = s\<lparr>int_table := (int_table s)\<lparr>head := None, portmask := 0\<rparr>,
               cal_table := (cal_table s)\<lparr>head := None, portmask := 0\<rparr>,
               stella_sync := NOTHING_NEW,
               stella_portmask_neg := NOT pins,
               stella_fade_counter := stella_fade_step s\<rparr>;
         s = (case start of
                START_EEPROM \<Rightarrow> stella_loadFromEEROMFading c ee s
              | START_ALL \<Rightarrow> s\<lparr>stella_fade := map (\<lambda>_. 1) (stella_fade s)\<rparr>
              | START_NOTHING \<Rightarrow> s)
     in stella_sort off s)"

definition stella_output_channels :: "stella_state \<Rightarrow> nat \<times> u8 list" where
  "stella_output_channels s = (STELLA_PINS s, take 8 (stella_brightness s))"

section \<open>Interrupts\<close>

definition VECTOR_OUTPUT_COMPARE2 :: "stella_state \<Rightarrow> stella_state" where
  "VECTOR_OUTPUT_COMPARE2 s =
    (case current s of
       None \<Rightarrow> s
     | Some c \<Rightarrow>
         let e = channel (int_table s) ! c;
             s = s\<lparr>STELLA_PORT := STELLA_PORT s OR e_portmask e, current := e_next e\<rparr>
         in case current s of
              None \<Rightarrow> s
            | Some c \<Rightarrow> s\<lparr>OUTPUT_COMPARE := e_value (channel (int_table s) ! c)\<rparr>)"

definition VECTOR_OVERFLOW2 :: "stella_state \<Rightarrow> stella_state" where
  "VECTOR_OVERFLOW2 s =
    (let s = (if stella_sync s = NEW_VALUES
              then s\<lparr>int_table := cal_table s, cal_table := int_table s, stella_sync := NOTHING_NEW\<rparr>
              else s);
         s = (if stella_fade_counter s \<noteq> 0
              then s\<lparr>stella_fade_counter := stella_fade_counter s - 1\<rparr> else s);
         s = s\<lparr>current := head (int_table s),
               STELLA_PORT := (STELLA_PORT s AND stella_portmask_neg s) OR portmask (int_table s)\<rparr>
     in case current s of
          None \<Rightarrow> s
        | Some c \<Rightarrow> s\<lparr>OUTPUT_COMPARE := e_value (channel (int_table s) ! c)\<rparr>)"


section \<open>The timetable as a sorted list\<close>

text \<open>\<open>chain ch p xs q\<close>: the links lead from \<open>p\<close> through the entries \<open>xs\<close> to \<open>q\<close>.\<close>

fun chain :: "stella_timetable_entry list \<Rightarrow> nat option \<Rightarrow> nat list \<Rightarrow> nat option \<Rightarrow> bool" where
  "chain ch p [] q \<longleftrightarrow> p = q"
| "chain ch p (a # as) q \<longleftrightarrow> p = Some a \<and> a < length ch \<and> chain ch (e_next (ch ! a)) as q"

lemma chain_append: "chain ch p (as @ bs) q \<longleftrightarrow> (\<exists>m. chain ch p as m \<and> chain ch m bs q)"
  by (induction as arbitrary: p) auto

lemma chain_cong:
  "chain ch p as q \<Longrightarrow> length ch' = length ch \<Longrightarrow> (\<And>a. a \<in> set as \<Longrightarrow> e_next (ch' ! a) = e_next (ch ! a)) \<Longrightarrow>
     chain ch' p as q"
  by (induction as arbitrary: p) auto

lemma chain_bound: "chain ch p as q \<Longrightarrow> set as \<subseteq> {..<length ch}"
  by (induction as arbitrary: p) auto

abbreviation vals :: "stella_timetable_entry list \<Rightarrow> nat list \<Rightarrow> u8 list" where
  "vals ch xs \<equiv> map (\<lambda>x. e_value (ch ! x)) xs"

text \<open>What the insertion of entry \<open>i\<close> into the list \<open>xs\<close> may do.\<close>

definition merged :: "u8 \<Rightarrow> nat \<Rightarrow> nat list \<Rightarrow> stella_timetable \<Rightarrow> stella_timetable \<Rightarrow> bool" where
  "merged pin i xs t t' \<longleftrightarrow> (\<exists>d \<in> set xs. e_value (channel t ! d) = e_value (channel t ! i) \<and>
     t' = update_entry d (\<lambda>e. e\<lparr>e_portmask := e_portmask e OR pin\<rparr>) t)"

definition linked :: "nat \<Rightarrow> nat list \<Rightarrow> stella_timetable \<Rightarrow> stella_timetable \<Rightarrow> bool" where
  "linked i xs t t' \<longleftrightarrow> (\<exists>ys zs. xs = ys @ zs \<and>
     (\<forall>y \<in> set ys. e_value (channel t ! y) < e_value (channel t ! i)) \<and>
     (\<forall>z \<in> set zs. e_value (channel t ! i) < e_value (channel t ! z)) \<and>
     chain (channel t') (head t') (ys @ i # zs) None \<and>
     portmask t' = portmask t \<and> length (channel t') = length (channel t) \<and>
     (\<forall>x. e_value (channel t' ! x) = e_value (channel t ! x) \<and>
          e_portmask (channel t' ! x) = e_portmask (channel t ! x)))"

lemma update_entry_nth:
  "c < length (channel t) \<Longrightarrow>
     channel (update_entry c f t) ! x = (if x = c then f (channel t ! c) else channel t ! x)"
  by (simp add: update_entry_def)

lemma update_entry_simps [simp]:
  "head (update_entry c f t) = head t" "portmask (update_entry c f t) = portmask t"
  "length (channel (update_entry c f t)) = length (channel t)"
  by (simp_all add: update_entry_def)

text \<open>Linking \<open>i\<close> between \<open>ys\<close> and \<open>zs\<close>, at the head, after the last element, and in between.\<close>

lemma link_head:
  assumes "chain (channel t) (head t) zs None" "i < length (channel t)" "i \<notin> set zs"
    and "\<And>z. z \<in> set zs \<Longrightarrow> e_value (channel t ! i) < e_value (channel t ! z)"
  shows "linked i zs t ((update_entry i (\<lambda>e. e\<lparr>e_next := head t\<rparr>) t)\<lparr>head := Some i\<rparr>)"
proof -
  let ?t = "update_entry i (\<lambda>e. e\<lparr>e_next := head t\<rparr>) t"
  have "chain (channel ?t) (head t) zs None"
    using assms(1) by (rule chain_cong) (use assms(2,3) in \<open>auto simp: update_entry_nth\<close>)
  then have "chain (channel ?t) (Some i) ([] @ i # zs) None"
    using assms(2) by (simp add: update_entry_nth)
  then show ?thesis
    unfolding linked_def using assms(2,4)
    by (intro exI [of _ "[]"] exI [of _ zs]) (simp add: update_entry_nth)
qed

lemma link_between:
  assumes ch: "chain (channel t) (head t) (ys @ l # zs) None"
    and i: "i < length (channel t)" "i \<notin> set (ys @ l # zs)" and "distinct (ys @ l # zs)"
    and less: "\<And>y. y \<in> set (ys @ [l]) \<Longrightarrow> e_value (channel t ! y) < e_value (channel t ! i)"
      "\<And>z. z \<in> set zs \<Longrightarrow> e_value (channel t ! i) < e_value (channel t ! z)"
  shows "linked i (ys @ l # zs) t (update_entry l (\<lambda>e. e\<lparr>e_next := Some i\<rparr>)
    (update_entry i (\<lambda>e. e\<lparr>e_next := e_next (channel t ! l)\<rparr>) t))" (is "linked _ _ _ ?t'")
proof -
  have l: "l < length (channel t)" "l \<noteq> i" using chain_bound [OF ch] i by auto
  have next': "e_next (channel ?t' ! x) =
      (if x = l then Some i else if x = i then e_next (channel t ! l) else e_next (channel t ! x))" for x
    using l i(1) by (simp add: update_entry_nth)
  have segs: "chain (channel t) (head t) ys (Some l)" "chain (channel t) (e_next (channel t ! l)) zs None"
    using ch by (auto simp: chain_append)
  have "chain (channel ?t') (head t) ys (Some l)"
    using segs(1) by (rule chain_cong) (use i(2) assms(4) next' in auto)
  moreover have "chain (channel ?t') (e_next (channel t ! l)) zs None"
    using segs(2) by (rule chain_cong) (use i(2) assms(4) next' in auto)
  ultimately have "chain (channel ?t') (head ?t') ((ys @ [l]) @ i # zs) None"
    using l i(1) next' by (auto simp: chain_append)
  then show ?thesis
    unfolding linked_def using less l i(1)
    by (intro exI [of _ "ys @ [l]"] exI [of _ zs]) (auto simp: update_entry_nth)
qed

lemma update_entry_same: "c < length (channel t) \<Longrightarrow> f (channel t ! c) = channel t ! c \<Longrightarrow> update_entry c f t = t"
  by (simp add: update_entry_def)

text \<open>The loop's outcome where it stops: at an equal, at a larger, or at the last entry.\<close>

lemma insert_loop_stop:
  assumes "chain (channel t) (head t) (ys @ c # zs) None" "distinct (ys @ c # zs)"
    and "i < length (channel t)" "i \<notin> set (ys @ c # zs)" "e_next (channel t ! i) = None"
    and "\<And>y. y \<in> set ys \<Longrightarrow> e_value (channel t ! y) < e_value (channel t ! i)"
    and "sorted_wrt (<) (vals (channel t) (c # zs))"
    and "e_value (channel t ! i) \<le> e_value (channel t ! c) \<or> zs = []"
  shows "\<exists>t'. insert_loop pin i (Some c) (if ys = [] then None else Some (last ys)) t = Some t' \<and>
    (merged pin i (ys @ c # zs) t t' \<or> linked i (ys @ c # zs) t t')"
proof -
  let ?v = "\<lambda>x. e_value (channel t ! x)"
  have tail: "?v i < ?v z" if "?v i < ?v c" "z \<in> set (c # zs)" for z
    using that assms(7) by auto
  consider "?v c = ?v i" | "?v i < ?v c" "ys = []" | "?v i < ?v c" "ys \<noteq> []" | "?v c < ?v i" "zs = []"
    using assms(8) by fastforce
  then show ?thesis
  proof cases
    case 1
    then show ?thesis
      by (subst insert_loop.simps) (auto simp: merged_def)
  next
    case 2
    then have "linked i (c # zs) t ((update_entry i (\<lambda>e. e\<lparr>e_next := head t\<rparr>) t)\<lparr>head := Some i\<rparr>)"
      using assms(1-4) tail by (intro link_head) auto
    then show ?thesis using 2 by (subst insert_loop.simps) auto
  next
    case 3
    then obtain ys' l where ys: "ys = ys' @ [l]" by (cases ys rule: rev_cases) auto
    have "linked i (ys' @ l # c # zs) t (update_entry l (\<lambda>e. e\<lparr>e_next := Some i\<rparr>)
        (update_entry i (\<lambda>e. e\<lparr>e_next := e_next (channel t ! l)\<rparr>) t))"
      using assms(1-4,6) tail 3 by (intro link_between) (auto simp: ys)
    then show ?thesis using 3 by (subst insert_loop.simps) (auto simp: ys)
  next
    case 4
    then have none: "e_next (channel t ! c) = None" using assms(1) by (auto simp: chain_append)
    have "linked i (ys @ c # zs) t (update_entry c (\<lambda>e. e\<lparr>e_next := Some i\<rparr>)
        (update_entry i (\<lambda>e. e\<lparr>e_next := e_next (channel t ! c)\<rparr>) t))"
      using assms(1-4,6) 4 by (intro link_between) auto
    moreover have "update_entry i (\<lambda>e. e\<lparr>e_next := e_next (channel t ! c)\<rparr>) t = t"
      using assms(3,5) none by (intro update_entry_same) auto
    ultimately show ?thesis
      using 4 none by (subst insert_loop.simps) auto
  qed
qed

lemma insert_loop_spec:
  assumes "chain (channel t) (head t) (ys @ c # zs) None" "distinct (ys @ c # zs)"
    and "i < length (channel t)" "i \<notin> set (ys @ c # zs)" "e_next (channel t ! i) = None"
    and "\<And>y. y \<in> set ys \<Longrightarrow> e_value (channel t ! y) < e_value (channel t ! i)"
    and "sorted_wrt (<) (vals (channel t) (c # zs))"
  shows "\<exists>t'. insert_loop pin i (Some c) (if ys = [] then None else Some (last ys)) t = Some t' \<and>
    (merged pin i (ys @ c # zs) t t' \<or> linked i (ys @ c # zs) t t')"
  using assms
proof (induction zs arbitrary: ys c)
  case (Nil ys c)
  show ?case by (rule insert_loop_stop [OF Nil]) simp_all
next
  case (Cons z zs ys c)
  show ?case
  proof (cases "e_value (channel t ! i) \<le> e_value (channel t ! c)")
    case True
    show ?thesis by (rule insert_loop_stop [OF Cons.prems]) (use True in auto)
  next
    case False
    then have less: "e_value (channel t ! c) < e_value (channel t ! i)" by simp
    have next': "e_next (channel t ! c) = Some z" using Cons.prems(1) by (auto simp: chain_append)
    have "insert_loop pin i (Some c) (if ys = [] then None else Some (last ys)) t =
        insert_loop pin i (Some z) (if ys @ [c] = [] then None else Some (last (ys @ [c]))) t"
      using less next' by (subst insert_loop.simps) auto
    moreover have "\<exists>t'. insert_loop pin i (Some z) (if ys @ [c] = [] then None else Some (last (ys @ [c]))) t = Some t' \<and>
        (merged pin i ((ys @ [c]) @ z # zs) t t' \<or> linked i ((ys @ [c]) @ z # zs) t t')"
      by (rule Cons.IH) (use Cons.prems less in auto)
    ultimately show ?thesis by simp
  qed
qed


lemma sorted_vals_distinct: "sorted_wrt (<) (vals ch xs) \<Longrightarrow> distinct xs"
  by (induction xs) auto

section \<open>Sorting all channels\<close>

text \<open>Channels neither off nor fully on; and what an entry and a table say about the channels below \<open>k\<close>.\<close>

definition dimmed :: "u8 \<Rightarrow> bool" where
  "dimmed b \<longleftrightarrow> b \<noteq> 0 \<and> b \<noteq> 255"

definition entry_ok :: "nat \<Rightarrow> u8 list \<Rightarrow> nat \<Rightarrow> u8 \<Rightarrow> u8 \<Rightarrow> bool" where
  "entry_ok off bright k pm v \<longleftrightarrow>
     (\<forall>n. bit pm n \<longleftrightarrow> (\<exists>j<k. n = j + off \<and> dimmed (bright ! j) \<and> 255 - bright ! j = v))"

definition table_ok :: "nat \<Rightarrow> u8 list \<Rightarrow> nat \<Rightarrow> stella_timetable \<Rightarrow> nat list \<Rightarrow> bool" where
  "table_ok off bright k t xs \<longleftrightarrow>
     chain (channel t) (head t) xs None \<and> length (channel t) = length bright \<and>
     set xs \<subseteq> {..<k} \<and> sorted_wrt (<) (vals (channel t) xs) \<and>
     set (vals (channel t) xs) = {255 - bright ! j | j. j < k \<and> dimmed (bright ! j)} \<and>
     (\<forall>x \<in> set xs. entry_ok off bright k (e_portmask (channel t ! x)) (e_value (channel t ! x))) \<and>
     (\<forall>n. bit (portmask t) n \<longleftrightarrow> (\<exists>j<k. n = j + off \<and> bright ! j = 255))"

lemma bit_BV [simp]: "bit (BV k) n \<longleftrightarrow> n = k \<and> k < 8"
  by (auto simp: BV_def bit_push_bit_iff bit_exp_iff)

lemma less_Suc_ex: "(\<exists>j<Suc k. P j) \<longleftrightarrow> (\<exists>j<k. P j) \<or> P k"
  using less_Suc_eq by blast

lemma entry_ok_Suc_other:
  "entry_ok off bright k pm v \<Longrightarrow> \<not> (dimmed (bright ! k) \<and> 255 - bright ! k = v) \<Longrightarrow>
     entry_ok off bright (Suc k) pm v"
  by (auto simp: entry_ok_def less_Suc_ex)

lemma entry_ok_Suc_same:
  "entry_ok off bright k pm (255 - bright ! k) \<Longrightarrow> dimmed (bright ! k) \<Longrightarrow> k + off < 8 \<Longrightarrow>
     entry_ok off bright (Suc k) (pm OR BV (k + off)) (255 - bright ! k)"
  by (auto simp: entry_ok_def less_Suc_ex bit_or_iff)

lemma entry_ok_new:
  assumes "dimmed (bright ! k)" "k + off < 8"
    and "255 - bright ! k \<notin> {255 - bright ! j | j. j < k \<and> dimmed (bright ! j)}"
  shows "entry_ok off bright (Suc k) (BV (k + off)) (255 - bright ! k)"
  using assms by (auto simp: entry_ok_def less_Suc_ex)

lemma values_Suc:
  "{255 - bright ! j | j. j < Suc k \<and> dimmed (bright ! j)} =
   (if dimmed (bright ! k) then insert (255 - bright ! k) {255 - bright ! j | j. j < k \<and> dimmed (bright ! j)}
    else {255 - bright ! j | j. j < k \<and> dimmed (bright ! j)})"
  by (auto simp: less_Suc_eq)

text \<open>Initialising entry \<open>k\<close> does not disturb the list.\<close>

lemma table_ok_init_entry:
  fixes e :: stella_timetable_entry
  assumes "table_ok off bright k t xs" "k < length bright"
    and t0_def: "t0 = t\<lparr>channel := (channel t)[k := e]\<rparr>"
  shows "chain (channel t0) (head t0) xs None" "vals (channel t0) xs = vals (channel t) xs"
    "\<And>x. x \<in> set xs \<Longrightarrow> channel t0 ! x = channel t ! x" "channel t0 ! k = e" "k \<notin> set xs"
    "length (channel t0) = length bright" "portmask t0 = portmask t" "head t0 = head t"
proof -
  show k: "k \<notin> set xs" using assms(1) by (auto simp: table_ok_def)
  then show same: "channel t0 ! x = channel t ! x" if "x \<in> set xs" for x
  proof -
    have "x \<noteq> k" using that k by auto
    then show ?thesis by (simp add: t0_def)
  qed
  then show "vals (channel t0) xs = vals (channel t) xs" by simp
  have "chain (channel t) (head t) xs None" using assms(1) by (simp add: table_ok_def)
  then show "chain (channel t0) (head t0) xs None"
    using same chain_cong [of "channel t" "head t" xs None "channel t0"] by (simp add: t0_def)
  show "channel t0 ! k = e" "length (channel t0) = length bright" "portmask t0 = portmask t" "head t0 = head t"
    using assms by (simp_all add: t0_def table_ok_def)
qed

text \<open>The two outcomes of the insertion preserve what the table says.\<close>

lemma table_ok_merged:
  assumes "chain (channel t0) (head t0) xs None" "length (channel t0) = length bright" "set xs \<subseteq> {..<k}"
    and "sorted_wrt (<) (vals (channel t0) xs)"
    and vset: "set (vals (channel t0) xs) = {255 - bright ! j | j. j < k \<and> dimmed (bright ! j)}"
    and entry: "\<And>x. x \<in> set xs \<Longrightarrow>
      entry_ok off bright k (e_portmask (channel t0 ! x)) (e_value (channel t0 ! x))"
    and pm: "\<And>n. bit (portmask t0) n \<longleftrightarrow> (\<exists>j<k. n = j + off \<and> bright ! j = 255)"
    and k: "k < length bright" "k + off < 8" "dimmed (bright ! k)" "e_value (channel t0 ! k) = 255 - bright ! k"
    and merged: "merged (BV (k + off)) k xs t0 t'"
  shows "table_ok off bright (Suc k) t' xs"
proof -
  obtain d where d: "d \<in> set xs" "e_value (channel t0 ! d) = 255 - bright ! k"
    and t': "t' = update_entry d (\<lambda>e. e\<lparr>e_portmask := e_portmask e OR BV (k + off)\<rparr>) t0"
    using merged k(4) by (auto simp: merged_def)
  have dl: "d < length (channel t0)" using d(1) assms(2,3) k(1) by auto
  have same: "e_value (channel t' ! x) = e_value (channel t0 ! x)" "e_next (channel t' ! x) = e_next (channel t0 ! x)" for x
    using dl by (simp_all add: t' update_entry_nth)
  have t'_simps: "head t' = head t0" "portmask t' = portmask t0" "length (channel t') = length (channel t0)"
    by (simp_all add: t')
  have "chain (channel t') (head t') xs None"
    unfolding t'_simps using assms(1) by (rule chain_cong) (simp_all add: same t'_simps)
  moreover have "entry_ok off bright (Suc k) (e_portmask (channel t' ! x)) (e_value (channel t' ! x))"
    if "x \<in> set xs" for x
  proof (cases "x = d")
    case True
    then show ?thesis
      using entry [OF d(1)] d(2) k dl entry_ok_Suc_same [of off bright k] by (simp add: t' update_entry_nth)
  next
    case False
    have "distinct (vals (channel t0) xs)"
      using assms(4) by (induction xs) auto
    then have "e_value (channel t0 ! x) \<noteq> e_value (channel t0 ! d)"
      using that d(1) False by (auto simp: distinct_map inj_on_def)
    then show ?thesis
      using entry [OF that] False d(2) dl by (simp add: t' update_entry_nth entry_ok_Suc_other)
  qed
  moreover have "255 - bright ! k \<in> set (vals (channel t0) xs)" using d by force
  moreover have "bright ! k \<noteq> 255" using k(3) by (simp add: dimmed_def)
  ultimately show ?thesis
    using assms(2-4) vset pm k(3) unfolding table_ok_def
    by (auto simp: same t'_simps values_Suc less_Suc_ex insert_absorb)
qed

lemma table_ok_linked:
  assumes "set xs \<subseteq> {..<k}" "length (channel t0) = length bright"
    and "sorted_wrt (<) (vals (channel t0) xs)"
    and vset: "set (vals (channel t0) xs) = {255 - bright ! j | j. j < k \<and> dimmed (bright ! j)}"
    and entry: "\<And>x. x \<in> set xs \<Longrightarrow>
      entry_ok off bright k (e_portmask (channel t0 ! x)) (e_value (channel t0 ! x))"
    and pm: "\<And>n. bit (portmask t0) n \<longleftrightarrow> (\<exists>j<k. n = j + off \<and> bright ! j = 255)"
    and k: "k + off < 8" "dimmed (bright ! k)" "e_value (channel t0 ! k) = 255 - bright ! k"
      "e_portmask (channel t0 ! k) = BV (k + off)"
    and linked: "linked k xs t0 t'"
  shows "\<exists>xs'. table_ok off bright (Suc k) t' xs'"
proof -
  let ?v = "\<lambda>x. e_value (channel t0 ! x)"
  obtain ys zs where xs: "xs = ys @ zs" and less: "\<And>y. y \<in> set ys \<Longrightarrow> ?v y < ?v k" "\<And>z. z \<in> set zs \<Longrightarrow> ?v k < ?v z"
    and t': "chain (channel t') (head t') (ys @ k # zs) None" "portmask t' = portmask t0"
      "length (channel t') = length (channel t0)" "\<And>x. e_value (channel t' ! x) = ?v x"
      "\<And>x. e_portmask (channel t' ! x) = e_portmask (channel t0 ! x)"
    using linked unfolding linked_def by blast
  have "?v k \<notin> set (vals (channel t0) xs)" using less by (force simp: xs)
  then have new: "255 - bright ! k \<notin> {255 - bright ! j | j. j < k \<and> dimmed (bright ! j)}"
    using vset k(3) by simp
  have "entry_ok off bright (Suc k) (e_portmask (channel t0 ! x)) (?v x)" if "x \<in> set (ys @ k # zs)" for x
  proof (cases "x = k")
    case True
    then show ?thesis using entry_ok_new [OF k(2,1) new] k by simp
  next
    case False
    then have x: "x \<in> set xs" using that xs by auto
    then have "?v x \<noteq> ?v k" using less by (force simp: xs)
    then show ?thesis using entry [OF x] k(3) by (intro entry_ok_Suc_other) auto
  qed
  moreover have "sorted_wrt (<) (vals (channel t0) (ys @ k # zs))"
    using assms(3) less by (force simp: xs sorted_wrt_append)
  moreover have "set (vals (channel t0) (ys @ k # zs)) = insert (255 - bright ! k) (set (vals (channel t0) xs))"
    using k(3) by (auto simp: xs)
  moreover have "bright ! k \<noteq> 255" using k(2) by (simp add: dimmed_def)
  ultimately have "table_ok off bright (Suc k) t' (ys @ k # zs)"
    unfolding table_ok_def
    using assms(1,2) t' vset pm k(2) by (auto simp: xs values_Suc less_Suc_ex)
  then show ?thesis ..
qed

lemma sort_channel_spec:
  assumes ok: "table_ok off bright k t xs" and k: "k < length bright" "k + off < 8"
  shows "\<exists>t' xs'. sort_channel off bright k t = Some t' \<and> table_ok off bright (Suc k) t' xs'"
proof -
  define e where "e = \<lparr>e_portmask = BV (k + off), e_value = 255 - bright ! k, e_next = None\<rparr>"
  define t0 where "t0 = t\<lparr>channel := (channel t)[k := e]\<rparr>"
  note init = table_ok_init_entry [OF ok k(1) t0_def]
  have entry: "entry_ok off bright k (e_portmask (channel t0 ! x)) (e_value (channel t0 ! x))" if "x \<in> set xs" for x
    using ok that init(3) by (simp add: table_ok_def)
  have pm: "bit (portmask t0) n \<longleftrightarrow> (\<exists>j<k. n = j + off \<and> bright ! j = 255)" for n
    using ok init(7) by (simp add: table_ok_def)
  have sorted: "sorted_wrt (<) (vals (channel t0) xs)"
    and vset: "set (vals (channel t0) xs) = {255 - bright ! j | j. j < k \<and> dimmed (bright ! j)}"
    and sub: "set xs \<subseteq> {..<k}"
    unfolding init(2) using ok by (simp_all add: table_ok_def)
  have sort: "sort_channel off bright k t = (if bright ! k = 0 then Some t0
      else if bright ! k = 255 then Some (t0\<lparr>portmask := portmask t0 OR BV (k + off)\<rparr>)
      else if head t0 = None then Some (t0\<lparr>head := Some k\<rparr>)
      else insert_loop (BV (k + off)) k (head t0) None t0)"
    by (simp add: sort_channel_def e_def t0_def Let_def)
  show ?thesis
  proof (cases "dimmed (bright ! k)")
    case False
    have base: "set (vals (channel t0) xs) = {255 - bright ! j | j. j < Suc k \<and> dimmed (bright ! j)}"
      unfolding vset values_Suc using False by simp
    have entries: "\<forall>x \<in> set xs. entry_ok off bright (Suc k) (e_portmask (channel t0 ! x)) (e_value (channel t0 ! x))"
      using entry False by (blast intro: entry_ok_Suc_other)
    have sub': "set xs \<subseteq> {..<Suc k}" using sub by auto
    have "table_ok off bright (Suc k) t0 xs" if "bright ! k = 0"
      unfolding table_ok_def
      by (intro conjI; (fact init(1) init(6) sub' sorted base entries)?) (simp add: pm less_Suc_ex that)
    moreover have "table_ok off bright (Suc k) (t0\<lparr>portmask := portmask t0 OR BV (k + off)\<rparr>) xs"
      if "bright ! k = 255"
    proof -
      have "bit (portmask t0 OR BV (k + off)) n \<longleftrightarrow> (\<exists>j<Suc k. n = j + off \<and> bright ! j = 255)" for n
        using k(2) by (auto simp: pm less_Suc_ex that bit_or_iff)
      then show ?thesis
        using init(1,6) sub' sorted base entries by (simp add: table_ok_def)
    qed
    ultimately show ?thesis
      using False by (auto simp: sort dimmed_def)
  next
    case True
    have val: "e_value (channel t0 ! k) = 255 - bright ! k" "e_portmask (channel t0 ! k) = BV (k + off)"
      "e_next (channel t0 ! k) = None"
      using init(4) by (simp_all add: e_def)
    show ?thesis
    proof (cases xs)
      case Nil
      then have none: "head t0 = None" using init(1) by simp
      have "linked k [] t0 ((update_entry k (\<lambda>e. e\<lparr>e_next := head t0\<rparr>) t0)\<lparr>head := Some k\<rparr>)"
        using init(1,6) k(1) Nil by (intro link_head) auto
      moreover have "update_entry k (\<lambda>e. e\<lparr>e_next := head t0\<rparr>) t0 = t0"
        using init(6) k(1) val(3) none by (intro update_entry_same) auto
      ultimately have "\<exists>xs'. table_ok off bright (Suc k) (t0\<lparr>head := Some k\<rparr>) xs'"
        using Nil sub sorted vset entry pm k(2) True val init(6)
        by (intro table_ok_linked [of "[]" k t0]) auto
      then show ?thesis using True none by (auto simp: sort dimmed_def)
    next
      case (Cons c zs)
      then have head: "head t0 = Some c" using init(1) by simp
      obtain t' where t': "insert_loop (BV (k + off)) k (Some c) None t0 = Some t'"
        "merged (BV (k + off)) k xs t0 t' \<or> linked k xs t0 t'"
        using insert_loop_spec [of t0 "[]" c zs k "BV (k + off)"] init(1,5,6) k(1) val(3) sorted
          sorted_vals_distinct [OF sorted] Cons by auto
      have "\<exists>xs'. table_ok off bright (Suc k) t' xs'"
        using t'(2) table_ok_merged [OF init(1,6) sub sorted vset entry pm k True val(1)]
          table_ok_linked [OF sub init(6) sorted vset entry pm k(2) True val(1,2)] by blast
      then show ?thesis using True head t'(1) by (auto simp: sort dimmed_def)
    qed
  qed
qed


lemma sort_channels_spec:
  "k \<le> length bright \<Longrightarrow> length bright + off \<le> 8 \<Longrightarrow> table_ok off bright k t xs \<Longrightarrow>
     \<exists>t' xs'. sort_channels off bright [k..<length bright] t = Some t' \<and>
       table_ok off bright (length bright) t' xs'"
proof (induction "length bright - k" arbitrary: k t xs)
  case 0
  then show ?case by auto
next
  case (Suc n)
  then have k: "k < length bright" by simp
  obtain t1 xs1 where t1: "sort_channel off bright k t = Some t1" "table_ok off bright (Suc k) t1 xs1"
    using sort_channel_spec [OF Suc.prems(3) k] Suc.prems(2) k by auto
  show ?case
    using Suc.hyps(1) [of "Suc k" t1 xs1] Suc.hyps(2) Suc.prems(2) k t1
    by (simp add: upt_conv_Cons)
qed

lemma stella_sort_spec:
  assumes "length (channel (cal_table s)) = STELLA_PINS s" "STELLA_PINS s + off \<le> 8"
  shows "\<exists>t xs. stella_sort off s = Some (s\<lparr>cal_table := t, stella_sync := NEW_VALUES\<rparr>) \<and>
    table_ok off (stella_brightness s) (STELLA_PINS s) t xs"
proof -
  have "table_ok off (stella_brightness s) 0 ((cal_table s)\<lparr>portmask := 0, head := None\<rparr>) []"
    using assms(1) by (simp add: table_ok_def STELLA_PINS_def)
  then show ?thesis
    using sort_channels_spec [of 0 "stella_brightness s" off] assms(2)
    by (fastforce simp: stella_sort_def STELLA_PINS_def)
qed

section \<open>A period of the pulse-width modulation\<close>

text \<open>The timer counts up; the compare interrupt fires when it meets the compare register.\<close>

definition pwm_count :: "nat \<Rightarrow> stella_state \<Rightarrow> stella_state" where
  "pwm_count t s = (if unat (OUTPUT_COMPARE s) = t then VECTOR_OUTPUT_COMPARE2 s else s)"

text \<open>The timer at \<open>T\<close>: the entries \<open>ys\<close> are done, \<open>zs\<close> are to come.\<close>

definition pwm_at :: "nat \<Rightarrow> u8 \<Rightarrow> stella_timetable \<Rightarrow> nat list \<Rightarrow> nat list \<Rightarrow> stella_state \<Rightarrow> bool" where
  "pwm_at T base tab ys zs s \<longleftrightarrow> int_table s = tab \<and>
     chain (channel tab) (current s) zs None \<and>
     (zs \<noteq> [] \<longrightarrow> OUTPUT_COMPARE s = e_value (channel tab ! hd zs)) \<and>
     (\<forall>y \<in> set ys. unat (e_value (channel tab ! y)) \<le> T) \<and>
     (\<forall>z \<in> set zs. T < unat (e_value (channel tab ! z))) \<and>
     sorted_wrt (<) (vals (channel tab) zs) \<and>
     (\<forall>n. bit (STELLA_PORT s) n \<longleftrightarrow> bit base n \<or> (\<exists>y \<in> set ys. bit (e_portmask (channel tab ! y)) n))"

lemma pwm_count_step:
  assumes "pwm_at T base tab ys zs s"
  shows "\<exists>ys' zs'. pwm_at (Suc T) base tab ys' zs' (pwm_count (Suc T) s) \<and> ys' @ zs' = ys @ zs"
proof (cases zs)
  case Nil
  then have "current s = None" using assms by (auto simp: pwm_at_def)
  then have "pwm_count (Suc T) s = s" by (simp add: pwm_count_def VECTOR_OUTPUT_COMPARE2_def)
  then show ?thesis
    using assms Nil by (intro exI [of _ ys] exI [of _ "[]"]) (auto simp: pwm_at_def le_Suc_eq)
next
  case (Cons z zs')
  have cur: "current s = Some z" and ocr: "OUTPUT_COMPARE s = e_value (channel tab ! z)"
    and tab: "int_table s = tab" and rest: "chain (channel tab) (e_next (channel tab ! z)) zs' None"
    using assms Cons by (auto simp: pwm_at_def)
  show ?thesis
  proof (cases "unat (e_value (channel tab ! z)) = Suc T")
    case False
    have "\<forall>x \<in> set zs. Suc T < unat (e_value (channel tab ! x))"
      using assms False Cons by (auto simp: pwm_at_def word_less_nat_alt)
    then have "pwm_at (Suc T) base tab ys zs s"
      using assms by (auto simp: pwm_at_def le_Suc_eq)
    then show ?thesis using False ocr by (auto simp: pwm_count_def)
  next
    case True
    have later: "\<forall>x \<in> set zs'. Suc T < unat (e_value (channel tab ! x))"
      using assms True Cons by (auto simp: pwm_at_def word_less_nat_alt)
    have step: "int_table (pwm_count (Suc T) s) = tab" "current (pwm_count (Suc T) s) = e_next (channel tab ! z)"
      "STELLA_PORT (pwm_count (Suc T) s) = STELLA_PORT s OR e_portmask (channel tab ! z)"
      "\<And>c. e_next (channel tab ! z) = Some c \<Longrightarrow> OUTPUT_COMPARE (pwm_count (Suc T) s) = e_value (channel tab ! c)"
      using True cur ocr tab
      by (auto simp: pwm_count_def VECTOR_OUTPUT_COMPARE2_def Let_def split: option.split)
    have hd: "e_next (channel tab ! z) = Some (hd zs')" if "zs' \<noteq> []" using rest that by (cases zs') auto
    have "pwm_at (Suc T) base tab (ys @ [z]) zs' (pwm_count (Suc T) s)"
      using assms Cons True later rest hd
      by (auto simp: pwm_at_def step bit_or_iff le_Suc_eq)
    then show ?thesis using Cons by (intro exI [of _ "ys @ [z]"] exI [of _ zs']) simp
  qed
qed

lemma pwm_counts:
  assumes "pwm_at 0 base tab [] xs s"
  shows "\<exists>ys zs. pwm_at T base tab ys zs (fold pwm_count [1..<Suc T] s) \<and> ys @ zs = xs"
proof (induction T)
  case 0
  then show ?case using assms by auto
next
  case (Suc T)
  then obtain ys zs where IH: "pwm_at T base tab ys zs (fold pwm_count [1..<Suc T] s)" "ys @ zs = xs" by blast
  have "fold pwm_count [1..<Suc (Suc T)] s = pwm_count (Suc T) (fold pwm_count [1..<Suc T] s)" by simp
  then show ?case using pwm_count_step [OF IH(1)] IH(2) by metis
qed

text \<open>The overflow interrupt starts a period.\<close>

lemma overflow_starts:
  assumes tab: "table_ok off bright n tab xs"
    and "tab = (if stella_sync s = NEW_VALUES then cal_table s else int_table s)"
  shows "pwm_at 0 ((STELLA_PORT s AND stella_portmask_neg s) OR portmask tab) tab [] xs (VECTOR_OVERFLOW2 s)"
proof -
  have ch: "chain (channel tab) (head tab) xs None" and sorted: "sorted_wrt (<) (vals (channel tab) xs)"
    and vset: "set (vals (channel tab) xs) = {255 - bright ! j | j. j < n \<and> dimmed (bright ! j)}"
    using tab by (simp_all add: table_ok_def)
  have pos: "0 < unat (e_value (channel tab ! x))" if "x \<in> set xs" for x
  proof -
    have "e_value (channel tab ! x) \<in> set (vals (channel tab) xs)" using that by simp
    then obtain j where "e_value (channel tab ! x) = 255 - bright ! j" "bright ! j \<noteq> 255"
      unfolding vset dimmed_def by auto
    then have "e_value (channel tab ! x) \<noteq> 0" by auto
    then show ?thesis by (simp add: unat_gt_0)
  qed
  have state: "int_table (VECTOR_OVERFLOW2 s) = tab" "current (VECTOR_OVERFLOW2 s) = head tab"
    "STELLA_PORT (VECTOR_OVERFLOW2 s) = (STELLA_PORT s AND stella_portmask_neg s) OR portmask tab"
    "\<And>c. head tab = Some c \<Longrightarrow> OUTPUT_COMPARE (VECTOR_OVERFLOW2 s) = e_value (channel tab ! c)"
    unfolding assms(2) by (auto simp: VECTOR_OVERFLOW2_def Let_def split: option.split)
  have hd: "head tab = Some (hd xs)" if "xs \<noteq> []" using ch that by (cases xs) auto
  show ?thesis
    using ch sorted pos state hd by (auto simp: pwm_at_def)
qed


text \<open>After \<open>T\<close> counts exactly the channels whose time has come are on.\<close>

lemma pwm_pins:
  assumes tab: "table_ok off bright n tab xs" and at: "pwm_at T base tab ys zs s" and xs: "ys @ zs = xs"
    and j: "j < n"
  shows "(\<exists>y \<in> set ys. bit (e_portmask (channel tab ! y)) (j + off)) \<longleftrightarrow>
    dimmed (bright ! j) \<and> 255 \<le> unat (bright ! j) + T"
proof -
  let ?v = "\<lambda>x. e_value (channel tab ! x)"
  have entry: "bit (e_portmask (channel tab ! x)) (j + off) \<longleftrightarrow> dimmed (bright ! j) \<and> 255 - bright ! j = ?v x"
    if "x \<in> set xs" for x
    using tab that j by (auto simp: table_ok_def entry_ok_def)
  have time: "unat (255 - bright ! j) = 255 - unat (bright ! j)"
    by (simp add: unat_sub_small)
  show ?thesis
  proof
    assume "\<exists>y \<in> set ys. bit (e_portmask (channel tab ! y)) (j + off)"
    then obtain y where y: "y \<in> set ys" "dimmed (bright ! j)" "255 - bright ! j = ?v y"
      using entry xs by auto
    then have "unat (255 - bright ! j) \<le> T" using at by (auto simp: pwm_at_def)
    then show "dimmed (bright ! j) \<and> 255 \<le> unat (bright ! j) + T" using y(2) time by simp
  next
    assume on: "dimmed (bright ! j) \<and> 255 \<le> unat (bright ! j) + T"
    then have "255 - bright ! j \<in> set (vals (channel tab) xs)" using tab j by (auto simp: table_ok_def)
    then obtain x where x: "x \<in> set xs" "?v x = 255 - bright ! j" by auto
    have "255 - unat (bright ! j) \<le> T" using on by linarith
    then have "unat (?v x) \<le> T" unfolding x(2) time .
    then have "x \<in> set ys" using x(1) at by (auto simp: pwm_at_def simp flip: xs)
    then show "\<exists>y \<in> set ys. bit (e_portmask (channel tab ! y)) (j + off)"
      using entry [OF x(1)] on x(2) by auto
  qed
qed

lemma pwm_other_pins:
  assumes tab: "table_ok off bright n tab xs" and xs: "set ys \<subseteq> set xs" and k: "k < off \<or> off + n \<le> k"
  shows "\<not> bit (portmask tab) k" "\<not> (\<exists>y \<in> set ys. bit (e_portmask (channel tab ! y)) k)"
  using tab xs k by (fastforce simp: table_ok_def entry_ok_def)+

definition own_pins :: "nat \<Rightarrow> nat \<Rightarrow> u8 \<Rightarrow> bool" where
  "own_pins off n neg \<longleftrightarrow> (\<forall>k<8. bit neg k \<longleftrightarrow> k < off \<or> off + n \<le> k)"

lemma pwm_period:
  fixes T :: nat
  assumes tab: "table_ok off bright n tab xs" and n: "length bright = n" "off + n \<le> 8"
    and "tab = (if stella_sync s = NEW_VALUES then cal_table s else int_table s)"
    and neg: "own_pins off n (stella_portmask_neg s)"
  defines "s' \<equiv> fold pwm_count [1..<Suc T] (VECTOR_OVERFLOW2 s)"
  shows "j < n \<Longrightarrow> bit (STELLA_PORT s') (j + off) \<longleftrightarrow> bright ! j \<noteq> 0 \<and> 255 \<le> unat (bright ! j) + T"
    and "k < off \<or> off + n \<le> k \<Longrightarrow> bit (STELLA_PORT s') k \<longleftrightarrow> bit (STELLA_PORT s) k"
proof -
  let ?base = "(STELLA_PORT s AND stella_portmask_neg s) OR portmask tab"
  obtain ys zs where at: "pwm_at T ?base tab ys zs s'" and xs: "ys @ zs = xs"
    using pwm_counts [OF overflow_starts [OF tab assms(4)], of T] unfolding s'_def by blast
  have port: "bit (STELLA_PORT s') k \<longleftrightarrow> bit ?base k \<or> (\<exists>y \<in> set ys. bit (e_portmask (channel tab ! y)) k)" for k
    using at by (simp add: pwm_at_def)
  show "bit (STELLA_PORT s') k \<longleftrightarrow> bit (STELLA_PORT s) k" if k: "k < off \<or> off + n \<le> k"
  proof -
    have "set ys \<subseteq> set xs" using xs by auto
    moreover have "k < 8 \<Longrightarrow> bit (stella_portmask_neg s) k" using neg k by (simp add: own_pins_def)
    ultimately show ?thesis
      using pwm_other_pins [OF tab _ k, of ys] unfolding port
      by (auto simp: bit_or_iff bit_and_iff dest: bit_imp_le_length)
  qed
  show "bit (STELLA_PORT s') (j + off) \<longleftrightarrow> bright ! j \<noteq> 0 \<and> 255 \<le> unat (bright ! j) + T" if j: "j < n"
  proof -
    have "\<not> bit (stella_portmask_neg s) (j + off)" using neg j n by (simp add: own_pins_def)
    moreover have "bit (portmask tab) (j + off) \<longleftrightarrow> bright ! j = 255"
      using tab j by (auto simp: table_ok_def)
    moreover have "bright ! j = 255 \<Longrightarrow> unat (bright ! j) = 255" by simp
    ultimately show ?thesis
      unfolding port pwm_pins [OF tab at xs j]
      by (auto simp: bit_or_iff bit_and_iff dimmed_def)
  qed
qed

section \<open>Reachable states\<close>

inductive stella_step :: "nat \<Rightarrow> stella_state \<Rightarrow> stella_state \<Rightarrow> bool" for off where
  set: "stella_step off s (stella_setValue func ch v s)"
| dmx: "stella_step off s (stella_dmx d n s)"
| main_loop: "stella_process off s = Some s' \<Longrightarrow> stella_step off s s'"
| compare: "stella_step off s (VECTOR_OUTPUT_COMPARE2 s)"
| overflow: "stella_step off s (VECTOR_OVERFLOW2 s)"

inductive_cases stella_stepE: "stella_step off s s'"

inductive stella_reachable :: "nat \<Rightarrow> stella_state \<Rightarrow> stella_state \<Rightarrow> bool" for off s0 where
  init: "stella_init start c ee off s0 = Some s \<Longrightarrow> stella_reachable off s0 s"
| step: "stella_reachable off s0 s \<Longrightarrow> stella_step off s s' \<Longrightarrow> stella_reachable off s0 s'"

text \<open>
  The arrays have their sizes; the interrupts' table is a sorted list of entries (all channels off
  before the first sort), and so is the other table when it is announced; \<open>current\<close> is null or on
  the way through the interrupts' table.
\<close>

definition table_sorted :: "nat \<Rightarrow> stella_timetable \<Rightarrow> bool" where
  "table_sorted n t \<longleftrightarrow> length (channel t) = n \<and>
     (\<exists>xs. chain (channel t) (head t) xs None \<and> sorted_wrt (<) (vals (channel t) xs))"

definition current_ok :: "stella_timetable \<Rightarrow> nat option \<Rightarrow> bool" where
  "current_ok t cur \<longleftrightarrow> (\<exists>zs. chain (channel t) cur zs None)"

definition stella_inv :: "nat \<Rightarrow> stella_state \<Rightarrow> bool" where
  "stella_inv n s \<longleftrightarrow> STELLA_PINS s = n \<and> length (stella_fade s) = n \<and> stella_fade_func s < 2 \<and>
     length (channel (cal_table s)) = n \<and> table_sorted n (int_table s) \<and>
     (stella_sync s = NEW_VALUES \<longrightarrow> table_sorted n (cal_table s)) \<and>
     current_ok (int_table s) (current s)"

lemma table_ok_sorted: "table_ok off bright n t xs \<Longrightarrow> length bright = n \<Longrightarrow> table_sorted n t"
  by (auto simp: table_ok_def table_sorted_def)

lemma setValue_inv: "stella_inv n s \<Longrightarrow> stella_inv n (stella_setValue func ch v s)"
  by (cases func) (auto simp: stella_inv_def stella_setValue_def STELLA_PINS_def)

lemma dmx_inv: "stella_inv n s \<Longrightarrow> stella_inv n (stella_dmx d len s)"
proof -
  have "stella_inv n s \<Longrightarrow> stella_inv n (fold (\<lambda>i s. case set_function (d ! 0) of
      Some func \<Rightarrow> stella_setValue func i (d ! (i + 1)) s | None \<Rightarrow> s) is s)" for "is"
    by (induction "is" arbitrary: s) (auto simp: setValue_inv split: option.split)
  then show "stella_inv n s \<Longrightarrow> stella_inv n (stella_dmx d len s)"
    by (simp add: stella_dmx_def Let_def)
qed

lemma overflow_inv:
  assumes "stella_inv n s" shows "stella_inv n (VECTOR_OVERFLOW2 s)"
proof -
  have start: "current_ok t c" if "table_sorted n t" "head t = c" for t c
    using that by (auto simp: table_sorted_def current_ok_def)
  have len: "table_sorted n t \<Longrightarrow> length (channel t) = n" for t
    by (simp add: table_sorted_def)
  show ?thesis
    using assms by (auto simp: stella_inv_def VECTOR_OVERFLOW2_def Let_def STELLA_PINS_def start len
        split: option.split)
qed

lemma compare_inv:
  assumes "stella_inv n s" shows "stella_inv n (VECTOR_OUTPUT_COMPARE2 s)"
proof (cases "current s")
  case None
  then show ?thesis using assms by (simp add: VECTOR_OUTPUT_COMPARE2_def)
next
  case (Some c)
  then obtain zs where "chain (channel (int_table s)) (Some c) zs None"
    using assms by (auto simp: stella_inv_def current_ok_def)
  then have "current_ok (int_table s) (e_next (channel (int_table s) ! c))"
    by (cases zs) (auto simp: current_ok_def)
  then show ?thesis
    using assms Some by (auto simp: stella_inv_def VECTOR_OUTPUT_COMPARE2_def Let_def STELLA_PINS_def
        split: option.split)
qed

text \<open>Fading touches the brightness only.\<close>

lemma fade_channel_same:
  assumes "stella_fade_func s < 2"
  shows "length (stella_brightness (fade_channel i s)) = length (stella_brightness s)"
    "stella_fade (fade_channel i s) = stella_fade s"
    "stella_fade_func (fade_channel i s) = stella_fade_func s"
    "int_table (fade_channel i s) = int_table s" "cal_table (fade_channel i s) = cal_table s"
    "stella_sync (fade_channel i s) = stella_sync s" "current (fade_channel i s) = current s"
  using assms
  by (auto simp: fade_channel_def stella_fade_funcs_def stella_fade_normal_def stella_fade_flashy_def
      Let_def less_2_cases_iff)

lemma fade_channels_inv:
  "stella_inv n s \<Longrightarrow> stella_inv n (fold fade_channel is s)"
proof (induction "is" arbitrary: s)
  case (Cons i "is")
  then have "stella_inv n (fade_channel i s)"
    by (auto simp: stella_inv_def fade_channel_same STELLA_PINS_def)
  then show ?case using Cons.IH by simp
qed simp

lemma sort_inv:
  assumes "stella_inv n s" "n + off \<le> 8"
  shows "\<exists>s'. stella_sort off s = Some s' \<and> stella_inv n s'"
proof -
  obtain t xs where t: "stella_sort off s = Some (s\<lparr>cal_table := t, stella_sync := NEW_VALUES\<rparr>)"
    "table_ok off (stella_brightness s) n t xs"
    using stella_sort_spec [of s off] assms by (auto simp: stella_inv_def)
  have "table_sorted n t" using table_ok_sorted [OF t(2)] assms(1) by (simp add: stella_inv_def STELLA_PINS_def)
  then have "stella_inv n (s\<lparr>cal_table := t, stella_sync := NEW_VALUES\<rparr>)"
    using assms(1) by (auto simp: stella_inv_def STELLA_PINS_def table_sorted_def)
  then show ?thesis using t(1) by blast
qed

lemma stella_process_inv:
  assumes "stella_inv n s" "n + off \<le> 8"
  shows "\<exists>s'. stella_process off s = Some s' \<and> stella_inv n s'"
proof -
  define s1 where "s1 = (if stella_fade_counter s = 0
    then let s = fold fade_channel [0..<STELLA_PINS s] s;
             s = (if stella_fade_counter s \<noteq> 0 then s\<lparr>stella_sync := UPDATE_VALUES\<rparr> else s)
         in s\<lparr>stella_fade_counter := stella_fade_step s\<rparr> else s)"
  have flag: "stella_inv n (s\<lparr>stella_sync := UPDATE_VALUES\<rparr>)" "stella_inv n (s\<lparr>stella_fade_counter := c\<rparr>)"
    if "stella_inv n s" for s c
    using that by (simp_all add: stella_inv_def STELLA_PINS_def)
  have "stella_inv n s1"
    using fade_channels_inv [OF assms(1)] assms(1) by (auto simp: s1_def Let_def intro!: flag)
  moreover have "stella_process off s = (if stella_sync s1 = UPDATE_VALUES then stella_sort off s1 else Some s1)"
    by (simp add: stella_process_def s1_def Let_def)
  ultimately show ?thesis using sort_inv assms(2) by auto
qed


lemma init_inv:
  assumes "length (stella_fade s) = STELLA_PINS s" "stella_fade_func s < 2" "STELLA_PINS s + off \<le> 8"
    and "length (channel (cal_table s)) = STELLA_PINS s" "length (channel (int_table s)) = STELLA_PINS s"
    and "current s = None" "stella_init start c ee off s = Some s'" "start = START_EEPROM \<Longrightarrow> STELLA_PINS s = 8"
  shows "stella_inv (STELLA_PINS s) s'"
proof -
  have empty: "table_sorted n t" if "head t = None" "length (channel t) = n" for n t
    using that by (auto simp: table_sorted_def intro!: exI [of _ "[]"])
  have none: "current_ok t None" for t by (auto simp: current_ok_def intro!: exI [of _ "[]"])
  have eq: "\<exists>s1. stella_sort off s1 = Some s' \<and> stella_inv (STELLA_PINS s) s1"
    using assms unfolding stella_init_def Let_def
    by (cases start)
      (fastforce simp: stella_inv_def STELLA_PINS_def stella_loadFromEEROMFading_def empty none
        eeprom_restore_def)+
  then show ?thesis using sort_inv assms(3) by (metis option.inject)
qed

section \<open>Convergence of fading\<close>

text \<open>\<open>stella_fade_normal\<close> moves a channel's brightness by one towards its target.\<close>

definition toward :: "u8 \<Rightarrow> u8 \<Rightarrow> u8" where
  "toward b f = (if b = f then b else if b > f then b - 1 else b + 1)"

lemma toward_dist:
  assumes "b \<noteq> f"
  shows "abs (uint (toward b f) - uint f) = abs (uint b - uint f) - 1"
proof (cases "b > f")
  case True
  then have lt: "uint f < uint b" by (simp add: word_less_def)
  moreover have "0 \<le> uint f" "uint b < 256" using uint_bounded [of b] by simp_all
  ultimately have "(uint b - 1) mod 256 = uint b - 1" by (intro mod_pos_pos_trivial) linarith+
  then have "uint (b - 1) = uint b - 1" by (simp add: uint_word_ariths)
  then show ?thesis using True lt assms by (simp add: toward_def)
next
  case False
  then have "\<not> uint f < uint b" "uint b \<noteq> uint f"
    using assms by (simp_all add: word_less_def word_uint_eq_iff)
  then have "uint b < uint f" by linarith
  moreover have "0 \<le> uint b" "uint f < 256" using uint_bounded [of f] by simp_all
  ultimately have "(uint b + 1) mod 256 = uint b + 1" by (intro mod_pos_pos_trivial) linarith+
  then have "uint (b + 1) = uint b + 1" by (simp add: uint_word_ariths)
  then show ?thesis using False assms \<open>uint b < uint f\<close> by (simp add: toward_def)
qed

lemma fade_channels_normal:
  assumes "stella_fade_func s = 0" "k \<le> length (stella_brightness s)"
  shows "stella_brightness (fold fade_channel [0..<k] s) =
    map (\<lambda>i. if i < k then toward (stella_brightness s ! i) (stella_fade s ! i) else stella_brightness s ! i)
      [0..<length (stella_brightness s)] \<and>
    stella_fade (fold fade_channel [0..<k] s) = stella_fade s \<and>
    stella_fade_func (fold fade_channel [0..<k] s) = 0"
  using assms(2)
proof (induction k)
  case 0
  then show ?case using assms(1) by (simp add: map_nth)
next
  case (Suc k)
  let ?s = "fold fade_channel [0..<k] s"
  have IH: "stella_brightness ?s = map (\<lambda>i. if i < k then toward (stella_brightness s ! i) (stella_fade s ! i)
      else stella_brightness s ! i) [0..<length (stella_brightness s)]"
    "stella_fade ?s = stella_fade s" "stella_fade_func ?s = 0"
    using Suc by auto
  have fold: "fold fade_channel [0..<Suc k] s = fade_channel k ?s" by simp
  have b: "stella_brightness ?s ! k = stella_brightness s ! k" using IH(1) Suc.prems by simp
  have "stella_brightness (fade_channel k ?s) =
      (stella_brightness ?s)[k := toward (stella_brightness s ! k) (stella_fade s ! k)]"
    using IH(2,3) b list_update_id [of "stella_brightness ?s" k]
    by (auto simp: fade_channel_def stella_fade_funcs_def stella_fade_normal_def toward_def)
  also have "\<dots> = map (\<lambda>i. if i < Suc k then toward (stella_brightness s ! i) (stella_fade s ! i)
      else stella_brightness s ! i) [0..<length (stella_brightness s)]"
    unfolding IH(1) using Suc.prems by (intro nth_equalityI) (auto simp: nth_list_update)
  finally show ?case
    unfolding fold using IH(2,3) by (simp add: fade_channel_same)
qed

text \<open>Rounds of the main loop in which the fade counter has run down.\<close>

fun process_rounds :: "nat \<Rightarrow> nat \<Rightarrow> stella_state \<Rightarrow> stella_state option" where
  "process_rounds off 0 s = Some s"
| "process_rounds off (Suc k) s =
    (case stella_process off (s\<lparr>stella_fade_counter := 0\<rparr>) of
       None \<Rightarrow> None
     | Some s \<Rightarrow> process_rounds off k s)"

lemma stella_sort_same:
  "stella_sort off s = Some s' \<Longrightarrow> stella_brightness s' = stella_brightness s \<and>
     stella_fade s' = stella_fade s \<and> stella_fade_func s' = stella_fade_func s"
  by (auto simp: stella_sort_def split: option.splits)

lemma process_round_brightness:
  assumes "stella_process off (s\<lparr>stella_fade_counter := 0\<rparr>) = Some s'"
  shows "stella_brightness s' = stella_brightness (fold fade_channel [0..<STELLA_PINS s] (s\<lparr>stella_fade_counter := 0\<rparr>)) \<and>
    stella_fade s' = stella_fade (fold fade_channel [0..<STELLA_PINS s] (s\<lparr>stella_fade_counter := 0\<rparr>)) \<and>
    stella_fade_func s' = stella_fade_func (fold fade_channel [0..<STELLA_PINS s] (s\<lparr>stella_fade_counter := 0\<rparr>))"
  using assms
  by (auto simp: stella_process_def Let_def STELLA_PINS_def split: if_splits dest!: stella_sort_same)


lemma process_rounds_converge:
  assumes "n + off \<le> 8"
  shows "stella_inv n s \<Longrightarrow> stella_fade_func s = 0 \<Longrightarrow>
    (\<And>i. i < n \<Longrightarrow> abs (uint (stella_brightness s ! i) - uint (stella_fade s ! i)) \<le> int k) \<Longrightarrow>
    \<exists>s'. process_rounds off k s = Some s' \<and> stella_brightness s' = stella_fade s"
proof (induction k arbitrary: s)
  case 0
  then have "stella_brightness s = stella_fade s"
    by (intro nth_equalityI) (auto simp: stella_inv_def STELLA_PINS_def word_uint_eq_iff)
  then show ?case by simp
next
  case (Suc k)
  let ?s = "s\<lparr>stella_fade_counter := 0\<rparr>"
  have len: "length (stella_brightness s) = n" "STELLA_PINS s = n"
    using Suc.prems(1) by (simp_all add: stella_inv_def STELLA_PINS_def)
  have "stella_inv n ?s" using Suc.prems(1) by (simp add: stella_inv_def STELLA_PINS_def)
  then obtain s1 where s1: "stella_process off ?s = Some s1" "stella_inv n s1"
    using stella_process_inv assms by blast
  have new: "stella_brightness s1 = map (\<lambda>i. toward (stella_brightness s ! i) (stella_fade s ! i)) [0..<n]"
    "stella_fade s1 = stella_fade s" "stella_fade_func s1 = 0"
    using process_round_brightness [OF s1(1)] fade_channels_normal [of ?s n] Suc.prems(2) len
    by (auto simp: STELLA_PINS_def)
  have "abs (uint (stella_brightness s1 ! i) - uint (stella_fade s1 ! i)) \<le> int k" if "i < n" for i
    using Suc.prems(3) [OF that] toward_dist [of "stella_brightness s ! i" "stella_fade s ! i"] that
    by (cases "stella_brightness s ! i = stella_fade s ! i") (simp add: new toward_def, simp add: new)
  then obtain s' where "process_rounds off k s1 = Some s'" "stella_brightness s' = stella_fade s1"
    using Suc.IH [OF s1(2) new(3)] by blast
  then show ?case using s1(1) new(2) by auto
qed

text \<open>\<open>stella_fade_flashy\<close> never lowers a brightness.\<close>

lemma fade_channel_flashy:
  assumes "stella_fade_func s = 1" "i < length (stella_brightness s)"
  shows "stella_brightness s ! i \<le> stella_brightness (fade_channel j s) ! i"
proof (cases "i = j")
  case True
  then show ?thesis
    using assms by (auto simp: fade_channel_def stella_fade_funcs_def stella_fade_flashy_def Let_def)
next
  case False
  then show ?thesis
    using assms by (simp add: fade_channel_def stella_fade_funcs_def stella_fade_flashy_def Let_def)
qed

lemma fade_channels_flashy:
  "stella_fade_func s = 1 \<Longrightarrow> i < length (stella_brightness s) \<Longrightarrow>
     stella_brightness s ! i \<le> stella_brightness (fold fade_channel is s) ! i \<and>
     stella_fade (fold fade_channel is s) = stella_fade s \<and>
     stella_fade_func (fold fade_channel is s) = 1 \<and>
     length (stella_brightness (fold fade_channel is s)) = length (stella_brightness s)"
proof (induction "is" arbitrary: s)
  case (Cons j "is")
  have le: "stella_brightness s ! i \<le> stella_brightness (fade_channel j s) ! i"
    using fade_channel_flashy Cons.prems by blast
  have "stella_fade_func s < 2" using Cons.prems(1) by simp
  note same = fade_channel_same [OF this, of j]
  have "stella_brightness (fade_channel j s) ! i \<le> stella_brightness (fold fade_channel is (fade_channel j s)) ! i"
    and "stella_fade (fold fade_channel is (fade_channel j s)) = stella_fade s"
    "stella_fade_func (fold fade_channel is (fade_channel j s)) = 1"
    "length (stella_brightness (fold fade_channel is (fade_channel j s))) = length (stella_brightness s)"
    using Cons.IH [of "fade_channel j s"] Cons.prems by (simp_all add: same)
  with le show ?case by (auto intro: order_trans)
qed simp

lemma process_rounds_flashy:
  "process_rounds off k s = Some s' \<Longrightarrow> stella_fade_func s = 1 \<Longrightarrow> i < STELLA_PINS s \<Longrightarrow>
     stella_brightness s ! i \<le> stella_brightness s' ! i \<and> stella_fade s' = stella_fade s"
proof (induction k arbitrary: s)
  case (Suc k)
  let ?s = "s\<lparr>stella_fade_counter := 0\<rparr>"
  obtain s1 where s1: "stella_process off ?s = Some s1" "process_rounds off k s1 = Some s'"
    using Suc.prems(1) by (auto split: option.splits)
  note fl = fade_channels_flashy [of ?s i "[0..<STELLA_PINS s]"]
  have "stella_brightness s ! i \<le> stella_brightness s1 ! i" "stella_fade s1 = stella_fade s"
    "stella_fade_func s1 = 1" "STELLA_PINS s1 = STELLA_PINS s"
    using process_round_brightness [OF s1(1)] fl Suc.prems(2,3) by (auto simp: STELLA_PINS_def)
  moreover from this have "stella_brightness s1 ! i \<le> stella_brightness s' ! i" "stella_fade s' = stella_fade s1"
    using Suc.IH [OF s1(2)] Suc.prems(3) by simp_all
  ultimately show ?case by (auto intro: order_trans)
qed simp

section \<open>Properties\<close>

text \<open>
  C0. Pulse width: when the main loop has sorted the channels and the timer then runs through a
  period, pin \<open>j\<close> is on at count \<open>T\<close> exactly when channel \<open>j\<close> is not off and its brightness is at
  least \<open>255 - T\<close>; so it is on for as many counts as its brightness says, whatever the order of the
  channels and however many have equal brightness, and pins of the port that do not belong to
  Stella keep their level.
\<close>

theorem stella_pulse_width:
  assumes "stella_inv n s" "n + off \<le> 8" "own_pins off n (stella_portmask_neg s)"
  shows "\<exists>s1. stella_sort off s = Some s1 \<and>
    (\<forall>T. let s2 = fold pwm_count [1..<Suc T] (VECTOR_OVERFLOW2 s1) in
       (\<forall>j<n. bit (STELLA_PORT s2) (j + off) \<longleftrightarrow>
          stella_getValue s j \<noteq> 0 \<and> 255 \<le> unat (stella_getValue s j) + T) \<and>
       (\<forall>k. k < off \<or> off + n \<le> k \<longrightarrow> bit (STELLA_PORT s2) k = bit (STELLA_PORT s) k))"
proof -
  have n: "length (stella_brightness s) = n" "STELLA_PINS s = n" "length (channel (cal_table s)) = n"
    using assms(1) by (simp_all add: stella_inv_def STELLA_PINS_def)
  obtain t xs where t: "stella_sort off s = Some (s\<lparr>cal_table := t, stella_sync := NEW_VALUES\<rparr>)"
    "table_ok off (stella_brightness s) n t xs"
    using stella_sort_spec [of s off] n assms(2) by auto
  let ?s1 = "s\<lparr>cal_table := t, stella_sync := NEW_VALUES\<rparr>"
  have "t = (if stella_sync ?s1 = NEW_VALUES then cal_table ?s1 else int_table ?s1)" by simp
  note period = pwm_period [OF t(2) n(1) _ this, of T for T]
  have "off + n \<le> 8" "own_pins off n (stella_portmask_neg ?s1)" using assms(2,3) by simp_all
  from period [OF this] show ?thesis
    using t(1) by (auto simp: Let_def stella_getValue_def)
qed


definition lamps :: stella_state where
  "lamps = \<lparr>stella_brightness = [10, 200], stella_fade = [12, 200], stella_fade_func = 0,
     stella_fade_step = 5, stella_fade_counter = 5, stella_sync = NOTHING_NEW,
     stella_portmask_neg = 0xFC,
     int_table = \<lparr>channel = replicate 2 \<lparr>e_portmask = 0, e_value = 0, e_next = None\<rparr>, head = None, portmask = 0\<rparr>,
     cal_table = \<lparr>channel = replicate 2 \<lparr>e_portmask = 0, e_value = 0, e_next = None\<rparr>, head = None, portmask = 0\<rparr>,
     current = None, STELLA_PORT = 0, OUTPUT_COMPARE = 0\<rparr>"

lemma lamps_inv: "stella_inv 2 lamps"
proof -
  have "chain ch None [] None" for ch by simp
  then show ?thesis
    by (auto simp: stella_inv_def lamps_def STELLA_PINS_def table_sorted_def current_ok_def
        intro!: exI [of _ "[]"])
qed

lemma lamps_pins: "own_pins 0 2 (stella_portmask_neg lamps)"
proof -
  have "\<forall>k \<in> set [0..<8]. bit (0xFC :: u8) k \<longleftrightarrow> 2 \<le> k" by code_simp
  then show ?thesis by (auto simp: own_pins_def lamps_def numeral_2_eq_2)
qed

theorem stella_pulse_width_witness:
  "\<exists>s1. stella_sort 0 lamps = Some s1 \<and>
     bit (STELLA_PORT (fold pwm_count [1..<Suc 55] (VECTOR_OVERFLOW2 s1))) 1 \<and>
     \<not> bit (STELLA_PORT (fold pwm_count [1..<Suc 54] (VECTOR_OVERFLOW2 s1))) 1"
proof -
  obtain s1 where s1: "stella_sort 0 lamps = Some s1"
    "\<And>T j. j < 2 \<Longrightarrow> bit (STELLA_PORT (fold pwm_count [1..<Suc T] (VECTOR_OVERFLOW2 s1))) (j + 0) \<longleftrightarrow>
      stella_getValue lamps j \<noteq> 0 \<and> 255 \<le> unat (stella_getValue lamps j) + T"
    using stella_pulse_width [OF lamps_inv _ lamps_pins] by (auto simp: Let_def)
  have "stella_getValue lamps 1 = 200" by (simp add: stella_getValue_def lamps_def)
  then show ?thesis using s1(1) s1(2) [of 1 55] s1(2) [of 1 54] by (auto simp del: fold_append upt_Suc)
qed

text \<open>
  C0. In every reachable state, whatever the order of main-loop rounds, channel settings and
  interrupts, the table the interrupts walk is a list strictly sorted by time inside its array,
  \<open>current\<close> is null or on its way through that list, and a table announced by \<open>NEW_VALUES\<close> is such
  a list too.
\<close>

theorem stella_reachable_inv:
  assumes "stella_reachable off s0 s" "STELLA_PINS s0 = 8" "off = 0" "length (stella_fade s0) = 8"
    and "stella_fade_func s0 < 2" "current s0 = None"
    and "length (channel (cal_table s0)) = 8" "length (channel (int_table s0)) = 8"
  shows "stella_inv 8 s"
  using assms(1)
proof induction
  case (init start c ee s)
  then show ?case using init_inv [OF _ _ _ _ _ _ init] assms(2-) by simp
next
  case (step s s')
  show ?case
    using step(2)
    by (rule stella_stepE)
      (use step(3) stella_process_inv [OF step(3), of off] assms(3) in
        \<open>auto simp: setValue_inv dmx_inv compare_inv overflow_inv\<close>)
qed

definition lamps8 :: stella_state where
  "lamps8 = lamps\<lparr>stella_brightness := replicate 8 0, stella_fade := replicate 8 0,
     int_table := \<lparr>channel = replicate 8 \<lparr>e_portmask = 0, e_value = 0, e_next = None\<rparr>, head = None, portmask = 0\<rparr>,
     cal_table := \<lparr>channel = replicate 8 \<lparr>e_portmask = 0, e_value = 0, e_next = None\<rparr>, head = None, portmask = 0\<rparr>\<rparr>"

theorem stella_reachable_inv_witness:
  "\<exists>s. stella_init START_ALL example_cfg (\<lambda>_. 0) 0 lamps8 = Some s \<and> stella_inv 8 (VECTOR_OVERFLOW2 s)"
proof -
  obtain s where s: "stella_init START_ALL example_cfg (\<lambda>_. 0) 0 lamps8 = Some s"
  proof -
    have "\<exists>s. stella_init START_ALL example_cfg (\<lambda>_. 0) 0 lamps8 = Some s"
      using stella_sort_spec [of "lamps8\<lparr>int_table := (int_table lamps8)\<lparr>head := None, portmask := 0\<rparr>,
               cal_table := (cal_table lamps8)\<lparr>head := None, portmask := 0\<rparr>,
               stella_sync := NOTHING_NEW,
               stella_portmask_neg := NOT (push_bit 0 (of_nat (2 ^ STELLA_PINS lamps8 - 1) :: u8)),
               stella_fade_counter := stella_fade_step lamps8,
               stella_fade := map (\<lambda>_. 1) (stella_fade lamps8)\<rparr>" 0]
      by (auto simp: stella_init_def Let_def STELLA_PINS_def lamps8_def)
    then show thesis using that by blast
  qed
  have "stella_reachable 0 lamps8 (VECTOR_OVERFLOW2 s)"
    by (rule stella_reachable.step [OF stella_reachable.init [OF s] stella_step.overflow])
  from stella_reachable_inv [OF this] show ?thesis
    using s by (simp add: STELLA_PINS_def lamps8_def lamps_def)
qed

text \<open>
  Fading: with the normal fade function every channel reaches its target after as many rounds
  as its distance from it, hence all do after at most 255 rounds.
\<close>

theorem stella_fade_normal_converges:
  assumes "stella_inv n s" "n + off \<le> 8" "stella_fade_func s = 0"
    and "\<And>i. i < n \<Longrightarrow> abs (uint (stella_brightness s ! i) - uint (stella_fade s ! i)) \<le> int k"
  shows "\<exists>s'. process_rounds off k s = Some s' \<and> stella_brightness s' = stella_fade s"
  using process_rounds_converge [OF assms(2,1,3,4)] by blast

theorem stella_fade_normal_converges_witness:
  "\<exists>s'. process_rounds 0 2 lamps = Some s' \<and> stella_brightness s' = [12, 200]"
proof -
  have "abs (uint (stella_brightness lamps ! i) - uint (stella_fade lamps ! i)) \<le> int 2" if "i < 2" for i
    using that by (auto simp: lamps_def less_2_cases_iff)
  then have "\<exists>s'. process_rounds 0 2 lamps = Some s' \<and> stella_brightness s' = stella_fade lamps"
    by (intro stella_fade_normal_converges [OF lamps_inv]) (simp_all add: lamps_def)
  then show ?thesis by (simp add: lamps_def)
qed

text \<open>
  The flashy fade function never fades down: a channel brighter than its target stays at least
  as bright, and so never reaches the target, however many rounds follow.
\<close>

theorem stella_fade_flashy_never_darkens:
  assumes "process_rounds off k s = Some s'" "stella_fade_func s = 1" "i < STELLA_PINS s"
    and "stella_fade s ! i < stella_brightness s ! i"
  shows "stella_brightness s ! i \<le> stella_brightness s' ! i \<and>
    stella_fade s' ! i < stella_brightness s' ! i"
  using process_rounds_flashy [OF assms(1-3)] assms(4) by (auto intro: order.strict_trans2)

theorem stella_fade_flashy_never_darkens_witness:
  "\<exists>s'. process_rounds 0 1 (lamps\<lparr>stella_fade_func := 1, stella_fade := [5, 200]\<rparr>) = Some s' \<and>
     5 < stella_brightness s' ! 0"
proof -
  let ?s = "lamps\<lparr>stella_fade_func := 1, stella_fade := [5, 200]\<rparr>"
  have "stella_inv 2 (?s\<lparr>stella_fade_counter := 0\<rparr>)"
    using lamps_inv by (simp add: stella_inv_def lamps_def STELLA_PINS_def)
  then obtain s' where "stella_process 0 (?s\<lparr>stella_fade_counter := 0\<rparr>) = Some s'"
    using stella_process_inv [of 2 _ 0] by auto
  then have run: "process_rounds 0 1 ?s = Some s'" by simp
  show ?thesis
    using stella_fade_flashy_never_darkens [OF run, of 0] run process_rounds_flashy [OF run, of 0]
    by (simp add: STELLA_PINS_def lamps_def)
qed

text \<open>
  Brightness values stored in the EEPROM are loaded again: the channel values come back as
  brightness and target of every channel, and an update of the timetable is requested (for eight
  channels, the number the source copies).
\<close>

theorem stella_store_load:
  assumes "STELLA_SUPPORT c" "length (stella_brightness s) = 8"
  shows "let s' = stella_loadFromEEROM c (stella_storeToEEROM c s ee) s0 in
    stella_brightness s' = stella_brightness s \<and> stella_fade s' = stella_brightness s \<and>
    stella_sync s' = UPDATE_VALUES"
proof -
  have "eeprom_restore c (stella_storeToEEROM c s ee) F_stella_channel_values 8 = stella_brightness s"
    unfolding stella_storeToEEROM_def using assms by (intro ee.restore_save) simp_all
  then show ?thesis using assms(2) by (simp add: stella_loadFromEEROM_def Let_def)
qed

theorem stella_store_load_witness:
  "stella_brightness (stella_loadFromEEROM (example_cfg\<lparr>STELLA_SUPPORT := True\<rparr>)
     (stella_storeToEEROM (example_cfg\<lparr>STELLA_SUPPORT := True\<rparr>)
       (lamps8\<lparr>stella_brightness := [1, 2, 3, 4, 5, 6, 7, 8]\<rparr>) (\<lambda>_. 0)) lamps8) = [1, 2, 3, 4, 5, 6, 7, 8]"
  using stella_store_load [of "example_cfg\<lparr>STELLA_SUPPORT := True\<rparr>"
      "lamps8\<lparr>stella_brightness := [1, 2, 3, 4, 5, 6, 7, 8]\<rparr>" "\<lambda>_. 0" lamps8]
  by (simp add: Let_def)

end
