(* ===== verification/Tty.thy ===== *)
theory Tty imports Prelude "HOL-Library.Monad_Syntax" begin

text \<open>
  The terminal layer (core/tty/tty.c, core/tty/tty.h): windows onto one off-screen character
  image, drawn through a low-level display driver, and the keyboard queue.

  The configuration constants LINES and COLS are the fields \<open>lines\<close> and \<open>cols\<close> of the state.
  The calls to the driver (tty_ll_clear, tty_ll_goto, tty_ll_put end in them) are logged in the
  order the code makes them; what a display shows is a function of that log.  The drivers
  of core/tty are given on it: the graphics display that is told the position of every character
  (tty-s1d15g10.h), the HD44780 driver, which keeps a position of its own (tty-hd44780.h,
  hardware/lcd/hd44780.c), and the vt100 terminal, which has a cursor that clearing sends home
  (tty-vt100.c).  The byte-wide variables are natural numbers with
  the reduction modulo 256 written out.  An access outside the image, and a loop whose 8-bit
  counter can never pass its bound, is \<open>None\<close>.

  waddch and wscroll call each other.  The routines in between take waddch as an argument, and
  \<open>waddch n\<close> is the function with at most \<open>n\<close> nested scrolls; one is enough inside a window,
  and running out of them is \<open>None\<close> too.
\<close>

section \<open>State\<close>

datatype ll_op = LL_clear | LL_goto nat nat | LL_put nat nat u8

record tty =
  lines :: nat
  cols :: nat
  image :: "u8 list"
  ll_y :: nat
  ll_x :: nat
  ll_log :: "ll_op list"

record window =
  is_subwin :: bool
  linewrap :: bool
  scrollok :: bool
  leaveok :: bool
  win_y :: nat
  win_x :: nat
  maxy :: nat
  maxx :: nat
  begy :: nat
  begx :: nat

type_synonym on_window = "window \<times> tty \<Rightarrow> (window \<times> tty) option"

definition byte :: "nat \<Rightarrow> nat" where
  "byte n = n mod 256"

definition map_index :: "window \<Rightarrow> nat \<Rightarrow> nat \<Rightarrow> tty \<Rightarrow> nat" where
  "map_index w y x s = (y + begy w) * cols s + (x + begx w)"

definition map_read :: "window \<Rightarrow> nat \<Rightarrow> nat \<Rightarrow> tty \<Rightarrow> u8 option" where
  "map_read w y x s =
    (if map_index w y x s < length (image s) then Some (image s ! map_index w y x s) else None)"

definition map_write :: "window \<Rightarrow> nat \<Rightarrow> nat \<Rightarrow> u8 \<Rightarrow> tty \<Rightarrow> tty" where
  "map_write w y x ch s = s\<lparr>image := (image s)[map_index w y x s := ch]\<rparr>"

section \<open>The low-level calls\<close>

definition tty_ll_clear :: "tty \<Rightarrow> tty" where
  "tty_ll_clear s = s\<lparr>ll_log := ll_log s @ [LL_clear]\<rparr>"

definition tty_ll_goto :: "nat \<Rightarrow> nat \<Rightarrow> tty \<Rightarrow> tty" where
  "tty_ll_goto y x s =
    (if y = ll_y s \<and> x = ll_x s then s
     else s\<lparr>ll_log := ll_log s @ [LL_goto y x], ll_y := y, ll_x := x\<rparr>)"

definition tty_ll_put :: "nat \<Rightarrow> nat \<Rightarrow> u8 \<Rightarrow> tty \<Rightarrow> tty" where
  "tty_ll_put y x ch s =
    (let s = (if y \<noteq> ll_y s \<or> x \<noteq> ll_x s then tty_ll_goto y x s else s)
     in s\<lparr>ll_log := ll_log s @ [LL_put y x ch], ll_x := byte (ll_x s + 1)\<rparr>)"

section \<open>Windows\<close>

definition initscr :: "window \<times> tty \<Rightarrow> window \<times> tty" where
  "initscr = (\<lambda>(w, s).
    (w\<lparr>linewrap := True, scrollok := True, leaveok := True,
       maxx := byte (cols s - 1), maxy := byte (lines s - 1)\<rparr>, tty_ll_clear s))"

definition subwin :: "nat \<Rightarrow> nat \<Rightarrow> nat \<Rightarrow> nat \<Rightarrow> window" where
  "subwin lns cls by' bx =
    \<lparr>is_subwin = True, linewrap = True, scrollok = True, leaveok = True, win_y = 0, win_x = 0,
     maxy = byte (lns + 255), maxx = byte (cls + 255), begy = by', begx = bx\<rparr>"

definition wmove :: "nat \<Rightarrow> nat \<Rightarrow> window \<times> tty \<Rightarrow> window \<times> tty" where
  "wmove y x = (\<lambda>(w, s).
    if y > maxy w \<or> x > maxx w then (w, s)
    else (w\<lparr>win_y := y, win_x := x\<rparr>,
          if \<not> leaveok w then tty_ll_goto (byte (y + begy w)) (byte (x + begx w)) s else s))"

primrec repeat_waddch :: "(u8 \<Rightarrow> on_window) \<Rightarrow> nat \<Rightarrow> on_window" where
  "repeat_waddch wa 0 ws = Some ws"
| "repeat_waddch wa (Suc i) ws = do { ws \<leftarrow> wa 32 ws; repeat_waddch wa i ws }"

definition wspacetoeol :: "(u8 \<Rightarrow> on_window) \<Rightarrow> on_window" where
  "wspacetoeol wa = (\<lambda>(w, s). repeat_waddch wa (byte (256 + maxx w + 1 - win_x w)) (w, s))"

definition wclrtoeol :: "(u8 \<Rightarrow> on_window) \<Rightarrow> on_window" where
  "wclrtoeol wa = (\<lambda>(w, s). do {
    ws \<leftarrow> wspacetoeol wa (w, s);
    Some (wmove (win_y w) (win_x w) ws)
  })"

primrec clear_lines :: "(u8 \<Rightarrow> on_window) \<Rightarrow> nat \<Rightarrow> nat \<Rightarrow> on_window" where
  "clear_lines wa y 0 ws = Some ws"
| "clear_lines wa y (Suc k) ws = do {
    ws \<leftarrow> wspacetoeol wa (wmove y 0 ws);
    clear_lines wa (Suc y) k ws
  }"

definition wclrtobot :: "(u8 \<Rightarrow> on_window) \<Rightarrow> on_window" where
  "wclrtobot wa = (\<lambda>(w, s). do {
    ws \<leftarrow> wspacetoeol wa (w, s);
    let first = byte (win_y w + 1);
    ws \<leftarrow> (if maxy w = 255 then None else clear_lines wa first (maxy w + 1 - first) ws);
    Some (wmove (win_y w) (win_x w) ws)
  })"

definition wclear :: "(u8 \<Rightarrow> on_window) \<Rightarrow> on_window" where
  "wclear wa = (\<lambda>(w, s).
    if \<not> is_subwin w
    then Some (w\<lparr>win_y := 0, win_x := 0\<rparr>,
               tty_ll_clear (s\<lparr>image := replicate (lines s * cols s) 32\<rparr>))
    else wclrtobot wa (wmove 0 0 (w, s)))"

primrec scroll_row :: "(u8 \<Rightarrow> on_window) \<Rightarrow> nat \<Rightarrow> nat \<Rightarrow> on_window" where
  "scroll_row wa src 0 ws = Some ws"
| "scroll_row wa src (Suc k) ws = do {
    ch \<leftarrow> map_read (fst ws) src (win_x (fst ws)) (snd ws);
    ws \<leftarrow> wa ch ws;
    scroll_row wa src k ws
  }"

primrec scroll_rows :: "(u8 \<Rightarrow> on_window) \<Rightarrow> nat \<Rightarrow> nat \<Rightarrow> nat \<Rightarrow> on_window" where
  "scroll_rows wa n y 0 ws = Some ws"
| "scroll_rows wa n y (Suc k) ws = do {
    ws \<leftarrow> (if maxx (fst ws) = 255 then None
           else scroll_row wa (y + n) (maxx (fst ws) + 1) (wmove y 0 ws));
    scroll_rows wa n (Suc y) k ws
  }"

definition wscroll :: "(u8 \<Rightarrow> on_window) \<Rightarrow> nat \<Rightarrow> on_window" where
  "wscroll wa n = (\<lambda>(w, s).
    if n > maxy w then wclear wa (w, s)
    else do {
      ws \<leftarrow> (if maxy w - n = 255 then None else scroll_rows wa n 0 (maxy w - n + 1) (w, s));
      wclrtobot wa (wmove (byte (maxy w - n + 1)) 0 ws)
    })"

definition waddch_update :: "u8 \<Rightarrow> on_window" where
  "waddch_update ch = (\<lambda>(w, s).
    if ch = 10 \<or> ch = 13 then
      let w = w\<lparr>win_y := if ch = 10 then byte (win_y w + 1) else win_y w, win_x := 0\<rparr>
      in Some (w, if \<not> leaveok w
                  then tty_ll_goto (byte (win_y w + begy w)) (byte (win_x w + begx w)) s else s)
    else do {
      old \<leftarrow> map_read w (win_y w) (win_x w) s;
      let s = (if uint old \<noteq> sint ch
               then tty_ll_put (byte (win_y w + begy w)) (byte (win_x w + begx w)) ch
                      (map_write w (win_y w) (win_x w) ch s)
               else s);
      Some (if win_x w = maxx w then
        let w = (if linewrap w then w\<lparr>win_y := byte (win_y w + 1), win_x := 0\<rparr> else w)
        in (w, if \<not> leaveok w then tty_ll_goto (byte (win_y w + begy w)) (byte (begx w)) s
               else s)
      else (w\<lparr>win_x := byte (win_x w + 1)\<rparr>, s))
    })"

definition waddch_body :: "(nat \<Rightarrow> on_window) \<Rightarrow> u8 \<Rightarrow> on_window" where
  "waddch_body scroll ch = (\<lambda>(w, s).
    if win_y w > maxy w \<and> \<not> scrollok w then Some (w, s)
    else do {
      ws \<leftarrow> (if win_y w > maxy w then scroll (byte (win_y w - maxy w)) (w, s) else Some (w, s));
      waddch_update ch ws
    })"

primrec waddch :: "nat \<Rightarrow> u8 \<Rightarrow> on_window" where
  "waddch 0 ch ws = waddch_body (\<lambda>_ _. None) ch ws"
| "waddch (Suc n) ch ws = waddch_body (wscroll (waddch n)) ch ws"

fun waddstr :: "nat \<Rightarrow> u8 list \<Rightarrow> on_window" where
  "waddstr n [] ws = None"
| "waddstr n (c # cs) ws =
    (if c = 0 then Some ws else do { ws \<leftarrow> waddch n c ws; waddstr n cs ws })"

section \<open>Windows inside the screen\<close>

definition in_screen :: "window \<Rightarrow> tty \<Rightarrow> bool" where
  "in_screen w s \<longleftrightarrow> lines s \<le> 255 \<and> cols s \<le> 255 \<and> length (image s) = lines s * cols s \<and>
    begy w + maxy w < lines s \<and> begx w + maxx w < cols s"

definition text_image :: "tty \<Rightarrow> bool" where
  "text_image s \<longleftrightarrow> 10 \<notin> set (image s) \<and> 13 \<notin> set (image s)"

definition window_ok :: "window \<Rightarrow> tty \<Rightarrow> bool" where
  "window_ok w s \<longleftrightarrow>
    in_screen w s \<and> text_image s \<and> win_y w \<le> maxy w + 1 \<and> win_x w \<le> maxx w"

definition cell :: "tty \<Rightarrow> nat \<Rightarrow> nat \<Rightarrow> u8" where
  "cell s r c = image s ! (r * cols s + c)"

definition same_place :: "window \<Rightarrow> window \<Rightarrow> bool" where
  "same_place w w' \<longleftrightarrow> (\<exists>y x. w' = w\<lparr>win_y := y, win_x := x\<rparr>)"

text \<open>
  \<open>ll_step b\<close> is one effect of the layer on the image and the driver: a cursor movement, a
  character written into the image and to the display, or, if \<open>b\<close>, a cleared screen.
\<close>

inductive ll_step :: "bool \<Rightarrow> tty \<Rightarrow> tty \<Rightarrow> bool" for b where
  goto: "ll_step b s (tty_ll_goto y x s)"
| put: "y < lines s \<Longrightarrow> x < cols s \<Longrightarrow> ch \<noteq> 10 \<Longrightarrow> ch \<noteq> 13 \<Longrightarrow>
    ll_step b s (tty_ll_put y x ch (s\<lparr>image := (image s)[y * cols s + x := ch]\<rparr>))"
| clear: "b \<Longrightarrow> ll_step b s (tty_ll_clear (s\<lparr>image := replicate (lines s * cols s) 32\<rparr>))"

abbreviation ll_steps :: "bool \<Rightarrow> tty \<Rightarrow> tty \<Rightarrow> bool" where
  "ll_steps b \<equiv> (ll_step b)\<^sup>*\<^sup>*"

named_theorems tty_simps \<open>what the low-level calls leave alone\<close>

lemma ll_frames [simp, tty_simps]:
  "lines (tty_ll_goto y x s) = lines s" "cols (tty_ll_goto y x s) = cols s"
  "image (tty_ll_goto y x s) = image s" "lines (tty_ll_put y x ch s) = lines s"
  "cols (tty_ll_put y x ch s) = cols s" "image (tty_ll_put y x ch s) = image s"
  "lines (tty_ll_clear s) = lines s" "cols (tty_ll_clear s) = cols s"
  "image (tty_ll_clear s) = image s"
  by (simp_all add: tty_ll_goto_def tty_ll_put_def tty_ll_clear_def Let_def)

lemma cell_index: "c < cc \<Longrightarrow> c' < cc \<Longrightarrow> r * cc + c = r' * cc + c' \<longleftrightarrow> r = r' \<and> c = (c' :: nat)"
proof
  assume *: "c < cc" "c' < cc" "r * cc + c = r' * cc + c'"
  have "r = (r * cc + c) div cc" "c = (r * cc + c) mod cc" using *(1) by simp_all
  moreover have "r' = (r' * cc + c') div cc" "c' = (r' * cc + c') mod cc" using *(2) by simp_all
  ultimately show "r = r' \<and> c = c'" using *(3) by simp
qed auto

lemma cell_in_image: "r < ll \<Longrightarrow> c < cc \<Longrightarrow> r * cc + c < ll * (cc :: nat)"
proof -
  assume "r < ll" "c < cc"
  then have "r * cc + c < Suc r * cc" "Suc r * cc \<le> ll * cc" by (simp, intro mult_le_mono1) simp
  then show ?thesis by linarith
qed

lemma cell_update:
  assumes "length (image s) = lines s * cols s" "y < lines s" "x < cols s" "r < lines s" "c < cols s"
  shows "cell (s\<lparr>image := (image s)[y * cols s + x := ch]\<rparr>) r c =
    (if r = y \<and> c = x then ch else cell s r c)"
  using assms cell_index [of x "cols s" c y r] cell_in_image [of r "lines s" c "cols s"]
  by (auto simp: cell_def nth_list_update)

lemma cell_cong: "image s = image s' \<Longrightarrow> cols s = cols s' \<Longrightarrow> cell s r c = cell s' r c"
  by (simp add: cell_def)

lemma ll_step_keeps:
  assumes "ll_step b s s'"
  shows "lines s' = lines s \<and> cols s' = cols s \<and>
    (length (image s) = lines s * cols s \<longrightarrow> length (image s') = length (image s)) \<and>
    (text_image s \<longrightarrow> text_image s')"
  using assms by cases (auto simp: text_image_def dest!: set_update_subset_insert [THEN subsetD])

lemma ll_steps_keep:
  assumes "ll_steps b s s'"
  shows "lines s' = lines s \<and> cols s' = cols s \<and>
    (length (image s) = lines s * cols s \<longrightarrow> length (image s') = length (image s)) \<and>
    (text_image s \<longrightarrow> text_image s')"
  using assms
proof induction
  case (step s1 s2)
  then show ?case using ll_step_keeps [OF step(2)] by auto
qed simp

lemma same_place_refl [simp]: "same_place w w"
  unfolding same_place_def by (rule exI [of _ "win_y w"], rule exI [of _ "win_x w"]) simp

lemma same_place_trans: "same_place w w1 \<Longrightarrow> same_place w1 w2 \<Longrightarrow> same_place w w2"
  unfolding same_place_def by (elim exE) (simp, blast)

lemma same_place_cursor [simp]:
  "same_place w (w\<lparr>win_y := y, win_x := x\<rparr>)" "same_place w (w\<lparr>win_x := x\<rparr>)"
  unfolding same_place_def
  by blast (rule exI [of _ "win_y w"], rule exI [of _ x], simp)

lemma same_place_fields:
  assumes "same_place w w'"
  shows "maxy w' = maxy w" "maxx w' = maxx w" "begy w' = begy w" "begx w' = begx w"
    "linewrap w' = linewrap w" "scrollok w' = scrollok w" "is_subwin w' = is_subwin w"
    "w'\<lparr>win_y := y, win_x := x\<rparr> = w\<lparr>win_y := y, win_x := x\<rparr>"
  using assms by (auto simp: same_place_def)

lemma in_screen_steps:
  assumes "in_screen w s" "ll_steps b s s'" "same_place w w'"
  shows "in_screen w' s'"
  using assms(1) ll_steps_keep [OF assms(2)] same_place_fields [OF assms(3)]
  by (simp add: in_screen_def)

section \<open>Drawing inside a window\<close>

text \<open>
  \<open>drawn w s w' s' F\<close>: from \<open>s\<close>, drawing without clearing the screen, the layer has reached
  \<open>s'\<close>, whose image is \<open>F\<close>.
\<close>

definition drawn :: "window \<Rightarrow> tty \<Rightarrow> window \<Rightarrow> tty \<Rightarrow> (nat \<Rightarrow> nat \<Rightarrow> u8) \<Rightarrow> bool" where
  "drawn w s w' s' F \<longleftrightarrow> same_place w w' \<and> ll_steps False s s' \<and>
    (\<forall>r < lines s. \<forall>c < cols s. cell s' r c = F r c)"


lemma drawn_refl: "drawn w s w s (cell s)"
  by (simp add: drawn_def)

lemma drawn_trans:
  assumes "drawn w s w1 s1 F" "drawn w1 s1 w2 s2 G"
  shows "drawn w s w2 s2 G"
proof -
  have "lines s1 = lines s" "cols s1 = cols s"
    using assms(1) ll_steps_keep [of False s s1] by (auto simp: drawn_def)
  then show ?thesis
    using assms by (auto simp: drawn_def intro: same_place_trans rtranclp_trans)
qed

lemma drawn_cong:
  assumes "drawn w s w' s' F" "\<And>r c. r < lines s \<Longrightarrow> c < cols s \<Longrightarrow> F r c = G r c"
  shows "drawn w s w' s' G"
  using assms by (simp add: drawn_def)

lemma drawn_keeps:
  assumes "in_screen w s" "drawn w s w' s' F"
  shows "in_screen w' s'" "lines s' = lines s" "cols s' = cols s"
    "text_image s \<Longrightarrow> text_image s'" "r < lines s \<Longrightarrow> c < cols s \<Longrightarrow> cell s' r c = F r c"
  using assms in_screen_steps [OF assms(1)] ll_steps_keep [of False s s'] by (auto simp: drawn_def)

definition advance :: "window \<Rightarrow> window" where
  "advance w = (if win_x w < maxx w then w\<lparr>win_x := win_x w + 1\<rparr>
    else if linewrap w then w\<lparr>win_y := win_y w + 1, win_x := 0\<rparr> else w)"

lemma same_place_advance [simp]: "same_place w (advance w)"
  by (simp add: advance_def)

lemma map_read_cell:
  assumes "in_screen w s" "y \<le> maxy w" "x \<le> maxx w"
  shows "map_read w y x s = Some (cell s (begy w + y) (begx w + x))"
  using assms cell_in_image [of "begy w + y" "lines s" "begx w + x" "cols s"]
  by (simp add: map_read_def map_index_def cell_def in_screen_def add.commute)

lemma uint_sint_eq:
  assumes "uint (x :: u8) = sint (y :: u8)"
  shows "x = y"
proof -
  have "word_of_int (uint x) = (word_of_int (sint y) :: u8)" using assms by simp
  then show ?thesis by simp
qed

lemma drawn_goto:
  assumes "drawn w s w' s' F"
  shows "drawn w s w' (tty_ll_goto y x s') F"
proof -
  have "cell (tty_ll_goto y x s') r c = cell s' r c" for r c by (rule cell_cong) simp_all
  with assms show ?thesis
    by (auto simp: drawn_def intro: rtranclp.rtrancl_into_rtrancl ll_step.goto)
qed

lemma drawn_put:
  assumes "in_screen w s" "win_y w \<le> maxy w" "win_x w \<le> maxx w" "ch \<noteq> 10" "ch \<noteq> 13"
  shows "drawn w s w (tty_ll_put (byte (win_y w + begy w)) (byte (win_x w + begx w)) ch
      (map_write w (win_y w) (win_x w) ch s))
    (\<lambda>r c. if r = begy w + win_y w \<and> c = begx w + win_x w then ch else cell s r c)"
proof -
  define y x where "y = begy w + win_y w" and "x = begx w + win_x w"
  have yx: "y < lines s" "x < cols s" using assms by (auto simp: y_def x_def in_screen_def)
  have idx: "byte (win_y w + begy w) = y" "byte (win_x w + begx w) = x"
    using assms yx by (auto simp: y_def x_def in_screen_def byte_def)
  let ?s = "s\<lparr>image := (image s)[y * cols s + x := ch]\<rparr>"
  have "map_write w (win_y w) (win_x w) ch s = ?s"
    by (simp add: map_write_def map_index_def y_def x_def add.commute)
  moreover have "ll_step False s (tty_ll_put y x ch ?s)"
    using yx assms(4,5) by (rule ll_step.put)
  moreover have "cell (tty_ll_put y x ch ?s) r c = cell ?s r c" for r c by (rule cell_cong) simp_all
  ultimately show ?thesis using assms(1) yx cell_update [of s y x]
    unfolding drawn_def idx y_def [symmetric] x_def [symmetric]
    by (auto simp: in_screen_def)
qed

lemma waddch_cell:
  assumes "in_screen w s" "win_y w \<le> maxy w" "win_x w \<le> maxx w" "ch \<noteq> 10" "ch \<noteq> 13"
  obtains s' where "waddch n ch (w, s) = Some (advance w, s')"
    and "drawn w s (advance w) s'
      (\<lambda>r c. if r = begy w + win_y w \<and> c = begx w + win_x w then ch else cell s r c)"
proof -
  define old where "old = cell s (begy w + win_y w) (begx w + win_x w)"
  define s1 where "s1 = (if uint old \<noteq> sint ch
    then tty_ll_put (byte (win_y w + begy w)) (byte (win_x w + begx w)) ch
           (map_write w (win_y w) (win_x w) ch s)
    else s)"
  let ?F = "\<lambda>r c. if r = begy w + win_y w \<and> c = begx w + win_x w then ch else cell s r c"
  have s1: "drawn w s w s1 ?F"
    using drawn_put [OF assms] drawn_refl [of w s] uint_sint_eq [of old ch]
    by (auto simp: s1_def old_def elim!: drawn_cong)
  then have s1': "drawn w s (advance w) s1 ?F"
    by (auto simp: drawn_def)
  have small: "byte (win_y w + 1) = win_y w + 1" "win_x w < maxx w \<Longrightarrow> byte (win_x w + 1) = win_x w + 1"
    using assms by (auto simp: in_screen_def byte_def)
  have run: "waddch n ch (w, s) = waddch_update ch (w, s)"
    using assms(2) by (cases n) (simp_all add: waddch_body_def)
  have upd: "waddch_update ch (w, s) = Some (if win_x w = maxx w then
        let w = advance w
        in (w, if \<not> leaveok w then tty_ll_goto (byte (win_y w + begy w)) (byte (begx w)) s1
               else s1)
      else (advance w, s1))"
    using assms small map_read_cell [OF assms(1-3)]
    by (auto simp: waddch_update_def Let_def s1_def old_def advance_def)
  show thesis
  proof (cases "win_x w = maxx w \<and> \<not> leaveok (advance w)")
    case True
    with run upd have "waddch n ch (w, s) = Some (advance w,
        tty_ll_goto (byte (win_y (advance w) + begy (advance w))) (byte (begx (advance w))) s1)"
      by (simp add: Let_def)
    from this drawn_goto [OF s1'] show thesis by (rule that)
  next
    case False
    with run upd have "waddch n ch (w, s) = Some (advance w, s1)" by (auto simp: Let_def)
    from this s1' show thesis by (rule that)
  qed
qed

primrec put_chars :: "nat \<Rightarrow> u8 list \<Rightarrow> on_window" where
  "put_chars n [] ws = Some ws"
| "put_chars n (c # cs) ws = do { ws \<leftarrow> waddch n c ws; put_chars n cs ws }"

definition cursor_after :: "window \<Rightarrow> nat \<Rightarrow> window" where
  "cursor_after w k = (if win_x w + k \<le> maxx w then w\<lparr>win_x := win_x w + k\<rparr>
    else if linewrap w then w\<lparr>win_y := win_y w + 1, win_x := 0\<rparr>
    else w\<lparr>win_x := maxx w\<rparr>)"

lemma cursor_after_0: "win_x w \<le> maxx w \<Longrightarrow> cursor_after w 0 = w"
  by (simp add: cursor_after_def)

lemma cursor_after_advance:
  "win_x w < maxx w \<Longrightarrow> cursor_after (advance w) k = cursor_after w (Suc k)"
  by (simp add: cursor_after_def advance_def)

lemma same_place_cursor_after [simp]: "same_place w (cursor_after w k)"
  by (simp add: cursor_after_def)

lemma put_chars_row:
  assumes "in_screen w s" "win_y w \<le> maxy w" "win_x w + length cs \<le> maxx w + 1" "win_x w \<le> maxx w"
    and "10 \<notin> set cs" "13 \<notin> set cs"
  shows "\<exists>s'. put_chars n cs (w, s) = Some (cursor_after w (length cs), s') \<and>
    drawn w s (cursor_after w (length cs)) s'
      (\<lambda>r c. if r = begy w + win_y w \<and> begx w + win_x w \<le> c \<and> c < begx w + win_x w + length cs
             then cs ! (c - (begx w + win_x w)) else cell s r c)"
  using assms
proof (induction cs arbitrary: w s)
  case Nil
  then show ?case by (auto simp: cursor_after_0 drawn_def)
next
  case (Cons ch cs)
  obtain s1 where one: "waddch n ch (w, s) = Some (advance w, s1)"
    and d1: "drawn w s (advance w) s1
      (\<lambda>r c. if r = begy w + win_y w \<and> c = begx w + win_x w then ch else cell s r c)"
    using Cons.prems by (auto intro: waddch_cell [of w s ch n])
  show ?case
  proof (cases "win_x w = maxx w")
    case True
    with Cons.prems have "cs = []" by simp
    moreover have "advance w = cursor_after w (Suc 0)" using True by (simp add: advance_def cursor_after_def)
    ultimately show ?thesis using one d1 by (auto elim!: drawn_cong)
  next
    case False
    then have lt: "win_x w < maxx w" using Cons.prems by simp
    then have adv: "win_y (advance w) = win_y w" "win_x (advance w) = win_x w + 1"
      "begy (advance w) = begy w" "begx (advance w) = begx w"
      "maxy (advance w) = maxy w" "maxx (advance w) = maxx w" by (simp_all add: advance_def)
    obtain s' where rest: "put_chars n cs (advance w, s1) = Some (cursor_after w (Suc (length cs)), s')"
      and d2: "drawn (advance w) s1 (cursor_after w (Suc (length cs))) s'
      (\<lambda>r c. if r = begy w + win_y w \<and> begx w + (win_x w + 1) \<le> c \<and>
                c < begx w + (win_x w + 1) + length cs
             then cs ! (c - (begx w + (win_x w + 1))) else cell s1 r c)"
      using Cons.IH [of "advance w" s1] Cons.prems lt drawn_keeps(1) [OF Cons.prems(1) d1]
      unfolding cursor_after_advance [OF lt] adv by auto
    have "drawn w s (cursor_after w (length (ch # cs))) s'
      (\<lambda>r c. if r = begy w + win_y w \<and> begx w + win_x w \<le> c \<and> c < begx w + win_x w + length (ch # cs)
             then (ch # cs) ! (c - (begx w + win_x w)) else cell s r c)"
      using drawn_trans [OF d1 d2] drawn_keeps(5) [OF Cons.prems(1) d1]
      by (auto elim!: drawn_cong simp: nth_Cons')
    with one rest show ?thesis by simp
  qed
qed


lemma repeat_waddch_eq: "repeat_waddch (waddch n) k ws = put_chars n (replicate k 32) ws"
  by (induction k arbitrary: ws) simp_all

text \<open>The window part of a row from a column on.\<close>

definition row_tail :: "window \<Rightarrow> nat \<Rightarrow> nat \<Rightarrow> nat \<Rightarrow> nat \<Rightarrow> bool" where
  "row_tail w y x r c \<longleftrightarrow> r = begy w + y \<and> begx w + x \<le> c \<and> c \<le> begx w + maxx w"

definition in_window :: "window \<Rightarrow> nat \<Rightarrow> nat \<Rightarrow> bool" where
  "in_window w r c \<longleftrightarrow>
    begy w \<le> r \<and> r \<le> begy w + maxy w \<and> begx w \<le> c \<and> c \<le> begx w + maxx w"

lemma wspacetoeol_row:
  assumes "in_screen w s" "win_y w \<le> maxy w" "win_x w \<le> maxx w"
  shows "\<exists>w' s'. wspacetoeol (waddch n) (w, s) = Some (w', s') \<and>
    drawn w s w' s' (\<lambda>r c. if row_tail w (win_y w) (win_x w) r c then 32 else cell s r c)"
proof -
  let ?k = "maxx w + 1 - win_x w"
  have "256 + maxx w + 1 - win_x w = ?k + 256" using assms(3) by simp
  then have "byte (256 + maxx w + 1 - win_x w) = ?k mod 256" by (simp only: byte_def mod_add_self2)
  also have "\<dots> = ?k" using assms by (intro mod_less) (auto simp: in_screen_def)
  finally have k: "byte (256 + maxx w + 1 - win_x w) = ?k" .
  have "wspacetoeol (waddch n) (w, s) = put_chars n (replicate ?k 32) (w, s)"
    by (simp only: wspacetoeol_def prod.case k repeat_waddch_eq)
  moreover obtain s' where "put_chars n (replicate ?k 32) (w, s) = Some (cursor_after w ?k, s')"
    "drawn w s (cursor_after w ?k) s'
      (\<lambda>r c. if r = begy w + win_y w \<and> begx w + win_x w \<le> c \<and> c < begx w + win_x w + ?k
             then replicate ?k 32 ! (c - (begx w + win_x w)) else cell s r c)"
    using put_chars_row [of w s "replicate ?k 32" n] assms by auto
  moreover from this(2) have "drawn w s (cursor_after w ?k) s'
      (\<lambda>r c. if row_tail w (win_y w) (win_x w) r c then 32 else cell s r c)"
    by (rule drawn_cong) (use assms(3) in \<open>auto simp: row_tail_def\<close>)
  ultimately show ?thesis by auto
qed

lemma wmove_in:
  assumes "y \<le> maxy w" "x \<le> maxx w"
  obtains s' where "wmove y x (w, s) = (w\<lparr>win_y := y, win_x := x\<rparr>, s')"
    "drawn w s (w\<lparr>win_y := y, win_x := x\<rparr>) s' (cell s)"
proof -
  let ?w = "w\<lparr>win_y := y, win_x := x\<rparr>"
  have "drawn w s ?w s (cell s)" by (simp add: drawn_def)
  moreover from this have "drawn w s ?w (tty_ll_goto (byte (y + begy w)) (byte (x + begx w)) s) (cell s)"
    by (rule drawn_goto)
  ultimately show thesis using assms that by (cases "leaveok w") (auto simp: wmove_def)
qed

lemma clear_lines_rows:
  assumes "in_screen w s" "y + k = maxy w + 1"
  shows "\<exists>w' s'. clear_lines (waddch n) y k (w, s) = Some (w', s') \<and>
    drawn w s w' s' (\<lambda>r c. if in_window w r c \<and> begy w + y \<le> r then 32 else cell s r c)"
  using assms
proof (induction k arbitrary: y w s)
  case 0
  then show ?case by (auto simp: in_window_def drawn_def)
next
  case (Suc k)
  let ?w = "w\<lparr>win_y := y, win_x := 0\<rparr>"
  obtain s1 where m: "wmove y 0 (w, s) = (?w, s1)" and d1: "drawn w s ?w s1 (cell s)"
    by (rule wmove_in [of y w 0 s]) (use Suc.prems in auto)
  note k1 = drawn_keeps [OF Suc.prems(1) d1]
  obtain w2 s2 where sp: "wspacetoeol (waddch n) (?w, s1) = Some (w2, s2)"
    and d2: "drawn ?w s1 w2 s2 (\<lambda>r c. if row_tail ?w y 0 r c then 32 else cell s1 r c)"
    using wspacetoeol_row [OF k1(1), of n] Suc.prems(2) by auto
  note d12 = drawn_trans [OF d1 d2]
  note k2 = drawn_keeps [OF Suc.prems(1) d12]
  have place: "maxy w2 = maxy w" "begy w2 = begy w" "begx w2 = begx w" "maxx w2 = maxx w"
    using d12 by (auto simp: drawn_def dest: same_place_fields)
  obtain w3 s3 where rest: "clear_lines (waddch n) (Suc y) k (w2, s2) = Some (w3, s3)"
    and d3: "drawn w2 s2 w3 s3 (\<lambda>r c. if in_window w2 r c \<and> begy w2 + Suc y \<le> r then 32 else cell s2 r c)"
    using Suc.IH [OF k2(1), of "Suc y"] Suc.prems(2) place by auto
  have "drawn w s w3 s3 (\<lambda>r c. if in_window w r c \<and> begy w + y \<le> r then 32 else cell s r c)"
    by (rule drawn_cong [OF drawn_trans [OF d12 d3]])
      (use k1(5) k2(5) Suc.prems(2) in \<open>auto simp: in_window_def row_tail_def place\<close>)
  with m sp rest show ?case by auto
qed

lemma wclrtobot_rows:
  assumes "in_screen w s" "win_y w \<le> maxy w" "win_x w \<le> maxx w"
  shows "\<exists>s'. wclrtobot (waddch n) (w, s) = Some (w, s') \<and>
    drawn w s w s' (\<lambda>r c. if row_tail w (win_y w) (win_x w) r c \<or>
      in_window w r c \<and> begy w + win_y w < r then 32 else cell s r c)"
proof -
  obtain w1 s1 where sp: "wspacetoeol (waddch n) (w, s) = Some (w1, s1)"
    and d1: "drawn w s w1 s1 (\<lambda>r c. if row_tail w (win_y w) (win_x w) r c then 32 else cell s r c)"
    using wspacetoeol_row [OF assms, of n] by auto
  note k1 = drawn_keeps [OF assms(1) d1]
  have p1: "same_place w w1" using d1 by (simp add: drawn_def)
  note f1 = same_place_fields [OF p1]
  have first: "byte (win_y w + 1) = win_y w + 1" "maxy w \<noteq> 255"
    using assms by (auto simp: in_screen_def byte_def)
  obtain w2 s2 where cl: "clear_lines (waddch n) (win_y w + 1) (maxy w + 1 - (win_y w + 1)) (w1, s1)
      = Some (w2, s2)"
    and d2: "drawn w1 s1 w2 s2
      (\<lambda>r c. if in_window w1 r c \<and> begy w1 + (win_y w + 1) \<le> r then 32 else cell s1 r c)"
    using clear_lines_rows [OF k1(1), of "win_y w + 1" "maxy w + 1 - (win_y w + 1)" n] assms(2) f1
    by auto
  note d12 = drawn_trans [OF d1 d2]
  note k2 = drawn_keeps [OF assms(1) d12]
  have p2: "same_place w w2" using d12 by (simp add: drawn_def)
  note f2 = same_place_fields [OF p2]
  obtain s3 where mv: "wmove (win_y w) (win_x w) (w2, s2) = (w2\<lparr>win_y := win_y w, win_x := win_x w\<rparr>, s3)"
    and d3: "drawn w2 s2 (w2\<lparr>win_y := win_y w, win_x := win_x w\<rparr>) s3 (cell s2)"
    by (rule wmove_in [of "win_y w" w2 "win_x w" s2]) (use assms f2 in auto)
  have restored: "w2\<lparr>win_y := win_y w, win_x := win_x w\<rparr> = w" by (simp add: f2)
  have "drawn w s w s3 (\<lambda>r c. if row_tail w (win_y w) (win_x w) r c \<or>
      in_window w r c \<and> begy w + win_y w < r then 32 else cell s r c)"
    by (rule drawn_cong [OF drawn_trans [OF d12 d3 [unfolded restored]]])
      (use k1(5) k2(5) in \<open>auto simp: in_window_def f1\<close>)
  with sp cl mv first show ?thesis by (auto simp: wclrtobot_def Let_def restored)
qed

lemma scroll_row_eq:
  assumes "in_screen w s" "text_image s" "win_y w \<le> maxy w" "win_x w + k \<le> maxx w + 1"
    and "src \<le> maxy w" "src \<noteq> win_y w"
  shows "scroll_row (waddch n) src k (w, s) =
    put_chars n (map (\<lambda>i. cell s (begy w + src) (begx w + win_x w + i)) [0..<k]) (w, s)"
  using assms
proof (induction k arbitrary: w s)
  case (Suc k)
  let ?ch = "cell s (begy w + src) (begx w + win_x w)"
  have "?ch \<in> set (image s)"
    using Suc.prems cell_in_image [of "begy w + src" "lines s" "begx w + win_x w" "cols s"]
    by (auto simp: cell_def in_screen_def)
  then have ch: "?ch \<noteq> 10" "?ch \<noteq> 13" using Suc.prems(2) by (auto simp: text_image_def)
  have rd: "map_read w src (win_x w) s = Some ?ch"
    using Suc.prems by (intro map_read_cell) auto
  obtain s1 where one: "waddch n ?ch (w, s) = Some (advance w, s1)"
    and d1: "drawn w s (advance w) s1
      (\<lambda>r c. if r = begy w + win_y w \<and> c = begx w + win_x w then ?ch else cell s r c)"
    by (rule waddch_cell [of w s ?ch n]) (use Suc.prems ch in auto)
  note k1 = drawn_keeps [OF Suc.prems(1) d1]
  show ?case
  proof (cases "win_x w = maxx w")
    case True
    with Suc.prems have "k = 0" by simp
    with rd one show ?thesis by simp
  next
    case False
    then have adv: "win_y (advance w) = win_y w" "win_x (advance w) = win_x w + 1"
      "begy (advance w) = begy w" "begx (advance w) = begx w"
      "maxy (advance w) = maxy w" "maxx (advance w) = maxx w"
      using Suc.prems by (simp_all add: advance_def)
    have same: "map (\<lambda>i. cell s1 (begy w + src) (begx w + (win_x w + 1) + i)) [0..<k] =
      map (\<lambda>i. cell s (begy w + src) (begx w + win_x w + Suc i)) [0..<k]"
    proof (rule map_cong [OF refl])
      fix i assume "i \<in> set [0..<k]"
      then show "cell s1 (begy w + src) (begx w + (win_x w + 1) + i) =
        cell s (begy w + src) (begx w + win_x w + Suc i)"
        using k1(5) [of "begy w + src" "begx w + (win_x w + 1) + i"] Suc.prems
        by (auto simp: in_screen_def)
    qed
    have "scroll_row (waddch n) src k (advance w, s1) = put_chars n
      (map (\<lambda>i. cell s (begy w + src) (begx w + win_x w + Suc i)) [0..<k]) (advance w, s1)"
      using Suc.IH [of "advance w" s1] Suc.prems k1(1,4) unfolding adv same by simp
    with rd one show ?thesis
      by (simp add: upt_conv_Cons map_Suc_upt [symmetric] o_def del: upt_Suc)
  qed
qed simp

lemma scroll_rows_spec:
  assumes "in_screen w s" "text_image s" "0 < n" "y + k + n = maxy w + 1"
  shows "\<exists>w' s'. scroll_rows (waddch m) n y k (w, s) = Some (w', s') \<and>
    drawn w s w' s' (\<lambda>r c. if in_window w r c \<and> begy w + y \<le> r \<and> r < begy w + y + k
      then cell s (r + n) c else cell s r c)"
  using assms
proof (induction k arbitrary: y w s)
  case 0
  then show ?case by (auto simp: drawn_def)
next
  case (Suc k)
  let ?w = "w\<lparr>win_y := y, win_x := 0\<rparr>"
  obtain s1 where mv: "wmove y 0 (w, s) = (?w, s1)" and d1: "drawn w s ?w s1 (cell s)"
    by (rule wmove_in [of y w 0 s]) (use Suc.prems in auto)
  note k1 = drawn_keeps [OF Suc.prems(1) d1]
  define cs where "cs = map (\<lambda>i. cell s1 (begy w + (y + n)) (begx w + i)) [0..<maxx w + 1]"
  have cs: "length cs = maxx w + 1" "i \<le> maxx w \<Longrightarrow> cs ! i = cell s1 (begy w + (y + n)) (begx w + i)" for i
    by (simp_all add: cs_def nth_append)
  have row: "scroll_row (waddch m) (y + n) (maxx w + 1) (?w, s1) = put_chars m cs (?w, s1)"
    using scroll_row_eq [of ?w s1 "maxx w + 1" "y + n" m] k1(1,4) Suc.prems by (simp add: cs_def)
  have "set cs \<subseteq> set (image s1)"
    using Suc.prems cell_in_image k1(1) by (auto simp: cs_def cell_def in_screen_def)
  then have "10 \<notin> set cs" "13 \<notin> set cs" using k1(4) Suc.prems(2) by (auto simp: text_image_def)
  then obtain w2 s2 where put: "put_chars m cs (?w, s1) = Some (w2, s2)"
    and d2: "drawn ?w s1 w2 s2
      (\<lambda>r c. if r = begy w + y \<and> begx w \<le> c \<and> c < begx w + (maxx w + 1)
             then cs ! (c - begx w) else cell s1 r c)"
    using put_chars_row [of ?w s1 cs m] k1(1) Suc.prems by (auto simp: cs(1) cong: if_cong)
  note d12 = drawn_trans [OF d1 d2]
  note k2 = drawn_keeps [OF Suc.prems(1) d12]
  have f2: "maxy w2 = maxy w" "begy w2 = begy w" "begx w2 = begx w" "maxx w2 = maxx w"
    using d12 by (auto simp: drawn_def dest: same_place_fields)
  obtain w3 s3 where rest: "scroll_rows (waddch m) n (Suc y) k (w2, s2) = Some (w3, s3)"
    and d3: "drawn w2 s2 w3 s3 (\<lambda>r c. if in_window w2 r c \<and> begy w2 + Suc y \<le> r \<and>
      r < begy w2 + Suc y + k then cell s2 (r + n) c else cell s2 r c)"
    using Suc.IH [OF k2(1), of "Suc y"] Suc.prems f2 k2(4) by auto
  have "drawn w s w3 s3 (\<lambda>r c. if in_window w r c \<and> begy w + y \<le> r \<and> r < begy w + y + Suc k
      then cell s (r + n) c else cell s r c)"
    by (rule drawn_cong [OF drawn_trans [OF d12 d3]])
      (use k1(5) k2(5) Suc.prems in \<open>auto simp: in_window_def f2 in_screen_def cs(2) add.assoc\<close>)
  moreover have "maxx w \<noteq> 255" using Suc.prems by (auto simp: in_screen_def)
  ultimately show ?case using mv row put rest by auto
qed

text \<open>Scrolling by at least one line and at most the window's height but one.\<close>

definition scrolled :: "window \<Rightarrow> nat \<Rightarrow> tty \<Rightarrow> nat \<Rightarrow> nat \<Rightarrow> u8" where
  "scrolled w n s r c =
    (if in_window w r c then if r + n \<le> begy w + maxy w then cell s (r + n) c else 32
     else cell s r c)"

lemma wscroll_rows:
  assumes "in_screen w s" "text_image s" "0 < n" "n \<le> maxy w"
  shows "\<exists>s'. wscroll (waddch m) n (w, s) = Some (w\<lparr>win_y := maxy w - n + 1, win_x := 0\<rparr>, s') \<and>
    drawn w s (w\<lparr>win_y := maxy w - n + 1, win_x := 0\<rparr>) s' (scrolled w n s)"
proof -
  define y where "y = maxy w - n + 1"
  have y: "y + n = maxy w + 1" "y \<le> maxy w" "byte y = y" "y - 1 \<noteq> 255"
    using assms by (auto simp: y_def in_screen_def byte_def)
  obtain w1 s1 where rows: "scroll_rows (waddch m) n 0 y (w, s) = Some (w1, s1)"
    and d1: "drawn w s w1 s1 (\<lambda>r c. if in_window w r c \<and> begy w + 0 \<le> r \<and> r < begy w + 0 + y
      then cell s (r + n) c else cell s r c)"
    using scroll_rows_spec [OF assms(1-3), of 0 y m] y by auto
  note k1 = drawn_keeps [OF assms(1) d1]
  have p1: "same_place w w1" using d1 by (simp add: drawn_def)
  note f1 = same_place_fields [OF p1]
  obtain s2 where mv: "wmove y 0 (w1, s1) = (w1\<lparr>win_y := y, win_x := 0\<rparr>, s2)"
    and d2: "drawn w1 s1 (w1\<lparr>win_y := y, win_x := 0\<rparr>) s2 (cell s1)"
    by (rule wmove_in [of y w1 0 s1]) (use y f1 in auto)
  let ?w = "w\<lparr>win_y := y, win_x := 0\<rparr>"
  have w1: "w1\<lparr>win_y := y, win_x := 0\<rparr> = ?w" by (simp add: f1)
  note d12 = drawn_trans [OF d1 d2 [unfolded w1]]
  note k2 = drawn_keeps [OF assms(1) d12]
  obtain s3 where cl: "wclrtobot (waddch m) (?w, s2) = Some (?w, s3)"
    and d3: "drawn ?w s2 ?w s3 (\<lambda>r c. if row_tail ?w (win_y ?w) (win_x ?w) r c \<or>
      in_window ?w r c \<and> begy ?w + win_y ?w < r then 32 else cell s2 r c)"
    using wclrtobot_rows [OF k2(1), of m] y by auto
  have "drawn w s ?w s3 (scrolled w n s)"
    by (rule drawn_cong [OF drawn_trans [OF d12 d3]])
      (use k1(5) k2(5) y in \<open>auto simp: scrolled_def in_window_def row_tail_def\<close>)
  moreover have "wscroll (waddch m) n (w, s) = Some (?w, s3)"
    using assms(4) y unfolding wscroll_def prod.case y_def [symmetric]
    by (simp add: rows mv cl w1 flip: y_def del: scroll_rows.simps)
  ultimately show ?thesis by (auto simp: y_def)
qed

section \<open>Every operation returns and stays inside its window\<close>

text \<open>
  \<open>runs b w s r\<close>: the result \<open>r\<close> of an operation on \<open>w\<close> and \<open>s\<close> is a value, the window has only
  moved its cursor and is still in order, and the effects are steps of \<open>ll_step b\<close>.  The rule
  \<open>runs_bind\<close> composes operations.
\<close>

definition runs :: "bool \<Rightarrow> window \<Rightarrow> tty \<Rightarrow> (window \<times> tty) option \<Rightarrow> bool" where
  "runs b w s r \<longleftrightarrow> (\<exists>w' s'. r = Some (w', s') \<and> window_ok w' s' \<and> same_place w w' \<and> ll_steps b s s')"

lemma runsI: "window_ok w' s' \<Longrightarrow> same_place w w' \<Longrightarrow> ll_steps b s s' \<Longrightarrow> runs b w s (Some (w', s'))"
  by (simp add: runs_def)

lemma runs_refl: "window_ok w s \<Longrightarrow> runs b w s (Some (w, s))"
  by (simp add: runsI)

lemma runs_bind:
  assumes "runs b w s r"
    and "\<And>w' s'. r = Some (w', s') \<Longrightarrow> window_ok w' s' \<Longrightarrow> same_place w w' \<Longrightarrow> ll_steps b s s' \<Longrightarrow>
      runs b w' s' (f (w', s'))"
  shows "runs b w s (r \<bind> f)"
proof -
  obtain w1 s1 where one: "r = Some (w1, s1)" "window_ok w1 s1" "same_place w w1" "ll_steps b s s1"
    using assms(1) by (auto simp: runs_def)
  obtain w2 s2 where "f (w1, s1) = Some (w2, s2)" "window_ok w2 s2" "same_place w1 w2" "ll_steps b s1 s2"
    using assms(2) [OF one] by (auto simp: runs_def)
  with one show ?thesis by (auto simp: runs_def intro: same_place_trans rtranclp_trans)
qed

lemma ll_steps_mono: "ll_steps False s s' \<Longrightarrow> ll_steps b s s'"
  by (rule mono_rtranclp [rule_format, of "ll_step False"])
    (auto elim!: ll_step.cases intro: ll_step.intros)

lemma window_ok_drawn:
  assumes "window_ok w s" "drawn w s w' s' F" "win_y w' \<le> maxy w + 1" "win_x w' \<le> maxx w"
  shows "window_ok w' s'" "runs b w s (Some (w', s'))"
proof -
  have p: "same_place w w'" "ll_steps False s s'" using assms(2) by (auto simp: drawn_def)
  have "in_screen w s" "text_image s" using assms(1) by (auto simp: window_ok_def)
  then have "in_screen w' s'" "text_image s'" using drawn_keeps [OF _ assms(2)] by auto
  then show ok: "window_ok w' s'" using assms(3,4) same_place_fields [OF p(1)] by (auto simp: window_ok_def)
  show "runs b w s (Some (w', s'))" by (rule runsI [OF ok p(1) ll_steps_mono [OF p(2)]])
qed

lemma runs_wmove:
  assumes "window_ok w s"
  shows "runs b w s (Some (wmove y x (w, s)))"
proof (cases "y \<le> maxy w \<and> x \<le> maxx w")
  case True
  obtain s' where mv: "wmove y x (w, s) = (w\<lparr>win_y := y, win_x := x\<rparr>, s')"
    and d: "drawn w s (w\<lparr>win_y := y, win_x := x\<rparr>) s' (cell s)"
    by (rule wmove_in [of y w x s]) (use True in auto)
  show ?thesis unfolding mv by (rule window_ok_drawn(2) [OF assms d]) (use True in auto)
next
  case False
  with assms show ?thesis by (auto simp: wmove_def intro: runs_refl)
qed

lemma runs_waddch_update:
  assumes "window_ok w s" "win_y w \<le> maxy w"
  shows "runs b w s (waddch_update ch (w, s))"
proof (cases "ch = 10 \<or> ch = 13")
  case True
  let ?w = "w\<lparr>win_y := if ch = 10 then byte (win_y w + 1) else win_y w, win_x := 0\<rparr>"
  have y: "win_y ?w \<le> maxy w + 1" using assms by (auto simp: window_ok_def in_screen_def byte_def)
  have d: "drawn w s ?w s (cell s)" by (auto simp: drawn_def)
  obtain s' where "waddch_update ch (w, s) = Some (?w, s')" "drawn w s ?w s' (cell s)"
    using True d drawn_goto [OF d] by (cases "leaveok ?w") (simp_all add: waddch_update_def Let_def)
  then show ?thesis using window_ok_drawn(2) [OF assms(1), of ?w s' "cell s" b] y by simp
next
  case False
  have ok: "in_screen w s" "win_x w \<le> maxx w" using assms by (auto simp: window_ok_def)
  obtain s' where run: "waddch 0 ch (w, s) = Some (advance w, s')"
    and d: "drawn w s (advance w) s'
      (\<lambda>r c. if r = begy w + win_y w \<and> c = begx w + win_x w then ch else cell s r c)"
    using waddch_cell [OF ok(1) assms(2) ok(2), of ch 0] False by auto
  have "waddch_update ch (w, s) = Some (advance w, s')"
    using run assms(2) by (simp add: waddch_body_def)
  then show ?thesis
    using window_ok_drawn(2) [OF assms(1) d, of b] ok assms(2) by (auto simp: advance_def)
qed

lemma runs_wclear_root:
  assumes "window_ok w s" "\<not> is_subwin w"
  shows "runs True w s (wclear wa (w, s))"
proof -
  let ?s = "tty_ll_clear (s\<lparr>image := replicate (lines s * cols s) 32\<rparr>)"
  have "window_ok (w\<lparr>win_y := 0, win_x := 0\<rparr>) ?s"
    using assms(1) by (auto simp: window_ok_def in_screen_def text_image_def)
  then show ?thesis using assms(2)
    by (auto simp: wclear_def intro!: runsI r_into_rtranclp ll_step.clear)
qed

lemma runs_wclear_sub:
  assumes "window_ok w s" "is_subwin w"
  shows "runs b w s (wclear (waddch n) (w, s))"
proof -
  let ?w = "w\<lparr>win_y := 0, win_x := 0\<rparr>"
  obtain s1 where mv: "wmove 0 0 (w, s) = (?w, s1)" and d1: "drawn w s ?w s1 (cell s)"
    by (rule wmove_in [of 0 w 0 s]) auto
  have ok: "window_ok ?w s1" by (rule window_ok_drawn(1) [OF assms(1) d1]) auto
  then obtain s2 where cl: "wclrtobot (waddch n) (?w, s1) = Some (?w, s2)"
    and d2: "drawn ?w s1 ?w s2 (\<lambda>r c. if row_tail ?w (win_y ?w) (win_x ?w) r c \<or>
      in_window ?w r c \<and> begy ?w + win_y ?w < r then 32 else cell s1 r c)"
    using wclrtobot_rows [of ?w s1 n] by (auto simp: window_ok_def)
  show ?thesis using assms(2) mv cl window_ok_drawn(2) [OF assms(1) drawn_trans [OF d1 d2], of b]
    by (simp add: wclear_def)
qed

lemma runs_waddch:
  assumes "window_ok w s" "b \<or> is_subwin w \<or> 0 < maxy w"
  shows "runs b w s (waddch (Suc n) ch (w, s))"
proof (cases "win_y w \<le> maxy w")
  case True
  with runs_waddch_update [OF assms(1) True] show ?thesis by (simp add: waddch_body_def)
next
  case False
  then have y: "win_y w = maxy w + 1" "byte (win_y w - maxy w) = 1"
    using assms(1) by (auto simp: window_ok_def byte_def)
  have scroll: "runs b w s (wscroll (waddch n) 1 (w, s)) \<and>
    (\<forall>w' s'. wscroll (waddch n) 1 (w, s) = Some (w', s') \<longrightarrow> win_y w' \<le> maxy w')"
  proof (cases "0 < maxy w")
    case True
    then obtain s' where "wscroll (waddch n) 1 (w, s) = Some (w\<lparr>win_y := maxy w - 1 + 1, win_x := 0\<rparr>, s')"
      "drawn w s (w\<lparr>win_y := maxy w - 1 + 1, win_x := 0\<rparr>) s' (scrolled w 1 s)"
      using wscroll_rows [of w s 1 n] assms(1) by (auto simp: window_ok_def)
    then show ?thesis using window_ok_drawn(2) [OF assms(1)] True by auto
  next
    case one_line: False
    show ?thesis
    proof (cases "is_subwin w")
      case True
      let ?w = "w\<lparr>win_y := 0, win_x := 0\<rparr>"
      obtain s1 where mv: "wmove 0 0 (w, s) = (?w, s1)" and d1: "drawn w s ?w s1 (cell s)"
        by (rule wmove_in [of 0 w 0 s]) auto
      have ok: "window_ok ?w s1" by (rule window_ok_drawn(1) [OF assms(1) d1]) auto
      obtain s2 where "wclrtobot (waddch n) (?w, s1) = Some (?w, s2)"
        using wclrtobot_rows [of ?w s1 n] ok by (auto simp: window_ok_def)
      with one_line True mv runs_wclear_sub [OF assms(1) True, of b n] show ?thesis
        by (simp add: wscroll_def wclear_def)
    next
      case False
      with one_line assms(2) have b by simp
      with one_line False runs_wclear_root [OF assms(1) False, of "waddch n"] show ?thesis
        by (auto simp: wscroll_def wclear_def)
    qed
  qed
  have "runs b w s (wscroll (waddch n) 1 (w, s) \<bind> waddch_update ch)"
    by (rule runs_bind) (use scroll runs_waddch_update in auto)
  moreover have "runs b w s (Some (w, s))" by (rule runs_refl [OF assms(1)])
  ultimately show ?thesis using y by (simp add: waddch_body_def)
qed

definition scrollable :: "bool \<Rightarrow> window \<Rightarrow> bool" where
  "scrollable b w \<longleftrightarrow> b \<or> is_subwin w \<or> 0 < maxy w"

lemma scrollable_same: "scrollable b w \<Longrightarrow> same_place w w' \<Longrightarrow> scrollable b w'"
  by (simp add: scrollable_def same_place_fields)

lemma runs_put: "window_ok w s \<Longrightarrow> scrollable b w \<Longrightarrow> runs b w s (waddch (Suc n) ch (w, s))"
  by (rule runs_waddch) (simp_all add: scrollable_def)

lemma runs_repeat_waddch:
  assumes "window_ok w s" "scrollable b w"
  shows "runs b w s (repeat_waddch (waddch (Suc n)) k (w, s))"
  using assms
proof (induction k arbitrary: w s)
  case (Suc k)
  show ?case unfolding repeat_waddch.simps
    by (rule runs_bind [OF runs_put [OF Suc.prems] Suc.IH]) (use Suc.prems scrollable_same in auto)
qed (simp add: runs_refl)

lemma runs_wspacetoeol:
  "window_ok w s \<Longrightarrow> scrollable b w \<Longrightarrow> runs b w s (wspacetoeol (waddch (Suc n)) (w, s))"
  unfolding wspacetoeol_def prod.case by (rule runs_repeat_waddch)

lemma runs_wclrtoeol:
  "window_ok w s \<Longrightarrow> scrollable b w \<Longrightarrow> runs b w s (wclrtoeol (waddch (Suc n)) (w, s))"
  unfolding wclrtoeol_def prod.case by (rule runs_bind [OF runs_wspacetoeol runs_wmove])

lemma runs_wmove_then:
  assumes "window_ok w s" "scrollable b w"
    and "\<And>w' s'. window_ok w' s' \<Longrightarrow> scrollable b w' \<Longrightarrow> same_place w w' \<Longrightarrow> runs b w' s' (f (w', s'))"
  shows "runs b w s (f (wmove y x (w, s)))"
proof -
  have "runs b w s (Some (wmove y x (w, s)) \<bind> f)"
    by (rule runs_bind [OF runs_wmove [OF assms(1)] assms(3)]) (use assms(2) scrollable_same in auto)
  then show ?thesis by simp
qed

lemma runs_clear_lines:
  assumes "window_ok w s" "scrollable b w"
  shows "runs b w s (clear_lines (waddch (Suc n)) y k (w, s))"
  using assms
proof (induction k arbitrary: y w s)
  case (Suc k)
  have "runs b w s (wspacetoeol (waddch (Suc n)) (wmove y 0 (w, s)))"
    by (rule runs_wmove_then [OF Suc.prems]) (rule runs_wspacetoeol)
  then show ?case unfolding clear_lines.simps
    by (rule runs_bind [OF _ Suc.IH]) (use Suc.prems scrollable_same in auto)
qed (simp add: runs_refl)

lemma runs_wclrtobot:
  assumes "window_ok w s" "scrollable b w"
  shows "runs b w s (wclrtobot (waddch (Suc n)) (w, s))"
proof -
  have "maxy w \<noteq> 255" using assms(1) by (auto simp: window_ok_def in_screen_def)
  then show ?thesis unfolding wclrtobot_def prod.case Let_def
    by (auto intro!: runs_bind [OF runs_wspacetoeol] runs_bind [OF runs_clear_lines] runs_wmove assms
        elim: scrollable_same [OF assms(2)])
qed

lemma runs_wclear:
  assumes "window_ok w s" "b \<or> is_subwin w"
  shows "runs b w s (wclear (waddch n) (w, s))"
  using assms runs_wclear_root [OF assms(1)] runs_wclear_sub [OF assms(1)] by (cases "is_subwin w") auto

lemma runs_scroll_row:
  assumes "window_ok w s" "scrollable b w" "src \<le> maxy w"
  shows "runs b w s (scroll_row (waddch (Suc n)) src k (w, s))"
  using assms
proof (induction k arbitrary: w s)
  case (Suc k)
  have "map_read w src (win_x w) s = Some (cell s (begy w + src) (begx w + win_x w))"
    using Suc.prems by (intro map_read_cell) (auto simp: window_ok_def)
  moreover have "runs b w s (waddch (Suc n) ch (w, s) \<bind> scroll_row (waddch (Suc n)) src k)" for ch
    by (rule runs_bind [OF runs_put [OF Suc.prems(1,2)] Suc.IH])
      (use Suc.prems scrollable_same same_place_fields in auto)
  ultimately show ?case by (simp del: waddch.simps)
qed (simp add: runs_refl)

lemma runs_scroll_rows:
  assumes "window_ok w s" "scrollable b w" "y + k + m \<le> maxy w + 1"
  shows "runs b w s (scroll_rows (waddch (Suc n)) m y k (w, s))"
  using assms
proof (induction k arbitrary: y w s)
  case (Suc k)
  have "runs b w s (scroll_row (waddch (Suc n)) (y + m) (maxx w + 1) (wmove y 0 (w, s)))"
    by (rule runs_wmove_then [OF Suc.prems(1,2)], rule runs_scroll_row)
      (use Suc.prems(3) same_place_fields in auto)
  moreover have "maxx w \<noteq> 255" using Suc.prems(1) by (auto simp: window_ok_def in_screen_def)
  ultimately have "runs b w s (if maxx (fst (w, s)) = 255 then None
      else scroll_row (waddch (Suc n)) (y + m) (maxx (fst (w, s)) + 1) (wmove y 0 (w, s)))"
    by simp
  then show ?case unfolding scroll_rows.simps
    by (rule runs_bind [OF _ Suc.IH]) (use Suc.prems scrollable_same same_place_fields in auto)
qed (simp add: runs_refl)

lemma runs_wscroll:
  assumes "window_ok w s" "scrollable b w" "b \<or> is_subwin w \<or> m \<le> maxy w"
  shows "runs b w s (wscroll (waddch (Suc n)) m (w, s))"
proof (cases "m > maxy w")
  case True
  with assms runs_wclear [of w s b "Suc n"] show ?thesis by (auto simp: wscroll_def)
next
  case False
  have "maxy w - m \<noteq> 255" using assms(1) by (auto simp: window_ok_def in_screen_def)
  then have rows: "runs b w s (if maxy w - m = 255 then None
      else scroll_rows (waddch (Suc n)) m 0 (maxy w - m + 1) (w, s))"
    using runs_scroll_rows [OF assms(1,2), of 0 "maxy w - m + 1" m n] False by simp
  have "runs b w s ((if maxy w - m = 255 then None
      else scroll_rows (waddch (Suc n)) m 0 (maxy w - m + 1) (w, s)) \<bind>
      (\<lambda>ws. wclrtobot (waddch (Suc n)) (wmove (byte (maxy w - m + 1)) 0 ws)))"
    by (rule runs_bind [OF rows], rule runs_wmove_then, assumption,
        erule scrollable_same [OF assms(2)], rule runs_wclrtobot)
  with False show ?thesis unfolding wscroll_def prod.case by simp
qed

lemma runs_waddstr:
  assumes "window_ok w s" "scrollable b w" "0 \<in> set cs"
  shows "runs b w s (waddstr (Suc n) cs (w, s))"
  using assms
proof (induction cs arbitrary: w s)
  case (Cons c cs)
  show ?case
  proof (cases "c = 0")
    case False
    then have "runs b w s (waddch (Suc n) c (w, s) \<bind> waddstr (Suc n) cs)"
      by (intro runs_bind [OF runs_put [OF Cons.prems(1,2)] Cons.IH])
        (use Cons.prems scrollable_same in auto)
    with False show ?thesis by (simp del: waddch.simps)
  qed (simp add: runs_refl Cons.prems)
qed simp

section \<open>The layer as a state machine\<close>

text \<open>
  The main window is the window 0; every operation names the window it draws on.  A sub-window
  is created inside the screen, as the README asks of the caller.
\<close>

datatype tty_op = Addch u8 | Addstr "u8 list" | Move nat nat | Clrtoeol | Clrtobot | Clear | Scroll nat

fun tty_do :: "tty_op \<Rightarrow> on_window" where
  "tty_do (Addch ch) ws = waddch (Suc 0) ch ws"
| "tty_do (Addstr cs) ws = waddstr (Suc 0) cs ws"
| "tty_do (Move y x) ws = Some (wmove y x ws)"
| "tty_do Clrtoeol ws = wclrtoeol (waddch (Suc 0)) ws"
| "tty_do Clrtobot ws = wclrtobot (waddch (Suc 0)) ws"
| "tty_do Clear ws = wclear (waddch (Suc 0)) ws"
| "tty_do (Scroll n) ws = wscroll (waddch (Suc 0)) n ws"

fun terminated :: "tty_op \<Rightarrow> bool" where
  "terminated (Addstr cs) = (0 \<in> set cs)"
| "terminated _ = True"

inductive tty_step :: "window list \<times> tty \<Rightarrow> window list \<times> tty \<Rightarrow> bool" where
  draw: "i < length ws \<Longrightarrow> terminated a \<Longrightarrow> tty_do a (ws ! i, s) = Some (w', s') \<Longrightarrow>
    tty_step (ws, s) (ws[i := w'], s')"
| new_window: "0 < lns \<Longrightarrow> 0 < cls \<Longrightarrow> y + lns \<le> lines s \<Longrightarrow> x + cls \<le> cols s \<Longrightarrow>
    tty_step (ws, s) (ws @ [subwin lns cls y x], s)"

definition tty_start :: "nat \<Rightarrow> nat \<Rightarrow> window list \<times> tty" where
  "tty_start lns cls =
    (let (w, s) = initscr
       (\<lparr>is_subwin = False, linewrap = False, scrollok = False, leaveok = False, win_y = 0,
         win_x = 0, maxy = 0, maxx = 0, begy = 0, begx = 0\<rparr>,
        \<lparr>lines = lns, cols = cls, image = replicate (lns * cls) 0, ll_y = 0, ll_x = 0, ll_log = []\<rparr>)
     in ([w], s))"

lemma runs_tty_do:
  assumes "window_ok w s" "terminated a"
  shows "runs True w s (tty_do a (w, s))"
proof -
  have "scrollable True w" by (simp add: scrollable_def)
  with assms show ?thesis
    by (cases a) (auto simp del: waddch.simps intro: runs_put runs_waddstr runs_wmove runs_wclrtoeol
        runs_wclrtobot runs_wclear runs_wscroll)
qed

definition tty_ok :: "window list \<times> tty \<Rightarrow> bool" where
  "tty_ok p \<longleftrightarrow> (\<forall>w \<in> set (fst p). window_ok w (snd p))"

lemma window_ok_steps: "window_ok w s \<Longrightarrow> ll_steps b s s' \<Longrightarrow> window_ok w s'"
  using in_screen_steps [of w s b s' w] ll_steps_keep [of b s s'] by (auto simp: window_ok_def)

lemma tty_step_ok:
  assumes "tty_step p q" "tty_ok p" "fst p \<noteq> []"
  shows "tty_ok q \<and> fst q \<noteq> [] \<and> ll_steps True (snd p) (snd q)"
  using assms
proof cases
  case (draw i ws a s w' s')
  then have "window_ok (ws ! i) s" using assms(2) by (auto simp: tty_ok_def)
  from runs_tty_do [OF this draw(4)] draw(5)
  have r: "window_ok w' s'" "ll_steps True s s'" by (auto simp: runs_def)
  with draw assms(2) show ?thesis
    by (auto simp: tty_ok_def dest!: set_update_subset_insert [THEN subsetD] intro: window_ok_steps)
next
  case (new_window lns cls y s x ws)
  with assms(2,3) have ok: "lines s \<le> 255" "cols s \<le> 255" "length (image s) = lines s * cols s" "text_image s"
    by (auto simp: tty_ok_def neq_Nil_conv window_ok_def in_screen_def)
  have dec: "byte (k + 255) = k - 1" if "0 < k" "k \<le> 255" for k
  proof -
    have "k + 255 = (k - 1) + 256" using that by simp
    then have "byte (k + 255) = (k - 1) mod 256" by (simp only: byte_def mod_add_self2)
    with that show ?thesis by simp
  qed
  have "byte (lns + 255) = lns - 1" "byte (cls + 255) = cls - 1"
    using new_window ok dec [of lns] dec [of cls] by simp_all
  with ok new_window have "window_ok (subwin lns cls y x) s"
    by (auto simp: window_ok_def in_screen_def subwin_def)
  with new_window assms(2) show ?thesis by (auto simp: tty_ok_def)
qed

end
