(* ===== verification/Tty_Driver.thy ===== *)
theory Tty_Driver imports Tty begin

text \<open>
  The displays under the terminal layer (core/tty/tty-s1d15g10.h, core/tty/tty-hd44780.h with
  hardware/lcd/hd44780.c, and the terminal of core/tty/tty-vt100.c), the keyboard queue of
  core/tty/tty.c, and the properties of the layer.

  \<open>ll_display\<close> is what the layer relies on in a display, \<open>ll_steady\<close> adds that clearing leaves
  the position alone; the first two drivers satisfy both, the terminal only the first.
  \<open>char_fifo\<close> is the contract of the keyboard queue.
\<close>

section \<open>Displays\<close>

text \<open>
  What a display has to do for the layer, at the positions that fit it: a movement takes it to
  the position, and a character put where the display stands appears there and moves it on by
  one column.
\<close>

locale ll_display =
  fixes disp :: "ll_op \<Rightarrow> 'd \<Rightarrow> 'd" and shown :: "'d \<Rightarrow> nat \<Rightarrow> nat \<Rightarrow> u8"
    and at :: "'d \<Rightarrow> nat \<Rightarrow> nat \<Rightarrow> bool" and fits :: "nat \<Rightarrow> nat \<Rightarrow> bool"
  assumes goto_at: "at (disp (LL_goto y x) d) y x"
    and goto_shown: "shown (disp (LL_goto y x) d) r c = shown d r c"
    and put_at: "at d y x \<Longrightarrow> fits y x \<Longrightarrow> ch \<noteq> 10 \<Longrightarrow> ch \<noteq> 13 \<Longrightarrow> at (disp (LL_put y x ch) d) y (x + 1)"
    and put_shown: "at d y x \<Longrightarrow> fits y x \<Longrightarrow> fits r c \<Longrightarrow> ch \<noteq> 10 \<Longrightarrow> ch \<noteq> 13 \<Longrightarrow>
      shown (disp (LL_put y x ch) d) r c = (if r = y \<and> c = x then ch else shown d r c)"

definition display_after :: "(ll_op \<Rightarrow> 'd \<Rightarrow> 'd) \<Rightarrow> 'd \<Rightarrow> tty \<Rightarrow> 'd" where
  "display_after f d s = fold f (ll_log s) d"

text \<open>
  A display mirrors the image when it stands where the layer thinks and every cell shows the
  byte of the image; the zero bytes the image starts with show as blanks.
\<close>

definition mirrors :: "(ll_op \<Rightarrow> 'd \<Rightarrow> 'd) \<Rightarrow> ('d \<Rightarrow> nat \<Rightarrow> nat \<Rightarrow> u8) \<Rightarrow> ('d \<Rightarrow> nat \<Rightarrow> nat \<Rightarrow> bool) \<Rightarrow>
    'd \<Rightarrow> tty \<Rightarrow> bool" where
  "mirrors f sh a d s \<longleftrightarrow> a (display_after f d s) (ll_y s) (ll_x s) \<and>
    (\<forall>r < lines s. \<forall>c < cols s. sh (display_after f d s) r c = cell s r c \<or>
      cell s r c = 0 \<and> sh (display_after f d s) r c = 32)"

context ll_display begin

lemma mirrors_goto:
  assumes "mirrors disp shown at d s"
  shows "mirrors disp shown at d (tty_ll_goto y x s)"
proof -
  have "cell (tty_ll_goto y x s) r c = cell s r c" for r c by (rule cell_cong) simp_all
  with assms show ?thesis
    by (auto simp: mirrors_def display_after_def tty_ll_goto_def goto_at goto_shown)
qed

lemma mirrors_put:
  assumes "mirrors disp shown at d s" "y < lines s" "x < cols s" "cols s \<le> 255"
    and "length (image s) = lines s * cols s" "\<forall>r < lines s. \<forall>c < cols s. fits r c"
    and "ch \<noteq> 10" "ch \<noteq> 13"
  shows "mirrors disp shown at d (tty_ll_put y x ch (s\<lparr>image := (image s)[y * cols s + x := ch]\<rparr>))"
proof -
  define s1 where "s1 = tty_ll_goto y x s"
  let ?put = "tty_ll_put y x ch (s\<lparr>image := (image s)[y * cols s + x := ch]\<rparr>)"
  have m: "mirrors disp shown at d s1" unfolding s1_def by (rule mirrors_goto [OF assms(1)])
  have pos: "ll_y s1 = y" "ll_x s1 = x" "cols s1 = cols s" "lines s1 = lines s"
    and c1: "cell s1 r c = cell s r c" for r c
    by (auto simp: s1_def tty_ll_goto_def cell_def)
  have put: "ll_log ?put = ll_log s1 @ [LL_put y x ch]" "ll_y ?put = y" "ll_x ?put = x + 1"
    using assms(3,4) by (auto simp: s1_def tty_ll_put_def tty_ll_goto_def Let_def byte_def)
  have cp: "cell ?put r c = (if r = y \<and> c = x then ch else cell s r c)"
    if "r < lines s" "c < cols s" for r c
    using cell_update [OF assms(5,2,3) that, of ch] by (simp add: cell_def)
  have "at (display_after disp d s1) y x" using m pos by (simp add: mirrors_def)
  with m pos c1 cp assms(2,3,6-8) put_at put_shown show ?thesis
    by (auto simp: mirrors_def display_after_def put)
qed

lemma mirrors_draw:
  assumes "ll_step False s s'" "mirrors disp shown at d s" "cols s \<le> 255"
    and "length (image s) = lines s * cols s" "\<forall>r < lines s. \<forall>c < cols s. fits r c"
  shows "mirrors disp shown at d s'"
  using assms by cases (auto intro: mirrors_goto mirrors_put)

lemma mirrors_draws:
  assumes "ll_steps False s s'" "mirrors disp shown at d s" "cols s \<le> 255"
    and "length (image s) = lines s * cols s" "\<forall>r < lines s. \<forall>c < cols s. fits r c"
  shows "mirrors disp shown at d s'"
  using assms
proof induction
  case (step s1 s2)
  have "cols s1 \<le> 255" "length (image s1) = lines s1 * cols s1" "\<forall>r < lines s1. \<forall>c < cols s1. fits r c"
    using step ll_steps_keep [OF step(1)] by auto
  with step show ?case by (auto intro: mirrors_draw)
qed

end

text \<open>Displays whose position clearing leaves alone.\<close>

locale ll_steady = ll_display +
  assumes clear_at: "at d y x \<Longrightarrow> at (disp LL_clear d) y x"
    and clear_shown: "shown (disp LL_clear d) r c = 32"
begin

lemma mirrors_clear:
  "mirrors disp shown at d s \<Longrightarrow>
    mirrors disp shown at d (tty_ll_clear (s\<lparr>image := replicate (lines s * cols s) 32\<rparr>))"
  by (auto simp: mirrors_def clear_at display_after_def tty_ll_clear_def clear_shown cell_def
      cell_in_image)

lemma mirrors_steps:
  assumes "ll_steps True s s'" "mirrors disp shown at d s" "cols s \<le> 255"
    and "length (image s) = lines s * cols s" "\<forall>r < lines s. \<forall>c < cols s. fits r c"
  shows "mirrors disp shown at d s'"
  using assms
proof induction
  case (step s1 s2)
  have ok: "cols s1 \<le> 255" "length (image s1) = lines s1 * cols s1" "\<forall>r < lines s1. \<forall>c < cols s1. fits r c"
    using step ll_steps_keep [OF step(1)] by auto
  have "mirrors disp shown at d s1" using step by simp
  with step(2) ok show ?case
    by cases (auto intro: mirrors_goto mirrors_put mirrors_clear)
qed

end

text \<open>The graphics display is told the position of each character.\<close>

fun s1d15g10_ll :: "ll_op \<Rightarrow> (nat \<Rightarrow> nat \<Rightarrow> u8) \<Rightarrow> nat \<Rightarrow> nat \<Rightarrow> u8" where
  "s1d15g10_ll LL_clear d = (\<lambda>r c. 32)"
| "s1d15g10_ll (LL_goto y x) d = d"
| "s1d15g10_ll (LL_put y x ch) d = (\<lambda>r c. if r = y \<and> c = x then ch else d r c)"

definition s1d15g10_at :: "(nat \<Rightarrow> nat \<Rightarrow> u8) \<Rightarrow> nat \<Rightarrow> nat \<Rightarrow> bool" where
  "s1d15g10_at d y x \<longleftrightarrow> True"

definition s1d15g10_shown :: "(nat \<Rightarrow> nat \<Rightarrow> u8) \<Rightarrow> nat \<Rightarrow> nat \<Rightarrow> u8" where
  "s1d15g10_shown d = d"

definition any_position :: "nat \<Rightarrow> nat \<Rightarrow> bool" where
  "any_position y x \<longleftrightarrow> True"

interpretation s1d15g10: ll_steady s1d15g10_ll s1d15g10_shown s1d15g10_at any_position
  by unfold_locales (auto simp: s1d15g10_at_def s1d15g10_shown_def)

text \<open>
  The HD44780 driver for the three controllers it knows: it counts its position itself, sets the
  display memory's address from it before every character, and clears without moving.
\<close>

datatype controller = HD44780_ORIGINAL | HD44780_DISPTECH | HD44780_KS0067B

record hd44780 =
  current_pos :: nat
  ddram :: "nat \<Rightarrow> u8"

fun hd44780_address :: "controller \<Rightarrow> nat \<Rightarrow> nat" where
  "hd44780_address HD44780_ORIGINAL pos =
    (if pos \<le> 19 then pos else if pos \<le> 39 then 0x20 - 20 + pos else
     if pos \<le> 59 then 0x40 - 40 + pos else if pos \<le> 79 then 0x60 - 60 + pos else 0)"
| "hd44780_address HD44780_DISPTECH pos =
    (if pos \<le> 19 then pos else if pos \<le> 39 then 0x40 - 20 + pos else
     if pos \<le> 59 then 0x10 + pos - 40 else if pos \<le> 79 then 0x50 - 60 + pos else 0)"
| "hd44780_address HD44780_KS0067B pos =
    (if pos \<le> 19 then pos else if pos \<le> 39 then 0x40 - 20 + pos else
     if pos \<le> 59 then 0x14 + pos - 40 else if pos \<le> 79 then 0x54 - 60 + pos else 0)"

definition hd44780_clear :: "hd44780 \<Rightarrow> hd44780" where
  "hd44780_clear d = d\<lparr>ddram := (\<lambda>a. 32)\<rparr>"

definition hd44780_goto :: "nat \<Rightarrow> nat \<Rightarrow> hd44780 \<Rightarrow> hd44780" where
  "hd44780_goto l pos d = d\<lparr>current_pos := byte ((l * 20 + pos) mod 80)\<rparr>"

definition hd44780_char :: "controller \<Rightarrow> u8 \<Rightarrow> hd44780 \<Rightarrow> hd44780" where
  "hd44780_char ctl ch d =
    (let d = d\<lparr>ddram := (ddram d)(hd44780_address ctl (current_pos d) := ch),
               current_pos := current_pos d + 1\<rparr>
     in if current_pos d = 80 then d\<lparr>current_pos := 0\<rparr> else d)"

definition hd44780_put :: "controller \<Rightarrow> u8 \<Rightarrow> hd44780 \<Rightarrow> hd44780" where
  "hd44780_put ctl ch d =
    (if ch = 10 then
       let d = (hd44780_char ctl 32 ^^ ((20 - current_pos d mod 20) mod 20)) d
       in if current_pos d \<ge> 80 then d\<lparr>current_pos := current_pos d - 80\<rparr> else d
     else if ch = 13 then d\<lparr>current_pos := current_pos d - current_pos d mod 20\<rparr>
     else hd44780_char ctl ch d)"

fun hd44780_ll :: "controller \<Rightarrow> ll_op \<Rightarrow> hd44780 \<Rightarrow> hd44780" where
  "hd44780_ll ctl LL_clear d = hd44780_clear d"
| "hd44780_ll ctl (LL_goto y x) d = hd44780_goto y x d"
| "hd44780_ll ctl (LL_put y x ch) d = hd44780_put ctl ch d"

definition hd44780_shown :: "controller \<Rightarrow> hd44780 \<Rightarrow> nat \<Rightarrow> nat \<Rightarrow> u8" where
  "hd44780_shown ctl d r c = ddram d (hd44780_address ctl (r * 20 + c))"

definition hd44780_at :: "hd44780 \<Rightarrow> nat \<Rightarrow> nat \<Rightarrow> bool" where
  "hd44780_at d y x \<longleftrightarrow> current_pos d = (y * 20 + x) mod 80"

text \<open>On the DISPTECH controller the addresses of lines two apart meet after 16 columns.\<close>

definition hd44780_cols :: "controller \<Rightarrow> nat" where
  "hd44780_cols ctl = (if ctl = HD44780_DISPTECH then 16 else 20)"

definition hd44780_fits :: "controller \<Rightarrow> nat \<Rightarrow> nat \<Rightarrow> bool" where
  "hd44780_fits ctl y x \<longleftrightarrow> y < 4 \<and> x < hd44780_cols ctl"

lemma less_4_cases: "(y :: nat) < 4 \<Longrightarrow> y = 0 \<or> y = 1 \<or> y = 2 \<or> y = 3"
  by linarith

fun hd44780_row :: "controller \<Rightarrow> nat \<Rightarrow> nat" where
  "hd44780_row HD44780_ORIGINAL y = [0x00, 0x20, 0x40, 0x60] ! y"
| "hd44780_row HD44780_DISPTECH y = [0x00, 0x40, 0x10, 0x50] ! y"
| "hd44780_row HD44780_KS0067B y = [0x00, 0x40, 0x14, 0x54] ! y"

lemma hd44780_address_row:
  assumes "y < 4" "x < 20"
  shows "hd44780_address ctl (y * 20 + x) = hd44780_row ctl y + x"
  using less_4_cases [OF assms(1)] assms(2) by (cases ctl) (elim disjE; simp)+

lemma hd44780_address_inj:
  assumes "hd44780_fits ctl r c" "hd44780_fits ctl y x"
  shows "hd44780_address ctl (r * 20 + c) = hd44780_address ctl (y * 20 + x) \<longleftrightarrow> r = y \<and> c = x"
proof -
  have ry: "r < 4" "y < 4" "c < hd44780_cols ctl" "x < hd44780_cols ctl" "c < 20" "x < 20"
    using assms by (auto simp: hd44780_fits_def hd44780_cols_def split: if_splits)
  have "hd44780_row ctl r + c = hd44780_row ctl y + x \<longleftrightarrow> r = y \<and> c = x"
    using less_4_cases [OF ry(1)] less_4_cases [OF ry(2)] ry(3,4)
    by (cases ctl) (elim disjE; simp add: hd44780_cols_def; linarith)+
  then show ?thesis by (simp add: hd44780_address_row ry)
qed

lemma hd44780_fits_pos: "hd44780_fits ctl y x \<Longrightarrow> y * 20 + x < 80"
  by (auto simp: hd44780_fits_def hd44780_cols_def split: if_splits)

interpretation hd44780: ll_steady "hd44780_ll ctl" "hd44780_shown ctl" hd44780_at "hd44780_fits ctl" for ctl
proof
  fix d y x r c and ch :: u8
  assume a: "hd44780_at d y x" "hd44780_fits ctl y x" "ch \<noteq> 10" "ch \<noteq> 13"
  have pos: "current_pos d = y * 20 + x" "y * 20 + x < 80"
    using a hd44780_fits_pos [OF a(2)] by (auto simp: hd44780_at_def)
  show "hd44780_at (hd44780_ll ctl (LL_put y x ch) d) y (x + 1)"
    using a(3,4) pos by (auto simp: hd44780_put_def hd44780_char_def hd44780_at_def Let_def)
  assume f: "hd44780_fits ctl r c"
  show "hd44780_shown ctl (hd44780_ll ctl (LL_put y x ch) d) r c =
      (if r = y \<and> c = x then ch else hd44780_shown ctl d r c)"
    using a(3,4) pos hd44780_address_inj [OF f a(2)]
    by (auto simp: hd44780_put_def hd44780_char_def hd44780_shown_def Let_def)
qed (auto simp: hd44780_at_def hd44780_goto_def hd44780_shown_def hd44780_clear_def byte_def)

text \<open>A terminal that obeys the sequences of tty-vt100.c: clearing also sends its cursor home.\<close>

record vt100_display =
  cur_y :: nat
  cur_x :: nat
  cells :: "nat \<Rightarrow> nat \<Rightarrow> u8"

fun vt100_ll :: "ll_op \<Rightarrow> vt100_display \<Rightarrow> vt100_display" where
  "vt100_ll LL_clear d = \<lparr>cur_y = 0, cur_x = 0, cells = (\<lambda>r c. 32)\<rparr>"
| "vt100_ll (LL_goto y x) d = d\<lparr>cur_y := y, cur_x := x\<rparr>"
| "vt100_ll (LL_put y x ch) d =
    d\<lparr>cur_x := cur_x d + 1,
      cells := (\<lambda>r c. if r = cur_y d \<and> c = cur_x d then ch else cells d r c)\<rparr>"

definition vt100_at :: "vt100_display \<Rightarrow> nat \<Rightarrow> nat \<Rightarrow> bool" where
  "vt100_at d y x \<longleftrightarrow> cur_y d = y \<and> cur_x d = x"

interpretation vt100: ll_display vt100_ll cells vt100_at any_position
  by unfold_locales (auto simp: vt100_at_def)

section \<open>The keyboard queue\<close>

text \<open>tty_input_queue is a zero-terminated string of at most seven characters.\<close>

definition strlen :: "u8 list \<Rightarrow> nat" where
  "strlen q = length (takeWhile (\<lambda>c. c \<noteq> 0) q)"

definition getch :: "u8 list \<Rightarrow> u8 \<times> u8 list" where
  "getch q =
    (let ch = q ! 0
     in (ch, if ch \<noteq> 0 then memcpy_at 0 (slice 1 (strlen q) q) q else q))"

definition getch_queue :: "u8 \<Rightarrow> u8 list \<Rightarrow> nat \<times> u8 list" where
  "getch_queue ch q =
    (let len = strlen q
     in if len + 1 < length q then (0, q[len := ch, len + 1 := 0]) else (1, q))"

definition queued :: "u8 list \<Rightarrow> u8 list" where
  "queued q = takeWhile (\<lambda>c. c \<noteq> 0) q"

definition queue_ok :: "u8 list \<Rightarrow> bool" where
  "queue_ok q \<longleftrightarrow> length q = 8 \<and> 0 \<in> set q"

text \<open>The contract of a bounded first-in first-out queue of non-zero characters.\<close>

locale char_fifo =
  fixes push :: "u8 \<Rightarrow> 'q \<Rightarrow> nat \<times> 'q" and pop :: "'q \<Rightarrow> u8 \<times> 'q"
    and contents :: "'q \<Rightarrow> u8 list" and ok :: "'q \<Rightarrow> bool" and capacity :: nat
  assumes push_ok: "ok q \<Longrightarrow> ok (snd (push c q))"
    and pop_ok: "ok q \<Longrightarrow> ok (snd (pop q))"
    and push_room: "ok q \<Longrightarrow> c \<noteq> 0 \<Longrightarrow> length (contents q) < capacity \<Longrightarrow>
      fst (push c q) = 0 \<and> contents (snd (push c q)) = contents q @ [c]"
    and push_full: "ok q \<Longrightarrow> c \<noteq> 0 \<Longrightarrow> capacity \<le> length (contents q) \<Longrightarrow> push c q = (1, q)"
    and pop_head: "ok q \<Longrightarrow> contents q = c # cs \<Longrightarrow> fst (pop q) = c \<and> contents (snd (pop q)) = cs"
    and pop_empty: "ok q \<Longrightarrow> contents q = [] \<Longrightarrow> pop q = (0, q)"

definition push_all :: "(u8 \<Rightarrow> 'q \<Rightarrow> nat \<times> 'q) \<Rightarrow> u8 list \<Rightarrow> 'q \<Rightarrow> 'q" where
  "push_all push cs q = fold (\<lambda>c q. snd (push c q)) cs q"

primrec pop_n :: "('q \<Rightarrow> u8 \<times> 'q) \<Rightarrow> nat \<Rightarrow> 'q \<Rightarrow> u8 list" where
  "pop_n pop 0 q = []"
| "pop_n pop (Suc n) q = fst (pop q) # pop_n pop n (snd (pop q))"

context char_fifo begin

lemma push_all_contents:
  assumes "ok q" "0 \<notin> set cs" "length (contents q) \<le> capacity"
  shows "ok (push_all push cs q) \<and> contents (push_all push cs q) = take capacity (contents q @ cs)"
  using assms
proof (induction cs arbitrary: q)
  case (Cons c cs)
  show ?case
  proof (cases "length (contents q) < capacity")
    case True
    with Cons.prems push_room [of q c] have "contents (snd (push c q)) = contents q @ [c]" by simp
    with Cons.IH [of "snd (push c q)"] Cons.prems True push_ok show ?thesis
      by (simp add: push_all_def)
  next
    case False
    with Cons.prems push_full [of q c] have "push c q = (1, q)" by simp
    with Cons.IH [of q] Cons.prems False show ?thesis by (simp add: push_all_def)
  qed
qed (simp add: push_all_def)

lemma pop_n_contents:
  assumes "ok q"
  shows "pop_n pop n q = take n (contents q) @ replicate (n - length (contents q)) 0"
  using assms
proof (induction n arbitrary: q)
  case (Suc n)
  show ?case
  proof (cases "contents q")
    case Nil
    with Suc pop_empty [OF Suc.prems Nil] show ?thesis by simp
  next
    case (Cons c cs)
    with Suc.IH [OF pop_ok [OF Suc.prems]] pop_head [OF Suc.prems Cons] show ?thesis by simp
  qed
qed simp

lemma fifo:
  assumes "ok q" "contents q = []" "0 \<notin> set cs"
  shows "pop_n pop n (push_all push cs q) =
    take n (take capacity cs) @ replicate (n - min capacity (length cs)) 0"
  using push_all_contents [OF assms(1,3)] pop_n_contents assms(2) by (auto simp: min.commute)

end

lemma queue_split:
  assumes "queue_ok q"
  obtains rest where "q = queued q @ 0 # rest" "strlen q = length (queued q)"
    "length rest + length (queued q) = 7" "0 \<notin> set (queued q)"
proof -
  have "dropWhile (\<lambda>c. c \<noteq> 0) q \<noteq> []" using assms by (auto simp: queue_ok_def)
  then obtain c rest where r: "dropWhile (\<lambda>c. c \<noteq> 0) q = c # rest" by (cases "dropWhile (\<lambda>c. c \<noteq> 0) q") auto
  then have "c = 0" using hd_dropWhile [of "\<lambda>c. c \<noteq> 0" q] by fastforce
  with r have q: "q = queued q @ 0 # rest" using takeWhile_dropWhile_id [of "\<lambda>c. c \<noteq> 0" q] by (simp add: queued_def)
  have len: "length rest + length (queued q) = 7"
    using assms arg_cong [OF q, of length] by (simp add: queue_ok_def)
  show thesis
    by (rule that [OF q _ len]) (auto simp: queued_def strlen_def dest: set_takeWhileD)
qed

lemma queued_append [simp]: "0 \<notin> set xs \<Longrightarrow> queued (xs @ 0 # ys) = xs"
  by (induction xs) (auto simp: queued_def)

lemma queued_Nil [simp]: "queued (0 # ys) = []"
  by (simp add: queued_def)

lemma getch_spec:
  assumes "queue_ok q" "queued q = c # cs"
  shows "fst (getch q) = c \<and> queued (snd (getch q)) = cs \<and> queue_ok (snd (getch q))"
proof -
  obtain rest where q: "q = queued q @ 0 # rest" "strlen q = length (queued q)"
    "length rest + length (queued q) = 7" "0 \<notin> set (queued q)"
    by (rule queue_split [OF assms(1)])
  then have "q = c # cs @ 0 # rest" "strlen q = Suc (length cs)" "0 \<notin> set cs" "c \<noteq> 0"
    "length rest + length cs = 6" using assms(2) by auto
  then have "snd (getch q) = cs @ 0 # (0 # rest)" "fst (getch q) = c"
    by (simp_all add: getch_def memcpy_at_def slice_def Let_def)
  with \<open>0 \<notin> set cs\<close> \<open>length rest + length cs = 6\<close> show ?thesis by (simp add: queue_ok_def)
qed

lemma getch_empty:
  assumes "queue_ok q" "queued q = []"
  shows "getch q = (0, q)"
proof -
  obtain rest where "q = queued q @ 0 # rest" by (rule queue_split [OF assms(1)])
  then have "q ! 0 = 0" using assms(2) by (metis append_Nil nth_Cons_0)
  then show ?thesis by (simp add: getch_def)
qed

lemma getch_queue_spec:
  assumes "queue_ok q"
  shows "queue_ok (snd (getch_queue c q)) \<and>
    (c \<noteq> 0 \<longrightarrow> (if length (queued q) < 7
       then fst (getch_queue c q) = 0 \<and> queued (snd (getch_queue c q)) = queued q @ [c]
       else getch_queue c q = (1, q)))"
proof -
  obtain rest where q: "q = queued q @ 0 # rest" "strlen q = length (queued q)"
    "length rest + length (queued q) = 7" "0 \<notin> set (queued q)"
    by (rule queue_split [OF assms])
  have len: "length q = 8" using assms by (simp add: queue_ok_def)
  show ?thesis
  proof (cases "length (queued q) < 7")
    case True
    with q(3) obtain r rs where rest: "rest = r # rs" by (cases rest) auto
    have "q[strlen q := c, strlen q + 1 := 0] = queued q @ c # 0 # rs"
      unfolding q(2) by (subst q(1)) (simp add: rest list_update_append)
    then have "getch_queue c q = (0, queued q @ c # 0 # rs)"
      using True len by (simp add: getch_queue_def Let_def q(2))
    then show ?thesis using True q(3,4) rest queued_append [of "queued q @ [c]" rs]
      by (auto simp: queue_ok_def)
  next
    case False
    then show ?thesis using assms q len by (simp add: getch_queue_def Let_def)
  qed
qed

interpretation keyboard: char_fifo getch_queue getch queued queue_ok 7
proof
  show "queue_ok (snd (getch q))" if "queue_ok q" for q
    using that getch_spec [OF that] getch_empty [OF that] by (cases "queued q") auto
qed (use getch_queue_spec getch_spec getch_empty in \<open>auto simp: not_less\<close>)

section \<open>Properties\<close>

lemma waddch_past_end:
  assumes "win_y w = maxy w + 1" "scrollok w" "wscroll (waddch n) 1 (w, s) = Some (w', s')"
    and "win_y w' \<le> maxy w'"
  shows "waddch (Suc n) ch (w, s) = waddch (Suc n) ch (w', s')"
  using assms by (simp add: waddch_body_def byte_def)

lemma wspacetoeol_past_end:
  assumes "win_y w = maxy w + 1" "scrollok w" "wscroll (waddch n) 1 (w, s) = Some (w', s')"
    and "win_y w' \<le> maxy w'" "win_x w' = win_x w" "maxx w' = maxx w" "win_x w \<le> maxx w"
    and "maxx w < 255"
  shows "wspacetoeol (waddch (Suc n)) (w, s) = wspacetoeol (waddch (Suc n)) (w', s')"
proof -
  have "256 + maxx w + 1 - win_x w = (maxx w + 1 - win_x w) + 256" using assms(7) by simp
  then have "byte (256 + maxx w + 1 - win_x w) = (maxx w + 1 - win_x w) mod 256"
    by (simp only: byte_def mod_add_self2)
  then obtain k where "byte (256 + maxx w + 1 - win_x w) = Suc k"
    using assms(7,8) by (cases "maxx w + 1 - win_x w") auto
  then show ?thesis using waddch_past_end [OF assms(1-4)]
    by (simp add: wspacetoeol_def assms(5,6) del: waddch.simps)
qed

lemma reachable_tty:
  assumes "tty_step\<^sup>*\<^sup>* (tty_start lns cls) p" "0 < lns" "lns \<le> 255" "0 < cls" "cls \<le> 255"
  shows "tty_ok p \<and> fst p \<noteq> [] \<and> ll_steps True (snd (tty_start lns cls)) (snd p)"
  using assms(1)
proof induction
  case base
  have "byte (lns - 1) = lns - 1" "byte (cls - 1) = cls - 1" using assms by (simp_all add: byte_def)
  then show ?case using assms
    by (auto simp: tty_start_def initscr_def tty_ok_def window_ok_def in_screen_def text_image_def
        tty_ll_clear_def)
next
  case (step p q)
  with tty_step_ok [OF step(2)] show ?case by (auto intro: rtranclp_trans)
qed

text \<open>
  C31. On a screen the HD44780 driver can hold, in every state the terminal layer can reach every
  operation on every window returns, every window lies on the screen with its cursor inside or
  just below it, and the display shows the off-screen image: four lines of 20 columns on two of
  the controllers, of 16 columns on the third.
\<close>

theorem tty_reachable:
  assumes "tty_step\<^sup>*\<^sup>* (tty_start lns cls) (ws, s)" "0 < lns" "lns \<le> 4" "0 < cls" "cls \<le> hd44780_cols ctl"
    and "current_pos d = 0"
  shows "(\<forall>w \<in> set ws. begy w + maxy w < lines s \<and> begx w + maxx w < cols s \<and>
      win_y w \<le> maxy w + 1 \<and> win_x w \<le> maxx w \<and>
      (\<forall>a. terminated a \<longrightarrow> tty_do a (w, s) \<noteq> None)) \<and>
    mirrors (hd44780_ll ctl) (hd44780_shown ctl) hd44780_at d s"
proof -
  have "lns \<le> 255" "cls \<le> 255" using assms by (auto simp: hd44780_cols_def split: if_splits)
  from reachable_tty [OF assms(1,2) this(1) assms(4) this(2)] have ok: "tty_ok (ws, s)" and
    steps: "ll_steps True (snd (tty_start lns cls)) s" by auto
  have "mirrors (hd44780_ll ctl) (hd44780_shown ctl) hd44780_at d (snd (tty_start lns cls))"
    using assms(6) by (auto simp: tty_start_def initscr_def tty_ll_clear_def mirrors_def
        display_after_def hd44780_at_def hd44780_clear_def hd44780_shown_def cell_def cell_in_image)
  then have "mirrors (hd44780_ll ctl) (hd44780_shown ctl) hd44780_at d s"
    by (rule hd44780.mirrors_steps [OF steps])
      (use assms in \<open>auto simp: tty_start_def initscr_def tty_ll_clear_def hd44780_fits_def hd44780_cols_def
        split: if_splits\<close>)
  moreover have "tty_do a (w, s) \<noteq> None" if "w \<in> set ws" "terminated a" for a w
    using runs_tty_do [of w s a] ok that by (auto simp: tty_ok_def runs_def)
  ultimately show ?thesis using ok by (auto simp: tty_ok_def window_ok_def in_screen_def)
qed

lemma example_tty_run:
  "\<exists>ws s. tty_step\<^sup>*\<^sup>* (tty_start 2 3) (ws, s) \<and> length ws = 2"
proof -
  obtain w s where start: "tty_start 2 3 = ([w], s)" "lines s = 2" "cols s = 3"
    by (simp add: tty_start_def initscr_def tty_ll_clear_def)
  then have "tty_step ([w], s) ([w] @ [subwin 1 2 1 1], s)"
    by (intro tty_step.new_window) simp_all
  then show ?thesis unfolding start(1) by (intro exI conjI r_into_rtranclp) auto
qed

theorem tty_reachable_witness:
  "\<exists>ws s. tty_step\<^sup>*\<^sup>* (tty_start 2 3) (ws, s) \<and> length ws = 2 \<and>
    mirrors (hd44780_ll HD44780_KS0067B) (hd44780_shown HD44780_KS0067B) hd44780_at
      \<lparr>current_pos = 0, ddram = (\<lambda>a. 77)\<rparr> s"
proof -
  obtain ws s where run: "tty_step\<^sup>*\<^sup>* (tty_start 2 3) (ws, s)" "length ws = 2"
    using example_tty_run by blast
  from tty_reachable [OF run(1), where d = "\<lparr>current_pos = 0, ddram = (\<lambda>a. 77)\<rparr>" and ctl = HD44780_KS0067B]
  have "mirrors (hd44780_ll HD44780_KS0067B) (hd44780_shown HD44780_KS0067B) hd44780_at
    \<lparr>current_pos = 0, ddram = (\<lambda>a. 77)\<rparr> s" by (simp add: hd44780_cols_def)
  with run show ?thesis by blast
qed

text \<open>
  Scrolling a window by at least one and fewer lines than it has moves each of its rows up,
  blanks the rows below, leaves everything outside the window alone and puts the cursor at the
  start of the first blank row; it needs no nested scrolling.
\<close>

theorem wscroll_moves_rows:
  assumes "window_ok w s" "0 < n" "n \<le> maxy w"
  shows "\<exists>s'. wscroll (waddch 0) n (w, s) = Some (w\<lparr>win_y := maxy w - n + 1, win_x := 0\<rparr>, s') \<and>
    (\<forall>r < lines s. \<forall>c < cols s. cell s' r c =
      (if in_window w r c then if in_window w (r + n) c then cell s (r + n) c else 32
       else cell s r c))"
proof -
  obtain s' where "wscroll (waddch 0) n (w, s) = Some (w\<lparr>win_y := maxy w - n + 1, win_x := 0\<rparr>, s')"
    "drawn w s (w\<lparr>win_y := maxy w - n + 1, win_x := 0\<rparr>) s' (scrolled w n s)"
    using wscroll_rows [of w s n 0] assms by (auto simp: window_ok_def)
  then show ?thesis by (auto simp: drawn_def scrolled_def in_window_def)
qed

definition example_window :: window where
  "example_window = (subwin 2 2 1 1)\<lparr>win_y := 1\<rparr>"

definition example_tty :: tty where
  "example_tty = \<lparr>lines = 3, cols = 4, image = map of_nat [65..<77], ll_y = 0, ll_x = 0, ll_log = []\<rparr>"

theorem wscroll_moves_rows_witness:
  "\<exists>s'. wscroll (waddch 0) 1 (example_window, example_tty) =
    Some (example_window\<lparr>win_y := 1, win_x := 0\<rparr>, s') \<and> cell s' 1 1 = cell example_tty 2 1"
proof -
  have "window_ok example_window example_tty"
    by (auto simp: window_ok_def in_screen_def text_image_def example_window_def example_tty_def
        subwin_def byte_def upt_rec)
  moreover have "maxy example_window = 1" "lines example_tty = 3" "cols example_tty = 4"
    "in_window example_window 1 1" "in_window example_window 2 1"
    by (simp_all add: example_window_def example_tty_def subwin_def byte_def in_window_def)
  moreover note wscroll_moves_rows [of example_window example_tty 1]
  ultimately obtain s' where
    "wscroll (waddch 0) 1 (example_window, example_tty) = Some (example_window\<lparr>win_y := 1, win_x := 0\<rparr>, s')"
    and "\<forall>r < 3. \<forall>c < 4. cell s' r c = (if in_window example_window r c
      then if in_window example_window (r + 1) c then cell example_tty (r + 1) c else 32
      else cell example_tty r c)"
    by auto
  moreover from this(2) have "cell s' 1 1 = cell example_tty 2 1"
    using \<open>in_window example_window 1 1\<close> \<open>in_window example_window 2 1\<close> by (simp add: numeral_2_eq_2)
  ultimately show ?thesis by blast
qed

lemma runs_without_clear:
  assumes "window_ok w s" "is_subwin w \<or> 0 < maxy w" "terminated a" "a \<noteq> Clear" "\<forall>n. a \<noteq> Scroll n"
  shows "runs False w s (tty_do a (w, s))"
proof -
  have "scrollable False w" using assms(2) by (simp add: scrollable_def)
  with assms show ?thesis
    by (cases a) (auto simp del: waddch.simps intro: runs_put runs_waddstr runs_wmove runs_wclrtoeol
        runs_wclrtobot)
qed

text \<open>
  A vt100 terminal keeps showing the image through every operation that does not clear the
  screen, on every window that is a sub-window or has more than one line.
\<close>

theorem vt100_follows:
  assumes "mirrors vt100_ll cells vt100_at d s" "window_ok w s"
    and "is_subwin w \<or> 0 < maxy w" "terminated a" "a \<noteq> Clear" "\<forall>n. a \<noteq> Scroll n"
  shows "\<exists>w' s'. tty_do a (w, s) = Some (w', s') \<and> window_ok w' s' \<and>
    mirrors vt100_ll cells vt100_at d s'"
proof -
  have ok: "in_screen w s" using assms(2) by (simp add: window_ok_def)
  from runs_without_clear [OF assms(2-6)] obtain w' s'
    where "tty_do a (w, s) = Some (w', s')" "window_ok w' s'" "ll_steps False s s'"
    by (auto simp: runs_def)
  moreover from vt100.mirrors_draws [OF this(3) assms(1)] ok
  have "mirrors vt100_ll cells vt100_at d s'" by (simp add: in_screen_def any_position_def)
  ultimately show ?thesis by blast
qed

definition example_root :: window where
  "example_root =
    \<lparr>is_subwin = False, linewrap = True, scrollok = True, leaveok = True, win_y = 0, win_x = 0,
     maxy = 1, maxx = 2, begy = 0, begx = 0\<rparr>"

definition example_screen :: tty where
  "example_screen = \<lparr>lines = 2, cols = 3, image = replicate 6 65, ll_y = 1, ll_x = 2, ll_log = []\<rparr>"

definition example_shown :: vt100_display where
  "example_shown = \<lparr>cur_y = 1, cur_x = 2, cells = (\<lambda>r c. 65)\<rparr>"

lemma example_root_ok: "window_ok example_root example_screen"
  by (simp add: window_ok_def in_screen_def text_image_def example_root_def example_screen_def)

lemma example_mirrors: "mirrors vt100_ll cells vt100_at example_shown example_screen"
proof -
  have "cell example_screen r c = 65" if "r < 2" "c < 3" for r c
    using that cell_in_image [of r 2 c 3] by (simp add: cell_def example_screen_def)
  then show ?thesis
    by (simp add: mirrors_def display_after_def vt100_at_def example_shown_def)
      (simp add: example_screen_def)
qed

theorem vt100_follows_witness:
  "\<exists>w' s'. tty_do (Addstr [72, 105, 0]) (example_root, example_screen) = Some (w', s') \<and>
    mirrors vt100_ll cells vt100_at example_shown s'"
  using vt100_follows [OF example_mirrors example_root_ok, of "Addstr [72, 105, 0]"]
  by (auto simp: example_root_def)

text \<open>
  Once the screen has been cleared while the layer's cursor was away from the top left
  corner, a character written at that old cursor position is stored in its cell of the image,
  but a vt100 terminal shows it in the corner: the clearing sequence sends the terminal's
  cursor home and tty_ll_clear does not reset tty_ll_y and tty_ll_x.
\<close>

theorem vt100_misplaced_after_clear:
  assumes "window_ok w s" "\<not> is_subwin w" "leaveok w" "begy w = 0" "begx w = 0"
    and "ll_y s \<le> maxy w" "ll_x s \<le> maxx w" "(ll_y s, ll_x s) \<noteq> (0, 0)" "ch \<notin> {10, 13, 32}"
  shows "\<exists>w' s'. do { ws \<leftarrow> tty_do Clear (w, s); ws \<leftarrow> tty_do (Move (ll_y s) (ll_x s)) ws;
             tty_do (Addch ch) ws } = Some (w', s') \<and>
        cell s' (ll_y s) (ll_x s) = ch \<and> cell s' 0 0 = 32 \<and>
        cells (display_after vt100_ll d s') (ll_y s) (ll_x s) = 32 \<and>
        cells (display_after vt100_ll d s') 0 0 = ch"
proof -
  note w = assms(2-9)
  define y x where "y = ll_y s" and "x = ll_x s"
  let ?w = "w\<lparr>win_y := y, win_x := x\<rparr>"
  let ?s = "tty_ll_clear (s\<lparr>image := replicate (lines s * cols s) 32\<rparr>)"
  have ok: "in_screen ?w ?s" using assms(1) by (auto simp: window_ok_def in_screen_def)
  have scr: "y < lines s" "x < cols s" "cols s \<le> 255" "lines s \<le> 255"
    using ok w(3-6) by (auto simp: in_screen_def y_def x_def)
  have idx: "y * cols s + x < lines s * cols s" by (rule cell_in_image [OF scr(1,2)])
  have old: "map_read ?w y x ?s = Some 32"
    using idx w(3,4) by (simp add: map_read_def map_index_def)
  have "uint (32 :: u8) \<noteq> sint ch" using uint_sint_eq [of 32 ch] w(8) by auto
  then have upd: "tty_do (Addch ch) (?w, ?s) = Some (advance ?w, tty_ll_put y x ch (map_write ?w y x ch ?s))"
    using w old scr ok by (simp add: waddch_body_def waddch_update_def byte_def advance_def
        in_screen_def y_def x_def Let_def)
  let ?s' = "tty_ll_put y x ch (map_write ?w y x ch ?s)"
  have first: "tty_do Clear (w, s) = Some (w\<lparr>win_y := 0, win_x := 0\<rparr>, ?s)"
    "tty_do (Move y x) (w\<lparr>win_y := 0, win_x := 0\<rparr>, ?s) = Some (?w, ?s)"
    using w(1,2,5,6) by (simp_all add: wclear_def wmove_def y_def x_def)
  have log: "ll_log ?s' = ll_log s @ [LL_clear, LL_put y x ch]"
    by (simp add: tty_ll_put_def tty_ll_clear_def map_write_def y_def x_def Let_def)
  have disp: "cells (display_after vt100_ll d ?s') r c = (if r = 0 \<and> c = 0 then ch else 32)" for r c
    by (simp add: display_after_def log)
  have "image ?s' = (replicate (lines s * cols s) 32)[y * cols s + x := ch]"
    using w(3,4) by (simp add: map_write_def map_index_def)
  moreover have "(0 :: nat) < lines s * cols s" using idx by linarith
  moreover have "y * cols s + x \<noteq> 0" using w(7) scr by (auto simp: y_def x_def)
  ultimately have cells: "cell ?s' y x = ch" "cell ?s' 0 0 = 32"
    using idx by (simp_all add: cell_def map_write_def)
  show "\<exists>w' s'. do { ws \<leftarrow> tty_do Clear (w, s); ws \<leftarrow> tty_do (Move (ll_y s) (ll_x s)) ws;
             tty_do (Addch ch) ws } = Some (w', s') \<and>
        cell s' (ll_y s) (ll_x s) = ch \<and> cell s' 0 0 = 32 \<and>
        cells (display_after vt100_ll d s') (ll_y s) (ll_x s) = 32 \<and>
        cells (display_after vt100_ll d s') 0 0 = ch"
    unfolding y_def [symmetric] x_def [symmetric] first bind.bind_lunit upd
    using cells disp w(7) by (intro exI conjI refl) (auto simp: y_def x_def)
qed

theorem vt100_misplaced_after_clear_witness:
  "\<exists>w' s'. do { ws \<leftarrow> tty_do Clear (example_root, example_screen); ws \<leftarrow> tty_do (Move 1 2) ws;
      tty_do (Addch 72) ws } = Some (w', s') \<and> cell s' 1 2 = 72 \<and>
    cells (display_after vt100_ll example_shown s') 0 0 = 72"
proof -
  have "ll_y example_screen = 1" "ll_x example_screen = 2" by (simp_all add: example_screen_def)
  moreover have "\<not> is_subwin example_root" "leaveok example_root" "begy example_root = 0"
    "begx example_root = 0" "maxy example_root = 1" "maxx example_root = 2"
    by (simp_all add: example_root_def)
  ultimately show ?thesis
    using vt100_misplaced_after_clear [OF example_root_ok, of 72 example_shown] by fastforce
qed

text \<open>
  With the cursor just below the last line, clrtoeol does not clear an empty rest of line:
  it scrolls the window up by one line, so its first row is lost.
\<close>

theorem wclrtoeol_past_end_scrolls:
  assumes "window_ok w s" "win_y w = maxy w + 1" "win_x w = 0" "0 < maxy w" "scrollok w"
  shows "\<exists>w' s'. wclrtoeol (waddch (Suc 0)) (w, s) = Some (w', s') \<and>
    (\<forall>r < lines s. \<forall>c < cols s. cell s' r c = scrolled w 1 s r c)"
proof -
  let ?w = "w\<lparr>win_y := maxy w - 1 + 1, win_x := 0\<rparr>"
  have ok: "in_screen w s" "text_image s" using assms(1) by (auto simp: window_ok_def)
  then obtain s1 where sc: "wscroll (waddch 0) 1 (w, s) = Some (?w, s1)"
    and d1: "drawn w s ?w s1 (scrolled w 1 s)"
    using wscroll_rows [of w s 1 0] assms(4) by auto
  note k1 = drawn_keeps [OF ok(1) d1]
  obtain w2 s2 where sp: "wspacetoeol (waddch (Suc 0)) (?w, s1) = Some (w2, s2)"
    and d2: "drawn ?w s1 w2 s2 (\<lambda>r c. if row_tail ?w (maxy w) 0 r c then 32 else cell s1 r c)"
    using wspacetoeol_row [OF k1(1), of "Suc 0"] assms(4) by (auto simp del: waddch.simps)
  have "wspacetoeol (waddch (Suc 0)) (w, s) = Some (w2, s2)"
    using wspacetoeol_past_end [OF assms(2,5) sc] sp assms(3,4) ok by (simp add: in_screen_def del: waddch.simps)
  then have "wclrtoeol (waddch (Suc 0)) (w, s) = Some (w2, s2)"
    using assms(2) drawn_trans [OF d1 d2] same_place_fields(1) [of w w2]
    by (auto simp: wclrtoeol_def wmove_def drawn_def simp del: waddch.simps)
  moreover have "cell s2 r c = scrolled w 1 s r c" if "r < lines s" "c < cols s" for r c
    using d2 k1(2,3,5) that by (auto simp: drawn_def row_tail_def scrolled_def in_window_def)
  ultimately show ?thesis by blast
qed

theorem wclrtoeol_past_end_scrolls_witness:
  "\<exists>w' s'. wclrtoeol (waddch (Suc 0)) (example_root\<lparr>win_y := 2\<rparr>, example_screen) = Some (w', s') \<and>
    cell s' 1 0 = 32"
proof -
  have "window_ok (example_root\<lparr>win_y := 2\<rparr>) example_screen"
    by (simp add: window_ok_def in_screen_def text_image_def example_root_def example_screen_def)
  from wclrtoeol_past_end_scrolls [OF this] obtain w' s'
    where "wclrtoeol (waddch (Suc 0)) (example_root\<lparr>win_y := 2\<rparr>, example_screen) = Some (w', s')"
    and "\<forall>r < lines example_screen. \<forall>c < cols example_screen.
      cell s' r c = scrolled (example_root\<lparr>win_y := 2\<rparr>) 1 example_screen r c"
    by (auto simp: example_root_def simp del: waddch.simps)
  moreover have "1 < lines example_screen" "0 < cols example_screen" by (simp_all add: example_screen_def)
  moreover have "scrolled (example_root\<lparr>win_y := 2\<rparr>) 1 example_screen 1 0 = 32"
    by (simp add: scrolled_def in_window_def example_root_def)
  ultimately show ?thesis by metis
qed

text \<open>
  The keyboard queue is a first-in first-out queue of seven characters: reading after any
  sequence of non-zero characters has been queued gives the first seven of them in order, the
  rest having been refused, and zeros when it is empty.
\<close>

theorem keyboard_fifo:
  assumes "queue_ok q" "queued q = []" "0 \<notin> set cs"
  shows "pop_n getch n (push_all getch_queue cs q) =
    take n (take 7 cs) @ replicate (n - min 7 (length cs)) 0"
  by (rule keyboard.fifo [OF assms])

theorem keyboard_fifo_witness:
  "pop_n getch 9 (push_all getch_queue [1, 2, 3, 4, 5, 6, 7, 8] (replicate 8 0)) =
    [1, 2, 3, 4, 5, 6, 7, 0, 0]"
proof -
  have "replicate 2 (0 :: u8) = [0, 0]" by (simp add: numeral_2_eq_2)
  moreover have "queue_ok (replicate 8 0)" "queued (replicate 8 0) = []"
    by (simp_all add: queue_ok_def queued_def)
  ultimately show ?thesis
    using keyboard_fifo [of "replicate 8 0" "[1, 2, 3, 4, 5, 6, 7, 8]" 9] by simp
qed

end
