(* ===== verification/Vt100.thy ===== *)
theory Vt100 imports Tty_Driver begin

text \<open>
  The vt100 output of the terminal layer (core/tty/tty-vt100.c) and the telnet connection that
  carries it (core/tty/tty-vt100-telnet.c).  The ring vt100_buf is a list and pointers into it
  are indices.  The callback of uIP is a function of the flags it tests and of the received
  bytes; the bytes it hands to uip_send are part of its result.
\<close>

section \<open>The ring of characters\<close>

record vt100 =
  vt100_buf :: "u8 list"
  vt100_head :: nat

definition vt100_putbuf :: "u8 \<Rightarrow> vt100 \<Rightarrow> vt100" where
  "vt100_putbuf ch s =
    (let s = s\<lparr>vt100_buf := (vt100_buf s)[vt100_head s := ch], vt100_head := vt100_head s + 1\<rparr>
     in if vt100_head s = length (vt100_buf s) then s\<lparr>vt100_head := 0\<rparr> else s)"

fun vt100_putstr :: "u8 list \<Rightarrow> vt100 \<Rightarrow> vt100" where
  "vt100_putstr [] s = s"
| "vt100_putstr (c # cs) s = (if c = 0 then s else vt100_putstr cs (vt100_putbuf c s))"

text \<open>
  vt100_putstr_P reads a string in program memory to find its end, but puts what the data memory
  holds at the same addresses (\<open>*p\<close>); \<open>ram\<close> is that part of the data memory.
\<close>

fun vt100_putstr_P :: "u8 list \<Rightarrow> (nat \<Rightarrow> u8) \<Rightarrow> nat \<Rightarrow> vt100 \<Rightarrow> vt100" where
  "vt100_putstr_P [] ram p s = s"
| "vt100_putstr_P (c # cs) ram p s =
    (if c = 0 then s else vt100_putstr_P cs ram (Suc p) (vt100_putbuf (ram p) s))"

definition vt100_clr_str :: "u8 list" where
  "vt100_clr_str = [27, 91, 50, 74, 27, 91, 72, 0]"

definition tty_vt100_clear :: "(nat \<Rightarrow> u8) \<Rightarrow> nat \<Rightarrow> vt100 \<Rightarrow> vt100" where
  "tty_vt100_clear ram p s = vt100_putstr_P vt100_clr_str ram p s"

fun decimal :: "nat \<Rightarrow> u8 list" where
  "decimal n = (if n < 10 then [of_nat (48 + n)] else decimal (n div 10) @ [of_nat (48 + n mod 10)])"

declare decimal.simps [simp del]

definition tty_vt100_goto :: "nat \<Rightarrow> nat \<Rightarrow> vt100 \<Rightarrow> vt100" where
  "tty_vt100_goto y x s =
    vt100_putstr ([27, 91] @ decimal (y + 1) @ [59] @ decimal (x + 1) @ [72, 0]) s"

definition tty_vt100_put :: "u8 \<Rightarrow> vt100 \<Rightarrow> vt100" where
  "tty_vt100_put ch s = vt100_putbuf ch s"

section \<open>The telnet connection\<close>

record vt100_conn =
  send_all :: bool
  acked :: nat
  sent :: nat

record uip_flags =
  connected :: bool
  was_acked :: bool
  newdata :: bool
  rexmit :: bool
  polled :: bool

definition tty_vt100_send_all :: "tty \<Rightarrow> vt100 \<Rightarrow> vt100_conn \<Rightarrow> u8 list \<times> vt100_conn" where
  "tty_vt100_send_all t s c =
    (take 7 vt100_clr_str @
       concat (map (\<lambda>y. slice (cols t * y) (cols t) (image t) @ [13, 10]) [0..<lines t]),
     c\<lparr>sent := vt100_head s\<rparr>)"

definition telnet_char :: "u8 \<Rightarrow> vt100_conn \<times> u8 list \<Rightarrow> vt100_conn \<times> u8 list" where
  "telnet_char ch = (\<lambda>(c, q).
    if ch = 12 then (c\<lparr>send_all := True\<rparr>, q) else (c, snd (getch_queue ch q)))"

definition telnet_update :: "vt100 \<Rightarrow> vt100_conn \<Rightarrow> u8 list option \<times> vt100_conn" where
  "telnet_update s c =
    (if vt100_head s > acked c then
       let len = byte (vt100_head s - acked c)
       in (Some (slice (acked c) len (vt100_buf s)), c\<lparr>sent := vt100_head s\<rparr>)
     else if vt100_head s < acked c then
       let len = byte (length (vt100_buf s) - acked c); len2 = byte (vt100_head s)
       in (Some (slice (acked c) len (vt100_buf s) @ slice 0 len2 (vt100_buf s)),
           c\<lparr>sent := vt100_head s\<rparr>)
     else (None, c\<lparr>sent := vt100_head s\<rparr>))"

definition tty_vt100_main ::
    "uip_flags \<Rightarrow> u8 list \<Rightarrow> tty \<Rightarrow> vt100 \<Rightarrow> vt100_conn \<times> u8 list \<Rightarrow>
      u8 list option \<times> vt100_conn \<times> u8 list" where
  "tty_vt100_main f appdata t s = (\<lambda>(c, q).
    let c = (if connected f then c\<lparr>send_all := True\<rparr> else c);
        c = (if was_acked f
             then (if send_all c then c\<lparr>send_all := False\<rparr> else c)\<lparr>acked := sent c\<rparr> else c);
        (c, q) = (if newdata f then fold telnet_char (take (byte (length appdata)) appdata) (c, q)
                  else (c, q))
    in if rexmit f \<or> newdata f \<or> was_acked f \<or> connected f \<or> polled f then
         (if send_all c then
            let (d, c) = tty_vt100_send_all t s c in (Some d, c, q)
          else let (d, c) = telnet_update s c in (d, c, q))
       else (None, c, q))"

section \<open>The ring holds what was put into it\<close>

definition put_all :: "u8 list \<Rightarrow> vt100 \<Rightarrow> vt100" where
  "put_all cs s = fold vt100_putbuf cs s"

definition ring_ok :: "vt100 \<Rightarrow> bool" where
  "ring_ok s \<longleftrightarrow> vt100_head s < length (vt100_buf s)"

lemma putbuf_ring:
  assumes "ring_ok s"
  shows "vt100_head (vt100_putbuf c s) = (vt100_head s + 1) mod length (vt100_buf s)"
    "vt100_buf (vt100_putbuf c s) = (vt100_buf s)[vt100_head s := c]" "ring_ok (vt100_putbuf c s)"
  using assms by (auto simp: ring_ok_def vt100_putbuf_def Let_def)

lemma putstr_all: "vt100_putstr (cs @ 0 # rest) s = put_all cs s" if "0 \<notin> set cs"
  using that by (induction cs arbitrary: s) (auto simp: put_all_def)

lemma put_all_ring:
  assumes "ring_ok s" "length cs \<le> length (vt100_buf s)"
  shows "length (vt100_buf (put_all cs s)) = length (vt100_buf s) \<and>
    vt100_head (put_all cs s) = (vt100_head s + length cs) mod length (vt100_buf s) \<and>
    (\<forall>i < length cs. vt100_buf (put_all cs s) ! ((vt100_head s + i) mod length (vt100_buf s)) = cs ! i)"
  using assms(2)
proof (induction cs rule: rev_induct)
  case Nil
  then show ?case using assms(1) by (simp add: put_all_def ring_ok_def)
next
  case (snoc c cs)
  let ?n = "length (vt100_buf s)" and ?s = "put_all cs s"
  have IH: "length (vt100_buf ?s) = ?n" "vt100_head ?s = (vt100_head s + length cs) mod ?n"
    "\<And>i. i < length cs \<Longrightarrow> vt100_buf ?s ! ((vt100_head s + i) mod ?n) = cs ! i"
    using snoc by auto
  have pos: "0 < ?n" using assms(1) by (auto simp: ring_ok_def)
  then have ok: "ring_ok ?s" using IH by (simp add: ring_ok_def)
  have step: "put_all (cs @ [c]) s = vt100_putbuf c ?s" by (simp add: put_all_def)
  have neq: "(vt100_head s + i) mod ?n \<noteq> (vt100_head s + length cs) mod ?n" if "i < length cs" for i
  proof
    assume "(vt100_head s + i) mod ?n = (vt100_head s + length cs) mod ?n"
    then have "?n dvd (vt100_head s + length cs) - (vt100_head s + i)"
      using that by (intro mod_eq_dvd_iff_nat [THEN iffD1]) auto
    then have "?n \<le> length cs - i" using that by (auto dest: dvd_imp_le)
    with snoc.prems that show False by simp
  qed
  have "(vt100_buf ?s)[(vt100_head s + length cs) mod ?n := c] ! ((vt100_head s + i) mod ?n) =
    (cs @ [c]) ! i" if "i < length (cs @ [c])" for i
  proof (cases "i < length cs")
    case True
    then show ?thesis using IH(3) [OF True] neq [OF True]
      by (simp add: nth_append nth_list_update_neq [OF not_sym])
  next
    case False
    with that have "i = length cs" by simp
    then show ?thesis using pos IH(1) by simp
  qed
  then show ?case unfolding step putbuf_ring(1,2) [OF ok]
    using IH(1,2) pos by (simp add: mod_Suc_eq)
qed

text \<open>The bytes of a ring between two positions, going round its end.\<close>

lemma ring_between:
  assumes "ring_ok s" "length cs < length (vt100_buf s)" "length (vt100_buf s) \<le> 256"
    and "acked c = vt100_head s" "cs \<noteq> []"
  shows "telnet_update (put_all cs s) c =
    (Some cs, c\<lparr>sent := vt100_head (put_all cs s)\<rparr>)"
proof -
  let ?n = "length (vt100_buf s)" and ?a = "vt100_head s" and ?b = "vt100_buf (put_all cs s)"
  have r: "length ?b = ?n" "vt100_head (put_all cs s) = (?a + length cs) mod ?n"
    "\<And>i. i < length cs \<Longrightarrow> ?b ! ((?a + i) mod ?n) = cs ! i"
    using put_all_ring [OF assms(1), of cs] assms(2) by auto
  have a: "?a < ?n" "length cs > 0" using assms(1,5) by (auto simp: ring_ok_def)
  show ?thesis
  proof (cases "?a + length cs < ?n")
    case True
    have "slice ?a (length cs) ?b = cs"
      by (rule nth_equalityI) (use r True in \<open>auto simp: nth_slice\<close>)
    moreover have "byte (length cs) = length cs" using assms(2,3) by (simp add: byte_def)
    ultimately show ?thesis using True r a assms(4) by (simp add: telnet_update_def Let_def)
  next
    case False
    define k where "k = ?a + length cs - ?n"
    have k: "k < ?a" "?a + length cs = ?n + k" using False assms(2) a by (auto simp: k_def)
    then have head: "vt100_head (put_all cs s) = k" using r(2) a by simp
    have "slice ?a (?n - ?a) ?b @ slice 0 k ?b = cs"
    proof (rule nth_equalityI)
      fix i assume "i < length (slice ?a (?n - ?a) ?b @ slice 0 k ?b)"
      then have i: "i < length cs" using r(1) k a by simp
      show "(slice ?a (?n - ?a) ?b @ slice 0 k ?b) ! i = cs ! i"
      proof (cases "i < ?n - ?a")
        case True
        then show ?thesis using r(1) r(3) [OF i] by (simp add: nth_append nth_slice)
      next
        case False
        then have "?a + i = (i - (?n - ?a)) + ?n" "i - (?n - ?a) < ?n" using i k a by auto
        then have "(?a + i) mod ?n = i - (?n - ?a)" by (metis mod_add_self2 mod_less)
        with False show ?thesis using r(1) r(3) [OF i] i k a by (simp add: nth_append nth_slice)
      qed
    qed (use r(1) k a in simp)
    moreover have "byte (?n - ?a) = ?n - ?a" "byte k = k" using assms(3) k a by (auto simp: byte_def)
    ultimately show ?thesis using k head assms(4) r(1) by (simp add: telnet_update_def Let_def)
  qed
qed

section \<open>Properties\<close>

text \<open>
  Once the peer has acknowledged everything up to the head of the ring, a poll after any
  characters fewer than the ring holds sends exactly these characters in order, around the end
  of the ring too, and acknowledging them brings the connection up to the head again.
\<close>

theorem telnet_sends_what_was_put:
  assumes "ring_ok s" "cs \<noteq> []" "length cs < length (vt100_buf s)" "length (vt100_buf s) \<le> 256"
    and "acked c = vt100_head s" "\<not> send_all c"
    and "f = \<lparr>connected = False, was_acked = False, newdata = False, rexmit = False, polled = True\<rparr>"
  shows "\<exists>c'. tty_vt100_main f [] t (put_all cs s) (c, q) = (Some cs, c', q) \<and>
    tty_vt100_main (f\<lparr>was_acked := True\<rparr>) [] t (put_all cs s) (c', q) =
      (None, c'\<lparr>acked := vt100_head (put_all cs s)\<rparr>, q)"
  using ring_between [OF assms(1,3,4,5,2)] assms(6,7)
  by (simp add: tty_vt100_main_def Let_def telnet_update_def)

text \<open>
  When as many characters are put between two updates as the ring holds, the head is back at
  the acknowledged position: the update sends nothing and the whole screenful is lost.
\<close>

theorem telnet_loses_full_ring:
  assumes "ring_ok s" "length cs = length (vt100_buf s)" "acked c = vt100_head s" "\<not> send_all c"
    and "f = \<lparr>connected = False, was_acked = False, newdata = False, rexmit = False, polled = True\<rparr>"
  shows "tty_vt100_main f [] t (put_all cs s) (c, q) = (None, c\<lparr>sent := acked c\<rparr>, q)"
proof -
  have "vt100_head (put_all cs s) = vt100_head s"
    using put_all_ring [OF assms(1), of cs] assms(1,2) by (simp add: ring_ok_def)
  then show ?thesis using assms(3-5) by (simp add: tty_vt100_main_def telnet_update_def Let_def)
qed

definition example_ring :: vt100 where
  "example_ring = \<lparr>vt100_buf = replicate 4 0, vt100_head = 2\<rparr>"

definition example_conn :: vt100_conn where
  "example_conn = \<lparr>send_all = False, acked = 2, sent = 2\<rparr>"

definition poll_flags :: uip_flags where
  "poll_flags =
    \<lparr>connected = False, was_acked = False, newdata = False, rexmit = False, polled = True\<rparr>"

theorem telnet_sends_what_was_put_witness:
  "\<exists>c'. tty_vt100_main poll_flags [] example_tty (put_all [97, 98, 99] example_ring) (example_conn, []) =
    (Some [97, 98, 99], c', [])"
proof -
  have "ring_ok example_ring" "length (vt100_buf example_ring) = 4" "vt100_head example_ring = 2"
    "acked example_conn = 2" "\<not> send_all example_conn"
    by (simp_all add: ring_ok_def example_ring_def example_conn_def)
  then show ?thesis
    using telnet_sends_what_was_put [of example_ring "[97, 98, 99]" example_conn poll_flags example_tty "[]"]
    by (auto simp: poll_flags_def)
qed

theorem telnet_loses_full_ring_witness:
  "fst (tty_vt100_main poll_flags [] example_tty (put_all [97, 98, 99, 100] example_ring)
    (example_conn, [])) = None"
proof -
  have "ring_ok example_ring" "length (vt100_buf example_ring) = 4" "vt100_head example_ring = 2"
    "acked example_conn = 2" "\<not> send_all example_conn"
    by (simp_all add: ring_ok_def example_ring_def example_conn_def)
  then show ?thesis
    using telnet_loses_full_ring [of example_ring "[97, 98, 99, 100]" example_conn poll_flags example_tty "[]"]
    by (simp add: poll_flags_def)
qed

end
