(* ===== verification/Df.thy ===== *)
theory Df imports Prelude begin

text \<open>
  The AT45 dataflash driver (hardware/storage/dataflash/df.c) and the layout of the structures
  the file system keeps in the flash (hardware/storage/dataflash/fs.c, fs.h).

  The chip is its 4096 pages of 528 bytes and its two buffers, with the documented effect of the
  commands the driver sends: the two top bits of the 14-bit page address are ignored, and reads
  and writes that run over the end of a page or a buffer go on at its start.  Structures are laid
  out as avr-gcc does: bit-fields from the least significant bit on and no padding.
\<close>

section \<open>The chip\<close>

definition DF_PAGES :: nat where "DF_PAGES = 4096"
definition DF_PAGESIZE :: nat where "DF_PAGESIZE = 528"

datatype df_buf_t = DF_BUF1 | DF_BUF2

record dataflash =
  flash :: "nat \<Rightarrow> u8 list"
  buf1 :: "u8 list"
  buf2 :: "u8 list"

definition buffer :: "df_buf_t \<Rightarrow> 'a dataflash_scheme \<Rightarrow> u8 list" where
  "buffer b s = (case b of DF_BUF1 \<Rightarrow> buf1 s | DF_BUF2 \<Rightarrow> buf2 s)"

definition set_buffer :: "df_buf_t \<Rightarrow> u8 list \<Rightarrow> 'a dataflash_scheme \<Rightarrow> 'a dataflash_scheme" where
  "set_buffer b d s = (case b of DF_BUF1 \<Rightarrow> s\<lparr>buf1 := d\<rparr> | DF_BUF2 \<Rightarrow> s\<lparr>buf2 := d\<rparr>)"

definition page_address :: "nat \<Rightarrow> nat" where
  "page_address page = page mod DF_PAGES"

definition read_wrapped :: "u8 list \<Rightarrow> nat \<Rightarrow> nat \<Rightarrow> u8 list" where
  "read_wrapped d offset len = map (\<lambda>i. d ! ((offset + i) mod DF_PAGESIZE)) [0..<len]"

fun write_wrapped :: "u8 list \<Rightarrow> nat \<Rightarrow> u8 list \<Rightarrow> u8 list" where
  "write_wrapped [] offset d = d"
| "write_wrapped (x # xs) offset d = write_wrapped xs (offset + 1) (d[offset mod DF_PAGESIZE := x])"

definition df_buf_load :: "df_buf_t \<Rightarrow> nat \<Rightarrow> 'a dataflash_scheme \<Rightarrow> 'a dataflash_scheme" where
  "df_buf_load b page s = set_buffer b (flash s (page_address page)) s"

definition df_buf_read :: "df_buf_t \<Rightarrow> nat \<Rightarrow> nat \<Rightarrow> 'a dataflash_scheme \<Rightarrow> u8 list" where
  "df_buf_read b offset len s = read_wrapped (buffer b s) offset len"

definition df_buf_write :: "df_buf_t \<Rightarrow> u8 list \<Rightarrow> nat \<Rightarrow> 'a dataflash_scheme \<Rightarrow> 'a dataflash_scheme" where
  "df_buf_write b d offset s = set_buffer b (write_wrapped d offset (buffer b s)) s"

definition df_buf_save :: "df_buf_t \<Rightarrow> nat \<Rightarrow> 'a dataflash_scheme \<Rightarrow> 'a dataflash_scheme" where
  "df_buf_save b page s = s\<lparr>flash := (flash s)(page_address page := buffer b s)\<rparr>"

definition df_flash_read :: "nat \<Rightarrow> nat \<Rightarrow> nat \<Rightarrow> 'a dataflash_scheme \<Rightarrow> u8 list" where
  "df_flash_read page offset len s = read_wrapped (flash s (page_address page)) offset len"

section \<open>Structures\<close>

definition le16 :: "nat \<Rightarrow> u8 list" where
  "le16 n = [of_nat (n mod 256), of_nat (n div 256 mod 256)]"

definition le32 :: "nat \<Rightarrow> u8 list" where
  "le32 n = le16 (n mod 65536) @ le16 (n div 65536)"

definition un16 :: "u8 list \<Rightarrow> nat" where
  "un16 d = unat (d ! 0) + 256 * unat (d ! 1)"

definition un32 :: "u8 list \<Rightarrow> nat" where
  "un32 d = un16 d + 65536 * un16 (drop 2 d)"

text \<open>A 16-bit unit of four flags and a 12-bit number.\<close>

definition flags12 :: "bool list \<Rightarrow> nat \<Rightarrow> u8 list" where
  "flags12 fl n = le16 ((\<Sum>i < 4. if fl ! i then 2 ^ i else 0) + 16 * (n mod 4096))"

definition flag12 :: "u8 list \<Rightarrow> nat \<Rightarrow> bool" where
  "flag12 d i \<longleftrightarrow> odd (un16 d div 2 ^ i)"

definition num12 :: "u8 list \<Rightarrow> nat" where
  "num12 d = un16 d div 16"

record fs_page_t =
  pg_unused :: bool
  pg_root :: bool
  pg_eof :: bool
  pg_reserved :: bool
  pg_next_inode :: nat
  pg_size :: nat

definition sizeof_fs_page :: nat where "sizeof_fs_page = 4"

definition put_fs_page :: "fs_page_t \<Rightarrow> u8 list" where
  "put_fs_page p =
    flags12 [pg_unused p, pg_root p, pg_eof p, pg_reserved p] (pg_next_inode p) @ le16 (pg_size p)"

definition get_fs_page :: "u8 list \<Rightarrow> fs_page_t" where
  "get_fs_page d =
    \<lparr>pg_unused = flag12 d 0, pg_root = flag12 d 1, pg_eof = flag12 d 2, pg_reserved = flag12 d 3,
     pg_next_inode = num12 d, pg_size = un16 (drop 2 d)\<rparr>"

record fs_node_t =
  nd_unused :: bool
  nd_file :: bool
  nd_reserved :: nat
  nd_inode :: nat
  nd_name :: "u8 list"

definition sizeof_fs_node :: nat where "sizeof_fs_node = 8"

definition put_fs_node :: "fs_node_t \<Rightarrow> u8 list" where
  "put_fs_node n =
    flags12 [nd_unused n, nd_file n, odd (nd_reserved n), odd (nd_reserved n div 2)] (nd_inode n)
    @ nd_name n"

definition get_fs_node :: "u8 list \<Rightarrow> fs_node_t" where
  "get_fs_node d =
    \<lparr>nd_unused = flag12 d 0, nd_file = flag12 d 1,
     nd_reserved = (if flag12 d 2 then 1 else 0) + (if flag12 d 3 then 2 else 0),
     nd_inode = num12 d, nd_name = take 6 (drop 2 d)\<rparr>"

record fs_inodetable_node_t =
  in_unused :: bool
  in_reserved :: nat
  in_page :: nat

definition put_inodetable_node :: "fs_inodetable_node_t \<Rightarrow> u8 list" where
  "put_inodetable_node n =
    flags12 [in_unused n, odd (in_reserved n), odd (in_reserved n div 2), odd (in_reserved n div 4)]
      (in_page n)"

definition get_inodetable_node :: "u8 list \<Rightarrow> fs_inodetable_node_t" where
  "get_inodetable_node d =
    \<lparr>in_unused = flag12 d 0,
     in_reserved = (if flag12 d 1 then 1 else 0) + (if flag12 d 2 then 2 else 0) +
       (if flag12 d 3 then 4 else 0),
     in_page = num12 d\<rparr>"

section \<open>Reads after writes\<close>

lemmas chip_defs = df_buf_load_def df_buf_read_def df_buf_write_def df_buf_save_def
  df_flash_read_def set_buffer_def buffer_def

lemma page_address_id [simp]: "p < 4096 \<Longrightarrow> page_address p = p"
  by (simp add: page_address_def DF_PAGES_def)

lemma page_address_lt [simp]: "page_address p < 4096"
  by (simp add: page_address_def DF_PAGES_def)

lemma length_read_wrapped [simp]: "length (read_wrapped d offset len) = len"
  by (simp add: read_wrapped_def)

lemma length_write_wrapped [simp]: "length (write_wrapped xs offset d) = length d"
  by (induction xs offset d rule: write_wrapped.induct) simp_all

lemma read_wrapped_slice:
  "length d = 528 \<Longrightarrow> offset + len \<le> 528 \<Longrightarrow> read_wrapped d offset len = slice offset len d"
  by (rule nth_equalityI) (auto simp: read_wrapped_def DF_PAGESIZE_def nth_slice)

lemma write_wrapped_memcpy:
  "length d = 528 \<Longrightarrow> offset + length xs \<le> 528 \<Longrightarrow> write_wrapped xs offset d = memcpy_at offset xs d"
proof (induction xs offset d rule: write_wrapped.induct)
  case (2 x xs offset d)
  then have "offset mod DF_PAGESIZE = offset" by (simp add: DF_PAGESIZE_def)
  with 2 show ?case by (simp add: memcpy_at_Cons)
qed simp

lemma length_le16 [simp]: "length (le16 n) = 2"
  by (simp add: le16_def)

lemma length_le32 [simp]: "length (le32 n) = 4"
  by (simp add: le32_def)

lemma length_flags12 [simp]: "length (flags12 fl n) = 2"
  by (simp add: flags12_def)

lemma length_put [simp]:
  "length (put_fs_page p) = 4" "length (put_inodetable_node n) = 2"
  "length (nd_name m) = 6 \<Longrightarrow> length (put_fs_node m) = 8"
  by (simp_all add: put_fs_page_def put_inodetable_node_def put_fs_node_def)

lemma unat_of_nat_u8 [simp]: "n < 256 \<Longrightarrow> unat (of_nat n :: u8) = n"
  by (simp add: unsigned_of_nat take_bit_nat_eq_self)

lemma un16_le16: "n < 65536 \<Longrightarrow> un16 (le16 n @ d) = n"
  by (simp add: un16_def le16_def unsigned_of_nat take_bit_nat_eq_self)

lemma un32_le32: "n < 4294967296 \<Longrightarrow> un32 (le32 n @ d) = n"
proof -
  assume n: "n < 4294967296"
  then have "n div 65536 < 65536" "n mod 65536 < 65536" by auto
  then have "un16 (le32 n @ d) = n mod 65536" "un16 (drop 2 (le32 n @ d)) = n div 65536"
    using un16_le16 [of "n mod 65536" "le16 (n div 65536) @ d"] un16_le16 [of "n div 65536" d]
    by (simp_all add: le32_def)
  then show ?thesis by (simp add: un32_def)
qed

definition bits4 :: "bool list \<Rightarrow> nat" where
  "bits4 fl = (\<Sum>i < 4. if fl ! i then 2 ^ i else 0)"

lemma bits4_cases:
  "bits4 [a, b, c, d] = (if a then 1 else 0) + (if b then 2 else 0) + (if c then 4 else 0) + (if d then 8 else 0)"
  by (simp add: bits4_def lessThan_nat_numeral lessThan_Suc)

lemma odd_low_bits: "i < 4 \<Longrightarrow> odd ((b + 16 * j) div 2 ^ i) = odd (b div 2 ^ i :: nat)"
proof -
  assume i: "i < 4"
  then have "2 ^ i * 2 ^ (4 - i) = (16 :: nat)" by (simp flip: power_add)
  then have "b + 16 * j = b + 2 ^ i * (2 ^ (4 - i) * j)" by (simp add: mult.assoc [symmetric])
  then have "(b + 16 * j) div 2 ^ i = b div 2 ^ i + 2 ^ (4 - i) * j"
    by (simp only: div_mult_self2 power_not_zero zero_neq_numeral not_False_eq_True)
  then show ?thesis using i by simp
qed

lemma un16_flags12:
  "j < 4096 \<Longrightarrow> un16 (flags12 [a, b, c, d] j @ r) = bits4 [a, b, c, d] + 16 * j"
proof -
  assume j: "j < 4096"
  have "bits4 [a, b, c, d] < 16" by (simp add: bits4_cases)
  with j show ?thesis by (simp add: flags12_def un16_le16 flip: bits4_def)
qed

lemma num12_flags12: "j < 4096 \<Longrightarrow> num12 (flags12 [a, b, c, d] j @ r) = j"
proof -
  assume j: "j < 4096"
  have "bits4 [a, b, c, d] < 16" by (simp add: bits4_cases)
  with j show ?thesis by (simp add: num12_def un16_flags12)
qed

lemma flag12_flags12:
  assumes "i < 4" "j < 4096"
  shows "flag12 (flags12 [a, b, c, d] j @ r) i = [a, b, c, d] ! i"
proof -
  have "i = 0 \<or> i = 1 \<or> i = 2 \<or> i = 3" using assms(1) by linarith
  then show ?thesis
    unfolding flag12_def un16_flags12 [OF assms(2)] odd_low_bits [OF assms(1)] bits4_cases
    by (cases a; cases b; cases c; cases d) auto
qed

lemmas flags12_read = flag12_flags12 num12_flags12

lemma get_put_fs_page [simp]:
  "pg_next_inode p < 4096 \<Longrightarrow> pg_size p < 65536 \<Longrightarrow> get_fs_page (put_fs_page p @ r) = p"
  by (simp add: get_fs_page_def put_fs_page_def flags12_read un16_le16)

lemma get_put_inodetable_node:
  assumes "in_page n < 4096"
  shows "in_unused (get_inodetable_node (put_inodetable_node n @ r)) = in_unused n"
    "in_page (get_inodetable_node (put_inodetable_node n @ r)) = in_page n"
  using assms by (simp_all add: get_inodetable_node_def put_inodetable_node_def flags12_read)

lemma get_put_fs_node:
  assumes "nd_inode n < 4096" "length (nd_name n) = 6"
  shows "nd_unused (get_fs_node (put_fs_node n @ r)) = nd_unused n"
    "nd_file (get_fs_node (put_fs_node n @ r)) = nd_file n"
    "nd_inode (get_fs_node (put_fs_node n @ r)) = nd_inode n"
    "nd_name (get_fs_node (put_fs_node n @ r)) = nd_name n"
  using assms by (simp_all add: get_fs_node_def put_fs_node_def flags12_read)

end
