(* ===== verification/Fs.thy ===== *)
theory Fs imports Df Crc "HOL-Library.Monad_Syntax" begin

text \<open>
  The dataflash file system (hardware/storage/dataflash/fs.c): every operation on the chip of
  theory Df.  A page is never changed in place; a change writes a new page of the inode table
  and a new root page with the next version and a checksum.

  Memory the code reads before writing it (structures from malloc or on the stack) takes its
  bytes from the stream \<open>junk\<close>; \<open>heap_ok\<close> says whether malloc finds memory, and a function that
  does not test its result is \<open>None\<close> when it does not.  A loop over a chain of pages or nodes that
  does not end, a node read outside its page and a write outside the caller's buffer are \<open>None\<close>
  too.  Names are C strings without their terminating zero.
\<close>

definition FS_INITIAL_VERSION :: nat where "FS_INITIAL_VERSION = 1"
definition FS_DATA_OFFSET :: nat where "FS_DATA_OFFSET = 15"
definition FS_CRC_OFFSET :: nat where "FS_CRC_OFFSET = 527"
definition FS_CRC_LENGTH :: nat where "FS_CRC_LENGTH = 527"
definition FS_ROOTNODE_INODETABLE_SIZE :: nat where "FS_ROOTNODE_INODETABLE_SIZE = 16"
definition FS_ROOTNODE_INODETABLE_OFFSET :: nat where "FS_ROOTNODE_INODETABLE_OFFSET = 8"
definition FS_ROOTNODE_NODETABLE_OFFSET :: nat where "FS_ROOTNODE_NODETABLE_OFFSET = 40"
definition FS_INODES_PER_TABLE :: nat where "FS_INODES_PER_TABLE = 256"
definition FS_NODES_IN_ROOT :: nat where "FS_NODES_IN_ROOT = 60"
definition FS_DATASIZE :: nat where "FS_DATASIZE = 512"
definition FS_FILENAME :: nat where "FS_FILENAME = 6"
definition BAD :: nat where "BAD = 0xffff"

lemmas fs_consts = FS_INITIAL_VERSION_def FS_DATA_OFFSET_def FS_CRC_OFFSET_def FS_CRC_LENGTH_def
  FS_ROOTNODE_INODETABLE_SIZE_def FS_ROOTNODE_INODETABLE_OFFSET_def
  FS_ROOTNODE_NODETABLE_OFFSET_def FS_INODES_PER_TABLE_def FS_NODES_IN_ROOT_def FS_DATASIZE_def
  FS_FILENAME_def BAD_def

datatype fs_status_t =
  FS_OK | FS_NOSUCHFILE | FS_EOF | FS_BADPAGE | FS_BADINODE | FS_DUPLICATE | FS_MEM | FS_BADSEEK
  | FS_MINUS_ONE

record fs_t = dataflash +
  root :: nat
  version :: nat
  last_free :: nat
  junk :: "nat \<Rightarrow> u8"
  heap_ok :: bool

definition take_junk :: "nat \<Rightarrow> fs_t \<Rightarrow> u8 list \<times> fs_t" where
  "take_junk n s = (map (junk s) [0..<n], s\<lparr>junk := (\<lambda>i. junk s (n + i))\<rparr>)"

section \<open>Strings\<close>

fun strncmp :: "nat \<Rightarrow> u8 list \<Rightarrow> u8 list \<Rightarrow> int" where
  "strncmp 0 a b = 0"
| "strncmp (Suc n) a b =
    (let x = (case a of [] \<Rightarrow> 0 | c # _ \<Rightarrow> c); y = (case b of [] \<Rightarrow> 0 | c # _ \<Rightarrow> c)
     in if x \<noteq> y then int (unat x) - int (unat y) else if x = 0 then 0
        else strncmp n (tl a) (tl b))"

definition strncpy :: "u8 list \<Rightarrow> nat \<Rightarrow> u8 list" where
  "strncpy src n = take n (src @ replicate n 0)"

section \<open>Pages\<close>

definition fs_mark :: "nat \<Rightarrow> bool \<Rightarrow> fs_t \<Rightarrow> fs_t" where
  "fs_mark page is_free s =
    (let b = df_buf_read DF_BUF2 (page div 8) 1 s ! 0;
         b = (if is_free then b OR 2 ^ (page mod 8) else b AND NOT (2 ^ (page mod 8)))
     in df_buf_write DF_BUF2 [b] (page div 8) s)"

definition fs_used :: "fs_t \<Rightarrow> nat \<Rightarrow> bool" where
  "fs_used s page \<longleftrightarrow> (df_buf_read DF_BUF2 (page div 8) 1 s ! 0) AND 2 ^ (page mod 8) = 0"

partial_function (option) new_page_loop :: "fs_t \<Rightarrow> nat \<Rightarrow> nat option" where
  "new_page_loop s page =
    (if fs_used s page \<and> page \<noteq> last_free s then new_page_loop s ((page + 1) mod DF_PAGES)
     else Some page)"

definition fs_new_page :: "fs_t \<Rightarrow> (nat \<times> fs_t) option" where
  "fs_new_page s = do {
    page \<leftarrow> new_page_loop s ((last_free s + 1) mod DF_PAGES);
    Some (if page = last_free s then (BAD, s) else (page, s\<lparr>last_free := page\<rparr>))
  }"

fun fs_crc :: "u8 \<Rightarrow> df_buf_t \<Rightarrow> nat \<Rightarrow> nat \<Rightarrow> fs_t \<Rightarrow> u8" where
  "fs_crc crc buf offset 0 s = crc"
| "fs_crc crc buf offset (Suc len) s =
    fs_crc (crc_ibutton_update crc (df_buf_read buf offset 1 s ! 0)) buf (offset + 1) len s"

section \<open>The inode table\<close>

definition fs_inodetable :: "fs_t \<Rightarrow> nat \<Rightarrow> nat" where
  "fs_inodetable s tableid =
    un16 (df_flash_read (root s) (FS_ROOTNODE_INODETABLE_OFFSET + tableid * 2) 2 s)"

definition fs_page :: "fs_t \<Rightarrow> nat \<Rightarrow> nat" where
  "fs_page s inode =
    (let page = fs_inodetable s (inode div FS_INODES_PER_TABLE mod 256);
         node = get_inodetable_node
           (df_flash_read page (FS_DATA_OFFSET + (inode mod FS_INODES_PER_TABLE) * 2) 2 s)
     in if in_unused node then BAD else in_page node)"

fun new_inode_in :: "fs_t \<Rightarrow> nat \<Rightarrow> nat \<Rightarrow> nat \<Rightarrow> nat option" where
  "new_inode_in s page j 0 = None"
| "new_inode_in s page j (Suc k) =
    (if in_unused (get_inodetable_node (df_flash_read page (FS_DATA_OFFSET + j * 2) 2 s))
     then Some j else new_inode_in s page (j + 1) k)"

fun new_inode_tables :: "fs_t \<Rightarrow> nat \<Rightarrow> nat \<Rightarrow> nat" where
  "new_inode_tables s i 0 = BAD"
| "new_inode_tables s i (Suc k) =
    (case new_inode_in s (fs_inodetable s i) 0 FS_INODES_PER_TABLE of
       Some j \<Rightarrow> i * FS_INODES_PER_TABLE + j
     | None \<Rightarrow> new_inode_tables s (i + 1) k)"

definition fs_new_inode :: "fs_t \<Rightarrow> nat" where
  "fs_new_inode s = new_inode_tables s 0 FS_ROOTNODE_INODETABLE_SIZE"

definition fs_increment :: "fs_t \<Rightarrow> (fs_status_t \<times> fs_t) option" where
  "fs_increment s =
    (if \<not> heap_ok s then None
     else
       let rt = df_buf_read DF_BUF1 0 40 s;
           s = s\<lparr>version := (version s + 1) mod 2 ^ 32\<rparr>;
           s = df_buf_write DF_BUF1 (memcpy_at 4 (le32 (version s)) rt) 0 s;
           crc = fs_crc 0 DF_BUF1 0 FS_CRC_LENGTH s;
           s = df_buf_write DF_BUF1 [crc] FS_CRC_OFFSET s
       in do {
         (page, s) \<leftarrow> fs_new_page s;
         Some (if page = BAD then (FS_BADPAGE, s)
               else (FS_OK, (df_buf_save DF_BUF1 page s)\<lparr>root := page\<rparr>))
       })"

definition fs_update_inodetable :: "nat \<Rightarrow> nat \<Rightarrow> fs_t \<Rightarrow> (fs_status_t \<times> fs_t) option" where
  "fs_update_inodetable inode page s = do {
    (new_page, s) \<leftarrow> fs_new_page s;
    if new_page = BAD then Some (FS_BADPAGE, s)
    else if \<not> heap_ok s then Some (FS_MEM, s)
    else
      let (d, s) = take_junk 2 s;
          node = (if page = BAD then (get_inodetable_node d)\<lparr>in_unused := True\<rparr>
                  else (get_inodetable_node d)\<lparr>in_unused := False, in_page := page mod 4096\<rparr>);
          s = df_buf_load DF_BUF1 (fs_inodetable s (inode div FS_INODES_PER_TABLE mod 256)) s;
          s = df_buf_write DF_BUF1 (put_inodetable_node node)
                (FS_DATA_OFFSET + (inode mod FS_INODES_PER_TABLE) * 2) s;
          s = df_buf_save DF_BUF1 new_page s;
          s = df_buf_load DF_BUF1 (root s) s;
          s = df_buf_write DF_BUF1 (le16 new_page)
                (FS_ROOTNODE_INODETABLE_OFFSET + (inode div FS_INODES_PER_TABLE) * 2) s
      in fs_increment s
  }"

section \<open>Formatting, scanning, initialising\<close>

definition format_root :: "fs_t \<Rightarrow> u8 list \<Rightarrow> u8 list" where
  "format_root s d =
    put_fs_page ((get_fs_page d)\<lparr>pg_root := True, pg_eof := True, pg_unused := False\<rparr>)
    @ le32 (version s) @ concat (map (\<lambda>i. le16 (i + 1)) [0..<FS_ROOTNODE_INODETABLE_SIZE])"

definition fs_format :: "fs_t \<Rightarrow> fs_status_t \<times> fs_t" where
  "fs_format s =
    (let s = s\<lparr>version := if version s > 0 then (version s + 1) mod 2 ^ 32 else FS_INITIAL_VERSION\<rparr>
     in if \<not> heap_ok s then (FS_MEM, s)
        else
          let (dr, s) = take_junk 4 s;
              (di, s) = take_junk 4 s;
              inode_page = (get_fs_page di)\<lparr>pg_root := False, pg_eof := True, pg_unused := False,
                              pg_next_inode := 0x0fff\<rparr>;
              s = df_buf_write DF_BUF1 (put_fs_page inode_page) 0 s;
              s = fold (\<lambda>i. df_buf_write DF_BUF1 [0xff] (FS_DATA_OFFSET + i))
                    [0..<DF_PAGESIZE - FS_DATA_OFFSET - sizeof_fs_page] s;
              s = fold (\<lambda>i. df_buf_save DF_BUF1 (i + 1)) [0..<16] s;
              s = df_buf_write DF_BUF1 (format_root s dr) 0 s;
              (dn, s) = take_junk 5 s;
              node = \<lparr>nd_unused = True, nd_file = False, nd_reserved = 0, nd_inode = 0,
                      nd_name = 0 # dn\<rparr>;
              s = fold (\<lambda>i. df_buf_write DF_BUF1 (put_fs_node node)
                              (FS_ROOTNODE_NODETABLE_OFFSET + i * sizeof_fs_node))
                    [0..<FS_NODES_IN_ROOT] s;
              crc = fs_crc 0 DF_BUF1 0 FS_CRC_LENGTH s;
              s = df_buf_write DF_BUF1 [crc] FS_CRC_OFFSET s;
              s = df_buf_save DF_BUF1 0 s
          in (FS_OK, s\<lparr>root := 0\<rparr>))"

definition scan_page :: "nat \<Rightarrow> fs_t \<Rightarrow> fs_t" where
  "scan_page p s =
    (let d = df_flash_read p 0 40 s
     in if \<not> pg_unused (get_fs_page d) \<and> pg_root (get_fs_page d) then
          let s = df_buf_load DF_BUF1 p s;
              crc = fs_crc 0 DF_BUF1 0 FS_CRC_LENGTH s;
              crc2 = df_flash_read p FS_CRC_OFFSET 1 s ! 0
          in if crc = crc2 \<and> un32 (drop 4 d) > version s
             then s\<lparr>version := un32 (drop 4 d), root := p\<rparr> else s
        else s)"

definition fs_scan :: "fs_t \<Rightarrow> fs_status_t \<times> fs_t" where
  "fs_scan s =
    (let s = s\<lparr>version := 0\<rparr>
     in if \<not> heap_ok s then (FS_MEM, s)
        else
          let s = fold scan_page [0..<DF_PAGES] s
          in if version s \<ge> FS_INITIAL_VERSION then (FS_OK, s) else fs_format s)"

partial_function (option) mark_chain :: "nat \<Rightarrow> fs_t \<Rightarrow> fs_t option" where
  "mark_chain page s =
    (if page \<noteq> BAD then
       let s = fs_mark page False s;
           pagedata = get_fs_page (df_flash_read page 0 sizeof_fs_page s)
       in if pg_eof pagedata then Some s
          else mark_chain (fs_page s (pg_next_inode pagedata)) s
     else Some s)"

definition node_offset :: "nat \<Rightarrow> nat" where
  "node_offset i = FS_ROOTNODE_NODETABLE_OFFSET + i * sizeof_fs_node"

definition read_node :: "fs_t \<Rightarrow> nat \<Rightarrow> fs_node_t option" where
  "read_node s i =
    (if node_offset i < DF_PAGESIZE
     then Some (get_fs_node (df_flash_read (root s) (node_offset i) sizeof_fs_node s)) else None)"

fun mark_nodes :: "nat \<Rightarrow> nat \<Rightarrow> fs_t \<Rightarrow> fs_t option" where
  "mark_nodes i 0 s = Some s"
| "mark_nodes i (Suc k) s = do {
    node \<leftarrow> read_node s i;
    s \<leftarrow> (if \<not> nd_unused node then mark_chain (fs_page s (nd_inode node)) s else Some s);
    mark_nodes (i + 1) k s
  }"

definition fs_init :: "fs_t \<Rightarrow> (fs_status_t \<times> fs_t) option" where
  "fs_init s =
    (let s = s\<lparr>last_free := 0\<rparr>;
         s = fold (\<lambda>i. df_buf_write DF_BUF2 [0xff] i) [0..<DF_PAGESIZE] s;
         (ret, s) = fs_scan s
     in if ret \<noteq> FS_OK then Some (ret, s)
        else
          let s = fs_mark (root s) False s;
              s = fold (\<lambda>i s. fs_mark (fs_inodetable s i) False s) [0..<16] s
          in if \<not> heap_ok s then Some (FS_MEM, s)
             else do { s \<leftarrow> mark_nodes 0 FS_NODES_IN_ROOT s; Some (FS_OK, s) })"

section \<open>The directory\<close>

definition fs_list :: "fs_t \<Rightarrow> nat \<Rightarrow> (fs_status_t \<times> u8 list) option" where
  "fs_list s index =
    (if \<not> heap_ok s then Some (FS_MEM, [])
     else do {
       node \<leftarrow> read_node s index;
       Some (if nd_unused node then FS_EOF else FS_OK, strncpy (takeWhile (\<lambda>c. c \<noteq> 0) (nd_name node)) FS_FILENAME @ [0])
     })"

lemma read_node_None: "60 < i \<Longrightarrow> read_node s i = None"
  by (simp add: read_node_def node_offset_def fs_consts DF_PAGESIZE_def sizeof_fs_node_def)

function get_inode_loop :: "fs_t \<Rightarrow> u8 list \<Rightarrow> nat \<Rightarrow> nat option" where
  "get_inode_loop s name index =
    (case read_node s index of
       None \<Rightarrow> None
     | Some node \<Rightarrow>
         if strncmp FS_FILENAME (nd_name node) name = 0 then Some (nd_inode node)
         else if \<not> nd_unused node then get_inode_loop s name (index + 1)
         else Some BAD)"
  by pat_completeness auto
termination
proof (relation "measure (\<lambda>(s, name, index). 61 - index)")
  fix s name index node
  assume "read_node s index = Some node"
  then show "((s, name, index + 1), s, name, index) \<in> measure (\<lambda>(s, name, index). 61 - index)"
    using read_node_None [of index s] by (cases "60 < index") auto
qed simp

definition fs_get_inode :: "fs_t \<Rightarrow> u8 list \<Rightarrow> nat option" where
  "fs_get_inode s name = (if \<not> heap_ok s then None else get_inode_loop s name 0)"

function create_scan :: "fs_t \<Rightarrow> u8 list \<Rightarrow> nat \<Rightarrow> nat \<Rightarrow> (unit + nat \<times> nat) option" where
  "create_scan s name i index =
    (case read_node s i of
       None \<Rightarrow> None
     | Some node \<Rightarrow>
         if nd_unused node then Some (Inr (index, i))
         else if strncmp FS_FILENAME (nd_name node) name = 0 then Some (Inl ())
         else create_scan s name (i + 1)
                (if strncmp FS_FILENAME (nd_name node) name < 0 then index + 1 else index))"
  by pat_completeness auto
termination
proof (relation "measure (\<lambda>(s, name, i, index). 61 - i)")
  fix s name i index node
  assume "read_node s i = Some node"
  then show "((s, name, i + 1, if strncmp FS_FILENAME (nd_name node) name < 0 then index + 1 else index),
      s, name, i, index) \<in> measure (\<lambda>(s, name, i, index). 61 - i)"
    using read_node_None [of i s] by (cases "60 < i") auto
qed simp

declare get_inode_loop.simps [simp del] create_scan.simps [simp del]

fun append_nodes :: "nat \<Rightarrow> nat \<Rightarrow> fs_t \<Rightarrow> fs_t option" where
  "append_nodes index 0 s = Some s"
| "append_nodes index (Suc k) s = do {
    node \<leftarrow> read_node s index;
    append_nodes (index + 1) k (df_buf_write DF_BUF1 (put_fs_node node) (node_offset (index + 1)) s)
  }"

definition fs_create :: "u8 list \<Rightarrow> fs_t \<Rightarrow> (fs_status_t \<times> fs_t) option" where
  "fs_create name s =
    (if \<not> heap_ok s then Some (FS_MEM, s)
     else do {
       r \<leftarrow> create_scan s name 0 0;
       case r of
         Inl _ \<Rightarrow> Some (FS_DUPLICATE, s)
       | Inr (index, mx) \<Rightarrow> do {
           last \<leftarrow> read_node s mx;
           let node = last\<lparr>nd_name := strncpy name FS_FILENAME, nd_unused := False, nd_file := True,
                           nd_inode := fs_new_inode s mod 4096\<rparr>;
           if nd_inode node = BAD then Some (FS_BADINODE, s)
           else do {
             let s = df_buf_load DF_BUF1 (root s) s;
             let s = df_buf_write DF_BUF1 (put_fs_node node) (node_offset index) s;
             s \<leftarrow> append_nodes index (mx - index) s;
             fs_increment s
           }
         }
     })"

fun remove_scan :: "fs_t \<Rightarrow> u8 list \<Rightarrow> nat \<Rightarrow> nat \<Rightarrow> (nat \<times> nat) \<Rightarrow> (nat \<times> nat \<times> nat) option" where
  "remove_scan s name i 0 found = None"
| "remove_scan s name i (Suc k) found = do {
    node \<leftarrow> read_node s i;
    if nd_unused node then Some (i, found)
    else remove_scan s name (i + 1) k
           (if strncmp FS_FILENAME (nd_name node) name = 0 then (i, nd_inode node) else found)
  }"

fun move_nodes :: "nat \<Rightarrow> nat \<Rightarrow> fs_node_t \<Rightarrow> fs_t \<Rightarrow> (fs_node_t \<times> fs_t) option" where
  "move_nodes index 0 node s = Some (node, s)"
| "move_nodes index (Suc k) node s = do {
    node \<leftarrow> read_node s (index + 1);
    move_nodes (index + 1) k node (df_buf_write DF_BUF1 (put_fs_node node) (node_offset index) s)
  }"

definition fs_remove :: "u8 list \<Rightarrow> fs_t \<Rightarrow> (fs_status_t \<times> fs_t) option" where
  "fs_remove name s =
    (if \<not> heap_ok s then Some (FS_MEM, s)
     else do {
       (mx, index, inode) \<leftarrow> remove_scan s name 0 62 (BAD, BAD);
       if mx = 0 \<or> index > mx then Some (FS_NOSUCHFILE, s)
       else do {
         node \<leftarrow> read_node s mx;
         let s = df_buf_load DF_BUF1 (root s) s;
         (node, s) \<leftarrow> move_nodes index (mx - 1 - index) node s;
         let s = df_buf_write DF_BUF1 (put_fs_node (node\<lparr>nd_unused := True\<rparr>)) (node_offset (mx - 1)) s;
         (ret, s) \<leftarrow> fs_increment s;
         if ret \<noteq> FS_OK then Some (ret, s) else fs_update_inodetable inode BAD s
       }
     })"

end
