(* ===== verification/Fs_Commit.thy ===== *)
theory Fs_Commit imports Fs begin

text \<open>
  Allocation, root pages and the copy-on-write update of the inode table of the dataflash file
  system.  \<open>free_seq\<close> lists the pages fs_new_page will hand out next, in order; \<open>fs_ok K\<close> is the
  invariant that a file system keeps over operations that allocate at most \<open>K\<close> pages in all.  The
  locale \<open>versioned_pages\<close> states what fs_scan promises about the pages it scans, and what makes
  a write of a new root page a commit.
\<close>

section \<open>Shape of the chip\<close>

definition chip_ok :: "fs_t \<Rightarrow> bool" where
  "chip_ok s \<longleftrightarrow> length (buf1 s) = 528 \<and> length (buf2 s) = 528 \<and>
    (\<forall>p < 4096. length (flash s p) = 528) \<and> root s < 4096 \<and> last_free s < 4096"

lemma chip_okD:
  assumes "chip_ok s"
  shows "length (buf1 s) = 528" "length (buf2 s) = 528" "p < 4096 \<Longrightarrow> length (flash s p) = 528"
    "root s < 4096" "last_free s < 4096"
  using assms by (auto simp: chip_ok_def)

section \<open>Allocation\<close>

definition page_seq :: "nat \<Rightarrow> nat list" where
  "page_seq lf = [lf + 1..<4096] @ [0..<lf]"

definition free_seq :: "fs_t \<Rightarrow> nat list" where
  "free_seq s = filter (\<lambda>p. \<not> fs_used s p) (page_seq (last_free s))"

lemma page_seq_mod: "lf < 4096 \<Longrightarrow> map (\<lambda>i. (lf + i) mod 4096) [1..<4096] = page_seq lf"
proof (rule nth_equalityI)
  fix i assume lf: "lf < 4096" and "i < length (map (\<lambda>i. (lf + i) mod 4096) [1..<4096])"
  then have i: "i < 4095" by simp
  show "map (\<lambda>i. (lf + i) mod 4096) [1..<4096] ! i = page_seq lf ! i"
  proof (cases "lf + 1 + i < 4096")
    case True
    then have "i < 4095 - lf" by simp
    with i True show ?thesis by (simp add: page_seq_def nth_append)
  next
    case False
    then have "lf + (1 + i) = (lf + 1 + i - 4096) + 4096" by simp
    then have "(lf + (1 + i)) mod 4096 = (lf + 1 + i - 4096) mod 4096" by (metis mod_add_self2)
    also have "\<dots> = lf + 1 + i - 4096" using lf i by simp
    also have "\<dots> = i - (4095 - lf)" using lf i by simp
    finally have "(lf + (1 + i)) mod 4096 = i - (4095 - lf)" .
    moreover have "\<not> i < 4095 - lf" "i - (4095 - lf) < lf" using False i lf by auto
    ultimately show ?thesis using i by (simp add: page_seq_def nth_append)
  qed
qed (simp add: page_seq_def)

lemma page_seq_rotate:
  assumes "p \<in> set (page_seq lf)" "lf < 4096"
  obtains A B where "page_seq lf = A @ p # B" "page_seq p = B @ lf # A"
proof (cases "lf < p")
  case True
  with assms have p: "p < 4096" by (auto simp: page_seq_def)
  have "[lf + 1..<4096] = [lf + 1..<p] @ p # [p + 1..<4096]" "[0..<p] = [0..<lf] @ lf # [lf + 1..<p]"
    using True p upt_add_eq_append [of "lf + 1" p "4096 - p"] upt_add_eq_append [of 0 lf "p - lf"]
      upt_conv_Cons [of p 4096] upt_conv_Cons [of lf p] by simp_all
  then show thesis by (intro that [of "[lf + 1..<p]" "[p + 1..<4096] @ [0..<lf]"]) (simp_all add: page_seq_def)
next
  case False
  with assms have p: "p < lf" by (auto simp: page_seq_def)
  have "[0..<lf] = [0..<p] @ p # [p + 1..<lf]" "[p + 1..<4096] = [p + 1..<lf] @ lf # [lf + 1..<4096]"
    using p assms(2) upt_add_eq_append [of 0 p "lf - p"] upt_add_eq_append [of "p + 1" lf "4096 - lf"]
      upt_conv_Cons [of p lf] upt_conv_Cons [of lf 4096] by simp_all
  then show thesis by (intro that [of "[lf + 1..<4096] @ [0..<p]" "[p + 1..<lf]"]) (simp_all add: page_seq_def)
qed

lemma distinct_page_seq: "distinct (page_seq lf)"
  by (auto simp: page_seq_def)

lemma new_page_loop_from:
  assumes "last_free s < 4096" "0 < i" "i \<le> 4096"
  shows "new_page_loop s ((last_free s + i) mod 4096) =
    Some (case filter (\<lambda>p. \<not> fs_used s p) (map (\<lambda>i. (last_free s + i) mod 4096) [i..<4096]) of
      [] \<Rightarrow> last_free s | p # _ \<Rightarrow> p)"
  using assms(2,3)
proof (induction "4096 - i" arbitrary: i)
  case 0
  then have "i = 4096" by simp
  then show ?case using assms(1) by (subst new_page_loop.simps) simp
next
  case (Suc k)
  let ?p = "(last_free s + i) mod 4096"
  have i: "i < 4096" "[i..<4096] = i # [i + 1..<4096]" using Suc(2) by (auto simp: upt_rec)
  have "?p \<in> set (map (\<lambda>i. (last_free s + i) mod 4096) [1..<4096])" using Suc.prems(1) i(1) by auto
  then have ne: "?p \<noteq> last_free s" unfolding page_seq_mod [OF assms(1)] by (auto simp: page_seq_def)
  show ?case
  proof (cases "fs_used s ?p")
    case True
    have "new_page_loop s ?p = new_page_loop s ((?p + 1) mod 4096)"
      using True ne by (subst new_page_loop.simps) (simp add: DF_PAGES_def)
    also have "(?p + 1) mod 4096 = (last_free s + (i + 1)) mod 4096" by (simp add: mod_Suc_eq)
    finally show ?thesis using Suc.hyps(1) [of "i + 1"] Suc.hyps(2) True i by simp
  next
    case False
    then show ?thesis using i by (subst new_page_loop.simps) simp
  qed
qed

lemma free_seq_ne: "p \<in> set (free_seq s) \<Longrightarrow> p \<noteq> last_free s"
  by (auto simp: free_seq_def page_seq_def)

lemma free_seq_lt: "p \<in> set (free_seq s) \<Longrightarrow> last_free s < 4096 \<Longrightarrow> p < 4096"
  by (auto simp: free_seq_def page_seq_def)

lemma free_seq_unused: "p \<in> set (free_seq s) \<Longrightarrow> \<not> fs_used s p"
  by (auto simp: free_seq_def)

lemma distinct_free_seq: "distinct (free_seq s)"
  by (simp add: free_seq_def distinct_page_seq)

lemma fs_new_page_eq:
  assumes "last_free s < 4096"
  shows "fs_new_page s = Some (case free_seq s of [] \<Rightarrow> (BAD, s) | p # _ \<Rightarrow> (p, s\<lparr>last_free := p\<rparr>))"
proof -
  have seq: "map (\<lambda>i. (last_free s + i) mod 4096) [1..<4096] = page_seq (last_free s)"
    by (rule page_seq_mod [OF assms])
  have loop: "new_page_loop s ((last_free s + 1) mod DF_PAGES) =
    Some (case free_seq s of [] \<Rightarrow> last_free s | p # _ \<Rightarrow> p)"
    unfolding DF_PAGES_def free_seq_def seq [symmetric]
    by (rule new_page_loop_from [OF assms]) simp_all
  show ?thesis
  proof (cases "free_seq s")
    case Nil
    show ?thesis unfolding fs_new_page_def loop Nil by simp
  next
    case (Cons p ps)
    then have "p \<noteq> last_free s" using free_seq_ne [of p s] by simp
    then show ?thesis unfolding fs_new_page_def loop Cons by simp
  qed
qed

text \<open>\<open>fs_used\<close> only looks at the second buffer.\<close>

lemma fs_used_cong: "buf2 s = buf2 s' \<Longrightarrow> fs_used s p = fs_used s' p"
  by (simp add: fs_used_def df_buf_read_def buffer_def)

lemma free_seq_cong: "buf2 s = buf2 s' \<Longrightarrow> last_free s = last_free s' \<Longrightarrow> free_seq s = free_seq s'"
proof -
  assume "buf2 s = buf2 s'" "last_free s = last_free s'"
  moreover from this(1) have "fs_used s = fs_used s'" by (rule ext [OF fs_used_cong])
  ultimately show ?thesis by (simp add: free_seq_def)
qed

lemma free_seq_next:
  assumes "free_seq s = p # ps" "last_free s < 4096" "buf2 s' = buf2 s" "last_free s' = p"
  shows "free_seq s' = ps @ filter (\<lambda>q. \<not> fs_used s q) [last_free s]"
proof -
  have "p \<in> set (free_seq s)" using assms(1) by simp
  then have "p \<in> set (page_seq (last_free s))" by (auto simp: free_seq_def)
  then obtain A B where AB: "page_seq (last_free s) = A @ p # B" "page_seq p = B @ last_free s # A"
    by (rule page_seq_rotate [OF _ assms(2)])
  have "distinct (A @ p # B)" using distinct_page_seq [of "last_free s"] AB(1) by simp
  moreover have "filter (\<lambda>q. \<not> fs_used s q) (A @ p # B) = p # ps"
    using assms(1) AB(1) by (simp add: free_seq_def)
  ultimately have A: "filter (\<lambda>q. \<not> fs_used s q) A = []"
  proof (cases "filter (\<lambda>q. \<not> fs_used s q) A")
    case (Cons a as)
    then have "a \<in> set A" by (metis filter_is_subset list.set_intros(1) subsetD)
    moreover have "a = p" using Cons \<open>filter _ (A @ p # B) = p # ps\<close> by simp
    ultimately show ?thesis using \<open>distinct (A @ p # B)\<close> by simp
  qed simp
  moreover have "\<not> fs_used s p" using assms(1) free_seq_unused [of p s] by simp
  ultimately have "filter (\<lambda>q. \<not> fs_used s q) B = ps"
    using \<open>filter _ (A @ p # B) = p # ps\<close> by (auto split: if_splits)
  with A show ?thesis using AB(2) assms(3,4)
    by (simp add: free_seq_def fs_used_cong [of s' s])
qed

section \<open>Buffers and checksums\<close>

named_theorems fs_frame \<open>what the chip operations leave alone\<close>

lemma buf_frames [simp, fs_frame]:
  "flash (df_buf_load b p s) = flash s" "flash (df_buf_write b d off s) = flash s"
  "root (df_buf_load b p s) = root s" "root (df_buf_write b d off s) = root s"
  "root (df_buf_save b p s) = root s" "version (df_buf_load b p s) = version s"
  "version (df_buf_write b d off s) = version s" "version (df_buf_save b p s) = version s"
  "last_free (df_buf_load b p s) = last_free s" "last_free (df_buf_write b d off s) = last_free s"
  "last_free (df_buf_save b p s) = last_free s" "heap_ok (df_buf_load b p s) = heap_ok s"
  "heap_ok (df_buf_write b d off s) = heap_ok s" "heap_ok (df_buf_save b p s) = heap_ok s"
  "buf1 (df_buf_save b p s) = buf1 s" "buf2 (df_buf_save b p s) = buf2 s"
  by (simp_all add: chip_defs split: df_buf_t.split)

lemma buf1_ops [simp]:
  "buf1 (df_buf_load DF_BUF1 p s) = flash s (page_address p)"
  "buf2 (df_buf_load DF_BUF1 p s) = buf2 s"
  "buf1 (df_buf_write DF_BUF1 d off s) = write_wrapped d off (buf1 s)"
  "buf2 (df_buf_write DF_BUF1 d off s) = buf2 s"
  "flash (df_buf_save DF_BUF1 p s) = (flash s)(page_address p := buf1 s)"
  by (simp_all add: chip_defs)

definition crc_of :: "u8 list \<Rightarrow> u8" where
  "crc_of d = foldl crc_ibutton_update 0 (take 527 d)"

lemma fs_crc_foldl:
  "fs_crc c b off n s = foldl crc_ibutton_update c (read_wrapped (buffer b s) off n)"
proof (induction n arbitrary: c off)
  case (Suc n)
  have "read_wrapped (buffer b s) off (Suc n) =
      read_wrapped (buffer b s) off 1 ! 0 # read_wrapped (buffer b s) (off + 1) n"
    by (simp add: read_wrapped_def upt_conv_Cons map_Suc_upt [symmetric] del: upt_Suc)
  with Suc show ?case by (simp add: df_buf_read_def)
qed (simp add: read_wrapped_def)

lemma fs_crc_of:
  "length (buf1 s) = 528 \<Longrightarrow> fs_crc 0 DF_BUF1 0 FS_CRC_LENGTH s = crc_of (buf1 s)"
  by (simp add: fs_crc_foldl crc_of_def buffer_def FS_CRC_LENGTH_def read_wrapped_slice slice_def)


section \<open>Root pages\<close>

definition valid_root :: "u8 list \<Rightarrow> bool" where
  "valid_root d \<longleftrightarrow>
    \<not> pg_unused (get_fs_page d) \<and> pg_root (get_fs_page d) \<and> crc_of d = d ! 527"

definition root_version :: "u8 list \<Rightarrow> nat" where
  "root_version d = un32 (drop 4 d)"

definition seal :: "nat \<Rightarrow> u8 list \<Rightarrow> u8 list" where
  "seal v d = (memcpy_at 4 (le32 v) d)[527 := crc_of (memcpy_at 4 (le32 v) d)]"

lemma crc_of_update [simp]: "crc_of (d[527 := x]) = crc_of d"
  by (simp add: crc_of_def take_update_cancel)

lemma length_seal [simp]: "length d = 528 \<Longrightarrow> length (seal v d) = 528"
  by (simp add: seal_def)

lemma nth_seal:
  "length d = 528 \<Longrightarrow> i < 527 \<Longrightarrow> seal v d ! i = (if 4 \<le> i \<and> i < 8 then le32 v ! (i - 4) else d ! i)"
  by (auto simp: seal_def nth_memcpy_at)

lemma un16_nth: "un16 (drop k d) = unat (d ! k) + 256 * unat (d ! (k + 1))" if "k + 1 < length d"
  using that by (simp add: un16_def add.commute)

lemma flag12_cong: "d ! 0 = d' ! 0 \<Longrightarrow> d ! 1 = d' ! 1 \<Longrightarrow> flag12 d i = flag12 d' i"
  by (simp add: flag12_def un16_def)

lemma seal_valid:
  assumes "length d = 528" "\<not> pg_unused (get_fs_page d)" "pg_root (get_fs_page d)" "v < 2 ^ 32"
  shows "valid_root (seal v d)" "root_version (seal v d) = v"
proof -
  have "flag12 (seal v d) i = flag12 d i" for i
    by (rule flag12_cong) (use assms(1) in \<open>auto simp: nth_seal\<close>)
  moreover have "crc_of (seal v d) = seal v d ! 527" using assms(1) by (simp add: seal_def)
  ultimately show "valid_root (seal v d)" using assms by (simp add: valid_root_def get_fs_page_def)
  have "drop 4 (seal v d) = le32 v @ drop 8 (seal v d)"
  proof (rule nth_equalityI)
    fix i assume "i < length (drop 4 (seal v d))"
    then show "drop 4 (seal v d) ! i = (le32 v @ drop 8 (seal v d)) ! i"
      using assms(1) by (auto simp: nth_append nth_seal add.commute)
  qed (use assms(1) in simp)
  then show "root_version (seal v d) = v" using assms(4) by (simp add: root_version_def un32_le32)
qed

section \<open>Scanning\<close>

lemma scan_page_eq:
  assumes "length (flash s p) = 528" "p < 4096"
  shows "scan_page p s =
    (if \<not> pg_unused (get_fs_page (flash s p)) \<and> pg_root (get_fs_page (flash s p)) then
       (if valid_root (flash s p) \<and> root_version (flash s p) > version s
        then s\<lparr>buf1 := flash s p, version := root_version (flash s p), root := p\<rparr>
        else s\<lparr>buf1 := flash s p\<rparr>)
     else s)"
proof -
  let ?d = "df_flash_read p 0 40 s"
  have d: "?d = take 40 (flash s p)" using assms by (simp add: df_flash_read_def read_wrapped_slice slice_def)
  have fl: "flag12 ?d i = flag12 (flash s p) i" for i
    by (rule flag12_cong) (simp_all add: d)
  have pg: "pg_unused (get_fs_page ?d) = pg_unused (get_fs_page (flash s p))"
    "pg_root (get_fs_page ?d) = pg_root (get_fs_page (flash s p))"
    by (simp_all add: get_fs_page_def fl)
  have ver: "un32 (drop 4 ?d) = root_version (flash s p)"
    using assms(1) by (simp add: d root_version_def un32_def un16_def)
  have load: "df_buf_load DF_BUF1 p s = s\<lparr>buf1 := flash s p\<rparr>" using assms(2) by (simp add: chip_defs)
  have crc2: "df_flash_read p FS_CRC_OFFSET 1 t ! 0 = flash t p ! 527" for t :: fs_t
    using assms(2) by (simp add: df_flash_read_def read_wrapped_def FS_CRC_OFFSET_def DF_PAGESIZE_def)
  show ?thesis
    unfolding scan_page_def Let_def pg load ver crc2
    using assms(1) by (auto simp: fs_crc_of valid_root_def)
qed

definition scan_inv :: "fs_t \<Rightarrow> nat \<Rightarrow> fs_t \<Rightarrow> bool" where
  "scan_inv s n t \<longleftrightarrow> (\<exists>b v r. t = s\<lparr>buf1 := b, version := v, root := r\<rparr> \<and> length b = 528 \<and>
    (\<forall>p < n. valid_root (flash s p) \<longrightarrow> root_version (flash s p) \<le> v) \<and>
    (0 < v \<longrightarrow> r < n \<and> valid_root (flash s r) \<and> root_version (flash s r) = v))"

lemma scan_fold:
  assumes "chip_ok s" "version s = 0" "n \<le> 4096"
  shows "scan_inv s n (fold scan_page [0..<n] s)"
  using assms(3)
proof (induction n)
  case 0
  have "length (buf1 s) = 528" using assms(1) by (simp add: chip_ok_def)
  then show ?case unfolding scan_inv_def
    by (intro exI [of _ "buf1 s"] exI [of _ 0] exI [of _ "root s"]) (use assms(2) in simp)
next
  case (Suc n)
  then obtain b v r where t: "fold scan_page [0..<n] s = s\<lparr>buf1 := b, version := v, root := r\<rparr>"
    and b: "length b = 528" and mx: "\<forall>p < n. valid_root (flash s p) \<longrightarrow> root_version (flash s p) \<le> v"
    and pos: "0 < v \<longrightarrow> r < n \<and> valid_root (flash s r) \<and> root_version (flash s r) = v"
    by (auto simp: scan_inv_def)
  let ?t = "s\<lparr>buf1 := b, version := v, root := r\<rparr>"
  have len: "length (flash s n) = 528" "n < 4096" using assms(1) Suc.prems by (auto simp: chip_ok_def)
  then have eq: "fold scan_page [0..<Suc n] s = scan_page n ?t" using t by simp
  show ?case
  proof (cases "valid_root (flash s n) \<and> v < root_version (flash s n)")
    case True
    then have "scan_page n ?t = s\<lparr>buf1 := flash s n, version := root_version (flash s n), root := n\<rparr>"
      using scan_page_eq [of ?t n] len by (simp add: valid_root_def)
    with eq True mx len show ?thesis unfolding scan_inv_def
      by (intro exI [of _ "flash s n"] exI [of _ "root_version (flash s n)"] exI [of _ n])
        (force simp: less_Suc_eq)
  next
    case False
    then have "scan_page n ?t = ?t\<lparr>buf1 := flash s n\<rparr> \<or> scan_page n ?t = ?t"
      using scan_page_eq [of ?t n] len by (auto split: if_splits)
    moreover have "?t\<lparr>buf1 := flash s n\<rparr> = s\<lparr>buf1 := flash s n, version := v, root := r\<rparr>"
      by (rule fs_t.equality) simp_all
    ultimately obtain b' where "scan_page n ?t = s\<lparr>buf1 := b', version := v, root := r\<rparr>" "length b' = 528"
      using b len(1) by metis
    with eq False mx pos show ?thesis unfolding scan_inv_def
      by (intro exI [of _ b'] exI [of _ v] exI [of _ r]) (auto simp: less_Suc_eq)
  qed
qed

text \<open>
  What makes a page store with versions recoverable: picking among the valid pages one of the
  highest version.  Then writing an invalid page anywhere but over the current one changes
  nothing, and writing a valid page with a higher version makes that page the current one.
\<close>

definition current :: "('p \<Rightarrow> bool) \<Rightarrow> ('p \<Rightarrow> nat) \<Rightarrow> nat \<Rightarrow> (nat \<Rightarrow> 'p) \<Rightarrow> nat \<Rightarrow> bool" where
  "current valid ver n f r \<longleftrightarrow> r < n \<and> valid (f r) \<and> 0 < ver (f r) \<and>
    (\<forall>q < n. q \<noteq> r \<longrightarrow> valid (f q) \<longrightarrow> ver (f q) < ver (f r))"

locale versioned_pages =
  fixes valid :: "'p \<Rightarrow> bool" and ver :: "'p \<Rightarrow> nat" and pages :: nat
    and pick :: "(nat \<Rightarrow> 'p) \<Rightarrow> nat" and wf :: "(nat \<Rightarrow> 'p) \<Rightarrow> bool"
  assumes pick_valid: "wf f \<Longrightarrow> p < pages \<Longrightarrow> valid (f p) \<Longrightarrow> 0 < ver (f p) \<Longrightarrow>
      pick f < pages \<and> valid (f (pick f)) \<and> ver (f p) \<le> ver (f (pick f))"
begin

lemma pick_current:
  assumes "wf f" "current valid ver pages f r"
  shows "pick f = r"
proof -
  have "pick f < pages" "valid (f (pick f))" "ver (f r) \<le> ver (f (pick f))"
    using pick_valid [OF assms(1), of r] assms(2) by (auto simp: current_def)
  with assms(2) show ?thesis unfolding current_def by (metis not_less)
qed

lemma current_torn:
  "current valid ver pages f r \<Longrightarrow> p \<noteq> r \<Longrightarrow> (valid g \<Longrightarrow> ver g < ver (f r)) \<Longrightarrow>
    current valid ver pages (f(p := g)) r"
  by (auto simp: current_def)

lemma current_commit:
  assumes "current valid ver pages f r" "p < pages" "valid g" "ver (f r) < ver g"
  shows "current valid ver pages (f(p := g)) p"
proof -
  have "ver (f q) < ver g" if "q < pages" "valid (f q)" for q
    using assms(1,4) that by (cases "q = r") (auto simp: current_def intro: less_trans)
  with assms(2,3,4) show ?thesis by (auto simp: current_def)
qed

lemma torn_write_ignored:
  assumes "current valid ver pages f r" "p \<noteq> r" "valid g \<Longrightarrow> ver g < ver (f r)" "wf (f(p := g))"
  shows "pick (f(p := g)) = r"
  by (rule pick_current [OF assms(4) current_torn [OF assms(1,2)]]) (rule assms(3))

lemma commit_picked:
  assumes "current valid ver pages f r" "p < pages" "valid g" "ver (f r) < ver g" "wf (f(p := g))"
  shows "pick (f(p := g)) = p"
  by (rule pick_current [OF assms(5) current_commit [OF assms(1-4)]])

end

definition full_pages :: "(nat \<Rightarrow> u8 list) \<Rightarrow> bool" where
  "full_pages f \<longleftrightarrow> (\<forall>p < 4096. length (f p) = 528)"

text \<open>The root page fs_scan settles on for the contents \<open>f\<close> of the flash.\<close>

definition blank_fs :: "(nat \<Rightarrow> u8 list) \<Rightarrow> fs_t" where
  "blank_fs f = \<lparr>flash = f, buf1 = replicate 528 0, buf2 = replicate 528 255, root = 0, version = 0,
     last_free = 0, junk = (\<lambda>i. 0), heap_ok = True\<rparr>"

definition scanned_root :: "(nat \<Rightarrow> u8 list) \<Rightarrow> nat" where
  "scanned_root f = root (fold scan_page [0..<4096] (blank_fs f))"

lemma scanned_valid:
  assumes "full_pages f" "p < 4096" "valid_root (f p)" "0 < root_version (f p)"
  shows "scanned_root f < 4096 \<and> valid_root (f (scanned_root f)) \<and>
    root_version (f p) \<le> root_version (f (scanned_root f))"
proof -
  have "chip_ok (blank_fs f)" using assms(1) by (simp add: chip_ok_def blank_fs_def full_pages_def)
  then have "scan_inv (blank_fs f) 4096 (fold scan_page [0..<4096] (blank_fs f))"
    by (intro scan_fold) (simp_all add: blank_fs_def)
  then obtain b v r where fold: "fold scan_page [0..<4096] (blank_fs f) = (blank_fs f)\<lparr>buf1 := b, version := v, root := r\<rparr>"
    and mx: "\<forall>p < 4096. valid_root (f p) \<longrightarrow> root_version (f p) \<le> v"
    and pos: "0 < v \<longrightarrow> r < 4096 \<and> valid_root (f r) \<and> root_version (f r) = v"
    by (auto simp: scan_inv_def blank_fs_def)
  have "scanned_root f = r" by (simp only: scanned_root_def fold) simp
  moreover have "root_version (f p) \<le> v" using mx assms(2,3) by blast
  ultimately show ?thesis using pos assms(4) by auto
qed

interpretation roots: versioned_pages valid_root root_version 4096 scanned_root full_pages
  by unfold_locales (rule scanned_valid)

abbreviation current_root :: "(nat \<Rightarrow> u8 list) \<Rightarrow> nat \<Rightarrow> bool" where
  "current_root \<equiv> current valid_root root_version 4096"

lemma fs_scan_current:
  assumes "chip_ok s" "heap_ok s" "current_root (flash s) r"
  shows "\<exists>b. length b = 528 \<and>
    fs_scan s = (FS_OK, s\<lparr>buf1 := b, version := root_version (flash s r), root := r\<rparr>)"
proof -
  let ?s = "s\<lparr>version := 0\<rparr>"
  have "chip_ok ?s" using assms(1) by (simp add: chip_ok_def)
  then have "scan_inv ?s 4096 (fold scan_page [0..<4096] ?s)" by (intro scan_fold) simp_all
  then obtain b v q where fold: "fold scan_page [0..<4096] ?s = s\<lparr>buf1 := b, version := v, root := q\<rparr>"
    and b: "length b = 528" and mx: "\<forall>p < 4096. valid_root (flash s p) \<longrightarrow> root_version (flash s p) \<le> v"
    and pos: "0 < v \<longrightarrow> q < 4096 \<and> valid_root (flash s q) \<and> root_version (flash s q) = v"
    by (auto simp: scan_inv_def)
  have c: "r < 4096" "valid_root (flash s r)" "0 < root_version (flash s r)"
    "\<And>q. q < 4096 \<Longrightarrow> q \<noteq> r \<Longrightarrow> valid_root (flash s q) \<Longrightarrow> root_version (flash s q) < root_version (flash s r)"
    using assms(3) by (auto simp: current_def)
  then have "root_version (flash s r) \<le> v" using mx by blast
  then have "0 < v" using c(3) by linarith
  then have q: "q < 4096" "valid_root (flash s q)" "root_version (flash s q) = v" using pos by auto
  have "q = r" using c(4) [OF q(1) _ q(2)] q(3) \<open>root_version (flash s r) \<le> v\<close> by force
  with q \<open>0 < v\<close> b assms(2) show ?thesis
    by (auto simp: fs_scan_def Let_def DF_PAGES_def FS_INITIAL_VERSION_def fold)
qed

section \<open>The inode table\<close>

text \<open>Reading the tables of a root page and the slots of a table page.\<close>

definition table_slot :: "u8 list \<Rightarrow> nat \<Rightarrow> nat" where
  "table_slot d i = un16 (slice (8 + i * 2) 2 d)"

definition inode_slot :: "u8 list \<Rightarrow> nat \<Rightarrow> fs_inodetable_node_t" where
  "inode_slot d j = get_inodetable_node (slice (15 + j * 2) 2 d)"

lemma fs_inodetable_slot:
  assumes "chip_ok s" "i < 16"
  shows "fs_inodetable s i = table_slot (flash s (root s)) i"
  using chip_okD [OF assms(1)] assms(2)
  by (simp add: fs_inodetable_def df_flash_read_def read_wrapped_slice table_slot_def fs_consts)

lemma fs_page_slot:
  assumes "chip_ok s" "inode < 4096"
  shows "fs_page s inode =
    (let node = inode_slot (flash s (page_address (fs_inodetable s (inode div 256)))) (inode mod 256)
     in if in_unused node then BAD else in_page node)"
proof -
  have i: "inode div 256 mod 256 = inode div 256" "inode mod 256 < 256" using assms(2) by auto
  have len: "length (flash s (page_address p)) = 528" for p using chip_okD(3) [OF assms(1)] by simp
  have "15 + inode mod 256 * 2 + 2 \<le> 528" using i(2) by linarith
  with len i(1) show ?thesis
    by (simp add: fs_page_def inode_slot_def df_flash_read_def read_wrapped_slice FS_INODES_PER_TABLE_def
        FS_DATA_OFFSET_def Let_def)
qed

lemma fs_page_lt: "fs_page s inode = BAD \<or> fs_page s inode < 4096"
proof -
  have "num12 d < 4096" for d
    using unat_u8_lt [of "d ! 0"] unat_u8_lt [of "d ! 1"] unfolding num12_def un16_def by linarith
  then show ?thesis by (simp add: fs_page_def Let_def get_inodetable_node_def)
qed

definition live :: "fs_t \<Rightarrow> nat set" where
  "live s = {root s} \<union> fs_inodetable s ` {..<16} \<union> fs_page s ` {..<4096}"

definition fs_ok :: "nat \<Rightarrow> fs_t \<Rightarrow> bool" where
  "fs_ok K s \<longleftrightarrow> chip_ok s \<and> heap_ok s \<and> current_root (flash s) (root s) \<and>
    version s = root_version (flash s (root s)) \<and> version s + K < 2 ^ 32 \<and>
    (\<forall>i < 16. fs_inodetable s i < 4096 \<and> \<not> pg_root (get_fs_page (flash s (fs_inodetable s i)))) \<and>
    K \<le> length (free_seq s) \<and> set (take K (free_seq s)) \<inter> live s = {}"

lemma fs_okD:
  assumes "fs_ok K s"
  shows "chip_ok s" "heap_ok s" "current_root (flash s) (root s)"
    "version s = root_version (flash s (root s))" "version s + K < 2 ^ 32"
    "i < 16 \<Longrightarrow> fs_inodetable s i < 4096"
    "i < 16 \<Longrightarrow> \<not> pg_root (get_fs_page (flash s (fs_inodetable s i)))"
    "K \<le> length (free_seq s)" "p \<in> set (take K (free_seq s)) \<Longrightarrow> p \<notin> live s"
  using assms by (auto simp: fs_ok_def)

lemma fs_ok_less: "fs_ok K s \<Longrightarrow> J \<le> K \<Longrightarrow> fs_ok J s"
  using set_take_subset_set_take [of J K "free_seq s"] by (auto simp: fs_ok_def)

lemma fs_increment_eq:
  assumes "length (buf1 t) = 528" "heap_ok t" "version t + 1 < 2 ^ 32" "last_free t < 4096"
    and "free_seq t = n # ns"
  shows "fs_increment t = Some (FS_OK,
    t\<lparr>version := version t + 1, buf1 := seal (version t + 1) (buf1 t), last_free := n,
      flash := (flash t)(n := seal (version t + 1) (buf1 t)), root := n\<rparr>)"
proof -
  define v where "v = version t + 1"
  let ?b = "memcpy_at 4 (le32 v) (buf1 t)"
  have v: "(version t + 1) mod 2 ^ 32 = v" "v mod 4294967296 = v" using assms(3) by (simp_all add: v_def)
  have n: "n < 4096" "n \<noteq> BAD" using free_seq_lt [of n t] assms(4,5) by (auto simp: BAD_def)
  have rd: "df_buf_read DF_BUF1 0 40 t = take 40 (buf1 t)"
    using assms(1) by (simp add: df_buf_read_def buffer_def read_wrapped_slice slice_def)
  have hdr: "write_wrapped (memcpy_at 4 (le32 v) (take 40 (buf1 t))) 0 (buf1 t) = ?b"
    using assms(1) drop_append [of 8 "take 40 (buf1 t)" "drop 40 (buf1 t)"]
    by (subst write_wrapped_memcpy) (auto simp: memcpy_at_def min_def)
  define t1 where "t1 = t\<lparr>version := v, buf1 := ?b\<rparr>"
  have w1: "df_buf_write DF_BUF1 (memcpy_at 4 (le32 v) (take 40 (buf1 t))) 0 (t\<lparr>version := v\<rparr>) = t1"
    using hdr by (simp add: t1_def chip_defs)
  have crc: "fs_crc 0 DF_BUF1 0 FS_CRC_LENGTH t1 = crc_of ?b"
    using assms(1) by (simp add: fs_crc_of t1_def)
  define t2 where "t2 = t\<lparr>version := v, buf1 := seal v (buf1 t)\<rparr>"
  have w2: "df_buf_write DF_BUF1 [crc_of ?b] FS_CRC_OFFSET t1 = t2"
    by (simp add: t1_def t2_def chip_defs seal_def FS_CRC_OFFSET_def DF_PAGESIZE_def)
  have "free_seq t2 = n # ns" using assms(5) free_seq_cong [of t2 t] by (simp add: t2_def)
  then have new: "fs_new_page t2 = Some (n, t2\<lparr>last_free := n\<rparr>)"
    using assms(4) by (simp add: fs_new_page_eq t2_def)
  show ?thesis
    unfolding fs_increment_def Let_def v v_def [symmetric] rd fs_t.select_convs fs_t.simps w1 crc w2 new
    using assms(2) n by (simp add: rd v w1 crc w2 new [unfolded t2_def] t2_def df_buf_save_def buffer_def)
qed

text \<open>
  The two pages an update of slot \<open>inode\<close> writes: the inode table with the slot changed, and the
  root page that names the new table.
\<close>

definition new_node :: "fs_t \<Rightarrow> nat \<Rightarrow> fs_inodetable_node_t" where
  "new_node s page =
    (let d = map (junk s) [0..<2]
     in if page = BAD then (get_inodetable_node d)\<lparr>in_unused := True\<rparr>
        else (get_inodetable_node d)\<lparr>in_unused := False, in_page := page mod 4096\<rparr>)"

definition table_page :: "fs_t \<Rightarrow> nat \<Rightarrow> nat \<Rightarrow> u8 list" where
  "table_page s inode page =
    memcpy_at (15 + inode mod 256 * 2) (put_inodetable_node (new_node s page))
      (flash s (fs_inodetable s (inode div 256)))"

definition root_page :: "fs_t \<Rightarrow> nat \<Rightarrow> nat \<Rightarrow> u8 list" where
  "root_page s inode n1 =
    seal (version s + 1) (memcpy_at (8 + inode div 256 * 2) (le16 n1) (flash s (root s)))"

lemma num12_lt: "num12 d < 4096"
  using unat_u8_lt [of "d ! 0"] unat_u8_lt [of "d ! 1"] unfolding num12_def un16_def by linarith

lemma new_node_page: "in_page (new_node s page) < 4096"
  by (simp add: new_node_def Let_def get_inodetable_node_def num12_lt)

lemma new_node_read:
  "in_unused (new_node s page) = (page = BAD)" "page < 4096 \<Longrightarrow> in_page (new_node s page) = page"
  by (auto simp: new_node_def Let_def BAD_def)

lemma fs_update_inodetable_eq:
  assumes "fs_ok K s" "2 \<le> K" "inode < 4096"
  obtains n1 n2 ns where "free_seq s = n1 # n2 # ns"
    "fs_update_inodetable inode page s = Some (FS_OK,
      s\<lparr>version := version s + 1, buf1 := root_page s inode n1, last_free := n2,
        junk := (\<lambda>i. junk s (2 + i)),
        flash := (flash s)(n1 := table_page s inode page, n2 := root_page s inode n1), root := n2\<rparr>)"
proof -
  note ok = fs_okD [OF assms(1)] and chip = chip_okD [OF fs_okD(1) [OF assms(1)]]
  obtain n1 n2 ns where seq: "free_seq s = n1 # n2 # ns"
    using ok(8) assms(2) by (cases "free_seq s"; cases "tl (free_seq s)") auto
  have "n1 \<in> set (take K (free_seq s))" using seq assms(2) by (cases K) auto
  then have "n1 \<notin> live s" by (rule ok(9))
  moreover have n1: "n1 < 4096" "n1 \<noteq> BAD" using free_seq_lt [of n1 s] chip(5) seq by (auto simp: BAD_def)
  ultimately have ne: "n1 \<noteq> root s" by (auto simp: live_def)
  define i where "i = inode div 256"
  have i: "i < 16" "i mod 256 = i" "inode div 256 mod 256 = i" using assms(3) by (auto simp: i_def)
  have j: "15 + inode mod 256 * 2 + 2 \<le> 528"
    using mod_less_divisor [of 256 inode] by linarith
  define T R where "T = table_page s inode page"
    and "R = memcpy_at (8 + i * 2) (le16 n1) (flash s (root s))"
  define s1 where "s1 = s\<lparr>last_free := n1, junk := (\<lambda>i. junk s (2 + i))\<rparr>"
  have new1: "fs_new_page s = Some (n1, s\<lparr>last_free := n1\<rparr>)" using seq chip(5) by (simp add: fs_new_page_eq)
  have junk1: "take_junk 2 (s\<lparr>last_free := n1\<rparr>) = (map (junk s) [0..<2], s1)"
    by (simp add: take_junk_def s1_def)
  have tbl: "fs_inodetable s1 i = fs_inodetable s i" "fs_inodetable s i < 4096"
    using ok(6) [OF i(1)] by (simp_all add: fs_inodetable_def df_flash_read_def s1_def)
  define s2 where "s2 = s1\<lparr>buf1 := T\<rparr>"
  have w2: "df_buf_write DF_BUF1 (put_inodetable_node (new_node s page))
      (FS_DATA_OFFSET + (inode mod FS_INODES_PER_TABLE) * 2)
      (df_buf_load DF_BUF1 (fs_inodetable s1 i) s1) = s2"
    using tbl j chip(3) by (simp add: s2_def s1_def T_def table_page_def chip_defs write_wrapped_memcpy
        FS_DATA_OFFSET_def FS_INODES_PER_TABLE_def i_def)
  define s3 where "s3 = s1\<lparr>buf1 := R, flash := (flash s)(n1 := T)\<rparr>"
  have w3: "df_buf_write DF_BUF1 (le16 n1) (FS_ROOTNODE_INODETABLE_OFFSET + i * 2)
      (df_buf_load DF_BUF1 (root (df_buf_save DF_BUF1 n1 s2)) (df_buf_save DF_BUF1 n1 s2)) = s3"
    using n1 ne chip(3,4) i(1) by (simp add: s3_def s2_def s1_def R_def chip_defs write_wrapped_memcpy
        FS_ROOTNODE_INODETABLE_OFFSET_def)
  have seq3: "free_seq s3 = n2 # ns @ filter (\<lambda>q. \<not> fs_used s q) [last_free s]"
    using free_seq_next [OF seq chip(5), of s3] by (simp add: s3_def s1_def)
  have len: "length R = 528" "buf1 s3 = R" using chip(3,4) i(1) by (simp_all add: R_def s3_def)
  have inc: "fs_increment s3 = Some (FS_OK, s3\<lparr>version := version s3 + 1,
      buf1 := seal (version s3 + 1) (buf1 s3), last_free := n2,
      flash := (flash s3)(n2 := seal (version s3 + 1) (buf1 s3)), root := n2\<rparr>)"
    by (rule fs_increment_eq [OF _ _ _ _ seq3]) (use len ok(2,5) assms(2) n1 in \<open>auto simp: s3_def s1_def\<close>)
  have node: "(if page = BAD then (get_inodetable_node (map (junk s) [0..<2]))\<lparr>in_unused := True\<rparr>
      else (get_inodetable_node (map (junk s) [0..<2]))\<lparr>in_unused := False, in_page := page mod 4096\<rparr>) =
      new_node s page" by (simp add: new_node_def)
  have "fs_update_inodetable inode page s = fs_increment s3"
    unfolding fs_update_inodetable_def new1 bind.bind_lunit prod.case junk1 Let_def node
      FS_INODES_PER_TABLE_def [symmetric]
    using n1(2) ok(2) w2 w3 i by (simp add: FS_INODES_PER_TABLE_def i_def)
  with inc show thesis
    by (intro that [OF seq]) (simp add: s3_def s1_def T_def R_def root_page_def i_def)
qed

text \<open>The roots and tables after an update.\<close>

lemma table_slot_root_page:
  assumes "length (flash s (root s)) = 528" "inode < 4096" "i < 16" "n1 < 65536"
  shows "table_slot (root_page s inode n1) i =
    (if i = inode div 256 then n1 else table_slot (flash s (root s)) i)"
proof -
  define d where "d = memcpy_at (8 + inode div 256 * 2) (le16 n1) (flash s (root s))"
  have len: "length d = 528" using assms by (simp add: d_def)
  have "slice (8 + i * 2) 2 (seal v d) = slice (8 + i * 2) 2 d" for v
    by (rule nth_equalityI) (use len assms(3) in \<open>auto simp: nth_slice nth_seal\<close>)
  then have "table_slot (root_page s inode n1) i = un16 (slice (8 + i * 2) 2 d)"
    by (simp add: table_slot_def root_page_def d_def)
  also have "\<dots> = (if i = inode div 256 then n1 else table_slot (flash s (root s)) i)"
  proof (cases "i = inode div 256")
    case True
    have "slice (8 + i * 2) (length (le16 n1)) d = le16 n1"
      unfolding d_def True [symmetric] by (rule slice_memcpy_at) (use assms in simp)
    then show ?thesis using True un16_le16 [OF assms(4), of "[]"] by simp
  next
    case False
    then have "slice (8 + i * 2) 2 d = slice (8 + i * 2) 2 (flash s (root s))"
      unfolding d_def by (intro slice_memcpy_other) (use assms in auto)
    then show ?thesis using False by (simp add: table_slot_def)
  qed
  finally show ?thesis .
qed

lemma inode_slot_table_page:
  assumes "length (flash s (fs_inodetable s (inode div 256))) = 528" "j < 256"
  shows "(let node = inode_slot (table_page s inode page) j in if in_unused node then BAD else in_page node) =
    (if j = inode mod 256 then if page = BAD then BAD else page mod 4096
     else let node = inode_slot (flash s (fs_inodetable s (inode div 256))) j
          in if in_unused node then BAD else in_page node)"
proof -
  define nd where "nd = put_inodetable_node (new_node s page)"
  let ?d = "flash s (fs_inodetable s (inode div 256))"
  have jm: "inode mod 256 < 256" by simp
  show ?thesis
  proof (cases "j = inode mod 256")
    case True
    have "15 + inode mod 256 * 2 + length nd \<le> length ?d" using assms(1) jm by (simp add: nd_def)
    then have "slice (15 + inode mod 256 * 2) (length nd) (table_page s inode page) = nd"
      unfolding table_page_def nd_def [symmetric] by (rule slice_memcpy_at)
    then have "inode_slot (table_page s inode page) j = get_inodetable_node (nd @ [])"
      using True by (simp add: inode_slot_def nd_def)
    then have "in_unused (inode_slot (table_page s inode page) j) = (page = BAD)"
      "page \<noteq> BAD \<Longrightarrow> in_page (inode_slot (table_page s inode page) j) = page mod 4096"
      using get_put_inodetable_node [OF new_node_page, of s page "[]"]
      by (auto simp: nd_def new_node_def Let_def)
    then show ?thesis using True by (simp add: Let_def)
  next
    case False
    have "slice (15 + j * 2) 2 (table_page s inode page) = slice (15 + j * 2) 2 ?d"
      unfolding table_page_def nd_def [symmetric]
      by (rule slice_memcpy_other) (use assms False jm in \<open>auto simp: nd_def\<close>)
    then show ?thesis using False by (simp add: inode_slot_def)
  qed
qed

lemma root_page_valid:
  assumes "fs_ok K s" "1 \<le> K" "inode < 4096"
  shows "valid_root (root_page s inode n1)" "root_version (root_page s inode n1) = version s + 1"
    "length (root_page s inode n1) = 528"
proof -
  note ok = fs_okD [OF assms(1)] and chip = chip_okD [OF fs_okD(1) [OF assms(1)]]
  let ?d = "memcpy_at (8 + inode div 256 * 2) (le16 n1) (flash s (root s))"
  have len: "length (flash s (root s)) = 528" using chip by simp
  then have d: "length ?d = 528" using assms(3) by simp
  have i: "inode div 256 < 16" using assms(3) by auto
  have "flag12 ?d k = flag12 (flash s (root s)) k" for k
    by (rule flag12_cong) (use len i in \<open>auto simp: nth_memcpy_at\<close>)
  moreover have "valid_root (flash s (root s))" using ok(3) by (simp add: current_def)
  ultimately have "\<not> pg_unused (get_fs_page ?d)" "pg_root (get_fs_page ?d)"
    by (auto simp: valid_root_def get_fs_page_def)
  with seal_valid [OF d, of "version s + 1"] ok(5) assms(2) d
  show "valid_root (root_page s inode n1)" "root_version (root_page s inode n1) = version s + 1"
    "length (root_page s inode n1) = 528"
    by (simp_all add: root_page_def)
qed

lemma table_page_not_root:
  assumes "fs_ok K s" "inode < 4096"
  shows "\<not> pg_root (get_fs_page (table_page s inode page))" "length (table_page s inode page) = 528"
proof -
  note ok = fs_okD [OF assms(1)] and chip = chip_okD [OF fs_okD(1) [OF assms(1)]]
  have i: "inode div 256 < 16" using assms(2) by auto
  let ?d = "flash s (fs_inodetable s (inode div 256))"
  have len: "length ?d = 528" using chip ok(6) [OF i] by simp
  have j: "inode mod 256 < 256" by simp
  then have j': "15 + inode mod 256 * 2 + 2 \<le> 528" by linarith
  have "flag12 (table_page s inode page) k = flag12 ?d k" for k
    by (rule flag12_cong) (use len j' in \<open>auto simp: table_page_def nth_memcpy_at\<close>)
  with ok(7) [OF i] show "\<not> pg_root (get_fs_page (table_page s inode page))"
    by (simp add: get_fs_page_def)
  show "length (table_page s inode page) = 528" using len j' by (simp add: table_page_def)
qed

lemma free_seq_two:
  assumes "free_seq s = n1 # n2 # ns" "last_free s < 4096" "buf2 s' = buf2 s" "last_free s' = n2"
  shows "\<exists>xs. free_seq s' = ns @ xs"
proof -
  define t where "t = s\<lparr>last_free := n1\<rparr>"
  have t: "free_seq t = n2 # ns @ filter (\<lambda>q. \<not> fs_used s q) [last_free s]"
    using free_seq_next [OF assms(1,2), of t] by (simp add: t_def)
  moreover have "n1 < 4096" using free_seq_lt [of n1 s] assms(1,2) by simp
  ultimately have "free_seq s' = (ns @ filter (\<lambda>q. \<not> fs_used s q) [last_free s]) @
      filter (\<lambda>q. \<not> fs_used t q) [last_free t]"
    by (intro free_seq_next) (simp_all add: t_def assms(3,4))
  then show ?thesis by (metis append_assoc)
qed

text \<open>
  What one update gives: the new state is again a file system with two allocations less, only
  the slot \<open>inode\<close> has changed, and no page outside the two new ones has been written.
\<close>

definition updated :: "nat \<Rightarrow> nat \<Rightarrow> nat \<Rightarrow> fs_t \<Rightarrow> fs_t \<Rightarrow> bool" where
  "updated K inode page s s' \<longleftrightarrow> fs_ok (K - 2) s' \<and>
    (\<forall>i < 4096. fs_page s' i = (if i = inode then page else fs_page s i)) \<and>
    take (K - 2) (free_seq s') = drop 2 (take K (free_seq s)) \<and>
    (\<forall>p. p \<notin> set (take 2 (free_seq s)) \<longrightarrow> flash s' p = flash s p) \<and>
    (\<forall>off n. 40 \<le> off \<longrightarrow> off + n \<le> 527 \<longrightarrow>
      slice off n (flash s' (root s')) = slice off n (flash s (root s))) \<and>
    buf2 s' = buf2 s \<and> root s' \<in> set (take 2 (free_seq s)) \<and>
    (\<forall>i < 16. fs_inodetable s' i \<in> fs_inodetable s ` {..<16} \<union> set (take 2 (free_seq s)))"

lemma fs_update_step:
  assumes ok: "fs_ok K s" and K: "2 \<le> K" and inode: "inode < 4096" and page: "page = BAD \<or> page < 4096"
    and fresh: "page \<notin> set (drop 2 (take K (free_seq s)))"
  shows "\<exists>s'. fs_update_inodetable inode page s = Some (FS_OK, s') \<and> updated K inode page s s'"
proof -
  note okD = fs_okD [OF ok] and chip = chip_okD [OF fs_okD(1) [OF ok]]
  obtain n1 n2 ns where seq: "free_seq s = n1 # n2 # ns"
    and run: "fs_update_inodetable inode page s = Some (FS_OK,
      s\<lparr>version := version s + 1, buf1 := root_page s inode n1, last_free := n2,
        junk := (\<lambda>i. junk s (2 + i)),
        flash := (flash s)(n1 := table_page s inode page, n2 := root_page s inode n1), root := n2\<rparr>)"
    by (rule fs_update_inodetable_eq [OF ok K inode])
  define T R where "T = table_page s inode page" and "R = root_page s inode n1"
  define s' where "s' = s\<lparr>version := version s + 1, buf1 := R, last_free := n2,
        junk := (\<lambda>i. junk s (2 + i)), flash := (flash s)(n1 := T, n2 := R), root := n2\<rparr>"
  have R: "valid_root R" "root_version R = version s + 1" "length R = 528"
    using root_page_valid [OF ok _ inode, of n1] K by (auto simp: R_def)
  have T: "\<not> pg_root (get_fs_page T)" "length T = 528"
    using table_page_not_root [OF ok inode, of page] by (auto simp: T_def)
  have n: "n1 < 4096" "n2 < 4096" "n1 \<noteq> n2"
    using free_seq_lt [of _ s] chip(5) seq distinct_free_seq [of s] by auto
  obtain L where KL: "K = Suc (Suc L)" using K by (metis Suc_le_D add_2_eq_Suc le_add_diff_inverse)
  have rest: "drop 2 (take K (free_seq s)) = take L ns" "take K (free_seq s) = n1 # n2 # take L ns"
    using seq KL by simp_all
  have notlive: "n1 \<notin> live s" "n2 \<notin> live s" "\<And>p. p \<in> set (take L ns) \<Longrightarrow> p \<notin> live s"
    using okD(9) by (auto simp: rest(2))
  have len: "L \<le> length ns" using okD(8) seq KL by simp
  have i16: "inode div 256 < 16" using inode by auto
  have chip': "chip_ok s'" using chip n R(3) T(2) by (auto simp: chip_ok_def s'_def)
  have cur: "current_root (flash s') n2"
  proof -
    have "current_root ((flash s)(n1 := T)) (root s)"
      by (rule roots.current_torn [OF okD(3)]) (use notlive T in \<open>auto simp: live_def valid_root_def\<close>)
    moreover have "root_version (((flash s)(n1 := T)) (root s)) < root_version R"
      using okD(4) R(2) notlive(1) by (auto simp: live_def)
    ultimately show ?thesis unfolding s'_def using roots.current_commit n(2) R(1) by simp
  qed
  have tbl: "fs_inodetable s' i = (if i = inode div 256 then n1 else fs_inodetable s i)" if "i < 16" for i
    using that fs_inodetable_slot [OF chip' that] fs_inodetable_slot [OF okD(1) that]
      table_slot_root_page [of s inode i n1] chip(3,4) inode n by (simp add: s'_def R_def)
  have tbl_page: "flash s' (fs_inodetable s' i) =
      (if i = inode div 256 then T else flash s (fs_inodetable s i))"
    "fs_inodetable s' i < 4096" if "i < 16" for i
  proof -
    have "fs_inodetable s i \<in> live s" using that by (simp add: live_def)
    with notlive have "fs_inodetable s i \<noteq> n1" "fs_inodetable s i \<noteq> n2" by auto
    then show "flash s' (fs_inodetable s' i) = (if i = inode div 256 then T else flash s (fs_inodetable s i))"
      using n(3) by (simp add: tbl [OF that]) (simp add: s'_def)
    show "fs_inodetable s' i < 4096" using okD(6) [OF that] n(1) by (simp add: tbl [OF that])
  qed
  have pages: "fs_page s' i = (if i = inode then page else fs_page s i)" if i: "i < 4096" for i
  proof -
    have d: "i div 256 < 16" using i by auto
    have here: "fs_page t i = (let node = inode_slot (flash t (fs_inodetable t (i div 256))) (i mod 256)
        in if in_unused node then BAD else in_page node)"
      if "chip_ok t" "fs_inodetable t (i div 256) < 4096" for t
      using fs_page_slot [OF that(1) i] that(2) by simp
    show ?thesis
    proof (cases "i div 256 = inode div 256")
      case True
      have "i = inode \<longleftrightarrow> i mod 256 = inode mod 256"
        using True by (metis div_mult_mod_eq)
      moreover have pm: "(if page = BAD then BAD else page mod 4096) = page" using page by auto
      ultimately show ?thesis
        using here [OF chip' tbl_page(2) [OF d]] here [OF okD(1) okD(6) [OF d]] tbl_page(1) [OF d] True
          inode_slot_table_page [of s inode "i mod 256" page, unfolded pm] chip(3) okD(6) [OF i16]
        by (auto simp: T_def Let_def)
    next
      case False
      then show ?thesis
        using here [OF chip' tbl_page(2) [OF d]] here [OF okD(1) okD(6) [OF d]] tbl_page(1) [OF d] by auto
    qed
  qed
  obtain xs where seq': "free_seq s' = ns @ xs"
    using free_seq_two [OF seq chip(5), of s'] by (auto simp: s'_def)
  have live': "live s' \<subseteq> {n1, n2, page} \<union> live s"
    unfolding live_def using tbl pages by (auto simp: s'_def)
  have "set (take L ns) \<inter> live s' = {}"
    using live' notlive(3) fresh rest(1) distinct_free_seq [of s] seq by (auto dest: in_set_takeD)
  then have "fs_ok L s'"
    unfolding fs_ok_def using chip' okD(2,5) cur R(2) tbl_page T(1) okD(7) seq' len KL
    by (auto simp: s'_def)
  moreover have "slice off k (flash s' (root s')) = slice off k (flash s (root s))"
    if "40 \<le> off" "off + k \<le> 527" for off k
  proof (rule nth_equalityI)
    have Rl: "length (flash s (root s)) = 528" using chip by simp
    then show "length (slice off k (flash s' (root s'))) = length (slice off k (flash s (root s)))"
      using that R(3) by (simp add: s'_def)
    fix x assume "x < length (slice off k (flash s' (root s')))"
    then have x: "x < k" using that R(3) by (simp add: s'_def)
    have "R ! (off + x) = flash s (root s) ! (off + x)"
      using that x Rl i16 by (simp add: R_def root_page_def nth_seal nth_memcpy_at)
    then show "slice off k (flash s' (root s')) ! x = slice off k (flash s (root s)) ! x"
      using that x R(3) Rl by (simp add: nth_slice s'_def)
  qed
  moreover have "root s' \<in> set (take 2 (free_seq s))"
    "\<forall>i < 16. fs_inodetable s' i \<in> fs_inodetable s ` {..<16} \<union> set (take 2 (free_seq s))"
    using tbl seq by (auto simp: s'_def)
  ultimately have "updated K inode page s s'"
    unfolding updated_def using pages seq' len rest(1) KL seq
    by (auto simp: s'_def)
  with run show ?thesis by (auto simp: s'_def T_def R_def)
qed

end
