(* ===== verification/Fs_Format.thy ===== *)
theory Fs_Format imports Fs_Commit begin

text \<open>
  Formatting and initialising the dataflash file system: what fs_format writes, the table of free
  pages in the second buffer, and that fs_init on a chip without a file system leaves an empty
  one that satisfies the invariant \<open>fs_ok\<close>.
\<close>

section \<open>Sequences of writes\<close>

lemma write_wrapped_append:
  "write_wrapped (xs @ ys) off d = write_wrapped ys (off + length xs) (write_wrapped xs off d)"
  by (induction xs off d rule: write_wrapped.induct) simp_all

lemma df_buf_write_twice:
  "df_buf_write b ys (off + length xs) (df_buf_write b xs off s) = df_buf_write b (xs @ ys) off s"
  by (simp add: df_buf_write_def set_buffer_def buffer_def write_wrapped_append split: df_buf_t.split)

lemma df_buf_write_Nil [simp]: "df_buf_write b [] off s = s"
  by (simp add: df_buf_write_def set_buffer_def buffer_def split: df_buf_t.split)

lemma fold_buf_write:
  "fold (\<lambda>i. df_buf_write b w (off + i * length w)) [0..<n] s =
    df_buf_write b (concat (replicate n w)) off s"
proof (induction n)
  case (Suc n)
  have "concat (replicate n w) @ w = concat (replicate (Suc n) w)"
    by (induction n) simp_all
  moreover have "length (concat (replicate n w)) = n * length w" by (simp add: length_concat sum_list_replicate)
  ultimately show ?case using Suc df_buf_write_twice [of b w off "concat (replicate n w)" s] by simp
qed simp

lemma fold_save:
  "n < 4096 \<Longrightarrow> fold (\<lambda>i. df_buf_save DF_BUF1 (i + 1)) [0..<n] (s :: fs_t) =
    s\<lparr>flash := (\<lambda>p. if 1 \<le> p \<and> p \<le> n then buf1 s else flash s p)\<rparr>"
proof (induction n)
  case 0
  have "(\<lambda>p. if 1 \<le> p \<and> p \<le> 0 then buf1 s else flash s p) = flash s" by auto
  then show ?case by simp
next
  case (Suc n)
  then have "fold (\<lambda>i. df_buf_save DF_BUF1 (i + 1)) [0..<Suc n] s =
      df_buf_save DF_BUF1 (n + 1) (s\<lparr>flash := (\<lambda>p. if 1 \<le> p \<and> p \<le> n then buf1 s else flash s p)\<rparr>)"
    by simp
  also have "\<dots> = s\<lparr>flash := (\<lambda>p. if 1 \<le> p \<and> p \<le> Suc n then buf1 s else flash s p)\<rparr>"
    using Suc.prems by (auto simp: df_buf_save_def buffer_def fun_eq_iff)
  finally show ?case .
qed

section \<open>The table of free pages\<close>

lemma used_byte:
  "fs_used s page \<longleftrightarrow> \<not> bit (df_buf_read DF_BUF2 (page div 8) 1 s ! 0) (page mod 8)"
  by (simp add: fs_used_def and_exp_eq_0_iff_not_bit)

lemma buf2_byte:
  "length (buf2 s) = 528 \<Longrightarrow> k < 528 \<Longrightarrow> df_buf_read DF_BUF2 k (Suc 0) s ! 0 = buf2 s ! k"
  by (simp add: df_buf_read_def buffer_def read_wrapped_def DF_PAGESIZE_def)

lemma fs_mark_eq:
  assumes "length (buf2 s) = 528" "page < 4096"
  shows "fs_mark page is_free s = s\<lparr>buf2 := (buf2 s)[page div 8 :=
    (if is_free then buf2 s ! (page div 8) OR 2 ^ (page mod 8)
     else buf2 s ! (page div 8) AND NOT (2 ^ (page mod 8)))]\<rparr>"
proof -
  have "page div 8 < 528" using assms(2) by simp
  then show ?thesis using assms(1)
    by (simp add: fs_mark_def Let_def buf2_byte df_buf_write_def set_buffer_def buffer_def DF_PAGESIZE_def)
qed

lemma fs_used_mark:
  assumes "length (buf2 s) = 528" "page < 4096" "q < 4096"
  shows "fs_used (fs_mark page is_free s) q = (if q = page then \<not> is_free else fs_used s q)"
proof -
  have lt: "page div 8 < 528" "q div 8 < 528" "q mod 8 < 8" "page mod 8 < 8" using assms by auto
  have eq: "q = page \<longleftrightarrow> q div 8 = page div 8 \<and> q mod 8 = page mod 8"
    by (metis div_mult_mod_eq)
  show ?thesis
    using assms(1) lt unfolding used_byte fs_mark_eq [OF assms(1,2)] eq
    by (auto simp: buf2_byte nth_list_update bit_simps)
qed

lemma fs_mark_frame [simp]:
  assumes "length (buf2 s) = 528" "page < 4096"
  shows "length (buf2 (fs_mark page is_free s)) = 528" "flash (fs_mark page is_free s) = flash s"
    "root (fs_mark page is_free s) = root s" "version (fs_mark page is_free s) = version s"
    "last_free (fs_mark page is_free s) = last_free s" "heap_ok (fs_mark page is_free s) = heap_ok s"
    "buf1 (fs_mark page is_free s) = buf1 s"
  using assms by (simp_all add: fs_mark_eq)

section \<open>Formatting\<close>

text \<open>The page of an empty inode table, and the root page, as fs_format leaves them.\<close>

definition format_table :: "fs_t \<Rightarrow> u8 list" where
  "format_table s =
    memcpy_at 15 (replicate 509 0xff)
      (memcpy_at 0 (put_fs_page ((get_fs_page (map (junk s) [4..<8]))\<lparr>pg_root := False,
         pg_eof := True, pg_unused := False, pg_next_inode := 0x0fff\<rparr>)) (buf1 s))"

definition empty_node :: "u8 list \<Rightarrow> fs_node_t" where
  "empty_node dn = \<lparr>nd_unused = True, nd_file = False, nd_reserved = 0, nd_inode = 0, nd_name = 0 # dn\<rparr>"

definition format_root_page :: "fs_t \<Rightarrow> u8 list" where
  "format_root_page s =
    (let d = memcpy_at 40 (concat (replicate 60 (put_fs_node (empty_node (map (junk s) [8..<13])))))
               (memcpy_at 0 (format_root s (map (junk s) [0..<4])) (format_table s))
     in d[527 := crc_of d])"

lemma length_format_root: "length (format_root s d) = 40"
  by (simp add: format_root_def FS_ROOTNODE_INODETABLE_SIZE_def length_concat o_def sum_list_triv)

lemma length_empty_node [simp]: "length dn = 5 \<Longrightarrow> length (put_fs_node (empty_node dn)) = 8"
  by (simp add: empty_node_def)

lemma length_format_table: "length (buf1 s) = 528 \<Longrightarrow> length (format_table s) = 528"
  by (simp add: format_table_def)

lemma length_format_root_page: "length (buf1 s) = 528 \<Longrightarrow> length (format_root_page s) = 528"
  by (simp add: format_root_page_def Let_def length_format_table length_format_root length_concat
      sum_list_replicate)

definition format_version :: "fs_t \<Rightarrow> nat" where
  "format_version s = (if version s > 0 then (version s + 1) mod 2 ^ 32 else 1)"

lemma map_shift_upt: "map (\<lambda>i. f (k + i)) [0..<n] = map f [k..<k + n]"
  by (rule nth_equalityI) simp_all

lemma fs_format_eq:
  fixes s :: fs_t
  assumes "length (buf1 s) = 528" "heap_ok s"
  defines "v \<equiv> s\<lparr>version := format_version s\<rparr>"
  shows "fs_format s = (FS_OK, v\<lparr>buf1 := format_root_page v, junk := (\<lambda>i. junk s (13 + i)),
    flash := (\<lambda>p. if p = 0 then format_root_page v else if p \<le> 16 then format_table v else flash s p),
    root := 0\<rparr>)"
proof -
  define T where "T = format_table v"
  define H where "H = put_fs_page ((get_fs_page (map (junk s) [4..<8]))\<lparr>pg_root := False,
      pg_eof := True, pg_unused := False, pg_next_inode := 0x0fff\<rparr>)"
  define N where "N = put_fs_node (empty_node (map (junk s) [8..<13]))"
  have len: "length (buf1 v) = 528" using assms(1) by (simp add: v_def)
  have lT: "length T = 528" using len by (simp add: T_def length_format_table)
  define s2 where "s2 = v\<lparr>junk := (\<lambda>i. junk s (8 + i))\<rparr>"
  have j1: "take_junk 4 v = (map (junk s) [0..<4], v\<lparr>junk := (\<lambda>i. junk s (4 + i))\<rparr>)"
    by (simp add: take_junk_def v_def)
  have j2: "take_junk 4 (v\<lparr>junk := (\<lambda>i. junk s (4 + i))\<rparr>) = (map (junk s) [4..<8], s2)"
    using map_shift_upt [of "junk s" 4 4]
    by (simp add: take_junk_def s2_def add.assoc [symmetric] del: upt_rec_numeral)
  have w1: "fold (\<lambda>i. df_buf_write DF_BUF1 [0xff] (FS_DATA_OFFSET + i))
      [0..<DF_PAGESIZE - FS_DATA_OFFSET - sizeof_fs_page] (df_buf_write DF_BUF1 H 0 s2) = s2\<lparr>buf1 := T\<rparr>"
  proof -
    have "fold (\<lambda>i. df_buf_write DF_BUF1 [0xff] (FS_DATA_OFFSET + i))
        [0..<DF_PAGESIZE - FS_DATA_OFFSET - sizeof_fs_page] t =
      df_buf_write DF_BUF1 (replicate 509 0xff) 15 t" for t :: fs_t
      using fold_buf_write [of DF_BUF1 "[0xff]" 15 509 t]
      by (simp add: FS_DATA_OFFSET_def DF_PAGESIZE_def sizeof_fs_page_def concat_replicate_single del: upt_rec_numeral)
    then show ?thesis using len
      by (simp add: df_buf_write_def set_buffer_def buffer_def write_wrapped_memcpy T_def
          format_table_def H_def s2_def v_def)
  qed
  define s3 where "s3 = s2\<lparr>buf1 := T, flash := (\<lambda>p. if 1 \<le> p \<and> p \<le> 16 then T else flash s p)\<rparr>"
  have w2: "fold (\<lambda>i. df_buf_save DF_BUF1 (i + 1)) [0..<16] (s2\<lparr>buf1 := T\<rparr>) = s3"
    by (subst fold_save, simp, rule fs_t.equality) (simp_all add: s3_def s2_def v_def cong: if_cong)
  define D where "D = memcpy_at 0 (format_root v (map (junk s) [0..<4])) T"
  have lD: "length D = 528" using lT by (simp add: D_def length_format_root)
  have fr: "format_root s3 d = format_root v d" for d by (simp add: format_root_def s3_def s2_def)
  have w3: "df_buf_write DF_BUF1 (format_root s3 (map (junk s) [0..<4])) 0 s3 = s3\<lparr>buf1 := D\<rparr>"
    unfolding fr using lT
    by (simp add: df_buf_write_def set_buffer_def buffer_def write_wrapped_memcpy D_def s3_def length_format_root)
  define s4 where "s4 = s3\<lparr>buf1 := D, junk := (\<lambda>i. junk s (13 + i))\<rparr>"
  have j3: "take_junk 5 (s3\<lparr>buf1 := D\<rparr>) = (map (junk s) [8..<13], s4)"
    using map_shift_upt [of "junk s" 8 5]
    by (simp add: take_junk_def s4_def s3_def s2_def add.assoc [symmetric] del: upt_rec_numeral)
  define E where "E = memcpy_at 40 (concat (replicate 60 N)) D"
  have lN: "length N = 8" "length (concat (replicate 60 N)) = 480"
    by (simp_all add: N_def length_concat sum_list_replicate)
  have lE: "length E = 528" using lD lN by (simp add: E_def)
  have w4: "fold (\<lambda>i. df_buf_write DF_BUF1 N (FS_ROOTNODE_NODETABLE_OFFSET + i * sizeof_fs_node))
      [0..<FS_NODES_IN_ROOT] s4 = s4\<lparr>buf1 := E\<rparr>"
  proof -
    have "fold (\<lambda>i. df_buf_write DF_BUF1 N (FS_ROOTNODE_NODETABLE_OFFSET + i * sizeof_fs_node))
        [0..<FS_NODES_IN_ROOT] s4 = df_buf_write DF_BUF1 (concat (replicate 60 N)) 40 s4"
      using fold_buf_write [of DF_BUF1 N 40 60 s4] lN(1)
      by (simp add: FS_ROOTNODE_NODETABLE_OFFSET_def sizeof_fs_node_def FS_NODES_IN_ROOT_def del: upt_rec_numeral)
    then show ?thesis using lD lN
      by (simp add: df_buf_write_def set_buffer_def buffer_def write_wrapped_memcpy E_def s4_def)
  qed
  have crc: "fs_crc 0 DF_BUF1 0 FS_CRC_LENGTH (s4\<lparr>buf1 := E\<rparr>) = crc_of E"
    using lE by (simp add: fs_crc_of)
  have w5: "df_buf_write DF_BUF1 [crc_of E] FS_CRC_OFFSET (s4\<lparr>buf1 := E\<rparr>) = s4\<lparr>buf1 := format_root_page v\<rparr>"
    by (simp add: df_buf_write_def set_buffer_def buffer_def FS_CRC_OFFSET_def DF_PAGESIZE_def
        format_root_page_def E_def D_def N_def T_def Let_def v_def)
  have dn: "\<lparr>nd_unused = True, nd_file = False, nd_reserved = 0, nd_inode = 0, nd_name = 0 # map (junk s) [8..<13]\<rparr>
      = empty_node (map (junk s) [8..<13])" by (simp add: empty_node_def)
  have ver: "s\<lparr>version := if version s > 0 then (version s + 1) mod 2 ^ 32 else FS_INITIAL_VERSION\<rparr> = v"
    by (simp add: v_def format_version_def FS_INITIAL_VERSION_def)
  have heap: "heap_ok v" using assms(2) by (simp add: v_def)
  have fin: "(df_buf_save DF_BUF1 0 (s4\<lparr>buf1 := format_root_page v\<rparr>))\<lparr>root := 0\<rparr> =
    v\<lparr>buf1 := format_root_page v, junk := (\<lambda>i. junk s (13 + i)),
    flash := (\<lambda>p. if p = 0 then format_root_page v else if p \<le> 16 then format_table v else flash s p),
    root := 0\<rparr>"
    by (rule fs_t.equality)
      (auto simp: df_buf_save_def buffer_def s4_def s3_def s2_def T_def fun_eq_iff v_def)
  show ?thesis
    unfolding fs_format_def Let_def ver 
    using heap by (simp only: not_True_eq_False if_False j1 j2 prod.case w1 [unfolded H_def] w2 w3 j3 dn
        w4 [unfolded N_def] crc w5 fin simp_thms)
qed

lemma flag12_prefix: "length d = 2 \<Longrightarrow> flag12 (d @ r) i = flag12 d i" "length d = 2 \<Longrightarrow> num12 (d @ r) = num12 d"
  by (simp_all add: flag12_def num12_def un16_def nth_append)

lemma flag12_0: "flag12 d 0 = bit (d ! 0) 0"
proof -
  have "odd (unat (d ! 0)) = bit (d ! 0) 0" by (simp add: bit_unsigned_iff flip: bit_0)
  then show ?thesis by (simp add: flag12_def un16_def)
qed

lemma table_page_empty:
  assumes "length (buf1 s) = 528" "j < 256" "j = 255 \<longrightarrow> bit (buf1 s ! 525) 0"
  shows "in_unused (inode_slot (format_table s) j)" "\<not> pg_root (get_fs_page (format_table s))"
proof -
  define H where "H = put_fs_page ((get_fs_page (map (junk s) [4..<8]))\<lparr>pg_root := False,
      pg_eof := True, pg_unused := False, pg_next_inode := 0x0fff\<rparr>)"
  have T: "format_table s = memcpy_at 15 (replicate 509 0xff) (memcpy_at 0 H (buf1 s))"
    by (simp add: format_table_def H_def)
  have nth: "format_table s ! k = (if k < 4 then H ! k else if 15 \<le> k \<and> k < 524 then 0xff else buf1 s ! k)"
    if "k < 528" for k
    using that assms(1) by (auto simp: T nth_memcpy_at H_def)
  have "slice (15 + j * 2) 2 (format_table s) ! 0 = format_table s ! (15 + j * 2)"
    using assms(1,2) by (intro nth_slice [where i = 0, simplified]) (auto simp: length_format_table)
  moreover have "bit (format_table s ! (15 + j * 2)) 0"
  proof (cases "j = 255")
    case True
    with assms nth [of 525] show ?thesis by simp
  next
    case False
    with assms(2) have "15 + j * 2 < 524" by simp
    then show ?thesis using nth [of "15 + j * 2"] by simp
  qed
  ultimately show "in_unused (inode_slot (format_table s) j)"
    by (simp add: inode_slot_def get_inodetable_node_def flag12_0)
  have "flag12 (format_table s) i = flag12 H i" for i
    by (rule flag12_cong) (use nth in auto)
  then show "\<not> pg_root (get_fs_page (format_table s))"
    unfolding get_fs_page_def H_def put_fs_page_def
    by (simp add: flag12_prefix) (simp add: flag12_flags12 [of 1 "0xfff" _ _ _ _ "[]", simplified])
qed

text \<open>The nodes of the root page and the directory they make up.\<close>

definition node_of :: "u8 list \<Rightarrow> nat \<Rightarrow> fs_node_t" where
  "node_of d i = get_fs_node (slice (40 + i * 8) 8 d)"

definition node_at :: "fs_t \<Rightarrow> nat \<Rightarrow> fs_node_t" where
  "node_at s i = node_of (flash s (root s)) i"

definition dir :: "fs_t \<Rightarrow> fs_node_t list" where
  "dir s = takeWhile (\<lambda>n. \<not> nd_unused n) (map (node_at s) [0..<60])"

lemma read_node_eq:
  "chip_ok s \<Longrightarrow> i \<le> 60 \<Longrightarrow> read_node s i = Some (node_at s i)"
  using chip_okD [of s]
  by (simp add: read_node_def node_at_def node_of_def node_offset_def df_flash_read_def read_wrapped_slice
      FS_ROOTNODE_NODETABLE_OFFSET_def sizeof_fs_node_def DF_PAGESIZE_def)

lemma format_root_page_parts:
  assumes "length (buf1 s) = 528" "version s < 2 ^ 32"
  shows "valid_root (format_root_page s)" "root_version (format_root_page s) = version s"
    "i < 16 \<Longrightarrow> table_slot (format_root_page s) i = i + 1"
    "i < 60 \<Longrightarrow> nd_unused (node_of (format_root_page s) i)"
    "i < 60 \<Longrightarrow> nd_name (node_of (format_root_page s) i) ! 0 = 0"
proof -
  define F where "F = format_root s (map (junk s) [0..<4])"
  define P where "P = put_fs_page ((get_fs_page (map (junk s) [0..<4]))\<lparr>pg_root := True, pg_eof := True,
    pg_unused := False\<rparr>)"
  define N where "N = put_fs_node (empty_node (map (junk s) [8..<13]))"
  define ts where "ts = map (\<lambda>i. le16 (i + 1)) [0..<16]"
  define d where "d = memcpy_at 40 (concat (replicate 60 N)) (memcpy_at 0 F (format_table s))"
  have F: "F = P @ le32 (version s) @ concat ts" "length P = 4"
    by (simp_all add: F_def format_root_def P_def ts_def FS_ROOTNODE_INODETABLE_SIZE_def del: upt_rec_numeral)
  have lF: "length F = 40" by (simp add: F_def length_format_root)
  have lN: "length N = 8" "length (concat (replicate 60 N)) = 480"
    by (simp_all add: N_def length_concat sum_list_replicate)
  have lm: "length (memcpy_at 0 F (format_table s)) = 528"
    using assms(1) lF by (simp add: length_format_table)
  have ld: "length d = 528" using lm lN by (simp add: d_def)
  have R: "format_root_page s = d[527 := crc_of d]"
    by (simp add: format_root_page_def d_def F_def N_def Let_def)
  have nodes: "slice (40 + i * 8) 8 (format_root_page s) = N" if "i < 60" for i
  proof -
    have "slice (40 + i * 8) 8 (format_root_page s) = slice (40 + i * 8) 8 d"
      unfolding R by (rule slice_update_other) (use that ld in auto)
    also have "\<dots> = slice (i * 8) 8 (concat (replicate 60 N))"
      by (rule nth_equalityI) (use that ld lm lN in \<open>auto simp: nth_slice d_def nth_memcpy_at\<close>)
    also have "\<dots> = N" using slice_concat [of "replicate 60 N" 8 i] that lN(1) by simp
    finally show ?thesis .
  qed
  have front: "slice off n (format_root_page s) = slice off n F" if "off + n \<le> 40" for off n
  proof -
    have "slice off n (format_root_page s) = slice off n d"
      unfolding R by (rule slice_update_other) (use that ld in auto)
    also have "\<dots> = slice off n (memcpy_at 0 F (format_table s))"
      unfolding d_def by (rule slice_memcpy_other) (use that lm lN in auto)
    also have "\<dots> = slice off n F"
      by (rule nth_equalityI)
        (use that lF assms(1) in \<open>auto simp: nth_slice nth_memcpy_at length_format_table\<close>)
    finally show ?thesis .
  qed
  have nth: "format_root_page s ! k = F ! k" if "k < 40" for k
    using that lm lN lF assms(1) ld by (auto simp: R d_def nth_memcpy_at length_format_table nth_list_update)
  have "flag12 (format_root_page s) k = flag12 P k" for k
    by (rule flag12_cong) (use nth F in \<open>auto simp: nth_append\<close>)
  then have "\<not> pg_unused (get_fs_page (format_root_page s))" "pg_root (get_fs_page (format_root_page s))"
    unfolding get_fs_page_def P_def put_fs_page_def
    using num12_lt [of "map (junk s) [0..<4]"]
    by (simp_all add: flag12_prefix flag12_flags12 [of _ _ _ _ _ _ "[]", simplified])
  moreover have "crc_of (format_root_page s) = format_root_page s ! 527" using ld by (simp add: R)
  ultimately show "valid_root (format_root_page s)" by (simp add: valid_root_def)
  have "slice 4 4 (format_root_page s) = le32 (version s)"
    unfolding front [of 4 4, simplified] F by (simp add: slice_def F(2))
  then have "drop 4 (format_root_page s) = le32 (version s) @ drop 8 (format_root_page s)"
    by (metis append_take_drop_id drop_drop numeral_Bit0 slice_def)
  then show "root_version (format_root_page s) = version s"
    using assms(2) by (simp add: root_version_def un32_le32)
  show "table_slot (format_root_page s) i = i + 1" if "i < 16"
  proof -
    have "slice (8 + i * 2) 2 (format_root_page s) = slice (i * 2) 2 (concat ts)"
      using that by (simp add: front F slice_append_right)
    also have "\<dots> = le16 (i + 1)"
      using slice_concat [of ts 2 i] that by (simp add: ts_def)
    finally show ?thesis using un16_le16 [of "i + 1" "[]"] that by (simp add: table_slot_def)
  qed
  show "nd_unused (node_of (format_root_page s) i)" "nd_name (node_of (format_root_page s) i) ! 0 = 0" if "i < 60"
    using nodes [OF that] get_put_fs_node [of "empty_node (map (junk s) [8..<13])" "[]"]
    by (simp_all add: node_of_def N_def empty_node_def)
qed

section \<open>Initialising an empty chip\<close>

lemma scan_nothing:
  assumes "chip_ok s" "\<forall>p < 4096. pg_unused (get_fs_page (flash s p)) \<or> \<not> pg_root (get_fs_page (flash s p))" "n \<le> 4096"
  shows "fold scan_page [0..<n] s = s"
  using assms(3)
proof (induction n)
  case (Suc n)
  have "length (flash s n) = 528" "n < 4096" using assms(1) Suc.prems by (auto simp: chip_ok_def)
  moreover have "pg_unused (get_fs_page (flash s n)) \<or> \<not> pg_root (get_fs_page (flash s n))"
    using assms(2) \<open>n < 4096\<close> by blast
  ultimately have "scan_page n s = s" by (auto simp: scan_page_eq)
  with Suc show ?case by simp
qed simp

lemma fold_mark:
  assumes "length (buf2 s) = 528" "\<forall>i < n. t i < 4096"
    and "\<And>u i. flash u = flash s \<Longrightarrow> root u = root s \<Longrightarrow> i < n \<Longrightarrow> tab u i = t i"
  shows "(\<exists>b. length b = 528 \<and> fold (\<lambda>i s. fs_mark (tab s i) False s) [0..<n] s = s\<lparr>buf2 := b\<rparr>) \<and>
    (\<forall>q < 4096. fs_used (fold (\<lambda>i s. fs_mark (tab s i) False s) [0..<n] s) q =
      (fs_used s q \<or> q \<in> t ` {..<n}))"
  using assms(2,3)
proof (induction n)
  case 0
  have "s = s\<lparr>buf2 := buf2 s\<rparr>" by simp
  then show ?case using assms(1) by auto
next
  case (Suc n)
  let ?u = "fold (\<lambda>i s. fs_mark (tab s i) False s) [0..<n] s"
  obtain b where b: "length b = 528" "?u = s\<lparr>buf2 := b\<rparr>" using Suc by auto
  have used: "\<forall>q < 4096. fs_used ?u q = (fs_used s q \<or> q \<in> t ` {..<n})" using Suc by auto
  have tab: "tab ?u n = t n" "t n < 4096" using Suc.prems b(2) by auto
  have step: "fold (\<lambda>i s. fs_mark (tab s i) False s) [0..<Suc n] s = fs_mark (t n) False ?u"
    using tab(1) by simp
  have len: "length (buf2 ?u) = 528" using b by simp
  have "fs_mark (t n) False ?u = s\<lparr>buf2 := buf2 (fs_mark (t n) False ?u)\<rparr>"
    using fs_mark_eq [OF len tab(2), of False] b(2) by simp
  moreover have "length (buf2 (fs_mark (t n) False ?u)) = 528" using len tab(2) by simp
  moreover have "fs_used (fs_mark (t n) False ?u) q = (fs_used s q \<or> q \<in> t ` {..<Suc n})" if "q < 4096" for q
  proof -
    have "fs_used (fs_mark (t n) False ?u) q = (q = t n \<or> fs_used ?u q)"
      unfolding fs_used_mark [OF len tab(2) that] by simp
    also have "\<dots> = (q = t n \<or> fs_used s q \<or> q \<in> t ` {..<n})" using used that by blast
    finally show ?thesis unfolding lessThan_Suc image_insert by blast
  qed
  ultimately show ?case unfolding step
    by (intro conjI exI [of _ "buf2 (fs_mark (t n) False ?u)"] allI impI)
qed

lemma fill_buf2:
  assumes "length (buf2 s) = 528"
  shows "fold (\<lambda>i. df_buf_write DF_BUF2 [0xff] i) [0..<DF_PAGESIZE] s = s\<lparr>buf2 := replicate 528 0xff\<rparr>"
proof -
  have "fold (\<lambda>i. df_buf_write DF_BUF2 [0xff] i) [0..<DF_PAGESIZE] s =
      df_buf_write DF_BUF2 (concat (replicate 528 [0xff])) 0 s"
    using fold_buf_write [of DF_BUF2 "[0xff]" 0 528 s] by (simp add: DF_PAGESIZE_def del: upt_rec_numeral)
  also have "\<dots> = s\<lparr>buf2 := replicate 528 0xff\<rparr>"
    using assms by (simp add: df_buf_write_def set_buffer_def buffer_def write_wrapped_memcpy memcpy_at_def
        concat_replicate_single)
  finally show ?thesis .
qed

lemma unused_all: "buf2 s = replicate 528 0xff \<Longrightarrow> p < 4096 \<Longrightarrow> \<not> fs_used s p"
proof -
  assume b: "buf2 s = replicate 528 0xff" and p: "p < 4096"
  have "bit (0xff :: u8) (p mod 8)"
  proof -
    have "bit (mask 8 :: u8) (p mod 8)" by (simp add: bit_mask_iff)
    moreover have "mask 8 = (0xff :: u8)" by (simp add: mask_eq_exp_minus_1)
    ultimately show ?thesis by metis
  qed
  then show ?thesis using b p by (simp add: used_byte buf2_byte)
qed

lemma mark_nodes_empty:
  assumes "chip_ok s" "\<forall>i < 60. nd_unused (node_at s i)" "i + k \<le> 60"
  shows "mark_nodes i k s = Some s"
  using assms(3)
proof (induction k arbitrary: i)
  case (Suc k)
  then have "read_node s i = Some (node_at s i)" "nd_unused (node_at s i)"
    using assms read_node_eq [OF assms(1), of i] by auto
  with Suc show ?case by simp
qed simp

lemma filter_upt_split:
  assumes "a \<le> b" "b \<le> c" "\<And>q. a \<le> q \<Longrightarrow> q < b \<Longrightarrow> \<not> P q" "\<And>q. b \<le> q \<Longrightarrow> q < c \<Longrightarrow> P q"
  shows "filter P [a..<c] = [b..<c]"
proof -
  have "[a..<c] = [a..<b] @ [b..<c]" using upt_add_eq_append [OF assms(1), of "c - b"] assms(2) by simp
  moreover have "filter P [a..<b] = []" using assms(3) by (auto simp: filter_empty_conv)
  moreover have "filter P [b..<c] = [b..<c]" using assms(4) by (auto simp: filter_id_conv)
  ultimately show ?thesis by simp
qed

lemma fs_init_empty:
  assumes chip: "chip_ok s" and heap: "heap_ok s" and none: "\<forall>p < 4096. pg_unused (get_fs_page (flash s p)) \<or> \<not> pg_root (get_fs_page (flash s p))"
    and slot: "bit (buf1 s ! 525) 0"
  shows "\<exists>s'. fs_init s = Some (FS_OK, s') \<and> fs_ok 4000 s' \<and> dir s' = [] \<and> root s' = 0 \<and>
    free_seq s' = [17..<4096] \<and> (\<forall>i < 60. nd_unused (node_at s' i) \<and> nd_name (node_at s' i) ! 0 = 0) \<and>
    (\<forall>i < 4096. fs_page s' i = BAD)"
proof -
  note cD = chip_okD [OF chip]
  define a where "a = s\<lparr>last_free := 0, buf2 := replicate 528 0xff\<rparr>"
  have fill: "fold (\<lambda>i. df_buf_write DF_BUF2 [0xff] i) [0..<DF_PAGESIZE] (s\<lparr>last_free := 0\<rparr>) = a"
    using fill_buf2 [of "s\<lparr>last_free := 0\<rparr>"] cD(2) by (simp add: a_def)
  define v where "v = a\<lparr>version := 1\<rparr>"
  define R T where "R = format_root_page v" and "T = format_table v"
  define f where "f = v\<lparr>buf1 := R, junk := (\<lambda>i. junk s (13 + i)),
    flash := (\<lambda>p. if p = 0 then R else if p \<le> 16 then T else flash s p), root := 0\<rparr>"
  have av: "chip_ok (a\<lparr>version := 0\<rparr>)" using chip by (simp add: chip_ok_def a_def)
  have "fold scan_page [0..<4096] (a\<lparr>version := 0\<rparr>) = a\<lparr>version := 0\<rparr>"
    by (rule scan_nothing [OF av]) (use none in \<open>auto simp: a_def\<close>)
  moreover have "fs_format (a\<lparr>version := 0\<rparr>) = (FS_OK, f)"
  proof -
    have va: "(a\<lparr>version := 0\<rparr>)\<lparr>version := format_version (a\<lparr>version := 0\<rparr>)\<rparr> = v"
      by (simp add: v_def format_version_def)
    have "length (buf1 (a\<lparr>version := 0\<rparr>)) = 528" "heap_ok (a\<lparr>version := 0\<rparr>)"
      using cD(1) heap by (simp_all add: a_def)
    from fs_format_eq [OF this, unfolded va] show ?thesis
      by (simp add: f_def R_def T_def v_def a_def cong: if_cong)
  qed
  ultimately have scan: "fs_scan a = (FS_OK, f)"
    using heap by (simp add: fs_scan_def Let_def DF_PAGES_def FS_INITIAL_VERSION_def a_def)
  have b1: "length (buf1 v) = 528" "version v < 2 ^ 32" "buf1 v = buf1 s" using cD(1) by (simp_all add: v_def a_def)
  have R: "valid_root R" "root_version R = 1" "length R = 528" "\<And>i. i < 16 \<Longrightarrow> table_slot R i = i + 1"
    "\<And>i. i < 60 \<Longrightarrow> nd_unused (node_of R i) \<and> nd_name (node_of R i) ! 0 = 0"
    using format_root_page_parts [OF b1(1,2)] length_format_root_page [OF b1(1)]
    by (simp_all add: R_def v_def)
  have T: "length T = 528" "\<not> pg_root (get_fs_page T)" "\<And>j. j < 256 \<Longrightarrow> in_unused (inode_slot T j)"
    using length_format_table [OF b1(1)] table_page_empty(1) [OF b1(1)]
      table_page_empty(2) [OF b1(1), of 0] slot by (simp_all add: T_def b1(3))
  have fchip: "chip_ok f" using cD R(3) T(1) by (simp add: chip_ok_def f_def v_def a_def)
  have tab: "fs_inodetable u i = i + 1" if "flash u = flash f" "root u = root f" "i < 16" for u i
    using fs_inodetable_slot [OF fchip that(3)] that R(4) [OF that(3)]
    by (simp add: fs_inodetable_def df_flash_read_def f_def)
  have l2: "length (buf2 f) = 528" by (simp add: f_def v_def a_def)
  define m where "m = fs_mark 0 False f"
  have m: "length (buf2 m) = 528" "flash m = flash f" "root m = root f" using l2 by (simp_all add: m_def)
  define w where "w = fold (\<lambda>i s. fs_mark (fs_inodetable s i) False s) [0..<16] m"
  have fm: "(\<exists>b. length b = 528 \<and> w = m\<lparr>buf2 := b\<rparr>) \<and>
    (\<forall>q < 4096. fs_used w q = (fs_used m q \<or> q \<in> (\<lambda>i. i + 1) ` {..<16}))"
    unfolding w_def by (rule fold_mark [OF m(1)]) (use tab m in auto)
  then obtain b where b: "length b = 528" "w = m\<lparr>buf2 := b\<rparr>" by blast
  have wf: "flash w = flash f" "root w = 0" "version w = 1" "last_free w = 0" "heap_ok w" "length (buf2 w) = 528"
    "buf1 w = buf1 f"
    using b m l2 heap by (simp_all add: m_def) (simp_all add: f_def v_def a_def)
  have img: "(\<lambda>i :: nat. i + 1) ` {..<16} = {1..16}"
    using image_Suc_lessThan [of 16] by simp
  have used: "fs_used w q = (q \<le> 16)" if "q < 4096" for q
  proof -
    have "\<not> fs_used f q" using unused_all [of f q] that by (simp add: f_def v_def a_def)
    then have "fs_used m q = (q = 0)"
      unfolding m_def using fs_used_mark [OF l2 _ that, of 0 False] by simp
    moreover have "fs_used w q = (fs_used m q \<or> q \<in> (\<lambda>i. i + 1) ` {..<16})" using fm that by blast
    ultimately have "fs_used w q = (q = 0 \<or> q \<in> {1..16})" unfolding img by blast
    then show ?thesis by auto
  qed
  have "page_seq 0 = [1..<4096]" by (simp add: page_seq_def del: upt_rec_numeral)
  then have free: "free_seq w = [17..<4096]"
    unfolding free_seq_def wf(4) by (simp only:) (rule filter_upt_split; simp add: used)
  have wchip: "chip_ok w" using fchip wf b by (simp add: chip_ok_def f_def)
  have wtab: "fs_inodetable w i = i + 1" if "i < 16" for i
    using tab [OF wf(1) _ that] wf(2) by (simp add: f_def)
  have nodes: "nd_unused (node_at w i) \<and> nd_name (node_at w i) ! 0 = 0" if "i < 60" for i
    using R(5) [OF that] wf(1,2) by (simp add: node_at_def f_def)
  have pages: "fs_page w i = BAD" if "i < 4096" for i
  proof -
    have d: "i div 256 < 16" "i mod 256 < 256" using that by auto
    have "flash w (page_address (i div 256 + 1)) = T" using d wf(1) by (simp add: f_def)
    then show ?thesis using fs_page_slot [OF wchip that] wtab [OF d(1)] T(3) [OF d(2)] by (simp add: Let_def)
  qed
  have cur: "current_root (flash w) 0"
    unfolding current_def using R(1,2) T(2) none by (auto simp: wf(1) f_def valid_root_def)
  have live: "live w \<subseteq> {0..16} \<union> {BAD}" using wf(2) wtab pages by (auto simp: live_def)
  have "fs_ok 4000 w"
    unfolding fs_ok_def
  proof (intro conjI allI impI)
    show "set (take 4000 (free_seq w)) \<inter> live w = {}"
      using live unfolding free by (auto dest!: in_set_takeD simp: BAD_def simp del: upt_rec_numeral)
  qed (use wchip wf cur R(2) wtab T(2) free in \<open>auto simp: f_def simp del: upt_rec_numeral\<close>)
  moreover have "dir w = []" using nodes by (simp add: dir_def upt_conv_Cons)
  moreover have "fs_init s = Some (FS_OK, w)"
  proof -
    have "root f = 0" by (simp add: f_def)
    then show ?thesis
      using mark_nodes_empty [OF wchip, of 0 60] nodes wf(5)
      by (simp add: fs_init_def Let_def fill scan FS_NODES_IN_ROOT_def flip: m_def w_def)
  qed
  ultimately show ?thesis using wf(2) free nodes pages by blast
qed

end
