(* ===== verification/Fs_Dir.thy ===== *)
theory Fs_Dir imports Fs_Format "HOL-Library.List_Lexorder" begin

text \<open>
  The directory of the dataflash file system.  The abstract view of a directory is the list of
  used nodes, sorted by name, and the map from names to inodes it stands for; fs_create, fs_remove
  and fs_get_inode are shown to work on it.
\<close>

section \<open>Names\<close>

text \<open>The C string in the first \<open>n\<close> bytes, compared as the library compares lists of bytes.\<close>

definition cstr :: "nat \<Rightarrow> u8 list \<Rightarrow> u8 list" where
  "cstr n a = takeWhile (\<lambda>c. c \<noteq> 0) (take n a)"

lemma u8_pos: "(c :: u8) \<noteq> 0 \<Longrightarrow> 0 < c"
  by (simp add: word_neq_0_conv)

lemma strncmp_cstr:
  "strncmp n a b = 0 \<longleftrightarrow> cstr n a = cstr n b" "strncmp n a b < 0 \<longleftrightarrow> cstr n a < cstr n b"
proof (induction n a b rule: strncmp.induct)
  case (2 n a b)
  define x y where "x = (case a of [] \<Rightarrow> 0 | c # _ \<Rightarrow> c)" and "y = (case b of [] \<Rightarrow> 0 | c # _ \<Rightarrow> c)"
  have ca: "cstr (Suc n) a = (if x = 0 then [] else x # cstr n (tl a))"
    by (cases a) (auto simp: cstr_def x_def)
  have cb: "cstr (Suc n) b = (if y = 0 then [] else y # cstr n (tl b))"
    by (cases b) (auto simp: cstr_def y_def)
  have cmp: "strncmp (Suc n) a b = (if x \<noteq> y then int (unat x) - int (unat y) else if x = 0 then 0
      else strncmp n (tl a) (tl b))"
    by (simp add: x_def y_def)
  have lt: "int (unat x) - int (unat y) < 0 \<longleftrightarrow> x < y" "int (unat x) - int (unat y) = 0 \<longleftrightarrow> x = y"
    by (auto simp: word_less_def word_uint_eq_iff)
  have IH: "x = y \<Longrightarrow> x \<noteq> 0 \<Longrightarrow> strncmp n (tl a) (tl b) = 0 \<longleftrightarrow> cstr n (tl a) = cstr n (tl b)"
    "x = y \<Longrightarrow> x \<noteq> 0 \<Longrightarrow> strncmp n (tl a) (tl b) < 0 \<longleftrightarrow> cstr n (tl a) < cstr n (tl b)"
    using 2 by (auto simp: x_def y_def)
  { case 1
    show ?case unfolding ca cb cmp using IH(1) lt(2) by auto
  next
    case 2
    show ?case unfolding ca cb cmp using IH(2) lt(1) u8_pos [of x] u8_pos [of y] by (auto simp: word_gt_0)
  }
qed (simp_all add: cstr_def)

lemma cstr_strncpy: "0 \<notin> set name \<Longrightarrow> cstr 6 (strncpy name 6) = take 6 name"
proof -
  assume "0 \<notin> set name"
  then have nz: "\<forall>c \<in> set (take 6 name). c \<noteq> 0" by (metis in_set_takeD)
  have "take 6 (strncpy name 6) = take 6 name @ replicate (6 - length name) 0"
    by (simp add: strncpy_def min_def)
  then have "cstr 6 (strncpy name 6) = takeWhile (\<lambda>c. c \<noteq> 0) (take 6 name @ replicate (6 - length name) 0)"
    by (simp add: cstr_def)
  also have "\<dots> = take 6 name @ takeWhile (\<lambda>c. c \<noteq> 0) (replicate (6 - length name) 0)"
    using nz by (simp add: takeWhile_append2)
  also have "\<dots> = take 6 name" by (cases "6 - length name") simp_all
  finally show ?thesis .
qed

lemma cstr_name: "0 \<notin> set name \<Longrightarrow> cstr 6 name = take 6 name"
  unfolding cstr_def by (rule takeWhile_eq_all_conv [THEN iffD2]) (metis in_set_takeD)

definition key :: "fs_node_t \<Rightarrow> u8 list" where
  "key x = cstr 6 (nd_name x)"

lemma length_strncpy [simp]: "length (strncpy s n) = n"
  by (simp add: strncpy_def)

section \<open>Nodes as bytes\<close>

lemma le16_un16: "length d = 2 \<Longrightarrow> le16 (un16 d) = d"
proof -
  assume "length d = 2"
  then obtain a b where d: "d = [a, b]"
    by (metis (no_types, opaque_lifting) One_nat_def Suc_1 length_0_conv length_Suc_conv)
  have "unat b < 256" "unat a < 256" by simp_all
  then show ?thesis by (simp add: le16_def un16_def d)
qed

lemma four_bits: "bits4 [odd n, odd (n div 2), odd (n div 4), odd (n div 8)] = n mod 16" for n :: nat
proof -
  have "n mod 16 = 2 * (n div 2 mod 8) + n mod 2" using mod_mult2_eq [of n 2 8] by simp
  moreover have "n div 2 mod 8 = 2 * (n div 4 mod 4) + n div 2 mod 2"
    using mod_mult2_eq [of "n div 2" 2 4] by (simp flip: div_mult2_eq)
  moreover have "n div 4 mod 4 = 2 * (n div 8 mod 2) + n div 4 mod 2"
    using mod_mult2_eq [of "n div 4" 2 2] by (simp flip: div_mult2_eq)
  ultimately have "n mod 16 = n mod 2 + 2 * (n div 2 mod 2) + 4 * (n div 4 mod 2) + 8 * (n div 8 mod 2)"
    by linarith
  then show ?thesis unfolding bits4_cases mod_2_eq_odd by (auto simp: of_bool_def)
qed

lemma put_get_fs_node:
  assumes "length d = 8"
  shows "put_fs_node (get_fs_node d) = d"
proof -
  let ?n = "un16 d"
  have n: "?n < 65536" using unat_u8_lt [of "d ! 0"] unat_u8_lt [of "d ! 1"] unfolding un16_def by linarith
  have res: "odd (nd_reserved (get_fs_node d)) = flag12 d 2" "odd (nd_reserved (get_fs_node d) div 2) = flag12 d 3"
    by (simp_all add: get_fs_node_def)
  have "flags12 [flag12 d 0, flag12 d 1, flag12 d 2, flag12 d 3] (num12 d) =
    le16 (bits4 [odd ?n, odd (?n div 2), odd (?n div 4), odd (?n div 8)] + 16 * (?n div 16 mod 4096))"
    by (simp add: flags12_def flag12_def num12_def flip: bits4_def)
  also have "\<dots> = le16 ?n" using n by (simp add: four_bits)
  also have "\<dots> = take 2 d" using le16_un16 [of "take 2 d"] assms by (simp add: un16_def)
  finally have "flags12 [flag12 d 0, flag12 d 1, flag12 d 2, flag12 d 3] (num12 d) = take 2 d" .
  moreover have "take 6 (drop 2 d) = drop 2 d" using assms by simp
  ultimately show ?thesis unfolding put_fs_node_def res by (simp add: get_fs_node_def)
qed

lemma get_put_fs_node_eq:
  assumes "nd_inode n < 4096" "length (nd_name n) = 6" "nd_reserved n < 4"
  shows "get_fs_node (put_fs_node n @ r) = n"
proof -
  have "nd_reserved n = 0 \<or> nd_reserved n = 1 \<or> nd_reserved n = 2 \<or> nd_reserved n = 3"
    using assms(3) by linarith
  then have "nd_reserved (get_fs_node (put_fs_node n @ r)) = nd_reserved n"
    using assms(1) by (auto simp: get_fs_node_def put_fs_node_def flags12_read)
  with get_put_fs_node [OF assms(1,2)] show ?thesis by simp
qed

definition node_slot :: "u8 list \<Rightarrow> nat \<Rightarrow> u8 list" where
  "node_slot d i = slice (40 + i * 8) 8 d"

lemma node_of_slot: "node_of d i = get_fs_node (node_slot d i)"
  by (simp add: node_of_def node_slot_def)

lemma node_slot_write:
  assumes "length d = 528" "i < 60" "j < 60" "length w = 8"
  shows "node_slot (memcpy_at (40 + j * 8) w d) i = (if i = j then w else node_slot d i)"
proof (cases "i = j")
  case True
  have "slice (40 + j * 8) (length w) (memcpy_at (40 + j * 8) w d) = w"
    by (rule slice_memcpy_at) (use assms in simp)
  then show ?thesis using True assms(4) by (simp add: node_slot_def)
next
  case False
  then have "i + 1 \<le> j \<or> j + 1 \<le> i" by linarith
  then have "40 + i * 8 + 8 \<le> 40 + j * 8 \<or> 40 + j * 8 + length w \<le> 40 + i * 8" using assms(4) by auto
  then have "node_slot (memcpy_at (40 + j * 8) w d) i = node_slot d i"
    unfolding node_slot_def by (intro slice_memcpy_other) (use assms in auto)
  then show ?thesis using False by simp
qed

lemma node_slot_seal: "length d = 528 \<Longrightarrow> i < 60 \<Longrightarrow> node_slot (seal v d) i = node_slot d i"
  unfolding node_slot_def by (rule nth_equalityI) (auto simp: nth_slice nth_seal)

section \<open>The directory as a list\<close>

text \<open>The first \<open>n\<close> nodes of the root page are used, the others are not.\<close>

definition dir_wf :: "fs_t \<Rightarrow> nat \<Rightarrow> bool" where
  "dir_wf s n \<longleftrightarrow> n \<le> 60 \<and> (\<forall>i < n. \<not> nd_unused (node_at s i)) \<and>
    (\<forall>i. n \<le> i \<longrightarrow> i < 60 \<longrightarrow> nd_unused (node_at s i))"

lemma dir_wf_dir: "dir_wf s n \<Longrightarrow> dir s = map (node_at s) [0..<n]"
proof -
  assume wf: "dir_wf s n"
  then have split: "[0..<60] = [0..<n] @ [n..<60]"
    using upt_add_eq_append [of 0 n "60 - n"] by (simp add: dir_wf_def)
  have "takeWhile (\<lambda>x. \<not> nd_unused x) (map (node_at s) [n..<60]) = []"
    using wf by (cases "n < 60") (auto simp: dir_wf_def upt_conv_Cons)
  then show ?thesis using wf unfolding dir_def split map_append
    by (subst takeWhile_append2) (auto simp: dir_wf_def)
qed

lemma dir_wf_unused: "dir_wf s n \<Longrightarrow> n < 60 \<Longrightarrow> nd_unused (node_at s n)"
  by (simp add: dir_wf_def)

lemma create_scan_from:
  assumes "chip_ok s" "dir_wf s n" "n < 60" "i \<le> n"
  shows "create_scan s name i index =
    (let ns = map (node_at s) [i..<n]
     in Some (if \<exists>x \<in> set ns. key x = cstr 6 name then Inl ()
              else Inr (index + length (filter (\<lambda>x. key x < cstr 6 name) ns), n)))"
  using assms(4)
proof (induction "n - i" arbitrary: i index)
  case 0
  then have "i = n" by simp
  then show ?case using read_node_eq [OF assms(1), of n] dir_wf_unused [OF assms(2,3)] assms(3)
    by (subst create_scan.simps) simp
next
  case (Suc d)
  then have i: "i < n" "[i..<n] = i # [i + 1..<n]" by (simp_all add: upt_conv_Cons)
  have rd: "read_node s i = Some (node_at s i)" using read_node_eq [OF assms(1)] i(1) assms(3) by simp
  have used: "\<not> nd_unused (node_at s i)" using assms(2) i(1) by (simp add: dir_wf_def)
  show ?case
    using Suc(1) [of "i + 1"] Suc(2) i rd used
    by (subst create_scan.simps) (simp add: strncmp_cstr FS_FILENAME_def Let_def flip: key_def)
qed

lemma nd_reserved_lt: "nd_reserved (node_of d i) < 4" "nd_inode (node_of d i) < 4096"
  by (simp_all add: node_of_def get_fs_node_def num12_lt)

lemma length_nd_name: "length d = 528 \<Longrightarrow> i < 60 \<Longrightarrow> length (nd_name (node_of d i)) = 6"
  by (simp add: node_of_def get_fs_node_def)

text \<open>Copying nodes one place on or one place back while the old root page is in the flash.\<close>

lemma append_nodes_eq:
  assumes "chip_ok s" "length b = 528" "index + k < 60"
  shows "\<exists>b'. append_nodes index k (s\<lparr>buf1 := b\<rparr>) = Some (s\<lparr>buf1 := b'\<rparr>) \<and> length b' = 528 \<and>
    (\<forall>j < 60. node_slot b' j = (if index < j \<and> j \<le> index + k then node_slot (flash s (root s)) (j - 1)
       else node_slot b j)) \<and> (\<forall>i < 40. b' ! i = b ! i)"
  using assms(2,3)
proof (induction k arbitrary: index b)
  case 0
  then show ?case by auto
next
  case (Suc k)
  let ?w = "node_slot (flash s (root s)) index"
  have len: "length (flash s (root s)) = 528" using chip_okD [OF assms(1)] by simp
  then have lw: "length ?w = 8" using Suc.prems(2) by (simp add: node_slot_def)
  have "chip_ok (s\<lparr>buf1 := b\<rparr>)" using assms(1) Suc.prems(1) by (simp add: chip_ok_def)
  then have rd: "read_node (s\<lparr>buf1 := b\<rparr>) index = Some (node_at s index)"
    using read_node_eq [of "s\<lparr>buf1 := b\<rparr>" index] Suc.prems(2) by (simp add: node_at_def)
  let ?b = "memcpy_at (40 + (index + 1) * 8) ?w b"
  have put: "put_fs_node (node_at s index) = ?w"
    using put_get_fs_node [OF lw] by (simp add: node_at_def node_of_slot)
  have wr: "df_buf_write DF_BUF1 ?w (node_offset (index + 1)) (s\<lparr>buf1 := b\<rparr>) = s\<lparr>buf1 := ?b\<rparr>"
    using Suc.prems lw by (simp add: df_buf_write_def set_buffer_def buffer_def write_wrapped_memcpy
        node_offset_def FS_ROOTNODE_NODETABLE_OFFSET_def sizeof_fs_node_def)
  have lb: "length ?b = 528" using Suc.prems lw by simp
  obtain b' where run: "append_nodes (index + 1) k (s\<lparr>buf1 := ?b\<rparr>) = Some (s\<lparr>buf1 := b'\<rparr>)" "length b' = 528"
    and slots: "\<forall>j < 60. node_slot b' j = (if index + 1 < j \<and> j \<le> index + 1 + k
      then node_slot (flash s (root s)) (j - 1) else node_slot ?b j)"
    and front: "\<forall>i < 40. b' ! i = ?b ! i"
    using Suc.IH [OF lb, of "index + 1"] Suc.prems(2) by auto
  have "node_slot b' j = (if index < j \<and> j \<le> index + Suc k then node_slot (flash s (root s)) (j - 1)
      else node_slot b j)" if "j < 60" for j
    using slots that node_slot_write [OF Suc.prems(1) that _ lw, of "index + 1"] Suc.prems(2)
    by (cases "j = index + 1") auto
  moreover have "b' ! i = b ! i" if "i < 40" for i
    using front that Suc.prems lw by (simp add: nth_memcpy_at)
  ultimately show ?case using rd put wr run by auto
qed

text \<open>
  Committing a root page that differs from the current one only behind its inode tables: one
  allocation, and the inode table is as before.
\<close>

lemma commit_root:
  assumes ok: "fs_ok K s" and K: "1 \<le> K" and b: "length b = 528" "\<forall>i < 40. b ! i = flash s (root s) ! i"
  shows "\<exists>s'. fs_increment (s\<lparr>buf1 := b\<rparr>) = Some (FS_OK, s') \<and> fs_ok (K - 1) s' \<and>
    flash s' (root s') = seal (version s + 1) b \<and>
    (\<forall>i < 4096. fs_page s' i = fs_page s i) \<and>
    take (K - 1) (free_seq s') = drop 1 (take K (free_seq s)) \<and>
    (\<forall>p. p \<notin> set (take 1 (free_seq s)) \<longrightarrow> flash s' p = flash s p)"
proof -
  note okD = fs_okD [OF ok] and chip = chip_okD [OF fs_okD(1) [OF ok]]
  obtain n ns where seq: "free_seq s = n # ns" using okD(8) K by (cases "free_seq s") auto
  obtain L where KL: "K = Suc L" using K by (cases K) auto
  let ?t = "s\<lparr>buf1 := b\<rparr>" and ?R = "seal (version s + 1) b"
  define s' where "s' = s\<lparr>buf1 := ?R, version := version s + 1, last_free := n, flash := (flash s)(n := ?R), root := n\<rparr>"
  have seqt: "free_seq ?t = n # ns" using seq free_seq_cong [of ?t s] by simp
  have inc: "fs_increment ?t = Some (FS_OK, ?t\<lparr>version := version ?t + 1,
      buf1 := seal (version ?t + 1) (buf1 ?t), last_free := n,
      flash := (flash ?t)(n := seal (version ?t + 1) (buf1 ?t)), root := n\<rparr>)"
    by (rule fs_increment_eq [OF _ _ _ _ seqt]) (use b okD(2,5) chip(5) KL in auto)
  have run: "fs_increment ?t = Some (FS_OK, s')"
    unfolding inc by (simp add: s'_def)
  have n: "n < 4096" using free_seq_lt [of n s] chip(5) seq by simp
  have notlive: "n \<notin> live s" "\<And>p. p \<in> set (take L ns) \<Longrightarrow> p \<notin> live s"
    using okD(9) by (auto simp: seq KL)
  have lr: "length (flash s (root s)) = 528" using chip by simp
  have hdr: "flag12 b i = flag12 (flash s (root s)) i" for i
    by (rule flag12_cong) (use b in auto)
  have "valid_root (flash s (root s))" using okD(3) by (simp add: current_def)
  then have "\<not> pg_unused (get_fs_page b)" "pg_root (get_fs_page b)"
    using hdr by (auto simp: valid_root_def get_fs_page_def)
  with seal_valid [OF b(1)] okD(5) K have R: "valid_root ?R" "root_version ?R = version s + 1" by auto
  have chip': "chip_ok s'" using chip n b(1) by (auto simp: chip_ok_def s'_def)
  have slots: "table_slot ?R i = table_slot (flash s (root s)) i" if "i < 16" for i
  proof -
    have "slice (8 + i * 2) 2 ?R = slice (8 + i * 2) 2 (flash s (root s))"
      by (rule nth_equalityI) (use that b lr in \<open>auto simp: nth_slice nth_seal\<close>)
    then show ?thesis by (simp add: table_slot_def)
  qed
  have tbl: "fs_inodetable s' i = fs_inodetable s i" if "i < 16" for i
    using that fs_inodetable_slot [OF chip' that] fs_inodetable_slot [OF okD(1) that] slots [OF that]
    by (simp add: s'_def)
  have tp: "flash s' (fs_inodetable s' i) = flash s (fs_inodetable s i)" if "i < 16" for i
  proof -
    have "fs_inodetable s i \<in> live s" using that by (simp add: live_def)
    with notlive have "fs_inodetable s i \<noteq> n" by auto
    then show ?thesis by (simp add: tbl [OF that]) (simp add: s'_def)
  qed
  have pages: "fs_page s' i = fs_page s i" if i: "i < 4096" for i
  proof -
    have d: "i div 256 < 16" using i by auto
    then show ?thesis
      using fs_page_slot [OF chip' i] fs_page_slot [OF okD(1) i] tbl [OF d] tp [OF d] okD(6) [OF d] by simp
  qed
  have cur: "current_root (flash s') n"
    using roots.current_commit [OF okD(3) n R(1)] R(2) okD(4) by (simp add: s'_def)
  have seq': "\<exists>xs. free_seq s' = ns @ xs"
    using free_seq_next [OF seq chip(5), of s'] by (simp add: s'_def)
  then obtain xs where xs: "free_seq s' = ns @ xs" by blast
  have len: "L \<le> length ns" using okD(8) seq KL by simp
  have live': "live s' \<subseteq> {n} \<union> live s"
    unfolding live_def using tbl pages by (auto simp: s'_def)
  have "set (take L ns) \<inter> live s' = {}"
    using live' notlive(2) distinct_free_seq [of s] seq by (auto dest: in_set_takeD)
  then have "fs_ok L s'"
    unfolding fs_ok_def using chip' okD(2,5) cur R(2) tbl tp okD(6,7) xs len KL
    by (auto simp: s'_def)
  with run pages xs len KL seq show ?thesis by (intro exI [of _ s']) (auto simp: s'_def)
qed

lemma dir_wf_cong:
  assumes "\<And>i. i < 60 \<Longrightarrow> node_slot (flash s' (root s')) i = node_slot (flash s (root s)) i"
  shows "dir_wf s' n = dir_wf s n" "dir s' = dir s"
proof -
  have *: "node_at s' i = node_at s i" if "i < 60" for i
    using assms [OF that] by (simp add: node_at_def node_of_slot)
  then show "dir_wf s' n = dir_wf s n" by (auto simp: dir_wf_def)
  have "map (node_at s') [0..<60] = map (node_at s) [0..<60]" by (rule map_cong [OF refl]) (simp add: *)
  then show "dir s' = dir s" by (simp only: dir_def)
qed

section \<open>Free inodes\<close>

lemma new_inode_in_eq:
  assumes "length (flash s (page_address page)) = 528" "j + k \<le> 256"
  shows "new_inode_in s page j k =
    find (\<lambda>j. in_unused (inode_slot (flash s (page_address page)) j)) [j..<j + k]"
  using assms(2)
proof (induction k arbitrary: j)
  case (Suc k)
  have "df_flash_read page (FS_DATA_OFFSET + j * 2) 2 s = slice (15 + j * 2) 2 (flash s (page_address page))"
    using assms(1) Suc.prems by (simp add: df_flash_read_def read_wrapped_slice FS_DATA_OFFSET_def)
  then show ?case using Suc.IH [of "j + 1"] Suc.prems
    by (simp add: upt_conv_Cons inode_slot_def del: upt_Suc)
qed simp

lemma find_append_case: "find P (xs @ ys) = (case find P xs of Some x \<Rightarrow> Some x | None \<Rightarrow> find P ys)"
  by (induction xs) auto

lemma find_map_shift: "find P [a..<a + n] = map_option (\<lambda>j. a + j) (find (\<lambda>j. P (a + j)) [0..<n])"
  for a :: nat
proof (induction n)
  case (Suc n)
  then show ?case by (simp add: find_append_case split: option.split)
qed simp

lemma new_inode_tables_eq:
  assumes "chip_ok s" "\<And>i. i < 16 \<Longrightarrow> fs_inodetable s i < 4096" "i + k \<le> 16"
  shows "new_inode_tables s i k =
    (case find (\<lambda>x. fs_page s x = BAD) [i * 256..<(i + k) * 256] of Some x \<Rightarrow> x | None \<Rightarrow> BAD)"
  using assms(3)
proof (induction k arbitrary: i)
  case (Suc k)
  then have i: "i < 16" by simp
  have unused: "in_unused (inode_slot (flash s (page_address (fs_inodetable s i))) j) =
      (fs_page s (i * 256 + j) = BAD)" if "j < 256" for j
  proof -
    have x: "i * 256 + j < 4096" "(i * 256 + j) div 256 = i" "(i * 256 + j) mod 256 = j" using i that by auto
    have "in_page (inode_slot d j) \<noteq> BAD" for d
      using num12_lt [of "slice (15 + j * 2) 2 d"] by (simp add: inode_slot_def get_inodetable_node_def BAD_def)
    then show ?thesis using fs_page_slot [OF assms(1) x(1)] x assms(2) [OF i] by (simp add: Let_def)
  qed
  have len: "length (flash s (page_address p)) = 528" for p
    using chip_okD(3) [OF assms(1)] by simp
  have "find (\<lambda>j. in_unused (inode_slot (flash s (page_address (fs_inodetable s i))) j)) [0..<0 + 256] =
    find (\<lambda>j. fs_page s (i * 256 + j) = BAD) [0..<256]"
    by (rule find_cong) (use unused in auto)
  then have here: "new_inode_in s (fs_inodetable s i) 0 256 = find (\<lambda>j. fs_page s (i * 256 + j) = BAD) [0..<256]"
    by (simp add: new_inode_in_eq len del: upt_rec_numeral)
  have "[i * 256..<(i + Suc k) * 256] = [i * 256..<i * 256 + 256] @ [(i + 1) * 256..<(i + 1 + k) * 256]"
    using upt_add_eq_append [of "i * 256" "i * 256 + 256" "k * 256"] by (simp add: algebra_simps del: upt_rec_numeral)
  then have "find (\<lambda>x. fs_page s x = BAD) [i * 256..<(i + Suc k) * 256] =
    (case map_option (\<lambda>j. i * 256 + j) (find (\<lambda>j. fs_page s (i * 256 + j) = BAD) [0..<256]) of
       Some x \<Rightarrow> Some x
     | None \<Rightarrow> find (\<lambda>x. fs_page s x = BAD) [(i + 1) * 256..<(i + 1 + k) * 256])"
    by (simp only: find_append_case find_map_shift)
  then show ?case using Suc.IH [of "i + 1"] Suc.prems here
    by (simp add: FS_INODES_PER_TABLE_def del: upt_rec_numeral split: option.split)
qed simp

lemma fs_new_inode_eq:
  assumes "fs_ok K s"
  shows "fs_new_inode s = (case find (\<lambda>x. fs_page s x = BAD) [0..<4096] of Some x \<Rightarrow> x | None \<Rightarrow> BAD)"
  using new_inode_tables_eq [OF fs_okD(1) fs_okD(6), OF assms assms, of 0 16]
  by (simp add: fs_new_inode_def FS_ROOTNODE_INODETABLE_SIZE_def del: upt_rec_numeral)

lemma fs_new_inode_cong:
  assumes "fs_ok K s" "fs_ok L s'" "\<And>i. i < 4096 \<Longrightarrow> fs_page s' i = fs_page s i"
  shows "fs_new_inode s' = fs_new_inode s"
proof -
  have "find (\<lambda>x. fs_page s' x = BAD) [0..<4096] = find (\<lambda>x. fs_page s x = BAD) [0..<4096]"
    by (rule find_cong) (simp_all add: assms(3) del: upt_rec_numeral)
  then show ?thesis by (simp only: fs_new_inode_eq [OF assms(1)] fs_new_inode_eq [OF assms(2)])
qed

section \<open>Creating a file\<close>

lemma insort_key_take_drop:
  assumes "sorted (map f xs)" "f x \<notin> f ` set xs"
  shows "insort_key f x xs =
    (let k = length (filter (\<lambda>y. f y < f x) xs) in take k xs @ x # drop k xs)"
  using assms
proof (induction xs)
  case (Cons y ys)
  then have ne: "f y \<noteq> f x" by auto
  show ?case
  proof (cases "f y < f x")
    case True
    then have "\<not> f x \<le> f y" by simp
    with Cons True show ?thesis by (simp add: Let_def)
  next
    case False
    then have "f x < f y" using ne by (simp add: not_less order_less_le)
    then have "filter (\<lambda>z. f z < f x) ys = []" using Cons.prems(1) by (auto simp: filter_empty_conv not_less intro: order_trans)
    moreover have "f x \<le> f y" using \<open>f x < f y\<close> by simp
    ultimately show ?thesis using False by simp
  qed
qed simp

text \<open>The new list of nodes, by position.\<close>

lemma node_list_insert:
  assumes "k \<le> n" "\<And>j. j \<le> n \<Longrightarrow> g j = (if j < k then f j else if j = k then x else f (j - 1))"
  shows "map g [0..<n + 1] = take k (map f [0..<n]) @ x # drop k (map f [0..<n])"
proof (rule nth_equalityI)
  fix i assume "i < length (map g [0..<n + 1])"
  then have "i \<le> n" by simp
  then show "map g [0..<n + 1] ! i = (take k (map f [0..<n]) @ x # drop k (map f [0..<n])) ! i"
    using assms by (auto simp: nth_append nth_Cons' not_less simp del: upt_Suc)
qed (use assms(1) in simp)

definition new_file :: "fs_t \<Rightarrow> u8 list \<Rightarrow> nat \<Rightarrow> fs_node_t" where
  "new_file s name n = (node_at s n)\<lparr>nd_name := strncpy name 6, nd_unused := False, nd_file := True,
     nd_inode := fs_new_inode s mod 4096\<rparr>"

lemma fs_create_step:
  assumes ok: "fs_ok K s" and K: "1 \<le> K" and wf: "dir_wf s n" and n: "n < 60"
    and new: "cstr 6 name \<notin> key ` set (dir s)"
  shows "\<exists>s'. fs_create name s = Some (FS_OK, s') \<and> fs_ok (K - 1) s' \<and> dir_wf s' (n + 1) \<and>
    dir s' = (let k = length (filter (\<lambda>x. key x < cstr 6 name) (dir s))
              in take k (dir s) @ new_file s name n # drop k (dir s)) \<and>
    (\<forall>i < 4096. fs_page s' i = fs_page s i) \<and>
    take (K - 1) (free_seq s') = drop 1 (take K (free_seq s)) \<and>
    (\<forall>j. n < j \<longrightarrow> j < 60 \<longrightarrow> node_at s' j = node_at s j) \<and>
    (\<forall>p \<in> live s. flash s' p = flash s p)"
proof -
  note okD = fs_okD [OF ok] and chip = chip_okD [OF fs_okD(1) [OF ok]]
  have dir: "dir s = map (node_at s) [0..<n]" by (rule dir_wf_dir [OF wf])
  define k where "k = length (filter (\<lambda>x. key x < cstr 6 name) (dir s))"
  have k: "k \<le> n" using length_filter_le [of _ "dir s"] by (auto simp: k_def dir)
  have nodup: "\<not> (\<exists>x \<in> set (map (node_at s) [0..<n]). key x = cstr 6 name)"
    using new unfolding dir by (metis imageI)
  have scan: "create_scan s name 0 0 = Some (Inr (k, n))"
    using create_scan_from [OF okD(1) wf n, of 0 name 0] nodup by (simp add: k_def dir Let_def)
  have last: "read_node s n = Some (node_at s n)" using read_node_eq [OF okD(1)] n by simp
  define x where "x = new_file s name n"
  define w where "w = put_fs_node x"
  define R where "R = flash s (root s)"
  have lR: "length R = 528" using chip by (simp add: R_def)
  have inode: "nd_inode x < 4096" by (simp add: x_def new_file_def)
  have lw: "length w = 8" by (simp add: w_def x_def new_file_def)
  have getw: "get_fs_node w = x"
    using get_put_fs_node_eq [of x "[]"] inode nd_reserved_lt(1) [of "flash s (root s)" n]
    by (simp add: w_def x_def new_file_def node_at_def)
  define b where "b = memcpy_at (40 + k * 8) w R"
  have lb: "length b = 528" using lR lw k n by (simp add: b_def)
  have load: "df_buf_load DF_BUF1 (root s) s = s\<lparr>buf1 := R\<rparr>"
    using chip(4) by (simp add: chip_defs R_def)
  have wr: "df_buf_write DF_BUF1 w (node_offset k) (s\<lparr>buf1 := R\<rparr>) = s\<lparr>buf1 := b\<rparr>"
    using lR lw k n by (simp add: df_buf_write_def set_buffer_def buffer_def write_wrapped_memcpy
        node_offset_def FS_ROOTNODE_NODETABLE_OFFSET_def sizeof_fs_node_def b_def)
  obtain b' where app: "append_nodes k (n - k) (s\<lparr>buf1 := b\<rparr>) = Some (s\<lparr>buf1 := b'\<rparr>)" "length b' = 528"
    and slots: "\<forall>j < 60. node_slot b' j = (if k < j \<and> j \<le> k + (n - k)
      then node_slot (flash s (root s)) (j - 1) else node_slot b j)"
    and front: "\<forall>i < 40. b' ! i = b ! i"
    using append_nodes_eq [OF okD(1) lb, of k "n - k"] k n by auto
  have "\<forall>i < 40. b' ! i = flash s (root s) ! i"
    using front lR lw k n by (simp add: b_def nth_memcpy_at flip: R_def)
  then obtain s' where inc: "fs_increment (s\<lparr>buf1 := b'\<rparr>) = Some (FS_OK, s')" "fs_ok (K - 1) s'"
    and root': "flash s' (root s') = seal (version s + 1) b'"
    and pages: "\<forall>i < 4096. fs_page s' i = fs_page s i"
    and seq: "take (K - 1) (free_seq s') = drop 1 (take K (free_seq s))"
    and kept: "\<forall>p. p \<notin> set (take 1 (free_seq s)) \<longrightarrow> flash s' p = flash s p"
    using commit_root [OF ok K app(2)] by blast
  have "p \<notin> set (take 1 (free_seq s))" if "p \<in> live s" for p
    using okD(9) [of p] that set_take_subset_set_take [OF K, of "free_seq s"] by blast
  with kept have kept: "\<forall>p \<in> live s. flash s' p = flash s p" by blast
  have at: "node_at s' j = (if j < k then node_at s j else if j = k then x
      else if j \<le> n then node_at s (j - 1) else node_at s j)" if "j < 60" for j
  proof -
    have "node_at s' j = get_fs_node (node_slot b' j)"
      by (simp add: node_at_def root' node_of_slot node_slot_seal app(2) that)
    also have "node_slot b' j = (if k < j \<and> j \<le> n then node_slot R (j - 1)
        else if j = k then w else node_slot R j)"
      using slots that k n node_slot_write [OF lR that _ lw, of k] by (auto simp: b_def R_def)
    finally show ?thesis using getw by (auto simp: node_at_def node_of_slot R_def)
  qed
  have run: "fs_create name s = Some (FS_OK, s')"
    using okD(2) scan last app inc inode
    by (simp add: fs_create_def load wr [unfolded w_def x_def new_file_def] Let_def BAD_def
        FS_FILENAME_def x_def new_file_def)
  have wf': "dir_wf s' (n + 1)"
    using wf at n k by (auto simp: dir_wf_def x_def new_file_def)
  have "dir s' = map (node_at s') [0..<n + 1]" by (rule dir_wf_dir [OF wf'])
  also have "\<dots> = take k (dir s) @ x # drop k (dir s)"
    unfolding dir by (rule node_list_insert [OF k]) (use at n in auto)
  finally have "dir s' = take k (dir s) @ x # drop k (dir s)" .
  moreover have "\<forall>j. n < j \<longrightarrow> j < 60 \<longrightarrow> node_at s' j = node_at s j" using at k by simp
  ultimately show ?thesis
    using run inc(2) wf' pages seq kept unfolding k_def x_def Let_def by (intro exI [of _ s'] conjI) assumption+
qed

end
