(* ===== verification/Fs_Remove.thy ===== *)
theory Fs_Remove imports Fs_Dir begin

text \<open>
  Removing a file and looking one up.
\<close>

lemma remove_scan_from:
  assumes "chip_ok s" "dir_wf s n" "n < 60" "i \<le> n" "n - i < k"
  shows "remove_scan s name i k found =
    Some (n, fold (\<lambda>j f. if key (node_at s j) = cstr 6 name then (j, nd_inode (node_at s j)) else f) [i..<n] found)"
  using assms(4,5)
proof (induction k arbitrary: i found)
  case (Suc k)
  have rd: "read_node s i = Some (node_at s i)" using read_node_eq [OF assms(1)] Suc.prems(1) assms(3) by simp
  show ?case
  proof (cases "i = n")
    case True
    then show ?thesis using rd dir_wf_unused [OF assms(2,3)] by simp
  next
    case False
    then have i: "i < n" "[i..<n] = i # [i + 1..<n]" using Suc.prems(1) by (simp_all add: upt_conv_Cons)
    have "\<not> nd_unused (node_at s i)" using assms(2) i(1) by (simp add: dir_wf_def)
    then show ?thesis using Suc.IH [of "i + 1"] Suc.prems i rd
      by (simp add: strncmp_cstr FS_FILENAME_def flip: key_def)
  qed
qed simp

lemma fold_unique:
  assumes "\<And>j. j \<in> set js \<Longrightarrow> P j \<longleftrightarrow> j = i" "i \<in> set js"
  shows "fold (\<lambda>j f. if P j then g j else f) js z = g i"
  using assms
proof (induction js rule: rev_induct)
  case (snoc x xs)
  then show ?case by (cases "i \<in> set xs") auto
qed simp

lemma fold_none: "(\<And>j. j \<in> set js \<Longrightarrow> \<not> P j) \<Longrightarrow> fold (\<lambda>j f. if P j then g j else f) js z = z"
  by (induction js) auto

lemma move_nodes_eq:
  assumes "chip_ok s" "length b = 528" "index + k < 60"
  shows "\<exists>b'. move_nodes index k node (s\<lparr>buf1 := b\<rparr>) =
      Some (if k = 0 then node else node_at s (index + k), s\<lparr>buf1 := b'\<rparr>) \<and> length b' = 528 \<and>
    (\<forall>j < 60. node_slot b' j = (if index \<le> j \<and> j < index + k then node_slot (flash s (root s)) (j + 1)
       else node_slot b j)) \<and> (\<forall>i < 40. b' ! i = b ! i)"
  using assms(2,3)
proof (induction k arbitrary: index b node)
  case 0
  then show ?case by auto
next
  case (Suc k)
  let ?w = "node_slot (flash s (root s)) (index + 1)"
  have len: "length (flash s (root s)) = 528" using chip_okD [OF assms(1)] by simp
  then have lw: "length ?w = 8" using Suc.prems(2) by (simp add: node_slot_def)
  have "chip_ok (s\<lparr>buf1 := b\<rparr>)" using assms(1) Suc.prems(1) by (simp add: chip_ok_def)
  then have rd: "read_node (s\<lparr>buf1 := b\<rparr>) (index + 1) = Some (node_at s (index + 1))"
    using read_node_eq [of "s\<lparr>buf1 := b\<rparr>" "index + 1"] Suc.prems(2) by (simp add: node_at_def)
  let ?b = "memcpy_at (40 + index * 8) ?w b"
  have put: "put_fs_node (node_at s (index + 1)) = ?w"
    using put_get_fs_node [OF lw] by (simp add: node_at_def node_of_slot)
  have wr: "df_buf_write DF_BUF1 ?w (node_offset index) (s\<lparr>buf1 := b\<rparr>) = s\<lparr>buf1 := ?b\<rparr>"
    using Suc.prems lw by (simp add: df_buf_write_def set_buffer_def buffer_def write_wrapped_memcpy
        node_offset_def FS_ROOTNODE_NODETABLE_OFFSET_def sizeof_fs_node_def)
  have lb: "length ?b = 528" using Suc.prems lw by simp
  obtain b' where run: "move_nodes (index + 1) k (node_at s (index + 1)) (s\<lparr>buf1 := ?b\<rparr>) =
      Some (if k = 0 then node_at s (index + 1) else node_at s (index + 1 + k), s\<lparr>buf1 := b'\<rparr>)" "length b' = 528"
    and slots: "\<forall>j < 60. node_slot b' j = (if index + 1 \<le> j \<and> j < index + 1 + k
      then node_slot (flash s (root s)) (j + 1) else node_slot ?b j)"
    and front: "\<forall>i < 40. b' ! i = ?b ! i"
    using Suc.IH [OF lb, of "index + 1" "node_at s (index + 1)"] Suc.prems(2) by fastforce
  have "node_slot b' j = (if index \<le> j \<and> j < index + Suc k then node_slot (flash s (root s)) (j + 1)
      else node_slot b j)" if "j < 60" for j
    using slots that node_slot_write [OF Suc.prems(1) that _ lw, of index] Suc.prems(2)
    by (cases "j = index") auto
  moreover have "b' ! i = b ! i" if "i < 40" for i
    using front that Suc.prems lw by (simp add: nth_memcpy_at)
  ultimately show ?case using rd put wr run by (auto simp: Let_def)
qed

lemma node_list_delete:
  assumes "k < n" "\<And>j. j + 1 < n \<Longrightarrow> g j = (if j < k then f j else f (j + 1))"
  shows "map g [0..<n - 1] = take k (map f [0..<n]) @ drop (k + 1) (map f [0..<n])"
  by (rule nth_equalityI) (use assms in \<open>auto simp: nth_append\<close>)

lemma remove_key:
  assumes "k < length xs" "\<And>j. j < length xs \<Longrightarrow> P (xs ! j) \<longleftrightarrow> j = k"
  shows "filter (\<lambda>x. \<not> P x) xs = take k xs @ drop (k + 1) xs"
proof -
  have xs: "xs = take k xs @ xs ! k # drop (k + 1) xs" using id_take_nth_drop [OF assms(1)] by simp
  have "filter (\<lambda>x. \<not> P x) (take k xs) = take k xs"
    using assms by (auto simp: filter_id_conv in_set_conv_nth)
  moreover have "filter (\<lambda>x. \<not> P x) (drop (k + 1) xs) = drop (k + 1) xs"
    using assms by (auto simp: filter_id_conv in_set_conv_nth)
  moreover have "P (xs ! k)" using assms by simp
  ultimately show ?thesis by (subst xs) simp
qed

lemma fs_remove_step:
  assumes ok: "fs_ok K s" and K: "3 \<le> K" and wf: "dir_wf s n" and n: "n < 60"
    and dist: "distinct (map key (dir s))" and i: "i < n" and name: "key (node_at s i) = cstr 6 name"
  shows "\<exists>s'. fs_remove name s = Some (FS_OK, s') \<and> fs_ok (K - 3) s' \<and> dir_wf s' (n - 1) \<and>
    dir s' = filter (\<lambda>x. key x \<noteq> cstr 6 name) (dir s) \<and>
    node_at s' (n - 1) = (if i < n - 1 then node_at s (n - 1) else node_at s n)\<lparr>nd_unused := True\<rparr> \<and>
    (\<forall>j < 4096. fs_page s' j = (if j = nd_inode (node_at s i) then BAD else fs_page s j)) \<and>
    take (K - 3) (free_seq s') = drop 3 (take K (free_seq s))"
proof -
  note okD = fs_okD [OF ok] and chip = chip_okD [OF fs_okD(1) [OF ok]]
  have dir: "dir s = map (node_at s) [0..<n]" by (rule dir_wf_dir [OF wf])
  have uniq: "key (node_at s j) = cstr 6 name \<longleftrightarrow> j = i" if "j < n" for j
    using nth_eq_iff_index_eq [OF dist, of j i] that i name by (auto simp: dir)
  define z where "z = nd_inode (node_at s i)"
  have z: "z < 4096" using nd_reserved_lt(2) by (simp add: z_def node_at_def)
  have scan: "remove_scan s name 0 62 (BAD, BAD) = Some (n, i, z)"
    using remove_scan_from [OF okD(1) wf n, of 0 62 name "(BAD, BAD)"] n
      fold_unique [of "[0..<n]" "\<lambda>j. key (node_at s j) = cstr 6 name" i "\<lambda>j. (j, nd_inode (node_at s j))"] uniq i
    by (simp add: z_def)
  have last: "read_node s n = Some (node_at s n)" using read_node_eq [OF okD(1)] n by simp
  define R where "R = flash s (root s)"
  have lR: "length R = 528" using chip by (simp add: R_def)
  have load: "df_buf_load DF_BUF1 (root s) s = s\<lparr>buf1 := R\<rparr>"
    using chip(4) by (simp add: chip_defs R_def)
  define l where "l = (if n - 1 - i = 0 then node_at s n else node_at s (i + (n - 1 - i)))"
  obtain b where mv: "move_nodes i (n - 1 - i) (node_at s n) (s\<lparr>buf1 := R\<rparr>) = Some (l, s\<lparr>buf1 := b\<rparr>)"
    and lb: "length b = 528"
    and slots: "\<forall>j < 60. node_slot b j = (if i \<le> j \<and> j < i + (n - 1 - i)
      then node_slot R (j + 1) else node_slot R j)"
    and front: "\<forall>j < 40. b ! j = R ! j"
  proof -
    have "i + (n - 1 - i) < 60" using i n by simp
    from move_nodes_eq [OF okD(1) lR this, of "node_at s n"] show thesis
      unfolding l_def R_def by (elim exE conjE) (rule that [unfolded R_def l_def])
  qed
  define x where "x = l\<lparr>nd_unused := True\<rparr>"
  define w where "w = put_fs_node x"
  have l: "nd_inode l < 4096" "nd_reserved l < 4" "length (nd_name l) = 6"
    using nd_reserved_lt length_nd_name [OF lR] i n by (auto simp: l_def node_at_def simp flip: R_def)
  then have lw: "length w = 8" by (simp add: w_def x_def)
  have getw: "get_fs_node w = x"
    using get_put_fs_node_eq [of x "[]"] l by (simp add: w_def x_def)
  define c where "c = memcpy_at (40 + (n - 1) * 8) w b"
  have lc: "length c = 528" using lb lw n by (simp add: c_def)
  have wr: "df_buf_write DF_BUF1 w (node_offset (n - 1)) (s\<lparr>buf1 := b\<rparr>) = s\<lparr>buf1 := c\<rparr>"
    using lb lw n by (simp add: df_buf_write_def set_buffer_def buffer_def write_wrapped_memcpy
        node_offset_def FS_ROOTNODE_NODETABLE_OFFSET_def sizeof_fs_node_def c_def)
  have "\<forall>j < 40. c ! j = flash s (root s) ! j"
    using front lb lw n by (simp add: c_def nth_memcpy_at flip: R_def)
  then obtain s1 where inc: "fs_increment (s\<lparr>buf1 := c\<rparr>) = Some (FS_OK, s1)" "fs_ok (K - 1) s1"
    and root1: "flash s1 (root s1) = seal (version s + 1) c"
    and pages1: "\<forall>i < 4096. fs_page s1 i = fs_page s i"
    and seq1: "take (K - 1) (free_seq s1) = drop 1 (take K (free_seq s))"
    using commit_root [OF ok _ lc] K by auto
  have "BAD \<notin> set (drop 2 (take (K - 1) (free_seq s1)))"
  proof
    assume "BAD \<in> set (drop 2 (take (K - 1) (free_seq s1)))"
    then have "BAD \<in> set (free_seq s1)" by (meson in_set_dropD in_set_takeD)
    then show False using free_seq_lt chip_okD(5) [OF fs_okD(1) [OF inc(2)]] by (force simp: BAD_def)
  qed
  then obtain s' where upd: "fs_update_inodetable z BAD s1 = Some (FS_OK, s')" "updated (K - 1) z BAD s1 s'"
  proof -
    have "2 \<le> K - 1" using K by simp
    from fs_update_step [OF inc(2) this z _ \<open>BAD \<notin> _\<close>] show thesis using that by blast
  qed
  have same: "node_slot (flash s' (root s')) j = node_slot (flash s1 (root s1)) j" if "j < 60" for j
    using upd(2) that by (simp add: updated_def node_slot_def)
  have at: "node_at s' j = (if j = n - 1 then x else if i \<le> j \<and> j < n - 1 then node_at s (j + 1) else node_at s j)"
    if "j < 60" for j
  proof -
    have "node_at s' j = get_fs_node (node_slot c j)"
      by (simp add: node_at_def node_of_slot same [OF that] root1 node_slot_seal lc that)
    also have "node_slot c j = (if j = n - 1 then w else if i \<le> j \<and> j < n - 1 then node_slot R (j + 1)
        else node_slot R j)"
      using slots that i n node_slot_write [OF lb that _ lw, of "n - 1"] by (auto simp: c_def)
    finally show ?thesis using getw by (auto simp: node_at_def node_of_slot R_def)
  qed
  have run: "fs_remove name s = Some (FS_OK, s')"
    using okD(2) scan last mv wr inc upd i n
    by (simp add: fs_remove_def load Let_def x_def w_def)
  have wf': "dir_wf s' (n - 1)"
    using wf at n i by (auto simp: dir_wf_def x_def)
  have "dir s' = map (node_at s') [0..<n - 1]" by (rule dir_wf_dir [OF wf'])
  also have "\<dots> = take i (dir s) @ drop (i + 1) (dir s)"
    unfolding dir by (rule node_list_delete [OF i]) (use at n in auto)
  also have "\<dots> = filter (\<lambda>x. key x \<noteq> cstr 6 name) (dir s)"
    by (rule remove_key [symmetric]) (use i uniq in \<open>auto simp: dir\<close>)
  finally have "dir s' = filter (\<lambda>x. key x \<noteq> cstr 6 name) (dir s)" .
  moreover have "x = (if i < n - 1 then node_at s (n - 1) else node_at s n)\<lparr>nd_unused := True\<rparr>"
    using i by (simp add: x_def l_def)
  moreover have "fs_ok (K - 3) s'" "take (K - 3) (free_seq s') = drop 3 (take K (free_seq s))"
    using upd(2) seq1 by (simp_all add: updated_def numeral_3_eq_3)
  ultimately show ?thesis using run wf' at [of "n - 1"] n pages1 upd(2)
    by (auto simp: updated_def z_def)
qed

lemma get_inode_from:
  assumes "chip_ok s" "dir_wf s n" "n < 60" "i \<le> n"
  shows "get_inode_loop s name i =
    Some (case find (\<lambda>x. key x = cstr 6 name) (map (node_at s) [i..<n]) of
        Some x \<Rightarrow> nd_inode x
      | None \<Rightarrow> if key (node_at s n) = cstr 6 name then nd_inode (node_at s n) else BAD)"
  using assms(4)
proof (induction "n - i" arbitrary: i)
  case 0
  then have "i = n" by simp
  then show ?case using read_node_eq [OF assms(1), of n] dir_wf_unused [OF assms(2,3)] assms(3)
    by (subst get_inode_loop.simps) (simp add: strncmp_cstr FS_FILENAME_def flip: key_def)
next
  case (Suc d)
  then have i: "i < n" "[i..<n] = i # [i + 1..<n]" by (simp_all add: upt_conv_Cons)
  have rd: "read_node s i = Some (node_at s i)" using read_node_eq [OF assms(1)] i(1) assms(3) by simp
  have used: "\<not> nd_unused (node_at s i)" using assms(2) i(1) by (simp add: dir_wf_def)
  show ?case
    using Suc(1) [of "i + 1"] Suc(2) i rd used
    by (subst get_inode_loop.simps) (simp add: strncmp_cstr FS_FILENAME_def flip: key_def)
qed

lemma cstr_key [simp]: "cstr 6 (key x) = key x"
proof -
  have "length (takeWhile (\<lambda>c. c \<noteq> 0) (take 6 (nd_name x))) \<le> 6"
    by (rule order_trans [OF length_takeWhile_le]) simp
  then show ?thesis by (simp add: key_def cstr_def takeWhile_idem)
qed

end
