(* ===== verification/Fs_File.thy ===== *)
theory Fs_File imports Fs_Remove begin

text \<open>
  The contents of files (fs_read, fs_write, fs_truncate, fs_size of
  hardware/storage/dataflash/fs.c) and the virtual file system's view of them
  (hardware/storage/dataflash/vfs_df.c).  A file is the chain of pages its inodes name, each with
  at most 512 bytes of data.

  Lengths and offsets are the code's signed 32-bit \<open>fs_size_t\<close> as integers: the sums of offsets and
  lengths the code forms are those of a file that fits the chip, far from overflowing.  The caller's
  buffer is passed to fs_read with its exact size and returned as fs_read leaves it.  A write
  beyond its end is \<open>None\<close>, and so is a read of the buffer given to fs_write beyond its end, an
  access that does not start inside a page and a chain that does not end.
\<close>

section \<open>Reading\<close>

definition page_data :: "fs_t \<Rightarrow> nat \<Rightarrow> fs_page_t" where
  "page_data s page = get_fs_page (df_flash_read page 0 sizeof_fs_page s)"

text \<open>\<open>df_flash_read\<close> of \<open>len\<close> data bytes into the caller's buffer at \<open>pos\<close>.\<close>

definition read_into :: "fs_t \<Rightarrow> nat \<Rightarrow> int \<Rightarrow> int \<Rightarrow> nat \<Rightarrow> u8 list \<Rightarrow> u8 list option" where
  "read_into s page offset len pos buf =
    (if offset < 0 then None
     else
       let d = df_flash_read page (FS_DATA_OFFSET + nat offset) (nat (len mod 2 ^ 16)) s
       in if pos + length d \<le> length buf then Some (memcpy_at pos d buf) else None)"

partial_function (option) read_seek :: "fs_t \<Rightarrow> nat \<Rightarrow> int \<Rightarrow> (int + nat \<times> int) option" where
  "read_seek s pagenum offset =
    (if offset \<ge> int FS_DATASIZE then
       let page = page_data s pagenum
       in if pg_eof page then Some (Inl 0)
          else
            let pagenum = fs_page s (pg_next_inode page)
            in if pagenum = BAD then Some (Inl (-1)) else read_seek s pagenum (offset - int FS_DATASIZE)
     else Some (Inr (pagenum, offset)))"

partial_function (option) read_loop ::
  "fs_t \<Rightarrow> nat \<Rightarrow> nat \<Rightarrow> u8 list \<Rightarrow> int \<Rightarrow> int \<Rightarrow> int \<Rightarrow> (int \<times> u8 list) option" where
  "read_loop s pagenum pos buf offset len rd =
    (let page = page_data s pagenum; sz = int (pg_size page)
     in if len + offset \<le> sz then do {
          buf \<leftarrow> read_into s pagenum offset (len + offset) pos buf;
          Some (rd + len, buf)
        }
        else if pg_eof page then do {
          buf \<leftarrow> read_into s pagenum offset (sz - offset) pos buf;
          Some (rd + (sz - offset), buf)
        }
        else do {
          buf \<leftarrow> read_into s pagenum offset (int FS_DATASIZE - offset) pos buf;
          let pagenum = fs_page s (pg_next_inode page);
          let n = (sz - offset) mod 2 ^ 16;
          if pagenum = BAD then Some (-1, buf)
          else read_loop s pagenum (pos + nat n) buf 0 (len - n) (rd + n)
        })"

definition fs_read :: "fs_t \<Rightarrow> nat \<Rightarrow> u8 list \<Rightarrow> int \<Rightarrow> int \<Rightarrow> (int \<times> u8 list) option" where
  "fs_read s inode buf offset len =
    (let pagenum = fs_page s inode
     in if pagenum = BAD then Some (0, buf)
        else do {
          r \<leftarrow> read_seek s pagenum offset;
          case r of
            Inl ret \<Rightarrow> Some (ret, buf)
          | Inr (pagenum, offset) \<Rightarrow>
              if offset \<ge> int (pg_size (page_data s pagenum)) then Some (0, buf)
              else read_loop s pagenum 0 buf offset len 0
        })"

partial_function (option) size_loop :: "fs_t \<Rightarrow> nat \<Rightarrow> int \<Rightarrow> int option" where
  "size_loop s inode n =
    (let pagenum = fs_page s inode
     in if pagenum = BAD then Some 0
        else
          let page = page_data s pagenum; n = n + int (pg_size page)
          in if pg_eof page then Some n else size_loop s (pg_next_inode page) n)"

definition fs_size :: "fs_t \<Rightarrow> nat \<Rightarrow> int option" where
  "fs_size s inode = (if \<not> heap_ok s then Some (-1) else size_loop s inode 0)"

section \<open>Writing\<close>

text \<open>\<open>df_buf_write\<close> of the first \<open>n\<close> bytes of the caller's buffer at data offset \<open>offset\<close> of BUF1.\<close>

definition write_data :: "u8 list \<Rightarrow> int \<Rightarrow> int \<Rightarrow> fs_t \<Rightarrow> fs_t option" where
  "write_data buf offset n s =
    (let n = nat (n mod 2 ^ 16)
     in if offset < 0 \<or> n > length buf then None
        else Some (df_buf_write DF_BUF1 (take n buf) (FS_DATA_OFFSET + nat offset) s))"

definition write_struct :: "fs_page_t \<Rightarrow> fs_t \<Rightarrow> fs_t" where
  "write_struct page s = df_buf_write DF_BUF1 (put_fs_page page) 0 s"

partial_function (option) write_seek ::
  "fs_t \<Rightarrow> nat \<Rightarrow> nat \<Rightarrow> int \<Rightarrow> (fs_status_t + nat \<times> nat \<times> int) option" where
  "write_seek s inode pagenum offset =
    (if offset > int FS_DATASIZE then
       let page = page_data s pagenum
       in if pg_eof page then Some (Inl FS_BADSEEK)
          else write_seek s (pg_next_inode page) (fs_page s (pg_next_inode page)) (offset - int FS_DATASIZE)
     else Some (Inr (inode, pagenum, offset)))"

text \<open>
  Rewriting the pages of a file that has data: each page goes to a new place, with the inode
  changed to it before the data is written.
\<close>

partial_function (option) rewrite_loop ::
  "u8 list \<Rightarrow> nat \<Rightarrow> nat \<Rightarrow> bool \<Rightarrow> int \<Rightarrow> int \<Rightarrow> fs_t \<Rightarrow> (fs_status_t \<times> fs_t) option" where
  "rewrite_loop buf inode old_pagenum eof offset len s = do {
    (pagenum, s) \<leftarrow> fs_new_page s;
    if pagenum = BAD then Some (FS_BADPAGE, s)
    else do {
      (ret, s) \<leftarrow> fs_update_inodetable inode pagenum s;
      if ret \<noteq> FS_OK then Some (ret, s)
      else
        let s = df_buf_load DF_BUF1 old_pagenum s;
            page = get_fs_page (df_buf_read DF_BUF1 0 sizeof_fs_page s)
        in if len + offset > int FS_DATASIZE then
             let eof = (eof \<or> pg_eof page);
                 old_pagenum = (if pg_eof page then old_pagenum else fs_page s (pg_next_inode page));
                 page = page\<lparr>pg_unused := False, pg_eof := False, pg_root := False,
                          pg_size := FS_DATASIZE, pg_next_inode := fs_new_inode s mod 4096\<rparr>;
                 inode = pg_next_inode page
             in if inode = BAD then Some (FS_BADINODE, s)
                else do {
                  let s = write_struct page s;
                  (s, len) \<leftarrow>
                    (if int FS_DATASIZE - offset \<noteq> 0 then do {
                       s \<leftarrow> write_data buf offset (int FS_DATASIZE - offset) s;
                       Some (s, len - (int FS_DATASIZE - offset))
                     } else Some (s, len));
                  let s = df_buf_save DF_BUF1 pagenum s;
                  if len > 0 then rewrite_loop buf inode old_pagenum eof 0 len s else Some (FS_OK, s)
                }
           else
             let page = page\<lparr>pg_unused := False, pg_eof := (eof \<or> pg_eof page), pg_root := False\<rparr>;
                 page = (if eof \<or> len + offset > int (pg_size page)
                         then page\<lparr>pg_size := nat ((len + offset) mod 2 ^ 16)\<rparr> else page)
             in do {
               s \<leftarrow> write_data buf offset len (write_struct page s);
               Some (FS_OK, df_buf_save DF_BUF1 pagenum s)
             }
    }
  }"

text \<open>Giving data to a file that has none; \<open>page\<close> starts as the stack left it.\<close>

partial_function (option) write_loop ::
  "u8 list \<Rightarrow> nat \<Rightarrow> fs_page_t \<Rightarrow> int \<Rightarrow> fs_t \<Rightarrow> (fs_status_t \<times> fs_t) option" where
  "write_loop buf inode page len s = do {
    (pagenum, s) \<leftarrow> fs_new_page s;
    if pagenum = BAD then Some (FS_BADPAGE, s)
    else do {
      (ret, s) \<leftarrow> fs_update_inodetable inode pagenum s;
      if ret \<noteq> FS_OK then Some (ret, s)
      else if len > int FS_DATASIZE then
        let page = page\<lparr>pg_eof := False, pg_root := False, pg_next_inode := fs_new_inode s mod 4096\<rparr>;
            inode = pg_next_inode page
        in if inode = BAD then Some (FS_BADINODE, s)
           else
             let page = page\<lparr>pg_size := FS_DATASIZE\<rparr>
             in do {
               s \<leftarrow> write_data buf 0 (int FS_DATASIZE) (write_struct page s);
               let s = df_buf_save DF_BUF1 pagenum s;
               write_loop buf inode page (len - int FS_DATASIZE) s
             }
      else
        let page = page\<lparr>pg_eof := True, pg_size := nat (len mod 2 ^ 16), pg_root := False\<rparr>
        in do {
          s \<leftarrow> write_data buf 0 len (write_struct page s);
          Some (FS_OK, df_buf_save DF_BUF1 pagenum s)
        }
    }
  }"

definition fs_write :: "nat \<Rightarrow> u8 list \<Rightarrow> int \<Rightarrow> int \<Rightarrow> fs_t \<Rightarrow> (fs_status_t \<times> fs_t) option" where
  "fs_write inode buf offset len s =
    (let pagenum = fs_page s inode
     in if pagenum \<noteq> BAD then do {
          r \<leftarrow> write_seek s inode pagenum offset;
          case r of
            Inl ret \<Rightarrow> Some (ret, s)
          | Inr (inode, old_pagenum, offset) \<Rightarrow> rewrite_loop buf inode old_pagenum False offset len s
        }
        else if offset \<noteq> 0 then Some (FS_BADSEEK, s)
        else
          let (d, s) = take_junk 4 s
          in write_loop buf inode ((get_fs_page d)\<lparr>pg_unused := False, pg_root := False\<rparr>) len s)"

section \<open>Truncating\<close>

partial_function (option) truncate_seek ::
  "fs_t \<Rightarrow> nat \<Rightarrow> nat \<Rightarrow> int \<Rightarrow> (fs_status_t + nat \<times> nat \<times> int) option" where
  "truncate_seek s inode pagenum len =
    (if len > int FS_DATASIZE then
       let page = page_data s pagenum
       in if pg_eof page then Some (Inl FS_BADSEEK)
          else
            let inode = pg_next_inode page; pagenum = fs_page s inode
            in if pagenum = BAD then Some (Inl FS_MINUS_ONE)
               else truncate_seek s inode pagenum (len - int FS_DATASIZE)
     else Some (Inr (inode, pagenum, len)))"

definition fs_truncate :: "nat \<Rightarrow> int \<Rightarrow> fs_t \<Rightarrow> (fs_status_t \<times> fs_t) option" where
  "fs_truncate inode len s =
    (let pagenum = fs_page s inode
     in if pagenum = BAD then Some (FS_OK, s)
        else do {
          r \<leftarrow> truncate_seek s inode pagenum len;
          case r of
            Inl ret \<Rightarrow> Some (ret, s)
          | Inr (inode, pagenum, len) \<Rightarrow>
              let sz = int (pg_size (page_data s pagenum))
              in if len > sz then Some (FS_BADSEEK, s)
                 else if len = sz then Some (FS_OK, s)
                 else do {
                   (new_pagenum, s) \<leftarrow> fs_new_page s;
                   if new_pagenum = BAD then Some (FS_BADPAGE, s)
                   else do {
                     (ret, s) \<leftarrow> fs_update_inodetable inode new_pagenum s;
                     if ret \<noteq> FS_OK then Some (ret, s)
                     else
                       let s = df_buf_load DF_BUF1 pagenum s;
                           page = (page_data s pagenum)\<lparr>pg_size := nat (len mod 2 ^ 16), pg_eof := True\<rparr>;
                           s = write_struct page s
                       in Some (FS_OK, df_buf_save DF_BUF1 new_pagenum s)
                   }
                 }
        })"

section \<open>The virtual file system's handles\<close>

record vfs_file_handle_df_t =
  df_inode :: nat
  df_offset :: int

datatype seek_whence = SEEK_SET | SEEK_CUR | SEEK_END | SEEK_OTHER

definition int32 :: "int \<Rightarrow> int" where
  "int32 n = (n + 2 ^ 31) mod 2 ^ 32 - 2 ^ 31"

definition vfs_df_open :: "fs_t \<Rightarrow> u8 list \<Rightarrow> vfs_file_handle_df_t option option" where
  "vfs_df_open s filename = do {
    i \<leftarrow> fs_get_inode s filename;
    Some (if i = BAD \<or> \<not> heap_ok s then None else Some \<lparr>df_inode = i, df_offset = 0\<rparr>)
  }"

text \<open>The result is the unsigned \<open>vfs_size_t\<close> of 32 bits.\<close>

definition vfs_df_read ::
  "fs_t \<Rightarrow> vfs_file_handle_df_t \<Rightarrow> u8 list \<Rightarrow> nat \<Rightarrow> (nat \<times> u8 list \<times> vfs_file_handle_df_t) option" where
  "vfs_df_read s fh buf len = do {
    (ret, buf) \<leftarrow> fs_read s (df_inode fh) buf (df_offset fh) (int32 (int len));
    let ret = nat (ret mod 2 ^ 32);
    Some (ret, buf, if ret > 0 then fh\<lparr>df_offset := int32 (df_offset fh + int ret)\<rparr> else fh)
  }"

definition vfs_df_write ::
  "vfs_file_handle_df_t \<Rightarrow> u8 list \<Rightarrow> nat \<Rightarrow> fs_t \<Rightarrow> (nat \<times> vfs_file_handle_df_t \<times> fs_t) option" where
  "vfs_df_write fh buf len s = do {
    (i, s) \<leftarrow> fs_write (df_inode fh) buf (df_offset fh) (int32 (int len)) s;
    Some (if i = FS_OK then (len, fh\<lparr>df_offset := int32 (df_offset fh + int len)\<rparr>, s) else (0, fh, s))
  }"

definition vfs_df_size :: "fs_t \<Rightarrow> vfs_file_handle_df_t \<Rightarrow> nat option" where
  "vfs_df_size s fh = do { n \<leftarrow> fs_size s (df_inode fh); Some (nat (n mod 2 ^ 32)) }"

definition vfs_df_fseek ::
  "fs_t \<Rightarrow> vfs_file_handle_df_t \<Rightarrow> nat \<Rightarrow> seek_whence \<Rightarrow> (u8 \<times> vfs_file_handle_df_t) option" where
  "vfs_df_fseek s fh offset whence = do {
    len \<leftarrow> fs_size s (df_inode fh);
    case (case whence of
        SEEK_SET \<Rightarrow> Some (int32 (int offset))
      | SEEK_CUR \<Rightarrow> Some (int32 (df_offset fh + int offset))
      | SEEK_END \<Rightarrow> Some (int32 (len + int offset))
      | SEEK_OTHER \<Rightarrow> None) of
      None \<Rightarrow> Some (255, fh)
    | Some new_pos \<Rightarrow> if new_pos > len then Some (255, fh) else Some (0, fh\<lparr>df_offset := new_pos\<rparr>)
  }"

definition vfs_df_truncate :: "vfs_file_handle_df_t \<Rightarrow> nat \<Rightarrow> fs_t \<Rightarrow> (fs_status_t \<times> fs_t) option" where
  "vfs_df_truncate fh len s = fs_truncate (df_inode fh) (int32 (int len)) s"

definition vfs_df_create :: "u8 list \<Rightarrow> fs_t \<Rightarrow> (vfs_file_handle_df_t option \<times> fs_t) option" where
  "vfs_df_create name s = do {
    (_, s) \<leftarrow> fs_create name s;
    fh \<leftarrow> vfs_df_open s name;
    case fh of
      None \<Rightarrow> Some (None, s)
    | Some h \<Rightarrow> do {
        n \<leftarrow> vfs_df_size s h;
        s \<leftarrow> (if n \<noteq> 0 then do { (_, s) \<leftarrow> vfs_df_truncate h 0 s; Some s } else Some s);
        Some (fh, s)
      }
  }"

end
