(* ===== verification/Fs_Content.thy ===== *)
theory Fs_Content imports Fs_File begin

text \<open>
  The contents of files of one page: what fs_write, fs_read, fs_truncate and fs_size make of them.
\<close>

section \<open>Writing a data page\<close>

lemma other_page:
  assumes ok: "fs_ok K s" and len: "length b = 528" "length d = 528" and p: "p < 4096" "p \<noteq> root s"
    and tab: "\<And>i. i < 16 \<Longrightarrow> p \<noteq> fs_inodetable s i" and d: "\<not> pg_root (get_fs_page d)"
    and t: "t = s\<lparr>buf1 := b, flash := (flash s)(p := d)\<rparr>"
  shows "fs_ok K t" "i < 4096 \<Longrightarrow> fs_page t i = fs_page s i" "free_seq t = free_seq s"
    "flash t (root t) = flash s (root s)"
proof -
  note okD = fs_okD [OF ok] and chip = chip_okD [OF fs_okD(1) [OF ok]]
  have chip': "chip_ok t" using chip len by (auto simp: chip_ok_def t)
  have rt: "flash t (root t) = flash s (root s)" using p by (simp add: t)
  have tbl: "fs_inodetable t i = fs_inodetable s i" if "i < 16" for i
    using fs_inodetable_slot [OF chip' that] fs_inodetable_slot [OF okD(1) that] rt by simp
  have tp: "flash t (fs_inodetable t i) = flash s (fs_inodetable s i)" if "i < 16" for i
    using tab [OF that] by (simp add: tbl [OF that]) (simp add: t)
  have pages: "fs_page t i = fs_page s i" if i: "i < 4096" for i
  proof -
    have d: "i div 256 < 16" using i by auto
    then show ?thesis
      using fs_page_slot [OF chip' i] fs_page_slot [OF okD(1) i] tbl [OF d] tp [OF d] okD(6) [OF d] by simp
  qed
  have cur: "current_root (flash t) (root t)"
    using roots.current_torn [OF okD(3), of p d] p d by (simp add: t valid_root_def)
  have seq: "free_seq t = free_seq s" by (rule free_seq_cong) (simp_all add: t)
  have "live t = live s" using tbl pages by (auto simp: live_def t)
  then show "fs_ok K t"
    unfolding fs_ok_def using chip' okD cur rt tbl tp seq by (auto simp: t)
  show "i < 4096 \<Longrightarrow> fs_page t i = fs_page s i" "free_seq t = free_seq s"
    "flash t (root t) = flash s (root s)" using pages seq rt by auto
qed

lemma fs_ok_frame:
  assumes "fs_ok K s"
  shows "fs_ok K (s\<lparr>junk := j\<rparr>)" "fs_page (s\<lparr>junk := j\<rparr>) i = fs_page s i"
    "free_seq (s\<lparr>junk := j\<rparr>) = free_seq s" "live (s\<lparr>junk := j\<rparr>) = live s"
    "fs_inodetable (s\<lparr>junk := j\<rparr>) i = fs_inodetable s i"
proof -
  have tab: "fs_inodetable (s\<lparr>junk := j\<rparr>) i = fs_inodetable s i" for i
    by (simp add: fs_inodetable_def df_flash_read_def)
  moreover have page: "fs_page (s\<lparr>junk := j\<rparr>) i = fs_page s i" for i
    by (simp add: fs_page_def tab df_flash_read_def)
  moreover have seq: "free_seq (s\<lparr>junk := j\<rparr>) = free_seq s" by (rule free_seq_cong) simp_all
  moreover have live: "live (s\<lparr>junk := j\<rparr>) = live s" by (simp add: live_def tab page image_def)
  ultimately show "fs_page (s\<lparr>junk := j\<rparr>) i = fs_page s i"
    "free_seq (s\<lparr>junk := j\<rparr>) = free_seq s" "live (s\<lparr>junk := j\<rparr>) = live s"
    "fs_inodetable (s\<lparr>junk := j\<rparr>) i = fs_inodetable s i" by simp_all
  show "fs_ok K (s\<lparr>junk := j\<rparr>)"
    using assms by (simp add: fs_ok_def tab seq live chip_ok_def)
qed

text \<open>Allocating a page for an inode and entering it in the table.\<close>

lemma alloc_update:
  assumes ok: "fs_ok K s" and K: "3 \<le> K" and inode: "inode < 4096"
  shows "\<exists>n t s'. fs_new_page s = Some (n, t) \<and> n \<noteq> BAD \<and> fs_update_inodetable inode n t = Some (FS_OK, s') \<and>
    fs_ok (K - 3) s' \<and> n < 4096 \<and> n \<notin> live s \<and> n \<noteq> root s' \<and> (\<forall>i < 16. n \<noteq> fs_inodetable s' i) \<and>
    (\<forall>i < 4096. fs_page s' i = (if i = inode then n else fs_page s i)) \<and>
    (\<forall>p \<in> live s. flash s' p = flash s p) \<and>
    take (K - 3) (free_seq s') = drop 3 (take K (free_seq s)) \<and>
    (\<forall>off k. 40 \<le> off \<longrightarrow> off + k \<le> 527 \<longrightarrow>
      slice off k (flash s' (root s')) = slice off k (flash s (root s)))"
proof -
  note okD = fs_okD [OF ok] and chip = chip_okD [OF fs_okD(1) [OF ok]]
  obtain n ns where seq: "free_seq s = n # ns" using okD(8) K by (cases "free_seq s") auto
  have n: "n < 4096" "n \<in> set (take K (free_seq s))"
    using free_seq_lt [of n s] chip(5) seq K by (auto simp: take_Cons')
  define t where "t = s\<lparr>last_free := n\<rparr>"
  have new: "fs_new_page s = Some (n, t)" using seq chip(5) by (simp add: fs_new_page_eq t_def)
  obtain xs where seqt: "free_seq t = ns @ xs"
    using free_seq_next [OF seq chip(5), of t] by (auto simp: t_def)
  have tab: "fs_inodetable t i = fs_inodetable s i" for i
    by (simp add: fs_inodetable_def df_flash_read_def t_def)
  have pg: "fs_page t i = fs_page s i" for i
    unfolding fs_page_def tab by (simp add: df_flash_read_def t_def)
  have live: "live t = live s" unfolding live_def tab pg by (simp add: t_def)
  have len: "length ns \<ge> K - 1" using okD(8) seq by simp
  have tk: "take (K - 1) (free_seq t) = drop 1 (take K (free_seq s))"
    using seq seqt len K by (simp add: drop_take)
  have okt: "fs_ok (K - 1) t"
  proof -
    have "set (take (K - 1) (free_seq t)) \<inter> live t = {}"
      using okD(9) unfolding tk live by (auto dest: in_set_dropD)
    then show ?thesis
      unfolding fs_ok_def using okD chip n(1) tab seqt len K by (auto simp: t_def chip_ok_def)
  qed
  have notin: "n \<notin> set (free_seq t)" using free_seq_ne [of n t] by (auto simp: t_def)
  have K1: "2 \<le> K - 1" using K by simp
  have "n \<notin> set (drop 2 (take (K - 1) (free_seq t)))" using notin by (meson in_set_dropD in_set_takeD)
  from fs_update_step [OF okt K1 inode _ this] n(1) obtain s' where
    upd: "fs_update_inodetable inode n t = Some (FS_OK, s')" "updated (K - 1) inode n t s'" by auto
  have "K - 1 - 2 = K - 3" by simp
  note u = upd(2) [unfolded updated_def this]
  have two: "p \<in> set (take 2 (free_seq t)) \<Longrightarrow> p \<notin> live s \<and> p \<noteq> n" for p
  proof -
    assume p: "p \<in> set (take 2 (free_seq t))"
    then have "p \<in> set (take (K - 1) (free_seq t))" by (rule subsetD [OF set_take_subset_set_take [OF K1]])
    then have "p \<notin> live s" using fs_okD(9) [OF okt] live by blast
    moreover have "p \<noteq> n" using p notin by (meson in_set_takeD)
    ultimately show ?thesis by simp
  qed
  have nl: "n \<notin> live s" by (rule okD(9)) (rule n(2))
  have "n \<noteq> root s'" using upd(2) two by (auto simp: updated_def)
  moreover have "n \<noteq> fs_inodetable s' i" if "i < 16" for i
  proof -
    have "fs_inodetable s' i \<in> fs_inodetable t ` {..<16} \<union> set (take 2 (free_seq t))"
      using upd(2) that by (simp add: updated_def)
    moreover have "n \<notin> fs_inodetable t ` {..<16}" using nl tab by (auto simp: live_def)
    ultimately show ?thesis using two by blast
  qed
  moreover have "flash s' p = flash s p" if "p \<in> live s" for p
    using upd(2) two that by (auto simp: updated_def t_def)
  moreover have "take (K - 3) (free_seq s') = drop 3 (take K (free_seq s))"
    using u tk by (simp add: drop_drop)
  moreover have "fs_ok (K - 3) s'" using u by blast
  ultimately show ?thesis
    using new upd n(1) nl pg by (intro exI [of _ n] exI [of _ t] exI [of _ s']) (auto simp: updated_def t_def BAD_def)
qed

section \<open>Files of one page\<close>

text \<open>
  The data of a file that has none yet or fits one page, and what a write of \<open>d\<close> at \<open>off\<close> makes of it.
\<close>

definition page_file :: "u8 list \<Rightarrow> u8 list option" where
  "page_file d =
    (let page = get_fs_page d
     in if pg_eof page \<and> \<not> pg_root page \<and> pg_size page \<le> 512 then Some (slice 15 (pg_size page) d)
        else None)"

definition file_data :: "fs_t \<Rightarrow> nat \<Rightarrow> u8 list option" where
  "file_data s inode =
    (let page = fs_page s inode in if page = BAD then Some [] else page_file (flash s page))"

definition overlay :: "nat \<Rightarrow> u8 list \<Rightarrow> u8 list \<Rightarrow> u8 list" where
  "overlay off d data = take off data @ d @ drop (off + length d) data"

lemma get_fs_page_take: "4 \<le> length d \<Longrightarrow> get_fs_page (take 4 d) = get_fs_page d"
  by (simp add: get_fs_page_def flag12_def num12_def un16_def)

lemma page_data_flash: "chip_ok s \<Longrightarrow> p < 4096 \<Longrightarrow> page_data s p = get_fs_page (flash s p)"
  using chip_okD(3) [of s p]
  by (simp add: page_data_def df_flash_read_def read_wrapped_slice sizeof_fs_page_def slice_def get_fs_page_take)

text \<open>The image of a page after its structure and \<open>d\<close> at data offset \<open>o\<close> have been written to it.\<close>

definition page_image :: "fs_page_t \<Rightarrow> nat \<Rightarrow> u8 list \<Rightarrow> u8 list \<Rightarrow> u8 list" where
  "page_image page off d b = memcpy_at (15 + off) d (memcpy_at 0 (put_fs_page page) b)"

lemma page_image:
  assumes "length b = 528" "off + length d \<le> 512" "pg_next_inode page < 4096" "pg_size page < 65536"
  shows "length (page_image page off d b) = 528" "get_fs_page (page_image page off d b) = page"
    "n \<le> 512 \<Longrightarrow> slice 15 n (page_image page off d b) = take n (memcpy_at off d (slice 15 512 b))"
proof -
  have h: "length (memcpy_at 0 (put_fs_page page) b) = 528" using assms(1) by simp
  then show len: "length (page_image page off d b) = 528" using assms(2) by (simp add: page_image_def)
  have "take 4 (page_image page off d b) = take (length (put_fs_page page)) (memcpy_at 0 (put_fs_page page) b)"
    using h assms(2) by (simp add: page_image_def memcpy_at_def [of "15 + off"])
  also have "\<dots> = put_fs_page page" by (rule take_memcpy_at_0) (use assms(1) in simp)
  finally show "get_fs_page (page_image page off d b) = page"
    using get_fs_page_take [of "page_image page off d b"] len
      get_put_fs_page [OF assms(3,4), of "[]"] by simp
  show "n \<le> 512 \<Longrightarrow> slice 15 n (page_image page off d b) = take n (memcpy_at off d (slice 15 512 b))"
    by (rule nth_equalityI) (use assms(1,2) h len in \<open>auto simp: nth_slice page_image_def nth_memcpy_at\<close>)
qed

lemma page_file_image:
  assumes "length b = 528" "off + length d \<le> 512" "pg_next_inode page < 4096"
    "pg_eof page" "\<not> pg_root page" "pg_size page \<le> 512"
  shows "page_file (page_image page off d b) = Some (take (pg_size page) (memcpy_at off d (slice 15 512 b)))"
  using page_image [OF assms(1-3)] assms(4-6) by (simp add: page_file_def)

lemma write_struct_buf1:
  "length b = 528 \<Longrightarrow> write_struct page (s\<lparr>buf1 := b\<rparr>) = s\<lparr>buf1 := memcpy_at 0 (put_fs_page page) b\<rparr>"
  by (simp add: write_struct_def df_buf_write_def set_buffer_def buffer_def write_wrapped_memcpy)

lemma write_data_buf1:
  assumes "length b = 528" "n \<le> length d" "off + n \<le> 512"
  shows "write_data d (int off) (int n) (write_struct page (s\<lparr>buf1 := b\<rparr>)) =
    Some (s\<lparr>buf1 := page_image page off (take n d) b\<rparr>)"
proof -
  have "nat (int n mod 65536) = n" using assms(3) by simp
  then show ?thesis
    using assms by (simp add: write_data_def write_struct_buf1 df_buf_write_def set_buffer_def buffer_def
        write_wrapped_memcpy FS_DATA_OFFSET_def page_image_def)
qed

lemma save_page:
  assumes ok: "fs_ok K s" and K: "3 \<le> K" and inode: "inode < 4096"
  shows "\<exists>n t s1. fs_new_page s = Some (n, t) \<and> n \<noteq> BAD \<and> fs_update_inodetable inode n t = Some (FS_OK, s1) \<and>
    fs_ok (K - 3) s1 \<and> (\<forall>p \<in> live s. flash s1 p = flash s p) \<and>
    (\<forall>i < 4096. fs_page s1 i = (if i = inode then n else fs_page s i)) \<and>
    (\<forall>b. length b = 528 \<longrightarrow> \<not> pg_root (get_fs_page b) \<longrightarrow>
      (\<exists>s'. df_buf_save DF_BUF1 n (s1\<lparr>buf1 := b\<rparr>) = s' \<and> fs_ok (K - 3) s' \<and>
        fs_page s' inode = n \<and> flash s' n = b \<and> (\<forall>p \<in> live s. flash s' p = flash s p) \<and>
        file_data s' inode = page_file b \<and>
        (\<forall>i < 4096. i \<noteq> inode \<longrightarrow> fs_page s' i = fs_page s i \<and> file_data s' i = file_data s i) \<and>
        (\<forall>i < 60. node_slot (flash s' (root s')) i = node_slot (flash s (root s)) i) \<and>
        take (K - 3) (free_seq s') = drop 3 (take K (free_seq s))))"
proof -
  obtain n t s1 where a: "fs_new_page s = Some (n, t)" "n \<noteq> BAD" "fs_update_inodetable inode n t = Some (FS_OK, s1)"
    and ok1: "fs_ok (K - 3) s1" and n: "n < 4096" "n \<notin> live s" "n \<noteq> root s1" "\<forall>i < 16. n \<noteq> fs_inodetable s1 i"
    and pg: "\<forall>i < 4096. fs_page s1 i = (if i = inode then n else fs_page s i)"
    and fl: "\<forall>p \<in> live s. flash s1 p = flash s p"
    and sq: "take (K - 3) (free_seq s1) = drop 3 (take K (free_seq s))"
    and sl: "\<forall>off k. 40 \<le> off \<longrightarrow> off + k \<le> 527 \<longrightarrow>
      slice off k (flash s1 (root s1)) = slice off k (flash s (root s))"
    using alloc_update [OF ok K inode] by (elim exE conjE)
  have S: "\<forall>b. length b = 528 \<longrightarrow> \<not> pg_root (get_fs_page b) \<longrightarrow>
      (\<exists>s'. df_buf_save DF_BUF1 n (s1\<lparr>buf1 := b\<rparr>) = s' \<and> fs_ok (K - 3) s' \<and>
        fs_page s' inode = n \<and> flash s' n = b \<and> (\<forall>p \<in> live s. flash s' p = flash s p) \<and>
        file_data s' inode = page_file b \<and>
        (\<forall>i < 4096. i \<noteq> inode \<longrightarrow> fs_page s' i = fs_page s i \<and> file_data s' i = file_data s i) \<and>
        (\<forall>i < 60. node_slot (flash s' (root s')) i = node_slot (flash s (root s)) i) \<and>
        take (K - 3) (free_seq s') = drop 3 (take K (free_seq s)))"
  proof (intro allI impI)
    fix b assume b: "length b = 528" "\<not> pg_root (get_fs_page b)"
    define s' where "s' = s1\<lparr>buf1 := b, flash := (flash s1)(n := b)\<rparr>"
    have save: "df_buf_save DF_BUF1 n (s1\<lparr>buf1 := b\<rparr>) = s'"
      using n(1) by (simp add: df_buf_save_def buffer_def s'_def)
    note o = other_page [OF ok1 b(1) b(1) n(1,3) _ b(2) s'_def]
    have pgs: "fs_page s' i = (if i = inode then n else fs_page s i)" if "i < 4096" for i
      using o(2) n(4) pg that by simp
    have "file_data s' i = file_data s i" if "i < 4096" "i \<noteq> inode" for i
    proof -
      have l: "fs_page s i \<in> live s" using that(1) by (simp add: live_def)
      then have "fs_page s i \<noteq> n" using n(2) by auto
      then have "flash s' (fs_page s i) = flash s (fs_page s i)" using fl l by (simp add: s'_def)
      then show ?thesis using pgs [OF that(1)] that(2) by (simp add: file_data_def Let_def)
    qed
    moreover have "file_data s' inode = page_file b"
      using pgs [OF inode] a(2) by (simp add: file_data_def) (simp add: s'_def)
    moreover have "\<forall>p \<in> live s. flash s' p = flash s p" using fl n(2) by (auto simp: s'_def)
    moreover have "flash s' n = b" by (simp add: s'_def)
    moreover have "fs_ok (K - 3) s'" "free_seq s' = free_seq s1" "flash s' (root s') = flash s1 (root s1)"
      using o(1,3,4) n(4) by auto
    ultimately show "\<exists>s'. df_buf_save DF_BUF1 n (s1\<lparr>buf1 := b\<rparr>) = s' \<and> fs_ok (K - 3) s' \<and>
        fs_page s' inode = n \<and> flash s' n = b \<and> (\<forall>p \<in> live s. flash s' p = flash s p) \<and>
        file_data s' inode = page_file b \<and>
        (\<forall>i < 4096. i \<noteq> inode \<longrightarrow> fs_page s' i = fs_page s i \<and> file_data s' i = file_data s i) \<and>
        (\<forall>i < 60. node_slot (flash s' (root s')) i = node_slot (flash s (root s)) i) \<and>
        take (K - 3) (free_seq s') = drop 3 (take K (free_seq s))"
      using save pgs inode a(2) sq sl by (intro exI [of _ s']) (auto simp: node_slot_def)
  qed
  show ?thesis
    using a ok1 fl pg S by (intro exI [of _ n] exI [of _ t] exI [of _ s1] conjI) assumption+
qed

end
