(* ===== verification/Fs_Io.thy ===== *)
theory Fs_Io imports Fs_Content begin

text \<open>
  Reading, writing, measuring and truncating files of one page, against the list of bytes the
  file stands for.
\<close>

lemma file_dataD:
  assumes "fs_ok K s" "inode < 4096" "fs_page s inode \<noteq> BAD" "file_data s inode = Some data"
  shows "fs_page s inode < 4096" "fs_page s inode \<in> live s"
    "page_data s (fs_page s inode) = get_fs_page (flash s (fs_page s inode))"
    "pg_eof (page_data s (fs_page s inode))" "\<not> pg_root (page_data s (fs_page s inode))"
    "pg_size (page_data s (fs_page s inode)) = length data"
    "length data \<le> 512" "slice 15 (length data) (flash s (fs_page s inode)) = data"
    "length (flash s (fs_page s inode)) = 528"
proof -
  note okD = fs_okD [OF assms(1)] and chip = chip_okD [OF fs_okD(1) [OF assms(1)]]
  show p: "fs_page s inode < 4096" using fs_page_lt [of s inode] assms(3) by simp
  show "fs_page s inode \<in> live s" using assms(2) by (simp add: live_def)
  show d: "page_data s (fs_page s inode) = get_fs_page (flash s (fs_page s inode))"
    by (rule page_data_flash [OF okD(1) p])
  show len: "length (flash s (fs_page s inode)) = 528" using chip(3) p by simp
  have "page_file (flash s (fs_page s inode)) = Some data" using assms(3,4) by (simp add: file_data_def)
  then show "pg_eof (page_data s (fs_page s inode))" "\<not> pg_root (page_data s (fs_page s inode))"
    "pg_size (page_data s (fs_page s inode)) = length data"
    "length data \<le> 512" "slice 15 (length data) (flash s (fs_page s inode)) = data"
    using len by (auto simp: d page_file_def Let_def split: if_splits)
qed

lemma next_inode_lt: "pg_next_inode (get_fs_page d) < 4096"
  by (simp add: get_fs_page_def num12_lt)

lemma write_loop_last:
  assumes ok: "fs_ok K s" and K: "3 \<le> K" and inode: "inode < 4096" and page: "pg_next_inode page < 4096"
    and n: "n \<le> length d" "n \<le> 512"
  shows "\<exists>s'. write_loop d inode page (int n) s = Some (FS_OK, s') \<and> fs_ok (K - 3) s' \<and>
    fs_page s' inode \<noteq> BAD \<and> file_data s' inode = Some (take n d) \<and>
    (\<forall>i < 4096. i \<noteq> inode \<longrightarrow> fs_page s' i = fs_page s i \<and> file_data s' i = file_data s i) \<and>
    (\<forall>i < 60. node_slot (flash s' (root s')) i = node_slot (flash s (root s)) i) \<and>
    take (K - 3) (free_seq s') = drop 3 (take K (free_seq s)) \<and>
    (\<forall>p \<in> live s. flash s' p = flash s p)"
proof -
  define p where "p = page\<lparr>pg_eof := True, pg_size := n, pg_root := False\<rparr>"
  have p: "pg_next_inode p < 4096" "pg_eof p" "\<not> pg_root p" "pg_size p = n"
    using page by (simp_all add: p_def)
  obtain m t s1 where a: "fs_new_page s = Some (m, t)" "m \<noteq> BAD" "fs_update_inodetable inode m t = Some (FS_OK, s1)"
    and ok1: "fs_ok (K - 3) s1"
    and save: "\<forall>b. length b = 528 \<longrightarrow> \<not> pg_root (get_fs_page b) \<longrightarrow>
      (\<exists>s'. df_buf_save DF_BUF1 m (s1\<lparr>buf1 := b\<rparr>) = s' \<and> fs_ok (K - 3) s' \<and>
        fs_page s' inode = m \<and> flash s' m = b \<and> (\<forall>p \<in> live s. flash s' p = flash s p) \<and>
        file_data s' inode = page_file b \<and>
        (\<forall>i < 4096. i \<noteq> inode \<longrightarrow> fs_page s' i = fs_page s i \<and> file_data s' i = file_data s i) \<and>
        (\<forall>i < 60. node_slot (flash s' (root s')) i = node_slot (flash s (root s)) i) \<and>
        take (K - 3) (free_seq s') = drop 3 (take K (free_seq s)))"
    using save_page [OF ok K inode] by (elim exE conjE)
  have lb: "length (buf1 s1) = 528" using fs_okD(1) [OF ok1] by (simp add: chip_ok_def)
  define b where "b = page_image p 0 (take n d) (buf1 s1)"
  have l: "0 + length (take n d) \<le> 512" using n by simp
  have b: "length b = 528" "get_fs_page b = p" "page_file b = Some (take n d)"
    using page_image(1,2) [OF lb l p(1)] page_file_image [OF lb l p(1-3)] p(4) n lb
    by (simp_all add: b_def memcpy_at_def)
  obtain s' where s': "df_buf_save DF_BUF1 m (s1\<lparr>buf1 := b\<rparr>) = s'" "fs_ok (K - 3) s'"
    "fs_page s' inode = m" "\<forall>p \<in> live s. flash s' p = flash s p" "file_data s' inode = page_file b"
    "\<forall>i < 4096. i \<noteq> inode \<longrightarrow> fs_page s' i = fs_page s i \<and> file_data s' i = file_data s i"
    "\<forall>i < 60. node_slot (flash s' (root s')) i = node_slot (flash s (root s)) i"
    "take (K - 3) (free_seq s') = drop 3 (take K (free_seq s))"
    using save b(1,2) p(3) by auto
  have wd: "write_data d 0 (int n) (write_struct p s1) = Some (s1\<lparr>buf1 := b\<rparr>)"
    using write_data_buf1 [OF lb n(1), of 0 p s1] n(2) by (simp add: b_def)
  have nm: "nat (int n mod 65536) = n" using n(2) by simp
  have loop: "write_loop d inode page (int n) s = Some (FS_OK, s')"
    by (subst write_loop.simps) (use a s'(1) wd n(2) in \<open>simp add: FS_DATASIZE_def nm flip: p_def\<close>)
  with s' b(3) a(2) show ?thesis by auto
qed

text \<open>The state fs_write starts its loop in when the file is new.\<close>

definition junked :: "fs_t \<Rightarrow> fs_t" where
  "junked s = s\<lparr>junk := (\<lambda>i. junk s (4 + i))\<rparr>"

definition stack_page :: "fs_t \<Rightarrow> fs_page_t" where
  "stack_page s = (get_fs_page (map (junk s) [0..<4]))\<lparr>pg_unused := False, pg_root := False\<rparr>"

lemma fs_write_start:
  "fs_page s inode = BAD \<Longrightarrow> fs_write inode d 0 len s = write_loop d inode (stack_page s) len (junked s)"
  by (simp add: fs_write_def take_junk_def junked_def stack_page_def)

lemma junked:
  assumes "fs_ok K s"
  shows "fs_ok K (junked s)" "fs_page (junked s) i = fs_page s i" "file_data (junked s) i = file_data s i"
    "free_seq (junked s) = free_seq s" "live (junked s) = live s" "flash (junked s) = flash s"
    "root (junked s) = root s"
proof -
  note fr = fs_ok_frame [OF assms, of "\<lambda>i. junk s (4 + i)"]
  show "fs_ok K (junked s)" "fs_page (junked s) i = fs_page s i"
    "free_seq (junked s) = free_seq s" "live (junked s) = live s" "flash (junked s) = flash s"
    "root (junked s) = root s"
    using fr by (simp_all add: junked_def)
  then show "file_data (junked s) i = file_data s i" by (simp add: file_data_def Let_def)
qed

lemma stack_page [simp]:
  "pg_next_inode (stack_page s) < 4096" "\<not> pg_root (stack_page s)" "\<not> pg_unused (stack_page s)"
  by (simp_all add: stack_page_def next_inode_lt)

lemma fs_write_new:
  assumes ok: "fs_ok K s" and K: "3 \<le> K" and inode: "inode < 4096" "fs_page s inode = BAD"
    and n: "n \<le> length d" "n \<le> 512"
  shows "\<exists>s'. fs_write inode d 0 (int n) s = Some (FS_OK, s') \<and> fs_ok (K - 3) s' \<and>
    fs_page s' inode \<noteq> BAD \<and> file_data s' inode = Some (take n d) \<and>
    (\<forall>i < 4096. i \<noteq> inode \<longrightarrow> fs_page s' i = fs_page s i \<and> file_data s' i = file_data s i) \<and>
    (\<forall>i < 60. node_slot (flash s' (root s')) i = node_slot (flash s (root s)) i) \<and>
    take (K - 3) (free_seq s') = drop 3 (take K (free_seq s))"
  using write_loop_last [OF junked(1) [OF ok] K inode(1) stack_page(1) n]
  unfolding fs_write_start [OF inode(2)] junked(2-) [OF ok] by blast

lemma fs_write_again:
  assumes ok: "fs_ok K s" and K: "3 \<le> K" and inode: "inode < 4096" "fs_page s inode \<noteq> BAD"
    and data: "file_data s inode = Some data" and n: "n \<le> length d" "off \<le> length data" "off + n \<le> 512"
  shows "\<exists>s'. fs_write inode d (int off) (int n) s = Some (FS_OK, s') \<and> fs_ok (K - 3) s' \<and>
    fs_page s' inode \<noteq> BAD \<and> file_data s' inode = Some (overlay off (take n d) data) \<and>
    (\<forall>i < 4096. i \<noteq> inode \<longrightarrow> fs_page s' i = fs_page s i \<and> file_data s' i = file_data s i) \<and>
    (\<forall>i < 60. node_slot (flash s' (root s')) i = node_slot (flash s (root s)) i) \<and>
    take (K - 3) (free_seq s') = drop 3 (take K (free_seq s))"
proof -
  note f = file_dataD [OF ok inode data]
  obtain m t s1 where a: "fs_new_page s = Some (m, t)" "m \<noteq> BAD" "fs_update_inodetable inode m t = Some (FS_OK, s1)"
    and ok1: "fs_ok (K - 3) s1" and fl: "\<forall>p \<in> live s. flash s1 p = flash s p"
    and save: "\<forall>b. length b = 528 \<longrightarrow> \<not> pg_root (get_fs_page b) \<longrightarrow>
      (\<exists>s'. df_buf_save DF_BUF1 m (s1\<lparr>buf1 := b\<rparr>) = s' \<and> fs_ok (K - 3) s' \<and>
        fs_page s' inode = m \<and> flash s' m = b \<and> (\<forall>p \<in> live s. flash s' p = flash s p) \<and>
        file_data s' inode = page_file b \<and>
        (\<forall>i < 4096. i \<noteq> inode \<longrightarrow> fs_page s' i = fs_page s i \<and> file_data s' i = file_data s i) \<and>
        (\<forall>i < 60. node_slot (flash s' (root s')) i = node_slot (flash s (root s)) i) \<and>
        take (K - 3) (free_seq s') = drop 3 (take K (free_seq s)))"
    using save_page [OF ok K inode(1)] by (elim exE conjE)
  let ?P = "fs_page s inode"
  define old where "old = flash s ?P"
  have lo: "length old = 528" using f(9) by (simp add: old_def)
  have load: "df_buf_load DF_BUF1 ?P s1 = s1\<lparr>buf1 := old\<rparr>"
    using fl f(1,2) by (simp add: df_buf_load_def set_buffer_def old_def)
  define page where "page = get_fs_page old"
  have rd: "get_fs_page (df_buf_read DF_BUF1 0 sizeof_fs_page (s1\<lparr>buf1 := old\<rparr>)) = page"
    using lo by (simp add: df_buf_read_def buffer_def read_wrapped_slice sizeof_fs_page_def slice_def
        get_fs_page_take page_def)
  have pg: "pg_eof page" "\<not> pg_root page" "pg_size page = length data"
    using f(3-6) by (simp_all add: page_def old_def)
  define z where "z = max (off + n) (length data)"
  define p where "p = page\<lparr>pg_unused := False, pg_eof := True, pg_root := False, pg_size := z\<rparr>"
  have p: "pg_next_inode p < 4096" "pg_eof p" "\<not> pg_root p" "pg_size p = z" "z \<le> 512"
    using n f(7) by (simp_all add: p_def page_def next_inode_lt z_def)
  define b where "b = page_image p off (take n d) old"
  have l: "off + length (take n d) \<le> 512" using n by simp
  have img: "length b = 528" "get_fs_page b = p" "page_file b = Some (take z (memcpy_at off (take n d) (slice 15 512 old)))"
    using page_image(1,2) [OF lo l p(1)] page_file_image [OF lo l p(1-3)] p(4,5)
    by (simp_all add: b_def)
  have sl: "slice 15 512 old = data @ drop (length data) (slice 15 512 old)"
  proof -
    have "take (length data) (slice 15 512 old) = slice 15 (length data) old"
      using f(7) by (simp add: slice_def take_drop min_def)
    then have "take (length data) (slice 15 512 old) = data" using f(8) by (simp add: old_def)
    then show ?thesis by (metis append_take_drop_id)
  qed
  have "take z (memcpy_at off (take n d) (slice 15 512 old)) = overlay off (take n d) data"
  proof -
    define r where "r = drop (length data) (slice 15 512 old)"
    have lt: "length (take n d) = n" using n(1) by simp
    have "memcpy_at off (take n d) (data @ r) = overlay off (take n d) data @ drop (off + n - length data) r"
      using n(2) lt by (simp add: memcpy_at_def overlay_def)
    moreover have "length (overlay off (take n d) data) = z"
      using n(2) lt by (simp add: overlay_def z_def)
    ultimately show ?thesis by (subst sl) (simp flip: r_def)
  qed
  with img(3) have isfile: "page_file b = Some (overlay off (take n d) data)" by simp
  obtain s' where s': "df_buf_save DF_BUF1 m (s1\<lparr>buf1 := b\<rparr>) = s'" "fs_ok (K - 3) s'"
    "fs_page s' inode = m" "file_data s' inode = page_file b"
    "\<forall>i < 4096. i \<noteq> inode \<longrightarrow> fs_page s' i = fs_page s i \<and> file_data s' i = file_data s i"
    "\<forall>i < 60. node_slot (flash s' (root s')) i = node_slot (flash s (root s)) i"
    "take (K - 3) (free_seq s') = drop 3 (take K (free_seq s))"
    using save img(1,2) p(3) by auto
  have wd: "write_data d (int off) (int n) (write_struct p (s1\<lparr>buf1 := old\<rparr>)) = Some (s1\<lparr>buf1 := b\<rparr>)"
    using write_data_buf1 [OF lo n(1,3), of p s1] by (simp add: b_def)
  have nm: "nat ((int n + int off) mod 65536) = off + n" using n(3) by simp
  have big: "page\<lparr>pg_unused := False, pg_root := False, pg_size := nat (int n + int off)\<rparr> = p"
    if "int (pg_size page) < int n + int off"
    using that pg(1,3) by (auto simp: p_def z_def max_def nat_add_distrib intro!: fs_page_t.equality)
  have small: "page\<lparr>pg_unused := False, pg_root := False\<rparr> = p" if "\<not> int (pg_size page) < int n + int off"
    using that pg(1,3) by (auto simp: p_def z_def max_def intro!: fs_page_t.equality)
  have "rewrite_loop d inode ?P False (int off) (int n) s = Some (FS_OK, s')"
    by (subst rewrite_loop.simps)
      (use a s'(1) wd n(3) pg(1) in \<open>auto simp: FS_DATASIZE_def load rd Let_def big small\<close>)
  moreover have "write_seek s inode ?P (int off) = Some (Inr (inode, ?P, int off))"
    using n(3) by (subst write_seek.simps) (simp add: FS_DATASIZE_def)
  ultimately have "fs_write inode d (int off) (int n) s = Some (FS_OK, s')"
    using inode(2) by (simp add: fs_write_def)
  with s' isfile a(2) show ?thesis by auto
qed

lemma fs_read_one:
  assumes ok: "fs_ok K s" and inode: "inode < 4096" "fs_page s inode \<noteq> BAD"
    and data: "file_data s inode = Some data" and off: "off < 512" and n: "n < 65000"
  shows "fs_read s inode buf (int off) (int n) =
    (if length data \<le> off then Some (0, buf)
     else if off + n \<le> length data then
       if off + n \<le> length buf then
         Some (int n, memcpy_at 0 (df_flash_read (fs_page s inode) (15 + off) (off + n) s) buf)
       else None
     else if length data - off \<le> length buf then
       Some (int (length data - off), memcpy_at 0 (drop off data) buf)
     else None)"
proof -
  note f = file_dataD [OF ok inode data]
  let ?P = "fs_page s inode"
  have seek: "read_seek s ?P (int off) = Some (Inr (?P, int off))"
    using off by (subst read_seek.simps) (simp add: FS_DATASIZE_def)
  have nm: "nat ((int n + int off) mod 65536) = off + n" using n off by simp
  have nz: "nat ((int (length data) - int off) mod 65536) = length data - off" if "off \<le> length data"
    using that f(7) by (simp add: nat_mod_distrib)
  have rd: "df_flash_read ?P (15 + off) (length data - off) s = drop off data" if "off \<le> length data"
  proof -
    have "df_flash_read ?P (15 + off) (length data - off) s = slice (15 + off) (length data - off) (flash s ?P)"
      using f(1,7,9) that by (simp add: df_flash_read_def read_wrapped_slice)
    also have "\<dots> = drop off (slice 15 (length data) (flash s ?P))"
      by (simp add: slice_def drop_take add.commute)
    finally show ?thesis using f(8) by simp
  qed
  have lrd: "length (df_flash_read q x k s) = k" for q x k by (simp add: df_flash_read_def)
  show ?thesis
    unfolding fs_read_def Let_def using inode(2)
    by (subst read_loop.simps)
      (auto simp: seek f(4,6) read_into_def FS_DATA_OFFSET_def nm nz rd lrd Let_def of_nat_diff)
qed

lemma fs_truncate_one:
  assumes ok: "fs_ok K s" and K: "3 \<le> K" and inode: "inode < 4096" "fs_page s inode \<noteq> BAD"
    and data: "file_data s inode = Some data" and n: "n < length data"
  shows "\<exists>s'. fs_truncate inode (int n) s = Some (FS_OK, s') \<and> fs_ok (K - 3) s' \<and>
    fs_page s' inode \<noteq> BAD \<and> file_data s' inode = Some (take n data) \<and>
    (\<forall>i < 4096. i \<noteq> inode \<longrightarrow> fs_page s' i = fs_page s i \<and> file_data s' i = file_data s i) \<and>
    (\<forall>i < 60. node_slot (flash s' (root s')) i = node_slot (flash s (root s)) i)"
proof -
  note f = file_dataD [OF ok inode data]
  obtain m t s1 where a: "fs_new_page s = Some (m, t)" "m \<noteq> BAD" "fs_update_inodetable inode m t = Some (FS_OK, s1)"
    and ok1: "fs_ok (K - 3) s1" and fl: "\<forall>p \<in> live s. flash s1 p = flash s p"
    and save: "\<forall>b. length b = 528 \<longrightarrow> \<not> pg_root (get_fs_page b) \<longrightarrow>
      (\<exists>s'. df_buf_save DF_BUF1 m (s1\<lparr>buf1 := b\<rparr>) = s' \<and> fs_ok (K - 3) s' \<and>
        fs_page s' inode = m \<and> flash s' m = b \<and> (\<forall>p \<in> live s. flash s' p = flash s p) \<and>
        file_data s' inode = page_file b \<and>
        (\<forall>i < 4096. i \<noteq> inode \<longrightarrow> fs_page s' i = fs_page s i \<and> file_data s' i = file_data s i) \<and>
        (\<forall>i < 60. node_slot (flash s' (root s')) i = node_slot (flash s (root s)) i) \<and>
        take (K - 3) (free_seq s') = drop 3 (take K (free_seq s)))"
    using save_page [OF ok K inode(1)] by (elim exE conjE)
  let ?P = "fs_page s inode"
  define old where "old = flash s ?P"
  have lo: "length old = 528" using f(9) by (simp add: old_def)
  have load: "df_buf_load DF_BUF1 ?P s1 = s1\<lparr>buf1 := old\<rparr>"
    using fl f(1,2) by (simp add: df_buf_load_def set_buffer_def old_def)
  have rd: "page_data (s1\<lparr>buf1 := old\<rparr>) ?P = get_fs_page old"
  proof -
    have "chip_ok (s1\<lparr>buf1 := old\<rparr>)" using fs_okD(1) [OF ok1] lo by (simp add: chip_ok_def)
    from page_data_flash [OF this f(1)] show ?thesis using fl f(2) by (simp add: old_def)
  qed
  define p where "p = (get_fs_page old)\<lparr>pg_size := n, pg_eof := True\<rparr>"
  have p: "pg_next_inode p < 4096" "pg_eof p" "\<not> pg_root p" "pg_size p = n"
    using f(3,5) by (simp_all add: p_def next_inode_lt old_def)
  define b where "b = page_image p 0 [] old"
  have l: "0 + length ([] :: u8 list) \<le> 512" by simp
  have n5: "n \<le> 512" "nat (int n mod 65536) = n" using n f(7) by simp_all
  have img: "length b = 528" "get_fs_page b = p" "page_file b = Some (take n (slice 15 512 old))"
    using page_image(1,2) [OF lo l p(1)] page_file_image [OF lo l p(1-3)] p(4) n5
    by (simp_all add: b_def)
  have "take n (slice 15 512 old) = take n (slice 15 (length data) old)"
    using n f(7) by (simp add: slice_def min_def)
  with img(3) f(8) have isfile: "page_file b = Some (take n data)" by (simp add: old_def)
  obtain s' where s': "df_buf_save DF_BUF1 m (s1\<lparr>buf1 := b\<rparr>) = s'" "fs_ok (K - 3) s'"
    "fs_page s' inode = m" "file_data s' inode = page_file b"
    "\<forall>i < 4096. i \<noteq> inode \<longrightarrow> fs_page s' i = fs_page s i \<and> file_data s' i = file_data s i"
    "\<forall>i < 60. node_slot (flash s' (root s')) i = node_slot (flash s (root s)) i"
    using save img(1,2) p(3) by auto
  have seek: "truncate_seek s inode ?P (int n) = Some (Inr (inode, ?P, int n))"
    using n5 by (subst truncate_seek.simps) (simp add: FS_DATASIZE_def)
  have ws: "write_struct p (s1\<lparr>buf1 := old\<rparr>) = s1\<lparr>buf1 := b\<rparr>"
    using lo by (simp add: write_struct_buf1 b_def page_image_def)
  have "fs_truncate inode (int n) s = Some (FS_OK, s')"
    using inode(2) f(6) n seek a s'(1)
    by (simp add: fs_truncate_def load rd n5 ws [unfolded p_def] Let_def)
  with s' isfile a(2) show ?thesis by auto
qed

lemma fs_size_one:
  assumes "fs_ok K s" "inode < 4096" "file_data s inode = Some data"
  shows "fs_size s inode = Some (int (length data))"
proof (cases "fs_page s inode = BAD")
  case True
  then show ?thesis using assms(3) fs_okD(2) [OF assms(1)]
    by (simp add: fs_size_def file_data_def) (subst size_loop.simps, simp)
next
  case False
  note f = file_dataD [OF assms(1,2) False assms(3)]
  from False f(4,6) fs_okD(2) [OF assms(1)] show ?thesis
    by (simp add: fs_size_def) (subst size_loop.simps, simp add: Let_def)
qed

text \<open>One write to a file of at most one page, new or not.\<close>

lemma fs_write_one:
  assumes "fs_ok K s" "3 \<le> K" "inode < 4096" "file_data s inode = Some data"
    and "n \<le> length d" "off \<le> length data" "off + n \<le> 512"
  shows "\<exists>s'. fs_write inode d (int off) (int n) s = Some (FS_OK, s') \<and> fs_ok (K - 3) s' \<and>
    fs_page s' inode \<noteq> BAD \<and> file_data s' inode = Some (overlay off (take n d) data) \<and>
    (\<forall>i < 4096. i \<noteq> inode \<longrightarrow> fs_page s' i = fs_page s i \<and> file_data s' i = file_data s i) \<and>
    (\<forall>i < 60. node_slot (flash s' (root s')) i = node_slot (flash s (root s)) i) \<and>
    take (K - 3) (free_seq s') = drop 3 (take K (free_seq s))"
proof (cases "fs_page s inode = BAD")
  case True
  then have "data = []" "off = 0" using assms(4,6) by (auto simp: file_data_def)
  then show ?thesis using fs_write_new [OF assms(1-3) True assms(5)] assms(7) by (simp add: overlay_def)
next
  case False
  then show ?thesis using fs_write_again [OF assms(1-3) False assms(4-7)] by blast
qed

section \<open>Files of two pages\<close>

lemma fs_write_two:
  assumes ok: "fs_ok K s" and K: "6 \<le> K" and inode: "inode < 4096" "fs_page s inode = BAD"
    and n: "n \<le> length d" "512 < n" "n \<le> 1024"
    and another: "j < 4096" "j \<noteq> inode" "fs_page s j = BAD"
  shows "\<exists>s' j. fs_write inode d 0 (int n) s = Some (FS_OK, s') \<and> fs_ok (K - 6) s' \<and> j < 4096 \<and>
    fs_page s' inode < 4096 \<and> fs_page s' inode \<noteq> BAD \<and> \<not> pg_eof (page_data s' (fs_page s' inode)) \<and>
    pg_size (page_data s' (fs_page s' inode)) = 512 \<and> pg_next_inode (page_data s' (fs_page s' inode)) = j \<and>
    slice 15 512 (flash s' (fs_page s' inode)) = take 512 d \<and>
    fs_page s' j \<noteq> BAD \<and> file_data s' j = Some (take (n - 512) d)"
proof -
  let ?s = "junked s"
  note jk = junked [OF ok]
  have K3: "3 \<le> K" "3 \<le> K - 3" "K - 3 - 3 = K - 6" using K by simp_all
  obtain m t s1 where a: "fs_new_page ?s = Some (m, t)" "m \<noteq> BAD" "fs_update_inodetable inode m t = Some (FS_OK, s1)"
    and ok1: "fs_ok (K - 3) s1"
    and pg1: "\<forall>i < 4096. fs_page s1 i = (if i = inode then m else fs_page ?s i)"
    and save: "\<forall>b. length b = 528 \<longrightarrow> \<not> pg_root (get_fs_page b) \<longrightarrow>
      (\<exists>s'. df_buf_save DF_BUF1 m (s1\<lparr>buf1 := b\<rparr>) = s' \<and> fs_ok (K - 3) s' \<and>
        fs_page s' inode = m \<and> flash s' m = b \<and> (\<forall>p \<in> live ?s. flash s' p = flash ?s p) \<and>
        file_data s' inode = page_file b \<and>
        (\<forall>i < 4096. i \<noteq> inode \<longrightarrow> fs_page s' i = fs_page ?s i \<and> file_data s' i = file_data ?s i) \<and>
        (\<forall>i < 60. node_slot (flash s' (root s')) i = node_slot (flash ?s (root ?s)) i) \<and>
        take (K - 3) (free_seq s') = drop 3 (take K (free_seq ?s)))"
    using save_page [OF jk(1) K3(1) inode(1)] by (elim exE conjE)
  define k where "k = fs_new_inode s1"
  have "find (\<lambda>x. fs_page s1 x = BAD) [0..<4096] \<noteq> None"
    using another pg1 by (auto simp: find_None_iff jk(2) simp del: upt_rec_numeral)
  then obtain x where x: "find (\<lambda>x. fs_page s1 x = BAD) [0..<4096] = Some x" by blast
  then have k: "k = x" by (simp add: k_def fs_new_inode_eq [OF ok1] del: upt_rec_numeral)
  have kx: "k < 4096" "fs_page s1 k = BAD" using x by (auto simp: k find_Some_iff simp del: upt_rec_numeral)
  have ne: "k \<noteq> inode" using kx(2) pg1 inode(1) a(2) by auto
  have lb: "length (buf1 s1) = 528" using fs_okD(1) [OF ok1] by (simp add: chip_ok_def)
  define p where "p = (stack_page s)\<lparr>pg_eof := False, pg_root := False, pg_next_inode := k, pg_size := 512\<rparr>"
  have p: "pg_next_inode p = k" "\<not> pg_eof p" "\<not> pg_root p" "pg_size p = 512"
    by (simp_all add: p_def)
  define b where "b = page_image p 0 (take 512 d) (buf1 s1)"
  have l: "0 + length (take 512 d) \<le> 512" "length (take 512 d) = 512" using n by simp_all
  have img: "length b = 528" "get_fs_page b = p" "slice 15 512 b = take 512 d"
    using page_image(1,2) [OF lb l(1), of p] page_image(3) [OF lb l(1), of p 512] p kx(1) lb l(2)
    by (simp_all add: b_def memcpy_at_def)
  obtain s2 where s2: "df_buf_save DF_BUF1 m (s1\<lparr>buf1 := b\<rparr>) = s2" "fs_ok (K - 3) s2"
    "fs_page s2 inode = m" "flash s2 m = b"
    "\<forall>i < 4096. i \<noteq> inode \<longrightarrow> fs_page s2 i = fs_page ?s i \<and> file_data s2 i = file_data ?s i"
    using save img(1,2) p(3) by auto
  have kn: "pg_next_inode p < 4096" using kx(1) p(1) by simp
  have rest: "n - 512 \<le> length d" "n - 512 \<le> 512" using n by auto
  obtain s' where s': "write_loop d k p (int (n - 512)) s2 = Some (FS_OK, s')" "fs_ok (K - 3 - 3) s'"
    "fs_page s' k \<noteq> BAD" "file_data s' k = Some (take (n - 512) d)"
    "\<forall>i < 4096. i \<noteq> k \<longrightarrow> fs_page s' i = fs_page s2 i \<and> file_data s' i = file_data s2 i"
    "\<forall>p \<in> live s2. flash s' p = flash s2 p"
    using write_loop_last [OF s2(2) K3(2) kx(1) kn rest] by (elim exE conjE)
  have wd: "write_data d 0 512 (write_struct p s1) = Some (s1\<lparr>buf1 := b\<rparr>)"
    using write_data_buf1 [OF lb, of 512 d 0 p s1] n by (simp add: b_def)
  have k4: "fs_new_inode s1 mod 4096 = k" "k \<noteq> BAD" using kx(1) by (simp_all add: k_def BAD_def flip: k_def)
  have "write_loop d inode (stack_page s) (int n) ?s = Some (FS_OK, s')"
    by (subst write_loop.simps)
      (use a n(2) wd s2(1) s'(1) k4 in \<open>simp add: FS_DATASIZE_def of_nat_diff flip: p_def\<close>)
  then have run: "fs_write inode d 0 (int n) s = Some (FS_OK, s')" by (simp add: fs_write_start inode(2))
  have pg': "fs_page s' inode = m" using s'(5) inode(1) ne s2(3) by simp
  have "m \<in> live s2" using s2(3) inode(1) by (auto simp: live_def)
  then have fl: "flash s' m = b" using s'(6) s2(4) by simp
  have m: "m < 4096" using fs_page_lt [of s' inode] pg' a(2) by simp
  have "page_data s' m = p"
    using page_data_flash [OF fs_okD(1) [OF s'(2)] m] fl img(2) by simp
  with run s' pg' m a(2) fl img(3) p kx(1) K3(3) show ?thesis
    by (intro exI [of _ s'] exI [of _ k]) auto
qed

lemma fs_read_two:
  assumes ok: "fs_ok K s" and j: "j < 4096" and p: "fs_page s inode < 4096" "fs_page s inode \<noteq> BAD"
    and page: "\<not> pg_eof (page_data s (fs_page s inode))" "pg_size (page_data s (fs_page s inode)) = 512"
      "pg_next_inode (page_data s (fs_page s inode)) = j"
    and a: "slice 15 512 (flash s (fs_page s inode)) = a" "length a = 512"
    and b: "fs_page s j \<noteq> BAD" "file_data s j = Some b" "0 < length b" and buf: "512 + length b \<le> length buf"
  shows "fs_read s inode buf 0 (int (512 + length b)) = Some (int (512 + length b), memcpy_at 0 (a @ b) buf)"
proof -
  note f = file_dataD [OF ok j b(1,2)]
  let ?P = "fs_page s inode"
  have lp: "length (flash s ?P) = 528" using chip_okD(3) [OF fs_okD(1) [OF ok]] p(1) by simp
  have seek: "read_seek s ?P 0 = Some (Inr (?P, 0))"
    by (subst read_seek.simps) (simp add: FS_DATASIZE_def)
  have r1: "df_flash_read ?P 15 512 s = a"
    using a(1) lp p(1) by (simp add: df_flash_read_def read_wrapped_slice)
  have r2: "df_flash_read (fs_page s j) 15 (length b) s = b"
    using f(1,7,8,9) by (simp add: df_flash_read_def read_wrapped_slice)
  have nb: "nat (int (length b) mod 65536) = length b" using f(7) by simp
  define c where "c = memcpy_at 0 a buf"
  have c: "memcpy_at 512 b c = memcpy_at 0 (a @ b) buf" "length c = length buf"
    using a(2) buf by (simp_all add: c_def memcpy_at_def add.commute)
  have i1: "read_into s ?P 0 512 0 buf = Some c"
    using buf a(2) by (simp add: read_into_def FS_DATA_OFFSET_def r1 c_def)
  have i2: "read_into s (fs_page s j) 0 (int (length b)) 512 c = Some (memcpy_at 0 (a @ b) buf)"
    using buf by (simp add: read_into_def FS_DATA_OFFSET_def nb r2 c)
  have "read_loop s (fs_page s j) 512 c 0 (int (length b)) 512 =
      Some (512 + int (length b), memcpy_at 0 (a @ b) buf)"
    by (subst read_loop.simps) (simp add: f(6) Let_def i2)
  then have "read_loop s ?P 0 buf 0 (int (512 + length b)) 0 =
      Some (512 + int (length b), memcpy_at 0 (a @ b) buf)"
    by (subst read_loop.simps) (use b(1,3) in \<open>simp add: page Let_def i1 FS_DATASIZE_def\<close>)
  then show ?thesis using p(2) seek by (simp add: fs_read_def page)
qed

end
