(* ===== verification/Fs_Spec.thy ===== *)
theory Fs_Spec imports Fs_Io begin

text \<open>
  The properties of the dataflash file system: crash safety, allocation, the directory and the
  contents of files.  Every one is about a state in which \<open>K\<close> pages can still be allocated before
  the allocator meets a page in use (\<open>fs_ok K\<close>); initialising an empty chip gives such a state
  with \<open>K = 4000\<close>, which is also where the examples start.
\<close>

lemma blank_ok: "chip_ok (blank_fs (\<lambda>p. replicate 528 255))"
  by (simp add: chip_ok_def blank_fs_def)

lemma empty_fs:
  "\<exists>s. fs_ok 4000 s \<and> dir_wf s 0 \<and> dir s = [] \<and> root s = 0 \<and> free_seq s = [17..<4096] \<and>
    (\<forall>i < 4096. fs_page s i = BAD)"
proof -
  define s where "s = (blank_fs (\<lambda>p. replicate 528 255))\<lparr>buf1 := replicate 528 255\<rparr>"
  have "chip_ok s" "heap_ok s" by (simp_all add: s_def chip_ok_def blank_fs_def)
  moreover have "\<forall>p < 4096. pg_unused (get_fs_page (flash s p)) \<or> \<not> pg_root (get_fs_page (flash s p))"
    by (simp add: s_def blank_fs_def get_fs_page_def flag12_0)
  moreover have "bit (buf1 s ! 525) 0" by (simp add: s_def)
  ultimately obtain s' where "fs_ok 4000 s'" "dir s' = []" "root s' = 0" "free_seq s' = [17..<4096]"
    "\<forall>i < 60. nd_unused (node_at s' i)" "\<forall>i < 4096. fs_page s' i = BAD"
    using fs_init_empty [of s] by blast
  then show ?thesis by (intro exI [of _ s']) (simp add: dir_wf_def)
qed

section \<open>Crash safety\<close>

text \<open>
  The flash at any moment of an update: nothing written yet, the new inode table partly written,
  or complete and the new root partly written.  A page cut off in the middle may hold any bytes
  that do not happen to be a root page of the new version with a matching checksum.
\<close>

definition during_update :: "fs_t \<Rightarrow> fs_t \<Rightarrow> (nat \<Rightarrow> u8 list) \<Rightarrow> bool" where
  "during_update s s' f \<longleftrightarrow> f = flash s \<or>
    (\<exists>g. length g = 528 \<and> (valid_root g \<longrightarrow> root_version g < version s) \<and>
      (f = (flash s)(hd (free_seq s) := g) \<or> f = (flash s')(root s' := g)))"

lemma update_states:
  assumes ok: "fs_ok K s" and K: "2 \<le> K" and inode: "inode < 4096"
    and run: "fs_update_inodetable inode page s = Some (FS_OK, s')"
  shows "hd (free_seq s) \<noteq> root s" "hd (free_seq s) < 4096" "full_pages (flash s)"
    "root s' \<noteq> root s" "root s' < 4096" "full_pages (flash s')"
    "valid_root (flash s' (root s'))" "root_version (flash s' (root s')) = version s + 1"
    "current_root ((flash s')(root s' := flash s (root s'))) (root s)"
    "flash s' (root s) = flash s (root s)"
proof -
  note okD = fs_okD [OF ok] and chip = chip_okD [OF fs_okD(1) [OF ok]]
  obtain n1 n2 ns where seq: "free_seq s = n1 # n2 # ns"
    and eq: "fs_update_inodetable inode page s = Some (FS_OK,
      s\<lparr>version := version s + 1, buf1 := root_page s inode n1, last_free := n2,
        junk := (\<lambda>i. junk s (2 + i)),
        flash := (flash s)(n1 := table_page s inode page, n2 := root_page s inode n1), root := n2\<rparr>)"
    by (rule fs_update_inodetable_eq [OF ok K inode])
  have s': "root s' = n2" "flash s' = (flash s)(n1 := table_page s inode page, n2 := root_page s inode n1)"
    using run eq by auto
  have n: "n1 < 4096" "n2 < 4096" "n1 \<noteq> n2"
    using free_seq_lt [of _ s] chip(5) seq distinct_free_seq [of s] by auto
  have "n1 \<in> set (take K (free_seq s))" "n2 \<in> set (take K (free_seq s))"
    using seq K by (auto simp: take_Cons')
  then have nr: "n1 \<noteq> root s" "n2 \<noteq> root s" using okD(9) by (auto simp: live_def)
  note R = root_page_valid [OF ok _ inode, of n1] and T = table_page_not_root [OF ok inode, of page]
  show "hd (free_seq s) \<noteq> root s" "hd (free_seq s) < 4096" "root s' \<noteq> root s" "root s' < 4096"
    "flash s' (root s) = flash s (root s)"
    using seq nr n s' by simp_all
  show "full_pages (flash s)" using chip(3) by (simp add: full_pages_def)
  then show "full_pages (flash s')" using R(3) T(2) K by (simp add: full_pages_def s')
  show "valid_root (flash s' (root s'))" "root_version (flash s' (root s')) = version s + 1"
    using R(1,2) K by (simp_all add: s')
  have "(flash s')(root s' := flash s (root s')) = (flash s)(n1 := table_page s inode page)"
    using n(3) by (auto simp: s')
  moreover have "current_root ((flash s)(n1 := table_page s inode page)) (root s)"
    by (rule roots.current_torn [OF okD(3) nr(1)]) (use T(1) in \<open>simp add: valid_root_def\<close>)
  ultimately show "current_root ((flash s')(root s' := flash s (root s'))) (root s)" by simp
qed

text \<open>
  C6. Updating an inode is atomic.  Whatever instant of fs_update_inodetable the power fails at,
  fs_scan afterwards finds the root page of before the update, and so the old file system; once
  the new root page is complete it finds that one, with the next version.  Afterwards only the
  inode's own entry has changed, and every page in use before still has its contents.
\<close>

theorem fs_update_atomic:
  assumes ok: "fs_ok K s" and K: "2 \<le> K" and inode: "inode < 4096" and page: "page = BAD \<or> page < 4096"
    and fresh: "page \<notin> set (drop 2 (take K (free_seq s)))"
  shows "\<exists>s'. fs_update_inodetable inode page s = Some (FS_OK, s') \<and> fs_ok (K - 2) s' \<and>
    (\<forall>i < 4096. fs_page s' i = (if i = inode then page else fs_page s i)) \<and>
    (\<forall>p \<in> live s. flash s' p = flash s p) \<and>
    (\<forall>u. chip_ok u \<longrightarrow> heap_ok u \<longrightarrow>
      (during_update s s' (flash u) \<longrightarrow>
        (\<exists>b. fs_scan u = (FS_OK, u\<lparr>buf1 := b, version := version s, root := root s\<rparr>))) \<and>
      (flash u = flash s' \<longrightarrow>
        (\<exists>b. fs_scan u = (FS_OK, u\<lparr>buf1 := b, version := version s + 1, root := root s'\<rparr>))))"
proof -
  note okD = fs_okD [OF ok]
  obtain s' where run: "fs_update_inodetable inode page s = Some (FS_OK, s')"
    and upd: "updated K inode page s s'"
    using fs_update_step [OF ok K inode page fresh] by blast
  note st = update_states [OF ok K inode run]
  have cur': "current_root (flash s') (root s')"
    using roots.current_commit [OF st(9,5,7)] st(4,8,10) okD(4) by simp
  have live: "flash s' p = flash s p" if "p \<in> live s" for p
  proof -
    have "p \<notin> set (take 2 (free_seq s))"
    proof
      assume "p \<in> set (take 2 (free_seq s))"
      then have "p \<in> set (take K (free_seq s))" by (rule subsetD [OF set_take_subset_set_take [OF K]])
      then show False using okD(9) that by blast
    qed
    then show ?thesis using upd by (simp add: updated_def)
  qed
  have old: "current_root (flash u) (root s) \<and> flash u (root s) = flash s (root s)"
    if "during_update s s' (flash u)" for u
    using that unfolding during_update_def
  proof (elim disjE exE conjE)
    assume "flash u = flash s"
    then show ?thesis using okD(3) by simp
  next
    fix g assume g: "valid_root g \<longrightarrow> root_version g < version s" "flash u = (flash s)(hd (free_seq s) := g)"
    then show ?thesis using roots.current_torn [OF okD(3) st(1), of g] okD(4) st(1) by auto
  next
    fix g assume g: "valid_root g \<longrightarrow> root_version g < version s" "flash u = (flash s')(root s' := g)"
    then show ?thesis using roots.current_torn [OF st(9,4), of g] okD(4) st(4,10) by auto
  qed
  have "\<exists>b. fs_scan u = (FS_OK, u\<lparr>buf1 := b, version := version s, root := root s\<rparr>)"
    if "chip_ok u" "heap_ok u" "during_update s s' (flash u)" for u
    using fs_scan_current [OF that(1,2) old [OF that(3), THEN conjunct1]] old [OF that(3)] okD(4) by auto
  moreover have "\<exists>b. fs_scan u = (FS_OK, u\<lparr>buf1 := b, version := version s + 1, root := root s'\<rparr>)"
    if "chip_ok u" "heap_ok u" "flash u = flash s'" for u
    using fs_scan_current [OF that(1,2), of "root s'"] cur' that(3) st(8) by auto
  ultimately show ?thesis using run upd live by (intro exI [of _ s']) (auto simp: updated_def)
qed

theorem fs_update_atomic_witness:
  "\<exists>s s'. fs_ok 4000 s \<and> fs_update_inodetable 7 BAD s = Some (FS_OK, s') \<and> during_update s s' (flash s) \<and>
    (\<exists>b. fs_scan s = (FS_OK, s\<lparr>buf1 := b, version := version s, root := root s\<rparr>))"
proof -
  obtain s where s: "fs_ok 4000 s" "free_seq s = [17..<4096]" using empty_fs by blast
  have le7: "2 \<le> (4000 :: nat)" "7 < (4096 :: nat)" by simp_all
  have nb: "BAD \<notin> set (drop 2 (take 4000 (free_seq s)))"
    using s(2) by (auto simp: BAD_def simp del: upt_rec_numeral dest!: in_set_dropD in_set_takeD)
  obtain s' where "fs_update_inodetable 7 BAD s = Some (FS_OK, s')"
    "\<forall>u. chip_ok u \<longrightarrow> heap_ok u \<longrightarrow>
      (during_update s s' (flash u) \<longrightarrow>
        (\<exists>b. fs_scan u = (FS_OK, u\<lparr>buf1 := b, version := version s, root := root s\<rparr>))) \<and>
      (flash u = flash s' \<longrightarrow>
        (\<exists>b. fs_scan u = (FS_OK, u\<lparr>buf1 := b, version := version s + 1, root := root s'\<rparr>)))"
    using fs_update_atomic [OF s(1) le7(1,2) disjI1 [OF refl] nb] by (elim exE conjE)
  then have "fs_update_inodetable 7 BAD s = Some (FS_OK, s')"
    "during_update s s' (flash s) \<longrightarrow>
        (\<exists>b. fs_scan s = (FS_OK, s\<lparr>buf1 := b, version := version s, root := root s\<rparr>))"
    using fs_okD(1,2) [OF s(1)] by blast+
  moreover have "during_update s s' (flash s)" by (simp add: during_update_def)
  ultimately show ?thesis using s(1) by blast
qed

section \<open>Allocation\<close>

fun alloc_pages :: "nat \<Rightarrow> fs_t \<Rightarrow> (nat list \<times> fs_t) option" where
  "alloc_pages 0 s = Some ([], s)"
| "alloc_pages (Suc k) s = do {
    (page, s) \<leftarrow> fs_new_page s;
    (pages, s) \<leftarrow> alloc_pages k s;
    Some (page # pages, s)
  }"

lemma alloc_pages_seq:
  assumes "last_free s < 4096" "k \<le> length (free_seq s)"
  shows "alloc_pages k s =
    Some (take k (free_seq s), s\<lparr>last_free := last (last_free s # take k (free_seq s))\<rparr>)"
  using assms
proof (induction k arbitrary: s)
  case (Suc k)
  then obtain p ps where seq: "free_seq s = p # ps" by (cases "free_seq s") auto
  have p: "p < 4096" using free_seq_lt [of p s] seq Suc.prems(1) by simp
  let ?s = "s\<lparr>last_free := p\<rparr>"
  obtain xs where "free_seq ?s = ps @ xs" using free_seq_next [OF seq Suc.prems(1), of ?s] by auto
  with Suc.IH [of ?s] p Suc.prems seq show ?case by (simp add: fs_new_page_eq)
qed simp

lemma alloc_pages_add:
  "alloc_pages (m + n) s = do { (xs, s) \<leftarrow> alloc_pages m s; (ys, s) \<leftarrow> alloc_pages n s; Some (xs @ ys, s) }"
proof (induction m arbitrary: s)
  case 0
  show ?case by (cases "alloc_pages n s") auto
next
  case (Suc m)
  show ?case by (cases "fs_new_page s") (auto simp: Suc.IH split: prod.splits Option.bind_splits)
qed

lemma find_filter: "find P xs = (case filter P xs of [] \<Rightarrow> None | x # _ \<Rightarrow> Some x)"
  by (induction xs) auto

text \<open>
  C0. fs_new_page always returns: it gives the first page behind \<open>last_free\<close>, around the end of the
  chip, whose bit in the second buffer says free, and 0xffff exactly when there is none.
\<close>

theorem fs_new_page_returns:
  assumes "last_free s < 4096"
  shows "\<exists>page s'. fs_new_page s = Some (page, s') \<and>
    (case find (\<lambda>q. \<not> fs_used s q) ([last_free s + 1..<4096] @ [0..<last_free s]) of
      None \<Rightarrow> page = BAD \<and> s' = s
    | Some q \<Rightarrow> page = q \<and> s' = s\<lparr>last_free := q\<rparr>)"
  unfolding find_filter fs_new_page_eq [OF assms] free_seq_def page_seq_def by (simp split: list.split)

theorem fs_new_page_returns_witness:
  "\<exists>s s'. fs_ok 4000 s \<and> fs_new_page s = Some (17, s')"
proof -
  obtain s where s: "fs_ok 4000 s" "free_seq s = [17..<4096]" using empty_fs by blast
  have lf: "last_free s < 4096" using chip_okD(5) [OF fs_okD(1) [OF s(1)]] .
  have "free_seq s = 17 # [18..<4096]" unfolding s(2) by (simp add: upt_conv_Cons del: upt_rec_numeral)
  then have "find (\<lambda>q. \<not> fs_used s q) ([last_free s + 1..<4096] @ [0..<last_free s]) = Some 17"
    unfolding find_filter by (simp only: free_seq_def page_seq_def list.case)
  then show ?thesis using fs_new_page_returns [OF lf] s(1) by auto
qed

text \<open>
  The allocator never records what it hands out: pages are marked only when fs_init scans the
  chip.  After one allocation for every page that was unmarked then, with all of them holding
  data by now, the allocator is in the very state it started in and hands out the same pages again.
\<close>

theorem fs_new_page_hands_out_twice:
  assumes lf: "last_free s < 4096" "\<not> fs_used s (last_free s)" "free_seq s \<noteq> []"
  shows "alloc_pages (2 * (length (free_seq s) + 1)) s =
    Some ((free_seq s @ [last_free s]) @ free_seq s @ [last_free s], s)"
proof -
  let ?n = "length (free_seq s)"
  define e where "e = last (free_seq s)"
  define t where "t = s\<lparr>last_free := e\<rparr>"
  have run1: "alloc_pages ?n s = Some (free_seq s, t)"
    using alloc_pages_seq [OF lf(1), of ?n] lf(3) by (simp add: t_def e_def)
  have "e \<in> set (free_seq s)" using lf(3) by (simp add: e_def)
  then have l: "e \<in> set (page_seq (last_free s))" "\<not> fs_used s e" "e < 4096" "e \<noteq> last_free s"
    using lf(1) free_seq_lt free_seq_ne by (auto simp: free_seq_def)
  obtain A B where AB: "page_seq (last_free s) = A @ e # B" "page_seq e = B @ last_free s # A"
    by (rule page_seq_rotate [OF l(1) lf(1)])
  have "filter (\<lambda>q. \<not> fs_used s q) B = []"
  proof (rule ccontr)
    assume ne: "filter (\<lambda>q. \<not> fs_used s q) B \<noteq> []"
    have seq: "free_seq s = filter (\<lambda>q. \<not> fs_used s q) A @ e # filter (\<lambda>q. \<not> fs_used s q) B"
      using l(2) AB(1) by (simp add: free_seq_def)
    with ne have "e = last (filter (\<lambda>q. \<not> fs_used s q) B)"
      unfolding e_def by (metis last.simps last_appendR list.distinct(1))
    with ne have "e \<in> set (filter (\<lambda>q. \<not> fs_used s q) B)" by (metis last_in_set)
    moreover have "distinct (filter (\<lambda>q. \<not> fs_used s q) A @ e # filter (\<lambda>q. \<not> fs_used s q) B)"
      using distinct_free_seq [of s] by (simp only: seq)
    ultimately show False by simp
  qed
  then have "free_seq t = last_free s # filter (\<lambda>q. \<not> fs_used s q) A"
    using AB(2) lf(2) by (simp add: free_seq_def t_def fs_used_def df_buf_read_def buffer_def)
  then have "fs_new_page t = Some (last_free s, t\<lparr>last_free := last_free s\<rparr>)"
    using l(3) by (simp add: fs_new_page_eq t_def)
  moreover have "t\<lparr>last_free := last_free s\<rparr> = s" by (simp add: t_def)
  ultimately have run2: "alloc_pages 1 t = Some ([last_free s], s)" by simp
  have round: "alloc_pages (?n + 1) s = Some (free_seq s @ [last_free s], s)"
    by (simp only: alloc_pages_add [of ?n 1 s] run1 run2 bind.bind_lunit prod.case)
  have "2 * (?n + 1) = (?n + 1) + (?n + 1)" by simp
  then show ?thesis by (simp only: alloc_pages_add [of "?n + 1" "?n + 1"] round bind.bind_lunit prod.case)
qed

theorem fs_new_page_hands_out_twice_witness:
  "\<exists>s pages. alloc_pages (2 * (length pages + 1)) s = Some ((pages @ [0]) @ pages @ [0], s) \<and> length pages = 4095"
proof -
  define s where "s = (blank_fs (\<lambda>p. []))"
  have b: "buf2 s = replicate 528 255" "last_free s = 0" by (simp_all add: s_def blank_fs_def)
  have u: "\<not> fs_used s q" if "q < 4096" for q using unused_all [of s q] b(1) that by simp
  have seq: "free_seq s = [1..<4096]"
    using u by (simp add: free_seq_def page_seq_def b(2) filter_id_conv del: upt_rec_numeral)
  then have l: "free_seq s \<noteq> []" "length (free_seq s) = 4095" by (simp_all del: upt_rec_numeral)
  have "last_free s < 4096" "\<not> fs_used s (last_free s)" using u b(2) by simp_all
  from fs_new_page_hands_out_twice [OF this l(1)] b(2) l(2) show ?thesis
    by (intro exI [of _ s] exI [of _ "free_seq s"]) simp
qed

section \<open>Initialising\<close>

text \<open>
  fs_init on a chip without a root page formats it: the root goes to page 0, the 16 inode
  tables to the pages behind it, no file and no inode is in use and all other pages are free.  It
  relies on the chip's first buffer: bit 0 of its byte 525 must be set already, since fs_format
  fills the tables' last slot only in part.
\<close>

theorem fs_init_formats:
  assumes "chip_ok s" "heap_ok s"
    and "\<forall>p < 4096. pg_unused (get_fs_page (flash s p)) \<or> \<not> pg_root (get_fs_page (flash s p))"
    and "bit (buf1 s ! 525) 0"
  shows "\<exists>s'. fs_init s = Some (FS_OK, s') \<and> fs_ok 4000 s' \<and> root s' = 0 \<and> free_seq s' = [17..<4096] \<and>
    (\<forall>i < 4096. fs_page s' i = BAD) \<and> dir s' = []"
  using fs_init_empty [OF assms] by blast

theorem fs_init_formats_witness:
  "\<exists>s'. fs_init ((blank_fs (\<lambda>p. replicate 528 255))\<lparr>buf1 := replicate 528 255\<rparr>) = Some (FS_OK, s') \<and> dir s' = []"
proof -
  define s where "s = (blank_fs (\<lambda>p. replicate 528 255))\<lparr>buf1 := replicate 528 255\<rparr>"
  have "chip_ok s" "heap_ok s" by (simp_all add: s_def chip_ok_def blank_fs_def)
  moreover have "\<forall>p < 4096. pg_unused (get_fs_page (flash s p)) \<or> \<not> pg_root (get_fs_page (flash s p))"
    by (simp add: s_def blank_fs_def get_fs_page_def flag12_0)
  moreover have "bit (buf1 s ! 525) 0" by (simp add: s_def)
  ultimately show ?thesis unfolding s_def [symmetric] using fs_init_formats [of s] by blast
qed

section \<open>The directory\<close>

lemma map_insort_key: "map f (insort_key f x xs) = insort (f x) (map f xs)"
  by (induction xs) simp_all

lemma find_unique:
  assumes "distinct (map f xs)" "x \<in> set xs"
  shows "find (\<lambda>y. f y = f x) xs = Some x"
proof -
  have "inj_on f (set xs)" using assms(1) by (simp add: distinct_map)
  then have "y \<in> set xs \<Longrightarrow> (f y = f x) = (y = x)" for y using assms(2) by (auto simp: inj_on_def)
  then have "find (\<lambda>y. f y = f x) xs = find (\<lambda>y. y = x) xs" by (intro find_cong) auto
  also have "\<dots> = Some x" using assms(2) by (induction xs) auto
  finally show ?thesis .
qed

lemma fs_get_inode_dir:
  assumes "fs_ok K s" "dir_wf s n" "n < 60" "distinct (map key (dir s))" "x \<in> set (dir s)" "cstr 6 name = key x"
  shows "fs_get_inode s name = Some (nd_inode x)"
  using get_inode_from [OF fs_okD(1) assms(2,3), OF assms(1), of 0 name] find_unique [OF assms(4,5)]
    fs_okD(2) [OF assms(1)] dir_wf_dir [OF assms(2)] assms(6)
  by (simp add: fs_get_inode_def)

lemma fs_create_dir:
  assumes ok: "fs_ok K s" and K: "1 \<le> K" and wf: "dir_wf s n" and n: "n < 60"
    and sorted: "sorted (map key (dir s))" "distinct (map key (dir s))"
    and name: "0 \<notin> set name" "take 6 name \<notin> set (map key (dir s))"
  shows "\<exists>s' x. fs_create name s = Some (FS_OK, s') \<and> fs_ok (K - 1) s' \<and> dir_wf s' (n + 1) \<and>
    key x = take 6 name \<and> nd_inode x = fs_new_inode s mod 4096 \<and>
    map key (dir s') = insort (take 6 name) (map key (dir s)) \<and> distinct (map key (dir s')) \<and>
    set (dir s') = insert x (set (dir s)) \<and> (\<forall>i < 4096. fs_page s' i = fs_page s i)"
proof -
  have cn: "cstr 6 name = take 6 name" by (rule cstr_name [OF name(1)])
  have new: "cstr 6 name \<notin> key ` set (dir s)" using name(2) cn by simp
  obtain s' where s': "fs_create name s = Some (FS_OK, s')" "fs_ok (K - 1) s'" "dir_wf s' (n + 1)"
    and dir: "dir s' = (let k = length (filter (\<lambda>x. key x < cstr 6 name) (dir s))
              in take k (dir s) @ new_file s name n # drop k (dir s))"
    and pages: "\<forall>i < 4096. fs_page s' i = fs_page s i"
    using fs_create_step [OF ok K wf n new] by blast
  let ?x = "new_file s name n"
  have x: "key ?x = take 6 name" "nd_inode ?x = fs_new_inode s mod 4096"
    using cstr_strncpy [OF name(1)] by (simp_all add: new_file_def key_def)
  have ins: "dir s' = insort_key key ?x (dir s)"
    using insort_key_take_drop [OF sorted(1), of ?x] name(2) dir cn x(1) by simp
  have keys: "map key (dir s') = insort (take 6 name) (map key (dir s))"
    by (simp add: ins map_insort_key x(1))
  have "distinct (map key (dir s'))"
    unfolding keys using sorted(2) name(2) by (simp add: distinct_insort)
  moreover have "set (dir s') = insert ?x (set (dir s))" by (simp add: ins set_insort_key)
  ultimately show ?thesis
    using s' keys pages x by (intro exI [of _ s'] exI [of _ ?x] conjI) assumption+
qed

text \<open>
  C24. fs_create puts a new file into the sorted directory at its place.  The names are then the
  old ones with the new name inserted, looking the new name up gives the inode it was given,
  every other name still leads to its file, the tables of inodes are untouched, and a second
  attempt to create the name is refused without writing anything.
\<close>

theorem fs_create_inserts:
  assumes ok: "fs_ok K s" and K: "1 \<le> K" and wf: "dir_wf s n" and n: "n < 59"
    and sorted: "sorted (map key (dir s))" "distinct (map key (dir s))"
    and name: "0 \<notin> set name" "take 6 name \<notin> set (map key (dir s))"
  shows "\<exists>s'. fs_create name s = Some (FS_OK, s') \<and> fs_ok (K - 1) s' \<and> dir_wf s' (n + 1) \<and>
    map key (dir s') = insort (take 6 name) (map key (dir s)) \<and>
    fs_get_inode s' name = Some (fs_new_inode s mod 4096) \<and>
    (\<forall>x \<in> set (dir s). fs_get_inode s' (key x) = Some (nd_inode x)) \<and>
    (\<forall>i < 4096. fs_page s' i = fs_page s i) \<and>
    fs_create name s' = Some (FS_DUPLICATE, s')"
proof -
  have cn: "cstr 6 name = take 6 name" by (rule cstr_name [OF name(1)])
  have n60: "n < 60" "n + 1 < 60" using n by simp_all
  obtain s' x where s': "fs_create name s = Some (FS_OK, s')" "fs_ok (K - 1) s'" "dir_wf s' (n + 1)"
    and x: "key x = take 6 name" "nd_inode x = fs_new_inode s mod 4096"
    and keys: "map key (dir s') = insort (take 6 name) (map key (dir s))"
    and dist: "distinct (map key (dir s'))" and mem: "set (dir s') = insert x (set (dir s))"
    and pages: "\<forall>i < 4096. fs_page s' i = fs_page s i"
    using fs_create_dir [OF ok K wf n60(1) sorted name] by (elim exE conjE)
  have get: "fs_get_inode s' nm = Some (nd_inode y)" if "y \<in> set (dir s')" "cstr 6 nm = key y" for y nm
    by (rule fs_get_inode_dir [OF s'(2,3) n60(2) dist that])
  have "fs_create name s' = Some (FS_DUPLICATE, s')"
  proof -
    have "\<exists>y \<in> set (map (node_at s') [0..<n + 1]). key y = cstr 6 name"
      using dir_wf_dir [OF s'(3)] mem x(1) cn by (intro bexI [of _ x]) auto
    then show ?thesis
      using create_scan_from [OF fs_okD(1) [OF s'(2)] s'(3) n60(2), of 0 name 0] fs_okD(2) [OF s'(2)]
      by (simp add: fs_create_def Let_def del: upt_Suc)
  qed
  moreover have "fs_get_inode s' name = Some (fs_new_inode s mod 4096)"
    using get [of x name] mem x cn by simp
  moreover have "\<forall>y \<in> set (dir s). fs_get_inode s' (key y) = Some (nd_inode y)"
    using get mem by simp
  ultimately show ?thesis using s' keys pages by (intro exI [of _ s'] conjI) assumption+
qed

lemma new_inode_empty:
  assumes "fs_ok K s" "\<forall>i < 4096. fs_page s i = BAD"
  shows "fs_new_inode s = 0"
proof -
  have "[0..<4096] = 0 # [1..<4096 :: nat]"
    using upt_conv_Cons [of 0 4096] by (simp del: upt_rec_numeral)
  moreover have "find (\<lambda>x. fs_page s x = BAD) (0 # xs) = Some 0" for xs
    using spec [OF assms(2), of 0] by simp
  ultimately show ?thesis by (simp only: fs_new_inode_eq [OF assms(1)] option.case)
qed

theorem fs_create_inserts_witness:
  "\<exists>s s'. fs_ok 4000 s \<and> fs_create [97, 98] s = Some (FS_OK, s') \<and> map key (dir s') = [[97, 98]] \<and>
    fs_get_inode s' [97, 98] = Some 0 \<and> fs_create [97, 98] s' = Some (FS_DUPLICATE, s')"
proof -
  obtain s where s: "fs_ok 4000 s" "dir_wf s 0" "dir s = []" "\<forall>i < 4096. fs_page s i = BAD"
    using empty_fs by blast
  then show ?thesis
    using fs_create_inserts [OF s(1) _ s(2), of "[97, 98]"] new_inode_empty [OF s(1,4)] by auto
qed

text \<open>
  C35. fs_remove takes exactly the named file out of the directory and marks its first inode unused;
  every other name still leads to its file and every other inode is as before.  Removing a name
  that is not there is refused without writing anything.
\<close>

theorem fs_remove_deletes:
  assumes ok: "fs_ok K s" and K: "3 \<le> K" and wf: "dir_wf s n" and n: "n < 60"
    and dist: "distinct (map key (dir s))" and name: "0 \<notin> set name"
  shows "if take 6 name \<in> set (map key (dir s)) then
      \<exists>s' x. x \<in> set (dir s) \<and> key x = take 6 name \<and>
        fs_remove name s = Some (FS_OK, s') \<and> fs_ok (K - 3) s' \<and> dir_wf s' (n - 1) \<and>
        dir s' = filter (\<lambda>y. key y \<noteq> take 6 name) (dir s) \<and>
        (\<forall>y \<in> set (dir s'). fs_get_inode s' (key y) = Some (nd_inode y)) \<and>
        (\<forall>i < 4096. fs_page s' i = (if i = nd_inode x then BAD else fs_page s i))
    else fs_remove name s = Some (FS_NOSUCHFILE, s)"
proof -
  have cn: "cstr 6 name = take 6 name" by (rule cstr_name [OF name])
  have dir: "dir s = map (node_at s) [0..<n]" by (rule dir_wf_dir [OF wf])
  show ?thesis
  proof (cases "take 6 name \<in> set (map key (dir s))")
    case True
    then obtain i where i: "i < n" "key (node_at s i) = cstr 6 name" by (auto simp: dir cn)
    obtain s' where s': "fs_remove name s = Some (FS_OK, s')" "fs_ok (K - 3) s'" "dir_wf s' (n - 1)"
      "dir s' = filter (\<lambda>x. key x \<noteq> cstr 6 name) (dir s)"
      "\<forall>j < 4096. fs_page s' j = (if j = nd_inode (node_at s i) then BAD else fs_page s j)"
      using fs_remove_step [OF ok K wf n dist i] by blast
    have "distinct (map key (dir s'))" unfolding s'(4) by (rule distinct_map_filter [OF dist])
    then have "\<forall>y \<in> set (dir s'). fs_get_inode s' (key y) = Some (nd_inode y)"
      using fs_get_inode_dir [OF s'(2,3)] n by simp
    moreover have "node_at s i \<in> set (dir s)" "key (node_at s i) = take 6 name"
      using i cn by (simp_all add: dir)
    ultimately have "\<exists>s' x. x \<in> set (dir s) \<and> key x = take 6 name \<and>
        fs_remove name s = Some (FS_OK, s') \<and> fs_ok (K - 3) s' \<and> dir_wf s' (n - 1) \<and>
        dir s' = filter (\<lambda>y. key y \<noteq> take 6 name) (dir s) \<and>
        (\<forall>y \<in> set (dir s'). fs_get_inode s' (key y) = Some (nd_inode y)) \<and>
        (\<forall>i < 4096. fs_page s' i = (if i = nd_inode x then BAD else fs_page s i))"
      using s' unfolding cn by (intro exI [of _ s'] exI [of _ "node_at s i"] conjI) assumption+
    then show ?thesis by (simp only: True if_True)
  next
    case False
    have none: "key (node_at s j) \<noteq> cstr 6 name" if "j < n" for j
    proof (rule notI)
      assume "key (node_at s j) = cstr 6 name"
      then have "take 6 name \<in> set (map key (dir s))" using that by (metis atLeast0LessThan cn dir image_eqI
            lessThan_iff list.set_map set_upt)
      with False show False by simp
    qed
    have "remove_scan s name 0 62 (BAD, BAD) = Some (n, BAD, BAD)"
      using remove_scan_from [OF fs_okD(1) [OF ok] wf n, of 0 62 name "(BAD, BAD)"] n none
        fold_none [of "[0..<n]" "\<lambda>j. key (node_at s j) = cstr 6 name" "\<lambda>j. (j, nd_inode (node_at s j))"]
      by simp
    then show ?thesis using False n fs_okD(2) [OF ok] by (simp add: fs_remove_def BAD_def)
  qed
qed

lemma one_file:
  "\<exists>s. fs_ok 3999 s \<and> dir_wf s 1 \<and> map key (dir s) = [[97]] \<and> map nd_inode (dir s) = [0] \<and>
    (\<forall>i < 4096. fs_page s i = BAD)"
proof -
  obtain s where s: "fs_ok 4000 s" "dir_wf s 0" "dir s = []" "\<forall>i < 4096. fs_page s i = BAD"
    using empty_fs by blast
  have "cstr 6 [97] \<notin> key ` set (dir s)" using s(3) by simp
  from fs_create_step [OF s(1) _ s(2) _ this] obtain s' where s': "fs_ok 3999 s'" "dir_wf s' 1"
    "dir s' = [new_file s [97] 0]" "\<forall>i < 4096. fs_page s' i = fs_page s i"
    by (auto simp: s(3) Let_def)
  then show ?thesis using s(4) new_inode_empty [OF s(1,4)]
    by (intro exI [of _ s']) (simp add: new_file_def key_def cstr_strncpy)
qed

theorem fs_remove_deletes_witness:
  "\<exists>s s'. fs_ok 3999 s \<and> map key (dir s) = [[97]] \<and> fs_remove [97] s = Some (FS_OK, s') \<and> dir s' = []"
proof -
  obtain s where s: "fs_ok 3999 s" "dir_wf s 1" "map key (dir s) = [[97]]"
    using one_file by (elim exE conjE)
  have "take 6 [97] \<in> set (map key (dir s))" "distinct (map key (dir s))" using s(3) by simp_all
  moreover have "filter (\<lambda>y. key y \<noteq> take 6 [97]) (dir s) = []"
    using s(3) by (auto simp: filter_empty_conv dest: arg_cong [where f = set])
  ultimately show ?thesis
    using fs_remove_deletes [OF s(1) _ s(2), of "[97]"] s(1,3) by auto
qed

text \<open>
  fs_create does not reserve the inode it gives to the new file: until data is written, the
  next file created gets the same one, and the two names are one file from then on.
\<close>

theorem fs_create_shares_inode:
  assumes ok: "fs_ok K s" and K: "2 \<le> K" and wf: "dir_wf s n" and n: "n < 58"
    and sorted: "sorted (map key (dir s))" "distinct (map key (dir s))"
    and a: "0 \<notin> set a" "take 6 a \<notin> set (map key (dir s))"
    and b: "0 \<notin> set b" "take 6 b \<notin> set (map key (dir s))" "take 6 a \<noteq> take 6 b"
  shows "\<exists>s1 s2. fs_create a s = Some (FS_OK, s1) \<and> fs_create b s1 = Some (FS_OK, s2) \<and>
    fs_get_inode s2 a = Some (fs_new_inode s mod 4096) \<and> fs_get_inode s2 b = fs_get_inode s2 a"
proof -
  have n60: "n < 60" "n + 1 < 60" "n + 1 + 1 < 60" and K1: "1 \<le> K" "1 \<le> K - 1" using n K by simp_all
  obtain s1 x where s1: "fs_create a s = Some (FS_OK, s1)" "fs_ok (K - 1) s1" "dir_wf s1 (n + 1)"
    and x: "key x = take 6 a" "nd_inode x = fs_new_inode s mod 4096"
    and keys1: "map key (dir s1) = insort (take 6 a) (map key (dir s))"
    and dist1: "distinct (map key (dir s1))" and mem1: "set (dir s1) = insert x (set (dir s))"
    and pages1: "\<forall>i < 4096. fs_page s1 i = fs_page s i"
    using fs_create_dir [OF ok K1(1) wf n60(1) sorted a] by (elim exE conjE)
  have sorted1: "sorted (map key (dir s1))" unfolding keys1 using sorted(1) by (simp add: sorted_insort)
  have b1: "take 6 b \<notin> set (map key (dir s1))" unfolding keys1 using b(2,3) by (simp add: set_insort_key)
  obtain s2 y where s2: "fs_create b s1 = Some (FS_OK, s2)" "fs_ok (K - 1 - 1) s2" "dir_wf s2 (n + 1 + 1)"
    and y: "key y = take 6 b" "nd_inode y = fs_new_inode s1 mod 4096"
    and dist2: "distinct (map key (dir s2))" and mem2: "set (dir s2) = insert y (set (dir s1))"
    using fs_create_dir [OF s1(2) K1(2) s1(3) n60(2) sorted1 dist1 b(1) b1] by (elim exE conjE)
  have "fs_new_inode s1 = fs_new_inode s" by (rule fs_new_inode_cong [OF ok s1(2)]) (use pages1 in blast)
  moreover have "fs_get_inode s2 a = Some (nd_inode x)" "fs_get_inode s2 b = Some (nd_inode y)"
    using fs_get_inode_dir [OF s2(2,3) n60(3) dist2] mem1 mem2 x(1) y(1) cstr_name a(1) b(1) by simp_all
  ultimately show ?thesis using s1(1) s2(1) x(2) y(2) by auto
qed

theorem fs_create_shares_inode_witness:
  "\<exists>s s1 s2. fs_ok 4000 s \<and> fs_create [97] s = Some (FS_OK, s1) \<and> fs_create [98] s1 = Some (FS_OK, s2) \<and>
    fs_get_inode s2 [97] = Some 0 \<and> fs_get_inode s2 [98] = Some 0"
proof -
  obtain s where s: "fs_ok 4000 s" "dir_wf s 0" "dir s = []" "\<forall>i < 4096. fs_page s i = BAD"
    using empty_fs by blast
  then show ?thesis
    using fs_create_shares_inode [OF s(1) _ s(2), of "[97]" "[98]"] new_inode_empty [OF s(1,4)] by auto
qed

lemma last_filter: "xs \<noteq> [] \<Longrightarrow> P (last xs) \<Longrightarrow> last (filter P xs) = last xs"
  by (induction xs rule: rev_induct) auto

text \<open>
  fs_get_inode compares a name with the node that ends the directory before it looks whether
  that node is used, and fs_remove leaves the name of the last file there: after removing some
  other file and then the last one, the last one is still found.
\<close>

theorem fs_removed_file_is_found:
  assumes ok: "fs_ok K s" and K: "6 \<le> K" and wf: "dir_wf s n" and n: "n < 60" "2 \<le> n"
    and dist: "distinct (map key (dir s))" and names: "0 \<notin> set a" "0 \<notin> set b"
    and a: "take 6 a \<in> set (map key (dir s))" "take 6 a \<noteq> take 6 b" and b: "take 6 b = key (last (dir s))"
  shows "\<exists>s1 s2. fs_remove a s = Some (FS_OK, s1) \<and> fs_remove b s1 = Some (FS_OK, s2) \<and>
    take 6 b \<notin> set (map key (dir s2)) \<and> fs_get_inode s2 b = Some (nd_inode (last (dir s)))"
proof -
  have dir: "dir s = map (node_at s) [0..<n]" by (rule dir_wf_dir [OF wf])
  have n1: "n - 1 < n" "n - 1 < 60" "n - 2 < n - 1" "n - 1 - 1 = n - 2" using n by auto
  have l: "last (dir s) = node_at s (n - 1)" using n(2) by (simp add: dir last_map)
  obtain i where i: "i < n" "key (node_at s i) = cstr 6 a" using a(1) cstr_name [OF names(1)] by (auto simp: dir)
  have "key (node_at s i) \<noteq> key (node_at s (n - 1))"
    using i(2) a(2) b l cstr_name [OF names(1)] by simp
  then have i1: "i < n - 1" using i(1) by (cases "i = n - 1") auto
  have K3: "3 \<le> K" "3 \<le> K - 3" using K by simp_all
  obtain s1 where s1: "fs_remove a s = Some (FS_OK, s1)" "fs_ok (K - 3) s1" "dir_wf s1 (n - 1)"
    "dir s1 = filter (\<lambda>x. key x \<noteq> cstr 6 a) (dir s)"
    "node_at s1 (n - 1) = (if i < n - 1 then node_at s (n - 1) else node_at s n)\<lparr>nd_unused := True\<rparr>"
    using fs_remove_step [OF ok K3(1) wf n(1) dist i] by blast
  have dist1: "distinct (map key (dir s1))" unfolding s1(4) by (rule distinct_map_filter [OF dist])
  have "last (dir s1) = last (dir s)"
    unfolding s1(4) using n(2) a(2) b cstr_name [OF names(1)] by (intro last_filter) (simp_all add: dir)
  moreover have "last (dir s1) = node_at s1 (n - 2)"
    using dir_wf_dir [OF s1(3)] n(2) n1(3,4) by (simp add: last_map)
  ultimately have k: "key (node_at s1 (n - 2)) = cstr 6 b" using b cstr_name [OF names(2)] by simp
  obtain s2 where s2: "fs_remove b s1 = Some (FS_OK, s2)" "fs_ok (K - 3 - 3) s2" "dir_wf s2 (n - 1 - 1)"
    "dir s2 = filter (\<lambda>x. key x \<noteq> cstr 6 b) (dir s1)"
    "node_at s2 (n - 1 - 1) =
      (if n - 2 < n - 1 - 1 then node_at s1 (n - 1 - 1) else node_at s1 (n - 1))\<lparr>nd_unused := True\<rparr>"
    using fs_remove_step [OF s1(2) K3(2) s1(3) n1(2) dist1 n1(3) k] by blast
  have e: "node_at s2 (n - 2) = (last (dir s))\<lparr>nd_unused := True\<rparr>"
    using s2(5) s1(5) i1 l n1(4) by simp
  have gone: "take 6 b \<notin> set (map key (dir s2))" unfolding s2(4) using cstr_name [OF names(2)] by auto
  have "find (\<lambda>x. key x = cstr 6 b) (dir s2) = None"
    unfolding find_None_iff using gone cstr_name [OF names(2)] by (metis image_eqI list.set_map)
  moreover have "n - 2 < 60" using n by simp
  ultimately have "fs_get_inode s2 b = Some (nd_inode (last (dir s)))"
    using get_inode_from [OF fs_okD(1) [OF s2(2)], of "n - 2" 0 b] s2(3) n1(4) e b
      dir_wf_dir [OF s2(3)] cstr_name [OF names(2)] fs_okD(2) [OF s2(2)]
    by (simp add: fs_get_inode_def key_def)
  with s1(1) s2(1) gone show ?thesis by blast
qed

lemma two_files:
  "\<exists>s. fs_ok 3998 s \<and> dir_wf s 2 \<and> map key (dir s) = [[97], [98]]"
proof -
  obtain s where s: "fs_ok 3999 s" "dir_wf s 1" "map key (dir s) = [[97]]" using one_file by (elim exE conjE)
  have d: "sorted (map key (dir s))" "distinct (map key (dir s))" "take 6 [98] \<notin> set (map key (dir s))"
    by (simp_all add: s(3))
  have n: "1 \<le> (3999 :: nat)" "1 < (60 :: nat)" "0 \<notin> set [98 :: u8]" "(1 :: nat) + 1 = 2"
    "3999 - 1 = (3998 :: nat)" by simp_all
  obtain s' where s': "fs_ok (3999 - 1) s'" "dir_wf s' (1 + 1)"
    "map key (dir s') = insort (take 6 [98]) (map key (dir s))"
    using fs_create_dir [OF s(1) n(1) s(2) n(2) d(1,2) n(3) d(3)] by (elim exE conjE)
  have "insort (take 6 [98]) [[97 :: u8]] = [[97], [98]]" by simp
  with s' show ?thesis unfolding n(4,5) s(3) by (intro exI [of _ s'] conjI) simp_all
qed

theorem fs_removed_file_is_found_witness:
  "\<exists>s s1 s2 i. fs_ok 3998 s \<and> fs_remove [97] s = Some (FS_OK, s1) \<and> fs_remove [98] s1 = Some (FS_OK, s2) \<and>
    [98] \<notin> set (map key (dir s2)) \<and> fs_get_inode s2 [98] = Some i"
proof -
  obtain s where s: "fs_ok 3998 s" "dir_wf s 2" "map key (dir s) = [[97], [98]]" using two_files by (elim exE conjE)
  have "dir s \<noteq> []" using s(3) by auto
  then have "key (last (dir s)) = last (map key (dir s))" by (rule last_map [symmetric])
  then have l: "take 6 [98] = key (last (dir s))" unfolding s(3) by simp
  have d: "distinct (map key (dir s))" "take 6 [97] \<in> set (map key (dir s))" "take 6 [97] \<noteq> take 6 [98 :: u8]"
    by (simp_all add: s(3))
  have n: "0 \<notin> set [97 :: u8]" "0 \<notin> set [98 :: u8]" "6 \<le> (3998 :: nat)" "2 < (60 :: nat)"
    "take 6 [98 :: u8] = [98]" by simp_all
  obtain s1 s2 where "fs_remove [97] s = Some (FS_OK, s1)" "fs_remove [98] s1 = Some (FS_OK, s2)"
    "take 6 [98] \<notin> set (map key (dir s2))" "fs_get_inode s2 [98] = Some (nd_inode (last (dir s)))"
    using fs_removed_file_is_found [OF s(1) n(3) s(2) n(4) order_refl d(1) n(1,2) d(2,3) l] by (elim exE conjE)
  with s(1) show ?thesis unfolding n(5) by (intro exI conjI)
qed

end
