(* ===== verification/Fs_Files.thy ===== *)
theory Fs_Files imports Fs_Spec begin

text \<open>
  The properties of the contents of files, through fs.c and through the handles of vfs_df.c.
\<close>

text \<open>The largest state in which inode 0 holds the bytes \<open>data\<close>.\<close>

lemma file_with:
  assumes "length data \<le> 512"
  shows "\<exists>s. fs_ok 3997 s \<and> fs_page s 0 \<noteq> BAD \<and> file_data s 0 = Some data \<and>
    (\<forall>i < 4096. i \<noteq> 0 \<longrightarrow> fs_page s i = BAD)"
proof -
  obtain s where s: "fs_ok 4000 s" "\<forall>i < 4096. fs_page s i = BAD" using empty_fs by (elim exE conjE)
  have z: "fs_page s 0 = BAD" by (rule s(2) [rule_format]) simp
  have n: "3 \<le> (4000 :: nat)" "0 < (4096 :: nat)" "4000 - 3 = (3997 :: nat)" by simp_all
  obtain s' where s': "fs_ok (4000 - 3) s'" "fs_page s' 0 \<noteq> BAD" "file_data s' 0 = Some (take (length data) data)"
    "\<forall>i < 4096. i \<noteq> 0 \<longrightarrow> fs_page s' i = fs_page s i \<and> file_data s' i = file_data s i"
    using fs_write_new [OF s(1) n(1,2) z order_refl assms] by (elim exE conjE)
  have "fs_page s' i = BAD" if "i < 4096" "i \<noteq> 0" for i using s'(4) s(2) that by metis
  then show ?thesis using s' unfolding n(3) by (intro exI [of _ s']) simp
qed

section \<open>Files of one page\<close>

text \<open>
  C34. On files of at most one page the operations are those of a list of bytes: fs_write at an
  offset inside the file overwrites and extends it, fs_size gives its length, fs_truncate cuts
  it off, and none of them changes what any other inode holds or the directory.
\<close>

theorem fs_file_is_byte_list:
  assumes ok: "fs_ok K s" and K: "3 \<le> K" and inode: "inode < 4096" "file_data s inode = Some data"
  shows "fs_size s inode = Some (int (length data)) \<and>
    (\<forall>d off n. n \<le> length d \<longrightarrow> off \<le> length data \<longrightarrow> off + n \<le> 512 \<longrightarrow>
      (\<exists>s'. fs_write inode d (int off) (int n) s = Some (FS_OK, s') \<and> fs_ok (K - 3) s' \<and>
        file_data s' inode = Some (overlay off (take n d) data) \<and> dir s' = dir s \<and>
        (\<forall>i < 4096. i \<noteq> inode \<longrightarrow> file_data s' i = file_data s i))) \<and>
    (\<forall>n < length data.
      \<exists>s'. fs_truncate inode (int n) s = Some (FS_OK, s') \<and> fs_ok (K - 3) s' \<and>
        file_data s' inode = Some (take n data) \<and> dir s' = dir s \<and>
        (\<forall>i < 4096. i \<noteq> inode \<longrightarrow> file_data s' i = file_data s i))"
proof (intro conjI allI impI)
  show "fs_size s inode = Some (int (length data))" by (rule fs_size_one [OF ok inode])
  have same: "dir s' = dir s"
    if "\<forall>i < 60. node_slot (flash s' (root s')) i = node_slot (flash s (root s)) i" for s'
    by (rule dir_wf_cong) (use that in blast)
  show "\<exists>s'. fs_write inode d (int off) (int n) s = Some (FS_OK, s') \<and> fs_ok (K - 3) s' \<and>
        file_data s' inode = Some (overlay off (take n d) data) \<and> dir s' = dir s \<and>
        (\<forall>i < 4096. i \<noteq> inode \<longrightarrow> file_data s' i = file_data s i)"
    if "n \<le> length d" "off \<le> length data" "off + n \<le> 512" for d off n
    using fs_write_one [OF ok K inode that] same by metis
  show "\<exists>s'. fs_truncate inode (int n) s = Some (FS_OK, s') \<and> fs_ok (K - 3) s' \<and>
        file_data s' inode = Some (take n data) \<and> dir s' = dir s \<and>
        (\<forall>i < 4096. i \<noteq> inode \<longrightarrow> file_data s' i = file_data s i)"
    if n: "n < length data" for n
  proof -
    have "fs_page s inode \<noteq> BAD" using inode(2) n by (auto simp: file_data_def)
    from fs_truncate_one [OF ok K inode(1) this inode(2) n] same show ?thesis by metis
  qed
qed

theorem fs_file_is_byte_list_witness:
  "\<exists>s s' s''. fs_ok 3997 s \<and> fs_size s 0 = Some 2 \<and>
    fs_write 0 [7, 8, 9] 1 3 s = Some (FS_OK, s') \<and> file_data s' 0 = Some [1, 7, 8, 9] \<and>
    fs_truncate 0 1 s = Some (FS_OK, s'') \<and> file_data s'' 0 = Some [1]"
proof -
  have "length [1, 2 :: u8] \<le> 512" by simp
  from file_with [OF this] obtain s where s: "fs_ok 3997 s" "file_data s 0 = Some [1, 2]" by (elim exE conjE)
  have n: "3 \<le> (3997 :: nat)" "0 < (4096 :: nat)" by simp_all
  note t = fs_file_is_byte_list [OF s(1) n s(2)]
  have "fs_size s 0 = Some 2" using t by simp
  moreover obtain s' where "fs_write 0 [7, 8, 9] 1 3 s = Some (FS_OK, s')" "file_data s' 0 = Some [1, 7, 8, 9]"
    using t [THEN conjunct2, THEN conjunct1, rule_format, of 3 "[7, 8, 9]" 1] by (auto simp: overlay_def)
  moreover obtain s'' where "fs_truncate 0 1 s = Some (FS_OK, s'')" "file_data s'' 0 = Some [1]"
    using t [THEN conjunct2, THEN conjunct2, rule_format, of 1] by auto
  ultimately show ?thesis using s(1) by blast
qed

section \<open>Through the handles\<close>

lemma int32_id: "- (2 ^ 31) \<le> n \<Longrightarrow> n < 2 ^ 31 \<Longrightarrow> int32 n = n"
  by (simp add: int32_def)

lemma df_flash_read_data:
  assumes "fs_ok K s" "inode < 4096" "fs_page s inode \<noteq> BAD" "file_data s inode = Some data" "n \<le> length data"
  shows "df_flash_read (fs_page s inode) 15 n s = take n data"
proof -
  note f = file_dataD [OF assms(1-4)]
  have "df_flash_read (fs_page s inode) 15 n s = slice 15 n (flash s (fs_page s inode))"
    using f(1,7,9) assms(5) by (simp add: df_flash_read_def read_wrapped_slice)
  also have "\<dots> = take n (slice 15 (length data) (flash s (fs_page s inode)))"
    using assms(5) by (simp add: slice_def min_def)
  finally show ?thesis using f(8) by simp
qed

text \<open>
  C22. What is written at the start of a file of one page is read back from there: after writing up to
  512 bytes through a handle at the start of a file of at most one page, going back to the start and
  reading as many, the caller's buffer holds the bytes written, the handle has moved behind them, and
  the size is right.  (Longer writes and reads from the middle go wrong, see below.)
\<close>

theorem vfs_df_roundtrip:
  assumes ok: "fs_ok K s" and K: "3 \<le> K" and fh: "df_inode fh < 4096" "df_offset fh = 0"
    and data: "file_data s (df_inode fh) = Some data"
    and n: "0 < n" "n \<le> 512" "n \<le> length d" "n \<le> length room"
  shows "\<exists>s' fh'. vfs_df_write fh d n s = Some (n, fh', s') \<and> fs_ok (K - 3) s' \<and> df_offset fh' = int n \<and>
    vfs_df_fseek s' fh' 0 SEEK_SET = Some (0, fh) \<and>
    vfs_df_read s' fh room n = Some (n, memcpy_at 0 (take n d) room, fh') \<and>
    vfs_df_size s' fh = Some (max n (length data))"
proof -
  let ?i = "df_inode fh"
  have "0 + n \<le> 512" using n by simp
  from fs_write_one [OF ok K fh(1) data n(3) le0 this] obtain s' where w: "fs_write ?i d (int 0) (int n) s = Some (FS_OK, s')" and ok': "fs_ok (K - 3) s'"
    and page: "fs_page s' ?i \<noteq> BAD" and data': "file_data s' ?i = Some (overlay 0 (take n d) data)"
    by (elim exE conjE)
  let ?new = "overlay 0 (take n d) data"
  have new: "length ?new = max n (length data)" "take n ?new = take n d"
    using n(3) by (simp_all add: overlay_def)
  have len: "length ?new \<le> 512" using file_dataD(7) [OF ok' fh(1) page data'] .
  have ints: "int32 (int n) = int n" "nat (int n mod 2 ^ 32) = n" using n(2) by (simp_all add: int32_id)
  let ?fh = "fh\<lparr>df_offset := int n\<rparr>"
  have "vfs_df_write fh d n s = Some (n, ?fh, s')" using w fh(2) ints by (simp add: vfs_df_write_def)
  moreover have size: "fs_size s' ?i = Some (int (max n (length data)))"
    using fs_size_one [OF ok' fh(1) data'] new(1) by simp
  have bk: "?fh\<lparr>df_offset := 0\<rparr> = fh" using fh(2) by simp
  have "vfs_df_fseek s' ?fh 0 SEEK_SET = Some (0, fh)"
    using size bk by (simp add: vfs_df_fseek_def int32_id)
  moreover have "vfs_df_size s' fh = Some (max n (length data))"
    using size len new(1) by (simp add: vfs_df_size_def)
  moreover have "fs_read s' ?i room (int 0) (int n) = Some (int n, memcpy_at 0 (take n d) room)"
    using fs_read_one [OF ok' fh(1) page data', of 0 n room] n new
      df_flash_read_data [OF ok' fh(1) page data', of n] by simp
  then have "vfs_df_read s' fh room n = Some (n, memcpy_at 0 (take n d) room, ?fh)"
    using fh(2) ints n(1) by (simp add: vfs_df_read_def)
  ultimately show ?thesis using ok' by (intro exI [of _ s'] exI [of _ ?fh]) simp
qed

theorem vfs_df_roundtrip_witness:
  "\<exists>s s' fh'. fs_ok 3997 s \<and> vfs_df_write \<lparr>df_inode = 0, df_offset = 0\<rparr> [5, 6, 7] 3 s = Some (3, fh', s') \<and>
    vfs_df_read s' \<lparr>df_inode = 0, df_offset = 0\<rparr> [0, 0, 0, 0] 3 = Some (3, [5, 6, 7, 0], fh') \<and>
    vfs_df_size s' \<lparr>df_inode = 0, df_offset = 0\<rparr> = Some 3"
proof -
  have "length [1, 2 :: u8] \<le> 512" by simp
  from file_with [OF this] obtain s where s: "fs_ok 3997 s" "file_data s 0 = Some [1, 2]" by (elim exE conjE)
  then show ?thesis
    using vfs_df_roundtrip [OF s(1), of "\<lparr>df_inode = 0, df_offset = 0\<rparr>" "[1, 2]" 3 "[5, 6, 7]" "[0, 0, 0, 0]"]
    by (auto simp: memcpy_at_def)
qed

text \<open>
  C0. fs_read asks the flash for \<open>length + offset\<close> bytes where \<open>length\<close> are wanted.  Reading the
  middle of a file through a handle that is not at its start therefore writes behind the end of
  a buffer of the size asked for.
\<close>

theorem vfs_df_read_overruns:
  assumes ok: "fs_ok K s" and fh: "df_inode fh < 4096" "df_offset fh = int off"
    and data: "file_data s (df_inode fh) = Some data"
    and n: "0 < off" "0 < n" "off + n \<le> length data" "length buf = n"
  shows "vfs_df_read s fh buf n = None"
proof -
  have page: "fs_page s (df_inode fh) \<noteq> BAD" using data n(3,1) by (auto simp: file_data_def)
  note f = file_dataD [OF ok fh(1) page data]
  have "int32 (int n) = int n" using n(3) f(7) by (simp add: int32_id)
  moreover have "fs_read s (df_inode fh) buf (int off) (int n) = None"
    using fs_read_one [OF ok fh(1) page data, of off n buf] n f(7) by simp
  ultimately show ?thesis using fh(2) by (simp add: vfs_df_read_def)
qed

theorem vfs_df_read_overruns_witness:
  "\<exists>s. fs_ok 3997 s \<and> file_data s 0 = Some [1, 2, 3] \<and>
    vfs_df_read s \<lparr>df_inode = 0, df_offset = 1\<rparr> [0, 0] 2 = None"
proof -
  have "length [1, 2, 3 :: u8] \<le> 512" by simp
  from file_with [OF this] obtain s where s: "fs_ok 3997 s" "file_data s 0 = Some [1, 2, 3]" by (elim exE conjE)
  then show ?thesis
    using vfs_df_read_overruns [OF s(1), of "\<lparr>df_inode = 0, df_offset = 1\<rparr>" 1 "[1, 2, 3]" 2 "[0, 0]"] by auto
qed

section \<open>Longer files\<close>

text \<open>
  fs_write never moves on in the caller's buffer: a file of more than 512 bytes written in one
  call is split over two pages properly, but its second page repeats the beginning of the buffer,
  and that is what reading the file gives back.
\<close>

theorem fs_write_repeats_first_page:
  assumes ok: "fs_ok K s" and K: "6 \<le> K" and inode: "inode < 4096" "fs_page s inode = BAD"
    and n: "n \<le> length d" "512 < n" "n \<le> 1024" and room: "n \<le> length room"
    and another: "j < 4096" "j \<noteq> inode" "fs_page s j = BAD"
  shows "\<exists>s'. fs_write inode d 0 (int n) s = Some (FS_OK, s') \<and>
    fs_read s' inode room 0 (int n) = Some (int n, memcpy_at 0 (take 512 d @ take (n - 512) d) room)"
proof -
  obtain s' j where w: "fs_write inode d 0 (int n) s = Some (FS_OK, s')" and ok': "fs_ok (K - 6) s'"
    and j: "j < 4096" and page: "fs_page s' inode < 4096" "fs_page s' inode \<noteq> BAD"
      "\<not> pg_eof (page_data s' (fs_page s' inode))" "pg_size (page_data s' (fs_page s' inode)) = 512"
      "pg_next_inode (page_data s' (fs_page s' inode)) = j"
      "slice 15 512 (flash s' (fs_page s' inode)) = take 512 d"
    and b: "fs_page s' j \<noteq> BAD" "file_data s' j = Some (take (n - 512) d)"
    using fs_write_two [OF ok K inode n another] by (elim exE conjE)
  have l: "length (take 512 d) = 512" "length (take (n - 512) d) = n - 512" "0 < length (take (n - 512) d)"
    "512 + length (take (n - 512) d) \<le> length room" "512 + length (take (n - 512) d) = n"
    using n room by simp_all
  from fs_read_two [OF ok' j page l(1) b l(3,4)] w show ?thesis unfolding l(5) by blast
qed

theorem fs_write_repeats_first_page_witness:
  "\<exists>s s'. fs_ok 4000 s \<and>
    fs_write 0 (replicate 512 1 @ replicate 8 2) 0 520 s = Some (FS_OK, s') \<and>
    fs_read s' 0 (replicate 520 0) 0 520 = Some (520, replicate 520 1)"
proof -
  obtain s where s: "fs_ok 4000 s" "\<forall>i < 4096. fs_page s i = BAD" using empty_fs by (elim exE conjE)
  have z: "fs_page s 0 = BAD" "fs_page s 1 = BAD" by (rule s(2) [rule_format], simp)+
  let ?d = "replicate 512 1 @ replicate 8 2 :: u8 list"
  have n: "6 \<le> (4000 :: nat)" "0 < (4096 :: nat)" "520 \<le> length ?d" "512 < (520 :: nat)" "520 \<le> (1024 :: nat)"
    "520 \<le> length (replicate 520 (0 :: u8))" "1 < (4096 :: nat)" "1 \<noteq> (0 :: nat)" by simp_all
  have "memcpy_at 0 (take 512 ?d @ take (520 - 512) ?d) (replicate 520 0) = (replicate 520 1 :: u8 list)"
    by (simp add: memcpy_at_def flip: replicate_add)
  with fs_write_repeats_first_page [OF s(1) n(1,2) z(1) n(3-8) z(2)] s(1) show ?thesis by auto
qed

end
