(* ===== verification/Onewire.thy ===== *)
theory Onewire imports Crc "HOL-Library.List_Lexorder" begin

text \<open>
  The Dallas one-wire bus (hardware/onewire/onewire.c, onewire.h) and its commands
  (hardware/onewire/ecmd.c).  The bus is the record of what its time slots do: a reset with its
  two samples, writing a bit and reading a bit, each changing the state of the bus.  Delays and
  pin directions are part of the slots.  The functions thread the state of the bus; the value of
  an \<open>int8_t\<close> result is an integer.
\<close>

section \<open>Time slots\<close>

record 'b onewire_bus =
  bus_reset :: "'b \<Rightarrow> (bool \<times> bool) \<times> 'b"
  bus_write :: "bool \<Rightarrow> 'b \<Rightarrow> 'b"
  bus_read :: "'b \<Rightarrow> bool \<times> 'b"

definition reset_onewire :: "'b onewire_bus \<Rightarrow> 'b \<Rightarrow> bool \<times> 'b" where
  "reset_onewire bus s = (let ((data1, data2), s) = bus_reset bus s in (\<not> data1 \<and> data2, s))"

definition ow_write :: "'b onewire_bus \<Rightarrow> u8 \<Rightarrow> 'b \<Rightarrow> 'b" where
  "ow_write bus v s = (if v > 0 then bus_write bus True s else bus_write bus False s)"

definition ow_write_byte :: "'b onewire_bus \<Rightarrow> u8 \<Rightarrow> 'b \<Rightarrow> 'b" where
  "ow_write_byte bus v s = fold (\<lambda>i. ow_write bus (v AND 2 ^ i)) [0..<8] s"

definition ow_read :: "'b onewire_bus \<Rightarrow> 'b \<Rightarrow> u8 \<times> 'b" where
  "ow_read bus s = (let (b, s) = bus_read bus s in (if b then 1 else 0, s))"

definition ow_read_byte :: "'b onewire_bus \<Rightarrow> 'b \<Rightarrow> u8 \<times> 'b" where
  "ow_read_byte bus s =
    fold (\<lambda>i (d, s). let (b, s) = ow_read bus s in (d OR push_bit i b, s)) [0..<8] (0, s)"

fun ow_read_bytes :: "'b onewire_bus \<Rightarrow> nat \<Rightarrow> 'b \<Rightarrow> u8 list \<times> 'b" where
  "ow_read_bytes bus 0 s = ([], s)"
| "ow_read_bytes bus (Suc n) s =
    (let (d, s) = ow_read_byte bus s; (ds, s) = ow_read_bytes bus n s in (d # ds, s))"

section \<open>ROM codes\<close>

text \<open>A ROM code is its eight bytes, the family first and the checksum last.\<close>

definition OW_ROM_SEARCH_ROM :: u8 where "OW_ROM_SEARCH_ROM = 0xF0"
definition OW_ROM_READ_ROM :: u8 where "OW_ROM_READ_ROM = 0x33"
definition OW_ROM_MATCH_ROM :: u8 where "OW_ROM_MATCH_ROM = 0x55"
definition OW_ROM_SKIP_ROM :: u8 where "OW_ROM_SKIP_ROM = 0xCC"

definition ow_family :: "u8 list \<Rightarrow> u8" where "ow_family rom = rom ! 0"

definition ow_read_rom :: "'b onewire_bus \<Rightarrow> 'b \<Rightarrow> u8 list \<Rightarrow> int \<times> u8 list \<times> 'b" where
  "ow_read_rom bus s rom =
    (let (present, s) = reset_onewire bus s
     in if \<not> present then (-1, rom, s)
        else
          let (rom, s) = ow_read_bytes bus 8 (ow_write_byte bus OW_ROM_READ_ROM s)
          in if rom ! 7 \<noteq> crc_checksum rom 7 then (-2, rom, s) else (1, rom, s))"

definition ow_skip_rom :: "'b onewire_bus \<Rightarrow> 'b \<Rightarrow> int \<times> 'b" where
  "ow_skip_rom bus s =
    (let (present, s) = reset_onewire bus s
     in if \<not> present then (-1, s) else (1, ow_write_byte bus OW_ROM_SKIP_ROM s))"

definition ow_match_rom :: "'b onewire_bus \<Rightarrow> u8 list \<Rightarrow> 'b \<Rightarrow> int \<times> 'b" where
  "ow_match_rom bus rom s =
    (let (present, s) = reset_onewire bus s
     in if \<not> present then (-1, s)
        else (1, fold (\<lambda>i s. fold (\<lambda>j. ow_write bus (rom ! i AND 2 ^ j)) [0..<8] s) [0..<8]
                   (ow_write_byte bus OW_ROM_MATCH_ROM s)))"

definition ow_set_address_bit :: "u8 list \<Rightarrow> nat \<Rightarrow> bool \<Rightarrow> u8 list" where
  "ow_set_address_bit rom idx val =
    (let byte = idx div 8; b = idx mod 8
     in rom[byte := if val then rom ! byte OR 2 ^ b else rom ! byte AND NOT (2 ^ b)])"

section \<open>The search\<close>

datatype ow_list_type = OW_LIST_TYPE_ALL | OW_LIST_TYPE_TEMP_SENSOR | OW_LIST_TYPE_EEPROM

record ow_global_t =
  lock :: bool
  last_discrepancy :: int
  list_type :: ow_list_type
  current_rom :: "u8 list"

text \<open>
  The loop over the 64 bits from bit \<open>i\<close> on, \<open>discrepancy\<close> in its byte: 255 becomes -1 when it is
  stored as the signed \<open>last_discrepancy\<close>.
\<close>

fun search_loop :: "'b onewire_bus \<Rightarrow> nat \<Rightarrow> nat \<Rightarrow> u8 \<Rightarrow> ow_global_t \<Rightarrow> 'b \<Rightarrow> int \<times> ow_global_t \<times> 'b" where
  "search_loop bus i 0 discrepancy g s = (1, g\<lparr>last_discrepancy := sint discrepancy\<rparr>, s)"
| "search_loop bus i (Suc k) discrepancy g s =
    (let (bit1, s) = ow_read bus s; (bit2, s) = ow_read bus s; bits = push_bit 1 bit2 OR bit1
     in if bits = 3 then (0, g, s)
        else
          let (bit1, discrepancy, g) =
            (if bits = 0 then
               if int i = last_discrepancy g
               then (1, discrepancy, g\<lparr>current_rom := ow_set_address_bit (current_rom g) i True\<rparr>)
               else if int i > last_discrepancy g
               then (bit1, of_nat i, g\<lparr>current_rom := ow_set_address_bit (current_rom g) i False\<rparr>)
               else
                 let rom_bit = current_rom g ! (i div 8) AND 2 ^ (i mod 8)
                 in (rom_bit, if rom_bit = 0 then of_nat i else discrepancy, g)
             else (bit1, discrepancy, g\<lparr>current_rom := ow_set_address_bit (current_rom g) i (bit1 \<noteq> 0)\<rparr>))
          in search_loop bus (i + 1) k discrepancy g (ow_write bus bit1 s))"

definition ow_search_rom :: "'b onewire_bus \<Rightarrow> bool \<Rightarrow> ow_global_t \<Rightarrow> 'b \<Rightarrow> int \<times> ow_global_t \<times> 'b" where
  "ow_search_rom bus first g s =
    (let g = (if first then g\<lparr>last_discrepancy := -1, current_rom := replicate 8 0\<rparr> else g)
     in if \<not> first \<and> last_discrepancy g < 0 then (0, g, s)
        else
          let (present, s) = reset_onewire bus s
          in if \<not> present then (-1, g, s)
             else search_loop bus 0 64 255 g (ow_write_byte bus OW_ROM_SEARCH_ROM s))"

section \<open>Temperature sensors\<close>

definition OW_FAMILY_DS1820 :: u8 where "OW_FAMILY_DS1820 = 0x10"
definition OW_FAMILY_DS18B20 :: u8 where "OW_FAMILY_DS18B20 = 0x28"
definition OW_FAMILY_DS1822 :: u8 where "OW_FAMILY_DS1822 = 0x22"
definition OW_FAMILY_DS2502E48 :: u8 where "OW_FAMILY_DS2502E48 = 0x89"
definition OW_FUNC_CONVERT :: u8 where "OW_FUNC_CONVERT = 0x44"
definition OW_FUNC_READ_SP :: u8 where "OW_FUNC_READ_SP = 0xBE"
definition OW_FUNC_READ_POWER :: u8 where "OW_FUNC_READ_POWER = 0xB4"
definition OW_FUNC_READ_MEMORY :: u8 where "OW_FUNC_READ_MEMORY = 0xF0"

definition ow_temp_sensor :: "u8 list \<Rightarrow> bool" where
  "ow_temp_sensor rom \<longleftrightarrow>
    ow_family rom = OW_FAMILY_DS1820 \<or> ow_family rom = OW_FAMILY_DS1822 \<or> ow_family rom = OW_FAMILY_DS18B20"

text \<open>Addressing one device, or all when there is no ROM code; \<open>unknown\<close> is the error for a foreign family.\<close>

definition ow_address ::
  "'b onewire_bus \<Rightarrow> (u8 list \<Rightarrow> bool) \<Rightarrow> int \<Rightarrow> u8 list option \<Rightarrow> 'b \<Rightarrow> int \<times> 'b" where
  "ow_address bus known unknown rom s =
    (case rom of
       None \<Rightarrow> ow_skip_rom bus s
     | Some r \<Rightarrow> if \<not> known r then (unknown, s) else ow_match_rom bus r s)"

partial_function (option) wait_converted :: "'b onewire_bus \<Rightarrow> 'b \<Rightarrow> 'b option" where
  "wait_converted bus s =
    (let (d, s) = ow_read bus s in if d = 0 then wait_converted bus s else Some s)"

definition ow_temp_start_convert :: "'b onewire_bus \<Rightarrow> u8 list option \<Rightarrow> bool \<Rightarrow> 'b \<Rightarrow> (int \<times> 'b) option" where
  "ow_temp_start_convert bus rom wait s =
    (let (ret, s) = ow_address bus ow_temp_sensor (-2) rom s
     in if ret < 0 then Some (ret, s)
        else
          let s = ow_write_byte bus OW_FUNC_CONVERT s
          in if \<not> wait then Some (0, s)
             else (case wait_converted bus s of None \<Rightarrow> None | Some s \<Rightarrow> Some (1, s)))"

definition ow_temp_read_scratchpad ::
  "'b onewire_bus \<Rightarrow> u8 list option \<Rightarrow> u8 list \<Rightarrow> 'b \<Rightarrow> int \<times> u8 list \<times> 'b" where
  "ow_temp_read_scratchpad bus rom sp s =
    (let (ret, s) = ow_address bus ow_temp_sensor (-3) rom s
     in if ret < 0 then (ret, sp, s)
        else
          let (sp, s) = ow_read_bytes bus 9 (ow_write_byte bus OW_FUNC_READ_SP s)
          in if sp ! 8 \<noteq> crc_checksum sp 8 then (-2, sp, s) else (1, sp, s))"

definition ow_temp_power :: "'b onewire_bus \<Rightarrow> u8 list option \<Rightarrow> 'b \<Rightarrow> int \<times> 'b" where
  "ow_temp_power bus rom s =
    (let (ret, s) = ow_address bus ow_temp_sensor (-2) rom s
     in if ret < 0 then (ret, s)
        else let (d, s) = ow_read bus (ow_write_byte bus OW_FUNC_READ_POWER s) in (int (unat d), s))"

text \<open>
  The scratchpad is temperature (two bytes, low first), th, tl, two reserved bytes, count_remain,
  count_per_c and the checksum.  Expressions are 16 bits wide as on the AVR; a division by a
  count_per_c of zero and an overflow of the signed shift are \<open>None\<close>.
\<close>

definition sp_temperature :: "u8 list \<Rightarrow> u16" where
  "sp_temperature sp = ucast (sp ! 0) OR push_bit 8 (ucast (sp ! 1))"

definition ow_temp_normalize :: "u8 list \<Rightarrow> u8 list \<Rightarrow> u16 option" where
  "ow_temp_normalize rom sp =
    (let temperature = sp_temperature sp; count_remain = int (unat (sp ! 6)); count_per_c = int (unat (sp ! 7))
     in if ow_family rom = OW_FAMILY_DS1820 then
          let d = (count_per_c - count_remain) * 256
          in if count_per_c = 0 \<or> d < - 32768 \<or> 32767 < d then None
             else Some (push_bit 7 (temperature AND 0xfffe) - 0x40 +
               of_int (if d < 0 then - ((- d) div count_per_c) else d div count_per_c))
        else if ow_family rom = OW_FAMILY_DS1822 \<or> ow_family rom = OW_FAMILY_DS18B20
        then Some (push_bit 4 temperature)
        else Some 0xffff)"

section \<open>The DS2502 memory\<close>

definition ow_eeprom :: "u8 list \<Rightarrow> bool" where
  "ow_eeprom rom \<longleftrightarrow> ow_family rom = OW_FAMILY_DS2502E48"

definition ow_eeprom_read :: "'b onewire_bus \<Rightarrow> u8 list option \<Rightarrow> u8 list \<Rightarrow> 'b \<Rightarrow> int \<times> u8 list \<times> 'b" where
  "ow_eeprom_read bus rom mac s =
    (let (ret, s) = ow_address bus ow_eeprom (-2) rom s
     in if ret < 0 then (ret, mac, s)
        else
          let s = ow_write_byte bus OW_FUNC_READ_MEMORY s;
              s = ow_write_byte bus 5 s;
              s = ow_write_byte bus 0 s;
              (crc, s) = ow_read_byte bus s;
              crc2 = crc_ibutton_update (crc_ibutton_update (crc_ibutton_update 0 OW_FUNC_READ_MEMORY) 5) 0
          in if crc \<noteq> crc2 then (-2, mac, s)
             else let (d, s) = ow_read_bytes bus 6 s in (0, rev d, s))"

section \<open>Commands\<close>

text \<open>
  The commands' texts are the values printed: a ROM code for a line of the list, the integer part
  and the digit behind the point for a temperature.  Results below zero that are not errors ask
  the parser to call again.
\<close>

datatype ow_reply =
    ECMD_FINAL_OK | ECMD_ERR_PARSE_ERROR | ECMD_ERR_READ_ERROR
  | ECMD_AGAIN_ROM "u8 list"
  | ECMD_FINAL_TEMP int nat
  | ECMD_FINAL_MAC "u8 list"
  | ECMD_FINAL_UNKNOWN

definition list_selects :: "ow_list_type \<Rightarrow> u8 list \<Rightarrow> bool" where
  "list_selects t rom \<longleftrightarrow> t = OW_LIST_TYPE_ALL \<or> t = OW_LIST_TYPE_TEMP_SENSOR \<and> ow_temp_sensor rom
    \<or> t = OW_LIST_TYPE_EEPROM \<and> ow_eeprom rom"

partial_function (option) list_result ::
  "'b onewire_bus \<Rightarrow> int \<times> ow_global_t \<times> 'b \<Rightarrow> (ow_reply \<times> ow_global_t \<times> 'b) option" where
  "list_result bus r =
    (case r of (ret, g, s) \<Rightarrow>
       if ret = 1 then
         if list_selects (list_type g) (current_rom g) then Some (ECMD_AGAIN_ROM (current_rom g), g, s)
         else list_result bus (ow_search_rom bus False g s)
       else if ret = 0 then Some (ECMD_FINAL_OK, g\<lparr>lock := False\<rparr>, s)
       else Some (ECMD_ERR_PARSE_ERROR, g, s))"

text \<open>\<open>arg\<close> is the first character behind the command and its blanks.\<close>

definition parse_cmd_onewire_list ::
  "'b onewire_bus \<Rightarrow> char option \<Rightarrow> ow_global_t \<Rightarrow> 'b \<Rightarrow> (ow_reply \<times> ow_global_t \<times> 'b) option" where
  "parse_cmd_onewire_list bus arg g s =
    (if \<not> lock g then
       let g = g\<lparr>lock := True\<rparr>;
           t = (if arg = Some (CHR ''t'') then Some OW_LIST_TYPE_TEMP_SENSOR
                else if arg = Some (CHR ''e'') then Some OW_LIST_TYPE_EEPROM
                else if arg = None then Some OW_LIST_TYPE_ALL else None)
       in case t of
            None \<Rightarrow> Some (ECMD_ERR_PARSE_ERROR, g, s)
          | Some t \<Rightarrow>
              let (ret, g, s) = ow_search_rom bus True (g\<lparr>list_type := t\<rparr>) s
              in if ret \<le> 0 then Some (ECMD_FINAL_OK, g, s) else list_result bus (ret, g, s)
     else list_result bus (ow_search_rom bus False g s))"

text \<open>The two numbers printed: \<open>(int8_t) HI8(temp)\<close> and \<open>HI8(((temp & 0x00ff) * 10) + 0x80)\<close>.\<close>

definition temp_text :: "u16 \<Rightarrow> int \<times> nat" where
  "temp_text temp =
    (sint (ucast (drop_bit 8 temp) :: u8), unat (drop_bit 8 ((temp AND 0x00ff) * 10 + 0x80)))"

text \<open>The command behind the parsed ROM code.\<close>

definition parse_cmd_onewire_get :: "'b onewire_bus \<Rightarrow> u8 list option \<Rightarrow> 'b \<Rightarrow> (ow_reply \<times> 'b) option" where
  "parse_cmd_onewire_get bus parsed s =
    (case parsed of
       None \<Rightarrow> Some (ECMD_ERR_PARSE_ERROR, s)
     | Some rom \<Rightarrow>
         if ow_temp_sensor rom then
           let (ret, sp, s) = ow_temp_read_scratchpad bus (Some rom) [] s
           in if ret \<noteq> 1 then Some (ECMD_ERR_READ_ERROR, s)
              else (case ow_temp_normalize rom sp of
                      None \<Rightarrow> None
                    | Some temp \<Rightarrow> Some (ECMD_FINAL_TEMP (fst (temp_text temp)) (snd (temp_text temp)), s))
         else if ow_eeprom rom then
           let (ret, mac, s) = ow_eeprom_read bus (Some rom) [] s
           in Some (if ret \<noteq> 0 then ECMD_ERR_READ_ERROR else ECMD_FINAL_MAC mac, s)
         else Some (ECMD_FINAL_UNKNOWN, s))"

definition parse_cmd_onewire_convert :: "'b onewire_bus \<Rightarrow> u8 list option \<Rightarrow> 'b \<Rightarrow> (ow_reply \<times> 'b) option" where
  "parse_cmd_onewire_convert bus parsed s =
    (case ow_temp_start_convert bus parsed True s of
       None \<Rightarrow> None
     | Some (ret, s) \<Rightarrow>
         Some (if ret = 1 then ECMD_FINAL_OK else if ret = -1 then ECMD_ERR_READ_ERROR else ECMD_ERR_PARSE_ERROR, s))"

end
