(* ===== verification/Onewire_Search.thy ===== *)
theory Onewire_Search imports Onewire begin

text \<open>
  The search for the devices on a one-wire bus finds every device exactly once.

  The locale \<open>onewire_devices\<close> states what the code relies on of the hardware: the 1-wire standard's
  description of a reset and of the search command, for devices whose 64-bit codes, lowest bit
  first, form the set \<open>D\<close>.  All devices answer at once and the bus is low when any of them pulls
  it low, so the first slot reads 1 when no device still listening has a 0, the second slot reads
  1 when none has a 1, and the bit written then makes the others drop out.
\<close>

locale onewire_devices =
  fixes bus :: "'b onewire_bus" and D :: "bool list set"
    and ready :: "'b \<Rightarrow> bool" and searching :: "bool list \<Rightarrow> 'b \<Rightarrow> bool"
  assumes finite: "finite D" and codes: "d \<in> D \<Longrightarrow> length d = 64"
    and presence: "fst (bus_reset bus s) = (D = {}, True)" "ready (snd (bus_reset bus s))"
    and command: "ready s \<Longrightarrow> searching [] (ow_write_byte bus OW_ROM_SEARCH_ROM s)"
    and first_slot: "searching p s \<Longrightarrow> length p < 64 \<Longrightarrow>
      fst (bus_read bus s) = (\<forall>d \<in> D. take (length p) d = p \<longrightarrow> d ! length p)"
    and second_slot: "searching p s \<Longrightarrow> length p < 64 \<Longrightarrow>
      fst (bus_read bus (snd (bus_read bus s))) = (\<forall>d \<in> D. take (length p) d = p \<longrightarrow> \<not> d ! length p)"
    and third_slot: "searching p s \<Longrightarrow> length p < 64 \<Longrightarrow>
      searching (p @ [b]) (bus_write bus b (snd (bus_read bus (snd (bus_read bus s)))))"

section \<open>ROM codes as bits\<close>

definition rom_bits :: "u8 list \<Rightarrow> bool list" where
  "rom_bits rom = map (\<lambda>i. bit (rom ! (i div 8)) (i mod 8)) [0..<64]"

lemma length_rom_bits [simp]: "length (rom_bits rom) = 64"
  by (simp add: rom_bits_def)

lemma nth_rom_bits: "i < 64 \<Longrightarrow> rom_bits rom ! i = bit (rom ! (i div 8)) (i mod 8)"
  by (simp add: rom_bits_def del: upt_rec_numeral)

lemma and_pow_zero: "j < 8 \<Longrightarrow> (x AND 2 ^ j = 0) = (\<not> bit x j)" for x :: u8
  by (rule and_exp_eq_0_iff_not_bit)

lemma length_set_address_bit [simp]: "length (ow_set_address_bit rom i v) = length rom"
  by (simp add: ow_set_address_bit_def Let_def)

lemma rom_bits_set:
  assumes "length rom = 8" "i < 64"
  shows "rom_bits (ow_set_address_bit rom i v) = (rom_bits rom)[i := v]"
proof (rule nth_equalityI)
  fix j assume "j < length (rom_bits (ow_set_address_bit rom i v))"
  then have j: "j < 64" by simp
  have d: "i div 8 < 8" "i mod 8 < 8" "j mod 8 < 8" using assms(2) by auto
  have e: "j = i \<longleftrightarrow> j div 8 = i div 8 \<and> j mod 8 = i mod 8" by (metis div_mult_mod_eq)
  show "rom_bits (ow_set_address_bit rom i v) ! j = (rom_bits rom)[i := v] ! j"
    using assms d e j
    by (auto simp: nth_rom_bits nth_list_update ow_set_address_bit_def Let_def bit_or_iff bit_and_iff
        bit_not_iff bit_exp_iff)
qed simp

section \<open>What the loop chooses\<close>

text \<open>
  The devices that still listen after the bits \<open>p\<close>, the bit the loop goes on with, and the code it
  arrives at.
\<close>

definition listening :: "bool list set \<Rightarrow> bool list \<Rightarrow> bool list set" where
  "listening D p = {d \<in> D. take (length p) d = p}"

definition ones :: "bool list set \<Rightarrow> bool list \<Rightarrow> bool" where
  "ones D p \<longleftrightarrow> (\<exists>d \<in> listening D p. d ! length p)"

definition zeros :: "bool list set \<Rightarrow> bool list \<Rightarrow> bool" where
  "zeros D p \<longleftrightarrow> (\<exists>d \<in> listening D p. \<not> d ! length p)"

definition choice :: "bool list set \<Rightarrow> int \<Rightarrow> bool list \<Rightarrow> bool list \<Rightarrow> bool" where
  "choice D lst cur p =
    (if ones D p \<and> zeros D p then
       if int (length p) = lst then True else if int (length p) > lst then False else cur ! length p
     else ones D p)"

fun path :: "bool list set \<Rightarrow> int \<Rightarrow> bool list \<Rightarrow> nat \<Rightarrow> bool list" where
  "path D lst cur 0 = []"
| "path D lst cur (Suc n) = path D lst cur n @ [choice D lst cur (path D lst cur n)]"

lemma length_path [simp]: "length (path D lst cur n) = n"
  by (induction n) simp_all

lemma take_path: "m \<le> n \<Longrightarrow> take m (path D lst cur n) = path D lst cur m"
proof (induction n)
  case (Suc n)
  then show ?case by (cases "m = Suc n") auto
qed simp

lemma nth_path: "m < n \<Longrightarrow> path D lst cur n ! m = choice D lst cur (path D lst cur m)"
proof -
  assume "m < n"
  then have "path D lst cur n ! m = take (Suc m) (path D lst cur n) ! m" by simp
  also have "\<dots> = choice D lst cur (path D lst cur m)"
    using \<open>m < n\<close> by (subst take_path) (simp_all add: nth_append)
  finally show ?thesis .
qed

lemma take_Suc_eq: "take (Suc n) d = p @ [b] \<longleftrightarrow> take n d = p \<and> d ! n = b"
  if "n < length d" "length p = n" for d :: "'a list"
  using that by (simp add: take_Suc_conv_app_nth)

lemma listening_choice:
  assumes "listening D p \<noteq> {}" "\<forall>d \<in> D. length p < length d"
  shows "listening D (p @ [choice D lst cur p]) \<noteq> {}"
proof -
  have one: "\<exists>d \<in> D. take (length p) d = p \<and> d ! length p = choice D lst cur p"
    using assms(1) by (auto simp: choice_def ones_def zeros_def listening_def)
  then obtain d where "d \<in> D" "take (length p) d = p" "d ! length p = choice D lst cur p" by blast
  then have "d \<in> listening D (p @ [choice D lst cur p])"
    using assms(2) take_Suc_eq [of "length p" d p] by (simp add: listening_def)
  then show ?thesis by blast
qed

lemma listening_path:
  assumes "D \<noteq> {}" "\<forall>d \<in> D. length d = 64" "n \<le> 64"
  shows "listening D (path D lst cur n) \<noteq> {}"
  using assms(3)
proof (induction n)
  case 0
  then show ?case using assms(1) by (simp add: listening_def)
next
  case (Suc n)
  then show ?case using assms(2) by (simp add: listening_choice)
qed

lemma path_in:
  assumes "D \<noteq> {}" "\<forall>d \<in> D. length d = 64"
  shows "path D lst cur 64 \<in> D"
proof -
  obtain d where "d \<in> D" "take 64 d = path D lst cur 64"
    using listening_path [OF assms order_refl] by (auto simp: listening_def)
  then show ?thesis using assms(2) by simp
qed

text \<open>The branch the loop leaves for later: the last bit where it took 0 though there was a 1.\<close>

definition branch :: "bool list set \<Rightarrow> bool list \<Rightarrow> nat \<Rightarrow> bool" where
  "branch D e i \<longleftrightarrow> \<not> e ! i \<and> ones D (take i e)"

fun last_branch :: "bool list set \<Rightarrow> bool list \<Rightarrow> nat \<Rightarrow> nat option" where
  "last_branch D e 0 = None"
| "last_branch D e (Suc i) = (if branch D e i then Some i else last_branch D e i)"

lemma last_branch_Some:
  "last_branch D e n = Some l \<Longrightarrow> l < n \<and> branch D e l \<and> (\<forall>i < n. branch D e i \<longrightarrow> i \<le> l)"
  by (induction n) (auto split: if_splits simp: less_Suc_eq)

lemma last_branch_None: "last_branch D e n = None \<Longrightarrow> i < n \<Longrightarrow> \<not> branch D e i"
  by (induction n) (auto split: if_splits simp: less_Suc_eq)

definition discrepancy_of :: "nat option \<Rightarrow> u8" where
  "discrepancy_of l = (case l of None \<Rightarrow> 255 | Some i \<Rightarrow> of_nat i)"

definition last_of :: "nat option \<Rightarrow> int" where
  "last_of l = (case l of None \<Rightarrow> -1 | Some i \<Rightarrow> int i)"

lemma sint_discrepancy: "(\<forall>i. l = Some i \<longrightarrow> i < 64) \<Longrightarrow> sint (discrepancy_of l) = last_of l"
proof (cases l)
  case (Some i)
  assume "\<forall>i. l = Some i \<longrightarrow> i < 64"
  then have "i < 64" using Some by blast
  then have "sint (of_nat i :: u8) = int i"
    by (simp add: signed_of_nat signed_take_bit_int_eq_self)
  then show ?thesis using Some by (simp add: discrepancy_of_def last_of_def)
qed (simp add: discrepancy_of_def last_of_def)

section \<open>The order of the codes\<close>

lemma bits_less:
  assumes "length d = length (e :: bool list)"
  shows "d < e \<longleftrightarrow> (\<exists>i < length d. take i d = take i e \<and> \<not> d ! i \<and> e ! i)"
  using assms by (auto simp: list_less_def lexord_take_index_conv)

lemma path_min:
  assumes D: "D \<noteq> {}" "\<forall>d \<in> D. length d = 64" and d: "d \<in> D" "take m d = path D lst cur m"
    and m: "m \<le> 64" and above: "\<And>n. m \<le> n \<Longrightarrow> n < 64 \<Longrightarrow> lst < int n"
  shows "path D lst cur 64 \<le> d"
proof (rule ccontr)
  let ?e = "path D lst cur 64"
  assume "\<not> ?e \<le> d"
  then have "d < ?e" by simp
  moreover have ld: "length d = 64" using D(2) d(1) by blast
  ultimately obtain i where i: "i < 64" "take i d = take i ?e" "\<not> d ! i" "?e ! i"
    using bits_less [of d ?e] by auto
  have "m \<le> i"
  proof (rule ccontr)
    assume "\<not> m \<le> i"
    then have "d ! i = take m d ! i" "?e ! i = take m ?e ! i" by simp_all
    then show False using i(3,4) d(2) take_path [OF m, of D lst cur] by simp
  qed
  have p: "take i ?e = path D lst cur i" using take_path i(1) by simp
  have "?e \<in> D" by (rule path_in [OF D])
  then have "ones D (path D lst cur i)" "zeros D (path D lst cur i)"
    using i d(1) p by (auto simp: ones_def zeros_def listening_def)
  then have "\<not> choice D lst cur (path D lst cur i)"
    using above [OF \<open>m \<le> i\<close> i(1)] by (simp add: choice_def)
  then show False using i(1,4) nth_path [OF i(1), of D lst cur] by simp
qed

lemma path_next:
  assumes D: "\<forall>d \<in> D. length d = 64" and cur: "cur \<in> D" and l: "last_branch D cur 64 = Some l"
  shows "path D (int l) cur 64 \<in> D" "cur < path D (int l) cur 64"
    "d \<in> D \<Longrightarrow> cur < d \<Longrightarrow> path D (int l) cur 64 \<le> d"
proof -
  let ?e = "path D (int l) cur 64"
  have ne: "D \<noteq> {}" using cur by blast
  note lb = last_branch_Some [OF l]
  have lc: "length cur = 64" using D cur by blast
  have pre: "path D (int l) cur n = take n cur" if "n \<le> l" for n
    using that
  proof (induction n)
    case (Suc n)
    then have p: "path D (int l) cur n = take n cur" "n < l" "n < 64" using lb by auto
    have "cur \<in> listening D (take n cur)" using cur p(3) lc by (simp add: listening_def)
    then have "choice D (int l) cur (take n cur) = cur ! n"
      using p(2,3) lc by (auto simp: choice_def ones_def zeros_def)
    then show ?case using p lc by (simp add: take_Suc_conv_app_nth)
  qed simp
  have l64: "l < 64" using lb by blast
  have "cur \<in> listening D (take l cur)" using cur l64 lc by (simp add: listening_def)
  then have "zeros D (take l cur)" "ones D (take l cur)"
    using lb l64 lc by (auto simp: zeros_def branch_def)
  then have c: "choice D (int l) cur (path D (int l) cur l)"
    using pre [OF order_refl] l64 lc by (simp add: choice_def)
  then have el: "?e ! l" using nth_path [OF l64, of D "int l" cur] by simp
  have tl: "take l ?e = take l cur" using take_path [of l 64 D "int l" cur] l64 pre [OF order_refl] by simp
  show "?e \<in> D" by (rule path_in [OF ne D])
  show "cur < ?e" using bits_less [of cur ?e] lc l64 tl el lb by (auto simp: branch_def)
  show "?e \<le> d" if d: "d \<in> D" "cur < d"
  proof -
    have ld: "length d = 64" using D d(1) by blast
    obtain i where i: "i < 64" "take i cur = take i d" "\<not> cur ! i" "d ! i"
      using d(2) bits_less [of cur d] lc ld by auto
    then have "branch D cur i" using d(1) lc ld by (auto simp: branch_def ones_def listening_def)
    then have "i \<le> l" using lb i(1) by blast
    show ?thesis
    proof (cases "i = l")
      case True
      have "take (Suc l) d = path D (int l) cur (Suc l)"
        using i l64 ld True c pre [OF order_refl] by (simp add: take_Suc_conv_app_nth)
      then show ?thesis by (rule path_min [OF ne D d(1)]) (use l64 in auto)
    next
      case False
      then have il: "i < l" using \<open>i \<le> l\<close> by simp
      then have "take i ?e = take i d" using tl i(2) by (metis min.absorb1 less_imp_le take_take)
      moreover have "?e ! i = cur ! i" using tl il by (metis nth_take)
      ultimately have "?e < d" using bits_less [of ?e d] i ld by auto
      then show ?thesis by simp
    qed
  qed
qed

lemma path_done:
  assumes D: "\<forall>d \<in> D. length d = 64" and cur: "cur \<in> D" and l: "last_branch D cur 64 = None" and d: "d \<in> D"
  shows "d \<le> cur"
proof (rule ccontr)
  assume "\<not> d \<le> cur"
  then obtain i where "i < 64" "take i cur = take i d" "\<not> cur ! i" "d ! i"
    using bits_less [of cur d] D cur d by auto
  then have "branch D cur i" "i < 64" using d D cur by (auto simp: branch_def ones_def listening_def)
  then show False using last_branch_None [OF l] by blast
qed

context onewire_devices
begin

lemma slots:
  assumes "searching p s" "length p < 64"
  shows "ow_read bus s = (if zeros D p then 0 else 1, snd (bus_read bus s))"
    "ow_read bus (snd (bus_read bus s)) = (if ones D p then 0 else 1, snd (bus_read bus (snd (bus_read bus s))))"
  using first_slot [OF assms] second_slot [OF assms]
  by (auto simp: ow_read_def zeros_def ones_def listening_def split: prod.splits)

lemma search_loop_finds:
  assumes "D \<noteq> {}" "i + k = 64" "searching (path D lst cur i) s" "length (current_rom g) = 8"
    and "take i (rom_bits (current_rom g)) = path D lst cur i" "drop i (rom_bits (current_rom g)) = drop i cur"
    and "last_discrepancy g = lst" "length cur = 64"
    and "disc = discrepancy_of (last_branch D (path D lst cur 64) i)"
  shows "\<exists>rom s'. search_loop bus i k disc g s =
      (1, g\<lparr>current_rom := rom, last_discrepancy := last_of (last_branch D (path D lst cur 64) 64)\<rparr>, s') \<and>
    length rom = 8 \<and> rom_bits rom = path D lst cur 64"
  using assms(2-)
proof (induction k arbitrary: i disc g s)
  case 0
  have "sint (discrepancy_of (last_branch D (path D lst cur 64) 64)) = last_of (last_branch D (path D lst cur 64) 64)"
    by (rule sint_discrepancy) (use last_branch_Some in blast)
  with 0 show ?case by (intro exI [of _ "current_rom g"]) simp
next
  case (Suc k)
  let ?p = "path D lst cur i" and ?e = "path D lst cur 64"
  have i: "i < 64" "length ?p < 64" using Suc.prems(1) by simp_all
  note sl = slots [OF Suc.prems(2) i(2)]
  let ?s2 = "snd (bus_read bus (snd (bus_read bus s)))"
  define c where "c = choice D lst cur ?p"
  have "listening D ?p \<noteq> {}" using listening_path [OF assms(1) _ less_imp_le [OF i(1)]] codes by blast
  then have some: "zeros D ?p \<or> ones D ?p" by (auto simp: zeros_def ones_def)
  define rom where "rom = ow_set_address_bit (current_rom g) i c"
  have cur_bit: "rom_bits (current_rom g) ! i = cur ! i"
  proof -
    have "rom_bits (current_rom g) ! i = drop i (rom_bits (current_rom g)) ! 0" using i by simp
    also have "\<dots> = cur ! i" using Suc.prems(5,7) i by simp
    finally show ?thesis .
  qed
  have rom: "length rom = 8" "take (i + 1) (rom_bits rom) = path D lst cur (i + 1)"
    "drop (i + 1) (rom_bits rom) = drop (i + 1) cur"
  proof -
    show "length rom = 8" using Suc.prems(3) by (simp add: rom_def)
    have b: "rom_bits rom = (rom_bits (current_rom g))[i := c]"
      using rom_bits_set [OF Suc.prems(3) i(1)] by (simp add: rom_def)
    show "take (i + 1) (rom_bits rom) = path D lst cur (i + 1)"
      using i(1) Suc.prems(4) by (simp add: b take_Suc_conv_app_nth c_def)
    have "drop (i + 1) (rom_bits (current_rom g)) = drop (i + 1) cur"
      using arg_cong [OF Suc.prems(5), of "drop 1"] by simp
    then show "drop (i + 1) (rom_bits rom) = drop (i + 1) cur" by (simp add: b)
  qed
  have e_i: "take i ?e = ?p" "?e ! i = c"
    using i(1) take_path [of i 64 D lst cur] nth_path [of i 64 D lst cur] by (simp_all add: c_def)
  define disc' where "disc' = discrepancy_of (last_branch D ?e (i + 1))"
  have disc': "disc' = (if \<not> c \<and> ones D ?p then of_nat i else disc)"
    using Suc.prems(8) e_i by (simp add: disc'_def branch_def discrepancy_of_def)
  have next_s: "searching (path D lst cur (i + 1)) (bus_write bus c ?s2)"
    using third_slot [OF Suc.prems(2) i(2), of c] by (simp add: c_def)
  define g' where "g' = g\<lparr>current_rom := rom\<rparr>"
  have same: "ow_set_address_bit (current_rom g) i (cur ! i) = current_rom g"
  proof (rule nth_equalityI)
    fix j assume "j < length (ow_set_address_bit (current_rom g) i (cur ! i))"
    have m: "i mod 8 < 8" by simp
    have "current_rom g ! (i div 8) = (if cur ! i then current_rom g ! (i div 8) OR 2 ^ (i mod 8)
        else current_rom g ! (i div 8) AND NOT (2 ^ (i mod 8)))"
      using cur_bit nth_rom_bits [OF i(1), of "current_rom g"]
      by (auto intro!: bit_word_eqI simp: bit_or_iff bit_and_iff bit_not_iff bit_exp_iff)
    then show "ow_set_address_bit (current_rom g) i (cur ! i) ! j = current_rom g ! j"
      by (simp add: ow_set_address_bit_def Let_def nth_list_update)
  qed simp
  have rb: "(current_rom g ! (i div 8) AND 2 ^ (i mod 8) = 0) = (\<not> cur ! i)"
    using cur_bit nth_rom_bits [OF i(1), of "current_rom g"] and_pow_zero [of "i mod 8"] by simp
  have wr: "ow_write bus v t = bus_write bus (v \<noteq> 0) t" for v t
    by (simp add: ow_write_def word_gt_0)
  have step: "search_loop bus i (Suc k) disc g s = search_loop bus (i + 1) k disc' g' (bus_write bus c ?s2)"
  proof (cases "ones D ?p \<and> zeros D ?p")
    case True
    have g_same: "c = cur ! i \<Longrightarrow> g' = g" using same by (simp add: g'_def rom_def)
    consider "int i = lst" | "int i > lst" | "int i < lst" by linarith
    then show ?thesis
    proof cases
      case 1
      then have "c" using True by (simp add: c_def choice_def)
      then show ?thesis using True 1 Suc.prems(6) by (simp add: sl wr disc' g'_def rom_def)
    next
      case 2
      then have "\<not> c" using True by (simp add: c_def choice_def)
      then show ?thesis using True 2 Suc.prems(6) by (simp add: sl wr disc' g'_def rom_def)
    next
      case 3
      then have "c = cur ! i" using True by (simp add: c_def choice_def)
      then show ?thesis using True 3 Suc.prems(6) g_same rb by (simp add: sl wr disc' Let_def)
    qed
  next
    case False
    then have "c = ones D ?p" unfolding c_def choice_def by (simp only: if_False)
    then show ?thesis using False some by (auto simp: sl wr disc' g'_def rom_def)
  qed
  have "\<exists>rom' s'. search_loop bus (i + 1) k disc' g' (bus_write bus c ?s2) =
      (1, g'\<lparr>current_rom := rom', last_discrepancy := last_of (last_branch D ?e 64)\<rparr>, s') \<and>
    length rom' = 8 \<and> rom_bits rom' = ?e"
    by (rule Suc.IH) (use Suc.prems next_s rom in \<open>simp_all add: g'_def disc'_def\<close>)
  then show ?case unfolding step by (auto simp: g'_def)
qed

lemma search_finds:
  assumes "D \<noteq> {}" "length (current_rom g) = 8" "first \<or> 0 \<le> last_discrepancy g"
    and "lst = (if first then -1 else last_discrepancy g)"
    and "cur = (if first then replicate 64 False else rom_bits (current_rom g))"
  shows "\<exists>rom s'. ow_search_rom bus first g s =
      (1, g\<lparr>current_rom := rom, last_discrepancy := last_of (last_branch D (path D lst cur 64) 64)\<rparr>, s') \<and>
    length rom = 8 \<and> rom_bits rom = path D lst cur 64"
proof -
  define g0 where "g0 = (if first then g\<lparr>last_discrepancy := -1, current_rom := replicate 8 0\<rparr> else g)"
  have z: "rom_bits (replicate 8 0) = replicate 64 False"
    by (rule nth_equalityI) (auto simp: nth_rom_bits)
  have g0: "length (current_rom g0) = 8" "rom_bits (current_rom g0) = cur" "last_discrepancy g0 = lst"
    using assms z by (auto simp: g0_def)
  have rst: "reset_onewire bus s = (True, snd (bus_reset bus s))"
    using presence(1) [of s] assms(1) by (auto simp: reset_onewire_def split: prod.splits)
  let ?s = "ow_write_byte bus OW_ROM_SEARCH_ROM (snd (bus_reset bus s))"
  have "searching [] ?s" by (rule command [OF presence(2)])
  then have "\<exists>rom s'. search_loop bus 0 64 255 g0 ?s =
      (1, g0\<lparr>current_rom := rom, last_discrepancy := last_of (last_branch D (path D lst cur 64) 64)\<rparr>, s') \<and>
    length rom = 8 \<and> rom_bits rom = path D lst cur 64"
    using assms(1) g0 by (intro search_loop_finds) (auto simp: discrepancy_of_def)
  then obtain rom s' where "search_loop bus 0 64 255 g0 ?s =
      (1, g0\<lparr>current_rom := rom, last_discrepancy := last_of (last_branch D (path D lst cur 64) 64)\<rparr>, s')"
    "length rom = 8" "rom_bits rom = path D lst cur 64" by blast
  moreover have "ow_search_rom bus first g s = search_loop bus 0 64 255 g0 ?s"
    using assms(3) rst by (auto simp: ow_search_rom_def g0_def Let_def)
  moreover have "g0\<lparr>current_rom := rom, last_discrepancy := x\<rparr> = g\<lparr>current_rom := rom, last_discrepancy := x\<rparr>" for x
    by (simp add: g0_def)
  ultimately show ?thesis by auto
qed

text \<open>The state after a device has been found, and the search from there.\<close>

lemma search_first:
  assumes "D \<noteq> {}" "length (current_rom g) = 8"
  shows "\<exists>rom s'. ow_search_rom bus True g s =
      (1, g\<lparr>current_rom := rom, last_discrepancy := last_of (last_branch D (Min D) 64)\<rparr>, s') \<and>
    length rom = 8 \<and> rom_bits rom = Min D"
proof -
  have D: "\<forall>d \<in> D. length d = 64" using codes by blast
  let ?e = "path D (-1) (replicate 64 False) 64"
  have "?e \<in> D" by (rule path_in [OF assms(1) D])
  moreover have "?e \<le> d" if "d \<in> D" for d
    by (rule path_min [OF assms(1) D that, of 0]) auto
  ultimately have "?e = Min D" using finite by (intro Min_eqI [symmetric]) auto
  then show ?thesis using search_finds [OF assms, of True "-1" "replicate 64 False" s] by simp
qed

lemma search_next:
  assumes d: "rom_bits (current_rom g) \<in> D" "length (current_rom g) = 8"
    and lst: "last_discrepancy g = last_of (last_branch D (rom_bits (current_rom g)) 64)"
    and later: "later = {e \<in> D. rom_bits (current_rom g) < e}"
  shows "if later = {} then ow_search_rom bus False g s = (0, g, s)
    else \<exists>rom s'. ow_search_rom bus False g s =
      (1, g\<lparr>current_rom := rom, last_discrepancy := last_of (last_branch D (Min later) 64)\<rparr>, s') \<and>
    length rom = 8 \<and> rom_bits rom = Min later \<and> Min later \<in> D"
proof -
  have D: "\<forall>d \<in> D. length d = 64" using codes by blast
  let ?d = "rom_bits (current_rom g)"
  show ?thesis
  proof (cases "last_branch D ?d 64")
    case None
    then have "later = {}" using path_done [OF D d(1) None] later by force
    then show ?thesis using lst None by (simp add: ow_search_rom_def last_of_def)
  next
    case (Some l)
    let ?e = "path D (int l) ?d 64"
    have e: "?e \<in> later" using path_next(1,2) [OF D d(1) Some] later by simp
    moreover have "?e \<le> x" if "x \<in> later" for x using path_next(3) [OF D d(1) Some] that later by blast
    ultimately have m: "Min later = ?e" using finite later by (intro Min_eqI) auto
    have "D \<noteq> {}" "False \<or> 0 \<le> last_discrepancy g" using d(1) lst Some by (auto simp: last_of_def)
    then show ?thesis
      using search_finds [OF _ d(2), of False "last_discrepancy g" ?d s] e m lst Some later
      by (auto simp: last_of_def)
  qed
qed

end

section \<open>Listing the devices\<close>

text \<open>Giving the list command until it is done: the ROM codes printed, the final reply, and the state.\<close>

fun list_devices :: "'b onewire_bus \<Rightarrow> char option \<Rightarrow> nat \<Rightarrow> ow_global_t \<Rightarrow> 'b \<Rightarrow>
    (u8 list list \<times> ow_reply \<times> ow_global_t \<times> 'b) option" where
  "list_devices bus arg 0 g s = None"
| "list_devices bus arg (Suc n) g s =
    (case parse_cmd_onewire_list bus arg g s of
       None \<Rightarrow> None
     | Some (reply, g, s) \<Rightarrow>
         (case reply of
            ECMD_AGAIN_ROM rom \<Rightarrow> map_option (\<lambda>(roms, r). (rom # roms, r)) (list_devices bus arg n g s)
          | _ \<Rightarrow> Some ([], reply, g, s)))"

definition list_from :: "'b onewire_bus \<Rightarrow> char option \<Rightarrow> nat \<Rightarrow> int \<times> ow_global_t \<times> 'b \<Rightarrow>
    (u8 list list \<times> ow_reply \<times> ow_global_t \<times> 'b) option" where
  "list_from bus arg n r =
    (case list_result bus r of
       None \<Rightarrow> None
     | Some (reply, g, s) \<Rightarrow>
         (case reply of
            ECMD_AGAIN_ROM rom \<Rightarrow> map_option (\<lambda>(roms, r). (rom # roms, r)) (list_devices bus arg n g s)
          | _ \<Rightarrow> Some ([], reply, g, s)))"

lemma list_devices_locked:
  "lock g \<Longrightarrow> list_devices bus arg (Suc n) g s = list_from bus arg n (ow_search_rom bus False g s)"
  by (simp add: parse_cmd_onewire_list_def list_from_def)

lemma sorted_later:
  assumes "finite (A :: bool list set)" "A \<noteq> {}"
  shows "sorted_list_of_set A = Min A # sorted_list_of_set {e \<in> A. Min A < e}"
proof -
  have "{e \<in> A. Min A < e} = A - {Min A}" using assms by (auto simp: order_less_le)
  then show ?thesis using sorted_list_of_set_nonempty [OF assms] by simp
qed

context onewire_devices
begin

lemma list_from_found:
  assumes "rom_bits (current_rom g) \<in> D" "length (current_rom g) = 8" "lock g"
    and "last_discrepancy g = last_of (last_branch D (rom_bits (current_rom g)) 64)"
    and "card {e \<in> D. rom_bits (current_rom g) < e} < n"
  shows "\<exists>roms g' s'. list_from bus arg n (1, g, s) =
      Some (filter (list_selects (list_type g)) (current_rom g # roms), ECMD_FINAL_OK, g', s') \<and>
    map rom_bits roms = sorted_list_of_set {e \<in> D. rom_bits (current_rom g) < e} \<and> \<not> lock g'"
  using assms
proof (induction "card {e \<in> D. rom_bits (current_rom g) < e}" arbitrary: g n s rule: less_induct)
  case less
  let ?d = "rom_bits (current_rom g)"
  define later where "later = {e \<in> D. ?d < e}"
  have fl: "finite later" using finite by (simp add: later_def)
  obtain m where n: "n = Suc m" using less.prems(5) by (cases n) auto
  have step: "list_from bus arg n (1, g, s) =
    (if list_selects (list_type g) (current_rom g)
     then map_option (\<lambda>(roms, r). (current_rom g # roms, r)) (list_from bus arg m (ow_search_rom bus False g s))
     else list_from bus arg n (ow_search_rom bus False g s))"
    using less.prems(3) unfolding n
    by (simp add: list_from_def [of bus arg "Suc m"] list_result.simps [of bus "(1, g, s)"] list_devices_locked
        del: list_devices.simps)
  note nxt = search_next [OF less.prems(1,2,4) refl, of s, folded later_def]
  show ?case
  proof (cases "later = {}")
    case True
    have "list_from bus arg k (0, g, s) = Some ([], ECMD_FINAL_OK, g\<lparr>lock := False\<rparr>, s)" for k
      by (simp add: list_from_def list_result.simps [of bus "(0, g, s)"])
    then show ?thesis using nxt True unfolding step later_def [symmetric] by auto
  next
    case False
    then obtain rom s' where r: "ow_search_rom bus False g s =
        (1, g\<lparr>current_rom := rom, last_discrepancy := last_of (last_branch D (Min later) 64)\<rparr>, s')"
      "length rom = 8" "rom_bits rom = Min later" "Min later \<in> D" using nxt by auto
    define g1 where "g1 = g\<lparr>current_rom := rom, last_discrepancy := last_of (last_branch D (Min later) 64)\<rparr>"
    have "?d < Min later" using Min_in [OF fl False] by (simp add: later_def)
    then have l2: "{e \<in> D. rom_bits (current_rom g1) < e} = {e \<in> later. Min later < e}"
      using r(3) by (auto simp: g1_def later_def)
    have "{e \<in> later. Min later < e} \<subset> later" using Min_in [OF fl False] by auto
    then have c: "card {e \<in> D. rom_bits (current_rom g1) < e} < card later"
      unfolding l2 by (rule psubset_card_mono [OF fl])
    have cm: "card later < n" using less.prems(5) by (simp add: later_def)
    have ih: "\<exists>roms g' s''. list_from bus arg k (1, g1, s') =
      Some (filter (list_selects (list_type g1)) (current_rom g1 # roms), ECMD_FINAL_OK, g', s'') \<and>
      map rom_bits roms = sorted_list_of_set {e \<in> D. rom_bits (current_rom g1) < e} \<and> \<not> lock g'"
      if "m \<le> k" for k
      by (rule less.hyps) (use r less.prems(3) c cm n that in \<open>simp_all add: g1_def later_def\<close>)
    have srt: "sorted_list_of_set later = rom_bits rom # sorted_list_of_set {e \<in> D. rom_bits (current_rom g1) < e}"
      unfolding l2 r(3) by (rule sorted_later [OF fl False])
    have rr: "ow_search_rom bus False g s = (1, g1, s')" using r(1) by (simp add: g1_def)
    define k where "k = (if list_selects (list_type g) (current_rom g) then m else n)"
    have mk: "m \<le> k" by (simp add: k_def n)
    obtain roms g' s'' where it: "list_from bus arg k (1, g1, s') =
      Some (filter (list_selects (list_type g1)) (current_rom g1 # roms), ECMD_FINAL_OK, g', s'')"
      "map rom_bits roms = sorted_list_of_set {e \<in> D. rom_bits (current_rom g1) < e}" "\<not> lock g'"
      using ih [OF mk] by blast
    have "list_from bus arg n (1, g, s) =
        Some (filter (list_selects (list_type g)) (current_rom g # rom # roms), ECMD_FINAL_OK, g', s'')"
      using it(1) unfolding step rr by (simp add: g1_def k_def split: if_splits)
    moreover have "map rom_bits (rom # roms) = sorted_list_of_set later" using it(2) srt by simp
    ultimately show ?thesis using it(3) unfolding later_def by blast
  qed
qed

end

end
