(* ===== verification/Onewire_Spec.thy ===== *)
theory Onewire_Spec imports Onewire_Search begin

text \<open>
  A bus with devices that follow the standard, on which the laws of \<open>onewire_devices\<close> hold, and the
  properties of the search, of the list command and of the temperature readings.
\<close>

section \<open>Devices that follow the standard\<close>

text \<open>
  What the devices on the bus are doing: nothing until the next reset, taking a command's bits, or
  taking part in a search, in which \<open>Searching p k\<close> means that the bits \<open>p\<close> have been chosen and
  \<open>k\<close> of the two slots of the next one have passed.
\<close>

datatype devices = Idle | Command "bool list" | Searching "bool list" nat

definition full_codes :: "bool list list \<Rightarrow> bool list list" where
  "full_codes codes = filter (\<lambda>d. length d = 64) codes"

definition devices_write :: "bool \<Rightarrow> devices \<Rightarrow> devices" where
  "devices_write b s =
    (case s of
       Idle \<Rightarrow> Idle
     | Command bs \<Rightarrow>
         if length bs < 7 then Command (bs @ [b])
         else if bs @ [b] = [False, False, False, False, True, True, True, True] then Searching [] 0 else Idle
     | Searching p k \<Rightarrow> if k = 2 then Searching (p @ [b]) 0 else Idle)"

definition devices_read :: "bool list list \<Rightarrow> devices \<Rightarrow> bool \<times> devices" where
  "devices_read codes s =
    (case s of
       Searching p k \<Rightarrow>
         let listening = filter (\<lambda>d. take (length p) d = p) (full_codes codes)
         in if k = 0 then (list_all (\<lambda>d. d ! length p) listening, Searching p 1)
            else if k = 1 then (list_all (\<lambda>d. \<not> d ! length p) listening, Searching p 2)
            else (True, Idle)
     | _ \<Rightarrow> (True, Idle))"

definition devices_bus :: "bool list list \<Rightarrow> devices onewire_bus" where
  "devices_bus codes =
    \<lparr>bus_reset = (\<lambda>s. ((full_codes codes = [], True), Command [])), bus_write = devices_write,
     bus_read = devices_read codes\<rparr>"

lemma search_command: "ow_write_byte (devices_bus codes) OW_ROM_SEARCH_ROM (Command []) = Searching [] 0"
  by (simp add: ow_write_byte_def ow_write_def devices_bus_def devices_write_def OW_ROM_SEARCH_ROM_def
      upt_conv_Cons)

interpretation standard: onewire_devices "devices_bus codes" "set (full_codes codes)"
    "\<lambda>s. s = Command []" "\<lambda>p s. s = Searching p 0" for codes
proof
  show "s = Command [] \<Longrightarrow> ow_write_byte (devices_bus codes) OW_ROM_SEARCH_ROM s = Searching [] 0" for s
    by (simp add: search_command)
qed (auto simp: devices_bus_def devices_write_def devices_read_def full_codes_def list_all_iff Let_def filter_empty_conv)

section \<open>The search and the list command\<close>

text \<open>
  C14. Searching finds every device exactly once.  The list command, given again until it is done,
  prints the codes of all devices of the kind asked for, in ascending order of their bits, then
  ends and releases its lock; no command after the search is lost and no device is printed twice.
\<close>

theorem onewire_list_finds_all:
  assumes bus: "onewire_devices bus D ready searching" and D: "D \<noteq> {}"
    and g: "\<not> lock g" "length (current_rom g) = 8" and n: "card D < n"
    and arg: "(arg, t) \<in> {(None, OW_LIST_TYPE_ALL), (Some (CHR ''t''), OW_LIST_TYPE_TEMP_SENSOR),
      (Some (CHR ''e''), OW_LIST_TYPE_EEPROM)}"
  shows "\<exists>roms g' s'. list_devices bus arg n g s = Some (filter (list_selects t) roms, ECMD_FINAL_OK, g', s') \<and>
    map rom_bits roms = sorted_list_of_set D \<and> \<not> lock g'"
proof -
  define h where "h = g\<lparr>lock := True, list_type := t\<rparr>"
  have fin: "finite D" by (rule onewire_devices.finite [OF bus])
  obtain rom s' where f: "ow_search_rom bus True h s =
      (1, h\<lparr>current_rom := rom, last_discrepancy := last_of (last_branch D (Min D) 64)\<rparr>, s')"
    "length rom = 8" "rom_bits rom = Min D"
    using onewire_devices.search_first [OF bus D, of h s] g(2) by (auto simp: h_def)
  define g1 where "g1 = h\<lparr>current_rom := rom, last_discrepancy := last_of (last_branch D (Min D) 64)\<rparr>"
  have g1: "rom_bits (current_rom g1) = Min D" "length (current_rom g1) = 8" "lock g1" "list_type g1 = t"
    using f by (simp_all add: g1_def h_def)
  obtain m where m: "n = Suc m" using n by (cases n) auto
  have "{e \<in> D. Min D < e} \<subset> D" using Min_in [OF fin D] by auto
  then have "card {e \<in> D. Min D < e} < card D" by (rule psubset_card_mono [OF fin])
  then have c: "card {e \<in> D. rom_bits (current_rom g1) < e} < m" using n m g1(1) by simp
  have d: "rom_bits (current_rom g1) \<in> D" using Min_in [OF fin D] g1(1) by simp
  have l: "last_discrepancy g1 = last_of (last_branch D (rom_bits (current_rom g1)) 64)"
    using f(3) by (simp add: g1_def)
  obtain roms g' s'' where r: "list_from bus arg m (1, g1, s') =
      Some (filter (list_selects t) (rom # roms), ECMD_FINAL_OK, g', s'')"
    "map rom_bits roms = sorted_list_of_set {e \<in> D. Min D < e}" "\<not> lock g'"
    using onewire_devices.list_from_found [OF bus d g1(2,3) l c, of arg s'] g1 f(3) by (auto simp: g1_def)
  have "parse_cmd_onewire_list bus arg g s = list_result bus (1, g1, s')"
    using arg g(1) f(1) by (auto simp: parse_cmd_onewire_list_def Let_def h_def g1_def)
  then have "list_devices bus arg n g s = list_from bus arg m (1, g1, s')"
    by (simp add: m list_from_def)
  moreover have "map rom_bits (rom # roms) = sorted_list_of_set D"
    using r(2) f(3) sorted_later [OF fin D] by simp
  ultimately show ?thesis
    using r(1,3) by (intro exI [of _ "rom # roms"] exI [of _ g'] exI [of _ s'']) simp
qed

text \<open>A thermometer and a memory on the bus.\<close>

definition two_codes :: "u8 list list" where
  "two_codes = [[0x10, 1, 2, 3, 4, 5, 6, 7], [0x89, 1, 2, 3, 4, 5, 6, 7]]"

definition idle_global :: ow_global_t where
  "idle_global = \<lparr>lock = False, last_discrepancy = 0, list_type = OW_LIST_TYPE_ALL, current_rom = replicate 8 0\<rparr>"

lemma two_codes: "full_codes (map rom_bits two_codes) = map rom_bits two_codes" "rom_bits (two_codes ! 0) \<noteq> rom_bits (two_codes ! 1)"
proof -
  show "full_codes (map rom_bits two_codes) = map rom_bits two_codes" by (simp add: full_codes_def)
  have "rom_bits (two_codes ! 0) ! 0 \<noteq> rom_bits (two_codes ! 1) ! 0" by (simp add: nth_rom_bits two_codes_def)
  then show "rom_bits (two_codes ! 0) \<noteq> rom_bits (two_codes ! 1)" by metis
qed

theorem onewire_list_finds_all_witness:
  "\<exists>roms g' s'. list_devices (devices_bus (map rom_bits two_codes)) None 3 idle_global Idle =
      Some (roms, ECMD_FINAL_OK, g', s') \<and>
    map rom_bits roms = sorted_list_of_set (rom_bits ` set two_codes) \<and> length roms = 2 \<and> \<not> lock g'"
proof -
  have D: "set (full_codes (map rom_bits two_codes)) = rom_bits ` set two_codes" using two_codes(1) by simp
  have c: "card (rom_bits ` set two_codes) = 2" using two_codes(2) by (simp add: two_codes_def)
  have "rom_bits ` set two_codes \<noteq> {}" by (simp add: two_codes_def)
  moreover have "card (rom_bits ` set two_codes) < 3" by (simp add: c)
  moreover have "\<not> lock idle_global" "length (current_rom idle_global) = 8" by (simp_all add: idle_global_def)
  ultimately have h: "rom_bits ` set two_codes \<noteq> {}" "\<not> lock idle_global" "length (current_rom idle_global) = 8"
    "card (rom_bits ` set two_codes) < 3" by simp_all
  from onewire_list_finds_all [OF standard.onewire_devices_axioms [of "map rom_bits two_codes", unfolded D]
      h, of None OW_LIST_TYPE_ALL Idle]
  obtain roms g' s' where r: "list_devices (devices_bus (map rom_bits two_codes)) None 3 idle_global Idle =
      Some (filter (list_selects OW_LIST_TYPE_ALL) roms, ECMD_FINAL_OK, g', s')"
    "map rom_bits roms = sorted_list_of_set (rom_bits ` set two_codes)" "\<not> lock g'" by auto
  have "length roms = 2" using arg_cong [OF r(2), of length] c by simp
  moreover have "filter (list_selects OW_LIST_TYPE_ALL) roms = roms" by (simp add: list_selects_def)
  ultimately show ?thesis using r by auto
qed

text \<open>
  With no device on the bus the list command ends at once but keeps its lock: the next list
  command prints nothing, whatever its argument and whatever devices there are by then.
\<close>

theorem onewire_list_keeps_lock:
  assumes bus: "onewire_devices bus {} ready searching" and g: "\<not> lock g"
    and arg: "arg \<in> {None, Some (CHR ''t''), Some (CHR ''e'')}"
  shows "\<exists>g' s'. parse_cmd_onewire_list bus arg g s = Some (ECMD_FINAL_OK, g', s') \<and> lock g' \<and>
    (\<forall>bus2 :: 'c onewire_bus. \<forall>arg2 s2. \<exists>g''.
      parse_cmd_onewire_list bus2 arg2 g' s2 = Some (ECMD_FINAL_OK, g'', s2) \<and> \<not> lock g'')"
proof -
  obtain t where t: "parse_cmd_onewire_list bus arg g s =
      (let (ret, g, s) = ow_search_rom bus True (g\<lparr>lock := True, list_type := t\<rparr>) s
       in if ret \<le> 0 then Some (ECMD_FINAL_OK, g, s) else list_result bus (ret, g, s))"
    using arg g by (auto simp: parse_cmd_onewire_list_def Let_def)
  let ?g = "g\<lparr>lock := True, list_type := t, last_discrepancy := -1, current_rom := replicate 8 0\<rparr>"
  have "ow_search_rom bus True (g\<lparr>lock := True, list_type := t\<rparr>) s = (-1, ?g, snd (bus_reset bus s))"
    using onewire_devices.presence(1) [OF bus, of s]
    by (auto simp: ow_search_rom_def reset_onewire_def Let_def split: prod.splits)
  then have "parse_cmd_onewire_list bus arg g s = Some (ECMD_FINAL_OK, ?g, snd (bus_reset bus s))"
    by (simp add: t)
  moreover have "parse_cmd_onewire_list bus2 arg2 ?g s2 = Some (ECMD_FINAL_OK, ?g\<lparr>lock := False\<rparr>, s2)"
    for bus2 :: "'c onewire_bus" and arg2 s2
    by (simp add: parse_cmd_onewire_list_def ow_search_rom_def list_result.simps)
  ultimately show ?thesis by (intro exI conjI allI) (assumption | simp)+
qed

theorem onewire_list_keeps_lock_witness:
  "\<exists>g' s'. parse_cmd_onewire_list (devices_bus []) None idle_global Idle = Some (ECMD_FINAL_OK, g', s') \<and> lock g' \<and>
    (\<exists>g''. parse_cmd_onewire_list (devices_bus (map rom_bits two_codes)) None g' Idle = Some (ECMD_FINAL_OK, g'', Idle))"
proof -
  have D: "set (full_codes []) = {}" by (simp add: full_codes_def)
  have "\<not> lock idle_global" by (simp add: idle_global_def)
  from onewire_list_keeps_lock [where 'c = devices, OF standard.onewire_devices_axioms [of "[]", unfolded D] this,
      of None Idle]
  show ?thesis by blast
qed

section \<open>Temperatures\<close>

lemma clear_lowest: "(word_of_int T :: u16) AND 0xfffe = word_of_int (2 * (T div 2))"
proof -
  have m: "(0xfffe :: u16) = NOT 1" by simp
  define u where "u = 2 * (T div 2)"
  have "bit u n = (0 < n \<and> bit T n)" for n
    unfolding u_def by (cases n) (simp_all add: bit_0 bit_double_iff bit_Suc)
  then have "bit (word_of_int u :: u16) n = (n < 16 \<and> 0 < n \<and> bit T n)" for n
    by (simp add: bit_word_of_int_iff)
  moreover have "bit ((word_of_int T :: u16) AND NOT 1) n = (n < 16 \<and> 0 < n \<and> bit T n)" for n
    by (auto simp: bit_and_iff bit_not_iff bit_1_iff bit_word_of_int_iff)
  ultimately show ?thesis unfolding m u_def [symmetric] by (intro bit_word_eqI) simp
qed

text \<open>
  The number ow_temp_normalize computes for a DS1820 is 256 times the temperature the data sheet
  gives for its scratchpad, T - 0.25 + (16 - count_remain) / 16 degrees with T the whole degrees
  of the reading, and for a DS18B20 or DS1822 256 times the reading in sixteenths of a degree.
\<close>

theorem ow_temp_normalize_correct:
  assumes sp: "T = sint (sp_temperature sp)"
  shows "(ow_family rom = OW_FAMILY_DS1820 \<longrightarrow> - 110 \<le> T \<longrightarrow> T \<le> 250 \<longrightarrow> sp ! 7 = 16 \<longrightarrow> sp ! 6 \<le> 16 \<longrightarrow>
      (\<exists>w. ow_temp_normalize rom sp = Some w \<and>
        16 * sint w = 256 * (16 * (T div 2) - 4 + (16 - int (unat (sp ! 6)))))) \<and>
    (ow_family rom = OW_FAMILY_DS18B20 \<or> ow_family rom = OW_FAMILY_DS1822 \<longrightarrow> - 2048 \<le> T \<longrightarrow> T < 2048 \<longrightarrow>
      (\<exists>w. ow_temp_normalize rom sp = Some w \<and> 16 * sint w = 256 * T))"
proof (intro conjI impI)
  let ?t = "sp_temperature sp" and ?r = "int (unat (sp ! 6))"
  have st: "?t = word_of_int T" by (simp add: sp)
  have small: "sint (word_of_int n :: u16) = n" if "- 32768 \<le> n" "n < 32768" for n
    using that by (simp add: signed_of_int signed_take_bit_int_eq_self)
  show "\<exists>w. ow_temp_normalize rom sp = Some w \<and> 16 * sint w = 256 * (16 * (T div 2) - 4 + (16 - ?r))"
    if f: "ow_family rom = OW_FAMILY_DS1820" and T: "- 110 \<le> T" "T \<le> 250" and c: "sp ! 7 = 16" "sp ! 6 \<le> 16"
  proof -
    have "unat (sp ! 6) \<le> 16" using c(2) by (simp add: word_le_nat_alt)
    then have r: "0 \<le> ?r" "?r \<le> 16" by linarith+
    have A: "(?t AND 0xfffe) = word_of_int (2 * (T div 2))" unfolding st by (rule clear_lowest)
    have p: "push_bit 7 (word_of_int (2 * (T div 2)) :: u16) = word_of_int (256 * (T div 2))"
      by (simp add: push_bit_eq_mult)
    define q where "q = 16 - ?r"
    have q: "0 \<le> q" "q \<le> 16" using r by (simp_all add: q_def)
    have e: "int (unat (sp ! 7)) - int (unat (sp ! 6)) = q" by (simp add: q_def c(1))
    have "ow_temp_normalize rom sp = Some (word_of_int (256 * (T div 2)) - 0x40 + word_of_int (q * 256 div 16))"
      using q f unfolding ow_temp_normalize_def Let_def A p e
      by (simp add: OW_FAMILY_DS1820_def c(1))
    moreover have "q * 256 div 16 = 16 * q" by simp
    ultimately have w: "ow_temp_normalize rom sp = Some (word_of_int (256 * (T div 2) - 64 + 16 * q))"
      by (simp only:) simp
    have "- 32768 \<le> 256 * (T div 2) - 64 + 16 * q" "256 * (T div 2) - 64 + 16 * q < 32768"
      using T q by auto
    then have "sint (word_of_int (256 * (T div 2) - 64 + 16 * q) :: u16) = 256 * (T div 2) - 64 + 16 * q"
      by (rule small)
    then have "16 * sint (word_of_int (256 * (T div 2) - 64 + 16 * q) :: u16) = 256 * (16 * (T div 2) - 4 + q)"
      by (simp only:) (simp add: algebra_simps)
    with w show ?thesis unfolding q_def [symmetric] by blast
  qed
  show "\<exists>w. ow_temp_normalize rom sp = Some w \<and> 16 * sint w = 256 * T"
    if f: "ow_family rom = OW_FAMILY_DS18B20 \<or> ow_family rom = OW_FAMILY_DS1822" and T: "- 2048 \<le> T" "T < 2048"
  proof -
    have "push_bit 4 ?t = word_of_int (16 * T)" by (simp add: push_bit_eq_mult st)
    then have "ow_temp_normalize rom sp = Some (word_of_int (16 * T))"
      using f by (auto simp: ow_temp_normalize_def OW_FAMILY_DS1820_def OW_FAMILY_DS18B20_def OW_FAMILY_DS1822_def)
    then show ?thesis using T small [of "16 * T"] by simp
  qed
qed

theorem ow_temp_normalize_correct_witness:
  "\<exists>w. ow_temp_normalize [0x10, 0, 0, 0, 0, 0, 0, 0] [0xcf, 0xff, 0, 0, 0, 0, 8, 16, 0] = Some w \<and>
    16 * sint w = 256 * (16 * (- 25) - 4 + (16 - 8))"
proof -
  have t: "sint (sp_temperature [0xcf, 0xff, 0, 0, 0, 0, 8, 16, 0]) = - 49"
    by (simp add: sp_temperature_def)
  show ?thesis
    using ow_temp_normalize_correct [OF t [symmetric], of "[0x10, 0, 0, 0, 0, 0, 0, 0]"]
    by (simp add: ow_family_def OW_FAMILY_DS1820_def)
qed

text \<open>
  What the get command prints for a temperature v / 256: the integer part is v / 256 rounded
  down and the digit is the fraction above that in tenths, rounded.  For temperatures below zero
  that are not whole degrees the two do not belong together - minus half a degree is printed as
  -1.5 - and a fraction of 0.95 or more gives the two digits 10.
\<close>

theorem temp_text_rounds_down:
  assumes "- 32768 \<le> v" "v < 32768"
  shows "temp_text (word_of_int v) = (v div 256, nat ((v mod 256 * 10 + 128) div 256))"
proof -
  let ?w = "word_of_int v :: u16"
  have "v mod 256 < 256" "0 \<le> v mod 256" by simp_all
  have lo: "?w AND 0x00ff = word_of_int (v mod 256)"
  proof -
    have "(0x00ff :: u16) = mask 8" by (simp add: mask_eq_exp_minus_1)
    then have "?w AND 0x00ff = take_bit 8 ?w" by (simp only: take_bit_eq_mask)
    also have "\<dots> = word_of_int (take_bit 8 v)" by (simp add: bit_eq_iff bit_take_bit_iff bit_word_of_int_iff)
    finally show ?thesis by (simp add: take_bit_eq_mod)
  qed
  define m where "m = v mod 256 * 10 + 128"
  have m: "0 \<le> m" "m < 65536" unfolding m_def using pos_mod_bound [of 256 v] by simp_all
  have "(?w AND 0x00ff) * 10 + 0x80 = word_of_int m" unfolding lo m_def by simp
  moreover have "unat (drop_bit 8 (word_of_int m :: u16)) = nat (m div 256)"
  proof -
    have "uint (word_of_int m :: u16) = m" using m by (simp add: unsigned_of_int take_bit_int_eq_self)
    then have "uint (drop_bit 8 (word_of_int m :: u16)) = m div 256"
      using m by (simp only: unsigned_drop_bit_eq) (simp add: drop_bit_eq_div take_bit_int_eq_self)
    then show ?thesis by (metis nat_uint_eq)
  qed
  moreover have "sint (ucast (drop_bit 8 ?w) :: u8) = v div 256"
  proof -
    have "(ucast (drop_bit 8 ?w) :: u8) = word_of_int (drop_bit 8 v)"
      by (rule bit_word_eqI) (auto simp: bit_ucast_iff bit_drop_bit_eq bit_word_of_int_iff)
    moreover have "sint (word_of_int (drop_bit 8 v) :: u8) = v div 256"
      using assms by (simp add: signed_of_int drop_bit_eq_div signed_take_bit_int_eq_self)
    ultimately show ?thesis by simp
  qed
  ultimately show ?thesis by (simp add: temp_text_def m_def)
qed

theorem temp_text_rounds_down_witness:
  "temp_text (word_of_int (- 128)) = (- 1, 5) \<and> temp_text (word_of_int 250) = (0, 10)"
  using temp_text_rounds_down [of "- 128"] temp_text_rounds_down [of 250] by simp

end
