(* ===== verification/Vfs_Inline.thy ===== *)
theory Vfs_Inline imports Fs_Files begin

text \<open>
  The inline file system: files the host tool core/vfs/vfs-concat.c appends to the program image
  and core/vfs/vfs_inline.c reads from the program memory.  A file starts at the start of a flash
  page with a magic byte and a node of name, length and checksum, followed by its contents.

  \<open>pgm_read_byte\<close> takes a 16-bit address, so the program memory is a function of one.  \<open>FLASHEND\<close> and
  \<open>SPM_PAGESIZE\<close> depend on the controller and are arguments.  Lengths of the 32-bit
  \<open>vfs_size_t\<close> are natural numbers.  Strings are lists of bytes without the final zero.
\<close>

section \<open>Nodes\<close>

definition VFS_INLINE_MAGIC :: u8 where "VFS_INLINE_MAGIC = 0x23"
definition VFS_INLINE_FNLEN :: nat where "VFS_INLINE_FNLEN = 6"

record vfs_inline_node_t =
  il_fn :: "u8 list"
  il_node_len :: u16
  il_crc :: u8

definition node_raw :: "vfs_inline_node_t \<Rightarrow> u8 list" where
  "node_raw n = il_fn n @ le16 (unat (il_node_len n)) @ [il_crc n]"

definition raw_node :: "u8 list \<Rightarrow> vfs_inline_node_t" where
  "raw_node raw = \<lparr>il_fn = take 6 raw, il_node_len = of_nat (un16 (drop 6 raw)), il_crc = raw ! 8\<rparr>"

definition sizeof_inline_node :: nat where "sizeof_inline_node = 9"

section \<open>The firmware\<close>

type_synonym program_memory = "u16 \<Rightarrow> u8"

record vfs_file_handle_inline_t =
  il_offset :: u16
  il_pos :: u16
  il_len :: u16

definition read_raw :: "program_memory \<Rightarrow> u16 \<Rightarrow> u8 list" where
  "read_raw pm offset = map (\<lambda>i. pm (offset + of_nat i + 1)) [0..<sizeof_inline_node]"

text \<open>\<open>heap\<close> says whether malloc finds memory for the handle.\<close>

partial_function (option) inline_open_loop ::
  "bool \<Rightarrow> program_memory \<Rightarrow> nat \<Rightarrow> u8 list \<Rightarrow> u16 \<Rightarrow> vfs_file_handle_inline_t option option" where
  "inline_open_loop heap pm SPM_PAGESIZE filename offset =
    (if offset = 0 then Some None
     else if pm offset \<noteq> VFS_INLINE_MAGIC
     then inline_open_loop heap pm SPM_PAGESIZE filename (offset - of_nat SPM_PAGESIZE)
     else
       let raw = read_raw pm offset; node = raw_node raw
       in if il_crc node \<noteq> crc_checksum raw (of_nat (sizeof_inline_node - 1))
          then inline_open_loop heap pm SPM_PAGESIZE filename (offset - of_nat SPM_PAGESIZE)
          else if strncmp VFS_INLINE_FNLEN (il_fn node) filename \<noteq> 0
          then inline_open_loop heap pm SPM_PAGESIZE filename (offset - of_nat SPM_PAGESIZE)
          else if \<not> heap then Some None
          else Some (Some \<lparr>il_offset = offset + of_nat sizeof_inline_node + 1, il_pos = 0,
            il_len = il_node_len node\<rparr>))"

declare inline_open_loop.simps [code]

definition vfs_inline_open ::
  "bool \<Rightarrow> program_memory \<Rightarrow> nat \<Rightarrow> nat \<Rightarrow> u8 list \<Rightarrow> vfs_file_handle_inline_t option option" where
  "vfs_inline_open heap pm FLASHEND SPM_PAGESIZE filename =
    inline_open_loop heap pm SPM_PAGESIZE filename (of_nat FLASHEND - of_nat SPM_PAGESIZE + 1)"

text \<open>The buffer is passed with its size; a write behind its end is \<open>None\<close>.\<close>

definition vfs_inline_read ::
  "program_memory \<Rightarrow> vfs_file_handle_inline_t \<Rightarrow> u8 list \<Rightarrow> nat \<Rightarrow>
    (nat \<times> u8 list \<times> vfs_file_handle_inline_t) option" where
  "vfs_inline_read pm fh buf n =
    (let len = il_len fh - il_pos fh;
         len = (if n < unat len then of_nat n else len);
         d = map (\<lambda>i. pm (il_offset fh + il_pos fh + of_nat i)) [0..<unat len]
     in if unat len \<le> length buf
        then Some (unat len, memcpy_at 0 d buf, fh\<lparr>il_pos := il_pos fh + len\<rparr>) else None)"

definition vfs_inline_fseek ::
  "vfs_file_handle_inline_t \<Rightarrow> nat \<Rightarrow> seek_whence \<Rightarrow> u8 \<times> vfs_file_handle_inline_t" where
  "vfs_inline_fseek fh offset whence =
    (case (case whence of
        SEEK_SET \<Rightarrow> Some (of_nat offset)
      | SEEK_CUR \<Rightarrow> Some (il_pos fh + of_nat offset)
      | SEEK_END \<Rightarrow> Some (il_len fh + of_nat offset)
      | SEEK_OTHER \<Rightarrow> None) of
      None \<Rightarrow> (255, fh)
    | Some new_pos \<Rightarrow> if new_pos > il_len fh then (255, fh) else (0, fh\<lparr>il_pos := new_pos\<rparr>))"

definition vfs_inline_size :: "vfs_file_handle_inline_t \<Rightarrow> nat" where
  "vfs_inline_size fh = unat (il_len fh)"

section \<open>The host tool\<close>

definition BUFLEN :: nat where "BUFLEN = 65535"

text \<open>Filling up the last page with 0xFF; the page size has been checked before.\<close>

function pad_loop :: "nat \<Rightarrow> nat \<Rightarrow> u8 list" where
  "pad_loop pagesz image_len =
    (if pagesz = 0 \<or> image_len mod pagesz = 0 then [] else 0xFF # pad_loop pagesz (image_len + 1))"
  by pat_completeness auto
termination
proof (relation "measure (\<lambda>(p, n). if n mod p = 0 then 0 else p - n mod p)")
  fix p n :: nat
  assume "\<not> (p = 0 \<or> n mod p = 0)"
  moreover from this have "n mod p < p" by simp
  ultimately show "((p, n + 1), p, n) \<in> measure (\<lambda>(p, n). if n mod p = 0 then 0 else p - n mod p)"
    by (auto simp: mod_Suc)
qed simp

declare pad_loop.simps [simp del]

text \<open>Stripping the directories: \<open>while ((ptr = strchr (argv[3], '/'))) argv[3] = ptr + 1\<close>.\<close>

function base_name :: "u8 list \<Rightarrow> u8 list" where
  "base_name path = (case dropWhile (\<lambda>c. c \<noteq> 0x2f) path of [] \<Rightarrow> path | _ # ptr \<Rightarrow> base_name ptr)"
  by pat_completeness auto
termination
proof (relation "measure length")
  fix path ptr :: "u8 list" and c
  assume "dropWhile (\<lambda>c. c \<noteq> 0x2f) path = c # ptr"
  then have "length (c # ptr) \<le> length path" by (metis length_dropWhile_le)
  then show "(ptr, path) \<in> measure length" by simp
qed simp

declare base_name.simps [simp del]

text \<open>
  \<open>main\<close> behind the check of the number of arguments; \<open>fopen\<close> gives the contents of a readable
  file.  The results are the exit value and what has been printed to the standard output.
\<close>

definition vfs_concat :: "(u8 list \<Rightarrow> u8 list option) \<Rightarrow> bool \<Rightarrow> u8 list \<Rightarrow> int \<Rightarrow> u8 list \<Rightarrow> int \<times> u8 list" where
  "vfs_concat fopen heap image_path pagesz path =
    (if pagesz = 0 \<or> pagesz mod 2 \<noteq> 0 \<or> pagesz < 64 \<or> 256 < pagesz then (1, [])
     else (case fopen image_path of
       None \<Rightarrow> (1, [])
     | Some d \<Rightarrow>
         let image = take BUFLEN d
         in if \<not> heap then (1, [])
            else (case (case fopen (path @ [0x2e, 0x67, 0x7a]) of None \<Rightarrow> fopen path | Some d \<Rightarrow> Some d) of
              None \<Rightarrow> (1, [])
            | Some d \<Rightarrow>
                let file = take BUFLEN d;
                    out = image @ pad_loop (nat pagesz) (length image);
                    name = base_name path
                in if length name > VFS_INLINE_FNLEN then (1, out)
                   else
                     let node = \<lparr>il_fn = strncpy name VFS_INLINE_FNLEN, il_node_len = of_nat (length file), il_crc = 0\<rparr>;
                         node = node\<lparr>il_crc := crc_calc (node_raw node) (sizeof_inline_node - 1)\<rparr>
                     in (0, out @ [VFS_INLINE_MAGIC] @ node_raw node @ file))))"

section \<open>Looking a name up\<close>

text \<open>A program memory that holds an image and is erased behind it.\<close>

definition loaded :: "u8 list \<Rightarrow> program_memory" where
  "loaded img = (\<lambda>a. if unat a < length img then img ! unat a else 0xFF)"

definition is_node :: "program_memory \<Rightarrow> u16 \<Rightarrow> bool" where
  "is_node pm offset \<longleftrightarrow> pm offset = VFS_INLINE_MAGIC \<and>
    il_crc (raw_node (read_raw pm offset)) = crc_checksum (read_raw pm offset) 8"

definition node_named :: "program_memory \<Rightarrow> u8 list \<Rightarrow> u16 \<Rightarrow> bool" where
  "node_named pm filename offset \<longleftrightarrow> is_node pm offset \<and>
    cstr 6 (il_fn (raw_node (read_raw pm offset))) = cstr 6 filename"

definition node_handle :: "program_memory \<Rightarrow> u16 \<Rightarrow> vfs_file_handle_inline_t" where
  "node_handle pm offset = \<lparr>il_offset = offset + 10, il_pos = 0, il_len = il_node_len (raw_node (read_raw pm offset))\<rparr>"

definition page_start :: "nat \<Rightarrow> nat \<Rightarrow> u16" where
  "page_start P j = of_nat (j * P)"

lemma unat_page_start: "j * P < 65536 \<Longrightarrow> unat (page_start P j) = j * P"
  unfolding page_start_def by (simp only: unsigned_of_nat) (simp add: take_bit_nat_eq_self)

text \<open>The search takes the last page that starts with a node of the name, the first page excepted.\<close>

lemma inline_open_loop_find:
  assumes "0 < P" "k * P < 65536"
  shows "inline_open_loop heap pm P filename (page_start P k) =
    Some (case find (\<lambda>j. node_named pm filename (page_start P j)) (rev [1..<k + 1]) of
        None \<Rightarrow> None | Some j \<Rightarrow> if heap then Some (node_handle pm (page_start P j)) else None)"
  using assms(2)
proof (induction k)
  case 0
  show ?case by (simp add: page_start_def inline_open_loop.simps)
next
  case (Suc k)
  let ?off = "page_start P (Suc k)"
  have "unat ?off = Suc k * P" using Suc.prems by (rule unat_page_start)
  then have nz: "?off \<noteq> 0" using assms(1) by auto
  have prev: "?off - of_nat P = page_start P k" by (simp add: page_start_def)
  have named: "node_named pm filename ?off \<longleftrightarrow> pm ?off = VFS_INLINE_MAGIC \<and>
      il_crc (raw_node (read_raw pm ?off)) = crc_checksum (read_raw pm ?off) 8 \<and>
      strncmp 6 (il_fn (raw_node (read_raw pm ?off))) filename = 0"
    by (auto simp: node_named_def is_node_def strncmp_cstr)
  have "rev [1..<Suc k + 1] = Suc k # rev [1..<k + 1]" by simp
  moreover have "inline_open_loop heap pm P filename ?off =
    (if node_named pm filename ?off then Some (if heap then Some (node_handle pm ?off) else None)
     else inline_open_loop heap pm P filename (page_start P k))"
    using nz by (subst inline_open_loop.simps)
      (simp add: named Let_def prev node_handle_def sizeof_inline_node_def VFS_INLINE_FNLEN_def)
  ultimately show ?case using Suc by simp
qed

lemma vfs_inline_open_find:
  assumes "0 < P" "FLASHEND + 1 = m * P" "m * P \<le> 65536"
  shows "vfs_inline_open heap pm FLASHEND P filename =
    Some (case find (\<lambda>j. node_named pm filename (page_start P j)) (rev [1..<m]) of
        None \<Rightarrow> None | Some j \<Rightarrow> if heap then Some (node_handle pm (page_start P j)) else None)"
proof -
  obtain k where m: "m = Suc k" using assms(2) by (cases m) auto
  have "(of_nat FLASHEND + 1 :: u16) = of_nat (m * P)" using assms(2) by (metis of_nat_1 of_nat_add)
  then have "(of_nat FLASHEND - of_nat P + 1 :: u16) = page_start P k" by (simp add: m page_start_def algebra_simps)
  then show ?thesis
    using inline_open_loop_find [OF assms(1), of k heap pm filename] assms by (simp add: vfs_inline_open_def m)
qed

section \<open>What the host tool writes\<close>

lemma pad_loop_eq:
  assumes "0 < P"
  shows "\<exists>k < P. pad_loop P n = replicate k 0xFF \<and> P dvd n + k"
  using assms
proof (induction P n rule: pad_loop.induct)
  case (1 P n)
  show ?case
  proof (cases "n mod P = 0")
    case True
    then show ?thesis using 1(2) by (intro exI [of _ 0]) (simp add: pad_loop.simps mod_eq_0_iff_dvd)
  next
    case False
    then obtain k where k: "k < P" "pad_loop P (n + 1) = replicate k 0xFF" "P dvd n + 1 + k"
      using 1 by auto
    have "pad_loop P n = replicate (Suc k) 0xFF" using False 1(2) k(2) by (subst pad_loop.simps) simp
    moreover have "Suc k < P"
    proof (rule ccontr)
      assume "\<not> Suc k < P"
      then have "P = Suc k" using k(1) by simp
      then have "P dvd n + P" using k(3) by simp
      then show False using False by (simp add: mod_eq_0_iff_dvd)
    qed
    ultimately show ?thesis using k(3) by (intro exI [of _ "Suc k"]) simp
  qed
qed

lemma loaded_padding: "loaded (img @ replicate k 0xFF) = loaded img"
  by (auto simp: loaded_def nth_append)

lemma length_node_raw: "length (il_fn n) = 6 \<Longrightarrow> length (node_raw n) = 9"
  by (simp add: node_raw_def le16_def)

lemma raw_node_raw: "length (il_fn n) = 6 \<Longrightarrow> raw_node (node_raw n) = n"
  using un16_le16 [of "unat (il_node_len n)"]
  by (intro vfs_inline_node_t.equality) (simp_all add: raw_node_def node_raw_def nth_append le16_def)

text \<open>The bytes of a page that starts below \<open>65536\<close>, which may run into the erased rest.\<close>

lemma unat_offset: "j * P + i < 65536 \<Longrightarrow> unat (page_start P j + of_nat i) = j * P + i"
  unfolding page_start_def of_nat_add [symmetric]
  by (simp only: unsigned_of_nat) (simp add: take_bit_nat_eq_self)

lemma loaded_at:
  "j * P + i < 65536 \<Longrightarrow> loaded img (page_start P j + of_nat i) = (if j * P + i < length img then img ! (j * P + i) else 0xFF)"
  by (simp add: loaded_def unat_offset)

lemma read_raw_loaded:
  assumes "j * P + 10 \<le> 65536"
  shows "read_raw (loaded img) (page_start P j) =
    map (\<lambda>i. if j * P + i < length img then img ! (j * P + i) else 0xFF) [1..<10]"
proof -
  have "loaded img (page_start P j + of_nat i + 1) = (if j * P + Suc i < length img then img ! (j * P + Suc i) else 0xFF)"
    if "i < 9" for i
    using loaded_at [of j P "Suc i" img] that assms by (simp add: add.assoc add.commute [of 1])
  then have "read_raw (loaded img) (page_start P j) =
      map (\<lambda>i. if j * P + Suc i < length img then img ! (j * P + Suc i) else 0xFF) [0..<9]"
    unfolding read_raw_def sizeof_inline_node_def by (intro map_cong refl) simp
  also have "\<dots> = map (\<lambda>i. if j * P + i < length img then img ! (j * P + i) else 0xFF) (map Suc [0..<9])"
    by (simp only: map_map o_def)
  finally show ?thesis by (simp only: map_Suc_upt) simp
qed

lemma node_named_cong:
  assumes "j * P + 10 \<le> 65536" "\<And>i. i < 10 \<Longrightarrow> loaded a (page_start P j + of_nat i) = loaded b (page_start P j + of_nat i)"
  shows "read_raw (loaded a) (page_start P j) = read_raw (loaded b) (page_start P j)"
    "node_named (loaded a) f (page_start P j) = node_named (loaded b) f (page_start P j)"
proof -
  show r: "read_raw (loaded a) (page_start P j) = read_raw (loaded b) (page_start P j)"
    unfolding read_raw_def sizeof_inline_node_def
  proof (intro map_cong refl)
    fix i assume "i \<in> set [0..<9]"
    then show "loaded a (page_start P j + of_nat i + 1) = loaded b (page_start P j + of_nat i + 1)"
      using assms(2) [of "Suc i"] by (simp add: add.assoc add.commute [of 1])
  qed
  show "node_named (loaded a) f (page_start P j) = node_named (loaded b) f (page_start P j)"
    using assms(2) [of 0] by (simp add: node_named_def is_node_def r)
qed

lemma erased_not_named:
  assumes "length img \<le> j * P" "j * P < 65536"
  shows "\<not> node_named (loaded img) f (page_start P j)"
  using loaded_at [of j P 0 img] assms by (simp add: node_named_def is_node_def VFS_INLINE_MAGIC_def)

text \<open>A file appended to an image that ends with a page.\<close>

lemma appended_node:
  assumes out: "out = img @ VFS_INLINE_MAGIC # node_raw node @ file" "length img = h * P" "length out \<le> 65536"
    and node: "length (il_fn node) = 6" "il_crc node = crc_checksum (node_raw node) 8"
  shows "node_named (loaded out) f (page_start P h) \<longleftrightarrow> cstr 6 (il_fn node) = cstr 6 f"
    "node_handle (loaded out) (page_start P h) = \<lparr>il_offset = page_start P h + 10, il_pos = 0, il_len = il_node_len node\<rparr>"
proof -
  have len: "length out = h * P + 10 + length file"
    using out(1,2) length_node_raw [OF node(1)] by simp
  then have hP: "h * P + 10 \<le> 65536" using out(3) by simp
  have "read_raw (loaded out) (page_start P h) = map (\<lambda>i. out ! (h * P + i)) [1..<10]"
    unfolding read_raw_loaded [OF hP] using len by (intro map_cong) auto
  also have "\<dots> = node_raw node"
  proof (rule nth_equalityI)
    show "length (map (\<lambda>i. out ! (h * P + i)) [1..<10]) = length (node_raw node)"
      using length_node_raw [OF node(1)] by simp
    fix i assume "i < length (map (\<lambda>i. out ! (h * P + i)) [1..<10])"
    then have i: "i < 9" by simp
    then have "[1..<10] ! i = 1 + i" by (subst nth_upt) simp_all
    then have "map (\<lambda>i. out ! (h * P + i)) [1..<10] ! i = out ! (h * P + Suc i)"
      using i by (subst nth_map) simp_all
    also have "\<dots> = node_raw node ! i"
      using i length_node_raw [OF node(1)] by (simp add: out(1) out(2) [symmetric] nth_append)
    finally show "map (\<lambda>i. out ! (h * P + i)) [1..<10] ! i = node_raw node ! i" .
  qed
  finally have raw: "read_raw (loaded out) (page_start P h) = node_raw node" .
  have "loaded out (page_start P h) = VFS_INLINE_MAGIC"
    using loaded_at [of h P 0 out] len hP by (simp add: out(1) out(2) [symmetric] nth_append)
  then show "node_named (loaded out) f (page_start P h) \<longleftrightarrow> cstr 6 (il_fn node) = cstr 6 f"
    "node_handle (loaded out) (page_start P h) = \<lparr>il_offset = page_start P h + 10, il_pos = 0, il_len = il_node_len node\<rparr>"
    using node(2) by (simp_all add: node_named_def is_node_def node_handle_def raw raw_node_raw [OF node(1)])
qed

lemma appended_open:
  assumes out: "out = img @ VFS_INLINE_MAGIC # node_raw node @ file" "length img = h * P" "length out \<le> m * P"
    and node: "length (il_fn node) = 6" "il_crc node = crc_checksum (node_raw node) 8"
    and P: "10 \<le> P" "FLASHEND + 1 = m * P" "m * P \<le> 65536" and h: "0 < h"
    and plain: "\<And>j. h < j \<Longrightarrow> j < m \<Longrightarrow> \<not> is_node (loaded out) (page_start P j)"
  shows "vfs_inline_open True (loaded out) FLASHEND P f =
    (if cstr 6 (il_fn node) = cstr 6 f
     then Some (Some \<lparr>il_offset = page_start P h + 10, il_pos = 0, il_len = il_node_len node\<rparr>)
     else vfs_inline_open True (loaded img) FLASHEND P f)"
proof -
  have P0: "0 < P" using P(1) by simp
  have small: "j * P < 65536" if "j < m" for j
  proof -
    have "j * P < m * P" using that P0 by simp
    then show ?thesis using P(3) by (rule less_le_trans)
  qed
  have "h * P < length out" using out(1,2) by simp
  then have hm: "h < m" using out(3) P0 by (metis less_le_trans mult_less_cancel2)
  have split: "rev [1..<m] = rev [h + 1..<m] @ h # rev [1..<h]"
  proof -
    have "[1..<m] = [1..<h] @ [h..<m]" using upt_add_eq_append [of 1 h "m - h"] h hm by simp
    also have "[h..<m] = h # [h + 1..<m]" using hm by (simp add: upt_conv_Cons)
    finally show ?thesis by simp
  qed
  note app = appended_node [OF out(1,2) order_trans [OF out(3) P(3)] node]
  have later: "find (\<lambda>j. node_named pm f (page_start P j)) (rev [h + 1..<m]) = None"
    if "\<And>j. h < j \<Longrightarrow> j < m \<Longrightarrow> \<not> node_named pm f (page_start P j)" for pm
    using that by (auto simp: find_None_iff)
  have front: "node_named (loaded out) f (page_start P j) = node_named (loaded img) f (page_start P j)"
    "node_handle (loaded out) (page_start P j) = node_handle (loaded img) (page_start P j)" if j: "j < h" for j
  proof -
    have "j * P + P \<le> h * P" using mult_le_mono1 [of "Suc j" h P] j by simp
    then have le: "j * P + 10 \<le> length img" using P(1) out(2) by linarith
    then have lt: "j * P + 10 \<le> 65536" using small [OF hm] out(2) by linarith
    have same: "loaded out (page_start P j + of_nat i) = loaded img (page_start P j + of_nat i)" if "i < 10" for i
      using loaded_at [of j P i] that le lt by (simp add: out(1) nth_append)
    show "node_named (loaded out) f (page_start P j) = node_named (loaded img) f (page_start P j)"
      "node_handle (loaded out) (page_start P j) = node_handle (loaded img) (page_start P j)"
      using node_named_cong [OF lt same] by (simp_all add: node_handle_def)
  qed
  have first: "find (\<lambda>j. node_named (loaded out) f (page_start P j)) (rev [1..<h]) =
      find (\<lambda>j. node_named (loaded img) f (page_start P j)) (rev [1..<h])"
    by (rule find_cong) (simp_all add: front)
  have handle: "node_handle (loaded out) (page_start P j) = node_handle (loaded img) (page_start P j)"
    if "find (\<lambda>j. node_named (loaded img) f (page_start P j)) (rev [1..<h]) = Some j" for j
  proof (rule front(2))
    have "j \<in> set (rev [1..<h])" using that by (metis find_Some_iff nth_mem)
    then show "j < h" by simp
  qed
  have "find (\<lambda>j. node_named (loaded out) f (page_start P j)) (rev [1..<m]) =
      (if cstr 6 (il_fn node) = cstr 6 f then Some h
       else find (\<lambda>j. node_named (loaded img) f (page_start P j)) (rev [1..<h]))"
    unfolding split find_append_case using later [of "loaded out"] plain app(1) first
    by (auto simp: node_named_def)
  moreover have "find (\<lambda>j. node_named (loaded img) f (page_start P j)) (rev [1..<m]) =
      find (\<lambda>j. node_named (loaded img) f (page_start P j)) (rev [1..<h])"
  proof -
    have none: "\<not> node_named (loaded img) f (page_start P j)" if "h \<le> j" "j < m" for j
      by (rule erased_not_named [OF _ small [OF that(2)]]) (simp add: out(2) that(1))
    then show ?thesis unfolding split find_append_case using later [of "loaded img"] hm by auto
  qed
  ultimately show ?thesis
    unfolding vfs_inline_open_find [OF P0 P(2,3)] using app(2) handle by (auto split: option.split)
qed

section \<open>Reading\<close>

text \<open>What reading on through a handle gives.\<close>

definition inline_rest :: "program_memory \<Rightarrow> vfs_file_handle_inline_t \<Rightarrow> u8 list" where
  "inline_rest pm fh = map (\<lambda>i. pm (il_offset fh + il_pos fh + of_nat i)) [0..<unat (il_len fh - il_pos fh)]"

lemma vfs_inline_read_rest:
  assumes "il_pos fh \<le> il_len fh" "min n (length (inline_rest pm fh)) \<le> length buf"
  shows "vfs_inline_read pm fh buf n = Some (min n (length (inline_rest pm fh)), memcpy_at 0 (take n (inline_rest pm fh)) buf,
      fh\<lparr>il_pos := il_pos fh + of_nat (min n (length (inline_rest pm fh)))\<rparr>)"
    "inline_rest pm (fh\<lparr>il_pos := il_pos fh + of_nat (min n (length (inline_rest pm fh)))\<rparr>) = drop n (inline_rest pm fh)"
    "il_pos fh + of_nat (min n (length (inline_rest pm fh))) \<le> il_len fh"
proof -
  define len where "len = il_len fh - il_pos fh"
  define m where "m = min n (unat len)"
  have lr: "length (inline_rest pm fh) = unat len" by (simp add: inline_rest_def len_def)
  have m16: "m < 65536" using unat_u16_lt [of len] unfolding m_def by linarith
  have um: "unat (of_nat m :: u16) = m" using m16 by (simp add: unsigned_of_nat take_bit_nat_eq_self)
  have sel: "(if n < unat len then of_nat n else len) = (of_nat m :: u16)" by (auto simp: m_def)
  have tk: "map (\<lambda>i. pm (il_offset fh + il_pos fh + of_nat i)) [0..<m] = take n (inline_rest pm fh)"
    by (simp add: inline_rest_def len_def [symmetric] take_map m_def min_def)
  show "vfs_inline_read pm fh buf n = Some (min n (length (inline_rest pm fh)), memcpy_at 0 (take n (inline_rest pm fh)) buf,
      fh\<lparr>il_pos := il_pos fh + of_nat (min n (length (inline_rest pm fh)))\<rparr>)"
    using assms(2) unfolding vfs_inline_read_def Let_def len_def [symmetric] sel um tk lr m_def [symmetric] by simp
  have ul: "unat len = unat (il_len fh) - unat (il_pos fh)" unfolding len_def by (rule unat_sub) (rule assms(1))
  have mle: "m \<le> unat len" by (simp add: m_def)
  have pos: "unat (il_pos fh) \<le> unat (il_len fh)" using assms(1) by (simp add: word_le_nat_alt)
  have fit: "unat (il_pos fh) + unat (of_nat m :: u16) < 2 ^ LENGTH(16)"
  proof -
    have "unat (il_pos fh) + m \<le> unat (il_len fh)" using mle ul pos by linarith
    also have "\<dots> < 2 ^ LENGTH(16)" using unat_u16_lt [of "il_len fh"] by simp
    finally show ?thesis unfolding um .
  qed
  have up: "unat (il_pos fh + of_nat m) = unat (il_pos fh) + m" using unat_add_small [OF fit] um by simp
  show le: "il_pos fh + of_nat (min n (length (inline_rest pm fh))) \<le> il_len fh"
    unfolding lr m_def [symmetric] word_le_nat_alt up using mle ul pos by linarith
  have "unat (il_len fh - (il_pos fh + of_nat m)) = unat len - m"
    using unat_sub [of "il_pos fh + of_nat m" "il_len fh"] le up ul unfolding lr m_def [symmetric] by simp
  moreover have "drop n (inline_rest pm fh) = drop m (inline_rest pm fh)"
    using lr by (cases "n < unat len") (simp_all add: m_def)
  ultimately show "inline_rest pm (fh\<lparr>il_pos := il_pos fh + of_nat (min n (length (inline_rest pm fh)))\<rparr>) = drop n (inline_rest pm fh)"
    unfolding lr m_def [symmetric]
    by (intro nth_equalityI) (use mle in \<open>simp_all add: inline_rest_def len_def [symmetric] ac_simps less_diff_conv\<close>)
qed

lemma appended_rest:
  assumes out: "out = img @ VFS_INLINE_MAGIC # node_raw node @ file" "length img = h * P" "length out \<le> 65536"
    and node: "length (il_fn node) = 6" "il_node_len node = of_nat (length file)" and small: "length file < 65536"
  shows "inline_rest (loaded out) \<lparr>il_offset = page_start P h + 10, il_pos = 0, il_len = il_node_len node\<rparr> = file"
proof (rule nth_equalityI)
  have len: "length out = h * P + 10 + length file"
    using out(1,2) length_node_raw [OF node(1)] by simp
  have ul: "unat (of_nat (length file) :: u16) = length file" using small by (simp add: unsigned_of_nat take_bit_nat_eq_self)
  let ?fh = "\<lparr>il_offset = page_start P h + 10, il_pos = 0, il_len = il_node_len node\<rparr>"
  show l: "length (inline_rest (loaded out) ?fh) = length file" by (simp add: inline_rest_def node(2) ul)
  fix i assume "i < length (inline_rest (loaded out) ?fh)"
  then have i: "i < length file" using l by simp
  then have "inline_rest (loaded out) ?fh ! i = loaded out (page_start P h + of_nat (10 + i))"
    by (simp add: inline_rest_def node(2) ul add.assoc)
  also have "\<dots> = out ! (h * P + (10 + i))" using loaded_at [of h P "10 + i" out] i len out(3) by simp
  also have "\<dots> = file ! i"
    using length_node_raw [OF node(1)] by (simp add: out(1) out(2) [symmetric] nth_append)
  finally show "inline_rest (loaded out) ?fh ! i = file ! i" .
qed

section \<open>Properties\<close>

lemma set_base_name: "set (base_name path) \<subseteq> set path"
proof (induction path rule: base_name.induct)
  case (1 path)
  show ?case
  proof (cases "dropWhile (\<lambda>c. c \<noteq> 0x2f) path")
    case (Cons c ptr)
    then have "set ptr \<subseteq> set path" by (metis set_dropWhileD set_subset_Cons subset_eq)
    then show ?thesis using 1 [OF Cons] Cons by (subst base_name.simps) auto
  next
    case Nil
    then show ?thesis by (simp only: base_name.simps [of path] Nil) simp
  qed
qed

lemma cstr_strncpy_name: "0 \<notin> set name \<Longrightarrow> length name \<le> 6 \<Longrightarrow> cstr 6 (strncpy name 6) = name"
  by (simp add: cstr_strncpy)

text \<open>
  C25. The host tool and the firmware agree.  The tool appends a file to an image: the image itself
  is a prefix of what it prints.  In a controller programmed with the result, whose flash pages
  have the size given to the tool, opening the file's name - as much of it as the node holds -
  finds the file, and reading gives its contents; every other name opens what it opened before.
  The only condition on the contents is that no page inside them starts like a node.
\<close>

theorem vfs_concat_appends:
  assumes P: "64 \<le> P" "P \<le> 256" "even P" "FLASHEND + 1 = m * P" "FLASHEND < 65536"
    and files: "fopen image_path = Some img" "img \<noteq> []" "length img \<le> 65535"
      "(case fopen (path @ [0x2e, 0x67, 0x7a]) of None \<Rightarrow> fopen path | Some d \<Rightarrow> Some d) = Some file" "length file \<le> 65535"
    and name: "0 \<notin> set path" "length (base_name path) \<le> 6"
    and fits: "length (snd (vfs_concat fopen True image_path (int P) path)) \<le> FLASHEND + 1"
    and plain: "\<forall>j < m. length img + P \<le> j * P \<longrightarrow>
      \<not> is_node (loaded (snd (vfs_concat fopen True image_path (int P) path))) (page_start P j)"
  shows "\<exists>out fh. vfs_concat fopen True image_path (int P) path = (0, out) \<and> take (length img) out = img \<and>
    (\<forall>f. vfs_inline_open True (loaded out) FLASHEND P f =
      (if cstr 6 f = base_name path then Some (Some fh) else vfs_inline_open True (loaded img) FLASHEND P f)) \<and>
    vfs_inline_size fh = length file \<and>
    (\<forall>buf. length file \<le> length buf \<longrightarrow>
      vfs_inline_read (loaded out) fh buf (length buf) = Some (length file, memcpy_at 0 file buf, fh\<lparr>il_pos := il_len fh\<rparr>))"
proof -
  obtain k where k: "k < P" "pad_loop P (length img) = replicate k 0xFF" "P dvd length img + k"
    using pad_loop_eq [of P "length img"] P(1) by auto
  then obtain h where h: "length img + k = h * P" by (auto simp: dvd_def mult.commute)
  define node0 where "node0 = \<lparr>il_fn = strncpy (base_name path) 6, il_node_len = of_nat (length file), il_crc = 0\<rparr>"
  define node where "node = node0\<lparr>il_crc := crc_calc (node_raw node0) 8\<rparr>"
  define base where "base = img @ replicate k (0xFF :: u8)"
  define out where "out = base @ VFS_INLINE_MAGIC # node_raw node @ file"
  have base: "length base = h * P" using h by (simp add: base_def)
  have node: "length (il_fn node) = 6" "il_node_len node = of_nat (length file)"
    "il_fn node = strncpy (base_name path) 6" by (simp_all add: node_def node0_def)
  have "take 8 (node_raw node) = take 8 (node_raw node0)"
    by (simp add: node_def node0_def node_raw_def le16_def)
  then have crc: "il_crc node = crc_checksum (node_raw node) 8"
    by (simp add: node_def crc_calc_def crc_checksum_def foldl_crc_update)
  have tk: "take BUFLEN img = img" "take BUFLEN file = file" using files(3,5) by (simp_all add: BUFLEN_def)
  have run: "vfs_concat fopen True image_path (int P) path = (0, out)"
  proof -
    have "int P mod 2 = 0" using P(3) by auto
    then show ?thesis
      using P(1,2) files(1,4) name(2)
      by (simp add: vfs_concat_def Let_def tk k(2) VFS_INLINE_FNLEN_def sizeof_inline_node_def
          out_def base_def node_def node0_def split: option.splits)
  qed
  have h0: "0 < h" using h files(2) by (cases h) auto
  have mP: "m * P \<le> 65536" using P(4,5) by simp
  have fits': "length out \<le> m * P" using fits run P(4) by simp
  have fake: "\<not> is_node (loaded out) (page_start P j)" if "h < j" "j < m" for j
  proof -
    have "h * P + P \<le> j * P" using mult_le_mono1 [of "Suc h" j P] that by simp
    then have "length img + P \<le> j * P" using h by linarith
    then show ?thesis using plain that(2) run by simp
  qed
  have P10: "10 \<le> P" using P(1) by simp
  have nm: "cstr 6 (il_fn node) = base_name path"
    using cstr_strncpy_name [of "base_name path"] name set_base_name [of path] by (auto simp: node(3))
  define fh where "fh = \<lparr>il_offset = page_start P h + 10, il_pos = 0, il_len = il_node_len node\<rparr>"
  have open_eq: "vfs_inline_open True (loaded out) FLASHEND P f =
      (if cstr 6 f = base_name path then Some (Some fh) else vfs_inline_open True (loaded img) FLASHEND P f)" for f
    using appended_open [OF out_def base fits' node(1) crc P10 P(4) mP h0 fake, of f]
    unfolding nm fh_def base_def loaded_padding by (simp only: eq_commute)
  have small: "length file < 65536" using files(5) by simp
  have rest: "inline_rest (loaded out) fh = file"
    unfolding fh_def by (rule appended_rest [OF out_def base order_trans [OF fits' mP] node(1,2) small])
  have "vfs_inline_read (loaded out) fh buf (length buf) = Some (length file, memcpy_at 0 file buf, fh\<lparr>il_pos := il_len fh\<rparr>)"
    if "length file \<le> length buf" for buf
    using vfs_inline_read_rest(1) [of fh "length buf" "loaded out" buf] that
    unfolding rest by (simp add: fh_def node(2))
  moreover have "vfs_inline_size fh = length file"
    using small by (simp add: vfs_inline_size_def fh_def node(2) unsigned_of_nat take_bit_nat_eq_self)
  moreover have "take (length img) out = img" by (simp add: out_def base_def)
  ultimately show ?thesis using run open_eq by (intro exI [of _ out] exI [of _ fh]) simp
qed

lemma concat_example:
  assumes "fopen = (\<lambda>p. if p = [1] then Some (replicate 64 7) else if p = [3, 0x2f, 4] then Some [9, 8, 7] else None)"
  shows "length (snd (vfs_concat fopen True [1] (int 64) [3, 0x2f, 4])) = 77" "base_name [3, 0x2f, 4] = [4]"
proof -
  show b: "base_name [3, 0x2f, 4] = [4]"
    by (subst base_name.simps, simp, subst base_name.simps, simp)
  have "pad_loop 64 64 = []" by (subst pad_loop.simps) simp
  moreover have "length (node_raw n) = 9" if "length (il_fn n) = 6" for n by (rule length_node_raw [OF that])
  ultimately show "length (snd (vfs_concat fopen True [1] (int 64) [3, 0x2f, 4])) = 77"
    unfolding vfs_concat_def Let_def assms b by (simp add: BUFLEN_def VFS_INLINE_FNLEN_def)
qed

theorem vfs_concat_appends_witness:
  "\<exists>out fh. vfs_concat (\<lambda>p. if p = [1] then Some (replicate 64 7) else if p = [3, 0x2f, 4] then Some [9, 8, 7] else None)
      True [1] 64 [3, 0x2f, 4] = (0, out) \<and>
    vfs_inline_open True (loaded out) 511 64 [4] = Some (Some fh) \<and>
    vfs_inline_read (loaded out) fh [0, 0, 0, 0] 4 = Some (3, [9, 8, 7, 0], fh\<lparr>il_pos := il_len fh\<rparr>)"
proof -
  define fopen :: "u8 list \<Rightarrow> u8 list option" where
    "fopen = (\<lambda>p. if p = [1] then Some (replicate 64 7) else if p = [3, 0x2f, 4] then Some [9, 8, 7] else None)"
  note ex = concat_example [OF fopen_def]
  have erased: "\<forall>j < 8. length (replicate 64 (7 :: u8)) + 64 \<le> j * 64 \<longrightarrow>
    \<not> is_node (loaded (snd (vfs_concat fopen True [1] (int 64) [3, 0x2f, 4]))) (page_start 64 j)"
  proof (intro allI impI)
    fix j :: nat assume "j < 8" "length (replicate 64 (7 :: u8)) + 64 \<le> j * 64"
    then show "\<not> is_node (loaded (snd (vfs_concat fopen True [1] (int 64) [3, 0x2f, 4]))) (page_start 64 j)"
      using loaded_at [of j 64 0 "snd (vfs_concat fopen True [1] (int 64) [3, 0x2f, 4])"] ex(1)
      by (simp add: is_node_def VFS_INLINE_MAGIC_def)
  qed
  have h: "64 \<le> (64 :: nat)" "(64 :: nat) \<le> 256" "even (64 :: nat)" "511 + 1 = 8 * (64 :: nat)" "(511 :: nat) < 65536"
    "fopen [1] = Some (replicate 64 7)" "replicate 64 (7 :: u8) \<noteq> []" "length (replicate 64 (7 :: u8)) \<le> 65535"
    "(case fopen ([3, 0x2f, 4] @ [0x2e, 0x67, 0x7a]) of None \<Rightarrow> fopen [3, 0x2f, 4] | Some d \<Rightarrow> Some d) = Some [9, 8, 7]"
    "length [9, 8, 7 :: u8] \<le> 65535" "0 \<notin> set [3, 0x2f, 4 :: u8]" "length (base_name [3, 0x2f, 4]) \<le> 6"
    by (simp_all add: fopen_def ex(2))
  have fit: "length (snd (vfs_concat fopen True [1] (int 64) [3, 0x2f, 4])) \<le> 511 + 1" using ex(1) by simp
  from vfs_concat_appends [OF h fit erased] obtain out fh where r: "vfs_concat fopen True [1] (int 64) [3, 0x2f, 4] = (0, out)"
    "\<forall>f. vfs_inline_open True (loaded out) 511 64 f =
      (if cstr 6 f = base_name [3, 0x2f, 4] then Some (Some fh) else vfs_inline_open True (loaded (replicate 64 7)) 511 64 f)"
    "\<forall>buf. length [9, 8, 7 :: u8] \<le> length buf \<longrightarrow>
      vfs_inline_read (loaded out) fh buf (length buf) =
        Some (length [9, 8, 7 :: u8], memcpy_at 0 [9, 8, 7] buf, fh\<lparr>il_pos := il_len fh\<rparr>)"
    by (elim exE conjE) metis
  have "cstr 6 [4] = [4]" by (simp add: cstr_def)
  then have "vfs_inline_open True (loaded out) 511 64 [4] = Some (Some fh)" using r(2) ex(2) by simp
  moreover have "vfs_inline_read (loaded out) fh [0, 0, 0, 0] 4 = Some (3, [9, 8, 7, 0], fh\<lparr>il_pos := il_len fh\<rparr>)"
    using r(3) [rule_format, of "[0, 0, 0, 0]"] by (simp add: memcpy_at_def eval_nat_numeral)
  ultimately show ?thesis using r(1) unfolding fopen_def by auto
qed

end
