(* ===== verification/Vfs.thy ===== *)
theory Vfs imports Vfs_Inline "HOL-Library.Monad_Syntax" begin

text \<open>
  The virtual file system (core/vfs/vfs.c, vfs.h, vfs-util.c): a table of modules, each a record
  of functions, over which opening and creating search and every other operation is dispatched by
  the handle's type.

  The table is that of a build with the dataflash file system and the inline one; the functions of
  vfs.c take it as an argument.  The world is what the modules work on.  Handles are values, so
  closing, which only frees them, leaves the world as it is; malloc finds memory when \<open>heap_ok\<close> of
  the dataflash file system says so.  A member of the union other than the one the module of the
  handle stores is \<open>None\<close>.
\<close>

section \<open>Modules\<close>

record vfs_world =
  w_fs :: fs_t
  w_program :: program_memory
  w_FLASHEND :: nat
  w_SPM_PAGESIZE :: nat

datatype vfs_handle_union = fh_df vfs_file_handle_df_t | fh_il vfs_file_handle_inline_t

record vfs_file_handle_t =
  fh_type :: nat
  fh_u :: vfs_handle_union

record vfs_func_t =
  mod_name :: string
  f_open :: "u8 list \<Rightarrow> vfs_world \<Rightarrow> (vfs_file_handle_t option \<times> vfs_world) option"
  f_close :: "(vfs_file_handle_t \<Rightarrow> vfs_world \<Rightarrow> vfs_world) option"
  f_read :: "(vfs_file_handle_t \<Rightarrow> u8 list \<Rightarrow> nat \<Rightarrow> vfs_world \<Rightarrow>
    (nat \<times> u8 list \<times> vfs_file_handle_t \<times> vfs_world) option) option"
  f_write :: "(vfs_file_handle_t \<Rightarrow> u8 list \<Rightarrow> nat \<Rightarrow> vfs_world \<Rightarrow>
    (nat \<times> vfs_file_handle_t \<times> vfs_world) option) option"
  f_fseek :: "(vfs_file_handle_t \<Rightarrow> nat \<Rightarrow> seek_whence \<Rightarrow> vfs_world \<Rightarrow>
    (u8 \<times> vfs_file_handle_t \<times> vfs_world) option) option"
  f_truncate :: "(vfs_file_handle_t \<Rightarrow> nat \<Rightarrow> vfs_world \<Rightarrow> (u8 \<times> vfs_world) option) option"
  f_create :: "(u8 list \<Rightarrow> vfs_world \<Rightarrow> (vfs_file_handle_t option \<times> vfs_world) option) option"
  f_size :: "(vfs_file_handle_t \<Rightarrow> vfs_world \<Rightarrow> nat option) option"

text \<open>The numbers of \<open>enum vfs_type_t\<close> and of \<open>fs_status_t\<close>; \<open>FS_MINUS_ONE\<close> is the \<open>return -1\<close>.\<close>

definition VFS_DF :: nat where "VFS_DF = 0"
definition VFS_INLINE :: nat where "VFS_INLINE = 1"

fun fs_status_value :: "fs_status_t \<Rightarrow> u8" where
  "fs_status_value FS_OK = 0"
| "fs_status_value FS_NOSUCHFILE = 1"
| "fs_status_value FS_EOF = 2"
| "fs_status_value FS_BADPAGE = 3"
| "fs_status_value FS_BADINODE = 4"
| "fs_status_value FS_DUPLICATE = 5"
| "fs_status_value FS_MEM = 6"
| "fs_status_value FS_BADSEEK = 7"
| "fs_status_value FS_MINUS_ONE = 255"

definition df_handle :: "vfs_file_handle_t \<Rightarrow> vfs_file_handle_df_t option" where
  "df_handle h = (case fh_u h of fh_df f \<Rightarrow> Some f | _ \<Rightarrow> None)"

definition il_handle :: "vfs_file_handle_t \<Rightarrow> vfs_file_handle_inline_t option" where
  "il_handle h = (case fh_u h of fh_il f \<Rightarrow> Some f | _ \<Rightarrow> None)"

definition new_handle :: "nat \<Rightarrow> vfs_handle_union \<Rightarrow> vfs_file_handle_t" where
  "new_handle t u = \<lparr>fh_type = t, fh_u = u\<rparr>"

definition VFS_DF_FUNCS :: vfs_func_t where
  "VFS_DF_FUNCS = \<lparr>
    mod_name = ''df'',
    f_open = (\<lambda>filename w. do {
      r \<leftarrow> vfs_df_open (w_fs w) filename;
      Some (map_option (\<lambda>f. new_handle VFS_DF (fh_df f)) r, w) }),
    f_close = Some (\<lambda>h w. w),
    f_read = Some (\<lambda>h buf n w. do {
      f \<leftarrow> df_handle h;
      (ret, buf, f) \<leftarrow> vfs_df_read (w_fs w) f buf n;
      Some (ret, buf, h\<lparr>fh_u := fh_df f\<rparr>, w) }),
    f_write = Some (\<lambda>h buf n w. do {
      f \<leftarrow> df_handle h;
      (ret, f, s) \<leftarrow> vfs_df_write f buf n (w_fs w);
      Some (ret, h\<lparr>fh_u := fh_df f\<rparr>, w\<lparr>w_fs := s\<rparr>) }),
    f_fseek = Some (\<lambda>h offset whence w. do {
      f \<leftarrow> df_handle h;
      (ret, f) \<leftarrow> vfs_df_fseek (w_fs w) f offset whence;
      Some (ret, h\<lparr>fh_u := fh_df f\<rparr>, w) }),
    f_truncate = Some (\<lambda>h n w. do {
      f \<leftarrow> df_handle h;
      (ret, s) \<leftarrow> vfs_df_truncate f n (w_fs w);
      Some (fs_status_value ret, w\<lparr>w_fs := s\<rparr>) }),
    f_create = Some (\<lambda>name w. do {
      (r, s) \<leftarrow> vfs_df_create name (w_fs w);
      Some (map_option (\<lambda>f. new_handle VFS_DF (fh_df f)) r, w\<lparr>w_fs := s\<rparr>) }),
    f_size = Some (\<lambda>h w. do { f \<leftarrow> df_handle h; vfs_df_size (w_fs w) f })\<rparr>"

definition VFS_INLINE_FUNCS :: vfs_func_t where
  "VFS_INLINE_FUNCS = \<lparr>
    mod_name = ''inline'',
    f_open = (\<lambda>filename w. do {
      r \<leftarrow> vfs_inline_open (heap_ok (w_fs w)) (w_program w) (w_FLASHEND w) (w_SPM_PAGESIZE w) filename;
      Some (map_option (\<lambda>f. new_handle VFS_INLINE (fh_il f)) r, w) }),
    f_close = Some (\<lambda>h w. w),
    f_read = Some (\<lambda>h buf n w. do {
      f \<leftarrow> il_handle h;
      (ret, buf, f) \<leftarrow> vfs_inline_read (w_program w) f buf n;
      Some (ret, buf, h\<lparr>fh_u := fh_il f\<rparr>, w) }),
    f_write = None,
    f_fseek = Some (\<lambda>h offset whence w. do {
      f \<leftarrow> il_handle h;
      let (ret, f) = vfs_inline_fseek f offset whence;
      Some (ret, h\<lparr>fh_u := fh_il f\<rparr>, w) }),
    f_truncate = None,
    f_create = None,
    f_size = Some (\<lambda>h w. do { f \<leftarrow> il_handle h; Some (vfs_inline_size f) })\<rparr>"

definition vfs_funcs :: "vfs_func_t list" where
  "vfs_funcs = [VFS_DF_FUNCS, VFS_INLINE_FUNCS]"

section \<open>The operations\<close>

fun vfs_open :: "vfs_func_t list \<Rightarrow> u8 list \<Rightarrow> vfs_world \<Rightarrow> (vfs_file_handle_t option \<times> vfs_world) option" where
  "vfs_open [] filename w = Some (None, w)"
| "vfs_open (f # fs) filename w = do {
    (fh, w) \<leftarrow> f_open f filename w;
    if fh = None then vfs_open fs filename w else Some (fh, w)
  }"

fun vfs_create :: "vfs_func_t list \<Rightarrow> u8 list \<Rightarrow> vfs_world \<Rightarrow> (vfs_file_handle_t option \<times> vfs_world) option" where
  "vfs_create [] name w = Some (None, w)"
| "vfs_create (f # fs) name w =
    (case f_create f of
       None \<Rightarrow> vfs_create fs name w
     | Some create \<Rightarrow> do {
         (fh, w) \<leftarrow> create name w;
         if fh = None then vfs_create fs name w else Some (fh, w)
       })"

text \<open>
  The two dispatchers; their flag is 0 for reading, 1 for writing and 2 for the size, and 0 for
  seeking, 1 for truncating and 2 for closing.  The caller's buffer, handle and the world come back.
\<close>

definition vfs_read_write_size :: "vfs_func_t list \<Rightarrow> nat \<Rightarrow> vfs_file_handle_t \<Rightarrow> u8 list \<Rightarrow> nat \<Rightarrow> vfs_world \<Rightarrow>
    (nat \<times> u8 list \<times> vfs_file_handle_t \<times> vfs_world) option" where
  "vfs_read_write_size funcs flag h buf n w =
    (if length funcs \<le> fh_type h then None
     else
       let f = funcs ! fh_type h
       in if flag = 0 \<and> f_read f \<noteq> None then the (f_read f) h buf n w
          else if flag = 1 \<and> f_write f \<noteq> None then do {
            (ret, h, w) \<leftarrow> the (f_write f) h buf n w;
            Some (ret, buf, h, w)
          }
          else if flag = 2 \<and> f_size f \<noteq> None then do {
            ret \<leftarrow> the (f_size f) h w;
            Some (ret, buf, h, w)
          }
          else Some (0, buf, h, w))"

definition vfs_fseek_truncate_close :: "vfs_func_t list \<Rightarrow> nat \<Rightarrow> vfs_file_handle_t \<Rightarrow> nat \<Rightarrow> seek_whence \<Rightarrow> vfs_world \<Rightarrow>
    (u8 \<times> vfs_file_handle_t \<times> vfs_world) option" where
  "vfs_fseek_truncate_close funcs flag h n whence w =
    (if length funcs \<le> fh_type h then None
     else
       let f = funcs ! fh_type h
       in if flag = 0 \<and> f_fseek f \<noteq> None then the (f_fseek f) h n whence w
          else if flag = 1 \<and> f_truncate f \<noteq> None then do {
            (ret, w) \<leftarrow> the (f_truncate f) h n w;
            Some (ret, h, w)
          }
          else if flag = 2 \<and> f_close f \<noteq> None then Some (0, h, the (f_close f) h w)
          else Some (0, h, w))"

definition vfs_read where "vfs_read funcs h buf n w = vfs_read_write_size funcs 0 h buf n w"
definition vfs_write where "vfs_write funcs h buf n w = vfs_read_write_size funcs 1 h buf n w"
definition vfs_size where "vfs_size funcs h w = vfs_read_write_size funcs 2 h [] 0 w"
definition vfs_fseek where "vfs_fseek funcs h n whence w = vfs_fseek_truncate_close funcs 0 h n whence w"
definition vfs_truncate where "vfs_truncate funcs h n w = vfs_fseek_truncate_close funcs 1 h n SEEK_SET w"
definition vfs_close where "vfs_close funcs h w = vfs_fseek_truncate_close funcs 2 h 0 SEEK_SET w"
definition vfs_rewind where "vfs_rewind funcs h w = vfs_fseek funcs h 0 SEEK_SET w"

section \<open>Copying a file\<close>

text \<open>
  The loop of \<open>vfs_copy_file\<close> over the functions that read the source and write the destination;
  \<open>buf\<close> is \<open>uip_buf\<close>.  The counts are cut to 16 bits when they are stored.
\<close>

partial_function (option) copy_loop ::
  "('h \<Rightarrow> u8 list \<Rightarrow> nat \<Rightarrow> 'w \<Rightarrow> (nat \<times> u8 list \<times> 'h \<times> 'w) option) \<Rightarrow>
   ('g \<Rightarrow> u8 list \<Rightarrow> nat \<Rightarrow> 'w \<Rightarrow> (nat \<times> u8 list \<times> 'g \<times> 'w) option) \<Rightarrow>
   'h \<Rightarrow> 'g \<Rightarrow> u8 list \<Rightarrow> 'w \<Rightarrow> (u8 \<times> 'h \<times> 'g \<times> 'w) option" where
  "copy_loop read write s d buf w = do {
    (i, buf, s, w) \<leftarrow> read s buf (length buf) w;
    let i = i mod 65536;
    if i = 0 then Some (0, s, d, w)
    else do {
      (j, buf, d, w) \<leftarrow> write d buf i w;
      let j = j mod 65536;
      if i \<noteq> j then Some (1, s, d, w)
      else if i < length buf then Some (0, s, d, w)
      else copy_loop read write s d buf w
    }
  }"

declare copy_loop.simps [code]

definition vfs_copy_file :: "vfs_func_t list \<Rightarrow> u8 list \<Rightarrow> u8 list \<Rightarrow> u8 list \<Rightarrow> vfs_world \<Rightarrow> (u8 \<times> vfs_world) option" where
  "vfs_copy_file funcs dest src uip_buf w = do {
    (d, w) \<leftarrow> vfs_create funcs dest w;
    case d of
      None \<Rightarrow> Some (1, w)
    | Some d \<Rightarrow> do {
        (s, w) \<leftarrow> vfs_open funcs src w;
        case s of
          None \<Rightarrow> do { (_, _, w) \<leftarrow> vfs_close funcs d w; Some (1, w) }
        | Some s \<Rightarrow> do {
            (ret, s, d, w) \<leftarrow> copy_loop (vfs_read funcs) (vfs_write funcs) s d uip_buf w;
            (_, _, w) \<leftarrow> vfs_close funcs s w;
            (_, _, w) \<leftarrow> vfs_close funcs d w;
            Some (ret, w)
          }
      }
  }"

section \<open>What copying relies on\<close>

text \<open>
  A source gives its remaining bytes a buffer at a time, a destination takes them at its end, and a
  write to the destination changes nothing the relation \<open>same\<close> does not allow.
\<close>

locale vfs_reader =
  fixes rd :: "'h \<Rightarrow> u8 list \<Rightarrow> nat \<Rightarrow> 'w \<Rightarrow> (nat \<times> u8 list \<times> 'h \<times> 'w) option"
    and rest :: "'w \<Rightarrow> 'h \<Rightarrow> u8 list \<Rightarrow> bool"
    and N :: nat
  assumes read_next: "rest w h d \<Longrightarrow> length buf = N \<Longrightarrow>
    \<exists>h'. rd h buf N w = Some (min N (length d), memcpy_at 0 (take N d) buf, h', w) \<and> rest w h' (drop N d)"

locale vfs_writer =
  fixes wr :: "'g \<Rightarrow> u8 list \<Rightarrow> nat \<Rightarrow> 'w \<Rightarrow> (nat \<times> u8 list \<times> 'g \<times> 'w) option"
    and holds :: "nat \<Rightarrow> 'w \<Rightarrow> 'g \<Rightarrow> u8 list \<Rightarrow> bool"
    and same :: "'w \<Rightarrow> 'w \<Rightarrow> bool"
    and cap :: nat
  assumes write_next: "holds (Suc k) w g d \<Longrightarrow> 0 < n \<Longrightarrow> n \<le> length buf \<Longrightarrow> length d + n \<le> cap \<Longrightarrow>
    \<exists>g' w'. wr g buf n w = Some (n, buf, g', w') \<and> holds k w' g' (d @ take n buf) \<and> same w w'"
    and holds_less: "holds (Suc k) w g d \<Longrightarrow> holds k w g d"
    and same_refl: "same w w"
    and same_trans: "same w w' \<Longrightarrow> same w' w'' \<Longrightarrow> same w w''"

locale vfs_copier = vfs_reader rd rest N + vfs_writer wr holds same cap
  for rd :: "'h \<Rightarrow> u8 list \<Rightarrow> nat \<Rightarrow> 'w \<Rightarrow> (nat \<times> u8 list \<times> 'h \<times> 'w) option"
    and rest :: "'w \<Rightarrow> 'h \<Rightarrow> u8 list \<Rightarrow> bool" and N
    and wr :: "'g \<Rightarrow> u8 list \<Rightarrow> nat \<Rightarrow> 'w \<Rightarrow> (nat \<times> u8 list \<times> 'g \<times> 'w) option"
    and holds same cap +
  assumes undisturbed: "rest w h d \<Longrightarrow> same w w' \<Longrightarrow> rest w' h d"

context vfs_copier
begin

lemma copies:
  assumes "rest w h d" "holds (length d div N + 1) w g e" "length e + length d \<le> cap" "length buf = N" "0 < N" "N < 65536"
  shows "\<exists>h' g' w'. copy_loop rd wr h g buf w = Some (0, h', g', w') \<and> holds 0 w' g' (e @ d) \<and>
    (\<exists>r. rest w' h' r) \<and> same w w'"
  using assms
proof (induction "length d" arbitrary: w h d g e buf rule: less_induct)
  case less
  have N: "0 < N" "N < 65536" "length buf = N" using less.prems by simp_all
  define i where "i = min N (length d)"
  define b where "b = memcpy_at 0 (take N d) buf"
  obtain h' where r: "rd h buf N w = Some (i, b, h', w)" "rest w h' (drop N d)"
    using read_next [OF less.prems(1) N(3)] by (auto simp: i_def b_def)
  have b: "length b = N" "take i b = take N d"
    using N(3) take_memcpy_at_0 [of "take N d" buf] by (simp_all add: b_def i_def min.commute)
  have i: "i mod 65536 = i" using N(2) by (simp add: i_def)
  show ?case
  proof (cases "d = []")
    case True
    then have "copy_loop rd wr h g buf w = Some (0, h', g, w)"
      using r(1) N(3) by (subst copy_loop.simps) (simp add: i_def)
    moreover have "holds 0 w g e" using holds_less [of 0 w g e] less.prems(2) True by simp
    ultimately show ?thesis using True same_refl r(2) by auto
  next
    case False
    then have i0: "0 < i" using N(1) by (simp add: i_def)
    have "length e + i \<le> cap" using less.prems(3) by (simp add: i_def)
    from write_next [OF less.prems(2) [simplified] i0 _ this, of b]
    obtain g' w' where w: "wr g b i w = Some (i, b, g', w')"
      "holds (length d div N) w' g' (e @ take N d)" "same w w'"
      using b i_def by auto
    have step: "copy_loop rd wr h g buf w =
        (if i < N then Some (0, h', g', w') else copy_loop rd wr h' g' b w')"
      using r(1) w(1) i i0 N(3) b(1) by (subst copy_loop.simps) simp
    show ?thesis
    proof (cases "i < N")
      case True
      then have "take N d = d" "length d div N = 0" by (simp_all add: i_def min_def split: if_splits)
      then show ?thesis using step True w undisturbed [OF r(2) w(3)] by auto
    next
      case False
      then have le: "N \<le> length d" by (simp add: i_def)
      have "length d div N = length (drop N d) div N + 1" using le_div_geq [OF N(1) le] by simp
      then have "holds (length (drop N d) div N + 1) w' g' (e @ take N d)" using w(2) by simp
      moreover have "length (drop N d) < length d" "length (e @ take N d) + length (drop N d) \<le> cap"
        using le N(1) less.prems(3) by simp_all
      ultimately obtain h'' g'' w'' where "copy_loop rd wr h' g' b w' = Some (0, h'', g'', w'')"
        "holds 0 w'' g'' ((e @ take N d) @ drop N d)" "\<exists>r. rest w'' h'' r" "same w' w''"
        using less.hyps [of "drop N d" w' h' g' "e @ take N d" b] undisturbed [OF r(2) w(3)] b(1) N by blast
      then show ?thesis using step False same_trans [OF w(3)] by auto
    qed
  qed
qed

end

end
