(* ===== verification/Vfs_Copy.thy ===== *)
theory Vfs_Copy imports Vfs begin

text \<open>
  Handles of the inline and of the dataflash file system as sources and destinations of copying,
  and the properties of \<open>vfs_copy_file\<close>.
\<close>

section \<open>Sources\<close>

definition inline_source :: "vfs_world \<Rightarrow> vfs_file_handle_t \<Rightarrow> u8 list \<Rightarrow> bool" where
  "inline_source w h d \<longleftrightarrow> (\<exists>f. h = new_handle VFS_INLINE (fh_il f) \<and> il_pos f \<le> il_len f \<and>
    inline_rest (w_program w) f = d)"

lemmas vfs_dispatch = vfs_read_def vfs_write_def vfs_size_def vfs_read_write_size_def vfs_close_def
  vfs_truncate_def vfs_fseek_def vfs_fseek_truncate_close_def vfs_funcs_def new_handle_def VFS_DF_def VFS_INLINE_def
  VFS_DF_FUNCS_def VFS_INLINE_FUNCS_def df_handle_def il_handle_def

interpretation inline_reader: vfs_reader "vfs_read vfs_funcs" inline_source N for N
proof
  fix w h d and buf :: "u8 list"
  assume src: "inline_source w h d" and N: "length buf = N"
  then obtain f where f: "h = new_handle VFS_INLINE (fh_il f)" "il_pos f \<le> il_len f" "inline_rest (w_program w) f = d"
    by (auto simp: inline_source_def)
  have "min N (length (inline_rest (w_program w) f)) \<le> length buf" using N by simp
  note r = vfs_inline_read_rest [OF f(2) this]
  let ?f = "f\<lparr>il_pos := il_pos f + of_nat (min N (length d))\<rparr>"
  have "vfs_read vfs_funcs h buf N w = Some (min N (length d), memcpy_at 0 (take N d) buf, new_handle VFS_INLINE (fh_il ?f), w)"
    using r(1) by (simp add: vfs_dispatch f(1,3))
  moreover have "inline_source w (new_handle VFS_INLINE (fh_il ?f)) (drop N d)"
    unfolding inline_source_def using r(2,3) by (intro exI [of _ ?f]) (simp add: f(3))
  ultimately show "\<exists>h'. vfs_read vfs_funcs h buf N w = Some (min N (length d), memcpy_at 0 (take N d) buf, h', w) \<and>
      inline_source w h' (drop N d)" by blast
qed

text \<open>
  A dataflash file of less than one page, less than two buffers long: from a position inside the
  file fs_read would otherwise write behind the end of the buffer.
\<close>

definition df_source :: "nat \<Rightarrow> nat \<Rightarrow> vfs_world \<Rightarrow> vfs_file_handle_t \<Rightarrow> u8 list \<Rightarrow> bool" where
  "df_source i N w h d \<longleftrightarrow> (\<exists>data off K. h = new_handle VFS_DF (fh_df \<lparr>df_inode = i, df_offset = int off\<rparr>) \<and>
    i < 4096 \<and> fs_ok K (w_fs w) \<and> file_data (w_fs w) i = Some data \<and> (off = 0 \<or> N \<le> off \<or> off = length data) \<and> off \<le> length data \<and>
    length data < 512 \<and> length data < 2 * N \<and> N < 65000 \<and> d = drop off data)"

interpretation df_reader: vfs_reader "vfs_read vfs_funcs" "df_source i N" N for i N
proof
  fix w h d and buf :: "u8 list"
  assume src: "df_source i N w h d" and N: "length buf = N"
  then obtain data off K where h: "h = new_handle VFS_DF (fh_df \<lparr>df_inode = i, df_offset = int off\<rparr>)"
    and i: "i < 4096" and ok: "fs_ok K (w_fs w)" and data: "file_data (w_fs w) i = Some data"
    and off: "off = 0 \<or> N \<le> off \<or> off = length data" "off \<le> length data" and len: "length data < 512" "length data < 2 * N" "N < 65000"
    and d: "d = drop off data"
    unfolding df_source_def by (elim exE conjE)
  define k where "k = min N (length d)"
  have "fs_read (w_fs w) i buf (int off) (int N) = Some (int k, memcpy_at 0 (take N d) buf)"
  proof (cases "fs_page (w_fs w) i = BAD")
    case True
    then have "data = []" using data by (simp add: file_data_def)
    then show ?thesis using True by (simp add: fs_read_def d k_def)
  next
    case False
    have "off < 512" using off(2) len(1) by simp
    from fs_read_one [OF ok i False data this len(3), of buf] df_flash_read_data [OF ok i False data, of N]
    show ?thesis using off len(2) N by (auto simp: k_def d min_def)
  qed
  moreover have k: "k < 512" using len(1) by (simp add: k_def d)
  moreover have "int32 (int N) = int N" using len(3) by (simp add: int32_id)
  moreover have "int32 (int off + int k) = int (off + k)" using k off(2) len(1) by (simp add: int32_id)
  ultimately have "vfs_read vfs_funcs h buf N w = Some (k, memcpy_at 0 (take N d) buf,
      new_handle VFS_DF (fh_df \<lparr>df_inode = i, df_offset = int (off + k)\<rparr>), w)"
    by (simp add: vfs_dispatch h vfs_df_read_def)
  moreover have "df_source i N w (new_handle VFS_DF (fh_df \<lparr>df_inode = i, df_offset = int (off + k)\<rparr>)) (drop N d)"
  proof -
    have "off + k = 0 \<or> N \<le> off + k \<or> off + k = length data" "off + k \<le> length data"
      using off by (auto simp: k_def d min_def)
    moreover have "drop N d = drop (off + k) data" by (auto simp: k_def d min_def add.commute)
    ultimately show ?thesis unfolding df_source_def using i ok data len by blast
  qed
  ultimately show "\<exists>h'. vfs_read vfs_funcs h buf N w = Some (min N (length d), memcpy_at 0 (take N d) buf, h', w) \<and>
      df_source i N w h' (drop N d)" unfolding k_def by blast
qed

section \<open>Destinations\<close>

definition df_dest :: "nat \<Rightarrow> nat \<Rightarrow> vfs_world \<Rightarrow> vfs_file_handle_t \<Rightarrow> u8 list \<Rightarrow> bool" where
  "df_dest j k w g d \<longleftrightarrow> g = new_handle VFS_DF (fh_df \<lparr>df_inode = j, df_offset = int (length d)\<rparr>) \<and>
    j < 4096 \<and> fs_ok (3 * k) (w_fs w) \<and> file_data (w_fs w) j = Some d"

text \<open>Only the file of inode \<open>j\<close> may have changed.\<close>

definition df_same :: "nat \<Rightarrow> vfs_world \<Rightarrow> vfs_world \<Rightarrow> bool" where
  "df_same j w w' \<longleftrightarrow> w_program w' = w_program w \<and> w_FLASHEND w' = w_FLASHEND w \<and> w_SPM_PAGESIZE w' = w_SPM_PAGESIZE w \<and>
    ((\<exists>K. fs_ok K (w_fs w)) \<longrightarrow> (\<exists>K. fs_ok K (w_fs w'))) \<and>
    dir (w_fs w') = dir (w_fs w) \<and> (\<forall>n. dir_wf (w_fs w') n = dir_wf (w_fs w) n) \<and>
    (\<forall>i < 4096. i \<noteq> j \<longrightarrow> file_data (w_fs w') i = file_data (w_fs w) i)"

lemma file_data_length:
  assumes "fs_ok K s" "i < 4096" "file_data s i = Some d"
  shows "length d \<le> 512"
proof (cases "fs_page s i = BAD")
  case True
  then show ?thesis using assms(3) by (simp add: file_data_def)
next
  case False
  then show ?thesis using file_dataD(7) [OF assms(1,2) False assms(3)] by simp
qed

interpretation df_writer: vfs_writer "vfs_write vfs_funcs" "df_dest j" "df_same j" 512 for j
proof
  fix k n :: nat and w g d and buf :: "u8 list"
  assume dest: "df_dest j (Suc k) w g d" and n: "0 < n" "n \<le> length buf" "length d + n \<le> 512"
  then have g: "g = new_handle VFS_DF (fh_df \<lparr>df_inode = j, df_offset = int (length d)\<rparr>)" and j: "j < 4096"
    and ok: "fs_ok (3 * Suc k) (w_fs w)" and data: "file_data (w_fs w) j = Some d" by (simp_all add: df_dest_def)
  have K: "3 \<le> 3 * Suc k" by simp
  from fs_write_one [OF ok K j data n(2) order_refl n(3)] obtain s' where
    wr: "fs_write j buf (int (length d)) (int n) (w_fs w) = Some (FS_OK, s')" and ok': "fs_ok (3 * Suc k - 3) s'"
    and data': "file_data s' j = Some (overlay (length d) (take n buf) d)"
    and others: "\<forall>i < 4096. i \<noteq> j \<longrightarrow> fs_page s' i = fs_page (w_fs w) i \<and> file_data s' i = file_data (w_fs w) i"
    and slots: "\<forall>i < 60. node_slot (flash s' (root s')) i = node_slot (flash (w_fs w) (root (w_fs w))) i"
    by (elim exE conjE)
  have "int32 (int n) = int n" "int32 (int (length d) + int n) = int (length d + n)"
    using n(3) by (simp_all add: int32_id)
  then have "vfs_write vfs_funcs g buf n w = Some (n, buf,
      new_handle VFS_DF (fh_df \<lparr>df_inode = j, df_offset = int (length d + n)\<rparr>), w\<lparr>w_fs := s'\<rparr>)"
    using wr by (simp add: vfs_dispatch g vfs_df_write_def)
  moreover have "overlay (length d) (take n buf) d = d @ take n buf" by (simp add: overlay_def)
  then have "df_dest j k (w\<lparr>w_fs := s'\<rparr>)
      (new_handle VFS_DF (fh_df \<lparr>df_inode = j, df_offset = int (length d + n)\<rparr>)) (d @ take n buf)"
    using n(2) j ok' data' by (simp add: df_dest_def min_def)
  moreover have "df_same j w (w\<lparr>w_fs := s'\<rparr>)"
    using others ok' dir_wf_cong [of s' "w_fs w"] slots by (auto simp: df_same_def)
  ultimately show "\<exists>g' w'. vfs_write vfs_funcs g buf n w = Some (n, buf, g', w') \<and>
      df_dest j k w' g' (d @ take n buf) \<and> df_same j w w'" by blast
next
  fix k w g d assume "df_dest j (Suc k) w g d"
  then show "df_dest j k w g d" by (auto simp: df_dest_def elim: fs_ok_less)
qed (auto simp: df_same_def)

interpretation inline_to_df: vfs_copier "vfs_read vfs_funcs" inline_source N "vfs_write vfs_funcs" "df_dest j" "df_same j" 512 for N j
  by unfold_locales (auto simp: inline_source_def df_same_def)

text \<open>From one dataflash file to another.\<close>

definition df_other_source :: "nat \<Rightarrow> nat \<Rightarrow> nat \<Rightarrow> vfs_world \<Rightarrow> vfs_file_handle_t \<Rightarrow> u8 list \<Rightarrow> bool" where
  "df_other_source i j N w h d \<longleftrightarrow> i \<noteq> j \<and> df_source i N w h d"

lemma df_source_same: "df_source i N w h d \<Longrightarrow> i \<noteq> j \<Longrightarrow> df_same j w w' \<Longrightarrow> df_source i N w' h d"
  unfolding df_source_def df_same_def by metis

interpretation df_to_df: vfs_copier "vfs_read vfs_funcs" "df_other_source i j N" N "vfs_write vfs_funcs" "df_dest j" "df_same j" 512
  for i j N
proof
  fix w h d and buf :: "u8 list"
  assume "df_other_source i j N w h d" "length buf = N"
  then show "\<exists>h'. vfs_read vfs_funcs h buf N w = Some (min N (length d), memcpy_at 0 (take N d) buf, h', w) \<and>
      df_other_source i j N w h' (drop N d)"
    using df_reader.read_next [of i N w h d buf] by (auto simp: df_other_source_def)
next
  fix w h d w'
  assume "df_other_source i j N w h d" "df_same j w w'"
  then show "df_other_source i j N w' h d" using df_source_same by (auto simp: df_other_source_def)
qed

section \<open>Creating the destination and finding the source\<close>

lemma fs_create_keeps:
  assumes "fs_ok K s" "1 \<le> K" "dir_wf s n" "n < 60" "0 \<notin> set name" "take 6 name \<notin> set (map key (dir s))"
    and "fs_create name s = Some (FS_OK, s')"
  shows "n < j \<Longrightarrow> j < 60 \<Longrightarrow> node_at s' j = node_at s j"
    "i < 4096 \<Longrightarrow> file_data s' i = file_data s i"
proof -
  have "cstr 6 name \<notin> key ` set (dir s)" using assms(5,6) by (simp add: cstr_name)
  from fs_create_step [OF assms(1-4) this] assms(7)
  have s': "\<forall>i < 4096. fs_page s' i = fs_page s i" "\<forall>j. n < j \<longrightarrow> j < 60 \<longrightarrow> node_at s' j = node_at s j"
    "\<forall>p \<in> live s. flash s' p = flash s p" by auto
  then show "n < j \<Longrightarrow> j < 60 \<Longrightarrow> node_at s' j = node_at s j" by simp
  show "file_data s' i = file_data s i" if i: "i < 4096"
  proof -
    have "fs_page s i \<in> live s" using i by (simp add: live_def)
    then show ?thesis using s'(1,3) i by (simp add: file_data_def Let_def)
  qed
qed

lemma fs_get_inode_none:
  assumes "fs_ok K s" "dir_wf s n" "n < 60" "cstr 6 name \<notin> set (map key (dir s))" "key (node_at s n) \<noteq> cstr 6 name"
  shows "fs_get_inode s name = Some BAD"
proof -
  have "find (\<lambda>x. key x = cstr 6 name) (map (node_at s) [0..<n]) = None"
    using assms(4) unfolding dir_wf_dir [OF assms(2)] find_None_iff by force
  then show ?thesis
    using get_inode_from [OF fs_okD(1) [OF assms(1)] assms(2,3), of 0 name] assms(5) fs_okD(2) [OF assms(1)]
    by (simp add: fs_get_inode_def)
qed

lemma fs_new_inode_free:
  assumes "fs_ok K s" "fs_new_inode s < 4096"
  shows "fs_page s (fs_new_inode s) = BAD"
proof (cases "find (\<lambda>x. fs_page s x = BAD) [0..<4096]")
  case None
  then show ?thesis using assms(2) fs_new_inode_eq [OF assms(1)] by (simp add: BAD_def)
next
  case (Some x)
  then have "fs_page s x = BAD" by (auto simp: find_Some_iff simp del: upt_rec_numeral)
  then show ?thesis using fs_new_inode_eq [OF assms(1)] by (simp only: Some option.case)
qed

text \<open>A new file on the dataflash, and what stays as it is.\<close>

lemma vfs_create_new:
  assumes ok: "fs_ok (Suc K) (w_fs w)" and wf: "dir_wf (w_fs w) n" and n: "n < 59"
    and sorted: "sorted (map key (dir (w_fs w)))" "distinct (map key (dir (w_fs w)))"
    and dest: "0 \<notin> set dest" "take 6 dest \<notin> set (map key (dir (w_fs w)))" and inode: "fs_new_inode (w_fs w) < 4096"
  shows "\<exists>s1. vfs_create vfs_funcs dest w =
      Some (Some (new_handle VFS_DF (fh_df \<lparr>df_inode = fs_new_inode (w_fs w), df_offset = 0\<rparr>)), w\<lparr>w_fs := s1\<rparr>) \<and>
    fs_ok K s1 \<and> dir_wf s1 (n + 1) \<and> distinct (map key (dir s1)) \<and>
    (\<exists>x. key x = take 6 dest \<and> nd_inode x = fs_new_inode (w_fs w) \<and> set (dir s1) = insert x (set (dir (w_fs w)))) \<and>
    (\<forall>i < 4096. file_data s1 i = file_data (w_fs w) i) \<and> file_data s1 (fs_new_inode (w_fs w)) = Some [] \<and>
    node_at s1 (n + 1) = node_at (w_fs w) (n + 1)"
proof -
  define s where "s = w_fs w"
  define j where "j = fs_new_inode s"
  have K: "1 \<le> Suc K" by simp
  have n60: "n < 60" "n + 1 < 60" using n by simp_all
  obtain s1 x where s1: "fs_create dest s = Some (FS_OK, s1)" "fs_ok (Suc K - 1) s1" "dir_wf s1 (n + 1)"
    and x: "key x = take 6 dest" "nd_inode x = j mod 4096"
    and keys: "distinct (map key (dir s1))" "set (dir s1) = insert x (set (dir s))"
    and pages: "\<forall>i < 4096. fs_page s1 i = fs_page s i"
    using fs_create_dir [OF ok K wf n60(1) sorted dest, folded s_def j_def] by (elim exE conjE)
  have j: "j < 4096" "nd_inode x = j" using inode x(2) by (simp_all add: j_def s_def)
  note keep = fs_create_keeps [OF ok K wf n60(1) dest, folded s_def, OF s1(1)]
  have bad: "fs_page s1 j = BAD"
    using fs_new_inode_free [OF ok inode] pages j(1) by (simp add: j_def s_def)
  then have empty: "file_data s1 j = Some []" by (simp add: file_data_def)
  have "fs_get_inode s1 dest = Some j"
    using fs_get_inode_dir [OF s1(2,3) n60(2) keys(1), of x dest] keys(2) x(1) j(2) cstr_name [OF dest(1)] by simp
  then have opened: "vfs_df_open s1 dest = Some (Some \<lparr>df_inode = j, df_offset = 0\<rparr>)"
    using fs_okD(2) [OF s1(2)] j(1) by (simp add: vfs_df_open_def BAD_def)
  have "fs_size s1 j = Some (int 0)" using fs_size_one [OF s1(2) j(1) empty] by simp
  then have "vfs_df_create dest s = Some (Some \<lparr>df_inode = j, df_offset = 0\<rparr>, s1)"
    by (simp add: vfs_df_create_def s1(1) opened vfs_df_size_def)
  then have "vfs_create vfs_funcs dest w =
      Some (Some (new_handle VFS_DF (fh_df \<lparr>df_inode = j, df_offset = 0\<rparr>)), w\<lparr>w_fs := s1\<rparr>)"
    by (simp add: vfs_dispatch s_def)
  moreover have "node_at s1 (n + 1) = node_at s (n + 1)" using keep(1) [of "n + 1"] n60 by simp
  ultimately show ?thesis
    unfolding s_def [symmetric] j_def [symmetric]
    using s1(2,3) keys x(1) j(2) keep(2) empty by (intro exI [of _ s1] conjI) auto
qed

lemma vfs_open_inline:
  assumes "fs_ok K (w_fs w)" "fs_get_inode (w_fs w) src = Some BAD"
    and "vfs_inline_open True (w_program w) (w_FLASHEND w) (w_SPM_PAGESIZE w) src = Some (Some f)"
  shows "vfs_open vfs_funcs src w = Some (Some (new_handle VFS_INLINE (fh_il f)), w)"
  using assms fs_okD(2) [OF assms(1)] by (simp add: vfs_dispatch vfs_df_open_def)

lemma vfs_read_df_all:
  assumes "fs_ok K (w_fs w)" "j < 4096" "file_data (w_fs w) j = Some d" "length d \<le> length room"
  shows "\<exists>h'. vfs_read vfs_funcs (new_handle VFS_DF (fh_df \<lparr>df_inode = j, df_offset = 0\<rparr>)) room (length d) w =
    Some (length d, memcpy_at 0 d room, h', w)"
proof -
  have len: "length d \<le> 512" by (rule file_data_length [OF assms(1-3)])
  have "fs_read (w_fs w) j room (int 0) (int (length d)) = Some (int (length d), memcpy_at 0 d room)"
  proof (cases "fs_page (w_fs w) j = BAD")
    case True
    then have "d = []" using assms(3) by (simp add: file_data_def)
    then show ?thesis using True by (simp add: fs_read_def)
  next
    case False
    from fs_read_one [OF assms(1,2) False assms(3), of 0 "length d" room]
      df_flash_read_data [OF assms(1,2) False assms(3), of "length d"]
    show ?thesis using len assms(4) by auto
  qed
  moreover have "int32 (int (length d)) = int (length d)" using len by (simp add: int32_id)
  ultimately show ?thesis using len by (simp add: vfs_dispatch vfs_df_read_def Let_def)
qed

section \<open>Properties\<close>

text \<open>
  C21. Copying a file of at most 512 bytes out of the program memory onto the dataflash works, whatever
  the size of the packet buffer it goes through: vfs_copy_file returns 0, and afterwards the new name
  opens a file with exactly the bytes of the source.  Every name that was on the dataflash still leads
  to its inode, and every inode that has a page keeps its contents.  (Of a longer file fs_write repeats
  the first page; a file that is still empty has no page, and may get to share the new one's inode.)
\<close>

theorem vfs_copy_inline_file:
  assumes ok: "fs_ok K (w_fs w)" "4 + 3 * (length d div N) \<le> K" and wf: "dir_wf (w_fs w) n" "n < 59"
    and sorted: "sorted (map key (dir (w_fs w)))" "distinct (map key (dir (w_fs w)))"
    and dest: "0 \<notin> set dest" "take 6 dest \<notin> set (map key (dir (w_fs w)))" "fs_new_inode (w_fs w) < 4096"
    and src: "0 \<notin> set src" "take 6 src \<notin> set (map key (dir (w_fs w)))" "take 6 src \<noteq> take 6 dest"
      "key (node_at (w_fs w) (n + 1)) \<noteq> take 6 src"
    and inline: "vfs_inline_open True (w_program w) (w_FLASHEND w) (w_SPM_PAGESIZE w) src = Some (Some f)"
      "il_pos f \<le> il_len f" "inline_rest (w_program w) f = d" "length d \<le> 512"
    and buf: "length buf = N" "0 < N" "N < 65536"
  shows "\<exists>w' h. vfs_copy_file vfs_funcs dest src buf w = Some (0, w') \<and>
    vfs_open vfs_funcs dest w' = Some (Some h, w') \<and>
    (\<forall>room. length d \<le> length room \<longrightarrow>
      (\<exists>h'. vfs_read vfs_funcs h room (length d) w' = Some (length d, memcpy_at 0 d room, h', w'))) \<and>
    (\<forall>x \<in> set (dir (w_fs w)). fs_get_inode (w_fs w') (key x) = Some (nd_inode x) \<and>
      (fs_page (w_fs w) (nd_inode x) \<noteq> BAD \<longrightarrow> file_data (w_fs w') (nd_inode x) = file_data (w_fs w) (nd_inode x)))"
proof -
  define j where "j = fs_new_inode (w_fs w)"
  define L where "L = length d div N + 1"
  have "Suc (3 * L) \<le> K" using ok(2) by (simp add: L_def)
  from fs_ok_less [OF ok(1) this] have ok1: "fs_ok (Suc (3 * L)) (w_fs w)" .
  obtain s1 x where create: "vfs_create vfs_funcs dest w =
      Some (Some (new_handle VFS_DF (fh_df \<lparr>df_inode = j, df_offset = 0\<rparr>)), w\<lparr>w_fs := s1\<rparr>)"
    and s1: "fs_ok (3 * L) s1" "dir_wf s1 (n + 1)" "distinct (map key (dir s1))"
    and x: "key x = take 6 dest" "nd_inode x = j" "set (dir s1) = insert x (set (dir (w_fs w)))"
    and data: "\<forall>i < 4096. file_data s1 i = file_data (w_fs w) i" "file_data s1 j = Some []"
    and tail: "node_at s1 (n + 1) = node_at (w_fs w) (n + 1)"
    using vfs_create_new [OF ok1 wf sorted dest] unfolding j_def by (elim exE conjE)
  have j: "j < 4096" using dest(3) by (simp add: j_def)
  have n60: "n + 1 < 60" using wf(2) by simp
  let ?w1 = "w\<lparr>w_fs := s1\<rparr>"
  let ?g = "new_handle VFS_DF (fh_df \<lparr>df_inode = j, df_offset = 0\<rparr>)" and ?h = "new_handle VFS_INLINE (fh_il f)"
  have "fs_get_inode s1 src = Some BAD"
    by (rule fs_get_inode_none [OF s1(1,2) n60])
      (use src x tail in \<open>auto simp: cstr_name [OF src(1)]\<close>)
  then have op: "vfs_open vfs_funcs src ?w1 = Some (Some ?h, ?w1)"
    using vfs_open_inline [of "3 * L" ?w1 src f] s1(1) inline(1) by simp
  have rest: "inline_source ?w1 ?h d" using inline(2,3) by (auto simp: inline_source_def)
  have dst: "df_dest j L ?w1 ?g []" using j s1(1) data(2) by (simp add: df_dest_def)
  obtain h' g' w' r where copy: "copy_loop (vfs_read vfs_funcs) (vfs_write vfs_funcs) ?h ?g buf ?w1 = Some (0, h', g', w')"
    and holds: "df_dest j 0 w' g' d" and same: "df_same j ?w1 w'" and src': "inline_source w' h' r"
    using inline_to_df.copies [OF rest dst [unfolded L_def] _ buf] inline(4) by auto
  have run: "vfs_copy_file vfs_funcs dest src buf w = Some (0, w')"
  proof -
    have "vfs_close vfs_funcs h' w' = Some (0, h', w')" "vfs_close vfs_funcs g' w' = Some (0, g', w')"
      using src' holds by (auto simp: inline_source_def df_dest_def vfs_dispatch)
    then show ?thesis using create op copy by (simp add: vfs_copy_file_def)
  qed
  have ok': "fs_ok 0 (w_fs w')" and data': "file_data (w_fs w') j = Some d" using holds by (simp_all add: df_dest_def)
  have wf': "dir_wf (w_fs w') (n + 1)" and dir': "dir (w_fs w') = dir s1"
    using same s1(2) by (simp_all add: df_same_def)
  have get: "fs_get_inode (w_fs w') name = Some (nd_inode y)" if "y \<in> set (dir s1)" "cstr 6 name = key y" for y name
    by (rule fs_get_inode_dir [OF ok' wf' n60]) (use that s1(3) dir' in simp_all)
  have "fs_get_inode (w_fs w') dest = Some j"
    using get [of x dest] x cstr_name [OF dest(1)] by simp
  then have "vfs_open vfs_funcs dest w' = Some (Some ?g, w')"
    using j fs_okD(2) [OF ok'] by (simp add: vfs_dispatch vfs_df_open_def BAD_def)
  moreover have "fs_get_inode (w_fs w') (key y) = Some (nd_inode y) \<and>
      (fs_page (w_fs w) (nd_inode y) \<noteq> BAD \<longrightarrow> file_data (w_fs w') (nd_inode y) = file_data (w_fs w) (nd_inode y))"
    if y: "y \<in> set (dir (w_fs w))" for y
  proof (intro conjI impI)
    show "fs_get_inode (w_fs w') (key y) = Some (nd_inode y)" using get [of y "key y"] y x(3) by simp
    assume "fs_page (w_fs w) (nd_inode y) \<noteq> BAD"
    then have "nd_inode y \<noteq> j" using fs_new_inode_free [OF ok(1) dest(3)] by (auto simp: j_def)
    moreover have "nd_inode y < 4096"
      using y nd_reserved_lt(2) unfolding dir_wf_dir [OF wf(1)] by (auto simp: node_at_def)
    ultimately show "file_data (w_fs w') (nd_inode y) = file_data (w_fs w) (nd_inode y)"
      using same data(1) by (simp add: df_same_def)
  qed
  ultimately show ?thesis
    using run vfs_read_df_all [OF ok' j data'] by (intro exI [of _ w'] exI [of _ ?g]) auto
qed

text \<open>An empty dataflash and a program with one file, named by the byte 4.\<close>

lemma empty_fs_names:
  "\<exists>s. fs_ok 4000 s \<and> dir_wf s 0 \<and> dir s = [] \<and> (\<forall>i < 4096. fs_page s i = BAD) \<and> (\<forall>i < 60. key (node_at s i) = [])"
proof -
  define s where "s = (blank_fs (\<lambda>p. replicate 528 255))\<lparr>buf1 := replicate 528 255\<rparr>"
  have "chip_ok s" "heap_ok s" by (simp_all add: s_def chip_ok_def blank_fs_def)
  moreover have "\<forall>p < 4096. pg_unused (get_fs_page (flash s p)) \<or> \<not> pg_root (get_fs_page (flash s p))"
    by (simp add: s_def blank_fs_def get_fs_page_def flag12_0)
  moreover have "bit (buf1 s ! 525) 0" by (simp add: s_def)
  ultimately obtain s' where s': "fs_ok 4000 s'" "dir s' = []"
    "\<forall>i < 60. nd_unused (node_at s' i) \<and> nd_name (node_at s' i) ! 0 = 0" "\<forall>i < 4096. fs_page s' i = BAD"
    using fs_init_empty [of s] by blast
  have "key (node_at s' i) = []" if "i < 60" for i
    using s'(3) that by (cases "nd_name (node_at s' i)") (auto simp: key_def cstr_def)
  then show ?thesis using s' by (intro exI [of _ s']) (simp add: dir_wf_def)
qed

definition program_node :: vfs_inline_node_t where
  "program_node = (let n = \<lparr>il_fn = [4, 0, 0, 0, 0, 0], il_node_len = 3, il_crc = 0\<rparr>
    in n\<lparr>il_crc := crc_checksum (node_raw n) 8\<rparr>)"

definition program_with_file :: "u8 list" where
  "program_with_file = replicate 64 7 @ VFS_INLINE_MAGIC # node_raw program_node @ [9, 8, 7]"

lemma program_with_file_opens:
  shows "vfs_inline_open True (loaded program_with_file) 511 64 [4] = Some (Some \<lparr>il_offset = 74, il_pos = 0, il_len = 3\<rparr>)"
    "inline_rest (loaded program_with_file) \<lparr>il_offset = 74, il_pos = 0, il_len = 3\<rparr> = [9, 8, 7]"
proof -
  have node: "length (il_fn program_node) = 6" "il_fn program_node = [4, 0, 0, 0, 0, 0]" "il_node_len program_node = 3"
    by (simp_all add: program_node_def Let_def)
  have crc: "il_crc program_node = crc_checksum (node_raw program_node) 8"
    by (simp add: program_node_def Let_def crc_checksum_def node_raw_def le16_def)
  have len: "length program_with_file = 77" by (simp add: program_with_file_def length_node_raw [OF node(1)])
  have out: "length (replicate 64 (7 :: u8)) = 1 * 64" "length program_with_file \<le> 8 * 64" "length program_with_file \<le> 65536" using len by simp_all
  have P: "10 \<le> (64 :: nat)" "511 + 1 = 8 * (64 :: nat)" "8 * 64 \<le> (65536 :: nat)" "0 < (1 :: nat)" by simp_all
  have plain: "\<not> is_node (loaded program_with_file) (page_start 64 j)" if "1 < j" "j < 8" for j
    using loaded_at [of j 64 0 program_with_file] that len by (simp add: is_node_def VFS_INLINE_MAGIC_def)
  have start: "page_start 64 1 + 10 = 74" by (simp add: page_start_def)
  have "cstr 6 (il_fn program_node) = cstr 6 [4]" by (simp add: node(2) cstr_def)
  then show "vfs_inline_open True (loaded program_with_file) 511 64 [4] = Some (Some \<lparr>il_offset = 74, il_pos = 0, il_len = 3\<rparr>)"
    using appended_open [OF program_with_file_def out(1,2) node(1) crc P plain, of "[4]"] start node(3) by simp
  have "il_node_len program_node = of_nat (length [9, 8, 7 :: u8])" "length [9, 8, 7 :: u8] < 65536" by (simp_all add: node(3))
  from appended_rest [OF program_with_file_def out(1,3) node(1) this]
  show "inline_rest (loaded program_with_file) \<lparr>il_offset = 74, il_pos = 0, il_len = 3\<rparr> = [9, 8, 7]"
    by (simp only: start node(3))
qed

theorem vfs_copy_inline_file_witness:
  "\<exists>w w' h h'. vfs_copy_file vfs_funcs [98] [4] [0, 0] w = Some (0, w') \<and> w_program w = loaded program_with_file \<and>
    vfs_open vfs_funcs [98] w' = Some (Some h, w') \<and>
    vfs_read vfs_funcs h [0, 0, 0, 0] 3 w' = Some (3, [9, 8, 7, 0], h', w')"
proof -
  obtain s where s: "fs_ok 4000 s" "dir_wf s 0" "dir s = []" "\<forall>i < 4096. fs_page s i = BAD" "\<forall>i < 60. key (node_at s i) = []"
    using empty_fs_names by (elim exE conjE)
  define w where "w = \<lparr>w_fs = s, w_program = loaded program_with_file, w_FLASHEND = 511, w_SPM_PAGESIZE = 64\<rparr>"
  have "fs_new_inode s = 0" by (rule new_inode_empty [OF s(1,4)])
  moreover have "key (node_at s (0 + 1)) = []" using s(5) by simp
  ultimately have h: "fs_ok 4000 (w_fs w)" "4 + 3 * (length [9, 8, 7 :: u8] div 2) \<le> 4000" "dir_wf (w_fs w) 0" "(0 :: nat) < 59"
    "sorted (map key (dir (w_fs w)))" "distinct (map key (dir (w_fs w)))" "0 \<notin> set [98 :: u8]"
    "take 6 [98] \<notin> set (map key (dir (w_fs w)))" "fs_new_inode (w_fs w) < 4096" "0 \<notin> set [4 :: u8]"
    "take 6 [4] \<notin> set (map key (dir (w_fs w)))" "take 6 [4 :: u8] \<noteq> take 6 [98]" "key (node_at (w_fs w) (0 + 1)) \<noteq> take 6 [4]"
    "vfs_inline_open True (w_program w) (w_FLASHEND w) (w_SPM_PAGESIZE w) [4] = Some (Some \<lparr>il_offset = 74, il_pos = 0, il_len = 3\<rparr>)"
    "il_pos \<lparr>il_offset = 74, il_pos = 0, il_len = 3\<rparr> \<le> il_len \<lparr>il_offset = 74, il_pos = 0, il_len = 3\<rparr>"
    "inline_rest (w_program w) \<lparr>il_offset = 74, il_pos = 0, il_len = 3\<rparr> = [9, 8, 7]" "length [9, 8, 7 :: u8] \<le> 512"
    "length [0, 0 :: u8] = 2" "0 < (2 :: nat)" "2 < (65536 :: nat)"
    using s program_with_file_opens by (simp_all add: w_def)
  from vfs_copy_inline_file [OF h] obtain w' g where r: "vfs_copy_file vfs_funcs [98] [4] [0, 0] w = Some (0, w')"
    "vfs_open vfs_funcs [98] w' = Some (Some g, w')"
    "\<forall>room. length [9, 8, 7 :: u8] \<le> length room \<longrightarrow> (\<exists>h'. vfs_read vfs_funcs g room (length [9, 8, 7 :: u8]) w' =
      Some (length [9, 8, 7 :: u8], memcpy_at 0 [9, 8, 7] room, h', w'))" by (elim exE conjE)
  obtain h' where "vfs_read vfs_funcs g [0, 0, 0, 0] 3 w' = Some (3, [9, 8, 7, 0], h', w')"
    using r(3) [rule_format, of "[0, 0, 0, 0]"] by (auto simp: memcpy_at_def eval_nat_numeral)
  then show ?thesis using r(1,2) by (intro exI [of _ w] exI [of _ w'] exI [of _ g] exI [of _ h']) (simp add: w_def)
qed

text \<open>
  vfs_copy_file creates the destination before it opens the source, and creating truncates.
  Copying a file of the program memory to its own name therefore reports success but copies
  nothing: it leaves an empty file on the dataflash, which is what the name opens from then on.
\<close>

theorem vfs_copy_same_name_empties:
  assumes ok: "fs_ok (Suc K) (w_fs w)" and wf: "dir_wf (w_fs w) n" "n < 59"
    and sorted: "sorted (map key (dir (w_fs w)))" "distinct (map key (dir (w_fs w)))"
    and name: "0 \<notin> set nm" "take 6 nm \<notin> set (map key (dir (w_fs w)))" "fs_new_inode (w_fs w) < 4096"
  shows "\<exists>w' h. vfs_copy_file vfs_funcs nm nm buf w = Some (0, w') \<and>
    vfs_open vfs_funcs nm w' = Some (Some h, w') \<and> vfs_size vfs_funcs h w' = Some (0, [], h, w')"
proof -
  define j where "j = fs_new_inode (w_fs w)"
  let ?g = "new_handle VFS_DF (fh_df \<lparr>df_inode = j, df_offset = 0\<rparr>)"
  obtain s1 x where create: "vfs_create vfs_funcs nm w = Some (Some ?g, w\<lparr>w_fs := s1\<rparr>)"
    and s1: "fs_ok K s1" "dir_wf s1 (n + 1)" "distinct (map key (dir s1))"
    and x: "key x = take 6 nm" "nd_inode x = j" "set (dir s1) = insert x (set (dir (w_fs w)))"
    and data: "file_data s1 j = Some []"
    using vfs_create_new [OF ok wf sorted name] unfolding j_def by (elim exE conjE)
  have j: "j < 4096" using name(3) by (simp add: j_def)
  let ?w = "w\<lparr>w_fs := s1\<rparr>"
  have "fs_get_inode s1 nm = Some j"
    using fs_get_inode_dir [OF s1(1,2) _ s1(3), of x nm] wf(2) x cstr_name [OF name(1)] by simp
  then have op: "vfs_open vfs_funcs nm ?w = Some (Some ?g, ?w)"
    using j fs_okD(2) [OF s1(1)] by (simp add: vfs_dispatch vfs_df_open_def BAD_def)
  have "vfs_read vfs_funcs ?g buf (length buf) ?w = Some (0, buf, ?g, ?w)"
  proof (cases "fs_page s1 j = BAD")
    case True
    then show ?thesis by (simp add: vfs_dispatch vfs_df_read_def fs_read_def)
  next
    case False
    have "fs_read s1 j buf (int 0) n = Some (0, buf)" for n
      using file_dataD(6) [OF s1(1) j False data] False
      by (simp add: fs_read_def) (subst read_seek.simps, simp add: FS_DATASIZE_def)
    then show ?thesis by (simp add: vfs_dispatch vfs_df_read_def)
  qed
  then have "copy_loop (vfs_read vfs_funcs) (vfs_write vfs_funcs) ?g ?g buf ?w = Some (0, ?g, ?g, ?w)"
    by (subst copy_loop.simps) simp
  moreover have "vfs_close vfs_funcs ?g ?w = Some (0, ?g, ?w)" by (simp add: vfs_dispatch)
  ultimately have "vfs_copy_file vfs_funcs nm nm buf w = Some (0, ?w)"
    using create op by (simp add: vfs_copy_file_def)
  moreover have "vfs_size vfs_funcs ?g ?w = Some (0, [], ?g, ?w)"
    using fs_size_one [OF s1(1) j data] by (simp add: vfs_dispatch vfs_df_size_def)
  ultimately show ?thesis using op by blast
qed

theorem vfs_copy_same_name_empties_witness:
  "\<exists>w w' h h'. vfs_open vfs_funcs [4] w = Some (Some h, w) \<and> vfs_size vfs_funcs h w = Some (3, [], h, w) \<and>
    vfs_copy_file vfs_funcs [4] [4] [0, 0] w = Some (0, w') \<and>
    vfs_open vfs_funcs [4] w' = Some (Some h', w') \<and> vfs_size vfs_funcs h' w' = Some (0, [], h', w')"
proof -
  obtain s where s: "fs_ok 4000 s" "dir_wf s 0" "dir s = []" "\<forall>i < 4096. fs_page s i = BAD" "\<forall>i < 60. key (node_at s i) = []"
    using empty_fs_names by (elim exE conjE)
  define w where "w = \<lparr>w_fs = s, w_program = loaded program_with_file, w_FLASHEND = 511, w_SPM_PAGESIZE = 64\<rparr>"
  let ?h = "new_handle VFS_INLINE (fh_il \<lparr>il_offset = 74, il_pos = 0, il_len = 3\<rparr>)"
  have "fs_new_inode s = 0" by (rule new_inode_empty [OF s(1,4)])
  then have h: "fs_ok (Suc 3999) (w_fs w)" "dir_wf (w_fs w) 0" "(0 :: nat) < 59"
    "sorted (map key (dir (w_fs w)))" "distinct (map key (dir (w_fs w)))" "0 \<notin> set [4 :: u8]"
    "take 6 [4] \<notin> set (map key (dir (w_fs w)))" "fs_new_inode (w_fs w) < 4096"
    using s by (simp_all add: w_def)
  have "key (node_at s 0) \<noteq> cstr 6 [4]" using s(5) by (simp add: cstr_def)
  then have "fs_get_inode (w_fs w) [4] = Some BAD"
    using fs_get_inode_none [OF s(1,2)] s(3) by (simp add: w_def)
  then have "vfs_open vfs_funcs [4] w = Some (Some ?h, w)"
    using vfs_open_inline [OF h(1), of "[4]"] program_with_file_opens(1) by (simp add: w_def)
  moreover have "vfs_size vfs_funcs ?h w = Some (3, [], ?h, w)"
    by (simp add: vfs_dispatch vfs_inline_size_def)
  ultimately show ?thesis using vfs_copy_same_name_empties [OF h] by blast
qed

end
