(* ===== verification/Resolv.thy ===== *)
theory Resolv imports Prelude "HOL-Library.Monad_Syntax" "HOL-Library.Multiset" begin

text \<open>
  The DNS resolver (protocols/dns/resolv.c, dns_net.c): a small table of names that are asked for
  one after the other over UDP, with retries, and looked up once answered.

  A callback is a value of its own; the state logs the calls made, with no address for a failure.
  Strings are their bytes without the final zero, addresses their bytes in network order.  The
  build option \<open>ipv6\<close> decides the kind of record asked for.  \<open>uip_appdata\<close> is the list of the bytes of
  the packet buffer from there on; a read behind it is \<open>None\<close>, and so is copying a name that does
  not fit its field.  The bytes of the query are part of the result.
\<close>

section \<open>State\<close>

definition MAX_RETRIES :: u8 where "MAX_RETRIES = 8"

datatype dns_state = STATE_UNUSED | STATE_NEW | STATE_ASKING | STATE_DONE | STATE_ERROR

record 'c namemap =
  nm_state :: dns_state
  nm_tmr :: u8
  nm_retries :: u8
  nm_seqno :: u8
  nm_err :: u8
  nm_name :: "u8 list"
  nm_ipaddr :: "u8 list"
  nm_callback :: "'c option"

type_synonym 'c call = "'c \<times> u8 list \<times> u8 list option"

record 'c resolv =
  names :: "'c namemap list"
  seqno :: u8
  calls :: "'c call list"
  resolv_conn :: "u8 list option"

definition RESOLV_ENTRIES :: nat where "RESOLV_ENTRIES = 4"

definition DNS_RECORD_ADDR_TYPE :: "bool \<Rightarrow> u8" where
  "DNS_RECORD_ADDR_TYPE ipv6 = (if ipv6 then 0x1c else 0x01)"

definition DNS_RECORD_ADDR_LEN :: "bool \<Rightarrow> u8" where
  "DNS_RECORD_ADDR_LEN ipv6 = (if ipv6 then 16 else 4)"

definition DNS_FLAG1_RD :: u8 where "DNS_FLAG1_RD = 0x01"
definition DNS_FLAG2_NON_AUTH_OK :: u8 where "DNS_FLAG2_NON_AUTH_OK = 0x10"
definition DNS_FLAG2_ERR_MASK :: u8 where "DNS_FLAG2_ERR_MASK = 0x0f"

definition call_back :: "'c namemap \<Rightarrow> u8 list option \<Rightarrow> 'c call list" where
  "call_back m ip = (case nm_callback m of None \<Rightarrow> [] | Some c \<Rightarrow> [(c, nm_name m, ip)])"

section \<open>Asking\<close>

text \<open>The labels of a name, each behind its length.\<close>

function encode_name :: "u8 list \<Rightarrow> u8 list" where
  "encode_name name =
    (let lab = takeWhile (\<lambda>c. c \<noteq> 0x2e) name
     in of_nat (length lab) # lab @
        (case dropWhile (\<lambda>c. c \<noteq> 0x2e) name of [] \<Rightarrow> [] | _ # rest \<Rightarrow> encode_name rest))"
  by pat_completeness auto
termination
proof (relation "measure length")
  fix name lab rest :: "u8 list" and c
  assume "dropWhile (\<lambda>c. c \<noteq> 0x2e) name = c # rest"
  then have "length (c # rest) \<le> length name" by (metis length_dropWhile_le)
  then show "(rest, name) \<in> measure length" by simp
qed simp

declare encode_name.simps [simp del]

definition dns_query :: "bool \<Rightarrow> nat \<Rightarrow> u8 list \<Rightarrow> u8 list" where
  "dns_query ipv6 i name =
    [0, of_nat i, DNS_FLAG1_RD, DNS_FLAG2_NON_AUTH_OK, 0, 1, 0, 0, 0, 0, 0, 0] @ encode_name name @
    [0, 0, DNS_RECORD_ADDR_TYPE ipv6, 0, 1]"

text \<open>
  The loop over the entries from number \<open>i\<close> on; it ends with the first entry that asks.  The length
  of the query is cut to 8 bits.
\<close>

fun periodic_loop :: "bool \<Rightarrow> nat \<Rightarrow> 'c namemap list \<Rightarrow> 'c namemap list \<times> 'c call list \<times> u8 list option" where
  "periodic_loop ipv6 i [] = ([], [], None)"
| "periodic_loop ipv6 i (m # ms) =
    (let go_on = (\<lambda>m cs. let (ms, cs', q) = periodic_loop ipv6 (i + 1) ms in (m # ms, cs @ cs', q));
         send = (\<lambda>m. let q = dns_query ipv6 i (nm_name m) in (m # ms, [], Some (take (length q mod 256) q)))
     in if nm_state m = STATE_ASKING then
          let m = m\<lparr>nm_tmr := nm_tmr m - 1\<rparr>
          in if nm_tmr m = 0 then
               let m = m\<lparr>nm_retries := nm_retries m + 1\<rparr>
               in if nm_retries m = MAX_RETRIES
                  then go_on (m\<lparr>nm_state := STATE_ERROR\<rparr>) (call_back m None)
                  else send (m\<lparr>nm_tmr := nm_retries m\<rparr>)
             else go_on m []
        else if nm_state m = STATE_NEW
        then send (m\<lparr>nm_state := STATE_ASKING, nm_tmr := 1, nm_retries := 0\<rparr>)
        else go_on m [])"

definition resolv_periodic :: "bool \<Rightarrow> 'c resolv \<Rightarrow> u8 list option \<times> 'c resolv" where
  "resolv_periodic ipv6 s =
    (let (ms, cs, q) = periodic_loop ipv6 0 (names s) in (q, s\<lparr>names := ms, calls := calls s @ cs\<rparr>))"

section \<open>Answers\<close>

definition rd :: "u8 list \<Rightarrow> nat \<Rightarrow> u8 option" where
  "rd buf i = (if i < length buf then Some (buf ! i) else None)"

definition rd16 :: "u8 list \<Rightarrow> nat \<Rightarrow> nat option" where
  "rd16 buf i = do { a \<leftarrow> rd buf i; b \<leftarrow> rd buf (i + 1); Some (256 * unat a + unat b) }"

function parse_name :: "u8 list \<Rightarrow> nat \<Rightarrow> nat option" where
  "parse_name buf query =
    (if query < length buf then
       let n = buf ! query
       in if n AND 0xC0 \<noteq> 0 then Some (query + 1 + 1)
          else
            let query = query + 1 + unat n
            in if query < length buf then if buf ! query \<noteq> 0 then parse_name buf query else Some (query + 1)
               else None
     else None)"
  by pat_completeness auto
termination by (relation "measure (\<lambda>(buf, query). length buf - query)") auto

declare parse_name.simps [simp del]

text \<open>
  The loop over \<open>n\<close> answers from \<open>nameptr\<close> on: \<open>Some None\<close> when none of them is an address.
\<close>

fun answers_loop :: "bool \<Rightarrow> u8 list \<Rightarrow> nat \<Rightarrow> nat \<Rightarrow> u8 list option option" where
  "answers_loop ipv6 buf nameptr 0 = Some None"
| "answers_loop ipv6 buf nameptr (Suc n) = do {
    c \<leftarrow> rd buf nameptr;
    nameptr \<leftarrow> (if c AND 0xc0 \<noteq> 0 then Some (nameptr + 2) else parse_name buf nameptr);
    type \<leftarrow> rd16 buf nameptr;
    class \<leftarrow> rd16 buf (nameptr + 2);
    len \<leftarrow> rd16 buf (nameptr + 8);
    if type = unat (DNS_RECORD_ADDR_TYPE ipv6) \<and> class = 1 \<and> len = unat (DNS_RECORD_ADDR_LEN ipv6) then
      if nameptr + 10 + len \<le> length buf then Some (Some (slice (nameptr + 10) len buf)) else None
    else answers_loop ipv6 buf (nameptr + 10 + len) n
  }"

definition resolv_newdata :: "bool \<Rightarrow> u8 list \<Rightarrow> 'c resolv \<Rightarrow> 'c resolv option" where
  "resolv_newdata ipv6 uip_appdata s = do {
    id \<leftarrow> rd16 uip_appdata 0;
    let i = id mod 256;
    if i < length (names s) \<and> nm_state (names s ! i) = STATE_ASKING then do {
      flags2 \<leftarrow> rd uip_appdata 3;
      numanswers \<leftarrow> rd16 uip_appdata 6;
      let m = (names s ! i)\<lparr>nm_state := STATE_DONE, nm_err := flags2 AND DNS_FLAG2_ERR_MASK\<rparr>;
      if nm_err m \<noteq> 0 \<or> numanswers = 0 then
        Some (s\<lparr>names := (names s)[i := m\<lparr>nm_state := STATE_ERROR\<rparr>], calls := calls s @ call_back m None\<rparr>)
      else do {
        nameptr \<leftarrow> parse_name uip_appdata 12;
        r \<leftarrow> answers_loop ipv6 uip_appdata (nameptr + 4) (numanswers mod 256);
        case r of
          None \<Rightarrow> Some (s\<lparr>names := (names s)[i := m]\<rparr>)
        | Some ip \<Rightarrow>
            let m = m\<lparr>nm_ipaddr := ip\<rparr>
            in Some (s\<lparr>names := (names s)[i := m], calls := calls s @ call_back m (Some ip)\<rparr>)
      }
    } else Some s
  }"

section \<open>The client's side\<close>

text \<open>The search for an unused entry or else the oldest one, by numbers as C subtracts bytes.\<close>

fun query_entry :: "u8 \<Rightarrow> 'c namemap list \<Rightarrow> nat \<Rightarrow> u8 \<Rightarrow> nat \<Rightarrow> nat" where
  "query_entry sq [] i lseq lseqi = lseqi"
| "query_entry sq (m # ms) i lseq lseqi =
    (if nm_state m = STATE_UNUSED then i
     else if int (unat sq) - int (unat (nm_seqno m)) > int (unat lseq)
     then query_entry sq ms (i + 1) (sq - nm_seqno m) i
     else query_entry sq ms (i + 1) lseq lseqi)"

definition resolv_query :: "u8 list \<Rightarrow> 'c option \<Rightarrow> 'c resolv \<Rightarrow> 'c resolv option" where
  "resolv_query name callback s =
    (let i = query_entry (seqno s) (names s) 0 0 0;
         m = (names s ! i)\<lparr>nm_name := name, nm_state := STATE_NEW, nm_seqno := seqno s, nm_callback := callback\<rparr>
     in if length name + 1 \<le> 32 then Some (s\<lparr>names := (names s)[i := m], seqno := seqno s + 1\<rparr>) else None)"

definition resolv_lookup :: "u8 list \<Rightarrow> 'c resolv \<Rightarrow> u8 list option" where
  "resolv_lookup name s =
    map_option nm_ipaddr (find (\<lambda>m. nm_state m = STATE_DONE \<and> name = nm_name m) (names s))"

text \<open>
  The server's address is that of the connection; \<open>free\<close> says whether uIP has one to give.
  \<open>resolv_init\<close> gets the address stored in the EEPROM; the memory is zero at start.
\<close>

definition resolv_getserver :: "'c resolv \<Rightarrow> u8 list option" where
  "resolv_getserver s = resolv_conn s"

definition resolv_conf :: "bool \<Rightarrow> u8 list \<Rightarrow> 'c resolv \<Rightarrow> 'c resolv" where
  "resolv_conf free dnsserver s =
    (let s = (if resolv_conn s \<noteq> None then s\<lparr>resolv_conn := None\<rparr> else s)
     in s\<lparr>resolv_conn := if free then Some dnsserver else None\<rparr>)"

definition resolv_init :: "bool \<Rightarrow> u8 list \<Rightarrow> 'c resolv \<Rightarrow> 'c resolv" where
  "resolv_init free dnsserver s =
    (let s = resolv_conf free dnsserver s in s\<lparr>names := map (\<lambda>m. m\<lparr>nm_state := STATE_DONE\<rparr>) (names s)\<rparr>)"

definition resolv_start :: "bool \<Rightarrow> 'c resolv" where
  "resolv_start ipv6 = \<lparr>names = replicate RESOLV_ENTRIES \<lparr>nm_state = STATE_UNUSED, nm_tmr = 0, nm_retries = 0, nm_seqno = 0,
    nm_err = 0, nm_name = [], nm_ipaddr = replicate (unat (DNS_RECORD_ADDR_LEN ipv6)) 0, nm_callback = None\<rparr>, seqno = 0, calls = [], resolv_conn = None\<rparr>"

text \<open>
  The callback of uIP with its flags for polling and new data; a query is put where data would be.
\<close>

definition dns_net_main :: "bool \<Rightarrow> bool \<Rightarrow> bool \<Rightarrow> u8 list \<Rightarrow> 'c resolv \<Rightarrow> (u8 list option \<times> 'c resolv) option" where
  "dns_net_main ipv6 poll newdata uip_appdata s =
    (let (q, s) = (if poll then resolv_periodic ipv6 s else (None, s))
     in if newdata then map_option (Pair q) (resolv_newdata ipv6 (case q of None \<Rightarrow> uip_appdata | Some d \<Rightarrow> memcpy_at 0 d uip_appdata) s) else Some (q, s))"

section \<open>Names and records on the wire\<close>

text \<open>A name is its labels and then a zero byte or a pointer to another place of the message.\<close>

definition wire_name :: "u8 list list \<Rightarrow> u8 list \<Rightarrow> u8 list" where
  "wire_name labels tail = concat (map (\<lambda>l. of_nat (length l) # l) labels) @ tail"

definition name_ok :: "u8 list list \<Rightarrow> u8 list \<Rightarrow> bool" where
  "name_ok labels tail \<longleftrightarrow> (\<forall>l \<in> set labels. 0 < length l \<and> length l < 64) \<and>
    (tail = [0] \<and> labels \<noteq> [] \<or> (\<exists>a b. tail = [a, b] \<and> a AND 0xC0 \<noteq> 0))"

lemma label_length:
  assumes "0 < n" "n < 64"
  shows "(of_nat n :: u8) AND 0xC0 = 0" "unat (of_nat n :: u8) = n" "(of_nat n :: u8) \<noteq> 0"
proof -
  show u: "unat (of_nat n :: u8) = n" using assms by (simp add: unsigned_of_nat take_bit_nat_eq_self)
  have "\<forall>k \<in> set [0..<64]. (of_nat k :: u8) AND 0xC0 = 0" by code_simp
  then show "(of_nat n :: u8) AND 0xC0 = 0" using assms(2) by simp
  show "(of_nat n :: u8) \<noteq> 0" using u assms(1) by (metis unsigned_0 less_irrefl)
qed

lemma parse_name_wire:
  assumes "name_ok labels tail"
  shows "parse_name (pre @ wire_name labels tail @ post) (length pre) = Some (length pre + length (wire_name labels tail))"
  using assms
proof (induction labels arbitrary: pre)
  case Nil
  then obtain a b where "tail = [a, b]" "a AND 0xC0 \<noteq> 0" by (auto simp: name_ok_def)
  then show ?case by (subst parse_name.simps) (simp add: wire_name_def)
next
  case (Cons l ls)
  let ?buf = "pre @ wire_name (l # ls) tail @ post"
  have l: "0 < length l" "length l < 64" using Cons.prems by (auto simp: name_ok_def)
  note n = label_length [OF l]
  have buf: "?buf = (pre @ of_nat (length l) # l) @ wire_name ls tail @ post" by (simp add: wire_name_def)
  have first: "?buf ! length pre = of_nat (length l)" by (simp add: wire_name_def nth_append)
  have pos: "length pre + 1 + length l = length (pre @ of_nat (length l) # l)" by simp
  have step: "parse_name ?buf (length pre) =
      (let query = length pre + 1 + length l
       in if query < length ?buf then if ?buf ! query \<noteq> 0 then parse_name ?buf query else Some (query + 1) else None)"
    using first n by (subst parse_name.simps) (simp add: wire_name_def Let_def)
  show ?case
  proof (cases "ls = [] \<and> tail = [0]")
    case True
    then show ?thesis unfolding step by (simp add: wire_name_def nth_append Let_def)
  next
    case False
    then have ok: "name_ok ls tail" using Cons.prems by (auto simp: name_ok_def)
    obtain c r where w: "wire_name ls tail = c # r" "c \<noteq> 0"
    proof (cases ls)
      case Nil
      then obtain a b where ab: "tail = [a, b]" "a AND 0xC0 \<noteq> 0" using ok by (auto simp: name_ok_def)
      moreover from this(2) have "a \<noteq> 0" by (cases "a = 0") auto
      ultimately show ?thesis using that Nil by (simp add: wire_name_def)
    next
      case (Cons l' ls')
      then have "0 < length l'" "length l' < 64" using ok by (auto simp: name_ok_def)
      then show ?thesis using that label_length(3) Cons by (auto simp: wire_name_def)
    qed
    have at: "?buf ! length (pre @ of_nat (length l) # l) = c"
      unfolding buf nth_append_length_plus [of _ _ 0, simplified] by (simp add: w(1))
    have lt: "length (pre @ of_nat (length l) # l) < length ?buf" unfolding buf by (simp add: w(1))
    have "parse_name ?buf (length (pre @ of_nat (length l) # l)) =
        Some (length (pre @ of_nat (length l) # l) + length (wire_name ls tail))"
      unfolding buf by (rule Cons.IH [OF ok])
    then show ?thesis unfolding step Let_def pos using at lt w(2) by (simp add: wire_name_def)
  qed
qed

text \<open>A resource record, and whether it is an address of the kind asked for.\<close>

record dns_rr =
  rr_labels :: "u8 list list"
  rr_tail :: "u8 list"
  rr_type :: nat
  rr_class :: nat
  rr_ttl :: "u8 list"
  rr_data :: "u8 list"

definition be16 :: "nat \<Rightarrow> u8 list" where
  "be16 n = [of_nat (n div 256), of_nat n]"

definition rr_bytes :: "dns_rr \<Rightarrow> u8 list" where
  "rr_bytes r = wire_name (rr_labels r) (rr_tail r) @ be16 (rr_type r) @ be16 (rr_class r) @ rr_ttl r @
    be16 (length (rr_data r)) @ rr_data r"

definition rr_ok :: "dns_rr \<Rightarrow> bool" where
  "rr_ok r \<longleftrightarrow> name_ok (rr_labels r) (rr_tail r) \<and> rr_type r < 65536 \<and> rr_class r < 65536 \<and> length (rr_ttl r) = 4 \<and>
    length (rr_data r) < 65536"

definition rr_address :: "bool \<Rightarrow> dns_rr \<Rightarrow> bool" where
  "rr_address ipv6 r \<longleftrightarrow> rr_type r = unat (DNS_RECORD_ADDR_TYPE ipv6) \<and> rr_class r = 1 \<and>
    length (rr_data r) = unat (DNS_RECORD_ADDR_LEN ipv6)"

lemma length_be16 [simp]: "length (be16 n) = 2"
  by (simp add: be16_def)

lemma rd16_be16: "n < 65536 \<Longrightarrow> rd16 (pre @ be16 n @ post) (length pre) = Some n"
  by (simp add: rd16_def rd_def be16_def nth_append unsigned_of_nat take_bit_nat_eq_self take_bit_eq_mod)

lemma rd16_at: "pos = length pre \<Longrightarrow> n < 65536 \<Longrightarrow> rd16 (pre @ be16 n @ post) pos = Some n"
  by (simp add: rd16_be16)

lemma answer_name:
  assumes "name_ok labels tail"
  shows "\<exists>c. rd (pre @ wire_name labels tail @ post) (length pre) = Some c \<and>
    (if c AND 0xc0 \<noteq> 0 then Some (length pre + 2) else parse_name (pre @ wire_name labels tail @ post) (length pre)) =
      Some (length pre + length (wire_name labels tail))"
proof (cases labels)
  case Nil
  then obtain a b where "tail = [a, b]" "a AND 0xC0 \<noteq> 0" using assms by (auto simp: name_ok_def)
  then show ?thesis using Nil by (simp add: wire_name_def rd_def)
next
  case (Cons l ls)
  then have "0 < length l" "length l < 64" using assms by (auto simp: name_ok_def)
  then have "(of_nat (length l) :: u8) AND 0xC0 = 0" by (rule label_length(1))
  moreover have "rd (pre @ wire_name labels tail @ post) (length pre) = Some (of_nat (length l))"
    by (simp add: Cons wire_name_def rd_def nth_append)
  ultimately show ?thesis using parse_name_wire [OF assms, of pre post] by simp
qed

lemma answers_loop_records:
  assumes "\<forall>r \<in> set rrs. rr_ok r"
  shows "answers_loop ipv6 (pre @ concat (map rr_bytes rrs) @ post) (length pre) (length rrs) =
    Some (map_option rr_data (find (rr_address ipv6) rrs))"
  using assms
proof (induction rrs arbitrary: pre)
  case (Cons r rrs)
  let ?w = "wire_name (rr_labels r) (rr_tail r)" and ?d = "rr_data r"
  let ?rest = "concat (map rr_bytes rrs) @ post"
  define buf where "buf = pre @ concat (map rr_bytes (r # rrs)) @ post"
  define p where "p = length pre + length ?w"
  have ok: "rr_ok r" using Cons.prems by simp
  have r: "name_ok (rr_labels r) (rr_tail r)" "rr_type r < 65536" "rr_class r < 65536" "length (rr_ttl r) = 4"
    "length ?d < 65536" using ok by (simp_all add: rr_ok_def)
  have forms: "buf = pre @ ?w @ be16 (rr_type r) @ be16 (rr_class r) @ rr_ttl r @ be16 (length ?d) @ ?d @ ?rest"
    "buf = (pre @ ?w) @ be16 (rr_type r) @ be16 (rr_class r) @ rr_ttl r @ be16 (length ?d) @ ?d @ ?rest"
    "buf = (pre @ ?w @ be16 (rr_type r)) @ be16 (rr_class r) @ rr_ttl r @ be16 (length ?d) @ ?d @ ?rest"
    "buf = (pre @ ?w @ be16 (rr_type r) @ be16 (rr_class r) @ rr_ttl r) @ be16 (length ?d) @ ?d @ ?rest"
    "buf = (pre @ rr_bytes r) @ ?rest"
    by (simp_all add: buf_def rr_bytes_def)
  obtain c where c: "rd buf (length pre) = Some c"
    "(if c AND 0xc0 \<noteq> 0 then Some (length pre + 2) else parse_name buf (length pre)) = Some p"
    using answer_name [OF r(1), of pre] unfolding forms(1) p_def by blast
  have t: "rd16 buf p = Some (rr_type r)" unfolding forms(2) by (rule rd16_at) (simp_all add: p_def r)
  have k: "rd16 buf (p + 2) = Some (rr_class r)" unfolding forms(3) by (rule rd16_at) (simp_all add: p_def r)
  have l: "rd16 buf (p + 8) = Some (length ?d)" unfolding forms(4) by (rule rd16_at) (simp_all add: p_def r)
  have data: "p + 10 + length ?d \<le> length buf" "slice (p + 10) (length ?d) buf = ?d"
    using r(4) by (simp_all add: forms(1) p_def slice_def)
  have pos: "p + 10 + length ?d = length (pre @ rr_bytes r)" using r(4) by (simp add: p_def rr_bytes_def)
  have "answers_loop ipv6 buf (length pre) (length (r # rrs)) =
    (if rr_address ipv6 r then Some (Some ?d) else answers_loop ipv6 buf (p + 10 + length ?d) (length rrs))"
    using data by (auto simp: c t k [simplified] l rr_address_def)
  also have "\<dots> = Some (map_option rr_data (find (rr_address ipv6) (r # rrs)))"
    using Cons.IH [of "pre @ rr_bytes r"] Cons.prems unfolding pos forms(5) by simp
  finally show ?case unfolding buf_def .
qed simp

section \<open>Replies\<close>

text \<open>
  A reply: header, the question, the answers, and whatever comes behind them.  \<open>counts\<close> are the
  numbers of the other records, \<open>asked\<close> the type and class in the question.
\<close>

record dns_message =
  msg_flags1 :: u8
  msg_flags2 :: u8
  msg_counts :: "u8 list"
  msg_labels :: "u8 list list"
  msg_tail :: "u8 list"
  msg_asked :: "u8 list"
  msg_answers :: "dns_rr list"
  msg_rest :: "u8 list"

definition dns_reply :: "nat \<Rightarrow> dns_message \<Rightarrow> u8 list" where
  "dns_reply i d = be16 i @ [msg_flags1 d, msg_flags2 d] @ be16 1 @ be16 (length (msg_answers d)) @ msg_counts d @
    wire_name (msg_labels d) (msg_tail d) @ msg_asked d @ concat (map rr_bytes (msg_answers d)) @ msg_rest d"

definition message_ok :: "dns_message \<Rightarrow> bool" where
  "message_ok d \<longleftrightarrow> msg_flags2 d AND DNS_FLAG2_ERR_MASK = 0 \<and> length (msg_counts d) = 4 \<and>
    name_ok (msg_labels d) (msg_tail d) \<and> length (msg_asked d) = 4 \<and>
    msg_answers d \<noteq> [] \<and> length (msg_answers d) < 256 \<and> (\<forall>r \<in> set (msg_answers d). rr_ok r)"

lemma newdata_reply:
  assumes ok: "message_ok d" and i: "i < 256" "i < length (names s)" "nm_state (names s ! i) = STATE_ASKING"
  shows "resolv_newdata ipv6 (dns_reply i d) s =
    Some (let m = (names s ! i)\<lparr>nm_state := STATE_DONE, nm_err := 0\<rparr>
          in case find (rr_address ipv6) (msg_answers d) of
               None \<Rightarrow> s\<lparr>names := (names s)[i := m]\<rparr>
             | Some r \<Rightarrow> s\<lparr>names := (names s)[i := m\<lparr>nm_ipaddr := rr_data r\<rparr>],
                 calls := calls s @ call_back m (Some (rr_data r))\<rparr>)"
proof -
  let ?b = "dns_reply i d" and ?n = "length (msg_answers d)" and ?w = "wire_name (msg_labels d) (msg_tail d)"
  let ?hdr = "be16 i @ [msg_flags1 d, msg_flags2 d] @ be16 1 @ be16 ?n @ msg_counts d"
  have d: "msg_flags2 d AND DNS_FLAG2_ERR_MASK = 0" "length (msg_counts d) = 4" "name_ok (msg_labels d) (msg_tail d)"
    "length (msg_asked d) = 4" "0 < ?n" "?n < 256" "\<forall>r \<in> set (msg_answers d). rr_ok r"
    using ok by (auto simp: message_ok_def)
  have hdr: "length ?hdr = 12" using d(2) by simp
  have id: "rd16 ?b 0 = Some i"
    using rd16_at [of 0 "[]" i] i(1) by (simp add: dns_reply_def)
  have f2: "rd ?b 3 = Some (msg_flags2 d)" by (simp add: dns_reply_def rd_def be16_def numeral_3_eq_3)
  have "?b = (be16 i @ [msg_flags1 d, msg_flags2 d] @ be16 1) @ be16 ?n @ msg_counts d @ ?w @ msg_asked d @
      concat (map rr_bytes (msg_answers d)) @ msg_rest d" by (simp add: dns_reply_def)
  then have na: "rd16 ?b 6 = Some ?n" using d(6) by (simp only:) (rule rd16_at, simp_all)
  have "?b = ?hdr @ ?w @ msg_asked d @ concat (map rr_bytes (msg_answers d)) @ msg_rest d"
    by (simp add: dns_reply_def)
  then have pn: "parse_name ?b 12 = Some (12 + length ?w)"
    using parse_name_wire [OF d(3), of ?hdr] unfolding hdr by simp
  have "?b = (?hdr @ ?w @ msg_asked d) @ concat (map rr_bytes (msg_answers d)) @ msg_rest d"
    by (simp add: dns_reply_def)
  moreover have "12 + length ?w + 4 = length (?hdr @ ?w @ msg_asked d)" using hdr d(4) by simp
  ultimately have al: "answers_loop ipv6 ?b (12 + length ?w + 4) ?n =
      Some (map_option rr_data (find (rr_address ipv6) (msg_answers d)))"
    using answers_loop_records [OF d(7), of ipv6 "?hdr @ ?w @ msg_asked d" "msg_rest d"] by (simp only:)
  show ?thesis
    unfolding resolv_newdata_def
    using i d(1,5,6) by (auto simp: id f2 na pn al [simplified] Let_def call_back_def split: option.split)
qed

section \<open>Reachable states\<close>

inductive resolv_reachable :: "bool \<Rightarrow> 'c resolv \<Rightarrow> bool" for ipv6 where
  start: "resolv_reachable ipv6 (resolv_init free dnsserver (resolv_start ipv6))"
| query: "resolv_reachable ipv6 s \<Longrightarrow> resolv_query name callback s = Some s' \<Longrightarrow> resolv_reachable ipv6 s'"
| conf: "resolv_reachable ipv6 s \<Longrightarrow> resolv_reachable ipv6 (resolv_conf free dnsserver s)"
| net: "resolv_reachable ipv6 s \<Longrightarrow> dns_net_main ipv6 poll newdata buf s = Some (q, s') \<Longrightarrow> resolv_reachable ipv6 s'"

definition entry_ok :: "'c namemap \<Rightarrow> bool" where
  "entry_ok m \<longleftrightarrow> length (nm_name m) < 32 \<and>
    (nm_state m = STATE_ASKING \<longrightarrow> 0 < nm_tmr m \<and> nm_tmr m \<le> max 1 (nm_retries m) \<and> nm_retries m < 8)"

definition resolv_ok :: "'c resolv \<Rightarrow> bool" where
  "resolv_ok s \<longleftrightarrow> length (names s) = RESOLV_ENTRIES \<and> (\<forall>m \<in> set (names s). entry_ok m)"

section \<open>Running out of retries\<close>

definition active :: "'c namemap \<Rightarrow> bool" where
  "active m \<longleftrightarrow> nm_state m = STATE_NEW \<or> nm_state m = STATE_ASKING"

text \<open>How many more calls an entry can be active for, and the calls of callbacks still owed.\<close>

definition waits :: "'c namemap \<Rightarrow> nat" where
  "waits m = (case nm_state m of STATE_NEW \<Rightarrow> 30
     | STATE_ASKING \<Rightarrow> unat (nm_tmr m) + (\<Sum>k \<in> {unat (nm_retries m) + 1..7}. k) | _ \<Rightarrow> 0)"

definition pending :: "'c namemap list \<Rightarrow> 'c call multiset" where
  "pending ms = (\<Sum>m \<leftarrow> ms. if active m then mset (call_back m None) else {#})"

definition kept :: "'c namemap \<Rightarrow> 'c namemap \<Rightarrow> bool" where
  "kept m m' \<longleftrightarrow> nm_name m' = nm_name m \<and> nm_callback m' = nm_callback m \<and> nm_ipaddr m' = nm_ipaddr m \<and>
    (entry_ok m \<longrightarrow> entry_ok m') \<and> (if active m then active m' \<or> nm_state m' = STATE_ERROR else m' = m)"

lemma kept_refl: "kept m m"
  by (simp add: kept_def)

lemma kept_trans: "kept m m' \<Longrightarrow> kept m' m'' \<Longrightarrow> kept m m''"
  by (auto simp: kept_def active_def split: if_splits)

lemma entry_tick:
  assumes "entry_ok m" "nm_state m = STATE_ASKING"
  shows "unat (nm_tmr m - 1) = unat (nm_tmr m) - 1" "0 < unat (nm_tmr m)"
    "nm_tmr m - 1 = 0 \<longleftrightarrow> unat (nm_tmr m) = 1"
    "unat (nm_retries m + 1) = unat (nm_retries m) + 1" "unat (nm_retries m) < 8"
    "nm_retries m + 1 = MAX_RETRIES \<longleftrightarrow> unat (nm_retries m) = 7"
proof -
  have t: "0 < unat (nm_tmr m)" "unat (nm_retries m) < 8"
    using assms by (auto simp: entry_ok_def word_less_nat_alt)
  then show "0 < unat (nm_tmr m)" "unat (nm_retries m) < 8" by simp_all
  show u: "unat (nm_tmr m - 1) = unat (nm_tmr m) - 1"
    using t(1) unat_sub_small [of 1 "nm_tmr m"] by simp
  show "nm_tmr m - 1 = 0 \<longleftrightarrow> unat (nm_tmr m) = 1"
    using u t(1) by (metis unat_eq_zero diff_is_0_eq One_nat_def Suc_leI le_antisym diff_self_eq_0)
  show r: "unat (nm_retries m + 1) = unat (nm_retries m) + 1"
    by (rule unat_inc_small) (use t(2) in simp)
  show "nm_retries m + 1 = MAX_RETRIES \<longleftrightarrow> unat (nm_retries m) = 7"
    using r by (simp add: word_unat_eq_iff MAX_RETRIES_def)
qed

lemma waits_step: "r < 7 \<Longrightarrow> (r + 1) + (\<Sum>k \<in> {r + 1 + 1..7}. k) = (\<Sum>k \<in> {r + 1..7}. k)" for r :: nat
  by (simp add: sum.atLeast_Suc_atMost)

lemma call_back_kept: "kept m m' \<Longrightarrow> call_back m' ip = call_back m ip"
  by (simp add: call_back_def kept_def split: option.split)

text \<open>One entry of the loop: what becomes of it, whom it calls, and whether it asks.\<close>

definition entry_step :: "'c namemap \<Rightarrow> 'c namemap \<times> 'c call list \<times> bool" where
  "entry_step m =
    (if nm_state m = STATE_ASKING then
       if nm_tmr m - 1 \<noteq> 0 then (m\<lparr>nm_tmr := nm_tmr m - 1\<rparr>, [], False)
       else if nm_retries m + 1 = MAX_RETRIES
       then (m\<lparr>nm_tmr := 0, nm_retries := nm_retries m + 1, nm_state := STATE_ERROR\<rparr>, call_back m None, False)
       else (m\<lparr>nm_tmr := nm_retries m + 1, nm_retries := nm_retries m + 1\<rparr>, [], True)
     else if nm_state m = STATE_NEW then (m\<lparr>nm_state := STATE_ASKING, nm_tmr := 1, nm_retries := 0\<rparr>, [], True)
     else (m, [], False))"

lemma periodic_loop_Cons:
  "periodic_loop ipv6 i (m # ms) =
    (case entry_step m of (m', cs, send) \<Rightarrow>
       if send then let q = dns_query ipv6 i (nm_name m) in (m' # ms, [], Some (take (length q mod 256) q))
       else let (ms', cs', q) = periodic_loop ipv6 (i + 1) ms in (m' # ms', cs @ cs', q))"
  by (auto simp: entry_step_def Let_def call_back_def split: prod.splits option.splits)

declare periodic_loop.simps(2) [simp del]

lemma entry_step_spec:
  assumes ok: "entry_ok m" and step: "entry_step m = (m', cs, send)"
  shows "kept m m' \<and> mset cs + pending [m'] = pending [m] \<and>
    (if active m then waits m' < waits m else m' = m) \<and> (send \<longrightarrow> active m \<and> cs = [])"
proof (cases "nm_state m = STATE_ASKING")
  case asking: True
  note t = entry_tick [OF ok asking]
  have w: "waits m = unat (nm_tmr m) + (\<Sum>k \<in> {unat (nm_retries m) + 1..7}. k)" using asking by (simp add: waits_def)
  have old: "length (nm_name m) < 32" "nm_tmr m \<le> max 1 (nm_retries m)" using ok asking by (simp_all add: entry_ok_def)
  consider (wait) "unat (nm_tmr m) \<noteq> 1" | (give_up) "unat (nm_tmr m) = 1" "unat (nm_retries m) = 7"
    | (again) "unat (nm_tmr m) = 1" "unat (nm_retries m) < 7" using t(5) by linarith
  then show ?thesis
  proof cases
    case wait
    then have m': "m' = m\<lparr>nm_tmr := nm_tmr m - 1\<rparr>" "cs = []" "\<not> send" using step asking t(3) by (auto simp: entry_step_def)
    have "nm_tmr m - 1 \<le> nm_tmr m" using t(1) by (simp add: word_le_nat_alt)
    then have "0 < nm_tmr m - 1" "nm_tmr m - 1 \<le> max 1 (nm_retries m)"
      using wait t(1,2) old(2) by (simp_all add: word_less_nat_alt)
    then have "entry_ok m'" using ok asking by (simp add: m' entry_ok_def)
    moreover have "waits m' < waits m" using t(1,2) by (simp add: w) (simp add: waits_def asking m')
    ultimately show ?thesis using asking by (simp add: m' kept_def active_def pending_def call_back_def split: option.split)
  next
    case give_up
    then have "m' = m\<lparr>nm_tmr := 0, nm_retries := nm_retries m + 1, nm_state := STATE_ERROR\<rparr>" "cs = call_back m None" "\<not> send"
      using step asking t(3,6) by (auto simp: entry_step_def)
    then show ?thesis using asking old(1) t(2)
      by (simp add: kept_def active_def pending_def entry_ok_def w) (simp add: waits_def)
  next
    case again
    then have m': "m' = m\<lparr>nm_tmr := nm_retries m + 1, nm_retries := nm_retries m + 1\<rparr>" "cs = []" "send"
      using step asking t(3,6) by (auto simp: entry_step_def)
    have "0 < nm_retries m + 1" "nm_retries m + 1 < 8"
      using again(2) t(4) by (simp_all add: word_less_nat_alt)
    then have "entry_ok m'" using old(1) by (simp add: m' entry_ok_def)
    moreover have "waits m' < waits m"
      using waits_step [OF again(2)] again(1) t(4) by (simp add: w) (simp add: waits_def asking m')
    ultimately show ?thesis using asking m' by (simp add: kept_def active_def pending_def call_back_def split: option.split)
  qed
next
  case False
  have "(\<Sum>k \<in> {Suc 0..7}. k) = (28 :: nat)" by (simp add: sum.atLeast_Suc_atMost eval_nat_numeral)
  with False show ?thesis using step ok
    by (auto simp: entry_step_def kept_def active_def pending_def call_back_def entry_ok_def waits_def split: if_splits option.splits)
qed

lemma pending_Cons: "pending (m # ms) = pending [m] + pending ms"
  by (simp add: pending_def)

lemma periodic_loop_spec:
  assumes "\<forall>m \<in> set ms. entry_ok m" "periodic_loop ipv6 i ms = (ms', cs, q)"
  shows "list_all2 kept ms ms' \<and> mset cs + pending ms' = pending ms \<and>
    (if \<exists>m \<in> set ms. active m then (\<Sum>m \<leftarrow> ms'. waits m) < (\<Sum>m \<leftarrow> ms. waits m) else ms' = ms \<and> cs = [] \<and> q = None)"
  using assms
proof (induction ms arbitrary: i ms' cs q)
  case Nil
  then show ?case by (simp add: pending_def)
next
  case (Cons m ms)
  obtain m1 c1 send where st: "entry_step m = (m1, c1, send)" by (cases "entry_step m")
  have "entry_ok m" using Cons.prems(1) by simp
  from entry_step_spec [OF this st] have one: "kept m m1" "mset c1 + pending [m1] = pending [m]"
    "if active m then waits m1 < waits m else m1 = m" "send \<longrightarrow> active m \<and> c1 = []" by simp_all
  show ?case
  proof (cases send)
    case True
    then have "ms' = m1 # ms" "cs = []" using Cons.prems(2) st by (auto simp: periodic_loop_Cons Let_def)
    then show ?thesis using one True pending_Cons [of m ms] pending_Cons [of m1 ms]
      by (auto simp: list.rel_refl kept_refl)
  next
    case False
    obtain ms2 c2 q2 where l: "periodic_loop ipv6 (i + 1) ms = (ms2, c2, q2)" by (cases "periodic_loop ipv6 (i + 1) ms")
    have out: "ms' = m1 # ms2" "cs = c1 @ c2" "q = q2" using Cons.prems(2) st l False by (simp_all add: periodic_loop_Cons)
    have IH: "list_all2 kept ms ms2" "mset c2 + pending ms2 = pending ms"
      "if \<exists>m \<in> set ms. active m then (\<Sum>m \<leftarrow> ms2. waits m) < (\<Sum>m \<leftarrow> ms. waits m) else ms2 = ms \<and> c2 = [] \<and> q2 = None"
      using Cons.IH [OF _ l] Cons.prems(1) by simp_all
    have "mset cs + pending ms' = (mset c1 + pending [m1]) + (mset c2 + pending ms2)"
      using pending_Cons [of m1 ms2] by (simp add: out ac_simps)
    also have "\<dots> = pending (m # ms)" using one(2) IH(2) pending_Cons [of m ms] by (simp add: ac_simps)
    finally have "mset cs + pending ms' = pending (m # ms)" .
    moreover have "c1 = []" if "\<not> active m"
      using that st by (auto simp: entry_step_def active_def split: if_splits)
    ultimately show ?thesis using one(1,3) IH(1,3) by (auto simp: out split: if_splits)
  qed
qed

lemma waits_bound:
  assumes "entry_ok m"
  shows "waits m \<le> 30"
proof (cases "nm_state m = STATE_ASKING")
  case True
  have r: "unat (nm_retries m) \<in> {0, 1, 2, 3, 4, 5, 6, 7}" using entry_tick(5) [OF assms True] by auto
  have "nm_tmr m \<le> max 1 (nm_retries m)" using assms True by (simp add: entry_ok_def)
  then have "unat (nm_tmr m) \<le> max 1 (unat (nm_retries m))" by (auto simp: word_le_nat_alt max_def split: if_splits)
  with r show ?thesis using True by (auto simp: waits_def sum.atLeast_Suc_atMost)
qed (auto simp: waits_def split: dns_state.splits)

section \<open>The invariant\<close>

lemma query_entry_lt: "i + length ms \<le> n \<Longrightarrow> lseqi < n \<Longrightarrow> query_entry sq ms i lseq lseqi < n"
  by (induction ms arbitrary: i lseq lseqi) auto

lemma periodic_ok: "resolv_ok s \<Longrightarrow> resolv_ok (snd (resolv_periodic ipv6 s))"
proof -
  assume ok: "resolv_ok s"
  obtain ms cs q where l: "periodic_loop ipv6 0 (names s) = (ms, cs, q)" by (cases "periodic_loop ipv6 0 (names s)")
  have "list_all2 kept (names s) ms" using periodic_loop_spec [OF _ l] ok by (simp add: resolv_ok_def)
  then have "length ms = length (names s)" "\<forall>m' \<in> set ms. \<exists>m \<in> set (names s). kept m m'"
    by (auto dest: list_all2_lengthD simp: in_set_conv_nth list_all2_conv_all_nth) (metis nth_mem)
  then show ?thesis using ok l by (auto simp: resolv_ok_def resolv_periodic_def kept_def)
qed

lemma update_ok:
  assumes "resolv_ok s" "entry_ok m" "names s' = (names s)[i := m]"
  shows "resolv_ok s'"
  using assms set_update_subset_insert [of "names s" i m] by (auto simp: resolv_ok_def)

lemma newdata_ok: "resolv_ok s \<Longrightarrow> resolv_newdata ipv6 buf s = Some s' \<Longrightarrow> resolv_ok s'"
proof -
  assume ok: "resolv_ok s" and run: "resolv_newdata ipv6 buf s = Some s'"
  have nm: "length (nm_name (names s ! i)) < 32" if "i < length (names s)" for i
    using ok that by (auto simp: resolv_ok_def entry_ok_def)
  from run consider "s' = s"
    | i m where "i < length (names s)" "names s' = (names s)[i := m]" "nm_name m = nm_name (names s ! i)"
        "nm_state m = STATE_DONE \<or> nm_state m = STATE_ERROR"
    by (fastforce simp: resolv_newdata_def Let_def split: option.splits if_splits bind_splits)
  then show ?thesis
  proof cases
    case 2
    then have "entry_ok m" using nm by (auto simp: entry_ok_def)
    then show ?thesis using update_ok [OF ok] 2(2) by blast
  qed (simp add: ok)
qed

lemma query_ok: "resolv_ok s \<Longrightarrow> resolv_query name callback s = Some s' \<Longrightarrow> resolv_ok s'"
  by (rule update_ok [of s "(names s ! query_entry (seqno s) (names s) 0 0 0)\<lparr>nm_name := name, nm_state := STATE_NEW,
      nm_seqno := seqno s, nm_callback := callback\<rparr>"])
    (auto simp: resolv_query_def Let_def entry_ok_def split: if_splits)

lemma reachable_ok: "resolv_reachable ipv6 s \<Longrightarrow> resolv_ok s"
proof (induction rule: resolv_reachable.induct)
  case start
  show ?case by (simp add: resolv_init_def resolv_conf_def Let_def resolv_start_def resolv_ok_def entry_ok_def)
next
  case (query s name callback s')
  then show ?case using query_ok by blast
next
  case (conf s free dnsserver)
  then show ?case by (simp add: resolv_ok_def resolv_conf_def Let_def)
next
  case (net s poll newdata buf q s')
  then have "resolv_ok (if poll then snd (resolv_periodic ipv6 s) else s)" by (simp add: periodic_ok)
  then show ?case using net(2) newdata_ok
    by (auto simp: dns_net_main_def Let_def split: if_splits prod.splits)
qed

section \<open>Properties\<close>

definition polls :: "bool \<Rightarrow> nat \<Rightarrow> 'c resolv \<Rightarrow> 'c resolv" where
  "polls ipv6 n s = ((\<lambda>s. snd (resolv_periodic ipv6 s)) ^^ n) s"

lemma polls_Suc: "polls ipv6 (Suc n) s = snd (resolv_periodic ipv6 (polls ipv6 n s))"
  by (simp add: polls_def)

lemma polls_spec:
  assumes "resolv_ok s"
  shows "resolv_ok (polls ipv6 n s) \<and> list_all2 kept (names s) (names (polls ipv6 n s)) \<and>
    mset (calls (polls ipv6 n s)) + pending (names (polls ipv6 n s)) = mset (calls s) + pending (names s) \<and>
    ((\<exists>m \<in> set (names (polls ipv6 n s)). active m) \<longrightarrow> (\<Sum>m \<leftarrow> names (polls ipv6 n s). waits m) + n \<le> (\<Sum>m \<leftarrow> names s. waits m))"
proof (induction n)
  case 0
  show ?case using assms by (simp add: polls_def list.rel_refl kept_refl)
next
  case (Suc n)
  let ?s = "polls ipv6 n s"
  obtain ms cs q where l: "periodic_loop ipv6 0 (names ?s) = (ms, cs, q)" by (cases "periodic_loop ipv6 0 (names ?s)")
  have ok: "resolv_ok ?s" using Suc by simp
  then have e: "\<forall>m \<in> set (names ?s). entry_ok m" by (simp add: resolv_ok_def)
  note p = periodic_loop_spec [OF e l]
  have nx: "names (polls ipv6 (Suc n) s) = ms" "calls (polls ipv6 (Suc n) s) = calls ?s @ cs"
    using l by (simp_all add: polls_Suc resolv_periodic_def)
  have "list_all2 kept (names s) ms" using Suc p list_all2_trans [of kept kept kept] kept_trans by blast
  moreover have "mset (calls ?s @ cs) + pending ms = mset (calls s) + pending (names s)"
  proof -
    have "mset (calls ?s @ cs) + pending ms = mset (calls ?s) + (mset cs + pending ms)" by simp
    also have "\<dots> = mset (calls s) + pending (names s)" using p Suc by simp
    finally show ?thesis .
  qed
  moreover have "(\<Sum>m \<leftarrow> ms. waits m) + Suc n \<le> (\<Sum>m \<leftarrow> names s. waits m)" if act: "\<exists>m \<in> set ms. active m"
  proof -
    have "\<exists>m \<in> set (names ?s). active m" using act p by (auto split: if_splits)
    then show ?thesis using p Suc by auto
  qed
  moreover have "resolv_ok (polls ipv6 (Suc n) s)" unfolding polls_Suc by (rule periodic_ok [OF ok])
  ultimately show ?case by (simp only: nx) blast
qed

text \<open>
  C18. The resolver never hangs: if no answer comes, every name asked for is given up after a bounded
  number of polls, whatever else is in the table.  After 30 polls for each entry nothing is left
  to ask for, each entry that was pending is in the error state, and exactly one call with no
  address has been made for each of those that has a callback.
\<close>

theorem resolv_gives_up:
  assumes "resolv_reachable ipv6 s" "30 * RESOLV_ENTRIES \<le> n"
  shows "list_all2 (\<lambda>m m'. if active m then nm_state m' = STATE_ERROR \<and> nm_name m' = nm_name m else m' = m)
      (names s) (names (polls ipv6 n s)) \<and>
    mset (calls (polls ipv6 n s)) =
      mset (calls s) + (\<Sum>m \<leftarrow> names s. if active m then mset (call_back m None) else {#})"
proof -
  have ok: "resolv_ok s" by (rule reachable_ok [OF assms(1)])
  note p = polls_spec [OF ok, of ipv6 n]
  have "(\<Sum>m \<leftarrow> names s. waits m) \<le> (\<Sum>m \<leftarrow> names s. 30)"
    using ok by (intro sum_list_mono waits_bound) (simp add: resolv_ok_def)
  also have "\<dots> = 30 * RESOLV_ENTRIES" using ok by (simp add: sum_list_triv resolv_ok_def)
  finally have small: "(\<Sum>m \<leftarrow> names s. waits m) \<le> n" using assms(2) by simp
  have none: "\<not> active m" if m: "m \<in> set (names (polls ipv6 n s))" for m
  proof
    assume act: "active m"
    then have "(\<Sum>m \<leftarrow> names (polls ipv6 n s). waits m) + n \<le> (\<Sum>m \<leftarrow> names s. waits m)" using p m by blast
    then have "(\<Sum>m \<leftarrow> names (polls ipv6 n s). waits m) = 0" using small by linarith
    then have "waits m = 0" using m by simp
    moreover have "entry_ok m" using p m by (simp add: resolv_ok_def)
    ultimately show False using act by (auto simp: waits_def active_def entry_ok_def unat_eq_zero)
  qed
  have "list_all2 (\<lambda>m m'. if active m then nm_state m' = STATE_ERROR \<and> nm_name m' = nm_name m else m' = m)
      (names s) (names (polls ipv6 n s))"
    using p none by (auto simp: list_all2_conv_all_nth kept_def)
  moreover have "pending (names (polls ipv6 n s)) = {#}"
    using none by (simp add: pending_def cong: map_cong)
  ultimately show ?thesis using p by (simp add: pending_def)
qed

definition boot_entry :: "'c namemap" where
  "boot_entry = \<lparr>nm_state = STATE_DONE, nm_tmr = 0, nm_retries = 0, nm_seqno = 0, nm_err = 0, nm_name = [],
    nm_ipaddr = [0, 0, 0, 0], nm_callback = None\<rparr>"

lemma boot: "resolv_init True [10, 0, 0, 1] (resolv_start False) = \<lparr>names = [boot_entry, boot_entry, boot_entry, boot_entry], seqno = 0, calls = [], resolv_conn = Some [10, 0, 0, 1]\<rparr>"
  by (simp add: resolv_init_def resolv_conf_def Let_def resolv_start_def boot_entry_def RESOLV_ENTRIES_def DNS_RECORD_ADDR_LEN_def replicate_4)

lemma example_query:
  assumes "length name < 32"
  shows "resolv_query name (Some c) (resolv_init True [10, 0, 0, 1] (resolv_start False)) = Some
    \<lparr>names = [boot_entry\<lparr>nm_name := name, nm_state := STATE_NEW, nm_callback := Some c\<rparr>, boot_entry, boot_entry, boot_entry],
      seqno = 1, calls = [], resolv_conn = Some [10, 0, 0, 1]\<rparr>"
  using assms unfolding boot by (simp add: resolv_query_def boot_entry_def Let_def)

theorem resolv_gives_up_witness:
  "\<exists>s :: nat resolv. resolv_query [97] (Some 7) (resolv_init True [10, 0, 0, 1] (resolv_start False)) = Some s \<and>
    nm_state (names (polls False 120 s) ! 0) = STATE_ERROR \<and> calls (polls False 120 s) = [(7, [97], None)]"
proof -
  define m :: "nat namemap" where "m = boot_entry\<lparr>nm_name := [97], nm_state := STATE_NEW, nm_callback := Some 7\<rparr>"
  define s where "s = \<lparr>names = [m, boot_entry, boot_entry, boot_entry], seqno = 1, calls = [], resolv_conn = Some [10, 0, 0, 1]\<rparr>"
  have q: "resolv_query [97] (Some 7) (resolv_init True [10, 0, 0, 1] (resolv_start False)) = Some s"
    using example_query [of "[97]" 7] by (simp add: s_def m_def)
  have n: "30 * RESOLV_ENTRIES \<le> 120" by (simp add: RESOLV_ENTRIES_def)
  note t = resolv_gives_up [OF resolv_reachable.query [OF resolv_reachable.start q] n]
  have act: "active m" "\<not> active (boot_entry :: nat namemap)" "call_back m None = [(7, [97], None)]"
    by (simp_all add: m_def boot_entry_def active_def call_back_def)
  have "mset (calls (polls False 120 s)) = {#(7, [97], None)#}" using t act by (simp add: s_def)
  then have "calls (polls False 120 s) = [(7, [97], None)]" by simp
  moreover have "nm_state (names (polls False 120 s) ! 0) = STATE_ERROR"
    using t act by (auto simp: s_def list_all2_Cons1)
  ultimately show ?thesis using q by blast
qed

text \<open>
  C26. A reply to a pending question is understood: whatever records come before it - aliases, for
  instance - the first address record among the answers becomes the entry's address, the entry's
  callback is called with it, once, and looking the name up gives it from then on, unless an
  earlier entry has the same name.  Nothing else changes.
\<close>

theorem resolv_understands_reply:
  assumes d: "message_ok d" and i: "i < length (names s)" "length (names s) \<le> 256" "nm_state (names s ! i) = STATE_ASKING"
    and r: "find (rr_address ipv6) (msg_answers d) = Some r"
    and first: "\<forall>j < i. nm_state (names s ! j) = STATE_DONE \<longrightarrow> nm_name (names s ! j) \<noteq> nm_name (names s ! i)"
  shows "\<exists>s'. resolv_newdata ipv6 (dns_reply i d) s = Some s' \<and>
    calls s' = calls s @ call_back (names s ! i) (Some (rr_data r)) \<and>
    resolv_lookup (nm_name (names s ! i)) s' = Some (rr_data r) \<and>
    nm_state (names s' ! i) = STATE_DONE \<and> (\<forall>j. j \<noteq> i \<longrightarrow> names s' ! j = names s ! j)"
proof -
  have i256: "i < 256" using i by simp
  define m where "m = (names s ! i)\<lparr>nm_state := STATE_DONE, nm_err := 0, nm_ipaddr := rr_data r\<rparr>"
  let ?s = "s\<lparr>names := (names s)[i := m], calls := calls s @ call_back (names s ! i) (Some (rr_data r))\<rparr>"
  have "resolv_newdata ipv6 (dns_reply i d) s = Some ?s"
    unfolding newdata_reply [OF d i256 i(1,3)] r by (simp add: m_def Let_def call_back_def split: option.split)
  moreover have "resolv_lookup (nm_name (names s ! i)) ?s = Some (rr_data r)"
  proof -
    have "find (\<lambda>m. nm_state m = STATE_DONE \<and> nm_name (names s ! i) = nm_name m) ((names s)[i := m]) = Some m"
      unfolding find_Some_iff using i(1) first by (intro exI [of _ i]) (auto simp: m_def)
    then show ?thesis by (simp add: resolv_lookup_def m_def)
  qed
  ultimately show ?thesis using i(1) by (intro exI [of _ ?s]) (simp add: m_def)
qed

text \<open>
  A reply without any address among its answers - an alias alone, for instance - finishes the
  entry as if it had been resolved: no callback is ever made, and looking the name up gives the
  address the entry last held, of whatever name that was.
\<close>

theorem resolv_reply_without_address:
  assumes d: "message_ok d" and i: "i < length (names s)" "length (names s) \<le> 256" "nm_state (names s ! i) = STATE_ASKING"
    and r: "find (rr_address ipv6) (msg_answers d) = None"
    and first: "\<forall>j < i. nm_state (names s ! j) = STATE_DONE \<longrightarrow> nm_name (names s ! j) \<noteq> nm_name (names s ! i)"
  shows "\<exists>s'. resolv_newdata ipv6 (dns_reply i d) s = Some s' \<and> calls s' = calls s \<and>
    \<not> active (names s' ! i) \<and> resolv_lookup (nm_name (names s ! i)) s' = Some (nm_ipaddr (names s ! i))"
proof -
  have i256: "i < 256" using i by simp
  define m where "m = (names s ! i)\<lparr>nm_state := STATE_DONE, nm_err := 0\<rparr>"
  let ?s = "s\<lparr>names := (names s)[i := m]\<rparr>"
  have "resolv_newdata ipv6 (dns_reply i d) s = Some ?s"
    unfolding newdata_reply [OF d i256 i(1,3)] r by (simp add: m_def Let_def)
  moreover have "resolv_lookup (nm_name (names s ! i)) ?s = Some (nm_ipaddr (names s ! i))"
  proof -
    have "find (\<lambda>m. nm_state m = STATE_DONE \<and> nm_name (names s ! i) = nm_name m) ((names s)[i := m]) = Some m"
      unfolding find_Some_iff using i(1) first by (intro exI [of _ i]) (auto simp: m_def)
    then show ?thesis by (simp add: resolv_lookup_def m_def)
  qed
  ultimately show ?thesis using i(1) by (intro exI [of _ ?s]) (simp add: m_def active_def)
qed

text \<open>An alias and an address for the name made of the byte 97, and the question pending.\<close>

definition alias_rr :: dns_rr where
  "alias_rr = \<lparr>rr_labels = [], rr_tail = [0xC0, 12], rr_type = 5, rr_class = 1, rr_ttl = [0, 0, 0, 1], rr_data = [1, 98, 0]\<rparr>"

definition address_rr :: dns_rr where
  "address_rr = \<lparr>rr_labels = [[98]], rr_tail = [0], rr_type = 1, rr_class = 1, rr_ttl = [0, 0, 0, 1], rr_data = [10, 0, 0, 7]\<rparr>"

definition example_message :: "dns_rr list \<Rightarrow> dns_message" where
  "example_message rrs = \<lparr>msg_flags1 = 0x81, msg_flags2 = 0x80, msg_counts = [0, 0, 0, 0], msg_labels = [[97]],
    msg_tail = [0], msg_asked = [0, 1, 0, 1], msg_answers = rrs, msg_rest = []\<rparr>"

definition asking :: "nat resolv" where
  "asking = \<lparr>names = [boot_entry\<lparr>nm_name := [97], nm_state := STATE_ASKING, nm_tmr := 1, nm_callback := Some 7\<rparr>,
     boot_entry, boot_entry, boot_entry], seqno = 1, calls = [], resolv_conn = Some [10, 0, 0, 1]\<rparr>"

lemma example_ok: "message_ok (example_message [alias_rr, address_rr])" "message_ok (example_message [alias_rr])"
  by (simp_all add: message_ok_def example_message_def rr_ok_def name_ok_def alias_rr_def address_rr_def
      DNS_FLAG2_ERR_MASK_def)

lemma example_find: "find (rr_address False) (msg_answers (example_message [alias_rr, address_rr])) = Some address_rr"
  "find (rr_address False) (msg_answers (example_message [alias_rr])) = None"
  by (simp_all add: example_message_def rr_address_def alias_rr_def address_rr_def DNS_RECORD_ADDR_TYPE_def
      DNS_RECORD_ADDR_LEN_def)

lemma asking: "0 < length (names asking)" "length (names asking) \<le> 256" "nm_state (names asking ! 0) = STATE_ASKING"
  "\<forall>j < 0. nm_state (names asking ! j) = STATE_DONE \<longrightarrow> nm_name (names asking ! j) \<noteq> nm_name (names asking ! 0)"
  "nm_name (names asking ! 0) = [97]" "nm_ipaddr (names asking ! 0) = [0, 0, 0, 0]"
  "calls asking = []" "call_back (names asking ! 0) ip = [(7, [97], ip)]"
  by (simp_all add: asking_def boot_entry_def call_back_def)

theorem resolv_understands_reply_witness:
  "\<exists>s'. resolv_newdata False (dns_reply 0 (example_message [alias_rr, address_rr])) asking = Some s' \<and>
    calls s' = [(7, [97], Some [10, 0, 0, 7])] \<and> resolv_lookup [97] s' = Some [10, 0, 0, 7]"
  using resolv_understands_reply [OF example_ok(1) asking(1-3) example_find(1) asking(4)]
  by (auto simp: asking(5,7,8) address_rr_def)

theorem resolv_reply_without_address_witness:
  "\<exists>s'. resolv_newdata False (dns_reply 0 (example_message [alias_rr])) asking = Some s' \<and>
    calls s' = [] \<and> resolv_lookup [97] s' = Some [0, 0, 0, 0]"
  using resolv_reply_without_address [OF example_ok(2) asking(1-3) example_find(2) asking(4)]
  by (auto simp: asking(5-7))

text \<open>
  After the start the table is full: resolv_init marks every entry as done, not as unused, and all
  have the same age.  Of two names asked for one after the other the second takes the entry of
  the first, which is forgotten without having been asked for and without a call.
\<close>

theorem resolv_second_query_drops_first:
  assumes "length a < 32" "length b < 32" "a \<noteq> b" "a \<noteq> []"
  shows "\<exists>s s'. resolv_query a ca (resolv_init True [10, 0, 0, 1] (resolv_start False)) = Some s \<and> resolv_query b cb s = Some s' \<and>
    calls s' = [] \<and> (\<forall>m \<in> set (names s'). nm_name m \<noteq> a)"
  using assms unfolding boot by (simp add: resolv_query_def boot_entry_def Let_def)

theorem resolv_second_query_drops_first_witness:
  "\<exists>s s'. resolv_query [97] (Some (7 :: nat)) (resolv_init True [10, 0, 0, 1] (resolv_start False)) = Some s \<and> resolv_query [98] None s = Some s' \<and>
    (\<forall>m \<in> set (names s'). nm_name m \<noteq> [97])"
  using resolv_second_query_drops_first [of "[97]" "[98]" "Some (7 :: nat)" None] by auto

end
