(* ===== verification/Arp.thy ===== *)
theory Arp imports Prelude begin

text \<open>
  Address resolution: the ARP table and packets (protocols/uip/uip_arp.c) and the table of IPv6
  neighbours (protocols/uip/uip_neighbor.c).

  Addresses are their bytes in network order; \<open>uip_buf\<close> is the list of its bytes, into which the
  headers are laid at the offsets of \<open>struct arp_hdr\<close> and \<open>struct ethip_hdr\<close>.  The addresses of the
  host and the build options are a configuration record.
\<close>

section \<open>The ARP table\<close>

definition UIP_ARP_MAXAGE :: int where "UIP_ARP_MAXAGE = 120"

record arp_entry =
  ae_ipaddr :: "u8 list"
  ae_ethaddr :: "u8 list"
  ae_time :: u8

record arp_state =
  arp_table :: "arp_entry list"
  arptime :: u8

record arp_cfg =
  uip_hostaddr :: "u8 list"
  uip_netmask :: "u8 list"
  uip_draddr :: "u8 list"
  uip_ethaddr :: "u8 list"
  arp_proxies :: "(u8 list \<times> u8 list) list"
  mdns_sd :: bool

text \<open>The two halves of an address as C compares them with zero.\<close>

definition half_zero :: "u8 list \<Rightarrow> nat \<Rightarrow> bool" where
  "half_zero ip k \<longleftrightarrow> slice (2 * k) 2 ip = [0, 0]"

definition uip_arp_init :: "arp_state \<Rightarrow> arp_state" where
  "uip_arp_init s = s\<lparr>arp_table := map (\<lambda>e. e\<lparr>ae_ipaddr := [0, 0, 0, 0]\<rparr>) (arp_table s)\<rparr>"

definition uip_arp_timer :: "arp_state \<Rightarrow> arp_state" where
  "uip_arp_timer s =
    (let s = s\<lparr>arptime := arptime s + 1\<rparr>
     in s\<lparr>arp_table := map (\<lambda>e.
          if \<not> (half_zero (ae_ipaddr e) 0 \<and> half_zero (ae_ipaddr e) 1) \<and>
             int (unat (arptime s)) - int (unat (ae_time e)) \<ge> UIP_ARP_MAXAGE
          then e\<lparr>ae_ipaddr := [0, 0, 0, 0]\<rparr> else e) (arp_table s)\<rparr>)"

text \<open>The oldest entry; the age is cut to eight bits when it is stored.\<close>

fun arp_oldest :: "u8 \<Rightarrow> arp_entry list \<Rightarrow> nat \<Rightarrow> u8 \<Rightarrow> nat \<Rightarrow> nat" where
  "arp_oldest now [] i tmpage c = c"
| "arp_oldest now (e # es) i tmpage c =
    (if int (unat now) - int (unat (ae_time e)) > int (unat tmpage)
     then arp_oldest now es (i + 1) (now - ae_time e) i
     else arp_oldest now es (i + 1) tmpage c)"

definition uip_arp_update :: "u8 list \<Rightarrow> u8 list \<Rightarrow> arp_state \<Rightarrow> arp_state" where
  "uip_arp_update ip ethaddr s =
    (let t = arp_table s in
     case find (\<lambda>i. \<not> half_zero (ae_ipaddr (t ! i)) 0 \<and> \<not> half_zero (ae_ipaddr (t ! i)) 1 \<and> ip = ae_ipaddr (t ! i))
         [0..<length t] of
       Some i \<Rightarrow> s\<lparr>arp_table := t[i := (t ! i)\<lparr>ae_ethaddr := ethaddr, ae_time := arptime s\<rparr>]\<rparr>
     | None \<Rightarrow>
         let i = (case find (\<lambda>i. half_zero (ae_ipaddr (t ! i)) 0 \<and> half_zero (ae_ipaddr (t ! i)) 1) [0..<length t] of
                    Some i \<Rightarrow> i
                  | None \<Rightarrow> arp_oldest (arptime s) t 0 0 0)
         in s\<lparr>arp_table := t[i := \<lparr>ae_ipaddr = ip, ae_ethaddr = ethaddr, ae_time = arptime s\<rparr>]\<rparr>)"

definition uip_arp_lookup :: "u8 list \<Rightarrow> arp_state \<Rightarrow> arp_entry option" where
  "uip_arp_lookup ip s = find (\<lambda>e. ip = ae_ipaddr e) (arp_table s)"

section \<open>Packets\<close>

definition sizeof_arp_hdr :: nat where "sizeof_arp_hdr = 42"
definition sizeof_eth_hdr :: nat where "sizeof_eth_hdr = 14"

definition uip_ipaddr_maskcmp :: "u8 list \<Rightarrow> u8 list \<Rightarrow> u8 list \<Rightarrow> bool" where
  "uip_ipaddr_maskcmp a b m \<longleftrightarrow> map2 (AND) a m = map2 (AND) b m"

definition uip_arp_ipin :: "arp_cfg \<Rightarrow> u8 list \<Rightarrow> arp_state \<Rightarrow> arp_state" where
  "uip_arp_ipin c uip_buf s =
    (let srcipaddr = slice 26 4 uip_buf
     in if uip_ipaddr_maskcmp srcipaddr (uip_hostaddr c) (uip_netmask c)
        then uip_arp_update srcipaddr (slice 6 6 uip_buf) s else s)"

text \<open>The results are the state, the buffer and \<open>uip_len\<close>.\<close>

definition uip_arp_arpin :: "arp_cfg \<Rightarrow> u8 list \<Rightarrow> nat \<Rightarrow> arp_state \<Rightarrow> arp_state \<times> u8 list \<times> nat" where
  "uip_arp_arpin c buf uip_len s =
    (if uip_len < sizeof_arp_hdr then (s, buf, 0)
     else
       let opcode = slice 20 2 buf; shwaddr = slice 22 6 buf; sipaddr = slice 28 4 buf; dipaddr = slice 38 4 buf
       in if opcode = [0, 1] then
            if dipaddr = uip_hostaddr c \<or> list_ex (\<lambda>(a, m). uip_ipaddr_maskcmp dipaddr a m) (arp_proxies c) then
              let s = uip_arp_update sipaddr shwaddr s;
                  buf = memcpy_at 20 [0, 2] buf;
                  buf = memcpy_at 32 shwaddr buf;
                  buf = memcpy_at 22 (uip_ethaddr c) buf;
                  buf = memcpy_at 6 (uip_ethaddr c) buf;
                  buf = memcpy_at 0 (slice 32 6 buf) buf;
                  buf = memcpy_at 38 sipaddr (memcpy_at 28 dipaddr buf);
                  buf = memcpy_at 12 [0x08, 0x06] buf
              in (s, buf, sizeof_arp_hdr)
            else (s, buf, 0)
          else if opcode = [0, 2] then
            (if dipaddr = uip_hostaddr c then uip_arp_update sipaddr shwaddr s else s, buf, 0)
          else (s, buf, 0))"

definition broadcast_of :: "arp_cfg \<Rightarrow> u8 list" where
  "broadcast_of c = map2 (\<lambda>a m. a OR NOT m) (uip_hostaddr c) (uip_netmask c)"

text \<open>The result says whether the packet has been replaced by a request, and gives the buffer and \<open>uip_len\<close>.\<close>

definition uip_arp_out :: "arp_cfg \<Rightarrow> arp_state \<Rightarrow> u8 list \<Rightarrow> nat \<Rightarrow> u8 \<times> u8 list \<times> nat" where
  "uip_arp_out c s buf uip_len =
    (let destipaddr = slice 30 4 buf;
         send = (\<lambda>dest.
           let buf = memcpy_at 0 dest buf; buf = memcpy_at 6 (uip_ethaddr c) buf; buf = memcpy_at 12 [0x08, 0x00] buf
           in (0, buf, uip_len + sizeof_eth_hdr))
     in if 224 \<le> destipaddr ! 0 \<and> destipaddr ! 0 \<le> 239
        then send [0x01, 0x00, 0x5e, destipaddr ! 1 AND 0x7f, destipaddr ! 2, destipaddr ! 3]
        else if destipaddr = broadcast_of c \<or> destipaddr = replicate 4 0xff then send (replicate 6 0xff)
        else if mdns_sd c \<and> destipaddr = [0xe0, 0x00, 0x00, 0xfb] then send (slice 0 6 buf)
        else
          let ipaddr = (if \<not> uip_ipaddr_maskcmp destipaddr (uip_hostaddr c) (uip_netmask c) then uip_draddr c else destipaddr)
          in case uip_arp_lookup ipaddr s of
               None \<Rightarrow>
                 let buf = memcpy_at 0 (replicate 6 0xff) buf;
                     buf = memcpy_at 32 (replicate 6 0x00) buf;
                     buf = memcpy_at 6 (uip_ethaddr c) buf;
                     buf = memcpy_at 22 (uip_ethaddr c) buf;
                     buf = memcpy_at 38 ipaddr buf;
                     buf = memcpy_at 28 (uip_hostaddr c) buf;
                     buf = memcpy_at 20 [0, 1] buf;
                     buf = memcpy_at 14 [0, 1] buf;
                     buf = memcpy_at 16 [0x08, 0x00] buf;
                     buf = memcpy_at 18 [6] buf;
                     buf = memcpy_at 19 [4] buf;
                     buf = memcpy_at 12 [0x08, 0x06] buf
                 in (1, buf, sizeof_arp_hdr)
             | Some tabptr \<Rightarrow> send (ae_ethaddr tabptr))"

section \<open>Neighbours\<close>

definition MAX_TIME :: u8 where "MAX_TIME = 128"

record neighbor_entry =
  ne_ipaddr :: "u8 list"
  ne_addr :: "u8 list"
  ne_time :: u8

definition uip_neighbor_init :: "neighbor_entry list \<Rightarrow> neighbor_entry list" where
  "uip_neighbor_init entries = map (\<lambda>e. e\<lparr>ne_time := MAX_TIME\<rparr>) entries"

definition uip_neighbor_periodic :: "neighbor_entry list \<Rightarrow> neighbor_entry list" where
  "uip_neighbor_periodic entries = map (\<lambda>e. if ne_time e < MAX_TIME then e\<lparr>ne_time := ne_time e + 1\<rparr> else e) entries"

text \<open>
  The choice of the entry.  The comparison is with as many bytes as an IP address has at the pointer
  \<open>addr\<close>, which points to the link address: \<open>behind\<close> is what the memory holds behind that.
\<close>

fun neighbor_slot :: "u8 list \<Rightarrow> neighbor_entry list \<Rightarrow> nat \<Rightarrow> u8 \<Rightarrow> nat \<Rightarrow> nat" where
  "neighbor_slot at_addr [] i oldest_time oldest = oldest"
| "neighbor_slot at_addr (e # es) i oldest_time oldest =
    (if ne_time e = MAX_TIME then i
     else if ne_ipaddr e = take (length (ne_ipaddr e)) at_addr then i
     else if ne_time e > oldest_time then neighbor_slot at_addr es (i + 1) (ne_time e) i
     else neighbor_slot at_addr es (i + 1) oldest_time oldest)"

definition uip_neighbor_add :: "u8 list \<Rightarrow> u8 list \<Rightarrow> u8 list \<Rightarrow> neighbor_entry list \<Rightarrow> neighbor_entry list" where
  "uip_neighbor_add behind ipaddr addr entries =
    entries[neighbor_slot (addr @ behind) entries 0 0 0 := \<lparr>ne_ipaddr = ipaddr, ne_addr = addr, ne_time = 0\<rparr>]"

definition find_entry :: "u8 list \<Rightarrow> neighbor_entry list \<Rightarrow> nat option" where
  "find_entry ipaddr entries = find (\<lambda>i. ne_ipaddr (entries ! i) = ipaddr) [0..<length entries]"

definition uip_neighbor_update :: "u8 list \<Rightarrow> neighbor_entry list \<Rightarrow> neighbor_entry list" where
  "uip_neighbor_update ipaddr entries =
    (case find_entry ipaddr entries of None \<Rightarrow> entries | Some i \<Rightarrow> entries[i := (entries ! i)\<lparr>ne_time := 0\<rparr>])"

definition uip_neighbor_lookup :: "u8 list \<Rightarrow> neighbor_entry list \<Rightarrow> u8 list option" where
  "uip_neighbor_lookup ipaddr entries = map_option (\<lambda>i. ne_addr (entries ! i)) (find_entry ipaddr entries)"

section \<open>The table keeps what it learns\<close>

definition ip_addr :: "u8 list \<Rightarrow> bool" where
  "ip_addr ip \<longleftrightarrow> length ip = 4 \<and> \<not> half_zero ip 0 \<and> \<not> half_zero ip 1"

definition unused :: "arp_entry \<Rightarrow> bool" where
  "unused e \<longleftrightarrow> half_zero (ae_ipaddr e) 0 \<and> half_zero (ae_ipaddr e) 1"

definition arp_ok :: "arp_state \<Rightarrow> bool" where
  "arp_ok s \<longleftrightarrow> arp_table s \<noteq> [] \<and> (\<forall>e \<in> set (arp_table s). unused e \<or> ip_addr (ae_ipaddr e)) \<and>
     (\<forall>i<length (arp_table s). \<forall>j<length (arp_table s).
        ip_addr (ae_ipaddr (arp_table s ! i)) \<longrightarrow> ae_ipaddr (arp_table s ! i) = ae_ipaddr (arp_table s ! j) \<longrightarrow> i = j)"

definition arp_addr :: "u8 list \<Rightarrow> arp_state \<Rightarrow> u8 list option" where
  "arp_addr ip s = map_option ae_ethaddr (uip_arp_lookup ip s)"

lemma unused_not_addr [simp]: "unused e \<Longrightarrow> \<not> ip_addr (ae_ipaddr e)"
  by (simp add: unused_def ip_addr_def)

lemma addr_halves: "ip_addr ip \<Longrightarrow> \<not> half_zero ip 0 \<and> \<not> half_zero ip 1"
  by (simp add: ip_addr_def)

lemma zeros_unused [simp]: "unused (e\<lparr>ae_ipaddr := [0, 0, 0, 0]\<rparr>)"
  by (simp add: unused_def half_zero_def slice_def)

lemma zeros_unused_entry [simp]: "unused \<lparr>ae_ipaddr = [0, 0, 0, 0], ae_ethaddr = m, ae_time = t\<rparr>"
  by (simp add: unused_def half_zero_def slice_def)

lemma not_addr_zeros [simp]: "\<not> ip_addr [0, 0, 0, 0]"
  by (simp add: ip_addr_def half_zero_def slice_def)

lemma arp_ok_unique:
  "arp_ok s \<Longrightarrow> ip_addr ip \<Longrightarrow> i < length (arp_table s) \<Longrightarrow> j < length (arp_table s) \<Longrightarrow>
    ae_ipaddr (arp_table s ! i) = ip \<Longrightarrow> ae_ipaddr (arp_table s ! j) = ip \<Longrightarrow> i = j"
  unfolding arp_ok_def by metis

lemma arp_ok_entry: "arp_ok s \<Longrightarrow> i < length (arp_table s) \<Longrightarrow> unused (arp_table s ! i) \<or> ip_addr (ae_ipaddr (arp_table s ! i))"
  by (simp add: arp_ok_def)

lemma arp_okI:
  assumes "arp_table s \<noteq> []"
    "\<And>i. i < length (arp_table s) \<Longrightarrow> unused (arp_table s ! i) \<or> ip_addr (ae_ipaddr (arp_table s ! i))"
    "\<And>i j. i < length (arp_table s) \<Longrightarrow> j < length (arp_table s) \<Longrightarrow> ip_addr (ae_ipaddr (arp_table s ! i)) \<Longrightarrow>
       ae_ipaddr (arp_table s ! i) = ae_ipaddr (arp_table s ! j) \<Longrightarrow> i = j"
  shows "arp_ok s"
  unfolding arp_ok_def using assms by (metis in_set_conv_nth)

lemma arp_addr_iff:
  assumes "arp_ok s" "ip_addr ip"
  shows "arp_addr ip s = Some m \<longleftrightarrow>
    (\<exists>i<length (arp_table s). ae_ipaddr (arp_table s ! i) = ip \<and> ae_ethaddr (arp_table s ! i) = m)"
proof
  assume "arp_addr ip s = Some m"
  then show "\<exists>i<length (arp_table s). ae_ipaddr (arp_table s ! i) = ip \<and> ae_ethaddr (arp_table s ! i) = m"
    by (auto simp: arp_addr_def uip_arp_lookup_def find_Some_iff)
next
  assume "\<exists>i<length (arp_table s). ae_ipaddr (arp_table s ! i) = ip \<and> ae_ethaddr (arp_table s ! i) = m"
  then obtain i where i: "i < length (arp_table s)" "ae_ipaddr (arp_table s ! i) = ip"
    "ae_ethaddr (arp_table s ! i) = m" by blast
  have "uip_arp_lookup ip s = Some (arp_table s ! i)"
    unfolding uip_arp_lookup_def find_Some_iff
    using i arp_ok_unique [OF assms i(1)] by (intro exI [of _ i]) (metis less_irrefl less_trans)
  with i show "arp_addr ip s = Some m" by (simp add: arp_addr_def)
qed

lemma arp_addr_None:
  "arp_addr ip s = None \<longleftrightarrow> (\<forall>i<length (arp_table s). ae_ipaddr (arp_table s ! i) \<noteq> ip)"
  by (auto simp: arp_addr_def uip_arp_lookup_def find_None_iff in_set_conv_nth)

lemma arp_oldest_bound: "c < i + length es \<Longrightarrow> arp_oldest now es i a c < i + length es"
proof (induction es arbitrary: i a c)
  case (Cons e es)
  have "arp_oldest now es (i + 1) a' c' < (i + 1) + length es" if "c' < (i + 1) + length es" for a' c'
    by (rule Cons.IH [OF that])
  from this [of c] this [of i "now - ae_time e"] Cons.prems show ?case by simp
qed simp

lemma find_index_Some: "find (\<lambda>i. P (xs ! i)) [0..<length xs] = Some k \<Longrightarrow> k < length xs \<and> P (xs ! k)"
  by (auto simp: find_Some_iff)

lemma arp_update_slot:
  assumes ok: "arp_ok s" and ip: "ip_addr ip"
  obtains i where "i < length (arp_table s)"
    "uip_arp_update ip m s = s\<lparr>arp_table := (arp_table s)[i := \<lparr>ae_ipaddr = ip, ae_ethaddr = m, ae_time = arptime s\<rparr>]\<rparr>"
    "\<And>j. j < length (arp_table s) \<Longrightarrow> ae_ipaddr (arp_table s ! j) = ip \<Longrightarrow> j = i"
proof -
  let ?t = "arp_table s"
  let ?P = "\<lambda>e. \<not> half_zero (ae_ipaddr e) 0 \<and> \<not> half_zero (ae_ipaddr e) 1 \<and> ip = ae_ipaddr e"
  show thesis
  proof (cases "find (\<lambda>i. ?P (?t ! i)) [0..<length ?t]")
    case (Some i)
    then have i: "i < length ?t" "?P (?t ! i)" using find_index_Some [of ?P] by blast+
    show thesis
    proof (rule that [of i])
      show "uip_arp_update ip m s = s\<lparr>arp_table := ?t[i := \<lparr>ae_ipaddr = ip, ae_ethaddr = m, ae_time = arptime s\<rparr>]\<rparr>"
        using Some i by (simp add: uip_arp_update_def Let_def) (cases "?t ! i", simp)
    next
      fix j assume "j < length ?t" "ae_ipaddr (?t ! j) = ip"
      then show "j = i" using arp_ok_unique [OF ok ip] i by simp
    qed (rule i)
  next
    case None
    then have no: "ae_ipaddr (?t ! j) \<noteq> ip" if "j < length ?t" for j
      using that addr_halves [OF ip] by (auto simp: find_None_iff)
    let ?i = "case find (\<lambda>i. half_zero (ae_ipaddr (?t ! i)) 0 \<and> half_zero (ae_ipaddr (?t ! i)) 1) [0..<length ?t] of
      Some i \<Rightarrow> i | None \<Rightarrow> arp_oldest (arptime s) ?t 0 0 0"
    have ne: "0 < 0 + length ?t" using ok by (simp add: arp_ok_def)
    have "?i < length ?t"
      using arp_oldest_bound [OF ne, of "arptime s" 0]
      by (auto split: option.split simp: find_Some_iff)
    moreover have "uip_arp_update ip m s = s\<lparr>arp_table := ?t[?i := \<lparr>ae_ipaddr = ip, ae_ethaddr = m, ae_time = arptime s\<rparr>]\<rparr>"
      using None by (simp add: uip_arp_update_def Let_def)
    ultimately show thesis using no by (blast intro: that)
  qed
qed

lemma arp_ok_update:
  assumes ok: "arp_ok s" and ip: "ip_addr ip"
  shows "arp_ok (uip_arp_update ip m s)"
proof -
  obtain i where i: "i < length (arp_table s)"
    "uip_arp_update ip m s = s\<lparr>arp_table := (arp_table s)[i := \<lparr>ae_ipaddr = ip, ae_ethaddr = m, ae_time = arptime s\<rparr>]\<rparr>"
    "\<And>j. j < length (arp_table s) \<Longrightarrow> ae_ipaddr (arp_table s ! j) = ip \<Longrightarrow> j = i"
    by (rule arp_update_slot [OF ok ip, of m]) blast
  show ?thesis
  proof (rule arp_okI)
    show "arp_table (uip_arp_update ip m s) \<noteq> []" using i by auto
  next
    fix j assume "j < length (arp_table (uip_arp_update ip m s))"
    then show "unused (arp_table (uip_arp_update ip m s) ! j) \<or> ip_addr (ae_ipaddr (arp_table (uip_arp_update ip m s) ! j))"
      using arp_ok_entry [OF ok] i ip by (auto simp: nth_list_update)
  next
    fix j k
    assume jk: "j < length (arp_table (uip_arp_update ip m s))" "k < length (arp_table (uip_arp_update ip m s))"
      "ip_addr (ae_ipaddr (arp_table (uip_arp_update ip m s) ! j))"
      "ae_ipaddr (arp_table (uip_arp_update ip m s) ! j) = ae_ipaddr (arp_table (uip_arp_update ip m s) ! k)"
    let ?a = "\<lambda>x. ae_ipaddr (arp_table s ! x)"
    have "ae_ipaddr (arp_table (uip_arp_update ip m s) ! x) = (if x = i then ip else ?a x)" for x
      using i(1,2) by (simp add: nth_list_update)
    with jk(3,4) have new: "ip_addr (if j = i then ip else ?a j)"
      "(if j = i then ip else ?a j) = (if k = i then ip else ?a k)" by metis+
    have l: "j < length (arp_table s)" "k < length (arp_table s)" using jk(1,2) i(2) by simp_all
    show "j = k"
    proof (cases "j = i \<or> k = i")
      case True
      with new i(3) l show ?thesis by metis
    next
      case False
      with new show ?thesis by (intro arp_ok_unique [OF ok _ l refl]) simp_all
    qed
  qed
qed

lemma arp_learn_same:
  assumes "arp_ok s" "ip_addr ip"
  shows "arp_addr ip (uip_arp_update ip m s) = Some m"
proof (rule arp_update_slot [OF assms, of m])
  fix i
  assume i: "i < length (arp_table s)"
    "uip_arp_update ip m s = s\<lparr>arp_table := (arp_table s)[i := \<lparr>ae_ipaddr = ip, ae_ethaddr = m, ae_time = arptime s\<rparr>]\<rparr>"
  show ?thesis unfolding arp_addr_iff [OF arp_ok_update [OF assms] assms(2)]
    by (rule exI [of _ i]) (simp add: i)
qed

lemma arp_learn_other:
  assumes "arp_ok s" "ip_addr ip" "ip_addr jp" "jp \<noteq> ip"
  shows "arp_addr jp (uip_arp_update ip m s) \<in> {None, arp_addr jp s}"
proof (cases "arp_addr jp (uip_arp_update ip m s)")
  case (Some m')
  obtain i where i: "i < length (arp_table s)"
    "uip_arp_update ip m s = s\<lparr>arp_table := (arp_table s)[i := \<lparr>ae_ipaddr = ip, ae_ethaddr = m, ae_time = arptime s\<rparr>]\<rparr>"
    by (rule arp_update_slot [OF assms(1,2), of m]) blast
  obtain k where k: "k < length (arp_table s)" "ae_ipaddr (arp_table (uip_arp_update ip m s) ! k) = jp"
    "ae_ethaddr (arp_table (uip_arp_update ip m s) ! k) = m'"
    using Some unfolding arp_addr_iff [OF arp_ok_update [OF assms(1,2)] assms(3)] by (auto simp: i(2))
  moreover have "k \<noteq> i" using k(1,2) assms(4) by (auto simp: i(2))
  ultimately have "arp_addr jp s = Some m'"
    unfolding arp_addr_iff [OF assms(1,3)] by (intro exI [of _ k]) (simp add: i(2))
  with Some show ?thesis by simp
qed simp

lemma arp_timer_table:
  "arp_table (uip_arp_timer s) = map (\<lambda>e. if \<not> unused e \<and> int (unat (arptime s + 1)) - int (unat (ae_time e)) \<ge> 120
     then e\<lparr>ae_ipaddr := [0, 0, 0, 0]\<rparr> else e) (arp_table s)"
  "arptime (uip_arp_timer s) = arptime s + 1"
  by (simp_all add: uip_arp_timer_def unused_def UIP_ARP_MAXAGE_def Let_def)

lemma arp_timer_nth:
  assumes "i < length (arp_table s)"
  shows "unused (arp_table (uip_arp_timer s) ! i) \<or> arp_table (uip_arp_timer s) ! i = arp_table s ! i"
  using assms by (simp add: arp_timer_table)

lemma arp_ok_timer:
  assumes ok: "arp_ok s"
  shows "arp_ok (uip_arp_timer s)"
proof (rule arp_okI)
  show "arp_table (uip_arp_timer s) \<noteq> []" using ok by (simp add: arp_ok_def arp_timer_table)
next
  fix j assume "j < length (arp_table (uip_arp_timer s))"
  then have "j < length (arp_table s)" by (simp add: arp_timer_table)
  then show "unused (arp_table (uip_arp_timer s) ! j) \<or> ip_addr (ae_ipaddr (arp_table (uip_arp_timer s) ! j))"
    using arp_ok_entry [OF ok] arp_timer_nth by metis
next
  fix j k
  assume "j < length (arp_table (uip_arp_timer s))" "k < length (arp_table (uip_arp_timer s))"
    and addr: "ip_addr (ae_ipaddr (arp_table (uip_arp_timer s) ! j))"
    and eq: "ae_ipaddr (arp_table (uip_arp_timer s) ! j) = ae_ipaddr (arp_table (uip_arp_timer s) ! k)"
  then have l: "j < length (arp_table s)" "k < length (arp_table s)" by (simp_all add: arp_timer_table)
  have "arp_table (uip_arp_timer s) ! j = arp_table s ! j" "arp_table (uip_arp_timer s) ! k = arp_table s ! k"
    using arp_timer_nth [OF l(1)] arp_timer_nth [OF l(2)] unused_not_addr addr eq by metis+
  then show "j = k" using arp_ok_unique [OF ok _ l] addr eq by simp
qed

lemma arp_tick:
  assumes "arp_ok s" "ip_addr ip"
  shows "arp_addr ip (uip_arp_timer s) \<in> {None, arp_addr ip s}"
proof (cases "arp_addr ip (uip_arp_timer s)")
  case (Some m)
  then obtain i where i: "i < length (arp_table (uip_arp_timer s))" "ae_ipaddr (arp_table (uip_arp_timer s) ! i) = ip"
    "ae_ethaddr (arp_table (uip_arp_timer s) ! i) = m"
    using arp_addr_iff [OF arp_ok_timer [OF assms(1)] assms(2)] by blast
  then have l: "i < length (arp_table s)" by (simp add: arp_timer_table)
  then have "arp_table (uip_arp_timer s) ! i = arp_table s ! i"
    using arp_timer_nth [OF l] unused_not_addr i(2) assms(2) by metis
  then have "arp_addr ip s = Some m" using arp_addr_iff [OF assms] l i by auto
  with Some show ?thesis by simp
qed simp

section \<open>Address caches\<close>

text \<open>
  What the stack relies on in a table of link addresses: it may forget, but a lookup never gives
  anything but the last address learned.
\<close>

datatype ('i, 'm) cache_event = Learn 'i 'm | Tick

fun cache_run :: "('i \<Rightarrow> 'm \<Rightarrow> 's \<Rightarrow> 's) \<Rightarrow> ('s \<Rightarrow> 's) \<Rightarrow> ('i, 'm) cache_event list \<Rightarrow> 's \<Rightarrow> 's" where
  "cache_run learn tick [] s = s"
| "cache_run learn tick (Learn i m # es) s = cache_run learn tick es (learn i m s)"
| "cache_run learn tick (Tick # es) s = cache_run learn tick es (tick s)"

fun last_learned :: "'i \<Rightarrow> 'm option \<Rightarrow> ('i, 'm) cache_event list \<Rightarrow> 'm option" where
  "last_learned i acc [] = acc"
| "last_learned i acc (Learn j m # es) = last_learned i (if j = i then Some m else acc) es"
| "last_learned i acc (Tick # es) = last_learned i acc es"

definition event_ok :: "('i \<Rightarrow> bool) \<Rightarrow> ('i, 'm) cache_event \<Rightarrow> bool" where
  "event_ok addr e = (case e of Learn i m \<Rightarrow> addr i | Tick \<Rightarrow> True)"

locale address_cache =
  fixes learn :: "'i \<Rightarrow> 'm \<Rightarrow> 's \<Rightarrow> 's" and tick :: "'s \<Rightarrow> 's" and look :: "'i \<Rightarrow> 's \<Rightarrow> 'm option"
    and ok :: "'s \<Rightarrow> bool" and addr :: "'i \<Rightarrow> bool"
  assumes learn_ok: "ok s \<Longrightarrow> addr i \<Longrightarrow> ok (learn i m s)"
    and tick_ok: "ok s \<Longrightarrow> ok (tick s)"
    and learn_same: "ok s \<Longrightarrow> addr i \<Longrightarrow> look i (learn i m s) = Some m"
    and learn_other: "ok s \<Longrightarrow> addr i \<Longrightarrow> addr j \<Longrightarrow> j \<noteq> i \<Longrightarrow> look j (learn i m s) \<in> {None, look j s}"
    and tick_other: "ok s \<Longrightarrow> addr j \<Longrightarrow> look j (tick s) \<in> {None, look j s}"
begin

lemma run_last:
  "ok s \<Longrightarrow> addr i \<Longrightarrow> list_all (event_ok addr) es \<Longrightarrow> look i s \<in> {None, acc} \<Longrightarrow>
    look i (cache_run learn tick es s) \<in> {None, last_learned i acc es}"
proof (induction es arbitrary: s acc)
  case (Cons e es)
  show ?case
  proof (cases e)
    case (Learn j m)
    then have j: "addr j" using Cons.prems by (simp add: event_ok_def)
    have "look i (learn j m s) \<in> {None, if j = i then Some m else acc}"
      using learn_same [of s i m] learn_other [of s j i m] Cons.prems(1,2,4) j by (cases "j = i") auto
    with Cons.IH [OF learn_ok [OF Cons.prems(1) j]] Cons.prems Learn show ?thesis by simp
  next
    case Tick
    have "look i (tick s) \<in> {None, acc}"
      using tick_other [OF Cons.prems(1,2)] Cons.prems(4) by auto
    with Cons.IH [OF tick_ok [OF Cons.prems(1)]] Cons.prems Tick show ?thesis by simp
  qed
qed simp

end

interpretation arp: address_cache uip_arp_update uip_arp_timer arp_addr arp_ok ip_addr
  by unfold_locales (rule arp_ok_update arp_ok_timer arp_learn_same arp_learn_other arp_tick; assumption)+

lemma arp_init_ok: "arp_table s \<noteq> [] \<Longrightarrow> arp_ok (uip_arp_init s)"
  by (rule arp_okI) (simp_all add: uip_arp_init_def)

lemma arp_init_empty: "ip_addr ip \<Longrightarrow> arp_addr ip (uip_arp_init s) = None"
  by (auto simp: arp_addr_None uip_arp_init_def)

text \<open>
  C32. Started with a table of any size, after any sequence of address pairs learned and timer
  ticks the ARP table gives for an address the link address learned last for it, or nothing:
  never an older one and never that of another host.  (The addresses are those whose halves are
  both nonzero, which the code takes for entries in use.)
\<close>

theorem arp_gives_last_learned:
  assumes "arp_table s \<noteq> []" "list_all (event_ok ip_addr) es" "ip_addr ip"
  shows "arp_addr ip (cache_run uip_arp_update uip_arp_timer es (uip_arp_init s)) \<in> {None, last_learned ip None es}"
  using arp.run_last [OF arp_init_ok [OF assms(1)] assms(3,2)] arp_init_empty [OF assms(3)] by simp

definition arp_table_of :: "nat \<Rightarrow> arp_state" where
  "arp_table_of n = \<lparr>arp_table = replicate n \<lparr>ae_ipaddr = [0, 0, 0, 0], ae_ethaddr = [0, 0, 0, 0, 0, 0], ae_time = 0\<rparr>, arptime = 0\<rparr>"

theorem arp_gives_last_learned_witness:
  "arp_addr [10, 0, 0, 7] (cache_run uip_arp_update uip_arp_timer [Learn [10, 0, 0, 7] [1, 2, 3, 4, 5, 6], Tick,
      Learn [10, 0, 0, 8] [1, 2, 3, 4, 5, 7], Learn [10, 0, 0, 7] [1, 2, 3, 4, 5, 8]] (uip_arp_init (arp_table_of 2)))
    \<in> {None, Some [1, 2, 3, 4, 5, 8]}"
  using arp_gives_last_learned [of "arp_table_of 2" "[Learn [10, 0, 0, 7] [1, 2, 3, 4, 5, 6], Tick,
      Learn [10, 0, 0, 8] [1, 2, 3, 4, 5, 7], Learn [10, 0, 0, 7] [1, 2, 3, 4, 5, 8]]" "[10, 0, 0, 7]"]
  by (simp add: arp_table_of_def event_ok_def ip_addr_def half_zero_def slice_def)

section \<open>Ageing\<close>

lemma arp_ticks_keep:
  assumes "i < length (arp_table s)" "\<not> unused (arp_table s ! i)"
    "\<forall>k. 1 \<le> k \<longrightarrow> k \<le> n \<longrightarrow> int (unat (arptime s + of_nat k)) - int (unat (ae_time (arp_table s ! i))) < 120"
  shows "arp_table ((uip_arp_timer ^^ n) s) ! i = arp_table s ! i \<and>
    arptime ((uip_arp_timer ^^ n) s) = arptime s + of_nat n \<and>
    length (arp_table ((uip_arp_timer ^^ n) s)) = length (arp_table s)"
  using assms(3)
proof (induction n)
  case (Suc n)
  then have IH: "arp_table ((uip_arp_timer ^^ n) s) ! i = arp_table s ! i"
    "arptime ((uip_arp_timer ^^ n) s) = arptime s + of_nat n"
    "length (arp_table ((uip_arp_timer ^^ n) s)) = length (arp_table s)" by simp_all
  have "int (unat (arptime s + of_nat (Suc n))) - int (unat (ae_time (arp_table s ! i))) < 120"
    using Suc.prems by (metis le_add1 order_refl plus_1_eq_Suc)
  then have "int (unat (arptime s + of_nat n + 1)) - int (unat (ae_time (arp_table s ! i))) < 120"
    by (simp add: add_ac)
  then show ?case using IH assms(1) by (simp add: arp_timer_table add_ac)
qed simp

lemma arp_ok_ticks: "arp_ok s \<Longrightarrow> arp_ok ((uip_arp_timer ^^ n) s)"
  by (induction n) (simp_all add: arp_ok_timer)

lemma arp_ticks_None:
  "arp_ok s \<Longrightarrow> ip_addr ip \<Longrightarrow> arp_addr ip s = None \<Longrightarrow> arp_addr ip ((uip_arp_timer ^^ n) s) = None"
proof (induction n)
  case (Suc n)
  then show ?case using arp_tick [OF arp_ok_ticks [OF Suc.prems(1)] Suc.prems(2), of n] by simp
qed simp

lemma unat_u8_add: "unat (x + of_nat k :: u8) = (unat x + k) mod 256"
  by (simp add: unat_word_ariths unat_of_nat mod_add_right_eq)

lemma stamp_small:
  fixes t :: u8
  assumes "unat t > 135 \<or> k < 120"
  shows "int (unat (t + of_nat k)) - int (unat t) < 120"
proof (cases "unat t > 135")
  case True
  then show ?thesis using unat_u8_le [of "t + of_nat k"] by linarith
next
  case False
  with assms have "unat (t + of_nat k) = unat t + k" by (simp add: unat_u8_add)
  with False assms show ?thesis by simp
qed

text \<open>
  C0. An address learned at the time \<open>arptime\<close> is kept for 119 calls of the timer and dropped by the
  120th, if the clock stood at 135 or below when it was learned; one learned later than that is
  never dropped by the timer, because the ages are computed as integers, without wrapping around.
\<close>

theorem arp_entry_lifetime:
  assumes "arp_ok s" "ip_addr ip"
  shows "arp_addr ip ((uip_arp_timer ^^ n) (uip_arp_update ip m s)) =
    (if unat (arptime s) \<le> 135 \<and> 120 \<le> n then None else Some m)"
proof (rule arp_update_slot [OF assms, of m])
  fix i
  assume i: "i < length (arp_table s)"
    "uip_arp_update ip m s = s\<lparr>arp_table := (arp_table s)[i := \<lparr>ae_ipaddr = ip, ae_ethaddr = m, ae_time = arptime s\<rparr>]\<rparr>"
  let ?s = "uip_arp_update ip m s"
  have e: "arp_table ?s ! i = \<lparr>ae_ipaddr = ip, ae_ethaddr = m, ae_time = arptime s\<rparr>" "arptime ?s = arptime s"
    "i < length (arp_table ?s)" using i by simp_all
  have ok: "arp_ok ?s" by (rule arp_ok_update [OF assms])
  have used: "\<not> unused (arp_table ?s ! i)" using addr_halves [OF assms(2)] by (simp add: e unused_def)
  have keep: "arp_table ((uip_arp_timer ^^ n) ?s) ! i = arp_table ?s ! i \<and>
      arptime ((uip_arp_timer ^^ n) ?s) = arptime s + of_nat n \<and> length (arp_table ((uip_arp_timer ^^ n) ?s)) = length (arp_table ?s)"
    if "unat (arptime s) > 135 \<or> n < 120" for n
    using arp_ticks_keep [OF e(3) used, of n] stamp_small [of "arptime s"] that by (auto simp: e)
  show ?thesis
  proof (cases "unat (arptime s) \<le> 135 \<and> 120 \<le> n")
    case False
    then have "arp_addr ip ((uip_arp_timer ^^ n) ?s) = Some m"
      unfolding arp_addr_iff [OF arp_ok_ticks [OF ok] assms(2)]
      using keep [of n] e by (intro exI [of _ i]) auto
    then show ?thesis using False by simp
  next
    case True
    let ?t = "(uip_arp_timer ^^ 119) ?s"
    have k: "arp_table ?t ! i = arp_table ?s ! i" "arptime ?t = arptime s + of_nat 119"
      "length (arp_table ?t) = length (arp_table ?s)" using keep [of 119] by simp_all
    have "unat (arptime ?t + 1) = unat (arptime s) + 120"
      using True unat_u8_add [of "arptime s" 120] by (simp add: k(2) add.commute)
    then have un: "unused (arp_table (uip_arp_timer ?t) ! i)"
      using used k e by (simp add: arp_timer_table)
    have "arp_addr ip (uip_arp_timer ?t) = None" unfolding arp_addr_None
    proof (intro allI impI)
      fix j assume j: "j < length (arp_table (uip_arp_timer ?t))"
      then have jl: "j < length (arp_table ?t)" by (simp add: arp_timer_table)
      show "ae_ipaddr (arp_table (uip_arp_timer ?t) ! j) \<noteq> ip"
      proof
        assume a: "ae_ipaddr (arp_table (uip_arp_timer ?t) ! j) = ip"
        then have "arp_table (uip_arp_timer ?t) ! j = arp_table ?t ! j"
          using arp_timer_nth [OF jl] unused_not_addr assms(2) by metis
        with a have "j = i" using arp_ok_unique [OF arp_ok_ticks [OF ok] assms(2) jl, of i] k e by simp
        with a un show False using unused_not_addr assms(2) by metis
      qed
    qed
    then have "arp_addr ip ((uip_arp_timer ^^ 120) ?s) = None"
      by (simp add: eval_nat_numeral)
    then have "arp_addr ip ((uip_arp_timer ^^ (n - 120)) ((uip_arp_timer ^^ 120) ?s)) = None"
      by (intro arp_ticks_None [OF arp_ok_ticks [OF ok] assms(2)])
    moreover have "(uip_arp_timer ^^ (n - 120)) ((uip_arp_timer ^^ 120) ?s) = (uip_arp_timer ^^ n) ?s"
      using True funpow_add [of "n - 120" 120 uip_arp_timer] by simp
    ultimately show ?thesis using True by simp
  qed
qed

theorem arp_entry_lifetime_witness:
  "arp_addr [10, 0, 0, 7] ((uip_arp_timer ^^ 120) (uip_arp_update [10, 0, 0, 7] [1, 2, 3, 4, 5, 6] (arp_table_of 2))) = None"
  using arp_entry_lifetime [of "arp_table_of 2" "[10, 0, 0, 7]" 120 "[1, 2, 3, 4, 5, 6]"] arp_okI [of "arp_table_of 2"]
  by (simp add: arp_table_of_def ip_addr_def half_zero_def slice_def unused_def del: funpow.simps)

section \<open>Resolution\<close>

definition plain_dest :: "arp_cfg \<Rightarrow> u8 list \<Rightarrow> bool" where
  "plain_dest c ip \<longleftrightarrow> \<not> (224 \<le> ip ! 0 \<and> ip ! 0 \<le> 239) \<and> ip \<noteq> broadcast_of c \<and> ip \<noteq> replicate 4 0xff"

definition same_net :: "arp_cfg \<Rightarrow> u8 list \<Rightarrow> bool" where
  "same_net c ip \<longleftrightarrow> uip_ipaddr_maskcmp ip (uip_hostaddr c) (uip_netmask c)"

definition cfg_ok :: "arp_cfg \<Rightarrow> bool" where
  "cfg_ok c \<longleftrightarrow> ip_addr (uip_hostaddr c) \<and> length (uip_ethaddr c) = 6"

lemma mdns_unreachable: "\<not> (224 \<le> ip ! 0 \<and> ip ! 0 \<le> (239 :: u8)) \<Longrightarrow> ip \<noteq> [0xe0, 0x00, 0x00, 0xfb]"
  by auto

definition ether_frame :: "u8 list \<Rightarrow> u8 list \<Rightarrow> u8 list \<Rightarrow> u8 list" where
  "ether_frame dest src buf = memcpy_at 12 [0x08, 0x00] (memcpy_at 6 src (memcpy_at 0 dest buf))"

lemma arp_out_known:
  assumes "plain_dest c (slice 30 4 buf)" "same_net c (slice 30 4 buf)" "arp_addr (slice 30 4 buf) s = Some m"
  shows "uip_arp_out c s buf n = (0, ether_frame m (uip_ethaddr c) buf, n + 14)"
proof -
  obtain e where "uip_arp_lookup (slice 30 4 buf) s = Some e" "ae_ethaddr e = m"
    using assms(3) by (auto simp: arp_addr_def)
  then show ?thesis
    using assms(1,2) mdns_unreachable [of "slice 30 4 buf"]
    by (auto simp: uip_arp_out_def Let_def plain_dest_def same_net_def ether_frame_def sizeof_eth_hdr_def)
qed

definition arp_request_frame :: "arp_cfg \<Rightarrow> u8 list \<Rightarrow> u8 list \<Rightarrow> bool" where
  "arp_request_frame c ip f \<longleftrightarrow> 42 \<le> length f \<and> slice 0 6 f = replicate 6 0xff \<and> slice 6 6 f = uip_ethaddr c \<and>
     slice 12 2 f = [0x08, 0x06] \<and> slice 14 2 f = [0, 1] \<and> slice 16 2 f = [0x08, 0x00] \<and>
     slice 18 1 f = [6] \<and> slice 19 1 f = [4] \<and> slice 20 2 f = [0, 1] \<and>
     slice 22 6 f = uip_ethaddr c \<and> slice 28 4 f = uip_hostaddr c \<and> slice 38 4 f = ip"

definition arp_reply_frame :: "arp_cfg \<Rightarrow> arp_cfg \<Rightarrow> u8 list \<Rightarrow> bool" where
  "arp_reply_frame c d f \<longleftrightarrow> 42 \<le> length f \<and> slice 0 6 f = uip_ethaddr d \<and> slice 6 6 f = uip_ethaddr c \<and>
     slice 20 2 f = [0, 2] \<and> slice 22 6 f = uip_ethaddr c \<and> slice 28 4 f = uip_hostaddr c \<and>
     slice 32 6 f = uip_ethaddr d \<and> slice 38 4 f = uip_hostaddr d"

text \<open>Stores into a frame of at least 42 bytes.\<close>

lemma frame42_length: "42 \<le> length buf \<Longrightarrow> off + length d \<le> 42 \<Longrightarrow> 42 \<le> length (memcpy_at off d buf)"
  by simp

lemma frame_same: "length d = n \<Longrightarrow> off + n \<le> 42 \<Longrightarrow> 42 \<le> length buf \<Longrightarrow> slice off n (memcpy_at off d buf) = d"
  using slice_memcpy_at [of off d buf] by simp

lemma frame_other:
  "off + n \<le> 42 \<Longrightarrow> off' + length d \<le> 42 \<Longrightarrow> 42 \<le> length buf \<Longrightarrow> off + n \<le> off' \<or> off' + length d \<le> off \<Longrightarrow>
    slice off n (memcpy_at off' d buf) = slice off n buf"
  by (rule slice_memcpy_other) simp_all

lemmas frame_simps = frame42_length frame_same frame_other

lemma arp_out_request:
  assumes c: "cfg_ok c" "42 \<le> length buf" and d: "plain_dest c (slice 30 4 buf)" "same_net c (slice 30 4 buf)"
    and no: "arp_addr (slice 30 4 buf) s = None"
  obtains f where "uip_arp_out c s buf n = (1, f, 42)" "arp_request_frame c (slice 30 4 buf) f"
proof -
  have len: "length (slice 30 4 buf) = 4" "length (uip_hostaddr c) = 4" "length (uip_ethaddr c) = 6"
    using c by (simp_all add: cfg_ok_def ip_addr_def)
  define ip where "ip = slice 30 4 buf"
  define f where "f = memcpy_at 12 [0x08, 0x06] (memcpy_at 19 [4] (memcpy_at 18 [6] (memcpy_at 16 [0x08, 0x00]
    (memcpy_at 14 [0, 1] (memcpy_at 20 [0, 1] (memcpy_at 28 (uip_hostaddr c) (memcpy_at 38 ip
    (memcpy_at 22 (uip_ethaddr c) (memcpy_at 6 (uip_ethaddr c) (memcpy_at 32 (replicate 6 0x00)
    (memcpy_at 0 (replicate 6 0xff) buf)))))))))))"
  have l: "length ip = 4" using len ip_def by simp
  have "uip_arp_out c s buf n = (1, f, 42)"
    using d no mdns_unreachable [of "slice 30 4 buf"]
    by (auto simp: uip_arp_out_def Let_def plain_dest_def same_net_def arp_addr_def sizeof_arp_hdr_def f_def ip_def)
  moreover have "arp_request_frame c ip f"
    unfolding arp_request_frame_def f_def
    using c(2) len l by (simp add: frame_simps del: replicate.simps length_memcpy_at)
  ultimately show thesis using ip_def that by simp
qed

lemma arp_in_request:
  assumes d: "cfg_ok d" "arp_request_frame c (uip_hostaddr d) f" "cfg_ok c"
  obtains g where "uip_arp_arpin d f 42 s = (uip_arp_update (uip_hostaddr c) (uip_ethaddr c) s, g, 42)"
    "arp_reply_frame d c g"
proof -
  have len: "length (uip_hostaddr d) = 4" "length (uip_ethaddr d) = 6" "length (uip_hostaddr c) = 4" "length (uip_ethaddr c) = 6"
    using d by (simp_all add: cfg_ok_def ip_addr_def)
  have f: "42 \<le> length f" "slice 20 2 f = [0, 1]" "slice 22 6 f = uip_ethaddr c" "slice 28 4 f = uip_hostaddr c"
    "slice 38 4 f = uip_hostaddr d" using d(2) by (simp_all add: arp_request_frame_def)
  define g' where "g' = memcpy_at 6 (uip_ethaddr d) (memcpy_at 22 (uip_ethaddr d) (memcpy_at 32 (uip_ethaddr c) (memcpy_at 20 [0, 2] f)))"
  define g where "g = memcpy_at 12 [0x08, 0x06] (memcpy_at 38 (uip_hostaddr c) (memcpy_at 28 (uip_hostaddr d)
    (memcpy_at 0 (slice 32 6 g') g')))"
  have l: "42 \<le> length g'" "slice 32 6 g' = uip_ethaddr c"
    using f(1) len by (simp_all add: g'_def frame_simps del: length_memcpy_at)
  have "uip_arp_arpin d f 42 s = (uip_arp_update (uip_hostaddr c) (uip_ethaddr c) s, g, 42)"
    by (simp add: uip_arp_arpin_def Let_def f sizeof_arp_hdr_def g_def g'_def)
  moreover have "arp_reply_frame d c g"
    using f(1) len l by (simp add: arp_reply_frame_def g_def frame_simps del: length_memcpy_at)
      (simp add: g'_def frame_simps del: length_memcpy_at)
  ultimately show thesis using that by blast
qed

lemma arp_in_reply:
  assumes "arp_reply_frame d c g"
  shows "uip_arp_arpin c g 42 s = (uip_arp_update (uip_hostaddr d) (uip_ethaddr d) s, g, 0)"
  using assms by (simp add: uip_arp_arpin_def arp_reply_frame_def sizeof_arp_hdr_def Let_def)

text \<open>
  C27. Two hosts on one network: a packet for a host not in the table is replaced by a request for
  its address; the other host learns the sender from it and answers; from the answer the first
  learns the other's link address, and the packet, sent again, goes there, while the other can
  send to the first without asking.
\<close>

theorem arp_resolves:
  assumes "cfg_ok a" "cfg_ok b" "arp_ok sa" "arp_ok sb" "42 \<le> length pkt" "slice 30 4 pkt = uip_hostaddr b"
    "plain_dest a (uip_hostaddr b)" "same_net a (uip_hostaddr b)" "arp_addr (uip_hostaddr b) sa = None"
  shows "case uip_arp_out a sa pkt len of (asked, request, n) \<Rightarrow> asked = 1 \<and>
    (case uip_arp_arpin b request n sb of (sb', reply, n') \<Rightarrow> n' = 42 \<and>
    (case uip_arp_arpin a reply n' sa of (sa', _, n'') \<Rightarrow> n'' = 0 \<and>
       arp_addr (uip_hostaddr a) sb' = Some (uip_ethaddr a) \<and>
       uip_arp_out a sa' pkt len = (0, ether_frame (uip_ethaddr b) (uip_ethaddr a) pkt, len + 14)))"
proof -
  obtain f where f: "uip_arp_out a sa pkt len = (1, f, 42)" "arp_request_frame a (uip_hostaddr b) f"
    by (rule arp_out_request [of a pkt sa len]) (use assms in simp_all)
  obtain g where g: "uip_arp_arpin b f 42 sb = (uip_arp_update (uip_hostaddr a) (uip_ethaddr a) sb, g, 42)"
    "arp_reply_frame b a g"
    by (rule arp_in_request [OF assms(2) f(2) assms(1)])
  have ip: "ip_addr (uip_hostaddr a)" "ip_addr (uip_hostaddr b)" using assms(1,2) by (simp_all add: cfg_ok_def)
  note known = arp_out_known [of a pkt "uip_arp_update (uip_hostaddr b) (uip_ethaddr b) sa" "uip_ethaddr b" len]
  show ?thesis
    using f g arp_in_reply [OF g(2), of sa] arp_learn_same [OF assms(4) ip(1)] arp_learn_same [OF assms(3) ip(2)]
      known assms(6,7,8) by simp
qed

definition arp_host :: "u8 list \<Rightarrow> u8 list \<Rightarrow> arp_cfg" where
  "arp_host ip m = \<lparr>uip_hostaddr = ip, uip_netmask = [255, 255, 255, 0], uip_draddr = [10, 0, 0, 1],
     uip_ethaddr = m, arp_proxies = [], mdns_sd = False\<rparr>"

definition ping_frame :: "u8 list" where
  "ping_frame = replicate 30 0 @ [10, 0, 0, 7] @ replicate 26 0"

theorem arp_resolves_witness:
  "case uip_arp_out (arp_host [10, 0, 0, 5] [2, 0, 0, 0, 0, 5]) (arp_table_of 4) ping_frame 46 of (asked, request, n) \<Rightarrow> asked = 1 \<and>
    (case uip_arp_arpin (arp_host [10, 0, 0, 7] [2, 0, 0, 0, 0, 7]) request n (arp_table_of 4) of (sb', reply, n') \<Rightarrow> n' = 42 \<and>
    (case uip_arp_arpin (arp_host [10, 0, 0, 5] [2, 0, 0, 0, 0, 5]) reply n' (arp_table_of 4) of (sa', _, n'') \<Rightarrow> n'' = 0 \<and>
       arp_addr [10, 0, 0, 5] sb' = Some [2, 0, 0, 0, 0, 5] \<and>
       uip_arp_out (arp_host [10, 0, 0, 5] [2, 0, 0, 0, 0, 5]) sa' ping_frame 46 =
         (0, ether_frame [2, 0, 0, 0, 0, 7] [2, 0, 0, 0, 0, 5] ping_frame, 46 + 14)))"
proof -
  have fields: "uip_hostaddr (arp_host ip m) = ip" "uip_ethaddr (arp_host ip m) = m" for ip m
    by (simp_all add: arp_host_def)
  have conds: "cfg_ok (arp_host [10, 0, 0, n] [2, 0, 0, 0, 0, n])" if "n = 5 \<or> n = 7" for n
    using that by (auto simp: cfg_ok_def fields ip_addr_def half_zero_def slice_def)
  have "arp_ok (arp_table_of 4)" by (rule arp_okI) (simp_all add: arp_table_of_def)
  moreover have "slice 30 4 ping_frame = [10, 0, 0, 7]" "42 \<le> length ping_frame"
    by (simp_all add: ping_frame_def slice_def)
  moreover have "plain_dest (arp_host [10, 0, 0, 5] m) [10, 0, 0, 7]" "same_net (arp_host [10, 0, 0, 5] m) [10, 0, 0, 7]" for m
    by (simp_all add: replicate_4 plain_dest_def same_net_def broadcast_of_def uip_ipaddr_maskcmp_def arp_host_def)
  moreover have "arp_addr [10, 0, 0, 7] (arp_table_of 4) = None"
    by (simp add: arp_addr_None arp_table_of_def)
  ultimately show ?thesis
    using arp_resolves [of "arp_host [10, 0, 0, 5] [2, 0, 0, 0, 0, 5]" "arp_host [10, 0, 0, 7] [2, 0, 0, 0, 0, 7]"
      "arp_table_of 4" "arp_table_of 4" ping_frame 46] conds [of 5] conds [of 7] by (simp only: fields) simp
qed

text \<open>
  A host whose default router has not been set (its address is zero) sends packets for other
  networks to the link address that an entry no longer in use still holds, instead of asking or
  dropping them: the lookup does not tell an unused entry from one for the address zero.
\<close>

theorem arp_unset_router_uses_stale_entry:
  assumes "plain_dest c (slice 30 4 buf)" "\<not> same_net c (slice 30 4 buf)" "uip_draddr c = [0, 0, 0, 0]"
    "\<exists>e \<in> set (arp_table s). ae_ipaddr e = [0, 0, 0, 0]"
  shows "\<exists>e \<in> set (arp_table s). ae_ipaddr e = [0, 0, 0, 0] \<and>
    uip_arp_out c s buf n = (0, ether_frame (ae_ethaddr e) (uip_ethaddr c) buf, n + 14)"
proof -
  obtain e where e: "uip_arp_lookup [0, 0, 0, 0] s = Some e"
    using assms(4) by (cases "uip_arp_lookup [0, 0, 0, 0] s") (auto simp: uip_arp_lookup_def find_None_iff)
  then have "e \<in> set (arp_table s)" "ae_ipaddr e = [0, 0, 0, 0]"
    by (auto simp: uip_arp_lookup_def find_Some_iff)
  moreover have "uip_arp_out c s buf n = (0, ether_frame (ae_ethaddr e) (uip_ethaddr c) buf, n + 14)"
    using assms(1,2,3) e mdns_unreachable [of "slice 30 4 buf"]
    by (auto simp: uip_arp_out_def Let_def plain_dest_def same_net_def ether_frame_def sizeof_eth_hdr_def)
  ultimately show ?thesis by blast
qed

theorem arp_unset_router_uses_stale_entry_witness:
  "fst (uip_arp_out ((arp_host [10, 0, 0, 5] [2, 0, 0, 0, 0, 5])\<lparr>uip_draddr := [0, 0, 0, 0]\<rparr>) (arp_table_of 4)
     (replicate 30 0 @ [8, 8, 8, 8] @ replicate 26 0) 46) = 0"
  using arp_unset_router_uses_stale_entry [of "(arp_host [10, 0, 0, 5] [2, 0, 0, 0, 0, 5])\<lparr>uip_draddr := [0, 0, 0, 0]\<rparr>"
      "replicate 30 0 @ [8, 8, 8, 8] @ replicate 26 0" "arp_table_of 4" 46]
  by (auto simp: replicate_4 arp_host_def slice_def plain_dest_def broadcast_of_def same_net_def uip_ipaddr_maskcmp_def
      arp_table_of_def)

section \<open>Neighbours are added, not renewed\<close>

lemma neighbor_slot_skip:
  "(\<forall>e \<in> set es. ne_time e = 0 \<and> ne_ipaddr e \<noteq> take (length (ne_ipaddr e)) a) \<Longrightarrow>
    neighbor_slot a (es @ fs) i 0 0 = neighbor_slot a fs (i + length es) 0 0"
  by (induction es arbitrary: i) (simp_all add: MAX_TIME_def)

lemma neighbor_adds:
  "k + length ms \<le> length es \<Longrightarrow> length ds = k \<Longrightarrow>
    (\<forall>e \<in> set ds. ne_time e = 0 \<and> ne_ipaddr e = ip) \<Longrightarrow>
    (\<forall>m \<in> set ms. ip \<noteq> take (length ip) (m @ behind)) \<Longrightarrow> (\<forall>e \<in> set es. ne_time e = MAX_TIME) \<Longrightarrow>
    fold (uip_neighbor_add behind ip) ms (ds @ drop k es) =
      ds @ map (\<lambda>m. \<lparr>ne_ipaddr = ip, ne_addr = m, ne_time = 0\<rparr>) ms @ drop (k + length ms) es"
proof (induction ms arbitrary: ds k)
  case (Cons m ms)
  then have k: "k < length es" by simp
  have d: "drop k es = es ! k # drop (Suc k) es" using k by (rule Cons_nth_drop_Suc [symmetric])
  have t: "ne_time (es ! k) = MAX_TIME" using Cons.prems(5) k by simp
  have "neighbor_slot (m @ behind) (ds @ drop k es) 0 0 0 = neighbor_slot (m @ behind) (drop k es) (0 + length ds) 0 0"
    by (rule neighbor_slot_skip) (use Cons.prems in auto)
  then have "neighbor_slot (m @ behind) (ds @ drop k es) 0 0 0 = k"
    using Cons.prems(2) t by (simp add: d)
  then have "uip_neighbor_add behind ip m (ds @ drop k es) = (ds @ [\<lparr>ne_ipaddr = ip, ne_addr = m, ne_time = 0\<rparr>]) @ drop (Suc k) es"
    using Cons.prems(2) by (simp add: uip_neighbor_add_def d list_update_append)
  moreover have "fold (uip_neighbor_add behind ip) ms ((ds @ [\<lparr>ne_ipaddr = ip, ne_addr = m, ne_time = 0\<rparr>]) @ drop (Suc k) es) =
      (ds @ [\<lparr>ne_ipaddr = ip, ne_addr = m, ne_time = 0\<rparr>]) @ map (\<lambda>m. \<lparr>ne_ipaddr = ip, ne_addr = m, ne_time = 0\<rparr>) ms @ drop (Suc k + length ms) es"
    by (rule Cons.IH) (use Cons.prems in auto)
  ultimately show ?case by simp
qed simp

text \<open>
  When the link address of a neighbour is added again and again, changed each time, every
  addition takes an entry of its own, and the lookup keeps giving the first one, however long the
  timer runs: the addition compares the IP address of an entry with the new link address instead of
  the IP address, and the lookup does not look at the age.
\<close>

theorem neighbor_keeps_first_address:
  assumes "length ms < length entries" "\<forall>m' \<in> set (m # ms). ip \<noteq> take (length ip) (m' @ behind)"
  shows "uip_neighbor_lookup ip ((uip_neighbor_periodic ^^ n)
      (fold (uip_neighbor_add behind ip) (m # ms) (uip_neighbor_init entries))) = Some m"
proof -
  define es where "es = uip_neighbor_init entries"
  define r where "r = fold (uip_neighbor_add behind ip) (m # ms) es"
  have es: "length es = length entries" "\<forall>e \<in> set es. ne_time e = MAX_TIME"
    by (simp_all add: es_def uip_neighbor_init_def)
  have "r = map (\<lambda>m. \<lparr>ne_ipaddr = ip, ne_addr = m, ne_time = 0\<rparr>) (m # ms) @ drop (0 + length (m # ms)) es"
    unfolding r_def
    by (rule neighbor_adds [of 0 "m # ms" es "[]" ip behind, unfolded append_Nil drop_0])
      (use assms es in simp_all)
  then have "r \<noteq> [] \<and> ne_ipaddr (r ! 0) = ip \<and> ne_addr (r ! 0) = m" by simp
  then have "(uip_neighbor_periodic ^^ n) r \<noteq> [] \<and> ne_ipaddr ((uip_neighbor_periodic ^^ n) r ! 0) = ip \<and>
      ne_addr ((uip_neighbor_periodic ^^ n) r ! 0) = m"
    by (induction n) (simp_all add: uip_neighbor_periodic_def)
  then obtain e es' where e: "(uip_neighbor_periodic ^^ n) r = e # es'" "ne_ipaddr e = ip" "ne_addr e = m"
    by (metis list.exhaust nth_Cons_0)
  have "uip_neighbor_lookup ip (e # es') = Some m"
    using e(2,3) by (simp add: uip_neighbor_lookup_def find_entry_def upt_conv_Cons del: upt_Suc)
  then show ?thesis unfolding e(1) [symmetric] r_def es_def .
qed

theorem neighbor_keeps_first_address_witness:
  "uip_neighbor_lookup [10, 0, 0, 7] ((uip_neighbor_periodic ^^ 3) (fold (uip_neighbor_add [] [10, 0, 0, 7])
     [[2, 0, 0, 0, 0, 1], [2, 0, 0, 0, 0, 2]] (uip_neighbor_init (replicate 8 \<lparr>ne_ipaddr = [0, 0, 0, 0], ne_addr = [], ne_time = 0\<rparr>))))
   = Some [2, 0, 0, 0, 0, 1]"
  using neighbor_keeps_first_address [of "[[2, 0, 0, 0, 0, 2]]"
      "replicate 8 \<lparr>ne_ipaddr = [0, 0, 0, 0], ne_addr = [], ne_time = 0\<rparr>" "[2, 0, 0, 0, 0, 1]" "[10, 0, 0, 7]" "[]" 3]
  by (simp del: fold.simps funpow.simps replicate.simps)

end
