(* ===== verification/Rc5.thy ===== *)
theory Rc5 imports Prelude begin

text \<open>
  The infrared remote control (hardware/ir/rc5/rc5.c, ecmd.c): the sender's Manchester signal, the
  decoder driven by the interrupts of its edges and of a timer, and the queue of received commands.

  The sender's result is the level of its pin during each half bit.  The timer is its counter: each
  tick counts, and the overflow interrupt runs at the wrap-around if it is enabled.  (The overflow
  flag is cleared when the interrupt is enabled, so nothing that happened before counts.)  The
  processor's frequency and the length of the queue are arguments.
\<close>

section \<open>Timing\<close>

definition RC5_BIT_TICKS :: "nat \<Rightarrow> u8" where
  "RC5_BIT_TICKS F_CPU =
    (if F_CPU = 20000000 then 35 else if F_CPU = 16000000 then 28
     else ucast ((word_of_nat F_CPU * 1800 :: u32) div 1024 div 1000000))"

definition RC5_HALF_BIT_TICKS :: "nat \<Rightarrow> u8" where "RC5_HALF_BIT_TICKS F_CPU = RC5_BIT_TICKS F_CPU div 2"
definition RC5_ENVIRONMENT :: "nat \<Rightarrow> u8" where "RC5_ENVIRONMENT F_CPU = RC5_BIT_TICKS F_CPU div 5"

section \<open>State\<close>

record rc5 =
  received_command :: u16
  enabled :: bool
  new_data :: bool
  halfbitcount :: u8
  interrupts :: u8
  temp_disable :: bool
  queue :: "u16 list"
  queue_len :: u8
  temp_rc5 :: u16
  last_toggle :: u8
  tcnt :: u8
  toie :: bool

definition rc5_code :: "u16 \<Rightarrow> u8" where "rc5_code raw = ucast (raw AND 0x3f)"
definition rc5_address :: "u16 \<Rightarrow> u8" where "rc5_address raw = ucast (drop_bit 6 raw AND 0x1f)"
definition rc5_toggle_bit :: "u16 \<Rightarrow> u8" where "rc5_toggle_bit raw = ucast (drop_bit 11 raw AND 1)"

definition rc5_init :: "nat \<Rightarrow> u8 \<Rightarrow> rc5" where
  "rc5_init RC5_QUEUE_LENGTH t = \<lparr>received_command = 0, enabled = True, new_data = False, halfbitcount = 0,
     interrupts = 0, temp_disable = False, queue = replicate RC5_QUEUE_LENGTH 0, queue_len = 0, temp_rc5 = 0,
     last_toggle = 2, tcnt = t, toie = False\<rparr>"

section \<open>Sending\<close>

definition rc5_send_one :: "bool list" where "rc5_send_one = [False, True]"
definition rc5_send_zero :: "bool list" where "rc5_send_zero = [True, False]"

definition rc5_send_bit :: "bool \<Rightarrow> bool list" where
  "rc5_send_bit b = (if b then rc5_send_one else rc5_send_zero)"

text \<open>The results are the next toggle bit and the levels; the last one is that of the pin afterwards.\<close>

definition rc5_send :: "bool \<Rightarrow> u8 \<Rightarrow> u8 \<Rightarrow> bool \<times> bool list" where
  "rc5_send toggle addr cmd =
    (\<not> toggle,
     rc5_send_one @ rc5_send_one @ rc5_send_bit toggle @
     concat (map (\<lambda>i. rc5_send_bit (bit addr i)) [4, 3, 2, 1, 0]) @
     concat (map (\<lambda>i. rc5_send_bit (bit cmd i)) [5, 4, 3, 2, 1, 0]) @ [False])"

section \<open>Receiving\<close>

text \<open>One half bit; \<open>interrupts\<close> is the number of interrupts before this one.\<close>

definition rc5_halfbit :: "rc5 \<Rightarrow> rc5" where
  "rc5_halfbit s =
    (let s = s\<lparr>halfbitcount := halfbitcount s + 1\<rparr>
     in if halfbitcount s AND 1 \<noteq> 0
        then s\<lparr>temp_rc5 := push_bit 1 (temp_rc5 s) OR ucast (interrupts s AND 1)\<rparr> else s)"

definition rc5_received_bits :: "nat \<Rightarrow> u8 \<Rightarrow> nat option" where
  "rc5_received_bits F_CPU counter =
    (let c = int (unat counter); half = int (unat (RC5_HALF_BIT_TICKS F_CPU)); full = int (unat (RC5_BIT_TICKS F_CPU));
         env = int (unat (RC5_ENVIRONMENT F_CPU))
     in if c > half - env \<and> c < half + env then Some 1
        else if c > full - env \<and> c < full + env then Some 2 else None)"

definition rc5_interrupt :: "nat \<Rightarrow> rc5 \<Rightarrow> rc5" where
  "rc5_interrupt F_CPU s =
    (if enabled s \<and> \<not> temp_disable s then
       if interrupts s = 0 then
         s\<lparr>tcnt := 0, toie := True, temp_rc5 := 0, interrupts := interrupts s + 1\<rparr>
       else
         let counter = tcnt s; s = s\<lparr>tcnt := 0\<rparr>
         in case rc5_received_bits F_CPU counter of
              None \<Rightarrow> s\<lparr>temp_disable := True, halfbitcount := 0\<rparr>
            | Some n \<Rightarrow> let s = (rc5_halfbit ^^ n) s in s\<lparr>interrupts := interrupts s + 1\<rparr>
     else s)"

definition rc5_overflow :: "rc5 \<Rightarrow> rc5" where
  "rc5_overflow s =
    (let s = s\<lparr>toie := False\<rparr>;
         s = (if halfbitcount s = 26 then s\<lparr>temp_rc5 := push_bit 1 (temp_rc5 s)\<rparr> else s);
         s = (if halfbitcount s = 26 \<or> halfbitcount s = 27 then s\<lparr>received_command := temp_rc5 s, new_data := True\<rparr> else s);
         s = s\<lparr>halfbitcount := 0, interrupts := 0\<rparr>
     in if enabled s then s\<lparr>temp_disable := False\<rparr> else s)"

definition rc5_tick :: "rc5 \<Rightarrow> rc5" where
  "rc5_tick s =
    (let s = s\<lparr>tcnt := tcnt s + 1\<rparr> in if tcnt s = 0 \<and> toie s then rc5_overflow s else s)"

section \<open>The queue\<close>

definition rc5_process :: "rc5 \<Rightarrow> rc5" where
  "rc5_process s =
    (if new_data s then
       let RC5_QUEUE_LENGTH = length (queue s);
           s = (if last_toggle s \<noteq> rc5_toggle_bit (received_command s) then
                  let s = s\<lparr>queue := memcpy_at 1 (take (RC5_QUEUE_LENGTH - 1) (queue s)) (queue s)\<rparr>;
                      s = s\<lparr>queue := (queue s)[0 := received_command s]\<rparr>;
                      s = (if unat (queue_len s) < RC5_QUEUE_LENGTH then s\<lparr>queue_len := queue_len s + 1\<rparr> else s)
                  in s\<lparr>last_toggle := rc5_toggle_bit (received_command s)\<rparr>
                else s)
       in s\<lparr>new_data := False\<rparr>
     else s)"

definition digit :: "nat \<Rightarrow> char" where "digit n = char_of (48 + n)"

text \<open>\<open>%02u\<close> of a number below 100.\<close>

definition two_digits :: "u8 \<Rightarrow> string" where
  "two_digits v = [digit (unat v div 10), digit (unat v mod 10)]"

fun ir_receive_loop :: "u16 list \<Rightarrow> u16 \<Rightarrow> u8 \<Rightarrow> string \<Rightarrow> string \<times> u8" where
  "ir_receive_loop [] outlen_max outlen out = (out, outlen)"
| "ir_receive_loop (raw # q) outlen_max outlen out =
    (if ucast (outlen + 5) < outlen_max
     then ir_receive_loop q outlen_max (outlen + 5) (out @ two_digits (rc5_address raw) @ two_digits (rc5_code raw) @ [char_of (10 :: nat)])
     else (out, outlen))"

definition parse_cmd_ir_receive :: "u16 \<Rightarrow> rc5 \<Rightarrow> rc5 \<times> string \<times> u8" where
  "parse_cmd_ir_receive outsize s =
    (s\<lparr>queue_len := 0\<rparr>, ir_receive_loop (take (unat (queue_len s)) (queue s)) outsize 0 [])"

section \<open>The signal and its edges\<close>

text \<open>The number of half bits between the edges of a signal: the level so far has lasted for \<open>k\<close>.\<close>

fun edge_gaps :: "bool \<Rightarrow> nat \<Rightarrow> bool list \<Rightarrow> nat list" where
  "edge_gaps l k [] = []"
| "edge_gaps l k (h # hs) = (if h = l then edge_gaps l (k + 1) hs else k # edge_gaps h 1 hs)"

text \<open>
  The times between the edges of a message after its first one; the pin is low before.  The decoder
  hears a message when its first edge and then one after each of the gaps interrupt it, and nothing
  more for one round of the timer.
\<close>

definition rc5_edges :: "bool list \<Rightarrow> nat list" where
  "rc5_edges levels = tl (edge_gaps False 0 levels)"

definition rc5_step :: "nat \<Rightarrow> rc5 \<Rightarrow> nat \<Rightarrow> rc5" where
  "rc5_step F_CPU s g = rc5_interrupt F_CPU ((rc5_tick ^^ g) s)"

definition rc5_hears :: "nat \<Rightarrow> nat list \<Rightarrow> rc5 \<Rightarrow> rc5" where
  "rc5_hears F_CPU gs s = (rc5_tick ^^ 256) (foldl (rc5_step F_CPU) (rc5_interrupt F_CPU s) gs)"

definition gap_ok :: "nat \<Rightarrow> nat \<Rightarrow> nat \<Rightarrow> bool" where
  "gap_ok F_CPU n g \<longleftrightarrow> g < 256 \<and> rc5_received_bits F_CPU (of_nat g) = Some n"

fun bit_gaps :: "bool \<Rightarrow> bool list \<Rightarrow> nat list" where
  "bit_gaps p [] = (if p then [1] else [])"
| "bit_gaps p (b # bs) = (if b = p then [1, 1] else [2]) @ bit_gaps b bs"

lemma edge_gaps_bits:
  "edge_gaps p 1 (concat (map rc5_send_bit bs) @ [False]) = bit_gaps p bs"
proof (induction p bs rule: bit_gaps.induct)
  case (1 p)
  then show ?case by (cases p) simp_all
next
  case (2 p b bs)
  have "edge_gaps p (Suc 0) (rc5_send_bit b @ xs) = (if b = p then [1, 1] else [2]) @ edge_gaps b 1 xs" for xs
    by (cases p; cases b) (simp_all add: rc5_send_bit_def rc5_send_one_def rc5_send_zero_def)
  with 2 show ?case by simp
qed

definition rc5_bits :: "bool \<Rightarrow> u8 \<Rightarrow> u8 \<Rightarrow> bool list" where
  "rc5_bits toggle addr cmd = [True, True, toggle] @ map (bit addr) [4, 3, 2, 1, 0] @ map (bit cmd) [5, 4, 3, 2, 1, 0]"

lemma rc5_edges_send:
  "rc5_edges (snd (rc5_send toggle addr cmd)) = bit_gaps True (tl (rc5_bits toggle addr cmd))"
proof -
  have "snd (rc5_send toggle addr cmd) = rc5_send_one @ concat (map rc5_send_bit (tl (rc5_bits toggle addr cmd))) @ [False]"
    by (simp add: rc5_send_def rc5_bits_def rc5_send_bit_def)
  then show ?thesis
    by (simp add: rc5_edges_def rc5_send_one_def edge_gaps_bits [simplified])
qed

section \<open>The decoder follows the signal\<close>

definition rc5_shift :: "u16 \<Rightarrow> bool \<Rightarrow> u16" where
  "rc5_shift w b = push_bit 1 w OR of_bool b"

definition rc5_rest :: "rc5 \<Rightarrow> u16 list \<times> u8 \<times> u8" where
  "rc5_rest s = (queue s, queue_len s, last_toggle s)"

definition rc5_at :: "rc5 \<Rightarrow> u16 \<Rightarrow> nat \<Rightarrow> nat \<Rightarrow> u16 list \<times> u8 \<times> u8 \<Rightarrow> bool" where
  "rc5_at s w c k r \<longleftrightarrow> enabled s \<and> \<not> temp_disable s \<and> toie s \<and> tcnt s = 0 \<and> temp_rc5 s = w \<and>
     halfbitcount s = of_nat c \<and> interrupts s = of_nat k \<and> 0 < k \<and> k < 200 \<and> rc5_rest s = r"

lemma odd_u8_of_nat: "odd (of_nat k :: u8) \<longleftrightarrow> odd k"
  by (simp add: even_of_nat_iff)

lemma and_one_u8: "(x :: u8) AND 1 = of_bool (odd x)"
  by (simp add: and_one_eq odd_iff_mod_2_eq_one even_iff_mod_2_eq_zero)

lemma low_bit: "(ucast (of_nat k AND 1 :: u8) :: u16) = of_bool (odd k)"
  by (simp add: and_one_u8 odd_u8_of_nat)

lemma low_bit_nonzero: "(of_nat k AND 1 :: u8) \<noteq> 0 \<longleftrightarrow> odd k"
  by (simp add: and_one_u8 odd_u8_of_nat)

lemma of_nat_u8_zero: "0 < k \<Longrightarrow> k < 256 \<Longrightarrow> (of_nat k :: u8) \<noteq> 0"
  using word_unat_eq_iff [of "of_nat k :: u8" 0] by (simp add: unat_of_nat)

lemma rc5_ticks:
  "tcnt s = 0 \<Longrightarrow> g < 256 \<Longrightarrow> (rc5_tick ^^ g) s = s\<lparr>tcnt := of_nat g\<rparr>"
proof (induction g)
  case (Suc g)
  with of_nat_u8_zero [of "Suc g"] show ?case by (simp add: rc5_tick_def Let_def add.commute)
qed simp

lemma rc5_halfbit_at:
  assumes "halfbitcount s = of_nat c" "interrupts s = of_nat k"
  shows "rc5_halfbit s = s\<lparr>halfbitcount := of_nat (c + 1),
    temp_rc5 := if even c then rc5_shift (temp_rc5 s) (odd k) else temp_rc5 s\<rparr>"
proof -
  have "(1 + of_nat c :: u8) AND 1 \<noteq> 0 \<longleftrightarrow> even c" using low_bit_nonzero [of "c + 1"] by simp
  then show ?thesis
    using assms low_bit [of k] by (simp add: rc5_halfbit_def Let_def rc5_shift_def add.commute)
qed

lemma rc5_step_at:
  assumes at: "rc5_at s w c k r" and k: "k < 199" and g: "gap_ok F_CPU n g"
  shows "rc5_at (rc5_step F_CPU s g)
    (if n = 1 then if even c then rc5_shift w (odd k) else w else rc5_shift w (odd k)) (c + n) (k + 1) r"
    and "n = 1 \<or> n = 2"
proof -
  show n: "n = 1 \<or> n = 2"
    using g by (auto simp: gap_ok_def rc5_received_bits_def Let_def split: if_splits)
  have t: "(rc5_tick ^^ g) s = s\<lparr>tcnt := of_nat g\<rparr>"
    using at g by (intro rc5_ticks) (simp_all add: rc5_at_def gap_ok_def)
  have k0: "(of_nat k :: u8) \<noteq> 0" using at by (intro of_nat_u8_zero) (simp_all add: rc5_at_def)
  let ?s = "s\<lparr>tcnt := 0\<rparr>"
  have one: "rc5_halfbit ?s = ?s\<lparr>halfbitcount := of_nat (c + 1),
      temp_rc5 := if even c then rc5_shift w (odd k) else w\<rparr>"
    using rc5_halfbit_at [of ?s c k] at by (simp add: rc5_at_def)
  have two: "(rc5_halfbit ^^ 2) ?s = ?s\<lparr>halfbitcount := of_nat (c + 2), temp_rc5 := rc5_shift w (odd k)\<rparr>"
  proof -
    have "(rc5_halfbit ^^ 2) ?s = rc5_halfbit (rc5_halfbit ?s)" by (simp add: numeral_2_eq_2)
    then show ?thesis
      using rc5_halfbit_at [of "rc5_halfbit ?s" "c + 1" k] at unfolding one by (simp add: rc5_at_def)
  qed
  have "rc5_step F_CPU s g = (let s' = (rc5_halfbit ^^ n) ?s in s'\<lparr>interrupts := interrupts s' + 1\<rparr>)"
    using at g k0 by (simp add: rc5_step_def t rc5_interrupt_def rc5_at_def gap_ok_def Let_def)
  then show "rc5_at (rc5_step F_CPU s g)
    (if n = 1 then if even c then rc5_shift w (odd k) else w else rc5_shift w (odd k)) (c + n) (k + 1) r"
    using n one two at k by (auto simp: rc5_at_def rc5_rest_def Let_def add.commute)
qed

text \<open>The bits that have been shifted in when the edges end.\<close>

definition heard :: "bool \<Rightarrow> bool list \<Rightarrow> bool list" where
  "heard p bs = (if last (p # bs) then p # bs else butlast (p # bs))"

lemma heard_Cons [simp]: "heard p (b # bs) = p # heard b bs"
  by (simp add: heard_def)

lemma heard_Nil: "heard p [] = (if p then [p] else [])"
  by (simp add: heard_def)

lemma rc5_follows_bits:
  assumes "rc5_at s w c k r" "even c" "odd k = p" "list_all2 (gap_ok F_CPU) (bit_gaps p bs) gs" "k + 2 * length bs < 190"
  shows "\<exists>k. rc5_at (foldl (rc5_step F_CPU) s gs)
    (foldl rc5_shift w (heard p bs)) (c + 2 * length bs + of_bool (last (p # bs))) k r"
  using assms
proof (induction p bs arbitrary: s w c k gs rule: bit_gaps.induct)
  case (1 p)
  show ?case
  proof (cases p)
    case True
    then obtain g where gs: "gs = [g]" "gap_ok F_CPU 1 g"
      using "1.prems"(4) by (auto simp: list_all2_Cons1)
    have "rc5_at (rc5_step F_CPU s g) (rc5_shift w True) (c + 1) (k + 1) r"
      using rc5_step_at(1) [OF "1.prems"(1) _ gs(2)] "1.prems"(2,3,5) True by simp
    then show ?thesis using True gs by (auto simp: heard_Nil)
  qed (use "1.prems" in \<open>auto simp: heard_Nil\<close>)
next
  case (2 p b bs)
  show ?case
  proof (cases "b = p")
    case True
    then obtain g h gs' where gs: "gs = g # h # gs'" "gap_ok F_CPU 1 g" "gap_ok F_CPU 1 h"
      "list_all2 (gap_ok F_CPU) (bit_gaps b bs) gs'"
      using "2.prems"(4) by (auto simp: list_all2_Cons1)
    have s1: "rc5_at (rc5_step F_CPU s g) (rc5_shift w p) (c + 1) (k + 1) r"
      using rc5_step_at(1) [OF "2.prems"(1) _ gs(2)] "2.prems"(2,3,5) by simp
    have s2: "rc5_at (rc5_step F_CPU (rc5_step F_CPU s g) h) (rc5_shift w p) (c + 2) (k + 2) r"
      using rc5_step_at(1) [OF s1 _ gs(3)] "2.prems"(2,5) by simp
    have "\<exists>k. rc5_at (foldl (rc5_step F_CPU) (rc5_step F_CPU (rc5_step F_CPU s g) h) gs')
      (foldl rc5_shift (rc5_shift w p) (heard b bs)) (c + 2 + 2 * length bs + of_bool (last (b # bs))) k r"
      by (rule "2.IH" [OF s2 _ _ gs(4)]) (use "2.prems"(2,3,5) True in simp_all)
    then show ?thesis using gs True by (simp only: foldl_Cons heard_Cons) (simp add: add_ac)
  next
    case False
    then obtain g gs' where gs: "gs = g # gs'" "gap_ok F_CPU 2 g" "list_all2 (gap_ok F_CPU) (bit_gaps b bs) gs'"
      using "2.prems"(4) by (auto simp: list_all2_Cons1)
    have s2: "rc5_at (rc5_step F_CPU s g) (rc5_shift w p) (c + 2) (k + 1) r"
      using rc5_step_at(1) [OF "2.prems"(1) _ gs(2)] "2.prems"(3,5) by simp
    have "\<exists>k. rc5_at (foldl (rc5_step F_CPU) (rc5_step F_CPU s g) gs')
      (foldl rc5_shift (rc5_shift w p) (heard b bs)) (c + 2 + 2 * length bs + of_bool (last (b # bs))) k r"
      by (rule "2.IH" [OF s2 _ _ gs(3)]) (use "2.prems"(2,3,5) False in auto)
    then show ?thesis using gs by (simp only: foldl_Cons heard_Cons) (simp add: add_ac)
  qed
qed

section \<open>The word\<close>

definition rc5_word :: "bool \<Rightarrow> u8 \<Rightarrow> u8 \<Rightarrow> u16" where
  "rc5_word toggle addr cmd = foldl rc5_shift 0 (rc5_bits toggle addr cmd)"

lemma bit_shift: "bit (rc5_shift w b) n \<longleftrightarrow> n < 16 \<and> (if n = 0 then b else bit w (n - 1))"
  unfolding rc5_shift_def bit_or_iff bit_push_bit_iff by (auto simp: bit_simps dest: bit_imp_le_length)

lemma bits_below_6: "n < (6 :: nat) \<longleftrightarrow> n = 0 \<or> n = 1 \<or> n = 2 \<or> n = 3 \<or> n = 4 \<or> n = 5"
  by presburger

lemma low_masks: "(0x3f :: 'a::len word) = mask 6" "(0x1f :: 'a::len word) = mask 5"
  by (simp_all add: mask_eq_exp_minus_1)

lemma rc5_word_bits:
  "n < 6 \<Longrightarrow> bit (rc5_word toggle addr cmd) n = bit cmd n"
  "n < 5 \<Longrightarrow> bit (rc5_word toggle addr cmd) (6 + n) = bit addr n"
  "bit (rc5_word toggle addr cmd) 11 = toggle"
proof -
  show "bit (rc5_word toggle addr cmd) n = bit cmd n" if "n < 6"
    using that unfolding bits_below_6 by (auto simp: rc5_word_def rc5_bits_def bit_shift)
  show "bit (rc5_word toggle addr cmd) (6 + n) = bit addr n" if "n < 5"
  proof -
    have "n = 0 \<or> n = 1 \<or> n = 2 \<or> n = 3 \<or> n = 4" using that by linarith
    then show ?thesis by (auto simp: rc5_word_def rc5_bits_def bit_shift)
  qed
  show "bit (rc5_word toggle addr cmd) 11 = toggle" by (simp add: rc5_word_def rc5_bits_def bit_shift)
qed

lemma rc5_word_fields:
  "rc5_code (rc5_word toggle addr cmd) = cmd AND 0x3f"
  "rc5_address (rc5_word toggle addr cmd) = addr AND 0x1f"
  "rc5_toggle_bit (rc5_word toggle addr cmd) = of_bool toggle"
proof -
  show "rc5_code (rc5_word toggle addr cmd) = cmd AND 0x3f"
    by (rule bit_word_eqI) (auto simp: rc5_code_def low_masks bit_simps rc5_word_bits(1))
  show "rc5_address (rc5_word toggle addr cmd) = addr AND 0x1f"
    by (rule bit_word_eqI) (auto simp: rc5_address_def low_masks bit_simps rc5_word_bits(2))
  show "rc5_toggle_bit (rc5_word toggle addr cmd) = of_bool toggle"
    using rc5_word_bits(3) [of toggle addr cmd] by (simp add: rc5_toggle_bit_def and_one_eq mod_2_eq_odd bit_iff_odd_drop_bit)
qed

section \<open>A message gets through\<close>

definition rc5_idle :: "rc5 \<Rightarrow> bool" where
  "rc5_idle s \<longleftrightarrow> enabled s \<and> \<not> temp_disable s \<and> interrupts s = 0 \<and> halfbitcount s = 0"

lemma rc5_round: "tcnt s = 0 \<Longrightarrow> toie s \<Longrightarrow> (rc5_tick ^^ 256) s = rc5_overflow (s\<lparr>tcnt := 0\<rparr>)"
proof -
  assume t: "tcnt s = 0" "toie s"
  have "(rc5_tick ^^ (1 + 255)) s = rc5_tick ((rc5_tick ^^ 255) s)"
    unfolding funpow_add by simp
  moreover have "(256 :: u8) = 0" by code_simp
  ultimately show ?thesis using t rc5_ticks [of s 255] by (simp add: rc5_tick_def Let_def)
qed

lemma rc5_start:
  assumes "rc5_idle s"
  shows "rc5_at (rc5_interrupt F_CPU s) 0 0 1 (rc5_rest s)"
  using assms by (simp add: rc5_idle_def rc5_interrupt_def rc5_at_def rc5_rest_def)

lemma rc5_bits_split: "rc5_bits toggle addr cmd = True # tl (rc5_bits toggle addr cmd)" "length (tl (rc5_bits toggle addr cmd)) = 13"
  by (simp_all add: rc5_bits_def)

lemma shift_last:
  "xs \<noteq> [] \<Longrightarrow> foldl rc5_shift 0 xs =
    (if last xs then foldl rc5_shift 0 (if last xs then xs else butlast xs)
     else push_bit 1 (foldl rc5_shift 0 (if last xs then xs else butlast xs)))"
  by (cases xs rule: rev_cases) (simp_all add: rc5_shift_def)

lemma rc5_heard:
  assumes s: "rc5_idle s" and gs: "list_all2 (gap_ok F_CPU) (rc5_edges (snd (rc5_send toggle addr cmd))) gs"
  shows "rc5_idle (rc5_hears F_CPU gs s) \<and> received_command (rc5_hears F_CPU gs s) = rc5_word toggle addr cmd \<and>
    new_data (rc5_hears F_CPU gs s) \<and> rc5_rest (rc5_hears F_CPU gs s) = rc5_rest s"
proof -
  let ?bs = "tl (rc5_bits toggle addr cmd)"
  let ?w = "foldl rc5_shift 0 (heard True ?bs)"
  obtain k where at: "rc5_at (foldl (rc5_step F_CPU) (rc5_interrupt F_CPU s) gs) ?w (26 + of_bool (last (True # ?bs))) k (rc5_rest s)"
    using rc5_follows_bits [OF rc5_start [OF s, of F_CPU], of True F_CPU ?bs gs] gs
    unfolding rc5_edges_send rc5_bits_split(2) by auto
  have w: "rc5_word toggle addr cmd = (if last (True # ?bs) then ?w else push_bit 1 ?w)"
    unfolding rc5_word_def heard_def
    by (subst rc5_bits_split(1)) (rule shift_last, simp)
  let ?s = "foldl (rc5_step F_CPU) (rc5_interrupt F_CPU s) gs"
  have "rc5_hears F_CPU gs s = rc5_overflow (?s\<lparr>tcnt := 0\<rparr>)"
    unfolding rc5_hears_def by (rule rc5_round) (use at in \<open>simp_all add: rc5_at_def\<close>)
  then show ?thesis
    using at w by (cases "last (True # ?bs)") (simp_all add: rc5_at_def rc5_overflow_def rc5_idle_def rc5_rest_def Let_def)
qed

text \<open>
  C0. What \<open>rc5_send\<close> sends is what \<open>rc5_process\<close> queues at the receiver: when the time between two
  edges of the signal is in the tolerance for the number of half bits that have passed, an idle
  decoder puts a word in front of the queue whose address, code and toggle bit are those sent (the
  low five and six bits of address and code), unless its toggle bit is that of the command before,
  and is idle again.
\<close>

theorem rc5_roundtrip:
  assumes "rc5_idle s" "queue s \<noteq> []"
    "list_all2 (gap_ok F_CPU) (rc5_edges (snd (rc5_send toggle addr cmd))) gs"
  shows "\<exists>raw. rc5_address raw = addr AND 0x1f \<and> rc5_code raw = cmd AND 0x3f \<and> rc5_toggle_bit raw = of_bool toggle \<and>
    rc5_idle (rc5_process (rc5_hears F_CPU gs s)) \<and>
    queue (rc5_process (rc5_hears F_CPU gs s)) = (if last_toggle s = of_bool toggle then queue s else raw # butlast (queue s)) \<and>
    queue_len (rc5_process (rc5_hears F_CPU gs s)) = (if last_toggle s = of_bool toggle \<or> length (queue s) \<le> unat (queue_len s)
      then queue_len s else queue_len s + 1)"
proof -
  let ?s = "rc5_hears F_CPU gs s" and ?raw = "rc5_word toggle addr cmd"
  have s: "rc5_idle ?s" "received_command ?s = ?raw" "new_data ?s" "queue ?s = queue s" "queue_len ?s = queue_len s"
    "last_toggle ?s = last_toggle s"
    using rc5_heard [OF assms(1,3)] by (simp_all add: rc5_rest_def)
  have shift: "(memcpy_at 1 (take (length (queue s) - 1) (queue s)) (queue s))[0 := ?raw] = ?raw # butlast (queue s)"
    using assms(2) by (cases "queue s") (simp_all add: memcpy_at_def butlast_conv_take)
  have "rc5_idle (rc5_process ?s) \<and>
    queue (rc5_process ?s) = (if last_toggle s = of_bool toggle then queue s else ?raw # butlast (queue s)) \<and>
    queue_len (rc5_process ?s) = (if last_toggle s = of_bool toggle \<or> length (queue s) \<le> unat (queue_len s)
      then queue_len s else queue_len s + 1)"
    using s shift rc5_word_fields(3) [of toggle addr cmd]
    by (auto simp: rc5_process_def Let_def rc5_idle_def)
  with rc5_word_fields [of toggle addr cmd] show ?thesis by blast
qed

lemma steady_gaps:
  "gap_ok F_CPU 1 (h * 1) \<Longrightarrow> gap_ok F_CPU 2 (h * 2) \<Longrightarrow> list_all2 (gap_ok F_CPU) (bit_gaps p bs) (map ((*) h) (bit_gaps p bs))"
  by (induction p bs rule: bit_gaps.induct) auto

theorem rc5_roundtrip_witness:
  "\<exists>raw. rc5_address raw = 5 \<and> rc5_code raw = 53 \<and>
    queue (rc5_process (rc5_hears 16000000 (map ((*) 14) (rc5_edges (snd (rc5_send True 5 53)))) (rc5_init 1 9))) = [raw]"
proof -
  have "list_all2 (gap_ok 16000000) (rc5_edges (snd (rc5_send True 5 53))) (map ((*) 14) (rc5_edges (snd (rc5_send True 5 53))))"
    unfolding rc5_edges_send
    by (rule steady_gaps) (simp_all add: gap_ok_def rc5_received_bits_def RC5_HALF_BIT_TICKS_def RC5_ENVIRONMENT_def RC5_BIT_TICKS_def)
  then show ?thesis
    using rc5_roundtrip [of "rc5_init 1 9" 16000000 True 5 53]
    by (auto simp: rc5_idle_def rc5_init_def)
qed

section \<open>Any edges\<close>

datatype rc5_event = Edge | Timer

fun rc5_run :: "nat \<Rightarrow> rc5_event list \<Rightarrow> rc5 \<Rightarrow> rc5" where
  "rc5_run F_CPU [] s = s"
| "rc5_run F_CPU (Edge # es) s = rc5_run F_CPU es (rc5_interrupt F_CPU s)"
| "rc5_run F_CPU (Timer # es) s = rc5_run F_CPU es (rc5_tick s)"

definition rc5_inv :: "rc5 \<Rightarrow> bool" where
  "rc5_inv s \<longleftrightarrow> enabled s \<and> (toie s \<or> rc5_idle s)"

lemma rc5_halfbits_keep:
  "enabled ((rc5_halfbit ^^ n) s) = enabled s" "toie ((rc5_halfbit ^^ n) s) = toie s"
  by (induction n) (simp_all add: rc5_halfbit_def Let_def)

lemma rc5_inv_interrupt: "rc5_inv s \<Longrightarrow> rc5_inv (rc5_interrupt F_CPU s)"
  by (auto simp: rc5_inv_def rc5_interrupt_def rc5_idle_def Let_def rc5_halfbits_keep split: option.split)

lemma rc5_overflow_idle: "enabled s \<Longrightarrow> rc5_idle (rc5_overflow s) \<and> \<not> toie (rc5_overflow s)"
  by (simp add: rc5_overflow_def rc5_idle_def Let_def)

lemma rc5_inv_tick: "rc5_inv s \<Longrightarrow> rc5_inv (rc5_tick s)"
  using rc5_overflow_idle [of "s\<lparr>tcnt := tcnt s + 1\<rparr>"]
  by (auto simp: rc5_inv_def rc5_tick_def rc5_idle_def Let_def)

lemma rc5_inv_run: "rc5_inv s \<Longrightarrow> rc5_inv (rc5_run F_CPU es s)"
  by (induction F_CPU es s rule: rc5_run.induct) (simp_all add: rc5_inv_interrupt rc5_inv_tick)

lemma rc5_idle_ticks: "rc5_idle s \<Longrightarrow> \<not> toie s \<Longrightarrow> rc5_idle ((rc5_tick ^^ n) s) \<and> \<not> toie ((rc5_tick ^^ n) s)"
  by (induction n) (simp_all add: rc5_tick_def rc5_idle_def Let_def)

lemma rc5_silence:
  "enabled s \<Longrightarrow> toie s \<Longrightarrow> 256 \<le> unat (tcnt s) + n \<Longrightarrow> rc5_idle ((rc5_tick ^^ n) s)"
proof (induction n arbitrary: s)
  case 0
  then show ?case using unat_u8_lt [of "tcnt s"] by simp
next
  case (Suc n)
  have swap: "(rc5_tick ^^ Suc n) s = (rc5_tick ^^ n) (rc5_tick s)" by (simp add: funpow_swap1)
  show ?case
  proof (cases "tcnt s + 1 = 0")
    case True
    then have "rc5_tick s = rc5_overflow (s\<lparr>tcnt := tcnt s + 1\<rparr>)" using Suc.prems by (simp add: rc5_tick_def Let_def)
    then show ?thesis
      using rc5_idle_ticks [of "rc5_tick s" n] rc5_overflow_idle [of "s\<lparr>tcnt := tcnt s + 1\<rparr>"] Suc.prems swap by simp
  next
    case False
    have "unat (tcnt s) \<noteq> 255"
    proof
      assume "unat (tcnt s) = 255"
      then have "unat (tcnt s + 1) = 0" by (simp add: unat_word_ariths)
      with False show "False" by (simp add: unat_eq_zero)
    qed
    then have "unat (tcnt s) < 255" using unat_u8_le [of "tcnt s"] by linarith
    then have "unat (tcnt s + 1) = unat (tcnt s) + 1" by (intro unat_inc_small) simp
    moreover have "rc5_tick s = s\<lparr>tcnt := tcnt s + 1\<rparr>" using False by (simp add: rc5_tick_def Let_def)
    ultimately show ?thesis
      unfolding swap by (intro Suc.IH) (use Suc.prems in simp_all)
  qed
qed

text \<open>
  Whatever edges come, at whatever times, after one silent round of the timer the decoder is
  idle again, ready for the next message.
\<close>

theorem rc5_resynchronises: "rc5_idle ((rc5_tick ^^ 256) (rc5_run F_CPU es (rc5_init n t)))"
proof -
  have inv: "rc5_inv (rc5_run F_CPU es (rc5_init n t))"
    by (rule rc5_inv_run) (simp add: rc5_inv_def rc5_init_def rc5_idle_def)
  show ?thesis
  proof (cases "toie (rc5_run F_CPU es (rc5_init n t))")
    case True
    with inv show ?thesis by (intro rc5_silence) (simp_all add: rc5_inv_def)
  next
    case False
    with inv show ?thesis using rc5_idle_ticks by (simp add: rc5_inv_def)
  qed
qed

lemma no_bits_at_8MHz: "rc5_received_bits 8000000 c = None"
proof -
  have "RC5_BIT_TICKS 8000000 = 1" by (simp add: RC5_BIT_TICKS_def)
  then show ?thesis
    by (simp add: rc5_received_bits_def RC5_HALF_BIT_TICKS_def RC5_ENVIRONMENT_def Let_def)
qed

text \<open>
  At 8 MHz the length of a bit, computed at compile time in 32 bits, comes out as one tick
  instead of 14, because the product overflows: no gap is in a tolerance, and whatever is sent, no
  command is ever received.
\<close>

theorem rc5_deaf_at_8MHz: "\<not> new_data (rc5_run 8000000 es (rc5_init n t))"
proof -
  have "halfbitcount s = 0 \<Longrightarrow> \<not> new_data s \<Longrightarrow> \<not> new_data (rc5_run 8000000 es s)" for s
  proof (induction es arbitrary: s)
    case (Cons e es)
    have "halfbitcount (rc5_run 8000000 [e] s) = 0 \<and> \<not> new_data (rc5_run 8000000 [e] s)"
      using Cons.prems
      by (cases e) (simp_all add: rc5_interrupt_def no_bits_at_8MHz rc5_tick_def rc5_overflow_def Let_def)
    with Cons.IH show ?case by (cases e) simp_all
  qed simp
  then show ?thesis by (simp add: rc5_init_def)
qed

end
