(* ===== verification/Tftp.thy ===== *)
theory Tftp imports Vfs_Copy begin

text \<open>
  The TFTP server over the virtual file system (services/tftp/tftp-vfs.c, tftp_net.c): one
  connection that serves read and write requests block by block.

  \<open>uip_appdata\<close> is the list of the bytes of the packet buffer from there on, with \<open>uip_datalen\<close> of
  them received.  The result of a handler is the packet sent, if any, the state and the world.  A
  null handle that is used, and a file name without its final zero, are \<open>None\<close>.  A module reads
  into the 512 bytes of the packet's data.  The peer is \<open>None\<close> when the connection has been reset
  to take a packet from anywhere.
\<close>

section \<open>Packets\<close>

definition net16 :: "u8 list \<Rightarrow> nat \<Rightarrow> u16" where
  "net16 buf i = of_nat (unat (buf ! i) * 256 + unat (buf ! (i + 1)))"

definition put16 :: "u16 \<Rightarrow> u8 list" where
  "put16 v = [of_nat (unat v div 256), of_nat (unat v mod 256)]"

definition tftp_filename :: "u8 list \<Rightarrow> u8 list option" where
  "tftp_filename buf = (let raw = drop 2 buf in if 0 \<in> set raw then Some (takeWhile (\<lambda>c. c \<noteq> 0) raw) else None)"

section \<open>The connection\<close>

record tftp_connection_state =
  tf_fh :: "vfs_file_handle_t option"
  tf_download :: bool
  tf_finished :: bool
  tf_transfered :: u16
  tf_peer :: "(u8 list \<times> u16) option"

type_synonym tftp_result = "(u8 list option \<times> tftp_connection_state \<times> vfs_world) option"

definition close_connection ::
  "vfs_func_t list \<Rightarrow> u8 list option \<Rightarrow> tftp_connection_state \<Rightarrow> vfs_world \<Rightarrow> tftp_result" where
  "close_connection funcs sent s w =
    (let s = s\<lparr>tf_peer := None\<rparr>
     in case tf_fh s of
          None \<Rightarrow> Some (sent, s, w)
        | Some h \<Rightarrow> do { (_, _, w) \<leftarrow> vfs_close funcs h w; Some (sent, s\<lparr>tf_fh := None\<rparr>, w) })"

definition error_out ::
  "vfs_func_t list \<Rightarrow> u8 list \<Rightarrow> tftp_connection_state \<Rightarrow> vfs_world \<Rightarrow> tftp_result" where
  "error_out funcs buf s w =
    (let buf = memcpy_at 0 (put16 5) buf; buf = memcpy_at 2 (put16 0) buf; buf = memcpy_at 4 [0] buf
     in close_connection funcs (Some (take 5 buf)) s w)"

definition send_data ::
  "vfs_func_t list \<Rightarrow> u8 list \<Rightarrow> tftp_connection_state \<Rightarrow> vfs_world \<Rightarrow> tftp_result" where
  "send_data funcs buf s w =
    (if tf_finished s then close_connection funcs None s w
     else
       let buf = memcpy_at 0 (put16 3) buf; buf = memcpy_at 2 (put16 (tf_transfered s + 1)) buf
       in do {
         h \<leftarrow> tf_fh s;
         (ret, d, h, w) \<leftarrow> vfs_read funcs h (slice 4 512 buf) 512 w;
         let buf = memcpy_at 4 d buf;
         let s = s\<lparr>tf_fh := Some h\<rparr>;
         if int32 (int ret) < 0 then error_out funcs buf s w
         else
           let s = (if int32 (int ret) < 512 then s\<lparr>tf_finished := True\<rparr> else s)
           in Some (Some (take (4 + ret) buf), s\<lparr>tf_transfered := tf_transfered s + 1\<rparr>, w)
       })"

definition send_ack ::
  "vfs_func_t list \<Rightarrow> u8 list \<Rightarrow> tftp_connection_state \<Rightarrow> vfs_world \<Rightarrow> tftp_result" where
  "send_ack funcs buf s w =
    (let buf = memcpy_at 0 (put16 4) buf
     in if tf_finished s then close_connection funcs (Some (take 4 buf)) s w
        else Some (Some (take 4 buf), s, w))"

definition tftp_handle_packet ::
  "vfs_func_t list \<Rightarrow> u8 list \<times> u16 \<Rightarrow> u8 list \<Rightarrow> u16 \<Rightarrow> tftp_connection_state \<Rightarrow> vfs_world \<Rightarrow> tftp_result" where
  "tftp_handle_packet funcs src buf uip_datalen s w =
    (if length buf < 5 then None
     else
       let s = s\<lparr>tf_peer := Some src\<rparr>; block = net16 buf 2
       in if net16 buf 0 = 1 then
            let s = s\<lparr>tf_download := True, tf_transfered := 0, tf_finished := False\<rparr>
            in do {
              name \<leftarrow> tftp_filename buf;
              (fh, w) \<leftarrow> vfs_open funcs name w;
              let s = s\<lparr>tf_fh := fh\<rparr>;
              if fh = None then error_out funcs buf s w else send_data funcs buf s w
            }
          else if net16 buf 0 = 4 then
            if \<not> tf_download s then error_out funcs buf s w
            else if block < tf_transfered s \<or> block > tf_transfered s + 1 then error_out funcs buf s w
            else send_data funcs buf (s\<lparr>tf_transfered := block\<rparr>) w
          else if net16 buf 0 = 2 then
            let s = s\<lparr>tf_download := False, tf_transfered := 0, tf_finished := False\<rparr>
            in do {
              name \<leftarrow> tftp_filename buf;
              (fh, w) \<leftarrow> vfs_create funcs name w;
              let s = s\<lparr>tf_fh := fh\<rparr>;
              if fh = None then error_out funcs buf s w
              else send_ack funcs (memcpy_at 2 (put16 0) buf) s w
            }
          else if net16 buf 0 = 3 then
            if tf_download s then error_out funcs buf s w
            else if block < tf_transfered s then error_out funcs buf s w
            else if block = tf_transfered s then send_ack funcs buf s w
            else if block > tf_transfered s + 1 then error_out funcs buf s w
            else do {
              h \<leftarrow> tf_fh s;
              (ret, _, h, w) \<leftarrow> vfs_write funcs h (drop 4 buf) (unat (uip_datalen - 4)) w;
              let s = s\<lparr>tf_fh := Some h\<rparr>;
              if ret = 0 then error_out funcs buf s w
              else
                let s = (if uip_datalen < 512 + 4 then s\<lparr>tf_finished := True\<rparr> else s)
                in send_ack funcs buf (s\<lparr>tf_transfered := block\<rparr>) w
            }
          else error_out funcs buf s w)"

definition tftp_net_main ::
  "vfs_func_t list \<Rightarrow> bool \<Rightarrow> u8 list \<times> u16 \<Rightarrow> u8 list \<Rightarrow> u16 \<Rightarrow> tftp_connection_state \<Rightarrow> vfs_world \<Rightarrow> tftp_result" where
  "tftp_net_main funcs uip_newdata src buf uip_datalen s w =
    (if uip_newdata then tftp_handle_packet funcs src buf uip_datalen s w else Some (None, s, w))"

text \<open>After \<open>tftp_net_init\<close>, when there is a free connection.\<close>

definition tftp_net_init :: tftp_connection_state where
  "tftp_net_init = \<lparr>tf_fh = None, tf_download = False, tf_finished = False, tf_transfered = 0, tf_peer = None\<rparr>"

text \<open>A series of packets, and what is sent in answer to each.\<close>

fun tftp_session ::
  "vfs_func_t list \<Rightarrow> u8 list \<times> u16 \<Rightarrow> (u8 list \<times> u16) list \<Rightarrow> tftp_connection_state \<Rightarrow> vfs_world \<Rightarrow>
    (u8 list option list \<times> tftp_connection_state \<times> vfs_world) option" where
  "tftp_session funcs src [] s w = Some ([], s, w)"
| "tftp_session funcs src ((buf, n) # ps) s w = do {
    (sent, s, w) \<leftarrow> tftp_net_main funcs True src buf n s w;
    (rest, s, w) \<leftarrow> tftp_session funcs src ps s w;
    Some (sent # rest, s, w)
  }"

section \<open>Reading and writing packets\<close>

lemma length_put16 [simp]: "length (put16 v) = 2"
  by (simp add: put16_def)

lemma net16_put16:
  assumes "i + 2 \<le> length buf" "slice i 2 buf = put16 v"
  shows "net16 buf i = v"
proof -
  have "buf ! i = put16 v ! 0" "buf ! (i + 1) = put16 v ! 1"
    using nth_slice [of i 2 buf 0] nth_slice [of i 2 buf 1] assms by simp_all
  moreover have "unat v div 256 mod 256 = unat v div 256" using unat_u16_lt [of v] by (intro mod_less) linarith
  ultimately show ?thesis
    by (simp add: net16_def put16_def unat_of_nat del: of_nat_add of_nat_mult)
qed

text \<open>A packet of a type and a block number, in a buffer with room for a block of data.\<close>

definition tftp_packet :: "u16 \<Rightarrow> u16 \<Rightarrow> u8 list \<Rightarrow> bool" where
  "tftp_packet op k buf \<longleftrightarrow> 516 \<le> length buf \<and> slice 0 2 buf = put16 op \<and> slice 2 2 buf = put16 k"

lemma tftp_packetD:
  assumes "tftp_packet op k buf"
  shows "\<not> length buf < 5" "net16 buf 0 = op" "net16 buf 2 = k" "516 \<le> length buf"
  using assms net16_put16 [of 0 buf op] net16_put16 [of 2 buf k] by (simp_all add: tftp_packet_def)

definition tftp_data :: "u16 \<Rightarrow> u8 list \<Rightarrow> u8 list" where
  "tftp_data k d = put16 3 @ put16 k @ d"

definition tftp_ack :: "u16 \<Rightarrow> u8 list" where
  "tftp_ack k = put16 4 @ put16 k"

definition tftp_error :: "u8 list" where
  "tftp_error = put16 5 @ put16 0 @ [0]"

lemma take_header:
  assumes "516 \<le> length buf" "length a = 2" "length b = 2" "length d \<le> 512"
  shows "take (4 + length d) (memcpy_at 4 d (memcpy_at 2 b (memcpy_at 0 a buf))) = a @ b @ d"
  using assms by (simp add: memcpy_at_def)

lemma error_out_sends:
  "516 \<le> length buf \<Longrightarrow> error_out funcs buf s w = close_connection funcs (Some tftp_error) s w"
  using take_header [of buf "put16 5" "put16 0" "[0]"] by (simp add: error_out_def tftp_error_def Let_def)

lemma send_ack_sends:
  assumes "516 \<le> length buf" "slice 2 2 buf = put16 k"
  shows "send_ack funcs buf s w = (if tf_finished s then close_connection funcs (Some (tftp_ack k)) s w
    else Some (Some (tftp_ack k), s, w))"
proof -
  have "take 4 (memcpy_at 0 (put16 4) buf) = put16 4 @ slice 2 2 buf"
    using assms(1) by (simp add: memcpy_at_def slice_def flip: numeral_2_eq_2)
  then show ?thesis using assms(2) by (simp add: send_ack_def tftp_ack_def)
qed

lemma memcpy_slice:
  "off + n \<le> length buf \<Longrightarrow> length d \<le> n \<Longrightarrow> memcpy_at off (memcpy_at 0 d (slice off n buf)) buf = memcpy_at off d buf"
  by (rule nth_equalityI) (auto simp: nth_memcpy_at nth_slice)

section \<open>Downloading\<close>

text \<open>
  A handle that gives its remaining bytes a block at a time can be served and closed.
\<close>

locale tftp_source = vfs_reader "vfs_read funcs" rest 512
  for funcs and rest :: "vfs_world \<Rightarrow> vfs_file_handle_t \<Rightarrow> u8 list \<Rightarrow> bool" +
  assumes close_ok: "rest w h d \<Longrightarrow> \<exists>r h'. vfs_close funcs h w = Some (r, h', w)"

context tftp_source
begin

lemma sends_block:
  assumes "rest w h d" "tf_fh s = Some h" "\<not> tf_finished s" "516 \<le> length buf"
  shows "\<exists>h'. send_data funcs buf s w = Some (Some (tftp_data (tf_transfered s + 1) (take 512 d)),
      s\<lparr>tf_fh := Some h', tf_finished := length d < 512, tf_transfered := tf_transfered s + 1\<rparr>, w) \<and> rest w h' (drop 512 d)"
proof -
  let ?buf = "memcpy_at 2 (put16 (tf_transfered s + 1)) (memcpy_at 0 (put16 3) buf)"
  have len: "length (slice 4 512 ?buf) = 512" using assms(4) by simp
  obtain h' where h': "vfs_read funcs h (slice 4 512 ?buf) 512 w =
      Some (min 512 (length d), memcpy_at 0 (take 512 d) (slice 4 512 ?buf), h', w)" "rest w h' (drop 512 d)"
    using read_next [OF assms(1) len] by blast
  let ?n = "min 512 (length d)"
  have n: "int32 (int ?n) = int ?n" by (simp add: int32_id)
  have pkt: "take (4 + ?n) (memcpy_at 4 (memcpy_at 0 (take 512 d) (slice 4 512 ?buf)) ?buf) =
      tftp_data (tf_transfered s + 1) (take 512 d)"
  proof -
    have "memcpy_at 4 (memcpy_at 0 (take 512 d) (slice 4 512 ?buf)) ?buf = memcpy_at 4 (take 512 d) ?buf"
      using assms(4) by (intro memcpy_slice) simp_all
    then show ?thesis
      using take_header [OF assms(4), of "put16 3" "put16 (tf_transfered s + 1)" "take 512 d"]
      by (simp add: tftp_data_def min.commute)
  qed
  have "send_data funcs buf s w = Some (Some (tftp_data (tf_transfered s + 1) (take 512 d)),
      s\<lparr>tf_fh := Some h', tf_finished := length d < 512, tf_transfered := tf_transfered s + 1\<rparr>, w)"
    using assms(2,3) h'(1) n pkt by (cases "length d < 512") (simp_all add: send_data_def Let_def)
  with h'(2) show ?thesis by blast
qed

lemma answers_ack:
  assumes "rest w h d" "tf_fh s = Some h" "tf_download s" "\<not> tf_finished s" "tftp_packet 4 (tf_transfered s) buf"
    "unat (tf_transfered s) < 65535"
  shows "\<exists>h'. tftp_handle_packet funcs src buf n s w = Some (Some (tftp_data (tf_transfered s + 1) (take 512 d)),
      s\<lparr>tf_peer := Some src, tf_fh := Some h', tf_finished := length d < 512, tf_transfered := tf_transfered s + 1\<rparr>, w) \<and>
    rest w h' (drop 512 d)"
proof -
  note p = tftp_packetD [OF assms(5)]
  have "unat (tf_transfered s + 1) = unat (tf_transfered s) + 1" using assms(6) by (intro unat_inc_small) simp
  then have "\<not> tf_transfered s > tf_transfered s + 1" by (simp add: word_less_nat_alt)
  then show ?thesis using sends_block [OF assms(1), of "s\<lparr>tf_peer := Some src\<rparr>" buf] assms(2-4) p
    by (simp add: tftp_handle_packet_def Let_def)
qed

text \<open>The blocks that are left, the acknowledgements of those sent, and the final one.\<close>

lemma answers_acks:
  assumes "rest w h d" "tf_fh s = Some h" "tf_download s" "\<not> tf_finished s"
    "length ps = length d div 512 + 1" "\<forall>i < length ps. tftp_packet 4 (tf_transfered s + of_nat i) (fst (ps ! i))"
    "unat (tf_transfered s) + length ps \<le> 65535"
  shows "\<exists>h' s'. tftp_session funcs src ps s w =
      Some (map (\<lambda>i. Some (tftp_data (tf_transfered s + of_nat i + 1) (take 512 (drop (512 * i) d)))) [0..<length ps], s', w) \<and>
    tf_fh s' = Some h' \<and> (\<exists>r. rest w h' r) \<and> tf_download s' \<and> tf_finished s' \<and> tf_transfered s' = tf_transfered s + of_nat (length ps)"
  using assms
proof (induction ps arbitrary: h d s)
  case (Cons p ps)
  obtain buf n where p: "p = (buf, n)" by (cases p)
  have ack: "tftp_packet 4 (tf_transfered s) buf" using Cons.prems(6) p by auto
  have t: "unat (tf_transfered s) < 65535" using Cons.prems(7) by simp
  define s1 where "s1 h = s\<lparr>tf_peer := Some src, tf_fh := Some h, tf_finished := length d < 512, tf_transfered := tf_transfered s + 1\<rparr>" for h
  obtain h' where h': "tftp_handle_packet funcs src buf n s w = Some (Some (tftp_data (tf_transfered s + 1) (take 512 d)), s1 h', w)"
    "rest w h' (drop 512 d)"
    using answers_ack [OF Cons.prems(1-4) ack t] unfolding s1_def by blast
  have s1: "tf_fh (s1 h') = Some h'" "tf_download (s1 h')" "tf_finished (s1 h') = (length d < 512)"
    "tf_transfered (s1 h') = tf_transfered s + 1" using Cons.prems(3) by (simp_all add: s1_def)
  show ?case
  proof (cases "length d < 512")
    case True
    then have "ps = []" using Cons.prems(5) by simp
    then show ?thesis using p h' s1 True by (auto simp: tftp_net_main_def)
  next
    case False
    have "length d div 512 = length (drop 512 d) div 512 + 1" using False le_div_geq [of 512 "length d"] by simp
    then have len: "length ps = length (drop 512 d) div 512 + 1" using Cons.prems(5) by simp
    have acks: "\<forall>i < length ps. tftp_packet 4 (tf_transfered (s1 h') + of_nat i) (fst (ps ! i))"
    proof (intro allI impI)
      fix i assume "i < length ps"
      then have "tftp_packet 4 (tf_transfered s + of_nat (Suc i)) (fst ((p # ps) ! Suc i))"
        using Cons.prems(6) by (metis Suc_mono length_Cons)
      then show "tftp_packet 4 (tf_transfered (s1 h') + of_nat i) (fst (ps ! i))" by (simp add: s1 add_ac)
    qed
    have "unat (tf_transfered s + 1) = unat (tf_transfered s) + 1" using t by (intro unat_inc_small) simp
    then have "unat (tf_transfered (s1 h')) + length ps \<le> 65535" using Cons.prems(7) s1(4) by simp
    from Cons.IH [OF h'(2) s1(1,2) _ len acks this] False s1(3)
    obtain h'' s'' where r: "tftp_session funcs src ps (s1 h') w =
        Some (map (\<lambda>i. Some (tftp_data (tf_transfered s + 1 + of_nat i + 1) (take 512 (drop (512 * i) (drop 512 d))))) [0..<length ps], s'', w)"
      "tf_fh s'' = Some h''" "\<exists>r. rest w h'' r" "tf_download s''" "tf_finished s''" "tf_transfered s'' = tf_transfered s + 1 + of_nat (length ps)"
      using s1(4) by auto
    have "map (\<lambda>i. Some (tftp_data (tf_transfered s + of_nat i + 1) (take 512 (drop (512 * i) d)))) [0..<length (p # ps)] =
        Some (tftp_data (tf_transfered s + 1) (take 512 d)) #
        map (\<lambda>i. Some (tftp_data (tf_transfered s + 1 + of_nat i + 1) (take 512 (drop (512 * i) (drop 512 d))))) [0..<length ps]"
      by (simp only: length_Cons upt_conv_Cons [OF zero_less_Suc] map_Suc_upt [symmetric] list.map map_map) (simp add: add_ac)
    then show ?thesis using p h'(1) r by (simp add: tftp_net_main_def add_ac)
  qed
qed simp

lemma closes:
  assumes "rest w h d" "tf_fh s = Some h"
  shows "close_connection funcs sent s w = Some (sent, s\<lparr>tf_peer := None, tf_fh := None\<rparr>, w)"
  using close_ok [OF assms(1)] assms(2) by (auto simp: close_connection_def)

lemma last_ack:
  assumes "rest w h d" "tf_fh s = Some h" "tf_download s" "tf_finished s" "tftp_packet 4 (tf_transfered s) buf"
    "unat (tf_transfered s) < 65535"
  shows "\<exists>s'. tftp_session funcs src [(buf, n)] s w = Some ([None], s', w) \<and> tf_fh s' = None \<and> tf_peer s' = None"
proof -
  note p = tftp_packetD [OF assms(5)]
  have "unat (tf_transfered s + 1) = unat (tf_transfered s) + 1" using assms(6) by (intro unat_inc_small) simp
  then have "\<not> tf_transfered s > tf_transfered s + 1" by (simp add: word_less_nat_alt)
  then show ?thesis
    using closes [OF assms(1), of "s\<lparr>tf_peer := Some src\<rparr>"] assms(2-4) p
    by (simp add: tftp_net_main_def tftp_handle_packet_def send_data_def Let_def)
qed

end

lemma session_append:
  "tftp_session funcs src ps s w = Some (a, s1, w1) \<Longrightarrow> tftp_session funcs src qs s1 w1 = Some (b, s2, w2) \<Longrightarrow>
    tftp_session funcs src (ps @ qs) s w = Some (a @ b, s2, w2)"
  by (induction funcs src ps s w arbitrary: a rule: tftp_session.induct)
    (auto simp: bind_eq_Some_conv split: prod.splits)

definition tftp_request :: "u16 \<Rightarrow> u8 list \<Rightarrow> u8 list \<Rightarrow> bool" where
  "tftp_request op name buf \<longleftrightarrow> 516 \<le> length buf \<and> slice 0 2 buf = put16 op \<and> tftp_filename buf = Some name"

lemma tftp_requestD:
  assumes "tftp_request op name buf"
  shows "\<not> length buf < 5" "net16 buf 0 = op" "tftp_filename buf = Some name" "516 \<le> length buf"
  using assms net16_put16 [of 0 buf op] by (simp_all add: tftp_request_def)

text \<open>The data packets of a file.\<close>

definition tftp_blocks :: "u8 list \<Rightarrow> u8 list list" where
  "tftp_blocks d = map (\<lambda>i. tftp_data (of_nat (i + 1)) (take 512 (drop (512 * i) d))) [0..<length d div 512 + 1]"

context tftp_source
begin

lemma downloads:
  assumes opened: "vfs_open funcs name w = Some (Some h, w)" "rest w h d"
    and rrq: "tftp_request 1 name buf" and acks: "length ps = length d div 512 + 1" "length ps < 65535"
      "\<forall>i < length ps. tftp_packet 4 (of_nat (i + 1)) (fst (ps ! i))"
  shows "\<exists>s'. tftp_session funcs src ((buf, n) # ps) s w = Some (map Some (tftp_blocks d) @ [None], s', w) \<and>
    tf_fh s' = None \<and> tf_peer s' = None"
proof -
  note p = tftp_requestD [OF rrq]
  let ?s = "s\<lparr>tf_peer := Some src, tf_download := True, tf_transfered := 0, tf_finished := False, tf_fh := Some h\<rparr>"
  obtain h1 where h1: "send_data funcs buf ?s w = Some (Some (tftp_data 1 (take 512 d)),
      ?s\<lparr>tf_fh := Some h1, tf_finished := length d < 512, tf_transfered := 1\<rparr>, w)" "rest w h1 (drop 512 d)"
    using sends_block [OF opened(2), of ?s buf] p(4) by auto
  define s1 where "s1 = ?s\<lparr>tf_fh := Some h1, tf_finished := length d < 512, tf_transfered := 1\<rparr>"
  have first: "tftp_handle_packet funcs src buf n s w = Some (Some (tftp_data 1 (take 512 d)), s1, w)"
    using p opened(1) h1(1) by (simp add: tftp_handle_packet_def Let_def s1_def)
  have s1: "tf_fh s1 = Some h1" "tf_download s1" "tf_finished s1 = (length d < 512)" "tf_transfered s1 = 1"
    by (simp_all add: s1_def)
  obtain qs q where ps: "ps = qs @ [q]" using acks(1) by (cases ps rule: rev_cases) auto
  obtain buf' n' where q: "q = (buf', n')" by (cases q)
  have qs: "tftp_packet 4 (of_nat (i + 1)) (fst (qs ! i))" if "i < length qs" for i
    using acks(3) that by (metis ps length_append_singleton less_SucI nth_append)
  have last: "tftp_packet 4 (of_nat (length qs + 1)) buf'"
    using acks(3) ps q by (metis fst_conv length_append_singleton lessI nth_append_length)
  have "\<exists>s2 h2 r. tftp_session funcs src qs s1 w =
      Some (map (\<lambda>i. Some (tftp_data (of_nat i + 2) (take 512 (drop (512 * (i + 1)) d)))) [0..<length qs], s2, w) \<and>
    tf_fh s2 = Some h2 \<and> rest w h2 r \<and> tf_download s2 \<and> tf_finished s2 \<and> tf_transfered s2 = of_nat (length qs + 1)"
  proof (cases "length d < 512")
    case True
    then have "qs = []" using acks(1) ps by simp
    then show ?thesis using s1 True h1(2) by auto
  next
    case False
    have "length d div 512 = length (drop 512 d) div 512 + 1" using False le_div_geq [of 512 "length d"] by simp
    then have len: "length qs = length (drop 512 d) div 512 + 1" using acks(1) ps by simp
    have "\<forall>i < length qs. tftp_packet 4 (tf_transfered s1 + of_nat i) (fst (qs ! i))" using qs s1(4) by simp
    moreover have "unat (tf_transfered s1) + length qs \<le> 65535" using s1(4) acks(2) ps by simp
    ultimately show ?thesis
      using answers_acks [OF h1(2) s1(1,2) _ len, of src] s1(3,4) False by (auto simp: add_ac)
  qed
  then obtain s2 h2 r where s2: "tftp_session funcs src qs s1 w =
      Some (map (\<lambda>i. Some (tftp_data (of_nat i + 2) (take 512 (drop (512 * (i + 1)) d)))) [0..<length qs], s2, w)"
    "tf_fh s2 = Some h2" "rest w h2 r" "tf_download s2" "tf_finished s2" "tf_transfered s2 = of_nat (length qs + 1)"
    by blast
  have "unat (tf_transfered s2) < 65535" using acks(2) ps unfolding s2(6) by (simp add: unat_of_nat del: of_nat_add of_nat_Suc)
  then obtain s3 where s3: "tftp_session funcs src [q] s2 w = Some ([None], s3, w)" "tf_fh s3 = None" "tf_peer s3 = None"
    using last_ack [OF s2(3,2,4,5) last [folded s2(6)]] unfolding q by blast
  have "map Some (tftp_blocks d) = Some (tftp_data 1 (take 512 d)) #
      map (\<lambda>i. Some (tftp_data (of_nat i + 2) (take 512 (drop (512 * (i + 1)) d)))) [0..<length qs]"
    unfolding tftp_blocks_def acks(1) [symmetric] ps
    by (simp only: length_append_singleton upt_conv_Cons [OF zero_less_Suc] map_Suc_upt [symmetric] list.map map_map)
      (simp add: add_ac)
  moreover have "tftp_session funcs src ps s1 w =
      Some (map (\<lambda>i. Some (tftp_data (of_nat i + 2) (take 512 (drop (512 * (i + 1)) d)))) [0..<length qs] @ [None], s3, w)"
    unfolding ps by (rule session_append [OF s2(1) s3(1)])
  ultimately show ?thesis using first s3(2,3) by (simp add: tftp_net_main_def)
qed

end

interpretation tftp_inline: tftp_source vfs_funcs inline_source
  by unfold_locales (auto simp: inline_source_def vfs_dispatch)

interpretation tftp_df: tftp_source vfs_funcs "df_source i 512" for i
  by unfold_locales (auto simp: df_source_def vfs_dispatch)

section \<open>Uploading\<close>

locale tftp_dest = vfs_writer "vfs_write funcs" holds same cap
  for funcs and holds :: "nat \<Rightarrow> vfs_world \<Rightarrow> vfs_file_handle_t \<Rightarrow> u8 list \<Rightarrow> bool" and same cap +
  assumes close_dest: "holds k w g d \<Longrightarrow> \<exists>r g'. vfs_close funcs g w = Some (r, g', w)"
    and write_nothing: "holds (Suc k) w g d \<Longrightarrow> \<exists>g' w'. vfs_write funcs g buf 0 w = Some (0, buf, g', w') \<and> holds k w' g' d"

context tftp_dest
begin

lemma closes_dest:
  assumes "holds k w g d" "tf_fh s = Some g"
  shows "close_connection funcs sent s w = Some (sent, s\<lparr>tf_peer := None, tf_fh := None\<rparr>, w)"
  using close_dest [OF assms(1)] assms(2) by (auto simp: close_connection_def)

lemma takes_block:
  assumes st: "tf_fh s = Some g" "\<not> tf_download s" "\<not> tf_finished s" "unat (tf_transfered s) < 65535"
    and dest: "holds (Suc k) w g e" "length e + m \<le> cap"
    and pkt: "tftp_packet 3 (tf_transfered s + 1) buf" "slice 4 m buf = b" "0 < m" "m \<le> 512"
  shows "\<exists>s' w'. tftp_session funcs src [(buf, of_nat (4 + m))] s w = Some ([Some (tftp_ack (tf_transfered s + 1))], s', w') \<and>
    (\<exists>g'. holds k w' g' (e @ b) \<and> tf_fh s' = (if m < 512 then None else Some g')) \<and> same w w' \<and>
    tf_download s' = tf_download s \<and> tf_finished s' = (m < 512) \<and> tf_transfered s' = tf_transfered s + 1 \<and> (m < 512 \<longrightarrow> tf_peer s' = None)"
proof -
  note p = tftp_packetD [OF pkt(1)]
  have t: "unat (tf_transfered s + 1) = unat (tf_transfered s) + 1" using st(4) by (intro unat_inc_small) simp
  have room: "m \<le> length (drop 4 buf)" using p(4) pkt(4) by simp
  obtain g' w' where w: "vfs_write funcs g (drop 4 buf) m w = Some (m, drop 4 buf, g', w')" "holds k w' g' (e @ b)" "same w w'"
    using write_next [OF dest(1) pkt(3) room dest(2)] pkt(2) by (auto simp: slice_def)
  have n: "unat (of_nat (4 + m) - 4 :: u16) = m" "(of_nat (4 + m) < (512 + 4 :: u16)) \<longleftrightarrow> m < 512"
    using pkt(4) by (simp_all add: unat_of_nat word_less_nat_alt del: of_nat_add) (simp_all add: unat_of_nat)
  have blk: "\<not> tf_transfered s + 1 < tf_transfered s" "tf_transfered s + 1 \<noteq> tf_transfered s"
    using t by (simp_all add: word_less_nat_alt)
  have ack: "slice 2 2 buf = put16 (tf_transfered s + 1)" using pkt(1) by (simp add: tftp_packet_def)
  let ?s = "s\<lparr>tf_peer := Some src, tf_fh := Some g', tf_finished := m < 512, tf_transfered := tf_transfered s + 1\<rparr>"
  have "tftp_handle_packet funcs src buf (of_nat (4 + m)) s w = send_ack funcs buf ?s w'"
    using p st(1-3) blk w(1) n pkt(3) by (cases s) (simp add: tftp_handle_packet_def Let_def)
  moreover have "send_ack funcs buf ?s w' = Some (Some (tftp_ack (tf_transfered s + 1)),
      if m < 512 then ?s\<lparr>tf_peer := None, tf_fh := None\<rparr> else ?s, w')"
    using send_ack_sends [OF p(4) ack] closes_dest [OF w(2), of ?s] by (cases "m < 512") simp_all
  ultimately show ?thesis using w by (auto simp: tftp_net_main_def)
qed

text \<open>An empty block is refused.\<close>

lemma refuses_empty_block:
  assumes st: "tf_fh s = Some g" "\<not> tf_download s" "unat (tf_transfered s) < 65535"
    and dest: "holds (Suc k) w g e" and pkt: "tftp_packet 3 (tf_transfered s + 1) buf"
  shows "\<exists>s' w'. tftp_session funcs src [(buf, 4)] s w = Some ([Some tftp_error], s', w') \<and>
    (\<exists>g'. holds k w' g' e) \<and> tf_fh s' = None"
proof -
  note p = tftp_packetD [OF pkt]
  have t: "unat (tf_transfered s + 1) = unat (tf_transfered s) + 1" using st(3) by (intro unat_inc_small) simp
  have blk: "\<not> tf_transfered s + 1 < tf_transfered s" "tf_transfered s + 1 \<noteq> tf_transfered s"
    using t by (simp_all add: word_less_nat_alt)
  obtain g' w' where w: "vfs_write funcs g (drop 4 buf) 0 w = Some (0, drop 4 buf, g', w')" "holds k w' g' e"
    using write_nothing [OF dest] by blast
  let ?s = "s\<lparr>tf_peer := Some src, tf_fh := Some g'\<rparr>"
  have "tftp_handle_packet funcs src buf 4 s w = error_out funcs buf ?s w'"
    using p st(1,2) blk w(1) by (simp add: tftp_handle_packet_def Let_def)
  then show ?thesis
    using error_out_sends [OF p(4)] closes_dest [OF w(2), of ?s] w(2) by (auto simp: tftp_net_main_def)
qed

end

lemma df_write_nothing:
  assumes "df_dest j (Suc k) w g d"
  shows "\<exists>g' w'. vfs_write vfs_funcs g buf 0 w = Some (0, buf, g', w') \<and> df_dest j k w' g' d"
proof -
  have g: "g = new_handle VFS_DF (fh_df \<lparr>df_inode = j, df_offset = int (length d)\<rparr>)" and j: "j < 4096"
    and ok: "fs_ok (3 * Suc k) (w_fs w)" and data: "file_data (w_fs w) j = Some d" using assms by (simp_all add: df_dest_def)
  have K: "3 \<le> 3 * Suc k" by simp
  have "length d + 0 \<le> 512" using file_data_length [OF ok j data] by simp
  from fs_write_one [OF ok K j data le0 order_refl this, of buf] obtain s' where
    s': "fs_write j buf (int (length d)) (int 0) (w_fs w) = Some (FS_OK, s')" "fs_ok (3 * Suc k - 3) s'"
    "file_data s' j = Some (overlay (length d) (take 0 buf) d)"
    by (elim exE conjE) (rule that; assumption)
  have "vfs_write vfs_funcs g buf 0 w = Some (0, buf, g, w\<lparr>w_fs := s'\<rparr>)"
    using s'(1) file_data_length [OF ok j data] by (simp add: vfs_dispatch g vfs_df_write_def int32_id)
  moreover have "df_dest j k (w\<lparr>w_fs := s'\<rparr>) g d"
    using s' j g by (simp add: df_dest_def overlay_def)
  ultimately show ?thesis by blast
qed

interpretation tftp_df_dest: tftp_dest vfs_funcs "df_dest j" "df_same j" 512 for j
proof
  fix k w g d assume "df_dest j k w g d"
  then show "\<exists>r g'. vfs_close vfs_funcs g w = Some (r, g', w)" by (auto simp: df_dest_def vfs_dispatch)
next
  fix k w g d and buf :: "u8 list" assume "df_dest j (Suc k) w g d"
  then show "\<exists>g' w'. vfs_write vfs_funcs g buf 0 w = Some (0, buf, g', w') \<and> df_dest j k w' g' d"
    by (rule df_write_nothing)
qed

section \<open>Properties\<close>

text \<open>
  C23. A client that asks for a file of the program memory and acknowledges each block gets exactly
  the blocks of the file, numbered from one, the last one shorter than 512 bytes, and then the
  connection is free again; nothing on the dataflash changes.
\<close>

theorem tftp_downloads_inline_file:
  assumes "fs_ok K (w_fs w)" "fs_get_inode (w_fs w) name = Some BAD"
    and "vfs_inline_open True (w_program w) (w_FLASHEND w) (w_SPM_PAGESIZE w) name = Some (Some f)"
      "il_pos f \<le> il_len f" "inline_rest (w_program w) f = d"
    and "tftp_request 1 name buf" "length ps = length d div 512 + 1"
      "\<forall>i < length ps. tftp_packet 4 (of_nat (i + 1)) (fst (ps ! i))"
  shows "\<exists>s'. tftp_session vfs_funcs src ((buf, n) # ps) s w = Some (map Some (tftp_blocks d) @ [None], s', w) \<and>
    tf_fh s' = None \<and> tf_peer s' = None"
proof (rule tftp_inline.downloads)
  show "vfs_open vfs_funcs name w = Some (Some (new_handle VFS_INLINE (fh_il f)), w)"
    by (rule vfs_open_inline [OF assms(1-3)])
  show "inline_source w (new_handle VFS_INLINE (fh_il f)) d" using assms(4,5) by (auto simp: inline_source_def)
  have "length d \<le> 65535"
    using assms(5) unat_u16_lt [of "il_len f - il_pos f"] by (auto simp: inline_rest_def simp del: unat_u16_lt)
  then show "length ps < 65535" using assms(7) by simp
qed (use assms in simp_all)

text \<open>The example of a program with one file.\<close>

definition get_packet :: "u16 \<Rightarrow> u8 \<Rightarrow> u8 list" where
  "get_packet op c = put16 op @ [c] @ replicate 600 0"

definition block_packet :: "u16 \<Rightarrow> u16 \<Rightarrow> u8 list \<Rightarrow> u8 list" where
  "block_packet op k d = put16 op @ put16 k @ d @ replicate 600 0"

lemma get_packet_request: "c \<noteq> 0 \<Longrightarrow> tftp_request op [c] (get_packet op c)"
  by (simp add: tftp_request_def get_packet_def slice_def tftp_filename_def put16_def Let_def)

lemma block_packet_packet:
  "tftp_packet op k (block_packet op k d)" "slice 4 (length d) (block_packet op k d) = d"
  by (simp_all add: tftp_packet_def block_packet_def slice_def)

theorem tftp_downloads_inline_file_witness:
  "\<exists>w s'. w_program w = loaded program_with_file \<and>
    tftp_session vfs_funcs ([10, 0, 0, 9], 1) [(get_packet 1 4, 4), (block_packet 4 1 [], 4)] tftp_net_init w =
      Some ([Some [0, 3, 0, 1, 9, 8, 7], None], s', w)"
proof -
  obtain s where s: "fs_ok 4000 s" "dir_wf s 0" "dir s = []" "\<forall>i < 4096. fs_page s i = BAD" "\<forall>i < 60. key (node_at s i) = []"
    using empty_fs_names by (elim exE conjE)
  define w where "w = \<lparr>w_fs = s, w_program = loaded program_with_file, w_FLASHEND = 511, w_SPM_PAGESIZE = 64\<rparr>"
  have "fs_get_inode s [4] = Some BAD"
    by (rule fs_get_inode_none [OF s(1,2)]) (use s(3,5) in \<open>simp_all add: cstr_def\<close>)
  then have "fs_get_inode (w_fs w) [4] = Some BAD" by (simp add: w_def)
  moreover have "\<forall>i < length [(block_packet 4 1 [], 4 :: u16)]. tftp_packet 4 (of_nat (i + 1)) (fst ([(block_packet 4 1 [], 4 :: u16)] ! i))"
    using block_packet_packet(1) by simp
  ultimately have "\<exists>s'. tftp_session vfs_funcs ([10, 0, 0, 9], 1) ((get_packet 1 4, 4) # [(block_packet 4 1 [], 4)]) tftp_net_init w =
      Some (map Some (tftp_blocks [9, 8, 7]) @ [None], s', w) \<and> tf_fh s' = None \<and> tf_peer s' = None"
    by (intro tftp_downloads_inline_file [where K = 4000 and name = "[4]" and f = "\<lparr>il_offset = 74, il_pos = 0, il_len = 3\<rparr>"])
      (use s(1) program_with_file_opens in \<open>simp_all add: w_def get_packet_request\<close>)
  moreover have "tftp_blocks [9, 8, 7] = [[0, 3, 0, 1, 9, 8, 7]]"
    by (simp add: tftp_blocks_def tftp_data_def put16_def)
  ultimately show ?thesis by (intro exI [of _ w]) (auto simp: w_def)
qed

text \<open>A write request for a new name.\<close>

definition df_new :: "nat \<Rightarrow> nat \<Rightarrow> vfs_world \<Rightarrow> u8 list \<Rightarrow> bool" where
  "df_new K n w name \<longleftrightarrow> fs_ok K (w_fs w) \<and> dir_wf (w_fs w) n \<and> n < 59 \<and> sorted (map key (dir (w_fs w))) \<and>
    distinct (map key (dir (w_fs w))) \<and> take 6 name \<notin> set (map key (dir (w_fs w))) \<and> 0 \<notin> set name \<and> fs_new_inode (w_fs w) < 4096"

definition df_named :: "vfs_world \<Rightarrow> u8 list \<Rightarrow> nat \<Rightarrow> bool" where
  "df_named w name j \<longleftrightarrow> j < 4096 \<and> distinct (map key (dir (w_fs w))) \<and> (\<exists>n. n < 60 \<and> dir_wf (w_fs w) n) \<and>
    (\<exists>x \<in> set (dir (w_fs w)). key x = cstr 6 name \<and> nd_inode x = j)"

lemma df_named_same: "df_named w name j \<Longrightarrow> df_same i w w' \<Longrightarrow> df_named w' name j"
  by (auto simp: df_named_def df_same_def)

lemma df_named_opens:
  assumes "df_named w name j" "fs_ok K (w_fs w)"
  shows "vfs_open vfs_funcs name w = Some (Some (new_handle VFS_DF (fh_df \<lparr>df_inode = j, df_offset = 0\<rparr>)), w)"
proof -
  obtain n x where n: "n < 60" "dir_wf (w_fs w) n" "x \<in> set (dir (w_fs w))" "key x = cstr 6 name" "nd_inode x = j"
    using assms(1) by (auto simp: df_named_def)
  have "fs_get_inode (w_fs w) name = Some (nd_inode x)"
    by (rule fs_get_inode_dir [OF assms(2) n(2,1)]) (use assms(1) n in \<open>simp_all add: df_named_def\<close>)
  then show ?thesis
    using n(5) assms(1) fs_okD(2) [OF assms(2)] by (simp add: vfs_dispatch vfs_df_open_def BAD_def df_named_def)
qed

lemma tftp_write_request:
  assumes new: "df_new (Suc (3 * L)) n w name" and req: "tftp_request 2 name buf"
  shows "\<exists>j g w'. tftp_session vfs_funcs src [(buf, x)] s w = Some ([Some (tftp_ack 0)],
      s\<lparr>tf_peer := Some src, tf_download := False, tf_transfered := 0, tf_finished := False, tf_fh := Some g\<rparr>, w') \<and>
    df_dest j L w' g [] \<and> df_named w' name j"
proof -
  define j where "j = fs_new_inode (w_fs w)"
  have j: "j < 4096" using new by (simp add: j_def df_new_def)
  have facts: "fs_ok (Suc (3 * L)) (w_fs w)" "dir_wf (w_fs w) n" "n < 59" "sorted (map key (dir (w_fs w)))"
    "distinct (map key (dir (w_fs w)))" "0 \<notin> set name" "take 6 name \<notin> set (map key (dir (w_fs w)))" "fs_new_inode (w_fs w) < 4096"
    using new by (simp_all add: df_new_def)
  obtain s1 x' where create: "vfs_create vfs_funcs name w =
      Some (Some (new_handle VFS_DF (fh_df \<lparr>df_inode = j, df_offset = 0\<rparr>)), w\<lparr>w_fs := s1\<rparr>)"
    and s1: "fs_ok (3 * L) s1" "dir_wf s1 (n + 1)" "distinct (map key (dir s1))"
    and x: "key x' = take 6 name" "nd_inode x' = j" "set (dir s1) = insert x' (set (dir (w_fs w)))"
    and data: "file_data s1 j = Some []"
    using vfs_create_new [OF facts, folded j_def] by (elim exE conjE) (rule that; assumption)
  let ?g = "new_handle VFS_DF (fh_df \<lparr>df_inode = j, df_offset = 0\<rparr>)" and ?w1 = "w\<lparr>w_fs := s1\<rparr>"
  let ?s = "s\<lparr>tf_peer := Some src, tf_download := False, tf_transfered := 0, tf_finished := False, tf_fh := Some ?g\<rparr>"
  note p = tftp_requestD [OF req]
  have "slice 2 2 (memcpy_at 2 (put16 0) buf) = put16 0"
    using slice_memcpy_at [of 2 "put16 0" buf] p(4) by simp
  then have "send_ack vfs_funcs (memcpy_at 2 (put16 0) buf) ?s ?w1 = Some (Some (tftp_ack 0), ?s, ?w1)"
    using send_ack_sends [of "memcpy_at 2 (put16 0) buf" 0 vfs_funcs ?s ?w1] p(4) by simp
  then have "tftp_session vfs_funcs src [(buf, x)] s w = Some ([Some (tftp_ack 0)], ?s, ?w1)"
    using p create by (simp add: tftp_net_main_def tftp_handle_packet_def Let_def)
  moreover have "df_dest j L ?w1 ?g []" using j data s1(1) by (simp add: df_dest_def)
  moreover have "df_named ?w1 name j"
    using j s1(2,3) x new cstr_name [of name] by (auto simp: df_named_def df_new_def intro!: exI [of _ "n + 1"])
  ultimately show ?thesis by blast
qed

text \<open>
  C19. A file of less than 512 bytes that is uploaded under a new name is stored on the dataflash, and
  downloading that name gives it back: each of the packets is acknowledged, and the only data packet
  of the download holds the bytes of the one uploaded.
\<close>

theorem tftp_put_get:
  assumes new: "df_new 4 n w name"
    and put: "tftp_request 2 name wrq" "tftp_packet 3 1 dat" "slice 4 (length d) dat = d" "0 < length d" "length d < 512"
    and get: "tftp_request 1 name rrq" "tftp_packet 4 1 ack"
  shows "\<exists>s' w'. tftp_session vfs_funcs src [(wrq, x), (dat, of_nat (4 + length d)), (rrq, y), (ack, z)] s w =
    Some ([Some (tftp_ack 0), Some (tftp_ack 1), Some (tftp_data 1 d), None], s', w')"
proof -
  have "df_new (Suc (3 * 1)) n w name" using new by simp
  from tftp_write_request [OF this put(1), of src x s] obtain j g w1 s1 where
    first: "tftp_session vfs_funcs src [(wrq, x)] s w = Some ([Some (tftp_ack 0)], s1, w1)"
    and s1: "tf_fh s1 = Some g" "\<not> tf_download s1" "\<not> tf_finished s1" "tf_transfered s1 = 0"
    and dest: "df_dest j (Suc 0) w1 g []" "df_named w1 name j" by auto
  obtain s2 w2 where s2: "tftp_session vfs_funcs src [(dat, of_nat (4 + length d))] s1 w1 = Some ([Some (tftp_ack 1)], s2, w2)"
    "\<exists>g'. df_dest j 0 w2 g' d" "df_same j w1 w2"
    using tftp_df_dest.takes_block [OF s1(1-3) _ dest(1), of "length d" dat d src] s1(4) put by auto
  then have j: "fs_ok 0 (w_fs w2)" "file_data (w_fs w2) j = Some d" "j < 4096" by (auto simp: df_dest_def)
  note opened = df_named_opens [OF df_named_same [OF dest(2) s2(3)] j(1)]
  have "df_source j 512 w2 (new_handle VFS_DF (fh_df \<lparr>df_inode = j, df_offset = 0\<rparr>)) d"
    unfolding df_source_def using j put(5) by (intro exI [of _ d] exI [of _ 0] exI [of _ 0]) simp
  then obtain s3 where "tftp_session vfs_funcs src [(rrq, y), (ack, z)] s2 w2 = Some (map Some (tftp_blocks d) @ [None], s3, w2)"
    using tftp_df.downloads [OF opened _ get(1), of j d "[(ack, z)]" src y s2] get(2) put(5) by auto
  moreover have "tftp_blocks d = [tftp_data 1 d]" using put(5) by (simp add: tftp_blocks_def)
  ultimately have "tftp_session vfs_funcs src [(rrq, y), (ack, z)] s2 w2 = Some ([Some (tftp_data 1 d), None], s3, w2)" by simp
  from session_append [OF first session_append [OF s2(1) this]] show ?thesis by auto
qed

lemma df_new_example: "\<exists>w. df_new 4000 0 w [98]"
proof -
  obtain s where s: "fs_ok 4000 s" "dir_wf s 0" "dir s = []" "\<forall>i < 4096. fs_page s i = BAD"
    using empty_fs_names by (elim exE conjE)
  then show ?thesis
    using new_inode_empty [OF s(1,4)]
    by (intro exI [of _ "\<lparr>w_fs = s, w_program = undefined, w_FLASHEND = 0, w_SPM_PAGESIZE = 64\<rparr>"]) (simp add: df_new_def)
qed

lemma df_new_less: "df_new K n w name \<Longrightarrow> L \<le> K \<Longrightarrow> df_new L n w name"
  by (auto simp: df_new_def elim: fs_ok_less)

theorem tftp_put_get_witness:
  "\<exists>w s' w'. tftp_session vfs_funcs ([10, 0, 0, 9], 1)
     [(get_packet 2 98, 4), (block_packet 3 1 [7, 8, 9], 7), (get_packet 1 98, 4), (block_packet 4 1 [], 4)] tftp_net_init w =
    Some ([Some (tftp_ack 0), Some (tftp_ack 1), Some [0, 3, 0, 1, 7, 8, 9], None], s', w')"
proof -
  obtain w where "df_new 4000 0 w [98]" using df_new_example by blast
  then have "df_new 4 0 w [98]" by (rule df_new_less) simp
  moreover have "slice 4 (length [7, 8, 9 :: u8]) (block_packet 3 1 [7, 8, 9]) = [7, 8, 9]"
    using block_packet_packet(2) by blast
  moreover have "tftp_request op [98] (get_packet op 98)" for op by (rule get_packet_request) simp
  ultimately have "\<exists>s' w'. tftp_session vfs_funcs ([10, 0, 0, 9], 1)
     [(get_packet 2 98, 4), (block_packet 3 1 [7, 8, 9], of_nat (4 + length [7, 8, 9 :: u8])), (get_packet 1 98, 4), (block_packet 4 1 [], 4)]
     tftp_net_init w = Some ([Some (tftp_ack 0), Some (tftp_ack 1), Some (tftp_data 1 [7, 8, 9]), None], s', w')"
    by (intro tftp_put_get) (simp_all add: block_packet_packet(1))
  then show ?thesis by (simp add: tftp_data_def put16_def del: tftp_session.simps) blast
qed

text \<open>
  Uploading a file whose length is a multiple of the block size ends with an error, although all
  of it has been stored: the empty block that has to end it is taken for a failed write, because
  vfs_write returns 0 for it.
\<close>

theorem tftp_full_last_block_refused:
  assumes new: "df_new 7 n w name"
    and put: "tftp_request 2 name wrq" "tftp_packet 3 1 dat" "slice 4 512 dat = d" "length d = 512" "tftp_packet 3 2 fin"
  shows "\<exists>s' w' j. tftp_session vfs_funcs src [(wrq, x), (dat, 516), (fin, 4)] s w =
      Some ([Some (tftp_ack 0), Some (tftp_ack 1), Some tftp_error], s', w') \<and> file_data (w_fs w') j = Some d"
proof -
  have "df_new (Suc (3 * 2)) n w name" using new by simp
  from tftp_write_request [OF this put(1), of src x s] obtain j g w1 s1 where
    first: "tftp_session vfs_funcs src [(wrq, x)] s w = Some ([Some (tftp_ack 0)], s1, w1)"
    and s1: "tf_fh s1 = Some g" "\<not> tf_download s1" "\<not> tf_finished s1" "tf_transfered s1 = 0"
    and dest: "df_dest j (Suc 1) w1 g []" "df_named w1 name j" by (auto simp: numeral_2_eq_2)
  obtain s2 w2 g2 where s2: "tftp_session vfs_funcs src [(dat, 516)] s1 w1 = Some ([Some (tftp_ack 1)], s2, w2)"
    "df_dest j (Suc 0) w2 g2 d" "tf_fh s2 = Some g2" "\<not> tf_download s2" "tf_transfered s2 = 1"
    using tftp_df_dest.takes_block [OF s1(1-3) _ dest(1), of 512 dat d src] s1(2,4) put by auto
  obtain s3 w3 where s3: "tftp_session vfs_funcs src [(fin, 4)] s2 w2 = Some ([Some tftp_error], s3, w3)" "\<exists>g. df_dest j 0 w3 g d"
    using tftp_df_dest.refuses_empty_block [OF s2(3,4) _ s2(2), of fin src] s2(5) put(5) by auto
  from session_append [OF first session_append [OF s2(1) s3(1)]] s3(2) show ?thesis
    by (auto simp: df_dest_def)
qed

theorem tftp_full_last_block_refused_witness:
  "\<exists>w s' w' j. tftp_session vfs_funcs ([10, 0, 0, 9], 1)
     [(get_packet 2 98, 4), (block_packet 3 1 (replicate 512 7), 516), (block_packet 3 2 [], 4)] tftp_net_init w =
    Some ([Some (tftp_ack 0), Some (tftp_ack 1), Some tftp_error], s', w') \<and> file_data (w_fs w') j = Some (replicate 512 7)"
proof -
  obtain w where "df_new 4000 0 w [98]" using df_new_example by blast
  then have "df_new 7 0 w [98]" by (rule df_new_less) simp
  moreover have "slice 4 512 (block_packet 3 1 (replicate 512 7)) = replicate 512 7"
    using block_packet_packet(2) [of "replicate 512 7"] by (simp del: replicate.simps)
  moreover have "tftp_request op [98] (get_packet op 98)" for op by (rule get_packet_request) simp
  ultimately have "\<exists>s' w' j. tftp_session vfs_funcs ([10, 0, 0, 9], 1)
     [(get_packet 2 98, 4), (block_packet 3 1 (replicate 512 7), 516), (block_packet 3 2 [], 4)] tftp_net_init w =
    Some ([Some (tftp_ack 0), Some (tftp_ack 1), Some tftp_error], s', w') \<and> file_data (w_fs w') j = Some (replicate 512 7)"
    by (intro tftp_full_last_block_refused) (simp_all add: block_packet_packet(1) del: replicate.simps)
  then show ?thesis by blast
qed

text \<open>
  C38. A lost data packet ends a download: when the client, as it should, repeats its last
  acknowledgement, the server takes it for one out of order and answers with an error; and when the
  late data packet is acknowledged after that, it goes on with the handle it has set to null.
\<close>

theorem tftp_lost_block_aborts:
  assumes "tf_fh s = Some h" "inline_source w h d" "tf_download s" "\<not> tf_finished s" "0 < unat k" "tf_transfered s = k"
    and "tftp_packet 4 (k - 1) again" "tftp_packet 4 k late" "unat k < 65535"
  shows "\<exists>s'. tftp_session vfs_funcs src [(again, x)] s w = Some ([Some tftp_error], s', w) \<and> tf_fh s' = None \<and>
    tftp_session vfs_funcs src [(late, y)] s' w = None"
proof -
  note p = tftp_packetD [OF assms(7)] and q = tftp_packetD [OF assms(8)]
  have "unat (k - 1) = unat k - 1" using unat_sub_small [of 1 k] assms(5) by simp
  then have less: "k - 1 < k" using assms(5) by (simp add: word_less_nat_alt)
  have "unat (k + 1) = unat k + 1" using assms(9) by (intro unat_inc_small) simp
  then have up: "\<not> k + 1 < k" by (simp add: word_less_nat_alt)
  let ?s = "s\<lparr>tf_peer := None, tf_fh := None\<rparr>"
  have "tftp_session vfs_funcs src [(again, x)] s w = Some ([Some tftp_error], ?s, w)"
    using p assms(1,3,4,6) less error_out_sends [OF p(4)] tftp_inline.closes [OF assms(2), of "s\<lparr>tf_peer := Some src\<rparr>"]
    by (simp add: tftp_net_main_def tftp_handle_packet_def Let_def)
  moreover have "tftp_session vfs_funcs src [(late, y)] ?s w = None"
    using q assms(3,4,6) up by (simp add: tftp_net_main_def tftp_handle_packet_def send_data_def Let_def)
  ultimately show ?thesis by (intro exI [of _ ?s]) simp
qed

theorem tftp_lost_block_aborts_witness:
  "\<exists>s'. tftp_session vfs_funcs ([10, 0, 0, 9], 1) [(block_packet 4 1 [], 4)]
      \<lparr>tf_fh = Some (new_handle VFS_INLINE (fh_il \<lparr>il_offset = 74, il_pos = 0, il_len = 3\<rparr>)), tf_download = True,
        tf_finished = False, tf_transfered = 2, tf_peer = None\<rparr>
      \<lparr>w_fs = undefined, w_program = loaded program_with_file, w_FLASHEND = 511, w_SPM_PAGESIZE = 64\<rparr> =
    Some ([Some tftp_error], s', \<lparr>w_fs = undefined, w_program = loaded program_with_file, w_FLASHEND = 511, w_SPM_PAGESIZE = 64\<rparr>)"
proof -
  let ?w = "\<lparr>w_fs = undefined, w_program = loaded program_with_file, w_FLASHEND = 511, w_SPM_PAGESIZE = 64\<rparr>"
  have "inline_source ?w (new_handle VFS_INLINE (fh_il \<lparr>il_offset = 74, il_pos = 0, il_len = 3\<rparr>)) [9, 8, 7]"
    using program_with_file_opens(2) by (auto simp: inline_source_def)
  then show ?thesis
    using tftp_lost_block_aborts [where k = 2 and w = ?w and again = "block_packet 4 1 []" and late = "block_packet 4 2 []"
      and src = "([10, 0, 0, 9], 1)" and x = 4 and y = 4 and d = "[9, 8, 7]"
      and s = "\<lparr>tf_fh = Some (new_handle VFS_INLINE (fh_il \<lparr>il_offset = 74, il_pos = 0, il_len = 3\<rparr>)), tf_download = True,
        tf_finished = False, tf_transfered = 2, tf_peer = None\<rparr>"] block_packet_packet(1) [of 4 1] block_packet_packet(1) [of 4 2]
    by (auto simp del: tftp_session.simps)
qed

end
