(* ===== verification/Md5.thy ===== *)
theory Md5 imports Prelude begin

text \<open>
  The hash function MD5 (core/crypto/md5.c, md5_sbox.h): the operations of the code, the algorithm
  of RFC 1321, and their equivalence.

  A block in memory is the list of its bytes, its words little-endian as on the controller.
\<close>

section \<open>The code\<close>

record md5_ctx_t =
  md5_a :: "u32 list"
  md5_counter :: u32

definition md5_T :: "u32 list" where
  "md5_T = [
    0xd76aa478, 0xe8c7b756, 0x242070db, 0xc1bdceee, 0xf57c0faf, 0x4787c62a, 0xa8304613, 0xfd469501,
    0x698098d8, 0x8b44f7af, 0xffff5bb1, 0x895cd7be, 0x6b901122, 0xfd987193, 0xa679438e, 0x49b40821,
    0xf61e2562, 0xc040b340, 0x265e5a51, 0xe9b6c7aa, 0xd62f105d, 0x02441453, 0xd8a1e681, 0xe7d3fbc8,
    0x21e1cde6, 0xc33707d6, 0xf4d50d87, 0x455a14ed, 0xa9e3e905, 0xfcefa3f8, 0x676f02d9, 0x8d2a4c8a,
    0xfffa3942, 0x8771f681, 0x6d9d6122, 0xfde5380c, 0xa4beea44, 0x4bdecfa9, 0xf6bb4b60, 0xbebfbc70,
    0x289b7ec6, 0xeaa127fa, 0xd4ef3085, 0x04881d05, 0xd9d4d039, 0xe6db99e5, 0x1fa27cf8, 0xc4ac5665,
    0xf4292244, 0x432aff97, 0xab9423a7, 0xfc93a039, 0x655b59c3, 0x8f0ccc92, 0xffeff47d, 0x85845dd1,
    0x6fa87e4f, 0xfe2ce6e0, 0xa3014314, 0x4e0811a1, 0xf7537e82, 0xbd3af235, 0x2ad7d2bb, 0xeb86d391]"

definition md5_init :: md5_ctx_t where
  "md5_init = \<lparr>md5_a = [0x67452301, 0xefcdab89, 0x98badcfe, 0x10325476], md5_counter = 0\<rparr>"

definition md5_F :: "u32 \<Rightarrow> u32 \<Rightarrow> u32 \<Rightarrow> u32" where "md5_F x y z = (x AND y) OR (NOT x AND z)"
definition md5_G :: "u32 \<Rightarrow> u32 \<Rightarrow> u32 \<Rightarrow> u32" where "md5_G x y z = (x AND z) OR (NOT z AND y)"
definition md5_H :: "u32 \<Rightarrow> u32 \<Rightarrow> u32 \<Rightarrow> u32" where "md5_H x y z = x XOR y XOR z"
definition md5_I :: "u32 \<Rightarrow> u32 \<Rightarrow> u32 \<Rightarrow> u32" where "md5_I x y z = y XOR (x OR NOT z)"

definition md5_rotl :: "u32 \<Rightarrow> nat \<Rightarrow> u32" where
  "md5_rotl x n = push_bit n x OR drop_bit (32 - n) x"

definition le_word :: "u8 list \<Rightarrow> nat \<Rightarrow> u32" where
  "le_word block k = ucast (block ! (4 * k)) OR push_bit 8 (ucast (block ! (4 * k + 1))) OR
     push_bit 16 (ucast (block ! (4 * k + 2))) OR push_bit 24 (ucast (block ! (4 * k + 3)))"

definition md5_core :: "nat \<Rightarrow> u8 list \<Rightarrow> nat \<Rightarrow> nat \<Rightarrow> nat \<Rightarrow> nat \<Rightarrow> u32 list \<Rightarrow> u32 list" where
  "md5_core as block k s i fi a =
    (let as = as mod 4;
         t = a ! as + ([md5_F, md5_G, md5_H, md5_I] ! fi) (a ! ((as + 1) mod 4)) (a ! ((as + 2) mod 4)) (a ! ((as + 3) mod 4)) +
           le_word block k + md5_T ! i
     in a[as := a ! ((as + 1) mod 4) + md5_rotl t s])"

text \<open>The loops of one round over \<open>m\<close> and \<open>n\<close>; \<open>i\<close> runs on.\<close>

definition md5_round :: "u8 list \<Rightarrow> nat list \<Rightarrow> (nat \<Rightarrow> nat \<Rightarrow> nat) \<Rightarrow> nat \<Rightarrow> u32 list \<times> nat \<Rightarrow> u32 list \<times> nat" where
  "md5_round block st k fi =
    fold (\<lambda>m. fold (\<lambda>n (a, i). (md5_core (4 - n) block (k m n) (st ! n) i fi a, i + 1)) [0..<4]) [0..<4]"

definition masked :: "int \<Rightarrow> nat" where
  "masked x = nat (x mod 16)"

definition md5_nextBlock :: "u8 list \<Rightarrow> md5_ctx_t \<Rightarrow> md5_ctx_t" where
  "md5_nextBlock block s =
    (let (a, i) = md5_round block [7, 12, 17, 22] (\<lambda>m n. m * 4 + n) 0 (md5_a s, 0);
         (a, i) = md5_round block [5, 9, 14, 20] (\<lambda>m n. masked (1 + int m * 4 + int n * 5)) 1 (a, i);
         (a, i) = md5_round block [4, 11, 16, 23] (\<lambda>m n. masked (5 - int m * 4 + int n * 3)) 2 (a, i);
         (a, i) = md5_round block [6, 10, 15, 21] (\<lambda>m n. masked (0 - int m * 4 + int n * 7)) 3 (a, i)
     in s\<lparr>md5_a := map2 (+) (md5_a s) a, md5_counter := md5_counter s + 1\<rparr>)"

fun md5_last_loop :: "u8 list \<Rightarrow> nat \<Rightarrow> md5_ctx_t \<Rightarrow> md5_ctx_t \<times> u8 list \<times> nat" where
  "md5_last_loop block len s =
    (if 512 \<le> len then md5_last_loop (drop 64 block) (len - 512) (md5_nextBlock (take 64 block) s)
     else (s, block, len))"

declare md5_last_loop.simps [simp del]

definition le64 :: "u64 \<Rightarrow> u8 list" where
  "le64 v = map (\<lambda>i. ucast (drop_bit (8 * i) v)) [0..<8]"

definition md5_lastBlock :: "u8 list \<Rightarrow> u16 \<Rightarrow> md5_ctx_t \<Rightarrow> md5_ctx_t" where
  "md5_lastBlock block length_bits s =
    (let (s, block, len) = md5_last_loop block (unat length_bits) s;
         b = memcpy_at 0 (take (len div 8) block) (replicate 64 0);
         l = len div 8;
         b = (if len mod 8 \<noteq> 0 then b[l := block ! l OR drop_bit (len mod 8) 0x80] else b[l := 0x80]);
         (s, b) = (if 64 \<le> l + 8
           then let s = md5_nextBlock b s in (s\<lparr>md5_counter := md5_counter s - 1\<rparr>, replicate 64 0)
           else (s, b));
         b = memcpy_at 56 (le64 (ucast (md5_counter s * 512 + of_nat len))) b
     in md5_nextBlock b s)"

text \<open>The sixteen bytes of the digest in memory.\<close>

definition le32 :: "u32 \<Rightarrow> u8 list" where
  "le32 w = map (\<lambda>i. ucast (drop_bit (8 * i) w)) [0..<4]"

definition md5_digest :: "md5_ctx_t \<Rightarrow> u8 list" where
  "md5_digest s = concat (map le32 (md5_a s))"

section \<open>RFC 1321\<close>

text \<open>
  The steps of the four rounds, written over the four registers that change their roles with each
  step; the table \<open>T\<close> of constants is that of the code.
\<close>

type_synonym md5_regs = "u32 \<times> u32 \<times> u32 \<times> u32"

definition rfc_f :: "nat \<Rightarrow> u32 \<Rightarrow> u32 \<Rightarrow> u32 \<Rightarrow> u32" where
  "rfc_f i x y z =
    (if i < 16 then (x AND y) OR (NOT x AND z)
     else if i < 32 then (x AND z) OR (y AND NOT z)
     else if i < 48 then x XOR y XOR z
     else y XOR (x OR NOT z))"

definition rfc_k :: "nat \<Rightarrow> nat" where
  "rfc_k i = (if i < 16 then i else if i < 32 then 5 * i + 1 else if i < 48 then 3 * i + 5 else 7 * i) mod 16"

definition rfc_s :: "nat \<Rightarrow> nat" where
  "rfc_s i = [[7, 12, 17, 22], [5, 9, 14, 20], [4, 11, 16, 23], [6, 10, 15, 21]] ! (i div 16) ! (i mod 4)"

definition rfc_step :: "(nat \<Rightarrow> u32) \<Rightarrow> nat \<Rightarrow> md5_regs \<Rightarrow> md5_regs" where
  "rfc_step X i r = (case r of (a, b, c, d) \<Rightarrow>
    (d, b + word_rotl (rfc_s i) (a + rfc_f i b c d + X (rfc_k i) + md5_T ! i), b, c))"

definition rfc_compress :: "u8 list \<Rightarrow> md5_regs \<Rightarrow> md5_regs" where
  "rfc_compress block r =
    (case r of (a, b, c, d) \<Rightarrow> case fold (rfc_step (le_word block)) [0..<64] r of (a', b', c', d') \<Rightarrow>
      (a + a', b + b', c + c', d + d'))"

definition rfc_padding :: "nat \<Rightarrow> u8 list" where
  "rfc_padding n = 0x80 # replicate ((119 - n mod 64) mod 64) 0 @ map (\<lambda>i. of_nat (8 * n div 256 ^ i)) [0..<8]"

fun rfc_blocks :: "u8 list \<Rightarrow> md5_regs \<Rightarrow> md5_regs" where
  "rfc_blocks msg r = (if length msg < 64 then r else rfc_blocks (drop 64 msg) (rfc_compress (take 64 msg) r))"

declare rfc_blocks.simps [simp del]

definition rfc_md5 :: "u8 list \<Rightarrow> u8 list" where
  "rfc_md5 msg = (case rfc_blocks (msg @ rfc_padding (length msg)) (0x67452301, 0xefcdab89, 0x98badcfe, 0x10325476)
     of (a, b, c, d) \<Rightarrow> le32 a @ le32 b @ le32 c @ le32 d)"

section \<open>A block\<close>

lemma md5_rotl_word_rotl: "n < 32 \<Longrightarrow> md5_rotl x n = word_rotl n x"
proof (rule bit_word_eqI)
  fix i assume n: "n < 32" and "i < LENGTH(32)"
  then have i: "i < 32" by simp
  have "(i + 32 - n) mod 32 = (if n \<le> i then i - n else i + 32 - n)"
    using n i by (auto simp: not_le mod_if)
  moreover have "32 + i - n = i + 32 - n" by simp
  ultimately show "bit (md5_rotl x n) i = bit (word_rotl n x) i"
    using n i by (auto simp: md5_rotl_def bit_simps dest: bit_imp_le_length)
qed

text \<open>The registers of the standard are the array of the code, turned by one place with each step.\<close>

definition at_pos :: "nat \<Rightarrow> u32 list \<Rightarrow> md5_regs \<Rightarrow> bool" where
  "at_pos e a r \<longleftrightarrow> length a = 4 \<and>
    r = (a ! ((4 - e) mod 4), a ! ((5 - e) mod 4), a ! ((6 - e) mod 4), a ! ((7 - e) mod 4))"

definition at_step :: "nat \<Rightarrow> u32 list \<Rightarrow> md5_regs \<Rightarrow> bool" where
  "at_step i = at_pos (i mod 4)"

lemma rfc_f_funcs: "i < 64 \<Longrightarrow> ([md5_F, md5_G, md5_H, md5_I] ! (i div 16)) = rfc_f i"
proof -
  assume "i < 64"
  then consider "i < 16" | "16 \<le> i" "i < 32" | "32 \<le> i" "i < 48" | "48 \<le> i" "i < 64" by linarith
  then show ?thesis
  proof cases
    case 1
    then show ?thesis by (simp add: rfc_f_def md5_F_def fun_eq_iff)
  next
    case 2
    then have "i div 16 = 1" by linarith
    with 2 show ?thesis by (simp add: rfc_f_def md5_G_def fun_eq_iff and.commute)
  next
    case 3
    then have "i div 16 = 2" by linarith
    with 3 show ?thesis by (simp add: rfc_f_def md5_H_def fun_eq_iff)
  next
    case 4
    then have "i div 16 = 3" by linarith
    with 4 show ?thesis by (simp add: rfc_f_def md5_I_def fun_eq_iff)
  qed
qed

lemma rfc_s_small: "i < 64 \<Longrightarrow> rfc_s i < 32"
proof -
  have "\<forall>i \<in> set [0..<64]. rfc_s i < 32" by code_simp
  then show "i < 64 \<Longrightarrow> rfc_s i < 32" by simp
qed

lemma length_4_cases:
  assumes "length a = 4"
  obtains w x y z where "a = [w, x, y, z]"
  using assms by (auto simp: numeral_eq_Suc length_Suc_conv)

lemma pos_step:
  assumes "at_pos e a (ra, rb, rc, rd)" "e < 4"
  shows "at_pos ((e + 1) mod 4) (md5_core (4 - e) block k s i fi a)
    (rd, rb + md5_rotl (ra + ([md5_F, md5_G, md5_H, md5_I] ! fi) rb rc rd + le_word block k + md5_T ! i) s, rb, rc)"
proof -
  obtain w x y z where a: "a = [w, x, y, z]" using assms(1) by (auto simp: at_pos_def elim: length_4_cases)
  consider "e = 0" | "e = 1" | "e = 2" | "e = 3" using assms(2) by linarith
  then show ?thesis
    using assms(1) unfolding a by cases (simp_all add: at_pos_def md5_core_def Let_def)
qed

lemma core_step:
  assumes "at_step i a r" "i < 64"
  shows "at_step (i + 1) (md5_core (4 - i mod 4) block (rfc_k i) (rfc_s i) i (i div 16) a) (rfc_step (le_word block) i r)"
proof -
  obtain ra rb rc rd where r: "r = (ra, rb, rc, rd)" by (cases r)
  have "(i mod 4 + 1) mod 4 = (i + 1) mod 4" by (simp add: mod_Suc_eq)
  then show ?thesis
    using pos_step [of "i mod 4" a ra rb rc rd block "rfc_k i" "rfc_s i" i "i div 16"] assms
    unfolding at_step_def r rfc_step_def prod.case rfc_f_funcs [OF assms(2)] md5_rotl_word_rotl [OF rfc_s_small [OF assms(2)]]
    by simp
qed

lemma md5_round_steps:
  "md5_round block st k fi (a, i) =
    (fold (\<lambda>j. md5_core (4 - j mod 4) block (k (j div 4) (j mod 4)) (st ! (j mod 4)) (i + j) fi) [0..<16] a, i + 16)"
proof -
  have "[0..<4] = [0, 1, 2, 3 :: nat]" "[0..<16] = [0, 1, 2, 3, 4, 5, 6, 7, 8, 9, 10, 11, 12, 13, 14, 15 :: nat]"
    by code_simp+
  then show ?thesis by (simp add: md5_round_def) (simp add: numeral_eq_Suc)
qed

lemma rounds_agree:
  assumes "at_step (16 * fi) a r" "fi < 4"
    "\<forall>j < 16. k (j div 4) (j mod 4) = rfc_k (16 * fi + j) \<and> st ! (j mod 4) = rfc_s (16 * fi + j)"
  shows "\<exists>a'. md5_round block st k fi (a, 16 * fi) = (a', 16 * (fi + 1)) \<and>
    at_step (16 * (fi + 1)) a' (fold (rfc_step (le_word block)) [16 * fi..<16 * (fi + 1)] r)"
proof -
  have "at_step (16 * fi + n)
      (fold (\<lambda>j. md5_core (4 - j mod 4) block (k (j div 4) (j mod 4)) (st ! (j mod 4)) (16 * fi + j) fi) [0..<n] a)
      (fold (rfc_step (le_word block)) [16 * fi..<16 * fi + n] r)" if "n \<le> 16" for n
    using that
  proof (induction n)
    case 0
    then show ?case using assms(1) by simp
  next
    case (Suc n)
    have n: "(16 * fi + n) mod 4 = n mod 4" "(16 * fi + n) div 16 = fi"
      using mod_mult_self4 [of 4 "4 * fi" n] Suc.prems by simp_all
    have "k (n div 4) (n mod 4) = rfc_k (16 * fi + n)" "st ! (n mod 4) = rfc_s (16 * fi + n)"
      using spec [OF assms(3), of n] Suc.prems by simp_all
    then show ?case
      using core_step [of "16 * fi + n", OF Suc.IH] Suc.prems assms(2) n by simp
  qed
  note last = this [OF order_refl]
  have e: "16 * (fi + 1) = 16 * fi + 16" by simp
  show ?thesis unfolding md5_round_steps e by (rule exI) (rule conjI [OF refl last])
qed

lemma round_constants:
  "\<forall>j < 16. (\<lambda>m n. m * 4 + n) (j div 4) (j mod 4) = rfc_k (16 * 0 + j) \<and> [7, 12, 17, 22] ! (j mod 4) = rfc_s (16 * 0 + j)"
  "\<forall>j < 16. (\<lambda>m n. masked (1 + int m * 4 + int n * 5)) (j div 4) (j mod 4) = rfc_k (16 * 1 + j) \<and> [5, 9, 14, 20] ! (j mod 4) = rfc_s (16 * 1 + j)"
  "\<forall>j < 16. (\<lambda>m n. masked (5 - int m * 4 + int n * 3)) (j div 4) (j mod 4) = rfc_k (16 * 2 + j) \<and> [4, 11, 16, 23] ! (j mod 4) = rfc_s (16 * 2 + j)"
  "\<forall>j < 16. (\<lambda>m n. masked (0 - int m * 4 + int n * 7)) (j div 4) (j mod 4) = rfc_k (16 * 3 + j) \<and> [6, 10, 15, 21] ! (j mod 4) = rfc_s (16 * 3 + j)"
proof -
  have all: "(\<forall>j < 16. P j) \<longleftrightarrow> (\<forall>j \<in> set [0..<16]. P j)" for P :: "nat \<Rightarrow> bool" by auto
  show "\<forall>j < 16. (\<lambda>m n. m * 4 + n) (j div 4) (j mod 4) = rfc_k (16 * 0 + j) \<and> [7, 12, 17, 22] ! (j mod 4) = rfc_s (16 * 0 + j)"
    unfolding all by code_simp
  show "\<forall>j < 16. (\<lambda>m n. masked (1 + int m * 4 + int n * 5)) (j div 4) (j mod 4) = rfc_k (16 * 1 + j) \<and> [5, 9, 14, 20] ! (j mod 4) = rfc_s (16 * 1 + j)"
    unfolding all by code_simp
  show "\<forall>j < 16. (\<lambda>m n. masked (5 - int m * 4 + int n * 3)) (j div 4) (j mod 4) = rfc_k (16 * 2 + j) \<and> [4, 11, 16, 23] ! (j mod 4) = rfc_s (16 * 2 + j)"
    unfolding all by code_simp
  show "\<forall>j < 16. (\<lambda>m n. masked (0 - int m * 4 + int n * 7)) (j div 4) (j mod 4) = rfc_k (16 * 3 + j) \<and> [6, 10, 15, 21] ! (j mod 4) = rfc_s (16 * 3 + j)"
    unfolding all by code_simp
qed

definition md5_regs_of :: "md5_ctx_t \<Rightarrow> md5_regs" where
  "md5_regs_of s = (md5_a s ! 0, md5_a s ! 1, md5_a s ! 2, md5_a s ! 3)"

lemma nextBlock_compress:
  assumes "length (md5_a s) = 4"
  shows "md5_regs_of (md5_nextBlock block s) = rfc_compress block (md5_regs_of s)"
    "length (md5_a (md5_nextBlock block s)) = 4" "md5_counter (md5_nextBlock block s) = md5_counter s + 1"
proof -
  let ?S = "fold (rfc_step (le_word block))" and ?r = "md5_regs_of s"
  have "at_step (16 * 0) (md5_a s) ?r" using assms by (simp add: at_step_def at_pos_def md5_regs_of_def)
  from rounds_agree [OF this _ round_constants(1), of block] obtain a1 where a1:
    "md5_round block [7, 12, 17, 22] (\<lambda>m n. m * 4 + n) 0 (md5_a s, 0) = (a1, 16)" "at_step (16 * 1) a1 (?S [0..<16] ?r)" by auto
  from rounds_agree [OF a1(2) _ round_constants(2), of block] obtain a2 where a2:
    "md5_round block [5, 9, 14, 20] (\<lambda>m n. masked (1 + int m * 4 + int n * 5)) 1 (a1, 16) = (a2, 32)"
    "at_step (16 * 2) a2 (?S [16..<32] (?S [0..<16] ?r))" by auto
  from rounds_agree [OF a2(2) _ round_constants(3), of block] obtain a3 where a3:
    "md5_round block [4, 11, 16, 23] (\<lambda>m n. masked (5 - int m * 4 + int n * 3)) 2 (a2, 32) = (a3, 48)"
    "at_step (16 * 3) a3 (?S [32..<48] (?S [16..<32] (?S [0..<16] ?r)))" by auto
  from rounds_agree [OF a3(2) _ round_constants(4), of block] obtain a4 where a4:
    "md5_round block [6, 10, 15, 21] (\<lambda>m n. masked (0 - int m * 4 + int n * 7)) 3 (a3, 48) = (a4, 64)"
    "at_step 64 a4 (?S [48..<64] (?S [32..<48] (?S [16..<32] (?S [0..<16] ?r))))" by auto
  have "[0..<64] = [0..<16] @ [16..<32] @ [32..<48] @ [48..<64 :: nat]"
    using upt_add_eq_append [of 0 16 16] upt_add_eq_append [of 0 32 16] upt_add_eq_append [of 0 48 16] by simp
  then have r: "?S [0..<64] ?r = (a4 ! 0, a4 ! 1, a4 ! 2, a4 ! 3)" and l: "length a4 = 4"
    using a4(2) by (simp_all add: at_step_def at_pos_def del: upt_rec_numeral)
  have nxt: "md5_nextBlock block s = s\<lparr>md5_a := map2 (+) (md5_a s) a4, md5_counter := md5_counter s + 1\<rparr>"
    by (simp only: md5_nextBlock_def Let_def a1(1) a2(1) a3(1) a4(1) prod.case)
  show "md5_regs_of (md5_nextBlock block s) = rfc_compress block (md5_regs_of s)"
    unfolding rfc_compress_def r by (simp add: nxt md5_regs_of_def assms l del: upt_rec_numeral)
  show "length (md5_a (md5_nextBlock block s)) = 4" "md5_counter (md5_nextBlock block s) = md5_counter s + 1"
    by (simp_all add: nxt assms l)
qed

section \<open>Messages\<close>

lemma rfc_blocks_block: "length b = 64 \<Longrightarrow> rfc_blocks (b @ t) r = rfc_blocks t (rfc_compress b r)"
  by (subst rfc_blocks.simps) simp

lemma rfc_blocks_end: "rfc_blocks [] r = r"
  by (subst rfc_blocks.simps) simp

definition md5_ok :: "md5_ctx_t \<Rightarrow> bool" where
  "md5_ok s \<longleftrightarrow> length (md5_a s) = 4"

lemmas md5_block = nextBlock_compress [folded md5_ok_def]

lemma md5_blocks:
  "md5_ok s \<Longrightarrow> \<forall>b \<in> set bs. length b = 64 \<Longrightarrow>
    md5_ok (fold md5_nextBlock bs s) \<and> md5_counter (fold md5_nextBlock bs s) = md5_counter s + of_nat (length bs) \<and>
    rfc_blocks (concat bs @ t) (md5_regs_of s) = rfc_blocks t (md5_regs_of (fold md5_nextBlock bs s))"
proof (induction bs arbitrary: s)
  case (Cons b bs)
  then show ?case
    using Cons.IH [of "md5_nextBlock b s"] by (simp add: md5_block rfc_blocks_block)
qed simp

lemma md5_last_loop_blocks:
  "md5_ok s \<Longrightarrow> n \<le> length blk \<Longrightarrow>
    \<exists>s'. md5_last_loop blk (8 * n) s = (s', drop (64 * (n div 64)) blk, 8 * (n mod 64)) \<and> md5_ok s' \<and>
      md5_counter s' = md5_counter s + of_nat (n div 64) \<and>
      (\<forall>t. rfc_blocks (take n blk @ t) (md5_regs_of s) = rfc_blocks (take (n mod 64) (drop (64 * (n div 64)) blk) @ t) (md5_regs_of s'))"
proof (induction n arbitrary: s blk rule: less_induct)
  case (less n)
  show ?case
  proof (cases "n < 64")
    case True
    then show ?thesis using less.prems by (subst md5_last_loop.simps) simp
  next
    case False
    let ?s = "md5_nextBlock (take 64 blk) s"
    have n: "n = (n - 64) + 64" "n - 64 < n" "n - 64 \<le> length (drop 64 blk)" using False less.prems(2) by simp_all
    have dm: "n div 64 = (n - 64) div 64 + 1" "n mod 64 = (n - 64) mod 64"
      using False by (simp_all add: le_div_geq le_mod_geq)
    have step: "md5_last_loop blk (8 * n) s = md5_last_loop (drop 64 blk) (8 * (n - 64)) ?s"
      using False by (subst md5_last_loop.simps) (simp add: diff_mult_distrib2)
    have sp: "take n blk = take 64 blk @ take (n - 64) (drop 64 blk)" using False
      by (metis n(1) add.commute take_add)
    obtain s' where s': "md5_last_loop (drop 64 blk) (8 * (n - 64)) ?s = (s', drop (64 * ((n - 64) div 64)) (drop 64 blk), 8 * ((n - 64) mod 64))"
      "md5_ok s'" "md5_counter s' = md5_counter ?s + of_nat ((n - 64) div 64)"
      "\<forall>t. rfc_blocks (take (n - 64) (drop 64 blk) @ t) (md5_regs_of ?s) =
        rfc_blocks (take ((n - 64) mod 64) (drop (64 * ((n - 64) div 64)) (drop 64 blk)) @ t) (md5_regs_of s')"
      using less.IH [OF n(2) _ n(3), of ?s] md5_block(2) [OF less.prems(1)] unfolding md5_ok_def by blast
    have "length (take 64 blk) = 64" using False less.prems(2) by simp
    then show ?thesis
      using s' md5_block(1,3) [OF less.prems(1)] by (intro exI [of _ s']) (simp add: step sp dm rfc_blocks_block add_ac)
  qed
qed

lemma le64_small:
  assumes "V < 2 ^ 32"
  shows "le64 (ucast (of_nat V :: u32)) = map (\<lambda>i. of_nat (V div 256 ^ i)) [0..<8]"
proof -
  define w :: u64 where "w = ucast (of_nat V :: u32)"
  have w: "unat w = V"
    using assms by (simp add: w_def unsigned_ucast_eq unsigned_of_nat take_bit_nat_eq_self)
  have "(ucast (drop_bit (8 * i) w) :: u8) = of_nat (V div 256 ^ i)" for i
  proof -
    have "unat (drop_bit (8 * i) w) = V div 256 ^ i"
      using unat_drop_bit_eq [of "8 * i" w] unfolding w drop_bit_eq_div [of "8 * i" V] by (simp only: power_mult) simp
    then show ?thesis by (simp add: word_unat_eq_iff unsigned_ucast_eq unsigned_of_nat)
  qed
  then show ?thesis by (simp add: le64_def w_def [symmetric])
qed

lemma length_le64 [simp]: "length (le64 v) = 8"
  by (simp add: le64_def)

text \<open>The last one or two blocks.\<close>

lemma pad_block: "m < 64 \<Longrightarrow> m \<le> length blk \<Longrightarrow> (memcpy_at 0 (take m blk) (replicate 64 0))[m := 0x80] = take m blk @ 0x80 # replicate (63 - m) 0"
  by (simp add: memcpy_at_def min_def list_update_append Suc_diff_Suc [symmetric] flip: replicate_Suc)
    (simp add: Suc_diff_le)

lemma md5_lastBlock_pads:
  assumes "md5_ok s" "n \<le> length blk" "n < 8192" "md5_counter s = of_nat c" "8 * (64 * c + n) < 2 ^ 32"
  shows "md5_ok (md5_lastBlock blk (of_nat (8 * n)) s) \<and>
    rfc_blocks (take n blk @ rfc_padding (64 * c + n)) (md5_regs_of s) = md5_regs_of (md5_lastBlock blk (of_nat (8 * n)) s)"
proof -
  obtain s' where s': "md5_last_loop blk (8 * n) s = (s', drop (64 * (n div 64)) blk, 8 * (n mod 64))" "md5_ok s'"
    "md5_counter s' = of_nat c + of_nat (n div 64)"
    "\<And>t. rfc_blocks (take n blk @ t) (md5_regs_of s) = rfc_blocks (take (n mod 64) (drop (64 * (n div 64)) blk) @ t) (md5_regs_of s')"
    using md5_last_loop_blocks [OF assms(1,2)] assms(4) by auto
  define r where "r = drop (64 * (n div 64)) blk"
  define m where "m = n mod 64"
  have m: "m < 64" "m \<le> length r" using assms(2) by (simp_all add: m_def r_def minus_mult_div_eq_mod [symmetric] diff_le_mono)
  have lenr: "length (take m r) = m" using m(2) by simp
  define T where "T = map (\<lambda>i. of_nat (8 * (64 * c + n) div 256 ^ i) :: u8) [0..<8]"
  have total: "64 * (c + n div 64) + m = 64 * c + n" by (simp add: m_def algebra_simps)
  have cnt: "md5_counter s' * 512 + of_nat (8 * m) = (of_nat (8 * (64 * c + n)) :: u32)"
    unfolding s'(3) total [symmetric] by (simp add: algebra_simps)
  have tail: "le64 (ucast (md5_counter s' * 512 + of_nat (8 * m))) = T"
    unfolding cnt T_def by (rule le64_small [OF assms(5)])
  have lenT: "length T = 8" by (simp add: T_def)
  have mod: "(64 * c + n) mod 64 = m" by (simp add: m_def)
  let ?b = "take m r @ 0x80 # replicate (63 - m) 0"
  have loop: "md5_last_loop blk (unat (of_nat (8 * n) :: u16)) s = (s', r, 8 * m)"
    using s'(1) assms(3) by (simp add: unat_of_nat r_def m_def del: of_nat_mult)
  show ?thesis
  proof (cases "m \<le> 55")
    case True
    have pad: "rfc_padding (64 * c + n) = 0x80 # replicate (55 - m) 0 @ T"
      unfolding rfc_padding_def mod T_def using True by (simp add: mod_if)
    have blk: "memcpy_at 56 T ?b = take m r @ 0x80 # replicate (55 - m) 0 @ T"
      using True lenr lenT by (simp add: memcpy_at_def take_Cons' min_def)
    have "md5_lastBlock blk (of_nat (8 * n)) s = md5_nextBlock (take m r @ 0x80 # replicate (55 - m) 0 @ T) s'"
      unfolding md5_lastBlock_def Let_def loop prod.case using True pad_block [OF m] tail blk by simp
    moreover have "length (take m r @ 0x80 # replicate (55 - m) 0 @ T) = 64" using True lenr lenT by simp
    ultimately show ?thesis
      using s'(4) md5_block(1,2) [OF s'(2)] pad rfc_blocks_block [of "take m r @ 0x80 # replicate (55 - m) 0 @ T" "[]"]
      by (simp add: r_def [symmetric] m_def [symmetric] rfc_blocks_end md5_ok_def)
  next
    case False
    have pad: "rfc_padding (64 * c + n) = (0x80 # replicate (63 - m) 0) @ replicate 56 0 @ T"
      unfolding rfc_padding_def mod T_def using False m(1)
      by (simp add: mod_if del: replicate.simps flip: replicate_add append_assoc)
    let ?b2 = "replicate 56 0 @ T"
    let ?s = "md5_nextBlock ?b s'"
    have blk: "memcpy_at 56 T (replicate 64 0) = ?b2"
      using lenT by (simp add: memcpy_at_def del: replicate.simps)
    have "md5_lastBlock blk (of_nat (8 * n)) s = md5_nextBlock ?b2 (?s\<lparr>md5_counter := md5_counter ?s - 1\<rparr>)"
      unfolding md5_lastBlock_def Let_def loop prod.case
      using False pad_block [OF m] tail blk md5_block(3) [OF s'(2)] by (simp del: replicate.simps)
    moreover have "length ?b = 64" "length ?b2 = 64" using m(1) lenr lenT by simp_all
    moreover have "md5_ok (?s\<lparr>md5_counter := md5_counter ?s - 1\<rparr>)"
      "md5_regs_of (?s\<lparr>md5_counter := md5_counter ?s - 1\<rparr>) = md5_regs_of ?s"
      using md5_block(2) [OF s'(2)] by (simp_all add: md5_ok_def md5_regs_of_def)
    ultimately show ?thesis
      using s'(4) md5_block(1) [OF s'(2)] pad rfc_blocks_block [of ?b ?b2] rfc_blocks_block [of ?b2 "[]"]
        md5_block(1,2) [of "?s\<lparr>md5_counter := md5_counter ?s - 1\<rparr>"]
      by (simp add: r_def [symmetric] m_def [symmetric] rfc_blocks_end md5_ok_def del: replicate.simps)
  qed
qed

lemma md5_digest_regs:
  "md5_ok s \<Longrightarrow> md5_digest s = (case md5_regs_of s of (a, b, c, d) \<Rightarrow> le32 a @ le32 b @ le32 c @ le32 d)"
  by (auto simp: md5_ok_def md5_digest_def md5_regs_of_def elim: length_4_cases)

lemma md5_init_ok: "md5_ok md5_init" "md5_regs_of md5_init = (0x67452301, 0xefcdab89, 0x98badcfe, 0x10325476)" "md5_counter md5_init = 0"
  by (simp_all add: md5_init_def md5_ok_def md5_regs_of_def)

lemma md5_of_blocks:
  assumes "\<forall>b \<in> set bs. length b = 64" "n \<le> length blk" "n < 8192" "8 * (64 * length bs + n) < 2 ^ 32"
  shows "md5_digest (md5_lastBlock blk (of_nat (8 * n)) (fold md5_nextBlock bs md5_init)) = rfc_md5 (concat bs @ take n blk)"
proof -
  let ?s = "fold md5_nextBlock bs md5_init"
  note bl = md5_blocks [OF md5_init_ok(1) assms(1)]
  have s: "md5_ok ?s" "md5_counter ?s = of_nat (length bs)"
    using bl [of "[]"] by (simp_all add: md5_init_ok(3))
  note last = md5_lastBlock_pads [OF s(1) assms(2,3) s(2) assms(4)]
  have len: "length (concat bs) = 64 * length bs"
    using assms(1) by (induction bs) simp_all
  have "rfc_blocks ((concat bs @ take n blk) @ rfc_padding (64 * length bs + n)) (md5_regs_of md5_init) =
      md5_regs_of (md5_lastBlock blk (of_nat (8 * n)) ?s)"
    using bl [of "take n blk @ rfc_padding (64 * length bs + n)"] last by simp
  moreover have "length (concat bs @ take n blk) = 64 * length bs + n" using len assms(2) by simp
  ultimately show ?thesis
    using last md5_digest_regs unfolding rfc_md5_def md5_init_ok(2) by metis
qed

section \<open>Properties\<close>

text \<open>
  C40. The code computes MD5 as RFC 1321 defines it: full blocks hashed one after the other and a
  last piece of any number of bytes up to 8191 give the digest of their concatenation, padding and
  length included, as long as the length in bits fits 32 bits.
\<close>

theorem md5_is_rfc1321:
  assumes "\<forall>b \<in> set bs. length b = 64" "length last_piece < 8192" "8 * (64 * length bs + length last_piece) < 2 ^ 32"
  shows "md5_digest (md5_lastBlock last_piece (of_nat (8 * length last_piece)) (fold md5_nextBlock bs md5_init)) =
    rfc_md5 (concat bs @ last_piece)"
  using md5_of_blocks [OF assms(1) order_refl assms(2,3)] by simp

definition abc_block :: "u8 list" where
  "abc_block = [0x61, 0x62, 0x63, 0x80] @ replicate 52 0 @ [24, 0, 0, 0, 0, 0, 0, 0]"

lemma abc_round_1:
  "md5_round abc_block [7, 12, 17, 22] (\<lambda>m n. m * 4 + n) 0
    ([0x67452301, 0xefcdab89, 0x98badcfe, 0x10325476], 0) =
    ([0xdda9b9a6, 0x72aff2e0, 0xe396856b, 0xa1051895], 16)"
  by code_simp

lemma abc_round_2:
  "md5_round abc_block [5, 9, 14, 20] (\<lambda>m n. masked (1 + int m * 4 + int n * 5)) 1
    ([0xdda9b9a6, 0x72aff2e0, 0xe396856b, 0xa1051895], 16) =
    ([0x790a77fb, 0x726342d3, 0xa62884aa, 0x9f47e4f8], 32)"
  by code_simp

lemma abc_round_3:
  "md5_round abc_block [4, 11, 16, 23] (\<lambda>m n. masked (5 - int m * 4 + int n * 3)) 2
    ([0x790a77fb, 0x726342d3, 0xa62884aa, 0x9f47e4f8], 32) =
    ([0x7f2e507b, 0x7beb9700, 0x8fae6399, 0x99d9679d], 48)"
  by code_simp

lemma abc_round_4:
  "md5_round abc_block [6, 10, 15, 21] (\<lambda>m n. masked (0 - int m * 4 + int n * 7)) 3
    ([0x7f2e507b, 0x7beb9700, 0x8fae6399, 0x99d9679d], 48) =
    ([0x310ade8f, 0xc08226b3, 0xe484b9d8, 0x624d8cb2], 64)"
  by code_simp

lemma md5_abc:
  "md5_digest (md5_lastBlock [0x61, 0x62, 0x63] 24 md5_init) =
    [0x90, 0x01, 0x50, 0x98, 0x3c, 0xd2, 0x4f, 0xb0, 0xd6, 0x96, 0x3f, 0x7d, 0x28, 0xe1, 0x7f, 0x72]"
proof -
  have loop: "md5_last_loop [0x61, 0x62, 0x63] (unat (24 :: u16)) md5_init = (md5_init, [0x61, 0x62, 0x63], 24)"
    by (subst md5_last_loop.simps) simp
  have len: "le64 (ucast (md5_counter md5_init * 512 + of_nat 24)) = [24, 0, 0, 0, 0, 0, 0, 0]"
    by code_simp
  have "memcpy_at 56 [24, 0, 0, 0, 0, 0, 0, 0] ((memcpy_at 0 (take 3 [0x61, 0x62, 0x63]) (replicate 64 0))[3 := 0x80]) = abc_block"
    by code_simp
  then have "md5_lastBlock [0x61, 0x62, 0x63] 24 md5_init = md5_nextBlock abc_block md5_init"
    unfolding md5_lastBlock_def Let_def loop prod.case using len by (simp del: replicate.simps)
  moreover have a0: "md5_a md5_init = [0x67452301, 0xefcdab89, 0x98badcfe, 0x10325476]" by (simp add: md5_init_def)
  have "md5_nextBlock abc_block md5_init = md5_init\<lparr>
      md5_a := map2 (+) [0x67452301, 0xefcdab89, 0x98badcfe, 0x10325476] [0x310ade8f, 0xc08226b3, 0xe484b9d8, 0x624d8cb2],
      md5_counter := md5_counter md5_init + 1\<rparr>"
    unfolding md5_nextBlock_def Let_def a0
    by (simp only: abc_round_1 abc_round_2 abc_round_3 abc_round_4 prod.case)
  then have "md5_a (md5_nextBlock abc_block md5_init) =
      map2 (+) [0x67452301, 0xefcdab89, 0x98badcfe, 0x10325476] [0x310ade8f, 0xc08226b3, 0xe484b9d8, 0x624d8cb2]"
    by simp
  moreover have "concat (map le32 (map2 (+) [0x67452301, 0xefcdab89, 0x98badcfe, 0x10325476] [0x310ade8f, 0xc08226b3, 0xe484b9d8, 0x624d8cb2])) =
      [0x90, 0x01, 0x50, 0x98, 0x3c, 0xd2, 0x4f, 0xb0, 0xd6, 0x96, 0x3f, 0x7d, 0x28, 0xe1, 0x7f, 0x72]"
    by code_simp
  ultimately show ?thesis by (simp add: md5_digest_def)
qed

text \<open>The test vector of the standard.\<close>

theorem md5_is_rfc1321_witness:
  "rfc_md5 [0x61, 0x62, 0x63] =
    [0x90, 0x01, 0x50, 0x98, 0x3c, 0xd2, 0x4f, 0xb0, 0xd6, 0x96, 0x3f, 0x7d, 0x28, 0xe1, 0x7f, 0x72]"
  using md5_is_rfc1321 [of "[]" "[0x61, 0x62, 0x63]"] md5_abc by simp

end
