(* ===== verification/Uip.thy ===== *)
theory Uip imports Prelude begin

text \<open>
  The TCP/IP stack (protocols/uip/uip.c, uip.h) for IPv4, with TCP, UDP and its checksums, ICMP,
  broadcast and several stacks configured, and without statistics, mDNS and inactivity timeouts.

  The packet is in \<open>u_buf\<close>, its IP header from offset 14 on; a field is named by its offset there,
  and \<open>uip_appdata\<close> and \<open>uip_sappdata\<close> are offsets too.  Fields of type \<open>u16_t\<close> that the code reads
  and writes raw, ports and checksums, are little-endian words; sequence numbers are the arrays of
  four bytes they are in the code.  A connection is named by its index, and the temporaries of the
  file are local.  A callback of an application is a number, \<open>None\<close> for a null pointer; what it
  does is a parameter, which acts on the whole state, the application's own included, in the
  extension of the record.

  Each label of \<open>uip_process\<close> is a definition.  The loop over the options of a SYN may not end,
  so that \<open>uip_process\<close> is partial: \<open>None\<close> is a processor that hangs.
\<close>

section \<open>Bytes\<close>

primrec poke :: "nat \<Rightarrow> u8 list \<Rightarrow> u8 list \<Rightarrow> u8 list" where
  "poke off [] buf = buf"
| "poke off (b # bs) buf = poke (Suc off) bs (buf[off := b])"

definition raw16 :: "u8 list \<Rightarrow> nat \<Rightarrow> u16" where
  "raw16 buf off = ucast (buf ! off) OR push_bit 8 (ucast (buf ! (off + 1)))"

definition raw_bytes :: "u16 \<Rightarrow> u8 list" where
  "raw_bytes w = [ucast w, ucast (drop_bit 8 w)]"

definition htons :: "u16 \<Rightarrow> u16" where
  "htons w = push_bit 8 w OR drop_bit 8 w"

text \<open>A 16-bit value in network byte order, as the code reads and writes the length fields.\<close>

definition be16 :: "u8 \<Rightarrow> u8 \<Rightarrow> u16" where
  "be16 hi lo = push_bit 8 (ucast hi) + ucast lo"

definition be_bytes :: "u16 \<Rightarrow> u8 list" where
  "be_bytes w = [ucast (drop_bit 8 w), ucast w]"

section \<open>The state\<close>

record uip_conn_t =
  c_ripaddr :: "u8 list"
  c_lport :: u16
  c_rport :: u16
  c_rcv_nxt :: "u8 list"
  c_snd_nxt :: "u8 list"
  c_len :: u16
  c_wnd :: u16
  c_mss :: u16
  c_initialmss :: u16
  c_sa :: u8
  c_sv :: u8
  c_rto :: u8
  c_tcpstateflags :: u8
  c_timer :: u8
  c_nrtx :: u8
  c_callback :: "nat option"
  c_stack :: nat

record uip_udp_conn_t =
  d_ripaddr :: "u8 list"
  d_lport :: u16
  d_rport :: u16
  d_callback :: "nat option"
  d_stack :: nat

record uip_state =
  u_buf :: "u8 list"
  u_len :: u16
  u_slen :: u16
  u_flags :: u8
  u_appdata :: nat
  u_sappdata :: nat
  u_conns :: "uip_conn_t list"
  u_conn :: "nat option"
  u_udp_conns :: "uip_udp_conn_t list"
  u_udp_conn :: nat
  u_listenports :: "(u16 \<times> nat option) list"
  u_iss :: "u8 list"
  u_ipid :: u16
  u_lastport :: u16
  u_stacks :: "(u8 list \<times> u8 list) list"
  u_stack :: nat

text \<open>The tables of \<open>UIP_CONNS\<close>, \<open>UIP_LISTENPORTS\<close> and \<open>UIP_UDP_CONNS\<close> entries are lists of any length.\<close>

definition uip_hostaddr :: "'z uip_state_scheme \<Rightarrow> u8 list" where
  "uip_hostaddr s = fst (u_stacks s ! u_stack s)"

definition uip_netmask :: "'z uip_state_scheme \<Rightarrow> u8 list" where
  "uip_netmask s = snd (u_stacks s ! u_stack s)"

definition uip_stack_set_active :: "nat \<Rightarrow> 'z uip_state_scheme \<Rightarrow> 'z uip_state_scheme" where
  "uip_stack_set_active i s = s\<lparr>u_stack := i\<rparr>"

definition all_ones_addr :: "u8 list" where "all_ones_addr = [0xff, 0xff, 0xff, 0xff]"
definition all_zeroes_addr :: "u8 list" where "all_zeroes_addr = [0, 0, 0, 0]"

definition UIP_ACKDATA :: u8 where "UIP_ACKDATA = 1"
definition UIP_NEWDATA :: u8 where "UIP_NEWDATA = 2"
definition UIP_REXMIT :: u8 where "UIP_REXMIT = 4"
definition UIP_POLL :: u8 where "UIP_POLL = 8"
definition UIP_CLOSE :: u8 where "UIP_CLOSE = 16"
definition UIP_ABORT :: u8 where "UIP_ABORT = 32"
definition UIP_CONNECTED :: u8 where "UIP_CONNECTED = 64"
definition UIP_TIMEDOUT :: u8 where "UIP_TIMEDOUT = 128"

definition UIP_CLOSED :: u8 where "UIP_CLOSED = 0"
definition UIP_SYN_RCVD :: u8 where "UIP_SYN_RCVD = 1"
definition UIP_SYN_SENT :: u8 where "UIP_SYN_SENT = 2"
definition UIP_ESTABLISHED :: u8 where "UIP_ESTABLISHED = 3"
definition UIP_FIN_WAIT_1 :: u8 where "UIP_FIN_WAIT_1 = 4"
definition UIP_FIN_WAIT_2 :: u8 where "UIP_FIN_WAIT_2 = 5"
definition UIP_CLOSING :: u8 where "UIP_CLOSING = 6"
definition UIP_TIME_WAIT :: u8 where "UIP_TIME_WAIT = 7"
definition UIP_LAST_ACK :: u8 where "UIP_LAST_ACK = 8"
definition UIP_TS_MASK :: u8 where "UIP_TS_MASK = 15"
definition UIP_STOPPED :: u8 where "UIP_STOPPED = 16"

definition TCP_FIN :: u8 where "TCP_FIN = 1"
definition TCP_SYN :: u8 where "TCP_SYN = 2"
definition TCP_RST :: u8 where "TCP_RST = 4"
definition TCP_PSH :: u8 where "TCP_PSH = 8"
definition TCP_ACK :: u8 where "TCP_ACK = 16"
definition TCP_URG :: u8 where "TCP_URG = 32"
definition TCP_CTL :: u8 where "TCP_CTL = 0x3f"

definition UIP_RTO :: u8 where "UIP_RTO = 3"
definition UIP_MAXRTX :: u8 where "UIP_MAXRTX = 8"
definition UIP_MAXSYNRTX :: u8 where "UIP_MAXSYNRTX = 5"
definition UIP_TIME_WAIT_TIMEOUT :: u8 where "UIP_TIME_WAIT_TIMEOUT = 120"

text \<open>\<open>UIP_BUFSIZE\<close> is two less than the buffer, and the segment size leaves room for the headers.\<close>

definition UIP_TCP_MSS :: "'z uip_state_scheme \<Rightarrow> u16" where
  "UIP_TCP_MSS s = of_nat (length (u_buf s) - 2 - 14 - 40)"

definition uip_put :: "nat \<Rightarrow> u8 list \<Rightarrow> 'z uip_state_scheme \<Rightarrow> 'z uip_state_scheme" where
  "uip_put off d s = s\<lparr>u_buf := poke off d (u_buf s)\<rparr>"

definition conn_update :: "nat \<Rightarrow> (uip_conn_t \<Rightarrow> uip_conn_t) \<Rightarrow> 'z uip_state_scheme \<Rightarrow> 'z uip_state_scheme" where
  "conn_update r f s = s\<lparr>u_conns := (u_conns s)[r := f (u_conns s ! r)]\<rparr>"

type_synonym 'z uip_app = "nat \<Rightarrow> 'z uip_state_scheme \<Rightarrow> 'z uip_state_scheme"

definition UIP_APPCALL :: "'z uip_app \<Rightarrow> 'z uip_state_scheme \<Rightarrow> 'z uip_state_scheme" where
  "UIP_APPCALL app s =
    (case c_callback (u_conns s ! the (u_conn s)) of None \<Rightarrow> s | Some f \<Rightarrow> app f s)"

definition UIP_UDP_APPCALL :: "'z uip_app \<Rightarrow> 'z uip_state_scheme \<Rightarrow> 'z uip_state_scheme" where
  "UIP_UDP_APPCALL app s =
    (case d_callback (u_udp_conns s ! u_udp_conn s) of None \<Rightarrow> s | Some f \<Rightarrow> app f s)"

section \<open>Sequence numbers and checksums\<close>

definition uip_add32 :: "u8 list \<Rightarrow> u16 \<Rightarrow> u8 list" where
  "uip_add32 op32 op16 =
    (let lo = ucast op16 :: u8; hi = ucast (drop_bit 8 op16) :: u8;
         a3 = op32 ! 3 + lo; a2 = op32 ! 2 + hi; a1 = op32 ! 1; a0 = op32 ! 0;
         (a1, a0) = (if a2 < hi then let a1 = a1 + 1 in (a1, if a1 = 0 then a0 + 1 else a0) else (a1, a0));
         (a2, a1, a0) = (if a3 < lo then
             let a2 = a2 + 1 in
             if a2 = 0 then let a1 = a1 + 1 in (a2, a1, if a1 = 0 then a0 + 1 else a0) else (a2, a1, a0)
           else (a2, a1, a0))
     in [a0, a1, a2, a3])"

text \<open>\<open>chksum\<close> over \<open>len\<close> bytes at \<open>data\<close>: pairs of bytes, and an odd last one padded with zero.\<close>

definition add_carry :: "u16 \<Rightarrow> u16 \<Rightarrow> u16" where
  "add_carry acc t = (let acc = acc + t in if acc < t then acc + 1 else acc)"

fun chksum :: "u16 \<Rightarrow> u8 list \<Rightarrow> u16" where
  "chksum acc (a # b # data) = chksum (add_carry acc (push_bit 8 (ucast a) + ucast b)) data"
| "chksum acc [a] = add_carry acc (push_bit 8 (ucast a) + 0)"
| "chksum acc [] = acc"

definition uip_ipchksum :: "'z uip_state_scheme \<Rightarrow> u16" where
  "uip_ipchksum s = (let acc = chksum 0 (slice 14 20 (u_buf s)) in if acc = 0 then 0xffff else htons acc)"

definition upper_layer_chksum :: "u8 \<Rightarrow> 'z uip_state_scheme \<Rightarrow> u16" where
  "upper_layer_chksum proto s =
    (let b = u_buf s;
         upper_layer_len = be16 (b ! 16) (b ! 17) - 20;
         acc = upper_layer_len + ucast proto;
         acc = chksum acc (slice 26 8 b);
         acc = chksum acc (slice 34 (unat upper_layer_len) b)
     in if acc = 0 then 0xffff else htons acc)"

definition uip_tcpchksum :: "'z uip_state_scheme \<Rightarrow> u16" where "uip_tcpchksum = upper_layer_chksum 6"
definition uip_udpchksum :: "'z uip_state_scheme \<Rightarrow> u16" where "uip_udpchksum = upper_layer_chksum 17"

section \<open>Opening\<close>

definition uip_init :: "'z uip_state_scheme \<Rightarrow> 'z uip_state_scheme" where
  "uip_init s = s\<lparr>u_listenports := map (\<lambda>p. (0, snd p)) (u_listenports s),
     u_conns := map (\<lambda>c. c\<lparr>c_tcpstateflags := UIP_CLOSED, c_stack := 0\<rparr>) (u_conns s),
     u_lastport := 1024,
     u_udp_conns := map (\<lambda>d. d\<lparr>d_lport := 0, d_stack := 0\<rparr>) (u_udp_conns s)\<rparr>"

text \<open>The loop that starts again at a port in use; \<open>used\<close> tells which are.\<close>

partial_function (option) next_port :: "(u16 \<Rightarrow> bool) \<Rightarrow> u16 \<Rightarrow> u16 option" where
  "next_port used p =
    (let p = p + 1; p = (if 32000 \<le> p then 4096 else p)
     in if used p then next_port used p else Some p)"

declare next_port.simps [code]

text \<open>
  A free connection, or else the oldest in TIME\_WAIT, as \<open>uip_connect\<close> and a SYN for a listening
  port look for it.
\<close>

fun free_conn :: "uip_conn_t list \<Rightarrow> nat option \<Rightarrow> nat list \<Rightarrow> nat option" where
  "free_conn conns found [] = found"
| "free_conn conns found (c # cs) =
    (if c_tcpstateflags (conns ! c) = UIP_CLOSED then Some c
     else if c_tcpstateflags (conns ! c) = UIP_TIME_WAIT \<and>
       (case found of None \<Rightarrow> True | Some k \<Rightarrow> c_timer (conns ! k) < c_timer (conns ! c))
     then free_conn conns (Some c) cs
     else free_conn conns found cs)"

definition uip_connect :: "u8 list \<Rightarrow> u16 \<Rightarrow> nat option \<Rightarrow> 'z uip_state_scheme \<Rightarrow> (nat option \<times> 'z uip_state_scheme) option" where
  "uip_connect ripaddr rport callback s =
    (case next_port (\<lambda>p. \<exists>c \<in> set (u_conns s). c_tcpstateflags c \<noteq> UIP_CLOSED \<and> c_lport c = htons p) (u_lastport s) of
       None \<Rightarrow> None
     | Some p \<Rightarrow>
         let s = s\<lparr>u_lastport := p\<rparr> in
         (case free_conn (u_conns s) None [0..<length (u_conns s)] of
            None \<Rightarrow> Some (None, s)
          | Some k \<Rightarrow> Some (Some k, conn_update k (\<lambda>c. c\<lparr>c_tcpstateflags := UIP_SYN_SENT, c_snd_nxt := u_iss s,
              c_initialmss := UIP_TCP_MSS s, c_mss := UIP_TCP_MSS s, c_len := 1, c_nrtx := 0, c_timer := 1,
              c_rto := UIP_RTO, c_sa := 0, c_sv := 16, c_wnd := 0, c_lport := htons p, c_rport := rport,
              c_ripaddr := ripaddr, c_callback := callback, c_stack := u_stack s\<rparr>) s)))"

definition uip_udp_new :: "u8 list option \<Rightarrow> u16 \<Rightarrow> nat option \<Rightarrow> 'z uip_state_scheme \<Rightarrow> (nat option \<times> 'z uip_state_scheme) option" where
  "uip_udp_new ripaddr rport callback s =
    (case next_port (\<lambda>p. \<exists>d \<in> set (u_udp_conns s). d_lport d = htons p) (u_lastport s) of
       None \<Rightarrow> None
     | Some p \<Rightarrow>
         let s = s\<lparr>u_lastport := p\<rparr> in
         (case find (\<lambda>c. d_lport (u_udp_conns s ! c) = 0) [0..<length (u_udp_conns s)] of
            None \<Rightarrow> Some (None, s)
          | Some k \<Rightarrow> Some (Some k, s\<lparr>u_udp_conns := (u_udp_conns s)[k := (u_udp_conns s ! k)\<lparr>
              d_lport := htons p, d_rport := rport,
              d_ripaddr := (case ripaddr of None \<Rightarrow> all_zeroes_addr | Some a \<Rightarrow> a),
              d_callback := callback, d_stack := u_stack s\<rparr>]\<rparr>)))"

definition listen_index :: "u16 \<Rightarrow> 'z uip_state_scheme \<Rightarrow> nat option" where
  "listen_index port s = find (\<lambda>c. fst (u_listenports s ! c) = port) [0..<length (u_listenports s)]"

definition uip_unlisten :: "u16 \<Rightarrow> 'z uip_state_scheme \<Rightarrow> 'z uip_state_scheme" where
  "uip_unlisten port s = (case listen_index port s of None \<Rightarrow> s
     | Some c \<Rightarrow> s\<lparr>u_listenports := (u_listenports s)[c := (0, snd (u_listenports s ! c))]\<rparr>)"

definition uip_listen :: "u16 \<Rightarrow> nat option \<Rightarrow> 'z uip_state_scheme \<Rightarrow> 'z uip_state_scheme" where
  "uip_listen port callback s = (case listen_index 0 s of None \<Rightarrow> s
     | Some c \<Rightarrow> s\<lparr>u_listenports := (u_listenports s)[c := (port, callback)]\<rparr>)"

end
