(* ===== verification/Uip_Process.thy ===== *)
theory Uip_Process imports Uip begin

text \<open>
  \<open>uip_process\<close> of protocols/uip/uip.c, label by label, in the order in which they jump to each
  other.  Offsets in the buffer: 14 version, 15 type of service, 16 length, 18 identification,
  20 fragment offset, 22 time to live, 23 protocol, 24 header checksum, 26 source and 30 destination
  address; of a TCP segment 34 source and 36 destination port, 38 sequence and 42 acknowledgement
  number, 46 header length, 47 flags, 48 window, 50 checksum, 52 urgent pointer, 54 options; of a
  UDP datagram 38 length and 40 checksum, 42 data; of an ICMP message 34 type and 36 checksum.
\<close>

section \<open>Sending\<close>

definition uip_drop :: "'z uip_state_scheme \<Rightarrow> 'z uip_state_scheme" where
  "uip_drop s = s\<lparr>u_len := 0, u_flags := 0\<rparr>"

definition uip_send_label :: "'z uip_state_scheme \<Rightarrow> 'z uip_state_scheme" where
  "uip_send_label s = s\<lparr>u_flags := 0\<rparr>"

definition ip_send_nolen :: "'z uip_state_scheme \<Rightarrow> 'z uip_state_scheme" where
  "ip_send_nolen s =
    (let s = uip_put 14 [0x45] s;
         s = uip_put 15 [0] s;
         s = uip_put 20 [0, 0] s;
         s = s\<lparr>u_ipid := u_ipid s + 1\<rparr>;
         s = uip_put 18 (be_bytes (u_ipid s)) s;
         s = uip_put 24 [0, 0] s;
         s = uip_put 24 (raw_bytes (NOT (uip_ipchksum s))) s
     in uip_send_label s)"

definition udp_send :: "'z uip_state_scheme \<Rightarrow> 'z uip_state_scheme" where
  "udp_send s =
    (if u_slen s = 0 then uip_drop s
     else let s = s\<lparr>u_len := u_slen s + 28\<rparr>;
              s = uip_put 16 (be_bytes (u_len s)) s;
              s = uip_put 22 [64] s;
              s = uip_put 23 [17] s;
              s = uip_put 38 (raw_bytes (htons (u_slen s + 8))) s;
              s = uip_put 40 [0, 0] s;
              d = u_udp_conns s ! u_udp_conn s;
              s = uip_put 34 (raw_bytes (d_lport d)) s;
              s = uip_put 36 (raw_bytes (d_rport d)) s;
              s = uip_put 26 (uip_hostaddr s) s;
              s = uip_put 30 (d_ripaddr d) s;
              s = s\<lparr>u_appdata := 42\<rparr>;
              s = uip_put 40 (raw_bytes (NOT (uip_udpchksum s))) s;
              s = (if raw16 (u_buf s) 40 = 0 then uip_put 40 [0xff, 0xff] s else s)
          in ip_send_nolen s)"

definition tcp_send_noconn :: "'z uip_state_scheme \<Rightarrow> 'z uip_state_scheme" where
  "tcp_send_noconn s =
    (let s = uip_put 22 [64] s;
         s = uip_put 16 (be_bytes (u_len s)) s;
         s = uip_put 52 [0, 0] s;
         s = uip_put 50 [0, 0] s;
         s = uip_put 50 (raw_bytes (NOT (uip_tcpchksum s))) s
     in ip_send_nolen s)"

definition tcp_send :: "nat \<Rightarrow> 'z uip_state_scheme \<Rightarrow> 'z uip_state_scheme" where
  "tcp_send r s =
    (let c = u_conns s ! r;
         s = uip_put 42 (c_rcv_nxt c) s;
         s = uip_put 38 (c_snd_nxt c) s;
         s = uip_put 23 [6] s;
         s = uip_put 34 (raw_bytes (c_lport c)) s;
         s = uip_put 36 (raw_bytes (c_rport c)) s;
         s = uip_put 26 (uip_hostaddr s) s;
         s = uip_put 30 (c_ripaddr c) s;
         s = (if c_tcpstateflags c AND UIP_STOPPED \<noteq> 0 then uip_put 48 [0, 0] s
              else if c_wnd c \<noteq> 0 then uip_put 48 (be_bytes (c_wnd c)) s
              else uip_put 48 (be_bytes (UIP_TCP_MSS s)) s)
     in tcp_send_noconn s)"

definition tcp_send_noopts :: "nat \<Rightarrow> 'z uip_state_scheme \<Rightarrow> 'z uip_state_scheme" where
  "tcp_send_noopts r s = tcp_send r (uip_put 46 [0x50] s)"

definition tcp_send_nodata :: "nat \<Rightarrow> 'z uip_state_scheme \<Rightarrow> 'z uip_state_scheme" where
  "tcp_send_nodata r s = tcp_send_noopts r (s\<lparr>u_len := 40\<rparr>)"

definition tcp_send_ack :: "nat \<Rightarrow> 'z uip_state_scheme \<Rightarrow> 'z uip_state_scheme" where
  "tcp_send_ack r s = tcp_send_nodata r (uip_put 47 [TCP_ACK] s)"

definition tcp_send_finack :: "nat \<Rightarrow> 'z uip_state_scheme \<Rightarrow> 'z uip_state_scheme" where
  "tcp_send_finack r s = tcp_send_nodata r (uip_put 47 [TCP_FIN OR TCP_ACK] s)"

definition tcp_send_syn :: "nat \<Rightarrow> 'z uip_state_scheme \<Rightarrow> 'z uip_state_scheme" where
  "tcp_send_syn r s =
    (let s = uip_put 47 [u_buf s ! 47 OR TCP_SYN] s;
         s = uip_put 54 [2] s;
         s = uip_put 55 [4] s;
         s = uip_put 56 (be_bytes (UIP_TCP_MSS s)) s;
         s = s\<lparr>u_len := 44\<rparr>;
         s = uip_put 46 [0x60] s
     in tcp_send r s)"

definition tcp_send_synack :: "nat \<Rightarrow> 'z uip_state_scheme \<Rightarrow> 'z uip_state_scheme" where
  "tcp_send_synack r s = tcp_send_syn r (uip_put 47 [TCP_ACK] s)"

definition increment4 :: "u8 list \<Rightarrow> u8 list" where
  "increment4 a =
    (let a3 = a ! 3 + 1; a2 = (if a3 = 0 then a ! 2 + 1 else a ! 2);
         a1 = (if a3 = 0 \<and> a2 = 0 then a ! 1 + 1 else a ! 1);
         a0 = (if a3 = 0 \<and> a2 = 0 \<and> a1 = 0 then a ! 0 + 1 else a ! 0)
     in [a0, a1, a2, a3])"

definition tcp_reset :: "'z uip_state_scheme \<Rightarrow> 'z uip_state_scheme" where
  "tcp_reset s =
    (if u_buf s ! 47 AND TCP_RST \<noteq> 0 then uip_drop s
     else let s = uip_put 47 [TCP_RST OR TCP_ACK] s;
              s = s\<lparr>u_len := 40\<rparr>;
              s = uip_put 46 [0x50] s;
              seqno = slice 38 4 (u_buf s); ackno = slice 42 4 (u_buf s);
              s = uip_put 38 ackno s;
              s = uip_put 42 seqno s;
              s = uip_put 42 (increment4 (slice 42 4 (u_buf s))) s;
              srcport = slice 34 2 (u_buf s); destport = slice 36 2 (u_buf s);
              s = uip_put 34 destport s;
              s = uip_put 36 srcport s;
              s = uip_put 30 (slice 26 4 (u_buf s)) s;
              s = uip_put 26 (uip_hostaddr s) s
          in tcp_send_noconn s)"

section \<open>After the application has been called\<close>

definition apprexmit :: "nat \<Rightarrow> 'z uip_state_scheme \<Rightarrow> 'z uip_state_scheme" where
  "apprexmit r s =
    (let s = s\<lparr>u_appdata := u_sappdata s\<rparr>
     in if 0 < u_slen s \<and> 0 < c_len (u_conns s ! r) then
          let s = s\<lparr>u_len := c_len (u_conns s ! r) + 40\<rparr>;
              s = uip_put 47 [TCP_ACK OR TCP_PSH] s
          in tcp_send_noopts r s
        else if u_flags s AND UIP_NEWDATA \<noteq> 0 then
          let s = s\<lparr>u_len := 40\<rparr>; s = uip_put 47 [TCP_ACK] s
          in tcp_send_noopts r s
        else uip_drop s)"

definition appsend :: "nat \<Rightarrow> 'z uip_state_scheme \<Rightarrow> 'z uip_state_scheme" where
  "appsend r s =
    (if u_flags s AND UIP_ABORT \<noteq> 0 then
       let s = s\<lparr>u_slen := 0\<rparr>;
           s = conn_update r (\<lambda>c. c\<lparr>c_tcpstateflags := UIP_CLOSED\<rparr>) s;
           s = uip_put 47 [TCP_RST OR TCP_ACK] s
       in tcp_send_nodata r s
     else if u_flags s AND UIP_CLOSE \<noteq> 0 then
       let s = s\<lparr>u_slen := 0\<rparr>;
           s = conn_update r (\<lambda>c. c\<lparr>c_len := 1, c_tcpstateflags := UIP_FIN_WAIT_1, c_nrtx := 0\<rparr>) s;
           s = uip_put 47 [TCP_FIN OR TCP_ACK] s
       in tcp_send_nodata r s
     else
       let s = (if 0 < u_slen s then
             let s = (if u_flags s AND UIP_ACKDATA \<noteq> 0 then conn_update r (\<lambda>c. c\<lparr>c_len := 0\<rparr>) s else s)
             in if c_len (u_conns s ! r) = 0 then
                  let s = (if c_mss (u_conns s ! r) < u_slen s then s\<lparr>u_slen := c_mss (u_conns s ! r)\<rparr> else s)
                  in conn_update r (\<lambda>c. c\<lparr>c_len := u_slen s\<rparr>) s
                else s\<lparr>u_slen := c_len (u_conns s ! r)\<rparr>
           else s);
           s = conn_update r (\<lambda>c. c\<lparr>c_nrtx := 0\<rparr>) s
       in apprexmit r s)"

section \<open>TCP input\<close>

definition uip_add_rcv_nxt :: "u16 \<Rightarrow> 'z uip_state_scheme \<Rightarrow> 'z uip_state_scheme" where
  "uip_add_rcv_nxt n s = conn_update (the (u_conn s)) (\<lambda>c. c\<lparr>c_rcv_nxt := uip_add32 (c_rcv_nxt c) n\<rparr>) s"

text \<open>
  The loop over the options behind the header, up to \<open>lim\<close>: the segment size when there is one.
  The index is a byte and wraps around.
\<close>

partial_function (option) mss_options :: "u8 list \<Rightarrow> nat \<Rightarrow> u8 \<Rightarrow> u16 option option" where
  "mss_options buf lim c =
    (if \<not> unat c < lim then Some None
     else let opt = buf ! (54 + unat c)
       in if opt = 0 then Some None
          else if opt = 1 then mss_options buf lim (c + 1)
          else if opt = 2 \<and> buf ! (55 + unat c) = 4 then Some (Some (be16 (buf ! (56 + unat c)) (buf ! (57 + unat c))))
          else if buf ! (55 + unat c) = 0 then Some None
          else mss_options buf lim (c + buf ! (55 + unat c)))"

declare mss_options.simps [code]

definition parse_mss :: "nat \<Rightarrow> 'z uip_state_scheme \<Rightarrow> 'z uip_state_scheme option" where
  "parse_mss r s =
    (let b = u_buf s
     in if 0x50 < b ! 46 AND 0xf0 then
          (case mss_options b ((unat (b ! 46) div 16 - 5) * 4) 0 of
             None \<Rightarrow> None
           | Some None \<Rightarrow> Some s
           | Some (Some m) \<Rightarrow>
               let m = (if UIP_TCP_MSS s < m then UIP_TCP_MSS s else m)
               in Some (conn_update r (\<lambda>c. c\<lparr>c_mss := m, c_initialmss := m\<rparr>) s))
        else Some s)"

definition found_listen :: "u16 \<Rightarrow> 'z uip_state_scheme \<Rightarrow> 'z uip_state_scheme option" where
  "found_listen tmp16 s =
    (case free_conn (u_conns s) None [0..<length (u_conns s)] of
       None \<Rightarrow> Some (uip_drop s)
     | Some r \<Rightarrow>
         let s = s\<lparr>u_conn := Some r\<rparr>;
             s = (case listen_index tmp16 s of None \<Rightarrow> s
                  | Some c \<Rightarrow> conn_update r (\<lambda>x. x\<lparr>c_callback := snd (u_listenports s ! c)\<rparr>) s);
             b = u_buf s;
             s = conn_update r (\<lambda>c. c\<lparr>c_stack := u_stack s, c_rto := UIP_RTO, c_timer := UIP_RTO,
                   c_sa := 0, c_sv := 4, c_nrtx := 0, c_wnd := 0, c_lport := raw16 b 36, c_rport := raw16 b 34,
                   c_ripaddr := slice 26 4 b, c_tcpstateflags := UIP_SYN_RCVD, c_snd_nxt := u_iss s,
                   c_len := 1, c_rcv_nxt := slice 38 4 b\<rparr>) s;
             s = uip_add_rcv_nxt 1 s
         in map_option (tcp_send_synack r) (parse_mss r s))"

text \<open>The estimation of the round-trip time, in signed bytes.\<close>

definition rtt_estimate :: "uip_conn_t \<Rightarrow> uip_conn_t" where
  "rtt_estimate c =
    (let m = c_rto c - c_timer c;
         m = m - drop_bit 3 (c_sa c);
         sa = c_sa c + m;
         m = (if 0x80 \<le> m then - m else m);
         m = m - drop_bit 2 (c_sv c);
         sv = c_sv c + m
     in c\<lparr>c_sa := sa, c_sv := sv, c_rto := drop_bit 3 sa + sv\<rparr>)"

definition tcp_acked :: "nat \<Rightarrow> 'z uip_state_scheme \<Rightarrow> 'z uip_state_scheme" where
  "tcp_acked r s =
    (let c = u_conns s ! r; acc = uip_add32 (c_snd_nxt c) (c_len c)
     in if u_buf s ! 47 AND TCP_ACK \<noteq> 0 \<and> c_len c \<noteq> 0 \<and> slice 42 4 (u_buf s) = acc then
          let s = conn_update r (\<lambda>c. c\<lparr>c_snd_nxt := acc\<rparr>) s;
              s = (if c_nrtx c = 0 then conn_update r rtt_estimate s else s);
              s = s\<lparr>u_flags := UIP_ACKDATA\<rparr>
          in conn_update r (\<lambda>c. c\<lparr>c_timer := c_rto c, c_len := 0\<rparr>) s
        else s)"

definition tcp_established :: "'z uip_app \<Rightarrow> nat \<Rightarrow> 'z uip_state_scheme \<Rightarrow> 'z uip_state_scheme" where
  "tcp_established app r s =
    (if u_buf s ! 47 AND TCP_FIN \<noteq> 0 \<and> c_tcpstateflags (u_conns s ! r) AND UIP_STOPPED = 0 then
       if c_len (u_conns s ! r) \<noteq> 0 then uip_drop s
       else let s = uip_add_rcv_nxt (1 + u_len s) s;
                s = s\<lparr>u_flags := u_flags s OR UIP_CLOSE\<rparr>;
                s = (if 0 < u_len s then s\<lparr>u_flags := u_flags s OR UIP_NEWDATA\<rparr> else s);
                s = UIP_APPCALL app s;
                s = conn_update r (\<lambda>c. c\<lparr>c_len := 1, c_tcpstateflags := UIP_LAST_ACK, c_nrtx := 0\<rparr>) s
            in tcp_send_finack r s
     else
       let b = u_buf s;
           s = (if b ! 47 AND TCP_URG \<noteq> 0
                then s\<lparr>u_appdata := u_appdata s + unat (be16 (b ! 52) (b ! 53)), u_len := u_len s - be16 (b ! 52) (b ! 53)\<rparr>
                else s);
           s = (if 0 < u_len s \<and> c_tcpstateflags (u_conns s ! r) AND UIP_STOPPED = 0
                then uip_add_rcv_nxt (u_len s) (s\<lparr>u_flags := u_flags s OR UIP_NEWDATA\<rparr>)
                else s);
           w = be16 (b ! 48) (b ! 49); i = c_initialmss (u_conns s ! r);
           s = conn_update r (\<lambda>c. c\<lparr>c_mss := if i < w \<or> w = 0 then i else w\<rparr>) s
       in if u_flags s AND (UIP_NEWDATA OR UIP_ACKDATA) \<noteq> 0
          then appsend r (UIP_APPCALL app (s\<lparr>u_slen := 0\<rparr>))
          else uip_drop s)"

definition tcp_syn_rcvd :: "'z uip_app \<Rightarrow> nat \<Rightarrow> 'z uip_state_scheme \<Rightarrow> 'z uip_state_scheme" where
  "tcp_syn_rcvd app r s =
    (if u_flags s AND UIP_ACKDATA \<noteq> 0 then
       let s = conn_update r (\<lambda>c. c\<lparr>c_tcpstateflags := UIP_ESTABLISHED\<rparr>) s;
           s = s\<lparr>u_flags := UIP_CONNECTED\<rparr>;
           s = conn_update r (\<lambda>c. c\<lparr>c_len := 0\<rparr>) s;
           s = (if 0 < u_len s then uip_add_rcv_nxt (u_len s) (s\<lparr>u_flags := u_flags s OR UIP_NEWDATA\<rparr>) else s)
       in appsend r (UIP_APPCALL app (s\<lparr>u_slen := 0\<rparr>))
     else uip_drop s)"

definition tcp_syn_sent :: "'z uip_app \<Rightarrow> nat \<Rightarrow> 'z uip_state_scheme \<Rightarrow> 'z uip_state_scheme option" where
  "tcp_syn_sent app r s =
    (if u_flags s AND UIP_ACKDATA \<noteq> 0 \<and> u_buf s ! 47 AND TCP_CTL = TCP_SYN OR TCP_ACK then
       (case parse_mss r s of None \<Rightarrow> None
        | Some s \<Rightarrow>
            let s = conn_update r (\<lambda>c. c\<lparr>c_tcpstateflags := UIP_ESTABLISHED, c_rcv_nxt := slice 38 4 (u_buf s)\<rparr>) s;
                s = uip_add_rcv_nxt 1 s;
                s = s\<lparr>u_flags := UIP_CONNECTED OR UIP_NEWDATA\<rparr>;
                s = conn_update r (\<lambda>c. c\<lparr>c_len := 0\<rparr>) s
            in Some (appsend r (UIP_APPCALL app (s\<lparr>u_len := 0, u_slen := 0\<rparr>))))
     else
       let s = UIP_APPCALL app (s\<lparr>u_flags := UIP_ABORT\<rparr>);
           s = conn_update (the (u_conn s)) (\<lambda>c. c\<lparr>c_tcpstateflags := UIP_CLOSED\<rparr>) s
       in Some (tcp_reset s))"

definition tcp_last_ack :: "'z uip_app \<Rightarrow> nat \<Rightarrow> 'z uip_state_scheme \<Rightarrow> 'z uip_state_scheme" where
  "tcp_last_ack app r s =
    (if u_flags s AND UIP_ACKDATA \<noteq> 0 then
       let s = conn_update r (\<lambda>c. c\<lparr>c_tcpstateflags := UIP_CLOSED\<rparr>) s
       in uip_drop (UIP_APPCALL app (s\<lparr>u_flags := UIP_CLOSE\<rparr>))
     else uip_drop s)"

definition tcp_fin_wait_1 :: "'z uip_app \<Rightarrow> nat \<Rightarrow> 'z uip_state_scheme \<Rightarrow> 'z uip_state_scheme" where
  "tcp_fin_wait_1 app r s =
    (let s = (if 0 < u_len s then uip_add_rcv_nxt (u_len s) s else s)
     in if u_buf s ! 47 AND TCP_FIN \<noteq> 0 then
          let s = (if u_flags s AND UIP_ACKDATA \<noteq> 0
                then conn_update r (\<lambda>c. c\<lparr>c_tcpstateflags := UIP_TIME_WAIT, c_timer := 0, c_len := 0\<rparr>) s
                else conn_update r (\<lambda>c. c\<lparr>c_tcpstateflags := UIP_CLOSING\<rparr>) s);
              s = uip_add_rcv_nxt 1 s
          in tcp_send_ack r (UIP_APPCALL app (s\<lparr>u_flags := UIP_CLOSE\<rparr>))
        else if u_flags s AND UIP_ACKDATA \<noteq> 0 then
          uip_drop (conn_update r (\<lambda>c. c\<lparr>c_tcpstateflags := UIP_FIN_WAIT_2, c_len := 0\<rparr>) s)
        else if 0 < u_len s then tcp_send_ack r s
        else uip_drop s)"

definition tcp_fin_wait_2 :: "'z uip_app \<Rightarrow> nat \<Rightarrow> 'z uip_state_scheme \<Rightarrow> 'z uip_state_scheme" where
  "tcp_fin_wait_2 app r s =
    (let s = (if 0 < u_len s then uip_add_rcv_nxt (u_len s) s else s)
     in if u_buf s ! 47 AND TCP_FIN \<noteq> 0 then
          let s = conn_update r (\<lambda>c. c\<lparr>c_tcpstateflags := UIP_TIME_WAIT, c_timer := 0\<rparr>) s;
              s = uip_add_rcv_nxt 1 s
          in tcp_send_ack r (UIP_APPCALL app (s\<lparr>u_flags := UIP_CLOSE\<rparr>))
        else if 0 < u_len s then tcp_send_ack r s
        else uip_drop s)"

definition tcp_closing :: "nat \<Rightarrow> 'z uip_state_scheme \<Rightarrow> 'z uip_state_scheme" where
  "tcp_closing r s =
    uip_drop (if u_flags s AND UIP_ACKDATA \<noteq> 0
      then conn_update r (\<lambda>c. c\<lparr>c_tcpstateflags := UIP_TIME_WAIT, c_timer := 0\<rparr>) s else s)"

definition tcp_found :: "'z uip_app \<Rightarrow> nat \<Rightarrow> 'z uip_state_scheme \<Rightarrow> 'z uip_state_scheme option" where
  "tcp_found app r s =
    (let s = s\<lparr>u_conn := Some r, u_flags := 0\<rparr>; b = u_buf s; c = u_conns s ! r
     in if b ! 47 AND TCP_RST \<noteq> 0 then
          let s = conn_update r (\<lambda>c. c\<lparr>c_tcpstateflags := UIP_CLOSED\<rparr>) s
          in Some (uip_drop (UIP_APPCALL app (s\<lparr>u_flags := UIP_ABORT\<rparr>)))
        else
          let s = s\<lparr>u_len := u_len s - push_bit 2 (ucast (drop_bit 4 (b ! 46))) - 20\<rparr>
          in if \<not> (c_tcpstateflags c AND UIP_TS_MASK = UIP_SYN_SENT \<and> b ! 47 AND TCP_CTL = TCP_SYN OR TCP_ACK) \<and>
                (0 < u_len s \<or> b ! 47 AND (TCP_SYN OR TCP_FIN) \<noteq> 0) \<and> slice 38 4 b \<noteq> c_rcv_nxt c
             then Some (tcp_send_ack r s)
             else
               let s = tcp_acked r s; st = c_tcpstateflags (u_conns s ! r) AND UIP_TS_MASK
               in if st = UIP_SYN_RCVD then Some (tcp_syn_rcvd app r s)
                  else if st = UIP_SYN_SENT then tcp_syn_sent app r s
                  else if st = UIP_ESTABLISHED then Some (tcp_established app r s)
                  else if st = UIP_LAST_ACK then Some (tcp_last_ack app r s)
                  else if st = UIP_FIN_WAIT_1 then Some (tcp_fin_wait_1 app r s)
                  else if st = UIP_FIN_WAIT_2 then Some (tcp_fin_wait_2 app r s)
                  else if st = UIP_TIME_WAIT then Some (tcp_send_ack r s)
                  else if st = UIP_CLOSING then Some (tcp_closing r s)
                  else Some (uip_drop s))"

definition conn_of_segment :: "'z uip_state_scheme \<Rightarrow> nat option" where
  "conn_of_segment s =
    find (\<lambda>r. c_tcpstateflags (u_conns s ! r) \<noteq> UIP_CLOSED \<and> raw16 (u_buf s) 36 = c_lport (u_conns s ! r) \<and>
        raw16 (u_buf s) 34 = c_rport (u_conns s ! r) \<and> slice 26 4 (u_buf s) = c_ripaddr (u_conns s ! r))
      [0..<length (u_conns s)]"

definition tcp_input :: "'z uip_app \<Rightarrow> 'z uip_state_scheme \<Rightarrow> 'z uip_state_scheme option" where
  "tcp_input app s =
    (if uip_tcpchksum s \<noteq> 0xffff then Some (uip_drop s)
     else (case conn_of_segment s of
         Some r \<Rightarrow> tcp_found app r s
       | None \<Rightarrow>
           if u_buf s ! 47 AND TCP_CTL \<noteq> TCP_SYN then Some (tcp_reset s)
           else (case listen_index (raw16 (u_buf s) 36) s of
               None \<Rightarrow> Some (tcp_reset s)
             | Some c \<Rightarrow> found_listen (raw16 (u_buf s) 36) s)))"

section \<open>UDP and ICMP input\<close>

definition udp_found :: "'z uip_app \<Rightarrow> 'z uip_state_scheme \<Rightarrow> 'z uip_state_scheme" where
  "udp_found app s =
    udp_send (UIP_UDP_APPCALL app (s\<lparr>u_conn := None, u_flags := UIP_NEWDATA, u_sappdata := 42, u_appdata := 42, u_slen := 0\<rparr>))"

definition udp_match :: "u8 list \<Rightarrow> uip_udp_conn_t \<Rightarrow> bool" where
  "udp_match b d \<longleftrightarrow> d_lport d \<noteq> 0 \<and> raw16 b 36 = d_lport d \<and> (d_rport d = 0 \<or> raw16 b 34 = d_rport d) \<and>
    (d_ripaddr d = all_zeroes_addr \<or> d_ripaddr d = all_ones_addr \<or> slice 26 4 b = d_ripaddr d)"

definition udp_input :: "'z uip_app \<Rightarrow> 'z uip_state_scheme \<Rightarrow> 'z uip_state_scheme" where
  "udp_input app s =
    (let s = s\<lparr>u_len := u_len s - 28, u_appdata := 42\<rparr>
     in if raw16 (u_buf s) 40 \<noteq> 0 \<and> uip_udpchksum s \<noteq> 0xffff then uip_drop s
        else (case find (\<lambda>k. udp_match (u_buf s) (u_udp_conns s ! k)) (rev [0..<length (u_udp_conns s)]) of
            None \<Rightarrow> uip_drop s
          | Some k \<Rightarrow> udp_found app (s\<lparr>u_udp_conn := k\<rparr>)))"

definition icmp_input :: "'z uip_state_scheme \<Rightarrow> 'z uip_state_scheme" where
  "icmp_input s =
    (if u_buf s ! 23 \<noteq> 1 then uip_drop s
     else if u_buf s ! 34 \<noteq> 8 then uip_drop s
     else let s = uip_put 34 [0] s;
              c = raw16 (u_buf s) 36;
              c = (if htons (0xffff - push_bit 8 8) \<le> c then c + (htons (push_bit 8 8) + 1) else c + htons (push_bit 8 8));
              s = uip_put 36 (raw_bytes c) s;
              s = uip_put 30 (slice 26 4 (u_buf s)) s;
              s = uip_put 26 (uip_hostaddr s) s
          in uip_send_label s)"

section \<open>The entry\<close>

definition ip_input :: "'z uip_app \<Rightarrow> 'z uip_state_scheme \<Rightarrow> 'z uip_state_scheme option" where
  "ip_input app s =
    (let b = u_buf s
     in if b ! 14 \<noteq> 0x45 then Some (uip_drop s)
        else if \<not> be16 (b ! 16) (b ! 17) \<le> u_len s then Some (uip_drop s)
        else
          let s = s\<lparr>u_len := be16 (b ! 16) (b ! 17)\<rparr>
          in if b ! 20 AND 0x3f \<noteq> 0 \<or> b ! 21 \<noteq> 0 then Some (uip_drop s)
             else if b ! 23 = 17 \<and> slice 30 4 b = all_ones_addr then Some (udp_input app s)
             else if b ! 23 = 17 \<and> slice 30 4 b = map2 (\<lambda>h m. h OR NOT m) (uip_hostaddr s) (uip_netmask s)
               then Some (udp_input app s)
             else if slice 30 4 b \<noteq> uip_hostaddr s then Some (uip_drop s)
             else if uip_ipchksum s \<noteq> 0xffff then Some (uip_drop s)
             else if b ! 23 = 6 then tcp_input app s
             else if b ! 23 = 17 then Some (udp_input app s)
             else Some (icmp_input s))"

text \<open>Polling and the timer of a connection.\<close>

definition uip_poll :: "'z uip_app \<Rightarrow> nat \<Rightarrow> 'z uip_state_scheme \<Rightarrow> 'z uip_state_scheme" where
  "uip_poll app r s = appsend r (UIP_APPCALL app (s\<lparr>u_flags := UIP_POLL\<rparr>))"

definition uip_rexmit :: "'z uip_app \<Rightarrow> nat \<Rightarrow> 'z uip_state_scheme \<Rightarrow> 'z uip_state_scheme" where
  "uip_rexmit app r s =
    (let c = u_conns s ! r
     in if c_nrtx c = UIP_MAXRTX \<or>
          (c_tcpstateflags c = UIP_SYN_SENT \<or> c_tcpstateflags c = UIP_SYN_RCVD) \<and> c_nrtx c = UIP_MAXSYNRTX
        then
          let s = conn_update r (\<lambda>c. c\<lparr>c_tcpstateflags := UIP_CLOSED\<rparr>) s;
              s = UIP_APPCALL app (s\<lparr>u_flags := UIP_TIMEDOUT\<rparr>)
          in tcp_send_nodata r (uip_put 47 [TCP_RST OR TCP_ACK] s)
        else
          let s = conn_update r (\<lambda>c. c\<lparr>c_timer := push_bit (if 4 < c_nrtx c then 4 else unat (c_nrtx c)) UIP_RTO,
                    c_nrtx := c_nrtx c + 1\<rparr>) s;
              st = c_tcpstateflags c AND UIP_TS_MASK
          in if st = UIP_SYN_RCVD then tcp_send_synack r s
             else if st = UIP_SYN_SENT then tcp_send_syn r (uip_put 47 [0] s)
             else if st = UIP_ESTABLISHED then apprexmit r (UIP_APPCALL app (s\<lparr>u_flags := UIP_REXMIT\<rparr>))
             else if st = UIP_FIN_WAIT_1 \<or> st = UIP_CLOSING \<or> st = UIP_LAST_ACK then tcp_send_finack r s
             else uip_drop s)"

definition uip_timer :: "'z uip_app \<Rightarrow> nat \<Rightarrow> 'z uip_state_scheme \<Rightarrow> 'z uip_state_scheme" where
  "uip_timer app r s =
    (let s = s\<lparr>u_iss := increment4 (u_iss s), u_len := 0, u_slen := 0\<rparr>; c = u_conns s ! r
     in if c_tcpstateflags c = UIP_TIME_WAIT \<or> c_tcpstateflags c = UIP_FIN_WAIT_2 then
          uip_drop (conn_update r (\<lambda>c. if c_timer c + 1 = UIP_TIME_WAIT_TIMEOUT
            then c\<lparr>c_timer := c_timer c + 1, c_tcpstateflags := UIP_CLOSED\<rparr> else c\<lparr>c_timer := c_timer c + 1\<rparr>) s)
        else if c_tcpstateflags c \<noteq> UIP_CLOSED then
          if c_len c \<noteq> 0 then
            let s = conn_update r (\<lambda>c. c\<lparr>c_timer := c_timer c - 1\<rparr>) s
            in if c_timer c = 0 then uip_rexmit app r s else uip_drop s
          else if c_tcpstateflags c AND UIP_TS_MASK = UIP_ESTABLISHED then uip_poll app r s
          else uip_drop s
        else uip_drop s)"

datatype uip_request = UIP_DATA | UIP_TIMER | UIP_POLL_REQUEST | UIP_UDP_SEND_CONN | UIP_UDP_TIMER

definition uip_process :: "'z uip_app \<Rightarrow> uip_request \<Rightarrow> 'z uip_state_scheme \<Rightarrow> 'z uip_state_scheme option" where
  "uip_process app flag s =
    (if flag = UIP_UDP_SEND_CONN then Some (udp_send s)
     else
       let s = s\<lparr>u_sappdata := 54, u_appdata := 54\<rparr>; r = the (u_conn s)
       in case flag of
            UIP_POLL_REQUEST \<Rightarrow>
              if c_tcpstateflags (u_conns s ! r) AND UIP_TS_MASK = UIP_ESTABLISHED \<and> c_len (u_conns s ! r) = 0
              then Some (uip_poll app r s) else Some (uip_drop s)
          | UIP_TIMER \<Rightarrow> Some (uip_timer app r s)
          | UIP_UDP_TIMER \<Rightarrow>
              if d_lport (u_udp_conns s ! u_udp_conn s) \<noteq> 0
              then Some (udp_send (UIP_UDP_APPCALL app
                (s\<lparr>u_conn := None, u_sappdata := 42, u_appdata := 42, u_len := 0, u_slen := 0, u_flags := UIP_POLL\<rparr>)))
              else Some (uip_drop s)
          | _ \<Rightarrow> ip_input app s)"

definition uip_input :: "'z uip_app \<Rightarrow> 'z uip_state_scheme \<Rightarrow> 'z uip_state_scheme option" where
  "uip_input app s = uip_process app UIP_DATA s"

definition uip_periodic :: "'z uip_app \<Rightarrow> nat \<Rightarrow> 'z uip_state_scheme \<Rightarrow> 'z uip_state_scheme option" where
  "uip_periodic app conn s = uip_process app UIP_TIMER (s\<lparr>u_conn := Some conn\<rparr>)"

definition uip_udp_periodic :: "'z uip_app \<Rightarrow> nat \<Rightarrow> 'z uip_state_scheme \<Rightarrow> 'z uip_state_scheme option" where
  "uip_udp_periodic app conn s = uip_process app UIP_UDP_TIMER (s\<lparr>u_udp_conn := conn\<rparr>)"

text \<open>What an application calls: \<open>uip_send\<close>, where data that are at \<open>uip_sappdata\<close> already stay there.\<close>

definition uip_send :: "u8 list \<Rightarrow> 'z uip_state_scheme \<Rightarrow> 'z uip_state_scheme" where
  "uip_send data s =
    (if data \<noteq> [] then uip_put (u_sappdata s) data (s\<lparr>u_slen := of_nat (length data)\<rparr>) else s)"

end
