(* ===== verification/Uip_Sum.thy ===== *)
theory Uip_Sum imports Uip_Process begin

text \<open>
  Facts on the buffer and on the Internet checksum: reading what was stored, and \<open>chksum\<close> as the sum
  of the 16-bit words modulo 65535, so that a field computed as its complement makes it verify.
\<close>

section \<open>Reading and writing the buffer\<close>

named_theorems poke_simps \<open>rules reading a buffer after \<open>poke\<close>\<close>

lemma length_poke [simp]: "length (poke off d buf) = length buf"
  by (induction d arbitrary: off buf) simp_all

lemma nth_poke_before [poke_simps]: "i < off \<Longrightarrow> poke off d buf ! i = buf ! i"
  by (induction d arbitrary: off buf) simp_all

lemma nth_poke [poke_simps]:
  "i < length buf \<Longrightarrow> poke off d buf ! i = (if off \<le> i \<and> i < off + length d then d ! (i - off) else buf ! i)"
  by (induction d arbitrary: off buf) (auto simp: nth_Cons' nth_list_update not_le)

lemma slice_update_outside: "i < off \<or> off + n \<le> i \<Longrightarrow> slice off n (buf[i := x]) = slice off n buf"
  by (auto simp: slice_def drop_update_swap)

lemma slice_poke_other [poke_simps]:
  "off + n \<le> off' \<or> off' + length d \<le> off \<Longrightarrow> slice off n (poke off' d buf) = slice off n buf"
  by (induction d arbitrary: off' buf) (auto simp: slice_update_outside)

lemma slice_poke [poke_simps]:
  "off + length d \<le> length buf \<Longrightarrow> slice off (length d) (poke off d buf) = d"
  by (rule nth_equalityI) (auto simp: nth_slice nth_poke)

lemma slice_poke_same: "n = length d \<Longrightarrow> off + n \<le> length buf \<Longrightarrow> slice off n (poke off d buf) = d"
  using slice_poke by blast

lemma length_slice_buf: "length (slice off n buf) = min n (length buf - off)"
  by (simp add: slice_def)

lemma slice_poke_inside:
  "a \<le> off \<Longrightarrow> off + length d \<le> a + n \<Longrightarrow> slice a n (poke off d buf) = poke (off - a) d (slice a n buf)"
proof (induction d arbitrary: off buf)
  case (Cons b d)
  have "slice a n (buf[off := b]) = (slice a n buf)[off - a := b]"
    using Cons.prems by (simp add: slice_def drop_update_swap take_update_swap)
  moreover have "Suc (off - a) = Suc off - a" using Cons.prems by simp
  ultimately show ?case using Cons by simp
qed simp

lemma length_bytes_of [simp]: "length (raw_bytes w) = 2" "length (be_bytes w) = 2"
  by (simp_all add: raw_bytes_def be_bytes_def)

lemma ucast_halves:
  "(ucast (ucast (w :: u16) :: u8) :: u16) OR push_bit 8 (ucast (ucast (drop_bit 8 w) :: u8)) = w"
  by (rule bit_word_eqI) (auto simp: bit_simps dest: bit_imp_le_length)

lemma raw16_slice: "off + 2 \<le> length b \<Longrightarrow> slice off 2 b = raw_bytes w \<Longrightarrow> raw16 b off = w"
proof -
  assume "off + 2 \<le> length b" and s: "slice off 2 b = raw_bytes w"
  then have "b ! off = raw_bytes w ! 0" "b ! (off + 1) = raw_bytes w ! 1"
    using nth_slice [of off 2 b 0] nth_slice [of off 2 b 1] by simp_all
  then show ?thesis by (simp add: raw16_def raw_bytes_def ucast_halves)
qed

lemma raw_bytes_raw16:
  assumes "off + 2 \<le> length b" shows "raw_bytes (raw16 b off) = slice off 2 b"
proof -
  have "(ucast ((ucast x :: u16) OR push_bit 8 (ucast y)) :: u8) = x"
    "(ucast (drop_bit 8 ((ucast x :: u16) OR push_bit 8 (ucast y))) :: u8) = y" for x y :: u8
    by (rule bit_word_eqI; auto simp: bit_simps dest: bit_imp_le_length)+
  moreover have "slice off 2 b = [b ! off, b ! (off + 1)]"
    using assms by (intro nth_equalityI) (auto simp: nth_slice less_2_cases_iff)
  ultimately show ?thesis by (simp add: raw_bytes_def raw16_def)
qed

lemma raw16_raw_bytes: "raw16 (raw_bytes w) 0 = w"
  by (simp add: raw16_def raw_bytes_def ucast_halves)

lemma raw_bytes_inject: "raw_bytes v = raw_bytes w \<longleftrightarrow> v = w"
  by (metis raw16_raw_bytes)

lemma raw_bytes_htons: "raw_bytes (htons w) = be_bytes w"
proof -
  have "(ucast (htons w) :: u8) = ucast (drop_bit 8 w)" "(ucast (drop_bit 8 (htons w)) :: u8) = ucast w"
    by (rule bit_word_eqI; auto simp: htons_def bit_simps dest: bit_imp_le_length)+
  then show ?thesis by (simp add: raw_bytes_def be_bytes_def)
qed

lemma htons_not: "htons (NOT w) = NOT (htons w)"
  by (rule bit_word_eqI) (auto simp: htons_def bit_simps dest: bit_imp_le_length)

lemma htons_htons [simp]: "htons (htons w) = w"
  by (rule bit_word_eqI) (auto simp: htons_def bit_simps dest: bit_imp_le_length)

lemma htons_eq_iff: "htons v = w \<longleftrightarrow> v = htons w"
  using htons_htons by metis

lemma htons_ffff: "htons 0xffff = 0xffff"
  by code_simp

lemma unat_be16: "unat (be16 hi lo) = 256 * unat hi + unat lo"
proof -
  have h: "unat (push_bit 8 (ucast hi :: u16)) = 256 * unat hi"
    using unat_u8_lt [of hi] by (simp add: push_bit_eq_mult unat_word_ariths unat_ucast_up)
  show ?thesis
    unfolding be16_def using unat_u8_le [of hi] unat_u8_le [of lo]
    by (subst unat_add_small) (simp_all add: h unat_ucast_up del: unat_u8_le)
qed

lemma be16_be_bytes: "be16 (be_bytes w ! 0) (be_bytes w ! 1) = w"
proof -
  have "unat (ucast (drop_bit 8 w) :: u8) = unat w div 256"
  proof -
    have "unat w div 256 < 256" using unat_u16_lt [of w] by linarith
    then show ?thesis by (simp add: unsigned_ucast_eq unsigned_drop_bit_eq drop_bit_nat_def take_bit_nat_def)
  qed
  moreover have "unat (ucast w :: u8) = unat w mod 256"
    by (simp add: unsigned_ucast_eq take_bit_nat_def)
  ultimately show ?thesis
    by (simp add: be_bytes_def unat_be16 word_unat_eq_iff)
qed

section \<open>The sum of a list of bytes\<close>

definition byte_weight :: "nat \<Rightarrow> nat" where
  "byte_weight i = (if even i then 256 else 1)"

definition osum :: "u8 list \<Rightarrow> nat" where
  "osum data = (\<Sum>i < length data. byte_weight i * unat (data ! i))"

lemma osum_simps [simp]:
  "osum [] = 0" "osum [a] = 256 * unat a" "osum (a # b # data) = 256 * unat a + unat b + osum data"
proof -
  have two: "(\<Sum>i < Suc (Suc n). f i) = f 0 + (f (Suc 0) + (\<Sum>i < n. f (Suc (Suc i))))" for f :: "nat \<Rightarrow> nat" and n
    by (simp only: sum.lessThan_Suc_shift)
  show "osum (a # b # data) = 256 * unat a + unat b + osum data"
    unfolding osum_def list.size(4) add_Suc_right add_0_right two by (simp add: byte_weight_def)
qed (simp_all add: osum_def byte_weight_def)

lemma osum_update:
  assumes "i < length data"
  shows "osum (data[i := x]) + byte_weight i * unat (data ! i) = osum data + byte_weight i * unat x"
proof -
  have fin: "finite {..<length data}" "i \<in> {..<length data}" using assms by simp_all
  have "(\<Sum>j \<in> {..<length data} - {i}. byte_weight j * unat (data[i := x] ! j)) =
      (\<Sum>j \<in> {..<length data} - {i}. byte_weight j * unat (data ! j))"
    by (rule sum.cong) auto
  then show ?thesis
    using sum.remove [OF fin, of "\<lambda>j. byte_weight j * unat (data ! j)"]
      sum.remove [OF fin, of "\<lambda>j. byte_weight j * unat (data[i := x] ! j)"] assms
    by (simp add: osum_def)
qed

lemma osum_append_even: "even (length xs) \<Longrightarrow> osum (xs @ ys) = osum xs + osum ys"
proof (induction "length xs" arbitrary: xs rule: less_induct)
  case less
  show ?case
  proof (cases xs)
    case (Cons a xs1)
    with less.prems obtain b xs2 where xs: "xs = a # b # xs2" by (cases xs1) auto
    then have "osum (xs2 @ ys) = osum xs2 + osum ys" using less by simp
    then show ?thesis using xs by simp
  qed simp
qed

lemma unat_add_carry: "unat (add_carry a t) mod 65535 = (unat a + unat t) mod 65535"
proof (cases "unat a + unat t < 65536")
  case True
  then have "unat (a + t) = unat a + unat t" by (simp add: unat_add_small)
  then show ?thesis by (simp add: add_carry_def word_less_nat_alt)
next
  case False
  have lt: "unat a < 65536" "unat t < 65536" by simp_all
  have "(unat a + unat t) mod 65536 = unat a + unat t - 65536"
  proof -
    have "unat a + unat t - 65536 < 65536" using lt by linarith
    then show ?thesis using False by (simp add: le_mod_geq)
  qed
  then have s: "unat (a + t) = unat a + unat t - 65536"
    by (simp add: unat_word_ariths)
  have "unat a + unat t - 65536 + 1 < 65536" using lt by linarith
  then have "unat (a + t + 1) = unat a + unat t - 65536 + 1"
    unfolding s [symmetric] by (intro unat_inc_small) simp
  moreover have "unat a + unat t - 65536 < unat t" using lt False by linarith
  then have "a + t < t" by (simp add: word_less_nat_alt s)
  then have "add_carry a t = a + t + 1" by (simp add: add_carry_def Let_def)
  ultimately have "unat (add_carry a t) = unat a + unat t - 65535"
    using False by simp
  moreover have "(unat a + unat t - 65535) mod 65535 = (unat a + unat t) mod 65535"
    using False by (simp add: le_mod_geq)
  ultimately show ?thesis by simp
qed

lemma add_carry_0: "add_carry a t = 0 \<longleftrightarrow> a = 0 \<and> t = 0"
proof
  assume z: "add_carry a t = 0"
  show "a = 0 \<and> t = 0"
  proof (cases "a + t < t")
    case True
    then have "a + t + 1 = 0" using z by (simp add: add_carry_def Let_def)
    then have "a + t = - 1" by (simp add: eq_neg_iff_add_eq_0)
    then have "- 1 < t" using True by simp
    then show ?thesis using word_n1_ge [of t] by (simp add: not_less [symmetric])
  next
    case False
    then have "a + t = 0" using z by (simp add: add_carry_def Let_def)
    moreover from this have "t = 0" using False by (simp add: word_gt_0)
    ultimately show ?thesis by simp
  qed
qed (simp add: add_carry_def)

lemma unat_chksum: "unat (chksum acc data) mod 65535 = (unat acc + osum data) mod 65535"
proof (induction acc data rule: chksum.induct)
  case (1 acc a b data)
  have "unat (push_bit 8 (ucast a) + ucast b :: u16) = 256 * unat a + unat b"
    using unat_be16 [of a b] by (simp add: be16_def)
  then have "(unat (add_carry acc (push_bit 8 (ucast a) + ucast b)) + osum data) mod 65535 =
      (unat acc + (256 * unat a + unat b) + osum data) mod 65535"
    using unat_add_carry [of acc "push_bit 8 (ucast a) + ucast b"] mod_add_cong [OF _ refl] by metis
  then show ?case using 1 by (simp add: ac_simps)
next
  case (2 acc a)
  have "unat (push_bit 8 (ucast a) :: u16) = 256 * unat a" using unat_be16 [of a 0] by (simp add: be16_def)
  then show ?case using unat_add_carry [of acc "push_bit 8 (ucast a)"] by simp
qed simp

lemma chksum_0: "chksum acc data = 0 \<longleftrightarrow> acc = 0 \<and> osum data = 0"
proof (induction acc data rule: chksum.induct)
  case (1 acc a b data)
  have "push_bit 8 (ucast a) + ucast b = (0 :: u16) \<longleftrightarrow> unat a = 0 \<and> unat b = 0"
    using unat_be16 [of a b] by (auto simp: be16_def word_unat_eq_iff)
  then show ?case using 1 by (simp add: add_carry_0)
next
  case (2 acc a)
  have "push_bit 8 (ucast a) = (0 :: u16) \<longleftrightarrow> unat a = 0"
    using unat_be16 [of a 0] by (auto simp: be16_def word_unat_eq_iff)
  then show ?case by (simp add: add_carry_0)
qed simp

text \<open>A sum verifies when it is a multiple of 65535, zero included.\<close>

definition checked :: "u16 \<Rightarrow> u16" where
  "checked acc = (if acc = 0 then 0xffff else htons acc)"

lemma checked_ffff: "checked c = 0xffff \<longleftrightarrow> 65535 dvd unat c"
proof -
  have "65535 dvd n \<longleftrightarrow> n = 0 \<or> n = 65535" if "n < 65536" for n :: nat
  proof
    assume "65535 dvd n"
    then obtain k where "n = 65535 * k" ..
    then show "n = 0 \<or> n = 65535" using that by (cases k) simp_all
  qed auto
  then have "65535 dvd unat c \<longleftrightarrow> unat c = 0 \<or> unat c = 65535" by simp
  moreover have "checked c = 0xffff \<longleftrightarrow> c = 0 \<or> c = 0xffff"
    by (simp add: checked_def htons_eq_iff htons_ffff)
  ultimately show ?thesis by (simp add: word_unat_eq_iff)
qed

end
