(* ===== verification/Uip_Wf.thy ===== *)
theory Uip_Wf imports Uip_Sum begin

text \<open>
  The shape of the stack's state, which every operation keeps whatever an application does that
  keeps it, and the header of the packets that leave.
\<close>

section \<open>Frames\<close>

lemma conn_update_frame [simp]:
  "u_buf (conn_update r f s) = u_buf s" "u_len (conn_update r f s) = u_len s" "u_slen (conn_update r f s) = u_slen s"
  "u_flags (conn_update r f s) = u_flags s" "u_appdata (conn_update r f s) = u_appdata s"
  "u_sappdata (conn_update r f s) = u_sappdata s" "u_conn (conn_update r f s) = u_conn s"
  "u_udp_conns (conn_update r f s) = u_udp_conns s" "u_udp_conn (conn_update r f s) = u_udp_conn s"
  "u_listenports (conn_update r f s) = u_listenports s" "u_iss (conn_update r f s) = u_iss s"
  "u_ipid (conn_update r f s) = u_ipid s" "u_lastport (conn_update r f s) = u_lastport s"
  "u_stacks (conn_update r f s) = u_stacks s" "u_stack (conn_update r f s) = u_stack s"
  by (simp_all add: conn_update_def)

lemma conn_update_conns [simp]:
  "length (u_conns (conn_update r f s)) = length (u_conns s)"
  "r < length (u_conns s) \<Longrightarrow> u_conns (conn_update r f s) ! r = f (u_conns s ! r)"
  "i \<noteq> r \<Longrightarrow> u_conns (conn_update r f s) ! i = u_conns s ! i"
  by (simp_all add: conn_update_def)

lemma uip_put_frame [simp]:
  "u_buf (uip_put off d s) = poke off d (u_buf s)" "u_len (uip_put off d s) = u_len s" "u_slen (uip_put off d s) = u_slen s"
  "u_flags (uip_put off d s) = u_flags s" "u_appdata (uip_put off d s) = u_appdata s"
  "u_sappdata (uip_put off d s) = u_sappdata s" "u_conn (uip_put off d s) = u_conn s"
  "u_conns (uip_put off d s) = u_conns s"
  "u_udp_conns (uip_put off d s) = u_udp_conns s" "u_udp_conn (uip_put off d s) = u_udp_conn s"
  "u_listenports (uip_put off d s) = u_listenports s" "u_iss (uip_put off d s) = u_iss s"
  "u_ipid (uip_put off d s) = u_ipid s" "u_lastport (uip_put off d s) = u_lastport s"
  "u_stacks (uip_put off d s) = u_stacks s" "u_stack (uip_put off d s) = u_stack s"
  by (simp_all add: uip_put_def)

lemma uip_hostaddr_frame [simp]:
  "uip_hostaddr (uip_put off d s) = uip_hostaddr s" "uip_hostaddr (conn_update r f s) = uip_hostaddr s"
  "uip_hostaddr (s\<lparr>u_len := v\<rparr>) = uip_hostaddr s" "uip_hostaddr (s\<lparr>u_slen := v\<rparr>) = uip_hostaddr s"
  "uip_hostaddr (s\<lparr>u_flags := w\<rparr>) = uip_hostaddr s" "uip_hostaddr (s\<lparr>u_appdata := n\<rparr>) = uip_hostaddr s"
  "uip_hostaddr (s\<lparr>u_conn := k\<rparr>) = uip_hostaddr s" "uip_hostaddr (s\<lparr>u_udp_conn := n\<rparr>) = uip_hostaddr s"
  "uip_hostaddr (s\<lparr>u_sappdata := n\<rparr>) = uip_hostaddr s" "uip_hostaddr (s\<lparr>u_ipid := v\<rparr>) = uip_hostaddr s"
  by (simp_all add: uip_hostaddr_def)

section \<open>Well-formed states\<close>

definition conn_wf :: "uip_conn_t \<Rightarrow> bool" where
  "conn_wf c \<longleftrightarrow> length (c_ripaddr c) = 4 \<and> length (c_rcv_nxt c) = 4 \<and> length (c_snd_nxt c) = 4"

definition uip_wf :: "'z uip_state_scheme \<Rightarrow> bool" where
  "uip_wf s \<longleftrightarrow> 100 \<le> length (u_buf s) \<and> length (u_buf s) < 65536 \<and> length (u_iss s) = 4 \<and>
    (\<forall>c \<in> set (u_conns s). conn_wf c) \<and> (\<forall>d \<in> set (u_udp_conns s). length (d_ripaddr d) = 4) \<and>
    u_stack s < length (u_stacks s) \<and> (\<forall>a \<in> set (u_stacks s). length (fst a) = 4 \<and> length (snd a) = 4)"

definition app_wf :: "'z uip_app \<Rightarrow> bool" where
  "app_wf app \<longleftrightarrow> (\<forall>f s. uip_wf s \<longrightarrow> uip_wf (app f s))"

text \<open>The fields that do not matter.\<close>

lemma uip_wf_fields [simp]:
  "uip_wf (s\<lparr>u_len := v\<rparr>) = uip_wf s" "uip_wf (s\<lparr>u_slen := v\<rparr>) = uip_wf s" "uip_wf (s\<lparr>u_flags := w\<rparr>) = uip_wf s"
  "uip_wf (s\<lparr>u_appdata := n\<rparr>) = uip_wf s" "uip_wf (s\<lparr>u_sappdata := n\<rparr>) = uip_wf s"
  "uip_wf (s\<lparr>u_conn := k\<rparr>) = uip_wf s" "uip_wf (s\<lparr>u_udp_conn := n\<rparr>) = uip_wf s"
  "uip_wf (s\<lparr>u_ipid := v\<rparr>) = uip_wf s" "uip_wf (s\<lparr>u_lastport := v\<rparr>) = uip_wf s"
  "uip_wf (s\<lparr>u_listenports := l\<rparr>) = uip_wf s"
  by (simp_all add: uip_wf_def)

lemma uip_wf_iss [simp]: "length i = 4 \<Longrightarrow> uip_wf s \<Longrightarrow> uip_wf (s\<lparr>u_iss := i\<rparr>)"
  by (simp add: uip_wf_def)

lemma uip_wf_put [simp]: "uip_wf (uip_put off d s) = uip_wf s"
  by (simp add: uip_wf_def uip_put_def)

lemma uip_wf_conn_update:
  assumes "uip_wf s" "\<And>c. conn_wf c \<Longrightarrow> conn_wf (f c)" shows "uip_wf (conn_update r f s)"
proof (cases "r < length (u_conns s)")
  case True
  then have "conn_wf (f (u_conns s ! r))" using assms by (simp add: uip_wf_def)
  then show ?thesis
    using assms(1) by (auto simp: uip_wf_def conn_update_def dest: set_update_subset_insert [THEN subsetD])
qed (use assms(1) in \<open>simp add: uip_wf_def conn_update_def list_update_beyond\<close>)

text \<open>What remains to be shown of an update of a connection.\<close>

lemma conn_wf_fields [simp]:
  "conn_wf (c\<lparr>c_len := v\<rparr>) = conn_wf c" "conn_wf (c\<lparr>c_wnd := v\<rparr>) = conn_wf c" "conn_wf (c\<lparr>c_mss := v\<rparr>) = conn_wf c"
  "conn_wf (c\<lparr>c_initialmss := v\<rparr>) = conn_wf c" "conn_wf (c\<lparr>c_sa := w\<rparr>) = conn_wf c" "conn_wf (c\<lparr>c_sv := w\<rparr>) = conn_wf c"
  "conn_wf (c\<lparr>c_rto := w\<rparr>) = conn_wf c" "conn_wf (c\<lparr>c_tcpstateflags := w\<rparr>) = conn_wf c"
  "conn_wf (c\<lparr>c_timer := w\<rparr>) = conn_wf c" "conn_wf (c\<lparr>c_nrtx := w\<rparr>) = conn_wf c"
  "conn_wf (c\<lparr>c_callback := f\<rparr>) = conn_wf c" "conn_wf (c\<lparr>c_stack := n\<rparr>) = conn_wf c"
  "conn_wf (c\<lparr>c_lport := v\<rparr>) = conn_wf c" "conn_wf (c\<lparr>c_rport := v\<rparr>) = conn_wf c"
  by (simp_all add: conn_wf_def)

lemma conn_wf_arrays [simp]:
  "length a = 4 \<Longrightarrow> conn_wf c \<Longrightarrow> conn_wf (c\<lparr>c_ripaddr := a\<rparr>)" "length a = 4 \<Longrightarrow> conn_wf c \<Longrightarrow> conn_wf (c\<lparr>c_rcv_nxt := a\<rparr>)"
  "length a = 4 \<Longrightarrow> conn_wf c \<Longrightarrow> conn_wf (c\<lparr>c_snd_nxt := a\<rparr>)"
  by (simp_all add: conn_wf_def)

lemma length_add32 [simp]: "length (uip_add32 a n) = 4" "length (increment4 a) = 4"
  by (simp_all add: uip_add32_def increment4_def Let_def split: prod.splits)

lemma uip_wf_slice: "uip_wf s \<Longrightarrow> off + n \<le> 100 \<Longrightarrow> length (slice off n (u_buf s)) = n"
  by (simp add: uip_wf_def)

lemma uip_wf_hostaddr: "uip_wf s \<Longrightarrow> length (uip_hostaddr s) = 4"
  by (auto simp: uip_wf_def uip_hostaddr_def)

lemma uip_wf_iss_length: "uip_wf s \<Longrightarrow> length (u_iss s) = 4"
  by (simp add: uip_wf_def)

lemma uip_wf_conn: "uip_wf s \<Longrightarrow> r < length (u_conns s) \<Longrightarrow> conn_wf (u_conns s ! r)"
  by (simp add: uip_wf_def)

lemma uip_wf_appcall:
  "app_wf app \<Longrightarrow> uip_wf s \<Longrightarrow> uip_wf (UIP_APPCALL app s)" "app_wf app \<Longrightarrow> uip_wf s \<Longrightarrow> uip_wf (UIP_UDP_APPCALL app s)"
  by (auto simp: UIP_APPCALL_def UIP_UDP_APPCALL_def app_wf_def split: option.splits)

lemma uip_wf_sending [simp]:
  "uip_wf (uip_drop s) = uip_wf s" "uip_wf (uip_send_label s) = uip_wf s" "uip_wf (ip_send_nolen s) = uip_wf s"
  by (simp_all add: uip_drop_def uip_send_label_def ip_send_nolen_def Let_def)

lemma uip_wf_udp_send [simp]: "uip_wf (udp_send s) = uip_wf s"
  by (simp add: udp_send_def Let_def)

lemma uip_wf_tcp_send [simp]:
  "uip_wf (tcp_send_noconn s) = uip_wf s" "uip_wf (tcp_send r s) = uip_wf s" "uip_wf (tcp_send_noopts r s) = uip_wf s"
  "uip_wf (tcp_send_nodata r s) = uip_wf s" "uip_wf (tcp_send_ack r s) = uip_wf s" "uip_wf (tcp_send_finack r s) = uip_wf s"
  "uip_wf (tcp_send_syn r s) = uip_wf s" "uip_wf (tcp_send_synack r s) = uip_wf s" "uip_wf (tcp_reset s) = uip_wf s"
  by (simp_all add: tcp_send_noconn_def tcp_send_def tcp_send_noopts_def tcp_send_nodata_def tcp_send_ack_def
      tcp_send_finack_def tcp_send_syn_def tcp_send_synack_def tcp_reset_def Let_def)

lemma uip_wf_apprexmit [simp]: "uip_wf (apprexmit r s) = uip_wf s"
  by (simp add: apprexmit_def Let_def)

lemma uip_wf_appsend: "uip_wf s \<Longrightarrow> uip_wf (appsend r s)"
  by (simp add: appsend_def Let_def uip_wf_conn_update)

lemma uip_wf_add_rcv_nxt: "uip_wf s \<Longrightarrow> uip_wf (uip_add_rcv_nxt n s)"
  by (simp add: uip_add_rcv_nxt_def uip_wf_conn_update)

lemma uip_wf_parse_mss: "uip_wf s \<Longrightarrow> parse_mss r s = Some s' \<Longrightarrow> uip_wf s'"
  by (auto simp: parse_mss_def Let_def uip_wf_conn_update split: if_splits option.splits)

lemmas wf_intros = uip_wf_conn_update uip_wf_appcall uip_wf_appsend uip_wf_add_rcv_nxt

lemma uip_wf_found_listen: "uip_wf s \<Longrightarrow> found_listen p s = Some s' \<Longrightarrow> uip_wf s'"
  by (auto simp: found_listen_def Let_def wf_intros uip_wf_slice uip_wf_iss_length split: option.splits dest!: uip_wf_parse_mss [rotated])

lemma uip_wf_tcp_acked: "uip_wf s \<Longrightarrow> uip_wf (tcp_acked r s)"
  by (simp add: tcp_acked_def Let_def uip_wf_conn_update rtt_estimate_def)

lemma uip_wf_states:
  assumes "app_wf app" "uip_wf s"
  shows "uip_wf (tcp_established app r s)" "uip_wf (tcp_syn_rcvd app r s)" "uip_wf (tcp_last_ack app r s)"
    "uip_wf (tcp_fin_wait_1 app r s)" "uip_wf (tcp_fin_wait_2 app r s)" "uip_wf (tcp_closing r s)"
  using assms
  by (simp_all add: tcp_established_def tcp_syn_rcvd_def tcp_last_ack_def tcp_fin_wait_1_def tcp_fin_wait_2_def
      tcp_closing_def Let_def wf_intros)

lemma uip_wf_syn_sent:
  assumes "app_wf app" "uip_wf s" "tcp_syn_sent app r s = Some s'" shows "uip_wf s'"
  using assms
  by (auto simp: tcp_syn_sent_def Let_def wf_intros uip_wf_slice split: if_splits option.splits dest!: uip_wf_parse_mss [rotated])

lemma uip_wf_tcp_found:
  assumes "app_wf app" "uip_wf s" "tcp_found app r s = Some s'" shows "uip_wf s'"
  using assms
  by (auto simp: tcp_found_def Let_def wf_intros uip_wf_states uip_wf_tcp_acked split: if_splits elim: uip_wf_syn_sent [rotated -1])

lemma uip_wf_tcp_input:
  assumes "app_wf app" "uip_wf s" "tcp_input app s = Some s'" shows "uip_wf s'"
  using assms
  by (auto simp: tcp_input_def split: if_splits option.splits elim: uip_wf_tcp_found uip_wf_found_listen)

lemma uip_wf_udp_input:
  assumes "app_wf app" "uip_wf s" shows "uip_wf (udp_input app s)"
  using assms by (auto simp: udp_input_def udp_found_def Let_def intro!: uip_wf_appcall split: option.splits)

lemma uip_wf_icmp_input: "uip_wf s \<Longrightarrow> uip_wf (icmp_input s)"
  by (simp add: icmp_input_def Let_def)

lemma uip_wf_ip_input:
  assumes "app_wf app" "uip_wf s" "ip_input app s = Some s'" shows "uip_wf s'"
  using assms
  by (auto simp: ip_input_def Let_def uip_wf_udp_input uip_wf_icmp_input split: if_splits elim: uip_wf_tcp_input [rotated -1])

lemma uip_wf_timer:
  assumes "app_wf app" "uip_wf s" shows "uip_wf (uip_poll app r s)" "uip_wf (uip_rexmit app r s)"
  using assms by (simp_all add: uip_poll_def uip_rexmit_def Let_def wf_intros)

lemma uip_wf_uip_timer:
  assumes "app_wf app" "uip_wf s" shows "uip_wf (uip_timer app r s)"
  using assms by (auto simp: uip_timer_def Let_def intro!: wf_intros uip_wf_timer)

end
