(* ===== verification/Uip_Out.thy ===== *)
theory Uip_Out imports Uip_Wf begin

text \<open>
  The packets that leave: whatever the stack sends has a header that verifies, with the length of
  the packet and the address of the host.
\<close>

section \<open>A checksum field makes its range verify\<close>

lemma unat_be_bytes: "256 * unat (be_bytes w ! 0) + unat (be_bytes w ! 1) = unat w"
  using be16_be_bytes [of w] by (metis unat_be16)

lemma be_bytes_two: "be_bytes w = [be_bytes w ! 0, be_bytes w ! 1]"
  by (simp add: be_bytes_def)

lemma osum_put_be:
  assumes "even (off - a)" "a \<le> off" "off + 2 \<le> a + n" "a + n \<le> length b"
  shows "osum (slice a n (poke off (be_bytes w) b)) + osum (slice off 2 b) = osum (slice a n b) + unat w"
proof -
  let ?l = "slice a n b" and ?i = "off - a"
  have len: "length ?l = n" using assms by simp
  have two: "slice off 2 b = [b ! off, b ! (off + 1)]"
    using assms by (intro nth_equalityI) (auto simp: nth_slice less_2_cases_iff)
  have nth: "?l ! ?i = b ! off" "?l ! Suc ?i = b ! (off + 1)"
    using assms by (simp_all add: nth_slice)
  have "slice a n (poke off (be_bytes w) b) = ?l[?i := be_bytes w ! 0, Suc ?i := be_bytes w ! 1]"
    using assms by (subst be_bytes_two) (simp add: slice_poke_inside be_bytes_def del: poke.simps, simp add: be_bytes_def)
  moreover have "osum (?l[?i := be_bytes w ! 0, Suc ?i := be_bytes w ! 1]) + unat (b ! (off + 1)) =
      osum (?l[?i := be_bytes w ! 0]) + unat (be_bytes w ! 1)"
    using osum_update [of "Suc ?i" "?l[?i := be_bytes w ! 0]" "be_bytes w ! 1"] assms len nth
    by (simp add: byte_weight_def)
  moreover have "osum (?l[?i := be_bytes w ! 0]) + 256 * unat (b ! off) = osum ?l + 256 * unat (be_bytes w ! 0)"
    using osum_update [of ?i ?l "be_bytes w ! 0"] assms len nth by (simp add: byte_weight_def)
  ultimately show ?thesis using two unat_be_bytes [of w] by simp
qed

lemma raw_bytes_be: "raw_bytes w = be_bytes (htons w)"
  using raw_bytes_htons [of "htons w"] by simp

lemma unat_not: "unat (NOT w :: u16) = 65535 - unat w"
proof -
  have "NOT w = 0xffff - w"
    by (simp add: not_eq_complement)
  moreover have "unat w < 65536" by simp
  then have "unat w \<le> 65535" by linarith
  then have "w \<le> 0xffff" by (simp add: word_le_nat_alt)
  ultimately show ?thesis by (simp add: unat_sub)
qed

lemma complement_verifies:
  assumes "unat c mod 65535 = k mod 65535"
  shows "65535 dvd (k + unat (htons (NOT (checked c))))"
proof (cases "c = 0")
  case True
  then have "k mod 65535 = 0" using assms by simp
  moreover have "htons (NOT 0xffff) = 0" by code_simp
  ultimately show ?thesis using True by (simp add: checked_def mod_eq_0_iff_dvd)
next
  case False
  then have "unat (htons (NOT (checked c))) = 65535 - unat c"
    by (simp add: checked_def htons_not unat_not)
  moreover have "unat c < 65536" by simp
  then have "unat c \<le> 65535" by linarith
  then have "65535 dvd (unat c + (65535 - unat c))" by simp
  then have "(k + (65535 - unat c)) mod 65535 = 0"
    using mod_add_cong [OF assms refl, of "65535 - unat c"] by (simp add: dvd_eq_mod_eq_0)
  ultimately show ?thesis by (simp add: dvd_eq_mod_eq_0)
qed

text \<open>The range of a checksum, its start value included.\<close>

lemma chksum_verifies:
  "checked (chksum acc data) = 0xffff \<longleftrightarrow> 65535 dvd (unat acc + osum data)"
  using unat_chksum [of acc data] by (simp add: checked_ffff dvd_eq_mod_eq_0)

lemma uip_ipchksum_checked: "uip_ipchksum s = checked (chksum 0 (slice 14 20 (u_buf s)))"
  by (simp add: uip_ipchksum_def checked_def Let_def)

lemma uip_ipchksum_ffff: "uip_ipchksum s = 0xffff \<longleftrightarrow> 65535 dvd osum (slice 14 20 (u_buf s))"
  by (simp add: uip_ipchksum_checked chksum_verifies)

section \<open>The header\<close>

definition header_ok :: "'z uip_state_scheme \<Rightarrow> bool" where
  "header_ok s \<longleftrightarrow> u_buf s ! 14 = 0x45 \<and> be16 (u_buf s ! 16) (u_buf s ! 17) = u_len s \<and>
    slice 26 4 (u_buf s) = uip_hostaddr s \<and> uip_ipchksum s = 0xffff"

definition sent_ok :: "'z uip_state_scheme \<Rightarrow> bool" where
  "sent_ok s \<longleftrightarrow> u_len s = 0 \<or> header_ok s"

definition addressed :: "'z uip_state_scheme \<Rightarrow> bool" where
  "addressed s \<longleftrightarrow> be16 (u_buf s ! 16) (u_buf s ! 17) = u_len s \<and> slice 26 4 (u_buf s) = uip_hostaddr s"

lemma ip_checksum_field:
  assumes "34 \<le> length (u_buf s)" "slice 24 2 (u_buf s) = [0, 0]"
  shows "uip_ipchksum (uip_put 24 (raw_bytes (NOT (uip_ipchksum s))) s) = 0xffff"
proof -
  let ?c = "chksum 0 (slice 14 20 (u_buf s))"
  have "osum (slice 14 20 (poke 24 (raw_bytes (NOT (checked ?c))) (u_buf s))) =
      osum (slice 14 20 (u_buf s)) + unat (htons (NOT (checked ?c)))"
    using osum_put_be [of 24 14 20 "u_buf s" "htons (NOT (checked ?c))"] assms by (simp add: raw_bytes_be)
  moreover have "unat ?c mod 65535 = osum (slice 14 20 (u_buf s)) mod 65535"
    using unat_chksum [of 0 "slice 14 20 (u_buf s)"] by simp
  ultimately show ?thesis
    using complement_verifies [of ?c "osum (slice 14 20 (u_buf s))"]
    by (simp add: uip_ipchksum_ffff) (simp add: uip_ipchksum_checked)
qed

lemma ip_send_nolen_frame:
  "u_len (ip_send_nolen s) = u_len s" "u_conns (ip_send_nolen s) = u_conns s" "u_udp_conns (ip_send_nolen s) = u_udp_conns s"
  "length (u_buf (ip_send_nolen s)) = length (u_buf s)" "uip_hostaddr (ip_send_nolen s) = uip_hostaddr s"
  "u_slen (ip_send_nolen s) = u_slen s"
  "34 \<le> i \<Longrightarrow> i < length (u_buf s) \<Longrightarrow> u_buf (ip_send_nolen s) ! i = u_buf s ! i"
  "26 \<le> i \<Longrightarrow> slice i n (u_buf (ip_send_nolen s)) = slice i n (u_buf s)"
  "34 \<le> length (u_buf s) \<Longrightarrow> u_buf (ip_send_nolen s) ! 16 = u_buf s ! 16"
  "34 \<le> length (u_buf s) \<Longrightarrow> u_buf (ip_send_nolen s) ! 17 = u_buf s ! 17"
  "34 \<le> length (u_buf s) \<Longrightarrow> u_buf (ip_send_nolen s) ! 22 = u_buf s ! 22"
  "34 \<le> length (u_buf s) \<Longrightarrow> u_buf (ip_send_nolen s) ! 23 = u_buf s ! 23"
  by (simp_all add: ip_send_nolen_def uip_send_label_def Let_def nth_poke slice_poke_other del: poke.simps)

lemma ip_send_nolen_ok:
  assumes "34 \<le> length (u_buf s)" "addressed s"
  shows "header_ok (ip_send_nolen s)"
proof -
  define t where "t = uip_put 24 [0, 0] (uip_put 18 (be_bytes (u_ipid s + 1))
    ((uip_put 20 [0, 0] (uip_put 15 [0] (uip_put 14 [0x45] s)))\<lparr>u_ipid := u_ipid s + 1\<rparr>))"
  have e: "ip_send_nolen s = uip_send_label (uip_put 24 (raw_bytes (NOT (uip_ipchksum t))) t)"
    by (simp add: ip_send_nolen_def Let_def t_def del: poke.simps)
  have "34 \<le> length (u_buf t)" "slice 24 2 (u_buf t) = [0, 0]"
    using assms(1) by (simp_all add: t_def slice_poke_same del: poke.simps)
  then have "uip_ipchksum (uip_put 24 (raw_bytes (NOT (uip_ipchksum t))) t) = 0xffff"
    by (rule ip_checksum_field)
  then have "uip_ipchksum (ip_send_nolen s) = 0xffff"
    unfolding e by (simp add: uip_send_label_def uip_ipchksum_def)
  moreover have "u_buf (ip_send_nolen s) ! 14 = 0x45"
    unfolding e t_def using assms(1) by (simp add: uip_send_label_def nth_poke del: poke.simps)
  ultimately show ?thesis
    using assms by (simp add: header_ok_def addressed_def ip_send_nolen_frame)
qed

lemma header_be: "100 \<le> length b \<Longrightarrow> be16 (poke 16 (be_bytes w) b ! 16) (poke 16 (be_bytes w) b ! 17) = w"
  using be16_be_bytes [of w] by (simp add: nth_poke del: poke.simps)


lemma sent_ok_drop [simp]: "sent_ok (uip_drop s)"
  by (simp add: sent_ok_def uip_drop_def)

lemma wf_buf: "uip_wf s \<Longrightarrow> 100 \<le> length (u_buf s)"
  by (simp add: uip_wf_def)

lemma udp_send_ok:
  assumes "uip_wf s" shows "sent_ok (udp_send s)"
proof (cases "u_slen s = 0")
  case False
  note wf = wf_buf [OF assms] uip_wf_hostaddr [OF assms]
  have "header_ok (udp_send s)"
    unfolding udp_send_def Let_def if_not_P [OF False]
    by (rule ip_send_nolen_ok; use wf in \<open>simp add: addressed_def nth_poke slice_poke_other slice_poke_same be16_be_bytes
        be16_be_bytes [unfolded One_nat_def] del: poke.simps\<close>)
  then show ?thesis by (simp add: sent_ok_def)
qed (simp add: udp_send_def)

lemma tcp_send_noconn_ok:
  assumes "100 \<le> length (u_buf s)" "slice 26 4 (u_buf s) = uip_hostaddr s" shows "sent_ok (tcp_send_noconn s)"
proof -
  have "header_ok (tcp_send_noconn s)"
    unfolding tcp_send_noconn_def Let_def
    by (rule ip_send_nolen_ok; use assms in \<open>simp add: addressed_def nth_poke slice_poke_other
        be16_be_bytes [unfolded One_nat_def] del: poke.simps\<close>)
  then show ?thesis by (simp add: sent_ok_def)
qed

lemma tcp_send_ok:
  assumes "uip_wf s" shows "sent_ok (tcp_send r s)"
proof -
  note wf = wf_buf [OF assms] uip_wf_hostaddr [OF assms]
  show ?thesis
    unfolding tcp_send_def Let_def
    by (rule tcp_send_noconn_ok; use wf in \<open>simp add: slice_poke_other slice_poke_same del: poke.simps\<close>)
qed

lemma tcp_send_all_ok:
  assumes "uip_wf s"
  shows "sent_ok (tcp_send_noopts r s)" "sent_ok (tcp_send_nodata r s)" "sent_ok (tcp_send_ack r s)"
    "sent_ok (tcp_send_finack r s)" "sent_ok (tcp_send_syn r s)" "sent_ok (tcp_send_synack r s)"
  using assms
  by (simp_all add: tcp_send_noopts_def tcp_send_nodata_def tcp_send_ack_def tcp_send_finack_def tcp_send_syn_def
      tcp_send_synack_def Let_def tcp_send_ok)

lemma tcp_reset_ok:
  assumes "uip_wf s" shows "sent_ok (tcp_reset s)"
proof (cases "u_buf s ! 47 AND TCP_RST = 0")
  case True
  then have n: "\<not> u_buf s ! 47 AND TCP_RST \<noteq> 0" by simp
  note wf = wf_buf [OF assms] uip_wf_hostaddr [OF assms]
  show ?thesis
    unfolding tcp_reset_def Let_def if_not_P [OF n]
    by (rule tcp_send_noconn_ok; use wf in \<open>simp add: slice_poke_same del: poke.simps\<close>)
qed (simp add: tcp_reset_def)

lemma apprexmit_ok: "uip_wf s \<Longrightarrow> sent_ok (apprexmit r s)"
  by (simp add: apprexmit_def Let_def tcp_send_all_ok)

lemma appsend_ok: "uip_wf s \<Longrightarrow> sent_ok (appsend r s)"
  by (simp add: appsend_def Let_def tcp_send_all_ok apprexmit_ok wf_intros)

lemmas ok_intros = tcp_send_all_ok apprexmit_ok appsend_ok wf_intros

lemma states_ok:
  assumes "app_wf app" "uip_wf s"
  shows "sent_ok (tcp_established app r s)" "sent_ok (tcp_syn_rcvd app r s)" "sent_ok (tcp_last_ack app r s)"
    "sent_ok (tcp_fin_wait_1 app r s)" "sent_ok (tcp_fin_wait_2 app r s)" "sent_ok (tcp_closing r s)"
  using assms
  by (simp_all add: tcp_established_def tcp_syn_rcvd_def tcp_last_ack_def tcp_fin_wait_1_def tcp_fin_wait_2_def
      tcp_closing_def Let_def ok_intros)

lemma syn_sent_ok:
  assumes "app_wf app" "uip_wf s" "tcp_syn_sent app r s = Some s'" shows "sent_ok s'"
  using assms
  by (auto simp: tcp_syn_sent_def Let_def uip_wf_slice uip_wf_parse_mss intro!: tcp_reset_ok ok_intros split: if_splits option.splits)

lemma found_listen_ok:
  assumes "uip_wf s" "found_listen p s = Some s'" shows "sent_ok s'"
  using assms
  by (auto simp: found_listen_def Let_def uip_wf_slice uip_wf_iss_length intro!: ok_intros split: option.splits
      dest!: uip_wf_parse_mss [rotated])

lemma tcp_found_ok:
  assumes "app_wf app" "uip_wf s" "tcp_found app r s = Some s'" shows "sent_ok s'"
  using assms
  by (auto simp: tcp_found_def Let_def ok_intros states_ok uip_wf_tcp_acked split: if_splits elim: syn_sent_ok [rotated -1])

lemma tcp_input_ok:
  assumes "app_wf app" "uip_wf s" "tcp_input app s = Some s'" shows "sent_ok s'"
  using assms
  by (auto simp: tcp_input_def tcp_reset_ok split: if_splits option.splits elim: tcp_found_ok found_listen_ok)

lemma udp_input_ok:
  assumes "app_wf app" "uip_wf s" shows "sent_ok (udp_input app s)"
  using assms by (auto simp: udp_input_def udp_found_def Let_def intro!: wf_intros udp_send_ok split: option.splits)

end
