(* ===== verification/Uip_Icmp.thy ===== *)
theory Uip_Icmp imports Uip_Out begin

text \<open>
  The update of a checksum in place, as the reply to an echo request and the router make it.
\<close>

section \<open>Updating a checksum in place\<close>

definition checksum_bump :: "u16 \<Rightarrow> u16 \<Rightarrow> u16" where
  "checksum_bump k c = (if htons (0xffff - push_bit 8 k) \<le> c then c + (htons (push_bit 8 k) + 1) else c + htons (push_bit 8 k))"

lemma unat_htons: "unat (htons w) = 256 * (unat w mod 256) + unat w div 256"
proof -
  have "htons w = be16 (ucast w) (ucast (drop_bit 8 w))"
    using be16_be_bytes [of "htons w"] unfolding raw_bytes_be [of w, symmetric] by (simp add: raw_bytes_def)
  moreover have "unat w div 256 < 256" using unat_u16_lt [of w] by linarith
  ultimately show ?thesis
    by (simp add: unat_be16 unsigned_ucast_eq unsigned_drop_bit_eq drop_bit_nat_def take_bit_nat_def)
qed

lemma unat_htons_mod: "unat (htons w) mod 65535 = 256 * unat w mod 65535"
proof -
  have "256 * n = 256 * (n mod 256) + n div 256 + 65535 * (n div 256)" for n :: nat
  proof -
    have "256 * (q * 256 + r) = 256 * r + q + 65535 * q" for q r :: nat by simp
    from this [of "n div 256" "n mod 256"] show ?thesis by (simp only: div_mult_mod_eq)
  qed
  from this [of "unat w"] have "256 * unat w = unat (htons w) + 65535 * (unat w div 256)" unfolding unat_htons .
  then show ?thesis by (simp only: mod_mult_self2)
qed

lemma carry_bump:
  assumes "0 < k" "k < 256"
  shows "unat (if of_nat (65535 - k) \<le> c then c + (of_nat k + 1) else c + of_nat k :: u16) mod 65535 = (unat c + k) mod 65535"
proof -
  have k: "unat (of_nat k :: u16) = k" "unat (of_nat (65535 - k) :: u16) = 65535 - k"
    using assms by (simp_all add: unsigned_of_nat take_bit_nat_eq_self del: of_nat_diff)
  have k1: "unat (of_nat k + 1 :: u16) = k + 1" using assms k by (subst unat_inc_small) simp_all
  have c: "unat c < 65536" by simp
  show ?thesis
  proof (cases "65535 - k \<le> unat c")
    case True
    have "unat (c + (of_nat k + 1)) = (unat c + unat (of_nat k + 1 :: u16)) mod 65536"
      by (simp add: unat_word_ariths del: unat_add_lem)
    then have "unat (c + (of_nat k + 1)) = (unat c + (k + 1)) mod 65536" by (simp only: k1)
    also have "\<dots> = unat c + (k + 1) - 65536"
    proof -
      have "65536 \<le> unat c + (k + 1)" "unat c + (k + 1) - 65536 < 65536" using True c assms by linarith+
      then show ?thesis by (simp only: le_mod_geq mod_less)
    qed
    also have "\<dots> = unat c + k - 65535" by simp
    finally have "unat (c + (of_nat k + 1)) = unat c + k - 65535" .
    moreover have "(unat c + k - 65535) mod 65535 = (unat c + k) mod 65535" using True by (simp add: le_mod_geq)
    ultimately show ?thesis using True by (simp add: word_le_nat_alt k(2) del: of_nat_diff)
  next
    case False
    then have "unat (c + of_nat k) = unat c + k" using k assms by (subst unat_add_small) simp_all
    then show ?thesis using False by (simp add: word_le_nat_alt k(2) del: of_nat_diff)
  qed
qed

lemma unat_checksum_bump:
  "unat (htons (checksum_bump 8 c)) mod 65535 = (unat (htons c) + 2048) mod 65535"
  "unat (htons (checksum_bump 1 c)) mod 65535 = (unat (htons c) + 256) mod 65535"
proof -
  have bump: "unat (htons (checksum_bump k c)) mod 65535 = (unat (htons c) + 256 * n) mod 65535"
    if "0 < n" "n < 256" "htons (0xffff - push_bit 8 k) = of_nat (65535 - n)" "htons (push_bit 8 k) = of_nat n" for k n
  proof -
    have "unat (checksum_bump k c) mod 65535 = (unat c + n) mod 65535"
      using carry_bump [OF that(1,2), of c] by (simp only: checksum_bump_def that(3,4))
    then have "256 * unat (checksum_bump k c) mod 65535 = (256 * unat c + 256 * n) mod 65535"
      by (metis mod_mult_right_eq distrib_left)
    then show ?thesis using unat_htons_mod [of c] unat_htons_mod [of "checksum_bump k c"]
      by (metis mod_add_left_eq)
  qed
  have "htons (0xffff - push_bit 8 8) = 65527" "htons (push_bit 8 8) = 8"
    "htons (0xffff - push_bit 8 1) = 65534" "htons (push_bit 8 1) = 1"
    by code_simp+
  then show "unat (htons (checksum_bump 8 c)) mod 65535 = (unat (htons c) + 2048) mod 65535"
    "unat (htons (checksum_bump 1 c)) mod 65535 = (unat (htons c) + 256) mod 65535"
    using bump [of 8 8] bump [of 1 1] by simp_all
qed

text \<open>What a bump of the checksum field does to the sum of the range around it.\<close>

lemma osum_raw16:
  assumes "off + 2 \<le> length b" shows "osum (slice off 2 b) = unat (htons (raw16 b off))"
proof -
  have "slice off 2 b = be_bytes (htons (raw16 b off))"
    using raw_bytes_raw16 [OF assms] raw_bytes_be by simp
  then show ?thesis using unat_be_bytes [of "htons (raw16 b off)"] by (simp add: be_bytes_def)
qed

lemma mod_sum_cancel:
  fixes x :: nat
  assumes "x + h = t + h'" "h' mod m = (h + k) mod m" shows "x mod m = (t + k) mod m"
proof -
  have "int h' mod int m = int (h + k) mod int m" using assms(2) by (metis of_nat_mod)
  then have "int m dvd int h' - int (h + k)" by (simp only: mod_eq_dvd_iff)
  moreover have "int x - int (t + k) = int h' - int (h + k)" using assms(1) by linarith
  ultimately have "int m dvd int x - int (t + k)" by (simp only:)
  then have "int x mod int m = int (t + k) mod int m" by (simp only: mod_eq_dvd_iff)
  then show ?thesis by (metis of_nat_eq_iff of_nat_mod)
qed

lemma osum_bump:
  assumes "even (off - a)" "a \<le> off" "off + 2 \<le> a + n" "a + n \<le> length b"
    and c: "unat (htons c') mod 65535 = (unat (htons (raw16 b off)) + k) mod 65535"
  shows "osum (slice a n (poke off (raw_bytes c') b)) mod 65535 = (osum (slice a n b) + k) mod 65535"
proof -
  let ?x = "osum (slice a n (poke off (raw_bytes c') b))" and ?h = "unat (htons (raw16 b off))"
  have "?x + ?h = osum (slice a n b) + unat (htons c')"
    using osum_put_be [OF assms(1-4), of "htons c'"] osum_raw16 [of off b] assms by (simp add: raw_bytes_be)
  then show ?thesis using c by (rule mod_sum_cancel)
qed

section \<open>The reply to an echo request\<close>

lemma icmp_input_echo:
  assumes "u_buf s ! 23 = 1" "u_buf s ! 34 = 8"
  shows "icmp_input s = uip_send_label (uip_put 26 (uip_hostaddr s)
    (uip_put 30 (slice 26 4 (u_buf s)) (uip_put 36 (raw_bytes (checksum_bump 8 (raw16 (u_buf s) 36))) (uip_put 34 [0] s))))"
proof -
  have "raw16 (poke 34 [0] b) 36 = raw16 b 36" for b by (simp add: raw16_def)
  moreover have "slice 26 4 (poke 36 d (poke 34 [0] b)) = slice 26 4 b" for d b
    by (simp add: slice_poke_other del: poke.simps)
  ultimately show ?thesis
    unfolding icmp_input_def Let_def checksum_bump_def assms
    by (simp only: uip_put_frame uip_hostaddr_frame simp_thms if_False)
qed

lemma icmp_input_other: "\<not> (u_buf s ! 23 = 1 \<and> u_buf s ! 34 = 8) \<Longrightarrow> icmp_input s = uip_drop s"
  by (auto simp: icmp_input_def)

lemma osum_header:
  "34 \<le> length b \<Longrightarrow> osum (slice 14 20 b) = osum (slice 14 12 b) + osum (slice 26 4 b) + osum (slice 30 4 b)"
proof -
  assume l: "34 \<le> length b"
  have "slice a (m + n) b = slice a m b @ slice (a + m) n b" for a m n
    by (simp add: slice_def take_add add.commute)
  from this [of 14 12 8] this [of 26 4 4]
  have "slice 14 20 b = slice 14 12 b @ slice 26 4 b @ slice 30 4 b" by simp
  then show ?thesis using l by (simp add: osum_append_even)
qed

lemma icmp_input_frame:
  assumes "uip_wf s" "u_buf s ! 23 = 1" "u_buf s ! 34 = 8" "slice 30 4 (u_buf s) = uip_hostaddr s"
  defines "s' \<equiv> icmp_input s"
  shows "u_len s' = u_len s" "slice 26 4 (u_buf s') = uip_hostaddr s" "slice 30 4 (u_buf s') = slice 26 4 (u_buf s)"
    "uip_hostaddr s' = uip_hostaddr s" "slice 14 12 (u_buf s') = slice 14 12 (u_buf s)" "u_buf s' ! 34 = 0"
    "length (u_buf s') = length (u_buf s)" "slice 38 n (u_buf s') = slice 38 n (u_buf s)"
    "slice 34 n (u_buf s') = slice 34 n (poke 36 (raw_bytes (checksum_bump 8 (raw16 (u_buf s) 36))) (poke 34 [0] (u_buf s)))"
  using wf_buf [OF assms(1)] uip_wf_hostaddr [OF assms(1)] unfolding s'_def icmp_input_echo [OF assms(2,3)]
  by (simp_all add: uip_send_label_def slice_poke_other slice_poke_same nth_poke del: poke.simps)

lemma icmp_input_header:
  assumes "uip_wf s" "u_buf s ! 23 = 1" "u_buf s ! 34 = 8" "slice 30 4 (u_buf s) = uip_hostaddr s" "uip_ipchksum s = 0xffff"
    "u_buf s ! 14 = 0x45" "be16 (u_buf s ! 16) (u_buf s ! 17) = u_len s"
  shows "header_ok (icmp_input s)"
proof -
  note fr = icmp_input_frame [OF assms(1-4)]
  have "osum (slice 14 20 (u_buf (icmp_input s))) = osum (slice 14 20 (u_buf s))"
    using wf_buf [OF assms(1)] by (simp add: osum_header fr assms(4))
  then have "uip_ipchksum (icmp_input s) = 0xffff" using assms(5) by (simp add: uip_ipchksum_ffff)
  moreover have "u_buf (icmp_input s) ! (14 + i) = u_buf s ! (14 + i)" if "i < 12" for i
    using nth_slice [of 14 12 "u_buf (icmp_input s)" i] nth_slice [of 14 12 "u_buf s" i] that wf_buf [OF assms(1)]
    by (simp add: fr)
  from this [of 0] this [of 2] this [of 3]
  have "u_buf (icmp_input s) ! 14 = u_buf s ! 14" "u_buf (icmp_input s) ! 16 = u_buf s ! 16"
    "u_buf (icmp_input s) ! 17 = u_buf s ! 17" by simp_all
  ultimately show ?thesis using assms by (simp add: header_ok_def fr)
qed

lemma icmp_input_checksum:
  assumes "uip_wf s" "u_buf s ! 23 = 1" "u_buf s ! 34 = 8" "slice 30 4 (u_buf s) = uip_hostaddr s"
    "4 \<le> n" "34 + n \<le> length (u_buf s)" "65535 dvd osum (slice 34 n (u_buf s))"
  shows "65535 dvd osum (slice 34 n (u_buf (icmp_input s)))"
proof -
  let ?b = "u_buf s" and ?c = "checksum_bump 8 (raw16 (u_buf s) 36)"
  have "slice 34 n (poke 34 [0] ?b) = (slice 34 n ?b)[0 := 0]"
    using assms(5,6) slice_poke_inside [of 34 34 "[0]" n ?b] by simp
  moreover have "slice 34 n ?b ! 0 = 8" using assms(3,5,6) by (simp add: nth_slice)
  ultimately have t: "osum (slice 34 n (poke 34 [0] ?b)) + 2048 = osum (slice 34 n ?b)"
    using osum_update [of 0 "slice 34 n ?b" 0] assms(5,6) by (simp add: byte_weight_def)
  have "raw16 (poke 34 [0] ?b) 36 = raw16 ?b 36" by (simp add: raw16_def)
  then have "osum (slice 34 n (poke 36 (raw_bytes ?c) (poke 34 [0] ?b))) mod 65535 =
      (osum (slice 34 n (poke 34 [0] ?b)) + 2048) mod 65535"
    using unat_checksum_bump(1) [of "raw16 ?b 36"] assms(5,6)
    by (intro osum_bump) (simp_all del: poke.simps)
  then show ?thesis using assms(7) t by (simp add: icmp_input_frame [OF assms(1-4)] dvd_eq_mod_eq_0)
qed

section \<open>Everything that leaves\<close>

lemma ip_input_ok:
  assumes "app_wf app" "uip_wf s" "ip_input app s = Some s'" shows "sent_ok s'"
proof -
  have "sent_ok (icmp_input t)"
    if "uip_wf t" "slice 30 4 (u_buf t) = uip_hostaddr t" "uip_ipchksum t = 0xffff" "u_buf t ! 14 = 0x45"
      "be16 (u_buf t ! 16) (u_buf t ! 17) = u_len t" for t :: "'a uip_state_scheme"
    using that icmp_input_header [of t] icmp_input_other [of t]
    by (cases "u_buf t ! 23 = 1 \<and> u_buf t ! 34 = 8") (auto simp: sent_ok_def [of "icmp_input t"])
  from this [of "s\<lparr>u_len := be16 (u_buf s ! 16) (u_buf s ! 17)\<rparr>"] assms show ?thesis
    by (auto simp: ip_input_def Let_def udp_input_ok split: if_splits elim: tcp_input_ok [rotated -1])
qed

lemma timer_ok:
  assumes "app_wf app" "uip_wf s" shows "sent_ok (uip_poll app r s)" "sent_ok (uip_rexmit app r s)"
  using assms by (auto simp: uip_poll_def uip_rexmit_def Let_def intro!: ok_intros)

lemma uip_timer_ok:
  assumes "app_wf app" "uip_wf s" shows "sent_ok (uip_timer app r s)"
  using assms by (auto simp: uip_timer_def Let_def intro!: ok_intros timer_ok)

lemma uip_process_ok:
  assumes "app_wf app" "uip_wf s" "uip_process app flag s = Some s'" shows "uip_wf s' \<and> sent_ok s'"
  using assms
  by (cases flag) (auto simp: uip_process_def Let_def timer_ok uip_timer_ok udp_send_ok uip_wf_timer uip_wf_uip_timer
      uip_wf_appcall intro!: udp_send_ok uip_wf_appcall split: if_splits elim: ip_input_ok [rotated -1] uip_wf_ip_input [rotated -1])

end
