(* ===== verification/Uip_Spec.thy ===== *)
theory Uip_Spec imports Uip_Icmp begin

text \<open>The properties of the TCP/IP stack that concern single packets.\<close>

section \<open>A small stack\<close>

definition demo_conn :: uip_conn_t where
  "demo_conn = \<lparr>c_ripaddr = [0, 0, 0, 0], c_lport = 0, c_rport = 0, c_rcv_nxt = [0, 0, 0, 0], c_snd_nxt = [0, 0, 0, 0],
     c_len = 0, c_wnd = 0, c_mss = 0, c_initialmss = 0, c_sa = 0, c_sv = 0, c_rto = 0, c_tcpstateflags = 0,
     c_timer = 0, c_nrtx = 0, c_callback = None, c_stack = 0\<rparr>"

text \<open>A host 10.0.0.1/24 with no connections, and a frame in its buffer.\<close>

definition demo_uip :: "u8 list \<Rightarrow> uip_state" where
  "demo_uip frame = \<lparr>u_buf = poke 0 frame (replicate 200 0), u_len = of_nat (length frame), u_slen = 0, u_flags = 0, u_appdata = 0,
     u_sappdata = 0, u_conns = [demo_conn, demo_conn], u_conn = None, u_udp_conns = [], u_udp_conn = 0,
     u_listenports = [(htons 23, Some 0), (0, None)], u_iss = [0, 0, 0, 1], u_ipid = 0, u_lastport = 1024,
     u_stacks = [([10, 0, 0, 1], [255, 255, 255, 0])], u_stack = 0\<rparr>"

text \<open>An echo request from 10.0.0.2.\<close>

definition demo_ping :: "u8 list" where
  "demo_ping = replicate 14 0 @ [0x45, 0, 0, 30, 0, 0, 0, 0, 64, 1, 0x66, 0xdd, 10, 0, 0, 2, 10, 0, 0, 1,
     8, 0, 0xf7, 0xfd, 0, 1, 0, 1, 0, 0]"

lemma demo_uip_wf: "uip_wf (demo_uip frame)"
  by (simp add: demo_uip_def uip_wf_def demo_conn_def conn_wf_def del: replicate.simps)

lemma demo_ping_bytes:
  "u_buf (demo_uip demo_ping) ! 14 = 0x45" "u_buf (demo_uip demo_ping) ! 16 = 0" "u_buf (demo_uip demo_ping) ! 17 = 30"
  "slice 20 2 (u_buf (demo_uip demo_ping)) = [0, 0]" "u_buf (demo_uip demo_ping) ! 23 = 1"
  "slice 30 4 (u_buf (demo_uip demo_ping)) = [10, 0, 0, 1]" "u_buf (demo_uip demo_ping) ! 34 = 8"
  "slice 34 10 (u_buf (demo_uip demo_ping)) = [8, 0, 0xf7, 0xfd, 0, 1, 0, 1, 0, 0]"
  "slice 14 20 (u_buf (demo_uip demo_ping)) = [0x45, 0, 0, 30, 0, 0, 0, 0, 64, 1, 0x66, 0xdd, 10, 0, 0, 2, 10, 0, 0, 1]"
  "slice 26 4 (u_buf (demo_uip demo_ping)) = [10, 0, 0, 2]"
  by code_simp+

lemma demo_ping_fields:
  "be16 (u_buf (demo_uip demo_ping) ! 16) (u_buf (demo_uip demo_ping) ! 17) = 30"
  "slice 30 4 (u_buf (demo_uip demo_ping)) = uip_hostaddr (demo_uip demo_ping)" "uip_ipchksum (demo_uip demo_ping) = 0xffff"
  "osum (slice 34 10 (u_buf (demo_uip demo_ping))) = 65535"
  by (simp_all add: demo_ping_bytes be16_def uip_ipchksum_ffff) (simp add: uip_hostaddr_def demo_uip_def)

lemma demo_sizes: "length (u_buf (demo_uip f)) = 200" "u_len (demo_uip demo_ping) = 44"
  by (simp_all add: demo_uip_def demo_ping_def)

lemma app_wf_id: "app_wf (\<lambda>f s. s)"
  by (simp add: app_wf_def)

lemma uip_echo_reply:
  assumes "uip_wf s" "u_buf s ! 14 = 0x45" "be16 (u_buf s ! 16) (u_buf s ! 17) = of_nat len" "of_nat len \<le> u_len s"
    and "slice 20 2 (u_buf s) = [0, 0]" "u_buf s ! 23 = 1" "slice 30 4 (u_buf s) = uip_hostaddr s" "uip_ipchksum s = 0xffff"
    and "u_buf s ! 34 = 8" "24 \<le> len" "14 + len \<le> length (u_buf s)" "65535 dvd osum (slice 34 (len - 20) (u_buf s))"
  shows "\<exists>s'. uip_process app UIP_DATA s = Some s' \<and> u_len s' = of_nat len \<and> u_buf s' ! 34 = 0 \<and>
    slice 30 4 (u_buf s') = slice 26 4 (u_buf s) \<and> slice 26 4 (u_buf s') = uip_hostaddr s \<and>
    slice 38 (len - 24) (u_buf s') = slice 38 (len - 24) (u_buf s) \<and>
    65535 dvd osum (slice 34 (len - 20) (u_buf s'))"
proof -
  define t where "t = s\<lparr>u_sappdata := 54, u_appdata := 54, u_len := be16 (u_buf s ! 16) (u_buf s ! 17)\<rparr>"
  have h: "uip_hostaddr t = uip_hostaddr s" by (simp add: t_def uip_hostaddr_def)
  have "u_buf s ! 20 = 0" "u_buf s ! 21 = 0"
    using nth_slice [of 20 2 "u_buf s" 0] nth_slice [of 20 2 "u_buf s" 1] wf_buf [OF assms(1)] assms(5) by simp_all
  moreover have "uip_ipchksum (s\<lparr>u_sappdata := 54, u_appdata := 54, u_len := v\<rparr>) = uip_ipchksum s" for v
    by (simp add: uip_ipchksum_def)
  ultimately have "uip_process app UIP_DATA s = Some (icmp_input t)"
    using assms by (simp add: uip_process_def ip_input_def Let_def t_def uip_hostaddr_def)
  moreover have t: "uip_wf t" "u_buf t = u_buf s" "u_len t = of_nat len" using assms by (simp_all add: t_def)
  moreover note fr = icmp_input_frame [of t, unfolded t(2) h, OF t(1) assms(6,9,7)]
  moreover have "65535 dvd osum (slice 34 (len - 20) (u_buf (icmp_input t)))"
    using assms(10,11,12) by (intro icmp_input_checksum) (simp_all add: t h assms(6,7,9))
  ultimately show ?thesis by auto
qed

lemma demo_ping_answer:
  "\<exists>s'. uip_process (\<lambda>f s. s) UIP_DATA (demo_uip demo_ping) = Some s' \<and> u_len s' = 30"
  using uip_echo_reply [of "demo_uip demo_ping" 30 "\<lambda>f s. s", OF demo_uip_wf] demo_ping_fields demo_ping_bytes by (auto simp: demo_sizes)

section \<open>Properties\<close>

text \<open>
  C0. No packet leaves the stack with a bad header: after \<open>uip_process\<close> there is either nothing to
  send or a packet of version 4 whose length field is the length, whose source is the address of
  the host, and whose header checksum verifies, for every packet received, echo requests answered
  in place included, and every application.
\<close>

theorem uip_sends_valid_headers:
  assumes "app_wf app" "uip_wf s" "uip_process app flag s = Some s'" "u_len s' \<noteq> 0"
  shows "u_buf s' ! 14 = 0x45 \<and> be16 (u_buf s' ! 16) (u_buf s' ! 17) = u_len s' \<and>
    slice 26 4 (u_buf s') = uip_hostaddr s' \<and> uip_ipchksum s' = 0xffff"
  using uip_process_ok [OF assms(1-3)] assms(4) by (simp add: sent_ok_def header_ok_def)

theorem uip_sends_valid_headers_witness:
  "\<exists>s'. uip_process (\<lambda>f s. s) UIP_DATA (demo_uip demo_ping) = Some s' \<and> uip_ipchksum s' = 0xffff"
proof -
  obtain s' where s': "uip_process (\<lambda>f s. s) UIP_DATA (demo_uip demo_ping) = Some s'" "u_len s' = 30"
    using demo_ping_answer by blast
  then show ?thesis using uip_sends_valid_headers [OF app_wf_id demo_uip_wf s'(1)] by simp
qed

text \<open>
  C11. An echo request for the host that verifies is answered: the packet goes back to its sender as
  an echo reply with the same identifier, number and data, and its checksum verifies although it
  is only adjusted.
\<close>

theorem uip_answers_ping:
  assumes "uip_wf s" "u_buf s ! 14 = 0x45" "be16 (u_buf s ! 16) (u_buf s ! 17) = of_nat len" "of_nat len \<le> u_len s"
    and "slice 20 2 (u_buf s) = [0, 0]" "u_buf s ! 23 = 1" "slice 30 4 (u_buf s) = uip_hostaddr s" "uip_ipchksum s = 0xffff"
    and "u_buf s ! 34 = 8" "24 \<le> len" "14 + len \<le> length (u_buf s)" "65535 dvd osum (slice 34 (len - 20) (u_buf s))"
  shows "\<exists>s'. uip_process app UIP_DATA s = Some s' \<and> u_len s' = of_nat len \<and> u_buf s' ! 34 = 0 \<and>
    slice 30 4 (u_buf s') = slice 26 4 (u_buf s) \<and> slice 26 4 (u_buf s') = uip_hostaddr s \<and>
    slice 38 (len - 24) (u_buf s') = slice 38 (len - 24) (u_buf s) \<and>
    65535 dvd osum (slice 34 (len - 20) (u_buf s'))"
  using uip_echo_reply [OF assms] .

theorem uip_answers_ping_witness:
  "\<exists>s'. uip_process (\<lambda>f s. s) UIP_DATA (demo_uip demo_ping) = Some s' \<and> u_len s' = 30 \<and> u_buf s' ! 34 = 0 \<and>
    slice 30 4 (u_buf s') = [10, 0, 0, 2] \<and> slice 26 4 (u_buf s') = uip_hostaddr (demo_uip demo_ping) \<and>
    slice 38 6 (u_buf s') = slice 38 6 (u_buf (demo_uip demo_ping)) \<and> 65535 dvd osum (slice 34 10 (u_buf s'))"
  using uip_answers_ping [of "demo_uip demo_ping" 30 "\<lambda>f s. s", OF demo_uip_wf] demo_ping_fields demo_ping_bytes by (simp add: demo_sizes)

end
