(* ===== verification/Uip_Tcp.thy ===== *)
theory Uip_Tcp imports Uip_Spec begin

text \<open>
  TCP segments on the way in and out: how a frame that verifies reaches \<open>tcp_input\<close>, and the
  fields of a segment that is sent.
\<close>

section \<open>Frames\<close>

text \<open>A frame put into the buffer by a driver.\<close>

definition receive :: "u8 list \<Rightarrow> 'z uip_state_scheme \<Rightarrow> 'z uip_state_scheme" where
  "receive fr s = s\<lparr>u_buf := poke 0 fr (u_buf s), u_len := of_nat (length fr)\<rparr>"

text \<open>A TCP segment for the host, its IP header without options, both checksums verifying.\<close>

definition tcp_frame :: "u8 list \<Rightarrow> u8 list \<Rightarrow> bool" where
  "tcp_frame host fr \<longleftrightarrow> 54 \<le> length fr \<and> length fr < 65536 \<and> fr ! 14 = 0x45 \<and>
    be16 (fr ! 16) (fr ! 17) = of_nat (length fr - 14) \<and> slice 20 2 fr = [0, 0] \<and> fr ! 23 = 6 \<and> slice 30 4 fr = host \<and>
    65535 dvd osum (slice 14 20 fr) \<and> 65535 dvd (length fr - 34 + 6 + osum (slice 26 8 fr) + osum (drop 34 fr))"

definition arrived :: "u8 list \<Rightarrow> 'z uip_state_scheme \<Rightarrow> 'z uip_state_scheme" where
  "arrived fr s = (receive fr s)\<lparr>u_sappdata := 54, u_appdata := 54, u_len := of_nat (length fr - 14)\<rparr>"

lemma arrived_frame [simp]:
  "u_buf (arrived fr s) = poke 0 fr (u_buf s)" "u_len (arrived fr s) = of_nat (length fr - 14)"
  "u_conns (arrived fr s) = u_conns s" "u_udp_conns (arrived fr s) = u_udp_conns s" "u_flags (arrived fr s) = u_flags s"
  "u_listenports (arrived fr s) = u_listenports s" "u_iss (arrived fr s) = u_iss s" "u_stack (arrived fr s) = u_stack s"
  "u_stacks (arrived fr s) = u_stacks s" "u_appdata (arrived fr s) = 54" "u_sappdata (arrived fr s) = 54"
  "u_slen (arrived fr s) = u_slen s" "uip_hostaddr (arrived fr s) = uip_hostaddr s" "uip_wf (arrived fr s) = uip_wf s"
  "uip_state.more (arrived fr s) = uip_state.more s"
  by (simp_all add: arrived_def receive_def uip_hostaddr_def uip_wf_def)

lemma nth_poke_0: "i < length fr \<Longrightarrow> length fr \<le> length b \<Longrightarrow> poke 0 fr b ! i = fr ! i"
  by (simp add: nth_poke)

lemma take_poke_0: "length fr \<le> length b \<Longrightarrow> take (length fr) (poke 0 fr b) = fr"
  by (rule nth_equalityI) (simp_all add: nth_poke)

lemma slice_poke_0: "off + n \<le> length fr \<Longrightarrow> length fr \<le> length b \<Longrightarrow> slice off n (poke 0 fr b) = slice off n fr"
  by (rule nth_equalityI) (simp_all add: nth_slice nth_poke)

lemma raw16_poke_0: "off + 2 \<le> length fr \<Longrightarrow> length fr \<le> length b \<Longrightarrow> raw16 (poke 0 fr b) off = raw16 fr off"
  by (simp add: raw16_def nth_poke)

lemma drop_slice: "drop off b = slice off (length b - off) b"
  by (simp add: slice_def)

section \<open>The checksum of TCP and UDP\<close>

lemma upper_layer_chksum_checked:
  "upper_layer_chksum proto s = checked (chksum (chksum (be16 (u_buf s ! 16) (u_buf s ! 17) - 20 + ucast proto)
    (slice 26 8 (u_buf s))) (slice 34 (unat (be16 (u_buf s ! 16) (u_buf s ! 17) - 20)) (u_buf s)))"
  by (simp add: upper_layer_chksum_def checked_def Let_def)

lemma unat_chksum_2: "unat (chksum (chksum acc xs) ys) mod 65535 = (unat acc + osum xs + osum ys) mod 65535"
  using mod_add_cong [OF unat_chksum [of acc xs] refl, of "osum ys"] unat_chksum [of "chksum acc xs" ys] by simp

lemma upper_layer_length:
  assumes "be16 hi lo = of_nat (20 + n)" "20 + n < 65536" "n + unat proto < 65536"
  shows "be16 hi lo - 20 = of_nat n" "unat (be16 hi lo - 20 :: u16) = n" "unat (be16 hi lo - 20 + ucast (proto :: u8)) = n + unat proto"
proof -
  show e: "be16 hi lo - 20 = of_nat n" using assms(1) by simp
  then show u: "unat (be16 hi lo - 20 :: u16) = n" using assms(2) by (simp add: unsigned_of_nat take_bit_nat_eq_self)
  show "unat (be16 hi lo - 20 + ucast proto) = n + unat proto"
    using assms(3) u by (subst unat_add_small) (simp_all add: unat_ucast_up)
qed

lemma upper_layer_ffff:
  assumes "be16 (u_buf s ! 16) (u_buf s ! 17) = of_nat (20 + n)" "20 + n < 65536" "n + unat proto < 65536"
  shows "upper_layer_chksum proto s = 0xffff \<longleftrightarrow>
    65535 dvd (n + unat proto + osum (slice 26 8 (u_buf s)) + osum (slice 34 n (u_buf s)))"
  by (simp only: upper_layer_chksum_checked checked_ffff dvd_eq_mod_eq_0 unat_chksum_2 upper_layer_length(2,3) [OF assms])

lemma upper_checksum_field:
  assumes b: "be16 (u_buf s ! 16) (u_buf s ! 17) = of_nat (20 + n)" "20 + n < 65536" "n + unat proto < 65536"
    and "even off" "34 \<le> off" "off + 2 \<le> 34 + n" "34 + n \<le> length (u_buf s)" "slice off 2 (u_buf s) = [0, 0]"
  shows "65535 dvd (n + unat proto + osum (slice 26 8 (u_buf s)) +
    osum (slice 34 n (poke off (raw_bytes (NOT (upper_layer_chksum proto s))) (u_buf s))))"
proof -
  let ?c = "chksum (chksum (be16 (u_buf s ! 16) (u_buf s ! 17) - 20 + ucast proto) (slice 26 8 (u_buf s))) (slice 34 n (u_buf s))"
  have "osum (slice 34 n (poke off (raw_bytes (NOT (checked ?c))) (u_buf s))) =
      osum (slice 34 n (u_buf s)) + unat (htons (NOT (checked ?c)))"
    using osum_put_be [of off 34 n "u_buf s" "htons (NOT (checked ?c))"] assms by (simp add: raw_bytes_be)
  moreover have "unat ?c mod 65535 = (n + unat proto + osum (slice 26 8 (u_buf s)) + osum (slice 34 n (u_buf s))) mod 65535"
    by (simp only: unat_chksum_2 upper_layer_length(3) [OF b])
  from complement_verifies [OF this]
  have "65535 dvd (n + unat proto + osum (slice 26 8 (u_buf s)) + osum (slice 34 n (u_buf s)) + unat (htons (NOT (checked ?c))))" .
  moreover have "upper_layer_chksum proto s = checked ?c"
    by (simp only: upper_layer_chksum_checked upper_layer_length(2) [OF b])
  ultimately show ?thesis by (simp only: add.assoc)
qed

section \<open>Segments on the way in\<close>

definition tcp_demux :: "'z uip_app \<Rightarrow> 'z uip_state_scheme \<Rightarrow> 'z uip_state_scheme option" where
  "tcp_demux app s = (case conn_of_segment s of
       Some r \<Rightarrow> tcp_found app r s
     | None \<Rightarrow>
         if u_buf s ! 47 AND TCP_CTL \<noteq> TCP_SYN then Some (tcp_reset s)
         else (case listen_index (raw16 (u_buf s) 36) s of
             None \<Rightarrow> Some (tcp_reset s)
           | Some c \<Rightarrow> found_listen (raw16 (u_buf s) 36) s))"

lemma frame_length: "n < 65536 \<Longrightarrow> unat (of_nat n :: u16) = n"
  by (simp add: unsigned_of_nat take_bit_nat_eq_self)

lemma tcp_frame_arrives:
  assumes "uip_wf s" "tcp_frame (uip_hostaddr s) fr" "length fr \<le> length (u_buf s)"
  shows "uip_process app UIP_DATA (receive fr s) = tcp_demux app (arrived fr s)"
proof -
  note fr = assms(2) [unfolded tcp_frame_def]
  let ?b = "poke 0 fr (u_buf s)" and ?n = "length fr - 34"
  have l54: "54 \<le> length fr" using fr by simp
  have len: "length fr - 14 = 20 + ?n" "20 + ?n < 65536" "?n + unat (6 :: u8) < 65536" using fr by auto
  have nth: "?b ! i = fr ! i" if "i < 54" for i using that fr assms(3) by (simp add: nth_poke)
  have "fr ! 20 = 0" "fr ! 21 = 0" using fr nth_slice [of 20 2 fr 0] nth_slice [of 20 2 fr 1] by simp_all
  moreover have sl: "slice 30 4 ?b = uip_hostaddr s" "slice 14 20 ?b = slice 14 20 fr" "slice 26 8 ?b = slice 26 8 fr"
    using fr assms(3) by (simp_all add: slice_poke_0)
  moreover have s34: "slice 34 ?n ?b = drop 34 fr"
  proof -
    have "slice 34 ?n ?b = slice 34 ?n fr" by (rule slice_poke_0) (use l54 assms(3) in simp_all)
    then show ?thesis by (simp add: slice_def)
  qed
  have "be16 (?b ! 16) (?b ! 17) = of_nat (length fr - 14)" using fr nth [of 16] nth [of 17] by simp
  then have b16: "be16 (?b ! 16) (?b ! 17) = of_nat (20 + ?n)" by (simp only: len(1))
  have ipc: "uip_ipchksum (arrived fr s) = 0xffff"
    using fr assms(3) by (simp add: uip_ipchksum_ffff slice_poke_0)
  have tcpc: "uip_tcpchksum (arrived fr s) = 0xffff"
  proof -
    have "unat (6 :: u8) = 6" by simp
    with upper_layer_ffff [of "arrived fr s" ?n 6] b16 len(2,3)
    have "uip_tcpchksum (arrived fr s) = 0xffff \<longleftrightarrow> 65535 dvd (?n + 6 + osum (slice 26 8 fr) + osum (drop 34 fr))"
      by (simp only: uip_tcpchksum_def arrived_frame sl s34)
    then show ?thesis using fr by blast
  qed
  have le: "be16 (?b ! 16) (?b ! 17) \<le> of_nat (length fr)"
  proof -
    have "length fr < 65536" "length fr - 14 < 65536" "be16 (fr ! 16) (fr ! 17) = of_nat (length fr - 14)" using fr by auto
    then show ?thesis by (simp add: nth [of 16] nth [of 17] word_le_nat_alt frame_length del: of_nat_diff)
  qed
  have "uip_process app UIP_DATA (receive fr s) = tcp_input app (arrived fr s)"
    using fr assms(3) nth le ipc calculation
    by (simp add: uip_process_def ip_input_def Let_def arrived_def receive_def uip_hostaddr_def uip_netmask_def
        uip_ipchksum_def)
  then show ?thesis using tcpc by (simp add: tcp_input_def tcp_demux_def)
qed

section \<open>Segments on the way out\<close>

lemma tcp_send_noconn_frame:
  "u_len (tcp_send_noconn s) = u_len s" "u_conns (tcp_send_noconn s) = u_conns s" "uip_hostaddr (tcp_send_noconn s) = uip_hostaddr s"
  "length (u_buf (tcp_send_noconn s)) = length (u_buf s)"
  "26 \<le> i \<Longrightarrow> i + n \<le> 50 \<Longrightarrow> slice i n (u_buf (tcp_send_noconn s)) = slice i n (u_buf s)"
  "54 \<le> i \<Longrightarrow> slice i n (u_buf (tcp_send_noconn s)) = slice i n (u_buf s)"
  "34 \<le> i \<Longrightarrow> i < 50 \<Longrightarrow> 100 \<le> length (u_buf s) \<Longrightarrow> u_buf (tcp_send_noconn s) ! i = u_buf s ! i"
  by (simp_all add: tcp_send_noconn_def Let_def ip_send_nolen_frame slice_poke_other nth_poke del: poke.simps)

lemma tcp_send_noconn_checksum:
  assumes "100 \<le> length (u_buf s)" "u_len s = of_nat (20 + n)" "20 \<le> n" "34 + n \<le> length (u_buf s)" "length (u_buf s) < 65536"
    and "n + 26 < 65536"
  shows "uip_tcpchksum (tcp_send_noconn s) = 0xffff"
proof -
  define t where "t = uip_put 50 [0, 0] (uip_put 52 [0, 0] (uip_put 16 (be_bytes (u_len s)) (uip_put 22 [64] s)))"
  define t' where "t' = uip_put 50 (raw_bytes (NOT (uip_tcpchksum t))) t"
  have e: "tcp_send_noconn s = ip_send_nolen t'"
    by (simp add: tcp_send_noconn_def Let_def t_def t'_def del: poke.simps)
  have len: "length (u_buf t) = length (u_buf s)" "length (u_buf t') = length (u_buf s)" by (simp_all add: t_def t'_def)
  have b: "be16 (u_buf t ! 16) (u_buf t ! 17) = of_nat (20 + n)" "slice 50 2 (u_buf t) = [0, 0]"
    using assms be16_be_bytes [of "u_len s"] by (simp_all add: t_def nth_poke slice_poke_same del: poke.simps)
  have b': "be16 (u_buf t' ! 16) (u_buf t' ! 17) = of_nat (20 + n)" "slice 26 8 (u_buf t') = slice 26 8 (u_buf t)"
    using assms b(1) len by (simp_all add: t'_def nth_poke slice_poke_other del: poke.simps)
  have "unat (6 :: u8) = 6" by simp
  with upper_checksum_field [of t n 6 50] b assms len
  have "65535 dvd (n + 6 + osum (slice 26 8 (u_buf t')) + osum (slice 34 n (u_buf t')))"
    by (simp add: t'_def uip_tcpchksum_def slice_poke_other del: poke.simps of_nat_add)
  with upper_layer_ffff [of "ip_send_nolen t'" n 6] b'(1) len assms show ?thesis
    by (simp add: e uip_tcpchksum_def ip_send_nolen_frame del: of_nat_add)
qed

lemma tcp_send_frame:
  assumes "uip_wf s" "r < length (u_conns s)"
  defines "c \<equiv> u_conns s ! r" and "b \<equiv> u_buf (tcp_send r s)"
  shows "slice 38 4 b = c_snd_nxt c" "slice 42 4 b = c_rcv_nxt c" "slice 34 2 b = raw_bytes (c_lport c)"
    "slice 36 2 b = raw_bytes (c_rport c)" "slice 26 4 b = uip_hostaddr s" "slice 30 4 b = c_ripaddr c"
    "b ! 46 = u_buf s ! 46" "b ! 47 = u_buf s ! 47" "slice 54 n b = slice 54 n (u_buf s)" "length b = length (u_buf s)"
    "u_conns (tcp_send r s) = u_conns s" "u_len (tcp_send r s) = u_len s" "uip_hostaddr (tcp_send r s) = uip_hostaddr s"
proof -
  have c: "length (c_snd_nxt c) = 4" "length (c_rcv_nxt c) = 4" "length (c_ripaddr c) = 4"
    using uip_wf_conn [OF assms(1,2)] by (simp_all add: c_def conn_wf_def)
  note l = c wf_buf [OF assms(1)] uip_wf_hostaddr [OF assms(1)]
  show "slice 38 4 b = c_snd_nxt c" "slice 42 4 b = c_rcv_nxt c" "slice 34 2 b = raw_bytes (c_lport c)"
    "slice 36 2 b = raw_bytes (c_rport c)" "slice 26 4 b = uip_hostaddr s" "slice 30 4 b = c_ripaddr c"
    "b ! 46 = u_buf s ! 46" "b ! 47 = u_buf s ! 47" "slice 54 n b = slice 54 n (u_buf s)" "length b = length (u_buf s)"
    "u_conns (tcp_send r s) = u_conns s" "u_len (tcp_send r s) = u_len s" "uip_hostaddr (tcp_send r s) = uip_hostaddr s"
    using l by (simp_all add: b_def tcp_send_def Let_def tcp_send_noconn_frame slice_poke_other slice_poke_same nth_poke
        flip: c_def del: poke.simps)
qed

lemma tcp_send_checksum:
  assumes "uip_wf s" "u_len s = of_nat (20 + n)" "20 \<le> n" "34 + n \<le> length (u_buf s)"
  shows "uip_tcpchksum (tcp_send r s) = 0xffff"
proof -
  have "length (u_buf s) < 65536" "100 \<le> length (u_buf s)" using assms(1) by (simp_all add: uip_wf_def)
  then show ?thesis
    unfolding tcp_send_def Let_def using assms by (intro tcp_send_noconn_checksum [of _ n]) simp_all
qed

end
