(* ===== verification/Uip_Open.thy ===== *)
theory Uip_Open imports Uip_Tcp begin

text \<open>Opening a connection from outside.\<close>

section \<open>The options of a SYN\<close>

lemma mss_options_diverges:
  assumes "2 < lim" "buf ! 54 = 1" "buf ! 55 = 1" "buf ! 56 \<noteq> 0" "buf ! 56 \<noteq> 1" "buf ! 56 \<noteq> 2" "buf ! 57 = 254"
  shows "mss_options buf lim 0 = None"
proof -
  have "\<not> (b = buf \<and> l = lim \<and> (c = 0 \<or> c = 1 \<or> c = 2))" if "mss_options b l c = Some y" for b l c y
  proof (rule mss_options.raw_induct [where P = "\<lambda>b l c y. \<not> (b = buf \<and> l = lim \<and> (c = 0 \<or> c = 1 \<or> c = 2))", OF _ that])
    fix f b l c y
    assume 1: "\<And>b l c y. f b l c = Some y \<Longrightarrow> \<not> (b = buf \<and> l = lim \<and> (c = 0 \<or> c = 1 \<or> c = 2))"
      "(if \<not> unat c < l then Some None
       else let opt = b ! (54 + unat c)
         in if opt = 0 then Some None
            else if opt = 1 then f b l (c + 1)
            else if opt = 2 \<and> b ! (55 + unat c) = 4 then Some (Some (be16 (b ! (56 + unat c)) (b ! (57 + unat c))))
            else if b ! (55 + unat c) = 0 then Some None
            else f b l (c + b ! (55 + unat c))) = Some y"
    show "\<not> (b = buf \<and> l = lim \<and> (c = 0 \<or> c = 1 \<or> c = 2))"
    proof
      assume bad: "b = buf \<and> l = lim \<and> (c = 0 \<or> c = 1 \<or> c = 2)"
      have "2 + (254 :: u8) = 0" by code_simp
      then have w: "2 + buf ! 57 = 0" "buf ! 57 \<noteq> 0" unfolding assms(7) by (assumption, simp)
      have "unat (2 :: u8) = 2" by simp
      then have "f b l (if c = 0 then 1 else if c = 1 then 2 else 0) = Some y"
        using 1(2) bad assms(1-6) w by (auto simp: numeral_2_eq_2 [symmetric] split: if_splits)
      from 1(1) [OF this] bad show False by (auto split: if_splits)
    qed
  qed
  then show ?thesis by (metis option.exhaust)
qed

section \<open>A SYN for a listening port\<close>

definition opened :: "nat \<Rightarrow> nat option \<Rightarrow> 'z uip_state_scheme \<Rightarrow> 'z uip_state_scheme" where
  "opened r callback s = (s\<lparr>u_conn := Some r\<rparr>)\<lparr>u_conns := (u_conns s)[r := (u_conns s ! r)\<lparr>c_callback := callback, c_stack := u_stack s,
      c_rto := UIP_RTO, c_timer := UIP_RTO, c_sa := 0, c_sv := 4, c_nrtx := 0, c_wnd := 0, c_lport := raw16 (u_buf s) 36,
      c_rport := raw16 (u_buf s) 34, c_ripaddr := slice 26 4 (u_buf s), c_tcpstateflags := UIP_SYN_RCVD,
      c_snd_nxt := u_iss s, c_len := 1, c_rcv_nxt := uip_add32 (slice 38 4 (u_buf s)) 1\<rparr>]\<rparr>"

lemma free_conn_less:
  "free_conn conns found ks = Some r \<Longrightarrow> (\<And>k. found = Some k \<Longrightarrow> k < n) \<Longrightarrow> (\<forall>i \<in> set ks. i < n) \<Longrightarrow> r < n"
  by (induction conns found ks rule: free_conn.induct) (auto split: if_splits)

lemma free_conn_bound: "free_conn conns None [0..<length conns] = Some r \<Longrightarrow> r < length conns"
  by (rule free_conn_less [where found = None and ks = "[0..<length conns]"]) auto

lemma listen_index_bound: "listen_index p s = Some l \<Longrightarrow> l < length (u_listenports s)"
  by (auto simp: listen_index_def find_Some_iff)

lemma found_listen_opens:
  assumes "free_conn (u_conns s) None [0..<length (u_conns s)] = Some r" "listen_index p s = Some l"
  shows "found_listen p s = map_option (tcp_send_synack r) (parse_mss r (opened r (snd (u_listenports s ! l)) s))"
proof -
  have r: "r < length (u_conns s)" by (rule free_conn_bound [OF assms(1)])
  have "listen_index p (s\<lparr>u_conn := Some r\<rparr>) = Some l" using assms(2) by (simp add: listen_index_def)
  then show ?thesis
    unfolding found_listen_def assms(1)
    using r by (simp add: Let_def conn_update_def uip_add_rcv_nxt_def opened_def)
qed

lemma tcp_demux_syn:
  assumes "conn_of_segment s = None" "u_buf s ! 47 AND TCP_CTL = TCP_SYN" "listen_index (raw16 (u_buf s) 36) s = Some l"
    "free_conn (u_conns s) None [0..<length (u_conns s)] = Some r"
  shows "tcp_demux app s = map_option (tcp_send_synack r) (parse_mss r (opened r (snd (u_listenports s ! l)) s))"
  using assms found_listen_opens [OF assms(4,3)] by (simp add: tcp_demux_def)

section \<open>Frames and connections\<close>

definition same_peer :: "u8 list \<Rightarrow> uip_conn_t \<Rightarrow> bool" where
  "same_peer fr c \<longleftrightarrow> raw16 fr 36 = c_lport c \<and> raw16 fr 34 = c_rport c \<and> slice 26 4 fr = c_ripaddr c"

definition unknown_peer :: "u8 list \<Rightarrow> uip_conn_t list \<Rightarrow> bool" where
  "unknown_peer fr cs \<longleftrightarrow> (\<forall>c \<in> set cs. c_tcpstateflags c = UIP_CLOSED \<or> \<not> same_peer fr c)"

lemma conn_of_segment_arrived:
  assumes "54 \<le> length fr" "length fr \<le> length (u_buf s)"
  shows "conn_of_segment (arrived fr s) =
    find (\<lambda>r. c_tcpstateflags (u_conns s ! r) \<noteq> UIP_CLOSED \<and> same_peer fr (u_conns s ! r)) [0..<length (u_conns s)]"
  using assms by (simp add: conn_of_segment_def same_peer_def slice_poke_0 raw16_poke_0)

lemma conn_of_segment_unknown:
  assumes "54 \<le> length fr" "length fr \<le> length (u_buf s)" "unknown_peer fr (u_conns s)"
  shows "conn_of_segment (arrived fr s) = None"
  using assms by (auto simp: conn_of_segment_arrived find_None_iff unknown_peer_def)

lemma find_upt_Some:
  assumes "r < n" "P r" "\<And>i. i < r \<Longrightarrow> \<not> P i" shows "find P [0..<n] = Some r"
  using assms by (auto simp: find_Some_iff intro!: exI [of _ r])

text \<open>A frame of the connection \<open>r\<close>, which is the only one for its peer.\<close>

definition conn_frame :: "nat \<Rightarrow> u8 list \<Rightarrow> uip_conn_t list \<Rightarrow> bool" where
  "conn_frame r fr cs \<longleftrightarrow> r < length cs \<and> c_tcpstateflags (cs ! r) \<noteq> UIP_CLOSED \<and> same_peer fr (cs ! r) \<and>
    (\<forall>i < r. c_tcpstateflags (cs ! i) = UIP_CLOSED \<or> \<not> same_peer fr (cs ! i))"

lemma tcp_demux_conn:
  assumes "54 \<le> length fr" "length fr \<le> length (u_buf s)" "conn_frame r fr (u_conns s)"
  shows "tcp_demux app (arrived fr s) = tcp_found app r (arrived fr s)"
proof -
  have "conn_of_segment (arrived fr s) = Some r"
    unfolding conn_of_segment_arrived [OF assms(1,2)] using assms(3) by (intro find_upt_Some) (auto simp: conn_frame_def)
  then show ?thesis by (simp add: tcp_demux_def)
qed

lemma syn_arrives:
  assumes "uip_wf s" "tcp_frame (uip_hostaddr s) fr" "length fr \<le> length (u_buf s)" "unknown_peer fr (u_conns s)"
    and "fr ! 47 AND TCP_CTL = TCP_SYN" "listen_index (raw16 fr 36) s = Some l"
    and "free_conn (u_conns s) None [0..<length (u_conns s)] = Some r"
  shows "uip_process app UIP_DATA (receive fr s) =
    map_option (tcp_send_synack r) (parse_mss r (opened r (snd (u_listenports s ! l)) (arrived fr s)))"
proof -
  have l: "54 \<le> length fr" using assms(2) by (simp add: tcp_frame_def)
  have "listen_index (raw16 fr 36) (arrived fr s) = Some l" using assms(6) by (simp add: listen_index_def)
  moreover have "poke 0 fr (u_buf s) ! 47 = fr ! 47" using l assms(3) by (simp add: nth_poke_0)
  ultimately show ?thesis
    unfolding tcp_frame_arrives [OF assms(1-3)]
    using l assms tcp_demux_syn [of "arrived fr s" l r app] conn_of_segment_unknown [OF l assms(3,4)]
    by (simp add: raw16_poke_0)
qed

lemma opened_frame [simp]:
  "u_buf (opened r f s) = u_buf s" "length (u_conns (opened r f s)) = length (u_conns s)" "u_iss (opened r f s) = u_iss s"
  "uip_hostaddr (opened r f s) = uip_hostaddr s"
  by (simp_all add: opened_def uip_hostaddr_def)

lemma opened_wf: "uip_wf s \<Longrightarrow> uip_wf (opened r f s)"
proof -
  assume wf: "uip_wf s"
  have "opened r f s = conn_update r (\<lambda>c. c\<lparr>c_callback := f, c_stack := u_stack s,
      c_rto := UIP_RTO, c_timer := UIP_RTO, c_sa := 0, c_sv := 4, c_nrtx := 0, c_wnd := 0, c_lport := raw16 (u_buf s) 36,
      c_rport := raw16 (u_buf s) 34, c_ripaddr := slice 26 4 (u_buf s), c_tcpstateflags := UIP_SYN_RCVD,
      c_snd_nxt := u_iss s, c_len := 1, c_rcv_nxt := uip_add32 (slice 38 4 (u_buf s)) 1\<rparr>) (s\<lparr>u_conn := Some r\<rparr>)"
    by (simp add: opened_def conn_update_def)
  then show ?thesis
    using wf by (simp add: uip_wf_conn_update uip_wf_slice uip_wf_iss_length)
qed

lemma parse_mss_option:
  assumes "u_buf s ! 46 = 0x60" "u_buf s ! 54 = 2" "u_buf s ! 55 = 4"
  defines "m \<equiv> min (be16 (u_buf s ! 56) (u_buf s ! 57)) (UIP_TCP_MSS s)"
  shows "parse_mss r s = Some (conn_update r (\<lambda>c. c\<lparr>c_mss := m, c_initialmss := m\<rparr>) s)"
proof -
  have "(0x50 :: u8) < 0x60 AND 0xf0" "(unat (0x60 :: u8) div 16 - 5) * 4 = 4" by code_simp+
  moreover have "mss_options (u_buf s) 4 0 = Some (Some (be16 (u_buf s ! 56) (u_buf s ! 57)))"
    using assms by (subst mss_options.simps) (simp add: numeral_eq_Suc)
  ultimately show ?thesis
    using assms(1) by (auto simp: parse_mss_def m_def min_def Let_def not_le)
qed

section \<open>The handshake\<close>

lemma slice_12:
  assumes "slice 26 12 a = slice 26 12 b" "38 \<le> length a" "38 \<le> length b"
  shows "slice 26 4 a = slice 26 4 b" "raw16 a 36 = raw16 b 36" "raw16 a 34 = raw16 b 34"
proof -
  have "a ! (26 + i) = b ! (26 + i)" if "i < 12" for i
    using nth_slice [of 26 12 a i] nth_slice [of 26 12 b i] assms that by simp
  from this [of 8] this [of 9] this [of 10] this [of 11]
  show "raw16 a 36 = raw16 b 36" "raw16 a 34 = raw16 b 34" by (simp_all add: raw16_def)
  have "slice 26 4 c = take 4 (slice 26 12 c)" for c :: "u8 list" by (simp add: slice_def min_def)
  then show "slice 26 4 a = slice 26 4 b" using assms(1) by simp
qed

lemma more_frame [simp]:
  "uip_state.more (uip_put off d s) = uip_state.more s" "uip_state.more (conn_update r f s) = uip_state.more s"
  "uip_state.more (opened r g s) = uip_state.more s"
  by (simp_all add: uip_put_def conn_update_def opened_def)

lemma more_ip_send [simp]: "uip_state.more (ip_send_nolen s) = uip_state.more s" "uip_state.more (uip_drop s) = uip_state.more s"
  by (simp_all add: ip_send_nolen_def uip_send_label_def Let_def uip_drop_def)

lemma more_tcp_noconn [simp]: "uip_state.more (tcp_send_noconn s) = uip_state.more s"
  by (simp add: tcp_send_noconn_def Let_def)

lemma more_tcp_send [simp]: "uip_state.more (tcp_send r s) = uip_state.more s"
  by (simp add: tcp_send_def Let_def)

lemma more_tcp_send_noopts [simp]:
  "uip_state.more (tcp_send_noopts r s) = uip_state.more s" "uip_state.more (tcp_send_nodata r s) = uip_state.more s"
  "uip_state.more (tcp_send_ack r s) = uip_state.more s"
  by (simp_all add: tcp_send_noopts_def tcp_send_nodata_def tcp_send_ack_def)

lemma slice_join: "slice off m buf @ slice (off + m) n buf = slice off (m + n) buf"
  by (simp add: slice_def take_add add.commute)

lemma slice_updates:
  fixes b :: "u8 list"
  assumes "off + 2 \<le> length b" shows "slice off 2 (b[off := x, off + 1 := y]) = [x, y]"
proof -
  have "poke off [x, y] b = b[off := x, off + 1 := y]" by simp
  then show ?thesis using slice_poke_same [of 2 "[x, y]" off b] assms by simp
qed

lemma tcp_send_syn_frame:
  assumes "uip_wf s" "r < length (u_conns s)"
  defines "c \<equiv> u_conns s ! r" and "s' \<equiv> tcp_send_synack r s"
  shows "u_conns s' = u_conns s" "u_len s' = 44" "u_buf s' ! 47 = TCP_SYN OR TCP_ACK" "slice 38 4 (u_buf s') = c_snd_nxt c"
    "slice 42 4 (u_buf s') = c_rcv_nxt c" "slice 34 2 (u_buf s') = raw_bytes (c_lport c)"
    "slice 36 2 (u_buf s') = raw_bytes (c_rport c)" "slice 30 4 (u_buf s') = c_ripaddr c" "uip_wf s'"
    "uip_tcpchksum s' = 0xffff" "uip_ipchksum s' = 0xffff" "uip_hostaddr s' = uip_hostaddr s" "length (u_buf s') = length (u_buf s)"
    "uip_state.more s' = uip_state.more s" "u_buf s' ! 46 = 0x60" "slice 54 4 (u_buf s') = [2, 4] @ be_bytes (UIP_TCP_MSS s)"
proof -
  define t where "t = uip_put 46 [0x60] ((uip_put 56 (be_bytes (UIP_TCP_MSS (uip_put 47 [TCP_ACK OR TCP_SYN] s)))
    (uip_put 55 [4] (uip_put 54 [2] (uip_put 47 [TCP_ACK OR TCP_SYN] (uip_put 47 [TCP_ACK] s)))))\<lparr>u_len := 44\<rparr>)"
  have len: "100 \<le> length (u_buf s)" using wf_buf [OF assms(1)] .
  have e: "s' = tcp_send r t"
    using len by (simp add: s'_def tcp_send_synack_def tcp_send_syn_def Let_def t_def nth_poke UIP_TCP_MSS_def del: poke.simps)
  have t: "uip_wf t" "u_conns t = u_conns s" "u_len t = 44" "u_buf t ! 47 = TCP_SYN OR TCP_ACK" "length (u_buf t) = length (u_buf s)"
    "uip_hostaddr t = uip_hostaddr s"
    using assms(1) len by (simp_all add: t_def nth_poke or.commute del: poke.simps)
  have r: "r < length (u_conns t)" using assms(2) t(2) by simp
  note fr = tcp_send_frame [OF t(1) r, folded e, unfolded t(2)]
  show "u_conns s' = u_conns s" "u_len s' = 44" "u_buf s' ! 47 = TCP_SYN OR TCP_ACK" "slice 38 4 (u_buf s') = c_snd_nxt c"
    "slice 42 4 (u_buf s') = c_rcv_nxt c" "slice 34 2 (u_buf s') = raw_bytes (c_lport c)"
    "slice 36 2 (u_buf s') = raw_bytes (c_rport c)" "slice 30 4 (u_buf s') = c_ripaddr c"
    "uip_hostaddr s' = uip_hostaddr s" "length (u_buf s') = length (u_buf s)"
    using fr t by (simp_all add: c_def)
  have "slice 54 2 (u_buf t) = [2, 4]" "slice 56 2 (u_buf t) = be_bytes (UIP_TCP_MSS s)" "u_buf t ! 46 = 0x60"
    using len by (simp_all add: t_def slice_poke_other slice_poke_same nth_poke UIP_TCP_MSS_def del: poke.simps) (simp_all add: slice_updates [of 54, simplified])
  then show "u_buf s' ! 46 = 0x60" "slice 54 4 (u_buf s') = [2, 4] @ be_bytes (UIP_TCP_MSS s)"
    using fr(7) fr(9) [of 4] slice_join [of 54 2 "u_buf t" 2] by simp_all
  show "uip_wf s'" using assms(1) by (simp add: s'_def)
  show "uip_tcpchksum s' = 0xffff"
    unfolding e using t len by (intro tcp_send_checksum [where n = 24]) simp_all
  show "uip_ipchksum s' = 0xffff"
    using tcp_send_ok [OF t(1), of r] fr(12) t(3) by (simp add: e sent_ok_def header_ok_def)
  show "uip_state.more s' = uip_state.more s"
    by (simp add: e t_def del: poke.simps)
qed

definition opened_conn :: "nat \<Rightarrow> nat \<Rightarrow> u8 list \<Rightarrow> 'z uip_state_scheme \<Rightarrow> uip_conn_t" where
  "opened_conn r l fr s =
    (let m = min (be16 (fr ! 56) (fr ! 57)) (UIP_TCP_MSS s)
     in (u_conns s ! r)\<lparr>c_callback := snd (u_listenports s ! l), c_stack := u_stack s,
      c_rto := UIP_RTO, c_timer := UIP_RTO, c_sa := 0, c_sv := 4, c_nrtx := 0, c_wnd := 0, c_lport := raw16 fr 36,
      c_rport := raw16 fr 34, c_ripaddr := slice 26 4 fr, c_tcpstateflags := UIP_SYN_RCVD,
      c_snd_nxt := u_iss s, c_len := 1, c_rcv_nxt := uip_add32 (slice 38 4 fr) 1, c_mss := m, c_initialmss := m\<rparr>)"

lemma opened_conn_fields [simp]:
  "c_callback (opened_conn r l fr s) = snd (u_listenports s ! l)" "c_lport (opened_conn r l fr s) = raw16 fr 36"
  "c_rport (opened_conn r l fr s) = raw16 fr 34" "c_ripaddr (opened_conn r l fr s) = slice 26 4 fr"
  "c_tcpstateflags (opened_conn r l fr s) = UIP_SYN_RCVD" "c_snd_nxt (opened_conn r l fr s) = u_iss s"
  "c_len (opened_conn r l fr s) = 1" "c_rcv_nxt (opened_conn r l fr s) = uip_add32 (slice 38 4 fr) 1"
  "c_mss (opened_conn r l fr s) = min (be16 (fr ! 56) (fr ! 57)) (UIP_TCP_MSS s)"
  "c_initialmss (opened_conn r l fr s) = min (be16 (fr ! 56) (fr ! 57)) (UIP_TCP_MSS s)"
  by (simp_all add: opened_conn_def Let_def)

lemma syn_is_answered:
  fixes s :: "'z uip_state_scheme"
  assumes wf: "uip_wf s" "tcp_frame (uip_hostaddr s) fr" "length fr \<le> length (u_buf s)" "58 \<le> length fr"
    and syn: "unknown_peer fr (u_conns s)" "fr ! 47 AND TCP_CTL = TCP_SYN" "fr ! 46 = 0x60" "slice 54 2 fr = [2, 4]"
    and l: "listen_index (raw16 fr 36) s = Some l" "free_conn (u_conns s) None [0..<length (u_conns s)] = Some r"
  defines "c \<equiv> opened_conn r l fr s"
  shows "\<exists>s1. (\<forall>app. uip_process app UIP_DATA (receive fr s) = Some s1) \<and> u_conns s1 = (u_conns s)[r := c] \<and> uip_wf s1 \<and>
    uip_hostaddr s1 = uip_hostaddr s \<and> length (u_buf s1) = length (u_buf s) \<and> uip_state.more s1 = uip_state.more s \<and>
    u_len s1 = 44 \<and> u_buf s1 ! 47 = TCP_SYN OR TCP_ACK \<and> slice 38 4 (u_buf s1) = u_iss s \<and>
    slice 42 4 (u_buf s1) = uip_add32 (slice 38 4 fr) 1 \<and> slice 34 2 (u_buf s1) = slice 36 2 fr \<and>
    slice 36 2 (u_buf s1) = slice 34 2 fr \<and> slice 30 4 (u_buf s1) = slice 26 4 fr \<and>
    uip_tcpchksum s1 = 0xffff \<and> uip_ipchksum s1 = 0xffff \<and>
    u_buf s1 ! 46 = 0x60 \<and> slice 54 4 (u_buf s1) = [2, 4] @ be_bytes (UIP_TCP_MSS s)"
proof -
  let ?a = "arrived fr s"
  let ?m = "min (be16 (fr ! 56) (fr ! 57)) (UIP_TCP_MSS s)"
  define o' where "o' = opened r (snd (u_listenports s ! l)) ?a"
  define t where "t = conn_update r (\<lambda>c. c\<lparr>c_mss := ?m, c_initialmss := ?m\<rparr>) o'"
  have r: "r < length (u_conns s)" by (rule free_conn_bound [OF l(2)])
  have fr: "poke 0 fr (u_buf s) ! i = fr ! i" if "i < 58" for i using that wf by (simp add: nth_poke_0)
  have "fr ! 54 = 2" "fr ! 55 = 4"
    using nth_slice [of 54 2 fr 0] nth_slice [of 54 2 fr 1] wf(4) syn(4) by simp_all
  then have "parse_mss r o' = Some t"
    using parse_mss_option [of o' r] syn(3) by (simp add: o'_def t_def fr UIP_TCP_MSS_def)
  then have p: "uip_process app UIP_DATA (receive fr s) = Some (tcp_send_synack r t)" for app
    using syn_arrives [OF wf(1-3) syn(1,2) l, of app] by (simp add: o'_def)
  have cs: "u_conns t = (u_conns s)[r := c]"
    using r wf(3,4) by (simp add: t_def conn_update_def o'_def opened_def c_def opened_conn_def Let_def raw16_poke_0 slice_poke_0)
  have t: "uip_wf t" "uip_hostaddr t = uip_hostaddr s" "length (u_buf t) = length (u_buf s)" "uip_state.more t = uip_state.more s"
    "r < length (u_conns t)" "UIP_TCP_MSS t = UIP_TCP_MSS s"
    using wf(1) r by (simp_all add: t_def o'_def opened_wf uip_wf_conn_update UIP_TCP_MSS_def)
  have "raw_bytes (raw16 fr 36) = slice 36 2 fr" "raw_bytes (raw16 fr 34) = slice 34 2 fr"
    using wf(4) by (simp_all add: raw_bytes_raw16)
  with tcp_send_syn_frame [OF t(1,5)] r show ?thesis
    by (intro exI [of _ "tcp_send_synack r t"]) (simp add: p cs t(2-4,6) c_def)
qed

lemma conn_update_state:
  assumes "\<And>c. c_tcpstateflags (f c) = c_tcpstateflags c" "c_tcpstateflags (u_conns s ! i) = x"
  shows "c_tcpstateflags (u_conns (conn_update r f s) ! i) = x"
  using assms by (cases "i = r"; cases "r < length (u_conns s)") (simp_all add: conn_update_def list_update_beyond)

lemma rtt_estimate_state: "c_tcpstateflags (rtt_estimate c) = c_tcpstateflags c"
  by (simp add: rtt_estimate_def Let_def)

lemma tcp_acked_state: "c_tcpstateflags (u_conns (tcp_acked r s) ! i) = c_tcpstateflags (u_conns s ! i)"
  unfolding tcp_acked_def Let_def
  by (auto intro!: conn_update_state rtt_estimate_state)

text \<open>The state in which a segment of \<open>n\<close> bytes meets its connection.\<close>

definition meets :: "nat \<Rightarrow> u8 list \<Rightarrow> 'z uip_state_scheme \<Rightarrow> 'z uip_state_scheme" where
  "meets r fr s = (arrived fr s)\<lparr>u_conn := Some r, u_flags := 0, u_len := of_nat (length fr - 54)\<rparr>"

lemma meets_frame [simp]:
  "u_buf (meets r fr s) = poke 0 fr (u_buf s)" "u_conns (meets r fr s) = u_conns s" "u_flags (meets r fr s) = 0"
  "u_conn (meets r fr s) = Some r" "u_len (meets r fr s) = of_nat (length fr - 54)" "u_appdata (meets r fr s) = 54"
  "uip_wf (meets r fr s) = uip_wf s" "uip_state.more (meets r fr s) = uip_state.more s" "uip_hostaddr (meets r fr s) = uip_hostaddr s"
  "u_sappdata (meets r fr s) = 54"
  by (simp_all add: meets_def)

lemma data_length:
  assumes "54 \<le> length fr" "length fr < 65536"
  shows "of_nat (length fr - 14) - push_bit 2 (ucast (drop_bit 4 (0x50 :: u8))) - 20 = (of_nat (length fr - 54) :: u16)"
proof -
  have "push_bit 2 (ucast (drop_bit 4 (0x50 :: u8))) = (20 :: u16)" by code_simp
  moreover have "length fr - 14 = (length fr - 54) + 40" using assms by simp
  then have "(of_nat (length fr - 14) :: u16) = of_nat (length fr - 54) + 40" by (simp only: of_nat_add of_nat_numeral)
  ultimately show ?thesis by (simp del: of_nat_diff)
qed

lemma segment_meets:
  assumes "uip_wf s" "tcp_frame (uip_hostaddr s) fr" "length fr \<le> length (u_buf s)" "conn_frame r fr (u_conns s)"
    and "fr ! 46 = 0x50" "fr ! 47 AND TCP_RST = 0" "c_tcpstateflags (u_conns s ! r) AND UIP_TS_MASK \<noteq> UIP_SYN_SENT"
  defines "y \<equiv> meets r fr s" and "st \<equiv> c_tcpstateflags (u_conns s ! r) AND UIP_TS_MASK"
  shows "uip_process app UIP_DATA (receive fr s) =
    (if (54 < length fr \<or> fr ! 47 AND (TCP_SYN OR TCP_FIN) \<noteq> 0) \<and> slice 38 4 fr \<noteq> c_rcv_nxt (u_conns s ! r)
     then Some (tcp_send_ack r y)
     else if st = UIP_SYN_RCVD then Some (tcp_syn_rcvd app r (tcp_acked r y))
     else if st = UIP_ESTABLISHED then Some (tcp_established app r (tcp_acked r y))
     else if st = UIP_LAST_ACK then Some (tcp_last_ack app r (tcp_acked r y))
     else if st = UIP_FIN_WAIT_1 then Some (tcp_fin_wait_1 app r (tcp_acked r y))
     else if st = UIP_FIN_WAIT_2 then Some (tcp_fin_wait_2 app r (tcp_acked r y))
     else if st = UIP_TIME_WAIT then Some (tcp_send_ack r (tcp_acked r y))
     else if st = UIP_CLOSING then Some (tcp_closing r (tcp_acked r y))
     else Some (uip_drop (tcp_acked r y)))"
proof -
  have l: "54 \<le> length fr" "length fr < 65536" using assms(2) by (simp_all add: tcp_frame_def)
  have b: "poke 0 fr (u_buf s) ! 46 = fr ! 46" "poke 0 fr (u_buf s) ! 47 = fr ! 47"
    "slice 38 4 (poke 0 fr (u_buf s)) = slice 38 4 fr"
    using l assms(3) by (simp_all add: nth_poke_0 slice_poke_0)
  have n: "0 < (of_nat (length fr - 54) :: u16) \<longleftrightarrow> 54 < length fr"
    using l frame_length [of "length fr - 54"] by (auto simp: word_gt_0 word_unat_eq_iff simp del: of_nat_diff)
  have y: "(arrived fr s)\<lparr>u_conn := Some r, u_flags := 0, u_len := of_nat (length fr - 14) - push_bit 2 (ucast (drop_bit 4 (fr ! 46))) - 20\<rparr> = y"
    unfolding assms(5) data_length [OF l] by (simp add: y_def meets_def)
  have cond: "0 < u_len y \<longleftrightarrow> 54 < length fr" using n by (simp add: y_def del: of_nat_diff)
  have arr: "u_buf (arrived fr s) ! 46 = fr ! 46" "u_buf (arrived fr s) ! 47 = fr ! 47" "slice 38 4 (u_buf (arrived fr s)) = slice 38 4 fr"
    "u_conns (arrived fr s) = u_conns s" using b by simp_all
  have set: "(arrived fr s)\<lparr>u_conn := Some r, u_flags := 0\<rparr>\<lparr>u_len := u_len ((arrived fr s)\<lparr>u_conn := Some r, u_flags := 0\<rparr>) -
      push_bit 2 (ucast (drop_bit 4 (fr ! 46))) - 20\<rparr> = y"
    using y by (simp del: of_nat_diff)
  have upd: "u_buf ((arrived fr s)\<lparr>u_conn := Some r, u_flags := 0\<rparr>) = u_buf (arrived fr s)"
    "u_conns ((arrived fr s)\<lparr>u_conn := Some r, u_flags := 0\<rparr>) = u_conns (arrived fr s)" by simp_all
  have ts: "c_tcpstateflags (u_conns (tcp_acked r y) ! r) AND UIP_TS_MASK = st"
    by (simp add: tcp_acked_state y_def st_def)
  show ?thesis
    unfolding tcp_frame_arrives [OF assms(1-3)] tcp_demux_conn [OF l(1) assms(3,4)] tcp_found_def Let_def
      upd arr set cond ts assms(6) st_def [symmetric]
    using assms(7) by (simp add: st_def [symmetric])
qed

text \<open>What the acknowledgement of a segment leaves alone.\<close>

definition same_stream :: "uip_conn_t \<Rightarrow> uip_conn_t \<Rightarrow> bool" where
  "same_stream c c' \<longleftrightarrow> c_ripaddr c' = c_ripaddr c \<and> c_lport c' = c_lport c \<and> c_rport c' = c_rport c \<and> c_rcv_nxt c' = c_rcv_nxt c \<and>
    c_tcpstateflags c' = c_tcpstateflags c \<and> c_callback c' = c_callback c \<and> c_mss c' = c_mss c \<and> c_initialmss c' = c_initialmss c"

lemma rtt_estimate_same [simp]: "c_len (rtt_estimate c) = c_len c" "c_snd_nxt (rtt_estimate c) = c_snd_nxt c"
  "c_ripaddr (rtt_estimate c) = c_ripaddr c" "c_lport (rtt_estimate c) = c_lport c" "c_rport (rtt_estimate c) = c_rport c"
  "c_rcv_nxt (rtt_estimate c) = c_rcv_nxt c" "c_tcpstateflags (rtt_estimate c) = c_tcpstateflags c"
  "c_callback (rtt_estimate c) = c_callback c" "c_mss (rtt_estimate c) = c_mss c" "c_initialmss (rtt_estimate c) = c_initialmss c"
  by (simp_all add: rtt_estimate_def Let_def)

lemma tcp_acked_cases:
  obtains "tcp_acked r s = s"
  | c' where "tcp_acked r s = s\<lparr>u_conns := (u_conns s)[r := c'], u_flags := UIP_ACKDATA\<rparr>" "same_stream (u_conns s ! r) c'"
proof (cases "u_buf s ! 47 AND TCP_ACK \<noteq> 0 \<and> c_len (u_conns s ! r) \<noteq> 0 \<and>
    slice 42 4 (u_buf s) = uip_add32 (c_snd_nxt (u_conns s ! r)) (c_len (u_conns s ! r))")
  case True
  let ?c = "(u_conns s ! r)\<lparr>c_snd_nxt := uip_add32 (c_snd_nxt (u_conns s ! r)) (c_len (u_conns s ! r))\<rparr>"
  let ?d = "if c_nrtx (u_conns s ! r) = 0 then rtt_estimate ?c else ?c"
  have "tcp_acked r s = s\<lparr>u_conns := (u_conns s)[r := ?d\<lparr>c_timer := c_rto ?d, c_len := 0\<rparr>], u_flags := UIP_ACKDATA\<rparr>"
    using True by (cases "r < length (u_conns s)") (simp_all add: tcp_acked_def Let_def conn_update_def list_update_beyond)
  then show ?thesis using that(2) by (simp add: same_stream_def split: if_splits)
next
  case False
  then have "tcp_acked r s = s" by (auto simp: tcp_acked_def Let_def)
  then show ?thesis by (rule that(1))
qed

lemma tcp_acked_acks:
  assumes "r < length (u_conns s)" "u_buf s ! 47 AND TCP_ACK \<noteq> 0" "c_len (u_conns s ! r) \<noteq> 0"
    "slice 42 4 (u_buf s) = uip_add32 (c_snd_nxt (u_conns s ! r)) (c_len (u_conns s ! r))"
  obtains c' where "tcp_acked r s = s\<lparr>u_conns := (u_conns s)[r := c'], u_flags := UIP_ACKDATA\<rparr>" "same_stream (u_conns s ! r) c'"
    "c_len c' = 0" "c_snd_nxt c' = slice 42 4 (u_buf s)"
proof -
  let ?c = "(u_conns s ! r)\<lparr>c_snd_nxt := slice 42 4 (u_buf s)\<rparr>"
  let ?d = "if c_nrtx (u_conns s ! r) = 0 then rtt_estimate ?c else ?c"
  have "tcp_acked r s = s\<lparr>u_conns := (u_conns s)[r := ?d\<lparr>c_timer := c_rto ?d, c_len := 0\<rparr>], u_flags := UIP_ACKDATA\<rparr>"
    using assms by (simp add: tcp_acked_def Let_def conn_update_def)
  then show ?thesis using that by (simp add: same_stream_def split: if_splits)
qed

lemma ack_establishes:
  assumes wf: "uip_wf s" "tcp_frame (uip_hostaddr s) fr" "length fr = 54"
    and c: "conn_frame r fr (u_conns s)" "c_tcpstateflags (u_conns s ! r) = UIP_SYN_RCVD" "c_len (u_conns s ! r) = 1"
    and fr: "fr ! 46 = 0x50" "fr ! 47 = TCP_ACK" "slice 42 4 fr = uip_add32 (c_snd_nxt (u_conns s ! r)) 1"
  shows "\<exists>x. uip_process app UIP_DATA (receive fr s) = Some (appsend r (UIP_APPCALL app x)) \<and> u_flags x = UIP_CONNECTED \<and>
    u_conn x = Some r \<and> u_len x = 0 \<and> c_tcpstateflags (u_conns x ! r) = UIP_ESTABLISHED \<and> c_len (u_conns x ! r) = 0 \<and>
    c_snd_nxt (u_conns x ! r) = slice 42 4 fr \<and>
    c_rcv_nxt (u_conns x ! r) = c_rcv_nxt (u_conns s ! r) \<and> c_callback (u_conns x ! r) = c_callback (u_conns s ! r) \<and>
    c_mss (u_conns x ! r) = c_mss (u_conns s ! r) \<and> c_initialmss (u_conns x ! r) = c_initialmss (u_conns s ! r)"
proof -
  have l: "54 \<le> length fr" "length fr \<le> length (u_buf s)" using wf(3) wf_buf [OF wf(1)] by simp_all
  have r: "r < length (u_conns s)" using c(1) by (simp add: conn_frame_def)
  have bits: "TCP_ACK AND TCP_RST = 0" "TCP_ACK AND (TCP_SYN OR TCP_FIN) = 0" "TCP_ACK AND TCP_ACK \<noteq> 0"
    "UIP_SYN_RCVD AND UIP_TS_MASK = UIP_SYN_RCVD" "UIP_SYN_RCVD \<noteq> UIP_SYN_SENT" "UIP_ACKDATA AND UIP_ACKDATA \<noteq> 0"
    by code_simp+
  let ?y = "meets r fr s"
  have p: "uip_process app UIP_DATA (receive fr s) = Some (tcp_syn_rcvd app r (tcp_acked r ?y))"
    using segment_meets [OF wf(1,2) l(2) c(1) fr(1), of app] wf(3) bits by (simp add: fr(2) c(2))
  have y: "u_buf ?y ! 47 AND TCP_ACK \<noteq> 0" "slice 42 4 (u_buf ?y) = uip_add32 (c_snd_nxt (u_conns s ! r)) 1"
    "slice 42 4 (u_buf ?y) = slice 42 4 fr"
    using l bits fr by (simp_all add: nth_poke_0 slice_poke_0)
  obtain c' where c': "tcp_acked r ?y = ?y\<lparr>u_conns := (u_conns s)[r := c'], u_flags := UIP_ACKDATA\<rparr>" "same_stream (u_conns s ! r) c'"
    "c_len c' = 0" "c_snd_nxt c' = slice 42 4 fr"
    using tcp_acked_acks [of r ?y] r y c(3) by auto
  show ?thesis
    unfolding p c'(1) tcp_syn_rcvd_def Let_def
    using bits(6) r c' wf(3)
    by (intro exI [of _ "?y\<lparr>u_flags := UIP_CONNECTED,
          u_conns := (u_conns s)[r := c'\<lparr>c_tcpstateflags := UIP_ESTABLISHED, c_len := 0\<rparr>], u_slen := 0\<rparr>"])
       (simp add: conn_update_def same_stream_def)
qed

section \<open>Frames for the small stack\<close>

definition demo_syn :: "u8 list" where
  "demo_syn = [0, 0, 0, 0, 0, 0, 0, 0, 0, 0, 0, 0, 0, 0, 69, 0, 0, 44, 0, 0, 0, 0, 64, 6, 102, 202, 10, 0, 0, 2, 10, 0, 0, 1,
    3, 232, 0, 23, 0, 0, 1, 0, 0, 0, 0, 0, 96, 2, 3, 232, 128, 141, 0, 0, 2, 4, 0, 100]"

definition demo_ack :: "u8 list" where
  "demo_ack = [0, 0, 0, 0, 0, 0, 0, 0, 0, 0, 0, 0, 0, 0, 69, 0, 0, 40, 0, 0, 0, 0, 64, 6, 102, 206, 10, 0, 0, 2, 10, 0, 0, 1,
    3, 232, 0, 23, 0, 0, 1, 1, 0, 0, 0, 2, 80, 16, 3, 232, 146, 232, 0, 0]"

definition demo_bad_syn :: "u8 list" where
  "demo_bad_syn = [0, 0, 0, 0, 0, 0, 0, 0, 0, 0, 0, 0, 0, 0, 69, 0, 0, 44, 0, 0, 0, 0, 64, 6, 102, 202, 10, 0, 0, 2, 10, 0, 0, 1,
    3, 232, 0, 23, 0, 0, 1, 0, 0, 0, 0, 0, 96, 2, 3, 232, 123, 246, 0, 0, 1, 1, 5, 254]"

definition demo_syn_0 :: "u8 list" where
  "demo_syn_0 = [0, 0, 0, 0, 0, 0, 0, 0, 0, 0, 0, 0, 0, 0, 69, 0, 0, 44, 0, 0, 0, 0, 64, 6, 102, 202, 10, 0, 0, 2, 10, 0, 0, 1,
    3, 232, 0, 0, 0, 0, 1, 0, 0, 0, 0, 0, 96, 2, 3, 232, 128, 164, 0, 0, 2, 4, 0, 100]"

lemmas demo_frames = demo_syn_def demo_ack_def demo_bad_syn_def demo_syn_0_def

lemma demo_frames_ok:
  "tcp_frame [10, 0, 0, 1] demo_syn" "tcp_frame [10, 0, 0, 1] demo_ack" "tcp_frame [10, 0, 0, 1] demo_bad_syn"
  "tcp_frame [10, 0, 0, 1] demo_syn_0"
  by (simp_all add: tcp_frame_def demo_frames slice_def be16_def)

lemma demo_uip_parts:
  "uip_hostaddr (demo_uip f) = [10, 0, 0, 1]" "u_conns (demo_uip f) = [demo_conn, demo_conn]" "length (u_buf (demo_uip f)) = 200"
  "u_iss (demo_uip f) = [0, 0, 0, 1]" "unknown_peer fr [demo_conn, demo_conn]"
  "listen_index (htons 23) (demo_uip f) = Some 0" "listen_index 0 (demo_uip f) = Some 1"
  "free_conn [demo_conn, demo_conn] None [0..<length [demo_conn, demo_conn]] = Some 0"
  "u_listenports (demo_uip f) = [(htons 23, Some 0), (0, None)]"
proof -
  have "htons 23 \<noteq> 0" by code_simp
  then show "listen_index (htons 23) (demo_uip f) = Some 0" "listen_index 0 (demo_uip f) = Some 1"
    by (simp_all add: listen_index_def demo_uip_def upt_rec)
qed (simp_all add: uip_hostaddr_def demo_uip_def unknown_peer_def demo_conn_def UIP_CLOSED_def upt_rec)

lemma demo_frame_fields:
  "raw16 demo_syn 36 = htons 23" "raw16 demo_bad_syn 36 = htons 23" "raw16 demo_syn_0 36 = 0"
  "demo_syn ! 47 AND TCP_CTL = TCP_SYN" "demo_bad_syn ! 47 AND TCP_CTL = TCP_SYN" "demo_syn_0 ! 47 AND TCP_CTL = TCP_SYN"
  "demo_ack ! 47 = TCP_ACK" "uip_add32 [0, 0, 0, 1] 1 = [0, 0, 0, 2]"
  by code_simp+

lemma demo_frame_bytes:
  "length demo_syn = 58" "demo_syn ! 46 = 0x60" "slice 54 2 demo_syn = [2, 4]" "length demo_ack = 54" "demo_ack ! 46 = 0x50"
  "slice 26 12 demo_ack = slice 26 12 demo_syn" "slice 42 4 demo_ack = [0, 0, 0, 2]" "length demo_bad_syn = 58"
  "demo_bad_syn ! 46 = 0x60" "slice 54 4 demo_bad_syn = [1, 1, 5, 254]" "length demo_syn_0 = 58" "demo_syn_0 ! 46 = 0x60"
  "slice 54 2 demo_syn_0 = [2, 4]" "c_tcpstateflags demo_conn = UIP_CLOSED"
  by (simp_all add: demo_frames slice_def demo_conn_def UIP_CLOSED_def)

lemma unused_connection:
  assumes "\<exists>c \<in> set cs. c_tcpstateflags c = UIP_CLOSED" shows "\<exists>r. free_conn cs None [0..<length cs] = Some r"
proof -
  have "(\<exists>i \<in> set ks. c_tcpstateflags (cs ! i) = UIP_CLOSED) \<Longrightarrow> \<exists>r. free_conn cs found ks = Some r" for found ks
    by (induction cs found ks rule: free_conn.induct) auto
  moreover obtain i where "i < length cs" "c_tcpstateflags (cs ! i) = UIP_CLOSED"
    using assms by (auto simp: in_set_conv_nth)
  then have "\<exists>i \<in> set [0..<length cs]. c_tcpstateflags (cs ! i) = UIP_CLOSED" by (intro bexI [of _ i]) simp_all
  ultimately show ?thesis by blast
qed

lemma listen_index_ex: "port \<in> fst ` set (u_listenports s) \<Longrightarrow> \<exists>l. listen_index port s = Some l"
proof -
  assume "port \<in> fst ` set (u_listenports s)"
  then obtain l where "l < length (u_listenports s)" "fst (u_listenports s ! l) = port"
    by (auto simp: in_set_conv_nth)
  then have "listen_index port s \<noteq> None" by (auto simp: listen_index_def find_None_iff)
  then show ?thesis by auto
qed

lemma listen_index_fst: "listen_index port s = Some l \<Longrightarrow> fst (u_listenports s ! l) = port \<and> l < length (u_listenports s)"
  by (auto simp: listen_index_def find_Some_iff)

section \<open>Properties\<close>

text \<open>
  C0. A peer that opens a connection: its SYN for a listening port, with a segment size as its only
  option, takes a free connection and is answered by a SYN with the initial sequence number and the
  host's own segment size as its option, which acknowledges it, goes back to where it came from, and
  verifies; the acknowledgement of that SYN establishes the connection, and the callback the port was
  registered with is called with \<open>UIP_CONNECTED\<close>, with both sequence numbers behind the SYNs and
  the smaller of both segment sizes as the one to send with.
\<close>

theorem uip_three_way_handshake:
  assumes wf: "uip_wf s" "tcp_frame (uip_hostaddr s) syn" "length syn \<le> length (u_buf s)" "58 \<le> length syn"
    and syn: "unknown_peer syn (u_conns s)" "syn ! 47 AND TCP_CTL = TCP_SYN" "syn ! 46 = 0x60" "slice 54 2 syn = [2, 4]"
    and l: "listen_index (raw16 syn 36) s = Some l" "free_conn (u_conns s) None [0..<length (u_conns s)] = Some r"
    and ack: "tcp_frame (uip_hostaddr s) ack" "length ack = 54" "ack ! 46 = 0x50" "ack ! 47 = TCP_ACK"
      "slice 26 12 ack = slice 26 12 syn" "slice 42 4 ack = uip_add32 (u_iss s) 1"
  shows "\<exists>s1 x. uip_process app UIP_DATA (receive syn s) = Some s1 \<and>
    u_len s1 = 44 \<and> u_buf s1 ! 47 = TCP_SYN OR TCP_ACK \<and> slice 38 4 (u_buf s1) = u_iss s \<and>
    slice 42 4 (u_buf s1) = uip_add32 (slice 38 4 syn) 1 \<and> slice 34 2 (u_buf s1) = slice 36 2 syn \<and>
    slice 36 2 (u_buf s1) = slice 34 2 syn \<and> slice 30 4 (u_buf s1) = slice 26 4 syn \<and>
    u_buf s1 ! 46 = 0x60 \<and> slice 54 4 (u_buf s1) = [2, 4] @ be_bytes (UIP_TCP_MSS s) \<and>
    uip_tcpchksum s1 = 0xffff \<and> uip_ipchksum s1 = 0xffff \<and>
    uip_process app UIP_DATA (receive ack s1) = Some (appsend r (UIP_APPCALL app x)) \<and>
    u_flags x = UIP_CONNECTED \<and> u_conn x = Some r \<and> u_len x = 0 \<and>
    (let c = u_conns x ! r in c_tcpstateflags c = UIP_ESTABLISHED \<and> c_callback c = snd (u_listenports s ! l) \<and>
      c_snd_nxt c = uip_add32 (u_iss s) 1 \<and> c_rcv_nxt c = uip_add32 (slice 38 4 syn) 1 \<and> c_len c = 0 \<and>
      c_initialmss c = min (be16 (syn ! 56) (syn ! 57)) (UIP_TCP_MSS s) \<and> c_mss c = c_initialmss c)"
proof -
  have r: "r < length (u_conns s)" by (rule free_conn_bound [OF l(2)])
  obtain s1 where s1: "\<And>app. uip_process app UIP_DATA (receive syn s) = Some s1" "u_conns s1 = (u_conns s)[r := opened_conn r l syn s]" "uip_wf s1"
    "uip_hostaddr s1 = uip_hostaddr s" "u_len s1 = 44" "u_buf s1 ! 47 = TCP_SYN OR TCP_ACK" "slice 38 4 (u_buf s1) = u_iss s"
    "slice 42 4 (u_buf s1) = uip_add32 (slice 38 4 syn) 1" "slice 34 2 (u_buf s1) = slice 36 2 syn"
    "slice 36 2 (u_buf s1) = slice 34 2 syn" "slice 30 4 (u_buf s1) = slice 26 4 syn" "uip_tcpchksum s1 = 0xffff"
    "uip_ipchksum s1 = 0xffff" "u_buf s1 ! 46 = 0x60" "slice 54 4 (u_buf s1) = [2, 4] @ be_bytes (UIP_TCP_MSS s)"
    using syn_is_answered [OF wf syn l] by (elim exE conjE) (rule that; (assumption | simp))
  have eq: "slice 26 4 ack = slice 26 4 syn" "raw16 ack 36 = raw16 syn 36" "raw16 ack 34 = raw16 syn 34"
    using slice_12 [OF ack(5)] ack(2) wf(4) by simp_all
  have "conn_frame r ack (u_conns s1)"
    unfolding s1(2) conn_frame_def same_peer_def
    using r syn(1) eq by (auto simp: unknown_peer_def same_peer_def UIP_SYN_RCVD_def UIP_CLOSED_def)
  then show ?thesis
    using ack_establishes [OF s1(3), of ack r app] ack r s1 by (auto simp: Let_def)
qed

theorem uip_three_way_handshake_witness:
  "\<exists>s1 x. uip_process (\<lambda>f s. s) UIP_DATA (receive demo_syn (demo_uip [])) = Some s1 \<and>
    uip_process (\<lambda>f s. s) UIP_DATA (receive demo_ack s1) = Some (appsend 0 (UIP_APPCALL (\<lambda>f s. s) x)) \<and>
    c_tcpstateflags (u_conns x ! 0) = UIP_ESTABLISHED \<and> c_mss (u_conns x ! 0) = 100"
proof -
  note demo = demo_uip_wf demo_uip_parts demo_frames_ok demo_frame_fields demo_frame_bytes
  note hs = uip_three_way_handshake [where s = "demo_uip []" and syn = demo_syn and l = 0 and r = 0 and ack = demo_ack
      and app = "\<lambda>f s. s"]
  have m: "min (be16 (demo_syn ! 56) (demo_syn ! 57)) (UIP_TCP_MSS (demo_uip [])) = 100"
    by (simp add: UIP_TCP_MSS_def demo_uip_parts be16_def demo_syn_def)
  show ?thesis
    by (rule hs [THEN exE]) (simp_all add: demo, auto simp: Let_def m)
qed

text \<open>
  C13. One packet stops the controller: a SYN for any listening port whose options are two no-ops and
  an unknown one of length 254 makes the loop over the options run for ever, as the index of a byte
  wraps around to the first option.  No application is involved, and nothing has to be guessed.
\<close>

theorem uip_syn_options_hang:
  assumes "uip_wf s" "tcp_frame (uip_hostaddr s) syn" "length syn \<le> length (u_buf s)" "58 \<le> length syn"
    and "unknown_peer syn (u_conns s)" "\<exists>c \<in> set (u_conns s). c_tcpstateflags c = UIP_CLOSED"
    and "raw16 syn 36 \<in> fst ` set (u_listenports s)"
    and "syn ! 47 AND TCP_CTL = TCP_SYN" "syn ! 46 = 0x60" "slice 54 4 syn = [1, 1, kind, 254]" "kind \<notin> {0, 1, 2}"
  shows "uip_process app UIP_DATA (receive syn s) = None"
proof -
  obtain l where l: "listen_index (raw16 syn 36) s = Some l" using listen_index_ex [OF assms(7)] by blast
  obtain r where r: "free_conn (u_conns s) None [0..<length (u_conns s)] = Some r" using unused_connection [OF assms(6)] by blast
  let ?o = "opened r (snd (u_listenports s ! l)) (arrived syn s)"
  have nth: "syn ! (54 + i) = [1, 1, kind, 254] ! i" if "i < 4" for i
    using nth_slice [of 54 4 syn i] that assms(4,10) by simp
  have "u_buf ?o ! 46 = 0x60" "u_buf ?o ! 54 = 1" "u_buf ?o ! 55 = 1" "u_buf ?o ! 56 = kind" "u_buf ?o ! 57 = 254"
    using assms(3,4,9) nth [of 0] nth [of 1] nth [of 2] nth [of 3] by (simp_all add: nth_poke_0)
  moreover have "(0x50 :: u8) < 0x60 AND 0xf0" "(unat (0x60 :: u8) div 16 - 5) * 4 = 4" by code_simp+
  ultimately have "parse_mss r ?o = None"
    using mss_options_diverges [of 4 "u_buf ?o"] assms(11) by (simp add: parse_mss_def)
  then show ?thesis using syn_arrives [OF assms(1-3,5,8) l r] by simp
qed

theorem uip_syn_options_hang_witness: "uip_process (\<lambda>f s. s) UIP_DATA (receive demo_bad_syn (demo_uip [])) = None"
  by (rule uip_syn_options_hang [where kind = 5])
     (simp_all add: demo_uip_wf demo_uip_parts demo_frames_ok demo_frame_fields demo_frame_bytes)

text \<open>
  Port 0 is always open: while an entry of the table of listening ports is not used, a SYN for
  port 0, which nobody has asked to listen on, is answered and takes one of the few connections,
  with the callback that a removed registration has left there.
\<close>

theorem uip_port_0_is_open:
  assumes "uip_wf s" "tcp_frame (uip_hostaddr s) syn" "length syn \<le> length (u_buf s)" "58 \<le> length syn"
    and "unknown_peer syn (u_conns s)" "\<exists>c \<in> set (u_conns s). c_tcpstateflags c = UIP_CLOSED"
    and "syn ! 47 AND TCP_CTL = TCP_SYN" "syn ! 46 = 0x60" "slice 54 2 syn = [2, 4]"
    and "raw16 syn 36 = 0" "0 \<in> fst ` set (u_listenports s)"
  shows "\<exists>s1 r l. uip_process app UIP_DATA (receive syn s) = Some s1 \<and> u_buf s1 ! 47 = TCP_SYN OR TCP_ACK \<and> u_len s1 = 44 \<and>
    r < length (u_conns s1) \<and> c_tcpstateflags (u_conns s1 ! r) = UIP_SYN_RCVD \<and> c_lport (u_conns s1 ! r) = 0 \<and>
    l < length (u_listenports s) \<and> fst (u_listenports s ! l) = 0 \<and> c_callback (u_conns s1 ! r) = snd (u_listenports s ! l)"
proof -
  obtain l where l: "listen_index (raw16 syn 36) s = Some l" using listen_index_ex [OF assms(11)] assms(10) by auto
  obtain r where r: "free_conn (u_conns s) None [0..<length (u_conns s)] = Some r" using unused_connection [OF assms(6)] by blast
  note l' = listen_index_fst [OF l] and r' = free_conn_bound [OF r]
  obtain s1 where "\<And>app. uip_process app UIP_DATA (receive syn s) = Some s1" "u_conns s1 = (u_conns s)[r := opened_conn r l syn s]"
    "u_len s1 = 44" "u_buf s1 ! 47 = TCP_SYN OR TCP_ACK"
    using syn_is_answered [OF assms(1-5,7-9) l r] by (elim exE conjE) (rule that; (assumption | simp))
  then show ?thesis
    using r' l' assms(10) by (intro exI [of _ s1] exI [of _ r] exI [of _ l]) simp
qed

theorem uip_port_0_is_open_witness:
  "\<exists>s1 r. uip_process (\<lambda>f s. s) UIP_DATA (receive demo_syn_0 (demo_uip [])) = Some s1 \<and> c_lport (u_conns s1 ! r) = 0 \<and>
    c_tcpstateflags (u_conns s1 ! r) = UIP_SYN_RCVD"
  using uip_port_0_is_open [of "demo_uip []" demo_syn_0 "\<lambda>f s. s"]
  by (auto simp: demo_uip_wf demo_uip_parts demo_frames_ok demo_frame_fields demo_frame_bytes)

end
