(* ===== verification/Uip_Stream.thy ===== *)
theory Uip_Stream imports Uip_Open begin

text \<open>
  Receiving a stream: the stack as an implementation of a receiver that takes the segment expected
  next and no other, whatever the network loses, repeats, reorders or damages.
\<close>

section \<open>Sequence numbers\<close>

definition be32 :: "u8 list \<Rightarrow> u32" where
  "be32 a = of_nat (((unat (a ! 0) * 256 + unat (a ! 1)) * 256 + unat (a ! 2)) * 256 + unat (a ! 3))"

lemma byte_add: "unat (x + y :: u8) + (if x + y < y then 256 else 0) = unat x + unat y"
proof -
  have b: "unat x < 256" "unat y < 256" by (rule unat_u8_lt)+
  have s: "unat (x + y) = (unat x + unat y) mod 256" by (simp add: unat_word_ariths)
  show ?thesis
  proof (cases "unat x + unat y < 256")
    case True
    then show ?thesis by (simp add: s word_less_nat_alt)
  next
    case False
    moreover from this have "unat x + unat y - 256 < 256" using b by linarith
    ultimately have "unat (x + y) = unat x + unat y - 256" unfolding s by (simp only: not_less le_mod_geq mod_less)
    moreover have "unat x + unat y - 256 < unat y" using False b by linarith
    ultimately show ?thesis using False by (simp add: word_less_nat_alt)
  qed
qed

lemma byte_inc: "unat (x + 1 :: u8) + (if x + 1 = 0 then 256 else 0) = unat x + 1"
proof -
  have "x + 1 < 1 \<longleftrightarrow> x + 1 = 0" by (simp add: word_less_nat_alt word_unat_eq_iff)
  then show ?thesis using byte_add [of x 1] by simp
qed

lemma be32_add32:
  "be32 (uip_add32 a n) = be32 a + ucast n"
proof -
  define lo where "lo = (ucast n :: u8)"
  define hi where "hi = (ucast (drop_bit 8 n) :: u8)"
  have n: "unat n = 256 * unat hi + unat lo"
  proof -
    have "unat n div 256 < 256" using unat_u16_lt [of n] by linarith
    then show ?thesis
      by (simp add: lo_def hi_def unsigned_ucast_eq unsigned_drop_bit_eq drop_bit_nat_def take_bit_nat_def)
  qed
  let ?v = "\<lambda>a. ((unat (a ! 0) * 256 + unat (a ! 1)) * 256 + unat (a ! 2)) * 256 + unat (a ! 3 :: u8)"
  have "?v (uip_add32 a n) = ?v a + unat n \<or> ?v (uip_add32 a n) + 4294967296 = ?v a + unat n"
    unfolding n uip_add32_def Let_def lo_def [symmetric] hi_def [symmetric]
    using byte_add [of "a ! 3" lo] byte_add [of "a ! 2" hi] byte_inc [of "a ! 1"] byte_inc [of "a ! 0"]
      byte_inc [of "a ! 2 + hi"] byte_inc [of "a ! 1 + 1"]
      byte_inc [of "a ! 0 + 1"]
    by (auto split: if_splits)
  moreover have w: "(of_nat (?v a + unat n) :: u32) = be32 a + ucast n"
    by (simp only: be32_def of_nat_add of_nat_unat)
  moreover have "(of_nat (k + 4294967296) :: u32) = of_nat k" for k
    by (simp only: of_nat_add of_nat_numeral) simp
  ultimately show ?thesis unfolding be32_def [of "uip_add32 a n"] by metis
qed

lemma be32_inject:
  assumes "length a = 4" "length b = 4" "be32 a = be32 b" shows "a = b"
proof -
  let ?v = "\<lambda>a. ((unat (a ! 0) * 256 + unat (a ! 1)) * 256 + unat (a ! 2)) * 256 + unat (a ! 3 :: u8)"
  have lt: "?v a < 4294967296" for a :: "u8 list"
  proof -
    have step: "x * 256 + unat y < n * 256" if "x < n" for x n and y :: u8
      using that unat_u8_lt [of y] by linarith
    have "unat (a ! 0) < 256" by simp
    from step [OF step [OF step [OF this]]] show ?thesis by simp
  qed
  have "unat (be32 a) = ?v a" for a :: "u8 list"
    unfolding be32_def using lt [of a] by (simp add: unsigned_of_nat take_bit_nat_eq_self del: of_nat_add of_nat_mult)
  then have e: "?v a = ?v b" using assms(3) by metis
  have step: "x = x' \<and> y = y'" if "x * 256 + unat y = x' * 256 + unat y'" for x x' and y y' :: u8
  proof -
    have "(x * 256 + unat y) div 256 = x" "(x * 256 + unat y) mod 256 = unat y" for x and y :: u8 by simp_all
    then have "x = x'" "unat y = unat y'" using that by metis+
    then show ?thesis by (simp add: word_unat_eq_iff)
  qed
  from step [OF e] have e: "(unat (a ! 0) * 256 + unat (a ! 1)) * 256 + unat (a ! 2) = (unat (b ! 0) * 256 + unat (b ! 1)) * 256 + unat (b ! 2)"
    "a ! 3 = b ! 3" by simp_all
  from step [OF e(1)] have f: "unat (a ! 0) * 256 + unat (a ! 1) = unat (b ! 0) * 256 + unat (b ! 1)" "a ! 2 = b ! 2" by simp_all
  from step [OF f(1)] e(2) f(2) have "a ! 0 = b ! 0 \<and> a ! 1 = b ! 1 \<and> a ! 2 = b ! 2 \<and> a ! 3 = b ! 3"
    by (simp add: word_unat_eq_iff)
  then have "a ! i = b ! i" if "i < 4" for i
    using that by (auto simp: numeral_eq_Suc less_Suc_eq)
  then show ?thesis using assms(1,2) by (intro nth_equalityI) simp_all
qed

section \<open>What sending leaves alone\<close>

text \<open>Sending builds the packet and changes nothing an application or a connection can see.\<close>

definition kept :: "'z uip_state_scheme \<Rightarrow> 'z uip_state_scheme \<Rightarrow> bool" where
  "kept s s' \<longleftrightarrow> u_conns s' = u_conns s \<and> uip_state.more s' = uip_state.more s \<and> uip_hostaddr s' = uip_hostaddr s \<and>
    length (u_buf s') = length (u_buf s)"

lemma kept_state_trans: "kept s t \<Longrightarrow> kept t u \<Longrightarrow> kept s u"
  by (simp add: kept_def)

lemma kept_simps [simp]:
  "kept s s" "kept s (t\<lparr>u_len := v\<rparr>) = kept s t" "kept s (t\<lparr>u_slen := v\<rparr>) = kept s t" "kept s (t\<lparr>u_flags := w\<rparr>) = kept s t"
  "kept s (t\<lparr>u_appdata := n\<rparr>) = kept s t" "kept s (t\<lparr>u_ipid := v\<rparr>) = kept s t" "kept s (uip_put off d t) = kept s t"
  by (simp_all add: kept_def uip_hostaddr_def)

lemma kept_send [simp]:
  "kept s (uip_drop t) = kept s t" "kept s (ip_send_nolen t) = kept s t" "kept s (tcp_send_noconn t) = kept s t"
  by (simp_all add: uip_drop_def tcp_send_noconn_def ip_send_nolen_def uip_send_label_def Let_def)

lemma kept_tcp_send [simp]: "kept s (tcp_send r t) = kept s t"
  by (simp add: tcp_send_def Let_def)

lemma kept_tcp_sends [simp]:
  "kept s (tcp_send_noopts r t) = kept s t" "kept s (tcp_send_nodata r t) = kept s t" "kept s (tcp_send_ack r t) = kept s t"
  by (simp_all add: tcp_send_noopts_def tcp_send_nodata_def tcp_send_ack_def)

lemma kept_apprexmit [simp]: "kept s (apprexmit r t) = kept s t"
  by (simp add: apprexmit_def Let_def)

lemma appsend_quiet:
  assumes "u_slen t = 0" "u_flags t AND UIP_ABORT = 0" "u_flags t AND UIP_CLOSE = 0"
  shows "kept (conn_update r (\<lambda>c. c\<lparr>c_nrtx := 0\<rparr>) t) (appsend r t)"
  using assms by (simp add: appsend_def Let_def)

section \<open>An application that reads\<close>

record reader_state = uip_state +
  rd_data :: "u8 list"

text \<open>It takes the data it is called with, and sends nothing.\<close>

definition reader :: "nat \<Rightarrow> reader_state \<Rightarrow> reader_state" where
  "reader f s = (if u_flags s AND UIP_NEWDATA \<noteq> 0
     then s\<lparr>rd_data := rd_data s @ slice (u_appdata s) (unat (u_len s)) (u_buf s)\<rparr> else s)"

lemma app_wf_reader: "app_wf reader"
  by (simp add: app_wf_def reader_def uip_wf_def)

section \<open>A segment of a stream\<close>

definition offset_of :: "u32 \<Rightarrow> u8 list \<Rightarrow> nat" where
  "offset_of isn fr = unat (be32 (slice 38 4 fr) - isn)"

text \<open>A segment that carries a part of the stream \<open>D\<close>, whose first byte has the number \<open>isn\<close>.\<close>

definition stream_segment :: "u32 \<Rightarrow> u8 list \<Rightarrow> u8 list \<Rightarrow> bool" where
  "stream_segment isn D fr \<longleftrightarrow> fr ! 46 = 0x50 \<and> fr ! 47 AND (TCP_SYN OR TCP_FIN OR TCP_RST OR TCP_URG) = 0 \<and>
    offset_of isn fr + (length fr - 54) \<le> length D \<and> drop 54 fr = slice (offset_of isn fr) (length fr - 54) D"

text \<open>A damaged segment: one of its checksums does not verify.\<close>

definition damaged :: "u8 list \<Rightarrow> bool" where
  "damaged fr \<longleftrightarrow> 54 \<le> length fr \<and> length fr < 65536 \<and> fr ! 23 = 6 \<and>
    (\<not> 65535 dvd osum (slice 14 20 fr) \<or>
     be16 (fr ! 16) (fr ! 17) = of_nat (length fr - 14) \<and>
       \<not> 65535 dvd (length fr - 34 + 6 + osum (slice 26 8 fr) + osum (drop 34 fr)))"

lemma no_flags:
  assumes "f AND (TCP_SYN OR TCP_FIN OR TCP_RST OR TCP_URG) = 0"
  shows "f AND TCP_RST = 0" "f AND TCP_FIN = 0" "f AND TCP_URG = 0" "f AND (TCP_SYN OR TCP_FIN) = 0"
proof -
  have sub: "f AND m = 0" if "(TCP_SYN OR TCP_FIN OR TCP_RST OR TCP_URG) AND m = m" for m
  proof -
    have "f AND m = f AND ((TCP_SYN OR TCP_FIN OR TCP_RST OR TCP_URG) AND m)" using that by simp
    also have "\<dots> = 0" unfolding and.assoc [symmetric] assms by simp
    finally show ?thesis .
  qed
  show "f AND TCP_RST = 0" "f AND TCP_FIN = 0" "f AND TCP_URG = 0" "f AND (TCP_SYN OR TCP_FIN) = 0"
    by (rule sub, code_simp)+
qed

lemma damaged_is_dropped:
  assumes "uip_wf s" "damaged fr" "length fr \<le> length (u_buf s)"
  shows "\<exists>t. uip_process app UIP_DATA (receive fr s) = Some (uip_drop t) \<and> kept s t \<and> uip_wf t"
proof -
  note fr = assms(2) [unfolded damaged_def]
  let ?b = "poke 0 fr (u_buf s)" and ?n = "length fr - 34"
  define t where "t = (receive fr s)\<lparr>u_sappdata := 54, u_appdata := 54\<rparr>"
  define u where "u = t\<lparr>u_len := be16 (?b ! 16) (?b ! 17)\<rparr>"
  have k: "kept s t" "uip_wf t" "kept s u" "uip_wf u"
    using assms(1) by (simp_all add: t_def u_def receive_def kept_def uip_hostaddr_def uip_wf_def)
  have nth: "?b ! i = fr ! i" if "i < 54" for i using that fr assms(3) by (simp add: nth_poke)
  have b: "u_buf t = ?b" "u_buf u = ?b" by (simp_all add: t_def u_def receive_def)
  have tcp: "tcp_input app u = Some (uip_drop u)" if "uip_ipchksum u = 0xffff"
  proof -
    have "65535 dvd osum (slice 14 20 fr)"
      using that fr assms(3) by (simp add: uip_ipchksum_ffff b slice_poke_0)
    then have bad: "be16 (fr ! 16) (fr ! 17) = of_nat (length fr - 14)"
      "\<not> 65535 dvd (?n + 6 + osum (slice 26 8 fr) + osum (drop 34 fr))" using fr by auto
    have len: "length fr - 14 = 20 + ?n" "20 + ?n < 65536" "?n + unat (6 :: u8) < 65536" using fr by auto
    have l: "54 \<le> length fr" using fr by simp
    have s34: "slice 34 ?n ?b = drop 34 fr"
    proof -
      have "slice 34 ?n ?b = slice 34 ?n fr" by (rule slice_poke_0) (use l assms(3) in simp_all)
      then show ?thesis by (simp add: slice_def)
    qed
    have "be16 (u_buf u ! 16) (u_buf u ! 17) = of_nat (20 + ?n)"
      using bad(1) by (simp only: b nth [of 16] nth [of 17] len(1) [symmetric])
    moreover have "unat (6 :: u8) = 6" by simp
    moreover have "slice 26 8 ?b = slice 26 8 fr" using fr assms(3) by (simp add: slice_poke_0)
    ultimately have "uip_tcpchksum u = 0xffff \<longleftrightarrow> 65535 dvd (?n + 6 + osum (slice 26 8 fr) + osum (drop 34 fr))"
      using upper_layer_ffff [of u ?n 6] len(2,3) by (simp only: uip_tcpchksum_def b s34)
    then show ?thesis using bad(2) by (simp add: tcp_input_def)
  qed
  have p6: "?b ! 23 = 6" using fr by (simp add: nth)
  have "ip_input app t = Some (uip_drop t) \<or> ip_input app t = Some (uip_drop u)"
    unfolding ip_input_def Let_def b u_def [symmetric] p6
    using tcp by (simp add: u_def)
  then show ?thesis
    using k by (auto simp: uip_process_def t_def)
qed

section \<open>One segment\<close>

text \<open>A step that changes the connection \<open>r\<close> only, and keeps its peer and its state.\<close>

definition same_peer_conn :: "uip_conn_t \<Rightarrow> uip_conn_t \<Rightarrow> bool" where
  "same_peer_conn c c' \<longleftrightarrow> c_ripaddr c' = c_ripaddr c \<and> c_lport c' = c_lport c \<and> c_rport c' = c_rport c \<and>
    c_tcpstateflags c' = c_tcpstateflags c \<and> c_callback c' = c_callback c"

definition stays :: "nat \<Rightarrow> 'z uip_state_scheme \<Rightarrow> 'z uip_state_scheme \<Rightarrow> bool" where
  "stays r s s' \<longleftrightarrow> uip_hostaddr s' = uip_hostaddr s \<and> length (u_buf s') = length (u_buf s) \<and>
    (\<exists>c'. u_conns s' = (u_conns s)[r := c'] \<and> same_peer_conn (u_conns s ! r) c')"

lemma same_peer_conn_trans: "same_peer_conn a b \<Longrightarrow> same_peer_conn b c \<Longrightarrow> same_peer_conn a c"
  by (simp add: same_peer_conn_def)

lemma stays_refl: "stays r s s"
  by (auto simp: stays_def same_peer_conn_def intro!: exI [of _ "u_conns s ! r"])

lemma stays_trans: "stays r s t \<Longrightarrow> stays r t u \<Longrightarrow> stays r s u"
  by (cases "r < length (u_conns s)")
     (auto simp: stays_def list_update_beyond, metis same_peer_conn_trans)

lemma stays_kept: "stays r s t \<Longrightarrow> kept t u \<Longrightarrow> stays r s u"
  by (simp add: stays_def kept_def)

lemma stays_conn_update: "stays r s t \<Longrightarrow> (\<And>c. same_peer_conn c (f c)) \<Longrightarrow> stays r s (conn_update r f t)"
  by (erule stays_trans) (auto simp: stays_def conn_update_def uip_hostaddr_def)

lemma stays_length: "stays r s t \<Longrightarrow> length (u_conns t) = length (u_conns s)"
  by (auto simp: stays_def)

lemma stays_conn_frame: "stays r s t \<Longrightarrow> conn_frame r fr (u_conns s) \<Longrightarrow> conn_frame r fr (u_conns t)"
  by (auto simp: stays_def conn_frame_def same_peer_def same_peer_conn_def)

lemma tcp_acked_stays: "stays r s (tcp_acked r s)"
proof (cases rule: tcp_acked_cases [of r s])
  case (2 c')
  then show ?thesis by (auto simp: stays_def same_peer_conn_def same_stream_def uip_hostaddr_def)
qed (simp add: stays_refl)

lemma tcp_acked_rcv: "c_rcv_nxt (u_conns (tcp_acked r s) ! r) = c_rcv_nxt (u_conns s ! r)"
proof (cases rule: tcp_acked_cases [of r s])
  case (2 c')
  then show ?thesis by (cases "r < length (u_conns s)") (auto simp: same_stream_def list_update_beyond)
qed simp

lemma tcp_acked_fields:
  "u_buf (tcp_acked r s) = u_buf s" "u_len (tcp_acked r s) = u_len s" "u_conn (tcp_acked r s) = u_conn s"
  "u_appdata (tcp_acked r s) = u_appdata s" "uip_state.more (tcp_acked r s) = uip_state.more s"
  "u_flags (tcp_acked r s) = u_flags s \<or> u_flags (tcp_acked r s) = UIP_ACKDATA"
  by (cases rule: tcp_acked_cases [of r s]; simp)+

lemma rd_data_more: "uip_state.more s = uip_state.more t \<Longrightarrow> rd_data s = rd_data t"
  by (cases s; cases t) simp

lemma reader_reads:
  assumes "c_callback (u_conns z ! the (u_conn z)) \<noteq> None"
  shows "kept (z\<lparr>rd_data := d\<rparr>) ((UIP_APPCALL reader z)\<lparr>rd_data := d\<rparr>)"
    "rd_data (UIP_APPCALL reader z) = rd_data z @ (if u_flags z AND UIP_NEWDATA \<noteq> 0
       then slice (u_appdata z) (unat (u_len z)) (u_buf z) else [])"
    "u_flags (UIP_APPCALL reader z) = u_flags z" "u_slen (UIP_APPCALL reader z) = u_slen z"
    "u_conns (UIP_APPCALL reader z) = u_conns z" "uip_hostaddr (UIP_APPCALL reader z) = uip_hostaddr z"
    "length (u_buf (UIP_APPCALL reader z)) = length (u_buf z)"
  using assms by (auto simp: UIP_APPCALL_def reader_def kept_def uip_hostaddr_def)

lemma event_flags:
  assumes "w \<in> {UIP_ACKDATA, UIP_NEWDATA, UIP_ACKDATA OR UIP_NEWDATA}"
  shows "w AND UIP_ABORT = 0" "w AND UIP_CLOSE = 0" "w AND (UIP_NEWDATA OR UIP_ACKDATA) \<noteq> 0"
    "w AND UIP_NEWDATA \<noteq> 0 \<longleftrightarrow> w \<noteq> UIP_ACKDATA"
proof -
  have "\<forall>w \<in> {UIP_ACKDATA, UIP_NEWDATA, UIP_ACKDATA OR UIP_NEWDATA}. w AND UIP_ABORT = 0 \<and> w AND UIP_CLOSE = 0 \<and>
      w AND (UIP_NEWDATA OR UIP_ACKDATA) \<noteq> 0 \<and> (w AND UIP_NEWDATA \<noteq> 0 \<longleftrightarrow> w \<noteq> UIP_ACKDATA)"
    by code_simp
  then show "w AND UIP_ABORT = 0" "w AND UIP_CLOSE = 0" "w AND (UIP_NEWDATA OR UIP_ACKDATA) \<noteq> 0"
    "w AND UIP_NEWDATA \<noteq> 0 \<longleftrightarrow> w \<noteq> UIP_ACKDATA"
    using assms by blast+
qed

lemma appsend_reader:
  assumes "c_callback (u_conns z ! r) \<noteq> None" "u_conn z = Some r" "u_slen z = 0" "r < length (u_conns z)"
    and w: "u_flags z \<in> {UIP_ACKDATA, UIP_NEWDATA, UIP_ACKDATA OR UIP_NEWDATA}"
  defines "s' \<equiv> appsend r (UIP_APPCALL reader z)"
  shows "stays r z s'" "c_rcv_nxt (u_conns s' ! r) = c_rcv_nxt (u_conns z ! r)"
    "rd_data s' = rd_data z @ (if u_flags z = UIP_ACKDATA then [] else slice (u_appdata z) (unat (u_len z)) (u_buf z))"
proof -
  let ?a = "UIP_APPCALL reader z"
  let ?f = "\<lambda>c. c\<lparr>c_nrtx := 0\<rparr>"
  have cb: "c_callback (u_conns z ! the (u_conn z)) \<noteq> None" using assms(1,2) by simp
  note rd = reader_reads(2-7) [OF cb]
  have k: "kept (conn_update r ?f ?a) s'"
    unfolding s'_def by (rule appsend_quiet) (simp_all add: rd assms(3) event_flags [OF w])
  have "stays r z ?a" using rd by (auto simp: stays_def same_peer_conn_def intro!: exI [of _ "u_conns z ! r"])
  then have "stays r z (conn_update r ?f ?a)" by (rule stays_conn_update) (simp add: same_peer_conn_def)
  then show "stays r z s'" using k by (rule stays_kept)
  show "c_rcv_nxt (u_conns s' ! r) = c_rcv_nxt (u_conns z ! r)"
    using k assms(4) rd(4) by (simp add: kept_def conn_update_def)
  have "uip_state.more s' = uip_state.more ?a" using k by (simp add: kept_def)
  from rd_data_more [OF this] show "rd_data s' = rd_data z @ (if u_flags z = UIP_ACKDATA then []
      else slice (u_appdata z) (unat (u_len z)) (u_buf z))"
    using event_flags(4) [OF w] by (simp add: rd(1))
qed

lemma established_reads:
  assumes t: "r < length (u_conns t)" "u_conn t = Some r" "u_appdata t = 54" "u_len t = of_nat n" "n < 65536"
    and c: "c_tcpstateflags (u_conns t ! r) = UIP_ESTABLISHED" "c_callback (u_conns t ! r) \<noteq> None"
    and fl: "u_flags t = 0 \<or> u_flags t = UIP_ACKDATA" "u_buf t ! 47 AND TCP_FIN = 0" "u_buf t ! 47 AND TCP_URG = 0"
  defines "s' \<equiv> tcp_established reader r t"
  shows "stays r t s' \<and> rd_data s' = rd_data t @ slice 54 n (u_buf t) \<and>
    c_rcv_nxt (u_conns s' ! r) = (if n = 0 then c_rcv_nxt (u_conns t ! r) else uip_add32 (c_rcv_nxt (u_conns t ! r)) (of_nat n))"
proof -
  define f where "f = (\<lambda>c :: uip_conn_t. c\<lparr>c_rcv_nxt := uip_add32 (c_rcv_nxt c) (of_nat n)\<rparr>)"
  define m where "m = (let w = be16 (u_buf t ! 48) (u_buf t ! 49); i = c_initialmss (u_conns t ! r) in if i < w \<or> w = 0 then i else w)"
  define x where "x = (if n = 0 then t else conn_update r f (t\<lparr>u_flags := u_flags t OR UIP_NEWDATA\<rparr>))"
  define y where "y = conn_update r (\<lambda>c. c\<lparr>c_mss := m\<rparr>) x"
  define z where "z = y\<lparr>u_slen := 0\<rparr>"
  have stopped: "UIP_ESTABLISHED AND UIP_STOPPED = 0" by code_simp
  have n: "0 < u_len t \<longleftrightarrow> n \<noteq> 0" "unat (u_len t) = n"
    using t(4,5) frame_length [of n] by (simp_all add: word_gt_0 word_unat_eq_iff)
  have e: "s' = (if u_flags y AND (UIP_NEWDATA OR UIP_ACKDATA) \<noteq> 0 then appsend r (UIP_APPCALL reader z) else uip_drop y)"
    unfolding s'_def tcp_established_def Let_def z_def y_def x_def f_def m_def
    using fl(2,3) n(1) c(1) stopped t(1,2,4) by (simp add: uip_add_rcv_nxt_def)
  have x: "r < length (u_conns x)" "stays r t x" "c_callback (u_conns x ! r) \<noteq> None" "u_conn x = Some r" "u_buf x = u_buf t"
    "u_len x = u_len t" "u_appdata x = 54" "uip_state.more x = uip_state.more t" "u_flags x = (if n = 0 then u_flags t else u_flags t OR UIP_NEWDATA)"
    "c_rcv_nxt (u_conns x ! r) = (if n = 0 then c_rcv_nxt (u_conns t ! r) else uip_add32 (c_rcv_nxt (u_conns t ! r)) (of_nat n))"
  proof -
    have "stays r t (conn_update r f (t\<lparr>u_flags := u_flags t OR UIP_NEWDATA\<rparr>))"
      by (rule stays_conn_update) (simp_all add: f_def stays_def uip_hostaddr_def same_peer_conn_def exI [of _ "u_conns t ! r"])
    then show "stays r t x" by (simp add: x_def stays_refl)
  qed (use t c in \<open>simp_all add: x_def f_def conn_update_def\<close>)
  have sy: "stays r t y" unfolding y_def by (rule stays_conn_update [OF x(2)]) (simp add: same_peer_conn_def)
  have y: "r < length (u_conns y)" "c_callback (u_conns y ! r) \<noteq> None" "u_conn y = Some r" "u_buf y = u_buf t"
    "u_len y = u_len t" "u_appdata y = 54" "uip_state.more y = uip_state.more t" "u_flags y = u_flags x"
    "c_rcv_nxt (u_conns y ! r) = c_rcv_nxt (u_conns x ! r)"
    using x by (simp_all add: y_def)
  show ?thesis
  proof (cases "n = 0 \<and> u_flags t = 0")
    case True
    then have "s' = uip_drop y" using e y(8) x(9) by simp
    moreover have "kept y (uip_drop y)" by simp
    ultimately show ?thesis
      using True y(7,9) x(10) stays_kept [OF sy] rd_data_more [of s' t] by (simp add: kept_def slice_def)
  next
    case False
    then have w: "u_flags z \<in> {UIP_ACKDATA, UIP_NEWDATA, UIP_ACKDATA OR UIP_NEWDATA}" "u_flags z = UIP_ACKDATA \<longleftrightarrow> n = 0"
      using fl(1) y(8) x(9) by (auto simp: z_def UIP_ACKDATA_def UIP_NEWDATA_def)
    have "s' = appsend r (UIP_APPCALL reader z)" using e event_flags(3) [OF w(1)] by (simp add: z_def)
    moreover have zc: "c_callback (u_conns z ! r) \<noteq> None" "u_conn z = Some r" "u_slen z = 0" "r < length (u_conns z)"
      using y by (simp_all add: z_def)
    note ar = appsend_reader [OF zc w(1)]
    moreover have "stays r y z" using stays_refl [of r y] by (simp add: z_def stays_def uip_hostaddr_def)
    moreover have "rd_data z = rd_data t" using rd_data_more [of z t] y(7) by (simp add: z_def)
    ultimately show ?thesis
      using sy ar w(2) y x(10) n(2) by (auto simp: z_def slice_def intro: stays_trans)
  qed
qed

section \<open>Any sequence of segments\<close>

text \<open>
  The abstract receiver: it has the first \<open>k\<close> bytes, and takes a segment that is intact and starts there.
\<close>

definition rx_step :: "u32 \<Rightarrow> u8 list \<Rightarrow> nat \<Rightarrow> nat" where
  "rx_step isn fr k = (if \<not> damaged fr \<and> offset_of isn fr = k then k + (length fr - 54) else k)"

text \<open>What the network delivers for connection \<open>r\<close>: segments of the stream, in any order, or damaged ones.\<close>

definition stream_frame :: "u32 \<Rightarrow> u8 list \<Rightarrow> nat \<Rightarrow> 'z uip_state_scheme \<Rightarrow> u8 list \<Rightarrow> bool" where
  "stream_frame isn D r s fr \<longleftrightarrow> length fr \<le> length (u_buf s) \<and>
    (damaged fr \<or> tcp_frame (uip_hostaddr s) fr \<and> conn_frame r fr (u_conns s) \<and> stream_segment isn D fr)"

definition reading :: "u32 \<Rightarrow> u8 list \<Rightarrow> nat \<Rightarrow> nat \<Rightarrow> reader_state \<Rightarrow> bool" where
  "reading isn D r k s \<longleftrightarrow> uip_wf s \<and> r < length (u_conns s) \<and> c_tcpstateflags (u_conns s ! r) = UIP_ESTABLISHED \<and>
    c_callback (u_conns s ! r) \<noteq> None \<and> be32 (c_rcv_nxt (u_conns s ! r)) = isn + of_nat k \<and> k \<le> length D \<and> rd_data s = take k D"

lemma damaged_frame: "tcp_frame host fr \<Longrightarrow> \<not> damaged fr"
  unfolding tcp_frame_def damaged_def by blast

lemma ucast_of_nat_small: "n < 65536 \<Longrightarrow> (ucast (of_nat n :: u16) :: u32) = of_nat n"
  by (simp add: word_unat_eq_iff unat_ucast_up frame_length unsigned_of_nat take_bit_nat_eq_self del: of_nat_diff)

lemma stays_stream_frame: "stays r s t \<Longrightarrow> stream_frame isn D r s fr \<Longrightarrow> stream_frame isn D r t fr"
  using stays_conn_frame [of r s t fr] by (auto simp: stream_frame_def stays_def)

lemma reading_stays:
  assumes "reading isn D r k s" "stays r s t" "uip_wf t" "be32 (c_rcv_nxt (u_conns t ! r)) = isn + of_nat k'" "k' \<le> length D"
    "rd_data t = take k' D"
  shows "reading isn D r k' t"
  using assms by (auto simp: reading_def stays_def same_peer_conn_def)

lemma kept_reading:
  assumes "reading isn D r k s" "stays r s t" "uip_wf t" "rd_data t = rd_data s" "c_rcv_nxt (u_conns t ! r) = c_rcv_nxt (u_conns s ! r)"
  shows "reading isn D r k t"
  using assms reading_stays [OF assms(1-3), of k] by (simp add: reading_def)

lemma frame_step:
  assumes rd: "reading isn D r k s" and fr: "stream_frame isn D r s fr" and D: "length D < 2 ^ 32"
  shows "\<exists>s'. uip_process reader UIP_DATA (receive fr s) = Some s' \<and> stays r s s' \<and> reading isn D r (rx_step isn fr k) s'"
proof (cases "damaged fr")
  case True
  note s = rd [unfolded reading_def]
  obtain t where t: "uip_process reader UIP_DATA (receive fr s) = Some (uip_drop t)" "kept s t" "uip_wf t"
    using damaged_is_dropped [of s fr reader] True fr s by (auto simp: stream_frame_def)
  then have "stays r s (uip_drop t)" using stays_kept [OF stays_refl, of s "uip_drop t" r] by simp
  moreover have "rd_data (uip_drop t) = rd_data s" using t(2) rd_data_more [of "uip_drop t" s] by (simp add: kept_def)
  moreover have "u_conns (uip_drop t) = u_conns s" using t(2) by (simp add: kept_def uip_drop_def)
  ultimately show ?thesis using t kept_reading [OF rd] True by (simp add: rx_step_def)
next
  case False
  note s = rd [unfolded reading_def]
  have f: "length fr \<le> length (u_buf s)" "tcp_frame (uip_hostaddr s) fr" "conn_frame r fr (u_conns s)" "stream_segment isn D fr"
    using fr False by (auto simp: stream_frame_def)
  have l: "54 \<le> length fr" "length fr < 65536" using f(2) by (simp_all add: tcp_frame_def)
  note seg = f(4) [unfolded stream_segment_def]
  note flags = no_flags [of "fr ! 47"]
  let ?y = "meets r fr s" and ?n = "length fr - 54"
  have est: "UIP_ESTABLISHED AND UIP_TS_MASK = UIP_ESTABLISHED" "UIP_ESTABLISHED \<noteq> UIP_SYN_SENT" "UIP_ESTABLISHED \<noteq> UIP_SYN_RCVD"
    by code_simp+
  have p: "uip_process reader UIP_DATA (receive fr s) =
      Some (if 54 < length fr \<and> slice 38 4 fr \<noteq> c_rcv_nxt (u_conns s ! r) then tcp_send_ack r ?y
        else tcp_established reader r (tcp_acked r ?y))"
    using segment_meets [of s fr r reader] s f(1-3) seg flags est by simp
  have sy: "stays r s ?y" using stays_refl [of r s] f(1) by (simp add: stays_def)
  have seq: "slice 38 4 fr = c_rcv_nxt (u_conns s ! r) \<longleftrightarrow> offset_of isn fr = k"
  proof -
    have "length (slice 38 4 fr) = 4" "length (c_rcv_nxt (u_conns s ! r)) = 4"
      using l s uip_wf_conn [of s r] by (simp_all add: conn_wf_def)
    then have "slice 38 4 fr = c_rcv_nxt (u_conns s ! r) \<longleftrightarrow> be32 (slice 38 4 fr) - isn = of_nat k"
      using be32_inject s by (metis add_diff_cancel_left' diff_add_cancel add.commute)
    moreover have "unat (of_nat k :: u32) = k" using s D by (simp add: unsigned_of_nat take_bit_nat_eq_self)
    ultimately show ?thesis by (metis offset_of_def word_unat_eq_iff)
  qed
  show ?thesis
  proof (cases "54 < length fr \<and> slice 38 4 fr \<noteq> c_rcv_nxt (u_conns s ! r)")
    case True
    then have k: "rx_step isn fr k = k" using seq by (simp add: rx_step_def)
    have kp: "kept ?y (tcp_send_ack r ?y)" by simp
    have "rd_data (tcp_send_ack r ?y) = rd_data s"
      using kp rd_data_more [of "tcp_send_ack r ?y" s] by (simp add: kept_def)
    moreover have "u_conns (tcp_send_ack r ?y) = u_conns s" using kp by (simp add: kept_def)
    moreover have "uip_wf (tcp_send_ack r ?y)" using s by simp
    ultimately show ?thesis
      using p True kept_reading [OF rd stays_kept [OF sy kp]] stays_kept [OF sy kp] by (simp add: k)
  next
    case took: False
    let ?t = "tcp_acked r ?y" and ?s = "tcp_established reader r (tcp_acked r ?y)"
    have st: "stays r s ?t" by (rule stays_trans [OF sy tcp_acked_stays])
    have c: "c_tcpstateflags (u_conns ?t ! r) = UIP_ESTABLISHED" "c_callback (u_conns ?t ! r) \<noteq> None" "r < length (u_conns ?t)"
      using st s by (auto simp: stays_def same_peer_conn_def)
    have b: "poke 0 fr (u_buf s) ! 47 = fr ! 47" using l f(1) by (simp add: nth_poke_0)
    have "stays r ?t ?s \<and> rd_data ?s = rd_data ?t @ slice 54 ?n (u_buf ?t) \<and>
      c_rcv_nxt (u_conns ?s ! r) = (if ?n = 0 then c_rcv_nxt (u_conns ?t ! r) else uip_add32 (c_rcv_nxt (u_conns ?t ! r)) (of_nat ?n))"
      by (rule established_reads)
         (use c l tcp_acked_fields [of r ?y] seg flags b in \<open>simp_all del: of_nat_diff\<close>)
    moreover have "slice 54 ?n (u_buf ?t) = slice (offset_of isn fr) ?n D"
      using seg l f(1) by (simp add: tcp_acked_fields slice_poke_0) (simp add: slice_def)
    moreover have "rd_data ?t = take k D"
      using rd_data_more [of ?t s] s by (simp add: tcp_acked_fields)
    moreover have "c_rcv_nxt (u_conns ?t ! r) = c_rcv_nxt (u_conns s ! r)" by (simp add: tcp_acked_rcv)
    ultimately have r: "stays r ?t ?s" "rd_data ?s = take k D @ slice (offset_of isn fr) ?n D"
      "be32 (c_rcv_nxt (u_conns ?s ! r)) = isn + of_nat k + of_nat ?n"
      using s l ucast_of_nat_small [of ?n] by (auto simp: be32_add32 simp del: of_nat_diff)
    have wf: "uip_wf ?s" using uip_wf_states(1) [OF app_wf_reader, of ?t r] s by (simp add: uip_wf_tcp_acked)
    have "take k D @ slice (offset_of isn fr) ?n D = take (rx_step isn fr k) D" "rx_step isn fr k = k + ?n" "k + ?n \<le> length D"
      using took seq s seg False by (auto simp: rx_step_def slice_def take_add)
    then have "reading isn D r (rx_step isn fr k) ?s"
      using r wf by (intro reading_stays [OF rd stays_trans [OF st r(1)]]) simp_all
    then show ?thesis using p took stays_trans [OF st r(1)] by auto
  qed
qed

primrec receive_all :: "'z uip_app \<Rightarrow> u8 list list \<Rightarrow> 'z uip_state_scheme \<Rightarrow> 'z uip_state_scheme option" where
  "receive_all app [] s = Some s"
| "receive_all app (fr # frs) s = (case uip_process app UIP_DATA (receive fr s) of None \<Rightarrow> None | Some t \<Rightarrow> receive_all app frs t)"

lemma receive_all_reading:
  assumes "reading isn D r k s" "\<forall>fr \<in> set frs. stream_frame isn D r s fr" "length D < 2 ^ 32"
  shows "\<exists>s'. receive_all reader frs s = Some s' \<and> reading isn D r (fold (rx_step isn) frs k) s'"
  using assms(1,2)
proof (induction frs arbitrary: k s)
  case (Cons fr frs)
  obtain t where t: "uip_process reader UIP_DATA (receive fr s) = Some t" "stays r s t" "reading isn D r (rx_step isn fr k) t"
    using frame_step [OF Cons.prems(1) _ assms(3), of fr] Cons.prems(2) by auto
  have "\<forall>fr \<in> set frs. stream_frame isn D r t fr" using Cons.prems(2) stays_stream_frame [OF t(2)] by simp
  from Cons.IH [OF t(3) this] show ?case using t(1) by simp
qed simp

section \<open>A connection of the small stack\<close>

definition demo_open_conn :: uip_conn_t where
  "demo_open_conn = demo_conn\<lparr>c_ripaddr := [10, 0, 0, 2], c_lport := htons 23, c_rport := htons 1000, c_rcv_nxt := [0, 0, 1, 1],
     c_snd_nxt := [0, 0, 0, 2], c_mss := 100, c_initialmss := 100, c_tcpstateflags := UIP_ESTABLISHED, c_callback := Some 0\<rparr>"

definition demo_reader :: reader_state where
  "demo_reader = uip_state.extend ((demo_uip [])\<lparr>u_conns := [demo_open_conn]\<rparr>) \<lparr>rd_data = []\<rparr>"

text \<open>The segments of "Hi!", in two parts.\<close>

definition demo_seg_1 :: "u8 list" where
  "demo_seg_1 = [0, 0, 0, 0, 0, 0, 0, 0, 0, 0, 0, 0, 0, 0, 69, 0, 0, 42, 0, 0, 0, 0, 64, 6, 102, 204, 10, 0, 0, 2, 10, 0, 0, 1,
    3, 232, 0, 23, 0, 0, 1, 1, 0, 0, 0, 2, 80, 24, 3, 232, 74, 117, 0, 0, 72, 105]"

definition demo_seg_2 :: "u8 list" where
  "demo_seg_2 = [0, 0, 0, 0, 0, 0, 0, 0, 0, 0, 0, 0, 0, 0, 69, 0, 0, 41, 0, 0, 0, 0, 64, 6, 102, 205, 10, 0, 0, 2, 10, 0, 0, 1,
    3, 232, 0, 23, 0, 0, 1, 3, 0, 0, 0, 2, 80, 24, 3, 232, 113, 221, 0, 0, 33]"

definition demo_seg_bad :: "u8 list" where
  "demo_seg_bad = demo_seg_2[54 := 34]"

lemmas demo_segs = demo_seg_1_def demo_seg_2_def demo_seg_bad_def

lemma demo_reader_parts:
  "uip_wf demo_reader" "u_conns demo_reader = [demo_open_conn]" "uip_hostaddr demo_reader = [10, 0, 0, 1]"
  "length (u_buf demo_reader) = 200" "rd_data demo_reader = []"
proof -
  note ext = demo_reader_def uip_state.defs
  show "u_conns demo_reader = [demo_open_conn]" "rd_data demo_reader = []" by (simp_all add: ext)
  show "uip_hostaddr demo_reader = [10, 0, 0, 1]" "length (u_buf demo_reader) = 200"
    by (simp_all add: ext uip_hostaddr_def demo_uip_def)
  show "uip_wf demo_reader"
    using demo_uip_wf [of "[]"] by (simp add: ext uip_wf_def) (simp add: demo_open_conn_def conn_wf_def demo_conn_def)
qed

lemma demo_segs_ok:
  "tcp_frame [10, 0, 0, 1] demo_seg_1" "tcp_frame [10, 0, 0, 1] demo_seg_2" "damaged demo_seg_bad"
  by (simp_all add: tcp_frame_def damaged_def demo_segs slice_def be16_def)

lemma demo_segs_peer:
  "same_peer demo_seg_1 demo_open_conn" "same_peer demo_seg_2 demo_open_conn" "UIP_ESTABLISHED \<noteq> UIP_CLOSED"
  "offset_of 0x101 demo_seg_1 = 0" "offset_of 0x101 demo_seg_2 = 2"
  by code_simp+

lemma demo_segs_frames:
  assumes "fr \<in> {demo_seg_1, demo_seg_2, demo_seg_bad}"
  shows "stream_frame 0x101 [72, 105, 33] 0 demo_reader fr"
proof -
  have "c_tcpstateflags demo_open_conn = UIP_ESTABLISHED" by (simp add: demo_open_conn_def)
  then have "conn_frame 0 demo_seg_1 [demo_open_conn]" "conn_frame 0 demo_seg_2 [demo_open_conn]"
    using demo_segs_peer by (simp_all add: conn_frame_def)
  moreover have "stream_segment 0x101 [72, 105, 33] demo_seg_1" "stream_segment 0x101 [72, 105, 33] demo_seg_2"
    using demo_segs_peer by (simp_all add: stream_segment_def) (simp_all add: demo_segs slice_def TCP_SYN_def TCP_FIN_def TCP_RST_def TCP_URG_def)
  moreover have "length demo_seg_1 = 56" "length demo_seg_2 = 55" "length demo_seg_bad = 55" by (simp_all add: demo_segs)
  ultimately show ?thesis
    using assms demo_segs_ok by (auto simp: stream_frame_def demo_reader_parts)
qed

section \<open>Properties\<close>

text \<open>
  C2. The stack receives a stream as the abstract receiver does: whatever sequence of segments of a
  peer's stream the network delivers, with losses, repetitions, any order and damaged segments
  among them, the application of an established connection has read exactly the prefix that the
  receiver has taken which accepts an intact segment if and only if it starts where the last one
  ended; nothing else is passed on, and the number acknowledged is the end of that prefix.
\<close>

theorem uip_receives_stream:
  assumes "uip_wf s" "r < length (u_conns s)" "c_tcpstateflags (u_conns s ! r) = UIP_ESTABLISHED"
    and "c_callback (u_conns s ! r) \<noteq> None" "be32 (c_rcv_nxt (u_conns s ! r)) = isn" "rd_data s = []"
    and "length D < 2 ^ 32" "\<forall>fr \<in> set frs. stream_frame isn D r s fr"
  defines "k \<equiv> fold (rx_step isn) frs 0"
  shows "\<exists>s'. receive_all reader frs s = Some s' \<and> rd_data s' = take k D \<and> k \<le> length D \<and>
    be32 (c_rcv_nxt (u_conns s' ! r)) = isn + of_nat k \<and> c_tcpstateflags (u_conns s' ! r) = UIP_ESTABLISHED"
proof -
  have "reading isn D r 0 s" using assms(1-6) by (simp add: reading_def)
  from receive_all_reading [OF this assms(8,7)] show ?thesis by (auto simp: reading_def k_def)
qed

text \<open>The second segment comes first, then the first one twice, the second damaged, and intact again.\<close>

theorem uip_receives_stream_witness:
  "\<exists>s'. receive_all reader [demo_seg_2, demo_seg_1, demo_seg_1, demo_seg_bad, demo_seg_2] demo_reader = Some s' \<and>
    rd_data s' = [72, 105, 33]"
proof -
  have ok: "\<not> damaged demo_seg_1" "\<not> damaged demo_seg_2" using demo_segs_ok damaged_frame by blast+
  have "fold (rx_step 0x101) [demo_seg_2, demo_seg_1, demo_seg_1, demo_seg_bad, demo_seg_2] 0 = 3"
    using ok demo_segs_ok(3) demo_segs_peer(4,5) by (simp add: rx_step_def) (simp add: demo_segs)
  moreover have "be32 [0, 0, 1, 1] = 0x101" by code_simp
  ultimately show ?thesis
    using uip_receives_stream [of demo_reader 0 "0x101" "[72, 105, 33]" "[demo_seg_2, demo_seg_1, demo_seg_1, demo_seg_bad, demo_seg_2]"]
      demo_segs_frames
    by (auto simp: demo_reader_parts demo_open_conn_def)
qed

end
