(* ===== verification/Uip_Timer.thy ===== *)
theory Uip_Timer imports Uip_Stream begin

text \<open>The timer of a connection whose peer has fallen silent, and the urgent pointer.\<close>

section \<open>Ticks\<close>

lemma kept_resends [simp]:
  "kept s (tcp_send_finack r t) = kept s t" "kept s (tcp_send_syn r t) = kept s t" "kept s (tcp_send_synack r t) = kept s t"
  by (simp_all add: tcp_send_finack_def tcp_send_syn_def tcp_send_synack_def Let_def)

primrec ticks :: "'z uip_app \<Rightarrow> nat \<Rightarrow> nat \<Rightarrow> 'z uip_state_scheme \<Rightarrow> 'z uip_state_scheme option" where
  "ticks app r 0 s = Some s"
| "ticks app r (Suc n) s = Option.bind (uip_periodic app r s) (ticks app r n)"

text \<open>How often a segment is sent again, and the ticks that are left to the connection.\<close>

definition rtx_limit :: "uip_conn_t \<Rightarrow> nat" where
  "rtx_limit c = (if c_tcpstateflags c = UIP_SYN_SENT \<or> c_tcpstateflags c = UIP_SYN_RCVD then 5 else 8)"

definition ticks_left :: "uip_conn_t \<Rightarrow> nat" where
  "ticks_left c = unat (c_timer c) + 1 + (\<Sum>j = unat (c_nrtx c)..<rtx_limit c. 3 * 2 ^ min j 4 + 1)"

definition waiting :: "uip_conn_t \<Rightarrow> bool" where
  "waiting c \<longleftrightarrow> c_len c \<noteq> 0 \<and> c_tcpstateflags c \<notin> {UIP_CLOSED, UIP_TIME_WAIT, UIP_FIN_WAIT_2} \<and> unat (c_nrtx c) \<le> rtx_limit c"

text \<open>An application that leaves the connections alone.\<close>

definition app_leaves_conns :: "'z uip_app \<Rightarrow> bool" where
  "app_leaves_conns app \<longleftrightarrow> (\<forall>f s. u_conns (app f s) = u_conns s)"

lemma appcall_conns: "app_leaves_conns app \<Longrightarrow> u_conns (UIP_APPCALL app s) = u_conns s"
  by (simp add: app_leaves_conns_def UIP_APPCALL_def split: option.splits)

lemma kept_conns: "kept s t \<Longrightarrow> u_conns t = u_conns s"
  by (simp add: kept_def)

lemma resend_conns:
  "u_conns (tcp_send_finack r t) = u_conns t" "u_conns (tcp_send_synack r t) = u_conns t" "u_conns (tcp_send_syn r t) = u_conns t"
  "u_conns (tcp_send_nodata r t) = u_conns t" "u_conns (apprexmit r t) = u_conns t" "u_conns (uip_drop t) = u_conns t"
  by (rule kept_conns, simp)+

definition timer_state :: "nat \<Rightarrow> 'z uip_state_scheme \<Rightarrow> 'z uip_state_scheme" where
  "timer_state r s = s\<lparr>u_conn := Some r, u_sappdata := 54, u_appdata := 54, u_iss := increment4 (u_iss s), u_len := 0, u_slen := 0\<rparr>"

lemma uip_periodic_timer:
  "uip_periodic app r s = Some (uip_timer app r (s\<lparr>u_conn := Some r, u_sappdata := 54, u_appdata := 54\<rparr>))"
  by (simp add: uip_periodic_def uip_process_def Let_def)

text \<open>One tick: the timer counts down; at zero the segment is sent again, until the limit.\<close>

lemma tick_counts:
  assumes "waiting (u_conns s ! r)" "c_timer (u_conns s ! r) \<noteq> 0" "r < length (u_conns s)"
  shows "\<exists>t. uip_periodic app r s = Some t \<and> u_conns t = (u_conns s)[r := (u_conns s ! r)\<lparr>c_timer := c_timer (u_conns s ! r) - 1\<rparr>]"
  using assms
  by (simp add: uip_periodic_timer uip_timer_def Let_def waiting_def resend_conns) (simp add: conn_update_def)

lemma tick_resends:
  assumes "waiting (u_conns s ! r)" "c_timer (u_conns s ! r) = 0" "r < length (u_conns s)" "app_leaves_conns app"
    "unat (c_nrtx (u_conns s ! r)) < rtx_limit (u_conns s ! r)"
  shows "\<exists>t. uip_periodic app r s = Some t \<and> u_conns t = (u_conns s)[r := (u_conns s ! r)\<lparr>
    c_timer := push_bit (min (unat (c_nrtx (u_conns s ! r))) 4) UIP_RTO, c_nrtx := c_nrtx (u_conns s ! r) + 1\<rparr>]"
proof -
  let ?c = "u_conns s ! r"
  have lim: "\<not> (c_nrtx ?c = UIP_MAXRTX \<or> (c_tcpstateflags ?c = UIP_SYN_SENT \<or> c_tcpstateflags ?c = UIP_SYN_RCVD) \<and> c_nrtx ?c = UIP_MAXSYNRTX)"
    using assms(5) by (auto simp: rtx_limit_def UIP_MAXRTX_def UIP_MAXSYNRTX_def split: if_splits)
  have sh: "min (unat (c_nrtx ?c)) 4 = (if 4 < c_nrtx ?c then 4 else unat (c_nrtx ?c))"
    by (simp add: word_less_nat_alt min_def)
  define t0 where "t0 = conn_update r (\<lambda>c. c\<lparr>c_timer := c_timer c - 1\<rparr>)
    (s\<lparr>u_conn := Some r, u_sappdata := 54, u_appdata := 54, u_iss := increment4 (u_iss s), u_len := 0, u_slen := 0\<rparr>)"
  define t1 where "t1 = conn_update r (\<lambda>c. c\<lparr>c_timer := push_bit (if 4 < c_nrtx c then 4 else unat (c_nrtx c)) UIP_RTO, c_nrtx := c_nrtx c + 1\<rparr>) t0"
  have c0: "u_conns t0 ! r = ?c\<lparr>c_timer := c_timer ?c - 1\<rparr>" using assms(3) by (simp add: t0_def)
  have lim': "\<not> (c_nrtx (u_conns t0 ! r) = UIP_MAXRTX \<or> (c_tcpstateflags (u_conns t0 ! r) = UIP_SYN_SENT \<or>
      c_tcpstateflags (u_conns t0 ! r) = UIP_SYN_RCVD) \<and> c_nrtx (u_conns t0 ! r) = UIP_MAXSYNRTX)"
    using lim by (simp only: c0 uip_conn_t.simps) simp
  have c1: "u_conns t1 = (u_conns s)[r := ?c\<lparr>c_timer := push_bit (min (unat (c_nrtx ?c)) 4) UIP_RTO, c_nrtx := c_nrtx ?c + 1\<rparr>]"
    using assms(3) unfolding sh by (cases "4 < c_nrtx ?c") (simp_all add: t1_def t0_def conn_update_def)
  have "uip_periodic app r s = Some (uip_rexmit app r t0)"
    using assms by (simp add: uip_periodic_timer uip_timer_def Let_def waiting_def t0_def)
  moreover have "u_conns (uip_rexmit app r t0) = u_conns t1"
    unfolding uip_rexmit_def Let_def t1_def [symmetric] if_not_P [OF lim']
    by (simp add: resend_conns appcall_conns [OF assms(4)])
  ultimately show ?thesis using c1 by simp
qed

lemma tick_gives_up:
  assumes "waiting (u_conns s ! r)" "c_timer (u_conns s ! r) = 0" "r < length (u_conns s)" "app_leaves_conns app"
    "unat (c_nrtx (u_conns s ! r)) = rtx_limit (u_conns s ! r)" "app_wf app" "uip_wf s"
  shows "\<exists>t. uip_periodic app r s = Some t \<and> c_tcpstateflags (u_conns t ! r) = UIP_CLOSED \<and> u_len t = 40 \<and>
    u_buf t ! 47 = TCP_RST OR TCP_ACK"
proof -
  let ?c = "u_conns s ! r"
  have lim: "c_nrtx ?c = UIP_MAXRTX \<or> (c_tcpstateflags ?c = UIP_SYN_SENT \<or> c_tcpstateflags ?c = UIP_SYN_RCVD) \<and> c_nrtx ?c = UIP_MAXSYNRTX"
    using assms(5) by (auto simp: rtx_limit_def UIP_MAXRTX_def UIP_MAXSYNRTX_def word_unat_eq_iff split: if_splits)
  define t0 where "t0 = conn_update r (\<lambda>c. c\<lparr>c_timer := c_timer c - 1\<rparr>)
    (s\<lparr>u_conn := Some r, u_sappdata := 54, u_appdata := 54, u_iss := increment4 (u_iss s), u_len := 0, u_slen := 0\<rparr>)"
  define t1 where "t1 = UIP_APPCALL app ((conn_update r (\<lambda>c. c\<lparr>c_tcpstateflags := UIP_CLOSED\<rparr>) t0)\<lparr>u_flags := UIP_TIMEDOUT\<rparr>)"
  define t2 where "t2 = uip_put 46 [0x50] (uip_put 47 [TCP_RST OR TCP_ACK] t1)\<lparr>u_len := 40\<rparr>"
  have c0: "u_conns t0 ! r = ?c\<lparr>c_timer := c_timer ?c - 1\<rparr>" using assms(3) by (simp add: t0_def)
  have w0: "uip_wf t0" using assms(7) by (simp add: t0_def uip_wf_conn_update)
  then have w1: "uip_wf t1" using assms(6) by (simp add: t1_def wf_intros)
  have cs: "u_conns t1 = u_conns (conn_update r (\<lambda>c. c\<lparr>c_tcpstateflags := UIP_CLOSED\<rparr>) t0)"
    by (simp add: t1_def appcall_conns [OF assms(4)])
  have "uip_periodic app r s = Some (uip_rexmit app r t0)"
    using assms by (simp add: uip_periodic_timer uip_timer_def Let_def waiting_def t0_def)
  moreover have "uip_rexmit app r t0 = tcp_send_nodata r (uip_put 47 [TCP_RST OR TCP_ACK] t1)"
    unfolding uip_rexmit_def Let_def c0 t1_def using lim by simp
  moreover have "tcp_send_nodata r (uip_put 47 [TCP_RST OR TCP_ACK] t1) =
      tcp_send r (uip_put 46 [0x50] ((uip_put 47 [TCP_RST OR TCP_ACK] t1)\<lparr>u_len := 40\<rparr>))"
    by (simp add: tcp_send_nodata_def tcp_send_noopts_def)
  moreover have "r < length (u_conns t1)" using cs assms(3) by (simp add: t0_def)
  ultimately show ?thesis
    using tcp_send_frame [of "uip_put 46 [0x50] ((uip_put 47 [TCP_RST OR TCP_ACK] t1)\<lparr>u_len := 40\<rparr>)" r] w1 wf_buf [OF w1] cs assms(3)
    by (simp add: nth_poke t0_def del: poke.simps)
qed

lemma ticks_left_pos: "0 < ticks_left c"
  by (simp add: ticks_left_def)

lemma unat_timeouts: "k \<le> 4 \<Longrightarrow> unat (push_bit k UIP_RTO) = 3 * 2 ^ k"
proof -
  have "\<forall>k \<in> set [0..<5]. unat (push_bit k UIP_RTO) = 3 * 2 ^ k" by code_simp
  then show "k \<le> 4 \<Longrightarrow> unat (push_bit k UIP_RTO) = 3 * 2 ^ k" by simp
qed

lemma waiting_tick:
  assumes "waiting (u_conns s ! r)" "r < length (u_conns s)" "app_leaves_conns app" "app_wf app" "uip_wf s"
    and more: "ticks_left (u_conns s ! r) = Suc (Suc n)"
  shows "\<exists>t. uip_periodic app r s = Some t \<and> waiting (u_conns t ! r) \<and> length (u_conns t) = length (u_conns s) \<and> uip_wf t \<and>
    ticks_left (u_conns t ! r) = Suc n \<and> c_tcpstateflags (u_conns t ! r) = c_tcpstateflags (u_conns s ! r)"
proof -
  let ?c = "u_conns s ! r"
  have wf: "uip_wf t" if "uip_periodic app r s = Some t" for t
    using that uip_process_ok [OF assms(4), of "s\<lparr>u_conn := Some r\<rparr>" UIP_TIMER t] assms(5) by (simp add: uip_periodic_def)
  show ?thesis
  proof (cases "c_timer ?c = 0")
    case False
    then have "unat (c_timer ?c - 1) = unat (c_timer ?c) - 1" "0 < unat (c_timer ?c)"
      by (simp_all add: unat_minus_one unat_gt_0)
    then show ?thesis
      using tick_counts [OF assms(1) False assms(2), of app] wf assms(1,2) more
      by (auto simp: waiting_def ticks_left_def rtx_limit_def)
  next
    case True
    have n: "unat (c_nrtx ?c) < rtx_limit ?c"
    proof (rule ccontr)
      assume "\<not> unat (c_nrtx ?c) < rtx_limit ?c"
      then have "ticks_left ?c = 1" using True by (simp add: ticks_left_def)
      then show False using more by simp
    qed
    let ?k = "unat (c_nrtx ?c)"
    have "rtx_limit ?c \<le> 8" by (simp add: rtx_limit_def)
    then have k: "unat (c_nrtx ?c + 1) = ?k + 1" using n by (subst unat_inc_small) simp_all
    have "(\<Sum>j = ?k..<rtx_limit ?c. 3 * 2 ^ min j 4 + 1) = (3 * 2 ^ min ?k 4 + 1) + (\<Sum>j = Suc ?k..<rtx_limit ?c. 3 * 2 ^ min j 4 + (1 :: nat))"
      using n by (simp add: sum.atLeast_Suc_lessThan)
    then show ?thesis
      using tick_resends [OF assms(1) True assms(2,3) n] wf assms(1,2) more n k True unat_timeouts [of "min ?k 4"]
      by (auto simp: waiting_def ticks_left_def rtx_limit_def)
  qed
qed

lemma waiting_ticks:
  assumes "app_leaves_conns app" "app_wf app"
    and "waiting (u_conns s ! r)" "r < length (u_conns s)" "uip_wf s" "ticks_left (u_conns s ! r) = Suc n"
  shows "(\<forall>m \<le> n. \<exists>t. ticks app r m s = Some t \<and> c_tcpstateflags (u_conns t ! r) = c_tcpstateflags (u_conns s ! r)) \<and>
    (\<exists>t. ticks app r (Suc n) s = Some t \<and> c_tcpstateflags (u_conns t ! r) = UIP_CLOSED \<and> u_len t = 40 \<and> u_buf t ! 47 = TCP_RST OR TCP_ACK)"
  using assms(3-6)
proof (induction n arbitrary: s)
  case 0
  then have "c_timer (u_conns s ! r) = 0" "(\<Sum>j = unat (c_nrtx (u_conns s ! r))..<rtx_limit (u_conns s ! r). 3 * 2 ^ min j 4 + 1) = (0 :: nat)"
    by (simp_all add: ticks_left_def unat_eq_zero)
  moreover from this(2) have "unat (c_nrtx (u_conns s ! r)) = rtx_limit (u_conns s ! r)"
    using 0(1) by (simp add: waiting_def) (metis atLeastLessThan_iff le_antisym linorder_not_less order_refl)
  ultimately show ?case using tick_gives_up [of s r app] 0 assms by auto
next
  case (Suc n)
  from waiting_tick [OF Suc.prems(1,2) assms(1,2) Suc.prems(3,4)]
  obtain t where t: "uip_periodic app r s = Some t" "waiting (u_conns t ! r)" "length (u_conns t) = length (u_conns s)" "uip_wf t"
    "ticks_left (u_conns t ! r) = Suc n" "c_tcpstateflags (u_conns t ! r) = c_tcpstateflags (u_conns s ! r)" by auto
  note IH = Suc.IH [OF t(2) _ t(4,5)]
  have "\<exists>u. ticks app r m s = Some u \<and> c_tcpstateflags (u_conns u ! r) = c_tcpstateflags (u_conns s ! r)" if "m \<le> Suc n" for m
    using that IH t Suc.prems(2) by (cases m) auto
  moreover have "ticks app r (Suc (Suc n)) s = ticks app r (Suc n) t" using t(1) by (simp only: ticks.simps bind.bind_lunit)
  ultimately show ?case using IH t Suc.prems(2) by simp
qed

lemma ticks_left_bound: "ticks_left c \<le> unat (c_timer c) + 246"
proof -
  have "(\<Sum>j = unat (c_nrtx c)..<rtx_limit c. 3 * 2 ^ min j 4 + 1) \<le> (\<Sum>j = 0..<8. 3 * 2 ^ min j 4 + (1 :: nat))"
    by (rule sum_mono2) (auto simp: rtx_limit_def)
  also have "\<dots> = 245" by (simp add: numeral_eq_Suc)
  finally show ?thesis by (simp add: ticks_left_def)
qed

section \<open>An urgent segment\<close>

lemma established_urgent:
  assumes t: "r < length (u_conns t)" "u_conn t = Some r" "c_tcpstateflags (u_conns t ! r) = UIP_ESTABLISHED"
    and fl: "u_buf t ! 47 AND TCP_FIN = 0" "u_buf t ! 47 AND TCP_URG \<noteq> 0" "u_len t \<noteq> be16 (u_buf t ! 52) (u_buf t ! 53)"
  defines "p \<equiv> be16 (u_buf t ! 52) (u_buf t ! 53)"
  shows "\<exists>x. tcp_established app r t = appsend r (UIP_APPCALL app x) \<and> u_len x = u_len t - p \<and>
    u_appdata x = u_appdata t + unat p \<and> u_flags x AND UIP_NEWDATA \<noteq> 0 \<and>
    c_rcv_nxt (u_conns x ! r) = uip_add32 (c_rcv_nxt (u_conns t ! r)) (u_len t - p)"
proof -
  let ?t = "t\<lparr>u_appdata := u_appdata t + unat p, u_len := u_len t - p\<rparr>"
  let ?u = "uip_add_rcv_nxt (u_len t - p) (?t\<lparr>u_flags := u_flags t OR UIP_NEWDATA\<rparr>)"
  define m where "m = (let w = be16 (u_buf t ! 48) (u_buf t ! 49); i = c_initialmss (u_conns t ! r) in if i < w \<or> w = 0 then i else w)"
  define x where "x = (conn_update r (\<lambda>c. c\<lparr>c_mss := m\<rparr>) ?u)\<lparr>u_slen := 0\<rparr>"
  have pos: "0 < u_len t - p" using fl(3) by (simp add: word_gt_0 p_def)
  have stopped: "UIP_ESTABLISHED AND UIP_STOPPED = 0" by code_simp
  have new: "(w OR UIP_NEWDATA) AND UIP_NEWDATA \<noteq> 0" "(w OR UIP_NEWDATA) AND (UIP_NEWDATA OR UIP_ACKDATA) \<noteq> 0" for w
  proof -
    have "bit ((w OR UIP_NEWDATA) AND UIP_NEWDATA) 1" "bit ((w OR UIP_NEWDATA) AND (UIP_NEWDATA OR UIP_ACKDATA)) 1"
      by (simp_all add: bit_simps UIP_NEWDATA_def)
    then show "(w OR UIP_NEWDATA) AND UIP_NEWDATA \<noteq> 0" "(w OR UIP_NEWDATA) AND (UIP_NEWDATA OR UIP_ACKDATA) \<noteq> 0" by auto
  qed
  have init: "c_initialmss (u_conns ?u ! r) = c_initialmss (u_conns t ! r)" "u_buf ?u = u_buf t" "u_flags ?u = u_flags t OR UIP_NEWDATA"
    using t by (simp_all add: uip_add_rcv_nxt_def conn_update_def)
  have "tcp_established app r t = appsend r (UIP_APPCALL app x)"
    unfolding tcp_established_def Let_def x_def m_def
    using fl(1,2) t(2,3) stopped pos new(2) init by (simp add: p_def [symmetric])
  moreover have "u_len x = u_len t - p" "u_appdata x = u_appdata t + unat p" "u_flags x AND UIP_NEWDATA \<noteq> 0"
    "c_rcv_nxt (u_conns x ! r) = uip_add32 (c_rcv_nxt (u_conns t ! r)) (u_len t - p)"
    using t new(1) by (simp_all add: x_def uip_add_rcv_nxt_def conn_update_def)
  ultimately show ?thesis by blast
qed

text \<open>Two bytes, with the urgent pointer at the third.\<close>

definition demo_urgent :: "u8 list" where
  "demo_urgent = [0, 0, 0, 0, 0, 0, 0, 0, 0, 0, 0, 0, 0, 0, 69, 0, 0, 42, 0, 0, 0, 0, 64, 6, 102, 204, 10, 0, 0, 2, 10, 0, 0, 1,
    3, 232, 0, 23, 0, 0, 1, 1, 0, 0, 0, 2, 80, 56, 3, 232, 74, 82, 0, 3, 72, 105]"

lemma demo_urgent_ok:
  "tcp_frame [10, 0, 0, 1] demo_urgent" "length demo_urgent = 56" "slice 38 4 demo_urgent = [0, 0, 1, 1]" "demo_urgent ! 46 = 0x50"
  "unat (be16 (demo_urgent ! 52) (demo_urgent ! 53)) = 3"
  by (simp_all add: tcp_frame_def demo_urgent_def slice_def be16_def)

lemma demo_urgent_flags:
  "demo_urgent ! 47 AND (TCP_SYN OR TCP_FIN OR TCP_RST) = 0" "demo_urgent ! 47 AND TCP_URG \<noteq> 0" "same_peer demo_urgent demo_open_conn"
  by code_simp+

section \<open>Properties\<close>

text \<open>
  C0. A silent peer is given up: a connection with outstanding data, in whatever state waits for an
  acknowledgement, is closed by exactly \<open>ticks_left\<close> timer calls, at most 246 more than its timer
  holds, after the data has been sent again at growing distances; up to then it keeps its state,
  and the last call sends a reset.
\<close>

theorem uip_gives_up_silent_peer:
  assumes "uip_wf s" "app_wf app" "app_leaves_conns app" "r < length (u_conns s)" "waiting (u_conns s ! r)"
  defines "n \<equiv> ticks_left (u_conns s ! r)"
  shows "n \<le> unat (c_timer (u_conns s ! r)) + 246 \<and>
    (\<forall>m \<in> {0..<n}. \<exists>t. ticks app r m s = Some t \<and> c_tcpstateflags (u_conns t ! r) = c_tcpstateflags (u_conns s ! r)) \<and>
    (\<exists>t. ticks app r n s = Some t \<and> c_tcpstateflags (u_conns t ! r) = UIP_CLOSED \<and> u_len t = 40 \<and> u_buf t ! 47 = TCP_RST OR TCP_ACK)"
proof -
  obtain k where k: "n = Suc k" using ticks_left_pos by (auto simp: n_def gr0_conv_Suc)
  from waiting_ticks [OF assms(3,2,5,4,1) k [unfolded n_def]] show ?thesis
    using ticks_left_bound [of "u_conns s ! r"] unfolding n_def [symmetric] by (simp add: k less_Suc_eq_le)
qed

text \<open>A connection that has just been opened from outside and hears nothing more: 102 ticks.\<close>

theorem uip_gives_up_silent_peer_witness:
  "\<exists>t. ticks (\<lambda>f s. s) 0 102 ((demo_uip [])\<lparr>u_conns := [demo_conn\<lparr>c_tcpstateflags := UIP_SYN_RCVD, c_len := 1, c_timer := UIP_RTO\<rparr>]\<rparr>) =
    Some t \<and> c_tcpstateflags (u_conns t ! 0) = UIP_CLOSED"
proof -
  let ?c = "demo_conn\<lparr>c_tcpstateflags := UIP_SYN_RCVD, c_len := 1, c_timer := UIP_RTO\<rparr>"
  let ?s = "(demo_uip [])\<lparr>u_conns := [?c]\<rparr>"
  have wf: "uip_wf ?s" using demo_uip_wf [of "[]"] by (simp add: uip_wf_def) (simp add: demo_conn_def conn_wf_def)
  have w: "waiting (u_conns ?s ! 0)"
    by (simp add: waiting_def rtx_limit_def demo_conn_def UIP_SYN_RCVD_def UIP_CLOSED_def UIP_TIME_WAIT_def UIP_FIN_WAIT_2_def)
  have n: "ticks_left (u_conns ?s ! 0) = 102"
    by (simp add: ticks_left_def rtx_limit_def demo_conn_def UIP_RTO_def) (simp add: numeral_eq_Suc)
  have "app_leaves_conns (\<lambda>f s. s)" by (simp add: app_leaves_conns_def)
  from uip_gives_up_silent_peer [OF wf app_wf_id this _ w] show ?thesis unfolding n by auto
qed

text \<open>
  C37. The urgent pointer of a segment is not checked: when it points behind the data, the length that
  the application gets wraps around to nearly 65536, its data start behind the packet, and the
  sequence number expected next jumps ahead by that length.
\<close>

theorem uip_urgent_pointer_unchecked:
  assumes "uip_wf s" "tcp_frame (uip_hostaddr s) fr" "length fr \<le> length (u_buf s)" "conn_frame r fr (u_conns s)"
    and "c_tcpstateflags (u_conns s ! r) = UIP_ESTABLISHED" "slice 38 4 fr = c_rcv_nxt (u_conns s ! r)"
    and "fr ! 46 = 0x50" "fr ! 47 AND (TCP_SYN OR TCP_FIN OR TCP_RST) = 0" "fr ! 47 AND TCP_URG \<noteq> 0"
    and "length fr - 54 < unat (be16 (fr ! 52) (fr ! 53))"
  defines "p \<equiv> unat (be16 (fr ! 52) (fr ! 53))"
  shows "\<exists>x. uip_process app UIP_DATA (receive fr s) = Some (appsend r (UIP_APPCALL app x)) \<and>
    unat (u_len x) = 65536 + (length fr - 54) - p \<and> u_appdata x = 54 + p \<and> length fr < u_appdata x \<and>
    u_flags x AND UIP_NEWDATA \<noteq> 0 \<and> c_rcv_nxt (u_conns x ! r) = uip_add32 (c_rcv_nxt (u_conns s ! r)) (u_len x)"
proof -
  have l: "54 \<le> length fr" "length fr < 65536" using assms(2) by (simp_all add: tcp_frame_def)
  let ?y = "meets r fr s" and ?n = "length fr - 54" and ?p = "be16 (fr ! 52) (fr ! 53)"
  let ?t = "tcp_acked r ?y"
  have sub: "f AND m = 0" if "f AND (TCP_SYN OR TCP_FIN OR TCP_RST) = 0" "(TCP_SYN OR TCP_FIN OR TCP_RST) AND m = m" for f m
    using that by (metis and.assoc and_zero_eq and.commute)
  have flags: "fr ! 47 AND TCP_RST = 0" "fr ! 47 AND TCP_FIN = 0"
    by (rule sub [OF assms(8)]; code_simp)+
  have est: "UIP_ESTABLISHED AND UIP_TS_MASK = UIP_ESTABLISHED" "UIP_ESTABLISHED \<noteq> UIP_SYN_SENT" "UIP_ESTABLISHED \<noteq> UIP_SYN_RCVD"
    by code_simp+
  have p: "uip_process app UIP_DATA (receive fr s) = Some (tcp_established app r ?t)"
    using segment_meets [OF assms(1-4,7) flags(1), of app] assms(5,6) est by simp
  have r: "r < length (u_conns s)" using assms(4) by (simp add: conn_frame_def)
  have t: "r < length (u_conns ?t)" "c_tcpstateflags (u_conns ?t ! r) = UIP_ESTABLISHED"
    using r stays_length [OF tcp_acked_stays [of r ?y]] assms(5) by (simp_all add: tcp_acked_state)
  have b: "u_buf ?t ! i = fr ! i" if "i < 54" for i using that l assms(3) by (simp add: tcp_acked_fields nth_poke_0)
  have np: "unat (of_nat ?n :: u16) = ?n" using l by (simp add: frame_length del: of_nat_diff)
  have ne: "u_len ?t \<noteq> ?p" using assms(10) np by (auto simp: tcp_acked_fields simp del: of_nat_diff)
  obtain x where x: "tcp_established app r ?t = appsend r (UIP_APPCALL app x)" "u_len x = of_nat ?n - ?p" "u_appdata x = 54 + unat ?p"
    "u_flags x AND UIP_NEWDATA \<noteq> 0" "c_rcv_nxt (u_conns x ! r) = uip_add32 (c_rcv_nxt (u_conns s ! r)) (of_nat ?n - ?p)"
    using established_urgent [OF t(1) _ t(2), of app] b flags assms(9) ne
    by (auto simp: tcp_acked_fields tcp_acked_rcv simp del: of_nat_diff)
  have "unat (of_nat ?n - ?p) = 65536 + ?n - unat ?p"
    using assms(10) np by (simp add: unat_sub_if' not_le del: of_nat_diff)
  then show ?thesis using p x assms(10) l by (auto simp: p_def)
qed

theorem uip_urgent_pointer_unchecked_witness:
  "\<exists>x. uip_process (\<lambda>f s. s) UIP_DATA (receive demo_urgent ((demo_uip [])\<lparr>u_conns := [demo_open_conn]\<rparr>)) =
    Some (appsend 0 (UIP_APPCALL (\<lambda>f s. s) x)) \<and> unat (u_len x) = 65535"
proof -
  let ?s = "(demo_uip [])\<lparr>u_conns := [demo_open_conn]\<rparr>"
  have "uip_wf ?s"
    using demo_uip_wf [of "[]"] by (simp add: uip_wf_def) (simp add: demo_open_conn_def demo_conn_def conn_wf_def)
  moreover have "c_tcpstateflags demo_open_conn = UIP_ESTABLISHED" "c_rcv_nxt demo_open_conn = [0, 0, 1, 1]"
    by (simp_all add: demo_open_conn_def)
  moreover have "uip_hostaddr ?s = [10, 0, 0, 1]" "length (u_buf ?s) = 200" "u_conns ?s = [demo_open_conn]"
    by (simp_all add: uip_hostaddr_def demo_uip_def)
  ultimately show ?thesis
    using uip_urgent_pointer_unchecked [of ?s demo_urgent 0 "\<lambda>f s. s"] demo_urgent_ok demo_urgent_flags demo_segs_peer(3)
    by (simp add: conn_frame_def) blast
qed

end
