(* ===== verification/Uip_Udp.thy ===== *)
theory Uip_Udp imports Uip_Tcp begin

text \<open>A datagram from one stack to another.\<close>

section \<open>Sending\<close>

text \<open>The datagram before its checksums.\<close>

definition udp_built :: "'z uip_state_scheme \<Rightarrow> 'z uip_state_scheme" where
  "udp_built s = (let d = u_udp_conns s ! u_udp_conn s in
    (uip_put 30 (d_ripaddr d) (uip_put 26 (uip_hostaddr s) (uip_put 36 (raw_bytes (d_rport d)) (uip_put 34 (raw_bytes (d_lport d))
      (uip_put 40 [0, 0] (uip_put 38 (raw_bytes (htons (u_slen s + 8))) (uip_put 23 [17] (uip_put 22 [64]
        (uip_put 16 (be_bytes (u_slen s + 28)) (s\<lparr>u_len := u_slen s + 28\<rparr>))))))))))\<lparr>u_appdata := 42\<rparr>)"

definition udp_checked :: "'z uip_state_scheme \<Rightarrow> 'z uip_state_scheme" where
  "udp_checked t = (let t' = uip_put 40 (raw_bytes (NOT (uip_udpchksum t))) t
    in if raw16 (u_buf t') 40 = 0 then uip_put 40 [0xff, 0xff] t' else t')"

lemma udp_send_built: "u_slen s \<noteq> 0 \<Longrightarrow> udp_send s = ip_send_nolen (udp_checked (udp_built s))"
  by (simp add: udp_send_def udp_built_def udp_checked_def Let_def del: poke.simps)

lemma udp_checked_frame:
  "u_len (udp_checked t) = u_len t" "length (u_buf (udp_checked t)) = length (u_buf t)" "uip_hostaddr (udp_checked t) = uip_hostaddr t"
  "off + n \<le> 40 \<or> 42 \<le> off \<Longrightarrow> slice off n (u_buf (udp_checked t)) = slice off n (u_buf t)"
  "42 \<le> length (u_buf t) \<Longrightarrow> i < 40 \<Longrightarrow> u_buf (udp_checked t) ! i = u_buf t ! i"
  by (auto simp: udp_checked_def Let_def slice_poke_other nth_poke simp del: poke.simps)

lemma udp_built_frame:
  assumes "uip_wf s" "u_udp_conn s < length (u_udp_conns s)"
  defines "d \<equiv> u_udp_conns s ! u_udp_conn s" and "b \<equiv> u_buf (udp_built s)"
  shows "slice 34 2 b = raw_bytes (d_lport d)" "slice 36 2 b = raw_bytes (d_rport d)" "slice 26 4 b = uip_hostaddr s"
    "slice 30 4 b = d_ripaddr d" "slice 40 2 b = [0, 0]" "b ! 23 = 17" "be16 (b ! 16) (b ! 17) = u_slen s + 28"
    "slice 42 n b = slice 42 n (u_buf s)" "length b = length (u_buf s)" "u_len (udp_built s) = u_slen s + 28"
    "uip_hostaddr (udp_built s) = uip_hostaddr s"
proof -
  have "length (d_ripaddr d) = 4" using assms(1,2) by (simp add: uip_wf_def d_def)
  note l = this wf_buf [OF assms(1)] uip_wf_hostaddr [OF assms(1)]
  have f: "b = poke 30 (d_ripaddr d) (poke 26 (uip_hostaddr s) (poke 36 (raw_bytes (d_rport d)) (poke 34 (raw_bytes (d_lport d))
      (poke 40 [0, 0] (poke 38 (raw_bytes (htons (u_slen s + 8))) (poke 23 [17] (poke 22 [64]
        (poke 16 (be_bytes (u_slen s + 28)) (u_buf s)))))))))"
    by (simp add: b_def udp_built_def Let_def d_def del: poke.simps)
  show "slice 34 2 b = raw_bytes (d_lport d)" "slice 36 2 b = raw_bytes (d_rport d)" "slice 26 4 b = uip_hostaddr s"
    "slice 30 4 b = d_ripaddr d" "slice 40 2 b = [0, 0]" "b ! 23 = 17"
    "slice 42 n b = slice 42 n (u_buf s)" "length b = length (u_buf s)" "u_len (udp_built s) = u_slen s + 28"
    "uip_hostaddr (udp_built s) = uip_hostaddr s"
    using l unfolding f
    by (simp_all add: udp_built_def Let_def slice_poke_other slice_poke_same nth_poke del: poke.simps)
  show "be16 (b ! 16) (b ! 17) = u_slen s + 28"
    using l be16_be_bytes [of "u_slen s + 28"] unfolding f by (simp add: nth_poke del: poke.simps)
qed

lemma udp_checked_verifies:
  assumes "be16 (u_buf t ! 16) (u_buf t ! 17) = of_nat (20 + n)" "n + 17 < 65536" "8 \<le> n" "34 + n \<le> length (u_buf t)"
    "length (u_buf t) < 65536" "slice 40 2 (u_buf t) = [0, 0]"
  shows "65535 dvd (n + 17 + osum (slice 26 8 (u_buf t)) + osum (slice 34 n (u_buf (udp_checked t))))"
proof -
  let ?t' = "uip_put 40 (raw_bytes (NOT (uip_udpchksum t))) t"
  have p: "unat (17 :: u8) = 17" by simp
  have v: "65535 dvd (n + 17 + osum (slice 26 8 (u_buf t)) + osum (slice 34 n (u_buf ?t')))"
    using upper_checksum_field [of t n 17 40] assms p by (simp add: uip_udpchksum_def del: poke.simps of_nat_add)
  show ?thesis
  proof (cases "raw16 (u_buf ?t') 40 = 0")
    case False
    then show ?thesis using v by (simp add: udp_checked_def del: poke.simps)
  next
    case True
    have len: "40 + 2 \<le> length (u_buf ?t')" using assms(3,4) by simp
    have z: "slice 40 2 (u_buf ?t') = raw_bytes 0" using raw_bytes_raw16 [OF len] True by simp
    have ff: "[0xff, 0xff] = be_bytes 0xffff" "raw_bytes 0 = [0, 0]" by (code_simp, code_simp)
    have "osum (slice 34 n (poke 40 (be_bytes 0xffff) (u_buf ?t'))) = osum (slice 34 n (u_buf ?t')) + 65535"
      using osum_put_be [of 40 34 n "u_buf ?t'" "0xffff"] assms(3,4) z by (simp add: ff(2) del: poke.simps)
    then have "65535 dvd (n + 17 + osum (slice 26 8 (u_buf t)) + osum (slice 34 n (poke 40 [0xff, 0xff] (u_buf ?t'))))"
      using dvd_add [OF v dvd_refl] by (simp add: ff(1) add.assoc del: poke.simps)
    then show ?thesis using True by (simp add: udp_checked_def del: poke.simps)
  qed
qed

lemma udp_send_datagram:
  assumes "uip_wf s" "u_udp_conn s < length (u_udp_conns s)" "u_slen s = of_nat n" "0 < n" "42 + n \<le> length (u_buf s)"
  defines "d \<equiv> u_udp_conns s ! u_udp_conn s" and "b \<equiv> u_buf (udp_send s)"
  shows "slice 34 2 b = raw_bytes (d_lport d)" "slice 36 2 b = raw_bytes (d_rport d)" "slice 26 4 b = uip_hostaddr s"
    "slice 30 4 b = d_ripaddr d" "b ! 23 = 17" "b ! 14 = 0x45" "slice 42 n b = slice 42 n (u_buf s)" "length b = length (u_buf s)"
    "u_len (udp_send s) = of_nat (28 + n)" "be16 (b ! 16) (b ! 17) = of_nat (28 + n)" "65535 dvd osum (slice 14 20 b)"
    "slice 20 2 b = [0, 0]"
    "65535 dvd (8 + n + 17 + osum (slice 26 8 b) + osum (slice 34 (8 + n) b))"
proof -
  have len: "length (u_buf s) < 65536" "100 \<le> length (u_buf s)" using assms(1) by (simp_all add: uip_wf_def)
  have "unat (u_slen s) = n" using assms(3,5) len by (simp add: frame_length)
  then have "u_slen s \<noteq> 0" using assms(4) by auto
  then have e: "udp_send s = ip_send_nolen (udp_checked (udp_built s))" by (rule udp_send_built)
  note bf = udp_built_frame [OF assms(1,2), folded d_def]
  note cf = udp_checked_frame [where t = "udp_built s"]
  have l: "u_slen s + 28 = of_nat (28 + n)" "u_slen s + 28 = of_nat (20 + (8 + n))" using assms(3) by simp_all
  have nz: "(of_nat (28 + n) :: u16) \<noteq> 0" using frame_length [of "28 + n"] assms(5) len by (auto simp del: of_nat_add)
  show ul: "u_len (udp_send s) = of_nat (28 + n)" by (simp only: e ip_send_nolen_frame cf(1) bf(10) l(1))
  show "slice 34 2 b = raw_bytes (d_lport d)" "slice 36 2 b = raw_bytes (d_rport d)" "slice 26 4 b = uip_hostaddr s"
    "slice 30 4 b = d_ripaddr d" "slice 42 n b = slice 42 n (u_buf s)" "length b = length (u_buf s)"
    using bf by (simp_all add: b_def e ip_send_nolen_frame cf)
  show "b ! 23 = 17" using bf(6,9) len by (simp add: b_def e ip_send_nolen_frame cf)
  show be: "be16 (b ! 16) (b ! 17) = of_nat (28 + n)"
    using bf(7,9) len l(1) by (simp add: b_def e ip_send_nolen_frame cf)
  have h: "header_ok (udp_send s)"
    using udp_send_ok [OF assms(1)] ul nz by (simp add: sent_ok_def)
  then show "b ! 14 = 0x45" "65535 dvd osum (slice 14 20 b)"
    by (simp_all add: header_ok_def b_def uip_ipchksum_ffff)
  show "slice 20 2 b = [0, 0]"
    using len bf(9) by (simp add: b_def e ip_send_nolen_def uip_send_label_def Let_def slice_poke_other slice_poke_same cf del: poke.simps)
  show "65535 dvd (8 + n + 17 + osum (slice 26 8 b) + osum (slice 34 (8 + n) b))"
    using udp_checked_verifies [of "udp_built s" "8 + n"] bf(5,7,9) l(2) assms(5) len
    by (simp add: b_def e ip_send_nolen_frame cf)
qed

section \<open>Receiving\<close>

definition udp_frame :: "u8 list \<Rightarrow> nat \<Rightarrow> u8 list \<Rightarrow> bool" where
  "udp_frame host n fr \<longleftrightarrow> length fr = 42 + n \<and> fr ! 14 = 0x45 \<and> be16 (fr ! 16) (fr ! 17) = of_nat (28 + n) \<and>
    slice 20 2 fr = [0, 0] \<and> fr ! 23 = 17 \<and> slice 30 4 fr = host \<and> 65535 dvd osum (slice 14 20 fr) \<and>
    65535 dvd (8 + n + 17 + osum (slice 26 8 fr) + osum (slice 34 (8 + n) fr))"

lemma udp_frame_found:
  assumes wf: "uip_wf t" and fr: "udp_frame (uip_hostaddr t) n fr" and len: "42 + n \<le> length (u_buf t)"
    and j: "find (\<lambda>k. udp_match fr (u_udp_conns t ! k)) (rev [0..<length (u_udp_conns t)]) = Some j"
  shows "\<exists>x. uip_process app UIP_DATA (receive fr t) = Some (udp_send (UIP_UDP_APPCALL app x)) \<and> u_udp_conn x = j \<and>
    u_flags x = UIP_NEWDATA \<and> u_len x = of_nat n \<and> u_appdata x = 42 \<and> u_slen x = 0 \<and> u_udp_conns x = u_udp_conns t \<and>
    u_buf x = poke 0 fr (u_buf t) \<and> uip_state.more x = uip_state.more t"
proof -
  have f: "length fr = 42 + n" "fr ! 14 = 0x45" "be16 (fr ! 16) (fr ! 17) = of_nat (28 + n)" "fr ! 23 = 17" "slice 30 4 fr = uip_hostaddr t"
    "65535 dvd osum (slice 14 20 fr)" "65535 dvd (8 + n + 17 + osum (slice 26 8 fr) + osum (slice 34 (8 + n) fr))"
    using fr by (simp_all only: udp_frame_def)
  have l: "42 + n \<le> length (u_buf t)" "length (u_buf t) < 65536" using len wf by (simp_all add: uip_wf_def)
  let ?b = "poke 0 fr (u_buf t)"
  have b: "?b ! i = fr ! i" if "i < 42" for i using that f(1) l by (simp add: nth_poke)
  have sl: "slice off m ?b = slice off m fr" if "off + m \<le> 42 + n" for off m using that f(1) l by (simp add: slice_poke_0)
  have z: "fr ! 20 = 0" "fr ! 21 = 0"
    using fr nth_slice [of 20 2 fr 0] nth_slice [of 20 2 fr 1] f(1) by (simp_all add: udp_frame_def)
  define y where "y = t\<lparr>u_buf := ?b, u_len := of_nat n, u_sappdata := 54, u_appdata := 42\<rparr>"
  define x where "x = y\<lparr>u_udp_conn := j, u_conn := None, u_flags := UIP_NEWDATA, u_sappdata := 42, u_appdata := 42, u_slen := 0\<rparr>"
  have udp: "udp_input app (t\<lparr>u_buf := ?b, u_len := of_nat (28 + n), u_sappdata := 54, u_appdata := 54\<rparr>) = udp_send (UIP_UDP_APPCALL app x)"
  proof -
    have "be16 (u_buf y ! 16) (u_buf y ! 17) = of_nat (20 + (8 + n))" using f(3) by (simp add: y_def b)
    moreover have "unat (17 :: u8) = 17" by simp
    ultimately have "uip_udpchksum y = 0xffff"
      using upper_layer_ffff [of y "8 + n" 17] f(7) l
      by (simp add: y_def sl uip_udpchksum_def del: of_nat_add)
    moreover have "(t\<lparr>u_buf := ?b, u_len := of_nat (28 + n), u_sappdata := 54, u_appdata := 54\<rparr>)\<lparr>u_len := of_nat (28 + n) - 28, u_appdata := 42\<rparr> = y"
      by (simp add: y_def)
    moreover have "udp_match ?b d = udp_match fr d" for d
      using f(1) l by (simp add: udp_match_def sl raw16_poke_0)
    moreover have "u_buf y = ?b" "u_udp_conns y = u_udp_conns t" by (simp_all add: y_def)
    ultimately show ?thesis
      using j by (simp add: udp_input_def Let_def udp_found_def x_def)
  qed
  have ipc: "uip_ipchksum (t\<lparr>u_buf := ?b, u_len := v, u_sappdata := 54, u_appdata := 54\<rparr>) = 0xffff" for v
    using f(6) by (simp add: uip_ipchksum_ffff sl)
  have le: "of_nat (28 + n) \<le> (of_nat (42 + n) :: u16)"
    using l frame_length [of "28 + n"] frame_length [of "42 + n"] by (simp add: word_le_nat_alt del: of_nat_add)
  have arr: "ip_input app ((receive fr t)\<lparr>u_sappdata := 54, u_appdata := 54\<rparr>) = Some (udp_send (UIP_UDP_APPCALL app x))"
  proof -
    let ?r = "(receive fr t)\<lparr>u_sappdata := 54, u_appdata := 54\<rparr>"
    have r: "u_buf ?r = ?b" "u_len ?r = of_nat (42 + n)"
      "?r\<lparr>u_len := of_nat (28 + n)\<rparr> = t\<lparr>u_buf := ?b, u_len := of_nat (28 + n), u_sappdata := 54, u_appdata := 54\<rparr>"
      by (simp_all add: receive_def f(1))
    have h: "uip_hostaddr (t\<lparr>u_buf := ?b, u_len := of_nat (28 + n), u_sappdata := 54, u_appdata := 54\<rparr>) = uip_hostaddr t"
      by (simp add: uip_hostaddr_def)
    have bv: "?b ! 14 = 0x45" "be16 (?b ! 16) (?b ! 17) = of_nat (28 + n)" "?b ! 20 = 0" "?b ! 21 = 0" "?b ! 23 = 17"
      "slice 30 4 ?b = uip_hostaddr t"
      using f z by (simp_all add: b sl)
    have n6: "(17 :: u8) \<noteq> 6" by simp
    show ?thesis
      unfolding ip_input_def Let_def r bv using le udp ipc h n6 by (simp del: of_nat_add)
  qed
  show ?thesis
    by (rule exI [of _ x]) (simp add: uip_process_def Let_def arr, simp add: x_def y_def)
qed

text \<open>The frame on the wire: link-layer header and packet.\<close>

definition on_wire :: "'z uip_state_scheme \<Rightarrow> u8 list" where
  "on_wire s = take (14 + unat (u_len s)) (u_buf s)"

lemma udp_send_frame:
  assumes "uip_wf s" "u_udp_conn s < length (u_udp_conns s)" "u_slen s = of_nat n" "0 < n" "42 + n \<le> length (u_buf s)"
  defines "d \<equiv> u_udp_conns s ! u_udp_conn s" and "fr \<equiv> on_wire (udp_send s)"
  shows "udp_frame (d_ripaddr d) n fr" "slice 42 n fr = slice 42 n (u_buf s)" "slice 26 4 fr = uip_hostaddr s"
    "raw16 fr 34 = d_lport d" "raw16 fr 36 = d_rport d"
proof -
  note dg = udp_send_datagram [OF assms(1-5), folded d_def]
  have l: "42 + n < 65536" using assms(1,5) by (simp add: uip_wf_def)
  then have fr: "fr = take (42 + n) (u_buf (udp_send s))"
    using frame_length [of "28 + n"] by (simp add: fr_def on_wire_def dg(9) del: of_nat_add)
  have nth: "fr ! i = u_buf (udp_send s) ! i" if "i < 42" for i using that by (simp add: fr)
  have sl: "slice off m fr = slice off m (u_buf (udp_send s))" if "off + m \<le> 42 + n" for off m
    using that by (simp add: fr slice_def drop_take min_def)
  have len: "length fr = 42 + n" using assms(5) dg(8) by (simp add: fr)
  show "udp_frame (d_ripaddr d) n fr"
    unfolding udp_frame_def using dg by (simp add: len nth sl)
  show "slice 42 n fr = slice 42 n (u_buf s)" "slice 26 4 fr = uip_hostaddr s" using dg by (simp_all add: sl)
  show "raw16 fr 34 = d_lport d" "raw16 fr 36 = d_rport d"
    using dg(1,2) len by (auto intro!: raw16_slice simp: sl)
qed

definition demo_sender :: uip_state where
  "demo_sender = (demo_uip (replicate 42 0 @ [1, 2, 3]))\<lparr>u_slen := 3, u_udp_conns :=
    [\<lparr>d_ripaddr = [10, 0, 0, 2], d_lport = 1000, d_rport = 53, d_callback = None, d_stack = 0\<rparr>]\<rparr>"

definition demo_server :: uip_state where
  "demo_server = (demo_uip [])\<lparr>u_stacks := [([10, 0, 0, 2], [255, 255, 255, 0])], u_udp_conns :=
    [\<lparr>d_ripaddr = [0, 0, 0, 0], d_lport = 53, d_rport = 0, d_callback = Some 0, d_stack = 0\<rparr>]\<rparr>"

lemma demo_udp_parts:
  "uip_wf demo_sender" "uip_wf demo_server" "length (u_buf demo_sender) = 200" "length (u_buf demo_server) = 200"
  "uip_hostaddr demo_sender = [10, 0, 0, 1]" "uip_hostaddr demo_server = [10, 0, 0, 2]"
  using demo_uip_wf [of "replicate 42 0 @ [1, 2, 3]"] demo_uip_wf [of "[]"]
  by (simp_all add: demo_sender_def demo_server_def uip_wf_def demo_uip_def uip_hostaddr_def del: replicate.simps)

lemma demo_sender_data: "slice 42 3 (u_buf demo_sender) = [1, 2, 3]"
  by code_simp

section \<open>Properties\<close>

text \<open>
  C7. A datagram arrives: what one stack sends on a UDP connection, put on the wire and received by
  the stack of the host it is for, passes all checks there and calls the application of the
  connection that matches it, the last one in the table, with exactly the bytes sent, their number,
  and the sender's address and port in front of them.
\<close>

theorem uip_udp_delivers:
  assumes s: "uip_wf s" "u_udp_conn s < length (u_udp_conns s)" "u_slen s = of_nat n" "0 < n" "42 + n \<le> length (u_buf s)"
    and t: "uip_wf t" "uip_hostaddr t = d_ripaddr (u_udp_conns s ! u_udp_conn s)" "42 + n \<le> length (u_buf t)"
  defines "d \<equiv> u_udp_conns s ! u_udp_conn s"
  assumes j: "find (\<lambda>k. let e = u_udp_conns t ! k in d_lport e \<noteq> 0 \<and> d_lport e = d_rport d \<and> (d_rport e = 0 \<or> d_rport e = d_lport d) \<and>
      (d_ripaddr e = all_zeroes_addr \<or> d_ripaddr e = all_ones_addr \<or> d_ripaddr e = uip_hostaddr s)) (rev [0..<length (u_udp_conns t)]) = Some j"
  shows "\<exists>s' x. uip_process app UIP_UDP_SEND_CONN s = Some s' \<and>
    uip_process app' UIP_DATA (receive (on_wire s') t) = Some (udp_send (UIP_UDP_APPCALL app' x)) \<and>
    u_udp_conn x = j \<and> u_flags x = UIP_NEWDATA \<and> u_len x = of_nat n \<and> slice (u_appdata x) n (u_buf x) = slice 42 n (u_buf s) \<and>
    slice 26 4 (u_buf x) = uip_hostaddr s \<and> raw16 (u_buf x) 34 = d_lport d"
proof -
  let ?fr = "on_wire (udp_send s)"
  note fr = udp_send_frame [OF s, folded d_def]
  have len: "length ?fr = 42 + n" using fr(1) by (simp add: udp_frame_def)
  have "(\<lambda>k. udp_match ?fr (u_udp_conns t ! k)) = (\<lambda>k. let e = u_udp_conns t ! k in d_lport e \<noteq> 0 \<and> d_lport e = d_rport d \<and>
      (d_rport e = 0 \<or> d_rport e = d_lport d) \<and>
      (d_ripaddr e = all_zeroes_addr \<or> d_ripaddr e = all_ones_addr \<or> d_ripaddr e = uip_hostaddr s))"
    by (auto simp: fun_eq_iff udp_match_def fr(3-5) Let_def)
  then have m: "find (\<lambda>k. udp_match ?fr (u_udp_conns t ! k)) (rev [0..<length (u_udp_conns t)]) = Some j" using j by simp
  from udp_frame_found [of t n ?fr j app', OF t(1) _ t(3) m] fr(1) t(2)
  obtain x where "uip_process app' UIP_DATA (receive ?fr t) = Some (udp_send (UIP_UDP_APPCALL app' x))" "u_udp_conn x = j"
    "u_flags x = UIP_NEWDATA" "u_len x = of_nat n" "u_appdata x = 42" "u_buf x = poke 0 ?fr (u_buf t)"
    by (auto simp: d_def)
  then show ?thesis
    using fr len t(3) by (auto simp: uip_process_def slice_poke_0 raw16_poke_0)
qed

theorem uip_udp_delivers_witness:
  "\<exists>s' x. uip_process (\<lambda>f s. s) UIP_UDP_SEND_CONN demo_sender = Some s' \<and>
    uip_process (\<lambda>f s. s) UIP_DATA (receive (on_wire s') demo_server) = Some (udp_send (UIP_UDP_APPCALL (\<lambda>f s. s) x)) \<and>
    slice (u_appdata x) 3 (u_buf x) = [1, 2, 3]"
proof -
  have p: "u_udp_conn demo_sender = 0" "u_udp_conns demo_sender = [\<lparr>d_ripaddr = [10, 0, 0, 2], d_lport = 1000, d_rport = 53, d_callback = None, d_stack = 0\<rparr>]"
    "u_slen demo_sender = 3" "u_udp_conns demo_server = [\<lparr>d_ripaddr = [0, 0, 0, 0], d_lport = 53, d_rport = 0, d_callback = Some 0, d_stack = 0\<rparr>]"
    by (simp_all add: demo_sender_def demo_server_def demo_uip_def)
  show ?thesis
    using uip_udp_delivers [of demo_sender 3 demo_server 0 "\<lambda>f s. s" "\<lambda>f s. s"]
    by (simp add: demo_udp_parts p demo_sender_data all_zeroes_addr_def) blast
qed

end
