(* ===== verification/Uip_States.thy ===== *)
theory Uip_States imports Uip_Open begin

text \<open>
  The states of the connections: what one call of \<open>uip_process\<close> can do to them, compared with the
  state diagram of TCP.
\<close>

section \<open>States\<close>

definition tcp_state :: "uip_conn_t \<Rightarrow> u8" where
  "tcp_state c = c_tcpstateflags c AND UIP_TS_MASK"

definition conn_states :: "'z uip_state_scheme \<Rightarrow> u8 list" where
  "conn_states s = map tcp_state (u_conns s)"

text \<open>An application that may do anything but open and close connections behind the back of the stack.\<close>

definition app_keeps_states :: "'z uip_app \<Rightarrow> bool" where
  "app_keeps_states app \<longleftrightarrow> (\<forall>f s. conn_states (app f s) = conn_states s \<and> u_conn (app f s) = u_conn s)"

lemma states_masked [simp]:
  "UIP_CLOSED AND UIP_TS_MASK = UIP_CLOSED" "UIP_SYN_RCVD AND UIP_TS_MASK = UIP_SYN_RCVD"
  "UIP_SYN_SENT AND UIP_TS_MASK = UIP_SYN_SENT" "UIP_ESTABLISHED AND UIP_TS_MASK = UIP_ESTABLISHED"
  "UIP_FIN_WAIT_1 AND UIP_TS_MASK = UIP_FIN_WAIT_1" "UIP_FIN_WAIT_2 AND UIP_TS_MASK = UIP_FIN_WAIT_2"
  "UIP_CLOSING AND UIP_TS_MASK = UIP_CLOSING" "UIP_TIME_WAIT AND UIP_TS_MASK = UIP_TIME_WAIT"
  "UIP_LAST_ACK AND UIP_TS_MASK = UIP_LAST_ACK"
  by code_simp+

lemmas state_numbers = UIP_CLOSED_def UIP_SYN_RCVD_def UIP_SYN_SENT_def UIP_ESTABLISHED_def UIP_FIN_WAIT_1_def
  UIP_FIN_WAIT_2_def UIP_CLOSING_def UIP_TIME_WAIT_def UIP_LAST_ACK_def

lemma not_syn_sent:
  "UIP_ESTABLISHED \<noteq> UIP_SYN_SENT" "UIP_FIN_WAIT_1 \<noteq> UIP_SYN_SENT" "UIP_FIN_WAIT_2 \<noteq> UIP_SYN_SENT"
  by (simp_all add: state_numbers)

lemma conn_states_update:
  "conn_states (conn_update r f s) = (conn_states s)[r := tcp_state (f (u_conns s ! r))]"
  by (simp add: conn_states_def conn_update_def map_update)

lemma conn_states_same:
  assumes "\<And>c. c_tcpstateflags (f c) = c_tcpstateflags c" shows "conn_states (conn_update r f s) = conn_states s"
proof (cases "r < length (u_conns s)")
  case True
  then have "tcp_state (f (u_conns s ! r)) = conn_states s ! r" using assms by (simp add: conn_states_def tcp_state_def)
  then show ?thesis by (simp add: conn_states_update)
qed (simp add: conn_states_def conn_update_def list_update_beyond)

lemma conn_states_set:
  assumes "\<And>c. c_tcpstateflags (f c) = c_tcpstateflags (f undefined)"
  shows "conn_states (conn_update r f s) = (conn_states s)[r := c_tcpstateflags (f undefined) AND UIP_TS_MASK]"
  unfolding conn_states_update tcp_state_def using assms by metis

lemmas conn_states_updates = conn_states_same conn_states_set

lemma conn_states_fields [simp]:
  "conn_states (s\<lparr>u_len := v\<rparr>) = conn_states s" "conn_states (s\<lparr>u_slen := v\<rparr>) = conn_states s"
  "conn_states (s\<lparr>u_flags := w\<rparr>) = conn_states s" "conn_states (s\<lparr>u_appdata := n\<rparr>) = conn_states s"
  "conn_states (s\<lparr>u_sappdata := n\<rparr>) = conn_states s" "conn_states (s\<lparr>u_conn := k\<rparr>) = conn_states s"
  "conn_states (s\<lparr>u_udp_conn := n\<rparr>) = conn_states s" "conn_states (s\<lparr>u_iss := i\<rparr>) = conn_states s"
  "conn_states (s\<lparr>u_ipid := v\<rparr>) = conn_states s" "conn_states (uip_put off d s) = conn_states s"
  by (simp_all add: conn_states_def)

lemma conn_states_add_rcv_nxt [simp]: "conn_states (uip_add_rcv_nxt n s) = conn_states s" "u_conn (uip_add_rcv_nxt n s) = u_conn s"
  "u_buf (uip_add_rcv_nxt n s) = u_buf s" "u_flags (uip_add_rcv_nxt n s) = u_flags s"
  by (simp_all add: uip_add_rcv_nxt_def conn_states_same)

lemma conn_states_ip_send [simp]:
  "conn_states (uip_drop s) = conn_states s" "conn_states (uip_send_label s) = conn_states s" "conn_states (ip_send_nolen s) = conn_states s"
  "conn_states (udp_send s) = conn_states s" "conn_states (tcp_send_noconn s) = conn_states s"
  by (simp_all add: uip_drop_def uip_send_label_def ip_send_nolen_def udp_send_def tcp_send_noconn_def Let_def)

lemma conn_states_tcp_send [simp]:
  "conn_states (tcp_send r s) = conn_states s" "conn_states (tcp_send_noopts r s) = conn_states s" "conn_states (tcp_reset s) = conn_states s"
  by (simp_all add: tcp_send_def tcp_send_noopts_def tcp_reset_def Let_def)

lemma conn_states_tcp_answers [simp]:
  "conn_states (tcp_send_nodata r s) = conn_states s" "conn_states (tcp_send_ack r s) = conn_states s"
  "conn_states (tcp_send_finack r s) = conn_states s" "conn_states (tcp_send_syn r s) = conn_states s"
  "conn_states (tcp_send_synack r s) = conn_states s" "conn_states (apprexmit r s) = conn_states s"
  by (simp_all add: tcp_send_nodata_def tcp_send_ack_def tcp_send_finack_def tcp_send_syn_def tcp_send_synack_def apprexmit_def Let_def)

lemma conn_states_parse_mss: "parse_mss r s = Some s' \<Longrightarrow> conn_states s' = conn_states s \<and> u_conn s' = u_conn s"
  by (auto simp: parse_mss_def Let_def conn_states_same split: if_splits option.splits)

lemma conn_states_appcall:
  assumes "app_keeps_states app"
  shows "conn_states (UIP_APPCALL app s) = conn_states s" "u_conn (UIP_APPCALL app s) = u_conn s"
    "conn_states (UIP_UDP_APPCALL app s) = conn_states s"
  using assms by (simp_all add: app_keeps_states_def UIP_APPCALL_def UIP_UDP_APPCALL_def split: option.splits)

section \<open>The state of one connection\<close>

text \<open>The states after a step that leaves all as they are or puts the connection \<open>r\<close> into a state of \<open>A\<close>.\<close>

definition moves :: "nat \<Rightarrow> u8 set \<Rightarrow> u8 list \<Rightarrow> u8 list set" where
  "moves r A cs = insert cs ((\<lambda>a. cs[r := a]) ` A)"

lemma movesI [simp]: "cs \<in> moves r A cs" "a \<in> A \<Longrightarrow> cs[r := a] \<in> moves r A cs"
  by (auto simp: moves_def)

lemma moves_mono: "cs' \<in> moves r A cs \<Longrightarrow> A \<subseteq> B \<Longrightarrow> cs' \<in> moves r B cs"
  by (auto simp: moves_def)

lemma moves_after: "cs' \<in> moves r A (cs[r := a]) \<Longrightarrow> a \<in> B \<Longrightarrow> A \<subseteq> B \<Longrightarrow> cs' \<in> moves r B cs"
  by (auto simp: moves_def)

lemma appsend_moves: "conn_states (appsend r s) \<in> moves r {UIP_CLOSED, UIP_FIN_WAIT_1} (conn_states s)"
  by (simp add: appsend_def Let_def conn_states_updates)

lemma tcp_acked_states:
  "conn_states (tcp_acked r s) = conn_states s" "u_buf (tcp_acked r s) = u_buf s" "u_conn (tcp_acked r s) = u_conn s"
  by (simp_all add: tcp_acked_def Let_def conn_states_same)

text \<open>Whether a segment acknowledges all that is outstanding.\<close>

definition acknowledges :: "u8 list \<Rightarrow> uip_conn_t \<Rightarrow> bool" where
  "acknowledges b c \<longleftrightarrow> b ! 47 AND TCP_ACK \<noteq> 0 \<and> c_len c \<noteq> 0 \<and> slice 42 4 b = uip_add32 (c_snd_nxt c) (c_len c)"

lemma tcp_acked_flag:
  assumes "u_flags s = 0" shows "u_flags (tcp_acked r s) AND UIP_ACKDATA \<noteq> 0 \<longleftrightarrow> acknowledges (u_buf s) (u_conns s ! r)"
proof -
  have "UIP_ACKDATA AND UIP_ACKDATA \<noteq> 0" by code_simp
  then show ?thesis using assms by (auto simp: tcp_acked_def Let_def acknowledges_def)
qed

lemma appsend_after:
  assumes "app_keeps_states app"
  shows "conn_states (appsend r (UIP_APPCALL app s)) \<in> moves r {UIP_CLOSED, UIP_FIN_WAIT_1} (conn_states s)"
  using appsend_moves [of r "UIP_APPCALL app s"] by (simp add: conn_states_appcall [OF assms])

lemma appsend_into:
  assumes "app_keeps_states app" "conn_states s = cs[r := a]" "insert a {UIP_CLOSED, UIP_FIN_WAIT_1} \<subseteq> B"
  shows "conn_states (appsend r (UIP_APPCALL app s)) \<in> moves r B cs"
  using moves_after [OF appsend_after [OF assms(1), of r s, unfolded assms(2)]] assms(3) by simp

lemma syn_rcvd_moves:
  assumes "app_keeps_states app"
  shows "conn_states (tcp_syn_rcvd app r s) \<in>
    moves r (if u_flags s AND UIP_ACKDATA \<noteq> 0 then {UIP_ESTABLISHED, UIP_CLOSED, UIP_FIN_WAIT_1} else {}) (conn_states s)"
  by (auto simp: tcp_syn_rcvd_def Let_def conn_states_updates intro!: appsend_into [OF assms, where a = UIP_ESTABLISHED])

lemma syn_sent_moves:
  assumes "app_keeps_states app" "u_conn s = Some r" "tcp_syn_sent app r s = Some s'"
  shows "conn_states s' \<in>
    moves r (insert UIP_CLOSED (if u_flags s AND UIP_ACKDATA \<noteq> 0 \<and> u_buf s ! 47 AND TCP_CTL = TCP_SYN OR TCP_ACK
      then {UIP_ESTABLISHED, UIP_FIN_WAIT_1} else {})) (conn_states s)"
proof (cases "u_flags s AND UIP_ACKDATA \<noteq> 0 \<and> u_buf s ! 47 AND TCP_CTL = TCP_SYN OR TCP_ACK")
  case True
  with assms(3) obtain t where t: "parse_mss r s = Some t" by (auto simp: tcp_syn_sent_def split: option.splits)
  with True assms(3) show ?thesis
    by (auto simp: tcp_syn_sent_def Let_def conn_states_updates conn_states_parse_mss [OF t]
        intro!: appsend_into [OF assms(1), where a = UIP_ESTABLISHED])
next
  case False
  then show ?thesis
    using assms by (auto simp: tcp_syn_sent_def Let_def conn_states_updates conn_states_appcall)
qed

lemma established_moves:
  assumes "app_keeps_states app"
  shows "conn_states (tcp_established app r s) \<in>
    moves r ({UIP_CLOSED, UIP_FIN_WAIT_1} \<union> (if u_buf s ! 47 AND TCP_FIN \<noteq> 0 then {UIP_LAST_ACK} else {})) (conn_states s)"
proof (cases "u_buf s ! 47 AND TCP_FIN \<noteq> 0 \<and> c_tcpstateflags (u_conns s ! r) AND UIP_STOPPED = 0")
  case True
  then show ?thesis
    by (auto simp: tcp_established_def Let_def conn_states_updates conn_states_appcall [OF assms])
next
  case False
  have "conn_states (appsend r (UIP_APPCALL app t)) \<in>
      moves r ({UIP_CLOSED, UIP_FIN_WAIT_1} \<union> (if u_buf s ! 47 AND TCP_FIN \<noteq> 0 then {UIP_LAST_ACK} else {})) (conn_states s)"
    if "conn_states t = conn_states s" for t
    using appsend_after [OF assms, of r t] that by (auto elim!: moves_mono)
  with False show ?thesis
    by (auto simp: tcp_established_def Let_def conn_states_updates)
qed

lemma closing_moves:
  assumes "app_keeps_states app"
  shows "conn_states (tcp_last_ack app r s) \<in> moves r (if u_flags s AND UIP_ACKDATA \<noteq> 0 then {UIP_CLOSED} else {}) (conn_states s)"
    "conn_states (tcp_fin_wait_1 app r s) \<in>
      moves r ((if u_flags s AND UIP_ACKDATA \<noteq> 0 then {UIP_FIN_WAIT_2} else {}) \<union>
        (if u_buf s ! 47 AND TCP_FIN \<noteq> 0 then insert UIP_CLOSING (if u_flags s AND UIP_ACKDATA \<noteq> 0 then {UIP_TIME_WAIT} else {}) else {}))
        (conn_states s)"
    "conn_states (tcp_fin_wait_2 app r s) \<in> moves r (if u_buf s ! 47 AND TCP_FIN \<noteq> 0 then {UIP_TIME_WAIT} else {}) (conn_states s)"
    "conn_states (tcp_closing r s) \<in> moves r (if u_flags s AND UIP_ACKDATA \<noteq> 0 then {UIP_TIME_WAIT} else {}) (conn_states s)"
  by (auto simp: tcp_last_ack_def tcp_fin_wait_1_def tcp_fin_wait_2_def tcp_closing_def Let_def conn_states_updates
      conn_states_appcall [OF assms])

lemma uip_poll_moves:
  assumes "app_keeps_states app" shows "conn_states (uip_poll app r s) \<in> moves r {UIP_CLOSED, UIP_FIN_WAIT_1} (conn_states s)"
  using appsend_after [OF assms, of r "s\<lparr>u_flags := UIP_POLL\<rparr>"] by (simp add: uip_poll_def)

lemma uip_rexmit_moves:
  assumes "app_keeps_states app" shows "conn_states (uip_rexmit app r s) \<in> moves r {UIP_CLOSED} (conn_states s)"
  by (auto simp: uip_rexmit_def Let_def conn_states_updates conn_states_appcall [OF assms])

lemma time_wait_tick:
  "conn_states (conn_update r (\<lambda>c. if c_timer c + 1 = UIP_TIME_WAIT_TIMEOUT
     then c\<lparr>c_timer := c_timer c + 1, c_tcpstateflags := UIP_CLOSED\<rparr> else c\<lparr>c_timer := c_timer c + 1\<rparr>) s) \<in> moves r {UIP_CLOSED} (conn_states s)"
  (is "conn_states (conn_update r ?f s) \<in> _")
proof (cases "c_timer (u_conns s ! r) + 1 = UIP_TIME_WAIT_TIMEOUT")
  case True
  then show ?thesis by (simp add: conn_states_update tcp_state_def)
next
  case False
  then have "tcp_state (?f (u_conns s ! r)) = tcp_state (u_conns s ! r)" by (simp add: tcp_state_def)
  then have "conn_states (conn_update r ?f s) = conn_states s"
    by (cases "r < length (u_conns s)") (simp_all add: conn_states_def conn_update_def map_update list_update_same_conv list_update_beyond)
  then show ?thesis by simp
qed

lemma uip_timer_moves:
  assumes "app_keeps_states app"
  shows "conn_states (uip_timer app r s) \<in>
    moves r (insert UIP_CLOSED (if tcp_state (u_conns s ! r) = UIP_ESTABLISHED then {UIP_FIN_WAIT_1} else {})) (conn_states s)"
proof -
  define B where "B = insert UIP_CLOSED (if tcp_state (u_conns s ! r) = UIP_ESTABLISHED then {UIP_FIN_WAIT_1} else {})"
  define c where "c = u_conns s ! r"
  define t where "t = s\<lparr>u_iss := increment4 (u_iss s), u_len := 0, u_slen := 0\<rparr>"
  define u where "u = conn_update r (\<lambda>c. c\<lparr>c_timer := c_timer c - 1\<rparr>) t"
  have st: "conn_states t = conn_states s" "conn_states u = conn_states s" "u_conns t = u_conns s"
    by (simp_all add: u_def t_def conn_states_updates)
  have rexmit: "conn_states (uip_rexmit app r u) \<in> moves r B (conn_states s)"
    using uip_rexmit_moves [OF assms, of r u] unfolding st by (rule moves_mono) (auto simp: B_def)
  have poll: "conn_states (uip_poll app r t) \<in> moves r B (conn_states s)" if "tcp_state c = UIP_ESTABLISHED"
    using uip_poll_moves [OF assms, of r t] that unfolding st c_def by (elim moves_mono) (auto simp: B_def)
  have tick: "conn_states (conn_update r (\<lambda>c. if c_timer c + 1 = UIP_TIME_WAIT_TIMEOUT
     then c\<lparr>c_timer := c_timer c + 1, c_tcpstateflags := UIP_CLOSED\<rparr> else c\<lparr>c_timer := c_timer c + 1\<rparr>) t) \<in> moves r B (conn_states s)"
    using time_wait_tick [of r t] unfolding st by (rule moves_mono) (auto simp: B_def)
  show ?thesis
    unfolding B_def [symmetric] unfolding uip_timer_def Let_def t_def [symmetric] st(3) c_def [symmetric] u_def [symmetric]
    using rexmit poll tick by (simp add: st tcp_state_def)
qed

lemma free_conn_state:
  "free_conn conns found ks = Some r \<Longrightarrow> (\<And>k. found = Some k \<Longrightarrow> c_tcpstateflags (conns ! k) = UIP_TIME_WAIT) \<Longrightarrow>
    c_tcpstateflags (conns ! r) \<in> {UIP_CLOSED, UIP_TIME_WAIT}"
  by (induction conns found ks rule: free_conn.induct) (auto split: if_splits)

lemma found_listen_moves:
  assumes "found_listen p s = Some s'"
  shows "\<exists>r. conn_states s' \<in> moves r {UIP_SYN_RCVD} (conn_states s) \<and>
    (conn_states s' = conn_states s \<or> c_tcpstateflags (u_conns s ! r) \<in> {UIP_CLOSED, UIP_TIME_WAIT})"
proof (cases "free_conn (u_conns s) None [0..<length (u_conns s)]")
  case None
  then show ?thesis using assms by (simp add: found_listen_def) (metis conn_states_ip_send(1) movesI(1))
next
  case (Some r)
  from free_conn_state [OF this] have "c_tcpstateflags (u_conns s ! r) \<in> {UIP_CLOSED, UIP_TIME_WAIT}" by simp
  moreover have "conn_states s' = (conn_states s)[r := UIP_SYN_RCVD]"
    using assms by (auto simp: found_listen_def Some Let_def conn_states_updates dest!: conn_states_parse_mss split: option.splits)
  ultimately show ?thesis by (intro exI [of _ r]) simp
qed

section \<open>The state diagram\<close>

text \<open>
  What TCP allows, for a connection \<open>c\<close> and a packet \<open>b\<close> that has been received if the request is
  \<open>UIP_DATA\<close>: the arrows of its diagram with what triggers them.  An application that is called may
  close or abort the connection, which is where two or three states follow.
\<close>

definition fin_in_sequence :: "u8 list \<Rightarrow> uip_conn_t \<Rightarrow> bool" where
  "fin_in_sequence b c \<longleftrightarrow> b ! 47 AND TCP_FIN \<noteq> 0 \<and> slice 38 4 b = c_rcv_nxt c"

inductive tcp_step :: "uip_request \<Rightarrow> u8 list \<Rightarrow> uip_conn_t \<Rightarrow> u8 \<Rightarrow> bool" for flag b c where
  stays: "tcp_step flag b c (tcp_state c)"
| reset: "flag = UIP_DATA \<Longrightarrow> same_peer b c \<Longrightarrow> b ! 47 AND TCP_RST \<noteq> 0 \<Longrightarrow> tcp_step flag b c UIP_CLOSED"
| timed_out: "flag = UIP_TIMER \<Longrightarrow> tcp_step flag b c UIP_CLOSED"
| opened: "flag = UIP_DATA \<Longrightarrow> tcp_state c \<in> {UIP_CLOSED, UIP_TIME_WAIT} \<Longrightarrow> b ! 47 AND TCP_CTL = TCP_SYN \<Longrightarrow>
    tcp_step flag b c UIP_SYN_RCVD"
| accepted: "flag = UIP_DATA \<Longrightarrow> tcp_state c = UIP_SYN_RCVD \<Longrightarrow> same_peer b c \<Longrightarrow> acknowledges b c \<Longrightarrow>
    a \<in> {UIP_ESTABLISHED, UIP_FIN_WAIT_1, UIP_CLOSED} \<Longrightarrow> tcp_step flag b c a"
| connected: "flag = UIP_DATA \<Longrightarrow> tcp_state c = UIP_SYN_SENT \<Longrightarrow> same_peer b c \<Longrightarrow> acknowledges b c \<Longrightarrow>
    b ! 47 AND TCP_CTL = TCP_SYN OR TCP_ACK \<Longrightarrow> a \<in> {UIP_ESTABLISHED, UIP_FIN_WAIT_1} \<Longrightarrow> tcp_step flag b c a"
| refused: "flag = UIP_DATA \<Longrightarrow> tcp_state c = UIP_SYN_SENT \<Longrightarrow> same_peer b c \<Longrightarrow> tcp_step flag b c UIP_CLOSED"
| closes: "(flag = UIP_DATA \<Longrightarrow> same_peer b c) \<Longrightarrow> tcp_state c = UIP_ESTABLISHED \<Longrightarrow>
    a \<in> {UIP_FIN_WAIT_1, UIP_CLOSED} \<Longrightarrow> tcp_step flag b c a"
| peer_closes: "flag = UIP_DATA \<Longrightarrow> tcp_state c = UIP_ESTABLISHED \<Longrightarrow> same_peer b c \<Longrightarrow> fin_in_sequence b c \<Longrightarrow>
    tcp_step flag b c UIP_LAST_ACK"
| last_acknowledged: "flag = UIP_DATA \<Longrightarrow> tcp_state c = UIP_LAST_ACK \<Longrightarrow> same_peer b c \<Longrightarrow> acknowledges b c \<Longrightarrow>
    tcp_step flag b c UIP_CLOSED"
| close_acknowledged: "flag = UIP_DATA \<Longrightarrow> tcp_state c = UIP_FIN_WAIT_1 \<Longrightarrow> same_peer b c \<Longrightarrow> acknowledges b c \<Longrightarrow>
    tcp_step flag b c UIP_FIN_WAIT_2"
| both_close: "flag = UIP_DATA \<Longrightarrow> tcp_state c = UIP_FIN_WAIT_1 \<Longrightarrow> same_peer b c \<Longrightarrow> fin_in_sequence b c \<Longrightarrow>
    tcp_step flag b c UIP_CLOSING"
| both_closed: "flag = UIP_DATA \<Longrightarrow> tcp_state c = UIP_FIN_WAIT_1 \<Longrightarrow> same_peer b c \<Longrightarrow> fin_in_sequence b c \<Longrightarrow> acknowledges b c \<Longrightarrow>
    tcp_step flag b c UIP_TIME_WAIT"
| peer_closed: "flag = UIP_DATA \<Longrightarrow> tcp_state c = UIP_FIN_WAIT_2 \<Longrightarrow> same_peer b c \<Longrightarrow> fin_in_sequence b c \<Longrightarrow>
    tcp_step flag b c UIP_TIME_WAIT"
| closing_acknowledged: "flag = UIP_DATA \<Longrightarrow> tcp_state c = UIP_CLOSING \<Longrightarrow> same_peer b c \<Longrightarrow> acknowledges b c \<Longrightarrow>
    tcp_step flag b c UIP_TIME_WAIT"

inductive_cases tcp_step_from: "tcp_step flag b c a"

lemma tcp_found_moves:
  assumes "app_keeps_states app" "same_peer (u_buf s) (u_conns s ! r)" "tcp_found app r s = Some s'"
  shows "conn_states s' \<in> moves r (Collect (tcp_step UIP_DATA (u_buf s) (u_conns s ! r))) (conn_states s)"
proof -
  let ?b = "u_buf s" and ?c = "u_conns s ! r" let ?A = "Collect (tcp_step UIP_DATA ?b ?c)"
  define t where "t = s\<lparr>u_conn := Some r, u_flags := 0, u_len := u_len s - push_bit 2 (ucast (drop_bit 4 (?b ! 46))) - 20\<rparr>"
  define u where "u = tcp_acked r t"
  have t: "u_buf t = ?b" "u_conns t = u_conns s" "u_flags t = 0" "u_conn t = Some r" "conn_states t = conn_states s"
    by (simp_all add: t_def)
  have u: "conn_states u = conn_states s" "u_buf u = ?b" "u_conn u = Some r"
    "u_flags u AND UIP_ACKDATA \<noteq> 0 \<longleftrightarrow> acknowledges ?b ?c"
    using tcp_acked_flag [OF t(3), of r] by (simp_all add: u_def tcp_acked_states t)
  have mono: "cs \<in> moves r ?A (conn_states s)" if "cs \<in> moves r B (conn_states s)" "B \<subseteq> ?A" for cs B
    using that by (rule moves_mono)
  let ?c' = "u_conns u ! r"
  have e: "tcp_found app r s =
    (if ?b ! 47 AND TCP_RST \<noteq> 0 then
       Some (uip_drop (UIP_APPCALL app ((conn_update r (\<lambda>c. c\<lparr>c_tcpstateflags := UIP_CLOSED\<rparr>) (s\<lparr>u_conn := Some r, u_flags := 0\<rparr>))\<lparr>u_flags := UIP_ABORT\<rparr>)))
     else if \<not> (c_tcpstateflags ?c AND UIP_TS_MASK = UIP_SYN_SENT \<and> ?b ! 47 AND TCP_CTL = TCP_SYN OR TCP_ACK) \<and>
        (0 < u_len t \<or> ?b ! 47 AND (TCP_SYN OR TCP_FIN) \<noteq> 0) \<and> slice 38 4 ?b \<noteq> c_rcv_nxt ?c
     then Some (tcp_send_ack r t)
     else if c_tcpstateflags ?c' AND UIP_TS_MASK = UIP_SYN_RCVD then Some (tcp_syn_rcvd app r u)
     else if c_tcpstateflags ?c' AND UIP_TS_MASK = UIP_SYN_SENT then tcp_syn_sent app r u
     else if c_tcpstateflags ?c' AND UIP_TS_MASK = UIP_ESTABLISHED then Some (tcp_established app r u)
     else if c_tcpstateflags ?c' AND UIP_TS_MASK = UIP_LAST_ACK then Some (tcp_last_ack app r u)
     else if c_tcpstateflags ?c' AND UIP_TS_MASK = UIP_FIN_WAIT_1 then Some (tcp_fin_wait_1 app r u)
     else if c_tcpstateflags ?c' AND UIP_TS_MASK = UIP_FIN_WAIT_2 then Some (tcp_fin_wait_2 app r u)
     else if c_tcpstateflags ?c' AND UIP_TS_MASK = UIP_TIME_WAIT then Some (tcp_send_ack r u)
     else if c_tcpstateflags ?c' AND UIP_TS_MASK = UIP_CLOSING then Some (tcp_closing r u)
     else Some (uip_drop u))"
    unfolding tcp_found_def Let_def u_def t_def by simp
  show ?thesis
  proof (cases "?b ! 47 AND TCP_RST \<noteq> 0")
    case True
    then show ?thesis
      using assms(2,3) tcp_step.reset [of UIP_DATA ?b ?c]
      unfolding e by (auto simp: conn_states_updates conn_states_appcall [OF assms(1)])
  next
    case False
    note rst = this
    show ?thesis
    proof (cases "\<not> (c_tcpstateflags ?c AND UIP_TS_MASK = UIP_SYN_SENT \<and> ?b ! 47 AND TCP_CTL = TCP_SYN OR TCP_ACK) \<and>
        (0 < u_len t \<or> ?b ! 47 AND (TCP_SYN OR TCP_FIN) \<noteq> 0) \<and> slice 38 4 ?b \<noteq> c_rcv_nxt ?c")
      case True
      then have "s' = tcp_send_ack r t"
        using assms(3) rst unfolding e by simp
      then show ?thesis by (simp add: t)
    next
      case False
      have split: "x AND TCP_FIN = (x AND (TCP_SYN OR TCP_FIN)) AND TCP_FIN" for x
      proof -
        have "(TCP_SYN OR TCP_FIN) AND TCP_FIN = TCP_FIN" by code_simp
        then show ?thesis by (simp add: and.assoc)
      qed
      have fin: "fin_in_sequence ?b ?c" if "?b ! 47 AND TCP_FIN \<noteq> 0" "tcp_state ?c \<noteq> UIP_SYN_SENT"
        using False that split [of "?b ! 47"] by (auto simp: fin_in_sequence_def tcp_state_def)
      have st: "c_tcpstateflags (u_conns u ! r) AND UIP_TS_MASK = tcp_state ?c"
      proof (cases "r < length (u_conns s)")
        case True
        then have "map tcp_state (u_conns u) ! r = map tcp_state (u_conns s) ! r" using u(1) by (simp add: conn_states_def)
        moreover have "length (u_conns u) = length (u_conns s)" using u(1) unfolding conn_states_def by (metis length_map)
        ultimately show ?thesis using True by (simp add: tcp_state_def)
      next
        case False
        then show ?thesis by (simp add: u_def tcp_acked_def Let_def conn_update_def t list_update_beyond tcp_state_def)
      qed
      let ?st = "tcp_state ?c"
      have s': "(if ?st = UIP_SYN_RCVD then Some (tcp_syn_rcvd app r u)
        else if ?st = UIP_SYN_SENT then tcp_syn_sent app r u
        else if ?st = UIP_ESTABLISHED then Some (tcp_established app r u)
        else if ?st = UIP_LAST_ACK then Some (tcp_last_ack app r u)
        else if ?st = UIP_FIN_WAIT_1 then Some (tcp_fin_wait_1 app r u)
        else if ?st = UIP_FIN_WAIT_2 then Some (tcp_fin_wait_2 app r u)
        else if ?st = UIP_TIME_WAIT then Some (tcp_send_ack r u)
        else if ?st = UIP_CLOSING then Some (tcp_closing r u)
        else Some (uip_drop u)) = Some s'"
        using assms(3) unfolding e st if_not_P [OF rst] if_not_P [OF False] .
      note steps = tcp_step.intros(1,3,5-) [where flag = UIP_DATA and b = ?b and c = ?c]
      have peer: "UIP_DATA = UIP_DATA \<Longrightarrow> same_peer ?b ?c" using assms(2) .
      consider "?st = UIP_SYN_RCVD" | "?st = UIP_SYN_SENT" | "?st = UIP_ESTABLISHED" | "?st = UIP_LAST_ACK" | "?st = UIP_FIN_WAIT_1"
        | "?st = UIP_FIN_WAIT_2" | "?st = UIP_CLOSING"
        | "?st \<notin> {UIP_SYN_RCVD, UIP_SYN_SENT, UIP_ESTABLISHED, UIP_LAST_ACK, UIP_FIN_WAIT_1, UIP_FIN_WAIT_2, UIP_CLOSING}"
        by auto
      then show ?thesis
      proof cases
        case 1
        then have "s' = tcp_syn_rcvd app r u" using s' by simp
        with syn_rcvd_moves [OF assms(1), of r u] 1 show ?thesis
          unfolding u by (intro mono, simp) (auto intro: steps peer)
      next
        case 2
        then have "tcp_syn_sent app r u = Some s'" using s' by (simp add: state_numbers)
        from syn_sent_moves [OF assms(1) u(3) this] 2 show ?thesis
          unfolding u by (elim mono) (auto intro: steps peer)
      next
        case 3
        have f: "fin_in_sequence ?b ?c" if "?b ! 47 AND TCP_FIN \<noteq> 0" using fin [OF that] 3 by (simp add: not_syn_sent)
        from 3 have "s' = tcp_established app r u" using s' by (simp add: state_numbers)
        with established_moves [OF assms(1), of r u] 3 show ?thesis
          unfolding u by (intro mono, simp) (auto intro: steps peer f)
      next
        case 4
        then have "s' = tcp_last_ack app r u" using s' by (simp add: state_numbers)
        with closing_moves(1) [OF assms(1), of r u] 4 show ?thesis
          unfolding u by (intro mono, simp) (auto intro: steps peer)
      next
        case 5
        have f: "fin_in_sequence ?b ?c" if "?b ! 47 AND TCP_FIN \<noteq> 0" using fin [OF that] 5 by (simp add: not_syn_sent)
        from 5 have "s' = tcp_fin_wait_1 app r u" using s' by (simp add: state_numbers)
        with closing_moves(2) [OF assms(1), of r u] 5 show ?thesis
          unfolding u by (intro mono, simp) (auto intro: steps peer f)
      next
        case 6
        have f: "fin_in_sequence ?b ?c" if "?b ! 47 AND TCP_FIN \<noteq> 0" using fin [OF that] 6 by (simp add: not_syn_sent)
        from 6 have "s' = tcp_fin_wait_2 app r u" using s' by (simp add: state_numbers)
        with closing_moves(3) [OF assms(1), of r u] 6 show ?thesis
          unfolding u by (intro mono, simp) (auto intro: steps peer f)
      next
        case 7
        then have "s' = tcp_closing r u" using s' by (simp add: state_numbers)
        with closing_moves(4) [OF assms(1), of r u] 7 show ?thesis
          unfolding u by (intro mono, simp) (auto intro: steps peer)
      next
        case 8
        then have "conn_states s' = conn_states s" using s' u(1) by (auto split: if_splits)
        then show ?thesis by simp
      qed
    qed
  qed
qed

lemma found_listen_step:
  assumes "found_listen p s = Some s'" "u_buf s ! 47 AND TCP_CTL = TCP_SYN"
  shows "\<exists>r. conn_states s' \<in> moves r (Collect (tcp_step UIP_DATA (u_buf s) (u_conns s ! r))) (conn_states s)"
proof -
  obtain r where r: "conn_states s' \<in> moves r {UIP_SYN_RCVD} (conn_states s)"
    "conn_states s' = conn_states s \<or> c_tcpstateflags (u_conns s ! r) \<in> {UIP_CLOSED, UIP_TIME_WAIT}"
    using found_listen_moves [OF assms(1)] by blast
  show ?thesis
  proof (cases "conn_states s' = conn_states s")
    case False
    then have "tcp_state (u_conns s ! r) \<in> {UIP_CLOSED, UIP_TIME_WAIT}" using r(2) by (auto simp: tcp_state_def)
    then show ?thesis using r(1) assms(2) by (intro exI [of _ r]) (auto elim!: moves_mono intro: tcp_step.opened)
  qed simp
qed

lemma tcp_input_step:
  assumes "app_keeps_states app" "tcp_input app s = Some s'"
  shows "\<exists>r. conn_states s' \<in> moves r (Collect (tcp_step UIP_DATA (u_buf s) (u_conns s ! r))) (conn_states s)"
proof (cases "conn_of_segment s")
  case (Some r)
  then have "same_peer (u_buf s) (u_conns s ! r)" by (auto simp: conn_of_segment_def find_Some_iff same_peer_def)
  with tcp_found_moves [OF assms(1) this] Some assms(2) show ?thesis
    by (auto simp: tcp_input_def split: if_splits)
next
  case None
  then show ?thesis
    using assms(2) found_listen_step [of "raw16 (u_buf s) 36" s s'] by (auto simp: tcp_input_def split: if_splits option.splits)
qed

lemma udp_input_states:
  "app_keeps_states app \<Longrightarrow> conn_states (udp_input app s) = conn_states s"
  by (simp add: udp_input_def udp_found_def Let_def conn_states_appcall split: option.split)

lemma ip_input_step:
  assumes "app_keeps_states app" "ip_input app s = Some s'"
  shows "\<exists>r. conn_states s' \<in> moves r (Collect (tcp_step UIP_DATA (u_buf s) (u_conns s ! r))) (conn_states s)"
proof -
  have "conn_states (icmp_input t) = conn_states t" for t :: "'a uip_state_scheme"
    by (simp add: icmp_input_def Let_def)
  then show ?thesis
    using assms(2) tcp_input_step [OF assms(1), of "s\<lparr>u_len := be16 (u_buf s ! 16) (u_buf s ! 17)\<rparr>" s']
    by (auto simp: ip_input_def Let_def udp_input_states [OF assms(1)] split: if_splits)
qed

lemma timer_step:
  assumes "app_keeps_states app"
  shows "conn_states (uip_timer app r s) \<in> moves r (Collect (tcp_step UIP_TIMER b (u_conns s ! r))) (conn_states s)"
    "tcp_state (u_conns s ! r) = UIP_ESTABLISHED \<Longrightarrow>
      conn_states (uip_poll app r s) \<in> moves r (Collect (tcp_step UIP_POLL_REQUEST b (u_conns s ! r))) (conn_states s)"
  using uip_timer_moves [OF assms, of r s] uip_poll_moves [OF assms, of r s]
  by (auto elim!: moves_mono intro: tcp_step.intros split: if_splits)

lemma uip_process_step:
  assumes "app_keeps_states app" "uip_process app flag s = Some s'"
  shows "\<exists>r. conn_states s' \<in> moves r (Collect (tcp_step flag (u_buf s) (u_conns s ! r))) (conn_states s)"
proof (cases flag)
  case UIP_DATA
  then show ?thesis
    using ip_input_step [OF assms(1), of "s\<lparr>u_sappdata := 54, u_appdata := 54\<rparr>" s'] assms(2) by (simp add: uip_process_def)
next
  case UIP_TIMER
  then show ?thesis
    using timer_step(1) [OF assms(1), of "the (u_conn s)" "s\<lparr>u_sappdata := 54, u_appdata := 54\<rparr>" "u_buf s"] assms(2)
    by (auto simp: uip_process_def Let_def)
next
  case UIP_POLL_REQUEST
  then show ?thesis
    using timer_step(2) [OF assms(1), of "s\<lparr>u_sappdata := 54, u_appdata := 54\<rparr>" "the (u_conn s)" "u_buf s"] assms(2)
    by (auto simp: uip_process_def Let_def tcp_state_def split: if_splits)
qed (use assms in \<open>auto simp: uip_process_def Let_def conn_states_appcall split: if_splits\<close>)

section \<open>Properties\<close>



end
