(* ===== verification/Router.thy ===== *)
theory Router imports Uip_Spec begin

text \<open>
  The router between several stacks (protocols/uip/uip_router.c) and the timer of the TCP/IP stack
  (at the end of protocols/uip/uip.c), built with IP forwarding and without packet filters.  The
  transmission of the packet by the link of a stack is a parameter \<open>tx\<close>.
\<close>

section \<open>The code\<close>

record uip_router_state = uip_state +
  u_draddr :: "u8 list"

text \<open>The argument \<open>forwardip\<close>: a null pointer, a pointer to an address, or to \<open>uip_draddr\<close>.\<close>

datatype forward_ip = Null_Addr | Forward "u8 list" | Default_Router

definition forward_addr :: "forward_ip \<Rightarrow> 'z uip_router_state_scheme \<Rightarrow> u8 list" where
  "forward_addr f s = (case f of Forward a \<Rightarrow> a | _ \<Rightarrow> u_draddr s)"

definition uip_ipaddr_maskcmp :: "u8 list \<Rightarrow> u8 list \<Rightarrow> u8 list \<Rightarrow> bool" where
  "uip_ipaddr_maskcmp a b m \<longleftrightarrow> map2 (AND) a m = map2 (AND) b m"

fun find_stack_loop :: "forward_ip \<Rightarrow> nat list \<Rightarrow> 'z uip_router_state_scheme \<Rightarrow> nat option \<times> 'z uip_router_state_scheme" where
  "find_stack_loop f [] s = (None, s)"
| "find_stack_loop f (i # is) s =
    (let s = uip_stack_set_active i s
     in if f = Null_Addr \<and> slice 30 4 (u_buf s) = uip_hostaddr s then (Some i, s)
        else if f \<noteq> Null_Addr \<and> uip_ipaddr_maskcmp (forward_addr f s) (uip_hostaddr s) (uip_netmask s) then (Some i, s)
        else find_stack_loop f is s)"

definition router_find_stack :: "forward_ip \<Rightarrow> 'z uip_router_state_scheme \<Rightarrow> nat \<times> 'z uip_router_state_scheme" where
  "router_find_stack f s =
    (case find_stack_loop f [0..<length (u_stacks s)] s of
       (Some i, s) \<Rightarrow> (i, s)
     | (None, s) \<Rightarrow>
         if f \<noteq> Null_Addr \<and> f \<noteq> Default_Router then
           (case find_stack_loop Default_Router [0..<length (u_stacks s)] s of
              (Some i, s) \<Rightarrow> (i, s)
            | (None, s) \<Rightarrow> (255, s))
         else (255, s))"

type_synonym 'z uip_tx = "nat \<Rightarrow> 'z uip_router_state_scheme \<Rightarrow> 'z uip_router_state_scheme"

definition router_output_to :: "'z uip_tx \<Rightarrow> nat \<Rightarrow> 'z uip_router_state_scheme \<Rightarrow> 'z uip_router_state_scheme" where
  "router_output_to tx dest s = tx dest (uip_stack_set_active dest s)"

definition router_output :: "'z uip_tx \<Rightarrow> 'z uip_router_state_scheme \<Rightarrow> 'z uip_router_state_scheme" where
  "router_output tx s =
    (let (dest, s) = router_find_stack (Forward (slice 30 4 (u_buf s))) s
     in if dest = 255 then s\<lparr>u_len := 0\<rparr> else router_output_to tx dest s)"

definition router_input ::
  "'z uip_router_state_ext uip_app \<Rightarrow> 'z uip_tx \<Rightarrow> nat \<Rightarrow> 'z uip_router_state_scheme \<Rightarrow> 'z uip_router_state_scheme option" where
  "router_input app tx origin s =
    (let (dest, s) = router_find_stack Null_Addr s
     in if dest < 255 then uip_input app (uip_stack_set_active dest s)
        else
          let (dest, s) = router_find_stack (Forward (slice 30 4 (u_buf s))) s
          in if dest = 255 then Some (s\<lparr>u_len := 0\<rparr>)
             else if origin = dest then Some (s\<lparr>u_len := 0\<rparr>)
             else
               let s = uip_put 22 [u_buf s ! 22 - 1] s
               in if u_buf s ! 22 = 0 then Some (s\<lparr>u_len := 0\<rparr>)
                  else
                    let s = uip_put 24 (raw_bytes (checksum_bump 1 (raw16 (u_buf s) 24))) s;
                        s = s\<lparr>u_len := u_len s - 14\<rparr>;
                        s = router_output_to tx dest s
                    in Some (s\<lparr>u_len := 0\<rparr>))"

text \<open>The timer: each connection is polled with its stack active, and a packet this makes is sent.\<close>

fun timer_conns ::
  "'z uip_router_state_ext uip_app \<Rightarrow> 'z uip_tx \<Rightarrow> nat list \<Rightarrow> 'z uip_router_state_scheme \<Rightarrow> 'z uip_router_state_scheme option" where
  "timer_conns app tx [] s = Some s"
| "timer_conns app tx (i # is) s =
    (case uip_periodic app i (uip_stack_set_active (c_stack (u_conns s ! i)) s) of None \<Rightarrow> None
     | Some s \<Rightarrow> timer_conns app tx is (if 0 < u_len s then router_output tx s else s))"

fun timer_udp_conns ::
  "'z uip_router_state_ext uip_app \<Rightarrow> 'z uip_tx \<Rightarrow> nat list \<Rightarrow> 'z uip_router_state_scheme \<Rightarrow> 'z uip_router_state_scheme option" where
  "timer_udp_conns app tx [] s = Some s"
| "timer_udp_conns app tx (i # is) s =
    (case uip_udp_periodic app i (uip_stack_set_active (d_stack (u_udp_conns s ! i)) s) of None \<Rightarrow> None
     | Some s \<Rightarrow> timer_udp_conns app tx is (if 0 < u_len s then router_output tx s else s))"

definition uip_timer_hook ::
  "'z uip_router_state_ext uip_app \<Rightarrow> 'z uip_tx \<Rightarrow> 'z uip_router_state_scheme \<Rightarrow> 'z uip_router_state_scheme option" where
  "uip_timer_hook app tx s =
    (case timer_conns app tx [0..<length (u_conns s)] s of None \<Rightarrow> None
     | Some s \<Rightarrow> timer_udp_conns app tx [0..<length (u_udp_conns s)] s)"

section \<open>The routing table\<close>

text \<open>The route of an address: the first stack on whose net it is, or else that of the default router.\<close>

definition on_net :: "(u8 list \<times> u8 list) list \<Rightarrow> u8 list \<Rightarrow> nat \<Rightarrow> bool" where
  "on_net stacks a i = uip_ipaddr_maskcmp a (fst (stacks ! i)) (snd (stacks ! i))"

definition route :: "(u8 list \<times> u8 list) list \<Rightarrow> u8 list \<Rightarrow> u8 list \<Rightarrow> nat option" where
  "route stacks dr a =
    (case find (on_net stacks a) [0..<length stacks] of Some i \<Rightarrow> Some i
     | None \<Rightarrow> find (on_net stacks dr) [0..<length stacks])"

lemma stack_frame [simp]:
  "u_buf (uip_stack_set_active i s) = u_buf s" "u_stacks (uip_stack_set_active i s) = u_stacks s"
  "u_draddr (uip_stack_set_active i s) = u_draddr s" "u_len (uip_stack_set_active i s) = u_len s"
  "u_stack (uip_stack_set_active i s) = i"
  "uip_stack_set_active i (uip_stack_set_active j s) = uip_stack_set_active i s"
  by (simp_all add: uip_stack_set_active_def)

lemma find_stack_loop_active:
  assumes "find_stack_loop f is s = (k, s')"
  shows "(is = [] \<and> s' = s \<or> (\<exists>i \<in> set is. s' = uip_stack_set_active i s)) \<and> (\<forall>i. k = Some i \<longrightarrow> s' = uip_stack_set_active i s)"
  using assms
proof (induction "is" arbitrary: s)
  case (Cons i "is")
  from Cons.IH [of "uip_stack_set_active i s"] Cons.prems show ?case
    by (auto simp: Let_def split: if_splits)
qed simp

lemma find_stack_loop_find:
  "find_stack_loop Null_Addr is s = (k, s') \<Longrightarrow> k = find (\<lambda>i. fst (u_stacks s ! i) = slice 30 4 (u_buf s)) is"
  "find_stack_loop (Forward a) is s = (k, s') \<Longrightarrow> k = find (on_net (u_stacks s) a) is"
  "find_stack_loop Default_Router is s = (k, s') \<Longrightarrow> k = find (on_net (u_stacks s) (u_draddr s)) is"
proof (induction "is" arbitrary: s)
  case (Cons i "is")
  { case 1 with Cons.IH(1) [of "uip_stack_set_active i s"] show ?case
      by (auto simp: Let_def uip_hostaddr_def split: if_splits) }
  { case 2 with Cons.IH(2) [of "uip_stack_set_active i s"] show ?case
      by (auto simp: Let_def uip_hostaddr_def uip_netmask_def on_net_def forward_addr_def split: if_splits) }
  { case 3 with Cons.IH(3) [of "uip_stack_set_active i s"] show ?case
      by (auto simp: Let_def uip_hostaddr_def uip_netmask_def on_net_def forward_addr_def split: if_splits) }
qed simp_all

lemma find_bound: "find P [0..<n] = Some i \<Longrightarrow> i < n \<and> P i"
  by (auto simp: find_Some_iff)

lemma find_stack_null:
  assumes "u_stacks s \<noteq> []"
  shows "\<exists>j. router_find_stack Null_Addr s =
    (case find (\<lambda>i. fst (u_stacks s ! i) = slice 30 4 (u_buf s)) [0..<length (u_stacks s)] of
       None \<Rightarrow> (255, uip_stack_set_active j s) | Some i \<Rightarrow> (i, uip_stack_set_active i s))"
proof -
  obtain k s' where l: "find_stack_loop Null_Addr [0..<length (u_stacks s)] s = (k, s')" by fastforce
  have r: "router_find_stack Null_Addr s = (case k of None \<Rightarrow> (255, s') | Some i \<Rightarrow> (i, s'))"
    using l by (simp add: router_find_stack_def split: option.split)
  have "\<exists>j. s' = uip_stack_set_active j s" "\<And>i. k = Some i \<Longrightarrow> s' = uip_stack_set_active i s"
    using find_stack_loop_active [OF l] assms by auto
  with find_stack_loop_find(1) [OF l] show ?thesis unfolding r by (auto split: option.split)
qed

lemma find_stack_dest:
  assumes "u_stacks s \<noteq> []"
  shows "\<exists>j. router_find_stack (Forward a) s =
    (case route (u_stacks s) (u_draddr s) a of
       None \<Rightarrow> (255, uip_stack_set_active j s) | Some i \<Rightarrow> (i, uip_stack_set_active i s))"
proof -
  obtain k s' where l: "find_stack_loop (Forward a) [0..<length (u_stacks s)] s = (k, s')" by fastforce
  note a = find_stack_loop_active [OF l] find_stack_loop_find(2) [OF l]
  show ?thesis
  proof (cases k)
    case (Some i)
    then show ?thesis using a l by (auto simp: router_find_stack_def route_def split: option.splits)
  next
    case None
    then obtain j where s': "s' = uip_stack_set_active j s" using a assms by auto
    have none: "find (on_net (u_stacks s) a) [0..<length (u_stacks s)] = None" using a None by simp
    obtain k' s'' where l': "find_stack_loop Default_Router [0..<length (u_stacks s)] s' = (k', s'')" by fastforce
    have r: "router_find_stack (Forward a) s = (case k' of None \<Rightarrow> (255, s'') | Some i \<Rightarrow> (i, s''))"
      using l l' None by (simp add: router_find_stack_def s' split: option.split)
    have "k' = route (u_stacks s) (u_draddr s) a"
      using find_stack_loop_find(3) [OF l'] none by (simp add: route_def s')
    moreover have "\<exists>j. s'' = uip_stack_set_active j s" "\<And>i. k' = Some i \<Longrightarrow> s'' = uip_stack_set_active i s"
      using find_stack_loop_active [OF l'] s' by auto
    ultimately show ?thesis unfolding r by (auto split: option.split)
  qed
qed

section \<open>What the router does with a packet\<close>

lemma find_host:
  "a \<notin> fst ` set stacks \<Longrightarrow> find (\<lambda>i. fst (stacks ! i) = a) [0..<length stacks] = None"
  by (auto simp: find_None_iff)

lemma route_bound: "route stacks dr a = Some d \<Longrightarrow> d < length stacks"
  by (auto simp: route_def dest: find_bound split: option.splits)

lemma router_output_sends:
  assumes "u_stacks s \<noteq> []" "length (u_stacks s) < 255"
  shows "route (u_stacks s) (u_draddr s) (slice 30 4 (u_buf s)) = Some d \<Longrightarrow> router_output tx s = tx d (s\<lparr>u_stack := d\<rparr>)"
    "route (u_stacks s) (u_draddr s) (slice 30 4 (u_buf s)) = None \<Longrightarrow> u_len (router_output tx s) = 0"
  using find_stack_dest [OF assms(1), of "slice 30 4 (u_buf s)"] route_bound [of "u_stacks s" "u_draddr s" "slice 30 4 (u_buf s)" d] assms(2)
  by (auto simp: router_output_def router_output_to_def uip_stack_set_active_def)

lemma router_input_local:
  assumes "u_stacks s \<noteq> []" "length (u_stacks s) < 255"
    and "find (\<lambda>i. fst (u_stacks s ! i) = slice 30 4 (u_buf s)) [0..<length (u_stacks s)] = Some d"
  shows "router_input app tx origin s = uip_input app (s\<lparr>u_stack := d\<rparr>)"
  using find_stack_null [OF assms(1)] find_bound [OF assms(3)] assms(2,3)
  by (auto simp: router_input_def uip_stack_set_active_def)

lemma set_active_same: "u_stack s = i \<Longrightarrow> uip_stack_set_active i s = s"
  by (simp add: uip_stack_set_active_def)

lemma router_input_foreign:
  assumes "u_stacks s \<noteq> []" "slice 30 4 (u_buf s) \<notin> fst ` set (u_stacks s)"
  shows "\<exists>j. \<forall>app tx origin. router_input app tx origin s =
    (case route (u_stacks s) (u_draddr s) (slice 30 4 (u_buf s)) of
       None \<Rightarrow> Some ((uip_stack_set_active j s)\<lparr>u_len := 0\<rparr>)
     | Some d \<Rightarrow>
         if d = 255 \<or> d = origin then Some ((uip_stack_set_active d s)\<lparr>u_len := 0\<rparr>)
         else
           let t = uip_put 22 [u_buf s ! 22 - 1] (uip_stack_set_active d s)
           in if u_buf t ! 22 = 0 then Some (t\<lparr>u_len := 0\<rparr>)
              else Some ((tx d (uip_put 24 (raw_bytes (checksum_bump 1 (raw16 (u_buf t) 24))) t\<lparr>u_len := u_len s - 14\<rparr>))\<lparr>u_len := 0\<rparr>))"
proof -
  obtain j where n: "router_find_stack Null_Addr s = (255, uip_stack_set_active j s)"
    using find_stack_null [OF assms(1)] find_host [OF assms(2)] by auto
  have "u_stacks (uip_stack_set_active j s) \<noteq> []" using assms(1) by simp
  from find_stack_dest [OF this, of "slice 30 4 (u_buf s)"] show ?thesis
    unfolding router_input_def n by (auto simp: Let_def router_output_to_def set_active_same split: option.split)
qed

section \<open>Forwarding\<close>

definition forwarded :: "nat \<Rightarrow> 'z uip_router_state_scheme \<Rightarrow> 'z uip_router_state_scheme" where
  "forwarded d s =
    (let t = uip_put 22 [u_buf s ! 22 - 1] (uip_stack_set_active d s)
     in uip_put 24 (raw_bytes (checksum_bump 1 (raw16 (u_buf t) 24))) t\<lparr>u_len := u_len s - 14\<rparr>)"

lemma forwarded_frame:
  assumes "34 \<le> length (u_buf s)"
  shows "u_stack (forwarded d s) = d" "u_len (forwarded d s) = u_len s - 14" "length (u_buf (forwarded d s)) = length (u_buf s)"
    "u_buf (forwarded d s) ! 22 = u_buf s ! 22 - 1"
    "i \<notin> {22, 24, 25} \<Longrightarrow> i < length (u_buf s) \<Longrightarrow> u_buf (forwarded d s) ! i = u_buf s ! i"
  using assms by (auto simp: forwarded_def Let_def nth_poke raw_bytes_def simp del: poke.simps)

lemma forwarded_checksum:
  assumes "34 \<le> length (u_buf s)" "u_buf s ! 22 \<noteq> 0"
  shows "osum (slice 14 20 (u_buf (forwarded d s))) mod 65535 = osum (slice 14 20 (u_buf s)) mod 65535"
proof -
  let ?b = "u_buf s" let ?b1 = "poke 22 [?b ! 22 - 1] ?b"
  have "slice 14 20 ?b1 = (slice 14 20 ?b)[8 := ?b ! 22 - 1]"
    using slice_poke_inside [of 14 22 "[?b ! 22 - 1]" 20 ?b] by simp
  moreover have "slice 14 20 ?b ! 8 = ?b ! 22" using assms(1) by (simp add: nth_slice)
  moreover have "unat (?b ! 22 - 1) = unat (?b ! 22) - 1" "0 < unat (?b ! 22)"
    using assms(2) by (simp_all add: unat_minus_one unat_gt_0)
  ultimately have t: "osum (slice 14 20 ?b1) + 256 = osum (slice 14 20 ?b)"
    using osum_update [of 8 "slice 14 20 ?b" "?b ! 22 - 1"] assms(1) by (simp add: byte_weight_def diff_mult_distrib2)
  have "osum (slice 14 20 (poke 24 (raw_bytes (checksum_bump 1 (raw16 ?b1 24))) ?b1)) mod 65535 = (osum (slice 14 20 ?b1) + 256) mod 65535"
    using unat_checksum_bump(2) [of "raw16 ?b1 24"] assms(1) by (intro osum_bump) (simp_all del: poke.simps)
  then show ?thesis by (simp add: forwarded_def Let_def t del: poke.simps)
qed

lemma router_input_routes:
  assumes "u_stacks s \<noteq> []" "slice 30 4 (u_buf s) \<notin> fst ` set (u_stacks s)" "34 \<le> length (u_buf s)"
  shows "\<exists>j. \<forall>app tx origin. router_input app tx origin s =
    (case route (u_stacks s) (u_draddr s) (slice 30 4 (u_buf s)) of
       None \<Rightarrow> Some ((uip_stack_set_active j s)\<lparr>u_len := 0\<rparr>)
     | Some d \<Rightarrow>
         if d = 255 \<or> d = origin then Some ((uip_stack_set_active d s)\<lparr>u_len := 0\<rparr>)
         else if u_buf s ! 22 = 1 then Some ((uip_put 22 [0] (uip_stack_set_active d s))\<lparr>u_len := 0\<rparr>)
         else Some ((tx d (forwarded d s))\<lparr>u_len := 0\<rparr>))"
proof -
  have "u_buf (uip_put 22 [u_buf s ! 22 - 1] (uip_stack_set_active d s)) ! 22 = u_buf s ! 22 - 1" for d
    using assms(3) by (simp add: nth_poke del: poke.simps)
  moreover obtain j where "\<forall>app tx origin. router_input app tx origin s =
    (case route (u_stacks s) (u_draddr s) (slice 30 4 (u_buf s)) of
       None \<Rightarrow> Some ((uip_stack_set_active j s)\<lparr>u_len := 0\<rparr>)
     | Some d \<Rightarrow>
         if d = 255 \<or> d = origin then Some ((uip_stack_set_active d s)\<lparr>u_len := 0\<rparr>)
         else
           let t = uip_put 22 [u_buf s ! 22 - 1] (uip_stack_set_active d s)
           in if u_buf t ! 22 = 0 then Some (t\<lparr>u_len := 0\<rparr>)
              else Some ((tx d (uip_put 24 (raw_bytes (checksum_bump 1 (raw16 (u_buf t) 24))) t\<lparr>u_len := u_len s - 14\<rparr>))\<lparr>u_len := 0\<rparr>))"
    using router_input_foreign [OF assms(1,2)] by blast
  ultimately show ?thesis
    by (intro exI [of _ j]) (simp add: Let_def forwarded_def del: poke.simps split: option.split)
qed

lemma router_input_forwards:
  assumes "u_stacks s \<noteq> []" "slice 30 4 (u_buf s) \<notin> fst ` set (u_stacks s)" "34 \<le> length (u_buf s)" "length (u_stacks s) < 255"
    and "route (u_stacks s) (u_draddr s) (slice 30 4 (u_buf s)) = Some d" "d \<noteq> origin" "u_buf s ! 22 \<noteq> 1"
  shows "router_input app tx origin s = Some ((tx d (forwarded d s))\<lparr>u_len := 0\<rparr>)"
  using router_input_routes [OF assms(1-3)] route_bound [OF assms(5)] assms(4-7) by auto

text \<open>
  The way of a packet through any number of routers, whatever their tables: \<open>travels n b b'\<close> when the
  packet \<open>b\<close> has been forwarded \<open>n\<close> times and is \<open>b'\<close> then.
\<close>

inductive travels :: "nat \<Rightarrow> u8 list \<Rightarrow> u8 list \<Rightarrow> bool" where
  start: "travels 0 b b"
| hop: "travels n b (u_buf s) \<Longrightarrow> u_stacks s \<noteq> [] \<Longrightarrow> slice 30 4 (u_buf s) \<notin> fst ` set (u_stacks s) \<Longrightarrow>
    \<forall>app tx. router_input app tx origin s = Some ((tx d (p :: uip_router_state))\<lparr>u_len := 0\<rparr>) \<Longrightarrow> travels (Suc n) b (u_buf p)"

lemma forwards_packet:
  fixes s p :: uip_router_state
  assumes "u_stacks s \<noteq> []" "slice 30 4 (u_buf s) \<notin> fst ` set (u_stacks s)" "34 \<le> length (u_buf s)"
    and "\<forall>app tx. router_input app tx origin s = Some ((tx d p)\<lparr>u_len := 0\<rparr>)"
  shows "u_buf s ! 22 \<noteq> 1 \<and> (\<exists>e. u_buf p = u_buf (forwarded e s))"
proof -
  have ne: "\<exists>tx. Some ((tx d p)\<lparr>u_len := 0\<rparr>) \<noteq> Some t" for t :: uip_router_state
    by (rule exI [of _ "\<lambda>_ q. q\<lparr>u_appdata := Suc (u_appdata t)\<rparr>"]) (auto dest: arg_cong [of _ _ u_appdata])
  obtain j where f: "\<forall>app tx origin. router_input app tx origin s =
    (case route (u_stacks s) (u_draddr s) (slice 30 4 (u_buf s)) of
       None \<Rightarrow> Some ((uip_stack_set_active j s)\<lparr>u_len := 0\<rparr>)
     | Some d \<Rightarrow>
         if d = 255 \<or> d = origin then Some ((uip_stack_set_active d s)\<lparr>u_len := 0\<rparr>)
         else if u_buf s ! 22 = 1 then Some ((uip_put 22 [0] (uip_stack_set_active d s))\<lparr>u_len := 0\<rparr>)
         else Some ((tx d (forwarded d s))\<lparr>u_len := 0\<rparr>))"
    using router_input_routes [OF assms(1-3)] by blast
  have "\<exists>e. route (u_stacks s) (u_draddr s) (slice 30 4 (u_buf s)) = Some e \<and> e \<noteq> 255 \<and> e \<noteq> origin \<and> u_buf s ! 22 \<noteq> 1"
  proof (rule ccontr)
    assume n: "\<not> ?thesis"
    have const: False if "\<And>app tx. router_input app tx origin s = Some t" for t
      using that assms(4) ne [of t] by metis
    show False
    proof (cases "route (u_stacks s) (u_draddr s) (slice 30 4 (u_buf s))")
      case None
      then show False using const f by simp
    next
      case (Some e)
      show False
      proof (cases "e = 255 \<or> e = origin")
        case True
        then show False using const [of "(uip_stack_set_active e s)\<lparr>u_len := 0\<rparr>"] f Some by auto
      next
        case False
        then have "u_buf s ! 22 = 1" using n Some by auto
        then show False using const [of "(uip_put 22 [0] (uip_stack_set_active e s))\<lparr>u_len := 0\<rparr>"] f Some False by simp
      qed
    qed
  qed
  then obtain e where e: "route (u_stacks s) (u_draddr s) (slice 30 4 (u_buf s)) = Some e" "e \<noteq> 255" "e \<noteq> origin" "u_buf s ! 22 \<noteq> 1"
    by blast
  have "\<forall>tx :: unit uip_tx. (tx e (forwarded e s))\<lparr>u_len := 0\<rparr> = (tx d p)\<lparr>u_len := 0\<rparr>" using f assms(4) e by simp
  then have "(forwarded e s)\<lparr>u_len := 0\<rparr> = p\<lparr>u_len := 0\<rparr>" by (rule allE [of _ "\<lambda>_ q. q"])
  then have "u_buf ((forwarded e s)\<lparr>u_len := 0\<rparr>) = u_buf (p\<lparr>u_len := 0\<rparr>)" by simp
  then show ?thesis using e(4) by (intro conjI exI [of _ e]) simp_all
qed

lemma travels_ttl:
  assumes "travels n b b'" "34 \<le> length b" "b ! 22 \<noteq> 0"
  shows "n < unat (b ! 22) \<and> unat (b' ! 22) = unat (b ! 22) - n \<and> length b' = length b \<and>
    osum (slice 14 20 b') mod 65535 = osum (slice 14 20 b) mod 65535"
  using assms
proof (induction rule: travels.induct)
  case (start b)
  then show ?case by (simp add: unat_gt_0)
next
  case (hop n b s origin d p)
  then have ih: "n < unat (b ! 22)" "unat (u_buf s ! 22) = unat (b ! 22) - n" "length (u_buf s) = length b"
    "osum (slice 14 20 (u_buf s)) mod 65535 = osum (slice 14 20 b) mod 65535" by simp_all
  obtain e where e: "u_buf s ! 22 \<noteq> 1" "u_buf p = u_buf (forwarded e s)"
    using forwards_packet [OF hop.hyps(2,3) _ hop.hyps(4)] hop.prems ih(3) by auto
  have l: "34 \<le> length (u_buf s)" using ih(3) hop.prems by simp
  have "unat (u_buf s ! 22) \<noteq> 1" using e(1) by (simp add: word_unat_eq_iff)
  moreover have z: "u_buf s ! 22 \<noteq> 0" using ih(1,2) by auto
  moreover have "unat (u_buf s ! 22 - 1) = unat (u_buf s ! 22) - 1" using z by (simp add: unat_minus_one)
  ultimately show ?case
    using ih forwarded_frame [OF l, where d = e] forwarded_checksum [OF l z, of e] by (simp add: e(2))
qed

section \<open>Properties\<close>

text \<open>A router between 10.0.0.0/24 and 10.0.1.0/24 with a default route.\<close>

definition demo_router :: "u8 list \<Rightarrow> uip_router_state" where
  "demo_router frame = \<lparr>u_buf = poke 0 frame (replicate 200 0), u_len = of_nat (length frame), u_slen = 0, u_flags = 0,
     u_appdata = 0, u_sappdata = 0, u_conns = [], u_conn = None, u_udp_conns = [], u_udp_conn = 0, u_listenports = [],
     u_iss = [0, 0, 0, 1], u_ipid = 0, u_lastport = 1024,
     u_stacks = [([10, 0, 0, 1], [255, 255, 255, 0]), ([10, 0, 1, 1], [255, 255, 255, 0])], u_stack = 0,
     u_draddr = [10, 0, 0, 254]\<rparr>"

text \<open>Datagrams from 10.0.0.2 to 10.0.1.7, and to the broadcast address of its net.\<close>

definition demo_transit :: "u8 list" where
  "demo_transit = replicate 14 0 @ [0x45, 0, 0, 30, 0, 0, 0, 0, 64, 17, 0x65, 0xc7, 10, 0, 0, 2, 10, 0, 1, 7, 0, 7, 0, 7, 0, 10, 0, 0, 1, 2]"

definition demo_broadcast :: "u8 list" where
  "demo_broadcast = replicate 14 0 @ [0x45, 0, 0, 30, 0, 0, 0, 0, 64, 17, 0x65, 0xcf, 10, 0, 0, 2, 10, 0, 0, 255, 0, 7, 0, 7, 0, 10, 0, 0, 1, 2]"

lemma demo_router_facts:
  "slice 30 4 (u_buf (demo_router demo_transit)) = [10, 0, 1, 7]" "u_buf (demo_router demo_transit) ! 22 = 64"
  "u_buf (demo_router demo_transit) ! 14 = 0x45" "u_len (demo_router demo_transit) = 44"
  "slice 30 4 (u_buf (demo_router demo_broadcast)) = [10, 0, 0, 255]" "u_buf (demo_router demo_broadcast) ! 23 = 17"
  "u_buf (demo_router demo_broadcast) ! 14 = 0x45" "be16 (u_buf (demo_router demo_broadcast) ! 16) (u_buf (demo_router demo_broadcast) ! 17) = 30"
  "slice 20 2 (u_buf (demo_router demo_broadcast)) = [0, 0]" "u_len (demo_router demo_broadcast) = 44"
  by code_simp+

lemma demo_router_sum: "slice 14 20 (u_buf (demo_router demo_transit)) =
    [0x45, 0, 0, 30, 0, 0, 0, 0, 64, 17, 0x65, 0xc7, 10, 0, 0, 2, 10, 0, 1, 7]"
  by code_simp

lemma demo_router_check: "uip_ipchksum (demo_router demo_transit) = 0xffff"
  by (simp add: demo_router_sum uip_ipchksum_ffff)

lemma demo_routes:
  "route (u_stacks (demo_router f)) (u_draddr (demo_router f)) [10, 0, 1, 7] = Some 1"
  "route (u_stacks (demo_router f)) (u_draddr (demo_router f)) [10, 0, 0, 255] = Some 0"
  "route (u_stacks (demo_router f)) (u_draddr (demo_router f)) [192, 168, 0, 1] = Some 0"
proof -
  have "u_stacks (demo_router f) = [([10, 0, 0, 1], [255, 255, 255, 0]), ([10, 0, 1, 1], [255, 255, 255, 0])]"
    "u_draddr (demo_router f) = [10, 0, 0, 254]" by (simp_all add: demo_router_def)
  moreover have
    "route [([10, 0, 0, 1], [255, 255, 255, 0]), ([10, 0, 1, 1], [255, 255, 255, 0])] [10, 0, 0, 254] [10, 0, 1, 7] = Some 1"
    "route [([10, 0, 0, 1], [255, 255, 255, 0]), ([10, 0, 1, 1], [255, 255, 255, 0])] [10, 0, 0, 254] [10, 0, 0, 255] = Some 0"
    "route [([10, 0, 0, 1], [255, 255, 255, 0]), ([10, 0, 1, 1], [255, 255, 255, 0])] [10, 0, 0, 254] [192, 168, 0, 1] = Some 0"
    by code_simp+
  ultimately show "route (u_stacks (demo_router f)) (u_draddr (demo_router f)) [10, 0, 1, 7] = Some 1"
    "route (u_stacks (demo_router f)) (u_draddr (demo_router f)) [10, 0, 0, 255] = Some 0"
    "route (u_stacks (demo_router f)) (u_draddr (demo_router f)) [192, 168, 0, 1] = Some 0" by simp_all
qed

lemma demo_router_parts:
  "u_stacks (demo_router f) \<noteq> []" "length (u_stacks (demo_router f)) = 2" "length (u_buf (demo_router f)) = 200"
  "fst ` set (u_stacks (demo_router f)) = {[10, 0, 0, 1], [10, 0, 1, 1]}"
  by (simp_all add: demo_router_def)

text \<open>
  C29. A packet for another host is forwarded: the link of the first stack on whose net the destination
  is, or of the one with the default router, gets it with its time to live one less, every other
  byte unchanged and a header checksum that still verifies, as it did before; nothing is left to
  send for the link it came from.
\<close>

theorem router_forwards:
  assumes "u_stacks s \<noteq> []" "slice 30 4 (u_buf s) \<notin> fst ` set (u_stacks s)" "34 \<le> length (u_buf s)" "length (u_stacks s) < 255"
    and "route (u_stacks s) (u_draddr s) (slice 30 4 (u_buf s)) = Some d" "d \<noteq> origin" "1 < u_buf s ! 22" "uip_ipchksum s = 0xffff"
  shows "\<exists>p. router_input app tx origin s = Some ((tx d p)\<lparr>u_len := 0\<rparr>) \<and> u_stack p = d \<and> u_len p = u_len s - 14 \<and>
    u_buf p ! 22 = u_buf s ! 22 - 1 \<and> uip_ipchksum p = 0xffff \<and>
    (\<forall>i < length (u_buf s). i \<notin> {22, 24, 25} \<longrightarrow> u_buf p ! i = u_buf s ! i)"
proof (intro exI conjI)
  have "u_buf s ! 22 \<noteq> 1" "u_buf s ! 22 \<noteq> 0" using assms(7) by auto
  then show "router_input app tx origin s = Some ((tx d (forwarded d s))\<lparr>u_len := 0\<rparr>)" "uip_ipchksum (forwarded d s) = 0xffff"
    using router_input_forwards [OF assms(1-6)] forwarded_checksum [OF assms(3)] assms(8)
    by (simp_all add: uip_ipchksum_ffff dvd_eq_mod_eq_0)
qed (use forwarded_frame [OF assms(3), where d = d] in simp_all)

theorem router_forwards_witness:
  "\<exists>p. router_input (\<lambda>f s. s) (\<lambda>d s. s) 0 (demo_router demo_transit) = Some (p\<lparr>u_len := 0\<rparr>) \<and> u_buf p ! 22 = 63 \<and> u_len p = 30 \<and>
    uip_ipchksum p = 0xffff"
  using router_forwards [of "demo_router demo_transit" 1 0 "\<lambda>f s. s" "\<lambda>d s. s"]
  by (auto simp: demo_router_parts demo_router_facts demo_routes demo_router_check)

text \<open>
  C0. No packet stays in the network for ever: whatever the tables of the routers are, in a loop or
  not, a packet with time to live \<open>n\<close> is forwarded less than \<open>n\<close> times, each time losing one, and its
  header verifies on arrival if and only if it did at the start.
\<close>

theorem router_packet_dies:
  assumes "travels n b b'" "34 \<le> length b" "b ! 22 \<noteq> 0"
  shows "n < unat (b ! 22) \<and> unat (b' ! 22) = unat (b ! 22) - n \<and>
    (65535 dvd osum (slice 14 20 b') \<longleftrightarrow> 65535 dvd osum (slice 14 20 b))"
  using travels_ttl [OF assms] by (simp add: dvd_eq_mod_eq_0)

theorem router_packet_dies_witness:
  "\<exists>b'. travels 1 (u_buf (demo_router demo_transit)) b' \<and> unat (b' ! 22) = 63"
proof -
  let ?s = "demo_router demo_transit"
  have "router_input app tx 0 ?s = Some ((tx 1 (forwarded 1 ?s))\<lparr>u_len := 0\<rparr>)" for app tx
    by (rule router_input_forwards) (simp_all add: demo_router_parts demo_router_facts demo_routes)
  then have t: "travels (Suc 0) (u_buf ?s) (u_buf (forwarded 1 ?s))"
    by (intro travels.hop [OF travels.start]) (auto simp: demo_router_parts demo_router_facts)
  from router_packet_dies [OF this] t show ?thesis by (auto simp: demo_router_parts demo_router_facts)
qed

text \<open>
  C0. With the router no broadcast arrives: a datagram for the broadcast address of the net it comes
  from, which \<open>uip_process\<close> would hand to the application of the port, is dropped unseen.
\<close>

theorem router_drops_broadcast:
  assumes "uip_wf s" "slice 30 4 (u_buf s) \<notin> fst ` set (u_stacks s)"
    and "origin < length (u_stacks s)" "route (u_stacks s) (u_draddr s) (slice 30 4 (u_buf s)) = Some origin"
    and "slice 30 4 (u_buf s) = map2 (\<lambda>h m. h OR NOT m) (fst (u_stacks s ! origin)) (snd (u_stacks s ! origin))"
    and "u_buf s ! 14 = 0x45" "be16 (u_buf s ! 16) (u_buf s ! 17) = v" "v \<le> u_len s" "slice 20 2 (u_buf s) = [0, 0]" "u_buf s ! 23 = 17"
  shows "router_input app tx origin s = Some (s\<lparr>u_stack := origin, u_len := 0\<rparr>) \<and>
    uip_input app (s\<lparr>u_stack := origin\<rparr>) = Some (udp_input app (s\<lparr>u_stack := origin, u_sappdata := 54, u_appdata := 54, u_len := v\<rparr>))"
proof
  have l: "34 \<le> length (u_buf s)" using wf_buf [OF assms(1)] by simp
  have ne: "u_stacks s \<noteq> []" using assms(3) by auto
  show "router_input app tx origin s = Some (s\<lparr>u_stack := origin, u_len := 0\<rparr>)"
    using router_input_routes [OF ne assms(2) l] assms(4) by (auto simp: uip_stack_set_active_def)
  have "u_buf s ! 20 = 0" "u_buf s ! 21 = 0"
    using nth_slice [of 20 2 "u_buf s" 0] nth_slice [of 20 2 "u_buf s" 1] l assms(9) by simp_all
  then show "uip_input app (s\<lparr>u_stack := origin\<rparr>) =
      Some (udp_input app (s\<lparr>u_stack := origin, u_sappdata := 54, u_appdata := 54, u_len := v\<rparr>))"
    using assms(5-8,10) by (simp add: uip_input_def uip_process_def ip_input_def Let_def uip_hostaddr_def uip_netmask_def)
qed

lemma demo_router_wf: "uip_wf (demo_router f)"
  by (simp add: demo_router_def uip_wf_def del: replicate.simps)

theorem router_drops_broadcast_witness:
  "router_input (\<lambda>f s. s) (\<lambda>d s. s) 0 (demo_router demo_broadcast) = Some ((demo_router demo_broadcast)\<lparr>u_stack := 0, u_len := 0\<rparr>)"
proof -
  have "map2 (\<lambda>h m. h OR NOT m) [10, 0, 0, 1 :: u8] [255, 255, 255, 0] = [10, 0, 0, 255]" by code_simp
  moreover have "u_stacks (demo_router f) ! 0 = ([10, 0, 0, 1], [255, 255, 255, 0])" for f by (simp add: demo_router_def)
  ultimately show ?thesis
    using router_drops_broadcast [of "demo_router demo_broadcast" 0 30 "\<lambda>f s. s" "\<lambda>d s. s"]
    by (simp add: demo_router_wf demo_router_parts demo_router_facts demo_routes)
qed

end
