(* ===== verification/Openvpn.thy ===== *)
theory Openvpn imports Router Uip_Open Md5 Cast5 begin

text \<open>
  The tunnel of OpenVPN in static-key mode (protocols/uip/uip_openvpn.c), built for IPv4 with MD5 and
  CAST5, over an Ethernet link.  A packet of the tunnel is in the buffer as the data of a datagram,
  from offset 42 on: the authentication code, from 58 the initial vector, from 66 the packet number
  and the time stamp, and from 74 the packet tunnelled.

  The bytes \<open>rand\<close> returns and the keys of the configuration are parameters; so is the router, which
  may call the handler of the tunnel again (\<open>router_input app tx stack_openvpn\<close> of theory \<open>Router\<close>).
\<close>

section \<open>The code\<close>

record openvpn_connection_state_t =
  next_seqno :: u32
  seen_seqno :: u32
  seen_timestamp :: u32

record uip_openvpn_state = uip_router_state +
  o_conn :: nat
  o_ctx :: cast5_ctx_t
  o_appstate :: "openvpn_connection_state_t list"

definition OPENVPN_LLH_LEN :: nat where "OPENVPN_LLH_LEN = 42"
definition OPENVPN_HMAC_LLH_LEN :: nat where "OPENVPN_HMAC_LLH_LEN = 16"
definition OPENVPN_CRYPT_LLH_LEN :: nat where "OPENVPN_CRYPT_LLH_LEN = 16"
definition OPENVPN_HMAC_CRYPT_LEN :: nat where "OPENVPN_HMAC_CRYPT_LEN = OPENVPN_HMAC_LLH_LEN + OPENVPN_CRYPT_LLH_LEN"
definition OPENVPN_TOTAL_LLH_LEN :: nat where "OPENVPN_TOTAL_LLH_LEN = OPENVPN_LLH_LEN + OPENVPN_HMAC_CRYPT_LEN"
definition OPENVPN_PORT :: u16 where "OPENVPN_PORT = 1194"

lemmas openvpn_offsets [simp] =
  OPENVPN_LLH_LEN_def OPENVPN_HMAC_LLH_LEN_def OPENVPN_CRYPT_LLH_LEN_def OPENVPN_HMAC_CRYPT_LEN_def OPENVPN_TOTAL_LLH_LEN_def

text \<open>\<open>HTONL\<close> of a word in memory, read and written.\<close>

definition get_be32 :: "u8 list \<Rightarrow> nat \<Rightarrow> u32" where
  "get_be32 b i = push_bit 24 (ucast (b ! i)) OR push_bit 16 (ucast (b ! (i + 1))) OR push_bit 8 (ucast (b ! (i + 2))) OR ucast (b ! (i + 3))"

definition put_be32 :: "u32 \<Rightarrow> u8 list" where
  "put_be32 w = [ucast (drop_bit 24 w), ucast (drop_bit 16 w), ucast (drop_bit 8 w), ucast w]"

text \<open>
  The loop over the blocks of a packet that is decrypted.  The carry is in one of two places, the
  initial vector in the packet, at \<open>iv\<close>, and a local buffer, which change their roles: the next
  one goes to the packet when \<open>inside\<close> is set.
\<close>

function cbc_dec_loop :: "cast5_ctx_t \<Rightarrow> nat \<Rightarrow> bool \<Rightarrow> u8 list \<Rightarrow> nat \<Rightarrow> nat \<Rightarrow> u8 list \<Rightarrow> u8 list" where
  "cbc_dec_loop ctx iv inside this ptr end buf =
    (if ptr < end then
       let nxt = slice ptr 8 buf;
           buf = (if inside then poke iv nxt buf else buf);
           buf = poke ptr (map2 (XOR) (cast5_dec ctx nxt) this) buf
       in cbc_dec_loop ctx iv (\<not> inside) nxt (ptr + 8) end buf
     else buf)"
  by pat_completeness auto
termination by (relation "measure (\<lambda>(_, _, _, _, ptr, end, _). end - ptr)") auto

definition openvpn_decrypt_and_verify :: "'z uip_openvpn_state_scheme \<Rightarrow> bool \<times> 'z uip_openvpn_state_scheme" where
  "openvpn_decrypt_and_verify s =
    (let a = u_appdata s; k = u_udp_conn s;
         buf = cbc_dec_loop (o_ctx s) (a + OPENVPN_HMAC_LLH_LEN) False (slice (a + OPENVPN_HMAC_LLH_LEN) 8 (u_buf s))
           (a + 8 + OPENVPN_HMAC_LLH_LEN) (a + unat (u_len s)) (u_buf s);
         s = s\<lparr>u_buf := buf\<rparr>;
         id = a + OPENVPN_HMAC_LLH_LEN + 8
     in if get_be32 buf (id + 4) \<le> seen_timestamp (o_appstate s ! k) \<and> get_be32 buf id \<le> seen_seqno (o_appstate s ! k)
        then (True, s)
        else (False, s\<lparr>o_appstate := (o_appstate s)[k := (o_appstate s ! k)\<lparr>
          seen_seqno := get_be32 buf id, seen_timestamp := get_be32 buf (id + 4)\<rparr>]\<rparr>))"

function pad_loop :: "u8 \<Rightarrow> nat \<Rightarrow> nat \<Rightarrow> u8 list \<Rightarrow> nat \<times> u8 list" where
  "pad_loop c at n buf =
    (let buf = poke (at + n) [c] buf in if Suc n mod 8 \<noteq> 0 then pad_loop c at (Suc n) buf else (Suc n, buf))"
  by pat_completeness auto
termination by (relation "measure (\<lambda>(_, _, n, _). 8 - n mod 8)") (auto simp: mod_Suc split: if_splits)

function cbc_enc_loop :: "cast5_ctx_t \<Rightarrow> nat \<Rightarrow> nat \<Rightarrow> u8 list \<Rightarrow> u8 list" where
  "cbc_enc_loop ctx ptr end buf =
    (if ptr < end
     then cbc_enc_loop ctx (ptr + 8) end (poke ptr (cast5_enc ctx (map2 (XOR) (slice ptr 8 buf) (slice (ptr - 8) 8 buf))) buf)
     else buf)"
  by pat_completeness auto
termination by (relation "measure (\<lambda>(_, ptr, end, _). end - ptr)") auto

declare cbc_dec_loop.simps [simp del] pad_loop.simps [simp del] cbc_enc_loop.simps [simp del]

definition openvpn_encrypt :: "u8 list \<Rightarrow> 'z uip_openvpn_state_scheme \<Rightarrow> 'z uip_openvpn_state_scheme" where
  "openvpn_encrypt rnd s =
    (let encrypt_start = OPENVPN_LLH_LEN + OPENVPN_HMAC_LLH_LEN; k = u_udp_conn s;
         (n, buf) = pad_loop (8 - of_nat (unat (u_slen s) mod 8)) (u_sappdata s) (unat (u_slen s)) (u_buf s);
         s = s\<lparr>u_slen := of_nat n, u_buf := buf\<rparr>;
         s = uip_put encrypt_start rnd s;
         s = uip_put (encrypt_start + 8) (put_be32 (next_seqno (o_appstate s ! k)) @ put_be32 0) s;
         s = s\<lparr>o_appstate := (o_appstate s)[k := (o_appstate s ! k)\<lparr>next_seqno := next_seqno (o_appstate s ! k) + 1\<rparr>]\<rparr>
     in s\<lparr>u_buf := cbc_enc_loop (o_ctx s) (encrypt_start + 8) (u_sappdata s + unat (u_slen s)) (u_buf s)\<rparr>)"

text \<open>The code authenticates \<open>len\<close> bytes of the memory \<open>src\<close>.\<close>

definition openvpn_hmac_calc :: "u8 list \<Rightarrow> u8 list \<Rightarrow> u16 \<Rightarrow> u8 list" where
  "openvpn_hmac_calc hmac_key src len =
    (let ctx_inner = md5_nextBlock (map (\<lambda>b. b XOR 0x36) (take 16 hmac_key) @ replicate 48 0x36) md5_init;
         ctx_inner = md5_lastBlock src (push_bit 3 len) ctx_inner;
         ctx_outer = md5_nextBlock (map (\<lambda>b. b XOR 0x5c) (take 16 hmac_key) @ replicate 48 0x5c) md5_init
     in md5_digest (md5_lastBlock (md5_digest ctx_inner) 128 ctx_outer))"

definition openvpn_hmac_verify :: "u8 list \<Rightarrow> 'z uip_openvpn_state_scheme \<Rightarrow> bool" where
  "openvpn_hmac_verify hmac_key s \<longleftrightarrow>
    openvpn_hmac_calc hmac_key (drop (u_appdata s + 16) (u_buf s)) (u_len s - 16) \<noteq> slice (u_appdata s) 16 (u_buf s)"

definition openvpn_hmac_create :: "u8 list \<Rightarrow> 'z uip_openvpn_state_scheme \<Rightarrow> 'z uip_openvpn_state_scheme" where
  "openvpn_hmac_create hmac_key s =
    uip_put OPENVPN_LLH_LEN (openvpn_hmac_calc hmac_key (drop (OPENVPN_LLH_LEN + OPENVPN_HMAC_LLH_LEN) (u_buf s))
      (u_slen s - of_nat OPENVPN_HMAC_LLH_LEN)) s"

text \<open>\<open>STACK_OPENVPN\<close> is the number of the tunnel's own stack.\<close>

definition openvpn_process_out :: "nat \<Rightarrow> u8 list \<Rightarrow> u8 list \<Rightarrow> 'z uip_openvpn_state_scheme \<Rightarrow> 'z uip_openvpn_state_scheme" where
  "openvpn_process_out stack_openvpn hmac_key rnd s =
    (let s = s\<lparr>u_udp_conn := o_conn s\<rparr>;
         (stackno, s) = router_find_stack (Forward (d_ripaddr (u_udp_conns s ! u_udp_conn s))) s
     in if stackno = stack_openvpn then s\<lparr>u_len := 0\<rparr>
        else
          let s = uip_stack_set_active stackno s;
              s = uip_put OPENVPN_TOTAL_LLH_LEN (slice 14 (unat (u_len s)) (u_buf s)) s;
              s = s\<lparr>u_sappdata := 14 + 28, u_slen := u_len s + of_nat OPENVPN_HMAC_CRYPT_LEN\<rparr>
          in openvpn_hmac_create hmac_key (openvpn_encrypt rnd s))"

definition openvpn_handle_udp ::
  "('z uip_openvpn_state_scheme \<Rightarrow> 'z uip_openvpn_state_scheme option) \<Rightarrow> nat \<Rightarrow> u8 list \<Rightarrow> u8 list \<Rightarrow>
   'z uip_openvpn_state_scheme \<Rightarrow> 'z uip_openvpn_state_scheme option" where
  "openvpn_handle_udp router stack_openvpn hmac_key rnd s =
    (let k = u_udp_conn s
     in if d_lport (u_udp_conns s ! k) \<noteq> htons OPENVPN_PORT then Some s
        else if u_flags s AND UIP_NEWDATA = 0 then Some s
        else
          let s = s\<lparr>u_udp_conns := (u_udp_conns s)[k := (u_udp_conns s ! k)\<lparr>
                d_ripaddr := slice 26 4 (u_buf s), d_rport := raw16 (u_buf s) 34\<rparr>]\<rparr>
          in if openvpn_hmac_verify hmac_key s then Some s
             else
               let (failed, s) = openvpn_decrypt_and_verify s
               in if failed then Some s
                  else
                    let s = uip_put 14 (slice OPENVPN_TOTAL_LLH_LEN (unat (u_len s - of_nat OPENVPN_HMAC_CRYPT_LEN)) (u_buf s)) s;
                        s = s\<lparr>u_len := u_len s + 14 - of_nat OPENVPN_HMAC_CRYPT_LEN\<rparr>
                    in (case router s of None \<Rightarrow> None
                        | Some s \<Rightarrow> Some (if u_len s = 0 then s else openvpn_process_out stack_openvpn hmac_key rnd s)))"

definition openvpn_txstart ::
  "'z uip_openvpn_state_ext uip_router_state_ext uip_app \<Rightarrow> 'z uip_openvpn_state_ext uip_tx \<Rightarrow> nat \<Rightarrow> u8 list \<Rightarrow> u8 list \<Rightarrow>
   'z uip_openvpn_state_scheme \<Rightarrow> 'z uip_openvpn_state_scheme option" where
  "openvpn_txstart app tx stack_openvpn hmac_key rnd s =
    (if u_len s = 0 then Some s
     else
       let s = openvpn_process_out stack_openvpn hmac_key rnd s
       in if u_len s = 0 then Some s
          else map_option (router_output tx) (uip_process app UIP_UDP_SEND_CONN s))"

definition openvpn_init ::
  "u8 list \<Rightarrow> u8 list \<Rightarrow> u8 list \<Rightarrow> nat \<Rightarrow> 'z uip_openvpn_state_scheme \<Rightarrow> 'z uip_openvpn_state_scheme option" where
  "openvpn_init key ip netmask handler s =
    (let s = s\<lparr>o_ctx := cast5_init key 128\<rparr>;
         s = s\<lparr>u_stacks := (u_stacks s)[u_stack s := (ip, netmask)]\<rparr>
     in case uip_udp_new (Some all_ones_addr) 0 (Some handler) s of
          None \<Rightarrow> None
        | Some (None, s) \<Rightarrow> Some s
        | Some (Some k, s) \<Rightarrow>
            let s = s\<lparr>o_conn := k\<rparr>;
                s = s\<lparr>u_udp_conns := (u_udp_conns s)[k := (u_udp_conns s ! k)\<lparr>d_lport := htons OPENVPN_PORT\<rparr>]\<rparr>
            in Some (s\<lparr>o_appstate := (o_appstate s)[k := \<lparr>next_seqno = 1, seen_seqno = 0, seen_timestamp = 0\<rparr>]\<rparr>))"

section \<open>Chained blocks\<close>

fun cbc_encrypt :: "(u8 list \<Rightarrow> u8 list) \<Rightarrow> u8 list \<Rightarrow> u8 list list \<Rightarrow> u8 list list" where
  "cbc_encrypt enc iv [] = []"
| "cbc_encrypt enc iv (b # bs) = (let c = enc (map2 (XOR) b iv) in c # cbc_encrypt enc c bs)"

fun cbc_decrypt :: "(u8 list \<Rightarrow> u8 list) \<Rightarrow> u8 list \<Rightarrow> u8 list list \<Rightarrow> u8 list list" where
  "cbc_decrypt dec iv [] = []"
| "cbc_decrypt dec iv (c # cs) = map2 (XOR) (dec c) iv # cbc_decrypt dec c cs"

lemma map2_xor_twice: "length a = length b \<Longrightarrow> map2 (XOR) (map2 (XOR) a b) b = (a :: u8 list)"
proof (induction a b rule: list_induct2)
  case (Cons x xs y ys)
  then show ?case by (simp add: xor.assoc)
qed simp

text \<open>What the chaining needs of a cipher.\<close>

locale block_cipher =
  fixes enc dec :: "u8 list \<Rightarrow> u8 list"
  assumes dec_enc: "length b = 8 \<Longrightarrow> dec (enc b) = b"
    and length_enc: "length (enc b) = 8"
begin

lemma cbc_roundtrip: "length iv = 8 \<Longrightarrow> \<forall>b \<in> set bs. length b = 8 \<Longrightarrow> cbc_decrypt dec iv (cbc_encrypt enc iv bs) = bs"
  by (induction bs arbitrary: iv) (simp_all add: Let_def dec_enc length_enc map2_xor_twice)

lemma cbc_blocks: "length (cbc_encrypt enc iv bs) = length bs" "c \<in> set (cbc_encrypt enc iv bs) \<Longrightarrow> length c = 8"
  by (induction bs arbitrary: iv) (auto simp: Let_def length_enc)

end

lemma length_cast5 [simp]: "length (cast5_enc ctx b) = 8" "length (cast5_dec ctx b) = 8"
  by (simp_all add: cast5_enc_swap cast5_dec_swap bytes32_def split: prod.split)

interpretation cast5_cbc: block_cipher "cast5_enc ctx" "cast5_dec ctx" for ctx
  by unfold_locales (simp_all add: cast5_dec_enc_block)

lemma poke_append: "poke off (xs @ ys) buf = poke (off + length xs) ys (poke off xs buf)"
  by (induction xs arbitrary: off buf) simp_all

lemma concat_blocks: "\<forall>b \<in> set bs. length b = 8 \<Longrightarrow> length (concat bs) = 8 * length bs"
  by (induction bs) simp_all

lemma slice_split:
  assumes "slice p (8 + n) buf = b @ rest" "length b = 8" "p + 8 + n \<le> length buf"
  shows "slice p 8 buf = b" "slice (p + 8) n buf = rest"
  using slice_join [of p 8 buf n] assms by (auto simp: append_eq_append_conv)

lemma cbc_enc_loop_blocks:
  assumes "slice p (8 * length bs) buf = concat bs" "slice (p - 8) 8 buf = iv" "8 \<le> p" "p + 8 * length bs \<le> length buf"
    "\<forall>b \<in> set bs. length b = 8"
  shows "cbc_enc_loop ctx p (p + 8 * length bs) buf = poke p (concat (cbc_encrypt (cast5_enc ctx) iv bs)) buf"
  using assms
proof (induction bs arbitrary: p buf iv)
  case Nil
  then show ?case by (simp add: cbc_enc_loop.simps)
next
  case (Cons b bs)
  note sp = slice_split [of p "8 * length bs" buf b "concat bs"]
  have b: "slice p 8 buf = b" "slice (p + 8) (8 * length bs) buf = concat bs" using sp Cons.prems by simp_all
  define c where "c = cast5_enc ctx (map2 (XOR) b iv)"
  have "cbc_enc_loop ctx p (p + 8 * length (b # bs)) buf = cbc_enc_loop ctx (p + 8) (p + 8 + 8 * length bs) (poke p c buf)"
    using b(1) Cons.prems(2) by (subst cbc_enc_loop.simps) (simp add: c_def add.assoc)
  also have "\<dots> = poke (p + 8) (concat (cbc_encrypt (cast5_enc ctx) c bs)) (poke p c buf)"
    using b(2) Cons.prems by (intro Cons.IH) (simp_all add: slice_poke_other slice_poke_same c_def)
  finally show ?case by (simp add: poke_append c_def Let_def)
qed

lemma cbc_dec_loop_blocks:
  assumes "slice p (8 * length cs) buf = concat cs" "iv + 8 \<le> p" "p + 8 * length cs \<le> length buf" "\<forall>c \<in> set cs. length c = 8" "length this = 8"
  shows "let buf' = cbc_dec_loop ctx iv inside this p (p + 8 * length cs) buf in
    slice p (8 * length cs) buf' = concat (cbc_decrypt (cast5_dec ctx) this cs) \<and> length buf' = length buf \<and>
    (\<forall>off n. off + n \<le> iv \<or> iv + 8 \<le> off \<and> off + n \<le> p \<or> p + 8 * length cs \<le> off \<longrightarrow> slice off n buf' = slice off n buf)"
  using assms unfolding Let_def
proof (induction cs arbitrary: p buf this inside)
  case Nil
  then show ?case by (simp add: cbc_dec_loop.simps slice_def)
next
  case (Cons c cs)
  have c: "slice p 8 buf = c" "slice (p + 8) (8 * length cs) buf = concat cs"
    using slice_split [of p "8 * length cs" buf c "concat cs"] Cons.prems by simp_all
  define d where "d = map2 (XOR) (cast5_dec ctx c) this"
  define buf1 where "buf1 = poke p d (if inside then poke iv c buf else buf)"
  have d: "length d = 8" "length c = 8" using Cons.prems by (simp_all add: d_def)
  have b1: "slice (p + 8) (8 * length cs) buf1 = concat cs" "length buf1 = length buf" "slice p 8 buf1 = d"
    "\<And>off n. off + n \<le> iv \<or> iv + 8 \<le> off \<and> off + n \<le> p \<or> p + 8 \<le> off \<Longrightarrow> slice off n buf1 = slice off n buf"
    using c d Cons.prems by (auto simp: buf1_def slice_poke_other slice_poke_same)
  let ?r = "cbc_dec_loop ctx iv (\<not> inside) c (p + 8) (p + 8 + 8 * length cs) buf1"
  have e: "cbc_dec_loop ctx iv inside this p (p + 8 * length (c # cs)) buf = ?r"
    using c(1) by (subst cbc_dec_loop.simps) (simp add: d_def buf1_def Let_def add.assoc)
  have ih: "slice (p + 8) (8 * length cs) ?r = concat (cbc_decrypt (cast5_dec ctx) c cs) \<and> length ?r = length buf1 \<and>
    (\<forall>off n. off + n \<le> iv \<or> iv + 8 \<le> off \<and> off + n \<le> p + 8 \<or> p + 8 + 8 * length cs \<le> off \<longrightarrow> slice off n ?r = slice off n buf1)"
    using Cons.prems b1 d by (intro Cons.IH) simp_all
  have "slice p 8 ?r = d" using ih b1(3) Cons.prems(2) by simp
  then have "slice p (8 * length (c # cs)) ?r = concat (cbc_decrypt (cast5_dec ctx) this (c # cs))"
    using ih slice_join [of p 8 ?r "8 * length cs"] by (simp add: d_def)
  moreover have "length ?r = length buf" using ih b1(2) by simp
  moreover have "\<forall>off n. off + n \<le> iv \<or> iv + 8 \<le> off \<and> off + n \<le> p \<or> p + 8 * length (c # cs) \<le> off \<longrightarrow> slice off n ?r = slice off n buf"
    using ih b1(4) by auto
  ultimately show ?case unfolding e by (intro conjI)
qed

section \<open>The authentication code\<close>

text \<open>HMAC of RFC 2104 with MD5, for keys of up to a block.\<close>

definition hmac_md5 :: "u8 list \<Rightarrow> u8 list \<Rightarrow> u8 list" where
  "hmac_md5 key msg =
    (let k = key @ replicate (64 - length key) 0;
         ipad = replicate 64 0x36; opad = replicate 64 0x5c
     in rfc_md5 (map2 (XOR) k opad @ rfc_md5 (map2 (XOR) k ipad @ msg)))"

lemma map2_replicate: "map2 f xs (replicate (length xs) y) = map (\<lambda>x. f x y) xs"
  by (induction xs) simp_all

lemma hmac_pad:
  assumes "length key = 16"
  shows "map2 (XOR) (key @ replicate 48 0) (replicate 64 x) = map (\<lambda>b. b XOR x) (take 16 key) @ replicate 48 (x :: u8)"
proof -
  have l: "length (key @ replicate 48 (0 :: u8)) = 64" using assms by simp
  from map2_replicate [of "(XOR)" "key @ replicate 48 (0 :: u8)" x] show ?thesis
    unfolding l using assms by (simp add: map_replicate)
qed

lemma md5_one_block:
  assumes "length k = 64" "n \<le> length src" "n < 8192"
  shows "md5_digest (md5_lastBlock src (of_nat (8 * n)) (md5_nextBlock k md5_init)) = rfc_md5 (k @ take n src)"
  using md5_of_blocks [of "[k]" n src] assms by simp

lemma hmac_calc_is_hmac:
  assumes "length key = 16" "n \<le> length src" "n < 8192"
  shows "openvpn_hmac_calc key src (of_nat n) = hmac_md5 key (take n src)"
proof -
  have "push_bit 3 (of_nat n :: u16) = of_nat (8 * n)" by (simp add: push_bit_eq_mult)
  moreover have "length (rfc_md5 msg) = 16" for msg by (simp add: rfc_md5_def le32_def split: prod.split)
  moreover have "(128 :: u16) = of_nat (8 * 16)" by simp
  ultimately show ?thesis
    using assms md5_one_block [of "map (\<lambda>b. b XOR 0x36) (take 16 key) @ replicate 48 0x36" n src]
      md5_one_block [of "map (\<lambda>b. b XOR 0x5c) (take 16 key) @ replicate 48 0x5c" 16
        "rfc_md5 (map (\<lambda>b. b XOR 0x36) (take 16 key) @ replicate 48 0x36 @ take n src)"]
    by (simp add: openvpn_hmac_calc_def hmac_md5_def Let_def hmac_pad del: of_nat_mult)
qed

section \<open>A packet through the tunnel\<close>

lemma pad_loop_pads:
  "pad_loop c at n buf = (n + (8 - n mod 8), poke (at + n) (replicate (8 - n mod 8) c) buf)"
proof (induction c at n buf rule: pad_loop.induct)
  case (1 c at n buf)
  let ?buf = "poke (at + n) [c] buf"
  show ?case
  proof (cases "Suc n mod 8 \<noteq> 0")
    case True
    then have m: "8 - n mod 8 = Suc (8 - Suc n mod 8)" by (simp add: mod_Suc split: if_splits)
    have "pad_loop c at (Suc n) ?buf = (Suc n + (8 - Suc n mod 8), poke (at + Suc n) (replicate (8 - Suc n mod 8) c) ?buf)"
      using 1 [OF refl True] by simp
    with True show ?thesis unfolding m by (subst pad_loop.simps) (simp add: Let_def)
  next
    case False
    then have "n mod 8 = 7" by (simp add: mod_Suc split: if_splits)
    with False show ?thesis by (subst pad_loop.simps) (simp add: Let_def)
  qed
qed

lemma blocks_exist:
  "length xs = 8 * n \<Longrightarrow> \<exists>bs. concat bs = xs \<and> (\<forall>b \<in> set bs. length b = 8) \<and> length bs = n"
proof (induction n arbitrary: xs)
  case 0
  then show ?case by (intro exI [of _ "[]"]) simp
next
  case (Suc n)
  then have "length (drop 8 xs) = 8 * n" by simp
  from Suc.IH [OF this] obtain bs where "concat bs = drop 8 xs" "\<forall>b \<in> set bs. length b = 8" "length bs = n" by blast
  then show ?case using Suc.prems by (intro exI [of _ "take 8 xs # bs"]) simp
qed

lemma be32_bytes:
  "push_bit 24 (ucast (ucast (drop_bit 24 w) :: u8)) OR push_bit 16 (ucast (ucast (drop_bit 16 w) :: u8)) OR
   push_bit 8 (ucast (ucast (drop_bit 8 w) :: u8)) OR ucast (ucast w :: u8) = (w :: u32)"
proof (rule bit_word_eqI)
  fix n assume n: "n < LENGTH(32)"
  then consider "n < 8" | "8 \<le> n" "n < 16" | "16 \<le> n" "n < 24" | "24 \<le> n" "n < 32" by fastforce
  then show "bit (push_bit 24 (ucast (ucast (drop_bit 24 w) :: u8)) OR push_bit 16 (ucast (ucast (drop_bit 16 w) :: u8)) OR
      push_bit 8 (ucast (ucast (drop_bit 8 w) :: u8)) OR ucast (ucast w :: u8) :: u32) n = bit w n"
    by cases (auto simp: bit_simps)
qed

lemma get_be32_slice:
  assumes "slice i 4 b = put_be32 w" "i + 4 \<le> length b" shows "get_be32 b i = w"
proof -
  have "b ! i = put_be32 w ! 0" "b ! (i + 1) = put_be32 w ! 1" "b ! (i + 2) = put_be32 w ! 2" "b ! (i + 3) = put_be32 w ! 3"
    using nth_slice [of i 4 b 0] nth_slice [of i 4 b 1] nth_slice [of i 4 b 2] nth_slice [of i 4 b 3] assms by simp_all
  then show ?thesis by (simp add: get_be32_def put_be32_def be32_bytes)
qed

text \<open>
  The data of a datagram that carries \<open>payload\<close> with the packet number \<open>seq\<close> and the time stamp \<open>ts\<close>.
\<close>

definition tunnelled :: "cast5_ctx_t \<Rightarrow> u8 list \<Rightarrow> u32 \<Rightarrow> u32 \<Rightarrow> u8 list \<Rightarrow> u8 list \<Rightarrow> bool" where
  "tunnelled ctx key seq ts payload d \<longleftrightarrow>
    (\<exists>iv bs. length iv = 8 \<and> (\<forall>b \<in> set bs. length b = 8) \<and> concat bs = put_be32 seq @ put_be32 ts @ payload \<and>
      d = hmac_md5 key (iv @ concat (cbc_encrypt (cast5_enc ctx) iv bs)) @ iv @ concat (cbc_encrypt (cast5_enc ctx) iv bs))"

lemma length_hmac [simp]: "length (hmac_md5 key msg) = 16"
  by (simp add: hmac_md5_def rfc_md5_def le32_def Let_def split: prod.split)

lemma length_cbc: "length (concat (cbc_encrypt (cast5_enc ctx) iv bs)) = 8 * length bs"
  using concat_blocks [of "cbc_encrypt (cast5_enc ctx) iv bs"] by (simp add: cast5_cbc.cbc_blocks)

lemma tunnelled_length: "tunnelled ctx key seq ts payload d \<Longrightarrow> length d = 32 + length payload"
proof -
  assume "tunnelled ctx key seq ts payload d"
  then obtain iv bs where *: "length iv = 8" "\<forall>b \<in> set bs. length b = 8" "concat bs = put_be32 seq @ put_be32 ts @ payload"
    "d = hmac_md5 key (iv @ concat (cbc_encrypt (cast5_enc ctx) iv bs)) @ iv @ concat (cbc_encrypt (cast5_enc ctx) iv bs)"
    by (auto simp: tunnelled_def)
  have "length (put_be32 seq @ put_be32 ts @ payload) = 8 * length bs" using concat_blocks [OF *(2)] *(3) by simp
  then show ?thesis using * by (simp add: length_cbc put_be32_def)
qed

text \<open>The padding of a packet of \<open>n\<close> bytes: one to eight bytes, each their number.\<close>

definition padding :: "nat \<Rightarrow> u8 list" where
  "padding n = replicate (8 - n mod 8) (of_nat (8 - n mod 8))"

lemma padding_length [simp]: "length (padding n) = 8 - n mod 8"
  by (simp add: padding_def)

lemma padding_blocks: "\<exists>m. n + (8 - n mod 8) = 8 * (m :: nat)"
proof -
  have "n + (8 - n mod 8) = 8 * (n div 8 + 1)"
    by presburger
  then show ?thesis by blast
qed

lemma openvpn_process_out_eq:
  assumes "u_stacks s \<noteq> []" "route (u_stacks s) (u_draddr s) (d_ripaddr (u_udp_conns s ! o_conn s)) = Some e" "e \<noteq> stack"
    and n: "n = unat (u_len s)" "n + 40 < 65536"
    and b3: "b3 = poke 66 (put_be32 (next_seqno (o_appstate s ! o_conn s)) @ put_be32 0)
      (poke 58 rnd (poke (74 + n) (padding n) (poke 74 (slice 14 n (u_buf s)) (u_buf s))))"
    and b4: "b4 = cbc_enc_loop (o_ctx s) 66 (74 + n + (8 - n mod 8)) b3"
  shows "openvpn_process_out stack key rnd s =
    s\<lparr>u_udp_conn := o_conn s, u_stack := e, u_sappdata := 42, u_slen := of_nat (n + 32 + (8 - n mod 8)),
      o_appstate := (o_appstate s)[o_conn s := (o_appstate s ! o_conn s)\<lparr>next_seqno := next_seqno (o_appstate s ! o_conn s) + 1\<rparr>],
      u_buf := poke 42 (openvpn_hmac_calc key (drop 58 b4) (of_nat (n + 16 + (8 - n mod 8)))) b4\<rparr>"
proof -
  let ?s = "s\<lparr>u_udp_conn := o_conn s\<rparr>"
  have r: "router_find_stack (Forward (d_ripaddr (u_udp_conns s ! o_conn s))) ?s = (e, ?s\<lparr>u_stack := e\<rparr>)"
    using find_stack_dest [of ?s "d_ripaddr (u_udp_conns s ! o_conn s)"] assms(1,2) by (simp add: uip_stack_set_active_def)
  have l: "unat (u_len s + 32) = n + 32" using n by (subst unat_add_small) simp_all
  have m: "(n + 32) mod 8 = n mod 8" using mod_mult_self1 [of n 4 8] by simp
  define pl where "pl = 8 - n mod 8"
  have p: "(8 :: u8) - of_nat (n mod 8) = of_nat pl" by (simp add: pl_def of_nat_diff)
  have w: "(of_nat (n + 32 + pl) :: u16) - 16 = of_nat (n + 16 + pl)" by (simp add: algebra_simps)
  have "n + 32 + pl < 65536" using n(2) by (simp add: pl_def)
  then have u: "unat (of_nat (n + 32 + pl) :: u16) = n + 32 + pl"
    by (simp add: unsigned_of_nat take_bit_nat_eq_self del: of_nat_add)
  have pad: "pad_loop (of_nat pl) 42 (n + 32) buf = (n + 32 + pl, poke (74 + n) (replicate pl (of_nat pl)) buf)" for buf
    unfolding pad_loop_pads m pl_def [symmetric] by (simp add: add.commute)
  have e: "42 + (n + 32 + pl) = 74 + n + pl" by simp
  show ?thesis
    using assms(3) unfolding b4 b3 padding_def pl_def [symmetric]
    by (simp add: openvpn_process_out_def r Let_def uip_stack_set_active_def openvpn_encrypt_def pad uip_put_def
      openvpn_hmac_create_def l m p w u e n(1) [symmetric] del: poke.simps of_nat_diff of_nat_add)
qed

lemma length_put_be32 [simp]: "length (put_be32 w) = 4"
  by (simp add: put_be32_def)

lemma take_drop_slice: "take n (drop off buf) = slice off n buf"
  by (simp add: slice_def)

lemma openvpn_frame:
  assumes "length key = 16" "length rnd = 8" "length hdr = 8" "length pl = n" "length pad = k" "8 dvd n + k"
    and b: "74 + n + k \<le> length b" "length b \<le> 8192"
    and b3: "b3 = poke 66 hdr (poke 58 rnd (poke (74 + n) pad (poke 74 pl b)))"
    and b4: "b4 = cbc_enc_loop ctx 66 (74 + n + k) b3"
  shows "\<exists>bs. (\<forall>c \<in> set bs. length c = 8) \<and> concat bs = hdr @ pl @ pad \<and>
    slice 42 (n + 32 + k) (poke 42 (openvpn_hmac_calc key (drop 58 b4) (of_nat (n + 16 + k))) b4) =
      hmac_md5 key (rnd @ concat (cbc_encrypt (cast5_enc ctx) rnd bs)) @ rnd @ concat (cbc_encrypt (cast5_enc ctx) rnd bs)"
proof -
  obtain m where m: "n + k = 8 * m" using assms(6) by (elim dvdE)
  then have "length (hdr @ pl @ pad) = 8 * Suc m" using assms by simp
  from blocks_exist [OF this] obtain bs where bs: "concat bs = hdr @ pl @ pad" "\<forall>c \<in> set bs. length c = 8" "length bs = Suc m" by blast
  have len: "length b3 = length b" by (simp add: b3)
  have parts: "slice 58 8 b3 = rnd" "slice 66 8 b3 = hdr" "slice 74 n b3 = pl" "slice (74 + n) k b3 = pad"
    unfolding b3 using assms b by (simp_all add: slice_poke_other slice_poke_same)
  have "slice 66 (8 + (n + k)) b3 = concat bs" "8 + (n + k) = 8 * length bs"
    using slice_join [of 66 8 b3 "n + k"] slice_join [of 74 n b3 k] parts bs(1,3) m by simp_all
  then have "slice 66 (8 * length bs) b3 = concat bs" by simp
  moreover have e: "74 + n + k = 66 + 8 * length bs" using m bs(3) by simp
  ultimately have b4': "b4 = poke 66 (concat (cbc_encrypt (cast5_enc ctx) rnd bs)) b3"
    unfolding b4 e using cbc_enc_loop_blocks [of 66 bs b3 rnd ctx] parts(1) bs(2) len b(1) [unfolded e] by simp
  define c where "c = concat (cbc_encrypt (cast5_enc ctx) rnd bs)"
  have c: "length c = 8 + (n + k)" using length_cbc [of ctx rnd bs] m bs(3) by (simp add: c_def)
  have "slice 58 8 b4 = rnd" "slice 66 (8 + (n + k)) b4 = c" "length b4 = length b"
    using parts(1) len b(1) c by (simp_all add: b4' c_def [symmetric] slice_poke_other slice_poke_same)
  then have s58: "slice 58 (16 + (n + k)) b4 = rnd @ c" "length b4 = length b"
    using slice_join [of 58 8 b4 "8 + (n + k)"] by simp_all
  have h: "openvpn_hmac_calc key (drop 58 b4) (of_nat (n + 16 + k)) = hmac_md5 key (rnd @ c)"
    using hmac_calc_is_hmac [of key "n + 16 + k" "drop 58 b4"] assms(1) b s58
    by (simp add: take_drop_slice algebra_simps del: of_nat_add)
  have "slice 42 16 (poke 42 (hmac_md5 key (rnd @ c)) b4) = hmac_md5 key (rnd @ c)"
    "slice 58 (16 + (n + k)) (poke 42 (hmac_md5 key (rnd @ c)) b4) = rnd @ c"
    using s58 b(1) by (simp_all add: slice_poke_other slice_poke_same)
  then have "slice 42 (n + 32 + k) (poke 42 (hmac_md5 key (rnd @ c)) b4) = hmac_md5 key (rnd @ c) @ rnd @ c"
    using slice_join [of 42 16 "poke 42 (hmac_md5 key (rnd @ c)) b4" "16 + (n + k)"] by (simp add: algebra_simps)
  then show ?thesis using bs h unfolding c_def by (intro exI [of _ bs]) simp
qed

lemma openvpn_sends:
  assumes "u_stacks s \<noteq> []" "route (u_stacks s) (u_draddr s) (d_ripaddr (u_udp_conns s ! o_conn s)) = Some e" "e \<noteq> stack"
    and "length key = 16" "length rnd = 8" "n = unat (u_len s)" "82 + n \<le> length (u_buf s)" "length (u_buf s) \<le> 8192"
  shows "\<exists>b. openvpn_process_out stack key rnd s =
    s\<lparr>u_udp_conn := o_conn s, u_stack := e, u_sappdata := 42, u_slen := of_nat (n + 32 + (8 - n mod 8)),
      o_appstate := (o_appstate s)[o_conn s := (o_appstate s ! o_conn s)\<lparr>next_seqno := next_seqno (o_appstate s ! o_conn s) + 1\<rparr>],
      u_buf := b\<rparr> \<and>
    tunnelled (o_ctx s) key (next_seqno (o_appstate s ! o_conn s)) 0 (slice 14 n (u_buf s) @ padding n)
      (slice 42 (n + 32 + (8 - n mod 8)) b)"
proof -
  let ?hdr = "put_be32 (next_seqno (o_appstate s ! o_conn s)) @ put_be32 0"
  define b3 where "b3 = poke 66 ?hdr (poke 58 rnd (poke (74 + n) (padding n) (poke 74 (slice 14 n (u_buf s)) (u_buf s))))"
  define b4 where "b4 = cbc_enc_loop (o_ctx s) 66 (74 + n + (8 - n mod 8)) b3"
  have "8 dvd n + (8 - n mod 8)" using padding_blocks [of n] by auto
  from openvpn_frame [OF assms(4,5) _ _ _ this _ _ b3_def b4_def] assms
  have "tunnelled (o_ctx s) key (next_seqno (o_appstate s ! o_conn s)) 0 (slice 14 n (u_buf s) @ padding n)
    (slice 42 (n + 32 + (8 - n mod 8)) (poke 42 (openvpn_hmac_calc key (drop 58 b4) (of_nat (n + 16 + (8 - n mod 8)))) b4))"
    unfolding tunnelled_def by fastforce
  with openvpn_process_out_eq [OF assms(1-3,6) _ b3_def b4_def] assms(7,8) show ?thesis by fastforce
qed

text \<open>The datagram \<open>d\<close> has arrived at the tunnel's port.\<close>

definition arrived_at_tunnel :: "u8 list \<Rightarrow> 'z uip_openvpn_state_scheme \<Rightarrow> bool" where
  "arrived_at_tunnel d s \<longleftrightarrow>
    u_udp_conn s < length (o_appstate s) \<and> u_udp_conn s < length (u_udp_conns s) \<and>
    d_lport (u_udp_conns s ! u_udp_conn s) = htons OPENVPN_PORT \<and> u_flags s AND UIP_NEWDATA \<noteq> 0 \<and>
    u_appdata s = 42 \<and> u_len s = of_nat (length d) \<and> slice 42 (length d) (u_buf s) = d \<and>
    42 + length d \<le> length (u_buf s) \<and> length (u_buf s) \<le> 8192"

definition from_peer :: "'z uip_openvpn_state_scheme \<Rightarrow> 'z uip_openvpn_state_scheme" where
  "from_peer s = s\<lparr>u_udp_conns := (u_udp_conns s)[u_udp_conn s := (u_udp_conns s ! u_udp_conn s)\<lparr>
    d_ripaddr := slice 26 4 (u_buf s), d_rport := raw16 (u_buf s) 34\<rparr>]\<rparr>"

definition fresh :: "u32 \<Rightarrow> u32 \<Rightarrow> 'z uip_openvpn_state_scheme \<Rightarrow> bool" where
  "fresh seq ts s \<longleftrightarrow>
    seen_timestamp (o_appstate s ! u_udp_conn s) < ts \<or> seen_seqno (o_appstate s ! u_udp_conn s) < seq"

definition seen :: "u32 \<Rightarrow> u32 \<Rightarrow> 'z uip_openvpn_state_scheme \<Rightarrow> 'z uip_openvpn_state_scheme" where
  "seen seq ts s = s\<lparr>o_appstate := (o_appstate s)[u_udp_conn s :=
    (o_appstate s ! u_udp_conn s)\<lparr>seen_seqno := seq, seen_timestamp := ts\<rparr>]\<rparr>"

lemma slice_prefix: "n \<le> m \<Longrightarrow> slice off m buf = d \<Longrightarrow> slice off n buf = take n d"
  by (auto simp: slice_def min_def)

lemma openvpn_verifies:
  assumes "length key = 16" "u_appdata s = 42" "slice 42 (length d) (u_buf s) = d" "u_len s = of_nat (length d)"
    and "16 \<le> length d" "42 + length d \<le> length (u_buf s)" "length (u_buf s) \<le> 8192"
  shows "openvpn_hmac_verify key s \<longleftrightarrow> take 16 d \<noteq> hmac_md5 key (drop 16 d)"
proof -
  have "slice 58 (length d - 16) (u_buf s) = drop 16 d"
    using arg_cong [OF assms(3), of "drop 16"] by (simp add: slice_def drop_take)
  moreover have "u_len s - 16 = of_nat (length d - 16)" using assms(4,5) by (simp add: of_nat_diff)
  ultimately show ?thesis
    using hmac_calc_is_hmac [of key "length d - 16" "drop 58 (u_buf s)"] assms(1,2,6,7) slice_prefix [OF assms(5,3)]
    by (auto simp: openvpn_hmac_verify_def take_drop_slice)
qed

lemma openvpn_decrypts:
  assumes "u_appdata s = 42" "u_len s = of_nat (length d)" "slice 42 (length d) (u_buf s) = d"
    and "42 + length d \<le> length (u_buf s)" "length (u_buf s) \<le> 8192" "tunnelled (o_ctx s) key seq ts p d"
  shows "\<exists>b. openvpn_decrypt_and_verify s =
      (if fresh seq ts s then (False, seen seq ts (s\<lparr>u_buf := b\<rparr>)) else (True, s\<lparr>u_buf := b\<rparr>)) \<and>
    slice 74 (length p) b = p \<and> length b = length (u_buf s)"
proof -
  obtain iv bs where t: "length iv = 8" "\<forall>c \<in> set bs. length c = 8" "concat bs = put_be32 seq @ put_be32 ts @ p"
      "d = hmac_md5 key (iv @ concat (cbc_encrypt (cast5_enc (o_ctx s)) iv bs)) @ iv @ concat (cbc_encrypt (cast5_enc (o_ctx s)) iv bs)"
    using assms(6) by (auto simp: tunnelled_def)
  define cs where "cs = cbc_encrypt (cast5_enc (o_ctx s)) iv bs"
  have cs: "\<forall>c \<in> set cs. length c = 8" "length cs = length bs" "length (concat cs) = 8 * length bs"
    by (auto simp: cs_def length_cbc cast5_cbc.cbc_blocks)
  have m: "8 * length bs = 8 + length p" using concat_blocks [OF t(2)] t(3) by simp
  have ld: "length d = 24 + 8 * length bs" using t(1,4) cs(3) by (simp add: cs_def)
  have tail: "slice 58 (8 + 8 * length bs) (u_buf s) = iv @ concat cs"
    using arg_cong [OF assms(3), of "drop 16"] ld t(4) by (simp add: slice_def drop_take cs_def)
  then have sl: "slice 58 8 (u_buf s) = iv" "slice 66 (8 * length cs) (u_buf s) = concat cs"
    using slice_split [of 58 "8 * length bs" "u_buf s" iv "concat cs"] t(1) ld assms(4) cs(2) by simp_all
  define b where "b = cbc_dec_loop (o_ctx s) 58 False iv 66 (66 + 8 * length cs) (u_buf s)"
  have u: "unat (u_len s) = length d" using assms(2,4,5) by (simp add: unsigned_of_nat take_bit_nat_eq_self)
  have e: "42 + unat (u_len s) = 66 + 8 * length cs" using u ld cs(2) by simp
  have "slice 66 (8 * length cs) b = concat (cbc_decrypt (cast5_dec (o_ctx s)) iv cs)" "length b = length (u_buf s)"
    using cbc_dec_loop_blocks [where p = 66 and cs = cs and buf = "u_buf s" and iv = 58 and this = iv and ctx = "o_ctx s" and inside = False] sl cs t(1) ld assms(4) by (auto simp: b_def Let_def)
  then have "slice 66 (8 + length p) b = put_be32 seq @ put_be32 ts @ p" "length b = length (u_buf s)"
    using cast5_cbc.cbc_roundtrip [OF t(1,2)] t(3) m cs(2) by (simp_all add: cs_def)
  then have b: "slice 66 8 b = put_be32 seq @ put_be32 ts" "slice 74 (length p) b = p" "length b = length (u_buf s)"
    using slice_split [of 66 "length p" b "put_be32 seq @ put_be32 ts" p] ld m assms(4) by simp_all
  have "slice 66 4 b = put_be32 seq" "slice 70 4 b = put_be32 ts"
    using slice_join [of 66 4 b 4] b(1,3) ld m assms(4) by (auto simp: append_eq_append_conv)
  then have "get_be32 b 66 = seq" "get_be32 b 70 = ts"
    using get_be32_slice [of 66 b seq] get_be32_slice [of 70 b ts] b(3) ld m assms(4) by simp_all
  then show ?thesis using b(2,3)
    by (intro exI [of _ b]) (auto simp: openvpn_decrypt_and_verify_def Let_def assms(1) sl(1) e b_def [symmetric] fresh_def seen_def not_le)
qed

lemma openvpn_receives:
  assumes "length key = 16" "arrived_at_tunnel d s" "tunnelled (o_ctx s) key seq ts p d" "fresh seq ts s"
  shows "\<exists>b. slice 14 (length p) b = p \<and> length b = length (u_buf s) \<and>
    (\<forall>router stack rnd. openvpn_handle_udp router stack key rnd s =
      (case router ((seen seq ts (from_peer s))\<lparr>u_buf := b, u_len := of_nat (14 + length p)\<rparr>) of None \<Rightarrow> None
       | Some s \<Rightarrow> Some (if u_len s = 0 then s else openvpn_process_out stack key rnd s)))"
proof -
  have ld: "length d = 32 + length p" using tunnelled_length [OF assms(3)] .
  have a: "u_udp_conn s < length (u_udp_conns s)" "d_lport (u_udp_conns s ! u_udp_conn s) = htons OPENVPN_PORT"
    "u_flags s AND UIP_NEWDATA \<noteq> 0" "u_appdata s = 42" "u_len s = of_nat (length d)" "slice 42 (length d) (u_buf s) = d"
    "42 + length d \<le> length (u_buf s)" "length (u_buf s) \<le> 8192"
    using assms(2) by (simp_all add: arrived_at_tunnel_def)
  have f: "openvpn_hmac_verify key (from_peer s) = openvpn_hmac_verify key s"
    by (simp add: openvpn_hmac_verify_def from_peer_def)
  have v: "\<not> openvpn_hmac_verify key s"
    using openvpn_verifies [OF assms(1) a(4,6,5) _ a(7,8)] ld assms(3) by (auto simp: tunnelled_def)
  obtain b where b: "openvpn_decrypt_and_verify (from_peer s) =
      (if fresh seq ts (from_peer s) then (False, seen seq ts ((from_peer s)\<lparr>u_buf := b\<rparr>)) else (True, (from_peer s)\<lparr>u_buf := b\<rparr>))"
      "slice 74 (length p) b = p" "length b = length (u_buf s)"
    using openvpn_decrypts [of "from_peer s" d key seq ts p] a assms(3) by (auto simp: from_peer_def)
  have fr: "fresh seq ts (from_peer s)" using assms(4) by (simp add: fresh_def from_peer_def)
  have l: "u_len s - 32 = of_nat (length p)" "u_len s + 14 - 32 = of_nat (14 + length p)"
    using a(5) ld by (simp_all add: algebra_simps)
  have n: "unat (of_nat (length p) :: u16) = length p" using ld a(7,8) by (simp add: unsigned_of_nat take_bit_nat_eq_self)
  show ?thesis
  proof (intro exI [of _ "poke 14 p b"] conjI allI)
    show "slice 14 (length p) (poke 14 p b) = p" using b(3) a(7) ld by (simp add: slice_poke_same)
    show "length (poke 14 p b) = length (u_buf s)" using b(3) by simp
    fix router and stack :: nat and rnd
    show "openvpn_handle_udp router stack key rnd s =
      (case router ((seen seq ts (from_peer s))\<lparr>u_buf := poke 14 p b, u_len := of_nat (14 + length p)\<rparr>) of None \<Rightarrow> None
       | Some s \<Rightarrow> Some (if u_len s = 0 then s else openvpn_process_out stack key rnd s))"
      using a(2,3) v f b(1) fr l n b(2)
      by (simp add: openvpn_handle_udp_def Let_def from_peer_def [symmetric])
        (simp add: seen_def uip_put_def from_peer_def)
  qed
qed

lemma openvpn_refuses:
  assumes "length key = 16" "arrived_at_tunnel d s" "tunnelled (o_ctx s) key seq ts p d" "\<not> fresh seq ts s"
  shows "\<exists>b. length b = length (u_buf s) \<and> openvpn_handle_udp router stack key rnd s = Some ((from_peer s)\<lparr>u_buf := b\<rparr>)"
proof -
  have ld: "length d = 32 + length p" using tunnelled_length [OF assms(3)] .
  have a: "d_lport (u_udp_conns s ! u_udp_conn s) = htons OPENVPN_PORT"
    "u_flags s AND UIP_NEWDATA \<noteq> 0" "u_appdata s = 42" "u_len s = of_nat (length d)" "slice 42 (length d) (u_buf s) = d"
    "42 + length d \<le> length (u_buf s)" "length (u_buf s) \<le> 8192"
    using assms(2) by (simp_all add: arrived_at_tunnel_def)
  obtain b where b: "openvpn_decrypt_and_verify (from_peer s) = (True, (from_peer s)\<lparr>u_buf := b\<rparr>)" "length b = length (u_buf s)"
    using openvpn_decrypts [of "from_peer s" d key seq ts p] a assms(3,4) by (auto simp: from_peer_def fresh_def)
  have "\<not> openvpn_hmac_verify key (from_peer s)"
    using openvpn_verifies [of key "from_peer s" d] a ld assms(1,3) by (auto simp: tunnelled_def from_peer_def)
  with b show ?thesis
    by (intro exI [of _ b]) (simp add: openvpn_handle_udp_def Let_def from_peer_def [symmetric] a(1,2))
qed

lemma openvpn_forged:
  assumes "length key = 16" "arrived_at_tunnel d s" "16 \<le> length d" "take 16 d \<noteq> hmac_md5 key (drop 16 d)"
  shows "openvpn_handle_udp router stack key rnd s = Some (from_peer s)"
proof -
  have "openvpn_hmac_verify key (from_peer s)"
    using openvpn_verifies [of key "from_peer s" d] assms by (auto simp: from_peer_def arrived_at_tunnel_def)
  then show ?thesis
    using assms(2) by (simp add: openvpn_handle_udp_def Let_def from_peer_def [symmetric] arrived_at_tunnel_def)
qed

section \<open>A sequence of datagrams\<close>

text \<open>
  The receiver among datagrams of any origin: each is either forged or has a packet number, a time
  stamp and a payload.  The router writes down the packets it gets.
\<close>

record tunnel_log = uip_openvpn_state +
  routed :: "u8 list list"

definition log_router :: "tunnel_log \<Rightarrow> tunnel_log option" where
  "log_router s = Some (s\<lparr>routed := routed s @ [slice 14 (unat (u_len s) - 14) (u_buf s)], u_len := 0\<rparr>)"

definition datagram_in :: "nat \<Rightarrow> u8 list \<Rightarrow> tunnel_log \<Rightarrow> tunnel_log" where
  "datagram_in k d s = s\<lparr>u_udp_conn := k, u_flags := UIP_NEWDATA, u_appdata := 42, u_len := of_nat (length d), u_buf := poke 42 d (u_buf s)\<rparr>"

fun tunnel_hears :: "nat \<Rightarrow> nat \<Rightarrow> u8 list \<Rightarrow> u8 list list \<Rightarrow> tunnel_log \<Rightarrow> tunnel_log option" where
  "tunnel_hears stack k key [] s = Some s"
| "tunnel_hears stack k key (d # ds) s =
    (case openvpn_handle_udp log_router stack key [] (datagram_in k d s) of None \<Rightarrow> None | Some s \<Rightarrow> tunnel_hears stack k key ds s)"

fun authentic :: "cast5_ctx_t \<Rightarrow> u8 list \<Rightarrow> (u32 \<times> u32 \<times> u8 list) option \<Rightarrow> u8 list \<Rightarrow> bool" where
  "authentic ctx key (Some (seq, ts, p)) d \<longleftrightarrow> tunnelled ctx key seq ts p d"
| "authentic ctx key None d \<longleftrightarrow> 16 \<le> length d \<and> take 16 d \<noteq> hmac_md5 key (drop 16 d)"

text \<open>What the receiver accepts after the packet number \<open>q\<close> with the time stamp \<open>t\<close>.\<close>

fun window :: "u32 \<Rightarrow> u32 \<Rightarrow> (u32 \<times> u32 \<times> u8 list) option list \<Rightarrow> (u32 \<times> u32 \<times> u8 list) list" where
  "window q t [] = []"
| "window q t (None # es) = window q t es"
| "window q t (Some (seq, ts, p) # es) =
    (if t < ts \<or> q < seq then (seq, ts, p) # window seq ts es else window q t es)"

definition tunnel_station :: "nat \<Rightarrow> tunnel_log \<Rightarrow> bool" where
  "tunnel_station k s \<longleftrightarrow> k < length (o_appstate s) \<and> k < length (u_udp_conns s) \<and>
    d_lport (u_udp_conns s ! k) = htons OPENVPN_PORT \<and> length (u_buf s) \<le> 8192"

definition seen_at :: "nat \<Rightarrow> tunnel_log \<Rightarrow> u32 \<times> u32" where
  "seen_at k s = (seen_seqno (o_appstate s ! k), seen_timestamp (o_appstate s ! k))"

lemma datagram_arrives:
  assumes "tunnel_station k s" "42 + length d \<le> length (u_buf s)"
  shows "arrived_at_tunnel d (datagram_in k d s)" "o_ctx (datagram_in k d s) = o_ctx s"
    "fresh seq ts (datagram_in k d s) \<longleftrightarrow> snd (seen_at k s) < ts \<or> fst (seen_at k s) < seq"
  using assms by (simp_all add: tunnel_station_def datagram_in_def arrived_at_tunnel_def fresh_def seen_at_def slice_poke_same UIP_NEWDATA_def)

text \<open>What a datagram leaves of a station: all that matters, but for what it has seen and passed on.\<close>

lemma station_after:
  assumes "tunnel_station k s" "length b = length (u_buf s)"
  shows "tunnel_station k ((from_peer (datagram_in k d s))\<lparr>u_buf := b\<rparr>)" "seen_at k ((from_peer (datagram_in k d s))\<lparr>u_buf := b\<rparr>) = seen_at k s"
    "tunnel_station k (the (log_router ((seen seq ts (from_peer (datagram_in k d s)))\<lparr>u_buf := b, u_len := l\<rparr>)))"
    "seen_at k (the (log_router ((seen seq ts (from_peer (datagram_in k d s)))\<lparr>u_buf := b, u_len := l\<rparr>))) = (seq, ts)"
  using assms by (simp_all add: tunnel_station_def from_peer_def datagram_in_def seen_def log_router_def seen_at_def)

lemma station_frame:
  "o_ctx ((from_peer (datagram_in k d s))\<lparr>u_buf := b\<rparr>) = o_ctx s" "routed ((from_peer (datagram_in k d s))\<lparr>u_buf := b\<rparr>) = routed s"
  "u_buf ((from_peer (datagram_in k d s))\<lparr>u_buf := b\<rparr>) = b"
  "o_ctx (the (log_router ((seen seq ts (from_peer (datagram_in k d s)))\<lparr>u_buf := b, u_len := l\<rparr>))) = o_ctx s"
  "u_buf (the (log_router ((seen seq ts (from_peer (datagram_in k d s)))\<lparr>u_buf := b, u_len := l\<rparr>))) = b"
  "routed (the (log_router ((seen seq ts (from_peer (datagram_in k d s)))\<lparr>u_buf := b, u_len := l\<rparr>))) = routed s @ [slice 14 (unat l - 14) b]"
  by (simp_all add: from_peer_def datagram_in_def seen_def log_router_def)

lemma tunnel_hears_window:
  assumes "length key = 16" "tunnel_station k s" "list_all2 (authentic (o_ctx s) key) es ds"
    and "\<forall>d \<in> set ds. 42 + length d \<le> length (u_buf s)"
  shows "\<exists>s'. tunnel_hears stack k key ds s = Some s' \<and>
    routed s' = routed s @ map (snd \<circ> snd) (window (fst (seen_at k s)) (snd (seen_at k s)) es)"
  using assms(2-4)
proof (induction ds arbitrary: s es)
  case Nil
  then show ?case by simp
next
  case (Cons d ds)
  then obtain e es' where es: "es = e # es'" "authentic (o_ctx s) key e d" "list_all2 (authentic (o_ctx s) key) es' ds"
    by (auto simp: list_all2_Cons2)
  let ?in = "datagram_in k d s"
  note arr = datagram_arrives [OF Cons.prems(1), of d]
  have step: ?case
    if "openvpn_handle_udp log_router stack key [] ?in = Some t" "tunnel_station k t" "o_ctx t = o_ctx s" "length (u_buf t) = length (u_buf s)"
      "routed t @ map (snd \<circ> snd) (window (fst (seen_at k t)) (snd (seen_at k t)) es') =
       routed s @ map (snd \<circ> snd) (window (fst (seen_at k s)) (snd (seen_at k s)) es)" for t
    using Cons.IH [of t es'] that Cons.prems(3) es(3) by (simp add: comp_def)
  have li: "length (u_buf ?in) = length (u_buf s)" by (simp add: datagram_in_def)
  show ?case
  proof (cases e)
    case None
    have "openvpn_handle_udp log_router stack key [] ?in = Some ((from_peer ?in)\<lparr>u_buf := u_buf ?in\<rparr>)"
      using openvpn_forged [OF assms(1) arr(1)] es(2) None Cons.prems(3) by (simp add: from_peer_def)
    then show ?thesis
      using None es(1) station_after(1,2) [OF Cons.prems(1) li] li
      by (intro step [of "(from_peer ?in)\<lparr>u_buf := u_buf ?in\<rparr>"]) (simp_all add: station_frame)
  next
    case (Some x)
    then obtain seq ts p where e: "e = Some (seq, ts, p)" by (cases x) simp
    then have t: "tunnelled (o_ctx ?in) key seq ts p d" using es(2) arr(2) Cons.prems(3) by simp
    show ?thesis
    proof (cases "fresh seq ts ?in")
      case True
      obtain b where b: "slice 14 (length p) b = p" "length b = length (u_buf ?in)" "openvpn_handle_udp log_router stack key [] ?in =
          log_router ((seen seq ts (from_peer ?in))\<lparr>u_buf := b, u_len := of_nat (14 + length p)\<rparr>)"
        using openvpn_receives [OF assms(1) arr(1) t True] Cons.prems(3) by (auto simp: log_router_def)
      let ?t = "the (log_router ((seen seq ts (from_peer ?in))\<lparr>u_buf := b, u_len := of_nat (14 + length p)\<rparr>))"
      have "length p < 60000" using tunnelled_length [OF t] Cons.prems(1,3) by (simp add: tunnel_station_def)
      then have n: "unat (of_nat (14 + length p) :: u16) = 14 + length p" by (simp add: unsigned_of_nat take_bit_nat_eq_self del: of_nat_add)
      have "openvpn_handle_udp log_router stack key [] ?in = Some ?t" unfolding b(3) by (simp add: log_router_def)
      then show ?thesis
        using True e es(1) b(1,2) li n station_after(3,4) [OF Cons.prems(1), of b] arr(3) Cons.prems(3)
        by (intro step [of ?t]) (simp_all add: station_frame del: of_nat_add)
    next
      case False
      obtain b where b: "length b = length (u_buf ?in)" "openvpn_handle_udp log_router stack key [] ?in = Some ((from_peer ?in)\<lparr>u_buf := b\<rparr>)"
        using openvpn_refuses [OF assms(1) arr(1) t False, of log_router stack "[]"] Cons.prems(3) by auto
      then show ?thesis
        using False e es(1) li station_after(1,2) [OF Cons.prems(1), of b] arr(3) Cons.prems(3)
        by (intro step [of "(from_peer ?in)\<lparr>u_buf := b\<rparr>"]) (simp_all add: station_frame)
    qed
  qed
qed

lemma window_increasing:
  assumes "\<forall>seq ts p. Some (seq, ts, p) \<in> set es \<longrightarrow> ts = t"
  shows "sorted_wrt (<) (map fst (window q t es)) \<and> (\<forall>x \<in> set (window q t es). q < fst x \<and> Some x \<in> set es)"
  using assms
proof (induction q t es rule: window.induct)
  case (3 q t seq ts p es)
  have ts: "ts = t" and es: "\<forall>seq ts p. Some (seq, ts, p) \<in> set es \<longrightarrow> ts = t" using 3(3) by (simp, meson list.set_intros)
  show ?case
  proof (cases "q < seq")
    case True
    then have "sorted_wrt (<) (map fst (window seq t es)) \<and> (\<forall>x \<in> set (window seq t es). seq < fst x \<and> Some x \<in> set es)"
      using 3(1) ts es by blast
    then show ?thesis using True ts by (auto intro: less_trans [of q seq])
  next
    case False
    then show ?thesis using 3(2) ts es by auto
  qed
qed auto

text \<open>Two stations with the same keys, and datagrams for them.\<close>

definition demo_tunnel_key :: "u8 list" where "demo_tunnel_key = replicate 16 0x2a"

definition demo_station :: "u8 list \<Rightarrow> u16 \<Rightarrow> tunnel_log" where
  "demo_station data len =
    \<lparr>u_buf = poke 42 data (replicate 200 0), u_len = len, u_slen = 0, u_flags = UIP_NEWDATA, u_appdata = 42, u_sappdata = 0,
     u_conns = [], u_conn = None,
     u_udp_conns = [\<lparr>d_ripaddr = [10, 0, 1, 7], d_lport = htons OPENVPN_PORT, d_rport = 0, d_callback = None, d_stack = 0\<rparr>],
     u_udp_conn = 0, u_listenports = [], u_iss = [0, 0, 0, 1], u_ipid = 0, u_lastport = 1024,
     u_stacks = [([10, 0, 0, 1], [255, 255, 255, 0]), ([10, 0, 1, 1], [255, 255, 255, 0])], u_stack = 0, u_draddr = [10, 0, 0, 254],
     o_conn = 0, o_ctx = cast5_init (replicate 16 7) 128, o_appstate = [\<lparr>next_seqno = 1, seen_seqno = 0, seen_timestamp = 0\<rparr>], routed = []\<rparr>"

definition demo_datagram :: "u32 \<Rightarrow> u32 \<Rightarrow> u8 list" where
  "demo_datagram seq ts =
    (let c = replicate 8 0 @ concat (cbc_encrypt (cast5_enc (cast5_init (replicate 16 7) 128)) (replicate 8 0) [put_be32 seq @ put_be32 ts, replicate 8 1])
     in hmac_md5 demo_tunnel_key c @ c)"

definition demo_forged :: "u8 list" where
  "demo_forged = map (\<lambda>b. b + 1) (hmac_md5 demo_tunnel_key (replicate 16 0)) @ replicate 16 0"

lemma demo_datagram_authentic:
  "tunnelled (o_ctx (demo_station data l)) demo_tunnel_key seq ts (replicate 8 1) (demo_datagram seq ts)"
  unfolding tunnelled_def demo_datagram_def Let_def demo_station_def
  by (intro exI [of _ "replicate 8 0"] exI [of _ "[put_be32 seq @ put_be32 ts, replicate 8 1]"]) simp

lemma demo_datagram_length: "length (demo_datagram seq ts) = 40"
  using tunnelled_length [OF demo_datagram_authentic] by simp

lemma demo_forged_parts:
  "length demo_forged = 32" "take 16 demo_forged \<noteq> hmac_md5 demo_tunnel_key (drop 16 demo_forged)"
proof -
  have "map (\<lambda>b. b + 1) h \<noteq> h" if "length h = 16" for h :: "u8 list" using that by (cases h) auto
  then show "length demo_forged = 32" "take 16 demo_forged \<noteq> hmac_md5 demo_tunnel_key (drop 16 demo_forged)"
    by (simp_all add: demo_forged_def)
qed

lemma demo_station_parts:
  "length demo_tunnel_key = 16" "tunnel_station 0 (demo_station data l)" "seen_at 0 (demo_station data l) = (0, 0)"
  "routed (demo_station data l) = []" "length (u_buf (demo_station data l)) = 200"
  "length data \<le> 158 \<Longrightarrow> arrived_at_tunnel data (demo_station data (of_nat (length data)))"
  by (simp_all add: demo_tunnel_key_def demo_station_def tunnel_station_def seen_at_def arrived_at_tunnel_def slice_poke_same UIP_NEWDATA_def
    del: replicate.simps)

lemma demo_station_route: "route (u_stacks (demo_station data l)) (u_draddr (demo_station data l)) [10, 0, 1, 7] = Some 1"
  using demo_routes(1) by (simp add: demo_station_def demo_router_def)

section \<open>The properties\<close>

text \<open>
  C15. A packet sent through the tunnel arrives: the sender's datagram leaves by the stack on the way to
  the peer and is 32 bytes longer than the packet with its padding; a receiver with the same keys,
  at the same or another time, that has not seen a packet number as high gives its router the
  packet, unchanged but for the padding behind it, with the length the router expects, and remembers
  the number and the address of the sender.
\<close>

theorem openvpn_tunnels_packet:
  fixes sa :: "'a uip_openvpn_state_scheme" and sb :: "'b uip_openvpn_state_scheme"
  assumes "length key = 16" "length rnd = 8" "u_stacks sa \<noteq> []" "n = unat (u_len sa)" "82 + n \<le> length (u_buf sa)" "length (u_buf sa) \<le> 8192"
    and "route (u_stacks sa) (u_draddr sa) (d_ripaddr (u_udp_conns sa ! o_conn sa)) = Some e" "e \<noteq> stack"
    and "sa' = openvpn_process_out stack key rnd sa" "d = slice (u_sappdata sa') (unat (u_slen sa')) (u_buf sa')"
    and "o_ctx sb = o_ctx sa" "arrived_at_tunnel d sb"
    and "seen_seqno (o_appstate sb ! u_udp_conn sb) < next_seqno (o_appstate sa ! o_conn sa)"
  shows "u_stack sa' = e \<and> u_udp_conn sa' = o_conn sa \<and> length d = 32 + n + length (padding n) \<and>
    (\<exists>b. slice 14 (n + length (padding n)) b = slice 14 n (u_buf sa) @ padding n \<and>
      (\<forall>router stack' rnd'. openvpn_handle_udp router stack' key rnd' sb =
        (case router ((seen (next_seqno (o_appstate sa ! o_conn sa)) 0 (from_peer sb))\<lparr>
            u_buf := b, u_len := of_nat (14 + n + length (padding n))\<rparr>) of
           None \<Rightarrow> None | Some s \<Rightarrow> Some (if u_len s = 0 then s else openvpn_process_out stack' key rnd' s))))"
proof -
  let ?p = "slice 14 n (u_buf sa) @ padding n" let ?seq = "next_seqno (o_appstate sa ! o_conn sa)"
  obtain b where o: "u_sappdata sa' = 42" "u_slen sa' = of_nat (n + 32 + (8 - n mod 8))" "u_buf sa' = b" "u_stack sa' = e" "u_udp_conn sa' = o_conn sa"
    and t: "tunnelled (o_ctx sa) key ?seq 0 ?p (slice 42 (n + 32 + (8 - n mod 8)) b)"
    using openvpn_sends [OF assms(3,7,8,1,2,4,5,6)] unfolding assms(9) by fastforce
  have "n + 32 + (8 - n mod 8) < 65536" using assms(5,6) by simp
  then have d: "d = slice 42 (n + 32 + (8 - n mod 8)) b"
    unfolding assms(10) o by (simp only: unsigned_of_nat take_bit_nat_eq_self) (simp add: take_bit_nat_eq_self)
  have lp: "length ?p = n + length (padding n)" using assms(5) by (simp add: length_slice_buf)
  have "fresh ?seq 0 sb" using assms(13) by (simp add: fresh_def)
  from openvpn_receives [OF assms(1,12) _ this, of ?p] t assms(11)
  have "\<exists>b. slice 14 (length ?p) b = ?p \<and>
      (\<forall>router stack' rnd'. openvpn_handle_udp router stack' key rnd' sb =
        (case router ((seen ?seq 0 (from_peer sb))\<lparr>u_buf := b, u_len := of_nat (14 + length ?p)\<rparr>) of
           None \<Rightarrow> None | Some s \<Rightarrow> Some (if u_len s = 0 then s else openvpn_process_out stack' key rnd' s)))"
    by (auto simp: d)
  then show ?thesis
    using o(4,5) tunnelled_length [OF t] lp unfolding d [symmetric] lp by (simp only: add.assoc)
qed

theorem openvpn_tunnels_packet_witness:
  "\<exists>d b. length d = 32 + 24 \<and> slice 14 24 b = slice 14 20 (u_buf (demo_station [] 20)) @ [4, 4, 4, 4] \<and>
    openvpn_handle_udp Some 9 demo_tunnel_key [] (demo_station d 56) =
      Some (openvpn_process_out 9 demo_tunnel_key []
        ((seen 1 0 (from_peer (demo_station d 56)))\<lparr>u_buf := b, u_len := 38\<rparr>))"
proof -
  let ?sa = "demo_station [] 20"
  define sa' where "sa' = openvpn_process_out 9 demo_tunnel_key (replicate 8 0) ?sa"
  define d where "d = slice (u_sappdata sa') (unat (u_slen sa')) (u_buf sa')"
  have pad: "padding 20 = [4, 4, 4, 4]" by code_simp
  have sa: "u_stacks ?sa \<noteq> []" "o_conn ?sa = 0" "d_ripaddr (u_udp_conns ?sa ! 0) = [10, 0, 1, 7]" "next_seqno (o_appstate ?sa ! 0) = 1"
    "unat (u_len ?sa) = 20"
    by (simp_all add: demo_station_def)
  obtain b where "sa' = ?sa\<lparr>u_udp_conn := o_conn ?sa, u_stack := 1, u_sappdata := 42, u_slen := of_nat (20 + 32 + (8 - 20 mod 8)),
      o_appstate := (o_appstate ?sa)[o_conn ?sa := (o_appstate ?sa ! o_conn ?sa)\<lparr>next_seqno := next_seqno (o_appstate ?sa ! o_conn ?sa) + 1\<rparr>],
      u_buf := b\<rparr>"
    and t: "tunnelled (o_ctx ?sa) demo_tunnel_key (next_seqno (o_appstate ?sa ! o_conn ?sa)) 0 (slice 14 20 (u_buf ?sa) @ padding 20)
      (slice 42 (20 + 32 + (8 - 20 mod 8)) b)"
    using openvpn_sends [of ?sa 1 9 demo_tunnel_key "replicate 8 0" 20] demo_station_parts sa demo_station_route
    unfolding sa'_def by auto
  moreover have "length (slice 14 20 (u_buf ?sa)) = 20" by (simp add: length_slice_buf demo_station_parts)
  ultimately have ld: "length d = 56" using tunnelled_length [OF t] by (simp add: d_def pad)
  define sb where "sb = demo_station d 56"
  have sb: "arrived_at_tunnel d sb" "o_ctx sb = o_ctx ?sa" "seen_seqno (o_appstate sb ! u_udp_conn sb) = 0"
    using demo_station_parts(6) [of d] ld by (simp_all add: sb_def) (simp_all add: demo_station_def)
  have main: "\<exists>b. slice 14 (20 + length (padding 20)) b = slice 14 20 (u_buf ?sa) @ padding 20 \<and>
      (\<forall>router stack' rnd'. openvpn_handle_udp router stack' demo_tunnel_key rnd' sb =
        (case router ((seen (next_seqno (o_appstate ?sa ! o_conn ?sa)) 0 (from_peer sb))\<lparr>
            u_buf := b, u_len := of_nat (14 + 20 + length (padding 20))\<rparr>) of
           None \<Rightarrow> None | Some s \<Rightarrow> Some (if u_len s = 0 then s else openvpn_process_out stack' demo_tunnel_key rnd' s)))"
    using openvpn_tunnels_packet [OF demo_station_parts(1) _ sa(1) _ _ _ _ _ sa'_def d_def sb(2,1), of 20 1]
    by (simp only: sa sb demo_station_parts demo_station_route) simp
  then obtain b where "slice 14 24 b = slice 14 20 (u_buf ?sa) @ [4, 4, 4, 4]"
    "\<forall>router stack' rnd'. openvpn_handle_udp router stack' demo_tunnel_key rnd' (demo_station d 56) =
      (case router ((seen 1 0 (from_peer (demo_station d 56)))\<lparr>u_buf := b, u_len := 38\<rparr>) of
         None \<Rightarrow> None | Some s \<Rightarrow> Some (if u_len s = 0 then s else openvpn_process_out stack' demo_tunnel_key rnd' s))"
    by (auto simp: sb_def pad sa)
  then show ?thesis using ld by (intro exI [of _ d] exI [of _ b]) simp
qed



text \<open>
  The window does not stop every replay: the number and the time stamp are compared apart, so that
  after a datagram with a later time stamp and a lower number, as the first ones of a peer that has
  started again are, an older one that was accepted before is accepted again.
\<close>

theorem openvpn_replay_accepted:
  assumes "length key = 16" "tunnel_station k s" "tunnelled (o_ctx s) key seq1 ts1 p1 d1" "tunnelled (o_ctx s) key seq2 ts2 p2 d2"
    and "ts1 < ts2" "seq2 < seq1" "fst (seen_at k s) < seq1" "42 + length d1 \<le> length (u_buf s)" "42 + length d2 \<le> length (u_buf s)"
  shows "\<exists>s'. tunnel_hears stack k key [d1, d2, d1] s = Some s' \<and> routed s' = routed s @ [p1, p2, p1]"
  using tunnel_hears_window [of key k s "[Some (seq1, ts1, p1), Some (seq2, ts2, p2), Some (seq1, ts1, p1)]" "[d1, d2, d1]" stack] assms
  by (simp del: tunnel_hears.simps)

theorem openvpn_replay_accepted_witness:
  "\<exists>s'. tunnel_hears 9 0 demo_tunnel_key [demo_datagram 5 1, demo_datagram 1 2, demo_datagram 5 1] (demo_station [] 0) = Some s' \<and>
    routed s' = [replicate 8 1, replicate 8 1, replicate 8 1]"
  using openvpn_replay_accepted [of demo_tunnel_key 0 "demo_station [] 0" 5 1 "replicate 8 1" "demo_datagram 5 1" 1 2 "replicate 8 1" "demo_datagram 1 2" 9]
  by (simp add: demo_station_parts demo_datagram_authentic demo_datagram_length del: tunnel_hears.simps)

text \<open>
  A forged datagram cannot reach the router, but it moves the tunnel: without the key anyone turns
  the connection to an address and port of his choice, those his datagram comes from.
\<close>

theorem openvpn_forged_moves_tunnel:
  assumes "length key = 16" "arrived_at_tunnel d s" "16 \<le> length d" "take 16 d \<noteq> hmac_md5 key (drop 16 d)" "u_udp_conn s = o_conn s"
  shows "\<exists>s'. openvpn_handle_udp router stack key rnd s = Some s' \<and> o_conn s' = o_conn s \<and> o_appstate s' = o_appstate s \<and>
    d_ripaddr (u_udp_conns s' ! o_conn s') = slice 26 4 (u_buf s) \<and> d_rport (u_udp_conns s' ! o_conn s') = raw16 (u_buf s) 34"
  using openvpn_forged [OF assms(1-4)] assms(2,5) by (intro exI [of _ "from_peer s"]) (simp add: from_peer_def arrived_at_tunnel_def)

theorem openvpn_forged_moves_tunnel_witness:
  "\<exists>s'. openvpn_handle_udp Some 9 demo_tunnel_key [] (demo_station demo_forged 32) = Some s' \<and>
    d_ripaddr (u_udp_conns s' ! 0) = [0, 0, 0, 0]"
proof -
  let ?s = "demo_station demo_forged 32"
  have "arrived_at_tunnel demo_forged ?s" using demo_station_parts(6) [of demo_forged] demo_forged_parts(1) by simp
  moreover have "u_udp_conn ?s = o_conn ?s" by (simp add: demo_station_def)
  ultimately obtain s' where "openvpn_handle_udp Some 9 demo_tunnel_key [] ?s = Some s'" "d_ripaddr (u_udp_conns s' ! o_conn s') = slice 26 4 (u_buf ?s)"
      "o_conn s' = o_conn ?s"
    using openvpn_forged_moves_tunnel [OF demo_station_parts(1), of demo_forged ?s Some 9 "[]"] demo_forged_parts by auto
  moreover have "slice 26 4 (u_buf ?s) = [0, 0, 0, 0]"
    by (simp add: demo_station_def slice_poke_other del: replicate.simps) code_simp
  ultimately show ?thesis by (intro exI [of _ s']) (simp add: demo_station_def)
qed

end
