(* ===== verification/Spec2Isabelle.thy ===== *)
theory Spec2Isabelle imports Cron Zbus Cast5_Rfc Stella Vt100 Fs_Files Onewire_Spec Vfs_Copy Resolv Arp Rc5 Tftp Md5 Uip_Timer Uip_Udp Uip_States Openvpn begin

text \<open>
  Verification of the ethersex firmware.

  Ethersex is firmware for 8-bit AVR microcontrollers on Ethernet, radio or serial links.  It is
  put together at compile time from independent parts: a core (core/), hardware drivers
  (hardware/), protocols (protocols/) and services (services/).  A main loop calls each part's
  periodic function; interrupts do the rest.  This library models the parts that carry state and
  logic of their own, one theory per part, and proves what each of them promises.

  \<^bold>\<open>Conventions.\<close>  A C integer is a word of its width where the code relies on the width, and a number
  bounded by an invariant otherwise.  State is passed explicitly, as a record with one field for each
  static variable or register.  An interrupt handler is a function of the state, and what the parts
  can do in any order is a step relation with a predicate for the reachable states.  Undefined
  behaviour (a null pointer, an access outside an array, a division by zero) and a loop that does not
  end are the value None (but for the buffer of the TCP/IP stack, see the end), so a theorem with the
  result Some is also one of memory safety and termination.  Code outside the repository (malloc, the handlers a job calls, the chips) is an
  argument of the definitions, or is modelled by its documented behaviour where the driver drives
  the chip command by command.  Build options are fields of a configuration record.

  \<^bold>\<open>Theories.\<close>

  \<^item> Prelude: types, buffers and lemmas shared by the others.

  \<^item> Crc (core/eeprom.c, core/vfs/vfs-concat.c): the one-byte checksum, in the firmware's and the host
    tool's version, and its linearity, on which the detection of damaged data rests.

  \<^item> Eeprom (core/eeprom.c, eeprom.h, network_check_config of network.c): the configuration record with
    its layout, its checksum and the reset to defaults.  The locale field_store says what saving and
    restoring fields promises and is interpreted on eeprom_save and eeprom_restore.

  \<^item> Clock (services/clock/clock.c): the ticking and disciplined clock, and the conversions between
    timestamps and dates, UTC and local time.  The loops over years and months run on fuel that the
    lemmas show is enough for every 32-bit timestamp.

  \<^item> Cron (services/cron/cron.c, cron_ecmd.c, cron_static.c): the doubly linked list of jobs on the heap
    refines a list of jobs; a round runs the matching ones.  The locale time_source is its
    interface to the clock, interpreted on UTC, local time and the scheduler's choice of the two.

  \<^item> Zbus (protocols/zbus/zbus.c, process.c): framing with escapes, the interrupts that send and receive,
    and the buffer's lock.

  \<^item> Cast5_Sbox, Cast5, Cast5_Rfc (core/crypto/cast5.c, cast5-sbox.h): the cipher, its key schedule, the
    inverse property (from the locale feistel) and the test vector of RFC 2144.

  \<^item> Stella (services/stella/): pulse-width modulation; the main loop sorts brightness values into a
    linked timetable that the interrupts walk.

  \<^item> Tty, Tty_Driver, Vt100 (core/tty/, hardware/lcd/hd44780.c): windows on a character image drawn
    through a display driver.  The locales ll_display and ll_steady are the interface to the driver,
    interpreted on the s1d15g10 and HD44780 displays and the vt100 terminal; char_fifo is the keyboard
    queue's contract.  Vt100 is the ring behind the telnet terminal.

  \<^item> Df, Fs, Fs_Commit, Fs_Format, Fs_Dir, Fs_Remove, Fs_File, Fs_Content, Fs_Io, Fs_Spec, Fs_Files
    (hardware/storage/dataflash/df.c, fs.c, vfs_df.c): a copy-on-write file system on a dataflash chip.
    Df is the chip and the layout of the structures, Fs every operation of fs.c but those on
    contents, which are in Fs_File; Fs_Commit holds the invariant fs_ok and the update of the inode
    table, Fs_Format the set-up, Fs_Dir and Fs_Remove the directory, Fs_Content and Fs_Io the
    contents, Fs_Spec and Fs_Files the properties.  The locale versioned_pages is the principle of
    the commit (a torn page never looks like a root of the next version), interpreted on root pages.

  \<^item> Onewire, Onewire_Search, Onewire_Spec (hardware/onewire/): the bus, its commands, and the search for
    devices.  The locale onewire_devices states the laws of the 1-wire standard for a set of devices,
    and is interpreted on a simulation of such devices.

  \<^item> Vfs_Inline, Vfs, Vfs_Copy (core/vfs/): the files in the program memory with the host tool that
    appends them, the switch over the file systems, and copying between them.  The locales vfs_reader,
    vfs_writer and vfs_copier are the contracts of a source, a destination and of both, interpreted on
    the program memory and the dataflash.

  \<^item> Uip, Uip_Process (protocols/uip/uip.c, uip.h): the TCP/IP stack.  Each label that uip_process jumps
    to is a definition; a packet is the buffer it is in, and the applications, which may do anything to
    the state, are a parameter.  The loop over the options of a SYN is a partial function, since it
    may not end.  Uip_Sum relates the checksums to sums of 16-bit words; Uip_Wf holds the shape of the
    state, Uip_Out what leaves the stack, Uip_Icmp the adjusted checksum of an echo reply, Uip_Tcp the
    way of a segment to its connection.  The properties are in Uip_Spec (every packet), Uip_Open
    (opening), Uip_Stream (data), Uip_Timer (retransmission), Uip_Udp (datagrams between two stacks) and
    Uip_States (the states of all connections against the diagram of RFC 793).

  \<^item> Router (protocols/uip/uip_router.c, the timer at the end of uip.c): the choice of the stack a packet
    is for, and forwarding.

  \<^item> Openvpn (protocols/uip/uip_openvpn.c): the tunnel in static-key mode, which hands packets to and
    fro between the router and the datagrams of a connection.  The locale block_cipher is what its
    chaining of blocks needs of a cipher, interpreted on Cast5; its authentication code is the HMAC of
    RFC 2104 over Md5.

  \<^item> Arp (protocols/uip/uip_arp.c, uip_neighbor.c): address resolution and the table of neighbours.  The
    locale address_cache is the contract of both tables.

  \<^item> Resolv (protocols/dns/resolv.c): the table of names, the queries, and the parsing of replies.

  \<^item> Tftp (services/tftp/): the server over the virtual file system; the locales tftp_source and
    tftp_dest are what it needs of the file it sends or stores.

  \<^item> Md5 (core/crypto/md5.c): the hash of blocks and a last piece, equal to the one of RFC 1321.

  \<^item> Rc5 (hardware/ir/rc5/): the decoder of infrared commands, driven by edges and a timer, and the sender.

  \<^bold>\<open>Bounds.\<close>  fs_ok K says that K more pages can be allocated before the table of free pages has to be
  built anew; an update costs up to three.  Contents are verified for files of up to two pages,
  the directory up to its 60 entries.  list_devices has fuel n above the number of devices.  Loops that may not
  end (wait_converted, the file system's chains, the job list, the options of a SYN, the search for a
  free port) are partial functions without fuel.  A pending name is given up after at most 30 polls
  per entry, and a silent TCP peer after at most 246 timer calls more than the timer holds.

  \<^bold>\<open>Not modelled.\<close>  The SD card library and the USB driver are third-party code in the repository;
  drivers that only set registers, build scripts, the meta programming in m4, and the parsing and
  formatting of command texts (sscanf, snprintf) are left out.  The TCP/IP stack is modelled for
  IPv4; there a write behind the buffer has no effect and a read has no defined value, so its theorems
  say nothing of the memory behind the buffer.
\<close>

end
